(* ===== verification/Prelude.thy ===== *)
theory Prelude
  imports Main "HOL-Library.Word" "HOL-Library.Char_ord" "HOL-Library.Sublist"
begin

text \<open>
  Shared vocabulary of the development: bytes and machine integers, the error codes of
  \<^verbatim>\<open>apk_defines.h\<close>, the two result shapes (a checked error, a memory fault), the
  C library routines on memory that the sources call, and the list lemmas that several
  components use.

  A byte is a HOL \<^typ>\<open>char\<close> (exactly eight bits), so that the byte strings of the sources are
  HOL strings and their literals can be written as such. Bit operations go through
  \<^typ>\<open>8 word\<close> with \<open>ord8\<close> and \<open>chr8\<close>, which are inverse to each other.
\<close>

unbundle bit_operations_syntax

type_synonym bytes = "char list"
type_synonym u8 = "8 word"
type_synonym u16 = "16 word"
type_synonym u32 = "32 word"
type_synonym u64 = "64 word"

named_theorems bytes_simps \<open>rewrite rules for byte and word conversions\<close>
named_theorems blob_simps \<open>rewrite rules that evaluate blob operations\<close>

section \<open>Results\<close>

text \<open>
  The error codes that the modelled functions return (negated, in C). The \<open>APKE_\<close> codes are
  those of the enumeration in \<^verbatim>\<open>apk_defines.h\<close>, the others are \<^verbatim>\<open>errno\<close> values.
\<close>

datatype apk_error =
    ENOBUFS | ENOMEM | ENAMETOOLONG | EIO | ECANCELED | ENOENT | EINVAL | EBADMSG | ECONNABORTED | EPERM | EEXIST | ENOSPC | ENOSYS
  | APKE_FILE_UNCHANGED | APKE_EOF
  | APKE_CRYPTO_NOT_SUPPORTED | APKE_SIGNATURE_UNTRUSTED | APKE_SIGNATURE_INVALID
  | APKE_FORMAT_INVALID | APKE_FORMAT_OBSOLETE | APKE_FORMAT_NOT_SUPPORTED
  | APKE_PKGNAME_FORMAT | APKE_PKGVERSION_FORMAT | APKE_DEPENDENCY_FORMAT
  | APKE_ADB_COMPRESSION | APKE_ADB_HEADER | APKE_ADB_VERSION | APKE_ADB_SCHEMA
  | APKE_ADB_BLOCK | APKE_ADB_SIGNATURE | APKE_ADB_INTEGRITY | APKE_ADB_NO_FROMSTRING
  | APKE_ADB_LIMIT | APKE_ADB_PACKAGE_FORMAT
  | APKE_V2DB_FORMAT | APKE_V2PKG_FORMAT | APKE_V2PKG_INTEGRITY | APKE_V2NDX_FORMAT
  | APKE_PACKAGE_NOT_FOUND | APKE_PACKAGE_NAME_SPEC | APKE_INDEX_STALE | APKE_NOT_EXTRACTED | APKE_UVOL_ERROR
  | APKE_REPO_SYNTAX | APKE_REPO_KEYWORD | APKE_REPO_VARIABLE

text \<open>
  \<open>Fault\<close> is the outcome of a C function that reads or writes outside the memory it was given.
\<close>

datatype 'a outcome = Ret 'a | Fault

definition is_fault :: "'a outcome \<Rightarrow> bool" where
  "is_fault r = (case r of Ret _ \<Rightarrow> False | Fault \<Rightarrow> True)"

lemma is_fault_simps [simp]: "is_fault Fault" "\<not> is_fault (Ret x)"
  by (simp_all add: is_fault_def)

section \<open>Bytes\<close>

definition ord8 :: "char \<Rightarrow> u8" where
  "ord8 c = of_char c"

definition chr8 :: "u8 \<Rightarrow> char" where
  "chr8 w = char_of (unat w)"

abbreviation code :: "char \<Rightarrow> nat" where
  "code c \<equiv> of_char c"

abbreviation NUL :: char where
  "NUL \<equiv> CHR 0x00"

lemma unat_ord8 [simp, bytes_simps]: "unat (ord8 c) = code c"
proof -
  have "ord8 c = of_nat (code c)"
    by (simp add: ord8_def of_nat_of_char)
  then have "unat (ord8 c) = code c mod 2 ^ LENGTH(8)"
    by (simp add: unat_of_nat)
  then show ?thesis by simp
qed

lemma chr8_ord8 [simp, bytes_simps]: "chr8 (ord8 c) = c"
  by (simp add: chr8_def)

lemma unat_u8_less [simp]: "unat (w :: u8) < 256"
proof -
  have "unat w < 2 ^ LENGTH(8)" by (rule unsigned_less)
  then show ?thesis by simp
qed

lemma code_chr8 [simp, bytes_simps]: "code (chr8 w) = unat w"
  by (simp add: chr8_def)

lemma ord8_chr8 [simp, bytes_simps]: "ord8 (chr8 w) = w"
  by (simp add: word_unat_eq_iff)

lemma ord8_inject [simp]: "ord8 a = ord8 b \<longleftrightarrow> a = b"
  by (metis chr8_ord8)

lemma chr8_inject [simp]: "chr8 a = chr8 b \<longleftrightarrow> a = b"
  by (metis ord8_chr8)

lemma code_inject: "code a = code b \<longleftrightarrow> a = b"
  by simp

text \<open>A statement about all bytes is decided by checking the 256 values.\<close>

lemma all_bytes:
  assumes "list_all P (map char_of [0..<256])"
  shows "P c"
proof -
  have "char_of (code c) = c" by simp
  moreover have "code c \<in> set [0..<256]" by simp
  ultimately have "c \<in> set (map char_of [0..<256])"
    by (metis (no_types, lifting) image_eqI list.set_map)
  with assms show ?thesis by (auto simp: list_all_iff simp del: set_upt)
qed

text \<open>The value of a C \<^verbatim>\<open>char\<close> converted to \<^verbatim>\<open>int\<close> where \<^verbatim>\<open>char\<close> is signed.\<close>

definition schar :: "char \<Rightarrow> int" where
  "schar c = (let n = int (code c) in if n < 128 then n else n - 256)"

lemma schar_inject [simp]: "schar a = schar b \<longleftrightarrow> a = b"
proof
  assume "schar a = schar b"
  then have "int (code a) = int (code b)"
    using nat_of_char_less_256 [of a] nat_of_char_less_256 [of b]
    unfolding schar_def Let_def by (simp split: if_splits del: nat_of_char_less_256)
  then show "a = b" by simp
qed simp

section \<open>The C library on memory blocks\<close>

text \<open>
  \<^verbatim>\<open>memcmp\<close> on the common prefix: the difference of the first two bytes that differ, as
  unsigned characters, or 0. Callers use its sign only.
\<close>

fun memcmp :: "bytes \<Rightarrow> bytes \<Rightarrow> int" where
  "memcmp (x # xs) (y # ys) =
     (if x = y then memcmp xs ys else int (code x) - int (code y))"
| "memcmp _ _ = 0"

fun memrchr :: "bytes \<Rightarrow> char \<Rightarrow> nat option" where
  "memrchr [] c = None"
| "memrchr (x # xs) c =
     (case memrchr xs c of
        Some i \<Rightarrow> Some (Suc i)
      | None \<Rightarrow> if x = c then Some 0 else None)"

fun memmem :: "bytes \<Rightarrow> bytes \<Rightarrow> nat option" where
  "memmem h n =
     (if prefix n h then Some 0
      else case h of [] \<Rightarrow> None | _ # hs \<Rightarrow> map_option Suc (memmem hs n))"

declare memmem.simps [simp del]

fun memchr :: "bytes \<Rightarrow> char \<Rightarrow> nat option" where
  "memchr [] c = None"
| "memchr (x # xs) c = (if x = c then Some 0 else map_option Suc (memchr xs c))"

text \<open>The contents of a NUL-terminated string that starts with the given bytes.\<close>

definition cstr :: "bytes \<Rightarrow> bytes" where
  "cstr xs = takeWhile (\<lambda>c. c \<noteq> NUL) xs"

definition isspace :: "char \<Rightarrow> bool" where
  "isspace c \<longleftrightarrow> c = CHR '' '' \<or> (9 \<le> code c \<and> code c \<le> 13)"

definition isalpha :: "char \<Rightarrow> bool" where
  "isalpha c \<longleftrightarrow> (65 \<le> code c \<and> code c \<le> 90) \<or> (97 \<le> code c \<and> code c \<le> 122)"

definition islower :: "char \<Rightarrow> bool" where
  "islower c \<longleftrightarrow> 97 \<le> code c \<and> code c \<le> 122"

lemma memcmp_refl [simp]: "memcmp xs xs = 0"
  by (induction xs) auto

lemma memcmp_Nil [simp]: "memcmp [] ys = 0" "memcmp xs [] = 0"
  by (cases ys; simp) (cases xs; simp)

lemma memcmp_antisym: "memcmp ys xs = - memcmp xs ys"
  by (induction xs ys rule: memcmp.induct) auto

lemma memcmp_eq_0_iff:
  "length xs = length ys \<Longrightarrow> memcmp xs ys = 0 \<longleftrightarrow> xs = ys"
  by (induction xs ys rule: list_induct2) auto

lemma memcmp_take_eq_0:
  "length ys \<le> length xs \<Longrightarrow> memcmp xs ys = 0 \<longleftrightarrow> prefix ys xs"
  by (induction xs ys rule: memcmp.induct) (auto simp: neq_Nil_conv)

lemma memrchr_Some:
  "memrchr xs c = Some i \<Longrightarrow> i < length xs \<and> xs ! i = c \<and> c \<notin> set (drop (Suc i) xs)"
proof (induction xs c arbitrary: i rule: memrchr.induct)
  case (2 x xs c)
  show ?case
  proof (cases "memrchr xs c")
    case None
    moreover have "c \<notin> set xs"
      using None by (induction xs) (auto split: option.splits if_splits)
    ultimately show ?thesis using "2.prems" by (auto split: if_splits)
  next
    case (Some j)
    with 2 show ?thesis by auto
  qed
qed simp

lemma memrchr_None: "memrchr xs c = None \<longleftrightarrow> c \<notin> set xs"
  by (induction xs) (auto split: option.splits)

lemma memmem_Some:
  "memmem h n = Some i \<Longrightarrow> i \<le> length h \<and> prefix n (drop i h) \<and> (\<forall>j < i. \<not> prefix n (drop j h))"
proof (induction h n arbitrary: i rule: memmem.induct)
  case (1 h n)
  show ?case
  proof (cases "prefix n h")
    case True
    with "1.prems" show ?thesis by (simp add: memmem.simps)
  next
    case False
    with "1.prems" obtain x hs k where h: "h = x # hs" and k: "memmem hs n = Some k" "i = Suc k"
      by (auto simp: memmem.simps [of h] split: list.splits)
    from "1.IH" [OF False h k(1)] h k False show ?thesis
      by (auto simp: less_Suc_eq_0_disj)
  qed
qed

lemma all_Suc_le_iff: "(\<forall>i \<le> Suc n. P i) \<longleftrightarrow> P 0 \<and> (\<forall>i \<le> n. P (Suc i))"
proof
  assume *: "P 0 \<and> (\<forall>i \<le> n. P (Suc i))"
  show "\<forall>i \<le> Suc n. P i"
  proof (intro allI impI)
    fix i assume "i \<le> Suc n"
    with * show "P i" by (cases i) auto
  qed
qed auto

lemma memmem_None: "memmem h n = None \<longleftrightarrow> (\<forall>i \<le> length h. \<not> prefix n (drop i h))"
proof (induction h n rule: memmem.induct)
  case (1 h n)
  show ?case
  proof (cases h)
    case Nil
    then show ?thesis by (simp add: memmem.simps)
  next
    case (Cons x hs)
    have *: "(\<forall>i \<le> length h. \<not> prefix n (drop i h)) \<longleftrightarrow>
        \<not> prefix n h \<and> (\<forall>i \<le> length hs. \<not> prefix n (drop i hs))"
      unfolding Cons by (simp add: all_Suc_le_iff)
    show ?thesis
      unfolding * using "1.IH" Cons by (auto simp: memmem.simps [of "x # hs"])
  qed
qed

lemma memchr_Some_iff:
  "memchr xs c = Some i \<longleftrightarrow> i < length xs \<and> xs ! i = c \<and> c \<notin> set (take i xs)"
proof (induction xs arbitrary: i)
  case (Cons x xs)
  then show ?case by (cases i) auto
qed simp

lemma memmem_le: "memmem h n = Some i \<Longrightarrow> i + length n \<le> length h"
  using memmem_Some [of h n i] by (auto dest!: prefix_length_le)

subsection \<open>Comparing strings\<close>

definition strcmp :: "bytes \<Rightarrow> bytes \<Rightarrow> int" where
  "strcmp a b = memcmp (cstr a @ [NUL]) (cstr b @ [NUL])"

lemma code_NUL_iff: "code c = 0 \<longleftrightarrow> c = NUL" "0 < code c \<longleftrightarrow> c \<noteq> NUL"
  using code_inject [of c NUL] by auto

lemma memcmp_term:
  "NUL \<notin> set xs \<Longrightarrow> NUL \<notin> set ys \<Longrightarrow> memcmp (xs @ [NUL]) (ys @ [NUL]) = 0 \<longleftrightarrow> xs = ys"
proof (induction xs arbitrary: ys)
  case Nil
  then show ?case by (cases ys) (auto simp: code_NUL_iff)
next
  case (Cons x xs)
  then show ?case by (cases ys) (auto simp: code_inject code_NUL_iff)
qed

lemma cstr_no_NUL [simp]: "NUL \<notin> set (cstr xs)"
  by (auto simp: cstr_def dest: set_takeWhileD)

lemma strcmp_eq_0: "strcmp a b = 0 \<longleftrightarrow> cstr a = cstr b"
  by (simp add: strcmp_def memcmp_term)

lemma strcmp_antisym: "strcmp b a = - strcmp a b"
  by (simp add: strcmp_def memcmp_antisym [of "cstr b @ _"])

lemma cstr_idem [simp]: "cstr (cstr xs) = cstr xs"
  by (simp add: cstr_def)

lemma cstr_id: "NUL \<notin> set xs \<Longrightarrow> cstr xs = xs"
  by (auto simp: cstr_def takeWhile_eq_all_conv)

lemma cstr_append_NUL: "NUL \<notin> set xs \<Longrightarrow> cstr (xs @ NUL # ys) = xs"
  by (induction xs) (auto simp: cstr_def)

section \<open>Sorting\<close>

text \<open>
  \<^verbatim>\<open>qsort\<close> with a comparison function; elements that compare equal keep their order here, where the C
  library promises none.
\<close>

fun insert_by :: "('a \<Rightarrow> 'a \<Rightarrow> int) \<Rightarrow> 'a \<Rightarrow> 'a list \<Rightarrow> 'a list" where
  "insert_by cmp x [] = [x]"
| "insert_by cmp x (y # ys) = (if cmp x y \<le> 0 then x # y # ys else y # insert_by cmp x ys)"

definition qsort :: "('a \<Rightarrow> 'a \<Rightarrow> int) \<Rightarrow> 'a list \<Rightarrow> 'a list" where
  "qsort cmp xs = foldr (insert_by cmp) xs []"

lemma set_qsort [simp]: "set (qsort cmp xs) = set xs"
proof -
  have i: "set (insert_by cmp x ys) = insert x (set ys)" for x ys by (induction ys) auto
  show ?thesis unfolding qsort_def by (induction xs) (simp_all add: i)
qed

end
