(* ===== verification/Blob.thy ===== *)
theory Blob
  imports Prelude "HOL-Library.Monad_Syntax"
begin

text \<open>
  The blobs of \<^verbatim>\<open>apk_blob.h\<close> and the string operations of \<^verbatim>\<open>blob.c\<close>.

  A blob that is read is a value of type \<open>blob\<close>: \<open>None\<close> for \<^verbatim>\<open>APK_BLOB_NULL\<close> (a null pointer,
  length 0), \<open>Some xs\<close> for a non-null pointer to the bytes \<open>xs\<close>. A blob that is written (the
  \<^verbatim>\<open>to\<close> argument of the push functions) is a value of type \<open>wblob\<close>: \<open>None\<close> once a push did not
  fit, otherwise the bytes pushed since the start of the buffer and the room left.
\<close>

type_synonym blob = "bytes option"
type_synonym wblob = "(bytes \<times> nat) option"

definition blob_bytes :: "blob \<Rightarrow> bytes" where
  "blob_bytes b = (case b of None \<Rightarrow> [] | Some xs \<Rightarrow> xs)"

definition blob_len :: "blob \<Rightarrow> nat" where
  "blob_len b = length (blob_bytes b)"

lemma blob_bytes_simps [simp, blob_simps]: "blob_bytes None = []" "blob_bytes (Some xs) = xs"
  by (simp_all add: blob_bytes_def)

lemma blob_len_simps [simp, blob_simps]: "blob_len None = 0" "blob_len (Some xs) = length xs"
  by (simp_all add: blob_len_def)

definition APK_BLOB_BUF :: "nat \<Rightarrow> wblob" where
  "APK_BLOB_BUF n = Some ([], n)"

section \<open>Definitions\<close>

subsection \<open>Trimming\<close>

definition apk_blob_trim :: "blob \<Rightarrow> blob" where
  "apk_blob_trim b = map_option (\<lambda>xs. rev (dropWhile isspace (rev xs))) b"

definition apk_blob_trim_start :: "blob \<Rightarrow> char \<Rightarrow> blob" where
  "apk_blob_trim_start b ch = map_option (dropWhile (\<lambda>c. c = ch)) b"

definition apk_blob_trim_end :: "blob \<Rightarrow> char \<Rightarrow> blob" where
  "apk_blob_trim_end b ch = map_option (\<lambda>xs. rev (dropWhile (\<lambda>c. c = ch) (rev xs))) b"

definition apk_blob_truncate :: "blob \<Rightarrow> nat \<Rightarrow> blob" where
  "apk_blob_truncate b maxlen = map_option (take (min (blob_len b) maxlen)) b"

subsection \<open>Copies and searches\<close>

text \<open>The memory block that \<^verbatim>\<open>apk_blob_cstr\<close> allocates.\<close>

definition apk_blob_cstr :: "blob \<Rightarrow> bytes" where
  "apk_blob_cstr b =
     (let xs = blob_bytes b in
      if xs = [] then [NUL]
      else if last xs = NUL then cstr xs @ [NUL]
      else xs @ [NUL])"

definition apk_blob_dup :: "blob \<Rightarrow> blob" where
  "apk_blob_dup b = Some (blob_bytes b)"

definition apk_blob_rsplit :: "blob \<Rightarrow> char \<Rightarrow> (blob \<times> blob) option" where
  "apk_blob_rsplit b split =
     (case memrchr (blob_bytes b) split of
        None \<Rightarrow> None
      | Some i \<Rightarrow> Some (Some (take i (blob_bytes b)), Some (drop (Suc i) (blob_bytes b))))"

text \<open>The offset of the first match, or -1.\<close>

definition apk_blob_contains :: "blob \<Rightarrow> blob \<Rightarrow> int" where
  "apk_blob_contains b needle =
     (case b of
        None \<Rightarrow> - 1
      | Some h \<Rightarrow>
         (case memmem h (blob_bytes needle) of None \<Rightarrow> - 1 | Some i \<Rightarrow> int i))"

definition apk_blob_split :: "blob \<Rightarrow> blob \<Rightarrow> (blob \<times> blob) option" where
  "apk_blob_split b split =
     (let offs = apk_blob_contains b split in
      if offs < 0 then None
      else Some (Some (take (nat offs) (blob_bytes b)),
                 Some (drop (nat offs + blob_len split) (blob_bytes b))))"

text \<open>
  The part of a buffer of \<open>buflen\<close> bytes that has been pushed: the ends of the buffer and of
  the blob that is left must agree.
\<close>

definition apk_blob_pushed :: "nat \<Rightarrow> wblob \<Rightarrow> blob" where
  "apk_blob_pushed buflen left =
     (case left of
        None \<Rightarrow> None
      | Some (done, room) \<Rightarrow> if buflen \<noteq> length done + room then None else Some done)"

definition apk_blob_chr :: "blob \<Rightarrow> char \<Rightarrow> nat option" where
  "apk_blob_chr b ch = memchr (blob_bytes b) ch"

subsection \<open>Comparison\<close>

definition apk_blob_compare :: "blob \<Rightarrow> blob \<Rightarrow> int" where
  "apk_blob_compare a b =
     (if blob_len a = blob_len b then memcmp (blob_bytes a) (blob_bytes b)
      else if blob_len a < blob_len b then - 1
      else 1)"

definition apk_blob_sort :: "blob \<Rightarrow> blob \<Rightarrow> int" where
  "apk_blob_sort a b =
     (let n = min (blob_len a) (blob_len b);
          s = memcmp (take n (blob_bytes a)) (take n (blob_bytes b))
      in if s \<noteq> 0 then s else int (blob_len a) - int (blob_len b))"

definition apk_blob_starts_with :: "blob \<Rightarrow> blob \<Rightarrow> bool" where
  "apk_blob_starts_with a b =
     (if blob_len a < blob_len b then False
      else memcmp (take (blob_len b) (blob_bytes a)) (blob_bytes b) = 0)"

definition apk_blob_ends_with :: "blob \<Rightarrow> blob \<Rightarrow> bool" where
  "apk_blob_ends_with a b =
     (if blob_len a < blob_len b then False
      else memcmp (drop (blob_len a - blob_len b) (blob_bytes a)) (blob_bytes b) = 0)"

subsection \<open>The hash function\<close>

definition rotl32 :: "u32 \<Rightarrow> nat \<Rightarrow> u32" where
  "rotl32 x r = (push_bit r x OR drop_bit (32 - r) x)"

text \<open>The four bytes at a pointer, least significant first.\<close>

definition apk_unaligned_u32 :: "char \<Rightarrow> char \<Rightarrow> char \<Rightarrow> char \<Rightarrow> u32" where
  "apk_unaligned_u32 p0 p1 p2 p3 =
     (ucast (ord8 p0) OR push_bit 8 (ucast (ord8 p1)) OR push_bit 16 (ucast (ord8 p2))
      OR push_bit 24 (ucast (ord8 p3)))"

definition murmur3_mix :: "u32 \<Rightarrow> u32" where
  "murmur3_mix k = rotl32 (k * 0xcc9e2d51) 15 * 0x1b873593"

fun murmur3_blocks :: "bytes \<Rightarrow> u32 \<Rightarrow> u32 \<times> bytes" where
  "murmur3_blocks (p0 # p1 # p2 # p3 # key) h =
     murmur3_blocks key
       (rotl32 (h XOR murmur3_mix (apk_unaligned_u32 p0 p1 p2 p3)) 13 * 5 + 0xe6546b64)"
| "murmur3_blocks key h = (h, key)"

definition murmur3_tail :: "bytes \<Rightarrow> u32 \<Rightarrow> u32" where
  "murmur3_tail key h =
     (case key of
        [k0, k1, k2] \<Rightarrow>
          h XOR murmur3_mix (push_bit 16 (ucast (ord8 k2)) XOR push_bit 8 (ucast (ord8 k1))
                             XOR ucast (ord8 k0))
      | [k0, k1] \<Rightarrow> h XOR murmur3_mix (push_bit 8 (ucast (ord8 k1)) XOR ucast (ord8 k0))
      | [k0] \<Rightarrow> h XOR murmur3_mix (ucast (ord8 k0))
      | _ \<Rightarrow> h)"

definition murmur3_32 :: "bytes \<Rightarrow> u32 \<Rightarrow> u32" where
  "murmur3_32 key seed =
     (let (h, rest) = murmur3_blocks key seed;
          h = murmur3_tail rest h;
          h = h XOR word_of_nat (length key);
          h = h XOR drop_bit 16 h;
          h = h * 0x85ebca6b;
          h = h XOR drop_bit 13 h;
          h = h * 0xc2b2ae35
      in h XOR drop_bit 16 h)"

definition apk_blob_hash_seed :: "blob \<Rightarrow> u64 \<Rightarrow> u64" where
  "apk_blob_hash_seed b seed = ucast (murmur3_32 (blob_bytes b) (ucast seed))"

definition apk_blob_hash :: "blob \<Rightarrow> u64" where
  "apk_blob_hash b = apk_blob_hash_seed b 5381"

subsection \<open>Pushing and pulling\<close>

definition apk_blob_push_blob :: "wblob \<Rightarrow> blob \<Rightarrow> wblob" where
  "apk_blob_push_blob to literal =
     (case to of
        None \<Rightarrow> None
      | Some (done, room) \<Rightarrow>
          if room < blob_len literal then None
          else Some (done @ blob_bytes literal, room - blob_len literal))"

text \<open>
  \<open>fmt\<close> is the text that \<^verbatim>\<open>vsnprintf\<close> formats. It stores at most \<open>sz - 1\<close> of its bytes and a
  terminator, and returns the length of the whole text.
\<close>

definition vsnprintf_stored :: "nat \<Rightarrow> bytes \<Rightarrow> bytes" where
  "vsnprintf_stored sz fmt =
     (if sz = 0 then [] else take (sz - 1) fmt @ [NUL])"

definition apk_blob_fmt :: "nat \<Rightarrow> bytes \<Rightarrow> blob" where
  "apk_blob_fmt sz fmt =
     (let n = length fmt in
      if n \<ge> sz then None else Some (take n (vsnprintf_stored sz fmt)))"

definition apk_blob_push_fmt :: "wblob \<Rightarrow> bytes \<Rightarrow> wblob" where
  "apk_blob_push_fmt to fmt =
     (case to of
        None \<Rightarrow> None
      | Some (done, room) \<Rightarrow>
          let n = length fmt in
          if n \<le> room then Some (done @ take n (vsnprintf_stored room fmt), room - n)
          else None)"

definition apk_blob_pull_char :: "blob \<Rightarrow> int \<Rightarrow> blob" where
  "apk_blob_pull_char b expected =
     (case b of
        None \<Rightarrow> None
      | Some [] \<Rightarrow> None
      | Some (c # cs) \<Rightarrow> if schar c \<noteq> expected then None else Some cs)"

definition apk_blob_pull_blob_match :: "blob \<Rightarrow> blob \<Rightarrow> bool \<times> blob" where
  "apk_blob_pull_blob_match b match =
     (if blob_len b < blob_len match then (False, b)
      else if memcmp (take (blob_len match) (blob_bytes b)) (blob_bytes match) \<noteq> 0 then (False, b)
      else (True, map_option (drop (blob_len match)) b))"

text \<open>
  One call of the tokenizer: \<open>Some None\<close> when it returns 0, \<open>Some (Some (iter, b))\<close> when it
  returns 1. With an empty token the loop does not end, which is the result \<open>None\<close>.
\<close>

partial_function (option) apk_blob_tokenize ::
  "blob \<Rightarrow> blob \<Rightarrow> (blob \<times> blob) option option" where
  "apk_blob_tokenize b token =
     (case b of
        None \<Rightarrow> Some None
      | Some _ \<Rightarrow>
         (let (iter, b') = (case apk_blob_split b token of
                              Some (l, r) \<Rightarrow> (l, r)
                            | None \<Rightarrow> (b, None))
          in if blob_len iter = 0 then apk_blob_tokenize b' token
             else Some (Some (iter, b'))))"

text \<open>The loop \<^verbatim>\<open>apk_blob_foreach_token\<close>: the list of tokens it visits.\<close>

partial_function (option) apk_blob_foreach_token :: "blob \<Rightarrow> blob \<Rightarrow> bytes list option" where
  "apk_blob_foreach_token left token =
     do {
       r \<leftarrow> apk_blob_tokenize left token;
       (case r of
          None \<Rightarrow> Some []
        | Some (iter, left') \<Rightarrow> do {
            ts \<leftarrow> apk_blob_foreach_token left' token;
            Some (blob_bytes iter # ts)
          })
     }"

section \<open>Lemmas\<close>

subsection \<open>Comparison\<close>

lemma apk_blob_compare_eq_0 [blob_simps]:
  "apk_blob_compare a b = 0 \<longleftrightarrow> blob_bytes a = blob_bytes b"
  by (auto simp: apk_blob_compare_def blob_len_def memcmp_eq_0_iff)

lemma apk_blob_compare_antisym: "apk_blob_compare b a = - apk_blob_compare a b"
  by (auto simp: apk_blob_compare_def memcmp_antisym [of "blob_bytes b"])

lemma apk_blob_starts_with_iff [blob_simps]:
  "apk_blob_starts_with a b \<longleftrightarrow> prefix (blob_bytes b) (blob_bytes a)"
proof (cases "blob_len a < blob_len b")
  case True
  then show ?thesis
    by (auto simp: apk_blob_starts_with_def blob_len_def dest: prefix_length_le)
next
  case False
  then have "memcmp (take (blob_len b) (blob_bytes a)) (blob_bytes b) = 0
      \<longleftrightarrow> take (blob_len b) (blob_bytes a) = blob_bytes b"
    by (simp add: memcmp_eq_0_iff blob_len_def)
  also have "\<dots> \<longleftrightarrow> prefix (blob_bytes b) (blob_bytes a)"
    by (metis append_eq_conv_conj blob_len_def prefix_def take_is_prefix)
  finally show ?thesis
    using False by (simp add: apk_blob_starts_with_def)
qed

lemma suffix_drop_iff:
  "length ys \<le> length xs \<Longrightarrow> suffix ys xs \<longleftrightarrow> drop (length xs - length ys) xs = ys"
  by (auto simp: suffix_def) (metis append_take_drop_id)

lemma apk_blob_ends_with_iff [blob_simps]:
  "apk_blob_ends_with a b \<longleftrightarrow> suffix (blob_bytes b) (blob_bytes a)"
proof (cases "blob_len a < blob_len b")
  case True
  then show ?thesis
    by (auto simp: apk_blob_ends_with_def blob_len_def dest: suffix_length_le)
next
  case False
  then show ?thesis
    by (simp add: apk_blob_ends_with_def blob_len_def memcmp_eq_0_iff suffix_drop_iff)
qed

text \<open>
  \<^verbatim>\<open>apk_blob_sort\<close> is the lexicographic order on unsigned bytes, a proper prefix coming first.
\<close>

fun bytes_less :: "bytes \<Rightarrow> bytes \<Rightarrow> bool" where
  "bytes_less xs [] = False"
| "bytes_less [] (y # ys) = True"
| "bytes_less (x # xs) (y # ys) =
     (if x = y then bytes_less xs ys else code x < code y)"

lemma sort_bytes_less:
  "(let s = memcmp (take (min (length xs) (length ys)) xs) (take (min (length xs) (length ys)) ys)
    in if s \<noteq> 0 then s else int (length xs) - int (length ys)) < 0 \<longleftrightarrow> bytes_less xs ys"
  by (induction xs ys rule: bytes_less.induct) (auto simp: Let_def)

lemma apk_blob_sort_less: "apk_blob_sort a b < 0 \<longleftrightarrow> bytes_less (blob_bytes a) (blob_bytes b)"
  unfolding apk_blob_sort_def blob_len_def using sort_bytes_less by (auto simp: Let_def)

lemma apk_blob_sort_antisym: "apk_blob_sort b a = - apk_blob_sort a b"
  by (simp add: apk_blob_sort_def Let_def min.commute
      memcmp_antisym [of "take _ (blob_bytes b)" "take _ (blob_bytes a)"])

lemma bytes_less_irrefl [simp]: "\<not> bytes_less xs xs"
  by (induction xs) auto

lemma bytes_less_trans: "bytes_less xs ys \<Longrightarrow> bytes_less ys zs \<Longrightarrow> bytes_less xs zs"
proof (induction xs ys arbitrary: zs rule: bytes_less.induct)
  case (2 y ys)
  then show ?case by (cases zs) auto
next
  case (3 x xs y ys)
  then show ?case by (cases zs) (auto split: if_splits)
qed simp

lemma bytes_less_Nil_iff [simp]: "bytes_less [] ys \<longleftrightarrow> ys \<noteq> []"
  by (cases ys) auto

lemma bytes_less_total: "bytes_less xs ys \<or> xs = ys \<or> bytes_less ys xs"
proof (induction xs ys rule: bytes_less.induct)
  case (3 x xs y ys)
  have "x \<noteq> y \<Longrightarrow> code x < code y \<or> code y < code x"
    by (metis code_inject linorder_neqE_nat)
  with 3 show ?case by auto
qed auto

lemma apk_blob_sort_greater: "apk_blob_sort a b > 0 \<longleftrightarrow> bytes_less (blob_bytes b) (blob_bytes a)"
  using apk_blob_sort_less [of b a] apk_blob_sort_antisym [of b a] by auto

lemma apk_blob_sort_eq_0: "apk_blob_sort a b = 0 \<longleftrightarrow> blob_bytes a = blob_bytes b"
  by (metis apk_blob_sort_greater apk_blob_sort_less bytes_less_irrefl bytes_less_total
      less_irrefl linorder_neqE_linordered_idom)

subsection \<open>Splitting\<close>

lemma apk_blob_contains_nonneg:
  "0 \<le> apk_blob_contains b n \<longleftrightarrow>
     (\<exists>h i. b = Some h \<and> memmem h (blob_bytes n) = Some i \<and> apk_blob_contains b n = int i)"
  by (auto simp: apk_blob_contains_def split: option.splits)

lemma apk_blob_split_Some:
  "apk_blob_split b s = Some (l, r) \<longleftrightarrow>
     (\<exists>h i. b = Some h \<and> memmem h (blob_bytes s) = Some i \<and>
            l = Some (take i h) \<and> r = Some (drop (i + blob_len s) h))"
  by (auto simp: apk_blob_split_def Let_def apk_blob_contains_def split: option.splits)

lemma apk_blob_split_append:
  assumes "apk_blob_split b s = Some (l, r)"
  shows "blob_bytes b = blob_bytes l @ blob_bytes s @ blob_bytes r"
proof -
  from assms obtain h i where h: "b = Some h" "memmem h (blob_bytes s) = Some i"
      "l = Some (take i h)" "r = Some (drop (i + blob_len s) h)"
    by (auto simp: apk_blob_split_Some)
  from memmem_Some [OF h(2)] obtain zs where "drop i h = blob_bytes s @ zs"
    by (auto simp: prefix_def)
  moreover from this have "zs = drop (i + blob_len s) h"
    by (metis append_eq_conv_conj blob_len_def drop_drop add.commute)
  ultimately show ?thesis
    using h by (metis append_take_drop_id blob_bytes_simps(2))
qed

lemma apk_blob_split_None:
  "apk_blob_split (Some h) s = None \<longleftrightarrow> memmem h (blob_bytes s) = None"
  by (auto simp: apk_blob_split_def Let_def apk_blob_contains_def split: option.splits)

lemma apk_blob_split_shorter:
  "apk_blob_split b s = Some (l, r) \<Longrightarrow> blob_bytes s \<noteq> [] \<Longrightarrow> blob_len r < blob_len b"
  using apk_blob_split_append [of b s l r] by (simp add: blob_len_def)

lemma memmem_single: "memmem h [c] = memchr h c"
  by (induction h) (auto simp: memmem.simps prefix_Cons)

lemma memchr_takeWhile:
  "memchr h c = (if c \<in> set h then Some (length (takeWhile (\<lambda>x. x \<noteq> c) h)) else None)"
  by (induction h) auto

lemma dropWhile_eq_drop_takeWhile: "dropWhile P xs = drop (length (takeWhile P xs)) xs"
  by (induction xs) auto

lemma apk_blob_split_char:
  "apk_blob_split (Some h) (Some [c]) =
     (if c \<in> set h
      then Some (Some (takeWhile (\<lambda>x. x \<noteq> c) h), Some (tl (dropWhile (\<lambda>x. x \<noteq> c) h)))
      else None)"
  by (auto simp: apk_blob_split_def apk_blob_contains_def memmem_single memchr_takeWhile
      dropWhile_eq_drop_takeWhile takeWhile_eq_take [symmetric] drop_Suc tl_drop
      simp flip: takeWhile_eq_take)

lemma apk_blob_rsplit_Some:
  "apk_blob_rsplit b c = Some (l, r) \<Longrightarrow>
     blob_bytes b = blob_bytes l @ c # blob_bytes r \<and> c \<notin> set (blob_bytes r)"
  by (auto simp: apk_blob_rsplit_def dest!: memrchr_Some split: option.splits)
    (metis id_take_nth_drop)

lemma apk_blob_rsplit_None: "apk_blob_rsplit b c = None \<longleftrightarrow> c \<notin> set (blob_bytes b)"
  by (auto simp: apk_blob_rsplit_def memrchr_None [symmetric] split: option.splits)

subsection \<open>Pushing\<close>

text \<open>A buffer of \<open>n\<close> bytes: what has been pushed and the room left always add up to it.\<close>

definition wblob_ok :: "nat \<Rightarrow> wblob \<Rightarrow> bool" where
  "wblob_ok n w = (case w of None \<Rightarrow> True | Some (done, room) \<Rightarrow> length done + room = n)"

lemma wblob_ok_buf [simp]: "wblob_ok n (APK_BLOB_BUF n)"
  by (simp add: wblob_ok_def APK_BLOB_BUF_def)

lemma wblob_ok_push_blob: "wblob_ok n w \<Longrightarrow> wblob_ok n (apk_blob_push_blob w l)"
  by (auto simp: wblob_ok_def apk_blob_push_blob_def blob_len_def split: option.splits)

lemma apk_blob_pushed_ok: "wblob_ok n w \<Longrightarrow> apk_blob_pushed n w = map_option fst w"
  by (auto simp: wblob_ok_def apk_blob_pushed_def split: option.splits)

lemma apk_blob_push_blob_simps [blob_simps]:
  "apk_blob_push_blob None l = None"
  "apk_blob_push_blob (Some (d, n)) l =
     (if n < blob_len l then None else Some (d @ blob_bytes l, n - blob_len l))"
  by (simp_all add: apk_blob_push_blob_def)

lemma push_blob_append:
  "apk_blob_push_blob (apk_blob_push_blob w (Some a)) (Some b) = apk_blob_push_blob w (Some (a @ b))"
  by (auto simp: apk_blob_push_blob_def blob_len_def split: option.splits)

lemma push_blob_Nil [simp]: "apk_blob_push_blob w (Some []) = w"
  by (auto simp: apk_blob_push_blob_def blob_len_def split: option.splits)

lemma push_blob_Some:
  "apk_blob_push_blob w l = Some (d', n') \<longleftrightarrow>
     (\<exists>d n. w = Some (d, n) \<and> blob_len l \<le> n \<and> d' = d @ blob_bytes l \<and> n' = n - blob_len l)"
  by (cases w) (auto simp: apk_blob_push_blob_def split: if_splits)

subsection \<open>Tokens\<close>

text \<open>The reference: the pieces between the separators, the empty ones dropped.\<close>

fun split_on :: "char \<Rightarrow> bytes \<Rightarrow> bytes list" where
  "split_on c [] = [[]]"
| "split_on c (x # xs) =
     (if x = c then [] # split_on c xs
      else case split_on c xs of [] \<Rightarrow> [[x]] | w # ws \<Rightarrow> (x # w) # ws)"

definition blob_words :: "char \<Rightarrow> blob \<Rightarrow> bytes list" where
  "blob_words c b =
     (case b of None \<Rightarrow> [] | Some xs \<Rightarrow> filter (\<lambda>w. w \<noteq> []) (split_on c xs))"

definition left_size :: "blob \<Rightarrow> nat" where
  "left_size b = (case b of None \<Rightarrow> 0 | Some xs \<Rightarrow> Suc (length xs))"

lemma left_size_simps [simp]: "left_size None = 0" "left_size (Some xs) = Suc (length xs)"
  by (simp_all add: left_size_def)

lemma split_on_unfold:
  "split_on c h = takeWhile (\<lambda>x. x \<noteq> c) h #
     (if c \<in> set h then split_on c (tl (dropWhile (\<lambda>x. x \<noteq> c) h)) else [])"
  by (induction h) auto

text \<open>What the first half of the tokenizer's loop body computes.\<close>

definition token_step :: "blob \<Rightarrow> blob \<Rightarrow> blob \<times> blob" where
  "token_step b token =
     (case apk_blob_split b token of Some (l, r) \<Rightarrow> (l, r) | None \<Rightarrow> (b, None))"

lemma apk_blob_tokenize_unfold:
  "apk_blob_tokenize None token = Some None"
  "apk_blob_tokenize (Some xs) token =
     (case token_step (Some xs) token of (iter, b') \<Rightarrow>
        if blob_len iter = 0 then apk_blob_tokenize b' token else Some (Some (iter, b')))"
  by (subst apk_blob_tokenize.simps; simp add: token_step_def Let_def)+

lemma token_step_decreases:
  "blob_bytes token \<noteq> [] \<Longrightarrow> token_step (Some xs) token = (iter, b') \<Longrightarrow>
     left_size b' < left_size (Some xs)"
  by (cases b') (auto simp: token_step_def dest: apk_blob_split_shorter split: option.splits prod.splits)

lemma apk_blob_tokenize_returns:
  assumes "blob_bytes token \<noteq> []"
  shows "\<exists>r. apk_blob_tokenize b token = Some r \<and>
    (case r of None \<Rightarrow> True | Some (iter, b') \<Rightarrow> blob_bytes iter \<noteq> [] \<and> left_size b' < left_size b)"
proof (induction b rule: measure_induct_rule [where f = left_size])
  case (less b)
  show ?case
  proof (cases b)
    case None
    then show ?thesis by (simp add: apk_blob_tokenize_unfold)
  next
    case (Some xs)
    obtain iter b' where st: "token_step (Some xs) token = (iter, b')"
      by fastforce
    then have dec: "left_size b' < left_size b"
      using token_step_decreases [OF assms] Some by blast
    show ?thesis
    proof (cases "blob_len iter = 0")
      case True
      then have "apk_blob_tokenize b token = apk_blob_tokenize b' token"
        by (simp add: Some apk_blob_tokenize_unfold st)
      with less.IH [OF dec] dec show ?thesis
        by (fastforce split: option.splits prod.splits)
    next
      case False
      then show ?thesis
        using dec by (simp add: Some apk_blob_tokenize_unfold st blob_len_def)
    qed
  qed
qed

lemma token_step_words:
  assumes "token_step (Some xs) (Some [c]) = (iter, b')"
  shows "blob_words c (Some xs) =
    (if blob_len iter = 0 then blob_words c b' else blob_bytes iter # blob_words c b')"
proof (cases "c \<in> set xs")
  case True
  with assms show ?thesis
    by (auto simp: token_step_def apk_blob_split_char blob_words_def split_on_unfold [of c xs]
        split: if_splits)
next
  case False
  then have "split_on c xs = [xs]"
    by (subst split_on_unfold) (auto simp: takeWhile_eq_all_conv)
  with False assms show ?thesis
    by (auto simp: token_step_def apk_blob_split_char blob_words_def split: if_splits)
qed

lemma apk_blob_tokenize_words:
  "apk_blob_tokenize b (Some [c]) = Some r \<Longrightarrow>
     (case r of None \<Rightarrow> blob_words c b = []
      | Some (iter, b') \<Rightarrow> blob_words c b = blob_bytes iter # blob_words c b')"
proof (induction b rule: measure_induct_rule [where f = left_size])
  case (less b)
  show ?case
  proof (cases b)
    case None
    with less.prems show ?thesis by (auto simp: apk_blob_tokenize_unfold blob_words_def)
  next
    case (Some xs)
    obtain iter b' where st: "token_step (Some xs) (Some [c]) = (iter, b')"
      by fastforce
    have dec: "left_size b' < left_size b"
      using token_step_decreases [OF _ st] Some by simp
    from less.prems less.IH [OF dec] token_step_words [OF st] show ?thesis
      unfolding Some
      by (auto simp: apk_blob_tokenize_unfold st split: if_splits option.splits prod.splits)
  qed
qed

lemma foreach_token_total:
  assumes "blob_bytes token \<noteq> []"
  shows "\<exists>ts. apk_blob_foreach_token b token = Some ts \<and> (\<forall>t \<in> set ts. t \<noteq> [])"
proof (induction b rule: measure_induct_rule [where f = left_size])
  case (less b)
  obtain r where r: "apk_blob_tokenize b token = Some r"
    and rp: "case r of None \<Rightarrow> True
      | Some (iter, b') \<Rightarrow> blob_bytes iter \<noteq> [] \<and> left_size b' < left_size b"
    using apk_blob_tokenize_returns [OF assms] by blast
  show ?case
  proof (cases r)
    case None
    then show ?thesis by (subst apk_blob_foreach_token.simps) (simp add: r)
  next
    case (Some p)
    then obtain iter b' where p: "p = (iter, b')" by fastforce
    with less.IH [of b'] rp Some show ?thesis
      by (subst apk_blob_foreach_token.simps) (auto simp: r)
  qed
qed

lemma foreach_token_words: "apk_blob_foreach_token b (Some [c]) = Some (blob_words c b)"
proof (induction b rule: measure_induct_rule [where f = left_size])
  case (less b)
  obtain r where r: "apk_blob_tokenize b (Some [c]) = Some r"
    and rp: "case r of None \<Rightarrow> True
      | Some (iter, b') \<Rightarrow> blob_bytes iter \<noteq> [] \<and> left_size b' < left_size b"
    using apk_blob_tokenize_returns [of "Some [c]" b] by auto
  show ?case
  proof (cases r)
    case None
    then show ?thesis
      using apk_blob_tokenize_words [OF r] by (subst apk_blob_foreach_token.simps) (simp add: r)
  next
    case (Some p)
    then obtain iter b' where p: "p = (iter, b')" by fastforce
    with less.IH [of b'] rp Some apk_blob_tokenize_words [OF r] show ?thesis
      by (subst apk_blob_foreach_token.simps) (auto simp: r)
  qed
qed

section \<open>Properties\<close>

text \<open>
  \<^verbatim>\<open>apk_blob_sort\<close> is a strict total order on byte strings: exactly one of less, equal and
  greater holds, swapping the arguments swaps them, and less is transitive; equality is equality
  of the bytes, which \<^verbatim>\<open>apk_blob_compare\<close> decides as well.
\<close>

lemma blob_order:
  "(apk_blob_sort a b < 0 \<longleftrightarrow> apk_blob_sort b a > 0) \<and>
   (apk_blob_sort a b = 0 \<longleftrightarrow> blob_bytes a = blob_bytes b) \<and>
   (apk_blob_compare a b = 0 \<longleftrightarrow> blob_bytes a = blob_bytes b) \<and>
   (apk_blob_sort a b < 0 \<and> apk_blob_sort b c < 0 \<longrightarrow> apk_blob_sort a c < 0)"
proof (intro conjI impI)
  show "apk_blob_sort a b < 0 \<longleftrightarrow> apk_blob_sort b a > 0"
    by (simp add: apk_blob_sort_less apk_blob_sort_greater)
  show "apk_blob_sort a c < 0" if "apk_blob_sort a b < 0 \<and> apk_blob_sort b c < 0"
    using that bytes_less_trans [of "blob_bytes a" "blob_bytes b" "blob_bytes c"]
    by (simp add: apk_blob_sort_less)
qed (simp_all add: apk_blob_sort_eq_0 apk_blob_compare_eq_0)

lemma blob_order_witness:
  "apk_blob_sort (Some ''ab'') (Some ''abc'') < 0 \<and> apk_blob_sort (Some ''abc'') (Some ''b'') < 0 \<and>
   apk_blob_sort (Some ''ab'') (Some ''b'') < 0"
  using blob_order [of "Some ''ab''" "Some ''abc''" "Some ''b''"]
  by (simp add: apk_blob_sort_def)

text \<open>
  Splitting a blob at a separator: a result means that the blob is the left part, the separator
  and the right part, and that this is the first place where the separator occurs; no result means
  that the separator does not occur.
\<close>

lemma blob_split_first:
  "(case apk_blob_split (Some h) s of
      Some (l, r) \<Rightarrow>
        h = blob_bytes l @ blob_bytes s @ blob_bytes r \<and>
        (\<forall>j < blob_len l. \<not> prefix (blob_bytes s) (drop j h))
    | None \<Rightarrow> \<forall>j \<le> length h. \<not> prefix (blob_bytes s) (drop j h))"
proof (cases "apk_blob_split (Some h) s")
  case None
  moreover have "\<not> prefix (blob_bytes s) (drop j h)" if "j \<le> length h" for j
    using None that by (simp add: apk_blob_split_None memmem_None)
  ultimately show ?thesis by simp
next
  case (Some p)
  obtain l r where p: "p = (l, r)" by fastforce
  with Some obtain i where "memmem h (blob_bytes s) = Some i" "l = Some (take i h)"
    by (auto simp: apk_blob_split_Some)
  with memmem_Some [of h "blob_bytes s" i] apk_blob_split_append [of "Some h" s l r] Some p
  show ?thesis by simp
qed

lemma blob_split_first_witness:
  "(case apk_blob_split (Some ''a = b'') (Some '' = '') of
      Some (l, r) \<Rightarrow>
        ''a = b'' = blob_bytes l @ '' = '' @ blob_bytes r \<and>
        (\<forall>j < blob_len l. \<not> prefix '' = '' (drop j ''a = b''))
    | None \<Rightarrow> \<forall>j \<le> 5. \<not> prefix '' = '' (drop j ''a = b''))"
  using blob_split_first [of "''a = b''" "Some '' = ''"]
  by (auto split: option.splits prod.splits)

text \<open>
  The word loop \<^verbatim>\<open>apk_blob_foreach_token\<close> with a one-byte separator ends and visits the
  non-empty pieces between the separators, in order.
\<close>

lemma foreach_word_visits:
  "apk_blob_foreach_token (Some xs) (Some [c]) = Some (filter (\<lambda>w. w \<noteq> []) (split_on c xs))"
  using foreach_token_words [of "Some xs" c] by (simp add: blob_words_def)

text \<open>
  \<^verbatim>\<open>apk_blob_push_fmt\<close> reports success when the formatted text is exactly as long as the room
  that is left, but the last byte of the text has then been replaced by the terminator of
  \<^verbatim>\<open>vsnprintf\<close>; with more room the text is pushed as it is.
\<close>

lemma push_fmt_exact_fit:
  "apk_blob_push_fmt (Some (done, Suc (length fmt))) (fmt @ [c]) = Some (done @ fmt @ [NUL], 0) \<and>
   apk_blob_push_fmt (Some (done, Suc (length fmt) + Suc k)) (fmt @ [c]) =
     Some (done @ fmt @ [c], Suc k)"
  by (simp add: apk_blob_push_fmt_def vsnprintf_stored_def)

end
