(* ===== verification/Codec.thy ===== *)
theory Codec
  imports Blob
begin

text \<open>
  The text encodings of \<^verbatim>\<open>blob.c\<close>: unsigned integers in a radix, hexadecimal dumps and base64.
  Each has a push function (encode into a buffer) and a pull function (decode from the front of a
  blob). The decode tables are those of the source; what they mean is stated separately and
  checked against them.
\<close>

section \<open>Definitions\<close>

subsection \<open>Unsigned integers\<close>

definition digitdecode :: "nat list" where
  "digitdecode =
     replicate 40 0xff @
     [0xff, 0xff, 0xff, 0x3e, 0xff, 0xff, 0xff, 0xff] @
     [0, 1, 2, 3, 4, 5, 6, 7] @
     [8, 9, 0xff, 0xff, 0xff, 0xff, 0xff, 0xff] @
     [0xff, 0xa, 0xb, 0xc, 0xd, 0xe, 0xf, 0xff] @
     replicate 24 0xff @
     [0xff, 0xa, 0xb, 0xc, 0xd, 0xe, 0xf, 0xff] @
     replicate 152 0xff"

definition dx :: "char \<Rightarrow> nat" where
  "dx c = digitdecode ! code c"

definition xd :: bytes where
  "xd = ''0123456789abcdefghijklmnopqrstuvwxyz''"

text \<open>
  The digits that the loop of \<^verbatim>\<open>apk_blob_push_uint\<close> stores, most significant first. The sources
  use the radices 8, 10 and 16; below 2 the C loop divides by zero or does not end.
\<close>

fun uint_digits :: "nat \<Rightarrow> nat \<Rightarrow> bytes" where
  "uint_digits radix val =
     (if val = 0 \<or> radix < 2 then []
      else uint_digits radix (val div radix) @ [xd ! (val mod radix)])"

declare uint_digits.simps [simp del]

definition apk_blob_push_uint :: "wblob \<Rightarrow> u64 \<Rightarrow> nat \<Rightarrow> wblob" where
  "apk_blob_push_uint to val radix =
     (if val = 0 then apk_blob_push_blob to (Some ''0'')
      else apk_blob_push_blob to (Some (uint_digits radix (unat val))))"

fun pull_uint_loop :: "nat \<Rightarrow> bytes \<Rightarrow> u64 \<Rightarrow> u64 \<times> bytes" where
  "pull_uint_loop radix [] val = (val, [])"
| "pull_uint_loop radix (c # cs) val =
     (if c = NUL then (val, c # cs)
      else let ch = dx c in
        if ch \<ge> radix then (val, c # cs)
        else pull_uint_loop radix cs (val * word_of_nat radix + word_of_nat ch))"

definition apk_blob_pull_uint :: "blob \<Rightarrow> nat \<Rightarrow> u64 \<times> blob" where
  "apk_blob_pull_uint b radix =
     (case b of
        None \<Rightarrow> (0, None)
      | Some xs \<Rightarrow> (case pull_uint_loop radix xs 0 of (v, rest) \<Rightarrow> (v, Some rest)))"

subsection \<open>Hexadecimal\<close>

definition hex_byte :: "char \<Rightarrow> bytes" where
  "hex_byte c =
     [xd ! unat (drop_bit 4 (ord8 c) AND 0xf), xd ! unat (ord8 c AND 0xf)]"

definition apk_blob_push_hexdump :: "wblob \<Rightarrow> blob \<Rightarrow> wblob" where
  "apk_blob_push_hexdump to binary =
     (case to of
        None \<Rightarrow> None
      | Some (done, room) \<Rightarrow>
          if room < blob_len binary * 2 then None
          else Some (done @ concat (map hex_byte (blob_bytes binary)), room - blob_len binary * 2))"

text \<open>
  The loop of \<^verbatim>\<open>apk_blob_pull_hexdump\<close>: decode \<open>n\<close> bytes from \<open>s\<close>, collecting in \<open>r\<close> the
  disjunction of all table entries. Reading past the end of \<open>s\<close> is a fault.
\<close>

fun pull_hex_loop :: "nat \<Rightarrow> bytes \<Rightarrow> u8 \<Rightarrow> (u8 \<times> bytes \<times> bytes) outcome" where
  "pull_hex_loop 0 s r = Ret (r, [], s)"
| "pull_hex_loop (Suc n) (c1 # c2 # s) r =
     (let r1 = word_of_nat (dx c1); r2 = word_of_nat (dx c2) in
      case pull_hex_loop n s (r OR r1 OR r2) of
        Fault \<Rightarrow> Fault
      | Ret (r', out, s') \<Rightarrow> Ret (r', chr8 (push_bit 4 r1 + r2) # out, s'))"
| "pull_hex_loop (Suc n) _ r = Fault"

text \<open>
  \<open>to\<close> is the memory the digits are decoded into; the result is the rest of the blob (null on
  error) and the new contents of that memory.
\<close>

definition apk_blob_pull_hexdump :: "blob \<Rightarrow> bytes \<Rightarrow> (blob \<times> bytes) outcome" where
  "apk_blob_pull_hexdump b to =
     (case b of
        None \<Rightarrow> Ret (None, to)
      | Some xs \<Rightarrow>
          if length to > length xs * 2 then Ret (None, to)
          else case pull_hex_loop (length to) xs 0 of
                 Fault \<Rightarrow> Fault
               | Ret (r, out, rest) \<Rightarrow> if r = 0xff then Ret (None, out) else Ret (Some rest, out))"

subsection \<open>Base64\<close>

definition b64encode :: bytes where
  "b64encode = ''ABCDEFGHIJKLMNOPQRSTUVWXYZabcdefghijklmnopqrstuvwxyz0123456789+/''"

definition b64decode :: "nat list" where
  "b64decode =
     replicate 40 0xff @
     [0xff, 0xff, 0xff, 0x3e, 0xff, 0xff, 0xff, 0x3f] @
     [0x34, 0x35, 0x36, 0x37, 0x38, 0x39, 0x3a, 0x3b] @
     [0x3c, 0x3d, 0xff, 0xff, 0xff, 0x00, 0xff, 0xff] @
     [0xff, 0x00, 0x01, 0x02, 0x03, 0x04, 0x05, 0x06] @
     [0x07, 0x08, 0x09, 0x0a, 0x0b, 0x0c, 0x0d, 0x0e] @
     [0x0f, 0x10, 0x11, 0x12, 0x13, 0x14, 0x15, 0x16] @
     [0x17, 0x18, 0x19, 0xff, 0xff, 0xff, 0xff, 0xff] @
     [0xff, 0x1a, 0x1b, 0x1c, 0x1d, 0x1e, 0x1f, 0x20] @
     [0x21, 0x22, 0x23, 0x24, 0x25, 0x26, 0x27, 0x28] @
     [0x29, 0x2a, 0x2b, 0x2c, 0x2d, 0x2e, 0x2f, 0x30] @
     [0x31, 0x32, 0x33, 0xff, 0xff, 0xff, 0xff, 0xff] @
     replicate 128 0xff"

definition enc64 :: "u8 \<Rightarrow> char" where
  "enc64 w = b64encode ! unat w"

definition dec64 :: "char \<Rightarrow> u8" where
  "dec64 c = word_of_nat (b64decode ! code c)"

text \<open>The four groups of six bits of three bytes, and the three bytes of four such groups.\<close>

definition sextet0 :: "u8 \<Rightarrow> u8" where
  "sextet0 s0 = drop_bit 2 s0"

definition sextet1 :: "u8 \<Rightarrow> u8 \<Rightarrow> u8" where
  "sextet1 s0 s1 = (push_bit 4 (s0 AND 0x03) OR drop_bit 4 (s1 AND 0xf0))"

definition sextet2 :: "u8 \<Rightarrow> u8 \<Rightarrow> u8" where
  "sextet2 s1 s2 = (push_bit 2 (s1 AND 0x0f) OR drop_bit 6 (s2 AND 0xc0))"

definition sextet3 :: "u8 \<Rightarrow> u8" where
  "sextet3 s2 = (s2 AND 0x3f)"

definition octet0 :: "u8 \<Rightarrow> u8 \<Rightarrow> u8" where
  "octet0 t0 t1 = (push_bit 2 t0 OR drop_bit 4 t1)"

definition octet1 :: "u8 \<Rightarrow> u8 \<Rightarrow> u8" where
  "octet1 t1 t2 = (push_bit 4 t1 OR drop_bit 2 t2)"

definition octet2 :: "u8 \<Rightarrow> u8 \<Rightarrow> u8" where
  "octet2 t2 t3 = ((push_bit 6 t2 AND 0xc0) OR t3)"

definition push_b64_tail :: "bytes \<Rightarrow> bytes" where
  "push_b64_tail from =
     (let f0 = ord8 (from ! 0);
          f1 = (if length from = 2 then ord8 (from ! 1) else 0);
          t2 = (if length from = 2 then enc64 (push_bit 2 (f1 AND 0x0f)) else CHR ''='')
      in [enc64 (sextet0 f0),
          enc64 (sextet1 f0 f1),
          t2,
          CHR ''=''])"

fun push_b64_loop :: "bytes \<Rightarrow> bytes" where
  "push_b64_loop (s0 # s1 # s2 # src) =
     [enc64 (sextet0 (ord8 s0)),
      enc64 (sextet1 (ord8 s0) (ord8 s1)),
      enc64 (sextet2 (ord8 s1) (ord8 s2)),
      enc64 (sextet3 (ord8 s2))] @ push_b64_loop src"
| "push_b64_loop [] = []"
| "push_b64_loop src = push_b64_tail src"

definition b64_needed :: "nat \<Rightarrow> nat" where
  "b64_needed len = ((len + 2) div 3) * 4"

definition apk_blob_push_base64 :: "wblob \<Rightarrow> blob \<Rightarrow> wblob" where
  "apk_blob_push_base64 to binary =
     (case to of
        None \<Rightarrow> None
      | Some (done, room) \<Rightarrow>
          let needed = b64_needed (blob_len binary) in
          if room < needed then None
          else Some (done @ push_b64_loop (blob_bytes binary), room - needed))"

text \<open>The tail decoder: success, and the bytes stored at the front of the last \<open>len\<close> bytes.\<close>

definition pull_b64_tail :: "bytes \<Rightarrow> bytes \<Rightarrow> bool \<times> bytes" where
  "pull_b64_tail to from =
     (let len = length to;
          tmp0 = dec64 (from ! 0); tmp1 = dec64 (from ! 1);
          tmp2 = dec64 (from ! 2); tmp3 = dec64 (from ! 3);
          r = tmp0 OR tmp1 OR tmp2 OR tmp3
      in if r = 0xff then (False, to)
         else
           let to = to[0 := chr8 (octet0 tmp0 tmp1)] in
           if len \<le> 1 \<and> from ! 2 \<noteq> CHR ''='' then (False, to)
           else
             let to = (if len > 1 then to[1 := chr8 (octet1 tmp1 tmp2)] else to) in
             if len \<le> 2 \<and> from ! 3 \<noteq> CHR ''='' then (False, to)
             else
               let to = (if len > 2
                         then to[2 := chr8 (octet2 tmp2 tmp3)] else to)
               in (True, to))"

text \<open>
  The main loop runs while more than two bytes are wanted. It returns the collected table
  entries, the decoded bytes and the source at the tail.
\<close>

fun pull_b64_loop :: "nat \<Rightarrow> bytes \<Rightarrow> u8 \<Rightarrow> u8 \<times> bytes \<times> bytes" where
  "pull_b64_loop n (s0 # s1 # s2 # s3 # src) r =
     (if n > 2
      then let tmp0 = dec64 s0; tmp1 = dec64 s1; tmp2 = dec64 s2; tmp3 = dec64 s3;
               out = [chr8 (octet0 tmp0 tmp1),
                      chr8 (octet1 tmp1 tmp2),
                      chr8 (octet2 tmp2 tmp3)]
           in case pull_b64_loop (n - 3) src (r OR tmp0 OR tmp1 OR tmp2 OR tmp3) of
                (r', rest, src') \<Rightarrow> (r', out @ rest, src')
      else (r, [], s0 # s1 # s2 # s3 # src))"
| "pull_b64_loop n src r = (r, [], src)"

definition apk_blob_pull_base64 :: "blob \<Rightarrow> bytes \<Rightarrow> blob \<times> bytes" where
  "apk_blob_pull_base64 b to =
     (case b of
        None \<Rightarrow> (None, to)
      | Some xs \<Rightarrow>
          let needed = b64_needed (length to) in
          if length xs < needed then (None, to)
          else case pull_b64_loop (length to) xs 0 of (r, out, src) \<Rightarrow>
            let tail = drop (length out) to in
            if r = 0xff then (None, out @ tail)
            else if tail = [] then (Some (drop needed xs), out)
            else case pull_b64_tail tail src of (ok, tail') \<Rightarrow>
              if ok then (Some (drop needed xs), out @ tail') else (None, out @ tail'))"

section \<open>Lemmas\<close>

subsection \<open>The tables\<close>

text \<open>A table with 256 entries is determined by its list of values.\<close>

lemma table_lookup: "t = map f [0..<256] \<Longrightarrow> t ! code c = f (code c)"
  by simp

definition dx_spec :: "nat \<Rightarrow> nat" where
  "dx_spec n =
     (if 48 \<le> n \<and> n \<le> 57 then n - 48
      else if 65 \<le> n \<and> n \<le> 70 then n - 55
      else if 97 \<le> n \<and> n \<le> 102 then n - 87
      else if n = 43 then 0x3e
      else 0xff)"

definition dec64_spec :: "nat \<Rightarrow> nat" where
  "dec64_spec n =
     (if 65 \<le> n \<and> n \<le> 90 then n - 65
      else if 97 \<le> n \<and> n \<le> 122 then n - 71
      else if 48 \<le> n \<and> n \<le> 57 then n + 4
      else if n = 43 then 62
      else if n = 47 then 63
      else if n = 61 then 0
      else 0xff)"

lemma digitdecode_table: "digitdecode = map dx_spec [0..<256]"
  by code_simp

lemma b64decode_table: "b64decode = map dec64_spec [0..<256]"
  by code_simp

lemma dx_eq_spec: "dx c = dx_spec (code c)"
  unfolding dx_def by (rule table_lookup [OF digitdecode_table])

lemma dec64_eq_spec: "dec64 c = word_of_nat (dec64_spec (code c))"
  unfolding dec64_def by (simp add: table_lookup [OF b64decode_table])

lemma digits_table: "map (\<lambda>n. dx_spec (code (xd ! n))) [0..<16] = [0..<16]"
  by (simp add: upt_conv_Cons xd_def dx_spec_def)

lemma b64_table: "map (\<lambda>n. dec64_spec (code (b64encode ! n))) [0..<64] = [0..<64]"
  by (simp add: upt_conv_Cons b64encode_def dec64_spec_def)

lemma map_upt_eq_nth: "map f [0..<n] = map g [0..<n] \<Longrightarrow> i < n \<Longrightarrow> f i = g i"
  by (simp add: list_eq_iff_nth_eq)

lemma dx_xd: "d < 16 \<Longrightarrow> dx (xd ! d) = d"
  using map_upt_eq_nth [of _ 16 id] digits_table by (simp add: dx_eq_spec)

lemma dx_NUL [simp]: "dx NUL = 255"
  by (simp add: dx_eq_spec dx_spec_def)

subsection \<open>Bits of a byte\<close>

declare push_bit_and [simp del]

lemma less_8_cases:
  "(n::nat) < 8 \<longleftrightarrow> n = 0 \<or> n = 1 \<or> n = 2 \<or> n = 3 \<or> n = 4 \<or> n = 5 \<or> n = 6 \<or> n = 7"
  by auto

lemma u8_eqI: "(\<And>n. n < 8 \<Longrightarrow> bit a n = bit b n) \<Longrightarrow> a = (b::u8)"
  by (rule bit_word_eqI) simp

lemma bit_u8_ge [simp]: "8 \<le> n \<Longrightarrow> \<not> bit (w::u8) n"
  by (auto dest: bit_imp_le_length)

lemma bit_Suc_Suc:
  "bit w (Suc (Suc 0)) = bit w 2" "bit w (Suc (Suc (Suc 0))) = bit w 3"
  by (simp_all add: numeral_2_eq_2 numeral_3_eq_3)

lemmas u8_bits = bit_simps less_8_cases bit_Suc_Suc

text \<open>Bytes below 64 (or 16) are closed under disjunction, so the error marker stays out.\<close>

lemma take_bit_or_u8: "take_bit n a = a \<Longrightarrow> take_bit n b = b \<Longrightarrow> take_bit n (a OR b) = (a OR b :: u8)"
  by (simp add: take_bit_or)

lemma take_bit_6_not_255: "take_bit 6 r = (r :: u8) \<Longrightarrow> r \<noteq> 255"
  by (auto simp: take_bit_eq_mask mask_eq_exp_minus_1)

lemma take_bit_4_not_255: "take_bit 4 r = (r :: u8) \<Longrightarrow> r \<noteq> 255"
  by (auto simp: take_bit_eq_mask mask_eq_exp_minus_1)

lemma unat_and_15: "unat (w AND 15 :: u8) < 16"
proof -
  have "w AND 15 = take_bit 4 w" by (simp add: take_bit_eq_mask mask_eq_exp_minus_1)
  then show ?thesis
    using take_bit_nat_less_exp [of 4 "unat w"] by (simp add: unsigned_take_bit_eq)
qed

lemma power_numeral_64: "(2::nat) ^ 6 = 64"
  by simp

lemma unat_take_bit_6: "take_bit 6 w = (w :: u8) \<Longrightarrow> unat w < 64"
  using take_bit_nat_less_exp [of 6 "unat w"] by (metis unsigned_take_bit_eq power_numeral_64)

subsection \<open>Unsigned integers\<close>

lemma uint_digits_0 [simp]: "uint_digits radix 0 = []"
  by (simp add: uint_digits.simps)

lemma uint_digits_pos:
  "0 < n \<Longrightarrow> 2 \<le> radix \<Longrightarrow>
     uint_digits radix n = uint_digits radix (n div radix) @ [xd ! (n mod radix)]"
  by (subst uint_digits.simps) simp

lemma pull_uint_loop_snoc:
  "\<forall>c \<in> set ds. dx c < radix \<Longrightarrow> radix \<le> 255 \<Longrightarrow>
     pull_uint_loop radix (ds @ rest) acc =
     pull_uint_loop radix rest (foldl (\<lambda>a c. a * word_of_nat radix + word_of_nat (dx c)) acc ds)"
  by (induction ds arbitrary: acc) (auto simp: Let_def)

lemma uint_digits_dx:
  "2 \<le> radix \<Longrightarrow> radix \<le> 16 \<Longrightarrow> c \<in> set (uint_digits radix n) \<Longrightarrow> dx c < radix"
proof (induction radix n rule: uint_digits.induct)
  case (1 radix n)
  have "n mod radix < 16" using 1 by (meson mod_less_divisor less_le_trans zero_less_numeral)
  with 1 show ?case
    by (cases "n = 0") (auto simp: uint_digits_pos dx_xd)
qed

lemma uint_digits_value:
  "2 \<le> radix \<Longrightarrow> radix \<le> 16 \<Longrightarrow>
     foldl (\<lambda>a c. a * word_of_nat radix + word_of_nat (dx c)) 0 (uint_digits radix n)
     = (word_of_nat n :: u64)"
proof (induction radix n rule: uint_digits.induct)
  case (1 radix n)
  show ?case
  proof (cases "n = 0")
    case False
    have m: "n mod radix < 16" using 1 by (meson mod_less_divisor less_le_trans zero_less_numeral)
    have "foldl (\<lambda>a c. a * word_of_nat radix + word_of_nat (dx c)) 0 (uint_digits radix n)
        = (word_of_nat (n div radix) * word_of_nat radix + word_of_nat (n mod radix) :: u64)"
      using 1 False m by (simp add: uint_digits_pos dx_xd)
    also have "\<dots> = word_of_nat (n div radix * radix + n mod radix)"
      by (simp only: of_nat_add of_nat_mult)
    finally show ?thesis by simp
  qed simp
qed

lemma uint_digits_length:
  "2 \<le> radix \<Longrightarrow> n < 2 ^ k \<Longrightarrow> length (uint_digits radix n) \<le> k"
proof (induction k arbitrary: n)
  case (Suc k)
  show ?case
  proof (cases "n = 0")
    case False
    have "n div radix \<le> n div 2"
      using Suc.prems by (simp add: div_le_mono2)
    then have "n div radix < 2 ^ k" using Suc.prems(2) by auto
    with Suc False show ?thesis by (simp add: uint_digits_pos)
  qed simp
qed simp

lemma pull_uint_loop_stop:
  "rest = [] \<or> dx (hd rest) \<ge> radix \<Longrightarrow> pull_uint_loop radix rest acc = (acc, rest)"
  by (cases rest) (auto simp: Let_def)

subsection \<open>Hexadecimal\<close>

lemma nibbles: "push_bit 4 (drop_bit 4 w AND 15) + (w AND 15) = (w :: u8)"
proof -
  have "push_bit 4 (drop_bit 4 w AND 15) + (w AND 15)
      = push_bit 4 (drop_bit 4 w AND 15) OR (w AND 15)"
    by (rule disjunctive_add) (auto simp: u8_bits)
  also have "\<dots> = w"
    by (rule u8_eqI) (auto simp: u8_bits)
  finally show ?thesis .
qed

lemma take_bit_and_15: "take_bit 4 (w AND 15) = (w AND 15 :: u8)"
  by (rule u8_eqI) (auto simp: u8_bits)

lemma pull_hex_loop_dump:
  "take_bit 4 r = r \<Longrightarrow>
     \<exists>r'. take_bit 4 r' = r' \<and>
       pull_hex_loop (length xs) (concat (map hex_byte xs) @ rest) r = Ret (r', xs, rest)"
proof (induction xs arbitrary: r)
  case (Cons x xs)
  let ?h = "drop_bit 4 (ord8 x) AND 15" and ?l = "ord8 x AND 15"
  have "take_bit 4 (r OR ?h OR ?l) = r OR ?h OR ?l"
    by (intro take_bit_or_u8 take_bit_and_15 Cons.prems)
  from Cons.IH [OF this] show ?case
    by (auto simp: hex_byte_def dx_xd unat_and_15 nibbles Let_def)
qed simp

lemma pull_hex_loop_safe: "2 * n \<le> length s \<Longrightarrow> pull_hex_loop n s r \<noteq> Fault"
  by (induction n s r rule: pull_hex_loop.induct) (simp_all add: Let_def split: outcome.splits)

lemma pull_hex_loop_fault: "length s < 2 * n \<Longrightarrow> pull_hex_loop n s r = Fault"
  by (induction n s r rule: pull_hex_loop.induct) (auto simp: Let_def)

subsection \<open>Base64\<close>

lemma dec64_enc64: "take_bit 6 w = w \<Longrightarrow> dec64 (enc64 w) = w"
  using map_upt_eq_nth [of "\<lambda>n. dec64_spec (code (b64encode ! n))" 64 id "unat w"]
    b64_table unat_take_bit_6 [of w]
  by (simp add: dec64_eq_spec enc64_def)

lemma dec64_pad [simp]: "dec64 CHR ''='' = 0"
  by (simp add: dec64_eq_spec dec64_spec_def)

lemmas sextet_defs = sextet0_def sextet1_def sextet2_def sextet3_def
lemmas octet_defs = octet0_def octet1_def octet2_def

lemma b64_range [simp]:
  "take_bit 6 (sextet0 s0) = sextet0 s0"
  "take_bit 6 (sextet1 s0 s1) = sextet1 s0 s1"
  "take_bit 6 (sextet2 s1 s2) = sextet2 s1 s2"
  "take_bit 6 (sextet3 s2) = sextet3 s2"
  unfolding sextet_defs by (rule u8_eqI; auto simp: u8_bits)+

lemma b64_inverse [simp]:
  "octet0 (sextet0 s0) (sextet1 s0 s1) = s0"
  "octet1 (sextet1 s0 s1) (sextet2 s1 s2) = s1"
  "octet2 (sextet2 s1 s2) (sextet3 s2) = s2"
  unfolding sextet_defs octet_defs by (rule u8_eqI; auto simp: u8_bits)+

lemma sextet2_pad: "push_bit 2 (s1 AND 15) = sextet2 s1 0"
  by (simp add: sextet2_def)

lemma b64_needed_3: "b64_needed (Suc (Suc (Suc n))) = 4 + b64_needed n"
proof -
  have "(n + 5) div 3 = Suc ((n + 2) div 3)" by presburger
  then show ?thesis by (simp add: b64_needed_def add.commute)
qed

lemma push_b64_loop_length: "length (push_b64_loop xs) = b64_needed (length xs)"
  by (induction xs rule: push_b64_loop.induct)
    (simp_all add: b64_needed_3, simp_all add: b64_needed_def push_b64_tail_def Let_def)

lemma pull_b64_loop_small: "n \<le> 2 \<Longrightarrow> pull_b64_loop n src r = (r, [], src)"
  by (cases "(n, src, r)" rule: pull_b64_loop.cases) simp_all

lemma pull_b64_loop_dump:
  "take_bit 6 r = r \<Longrightarrow>
     \<exists>r'. take_bit 6 r' = r' \<and>
       pull_b64_loop (length xs) (push_b64_loop xs @ rest) r =
         (r', take (3 * (length xs div 3)) xs,
          push_b64_loop (drop (3 * (length xs div 3)) xs) @ rest)"
proof (induction xs arbitrary: r rule: push_b64_loop.induct)
  case (1 s0 s1 s2 src)
  let ?a = "sextet0 (ord8 s0)" and ?b = "sextet1 (ord8 s0) (ord8 s1)"
  let ?c = "sextet2 (ord8 s1) (ord8 s2)" and ?d = "sextet3 (ord8 s2)"
  have len: "3 * ((3 + length src) div 3) = Suc (Suc (Suc (3 * (length src div 3))))"
    by presburger
  have "take_bit 6 (r OR ?a OR ?b OR ?c OR ?d) = r OR ?a OR ?b OR ?c OR ?d"
    by (intro take_bit_or_u8 b64_range "1.prems")
  from "1.IH" [OF this] show ?case
    by (auto simp: Let_def dec64_enc64 len)
qed (auto simp: pull_b64_loop_small)

lemma pull_b64_tail_dump:
  assumes "length xs = 1 \<or> length xs = 2" and "length to = length xs"
  shows "pull_b64_tail to (push_b64_loop xs @ rest) = (True, xs)"
proof -
  from assms consider (one) x t where "xs = [x]" "to = [t]"
    | (two) x y t u where "xs = [x, y]" "to = [t, u]"
    by (auto simp: length_Suc_conv numeral_2_eq_2)
  then show ?thesis
  proof cases
    case one
    let ?a = "sextet0 (ord8 x)" and ?b = "sextet1 (ord8 x) 0"
    have "take_bit 6 (?a OR ?b) = ?a OR ?b"
      by (intro take_bit_or_u8 b64_range)
    then have "?a OR ?b \<noteq> 255"
      by (rule take_bit_6_not_255)
    with one show ?thesis
      by (simp add: pull_b64_tail_def push_b64_tail_def Let_def dec64_enc64)
  next
    case two
    let ?a = "sextet0 (ord8 x)" and ?b = "sextet1 (ord8 x) (ord8 y)"
    let ?c = "sextet2 (ord8 y) 0"
    have "take_bit 6 (?a OR ?b OR ?c) = ?a OR ?b OR ?c"
      by (intro take_bit_or_u8 b64_range)
    then have "?a OR ?b OR ?c \<noteq> 255"
      by (rule take_bit_6_not_255)
    with two show ?thesis
      by (simp add: pull_b64_tail_def push_b64_tail_def Let_def dec64_enc64 sextet2_pad)
  qed
qed

subsection \<open>Decoding what was encoded\<close>

lemma pull_uint_digits:
  assumes "2 \<le> radix" "radix \<le> 16" "rest = [] \<or> dx (hd rest) \<ge> radix"
  shows "apk_blob_pull_uint (Some (uint_digits radix n @ rest)) radix = (word_of_nat n, Some rest)"
proof -
  have "pull_uint_loop radix (uint_digits radix n @ rest) 0 =
      pull_uint_loop radix rest (word_of_nat n)"
    using assms uint_digits_dx [of radix _ n]
    by (subst pull_uint_loop_snoc) (auto simp: uint_digits_value)
  also have "\<dots> = (word_of_nat n, rest)"
    using assms(3) by (rule pull_uint_loop_stop)
  finally show ?thesis by (simp add: apk_blob_pull_uint_def)
qed

lemma pull_uint_zero:
  assumes "2 \<le> radix" "radix \<le> 16" "rest = [] \<or> dx (hd rest) \<ge> radix"
  shows "apk_blob_pull_uint (Some (CHR ''0'' # rest)) radix = (0, Some rest)"
  using assms by (auto simp: apk_blob_pull_uint_def dx_eq_spec dx_spec_def pull_uint_loop_stop)

lemma hexdump_length: "length (concat (map hex_byte xs)) = 2 * length xs"
  by (induction xs) (simp_all add: hex_byte_def)

lemma pull_hexdump_dump:
  assumes "length to = length xs"
  shows "apk_blob_pull_hexdump (Some (concat (map hex_byte xs) @ rest)) to = Ret (Some rest, xs)"
proof -
  obtain r' where "take_bit 4 r' = r'"
    and "pull_hex_loop (length xs) (concat (map hex_byte xs) @ rest) 0 = Ret (r', xs, rest)"
    using pull_hex_loop_dump [of 0 xs rest] by auto
  with assms show ?thesis
    by (auto simp: apk_blob_pull_hexdump_def hexdump_length dest: take_bit_4_not_255)
qed

lemma pull_base64_dump:
  assumes "length to = length xs"
  shows "apk_blob_pull_base64 (Some (push_b64_loop xs @ rest)) to = (Some rest, xs)"
proof -
  define k where "k = 3 * (length xs div 3)"
  obtain r' where r': "r' \<noteq> 255"
    and loop: "pull_b64_loop (length xs) (push_b64_loop xs @ rest) 0 =
      (r', take k xs, push_b64_loop (drop k xs) @ rest)"
    using pull_b64_loop_dump [of 0 xs rest] take_bit_6_not_255 by (auto simp: k_def)
  have k: "k \<le> length xs" by (simp add: k_def)
  have "length (drop k xs) = length xs mod 3"
    by (simp add: k_def minus_mult_div_eq_mod)
  then have tl: "length (drop k xs) = 0 \<or> length (drop k xs) = 1 \<or> length (drop k xs) = 2"
    using mod_less_divisor [of 3 "length xs"] by linarith
  have drop_enc: "drop (b64_needed (length xs)) (push_b64_loop xs @ rest) = rest"
    by (simp flip: push_b64_loop_length)
  have unf: "apk_blob_pull_base64 (Some (push_b64_loop xs @ rest)) to =
      (if drop k to = [] then (Some rest, take k xs)
       else case pull_b64_tail (drop k to) (push_b64_loop (drop k xs) @ rest) of (ok, tail') \<Rightarrow>
              if ok then (Some rest, take k xs @ tail') else (None, take k xs @ tail'))"
    using assms r' k drop_enc
    by (auto simp: apk_blob_pull_base64_def loop push_b64_loop_length Let_def min_absorb2
        split: prod.split simp del: drop_append)
  show ?thesis
  proof (cases "drop k to = []")
    case True
    then show ?thesis using assms k by (simp add: unf)
  next
    case False
    then have "pull_b64_tail (drop k to) (push_b64_loop (drop k xs) @ rest) = (True, drop k xs)"
      using assms tl by (intro pull_b64_tail_dump) auto
    with False show ?thesis by (simp add: unf)
  qed
qed

section \<open>Properties\<close>

text \<open>
  Base64: what \<^verbatim>\<open>apk_blob_push_base64\<close> writes into a buffer is decoded by
  \<^verbatim>\<open>apk_blob_pull_base64\<close> to the original bytes, whatever follows the encoded text.
\<close>

lemma base64_roundtrip:
  assumes "apk_blob_push_base64 (APK_BLOB_BUF n) (Some xs) = Some (enc, room)"
    and "length to = length xs"
  shows "apk_blob_pull_base64 (Some (enc @ rest)) to = (Some rest, xs)"
proof -
  from assms(1) have "enc = push_b64_loop xs"
    by (auto simp: apk_blob_push_base64_def APK_BLOB_BUF_def Let_def split: if_splits)
  with pull_base64_dump [OF assms(2)] show ?thesis by simp
qed

lemma base64_roundtrip_witness:
  "apk_blob_push_base64 (APK_BLOB_BUF 10) (Some ''Hello'') = Some (''SGVsbG8='', 2) \<and>
   apk_blob_pull_base64 (Some ''SGVsbG8=;'') ''.....'' = (Some '';'', ''Hello'')"
proof -
  have "apk_blob_push_base64 (APK_BLOB_BUF 10) (Some ''Hello'') = Some (''SGVsbG8='', 2)"
    by (simp add: apk_blob_push_base64_def APK_BLOB_BUF_def b64_needed_def push_b64_tail_def
        sextet_defs enc64_def b64encode_def ord8_def)
  with base64_roundtrip [OF this, of "''.....''" "'';''"] show ?thesis by simp
qed

text \<open>
  Hexadecimal dumps: what \<^verbatim>\<open>apk_blob_push_hexdump\<close> writes is decoded by
  \<^verbatim>\<open>apk_blob_pull_hexdump\<close> to the original bytes, without a fault.
\<close>

lemma hexdump_roundtrip:
  assumes "apk_blob_push_hexdump (APK_BLOB_BUF n) (Some xs) = Some (enc, room)"
    and "length to = length xs"
  shows "apk_blob_pull_hexdump (Some (enc @ rest)) to = Ret (Some rest, xs)"
proof -
  from assms(1) have "enc = concat (map hex_byte xs)"
    by (auto simp: apk_blob_push_hexdump_def APK_BLOB_BUF_def split: if_splits)
  with pull_hexdump_dump [OF assms(2)] show ?thesis by simp
qed

lemma hexdump_roundtrip_witness:
  "apk_blob_push_hexdump (APK_BLOB_BUF 4) (Some ''Az'') = Some (''417a'', 0) \<and>
   apk_blob_pull_hexdump (Some ''417a!'') ''..'' = Ret (Some ''!'', ''Az'')"
proof -
  have "apk_blob_push_hexdump (APK_BLOB_BUF 4) (Some ''Az'') = Some (''417a'', 0)"
    by (simp add: apk_blob_push_hexdump_def APK_BLOB_BUF_def hex_byte_def xd_def ord8_def)
  with hexdump_roundtrip [OF this, of "''..''" "''!''"] show ?thesis by simp
qed

text \<open>
  Decoding a hexadecimal dump reads past the end of the blob exactly when the blob is shorter
  than two digits per byte wanted but not shorter than half a digit per byte: the length check
  multiplies the wrong side by two.
\<close>

lemma pull_hexdump_fault_iff:
  "apk_blob_pull_hexdump (Some xs) to = Fault \<longleftrightarrow>
     length xs < 2 * length to \<and> length to \<le> 2 * length xs"
proof (cases "length xs < 2 * length to")
  case True
  then show ?thesis
    by (simp add: apk_blob_pull_hexdump_def pull_hex_loop_fault mult.commute not_less)
next
  case False
  then have "pull_hex_loop (length to) xs 0 \<noteq> Fault"
    by (intro pull_hex_loop_safe) simp
  with False show ?thesis
    by (auto simp: apk_blob_pull_hexdump_def split: outcome.splits)
qed

text \<open>
  Unsigned integers: for the radices 2 to 16 the digits that \<^verbatim>\<open>apk_blob_push_uint\<close> writes are
  read back by \<^verbatim>\<open>apk_blob_pull_uint\<close> as the same 64-bit value, when no further digit follows.
\<close>

lemma uint_roundtrip:
  assumes "apk_blob_push_uint (APK_BLOB_BUF n) v radix = Some (enc, room)"
    and "2 \<le> radix" "radix \<le> 16" "rest = [] \<or> dx (hd rest) \<ge> radix"
  shows "apk_blob_pull_uint (Some (enc @ rest)) radix = (v, Some rest)"
proof (cases "v = 0")
  case True
  with assms(1) have "enc = ''0''"
    by (auto simp: apk_blob_push_uint_def APK_BLOB_BUF_def push_blob_Some)
  with pull_uint_zero [OF assms(2-4)] True show ?thesis by simp
next
  case False
  with assms(1) have "enc = uint_digits radix (unat v)"
    by (auto simp: apk_blob_push_uint_def APK_BLOB_BUF_def push_blob_Some)
  with pull_uint_digits [OF assms(2-4), of "unat v"] show ?thesis by simp
qed

lemma uint_roundtrip_witness:
  "apk_blob_push_uint (APK_BLOB_BUF 8) 4096 10 = Some (''4096'', 4) \<and>
   apk_blob_pull_uint (Some ''4096;'') 10 = (4096, Some '';'')"
proof -
  have "apk_blob_push_uint (APK_BLOB_BUF 8) 4096 10 = Some (''4096'', 4)"
    by (simp add: apk_blob_push_uint_def APK_BLOB_BUF_def apk_blob_push_blob_simps uint_digits.simps
        xd_def)
  with uint_roundtrip [OF this, of "'';''"] show ?thesis
    by (simp add: dx_eq_spec dx_spec_def)
qed

text \<open>
  The local buffer of 64 bytes of \<^verbatim>\<open>apk_blob_push_uint\<close> is large enough for every 64-bit value
  in every radix from 2 on.
\<close>

lemma push_uint_buffer_fits:
  "length (uint_digits (Suc (Suc r)) (unat (v :: u64))) \<le> 64"
proof -
  have "unat v < 2 ^ LENGTH(64)" by (rule unsigned_less)
  then show ?thesis by (intro uint_digits_length) simp_all
qed

end
