(* ===== verification/Digest.thy ===== *)
theory Digest
  imports Codec
begin

text \<open>
  The digest values of \<^verbatim>\<open>apk_crypto.h\<close> and \<^verbatim>\<open>crypto.c\<close>, and their text form: \<^verbatim>\<open>Q1\<close> and
  base64, or \<^verbatim>\<open>X1\<close> and hexadecimal digits (\<^verbatim>\<open>blob.c\<close>). Computing a digest is left to the
  crypto library.
\<close>

section \<open>Definitions\<close>

definition APK_DIGEST_NONE :: nat where "APK_DIGEST_NONE = 0"
definition APK_DIGEST_SHA1 :: nat where "APK_DIGEST_SHA1 = 2"
definition APK_DIGEST_SHA256 :: nat where "APK_DIGEST_SHA256 = 3"
definition APK_DIGEST_SHA512 :: nat where "APK_DIGEST_SHA512 = 4"
definition APK_DIGEST_SHA256_160 :: nat where "APK_DIGEST_SHA256_160 = 5"

definition APK_DIGEST_LENGTH_SHA1 :: nat where "APK_DIGEST_LENGTH_SHA1 = 20"
definition APK_DIGEST_LENGTH_SHA256_160 :: nat where "APK_DIGEST_LENGTH_SHA256_160 = 20"
definition APK_DIGEST_LENGTH_SHA256 :: nat where "APK_DIGEST_LENGTH_SHA256 = 32"
definition APK_DIGEST_LENGTH_SHA512 :: nat where "APK_DIGEST_LENGTH_SHA512 = 64"
definition APK_DIGEST_LENGTH_MAX :: nat where "APK_DIGEST_LENGTH_MAX = APK_DIGEST_LENGTH_SHA512"

lemmas digest_consts = APK_DIGEST_NONE_def APK_DIGEST_SHA1_def APK_DIGEST_SHA256_def
  APK_DIGEST_SHA512_def APK_DIGEST_SHA256_160_def APK_DIGEST_LENGTH_SHA1_def
  APK_DIGEST_LENGTH_SHA256_160_def APK_DIGEST_LENGTH_SHA256_def APK_DIGEST_LENGTH_SHA512_def
  APK_DIGEST_LENGTH_MAX_def

record apk_digest =
  dg_alg :: nat
  dg_len :: nat
  dg_data :: bytes

definition apk_digest_str :: "bytes list" where
  "apk_digest_str = [''none'', [], ''sha1'', ''sha256'', ''sha512'', ''sha256-160'']"

text \<open>Entry 1 of the table is a null pointer: the algorithm it stood for was removed.\<close>

definition digest_str_entry :: "nat \<Rightarrow> bytes option" where
  "digest_str_entry alg = (if alg = 1 then None else Some (apk_digest_str ! alg))"

definition apk_digest_alg_str :: "nat \<Rightarrow> bytes option" where
  "apk_digest_alg_str alg =
     (if alg < length apk_digest_str then digest_str_entry alg else Some ''unknown'')"

definition apk_digest_alg_by_str :: "bytes \<Rightarrow> nat" where
  "apk_digest_alg_by_str algstr =
     (case find (\<lambda>alg. digest_str_entry alg = Some algstr) [0..<length apk_digest_str] of
        Some alg \<Rightarrow> alg
      | None \<Rightarrow> APK_DIGEST_NONE)"

definition apk_digest_alg_len :: "nat \<Rightarrow> nat" where
  "apk_digest_alg_len alg =
     (if alg = APK_DIGEST_SHA1 then APK_DIGEST_LENGTH_SHA1
      else if alg = APK_DIGEST_SHA256_160 then APK_DIGEST_LENGTH_SHA256_160
      else if alg = APK_DIGEST_SHA256 then APK_DIGEST_LENGTH_SHA256
      else if alg = APK_DIGEST_SHA512 then APK_DIGEST_LENGTH_SHA512
      else 0)"

definition apk_digest_alg_by_len :: "nat \<Rightarrow> nat" where
  "apk_digest_alg_by_len n =
     (if n = 0 then APK_DIGEST_NONE
      else if n = APK_DIGEST_LENGTH_SHA1 then APK_DIGEST_SHA1
      else if n = APK_DIGEST_LENGTH_SHA256 then APK_DIGEST_SHA256
      else if n = APK_DIGEST_LENGTH_SHA512 then APK_DIGEST_SHA512
      else APK_DIGEST_NONE)"

text \<open>Storing bytes at an offset of a fixed array.\<close>

definition store_at :: "nat \<Rightarrow> bytes \<Rightarrow> bytes \<Rightarrow> bytes" where
  "store_at off xs mem = take off mem @ xs @ drop (off + length xs) mem"

definition apk_digest_from_blob :: "apk_digest \<Rightarrow> blob \<Rightarrow> nat \<times> apk_digest" where
  "apk_digest_from_blob d b =
     (let alg = apk_digest_alg_by_len (blob_len b);
          d = d\<lparr>dg_alg := alg, dg_len := 0\<rparr>;
          d = (if alg \<noteq> APK_DIGEST_NONE
               then d\<lparr>dg_len := blob_len b, dg_data := store_at 0 (blob_bytes b) (dg_data d)\<rparr>
               else d)
      in (alg, d))"

definition APK_DIGEST_BLOB :: "apk_digest \<Rightarrow> blob" where
  "APK_DIGEST_BLOB d = Some (take (dg_len d) (dg_data d))"

definition apk_digest_cmp :: "apk_digest \<Rightarrow> apk_digest \<Rightarrow> int" where
  "apk_digest_cmp a b =
     (if dg_alg a \<noteq> dg_alg b then int (dg_alg b) - int (dg_alg a)
      else memcmp (take (dg_len a) (dg_data a)) (take (dg_len a) (dg_data b)))"

definition apk_digest_reset :: "apk_digest \<Rightarrow> apk_digest" where
  "apk_digest_reset d = d\<lparr>dg_alg := APK_DIGEST_NONE, dg_len := 0\<rparr>"

definition apk_digest_set :: "apk_digest \<Rightarrow> nat \<Rightarrow> apk_digest" where
  "apk_digest_set d alg = d\<lparr>dg_alg := alg, dg_len := apk_digest_alg_len alg\<rparr>"

definition apk_digest_cmp_blob :: "apk_digest \<Rightarrow> nat \<Rightarrow> blob \<Rightarrow> int" where
  "apk_digest_cmp_blob d alg b =
     (if dg_alg d \<noteq> alg then int alg - int (dg_alg d)
      else apk_blob_compare (APK_DIGEST_BLOB d) b)"

subsection \<open>The text form\<close>

definition apk_blob_push_hash_hex :: "wblob \<Rightarrow> blob \<Rightarrow> wblob" where
  "apk_blob_push_hash_hex to hash =
     (if blob_len hash = APK_DIGEST_LENGTH_SHA1
      then apk_blob_push_hexdump (apk_blob_push_blob to (Some ''X1'')) hash
      else None)"

definition apk_blob_push_hash :: "wblob \<Rightarrow> blob \<Rightarrow> wblob" where
  "apk_blob_push_hash to hash =
     (if blob_len hash = APK_DIGEST_LENGTH_SHA1
      then apk_blob_push_base64 (apk_blob_push_blob to (Some ''Q1'')) hash
      else None)"

definition apk_digest_push :: "wblob \<Rightarrow> apk_digest \<Rightarrow> wblob" where
  "apk_digest_push to d = apk_blob_push_hash to (APK_DIGEST_BLOB d)"

definition apk_digest_push_hex :: "wblob \<Rightarrow> apk_digest \<Rightarrow> wblob" where
  "apk_digest_push_hex to d = apk_blob_push_hash_hex to (APK_DIGEST_BLOB d)"

text \<open>
  The two encodings of \<^verbatim>\<open>apk_blob_pull_digest\<close>, after the two letters of the prefix. Both first
  decode as many bytes as the algorithm has; a SHA-1 marker followed by a longer text is a SHA-256
  digest, whose remaining twelve bytes are decoded after the first twenty.
\<close>

definition digest_store :: "apk_digest \<Rightarrow> nat \<Rightarrow> bytes \<Rightarrow> apk_digest" where
  "digest_store d off xs = d\<lparr>dg_data := store_at off xs (dg_data d)\<rparr>"

definition digest_slot :: "apk_digest \<Rightarrow> nat \<Rightarrow> nat \<Rightarrow> bytes" where
  "digest_slot d off n = take n (drop off (dg_data d))"

definition sha256_extra :: nat where
  "sha256_extra = APK_DIGEST_LENGTH_SHA256 - APK_DIGEST_LENGTH_SHA1"

definition pull_digest_hex :: "blob \<Rightarrow> apk_digest \<Rightarrow> (blob \<times> apk_digest) outcome" where
  "pull_digest_hex b d =
     (case apk_blob_pull_hexdump b (digest_slot d 0 (dg_len d)) of
        Fault \<Rightarrow> Fault
      | Ret (b, out) \<Rightarrow>
          let d = digest_store d 0 out in
          if dg_alg d = APK_DIGEST_SHA1 \<and> blob_len b = 24 \<and> dx (hd (blob_bytes b)) \<noteq> 0xff
          then let d = apk_digest_set d APK_DIGEST_SHA256 in
               (case apk_blob_pull_hexdump b
                       (digest_slot d APK_DIGEST_LENGTH_SHA1 sha256_extra) of
                  Fault \<Rightarrow> Fault
                | Ret (b, out) \<Rightarrow> Ret (b, digest_store d APK_DIGEST_LENGTH_SHA1 out))
          else Ret (b, d))"

definition pull_digest_base64 :: "blob \<Rightarrow> apk_digest \<Rightarrow> blob \<times> apk_digest" where
  "pull_digest_base64 b d =
     (case apk_blob_pull_base64 b (digest_slot d 0 (dg_len d)) of
        (b, out) \<Rightarrow>
          let d = digest_store d 0 out in
          if dg_alg d = APK_DIGEST_SHA1 \<and> blob_len b = 16 \<and> dec64 (hd (blob_bytes b)) \<noteq> 0xff
          then let d = apk_digest_set d APK_DIGEST_SHA256 in
               (case apk_blob_pull_base64 b
                       (digest_slot d APK_DIGEST_LENGTH_SHA1 sha256_extra) of
                  (b, out) \<Rightarrow> (b, digest_store d APK_DIGEST_LENGTH_SHA1 out))
          else (b, d))"

definition apk_blob_pull_digest :: "blob \<Rightarrow> apk_digest \<Rightarrow> (blob \<times> apk_digest) outcome" where
  "apk_blob_pull_digest b d =
     (case b of
        Some (encoding # alg # rest) \<Rightarrow>
          if alg \<noteq> CHR ''1'' \<and> alg \<noteq> CHR ''2'' then Ret (None, apk_digest_reset d)
          else
            let d = apk_digest_set d (if alg = CHR ''1'' then APK_DIGEST_SHA1 else APK_DIGEST_SHA256)
            in if encoding = CHR ''X'' then pull_digest_hex (Some rest) d
               else if encoding = CHR ''Q'' then Ret (pull_digest_base64 (Some rest) d)
               else Ret (None, apk_digest_reset d)
      | _ \<Rightarrow> Ret (None, apk_digest_reset d))"

section \<open>Lemmas\<close>

text \<open>A digest value in memory: the data array has its full size and the length fits in it.\<close>

definition digest_ok :: "apk_digest \<Rightarrow> bool" where
  "digest_ok d \<longleftrightarrow>
     length (dg_data d) = APK_DIGEST_LENGTH_MAX \<and> dg_len d = apk_digest_alg_len (dg_alg d)"

lemma apk_digest_alg_len_max: "apk_digest_alg_len alg \<le> APK_DIGEST_LENGTH_MAX"
  by (simp add: apk_digest_alg_len_def digest_consts)

lemma digest_ok_set: "digest_ok d \<Longrightarrow> digest_ok (apk_digest_set d alg)"
  by (simp add: digest_ok_def apk_digest_set_def)

lemma digest_ok_reset: "digest_ok d \<Longrightarrow> digest_ok (apk_digest_reset d)"
  by (simp add: digest_ok_def apk_digest_reset_def apk_digest_alg_len_def digest_consts)

lemma store_at_length: "off + length xs \<le> length mem \<Longrightarrow> length (store_at off xs mem) = length mem"
  by (simp add: store_at_def)

lemma store_at_0: "store_at 0 xs mem = xs @ drop (length xs) mem"
  by (simp add: store_at_def)

lemma digest_slot_length: "off + n \<le> length (dg_data d) \<Longrightarrow> length (digest_slot d off n) = n"
  by (simp add: digest_slot_def)

text \<open>Reading the base64 form of twenty bytes into any digest value.\<close>

lemma pull_digest_sha1:
  assumes "digest_ok d" "length xs = APK_DIGEST_LENGTH_SHA1" "length rest \<noteq> 16"
  shows "\<exists>d'. apk_blob_pull_digest (Some (''Q1'' @ push_b64_loop xs @ rest)) d = Ret (Some rest, d') \<and>
    digest_ok d' \<and> dg_alg d' = APK_DIGEST_SHA1 \<and> APK_DIGEST_BLOB d' = Some xs"
proof -
  let ?d = "apk_digest_set d APK_DIGEST_SHA1"
  have len: "length (dg_data d) = 64" "length xs = 20"
    using assms by (simp_all add: digest_ok_def digest_consts)
  have l20: "dg_len ?d = 20" by (simp add: apk_digest_set_def apk_digest_alg_len_def digest_consts)
  then have slot: "length (digest_slot ?d 0 (dg_len ?d)) = length xs"
    using len by (simp add: digest_slot_length apk_digest_set_def)
  let ?r = "digest_store ?d 0 xs"
  have "pull_digest_base64 (Some (push_b64_loop xs @ rest)) ?d = (Some rest, ?r)"
    using pull_base64_dump [OF slot, of rest] assms(3)
    by (simp add: pull_digest_base64_def blob_len_def Let_def)
  moreover have "digest_ok ?r" "dg_alg ?r = APK_DIGEST_SHA1" "APK_DIGEST_BLOB ?r = Some xs"
    using len l20
    by (simp_all add: digest_ok_def digest_store_def apk_digest_set_def APK_DIGEST_BLOB_def store_at_0
        apk_digest_alg_len_def digest_consts)
  ultimately show ?thesis
    by (auto simp: apk_blob_pull_digest_def Let_def)
qed

lemma pull_digest_sha1_hex:
  assumes "digest_ok d" "length xs = APK_DIGEST_LENGTH_SHA1" "length rest \<noteq> 24"
  shows "\<exists>d'. apk_blob_pull_digest (Some (''X1'' @ concat (map hex_byte xs) @ rest)) d = Ret (Some rest, d') \<and>
    digest_ok d' \<and> dg_alg d' = APK_DIGEST_SHA1 \<and> APK_DIGEST_BLOB d' = Some xs"
proof -
  let ?d = "apk_digest_set d APK_DIGEST_SHA1"
  have len: "length (dg_data d) = 64" "length xs = 20"
    using assms by (simp_all add: digest_ok_def digest_consts)
  have l20: "dg_len ?d = 20" by (simp add: apk_digest_set_def apk_digest_alg_len_def digest_consts)
  then have slot: "length (digest_slot ?d 0 (dg_len ?d)) = length xs"
    using len by (simp add: digest_slot_length apk_digest_set_def)
  let ?r = "digest_store ?d 0 xs"
  have "pull_digest_hex (Some (concat (map hex_byte xs) @ rest)) ?d = Ret (Some rest, ?r)"
    using pull_hexdump_dump [OF slot, of rest] assms(3)
    by (simp add: pull_digest_hex_def blob_len_def Let_def)
  moreover have "digest_ok ?r" "dg_alg ?r = APK_DIGEST_SHA1" "APK_DIGEST_BLOB ?r = Some xs"
    using len l20
    by (simp_all add: digest_ok_def digest_store_def apk_digest_set_def APK_DIGEST_BLOB_def store_at_0
        apk_digest_alg_len_def digest_consts)
  ultimately show ?thesis
    by (auto simp: apk_blob_pull_digest_def Let_def)
qed

lemma push_hash_text:
  "length xs = APK_DIGEST_LENGTH_SHA1 \<Longrightarrow>
   apk_blob_push_hash (Some (t, room)) (Some xs) =
     (if room < 30 then None else Some (t @ ''Q1'' @ push_b64_loop xs, room - 30))"
  by (auto simp: apk_blob_push_hash_def blob_len_def apk_blob_push_blob_def apk_blob_push_base64_def
      b64_needed_def digest_consts Let_def)

lemma push_hash_hex_text:
  "length xs = APK_DIGEST_LENGTH_SHA1 \<Longrightarrow>
   apk_blob_push_hash_hex (Some (t, room)) (Some xs) =
     (if room < 42 then None else Some (t @ ''X1'' @ concat (map hex_byte xs), room - 42))"
  by (auto simp: apk_blob_push_hash_hex_def blob_len_def apk_blob_push_blob_def apk_blob_push_hexdump_def
      digest_consts)

section \<open>Properties\<close>

text \<open>
  The text forms of SHA-1 digests: what \<^verbatim>\<open>apk_digest_push\<close> and \<^verbatim>\<open>apk_digest_push_hex\<close> write is
  read back by \<^verbatim>\<open>apk_blob_pull_digest\<close> without a fault, as a well-formed SHA-1 value with the
  same bytes, whatever the target held before.
\<close>

lemma digest_roundtrip:
  assumes "digest_ok d" "dg_alg d = APK_DIGEST_SHA1" "digest_ok d0"
    "apk_digest_push (APK_BLOB_BUF n) d = Some (enc, room) \<or> apk_digest_push_hex (APK_BLOB_BUF n) d = Some (enc, room)"
  shows "\<exists>d'. apk_blob_pull_digest (Some enc) d0 = Ret (Some [], d') \<and> digest_ok d' \<and>
    apk_digest_cmp d d' = 0"
proof -
  obtain xs where xs: "APK_DIGEST_BLOB d = Some xs" "length xs = APK_DIGEST_LENGTH_SHA1"
    using assms(1,2) by (simp add: APK_DIGEST_BLOB_def digest_ok_def apk_digest_alg_len_def digest_consts)
  have "enc = ''Q1'' @ push_b64_loop xs \<or> enc = ''X1'' @ concat (map hex_byte xs)"
    using assms(4) push_hash_text [OF xs(2), of "[]" n] push_hash_hex_text [OF xs(2), of "[]" n] xs(1)
    by (auto simp: apk_digest_push_def apk_digest_push_hex_def APK_BLOB_BUF_def split: if_splits)
  then obtain d' where "apk_blob_pull_digest (Some enc) d0 = Ret (Some [], d')" "digest_ok d'"
    "dg_alg d' = APK_DIGEST_SHA1" "APK_DIGEST_BLOB d' = Some xs"
    using pull_digest_sha1 [OF assms(3) xs(2), of "[]"] pull_digest_sha1_hex [OF assms(3) xs(2), of "[]"] by auto
  moreover from this have "apk_digest_cmp d d' = 0"
    using assms(1,2) xs by (auto simp: apk_digest_cmp_def APK_DIGEST_BLOB_def digest_ok_def)
  ultimately show ?thesis by blast
qed

lemma digest_roundtrip_witness:
  "\<exists>enc room d'.
     apk_digest_push (APK_BLOB_BUF 64) \<lparr>dg_alg = 2, dg_len = 20, dg_data = replicate 64 NUL\<rparr> = Some (enc, room) \<and>
     apk_blob_pull_digest (Some enc) \<lparr>dg_alg = 0, dg_len = 0, dg_data = replicate 64 NUL\<rparr> = Ret (Some [], d')"
proof -
  let ?d = "\<lparr>dg_alg = 2, dg_len = 20, dg_data = replicate 64 NUL\<rparr>"
  let ?z = "\<lparr>dg_alg = 0, dg_len = 0, dg_data = replicate 64 NUL\<rparr>"
  have ok: "digest_ok ?d" "digest_ok ?z" "dg_alg ?d = APK_DIGEST_SHA1"
    by (simp_all add: digest_ok_def apk_digest_alg_len_def digest_consts)
  have "\<exists>enc. apk_digest_push (APK_BLOB_BUF 64) ?d = Some (enc, 34)"
    by (simp add: apk_digest_push_def APK_DIGEST_BLOB_def APK_BLOB_BUF_def push_hash_text digest_consts)
  then obtain enc where "apk_digest_push (APK_BLOB_BUF 64) ?d = Some (enc, 34)" by blast
  with digest_roundtrip [OF ok(1,3,2) disjI1 [OF this]] show ?thesis by blast
qed

end
