(* ===== verification/Ctype.thy ===== *)
theory Ctype
  imports Blob
begin

text \<open>
  The character classes of \<^verbatim>\<open>ctype.c\<close> and the two span functions that the parsers are built on.
  Classes 0 to 7 are bits of the first table, classes from 8 on are bits of the second one.
\<close>

section \<open>Definitions\<close>

definition APK_CTYPE_HEXDIGIT :: nat where "APK_CTYPE_HEXDIGIT = 0"
definition APK_CTYPE_PACKAGE_NAME :: nat where "APK_CTYPE_PACKAGE_NAME = 1"
definition APK_CTYPE_VERSION_SUFFIX :: nat where "APK_CTYPE_VERSION_SUFFIX = 2"
definition APK_CTYPE_DEPENDENCY_NAME :: nat where "APK_CTYPE_DEPENDENCY_NAME = 3"
definition APK_CTYPE_DEPENDENCY_COMPARER :: nat where "APK_CTYPE_DEPENDENCY_COMPARER = 4"
definition APK_CTYPE_VARIABLE_NAME :: nat where "APK_CTYPE_VARIABLE_NAME = 5"
definition APK_CTYPE_TAG_NAME :: nat where "APK_CTYPE_TAG_NAME = 6"
definition APK_CTYPE_DEPENDENCY_SEPARATOR :: nat where "APK_CTYPE_DEPENDENCY_SEPARATOR = 8"
definition APK_CTYPE_REPOSITORY_SEPARATOR :: nat where "APK_CTYPE_REPOSITORY_SEPARATOR = 9"

lemmas ctype_consts = APK_CTYPE_HEXDIGIT_def APK_CTYPE_PACKAGE_NAME_def
  APK_CTYPE_VERSION_SUFFIX_def APK_CTYPE_DEPENDENCY_NAME_def APK_CTYPE_DEPENDENCY_COMPARER_def
  APK_CTYPE_VARIABLE_NAME_def APK_CTYPE_TAG_NAME_def APK_CTYPE_DEPENDENCY_SEPARATOR_def
  APK_CTYPE_REPOSITORY_SEPARATOR_def

definition BIT :: "nat \<Rightarrow> u8" where "BIT x = push_bit x 1"

definition HEXDGT :: u8 where "HEXDGT = BIT APK_CTYPE_HEXDIGIT"
definition PKGNAME :: u8 where
  "PKGNAME = (BIT APK_CTYPE_PACKAGE_NAME OR BIT APK_CTYPE_DEPENDENCY_NAME)"
definition VERSUF :: u8 where "VERSUF = BIT APK_CTYPE_VERSION_SUFFIX"
definition DEPNAME :: u8 where "DEPNAME = BIT APK_CTYPE_DEPENDENCY_NAME"
definition DEPCOMP :: u8 where "DEPCOMP = BIT APK_CTYPE_DEPENDENCY_COMPARER"
definition VARNAME :: u8 where
  "VARNAME = (BIT APK_CTYPE_VARIABLE_NAME OR BIT APK_CTYPE_TAG_NAME)"
definition TAGNAME :: u8 where "TAGNAME = BIT APK_CTYPE_TAG_NAME"
definition DEPSEP :: u8 where "DEPSEP = BIT (APK_CTYPE_DEPENDENCY_SEPARATOR - 8)"
definition REPOSEP :: u8 where "REPOSEP = BIT (APK_CTYPE_REPOSITORY_SEPARATOR - 8)"

text \<open>
  The initialised entries of the two tables; the other entries are 0. Runs of equal entries
  (digits and letters) are written as ranges.
\<close>

definition apk_ctype1 :: "char \<Rightarrow> u8" where
  "apk_ctype1 c =
     (if c \<in> set ''+-.'' then PKGNAME OR TAGNAME
      else if c \<in> set '',:/[]'' then DEPNAME OR TAGNAME
      else if c \<in> set ''<>~'' then DEPCOMP
      else if c = CHR ''='' then DEPCOMP OR TAGNAME
      else if 48 \<le> code c \<and> code c \<le> 57 then HEXDGT OR PKGNAME OR VARNAME
      else if 65 \<le> code c \<and> code c \<le> 90 then PKGNAME OR VARNAME
      else if c = CHR ''_'' then PKGNAME OR VARNAME
      else if 97 \<le> code c \<and> code c \<le> 102 then HEXDGT OR VERSUF OR PKGNAME OR VARNAME
      else if 103 \<le> code c \<and> code c \<le> 122 then VERSUF OR PKGNAME OR VARNAME
      else 0)"

definition apk_ctype2 :: "char \<Rightarrow> u8" where
  "apk_ctype2 c =
     (if c = CHR 0x09 then REPOSEP
      else if c = CHR 0x0A then DEPSEP
      else if c = CHR '' '' then REPOSEP OR DEPSEP
      else 0)"

text \<open>\<open>get_array\<close> with the size of the array, which ends at its last initialised entry.\<close>

definition get_array :: "nat \<Rightarrow> u8 \<times> nat \<times> (char \<Rightarrow> u8)" where
  "get_array ctype =
     (if ctype \<ge> 8 then (BIT (ctype - 8), code CHR '' '' + 1, apk_ctype2)
      else (BIT ctype, code CHR ''~'' + 1, apk_ctype1))"

definition in_ctype :: "nat \<Rightarrow> char \<Rightarrow> bool" where
  "in_ctype ctype ch =
     (case get_array ctype of (m, ctype_sz, ctype_data) \<Rightarrow>
        \<not> (code ch \<ge> ctype_sz \<or> ctype_data ch AND m = 0))"

text \<open>
  The span of bytes in the class (\<open>spn\<close>) or outside of it (\<open>cspn\<close>), the rest, and whether the
  scan stopped before the end of the blob.
\<close>

definition apk_blob_spn :: "blob \<Rightarrow> nat \<Rightarrow> bool \<times> blob \<times> blob" where
  "apk_blob_spn b ctype =
     (dropWhile (in_ctype ctype) (blob_bytes b) \<noteq> [],
      map_option (takeWhile (in_ctype ctype)) b,
      map_option (dropWhile (in_ctype ctype)) b)"

definition apk_blob_cspn :: "blob \<Rightarrow> nat \<Rightarrow> bool \<times> blob \<times> blob" where
  "apk_blob_cspn b ctype =
     (dropWhile (\<lambda>c. \<not> in_ctype ctype c) (blob_bytes b) \<noteq> [],
      map_option (takeWhile (\<lambda>c. \<not> in_ctype ctype c)) b,
      map_option (dropWhile (\<lambda>c. \<not> in_ctype ctype c)) b)"

section \<open>Lemmas\<close>

lemmas ctype_masks = HEXDGT_def PKGNAME_def VERSUF_def DEPNAME_def DEPCOMP_def VARNAME_def
  TAGNAME_def DEPSEP_def REPOSEP_def BIT_def

lemmas in_ctype_unfold = in_ctype_def get_array_def apk_ctype1_def apk_ctype2_def ctype_masks
  ctype_consts

lemma in_hexdigit:
  "in_ctype APK_CTYPE_HEXDIGIT c \<longleftrightarrow>
     (48 \<le> code c \<and> code c \<le> 57) \<or> (97 \<le> code c \<and> code c \<le> 102)"
  by (auto simp: in_ctype_unfold)

lemma in_version_suffix:
  "in_ctype APK_CTYPE_VERSION_SUFFIX c \<longleftrightarrow> 97 \<le> code c \<and> code c \<le> 122"
  by (auto simp: in_ctype_unfold)

lemma in_comparer:
  "in_ctype APK_CTYPE_DEPENDENCY_COMPARER c \<longleftrightarrow> c \<in> set ''<>=~''"
  by (auto simp: in_ctype_unfold)

lemma in_dep_separator:
  "in_ctype APK_CTYPE_DEPENDENCY_SEPARATOR c \<longleftrightarrow> c = CHR 0x0A \<or> c = CHR '' ''"
  by (auto simp: in_ctype_unfold)

lemma in_repo_separator:
  "in_ctype APK_CTYPE_REPOSITORY_SEPARATOR c \<longleftrightarrow> c = CHR 0x09 \<or> c = CHR '' ''"
  by (auto simp: in_ctype_unfold)

lemma in_package_name:
  "in_ctype APK_CTYPE_PACKAGE_NAME c \<longleftrightarrow>
     c \<in> set ''+-._'' \<or> (48 \<le> code c \<and> code c \<le> 57) \<or> (65 \<le> code c \<and> code c \<le> 90) \<or>
     (97 \<le> code c \<and> code c \<le> 122)"
  by (auto simp: in_ctype_unfold)

lemma in_variable_name:
  "in_ctype APK_CTYPE_VARIABLE_NAME c \<longleftrightarrow>
     c = CHR ''_'' \<or> (48 \<le> code c \<and> code c \<le> 57) \<or> (65 \<le> code c \<and> code c \<le> 90) \<or>
     (97 \<le> code c \<and> code c \<le> 122)"
  by (auto simp: in_ctype_unfold)

lemma package_name_is_dependency_name:
  "in_ctype APK_CTYPE_PACKAGE_NAME c \<Longrightarrow> in_ctype APK_CTYPE_DEPENDENCY_NAME c"
  by (auto simp: in_ctype_unfold split: if_splits)

lemma apk_blob_spn_append:
  "apk_blob_spn b ct = (r, l, m) \<Longrightarrow>
     blob_bytes b = blob_bytes l @ blob_bytes m \<and> (\<forall>c \<in> set (blob_bytes l). in_ctype ct c) \<and>
     (r \<longleftrightarrow> blob_bytes m \<noteq> []) \<and> (blob_bytes m \<noteq> [] \<longrightarrow> \<not> in_ctype ct (hd (blob_bytes m)))"
  by (cases b) (auto simp: apk_blob_spn_def dest: set_takeWhileD hd_dropWhile
      simp del: dropWhile_eq_Nil_conv, metis append_Nil2 takeWhile_dropWhile_id)

lemma apk_blob_cspn_append:
  "apk_blob_cspn b ct = (r, l, m) \<Longrightarrow>
     blob_bytes b = blob_bytes l @ blob_bytes m \<and> (\<forall>c \<in> set (blob_bytes l). \<not> in_ctype ct c) \<and>
     (r \<longleftrightarrow> blob_bytes m \<noteq> []) \<and> (blob_bytes m \<noteq> [] \<longrightarrow> in_ctype ct (hd (blob_bytes m)))"
  by (cases b) (auto simp: apk_blob_cspn_def dest: set_takeWhileD hd_dropWhile
      simp del: dropWhile_eq_Nil_conv, metis append_Nil2 takeWhile_dropWhile_id)

end
