(* ===== verification/Version.thy ===== *)
theory Version
  imports Codec Ctype "HOL-Library.List_Lexorder" "HOL-Library.Product_Lexorder"
begin

text \<open>
  Package versions (\<^verbatim>\<open>version.c\<close>): the tokenizer, validation, comparison and the match of a
  version against an operator of a dependency.
\<close>

section \<open>Definitions\<close>

datatype token =
    TOKEN_INITIAL_DIGIT | TOKEN_DIGIT | TOKEN_LETTER | TOKEN_SUFFIX | TOKEN_SUFFIX_NO
  | TOKEN_COMMIT_HASH | TOKEN_REVISION_NO | TOKEN_END | TOKEN_INVALID

text \<open>The number of the enumeration constant; the source compares tokens by it.\<close>

fun token_no :: "token \<Rightarrow> nat" where
  "token_no TOKEN_INITIAL_DIGIT = 0"
| "token_no TOKEN_DIGIT = 1"
| "token_no TOKEN_LETTER = 2"
| "token_no TOKEN_SUFFIX = 3"
| "token_no TOKEN_SUFFIX_NO = 4"
| "token_no TOKEN_COMMIT_HASH = 5"
| "token_no TOKEN_REVISION_NO = 6"
| "token_no TOKEN_END = 7"
| "token_no TOKEN_INVALID = 8"

definition SUFFIX_INVALID :: nat where "SUFFIX_INVALID = 0"
definition SUFFIX_ALPHA :: nat where "SUFFIX_ALPHA = 1"
definition SUFFIX_BETA :: nat where "SUFFIX_BETA = 2"
definition SUFFIX_PRE :: nat where "SUFFIX_PRE = 3"
definition SUFFIX_RC :: nat where "SUFFIX_RC = 4"
definition SUFFIX_NONE :: nat where "SUFFIX_NONE = 5"
definition SUFFIX_CVS :: nat where "SUFFIX_CVS = 6"
definition SUFFIX_SVN :: nat where "SUFFIX_SVN = 7"
definition SUFFIX_GIT :: nat where "SUFFIX_GIT = 8"
definition SUFFIX_HG :: nat where "SUFFIX_HG = 9"
definition SUFFIX_P :: nat where "SUFFIX_P = 10"

lemmas suffix_consts = SUFFIX_INVALID_def SUFFIX_ALPHA_def SUFFIX_BETA_def SUFFIX_PRE_def
  SUFFIX_RC_def SUFFIX_NONE_def SUFFIX_CVS_def SUFFIX_SVN_def SUFFIX_GIT_def SUFFIX_HG_def
  SUFFIX_P_def

definition suffix_literals :: "bytes list" where
  "suffix_literals =
     [[], ''alpha'', ''beta'', ''pre'', ''rc'', [], ''cvs'', ''svn'', ''git'', ''hg'', ''p'']"

record token_state =
  ts_token :: token
  ts_suffix :: nat
  ts_number :: u64
  ts_value :: blob

definition suffix_value :: "blob \<Rightarrow> nat" where
  "suffix_value suf =
     (case blob_bytes suf of
        [] \<Rightarrow> SUFFIX_INVALID
      | c # _ \<Rightarrow>
         (let val = (if c = CHR ''a'' then SUFFIX_ALPHA
                     else if c = CHR ''b'' then SUFFIX_BETA
                     else if c = CHR ''c'' then SUFFIX_CVS
                     else if c = CHR ''g'' then SUFFIX_GIT
                     else if c = CHR ''h'' then SUFFIX_HG
                     else if c = CHR ''p'' then (if blob_len suf > 1 then SUFFIX_PRE else SUFFIX_P)
                     else if c = CHR ''r'' then SUFFIX_RC
                     else if c = CHR ''s'' then SUFFIX_SVN
                     else SUFFIX_INVALID)
          in if val = SUFFIX_INVALID then SUFFIX_INVALID
             else if apk_blob_compare suf (Some (suffix_literals ! val)) \<noteq> 0 then SUFFIX_INVALID
             else val))"

definition APK_VERSION_UNKNOWN :: nat where "APK_VERSION_UNKNOWN = 0"
definition APK_VERSION_EQUAL :: nat where "APK_VERSION_EQUAL = 1"
definition APK_VERSION_LESS :: nat where "APK_VERSION_LESS = 2"
definition APK_VERSION_GREATER :: nat where "APK_VERSION_GREATER = 4"
definition APK_VERSION_FUZZY :: nat where "APK_VERSION_FUZZY = 8"
definition APK_VERSION_CONFLICT :: nat where "APK_VERSION_CONFLICT = 16"

definition APK_DEPMASK_ANY :: nat where
  "APK_DEPMASK_ANY = (APK_VERSION_EQUAL OR APK_VERSION_LESS OR APK_VERSION_GREATER)"
definition APK_DEPMASK_CHECKSUM :: nat where
  "APK_DEPMASK_CHECKSUM = (APK_VERSION_LESS OR APK_VERSION_GREATER)"

lemmas version_consts = APK_VERSION_UNKNOWN_def APK_VERSION_EQUAL_def APK_VERSION_LESS_def
  APK_VERSION_GREATER_def APK_VERSION_FUZZY_def APK_VERSION_CONFLICT_def APK_DEPMASK_ANY_def
  APK_DEPMASK_CHECKSUM_def

text \<open>A three-way result for numbers.\<close>

definition cmp_result :: "'a::linorder \<Rightarrow> 'a \<Rightarrow> nat" where
  "cmp_result a b =
     (if a < b then APK_VERSION_LESS else if a > b then APK_VERSION_GREATER
      else APK_VERSION_EQUAL)"

definition use_string_sort :: "token_state \<Rightarrow> token_state \<Rightarrow> nat" where
  "use_string_sort ta tb =
     (let r = apk_blob_sort (ts_value ta) (ts_value tb) in
      if r < 0 then APK_VERSION_LESS else if r > 0 then APK_VERSION_GREATER
      else APK_VERSION_EQUAL)"

definition token_cmp :: "token_state \<Rightarrow> token_state \<Rightarrow> nat" where
  "token_cmp ta tb =
     (case ts_token ta of
        TOKEN_DIGIT \<Rightarrow>
          if hd (blob_bytes (ts_value ta)) = CHR ''0'' \<or> hd (blob_bytes (ts_value tb)) = CHR ''0''
          then use_string_sort ta tb
          else cmp_result (ts_number ta) (ts_number tb)
      | TOKEN_INITIAL_DIGIT \<Rightarrow> cmp_result (ts_number ta) (ts_number tb)
      | TOKEN_SUFFIX_NO \<Rightarrow> cmp_result (ts_number ta) (ts_number tb)
      | TOKEN_REVISION_NO \<Rightarrow> cmp_result (ts_number ta) (ts_number tb)
      | TOKEN_LETTER \<Rightarrow>
          cmp_result (code (hd (blob_bytes (ts_value ta)))) (code (hd (blob_bytes (ts_value tb))))
      | TOKEN_SUFFIX \<Rightarrow> cmp_result (ts_suffix ta) (ts_suffix tb)
      | _ \<Rightarrow> use_string_sort ta tb)"

definition token_parse_digits :: "token_state \<Rightarrow> blob \<Rightarrow> token_state \<times> blob" where
  "token_parse_digits t b =
     (case apk_blob_pull_uint b 10 of (n, b') \<Rightarrow>
        let val = map_option (take (blob_len b - blob_len b')) b;
            t = t\<lparr>ts_number := n, ts_value := val\<rparr>
        in (if blob_len val = 0 then t\<lparr>ts_token := TOKEN_INVALID\<rparr> else t, b'))"

definition token_first :: "token_state \<Rightarrow> blob \<Rightarrow> token_state \<times> blob" where
  "token_first t b = token_parse_digits (t\<lparr>ts_token := TOKEN_INITIAL_DIGIT\<rparr>) b"

definition token_set_invalid :: "token_state \<Rightarrow> token_state" where
  "token_set_invalid t = t\<lparr>ts_token := TOKEN_INVALID\<rparr>"

text \<open>The number branch of \<open>token_next\<close>, entered from \<^verbatim>\<open>'.'\<close> and from a digit.\<close>

definition token_next_number :: "token_state \<Rightarrow> blob \<Rightarrow> token_state \<times> blob" where
  "token_next_number t b =
     (case ts_token t of
        TOKEN_INITIAL_DIGIT \<Rightarrow> token_parse_digits (t\<lparr>ts_token := TOKEN_DIGIT\<rparr>) b
      | TOKEN_DIGIT \<Rightarrow> token_parse_digits (t\<lparr>ts_token := TOKEN_DIGIT\<rparr>) b
      | TOKEN_SUFFIX \<Rightarrow> token_parse_digits (t\<lparr>ts_token := TOKEN_SUFFIX_NO\<rparr>) b
      | _ \<Rightarrow> (token_set_invalid t, b))"

text \<open>The cases of the switch in \<open>token_next\<close>; \<open>b\<close> is the blob and \<open>cs\<close> what follows its first byte.\<close>

definition token_next_letter :: "token_state \<Rightarrow> char \<Rightarrow> bytes \<Rightarrow> token_state \<times> blob" where
  "token_next_letter t c cs =
     (if token_no (ts_token t) > token_no TOKEN_DIGIT then (token_set_invalid t, Some (c # cs))
      else (t\<lparr>ts_value := Some [c], ts_token := TOKEN_LETTER\<rparr>, Some cs))"

definition token_next_dot :: "token_state \<Rightarrow> char \<Rightarrow> bytes \<Rightarrow> token_state \<times> blob" where
  "token_next_dot t c cs =
     (if token_no (ts_token t) > token_no TOKEN_DIGIT then (token_set_invalid t, Some (c # cs))
      else token_next_number t (Some cs))"

definition token_next_suffix :: "token_state \<Rightarrow> char \<Rightarrow> bytes \<Rightarrow> token_state \<times> blob" where
  "token_next_suffix t c cs =
     (if token_no (ts_token t) > token_no TOKEN_SUFFIX_NO
      then (token_set_invalid t, Some (c # cs))
      else case apk_blob_spn (Some cs) APK_CTYPE_VERSION_SUFFIX of (_, val, b) \<Rightarrow>
        let t = t\<lparr>ts_value := val, ts_suffix := suffix_value val\<rparr> in
        if ts_suffix t = SUFFIX_INVALID then (token_set_invalid t, b)
        else (t\<lparr>ts_token := TOKEN_SUFFIX\<rparr>, b))"

definition token_next_hash :: "token_state \<Rightarrow> char \<Rightarrow> bytes \<Rightarrow> token_state \<times> blob" where
  "token_next_hash t c cs =
     (if token_no (ts_token t) \<ge> token_no TOKEN_COMMIT_HASH
      then (token_set_invalid t, Some (c # cs))
      else case apk_blob_spn (Some cs) APK_CTYPE_HEXDIGIT of (_, val, b) \<Rightarrow>
        let t = t\<lparr>ts_value := val\<rparr> in
        if blob_len val = 0 then (token_set_invalid t, b)
        else (t\<lparr>ts_token := TOKEN_COMMIT_HASH\<rparr>, b))"

definition token_next_revision :: "token_state \<Rightarrow> char \<Rightarrow> bytes \<Rightarrow> token_state \<times> blob" where
  "token_next_revision t c cs =
     (if token_no (ts_token t) \<ge> token_no TOKEN_REVISION_NO
      then (token_set_invalid t, Some (c # cs))
      else case apk_blob_pull_blob_match (Some (c # cs)) (Some ''-r'') of (ok, b) \<Rightarrow>
        if \<not> ok then (token_set_invalid t, b)
        else token_parse_digits (t\<lparr>ts_token := TOKEN_REVISION_NO\<rparr>) b)"

definition token_next :: "token_state \<Rightarrow> blob \<Rightarrow> token_state \<times> blob" where
  "token_next t b =
     (case blob_bytes b of
        [] \<Rightarrow> (t\<lparr>ts_token := TOKEN_END\<rparr>, b)
      | c # cs \<Rightarrow>
          if 97 \<le> code c \<and> code c \<le> 122 then token_next_letter t c cs
          else if c = CHR ''.'' then token_next_dot t c cs
          else if 48 \<le> code c \<and> code c \<le> 57 then token_next_number t (Some (c # cs))
          else if c = CHR ''_'' then token_next_suffix t c cs
          else if c = CHR ''~'' then token_next_hash t c cs
          else if c = CHR ''-'' then token_next_revision t c cs
          else (token_set_invalid t, Some (c # cs)))"

definition apk_version_op_string :: "nat \<Rightarrow> bytes" where
  "apk_version_op_string op =
     (let op = (if op AND APK_VERSION_CONFLICT = 0 then op else op - APK_VERSION_CONFLICT) in
      if op = APK_VERSION_LESS then ''<''
      else if op = (APK_VERSION_LESS OR APK_VERSION_EQUAL) then ''<=''
      else if op = (APK_VERSION_LESS OR APK_VERSION_EQUAL OR APK_VERSION_FUZZY) then ''<~''
      else if op = (APK_VERSION_EQUAL OR APK_VERSION_FUZZY) then ''~''
      else if op = APK_VERSION_FUZZY then ''~''
      else if op = APK_VERSION_EQUAL then ''=''
      else if op = (APK_VERSION_GREATER OR APK_VERSION_EQUAL) then ''>=''
      else if op = (APK_VERSION_GREATER OR APK_VERSION_EQUAL OR APK_VERSION_FUZZY) then ''>~''
      else if op = APK_VERSION_GREATER then ''>''
      else if op = APK_DEPMASK_CHECKSUM then ''><''
      else if op = APK_DEPMASK_ANY then ''''
      else ''?'')"

fun result_mask_loop :: "bytes \<Rightarrow> nat \<Rightarrow> nat" where
  "result_mask_loop [] r = r"
| "result_mask_loop (c # cs) r =
     (if c = CHR ''<'' then result_mask_loop cs (r OR APK_VERSION_LESS)
      else if c = CHR ''>'' then result_mask_loop cs (r OR APK_VERSION_GREATER)
      else if c = CHR ''='' then result_mask_loop cs (r OR APK_VERSION_EQUAL)
      else if c = CHR ''~'' then
        result_mask_loop cs (r OR (APK_VERSION_FUZZY OR APK_VERSION_EQUAL))
      else 0)"

definition apk_version_result_mask_blob :: "blob \<Rightarrow> nat" where
  "apk_version_result_mask_blob op = result_mask_loop (blob_bytes op) 0"

definition apk_version_result_mask :: "bytes \<Rightarrow> nat" where
  "apk_version_result_mask op = apk_version_result_mask_blob (Some op)"

text \<open>
  The local variable \<^verbatim>\<open>struct token_state t\<close> starts uninitialised; every field is written before
  it is read, and this value stands for its initial contents.
\<close>

definition token_uninit :: token_state where
  "token_uninit = \<lparr>ts_token = TOKEN_INVALID, ts_suffix = 0, ts_number = 0, ts_value = None\<rparr>"

definition token_live :: "token_state \<Rightarrow> bool" where
  "token_live t \<longleftrightarrow> token_no (ts_token t) < token_no TOKEN_END"

definition token_left :: "token_state \<times> blob \<Rightarrow> nat" where
  "token_left p = (if token_live (fst p) then Suc (blob_len (snd p)) else 0)"

lemma token_parse_digits_left:
  "blob_len (snd (token_parse_digits t b)) \<le> blob_len b"
  "ts_token (fst (token_parse_digits t b)) \<noteq> TOKEN_INVALID \<Longrightarrow>
     blob_len (snd (token_parse_digits t b)) < blob_len b"
  "ts_token (fst (token_parse_digits t b)) = ts_token t \<or>
     ts_token (fst (token_parse_digits t b)) = TOKEN_INVALID"
proof -
  have loop: "length (snd (pull_uint_loop r xs v)) \<le> length xs" for r xs v
    by (induction r xs v rule: pull_uint_loop.induct) (auto simp: Let_def le_SucI)
  show "blob_len (snd (token_parse_digits t b)) \<le> blob_len b"
    using loop [of 10 "blob_bytes b" 0]
    by (cases b) (auto simp: token_parse_digits_def apk_blob_pull_uint_def Let_def split: prod.splits)
  show "ts_token (fst (token_parse_digits t b)) \<noteq> TOKEN_INVALID \<Longrightarrow>
     blob_len (snd (token_parse_digits t b)) < blob_len b"
    by (cases b) (auto simp: token_parse_digits_def apk_blob_pull_uint_def Let_def
        split: prod.splits if_splits)
  show "ts_token (fst (token_parse_digits t b)) = ts_token t \<or>
     ts_token (fst (token_parse_digits t b)) = TOKEN_INVALID"
    by (auto simp: token_parse_digits_def Let_def split: prod.splits)
qed

lemma token_parse_digits_live:
  "token_live (fst (token_parse_digits t b)) \<Longrightarrow>
     blob_len (snd (token_parse_digits t b)) < blob_len b"
  by (rule token_parse_digits_left(2)) (auto simp: token_live_def)

lemma token_set_invalid_dead [simp]: "\<not> token_live (token_set_invalid t)"
  by (simp add: token_live_def token_set_invalid_def)

lemma token_end_dead [simp]: "\<not> token_live (t\<lparr>ts_token := TOKEN_END\<rparr>)"
  by (simp add: token_live_def)

lemma token_next_number_live:
  "token_live (fst (token_next_number t b)) \<Longrightarrow>
     blob_len (snd (token_next_number t b)) < blob_len b"
  by (cases "ts_token t") (simp_all add: token_next_number_def token_parse_digits_live)

lemma spn_left: "apk_blob_spn (Some cs) ct = (r, l, m) \<Longrightarrow> blob_len m \<le> length cs"
  by (auto simp: apk_blob_spn_def length_dropWhile_le)

lemma pull_match_left: "apk_blob_pull_blob_match b m = (ok, b') \<Longrightarrow> blob_len b' \<le> blob_len b"
  by (cases b) (auto simp: apk_blob_pull_blob_match_def split: if_splits)

lemma if_both: "P x \<Longrightarrow> P y \<Longrightarrow> P (if c then x else y)"
  by simp

lemma token_next_live:
  assumes "token_live (fst (token_next t b))"
  shows "blob_len (snd (token_next t b)) < blob_len b"
proof (cases "blob_bytes b")
  case Nil
  with assms show ?thesis by (simp add: token_next_def)
next
  case (Cons c cs)
  let ?len = "\<lambda>p. token_live (fst p) \<longrightarrow> blob_len (snd p) \<le> length cs"
  have "?len (token_next_letter t c cs)"
    by (simp add: token_next_letter_def)
  moreover have "?len (token_next_dot t c cs)"
    using token_next_number_live [of t "Some cs"] by (simp add: token_next_dot_def less_imp_le)
  moreover have "?len (token_next_number t (Some (c # cs)))"
    using token_next_number_live [of t "Some (c # cs)"] by auto
  moreover have "?len (token_next_suffix t c cs)"
    using spn_left [of cs APK_CTYPE_VERSION_SUFFIX]
    by (auto simp: token_next_suffix_def Let_def split: prod.splits)
  moreover have "?len (token_next_hash t c cs)"
    using spn_left [of cs APK_CTYPE_HEXDIGIT]
    by (auto simp: token_next_hash_def Let_def split: prod.splits)
  moreover have "?len (token_next_revision t c cs)"
    using pull_match_left [of "Some (c # cs)" "Some ''-r''"]
      token_parse_digits_live [of "t\<lparr>ts_token := TOKEN_REVISION_NO\<rparr>"]
    by (fastforce simp: token_next_revision_def split: prod.splits)
  ultimately have "?len (token_next t b)"
    unfolding token_next_def Cons list.case by (intro if_both [where P = ?len]) simp_all
  moreover have "blob_len b = Suc (length cs)"
    using Cons by (simp add: blob_len_def)
  ultimately show ?thesis
    using assms by simp
qed

lemma token_next_measure:
  "token_live t \<Longrightarrow> token_left (token_next t b) < token_left (t, b)"
  using token_next_live [of t b] by (auto simp: token_left_def)

text \<open>The loop of \<open>apk_version_validate\<close>; it returns the token it stopped at.\<close>

function validate_loop :: "token_state \<Rightarrow> blob \<Rightarrow> token_state" where
  "validate_loop t b =
     (if token_live t then case token_next t b of (t', b') \<Rightarrow> validate_loop t' b' else t)"
  by pat_completeness auto
termination
  by (relation "measure token_left") (simp_all, metis token_next_measure)

declare validate_loop.simps [simp del]

definition apk_version_validate :: "blob \<Rightarrow> bool" where
  "apk_version_validate ver =
     (case token_first token_uninit ver of (t, b) \<Rightarrow>
        ts_token (validate_loop t b) = TOKEN_END)"

text \<open>
  The loop of \<open>apk_version_compare_fuzzy\<close>: the result of the first pair of tokens that differ
  (\<open>Inl\<close>), or the pair of tokens at which the loop condition fails (\<open>Inr\<close>).
\<close>

function compare_loop ::
  "token_state \<Rightarrow> blob \<Rightarrow> token_state \<Rightarrow> blob \<Rightarrow> nat + token_state \<times> token_state" where
  "compare_loop ta a tb b =
     (if ts_token ta = ts_token tb \<and> token_live ta
      then let r = token_cmp ta tb in
           if r \<noteq> APK_VERSION_EQUAL then Inl r
           else case token_next ta a of (ta', a') \<Rightarrow>
                case token_next tb b of (tb', b') \<Rightarrow> compare_loop ta' a' tb' b'
      else Inr (ta, tb))"
  by pat_completeness auto
termination
  by (relation "measure (\<lambda>(ta, a, tb, b). token_left (ta, a))")
    (simp_all, metis token_next_measure)

declare compare_loop.simps [simp del]

text \<open>The decision after the loop, for tokens of which at least one is final or that differ.\<close>

definition compare_final :: "bool \<Rightarrow> token_state \<Rightarrow> token_state \<Rightarrow> nat" where
  "compare_final fuzzy ta tb =
     (if ts_token ta = ts_token tb then APK_VERSION_EQUAL
      else if ts_token tb = TOKEN_END \<and> fuzzy then APK_VERSION_EQUAL
      else if ts_token ta = TOKEN_SUFFIX \<and> ts_suffix ta < SUFFIX_NONE then APK_VERSION_LESS
      else if ts_token tb = TOKEN_SUFFIX \<and> ts_suffix tb < SUFFIX_NONE then APK_VERSION_GREATER
      else if token_no (ts_token ta) > token_no (ts_token tb) then APK_VERSION_LESS
      else if token_no (ts_token tb) > token_no (ts_token ta) then APK_VERSION_GREATER
      else APK_VERSION_EQUAL)"

definition apk_version_compare_fuzzy :: "blob \<Rightarrow> blob \<Rightarrow> bool \<Rightarrow> nat" where
  "apk_version_compare_fuzzy a b fuzzy =
     (if a = None \<or> b = None
      then (if a = None \<and> b = None then APK_VERSION_EQUAL
            else APK_VERSION_EQUAL OR APK_VERSION_GREATER OR APK_VERSION_LESS)
      else case token_first token_uninit a of (ta, a') \<Rightarrow>
           case token_first token_uninit b of (tb, b') \<Rightarrow>
             (case compare_loop ta a' tb b' of
                Inl r \<Rightarrow> r
              | Inr (ta, tb) \<Rightarrow> compare_final fuzzy ta tb))"

definition apk_version_compare :: "blob \<Rightarrow> blob \<Rightarrow> nat" where
  "apk_version_compare a b = apk_version_compare_fuzzy a b False"

definition apk_version_match :: "blob \<Rightarrow> nat \<Rightarrow> blob \<Rightarrow> bool" where
  "apk_version_match a op b =
     (let ok = (op AND APK_DEPMASK_ANY = APK_DEPMASK_ANY \<or>
                apk_version_compare_fuzzy a b (op AND APK_VERSION_FUZZY \<noteq> 0) AND op \<noteq> 0)
      in if op AND APK_VERSION_CONFLICT \<noteq> 0 then \<not> ok else ok)"

section \<open>The order on versions\<close>

text \<open>
  The sequence of tokens of a version, up to and including the final one.
\<close>

function version_tokens :: "token_state \<Rightarrow> blob \<Rightarrow> token_state list" where
  "version_tokens t b =
     t # (if token_live t then case token_next t b of (t', b') \<Rightarrow> version_tokens t' b' else [])"
  by pat_completeness auto
termination
  by (relation "measure token_left") (simp_all, metis token_next_measure)

declare version_tokens.simps [simp del]

text \<open>
  What one token contributes to the order: a rank (pre-release suffixes come first, then the
  token kinds from the last one to the first one), a number and a text. A component of digits with
  a leading zero sorts before those without one, by its text.
\<close>

definition token_key :: "token_state \<Rightarrow> nat \<times> nat \<times> bytes" where
  "token_key t =
     (let txt = blob_bytes (ts_value t); rank = 9 - token_no (ts_token t) in
      case ts_token t of
        TOKEN_DIGIT \<Rightarrow> if hd txt = CHR ''0'' then (rank, 0, txt)
                        else (rank, Suc (unat (ts_number t)), [])
      | TOKEN_LETTER \<Rightarrow> (rank, code (hd txt), [])
      | TOKEN_SUFFIX \<Rightarrow> (if ts_suffix t < SUFFIX_NONE then 0 else rank, ts_suffix t, [])
      | TOKEN_COMMIT_HASH \<Rightarrow> (rank, 0, txt)
      | TOKEN_END \<Rightarrow> (rank, 0, [])
      | TOKEN_INVALID \<Rightarrow> (rank, 0, [])
      | _ \<Rightarrow> (rank, unat (ts_number t), []))"

definition version_key :: "blob \<Rightarrow> (nat \<times> nat \<times> bytes) list" where
  "version_key v =
     (case token_first token_uninit v of (t, b) \<Rightarrow> map token_key (version_tokens t b))"

text \<open>Well-formed tokens: the ones made of digits have some, which are digits.\<close>

definition token_ok :: "token_state \<Rightarrow> bool" where
  "token_ok t \<longleftrightarrow>
     (ts_token t = TOKEN_DIGIT \<longrightarrow>
        blob_bytes (ts_value t) \<noteq> [] \<and>
        48 \<le> code (hd (blob_bytes (ts_value t))) \<and> code (hd (blob_bytes (ts_value t))) \<le> 57)"

lemma bytes_less_iff: "bytes_less xs ys \<longleftrightarrow> xs < ys"
  by (induction xs ys rule: bytes_less.induct) (auto simp: less_char_def)

lemma use_string_sort_cmp:
  "use_string_sort ta tb = cmp_result (blob_bytes (ts_value ta)) (blob_bytes (ts_value tb))"
  by (simp add: use_string_sort_def cmp_result_def apk_blob_sort_less apk_blob_sort_greater
      bytes_less_iff)

lemma cmp_result_pair: "cmp_result (a, x) (b, y) = (if a = b then cmp_result x y else cmp_result a b)"
  by (auto simp: cmp_result_def)

lemma cmp_result_unat: "cmp_result (unat a) (unat b) = cmp_result a b"
  by (simp add: cmp_result_def word_less_nat_alt)

lemma cmp_result_Suc: "cmp_result (Suc a) (Suc b) = cmp_result a b"
  by (simp add: cmp_result_def)

lemma cmp_result_refl [simp]: "cmp_result a a = APK_VERSION_EQUAL"
  by (simp add: cmp_result_def)

lemma cmp_result_equal: "cmp_result a b = APK_VERSION_EQUAL \<longleftrightarrow> a = b"
  by (auto simp: cmp_result_def version_consts)

lemma leading_zero_less:
  assumes "xs \<noteq> []" "ys \<noteq> []" "hd xs = CHR ''0''" "hd ys \<noteq> CHR ''0''" "48 \<le> code (hd ys)"
  shows "xs < ys"
proof -
  have "code (hd ys) \<noteq> 48"
    using assms(4) code_inject [of "hd ys" "CHR ''0''"] by simp
  then show ?thesis
    using assms by (cases xs; cases ys) (auto simp: less_char_def)
qed

lemma token_cmp_key:
  assumes "ts_token ta = ts_token tb" "token_live ta" "token_ok ta" "token_ok tb"
  shows "token_cmp ta tb = cmp_result (token_key ta) (token_key tb)"
proof (cases "ts_token ta")
  case TOKEN_DIGIT
  let ?a = "blob_bytes (ts_value ta)" and ?b = "blob_bytes (ts_value tb)"
  have ne: "?a \<noteq> []" "?b \<noteq> []" "48 \<le> code (hd ?a)" "48 \<le> code (hd ?b)"
    using assms TOKEN_DIGIT by (auto simp: token_ok_def)
  consider "hd ?a = CHR ''0''" "hd ?b = CHR ''0''" | "hd ?a = CHR ''0''" "hd ?b \<noteq> CHR ''0''"
    | "hd ?a \<noteq> CHR ''0''" "hd ?b = CHR ''0''" | "hd ?a \<noteq> CHR ''0''" "hd ?b \<noteq> CHR ''0''"
    by blast
  then show ?thesis
  proof cases
    case 2
    with ne have "?a < ?b" by (intro leading_zero_less)
    with 2 TOKEN_DIGIT assms show ?thesis
      by (simp add: token_cmp_def token_key_def use_string_sort_cmp cmp_result_pair)
        (simp add: cmp_result_def)
  next
    case 3
    with ne have "?b < ?a" by (intro leading_zero_less)
    then have "\<not> ?a < ?b" by (rule less_not_sym)
    with \<open>?b < ?a\<close> 3 TOKEN_DIGIT assms show ?thesis
      by (simp add: token_cmp_def token_key_def use_string_sort_cmp cmp_result_pair)
        (simp add: cmp_result_def)
  qed (use TOKEN_DIGIT assms in \<open>simp_all add: token_cmp_def token_key_def use_string_sort_cmp
      cmp_result_pair cmp_result_Suc cmp_result_unat cmp_result_equal word_unat_eq_iff\<close>)
next
  case TOKEN_SUFFIX
  with assms show ?thesis
    by (auto simp: token_cmp_def token_key_def cmp_result_pair suffix_consts Let_def)
      (auto simp: cmp_result_def)
qed (use assms in \<open>simp_all add: token_cmp_def token_key_def use_string_sort_cmp cmp_result_pair
    cmp_result_unat cmp_result_equal word_unat_eq_iff token_live_def\<close>)

text \<open>Tokens of different kinds are ordered by their ranks, final tokens of one kind are equal.\<close>

lemma token_no_inject: "token_no a = token_no b \<longleftrightarrow> a = b"
  by (cases a; cases b) simp_all

lemma token_key_rank:
  "fst (token_key t) =
     (if ts_token t = TOKEN_SUFFIX \<and> ts_suffix t < SUFFIX_NONE then 0 else 9 - token_no (ts_token t))"
  by (cases "ts_token t") (simp_all add: token_key_def Let_def)

lemma token_no_le: "token_no t \<le> 8"
  by (cases t) simp_all

lemma token_key_neq:
  assumes "ts_token ta \<noteq> ts_token tb"
  shows "fst (token_key ta) \<noteq> fst (token_key tb)"
  using assms token_no_inject [of "ts_token ta" "ts_token tb"]
    token_no_le [of "ts_token ta"] token_no_le [of "ts_token tb"]
  by (auto simp: token_key_rank)

lemma compare_final_key:
  assumes "ts_token ta = ts_token tb \<longrightarrow> \<not> token_live ta"
  shows "compare_final False ta tb = cmp_result (token_key ta) (token_key tb)"
proof (cases "ts_token ta = ts_token tb")
  case True
  with assms have "ts_token ta = TOKEN_END \<or> ts_token ta = TOKEN_INVALID"
    by (cases "ts_token ta") (auto simp: token_live_def)
  with True show ?thesis
    by (auto simp: compare_final_def token_key_def Let_def)
next
  case False
  have "token_no (ts_token ta) \<noteq> token_no (ts_token tb)"
    using False by (simp add: token_no_inject)
  moreover have "token_no (ts_token ta) \<le> 8" "token_no (ts_token tb) \<le> 8"
    by (rule token_no_le)+
  moreover have "fst (token_key ta) \<noteq> fst (token_key tb)"
    using False by (rule token_key_neq)
  then have "cmp_result (token_key ta) (token_key tb)
      = cmp_result (fst (token_key ta)) (fst (token_key tb))"
    by (metis cmp_result_pair prod.collapse)
  ultimately show ?thesis
    using False by (auto simp: compare_final_def token_key_rank cmp_result_def)
qed

subsection \<open>Tokens are well formed\<close>

definition isdigit :: "char \<Rightarrow> bool" where
  "isdigit c \<longleftrightarrow> 48 \<le> code c \<and> code c \<le> 57"

lemma dx_less_10: "dx c < 10 \<longleftrightarrow> isdigit c"
  by (auto simp: dx_eq_spec dx_spec_def isdigit_def)

lemma isdigit_not_NUL [simp]: "\<not> isdigit NUL"
  by (simp add: isdigit_def)

lemma pull_uint_loop_10:
  "snd (pull_uint_loop 10 xs v) = dropWhile isdigit xs"
  by (induction "10::nat" xs v rule: pull_uint_loop.induct)
    (auto simp: Let_def not_less dx_less_10 [symmetric])

lemma pull_uint_10_rest: "snd (apk_blob_pull_uint b 10) = map_option (dropWhile isdigit) b"
  using pull_uint_loop_10 by (cases b) (auto simp: apk_blob_pull_uint_def case_prod_unfold)

lemma take_dropWhile_length: "take (length xs - length (dropWhile P xs)) xs = takeWhile P xs"
  by (metis append_eq_conv_conj diff_add_inverse2 length_append takeWhile_dropWhile_id)

lemma token_parse_digits_eq:
  "token_parse_digits t b =
     (let val = map_option (takeWhile isdigit) b;
          t = t\<lparr>ts_number := fst (apk_blob_pull_uint b 10), ts_value := val\<rparr>
      in (if blob_len val = 0 then t\<lparr>ts_token := TOKEN_INVALID\<rparr> else t,
          map_option (dropWhile isdigit) b))"
proof -
  have "map_option (take (blob_len b - blob_len (map_option (dropWhile isdigit) b))) b
      = map_option (takeWhile isdigit) b"
    by (cases b) (simp_all add: take_dropWhile_length)
  then show ?thesis
    unfolding token_parse_digits_def
    by (subst surjective_pairing [of "apk_blob_pull_uint b 10"])
      (simp add: pull_uint_10_rest Let_def del: prod.collapse)
qed

lemma token_parse_digits_ok: "token_ok (fst (token_parse_digits t b))"
proof -
  have "takeWhile isdigit xs \<noteq> [] \<Longrightarrow> isdigit (hd (takeWhile isdigit xs))" for xs
    by (metis hd_in_set set_takeWhileD)
  then show ?thesis
    by (cases b) (auto simp: token_parse_digits_eq token_ok_def Let_def isdigit_def)
qed

lemma token_set_invalid_ok [simp]: "token_ok (token_set_invalid t)"
  by (simp add: token_ok_def token_set_invalid_def)

lemma token_first_ok: "token_ok (fst (token_first t b))"
  by (simp add: token_first_def token_parse_digits_ok)

lemma token_next_ok: "token_ok (fst (token_next t b))"
proof -
  have num: "token_ok (fst (token_next_number t b))" for b
    by (simp add: token_next_number_def token_parse_digits_ok split: token.splits)
  have cases: "token_ok (fst (token_next_letter t c cs))" "token_ok (fst (token_next_dot t c cs))"
    "token_ok (fst (token_next_suffix t c cs))" "token_ok (fst (token_next_hash t c cs))"
    "token_ok (fst (token_next_revision t c cs))" for c cs
    using num
    by (auto simp: token_next_letter_def token_next_dot_def token_next_suffix_def
        token_next_hash_def token_next_revision_def token_parse_digits_ok Let_def
        split: prod.splits) (auto simp: token_ok_def)
  show ?thesis
  proof (cases "blob_bytes b")
    case Nil
    then show ?thesis by (simp add: token_next_def token_ok_def)
  next
    case (Cons c cs)
    show ?thesis
      unfolding token_next_def Cons list.case
      by (intro if_both [where P = "\<lambda>p. token_ok (fst p)"]) (simp_all add: num cases)
  qed
qed

subsection \<open>Comparison is the order of the keys\<close>

lemma cmp_result_Cons:
  "cmp_result (x # xs) (y # ys) = (if x = y then cmp_result xs ys else cmp_result x y)"
  by (auto simp: cmp_result_def)

lemma compare_loop_key:
  assumes "token_ok ta" "token_ok tb"
  shows "(case compare_loop ta a tb b of Inl r \<Rightarrow> r | Inr (x, y) \<Rightarrow> compare_final False x y) =
    cmp_result (map token_key (version_tokens ta a)) (map token_key (version_tokens tb b))"
  using assms
proof (induction ta a tb b rule: compare_loop.induct)
  case (1 ta a tb b)
  show ?case
  proof (cases "ts_token ta = ts_token tb \<and> token_live ta")
    case True
    then have live: "token_live tb" by (auto simp: token_live_def)
    obtain ta' a' tb' b' where nx: "token_next ta a = (ta', a')" "token_next tb b = (tb', b')"
      by fastforce
    have cmp: "token_cmp ta tb = cmp_result (token_key ta) (token_key tb)"
      using True "1.prems" by (intro token_cmp_key) auto
    have ok: "token_ok ta'" "token_ok tb'"
      using token_next_ok [of ta a] token_next_ok [of tb b] nx by simp_all
    show ?thesis
    proof (cases "token_key ta = token_key tb")
      case eq: True
      then have "token_cmp ta tb = APK_VERSION_EQUAL" by (simp add: cmp)
      with "1.IH" [OF True refl _ nx(1) [symmetric] nx(2) [symmetric] ok]
      show ?thesis
        using True live nx eq
        by (simp add: compare_loop.simps [of ta] version_tokens.simps [of ta a]
            version_tokens.simps [of tb b] cmp_result_Cons)
    next
      case False
      then have "token_cmp ta tb \<noteq> APK_VERSION_EQUAL" by (simp add: cmp cmp_result_equal)
      with False True show ?thesis
        by (simp add: compare_loop.simps [of ta] version_tokens.simps [of ta a]
            version_tokens.simps [of tb b] cmp_result_Cons cmp Let_def)
    qed
  next
    case False
    have cf: "compare_final False ta tb = cmp_result (token_key ta) (token_key tb)"
      using False by (intro compare_final_key) auto
    have "\<not> token_live ta \<and> \<not> token_live tb" if "token_key ta = token_key tb"
    proof -
      have "ts_token ta = ts_token tb"
        using that token_key_neq [of ta tb] by auto
      with False show ?thesis by (auto simp: token_live_def)
    qed
    then show ?thesis
      using False cf
      by (auto simp: compare_loop.simps [of ta] version_tokens.simps [of ta a]
          version_tokens.simps [of tb b] cmp_result_Cons)
  qed
qed

lemma version_compare_key:
  "apk_version_compare (Some x) (Some y) = cmp_result (version_key (Some x)) (version_key (Some y))"
  using compare_loop_key [OF token_first_ok token_first_ok]
  by (simp add: apk_version_compare_def apk_version_compare_fuzzy_def version_key_def
      case_prod_unfold)

subsection \<open>Fuzzy matching\<close>

lemma version_tokens_nonempty [simp]: "version_tokens t b \<noteq> []"
  by (subst version_tokens.simps) simp

lemma version_tokens_last: "last (version_tokens t b) = validate_loop t b"
proof (induction t b rule: validate_loop.induct)
  case (1 t b)
  then show ?case
    by (auto simp: validate_loop.simps [of t b] version_tokens.simps [of t b] split: prod.splits)
qed

lemma version_tokens_live: "\<forall>t \<in> set (butlast (version_tokens t b)). token_live t"
proof (induction t b rule: validate_loop.induct)
  case (1 t b)
  then show ?case
    by (auto simp: version_tokens.simps [of t b] split: prod.splits)
qed

text \<open>
  With fuzzy matching, a valid version \<open>b\<close> is equal to \<open>a\<close> when its tokens are the first tokens
  of \<open>a\<close>.
\<close>

lemma compare_loop_fuzzy:
  assumes "token_ok ta" "token_ok tb" "ts_token (validate_loop tb b) = TOKEN_END"
  shows "(case compare_loop ta a tb b of Inl r \<Rightarrow> r | Inr (x, y) \<Rightarrow> compare_final True x y)
      = APK_VERSION_EQUAL \<longleftrightarrow>
    prefix (map token_key (butlast (version_tokens tb b))) (map token_key (version_tokens ta a))"
  using assms
proof (induction ta a tb b rule: compare_loop.induct)
  case (1 ta a tb b)
  show ?case
  proof (cases "ts_token ta = ts_token tb \<and> token_live ta")
    case True
    then have live: "token_live tb" by (auto simp: token_live_def)
    obtain ta' a' tb' b' where nx: "token_next ta a = (ta', a')" "token_next tb b = (tb', b')"
      by fastforce
    have cmp: "token_cmp ta tb = cmp_result (token_key ta) (token_key tb)"
      using True "1.prems" by (intro token_cmp_key) auto
    have ok: "token_ok ta'" "token_ok tb'"
      using token_next_ok [of ta a] token_next_ok [of tb b] nx by simp_all
    have "ts_token (validate_loop tb' b') = TOKEN_END"
      using "1.prems"(3) live nx by (simp add: validate_loop.simps [of tb])
    note IH = "1.IH" [OF True refl _ nx(1) [symmetric] nx(2) [symmetric] ok this]
    show ?thesis
      using True live nx IH
      by (cases "token_key ta = token_key tb")
        (auto simp: compare_loop.simps [of ta] version_tokens.simps [of ta a]
            version_tokens.simps [of tb b] cmp cmp_result_equal Let_def)
  next
    case False
    show ?thesis
    proof (cases "token_live tb")
      case True
      then have "ts_token tb \<noteq> TOKEN_END" by (auto simp: token_live_def)
      moreover have "ts_token ta \<noteq> ts_token tb"
        using False True by (auto simp: token_live_def)
      moreover from this have "token_key ta \<noteq> token_key tb"
        using token_key_neq by metis
      moreover have "compare_final True ta tb = compare_final False ta tb"
        using calculation by (simp add: compare_final_def)
      moreover have "compare_final False ta tb = cmp_result (token_key ta) (token_key tb)"
        using calculation by (intro compare_final_key) auto
      ultimately show ?thesis
        using True
        by (auto simp: compare_loop.simps [of ta] version_tokens.simps [of ta a]
            version_tokens.simps [of tb b] cmp_result_equal split: prod.splits)
    next
      case dead: False
      then have "ts_token tb = TOKEN_END"
        using "1.prems"(3) by (simp add: validate_loop.simps [of tb])
      with False dead show ?thesis
        by (simp add: compare_loop.simps [of ta] version_tokens.simps [of tb b] compare_final_def)
    qed
  qed
qed

section \<open>Properties\<close>

text \<open>
  C2. Comparing two versions is comparing their keys, the sequences of what their tokens
  contribute, in the lexicographic order.
\<close>

theorem version_compare_is_key_order:
  "apk_version_compare (Some x) (Some y) =
     (if version_key (Some x) < version_key (Some y) then APK_VERSION_LESS
      else if version_key (Some y) < version_key (Some x) then APK_VERSION_GREATER
      else APK_VERSION_EQUAL)"
  by (simp add: version_compare_key cmp_result_def)

text \<open>
  Version comparison is a total preorder on all texts, valid or not: it is reflexive, swapping
  the versions swaps less and greater, and less-or-equal is transitive.
\<close>

lemma version_compare_preorder:
  "apk_version_compare (Some x) (Some x) = APK_VERSION_EQUAL \<and>
   (apk_version_compare (Some x) (Some y) = APK_VERSION_LESS \<longleftrightarrow>
      apk_version_compare (Some y) (Some x) = APK_VERSION_GREATER) \<and>
   (apk_version_compare (Some x) (Some y) \<noteq> APK_VERSION_GREATER \<and>
    apk_version_compare (Some y) (Some z) \<noteq> APK_VERSION_GREATER \<longrightarrow>
      apk_version_compare (Some x) (Some z) \<noteq> APK_VERSION_GREATER)"
  by (auto simp: version_compare_key cmp_result_def version_consts)

lemmas version_eval = token_first_def token_parse_digits_def apk_blob_pull_uint_def dx_eq_spec
  dx_spec_def token_uninit_def compare_loop.simps token_live_def token_cmp_def token_next_def
  token_next_dot_def token_next_number_def token_next_letter_def token_next_suffix_def
  token_next_hash_def token_next_revision_def token_set_invalid_def apk_blob_spn_def
  in_version_suffix suffix_value_def suffix_literals_def suffix_consts apk_blob_compare_def
  compare_final_def cmp_result_def version_consts

lemma version_compare_preorder_witness:
  "apk_version_compare (Some ''1.2_rc1'') (Some ''1.2'') = APK_VERSION_LESS \<and>
   apk_version_compare (Some ''1.2'') (Some ''1.10'') = APK_VERSION_LESS \<and>
   apk_version_compare (Some ''1.2_rc1'') (Some ''1.10'') \<noteq> APK_VERSION_GREATER"
proof -
  have "apk_version_compare (Some ''1.2_rc1'') (Some ''1.2'') = APK_VERSION_LESS"
    by (simp add: apk_version_compare_def apk_version_compare_fuzzy_def version_eval)
  moreover have "apk_version_compare (Some ''1.2'') (Some ''1.10'') = APK_VERSION_LESS"
    by (simp add: apk_version_compare_def apk_version_compare_fuzzy_def version_eval)
  ultimately show ?thesis
    using version_compare_preorder [of "''1.2_rc1''" "''1.2''" "''1.10''"]
    by (simp add: version_consts)
qed

text \<open>
  Fuzzy comparison against a valid version finds equality exactly when the tokens of that
  version are the first tokens of the other one.
\<close>

lemma version_fuzzy_prefix:
  assumes "apk_version_validate (Some y)"
  shows "apk_version_compare_fuzzy (Some x) (Some y) True = APK_VERSION_EQUAL \<longleftrightarrow>
    prefix (butlast (version_key (Some y))) (version_key (Some x))"
  using assms compare_loop_fuzzy [OF token_first_ok token_first_ok]
  by (simp add: apk_version_compare_fuzzy_def version_key_def apk_version_validate_def
      case_prod_unfold map_butlast)

lemma version_fuzzy_prefix_witness:
  "apk_version_validate (Some ''3.2'') \<and>
   (apk_version_compare_fuzzy (Some ''3.2.1'') (Some ''3.2'') True = APK_VERSION_EQUAL \<longleftrightarrow>
    prefix (butlast (version_key (Some ''3.2''))) (version_key (Some ''3.2.1'')))"
proof -
  have "apk_version_validate (Some ''3.2'')"
    by (simp add: apk_version_validate_def validate_loop.simps version_eval)
  with version_fuzzy_prefix [OF this] show ?thesis by simp
qed

end
