(* ===== verification/Version_Grammar.thy ===== *)
theory Version_Grammar
  imports Version
begin

text \<open>
  The grammar of versions, as the comment at the top of \<^verbatim>\<open>version.c\<close> gives it:
  \<^verbatim>\<open>digit{.digit}...{letter}{_suf{#}}...{~hash}{-r#}\<close>. The validation of \<^verbatim>\<open>version.c\<close> accepts
  exactly the texts of this grammar.
\<close>

section \<open>The grammar\<close>

definition g_digits :: "bytes \<Rightarrow> bool" where
  "g_digits xs \<longleftrightarrow> xs \<noteq> [] \<and> list_all isdigit xs"

definition g_letter :: "bytes \<Rightarrow> bool" where
  "g_letter xs \<longleftrightarrow> (\<exists>c. xs = [c] \<and> islower c)"

definition g_suffix :: "bytes \<Rightarrow> bool" where
  "g_suffix xs \<longleftrightarrow>
     (\<exists>s n. xs = CHR ''_'' # s @ n \<and> s \<in> set suffix_literals \<and> s \<noteq> [] \<and> list_all isdigit n)"

definition g_hex :: "char \<Rightarrow> bool" where
  "g_hex c \<longleftrightarrow> isdigit c \<or> (97 \<le> code c \<and> code c \<le> 102)"

definition g_hash :: "bytes \<Rightarrow> bool" where
  "g_hash xs \<longleftrightarrow> (\<exists>h. xs = CHR ''~'' # h \<and> h \<noteq> [] \<and> list_all g_hex h)"

definition g_rev :: "bytes \<Rightarrow> bool" where
  "g_rev xs \<longleftrightarrow> (\<exists>d. xs = ''-r'' @ d \<and> g_digits d)"

definition g_opt :: "(bytes \<Rightarrow> bool) \<Rightarrow> bytes \<Rightarrow> bool" where
  "g_opt P xs \<longleftrightarrow> xs = [] \<or> P xs"

definition version_grammar :: "bytes \<Rightarrow> bool" where
  "version_grammar v \<longleftrightarrow>
     (\<exists>d0 ds l ss h r.
        v = d0 @ concat (map ((#) CHR ''.'') ds) @ l @ concat ss @ h @ r \<and>
        g_digits d0 \<and> (\<forall>d \<in> set ds. g_digits d) \<and> g_opt g_letter l \<and>
        (\<forall>s \<in> set ss. g_suffix s) \<and> g_opt g_hash h \<and> g_opt g_rev r)"

section \<open>The rest of a version after each kind of token\<close>

definition r_rev :: "bytes \<Rightarrow> bool" where
  "r_rev xs \<longleftrightarrow> g_opt g_rev xs"

definition r_hash :: "bytes \<Rightarrow> bool" where
  "r_hash xs \<longleftrightarrow> (\<exists>h r. xs = h @ r \<and> g_opt g_hash h \<and> r_rev r)"

definition r_suffix :: "bytes \<Rightarrow> bool" where
  "r_suffix xs \<longleftrightarrow> (\<exists>ss r. xs = concat ss @ r \<and> (\<forall>s \<in> set ss. g_suffix s) \<and> r_hash r)"

definition r_suffix_no :: "bytes \<Rightarrow> bool" where
  "r_suffix_no xs \<longleftrightarrow> (\<exists>n r. xs = n @ r \<and> list_all isdigit n \<and> r_suffix r)"

definition r_letter :: "bytes \<Rightarrow> bool" where
  "r_letter xs \<longleftrightarrow> (\<exists>l r. xs = l @ r \<and> g_opt g_letter l \<and> r_suffix r)"

definition r_digit :: "bytes \<Rightarrow> bool" where
  "r_digit xs \<longleftrightarrow>
     (\<exists>ds r. xs = concat (map ((#) CHR ''.'') ds) @ r \<and> (\<forall>d \<in> set ds. g_digits d) \<and> r_letter r)"

lemma version_grammar_rest:
  "version_grammar v \<longleftrightarrow> (\<exists>d r. v = d @ r \<and> g_digits d \<and> r_digit r)"
  unfolding version_grammar_def r_digit_def r_letter_def r_suffix_def r_hash_def r_rev_def
  by (rule iffI; clarify; (rule exI conjI refl | assumption)+)

text \<open>Maximal munch: a scan stops where the next piece begins.\<close>

lemma munch:
  assumes "list_all P xs" "ys = [] \<or> \<not> P (hd ys)"
  shows "takeWhile P (xs @ ys) = xs" "dropWhile P (xs @ ys) = ys"
proof -
  have "\<forall>x \<in> set xs. P x" using assms(1) by (simp add: list_all_iff)
  moreover have "takeWhile P ys = []" "dropWhile P ys = ys"
    using assms(2) by (cases ys; auto)+
  ultimately show "takeWhile P (xs @ ys) = xs" "dropWhile P (xs @ ys) = ys"
    by (simp_all add: takeWhile_append2 dropWhile_append2)
qed

lemma takeWhile_all: "list_all P (takeWhile P xs)"
  by (induction xs) auto

subsection \<open>First bytes\<close>

lemma r_rev_hd: "r_rev (c # cs) \<Longrightarrow> c = CHR ''-''"
  by (auto simp: r_rev_def g_opt_def g_rev_def)

lemma r_hash_hd: "r_hash (c # cs) \<Longrightarrow> c = CHR ''~'' \<or> c = CHR ''-''"
  by (auto simp: r_hash_def g_opt_def g_hash_def dest: r_rev_hd)

lemma r_suffix_hd:
  assumes "r_suffix (c # cs)"
  shows "c = CHR ''_'' \<or> c = CHR ''~'' \<or> c = CHR ''-''"
proof -
  from assms obtain ss r where "c # cs = concat ss @ r" "\<forall>s \<in> set ss. g_suffix s" "r_hash r"
    by (auto simp: r_suffix_def)
  then show ?thesis
    by (cases ss) (auto simp: g_suffix_def dest: r_hash_hd)
qed

lemma r_letter_hd:
  "r_letter (c # cs) \<Longrightarrow> islower c \<or> c = CHR ''_'' \<or> c = CHR ''~'' \<or> c = CHR ''-''"
  by (auto simp: r_letter_def g_opt_def g_letter_def dest: r_suffix_hd)

lemma r_digit_hd:
  assumes "r_digit (c # cs)"
  shows "c = CHR ''.'' \<or> islower c \<or> c = CHR ''_'' \<or> c = CHR ''~'' \<or> c = CHR ''-''"
proof -
  from assms obtain ds r where "c # cs = concat (map ((#) CHR ''.'') ds) @ r" "r_letter r"
    by (auto simp: r_digit_def)
  then show ?thesis
    by (cases ds) (auto dest: r_letter_hd)
qed

lemmas char_class_simps = isdigit_def islower_def g_hex_def

lemma r_suffix_stop: "r_suffix r \<Longrightarrow> r = [] \<or> \<not> islower (hd r) \<and> \<not> isdigit (hd r)"
  by (cases r) (auto dest!: r_suffix_hd simp: char_class_simps)

subsection \<open>Unfolding by the first byte\<close>

lemma r_Nil [simp]:
  "r_rev []" "r_hash []" "r_suffix []" "r_suffix_no []" "r_letter []" "r_digit []"
proof -
  show a: "r_rev []" by (simp add: r_rev_def g_opt_def)
  then show b: "r_hash []" by (simp add: r_hash_def g_opt_def)
  then show c: "r_suffix []" unfolding r_suffix_def by (intro exI [of _ "[]"]) simp
  then show "r_suffix_no []" by (simp add: r_suffix_no_def)
  from c show d: "r_letter []" by (simp add: r_letter_def g_opt_def)
  then show "r_digit []" unfolding r_digit_def by (intro exI [of _ "[]"]) simp
qed

lemma r_rev_Cons:
  "r_rev (c # cs) \<longleftrightarrow> c = CHR ''-'' \<and> (\<exists>d. cs = CHR ''r'' # d \<and> g_digits d)"
  by (auto simp: r_rev_def g_opt_def g_rev_def)

lemma r_hash_Cons:
  "r_hash (c # cs) \<longleftrightarrow>
     (c = CHR ''~'' \<and> takeWhile g_hex cs \<noteq> [] \<and> r_rev (dropWhile g_hex cs)) \<or>
     (c \<noteq> CHR ''~'' \<and> r_rev (c # cs))"
proof
  assume "r_hash (c # cs)"
  then obtain h r where hr: "c # cs = h @ r" "g_opt g_hash h" "r_rev r"
    by (auto simp: r_hash_def)
  show "(c = CHR ''~'' \<and> takeWhile g_hex cs \<noteq> [] \<and> r_rev (dropWhile g_hex cs)) \<or>
     (c \<noteq> CHR ''~'' \<and> r_rev (c # cs))"
  proof (cases "h = []")
    case True
    with hr show ?thesis by (auto dest: r_rev_hd)
  next
    case False
    with hr obtain k where k: "c = CHR ''~''" "cs = k @ r" "k \<noteq> []" "list_all g_hex k"
      by (auto simp: g_opt_def g_hash_def)
    have "r = [] \<or> \<not> g_hex (hd r)"
      using hr(3) by (cases r) (auto dest!: r_rev_hd simp: char_class_simps)
    from munch [OF k(4) this] k hr(3) show ?thesis by simp
  qed
next
  assume "(c = CHR ''~'' \<and> takeWhile g_hex cs \<noteq> [] \<and> r_rev (dropWhile g_hex cs)) \<or>
     (c \<noteq> CHR ''~'' \<and> r_rev (c # cs))"
  then show "r_hash (c # cs)"
  proof
    assume a: "c = CHR ''~'' \<and> takeWhile g_hex cs \<noteq> [] \<and> r_rev (dropWhile g_hex cs)"
    then have "g_opt g_hash (c # takeWhile g_hex cs)"
      by (simp add: g_opt_def g_hash_def takeWhile_all)
    with a show ?thesis
      unfolding r_hash_def
      by (intro exI [of _ "c # takeWhile g_hex cs"] exI [of _ "dropWhile g_hex cs"]) auto
  next
    assume "c \<noteq> CHR ''~'' \<and> r_rev (c # cs)"
    then show ?thesis by (auto simp: r_hash_def g_opt_def)
  qed
qed

lemma r_suffix_no_iff: "r_suffix_no xs \<longleftrightarrow> r_suffix (dropWhile isdigit xs)"
proof
  assume "r_suffix_no xs"
  then obtain n r where nr: "xs = n @ r" "list_all isdigit n" "r_suffix r"
    by (auto simp: r_suffix_no_def)
  have "r = [] \<or> \<not> isdigit (hd r)"
    using nr(3) by (cases r) (auto dest!: r_suffix_hd simp: char_class_simps)
  from munch [OF nr(2) this] nr show "r_suffix (dropWhile isdigit xs)" by simp
next
  assume "r_suffix (dropWhile isdigit xs)"
  then show "r_suffix_no xs"
    unfolding r_suffix_no_def by (metis takeWhile_all takeWhile_dropWhile_id)
qed

lemma suffix_literals_lower: "s \<in> set suffix_literals \<Longrightarrow> list_all islower s"
  by (auto simp: suffix_literals_def islower_def)

lemma r_suffix_Cons:
  "r_suffix (c # cs) \<longleftrightarrow>
     (c = CHR ''_'' \<and> takeWhile islower cs \<in> set suffix_literals \<and> takeWhile islower cs \<noteq> [] \<and>
        r_suffix_no (dropWhile islower cs)) \<or>
     (c \<noteq> CHR ''_'' \<and> r_hash (c # cs))" (is "?l \<longleftrightarrow> ?u \<or> ?h")
proof
  assume ?l
  then obtain ss r where ss: "c # cs = concat ss @ r" "\<forall>s \<in> set ss. g_suffix s" "r_hash r"
    by (auto simp: r_suffix_def)
  show "?u \<or> ?h"
  proof (cases ss)
    case Nil
    with ss show ?thesis by (auto dest: r_hash_hd)
  next
    case (Cons a as)
    with ss obtain s n where a: "a = CHR ''_'' # s @ n" "s \<in> set suffix_literals" "s \<noteq> []"
        "list_all isdigit n"
      by (auto simp: g_suffix_def)
    define q where "q = concat as @ r"
    have rest: "r_suffix q" using ss Cons by (auto simp: r_suffix_def q_def)
    then have no: "r_suffix_no (n @ q)" using a(4) by (auto simp: r_suffix_no_def)
    have "n @ q = [] \<or> \<not> islower (hd (n @ q))"
      using a(4) r_suffix_stop [OF rest] by (cases n) (auto simp: char_class_simps)
    then have "takeWhile islower (s @ n @ q) = s" "dropWhile islower (s @ n @ q) = n @ q"
      using munch [OF suffix_literals_lower [OF a(2)]] by blast+
    moreover have "cs = s @ n @ q" "c = CHR ''_''"
      using ss(1) Cons a(1) by (simp_all add: q_def)
    ultimately show ?thesis using no a by simp
  qed
next
  assume "?u \<or> ?h"
  then show ?l
  proof
    assume u: ?u
    then obtain n r where nr: "dropWhile islower cs = n @ r" "list_all isdigit n" "r_suffix r"
      by (auto simp: r_suffix_no_def)
    then obtain ss r' where ss: "r = concat ss @ r'" "\<forall>s \<in> set ss. g_suffix s" "r_hash r'"
      by (auto simp: r_suffix_def)
    let ?s = "c # takeWhile islower cs @ n"
    have "g_suffix ?s" using u nr by (auto simp: g_suffix_def)
    moreover have "c # cs = ?s @ r"
      using nr(1) by (metis append.assoc append_Cons takeWhile_dropWhile_id)
    ultimately show ?thesis
      unfolding r_suffix_def using ss by (intro exI [of _ "?s # ss"] exI [of _ r']) auto
  next
    assume ?h
    then show ?thesis unfolding r_suffix_def by (intro exI [of _ "[]"] exI [of _ "c # cs"]) auto
  qed
qed

lemma r_letter_Cons:
  "r_letter (c # cs) \<longleftrightarrow> (if islower c then r_suffix cs else r_suffix (c # cs))"
proof -
  have "r_suffix (c # cs) \<Longrightarrow> \<not> islower c"
    by (auto dest!: r_suffix_hd simp: char_class_simps)
  moreover have "islower c \<Longrightarrow> r_suffix cs \<Longrightarrow> r_letter (c # cs)"
    unfolding r_letter_def by (intro exI [of _ "[c]"] exI [of _ cs]) (simp add: g_opt_def g_letter_def)
  ultimately show ?thesis
    by (auto simp: r_letter_def g_opt_def g_letter_def)
qed

lemma r_digit_Cons:
  "r_digit (c # cs) \<longleftrightarrow>
     (if c = CHR ''.'' then takeWhile isdigit cs \<noteq> [] \<and> r_digit (dropWhile isdigit cs)
      else r_letter (c # cs))"
proof
  assume "r_digit (c # cs)"
  then obtain ds r where ds: "c # cs = concat (map ((#) CHR ''.'') ds) @ r"
      "\<forall>d \<in> set ds. g_digits d" "r_letter r"
    by (auto simp: r_digit_def)
  show "if c = CHR ''.'' then takeWhile isdigit cs \<noteq> [] \<and> r_digit (dropWhile isdigit cs)
      else r_letter (c # cs)"
  proof (cases ds)
    case Nil
    with ds have "c \<noteq> CHR ''.''"
      by (auto dest!: r_letter_hd simp: char_class_simps)
    with ds Nil show ?thesis by simp
  next
    case (Cons d es)
    let ?rest = "concat (map ((#) CHR ''.'') es) @ r"
    have rest: "r_digit ?rest" using ds Cons by (auto simp: r_digit_def)
    have d: "list_all isdigit d" "d \<noteq> []" using ds Cons by (auto simp: g_digits_def)
    have "?rest = [] \<or> \<not> isdigit (hd ?rest)"
      using rest by (cases ?rest) (auto dest!: r_digit_hd simp: char_class_simps)
    from munch [OF d(1) this] d rest ds(1) Cons show ?thesis by simp
  qed
next
  assume a: "if c = CHR ''.'' then takeWhile isdigit cs \<noteq> [] \<and> r_digit (dropWhile isdigit cs)
      else r_letter (c # cs)"
  show "r_digit (c # cs)"
  proof (cases "c = CHR ''.''")
    case True
    with a obtain ds r where ds: "dropWhile isdigit cs = concat (map ((#) CHR ''.'') ds) @ r"
        "\<forall>d \<in> set ds. g_digits d" "r_letter r"
      by (auto simp: r_digit_def)
    have "g_digits (takeWhile isdigit cs)"
      using a True by (simp add: g_digits_def takeWhile_all)
    moreover have "c # cs = concat (map ((#) CHR ''.'') (takeWhile isdigit cs # ds)) @ r"
      using True ds(1) by (simp, metis takeWhile_dropWhile_id)
    ultimately show ?thesis
      unfolding r_digit_def using ds
      by (intro exI [of _ "takeWhile isdigit cs # ds"] exI [of _ r]) auto
  next
    case False
    with a show ?thesis
      unfolding r_digit_def by (intro exI [of _ "[]"] exI [of _ "c # cs"]) auto
  qed
qed

section \<open>Validation decides the grammar\<close>

fun r_after :: "token \<Rightarrow> bytes \<Rightarrow> bool" where
  "r_after TOKEN_INITIAL_DIGIT xs = r_digit xs"
| "r_after TOKEN_DIGIT xs = r_digit xs"
| "r_after TOKEN_LETTER xs = r_suffix xs"
| "r_after TOKEN_SUFFIX xs = r_suffix_no xs"
| "r_after TOKEN_SUFFIX_NO xs = r_suffix xs"
| "r_after TOKEN_COMMIT_HASH xs = r_rev xs"
| "r_after TOKEN_REVISION_NO xs = (xs = [])"
| "r_after TOKEN_END xs = True"
| "r_after TOKEN_INVALID xs = False"

text \<open>After a component of digits the next byte is not a digit.\<close>

definition digits_done :: "token \<Rightarrow> bytes \<Rightarrow> bool" where
  "digits_done t xs \<longleftrightarrow>
     (t = TOKEN_INITIAL_DIGIT \<or> t = TOKEN_DIGIT \<longrightarrow> xs = [] \<or> \<not> isdigit (hd xs))"

definition step_ok :: "token \<Rightarrow> bytes \<Rightarrow> token_state \<times> blob \<Rightarrow> bool" where
  "step_ok t xs p \<longleftrightarrow>
     (r_after t xs \<longleftrightarrow> r_after (ts_token (fst p)) (blob_bytes (snd p))) \<and>
     digits_done (ts_token (fst p)) (blob_bytes (snd p))"

lemma step_ok_invalid: "\<not> r_after t xs \<Longrightarrow> step_ok t xs (token_set_invalid u, b)"
  by (simp add: step_ok_def token_set_invalid_def digits_done_def)

lemmas r_Cons_simps = r_rev_Cons r_hash_Cons r_suffix_Cons r_letter_Cons r_digit_Cons
  r_suffix_no_iff

lemma parse_digits_step:
  assumes "r_after t xs \<longleftrightarrow> takeWhile isdigit ys \<noteq> [] \<and> r_after tok (dropWhile isdigit ys)"
  shows "step_ok t xs (token_parse_digits (u\<lparr>ts_token := tok\<rparr>) (Some ys))"
  using assms
  by (auto simp: step_ok_def token_parse_digits_eq Let_def digits_done_def
      dest: hd_dropWhile simp del: dropWhile_eq_Nil_conv takeWhile_eq_Nil_iff)

lemma suffix_value_valid:
  "suffix_value (Some xs) \<noteq> SUFFIX_INVALID \<longleftrightarrow> xs \<in> set suffix_literals \<and> xs \<noteq> []"
  by (cases xs) (auto simp: suffix_value_def suffix_consts suffix_literals_def Let_def
      apk_blob_compare_eq_0)

lemma spn_suffix:
  "apk_blob_spn (Some cs) APK_CTYPE_VERSION_SUFFIX =
     (dropWhile islower cs \<noteq> [], Some (takeWhile islower cs), Some (dropWhile islower cs))"
proof -
  have "in_ctype APK_CTYPE_VERSION_SUFFIX = islower"
    by (rule ext) (simp add: in_version_suffix islower_def)
  then show ?thesis by (simp add: apk_blob_spn_def)
qed

lemma spn_hex:
  "apk_blob_spn (Some cs) APK_CTYPE_HEXDIGIT =
     (dropWhile g_hex cs \<noteq> [], Some (takeWhile g_hex cs), Some (dropWhile g_hex cs))"
proof -
  have "in_ctype APK_CTYPE_HEXDIGIT = g_hex"
    by (rule ext) (simp add: in_hexdigit g_hex_def isdigit_def)
  then show ?thesis by (simp add: apk_blob_spn_def)
qed

lemma letter_step:
  assumes "islower c" "token_live t"
  shows "step_ok (ts_token t) (c # cs) (token_next_letter t c cs)"
proof (cases "token_no (ts_token t) > token_no TOKEN_DIGIT")
  case True
  have "c \<noteq> CHR ''-''" "c \<noteq> CHR ''_''" "c \<noteq> CHR ''~''" "c \<noteq> CHR ''.''" "\<not> isdigit c"
    using assms by (auto simp: char_class_simps)
  with True assms have "\<not> r_after (ts_token t) (c # cs)"
    by (cases "ts_token t") (auto simp: r_Cons_simps token_live_def)
  with True show ?thesis by (simp add: token_next_letter_def step_ok_invalid)
next
  case False
  have "c \<noteq> CHR ''.''" using assms by (auto simp: char_class_simps)
  with False assms show ?thesis
    by (cases "ts_token t")
      (auto simp: token_next_letter_def step_ok_def digits_done_def r_Cons_simps)
qed

lemma dot_step:
  assumes "token_live t"
  shows "step_ok (ts_token t) (CHR ''.'' # cs) (token_next_dot t CHR ''.'' cs)"
proof (cases "token_no (ts_token t) > token_no TOKEN_DIGIT")
  case True
  with assms have "\<not> r_after (ts_token t) (CHR ''.'' # cs)"
    by (cases "ts_token t") (auto simp: r_Cons_simps token_live_def char_class_simps)
  with True show ?thesis by (simp add: token_next_dot_def step_ok_invalid)
next
  case False
  then have "ts_token t = TOKEN_INITIAL_DIGIT \<or> ts_token t = TOKEN_DIGIT"
    by (cases "ts_token t") auto
  then show ?thesis
    by (auto simp: token_next_dot_def token_next_number_def r_digit_Cons intro!: parse_digits_step)
qed

lemma number_step:
  assumes "isdigit c" "token_live t" "digits_done (ts_token t) (c # cs)"
  shows "step_ok (ts_token t) (c # cs) (token_next_number t (Some (c # cs)))"
proof (cases "ts_token t = TOKEN_SUFFIX")
  case True
  with assms show ?thesis
    by (auto simp: token_next_number_def r_suffix_no_iff intro!: parse_digits_step)
next
  case False
  have "c \<noteq> CHR ''-''" "c \<noteq> CHR ''_''" "c \<noteq> CHR ''~''" "c \<noteq> CHR ''.''" "\<not> islower c"
    using assms by (auto simp: char_class_simps)
  with False assms have "\<not> r_after (ts_token t) (c # cs)"
    by (cases "ts_token t") (auto simp: r_Cons_simps token_live_def digits_done_def)
  with False assms show ?thesis
    by (cases "ts_token t")
      (auto simp: token_next_number_def digits_done_def step_ok_invalid)
qed

lemma suffix_step:
  assumes "token_live t"
  shows "step_ok (ts_token t) (CHR ''_'' # cs) (token_next_suffix t CHR ''_'' cs)"
proof (cases "token_no (ts_token t) > token_no TOKEN_SUFFIX_NO")
  case True
  with assms have "\<not> r_after (ts_token t) (CHR ''_'' # cs)"
    by (cases "ts_token t") (auto simp: r_Cons_simps token_live_def)
  with True show ?thesis by (simp add: token_next_suffix_def step_ok_invalid)
next
  case False
  have *: "r_after (ts_token t) (CHR ''_'' # cs) \<longleftrightarrow>
      suffix_value (Some (takeWhile islower cs)) \<noteq> SUFFIX_INVALID \<and>
      r_suffix_no (dropWhile islower cs)"
    using False unfolding suffix_value_valid
    by (cases "ts_token t") (auto simp: r_Cons_simps char_class_simps)
  show ?thesis
  proof (cases "suffix_value (Some (takeWhile islower cs)) = SUFFIX_INVALID")
    case True
    with * False show ?thesis
      by (simp add: token_next_suffix_def spn_suffix step_ok_invalid Let_def)
  next
    case nz: False
    with * False show ?thesis
      by (simp add: token_next_suffix_def spn_suffix step_ok_def Let_def digits_done_def)
  qed
qed

lemma hash_step:
  assumes "token_live t"
  shows "step_ok (ts_token t) (CHR ''~'' # cs) (token_next_hash t CHR ''~'' cs)"
proof (cases "token_no (ts_token t) \<ge> token_no TOKEN_COMMIT_HASH")
  case True
  with assms have "\<not> r_after (ts_token t) (CHR ''~'' # cs)"
    by (cases "ts_token t") (auto simp: r_Cons_simps token_live_def)
  with True show ?thesis by (simp add: token_next_hash_def step_ok_invalid)
next
  case False
  have *: "r_after (ts_token t) (CHR ''~'' # cs) \<longleftrightarrow>
      takeWhile g_hex cs \<noteq> [] \<and> r_rev (dropWhile g_hex cs)"
    using False
    by (cases "ts_token t")
      (auto simp: r_Cons_simps char_class_simps simp del: takeWhile_eq_Nil_iff)
  show ?thesis
  proof (cases "takeWhile g_hex cs = []")
    case True
    with * False show ?thesis
      by (simp add: token_next_hash_def spn_hex step_ok_invalid Let_def del: takeWhile_eq_Nil_iff)
  next
    case nz: False
    with * False show ?thesis
      by (simp add: token_next_hash_def spn_hex step_ok_def Let_def digits_done_def
          del: takeWhile_eq_Nil_iff)
  qed
qed

lemma revision_step:
  assumes "token_live t"
  shows "step_ok (ts_token t) (CHR ''-'' # cs) (token_next_revision t CHR ''-'' cs)"
proof (cases "token_no (ts_token t) \<ge> token_no TOKEN_REVISION_NO")
  case True
  with assms have "\<not> r_after (ts_token t) (CHR ''-'' # cs)"
    by (cases "ts_token t") (auto simp: token_live_def)
  with True show ?thesis by (simp add: token_next_revision_def step_ok_invalid)
next
  case False
  have *: "r_after (ts_token t) (CHR ''-'' # cs) \<longleftrightarrow> (\<exists>d. cs = CHR ''r'' # d \<and> g_digits d)"
    using False by (cases "ts_token t") (auto simp: r_Cons_simps char_class_simps)
  show ?thesis
  proof (cases "\<exists>d. cs = CHR ''r'' # d")
    case True
    then obtain d where d: "cs = CHR ''r'' # d" by blast
    have "g_digits d \<longleftrightarrow> takeWhile isdigit d \<noteq> [] \<and> dropWhile isdigit d = []"
      unfolding g_digits_def list_all_iff
      by (metis dropWhile_eq_Nil_conv takeWhile_dropWhile_id append_Nil append_Nil2)
    with * have "step_ok (ts_token t) (CHR ''-'' # cs)
        (token_parse_digits (t\<lparr>ts_token := TOKEN_REVISION_NO\<rparr>) (Some d))"
      by (intro parse_digits_step) (simp add: d del: takeWhile_eq_Nil_iff dropWhile_eq_Nil_conv)
    with False show ?thesis
      by (simp add: token_next_revision_def apk_blob_pull_blob_match_def d)
  next
    case no: False
    then have "memcmp (take 2 (CHR ''-'' # cs)) ''-r'' \<noteq> 0 \<or> length (CHR ''-'' # cs) < 2"
      using code_inject [of "hd cs" "CHR ''r''"] by (cases cs) auto
    with no * False show ?thesis
      by (auto simp: token_next_revision_def apk_blob_pull_blob_match_def step_ok_invalid)
  qed
qed

lemma token_next_step:
  assumes "token_live t" "digits_done (ts_token t) (blob_bytes b)"
  shows "step_ok (ts_token t) (blob_bytes b) (token_next t b)"
proof (cases "blob_bytes b")
  case Nil
  with assms show ?thesis
    by (cases "ts_token t") (auto simp: token_next_def step_ok_def digits_done_def token_live_def)
next
  case (Cons c cs)
  have inv: "\<not> r_after (ts_token t) (c # cs)"
    if "\<not> islower c" "c \<noteq> CHR ''.''" "\<not> isdigit c" "c \<noteq> CHR ''_''" "c \<noteq> CHR ''~''" "c \<noteq> CHR ''-''"
    using that assms(1) by (cases "ts_token t") (auto simp: r_Cons_simps token_live_def)
  show ?thesis
    unfolding token_next_def Cons list.case islower_def [symmetric] isdigit_def [symmetric]
    using assms letter_step [of c t cs] dot_step [of t cs] number_step [of c t cs]
      suffix_step [of t cs] hash_step [of t cs] revision_step [of t cs] inv Cons
    by (auto simp: step_ok_invalid)
qed

lemma validate_loop_rest:
  "digits_done (ts_token t) (blob_bytes b) \<Longrightarrow>
     ts_token (validate_loop t b) = TOKEN_END \<longleftrightarrow> r_after (ts_token t) (blob_bytes b)"
proof (induction t b rule: validate_loop.induct)
  case (1 t b)
  show ?case
  proof (cases "token_live t")
    case True
    obtain t' b' where nx: "token_next t b = (t', b')" by fastforce
    with token_next_step [OF True "1.prems"] "1.IH" [OF True nx [symmetric]] True show ?thesis
      by (simp add: validate_loop.simps [of t b] step_ok_def)
  next
    case False
    then have "ts_token t = TOKEN_END \<or> ts_token t = TOKEN_INVALID"
      by (cases "ts_token t") (auto simp: token_live_def)
    with False show ?thesis
      by (auto simp: validate_loop.simps [of t b])
  qed
qed

lemma validate_grammar: "apk_version_validate (Some v) \<longleftrightarrow> version_grammar v"
proof -
  obtain t b where tb: "token_first token_uninit (Some v) = (t, b)" by fastforce
  have "digits_done (ts_token t) (blob_bytes b)"
    using tb by (auto simp: token_first_def token_parse_digits_eq Let_def digits_done_def
        dest: hd_dropWhile simp del: dropWhile_eq_Nil_conv)
  then have "apk_version_validate (Some v) \<longleftrightarrow> r_after (ts_token t) (blob_bytes b)"
    by (simp add: apk_version_validate_def tb validate_loop_rest)
  also have "\<dots> \<longleftrightarrow> takeWhile isdigit v \<noteq> [] \<and> r_digit (dropWhile isdigit v)"
    using tb by (auto simp: token_first_def token_parse_digits_eq Let_def
        simp del: takeWhile_eq_Nil_iff split: if_splits)
  also have "\<dots> \<longleftrightarrow> version_grammar v"
  proof
    assume "takeWhile isdigit v \<noteq> [] \<and> r_digit (dropWhile isdigit v)"
    then show "version_grammar v"
      unfolding version_grammar_rest g_digits_def
      by (metis takeWhile_all takeWhile_dropWhile_id)
  next
    assume "version_grammar v"
    then obtain d r where dr: "v = d @ r" "d \<noteq> []" "list_all isdigit d" "r_digit r"
      by (auto simp: version_grammar_rest g_digits_def)
    have "r = [] \<or> \<not> isdigit (hd r)"
      using dr(4) by (cases r) (auto dest!: r_digit_hd simp: char_class_simps)
    from munch [OF dr(3) this] dr show "takeWhile isdigit v \<noteq> [] \<and> r_digit (dropWhile isdigit v)"
      by simp
  qed
  finally show ?thesis .
qed

section \<open>Properties\<close>

text \<open>
  C1. \<^verbatim>\<open>apk_version_validate\<close> accepts a text exactly when the text belongs to the grammar that the
  source documents: digits, more components after dots, an optional letter, suffixes with optional
  numbers, an optional commit hash, an optional revision.
\<close>

theorem version_validate_is_grammar:
  "apk_version_validate (Some v) \<longleftrightarrow> version_grammar v"
  by (rule validate_grammar)

end
