(* ===== verification/Lists.thy ===== *)
theory Lists
  imports Prelude
begin

text \<open>
  The intrusive linked lists of \<^verbatim>\<open>apk_defines.h\<close>: the singly linked \<^verbatim>\<open>hlist\<close> (hash buckets,
  allocator pages) and the circular doubly linked \<^verbatim>\<open>list_head\<close> (solver queues, caches). Nodes
  are addresses of an arbitrary type, the \<^verbatim>\<open>next\<close> and \<^verbatim>\<open>prev\<close> fields are maps from addresses,
  and every operation is the sequence of field writes of the C code. The chain predicates relate
  a heap to the HOL list it represents; the operations are shown to act on it like Cons, append
  and remove, which is what the components that use these lists rely on.
\<close>

section \<open>Singly linked lists\<close>

text \<open>
  A link is NULL, the end marker \<^verbatim>\<open>LIST_END\<close> or the address of a node. A node is in some list
  exactly if its next field is not NULL.
\<close>

datatype 'a hlink = HNull | LIST_END | HNode 'a

record 'a hlist =
  h_next :: "'a \<Rightarrow> 'a hlink"
  h_first :: "'a hlink"

text \<open>The address of a link: the head's first field or the next field of a node.\<close>

datatype 'a hslot = FirstOf | NextOf 'a

fun hslot_read :: "'a hlist \<Rightarrow> 'a hslot \<Rightarrow> 'a hlink" where
  "hslot_read h FirstOf = h_first h"
| "hslot_read h (NextOf m) = h_next h m"

fun hslot_write :: "'a hlist \<Rightarrow> 'a hslot \<Rightarrow> 'a hlink \<Rightarrow> 'a hlist" where
  "hslot_write h FirstOf l = h\<lparr>h_first := l\<rparr>"
| "hslot_write h (NextOf m) l = h\<lparr>h_next := (h_next h)(m := l)\<rparr>"

definition hlist_unlink :: "'a \<Rightarrow> 'a hslot \<Rightarrow> 'a hlist \<Rightarrow> 'a hlist" where
  "hlist_unlink n pprev h =
     (let h1 = hslot_write h pprev (h_next h n)
      in h1\<lparr>h_next := (h_next h1)(n := HNull)\<rparr>)"

partial_function (option) hlist_seek :: "'a \<Rightarrow> 'a hlist \<Rightarrow> 'a hslot \<Rightarrow> 'a hslot option" where
  "hlist_seek n h pp =
     (case hslot_read h pp of
        HNull \<Rightarrow> Some pp
      | LIST_END \<Rightarrow> Some pp
      | HNode m \<Rightarrow> if m = n then Some pp else hlist_seek n h (NextOf m))"

definition hlist_del :: "'a \<Rightarrow> 'a hlist \<Rightarrow> 'a hlist option" where
  "hlist_del n h =
     (case hlist_seek n h FirstOf of
        None \<Rightarrow> None
      | Some pp \<Rightarrow> Some (if hslot_read h pp = HNode n then hlist_unlink n pp h else h))"

definition hlist_add_head :: "'a \<Rightarrow> 'a hlist \<Rightarrow> 'a hlist" where
  "hlist_add_head n h =
     (let first = h_first h
      in h\<lparr>h_next := (h_next h)(n := if first = HNull then LIST_END else first),
           h_first := HNode n\<rparr>)"

partial_function (option) hlist_walk :: "'a hlist \<Rightarrow> 'a hlink \<Rightarrow> 'a list option" where
  "hlist_walk h pos =
     (case pos of
        HNull \<Rightarrow> Some []
      | LIST_END \<Rightarrow> Some []
      | HNode m \<Rightarrow> Option.bind (hlist_walk h (h_next h m)) (\<lambda>ms. Some (m # ms)))"

definition hlist_for_each :: "'a hlist \<Rightarrow> 'a list option" where
  "hlist_for_each h = hlist_walk h (h_first h)"

section \<open>Doubly linked lists\<close>

text \<open>
  The links of \<^verbatim>\<open>list_head\<close>: NULL, one of the two poison values or a node; the list head is
  itself a node of the ring.
\<close>

datatype 'a dlink = DNull | LIST_POISON1 | LIST_POISON2 | DNode 'a

record 'a dheap =
  l_next :: "'a \<Rightarrow> 'a dlink"
  l_prev :: "'a \<Rightarrow> 'a dlink"

definition set_next :: "'a \<Rightarrow> 'a dlink \<Rightarrow> 'a dheap \<Rightarrow> 'a dheap" where
  "set_next n l s = s\<lparr>l_next := (l_next s)(n := l)\<rparr>"

definition set_prev :: "'a \<Rightarrow> 'a dlink \<Rightarrow> 'a dheap \<Rightarrow> 'a dheap" where
  "set_prev n l s = s\<lparr>l_prev := (l_prev s)(n := l)\<rparr>"

definition list_init :: "'a \<Rightarrow> 'a dheap \<Rightarrow> 'a dheap" where
  "list_init h s = set_prev h (DNode h) (set_next h (DNode h) s)"

text \<open>The raw insertion between two neighbours, with its four writes in the order of the code.\<close>

definition list_add_between :: "'a \<Rightarrow> 'a \<Rightarrow> 'a \<Rightarrow> 'a dheap \<Rightarrow> 'a dheap" where
  "list_add_between new prev next s =
     set_next prev (DNode new)
       (set_prev new (DNode prev)
         (set_next new (DNode next)
           (set_prev next (DNode new) s)))"

text \<open>Reading a link that is not a node and using it as one would be a wild access: \<open>None\<close>.\<close>

fun dnode :: "'a dlink \<Rightarrow> 'a option" where
  "dnode (DNode n) = Some n"
| "dnode _ = None"

definition list_add_head :: "'a \<Rightarrow> 'a \<Rightarrow> 'a dheap \<Rightarrow> 'a dheap option" where
  "list_add_head new h s =
     map_option (\<lambda>next. list_add_between new h next s) (dnode (l_next s h))"

definition list_add_tail :: "'a \<Rightarrow> 'a \<Rightarrow> 'a dheap \<Rightarrow> 'a dheap option" where
  "list_add_tail new h s =
     map_option (\<lambda>prev. list_add_between new prev h s) (dnode (l_prev s h))"

definition list_add_before :: "'a \<Rightarrow> 'a \<Rightarrow> 'a dheap \<Rightarrow> 'a dheap option" where
  "list_add_before new other s =
     map_option (\<lambda>prev. list_add_between new prev other s) (dnode (l_prev s other))"

definition list_join :: "'a \<Rightarrow> 'a \<Rightarrow> 'a dheap \<Rightarrow> 'a dheap" where
  "list_join prev next s = set_next prev (DNode next) (set_prev next (DNode prev) s)"

definition list_unlink :: "'a \<Rightarrow> 'a dlink \<Rightarrow> 'a dlink \<Rightarrow> 'a dheap \<Rightarrow> 'a dheap option" where
  "list_unlink entry poison1 poison2 s =
     (case (dnode (l_prev s entry), dnode (l_next s entry)) of
        (Some prev, Some next) \<Rightarrow>
          Some (set_prev entry poison2 (set_next entry poison1 (list_join prev next s)))
      | _ \<Rightarrow> None)"

definition list_del :: "'a \<Rightarrow> 'a dheap \<Rightarrow> 'a dheap option" where
  "list_del entry s = list_unlink entry LIST_POISON1 LIST_POISON2 s"

definition list_del_init :: "'a \<Rightarrow> 'a dheap \<Rightarrow> 'a dheap option" where
  "list_del_init entry s = list_unlink entry DNull DNull s"

definition list_hashed :: "'a \<Rightarrow> 'a dheap \<Rightarrow> bool" where
  "list_hashed n s \<longleftrightarrow> l_next s n \<noteq> DNode n \<and> l_next s n \<noteq> DNull"

definition list_empty :: "'a \<Rightarrow> 'a dheap \<Rightarrow> bool" where
  "list_empty n s \<longleftrightarrow> l_next s n = DNode n"

definition list_pop :: "'a \<Rightarrow> 'a dheap \<Rightarrow> ('a \<times> 'a dheap) option" where
  "list_pop h s =
     (case dnode (l_next s h) of
        None \<Rightarrow> None
      | Some n \<Rightarrow> map_option (\<lambda>s'. (n, s')) (list_del_init n s))"

section \<open>Lemmas\<close>

subsection \<open>Singly linked lists\<close>

fun hchain :: "('a \<Rightarrow> 'a hlink) \<Rightarrow> 'a hlink \<Rightarrow> 'a list \<Rightarrow> bool" where
  "hchain nx l [] \<longleftrightarrow> l = HNull \<or> l = LIST_END"
| "hchain nx l (x # xs) \<longleftrightarrow> l = HNode x \<and> nx x \<noteq> HNull \<and> hchain nx (nx x) xs"

definition hlist_of :: "'a hlist \<Rightarrow> 'a list \<Rightarrow> bool" where
  "hlist_of h xs \<longleftrightarrow> distinct xs \<and> hchain (h_next h) (h_first h) xs"

lemma hchain_cong:
  "(\<And>x. x \<in> set xs \<Longrightarrow> nx x = nx' x) \<Longrightarrow> hchain nx l xs = hchain nx' l xs"
  by (induction xs arbitrary: l) auto

lemma hchain_upd [simp]: "m \<notin> set xs \<Longrightarrow> hchain (nx(m := v)) l xs = hchain nx l xs"
  by (rule hchain_cong) auto

lemma hchain_end:
  "hchain nx l [] \<Longrightarrow> l \<noteq> HNode m"
  by auto

lemma hchain_Null: "hchain nx HNull xs \<longleftrightarrow> xs = []"
  by (cases xs) auto

lemma hlist_add_head_of:
  assumes "hlist_of h xs" "n \<notin> set xs"
  shows "hlist_of (hlist_add_head n h) (n # xs)"
  using assms by (auto simp: hlist_of_def hlist_add_head_def Let_def hchain_Null)

lemma hlist_seek_read:
  assumes "hchain (h_next h) (hslot_read h pp) xs"
  shows "\<exists>pp'. hlist_seek n h pp = Some pp' \<and>
    (if n \<in> set xs then hslot_read h pp' = HNode n else hslot_read h pp' \<noteq> HNode n)"
  using assms
proof (induction xs arbitrary: pp)
  case Nil
  then show ?case by (subst hlist_seek.simps) (auto split: hlink.splits)
next
  case (Cons x xs)
  then have rd: "hslot_read h pp = HNode x" by simp
  show ?case
  proof (cases "x = n")
    case True
    then show ?thesis using rd by (subst hlist_seek.simps) simp
  next
    case False
    moreover obtain pp' where "hlist_seek n h (NextOf x) = Some pp'"
      "if n \<in> set xs then hslot_read h pp' = HNode n else hslot_read h pp' \<noteq> HNode n"
      using Cons.IH [of "NextOf x"] Cons.prems by auto
    ultimately show ?thesis using rd by (subst hlist_seek.simps) auto
  qed
qed

text \<open>Where the search stops when the node is in the list: the slot before it.\<close>

lemma hlist_seek_slot:
  assumes "hchain (h_next h) (hslot_read h pp) (xs @ n # ys)" "n \<notin> set xs"
  shows "hlist_seek n h pp = Some (if xs = [] then pp else NextOf (last xs))"
  using assms
proof (induction xs arbitrary: pp)
  case Nil
  then show ?case by (subst hlist_seek.simps) simp
next
  case (Cons x xs)
  from Cons.prems have rd: "hslot_read h pp = HNode x" and ne: "x \<noteq> n" by auto
  have "hlist_seek n h (NextOf x) = Some (if xs = [] then NextOf x else NextOf (last xs))"
    using Cons.IH [of "NextOf x"] Cons.prems by simp
  with rd ne show ?case by (subst hlist_seek.simps) simp
qed

lemma hchain_append_last:
  "hchain nx l (xs @ n # ys) \<Longrightarrow>
   hchain nx (nx n) ys \<and> nx n \<noteq> HNull \<and> (if xs = [] then l = HNode n else nx (last xs) = HNode n)"
proof (induction xs arbitrary: l)
  case (Cons x xs)
  show ?case using Cons.IH [of "nx x"] Cons.prems by simp
qed simp

lemma hchain_skip:
  "hchain nx l (xs @ n # ys) \<Longrightarrow> xs \<noteq> [] \<Longrightarrow> distinct (xs @ n # ys) \<Longrightarrow>
   hchain (nx(last xs := nx n, n := HNull)) l (xs @ ys)"
proof (induction xs arbitrary: l)
  case (Cons x xs)
  show ?case
  proof (cases "xs = []")
    case True
    then show ?thesis using Cons.prems by (simp flip: fun_upd_apply) (simp add: fun_upd_twist)
  next
    case False
    with Cons.prems have "x \<noteq> last xs" "x \<noteq> n" by auto
    with False Cons show ?thesis by auto
  qed
qed simp

lemma hlist_del_of:
  assumes "hlist_of h xs"
  shows "\<exists>h'. hlist_del n h = Some h' \<and> hlist_of h' (remove1 n xs) \<and>
    (n \<in> set xs \<longrightarrow> h_next h' n = HNull)"
proof (cases "n \<in> set xs")
  case True
  then obtain as bs where xs: "xs = as @ n # bs" and as: "n \<notin> set as"
    by (meson split_list_first)
  have ch: "hchain (h_next h) (h_first h) (as @ n # bs)" and d: "distinct (as @ n # bs)"
    using assms xs by (auto simp: hlist_of_def)
  define pp where "pp = (if as = [] then FirstOf else NextOf (last as))"
  have seek: "hlist_seek n h FirstOf = Some pp"
    using hlist_seek_slot [of h FirstOf as n bs] ch as by (simp add: pp_def)
  have rd: "hslot_read h pp = HNode n"
    using hchain_append_last [OF ch] by (auto simp: pp_def)
  have "hlist_of (hlist_unlink n pp h) (as @ bs)"
    using hchain_append_last [OF ch] hchain_skip [OF ch] d
    by (cases "as = []") (auto simp: pp_def hlist_of_def hlist_unlink_def Let_def)
  moreover have "h_next (hlist_unlink n pp h) n = HNull"
    by (simp add: hlist_unlink_def Let_def)
  ultimately show ?thesis
    using seek rd as by (simp add: hlist_del_def xs remove1_append)
next
  case False
  then show ?thesis
    using hlist_seek_read [of h FirstOf xs n] assms
    by (auto simp: hlist_of_def hlist_del_def remove1_idem)
qed

lemma hlist_for_each_of:
  assumes "hlist_of h xs"
  shows "hlist_for_each h = Some xs"
proof -
  have "hlist_walk h l = Some xs" if "hchain (h_next h) l xs" for l
    using that
  proof (induction xs arbitrary: l)
    case Nil
    then show ?case by (subst hlist_walk.simps) (auto split: hlink.splits)
  next
    case (Cons x xs)
    then show ?case by (subst hlist_walk.simps) auto
  qed
  with assms show ?thesis by (simp add: hlist_for_each_def hlist_of_def)
qed

subsection \<open>Doubly linked lists\<close>

lemma set_next_sel [simp]:
  "l_next (set_next n l s) = (l_next s)(n := l)" "l_prev (set_next n l s) = l_prev s"
  by (simp_all add: set_next_def)

lemma set_prev_sel [simp]:
  "l_prev (set_prev n l s) = (l_prev s)(n := l)" "l_next (set_prev n l s) = l_next s"
  by (simp_all add: set_prev_def)

text \<open>The segment from \<open>a\<close> to \<open>b\<close> through the nodes of a list, linked in both directions.\<close>

fun dseg :: "'a dheap \<Rightarrow> 'a \<Rightarrow> 'a list \<Rightarrow> 'a \<Rightarrow> bool" where
  "dseg s a [] b \<longleftrightarrow> l_next s a = DNode b \<and> l_prev s b = DNode a"
| "dseg s a (x # xs) b \<longleftrightarrow> l_next s a = DNode x \<and> l_prev s x = DNode a \<and> dseg s x xs b"

definition list_of_ring :: "'a dheap \<Rightarrow> 'a \<Rightarrow> 'a list \<Rightarrow> bool" where
  "list_of_ring s h xs \<longleftrightarrow> distinct (h # xs) \<and> dseg s h xs h"

lemma dseg_append: "dseg s a (xs @ y # ys) b \<longleftrightarrow> dseg s a xs y \<and> dseg s y ys b"
  by (induction xs arbitrary: a) auto

lemma dseg_cong:
  "(\<And>x. x \<in> set (a # xs) \<Longrightarrow> l_next s x = l_next s' x) \<Longrightarrow>
   (\<And>x. x \<in> set (b # xs) \<Longrightarrow> l_prev s x = l_prev s' x) \<Longrightarrow> dseg s a xs b = dseg s' a xs b"
  by (induction xs arbitrary: a) auto

lemma dseg_ends: "dseg s a xs b \<Longrightarrow>
   l_next s a = DNode (if xs = [] then b else hd xs) \<and> l_prev s b = DNode (if xs = [] then a else last xs)"
  by (induction xs arbitrary: a) auto

lemma dseg_snoc: "dseg s a (xs @ [y]) b \<longleftrightarrow> dseg s a xs y \<and> l_next s y = DNode b \<and> l_prev s b = DNode y"
  by (simp add: dseg_append)

text \<open>Changing the links that leave a segment's right end and enter its left end keeps it.\<close>

lemma dseg_frame:
  assumes "dseg s a xs b" "\<And>x. x \<in> set (a # xs) \<Longrightarrow> l_next s' x = l_next s x"
    "\<And>x. x \<in> set (b # xs) \<Longrightarrow> l_prev s' x = l_prev s x"
  shows "dseg s' a xs b"
  using assms dseg_cong [of a xs s' s b] by auto

lemma last_disjoint: "set xs \<inter> set ys = {} \<Longrightarrow> xs = [] \<or> last xs \<notin> set ys"
  using last_in_set [of xs] by blast

lemma list_init_ring: "list_of_ring (list_init h s) h []"
  by (simp add: list_of_ring_def list_init_def)

lemma list_empty_ring: "list_of_ring s h xs \<Longrightarrow> list_empty h s \<longleftrightarrow> xs = []"
  by (cases xs) (auto simp: list_of_ring_def list_empty_def)

text \<open>
  Opening a ring at one of its links: both sides of the link are segments that share no node
  with each other but the two ends.
\<close>

lemma list_add_between_ring:
  assumes "dseg s h xs n" "dseg s n ys h" "distinct (h # xs @ n # ys)" "new \<notin> set (h # xs @ n # ys)"
  shows "list_of_ring (list_add_between new (last (h # xs)) n s) h (xs @ new # n # ys)"
proof -
  let ?s = "list_add_between new (last (h # xs)) n s"
  have "dseg ?s h xs new"
  proof (cases xs rule: rev_cases)
    case Nil
    then show ?thesis using assms by (auto simp: list_add_between_def)
  next
    case (snoc zs z)
    have "dseg ?s h zs z"
      by (rule dseg_frame [of s]) (use assms in \<open>auto simp: list_add_between_def snoc dseg_snoc\<close>)
    then show ?thesis using assms by (auto simp: snoc dseg_snoc list_add_between_def)
  qed
  moreover have "dseg ?s n ys h"
    by (rule dseg_frame [of s]) (use assms last_disjoint [of xs ys] in \<open>auto simp: list_add_between_def\<close>)
  moreover have "l_next ?s new = DNode n" "l_prev ?s n = DNode new"
    using assms by (auto simp: list_add_between_def)
  ultimately show ?thesis
    using assms by (auto simp: list_of_ring_def dseg_append)
qed

lemma list_add_tail_ring:
  assumes "list_of_ring s h xs" "new \<notin> set (h # xs)"
  shows "\<exists>s'. list_add_tail new h s = Some s' \<and> list_of_ring s' h (xs @ [new])"
proof -
  have seg: "dseg s h xs h" and d: "distinct (h # xs)" using assms by (auto simp: list_of_ring_def)
  let ?s = "list_add_between new (last (h # xs)) h s"
  have "dseg ?s h xs new"
  proof (cases xs rule: rev_cases)
    case Nil
    then show ?thesis using assms by (auto simp: list_add_between_def)
  next
    case (snoc zs z)
    have "dseg ?s h zs z"
      by (rule dseg_frame [of s]) (use seg d assms in \<open>auto simp: list_add_between_def snoc dseg_snoc\<close>)
    then show ?thesis using assms d by (auto simp: snoc dseg_snoc list_add_between_def)
  qed
  moreover have "l_next ?s new = DNode h" "l_prev ?s h = DNode new"
    using assms by (auto simp: list_add_between_def)
  ultimately have "list_of_ring ?s h (xs @ [new])"
    using assms d by (auto simp: list_of_ring_def dseg_snoc)
  moreover have "list_add_tail new h s = Some ?s"
    using dseg_ends [OF seg] by (auto simp: list_add_tail_def)
  ultimately show ?thesis by blast
qed

lemma list_add_before_ring:
  assumes "list_of_ring s h (xs @ n # ys)" "new \<notin> set (h # xs @ n # ys)"
  shows "\<exists>s'. list_add_before new n s = Some s' \<and> list_of_ring s' h (xs @ new # n # ys)"
proof -
  have seg: "dseg s h xs n" "dseg s n ys h" and d: "distinct (h # xs @ n # ys)"
    using assms by (auto simp: list_of_ring_def dseg_append)
  then show ?thesis
    using list_add_between_ring [OF seg d assms(2)] dseg_ends [OF seg(1)]
    by (auto simp: list_add_before_def)
qed

lemma list_add_head_ring:
  assumes "list_of_ring s h xs" "new \<notin> set (h # xs)"
  shows "\<exists>s'. list_add_head new h s = Some s' \<and> list_of_ring s' h (new # xs)"
proof (cases xs)
  case Nil
  then show ?thesis
    using list_add_tail_ring [OF assms] assms
    by (auto simp: list_add_head_def list_add_tail_def list_of_ring_def)
next
  case (Cons y ys)
  then show ?thesis
    using list_add_between_ring [of s h "[]" y ys new] assms
    by (auto simp: list_add_head_def list_of_ring_def)
qed

lemma list_unlink_ring:
  assumes "list_of_ring s h (xs @ n # ys)"
  shows "\<exists>s'. list_unlink n p1 p2 s = Some s' \<and> list_of_ring s' h (xs @ ys) \<and>
    l_next s' n = p1 \<and> l_prev s' n = p2"
proof -
  have seg: "dseg s h xs n" "dseg s n ys h" and d: "distinct (h # xs @ n # ys)"
    using assms by (auto simp: list_of_ring_def dseg_append)
  let ?p = "last (h # xs)" and ?n = "hd (ys @ [h])"
  let ?s = "set_prev n p2 (set_next n p1 (list_join ?p ?n s))"
  have un: "list_unlink n p1 p2 s = Some ?s"
    using dseg_ends [OF seg(1)] dseg_ends [OF seg(2)]
    by (cases ys) (auto simp: list_unlink_def)
  have left: "dseg ?s h xs ?n"
  proof (cases xs rule: rev_cases)
    case Nil
    then show ?thesis using d by (cases ys) (auto simp: list_join_def)
  next
    case (snoc zs z)
    have "dseg ?s h zs z"
      by (rule dseg_frame [of s]) (use seg d in \<open>cases ys; auto simp: list_join_def snoc dseg_snoc\<close>)+
    then show ?thesis using d by (cases ys) (auto simp: snoc dseg_snoc list_join_def)
  qed
  have "dseg ?s h (xs @ ys) h"
  proof (cases ys)
    case Nil
    then show ?thesis using left by simp
  next
    case (Cons y zs)
    have "dseg ?s y zs h"
      by (rule dseg_frame [of s]) (use seg d Cons last_disjoint [of xs ys] in \<open>auto simp: list_join_def\<close>)
    then show ?thesis using left Cons by (simp add: dseg_append)
  qed
  then show ?thesis using un d by (auto simp: list_of_ring_def)
qed

lemma list_pop_ring:
  assumes "list_of_ring s h (x # xs)"
  shows "\<exists>s'. list_pop h s = Some (x, s') \<and> list_of_ring s' h xs \<and> \<not> list_hashed x s'"
  using list_unlink_ring [of s h "[]" x xs DNull DNull] assms
  by (auto simp: list_pop_def list_del_init_def list_hashed_def list_of_ring_def)

section \<open>Properties\<close>

text \<open>
  The singly linked list refines HOL lists: on a heap that represents \<open>xs\<close>, adding a node that
  is not in it represents \<open>n # xs\<close>, deleting a node ends and represents the list without it,
  the deleted node is marked as being in no list, and the iteration visits \<open>xs\<close> in order.
\<close>

lemma hlist_refines_list:
  assumes "hlist_of h xs"
  shows "hlist_for_each h = Some xs \<and>
    (n \<notin> set xs \<longrightarrow> hlist_of (hlist_add_head n h) (n # xs)) \<and>
    (\<exists>h'. hlist_del n h = Some h' \<and> hlist_of h' (remove1 n xs) \<and>
       (n \<in> set xs \<longrightarrow> h_next h' n = HNull))"
  using hlist_for_each_of [OF assms] hlist_add_head_of [OF assms] hlist_del_of [OF assms] by blast

lemma hlist_refines_list_witness:
  "\<exists>h'. hlist_del (2::nat) \<lparr>h_next = (\<lambda>_. HNull)(2 := HNode 5, 5 := LIST_END), h_first = HNode 2\<rparr>
          = Some h' \<and> hlist_of h' [5] \<and> h_next h' 2 = HNull"
  using hlist_refines_list
    [of "\<lparr>h_next = (\<lambda>_. HNull)(2 := HNode 5, 5 := LIST_END), h_first = HNode (2::nat)\<rparr>" "[2, 5]" 2]
  by (simp add: hlist_of_def)

text \<open>
  C36. The circular list is a double ended queue: on a heap whose ring from the head \<open>h\<close> represents
  \<open>xs\<close>, adding at the tail or the head represents the longer list, popping returns the first
  element, represents the rest and marks the popped node as unlinked.
\<close>

theorem list_head_refines_deque:
  assumes "list_of_ring s h xs" "new \<notin> set (h # xs)"
  shows "(\<exists>s'. list_add_tail new h s = Some s' \<and> list_of_ring s' h (xs @ [new])) \<and>
    (\<exists>s'. list_add_head new h s = Some s' \<and> list_of_ring s' h (new # xs)) \<and>
    (list_empty h s \<longleftrightarrow> xs = []) \<and>
    (\<forall>y ys. xs = y # ys \<longrightarrow>
       (\<exists>s'. list_pop h s = Some (y, s') \<and> list_of_ring s' h ys \<and> \<not> list_hashed y s'))"
  using list_add_tail_ring [OF assms] list_add_head_ring [OF assms] list_empty_ring [OF assms(1)]
    list_pop_ring [of s h] assms(1) by blast

theorem list_head_refines_deque_witness:
  "\<exists>s'. list_add_tail (7::nat) 0
     (list_init 0 \<lparr>l_next = (\<lambda>_. DNull), l_prev = (\<lambda>_. DNull)\<rparr>) = Some s' \<and> list_of_ring s' 0 [7]"
  using list_head_refines_deque
    [OF list_init_ring [of "0::nat" "\<lparr>l_next = (\<lambda>_. DNull), l_prev = (\<lambda>_. DNull)\<rparr>"], of 7]
  by simp

end
