(* ===== verification/Hash.thy ===== *)
theory Hash
  imports Blob
begin

text \<open>
  The chained hash table of \<^verbatim>\<open>hash.c\<close>. A bucket is the HOL list that its \<^verbatim>\<open>hlist\<close> represents
  (theory \<open>Lists\<close>); the operation table is a record of functions, with the optional entries as
  option values. Keys are blobs in the C code and some users cast a structure to a blob, so the
  key type is a parameter. The destructor is not run in the model: the operations that call it
  return the items they pass to it.

  The locale states what the users of a table promise about their operation table: matching an
  item against a key decides equality of the values of the two keys, and equal values hash
  alike. Under it a table refines a finite map. Every table of the program is an interpretation.
\<close>

section \<open>Definitions\<close>

record ('i, 'k) apk_hash_ops =
  get_key :: "'i \<Rightarrow> 'k"
  hash_key :: "'k \<Rightarrow> u64"
  hash_item :: "('i \<Rightarrow> u64) option"
  compare :: "'k \<Rightarrow> 'k \<Rightarrow> int"
  compare_item :: "('i \<Rightarrow> 'k \<Rightarrow> int) option"
  delete_item :: bool

record ('i, 'k) apk_hash =
  hash_ops :: "('i, 'k) apk_hash_ops"
  buckets :: "'i list list"
  num_items :: int

definition apk_hash_init :: "('i, 'k) apk_hash_ops \<Rightarrow> nat \<Rightarrow> ('i, 'k) apk_hash" where
  "apk_hash_init ops num_buckets =
     \<lparr>hash_ops = ops, buckets = replicate num_buckets [], num_items = 0\<rparr>"

text \<open>The enumeration stops at the first item for which the callback returns a non-zero value.\<close>

fun foreach_items :: "('i \<Rightarrow> 's \<Rightarrow> int \<times> 's) \<Rightarrow> 'i list \<Rightarrow> 's \<Rightarrow> int \<times> 's" where
  "foreach_items e [] ctx = (0, ctx)"
| "foreach_items e (item # items) ctx =
     (case e item ctx of (r, ctx') \<Rightarrow> if r \<noteq> 0 then (r, ctx') else foreach_items e items ctx')"

definition apk_hash_foreach ::
  "('i, 'k) apk_hash \<Rightarrow> ('i \<Rightarrow> 's \<Rightarrow> int \<times> 's) \<Rightarrow> 's \<Rightarrow> int \<times> 's" where
  "apk_hash_foreach h e ctx = foreach_items e (concat (buckets h)) ctx"

definition apk_hash_free_item_enumerator :: "'i \<Rightarrow> 'i list \<Rightarrow> int \<times> 'i list" where
  "apk_hash_free_item_enumerator item freed = (0, freed @ [item])"

text \<open>Freeing a table: the items that are destroyed, and the table with its empty bucket array.\<close>

definition apk_hash_free :: "('i, 'k) apk_hash \<Rightarrow> 'i list \<times> ('i, 'k) apk_hash" where
  "apk_hash_free h =
     ((if delete_item (hash_ops h) then snd (apk_hash_foreach h apk_hash_free_item_enumerator []) else []),
      h\<lparr>buckets := []\<rparr>)"

definition bucket_of :: "('i, 'k) apk_hash \<Rightarrow> u64 \<Rightarrow> nat" where
  "bucket_of h hash = unat hash mod length (buckets h)"

definition item_matches :: "('i, 'k) apk_hash_ops \<Rightarrow> 'i \<Rightarrow> 'k \<Rightarrow> bool" where
  "item_matches ops item key =
     (case compare_item ops of
        Some cmp \<Rightarrow> cmp item key = 0
      | None \<Rightarrow> compare ops key (get_key ops item) = 0)"

definition apk_hash_get_hashed :: "('i, 'k) apk_hash \<Rightarrow> 'k \<Rightarrow> u64 \<Rightarrow> 'i option" where
  "apk_hash_get_hashed h key hash =
     List.find (\<lambda>item. item_matches (hash_ops h) item key) (buckets h ! bucket_of h hash)"

definition apk_hash_insert_hashed :: "('i, 'k) apk_hash \<Rightarrow> 'i \<Rightarrow> u64 \<Rightarrow> ('i, 'k) apk_hash" where
  "apk_hash_insert_hashed h item hash =
     (let b = bucket_of h hash
      in h\<lparr>buckets := (buckets h)[b := item # buckets h ! b], num_items := num_items h + 1\<rparr>)"

text \<open>Deleting asserts that the table has an item comparison; it returns the destroyed items.\<close>

definition apk_hash_delete_hashed ::
  "('i, 'k) apk_hash \<Rightarrow> 'k \<Rightarrow> u64 \<Rightarrow> ('i list \<times> ('i, 'k) apk_hash) outcome" where
  "apk_hash_delete_hashed h key hash =
     (if compare_item (hash_ops h) = None then Fault
      else
        let b = bucket_of h hash in
        case apk_hash_get_hashed h key hash of
          None \<Rightarrow> Ret ([], h)
        | Some item \<Rightarrow>
            Ret ((if delete_item (hash_ops h) then [item] else []),
                 h\<lparr>buckets := (buckets h)[b := remove1 item (buckets h ! b)],
                   num_items := num_items h - 1\<rparr>))"

definition apk_hash_from_key :: "('i, 'k) apk_hash \<Rightarrow> 'k \<Rightarrow> u64" where
  "apk_hash_from_key h key = hash_key (hash_ops h) key"

definition apk_hash_from_item :: "('i, 'k) apk_hash \<Rightarrow> 'i \<Rightarrow> u64" where
  "apk_hash_from_item h item =
     (case hash_item (hash_ops h) of
        Some f \<Rightarrow> f item
      | None \<Rightarrow> apk_hash_from_key h (get_key (hash_ops h) item))"

definition apk_hash_get :: "('i, 'k) apk_hash \<Rightarrow> 'k \<Rightarrow> 'i option" where
  "apk_hash_get h key = apk_hash_get_hashed h key (apk_hash_from_key h key)"

definition apk_hash_insert :: "('i, 'k) apk_hash \<Rightarrow> 'i \<Rightarrow> ('i, 'k) apk_hash" where
  "apk_hash_insert h item = apk_hash_insert_hashed h item (apk_hash_from_item h item)"

text \<open>Writing to an item that hangs in the table.\<close>

definition hash_store :: "('i, 'k) apk_hash \<Rightarrow> 'i \<Rightarrow> 'i \<Rightarrow> ('i, 'k) apk_hash" where
  "hash_store h old new =
     h\<lparr>buckets := map (map (\<lambda>i. if i = old then new else i)) (buckets h)\<rparr>"

section \<open>Invariant\<close>

definition hash_items :: "('i, 'k) apk_hash \<Rightarrow> 'i list" where
  "hash_items h = concat (buckets h)"

text \<open>Every item hangs in the bucket of its hash value, and the count is the number of items.\<close>

definition hash_ok :: "('i, 'k) apk_hash \<Rightarrow> bool" where
  "hash_ok h \<longleftrightarrow>
     buckets h \<noteq> [] \<and>
     (\<forall>b < length (buckets h). \<forall>i \<in> set (buckets h ! b). bucket_of h (apk_hash_from_item h i) = b) \<and>
     num_items h = int (length (hash_items h))"

lemma hash_ok_nonempty: "hash_ok h \<Longrightarrow> buckets h \<noteq> []"
  by (simp add: hash_ok_def)

lemma hash_ok_member:
  "hash_ok h \<Longrightarrow> b < length (buckets h) \<Longrightarrow> i \<in> set (buckets h ! b) \<Longrightarrow>
   bucket_of h (apk_hash_from_item h i) = b"
  by (simp add: hash_ok_def)

lemma bucket_of_less: "buckets h \<noteq> [] \<Longrightarrow> bucket_of h x < length (buckets h)"
  by (simp add: bucket_of_def)

lemma bucket_of_same:
  "length (buckets h') = length (buckets h) \<Longrightarrow> bucket_of h' = bucket_of h"
  by (simp add: bucket_of_def fun_eq_iff)

lemma from_item_same:
  "hash_ops h' = hash_ops h \<Longrightarrow> apk_hash_from_item h' = apk_hash_from_item h"
  by (auto simp: apk_hash_from_item_def apk_hash_from_key_def fun_eq_iff split: option.splits)

lemma hash_init_ok: "0 < n \<Longrightarrow> hash_ok (apk_hash_init ops n)"
  by (auto simp: hash_ok_def apk_hash_init_def hash_items_def)

lemma length_concat_update:
  "b < length xss \<Longrightarrow> length (concat (xss[b := ys])) + length (xss ! b) = length (concat xss) + length ys"
proof (induction xss arbitrary: b)
  case (Cons xs xss)
  then show ?case by (cases b) auto
qed simp

lemma set_concat_update:
  "b < length xss \<Longrightarrow> set (concat (xss[b := y # xss ! b])) = insert y (set (concat xss))"
proof (induction xss arbitrary: b)
  case (Cons xs xss)
  then show ?case by (cases b) auto
qed simp

lemma in_set_remove1_mem: "x \<in> set (remove1 y ys) \<Longrightarrow> x \<in> set ys"
  using set_remove1_subset [of y ys] by blast

lemma find_Some_in: "List.find P xs = Some x \<Longrightarrow> x \<in> set xs \<and> P x"
  by (induction xs) (auto split: if_splits)

lemma hash_insert_ok:
  assumes "hash_ok h"
  shows "hash_ok (apk_hash_insert h i)" "set (hash_items (apk_hash_insert h i)) = insert i (set (hash_items h))"
    "hash_ops (apk_hash_insert h i) = hash_ops h"
proof -
  let ?b = "bucket_of h (apk_hash_from_item h i)"
  let ?h = "apk_hash_insert h i"
  have lt: "?b < length (buckets h)"
    using assms by (intro bucket_of_less hash_ok_nonempty)
  have bs: "buckets ?h = (buckets h)[?b := i # buckets h ! ?b]"
    and ops: "hash_ops ?h = hash_ops h" and n: "num_items ?h = num_items h + 1"
    by (simp_all add: apk_hash_insert_def apk_hash_insert_hashed_def Let_def)
  then have bo: "bucket_of ?h = bucket_of h" and fi: "apk_hash_from_item ?h = apk_hash_from_item h"
    by (auto intro: bucket_of_same from_item_same)
  have "bucket_of ?h (apk_hash_from_item ?h j) = b"
    if "b < length (buckets ?h)" "j \<in> set (buckets ?h ! b)" for b j
  proof -
    have "j \<in> set (buckets h ! b) \<or> b = ?b \<and> j = i"
      using that lt by (auto simp: bs nth_list_update split: if_splits)
    then show ?thesis
      using hash_ok_member [OF assms, of b j] that(1) unfolding bo fi by (auto simp: bs)
  qed
  moreover have "num_items ?h = int (length (hash_items ?h))"
    using assms length_concat_update [OF lt, of "i # buckets h ! ?b"]
    by (simp add: n bs hash_items_def hash_ok_def)
  ultimately show "hash_ok ?h"
    using assms by (simp add: hash_ok_def bs)
  show "set (hash_items ?h) = insert i (set (hash_items h))"
    using lt by (simp add: hash_items_def bs set_concat_update del: set_concat)
  show "hash_ops ?h = hash_ops h" by (rule ops)
qed

lemma hash_delete_ok:
  assumes "hash_ok h" "apk_hash_delete_hashed h key hash = Ret (freed, h')"
  shows "hash_ok h'" "set (hash_items h') \<subseteq> set (hash_items h)" "hash_ops h' = hash_ops h"
proof -
  let ?b = "bucket_of h hash"
  have lt: "?b < length (buckets h)"
    using assms(1) by (intro bucket_of_less hash_ok_nonempty)
  consider "h' = h"
    | i where "i \<in> set (buckets h ! ?b)"
        "h' = h\<lparr>buckets := (buckets h)[?b := remove1 i (buckets h ! ?b)], num_items := num_items h - 1\<rparr>"
  proof (cases "apk_hash_get_hashed h key hash")
    case None
    then have "h' = h"
      using assms(2) by (auto simp: apk_hash_delete_hashed_def Let_def split: if_splits)
    then show ?thesis using that by blast
  next
    case (Some i)
    have "i \<in> set (buckets h ! ?b)"
      using Some by (auto simp: apk_hash_get_hashed_def dest: find_Some_in)
    then show ?thesis
      using that assms(2) Some by (auto simp: apk_hash_delete_hashed_def Let_def split: if_splits)
  qed
  then have "hash_ok h' \<and> set (hash_items h') \<subseteq> set (hash_items h) \<and> hash_ops h' = hash_ops h"
  proof cases
    case 1
    then show ?thesis using assms(1) by simp
  next
    case (2 i)
    have bs: "buckets h' = (buckets h)[?b := remove1 i (buckets h ! ?b)]" using 2 by simp
    then have bo: "bucket_of h' = bucket_of h" and fi: "apk_hash_from_item h' = apk_hash_from_item h"
      using 2 by (auto intro: bucket_of_same from_item_same)
    have "bucket_of h' (apk_hash_from_item h' j) = b"
      if "b < length (buckets h')" "j \<in> set (buckets h' ! b)" for b j
    proof -
      have "j \<in> set (buckets h ! b)"
        using that lt by (auto simp: bs nth_list_update dest: in_set_remove1_mem split: if_splits)
      then show ?thesis
        using hash_ok_member [OF assms(1), of b j] that(1) unfolding bo fi by (simp add: bs)
    qed
    moreover have "num_items h' = int (length (hash_items h'))"
      using assms(1) length_concat_update [OF lt, of "remove1 i (buckets h ! ?b)"] 2(1)
        length_pos_if_in_set [OF 2(1)]
      by (simp add: 2(2) hash_items_def hash_ok_def length_remove1 del: length_greater_0_conv)
    moreover have "set (hash_items h') \<subseteq> set (hash_items h)"
      using set_update_subset_insert [of "buckets h" ?b "remove1 i (buckets h ! ?b)"]
        set_remove1_subset [of i "buckets h ! ?b"] nth_mem [OF lt]
      by (auto simp: hash_items_def bs)
    ultimately show ?thesis using assms(1) 2(2) by (simp add: hash_ok_def)
  qed
  then show "hash_ok h'" "set (hash_items h') \<subseteq> set (hash_items h)" "hash_ops h' = hash_ops h"
    by auto
qed

lemma foreach_free_items:
  "foreach_items apk_hash_free_item_enumerator items freed = (0, freed @ items)"
  by (induction items arbitrary: freed) (simp_all add: apk_hash_free_item_enumerator_def)

lemma hash_free_items:
  "fst (apk_hash_free h) = (if delete_item (hash_ops h) then hash_items h else [])"
  by (simp add: apk_hash_free_def apk_hash_foreach_def foreach_free_items hash_items_def)

section \<open>The contract of an operation table\<close>

definition hash_table :: "('i, 'k) apk_hash_ops \<Rightarrow> ('i, 'k) apk_hash \<Rightarrow> bool" where
  "hash_table ops h \<longleftrightarrow> hash_ops h = ops \<and> hash_ok h"

text \<open>The finite map from key values to items that a table represents.\<close>

definition table_map :: "('i \<Rightarrow> 'v) \<Rightarrow> ('i, 'k) apk_hash \<Rightarrow> 'v \<Rightarrow> 'i option" where
  "table_map ikey h v = List.find (\<lambda>i. ikey i = v) (hash_items h)"

definition keys_distinct :: "('i \<Rightarrow> 'v) \<Rightarrow> ('i, 'k) apk_hash \<Rightarrow> bool" where
  "keys_distinct ikey h \<longleftrightarrow> distinct (map ikey (hash_items h))"

lemma find_append:
  "List.find P (us @ vs) = (case List.find P us of None \<Rightarrow> List.find P vs | Some r \<Rightarrow> Some r)"
  by (induction us) auto

lemma find_distinct_key:
  "distinct (map f xs) \<Longrightarrow> x \<in> set xs \<Longrightarrow> List.find (\<lambda>i. f i = f x) xs = Some x"
  by (induction xs) auto

lemma find_concat:
  assumes "b < length xss" "\<And>c x. c < length xss \<Longrightarrow> c \<noteq> b \<Longrightarrow> x \<in> set (xss ! c) \<Longrightarrow> \<not> P x"
  shows "List.find P (concat xss) = List.find P (xss ! b)"
  using assms
proof (induction xss arbitrary: b)
  case (Cons xs xss)
  show ?case
  proof (cases b)
    case 0
    have "\<not> P x" if "x \<in> set (concat xss)" for x
    proof -
      obtain xs' where "xs' \<in> set xss" "x \<in> set xs'"
        using \<open>x \<in> set (concat xss)\<close> by auto
      then obtain c where "c < length xss" "x \<in> set (xss ! c)"
        by (metis in_set_conv_nth)
      then show ?thesis using Cons.prems(2) [of "Suc c" x] 0 by simp
    qed
    then have "List.find P (concat xss) = None" by (auto simp: find_None_iff)
    then show ?thesis using 0 by (simp add: find_append split: option.splits)
  next
    case (Suc c)
    have "List.find P xs = None"
      using Cons.prems(2) [of 0] Suc by (auto simp: find_None_iff)
    moreover have "List.find P (concat xss) = List.find P (xss ! c)"
    proof (rule Cons.IH)
      show "\<not> P x" if "d < length xss" "d \<noteq> c" "x \<in> set (xss ! d)" for d x
        using Cons.prems(2) [of "Suc d" x] that Suc by simp
    qed (use Cons.prems(1) Suc in simp)
    ultimately show ?thesis using Suc by (simp add: find_append)
  qed
qed simp

lemma map_concat_update_split:
  assumes "b < length xss"
  shows "\<exists>us vs. concat xss = us @ (xss ! b) @ vs \<and> (\<forall>ys. concat (xss[b := ys]) = us @ ys @ vs)"
proof -
  have "xss = take b xss @ xss ! b # drop (Suc b) xss"
    using assms by (rule id_take_nth_drop)
  then have "concat xss = concat (take b xss) @ (xss ! b) @ concat (drop (Suc b) xss)"
    by (metis concat.simps(2) concat_append)
  moreover have "concat (xss[b := ys]) = concat (take b xss) @ ys @ concat (drop (Suc b) xss)" for ys
    using assms by (simp add: upd_conv_take_nth_drop)
  ultimately show ?thesis by blast
qed

locale hash_contract =
  fixes ops :: "('i, 'k) apk_hash_ops"
    and ikey :: "'i \<Rightarrow> 'v"
    and kval :: "'k \<Rightarrow> 'v"
  assumes matches_iff: "item_matches ops i k \<longleftrightarrow> ikey i = kval k"
    and hash_agrees: "ikey i = kval k \<Longrightarrow>
      (case hash_item ops of Some f \<Rightarrow> f i | None \<Rightarrow> hash_key ops (get_key ops i)) = hash_key ops k"
begin

lemma table_init: "0 < n \<Longrightarrow> hash_table ops (apk_hash_init ops n)"
  by (simp add: hash_table_def hash_init_ok) (simp add: apk_hash_init_def)

lemma map_init: "table_map ikey (apk_hash_init ops n) v = None"
  by (auto simp: table_map_def apk_hash_init_def hash_items_def find_None_iff)

lemma distinct_init: "keys_distinct ikey (apk_hash_init ops n)"
  by (simp add: keys_distinct_def apk_hash_init_def hash_items_def map_concat)

lemma from_item_key:
  "hash_table ops h \<Longrightarrow> ikey i = kval k \<Longrightarrow> apk_hash_from_item h i = apk_hash_from_key h k"
  using hash_agrees [of i k]
  by (simp add: hash_table_def apk_hash_from_item_def apk_hash_from_key_def split: option.splits)

text \<open>Looking a key up finds the first item with its value; the other buckets cannot hold one.\<close>

lemma get_is_map:
  assumes "hash_table ops h"
  shows "apk_hash_get h k = table_map ikey h (kval k)"
proof -
  let ?b = "bucket_of h (apk_hash_from_key h k)"
  have ok: "hash_ok h" and ops: "hash_ops h = ops" using assms by (auto simp: hash_table_def)
  have "List.find (\<lambda>i. ikey i = kval k) (concat (buckets h)) =
        List.find (\<lambda>i. ikey i = kval k) (buckets h ! ?b)"
  proof (rule find_concat)
    show "?b < length (buckets h)" using ok by (intro bucket_of_less hash_ok_nonempty)
    show "ikey x \<noteq> kval k" if "c < length (buckets h)" "c \<noteq> ?b" "x \<in> set (buckets h ! c)" for c x
      using hash_ok_member [OF ok that(1,3)] from_item_key [OF assms, of x k] that(2) by auto
  qed
  then show ?thesis
    by (simp add: apk_hash_get_def apk_hash_get_hashed_def table_map_def hash_items_def
        ops matches_iff)
qed

lemma get_hashed_is_map:
  "hash_table ops h \<Longrightarrow> hash = apk_hash_from_key h k \<Longrightarrow>
   apk_hash_get_hashed h k hash = table_map ikey h (kval k)"
  using get_is_map [of h k] by (simp add: apk_hash_get_def)

lemma insert_table: "hash_table ops h \<Longrightarrow> hash_table ops (apk_hash_insert h i)"
  by (simp add: hash_table_def hash_insert_ok)

text \<open>An inserted item shadows every item with its key and leaves the other keys alone.\<close>

lemma insert_map:
  assumes "hash_table ops h" "ikey i = kval k"
  shows "table_map ikey (apk_hash_insert h i) = (table_map ikey h)(ikey i \<mapsto> i)"
proof
  fix v
  show "table_map ikey (apk_hash_insert h i) v = ((table_map ikey h)(ikey i \<mapsto> i)) v"
  proof (cases "v = ikey i")
    case True
    have lt: "bucket_of h (apk_hash_from_item h i) < length (buckets h)"
      using assms(1) by (intro bucket_of_less hash_ok_nonempty) (simp add: hash_table_def)
    have t: "hash_table ops (apk_hash_insert h i)" by (rule insert_table [OF assms(1)])
    have "apk_hash_from_key (apk_hash_insert h i) k = apk_hash_from_item h i"
      using from_item_key [OF assms] assms(1) t
      by (simp add: apk_hash_from_key_def hash_table_def)
    then have "apk_hash_get (apk_hash_insert h i) k = Some i"
      using lt assms t
      by (simp add: apk_hash_get_def apk_hash_get_hashed_def apk_hash_insert_def
          apk_hash_insert_hashed_def Let_def bucket_of_def hash_table_def matches_iff)
    then show ?thesis using get_is_map [OF t, of k] assms(2) True by simp
  next
    case False
    have lt: "bucket_of h (apk_hash_from_item h i) < length (buckets h)"
      using assms(1) by (intro bucket_of_less hash_ok_nonempty) (simp add: hash_table_def)
    obtain us vs where
      "hash_items h = us @ (buckets h ! bucket_of h (apk_hash_from_item h i)) @ vs"
      "hash_items (apk_hash_insert h i) = us @ (i # buckets h ! bucket_of h (apk_hash_from_item h i)) @ vs"
      using map_concat_update_split [OF lt]
      by (auto simp: hash_items_def apk_hash_insert_def apk_hash_insert_hashed_def Let_def)
    then show ?thesis using False by (simp add: table_map_def find_append split: option.splits)
  qed
qed

lemma insert_distinct:
  assumes "hash_table ops h" "keys_distinct ikey h" "table_map ikey h (ikey i) = None"
  shows "keys_distinct ikey (apk_hash_insert h i)"
proof -
  have lt: "bucket_of h (apk_hash_from_item h i) < length (buckets h)"
    using assms(1) by (intro bucket_of_less hash_ok_nonempty) (simp add: hash_table_def)
  have "ikey i \<notin> ikey ` set (hash_items h)"
    using assms(3) by (force simp: table_map_def find_None_iff)
  moreover obtain us vs where
    "hash_items h = us @ (buckets h ! bucket_of h (apk_hash_from_item h i)) @ vs"
    "hash_items (apk_hash_insert h i) = us @ (i # buckets h ! bucket_of h (apk_hash_from_item h i)) @ vs"
    using map_concat_update_split [OF lt]
    by (auto simp: hash_items_def apk_hash_insert_def apk_hash_insert_hashed_def Let_def)
  ultimately show ?thesis
    using assms(2) by (auto simp: keys_distinct_def)
qed

lemma delete_table:
  "hash_table ops h \<Longrightarrow> apk_hash_delete_hashed h k hash = Ret (freed, h') \<Longrightarrow> hash_table ops h'"
  using hash_delete_ok by (auto simp: hash_table_def)

lemma distinct_remove_find:
  "distinct (map f xs) \<Longrightarrow> x \<in> set xs \<Longrightarrow>
   List.find (\<lambda>i. f i = v) (remove1 x xs) = (if v = f x then None else List.find (\<lambda>i. f i = v) xs)"
  by (induction xs) (auto simp: find_None_iff image_iff dest: in_set_remove1_mem)

lemma delete_map:
  assumes "hash_table ops h" "keys_distinct ikey h"
    "apk_hash_delete_hashed h k (apk_hash_from_key h k) = Ret (freed, h')"
  shows "table_map ikey h' = (table_map ikey h)(kval k := None)"
proof (cases "table_map ikey h (kval k)")
  case None
  then have "h' = h"
    using assms(3) get_is_map [OF assms(1), of k]
    by (auto simp: apk_hash_delete_hashed_def apk_hash_get_def Let_def split: if_splits)
  then show ?thesis using None by auto
next
  case (Some i)
  let ?b = "bucket_of h (apk_hash_from_key h k)"
  have lt: "?b < length (buckets h)"
    using assms(1) by (intro bucket_of_less hash_ok_nonempty) (simp add: hash_table_def)
  have get: "apk_hash_get_hashed h k (apk_hash_from_key h k) = Some i"
    using Some get_is_map [OF assms(1), of k] by (simp add: apk_hash_get_def)
  then have mem: "i \<in> set (buckets h ! ?b)" and key: "ikey i = kval k"
    using assms(1)
    by (auto simp: apk_hash_get_hashed_def find_Some_iff hash_table_def matches_iff)
  obtain us vs where split: "hash_items h = us @ (buckets h ! ?b) @ vs"
    "hash_items h' = us @ remove1 i (buckets h ! ?b) @ vs"
    using map_concat_update_split [OF lt] assms(3) get
    by (auto simp: apk_hash_delete_hashed_def hash_items_def Let_def split: if_splits)
  have d: "distinct (map ikey (us @ (buckets h ! ?b) @ vs))"
    using assms(2) split by (simp add: keys_distinct_def)
  have "i \<notin> set us" using d mem by auto
  then have "hash_items h' = remove1 i (hash_items h)"
    using mem by (simp add: split remove1_append)
  then show ?thesis
    using distinct_remove_find [of ikey "hash_items h" i] d mem key split
    by (auto simp: table_map_def fun_eq_iff)
qed

lemma get_Some:
  "hash_table ops h \<Longrightarrow> apk_hash_get h k = Some i \<Longrightarrow> i \<in> set (hash_items h) \<and> ikey i = kval k"
  using get_is_map [of h k] by (auto simp: table_map_def find_Some_iff in_set_conv_nth)

lemma get_unique:
  "hash_table ops h \<Longrightarrow> keys_distinct ikey h \<Longrightarrow> i \<in> set (hash_items h) \<Longrightarrow> ikey i = kval k \<Longrightarrow>
   apk_hash_get h k = Some i"
  using get_is_map [of h k] find_distinct_key [of ikey "hash_items h" i]
  by (simp add: table_map_def keys_distinct_def)

text \<open>Overwriting an item in place by one with the same key.\<close>

lemma store_items:
  "hash_items (hash_store h old new) = map (\<lambda>i. if i = old then new else i) (hash_items h)"
  by (simp add: hash_items_def hash_store_def map_concat)

lemma store_table:
  assumes "hash_table ops h" "old \<in> set (hash_items h)" "ikey old = kval k" "ikey new = ikey old"
  shows "hash_table ops (hash_store h old new)"
proof -
  let ?h = "hash_store h old new"
  have ok: "hash_ok h" and ops: "hash_ops h = ops" using assms(1) by (auto simp: hash_table_def)
  have same: "apk_hash_from_item h new = apk_hash_from_item h old"
    using from_item_key [OF assms(1)] assms(3,4) by metis
  have "bucket_of ?h (apk_hash_from_item ?h i) = b"
    if b: "b < length (buckets ?h)" and i: "i \<in> set (buckets ?h ! b)" for b i
  proof -
    have bo: "bucket_of ?h = bucket_of h" and fi: "apk_hash_from_item ?h = apk_hash_from_item h"
      by (auto simp: hash_store_def intro: bucket_of_same from_item_same)
    from b i obtain j where "j \<in> set (buckets h ! b)" "i = (if j = old then new else j)"
      by (auto simp: hash_store_def)
    then show ?thesis
      using hash_ok_member [OF ok, of b j] b same unfolding bo fi by (auto simp: hash_store_def)
  qed
  moreover have "num_items ?h = int (length (hash_items ?h))"
    using ok unfolding store_items by (simp add: hash_ok_def hash_store_def)
  ultimately show ?thesis
    using ok ops by (simp add: hash_table_def hash_ok_def) (simp add: hash_store_def)
qed

lemma map_store_keys:
  "ikey new = ikey old \<Longrightarrow> map ikey (map (\<lambda>i. if i = old then new else i) xs) = map ikey xs"
  by (induction xs) auto

lemma find_store:
  "distinct (map ikey xs) \<Longrightarrow> old \<in> set xs \<Longrightarrow> ikey new = ikey old \<Longrightarrow>
   List.find (\<lambda>i. ikey i = v) (map (\<lambda>i. if i = old then new else i) xs) =
     (if v = ikey old then Some new else List.find (\<lambda>i. ikey i = v) xs)"
proof (induction xs)
  case (Cons x xs)
  show ?case
  proof (cases "x = old")
    case True
    then have "map (\<lambda>i. if i = old then new else i) xs = xs"
      using Cons.prems(1) by (intro map_idI) auto
    then show ?thesis using True Cons.prems by auto
  next
    case False
    then show ?thesis using Cons by auto
  qed
qed simp

lemma store_map:
  assumes "hash_table ops h" "keys_distinct ikey h" "old \<in> set (hash_items h)" "ikey old = kval k"
    "ikey new = ikey old"
  shows "table_map ikey (hash_store h old new) = (table_map ikey h)(ikey old \<mapsto> new)"
    "keys_distinct ikey (hash_store h old new)"
  using assms find_store [of "hash_items h" old new] map_store_keys [of new old "hash_items h"]
  by (auto simp: table_map_def keys_distinct_def store_items fun_eq_iff simp del: map_map)

text \<open>Find or create, the way the interning pools and the database use their tables.\<close>

lemma intern_spec:
  assumes "hash_table ops h" "keys_distinct ikey h" "ikey new = kval k"
    "(j, h') = (case apk_hash_get h k of Some i \<Rightarrow> (i, h) | None \<Rightarrow> (new, apk_hash_insert h new))"
  shows "hash_table ops h' \<and> keys_distinct ikey h' \<and> ikey j = kval k \<and> apk_hash_get h' k = Some j \<and>
    (\<forall>k'. kval k' \<noteq> kval k \<longrightarrow> apk_hash_get h' k' = apk_hash_get h k') \<and>
    set (hash_items h) \<subseteq> set (hash_items h')"
proof (cases "apk_hash_get h k")
  case None
  then have eqs: "j = new" "h' = apk_hash_insert h new" using assms(4) by auto
  have n: "table_map ikey h (ikey new) = None" using None get_is_map [OF assms(1)] assms(3) by simp
  have t': "hash_table ops h'" using insert_table [OF assms(1)] eqs by simp
  show ?thesis
    using insert_map [OF assms(1,3)] insert_distinct [OF assms(1,2) n] t' get_is_map [OF t']
      get_is_map [OF assms(1)] hash_insert_ok(2) [of h new] assms eqs
    by (auto simp: hash_table_def)
next
  case (Some i)
  then show ?thesis using assms get_Some [OF assms(1) Some] by auto
qed

end

end
