(* ===== verification/Balloc.thy ===== *)
theory Balloc
  imports Blob
begin

text \<open>
  The bump allocator of \<^verbatim>\<open>balloc.c\<close> at 64-bit addresses. \<^verbatim>\<open>malloc\<close> is not part of the program:
  the address it returns when a page is needed is an argument of the operations, and what the
  allocator relies on (the block does not wrap around, is aligned and is new) is a hypothesis of
  the step relation. The memory contents are a map from addresses to bytes.
\<close>

section \<open>Definitions\<close>

definition ROUND_UP :: "u64 \<Rightarrow> u64 \<Rightarrow> u64" where
  "ROUND_UP x a = (x + a - 1) AND NOT (a - 1)"

text \<open>The header of a page is one list node: a pointer.\<close>

definition sizeof_page :: u64 where
  "sizeof_page = 8"

record apk_balloc =
  pages_head :: "u64 list"
  page_size :: u64
  ba_cur :: u64
  ba_end :: u64

type_synonym memory = "u64 \<Rightarrow> char"

definition apk_balloc_init :: "u64 \<Rightarrow> apk_balloc" where
  "apk_balloc_init psz = \<lparr>pages_head = [], page_size = psz, ba_cur = 0, ba_end = 0\<rparr>"

text \<open>The pages handed to \<^verbatim>\<open>free\<close>, and the zeroed allocator.\<close>

definition apk_balloc_destroy :: "apk_balloc \<Rightarrow> u64 list \<times> apk_balloc" where
  "apk_balloc_destroy ba =
     (pages_head ba, \<lparr>pages_head = [], page_size = 0, ba_cur = 0, ba_end = 0\<rparr>)"

text \<open>
  The result is the address, the requested size of the block if \<^verbatim>\<open>malloc\<close> was called, and the
  allocator.
\<close>

definition apk_balloc_aligned ::
  "apk_balloc \<Rightarrow> u64 \<Rightarrow> u64 \<Rightarrow> u64 \<Rightarrow> u64 \<times> u64 option \<times> apk_balloc" where
  "apk_balloc_aligned ba sz align malloc_ret =
     (let ptr = ROUND_UP (ba_cur ba) align in
      if ptr + sz > ba_end ba then
        let psz = max (page_size ba) sz;
            cur = malloc_ret + sizeof_page;
            ptr = ROUND_UP cur align
        in (ptr, Some (psz + sizeof_page),
            ba\<lparr>pages_head := malloc_ret # pages_head ba, ba_cur := ptr + sz,
               ba_end := malloc_ret + psz\<rparr>)
      else (ptr, None, ba\<lparr>ba_cur := ptr + sz\<rparr>))"

definition mem_write :: "memory \<Rightarrow> u64 \<Rightarrow> bytes \<Rightarrow> memory" where
  "mem_write mem ptr xs =
     (\<lambda>a. if unat (a - ptr) < length xs then xs ! unat (a - ptr) else mem a)"

definition mem_read :: "memory \<Rightarrow> u64 \<Rightarrow> nat \<Rightarrow> bytes" where
  "mem_read mem ptr n = map (\<lambda>i. mem (ptr + of_nat i)) [0..<n]"

definition apk_balloc_aligned0 ::
  "apk_balloc \<Rightarrow> memory \<Rightarrow> u64 \<Rightarrow> u64 \<Rightarrow> u64 \<Rightarrow> u64 \<times> u64 option \<times> apk_balloc \<times> memory" where
  "apk_balloc_aligned0 ba mem sz align malloc_ret =
     (case apk_balloc_aligned ba sz align malloc_ret of
        (ptr, req, ba') \<Rightarrow> (ptr, req, ba', mem_write mem ptr (replicate (unat sz) NUL)))"

definition apk_balloc_dup ::
  "apk_balloc \<Rightarrow> memory \<Rightarrow> bytes \<Rightarrow> u64 \<Rightarrow> u64 \<times> u64 option \<times> apk_balloc \<times> memory" where
  "apk_balloc_dup ba mem b malloc_ret =
     (case apk_balloc_aligned ba (of_nat (length b)) 1 malloc_ret of
        (ptr, req, ba') \<Rightarrow> (ptr, req, ba', mem_write mem ptr b))"

definition apk_balloc_cstr ::
  "apk_balloc \<Rightarrow> memory \<Rightarrow> bytes \<Rightarrow> u64 \<Rightarrow> u64 \<times> u64 option \<times> apk_balloc \<times> memory" where
  "apk_balloc_cstr ba mem b malloc_ret =
     (case apk_balloc_aligned ba (of_nat (length b + 1)) 1 malloc_ret of
        (ptr, req, ba') \<Rightarrow> (ptr, req, ba', mem_write mem ptr (b @ [NUL])))"

section \<open>Runs of the allocator\<close>

text \<open>
  A block or an allocation is an address and a length. The run records the blocks obtained from
  \<^verbatim>\<open>malloc\<close> (newest first) and the allocations handed out.
\<close>

type_synonym region = "u64 \<times> nat"

fun region_set :: "region \<Rightarrow> nat set" where
  "region_set (a, n) = {unat a ..< unat a + n}"

record balloc_run =
  run_ba :: apk_balloc
  run_blocks :: "region list"
  run_allocs :: "region list"

definition malloc_ok :: "region list \<Rightarrow> u64 \<Rightarrow> u64 \<Rightarrow> bool" where
  "malloc_ok blocks m req \<longleftrightarrow>
     unat m + unat req < 2 ^ 63 \<and> 8 dvd unat m \<and> 0 < unat m \<and>
     (\<forall>b \<in> set blocks. region_set b \<inter> region_set (m, unat req) = {})"

text \<open>
  The sizes the program asks for do not come near the size of the address space.
\<close>

definition size_ok :: "u64 \<Rightarrow> bool" where
  "size_ok s \<longleftrightarrow> unat s < 2 ^ 62"

inductive balloc_step :: "balloc_run \<Rightarrow> balloc_run \<Rightarrow> bool" where
  alloc_in_page:
    "size_ok sz \<Longrightarrow> align \<in> {1, 2, 4, 8} \<Longrightarrow>
     apk_balloc_aligned (run_ba r) sz align m = (ptr, None, ba') \<Longrightarrow>
     balloc_step r (r\<lparr>run_ba := ba', run_allocs := (ptr, unat sz) # run_allocs r\<rparr>)"
| alloc_new_page:
    "size_ok sz \<Longrightarrow> align \<in> {1, 2, 4, 8} \<Longrightarrow>
     apk_balloc_aligned (run_ba r) sz align m = (ptr, Some req, ba') \<Longrightarrow>
     malloc_ok (run_blocks r) m req \<Longrightarrow>
     balloc_step r (r\<lparr>run_ba := ba', run_blocks := (m, unat req) # run_blocks r,
       run_allocs := (ptr, unat sz) # run_allocs r\<rparr>)"

definition balloc_start :: "u64 \<Rightarrow> balloc_run" where
  "balloc_start psz = \<lparr>run_ba = apk_balloc_init psz, run_blocks = [], run_allocs = []\<rparr>"

fun regions_disjoint :: "region list \<Rightarrow> bool" where
  "regions_disjoint [] \<longleftrightarrow> True"
| "regions_disjoint (r # rs) \<longleftrightarrow>
     (\<forall>s \<in> set rs. region_set r \<inter> region_set s = {}) \<and> regions_disjoint rs"

definition balloc_inv :: "balloc_run \<Rightarrow> bool" where
  "balloc_inv r \<longleftrightarrow>
     size_ok (page_size (run_ba r)) \<and>
     map fst (run_blocks r) = pages_head (run_ba r) \<and>
     regions_disjoint (run_blocks r) \<and> regions_disjoint (run_allocs r) \<and>
     (\<forall>a \<in> set (run_allocs r). snd a = 0 \<or> (\<exists>b \<in> set (run_blocks r).
        region_set a \<subseteq> region_set b \<and> unat (fst b) + 8 \<le> unat (fst a))) \<and>
     (case run_blocks r of
        [] \<Rightarrow> ba_cur (run_ba r) = 0 \<and> ba_end (run_ba r) = 0
      | (m, n) # _ \<Rightarrow>
          unat m + n < 2 ^ 63 \<and> unat m + 8 \<le> unat (ba_cur (run_ba r)) \<and>
          unat (ba_cur (run_ba r)) \<le> unat m + n \<and> unat (ba_end (run_ba r)) \<le> unat m + n \<and>
          (\<forall>(p, s) \<in> set (run_allocs r).
             region_set (p, s) \<inter> {unat (ba_cur (run_ba r)) ..< unat m + n} = {}))"

section \<open>Lemmas\<close>

lemma and_not_mask_div: "(x :: u64) AND NOT (mask k) = x div 2 ^ k * 2 ^ k"
proof -
  have "x AND NOT (mask k) = push_bit k (drop_bit k x)"
    by (rule bit_eqI) (auto simp: bit_simps)
  then show ?thesis by (simp add: push_bit_eq_mult drop_bit_eq_div)
qed

lemma unat_pow2: "k < 64 \<Longrightarrow> unat ((2 :: u64) ^ k) = 2 ^ k"
proof -
  assume "k < 64"
  then have "(2::nat) ^ k < 2 ^ 64" by (intro power_strict_increasing) auto
  moreover have "(2 :: u64) ^ k = of_nat (2 ^ k)" by simp
  ultimately show ?thesis by (simp add: unat_of_nat del: of_nat_power)
qed

lemma unat_div_mult_pow:
  "k < 64 \<Longrightarrow> unat ((x :: u64) div 2 ^ k * 2 ^ k) = unat x div 2 ^ k * 2 ^ k"
proof -
  assume k: "k < 64"
  have p: "unat ((2 :: u64) ^ k) = 2 ^ k" using k by (simp add: unat_pow2)
  have "unat x div 2 ^ k * 2 ^ k \<le> unat x" by simp
  also have "\<dots> < 2 ^ 64" using unsigned_less [of x] by simp
  finally have lt: "unat x div 2 ^ k * 2 ^ k < 2 ^ 64" .
  have "unat (x div 2 ^ k) = unat x div 2 ^ k" using p by (simp add: unat_div)
  then show ?thesis using lt p unat_mult_lem [of "x div 2 ^ k" "2 ^ k"] by simp
qed

lemma unat_ROUND_UP:
  assumes "align = 2 ^ k" "k \<le> 3" "unat x + 8 < 2 ^ 64"
  shows "unat (ROUND_UP x align) = (unat x + 2 ^ k - 1) div 2 ^ k * 2 ^ k"
proof -
  have k: "k < 64" using assms by simp
  have p8: "(2::nat) ^ k \<le> 2 ^ 3" using assms by (intro power_increasing) auto
  have a: "unat align = 2 ^ k" using assms k by (simp add: unat_pow2)
  have "align - 1 = mask k" using assms by (simp add: mask_eq_decr_exp)
  then have "ROUND_UP x align = (x + align - 1) div 2 ^ k * 2 ^ k"
    by (simp add: ROUND_UP_def and_not_mask_div)
  moreover have "unat (x + align - 1) = unat x + 2 ^ k - 1"
  proof -
    have "unat (x + align) = unat x + 2 ^ k"
      using assms a p8 by (simp add: unat_word_ariths)
    moreover have "1 \<le> x + align"
      using calculation by (simp add: word_le_nat_alt Suc_leI)
    ultimately show ?thesis by (simp add: unat_sub)
  qed
  ultimately show ?thesis using unat_div_mult_pow [OF k, of "x + align - 1"] by simp
qed

lemma round_up_bounds:
  fixes n :: nat
  shows "n \<le> (n + 2 ^ k - 1) div 2 ^ k * 2 ^ k" "(n + 2 ^ k - 1) div 2 ^ k * 2 ^ k \<le> n + 2 ^ k - 1"
proof -
  have "n + 2 ^ k - 1 < ((n + 2 ^ k - 1) div 2 ^ k + 1) * 2 ^ k"
    using div_less_iff_less_mult [of "2 ^ k" "n + 2 ^ k - 1" "(n + 2 ^ k - 1) div 2 ^ k + 1"] by simp
  then show "n \<le> (n + 2 ^ k - 1) div 2 ^ k * 2 ^ k" by (simp add: algebra_simps)
  show "(n + 2 ^ k - 1) div 2 ^ k * 2 ^ k \<le> n + 2 ^ k - 1" by simp
qed

lemma round_up_dvd: "2 ^ k dvd n \<Longrightarrow> (n + 2 ^ k - 1) div 2 ^ k * 2 ^ k = (n :: nat)"
proof -
  assume "2 ^ k dvd n"
  then obtain q where "n = 2 ^ k * q" by (auto elim: dvdE)
  moreover have "(2 ^ k * q + (2 ^ k - 1)) div 2 ^ k = q" by (subst div_mult_self4) auto
  ultimately show ?thesis by (simp add: mult.commute)
qed

lemma small_align: "align \<in> {1, 2, 4, 8 :: u64} \<Longrightarrow> \<exists>k \<le> 3. align = 2 ^ k"
  by (auto intro: exI [of _ 0] exI [of _ 1] exI [of _ 2] exI [of _ 3])


lemma size_ok_le: "size_ok a \<Longrightarrow> size_ok b \<Longrightarrow> size_ok (max a b)"
  by (simp add: size_ok_def max_def)

text \<open>What a call does, on the numbers the words stand for.\<close>

lemma balloc_in_page:
  assumes "apk_balloc_aligned ba sz align m = (ptr, None, ba')"
    "align \<in> {1, 2, 4, 8}" "size_ok sz" "unat (ba_cur ba) < 2 ^ 63"
  shows "unat (ba_cur ba) \<le> unat ptr" "unat ptr + unat sz \<le> unat (ba_end ba)"
    "ba' = ba\<lparr>ba_cur := ptr + sz\<rparr>" "unat (ptr + sz) = unat ptr + unat sz" "unat align dvd unat ptr"
proof -
  obtain k where k: "align = 2 ^ k" "k \<le> 3" using small_align [OF assms(2)] by auto
  have p8: "(2::nat) ^ k \<le> 2 ^ 3" using k by (intro power_increasing) auto
  have up: "unat (ROUND_UP (ba_cur ba) align) = (unat (ba_cur ba) + 2 ^ k - 1) div 2 ^ k * 2 ^ k"
    using unat_ROUND_UP [OF k, of "ba_cur ba"] assms(4) by simp
  have le: "\<not> ptr + sz > ba_end ba" and ptr: "ptr = ROUND_UP (ba_cur ba) align"
    and ba': "ba' = ba\<lparr>ba_cur := ptr + sz\<rparr>"
    using assms(1) by (auto simp: apk_balloc_aligned_def Let_def split: if_splits)
  have bound: "unat ptr \<le> unat (ba_cur ba) + 7"
  proof -
    have "(unat (ba_cur ba) + 2 ^ k - 1) div 2 ^ k * 2 ^ k \<le> unat (ba_cur ba) + 2 ^ k - 1"
      by (rule round_up_bounds)
    also have "\<dots> \<le> unat (ba_cur ba) + 7" using p8 by simp
    finally show ?thesis by (simp add: ptr up)
  qed
  then show plus: "unat (ptr + sz) = unat ptr + unat sz"
    using assms(3,4) by (simp add: unat_word_ariths size_ok_def)
  show "unat (ba_cur ba) \<le> unat ptr"
    using round_up_bounds(1) [of "unat (ba_cur ba)" k] by (simp add: ptr up)
  show "unat ptr + unat sz \<le> unat (ba_end ba)"
    using le plus by (simp add: word_less_nat_alt)
  show "ba' = ba\<lparr>ba_cur := ptr + sz\<rparr>" by (rule ba')
  show "unat align dvd unat ptr"
    using k up by (simp add: ptr unat_pow2)
qed

lemma balloc_new_page:
  assumes "apk_balloc_aligned ba sz align m = (ptr, Some req, ba')"
    "align \<in> {1, 2, 4, 8}" "size_ok sz" "size_ok (page_size ba)" "malloc_ok blocks m req"
  shows "unat ptr = unat m + 8" "unat req = max (unat (page_size ba)) (unat sz) + 8"
    "ba' = ba\<lparr>pages_head := m # pages_head ba, ba_cur := ptr + sz, ba_end := m + max (page_size ba) sz\<rparr>"
    "unat (ptr + sz) = unat ptr + unat sz"
    "unat (m + max (page_size ba) sz) = unat m + max (unat (page_size ba)) (unat sz)"
    "unat align dvd unat ptr"
proof -
  obtain k where k: "align = 2 ^ k" "k \<le> 3" using small_align [OF assms(2)] by auto
  let ?psz = "max (page_size ba) sz"
  have mx: "unat ?psz = max (unat (page_size ba)) (unat sz)"
    by (simp add: max_def word_le_nat_alt)
  have ptr: "ptr = ROUND_UP (m + 8) align" and req: "req = ?psz + 8"
    and ba': "ba' = ba\<lparr>pages_head := m # pages_head ba, ba_cur := ptr + sz, ba_end := m + ?psz\<rparr>"
    using assms(1)
    by (auto simp: apk_balloc_aligned_def Let_def sizeof_page_def split: if_splits)
  show ureq: "unat req = max (unat (page_size ba)) (unat sz) + 8"
    using assms(3,4) by (simp add: req unat_word_ariths mx size_ok_def)
  have m: "unat m + unat req < 2 ^ 63" "8 dvd unat m"
    using assms(5) by (auto simp: malloc_ok_def)
  have m8: "unat (m + 8) = unat m + 8" using m ureq by (simp add: unat_word_ariths)
  have "2 ^ k dvd (8 :: nat)" using k le_imp_power_dvd [of k 3 "2::nat"] by simp
  then have d: "2 ^ k dvd unat m + 8" using m(2) dvd_trans by (metis dvd_add dvd_refl)
  have "unat ptr = (unat (m + 8) + 2 ^ k - 1) div 2 ^ k * 2 ^ k"
    unfolding ptr using unat_ROUND_UP [OF k, of "m + 8"] m ureq m8 by simp
  then show uptr: "unat ptr = unat m + 8" using round_up_dvd [OF d] m8 by simp
  show "ba' = ba\<lparr>pages_head := m # pages_head ba, ba_cur := ptr + sz, ba_end := m + ?psz\<rparr>"
    by (rule ba')
  show "unat (ptr + sz) = unat ptr + unat sz"
    using m ureq uptr by (simp add: unat_word_ariths)
  show "unat (m + ?psz) = unat m + max (unat (page_size ba)) (unat sz)"
    using m ureq mx by (simp add: unat_word_ariths)
  show "unat align dvd unat ptr"
    using d k uptr by (simp add: unat_pow2)
qed

lemma balloc_inv_start: "size_ok psz \<Longrightarrow> balloc_inv (balloc_start psz)"
  by (simp add: balloc_inv_def balloc_start_def apk_balloc_init_def)

lemma region_set_empty [simp]: "n = 0 \<Longrightarrow> region_set (a, n) = {}"
  by simp

text \<open>Allocating inside the newest block keeps the invariant.\<close>

lemma balloc_inv_in_page:
  assumes inv: "balloc_inv r" and sz: "size_ok sz" and al: "align \<in> {1, 2, 4, 8}"
    and call: "apk_balloc_aligned (run_ba r) sz align m = (ptr, None, ba')"
  shows "balloc_inv (r\<lparr>run_ba := ba', run_allocs := (ptr, unat sz) # run_allocs r\<rparr>)"
proof (cases "run_blocks r")
  case Nil
  have "unat (ba_cur (run_ba r)) < 2 ^ 63" using inv Nil by (simp add: balloc_inv_def)
  note step = balloc_in_page [OF call al sz this]
  have z: "unat ptr + unat sz = 0" using step(2) inv Nil by (simp add: balloc_inv_def)
  then have "ptr + sz = 0" by (simp add: unat_eq_zero)
  then show ?thesis using inv Nil z step(3) by (auto simp: balloc_inv_def)
next
  case (Cons b bs)
  obtain bm bn where b: "b = (bm, bn)" by fastforce
  let ?cur = "unat (ba_cur (run_ba r))"
  have lim: "unat bm + bn < 2 ^ 63" "unat bm + 8 \<le> ?cur" "?cur \<le> unat bm + bn"
    "unat (ba_end (run_ba r)) \<le> unat bm + bn"
    and free: "\<And>p s. (p, s) \<in> set (run_allocs r) \<Longrightarrow> region_set (p, s) \<inter> {?cur ..< unat bm + bn} = {}"
    using inv by (auto simp: balloc_inv_def Cons b)
  have cur: "?cur < 2 ^ 63" using lim by linarith
  note step = balloc_in_page [OF call al sz cur]
  have top: "unat ptr + unat sz \<le> unat bm + bn" using step(2) lim by linarith
  have new: "region_set (ptr, unat sz) \<subseteq> {?cur ..< unat bm + bn}" using step(1) top by auto
  then have dis: "\<forall>a \<in> set (run_allocs r). region_set (ptr, unat sz) \<inter> region_set a = {}"
    using free by fastforce
  have "\<forall>(p, s) \<in> set ((ptr, unat sz) # run_allocs r).
      region_set (p, s) \<inter> {unat (ptr + sz) ..< unat bm + bn} = {}"
    using free step(1,4) by fastforce
  moreover have "region_set (ptr, unat sz) \<subseteq> region_set b" "unat (fst b) + 8 \<le> unat ptr"
    using new lim step(1) b by auto
  ultimately show ?thesis
    using inv dis lim step(1,3,4) top by (auto simp: balloc_inv_def Cons b)
qed

text \<open>Allocating from a fresh block keeps the invariant.\<close>

lemma balloc_inv_new_page:
  assumes inv: "balloc_inv r" and sz: "size_ok sz" and al: "align \<in> {1, 2, 4, 8}"
    and call: "apk_balloc_aligned (run_ba r) sz align m = (ptr, Some req, ba')"
    and ok: "malloc_ok (run_blocks r) m req"
  shows "balloc_inv (r\<lparr>run_ba := ba', run_blocks := (m, unat req) # run_blocks r,
    run_allocs := (ptr, unat sz) # run_allocs r\<rparr>)"
proof -
  have psz: "size_ok (page_size (run_ba r))" using inv by (simp add: balloc_inv_def)
  note step = balloc_new_page [OF call al sz psz ok]
  have m: "unat m + unat req < 2 ^ 63"
    and fresh: "\<And>b. b \<in> set (run_blocks r) \<Longrightarrow> region_set b \<inter> region_set (m, unat req) = {}"
    using ok by (auto simp: malloc_ok_def)
  have new: "region_set (ptr, unat sz) \<subseteq> region_set (m, unat req)"
    using step(1,2) by auto
  have old: "region_set a \<inter> region_set (m, unat req) = {}" if "a \<in> set (run_allocs r)" for a
  proof (cases "snd a = 0")
    case True
    then show ?thesis by (cases a) simp
  next
    case False
    then obtain b where "b \<in> set (run_blocks r)" "region_set a \<subseteq> region_set b"
      using inv \<open>a \<in> set (run_allocs r)\<close> by (auto simp: balloc_inv_def)
    then show ?thesis using fresh by blast
  qed
  have "\<forall>(p, s) \<in> set ((ptr, unat sz) # run_allocs r).
      region_set (p, s) \<inter> {unat (ptr + sz) ..< unat m + unat req} = {}"
    using old step(1,4) by fastforce
  moreover have "\<forall>a \<in> set (run_allocs r). region_set (ptr, unat sz) \<inter> region_set a = {}"
    using old new by blast
  moreover have "\<forall>b \<in> set (run_blocks r). region_set (m, unat req) \<inter> region_set b = {}"
    using fresh by blast
  ultimately show ?thesis
    using inv new m step by (auto simp: balloc_inv_def)
qed

lemma balloc_inv_step: "balloc_step r r' \<Longrightarrow> balloc_inv r \<Longrightarrow> balloc_inv r'"
  by (induction rule: balloc_step.induct) (auto intro: balloc_inv_in_page balloc_inv_new_page)

lemma balloc_inv_reachable:
  "balloc_step\<^sup>*\<^sup>* (balloc_start psz) r \<Longrightarrow> size_ok psz \<Longrightarrow> balloc_inv r"
  by (induction rule: rtranclp_induct) (auto intro: balloc_inv_start balloc_inv_step)

lemma mem_read_write:
  assumes "length xs < 2 ^ 64"
  shows "mem_read (mem_write mem ptr xs) ptr (length xs) = xs"
proof (rule nth_equalityI)
  fix i assume "i < length (mem_read (mem_write mem ptr xs) ptr (length xs))"
  then have i: "i < length xs" by (simp add: mem_read_def)
  then have "unat (of_nat i :: u64) = i" using assms by (simp add: unat_of_nat)
  then show "mem_read (mem_write mem ptr xs) ptr (length xs) ! i = xs ! i"
    using i by (simp add: mem_read_def mem_write_def)
qed (simp add: mem_read_def)

section \<open>Properties\<close>

text \<open>
  C33. Memory safety of the bump allocator: in every state that is reached by allocations of
  reasonable size with an alignment of at most a machine word, every non-empty allocation lies
  inside a block obtained from \<^verbatim>\<open>malloc\<close>, behind the page header, and no two allocations overlap;
  the page list holds exactly the blocks that are to be freed.
\<close>

theorem balloc_allocations_disjoint:
  assumes "size_ok psz" "balloc_step\<^sup>*\<^sup>* (balloc_start psz) r"
  shows "regions_disjoint (run_allocs r) \<and>
    (\<forall>a \<in> set (run_allocs r). snd a = 0 \<or> (\<exists>b \<in> set (run_blocks r).
        region_set a \<subseteq> region_set b \<and> unat (fst b) + 8 \<le> unat (fst a))) \<and>
    fst (apk_balloc_destroy (run_ba r)) = map fst (run_blocks r)"
  using balloc_inv_reachable [OF assms(2,1)] by (auto simp: balloc_inv_def apk_balloc_destroy_def)

theorem balloc_allocations_disjoint_witness:
  "\<exists>r. balloc_step\<^sup>*\<^sup>* (balloc_start 4096) r \<and> length (run_allocs r) = 2 \<and> regions_disjoint (run_allocs r)"
proof -
  let ?r1 = "\<lparr>run_ba = \<lparr>pages_head = [65536], page_size = 4096, ba_cur = 65554, ba_end = 69632\<rparr>,
    run_blocks = [(65536, 4104)], run_allocs = [(65544, 10)]\<rparr>"
  have "balloc_step (balloc_start 4096) ?r1"
    using alloc_new_page [of 10 8 "balloc_start 4096" 65536 65544 4104]
    by (simp add: size_ok_def balloc_start_def apk_balloc_init_def apk_balloc_aligned_def ROUND_UP_def
        sizeof_page_def malloc_ok_def)
  moreover have "balloc_step ?r1 (?r1\<lparr>run_ba := (run_ba ?r1)\<lparr>ba_cur := 65566\<rparr>,
      run_allocs := [(65560, 6), (65544, 10)]\<rparr>)"
    using alloc_in_page [of 6 8 ?r1 0 65560]
    by (simp add: size_ok_def apk_balloc_aligned_def ROUND_UP_def)
  ultimately have run: "balloc_step\<^sup>*\<^sup>* (balloc_start 4096) (?r1\<lparr>run_ba := (run_ba ?r1)\<lparr>ba_cur := 65566\<rparr>,
      run_allocs := [(65560, 6), (65544, 10)]\<rparr>)" (is "balloc_step\<^sup>*\<^sup>* _ ?r2")
    by (meson converse_rtranclp_into_rtranclp rtranclp.rtrancl_refl)
  have "regions_disjoint (run_allocs ?r2)"
    using balloc_allocations_disjoint [OF _ run] by (simp add: size_ok_def)
  moreover have "length (run_allocs ?r2) = 2" by simp
  ultimately show ?thesis using run by blast
qed

end
