(* ===== verification/Atom.thy ===== *)
theory Atom
  imports Hash Balloc
begin

text \<open>
  The string interning pool of \<^verbatim>\<open>atom.c\<close>: a hash table of nodes that are allocated from a bump
  allocator together with a copy of the bytes. Names, versions and paths are compared by address
  everywhere else in the program, which is sound exactly because two calls return the same
  address if and only if they were given the same bytes.
\<close>

section \<open>Definitions\<close>

text \<open>A node with its address; the bytes of its blob lie right behind it and never change.\<close>

record apk_atom_hashnode =
  atom_addr :: u64
  atom_blob :: bytes

definition atom_hash_get_key :: "apk_atom_hashnode \<Rightarrow> blob" where
  "atom_hash_get_key item = Some (atom_blob item)"

definition atom_ops :: "(apk_atom_hashnode, blob) apk_hash_ops" where
  "atom_ops =
     \<lparr>get_key = atom_hash_get_key, hash_key = apk_blob_hash, hash_item = None,
      compare = apk_blob_compare, compare_item = None, delete_item = False\<rparr>"

record apk_atom_pool =
  atom_ba :: apk_balloc
  atom_hash :: "(apk_atom_hashnode, blob) apk_hash"

definition apk_atom_init :: "apk_balloc \<Rightarrow> apk_atom_pool" where
  "apk_atom_init ba = \<lparr>atom_ba = ba, atom_hash = apk_hash_init atom_ops 10000\<rparr>"

definition apk_atom_free :: "apk_atom_pool \<Rightarrow> apk_atom_pool" where
  "apk_atom_free atoms = atoms\<lparr>atom_hash := snd (apk_hash_free (atom_hash atoms))\<rparr>"

text \<open>The returned pointer: the static empty atom or the blob of a node.\<close>

datatype atom_ref = apk_atom_null | Atom_at u64

text \<open>The node is a list link and a blob: three machine words, followed by the bytes.\<close>

definition sizeof_atom_hashnode :: u64 where
  "sizeof_atom_hashnode = 24"

text \<open>
  The result carries the allocation that was made (address, size, and the \<^verbatim>\<open>malloc\<close> request if a
  page was needed).
\<close>

type_synonym allocation = "u64 \<times> u64 \<times> u64 option"

definition apk_atomize_dup ::
  "apk_atom_pool \<Rightarrow> blob \<Rightarrow> u64 \<Rightarrow> atom_ref \<times> allocation option \<times> apk_atom_pool" where
  "apk_atomize_dup atoms b malloc_ret =
     (let hash = apk_hash_from_key (atom_hash atoms) b in
      if blob_len b = 0 \<or> b = None then (apk_atom_null, None, atoms)
      else
        case apk_hash_get_hashed (atom_hash atoms) b hash of
          Some atom \<Rightarrow> (Atom_at (atom_addr atom), None, atoms)
        | None \<Rightarrow>
            let sz = sizeof_atom_hashnode + of_nat (blob_len b) in
            case apk_balloc_aligned (atom_ba atoms) sz 8 malloc_ret of
              (ptr, req, ba') \<Rightarrow>
                let atom = \<lparr>atom_addr = ptr, atom_blob = blob_bytes b\<rparr>
                in (Atom_at ptr, Some (ptr, sz, req),
                    atoms\<lparr>atom_ba := ba',
                      atom_hash := apk_hash_insert_hashed (atom_hash atoms) atom hash\<rparr>))"

section \<open>The pool as an interpretation of the table contract\<close>

interpretation atom_table: hash_contract atom_ops atom_blob blob_bytes
proof
  show "item_matches atom_ops i k \<longleftrightarrow> atom_blob i = blob_bytes k" for i k
    by (auto simp: item_matches_def atom_ops_def atom_hash_get_key_def apk_blob_compare_eq_0)
  show "(case hash_item atom_ops of Some f \<Rightarrow> f i
         | None \<Rightarrow> hash_key atom_ops (get_key atom_ops i)) = hash_key atom_ops k"
    if "atom_blob i = blob_bytes k" for i k
    using that
    by (simp add: atom_ops_def atom_hash_get_key_def apk_blob_hash_def apk_blob_hash_seed_def)
qed

section \<open>Runs\<close>

text \<open>
  A run interleaves interning with other allocations from the same allocator. The pool of the
  state is the table together with the allocator of the run.
\<close>

record atom_run =
  ar_run :: balloc_run
  ar_hash :: "(apk_atom_hashnode, blob) apk_hash"

definition run_pool :: "atom_run \<Rightarrow> apk_atom_pool" where
  "run_pool s = \<lparr>atom_ba = run_ba (ar_run s), atom_hash = ar_hash s\<rparr>"

fun record_alloc :: "balloc_run \<Rightarrow> u64 \<Rightarrow> apk_balloc \<Rightarrow> allocation option \<Rightarrow> balloc_run" where
  "record_alloc r m ba' None = r"
| "record_alloc r m ba' (Some (ptr, sz, None)) =
     r\<lparr>run_ba := ba', run_allocs := (ptr, unat sz) # run_allocs r\<rparr>"
| "record_alloc r m ba' (Some (ptr, sz, Some req)) =
     r\<lparr>run_ba := ba', run_blocks := (m, unat req) # run_blocks r,
       run_allocs := (ptr, unat sz) # run_allocs r\<rparr>"

fun alloc_ok :: "balloc_run \<Rightarrow> u64 \<Rightarrow> allocation option \<Rightarrow> bool" where
  "alloc_ok r m None \<longleftrightarrow> True"
| "alloc_ok r m (Some (ptr, sz, None)) \<longleftrightarrow> True"
| "alloc_ok r m (Some (ptr, sz, Some req)) \<longleftrightarrow> malloc_ok (run_blocks r) m req"

inductive intern_step :: "atom_run \<Rightarrow> blob \<Rightarrow> atom_ref \<Rightarrow> atom_run \<Rightarrow> bool" where
  intern:
    "apk_atomize_dup (run_pool s) b m = (ref, al, pool') \<Longrightarrow> blob_len b < 2 ^ 61 \<Longrightarrow>
     alloc_ok (ar_run s) m al \<Longrightarrow>
     intern_step s b ref
       \<lparr>ar_run = record_alloc (ar_run s) m (atom_ba pool') al, ar_hash = atom_hash pool'\<rparr>"

inductive atom_step :: "atom_run \<Rightarrow> atom_run \<Rightarrow> bool" where
  step_intern: "intern_step s b ref s' \<Longrightarrow> atom_step s s'"
| step_other: "balloc_step (ar_run s) r' \<Longrightarrow> atom_step s (s\<lparr>ar_run := r'\<rparr>)"

inductive_cases intern_stepE: "intern_step s b ref s'"

definition atom_start :: "u64 \<Rightarrow> atom_run" where
  "atom_start psz = \<lparr>ar_run = balloc_start psz, ar_hash = atom_hash (apk_atom_init (apk_balloc_init psz))\<rparr>"

definition atom_inv :: "atom_run \<Rightarrow> bool" where
  "atom_inv s \<longleftrightarrow>
     balloc_inv (ar_run s) \<and> hash_table atom_ops (ar_hash s) \<and> keys_distinct atom_blob (ar_hash s) \<and>
     inj_on atom_addr (set (hash_items (ar_hash s))) \<and>
     (\<forall>n \<in> set (hash_items (ar_hash s)).
        \<exists>k > 0. (atom_addr n, k) \<in> set (run_allocs (ar_run s)))"

section \<open>Lemmas\<close>

lemma atom_inv_start: "size_ok psz \<Longrightarrow> atom_inv (atom_start psz)"
  using atom_table.table_init [of 10000] atom_table.distinct_init [of 10000] balloc_inv_start
  by (simp add: atom_inv_def atom_start_def apk_atom_init_def)
    (simp add: apk_hash_init_def hash_items_def)

lemma balloc_step_allocs:
  "balloc_step r r' \<Longrightarrow> set (run_allocs r) \<subseteq> set (run_allocs r')"
  by (induction rule: balloc_step.induct) auto

lemma atomize_cases:
  assumes "apk_atomize_dup (run_pool s) b m = (ref, al, pool')"
  obtains (empty) "blob_bytes b = []" "ref = apk_atom_null" "al = None" "pool' = run_pool s"
  | (found) n where "blob_bytes b \<noteq> []" "apk_hash_get (ar_hash s) b = Some n"
      "ref = Atom_at (atom_addr n)" "al = None" "pool' = run_pool s"
  | (fresh) ptr req ba' where "blob_bytes b \<noteq> []" "apk_hash_get (ar_hash s) b = None"
      "apk_balloc_aligned (run_ba (ar_run s)) (24 + of_nat (blob_len b)) 8 m = (ptr, req, ba')"
      "ref = Atom_at ptr" "al = Some (ptr, 24 + of_nat (blob_len b), req)"
      "pool' = \<lparr>atom_ba = ba', atom_hash = apk_hash_insert_hashed (ar_hash s)
          \<lparr>atom_addr = ptr, atom_blob = blob_bytes b\<rparr> (apk_hash_from_key (ar_hash s) b)\<rparr>"
proof (cases "blob_bytes b = []")
  case True
  then show ?thesis
    using assms empty by (auto simp: apk_atomize_dup_def blob_len_def Let_def)
next
  case False
  then have ne: "\<not> (blob_len b = 0 \<or> b = None)" by (auto simp: blob_len_def blob_bytes_def split: option.splits)
  show ?thesis
  proof (cases "apk_hash_get (ar_hash s) b")
    case None
    obtain ptr req ba' where
      "apk_balloc_aligned (run_ba (ar_run s)) (24 + of_nat (blob_len b)) 8 m = (ptr, req, ba')"
      by (metis prod_cases3)
    then show ?thesis
      using assms ne None False
      by (intro fresh)
        (auto simp: apk_atomize_dup_def Let_def run_pool_def apk_hash_get_def sizeof_atom_hashnode_def)
  next
    case (Some n)
    then show ?thesis
      using assms ne False
      by (intro found) (auto simp: apk_atomize_dup_def Let_def run_pool_def apk_hash_get_def)
  qed
qed

lemma unat_atom_size: "blob_len b < 2 ^ 61 \<Longrightarrow> unat (24 + of_nat (blob_len b) :: u64) = 24 + blob_len b"
  by (simp add: unat_word_ariths unat_of_nat)

lemma region_head: "0 < k \<Longrightarrow> unat a \<in> region_set (a, k)"
  by simp

text \<open>The address of a fresh node differs from the address of every node in the table.\<close>

lemma fresh_atom_addr:
  assumes "balloc_inv r'" "run_allocs r' = (ptr, n) # allocs" "0 < n"
    "(atom_addr x, k) \<in> set allocs" "0 < k"
  shows "atom_addr x \<noteq> ptr"
  using assms region_head [of k "atom_addr x"] region_head [of n ptr]
  by (fastforce simp: balloc_inv_def)

lemma insert_hashed_key:
  "hash_table atom_ops h \<Longrightarrow> atom_blob n = blob_bytes b \<Longrightarrow>
   apk_hash_insert_hashed h n (apk_hash_from_key h b) = apk_hash_insert h n"
  by (simp add: apk_hash_insert_def atom_table.from_item_key)

lemma intern_step_spec:
  assumes "intern_step s b ref s'" "atom_inv s"
  shows "atom_inv s' \<and> set (hash_items (ar_hash s)) \<subseteq> set (hash_items (ar_hash s')) \<and>
    (if blob_bytes b = [] then ref = apk_atom_null
     else \<exists>n \<in> set (hash_items (ar_hash s')). atom_blob n = blob_bytes b \<and> ref = Atom_at (atom_addr n))"
proof -
  obtain m al pool' where
    1: "s' = \<lparr>ar_run = record_alloc (ar_run s) m (atom_ba pool') al, ar_hash = atom_hash pool'\<rparr>"
      "apk_atomize_dup (run_pool s) b m = (ref, al, pool')" "blob_len b < 2 ^ 61"
      "alloc_ok (ar_run s) m al"
    using assms(1) by (auto elim: intern_stepE)
  have tab: "hash_table atom_ops (ar_hash s)" and dis: "keys_distinct atom_blob (ar_hash s)"
    using assms(2) by (auto simp: atom_inv_def)
  from 1(2) show ?thesis
  proof (cases rule: atomize_cases)
    case empty
    then have "s' = s" using 1(1) by (simp add: run_pool_def)
    then show ?thesis using empty assms(2) by simp
  next
    case (found n)
    then have "s' = s" using 1(1) by (simp add: run_pool_def)
    then show ?thesis using found assms(2) atom_table.get_Some [OF tab] by auto
  next
    case (fresh ptr req ba')
    let ?n = "\<lparr>atom_addr = ptr, atom_blob = blob_bytes b\<rparr>"
    let ?sz = "24 + of_nat (blob_len b) :: u64"
    have sz: "unat ?sz = 24 + blob_len b" "size_ok ?sz"
      using unat_atom_size 1(3) by (auto simp: size_ok_def)
    have h': "ar_hash s' = apk_hash_insert (ar_hash s) ?n"
      using 1(1) fresh insert_hashed_key [OF tab, of ?n b] by simp
    have bal: "balloc_inv (ar_run s')" and al: "run_allocs (ar_run s') = (ptr, unat ?sz) # run_allocs (ar_run s)"
      using 1(1,4) fresh sz(2) assms(2)
      by (cases req; auto simp: atom_inv_def intro: balloc_inv_in_page balloc_inv_new_page)+
    have items: "set (hash_items (ar_hash s')) = insert ?n (set (hash_items (ar_hash s)))"
      using hash_insert_ok(2) [of "ar_hash s" ?n] tab by (simp add: h' hash_table_def)
    have new: "atom_addr x \<noteq> ptr" if "x \<in> set (hash_items (ar_hash s))" for x
      using that assms(2) fresh_atom_addr [OF bal al, of x] sz(1) by (auto simp: atom_inv_def)
    have "table_map atom_blob (ar_hash s) (blob_bytes b) = None"
      using fresh(2) atom_table.get_is_map [OF tab, of b] by simp
    then have "hash_table atom_ops (ar_hash s')" "keys_distinct atom_blob (ar_hash s')"
      using atom_table.insert_table [OF tab, of ?n] atom_table.insert_distinct [OF tab dis, of ?n]
      by (simp_all add: h')
    moreover have "inj_on atom_addr (set (hash_items (ar_hash s')))"
      using assms(2) new by (auto simp: items atom_inv_def)
    moreover have "\<forall>n \<in> set (hash_items (ar_hash s')). \<exists>k > 0. (atom_addr n, k) \<in> set (run_allocs (ar_run s'))"
      using assms(2) sz(1) by (auto simp: items al atom_inv_def)
    ultimately show ?thesis using bal fresh items by (auto simp: atom_inv_def)
  qed
qed

lemma atom_step_inv:
  assumes "atom_step s s'" "atom_inv s"
  shows "atom_inv s' \<and> set (hash_items (ar_hash s)) \<subseteq> set (hash_items (ar_hash s'))"
  using assms
proof (induction rule: atom_step.induct)
  case (step_intern s b ref s')
  then show ?case using intern_step_spec by blast
next
  case (step_other s r')
  then show ?case
    using balloc_inv_step [OF step_other(1)] balloc_step_allocs [OF step_other(1)]
    by (auto simp: atom_inv_def) blast
qed

lemma atom_steps_inv:
  assumes "atom_step\<^sup>*\<^sup>* s s'" "atom_inv s"
  shows "atom_inv s' \<and> set (hash_items (ar_hash s)) \<subseteq> set (hash_items (ar_hash s'))"
  using assms by (induction rule: rtranclp_induct) (auto dest!: atom_step_inv)

lemma intern_again:
  assumes "atom_inv s" "n \<in> set (hash_items (ar_hash s))" "atom_blob n = blob_bytes b"
    "blob_bytes b \<noteq> []" "blob_len b < 2 ^ 61"
  shows "intern_step s b (Atom_at (atom_addr n)) s"
proof -
  have "apk_hash_get (ar_hash s) b = Some n"
    using assms atom_table.get_unique by (auto simp: atom_inv_def)
  then have "apk_atomize_dup (run_pool s) b 0 = (Atom_at (atom_addr n), None, run_pool s)"
    using assms(4)
    by (auto simp: apk_atomize_dup_def run_pool_def apk_hash_get_def blob_len_def blob_bytes_def
        Let_def split: option.splits)
  from intern [OF this assms(5)]
  have "intern_step s b (Atom_at (atom_addr n)) \<lparr>ar_run = ar_run s, ar_hash = ar_hash s\<rparr>"
    by (simp add: run_pool_def)
  moreover have "\<lparr>ar_run = ar_run s, ar_hash = ar_hash s\<rparr> = s" by (rule atom_run.equality) simp_all
  ultimately show ?thesis by simp
qed

lemma intern_first:
  assumes "apk_balloc_aligned (apk_balloc_init psz) (24 + of_nat (blob_len b)) 8 m = (ptr, req, ba')"
    "alloc_ok (balloc_start psz) m (Some (ptr, 24 + of_nat (blob_len b), req))"
    "blob_bytes b \<noteq> []" "blob_len b < 2 ^ 61"
  shows "\<exists>s'. intern_step (atom_start psz) b (Atom_at ptr) s'"
proof -
  have "apk_hash_get (ar_hash (atom_start psz)) b = None"
    using atom_table.get_is_map [OF atom_table.table_init] atom_table.map_init
    by (simp add: atom_start_def apk_atom_init_def)
  then have "\<exists>pool'. apk_atomize_dup (run_pool (atom_start psz)) b m =
      (Atom_at ptr, Some (ptr, 24 + of_nat (blob_len b), req), pool')"
    using assms(1,3)
    by (auto simp: apk_atomize_dup_def run_pool_def apk_hash_get_def blob_len_def blob_bytes_def
        Let_def sizeof_atom_hashnode_def atom_start_def balloc_start_def split: option.splits)
  moreover have "ar_run (atom_start psz) = balloc_start psz" by (simp add: atom_start_def)
  ultimately show ?thesis
    using assms(2,4) intern [of "atom_start psz" b m "Atom_at ptr"] by fastforce
qed

section \<open>Properties\<close>

text \<open>
  C32. Interned strings may be compared by address: in any run of the pool and its allocator, in
  which other allocations and interning calls may come between, two calls return the same
  reference if and only if they were given the same bytes.
\<close>

theorem atom_identity:
  assumes "size_ok psz" "atom_step\<^sup>*\<^sup>* (atom_start psz) s"
    "intern_step s a ra s1" "atom_step\<^sup>*\<^sup>* s1 s2" "intern_step s2 b rb s3"
  shows "ra = rb \<longleftrightarrow> blob_bytes a = blob_bytes b"
proof -
  have inv: "atom_inv s" using atom_steps_inv [OF assms(2)] atom_inv_start [OF assms(1)] by blast
  note s1 = intern_step_spec [OF assms(3) inv]
  then have s2: "atom_inv s2" "set (hash_items (ar_hash s1)) \<subseteq> set (hash_items (ar_hash s2))"
    using atom_steps_inv [OF assms(4)] by auto
  note s3 = intern_step_spec [OF assms(5) s2(1)]
  have inj: "inj_on atom_addr (set (hash_items (ar_hash s3)))" "keys_distinct atom_blob (ar_hash s3)"
    using s3 by (auto simp: atom_inv_def)
  have uniq: "x = y" if "x \<in> set (hash_items (ar_hash s3))" "y \<in> set (hash_items (ar_hash s3))"
    "atom_blob x = atom_blob y" for x y
    using that inj(2) by (auto simp: keys_distinct_def distinct_map dest: inj_onD)
  show ?thesis
  proof (cases "blob_bytes a = [] \<or> blob_bytes b = []")
    case True
    then show ?thesis using s1 s3 by (auto split: if_splits)
  next
    case False
    then obtain x y where xy: "x \<in> set (hash_items (ar_hash s3))" "atom_blob x = blob_bytes a"
      "ra = Atom_at (atom_addr x)" "y \<in> set (hash_items (ar_hash s3))" "atom_blob y = blob_bytes b"
      "rb = Atom_at (atom_addr y)"
      using s1 s2(2) s3 by auto
    then show ?thesis using uniq [of x y] inj_onD [OF inj(1), of x y] by auto
  qed
qed

theorem atom_identity_witness:
  "\<exists>ra rb s1 s3. intern_step (atom_start 4096) (Some ''ab'') ra s1 \<and>
     intern_step s1 (Some ''ab'') rb s3 \<and> ra = rb"
proof -
  have sz: "size_ok 4096" by (simp add: size_ok_def)
  obtain s1 where s1: "intern_step (atom_start 4096) (Some ''ab'') (Atom_at 65544) s1"
    using intern_first [of 4096 "Some ''ab''" 65536]
    by (auto simp: apk_balloc_aligned_def apk_balloc_init_def ROUND_UP_def sizeof_page_def
        blob_len_def malloc_ok_def balloc_start_def)
  have "atom_inv s1 \<and> (\<exists>n \<in> set (hash_items (ar_hash s1)). atom_blob n = ''ab'')"
    using intern_step_spec [OF s1 atom_inv_start [OF sz]] by auto
  then obtain n where "atom_inv s1" "n \<in> set (hash_items (ar_hash s1))" "atom_blob n = ''ab''" by blast
  then have "intern_step s1 (Some ''ab'') (Atom_at (atom_addr n)) s1"
    by (intro intern_again) (auto simp: blob_len_def)
  moreover from atom_identity [OF sz rtranclp.rtrancl_refl s1 rtranclp.rtrancl_refl this]
  have "Atom_at 65544 = Atom_at (atom_addr n)" by simp
  ultimately show ?thesis using s1 by blast
qed

end
