(* ===== verification/Array.thy ===== *)
theory Array
  imports Blob
begin

text \<open>
  The growable arrays of \<^verbatim>\<open>common.c\<close> and \<^verbatim>\<open>apk_defines.h\<close>, and the path builder of
  \<^verbatim>\<open>pathbuilder.c\<close>. The storage of an array is a list of slots, one per unit of capacity; a slot
  that was never written is \<open>None\<close>. The header has a 32-bit count and a 31-bit capacity. An array
  that is not marked as allocated is the shared empty array or lives in a bump allocator; it is
  never reallocated in place.
\<close>

section \<open>Arrays\<close>

record 'a apk_array =
  a_num :: nat
  a_capacity :: nat
  a_allocated :: bool
  a_item :: "'a option list"

definition apk_array_empty :: "'a apk_array" where
  "apk_array_empty = \<lparr>a_num = 0, a_capacity = 0, a_allocated = False, a_item = []\<rparr>"

definition slots_realloc :: "'a option list \<Rightarrow> nat \<Rightarrow> 'a option list" where
  "slots_realloc slots cap = take cap slots @ replicate (cap - length slots) None"

definition slots_zero :: "'a \<Rightarrow> 'a option list \<Rightarrow> nat \<Rightarrow> nat \<Rightarrow> 'a option list" where
  "slots_zero zero slots from to =
     take from slots @ replicate (to - from) (Some zero) @ drop to slots"

text \<open>The zero argument is the item whose bytes are all zero.\<close>

definition apk_array_resize :: "'a \<Rightarrow> 'a apk_array \<Rightarrow> nat \<Rightarrow> nat \<Rightarrow> 'a apk_array" where
  "apk_array_resize zero a num0 cap =
     (if cap = 0 then apk_array_empty
      else
        let num = min num0 cap;
            old_num = a_num a;
            slots = (if \<not> a_allocated a then slots_realloc [] cap
                     else if cap \<noteq> a_capacity a then slots_realloc (a_item a) cap
                     else a_item a)
        in \<lparr>a_num = num mod 2 ^ 32, a_capacity = cap mod 2 ^ 31, a_allocated = True,
            a_item = (if old_num < num then slots_zero zero slots old_num num else slots)\<rparr>)"

definition apk_array_copy :: "'a \<Rightarrow> bool \<Rightarrow> 'a apk_array \<Rightarrow> 'a apk_array \<Rightarrow> 'a apk_array" where
  "apk_array_copy zero same_array dst src =
     (if same_array then dst
      else
        let copy = apk_array_resize zero dst 0 (max (a_num src) (a_capacity dst))
        in if a_num src \<noteq> 0
           then copy\<lparr>a_item := take (a_num src) (a_item src) @ drop (a_num src) (a_item copy),
                     a_num := a_num src\<rparr>
           else copy)"

definition apk_array_grow :: "'a \<Rightarrow> 'a apk_array \<Rightarrow> 'a apk_array" where
  "apk_array_grow zero a =
     apk_array_resize zero a (a_num a) (a_capacity a + min (a_capacity a + 2) 64)"

definition apk_array_add :: "'a \<Rightarrow> 'a apk_array \<Rightarrow> 'a \<Rightarrow> 'a apk_array" where
  "apk_array_add zero a item =
     (let a1 = (if a_num a \<ge> a_capacity a then apk_array_grow zero a else a)
      in a1\<lparr>a_item := (a_item a1)[a_num a1 := Some item], a_num := a_num a1 + 1\<rparr>)"

definition apk_array_balloc :: "nat \<Rightarrow> 'a apk_array" where
  "apk_array_balloc cap =
     \<lparr>a_num = 0, a_capacity = cap mod 2 ^ 31, a_allocated = False, a_item = replicate cap None\<rparr>"

definition apk_array_bclone :: "'a apk_array \<Rightarrow> 'a apk_array" where
  "apk_array_bclone a =
     (if \<not> a_allocated a then a
      else if a_num a = 0 then apk_array_empty
      else \<lparr>a_num = a_num a, a_capacity = a_num a mod 2 ^ 31, a_allocated = False,
            a_item = take (a_num a) (a_item a)\<rparr>)"

definition apk_array_truncate :: "'a apk_array \<Rightarrow> nat \<Rightarrow> 'a apk_array outcome" where
  "apk_array_truncate a num =
     (if num \<le> a_num a then Ret (if a_num a \<noteq> num then a\<lparr>a_num := num\<rparr> else a) else Fault)"

definition apk_array_reset :: "'a apk_array \<Rightarrow> 'a apk_array outcome" where
  "apk_array_reset a = (if a_allocated a then apk_array_truncate a 0 else Ret apk_array_empty)"

definition apk_array_free :: "'a apk_array \<Rightarrow> 'a apk_array" where
  "apk_array_free a = apk_array_empty"

text \<open>\<^verbatim>\<open>strcmp\<close> compares as unsigned bytes up to the terminator.\<close>

definition apk_string_array_qsort :: "bytes \<Rightarrow> bytes \<Rightarrow> int" where
  "apk_string_array_qsort a b = memcmp (cstr a @ [NUL]) (cstr b @ [NUL])"

section \<open>Path builder\<close>

definition PATH_MAX :: nat where
  "PATH_MAX = 4096"

definition errno_ENAMETOOLONG :: int where
  "errno_ENAMETOOLONG = 36"

record apk_pathbuilder =
  pb_namelen :: nat
  pb_name :: bytes

definition buf_store :: "nat \<Rightarrow> bytes \<Rightarrow> bytes \<Rightarrow> bytes" where
  "buf_store i xs buf = take i buf @ xs @ drop (i + length xs) buf"

definition apk_pathbuilder_pushb :: "apk_pathbuilder \<Rightarrow> bytes \<Rightarrow> int \<times> apk_pathbuilder" where
  "apk_pathbuilder_pushb pb b =
     (let oldlen = pb_namelen pb; i = pb_namelen pb in
      if i + length b + 2 \<ge> PATH_MAX then (- errno_ENAMETOOLONG, pb)
      else
        let name1 = (if i \<noteq> 0 then buf_store i ''/'' (pb_name pb) else pb_name pb);
            i1 = (if i \<noteq> 0 then i + 1 else i);
            name2 = buf_store i1 b name1;
            len2 = (i1 + length b) mod 2 ^ 16
        in (int oldlen, \<lparr>pb_namelen = len2, pb_name = buf_store len2 [NUL] name2\<rparr>))"

definition apk_pathbuilder_pop :: "apk_pathbuilder \<Rightarrow> int \<Rightarrow> apk_pathbuilder" where
  "apk_pathbuilder_pop pb pos =
     (if pos < 0 then pb
      else
        let len = nat (pos mod 2 ^ 16)
        in \<lparr>pb_namelen = len, pb_name = buf_store len [NUL] (pb_name pb)\<rparr>)"

definition apk_pathbuilder_setb :: "apk_pathbuilder \<Rightarrow> bytes \<Rightarrow> int \<times> apk_pathbuilder" where
  "apk_pathbuilder_setb pb b = apk_pathbuilder_pushb (pb\<lparr>pb_namelen := 0\<rparr>) b"

definition apk_pathbuilder_push :: "apk_pathbuilder \<Rightarrow> bytes \<Rightarrow> int \<times> apk_pathbuilder" where
  "apk_pathbuilder_push pb name = apk_pathbuilder_pushb pb (cstr name)"

definition apk_pathbuilder_cstr :: "apk_pathbuilder \<Rightarrow> bytes" where
  "apk_pathbuilder_cstr pb = pb_name pb"

definition apk_pathbuilder_get :: "apk_pathbuilder \<Rightarrow> blob" where
  "apk_pathbuilder_get pb = Some (take (pb_namelen pb) (pb_name pb))"

section \<open>Lemmas\<close>

subsection \<open>Arrays\<close>

definition array_ok :: "'a apk_array \<Rightarrow> bool" where
  "array_ok a \<longleftrightarrow>
     length (a_item a) = a_capacity a \<and> a_num a \<le> a_capacity a \<and> a_capacity a < 2 ^ 31 \<and>
     (\<forall>s \<in> set (take (a_num a) (a_item a)). s \<noteq> None)"

definition array_list :: "'a apk_array \<Rightarrow> 'a list" where
  "array_list a = map the (take (a_num a) (a_item a))"

text \<open>An array whose storage may be reallocated with its contents.\<close>

definition array_growable :: "'a apk_array \<Rightarrow> bool" where
  "array_growable a \<longleftrightarrow> a_allocated a \<or> a_num a = 0"

lemma array_empty_ok [simp]: "array_ok apk_array_empty" "array_list apk_array_empty = []"
  by (simp_all add: array_ok_def array_list_def apk_array_empty_def)

lemma slots_realloc_length [simp]: "length (slots_realloc slots cap) = cap"
  by (simp add: slots_realloc_def)

lemma slots_realloc_take: "n \<le> length slots \<Longrightarrow> n \<le> cap \<Longrightarrow> take n (slots_realloc slots cap) = take n slots"
  by (simp add: slots_realloc_def)

lemma resize_spec:
  assumes "array_ok a" "array_growable a" "cap < 2 ^ 31"
  shows "array_ok (apk_array_resize zero a n cap)"
    "array_list (apk_array_resize zero a n cap) =
       take (min n cap) (array_list a) @ replicate (min n cap - a_num a) zero"
proof -
  define m where "m = min n cap"
  define old where "old = a_num a"
  define slots where "slots = (if \<not> a_allocated a then slots_realloc [] cap
    else if cap \<noteq> a_capacity a then slots_realloc (a_item a) cap else a_item a)"
  define new where "new = (if old < m then slots_zero zero slots old m else slots)"
  have mc: "m \<le> cap" by (simp add: m_def)
  have len: "length slots = cap" using assms(1) by (simp add: array_ok_def slots_def)
  have keep: "take k slots = take k (a_item a)" if "k \<le> old" "k \<le> cap" for k
    using that assms(1,2) by (auto simp: array_ok_def array_growable_def slots_realloc_take slots_def old_def)
  have tk: "take m new = take (min m old) (a_item a) @ replicate (m - old) (Some zero)"
    using len mc keep [of "min m old"] by (auto simp: new_def slots_zero_def min_def split: if_splits)
  have "set (take (min m old) (a_item a)) \<subseteq> set (take old (a_item a))"
    by (simp add: set_take_subset_set_take)
  then have init: "\<forall>s \<in> set (take m new). s \<noteq> None"
    unfolding tk using assms(1) by (auto simp: array_ok_def old_def)
  have res: "cap \<noteq> 0 \<Longrightarrow> apk_array_resize zero a n cap =
      \<lparr>a_num = m, a_capacity = cap, a_allocated = True, a_item = new\<rparr>"
    using assms(3) mc by (simp add: apk_array_resize_def Let_def flip: slots_def m_def old_def new_def)
  have lnew: "length new = cap" using len mc by (auto simp: new_def slots_zero_def)
  have "array_ok (apk_array_resize zero a n cap) \<and>
    array_list (apk_array_resize zero a n cap) = take m (array_list a) @ replicate (m - old) zero"
  proof (cases "cap = 0")
    case True
    then show ?thesis by (simp add: apk_array_resize_def m_def)
  next
    case False
    then show ?thesis
      using lnew init mc assms(3) by (simp add: res array_ok_def array_list_def tk take_map old_def)
  qed
  then show "array_ok (apk_array_resize zero a n cap)"
    "array_list (apk_array_resize zero a n cap) =
       take (min n cap) (array_list a) @ replicate (min n cap - a_num a) zero"
    by (auto simp: m_def old_def)
qed

lemma array_list_length: "array_ok a \<Longrightarrow> length (array_list a) = a_num a"
  by (simp add: array_ok_def array_list_def)

lemma add_spec:
  assumes "array_ok a" "a_num a < a_capacity a \<or> array_growable a" "a_capacity a + 64 < 2 ^ 31"
  shows "array_ok (apk_array_add zero a x)" "array_list (apk_array_add zero a x) = array_list a @ [x]"
proof -
  let ?a = "if a_num a \<ge> a_capacity a then apk_array_grow zero a else a"
  have "array_ok ?a \<and> array_list ?a = array_list a \<and> a_num ?a < a_capacity ?a"
  proof (cases "a_num a \<ge> a_capacity a")
    case True
    let ?cap = "a_capacity a + min (a_capacity a + 2) 64"
    have g: "array_growable a" "?cap < 2 ^ 31" using assms True by auto
    have n: "a_num (apk_array_grow zero a) = a_num a" "a_capacity (apk_array_grow zero a) = ?cap"
      using assms by (simp_all add: apk_array_grow_def apk_array_resize_def Let_def array_ok_def)
    have "array_list (apk_array_grow zero a) = array_list a"
      using resize_spec(2) [OF assms(1) g, of zero "a_num a"] assms(1) array_list_length [OF assms(1)]
      by (simp add: apk_array_grow_def array_ok_def)
    then show ?thesis
      using True n resize_spec(1) [OF assms(1) g, of zero "a_num a"] assms(1)
      by (simp add: apk_array_grow_def array_ok_def)
  qed (use assms in simp)
  then have ok: "array_ok ?a" "array_list ?a = array_list a" "a_num ?a < a_capacity ?a" by auto
  have res: "apk_array_add zero a x = ?a\<lparr>a_item := (a_item ?a)[a_num ?a := Some x], a_num := a_num ?a + 1\<rparr>"
    by (simp add: apk_array_add_def Let_def)
  have tk: "take (a_num ?a + 1) ((a_item ?a)[a_num ?a := Some x]) = take (a_num ?a) (a_item ?a) @ [Some x]"
    using ok by (simp add: array_ok_def take_Suc_conv_app_nth)
  show "array_ok (apk_array_add zero a x)"
    unfolding res using ok tk by (auto simp: array_ok_def)
  have "array_list (apk_array_add zero a x) = array_list ?a @ [x]"
    unfolding res array_list_def using tk by simp
  then show "array_list (apk_array_add zero a x) = array_list a @ [x]" using ok by simp
qed

lemma bclone_spec:
  "array_ok a \<Longrightarrow> array_ok (apk_array_bclone a) \<and> array_list (apk_array_bclone a) = array_list a"
  by (auto simp: apk_array_bclone_def array_ok_def array_list_def apk_array_empty_def)

lemma truncate_spec:
  assumes "array_ok a" "apk_array_truncate a n = Ret b"
  shows "array_ok b \<and> array_list b = take n (array_list a)"
proof -
  have n: "n \<le> a_num a" and b: "b = a\<lparr>a_num := n\<rparr>"
    using assms(2) by (auto simp: apk_array_truncate_def split: if_splits)
  have "set (take n (a_item a)) \<subseteq> set (take (a_num a) (a_item a))"
    using n by (rule set_take_subset_set_take)
  then show ?thesis using assms(1) n by (auto simp: b array_ok_def array_list_def take_map)
qed

lemma copy_spec:
  assumes "array_ok dst" "array_ok src"
  shows "array_ok (apk_array_copy zero False dst src) \<and>
    array_list (apk_array_copy zero False dst src) = array_list src"
proof -
  let ?cap = "max (a_num src) (a_capacity dst)"
  let ?c = "apk_array_resize zero dst 0 ?cap"
  have cap: "?cap < 2 ^ 31" using assms by (auto simp: array_ok_def)
  show ?thesis
  proof (cases "?cap = 0")
    case True
    then show ?thesis
      by (simp add: apk_array_copy_def apk_array_resize_def Let_def array_list_def apk_array_empty_def array_ok_def)
  next
    case False
    have c: "a_num ?c = 0" "a_capacity ?c = ?cap" "length (a_item ?c) = ?cap"
      using False cap assms(1)
      by (auto simp: apk_array_resize_def Let_def array_ok_def simp del: max_less_iff_conj)
    then show ?thesis
      using assms(2) cap
      by (auto simp: apk_array_copy_def Let_def array_ok_def array_list_def)
  qed
qed

subsection \<open>Path builder\<close>

definition pb_ok :: "apk_pathbuilder \<Rightarrow> bool" where
  "pb_ok pb \<longleftrightarrow> length (pb_name pb) = PATH_MAX \<and> pb_namelen pb + 1 < PATH_MAX \<and>
     pb_name pb ! pb_namelen pb = NUL"

lemma buf_store_length [simp]:
  "i + length xs \<le> length buf \<Longrightarrow> length (buf_store i xs buf) = length buf"
  by (simp add: buf_store_def)

lemma take_buf_store:
  "i + length xs \<le> length buf \<Longrightarrow> take (i + length xs) (buf_store i xs buf) = take i buf @ xs"
  by (simp add: buf_store_def)

lemma take_buf_store_low: "n \<le> i \<Longrightarrow> i \<le> length buf \<Longrightarrow> take n (buf_store i xs buf) = take n buf"
  by (simp add: buf_store_def)

lemma nth_buf_store: "i < length buf \<Longrightarrow> buf_store i [c] buf ! i = c"
  by (simp add: buf_store_def nth_append)

lemma pushb_spec:
  assumes "pb_ok pb" "pb_namelen pb + length b + 2 < PATH_MAX"
  shows "\<exists>pb'. apk_pathbuilder_pushb pb b = (int (pb_namelen pb), pb') \<and> pb_ok pb' \<and>
    blob_bytes (apk_pathbuilder_get pb') =
      (if pb_namelen pb = 0 then b else blob_bytes (apk_pathbuilder_get pb) @ ''/'' @ b) \<and>
    take (pb_namelen pb) (pb_name pb') = take (pb_namelen pb) (pb_name pb)"
proof -
  let ?i = "pb_namelen pb" and ?buf = "pb_name pb"
  define name1 where "name1 = (if ?i \<noteq> 0 then buf_store ?i ''/'' ?buf else ?buf)"
  define i1 where "i1 = (if ?i \<noteq> 0 then ?i + 1 else ?i)"
  define name2 where "name2 = buf_store i1 b name1"
  have len: "length ?buf = 4096" and lim: "i1 + length b + 1 < 4096"
    using assms by (auto simp: pb_ok_def PATH_MAX_def i1_def)
  have n1: "length name1 = 4096" "take i1 name1 = (if ?i = 0 then [] else take ?i ?buf @ ''/'')"
    "take ?i name1 = take ?i ?buf"
    using len lim take_buf_store [of ?i "''/''" ?buf]
    by (auto simp: name1_def i1_def take_buf_store_low split: if_splits)
  have n2: "length name2 = 4096" "take (i1 + length b) name2 = take i1 name1 @ b"
    "take ?i name2 = take ?i ?buf"
    using n1 lim take_buf_store [of i1 b name1] take_buf_store_low [of ?i i1 name1 b]
    by (auto simp: name2_def i1_def)
  let ?pb = "\<lparr>pb_namelen = i1 + length b, pb_name = buf_store (i1 + length b) [NUL] name2\<rparr>"
  have "apk_pathbuilder_pushb pb b = (int ?i, ?pb)"
    using assms(2) lim
    by (simp add: apk_pathbuilder_pushb_def Let_def PATH_MAX_def name1_def name2_def i1_def)
  moreover have "pb_ok ?pb"
    using n2 lim by (simp add: pb_ok_def PATH_MAX_def nth_buf_store)
  moreover have "blob_bytes (apk_pathbuilder_get ?pb) =
      (if ?i = 0 then b else blob_bytes (apk_pathbuilder_get pb) @ ''/'' @ b)"
    using n1 n2 lim by (simp add: apk_pathbuilder_get_def take_buf_store_low)
  moreover have "take ?i (pb_name ?pb) = take ?i ?buf"
    using n2 lim by (simp add: take_buf_store_low i1_def)
  ultimately show ?thesis by blast
qed

section \<open>Properties\<close>

text \<open>
  Appending to an array keeps the contents and adds the item at the end, whether or not the
  storage has to grow, as long as the array owns its storage or has room.
\<close>

lemma array_add_appends:
  assumes "array_ok a" "a_num a < a_capacity a \<or> array_growable a" "a_capacity a + 64 < 2 ^ 31"
  shows "array_ok (apk_array_add zero a x) \<and>
    array_list (apk_array_add zero a x) = array_list a @ [x]"
  using add_spec [OF assms] by blast

lemma array_add_appends_witness:
  "array_list (apk_array_add 0 (apk_array_add 0 apk_array_empty 5) (7::nat)) = [5, 7]"
proof -
  have two: "replicate 2 y = [y, y]" for y :: "nat option" by (simp add: numeral_2_eq_2)
  have "apk_array_add 0 apk_array_empty (5::nat) =
      \<lparr>a_num = 1, a_capacity = 2, a_allocated = True, a_item = [Some 5, None]\<rparr>"
    by (simp add: apk_array_add_def apk_array_grow_def apk_array_resize_def apk_array_empty_def
        slots_realloc_def Let_def two)
  then show ?thesis
    using array_add_appends [of "apk_array_add 0 apk_array_empty (5::nat)" 0 7]
    by (simp add: array_ok_def array_list_def)
qed

text \<open>
  An array that was cloned into a bump allocator is full and does not own its storage:
  appending to it allocates fresh storage without copying, so that every old item is lost.
\<close>

lemma array_add_after_bclone:
  assumes "array_ok a" "a_allocated a" "0 < a_num a" "a_capacity a + 64 < 2 ^ 31"
  shows "array_list (apk_array_bclone a) = array_list a \<and>
    (\<forall>i < a_num a. a_item (apk_array_add zero (apk_array_bclone a) x) ! i = None)"
proof -
  let ?b = "apk_array_bclone a"
  have b: "a_num ?b = a_num a" "a_capacity ?b = a_num a" "\<not> a_allocated ?b"
    using assms by (auto simp: apk_array_bclone_def array_ok_def)
  have "a_item (apk_array_grow zero ?b) ! i = None" if "i < a_num a" for i
  proof -
    have "a_item (apk_array_grow zero ?b) = replicate (a_num a + min (a_num a + 2) 64) None"
      using b unfolding apk_array_grow_def apk_array_resize_def by (auto simp: Let_def slots_realloc_def)
    then show ?thesis using that nth_replicate by (metis trans_less_add1)
  qed
  moreover have "a_num (apk_array_grow zero ?b) = a_num a"
    using b assms by (simp add: apk_array_grow_def apk_array_resize_def Let_def array_ok_def)
  ultimately show ?thesis
    using b assms bclone_spec [OF assms(1)] by (simp add: apk_array_add_def Let_def)
qed

lemma array_add_after_bclone_witness:
  "a_item (apk_array_add 0 (apk_array_bclone
     \<lparr>a_num = 1, a_capacity = 2, a_allocated = True, a_item = [Some (5::nat), None]\<rparr>) 7) ! 0 = None"
  using array_add_after_bclone
    [of "\<lparr>a_num = 1, a_capacity = 2, a_allocated = True, a_item = [Some (5::nat), None]\<rparr>" 0 7]
  by (simp add: array_ok_def)

text \<open>
  Pushing a component on a path that has room appends it behind a slash (nothing is put in
  front of the first one), keeps the buffer terminated, and popping with the returned position
  restores the old path; a component that does not fit is refused and changes nothing.
\<close>

lemma pathbuilder_push_pop:
  assumes "pb_ok pb" "apk_pathbuilder_pushb pb b = (r, pb')"
  shows "if pb_namelen pb + length b + 2 < PATH_MAX
    then pb_ok pb' \<and>
      blob_bytes (apk_pathbuilder_get pb') =
        (if pb_namelen pb = 0 then b else blob_bytes (apk_pathbuilder_get pb) @ ''/'' @ b) \<and>
      pb_ok (apk_pathbuilder_pop pb' r) \<and>
      apk_pathbuilder_get (apk_pathbuilder_pop pb' r) = apk_pathbuilder_get pb
    else r = - errno_ENAMETOOLONG \<and> pb' = pb \<and> apk_pathbuilder_pop pb' r = pb"
proof (cases "pb_namelen pb + length b + 2 < PATH_MAX")
  case True
  then have r: "r = int (pb_namelen pb)" and ok: "pb_ok pb'"
    and get: "blob_bytes (apk_pathbuilder_get pb') =
      (if pb_namelen pb = 0 then b else blob_bytes (apk_pathbuilder_get pb) @ ''/'' @ b)"
    and keep: "take (pb_namelen pb) (pb_name pb') = take (pb_namelen pb) (pb_name pb)"
    using pushb_spec [OF assms(1) True] assms(2) by auto
  have n: "pb_namelen pb + 1 < 4096" "length (pb_name pb') = 4096"
    using assms(1) ok by (auto simp: pb_ok_def PATH_MAX_def)
  then have "apk_pathbuilder_pop pb' r =
      \<lparr>pb_namelen = pb_namelen pb, pb_name = buf_store (pb_namelen pb) [NUL] (pb_name pb')\<rparr>"
    by (simp add: r apk_pathbuilder_pop_def Let_def nat_mod_distrib)
  then show ?thesis
    using True ok get keep n
    by (simp add: pb_ok_def PATH_MAX_def nth_buf_store apk_pathbuilder_get_def take_buf_store_low)
next
  case False
  then show ?thesis
    using assms(2) by (auto simp: apk_pathbuilder_pushb_def apk_pathbuilder_pop_def Let_def errno_ENAMETOOLONG_def)
qed

lemma pathbuilder_push_pop_witness:
  "case apk_pathbuilder_pushb \<lparr>pb_namelen = 0, pb_name = replicate 4096 NUL\<rparr> ''etc'' of
     (r, pb') \<Rightarrow> blob_bytes (apk_pathbuilder_get pb') = ''etc'' \<and>
       blob_bytes (apk_pathbuilder_get (apk_pathbuilder_pop pb' r)) = []"
proof -
  let ?pb = "\<lparr>pb_namelen = 0, pb_name = replicate 4096 NUL\<rparr>"
  obtain r pb' where p: "apk_pathbuilder_pushb ?pb ''etc'' = (r, pb')" by fastforce
  have "pb_ok ?pb" by (simp add: pb_ok_def PATH_MAX_def)
  from pathbuilder_push_pop [OF this p] p show ?thesis
    by (simp add: PATH_MAX_def apk_pathbuilder_get_def)
qed

end
