(* ===== verification/Subst.thy ===== *)
theory Subst
  imports Codec
begin

text \<open>
  \<^verbatim>\<open>apk_blob_subst\<close>: the expansion of \<open>${name}\<close> and \<open>${name:limit}\<close> in a format, into a buffer of
  a given size. It is used for repository lines, cache file names and package file names.

  The limit is added to the write pointer, and the pointer is compared with the sum. The model
  takes the address of the buffer: when the addition leaves the address space the pointer is
  moved in front of the buffer, which is the outcome \<open>Fault\<close>.
\<close>

section \<open>Definitions\<close>

text \<open>
  A variable resolver appends the value of the key to the blob that is left of the buffer, or
  returns an error.
\<close>

type_synonym resolver = "blob \<Rightarrow> wblob \<Rightarrow> apk_error option \<times> wblob"

definition wblob_pos :: "wblob \<Rightarrow> nat" where
  "wblob_pos w = (case w of None \<Rightarrow> 0 | Some (done, _) \<Rightarrow> length done)"

text \<open>
  The key of a \<open>${...}\<close> and the position that the value may not write beyond: without a limit the
  end of the buffer. The inner result is the error, or the key with the position.
\<close>

definition subst_key :: "nat \<Rightarrow> wblob \<Rightarrow> blob \<Rightarrow> (apk_error + blob \<times> nat) outcome" where
  "subst_key base to key =
     (case apk_blob_split key (Some '':'') of
        None \<Rightarrow> Ret (Inr (key, wblob_pos to + (case to of None \<Rightarrow> 0 | Some (_, room) \<Rightarrow> room)))
      | Some (key', len) \<Rightarrow>
          (case apk_blob_pull_uint len 10 of
             (n, len') \<Rightarrow>
               if blob_len len' \<noteq> 0 then Ret (Inl APKE_FORMAT_INVALID)
               else if base + wblob_pos to + unat n \<ge> 2 ^ 64 then Fault
               else Ret (Inr (key', wblob_pos to + unat n))))"

definition subst_rewind :: "wblob \<Rightarrow> nat \<Rightarrow> wblob" where
  "subst_rewind to max_advance =
     (case to of
        None \<Rightarrow> None
      | Some (done, room) \<Rightarrow>
          if length done > max_advance
          then Some (take max_advance done, room + (length done - max_advance))
          else Some (done, room))"

function subst_loop :: "nat \<Rightarrow> resolver \<Rightarrow> wblob \<Rightarrow> blob \<Rightarrow> (apk_error + bytes) outcome" where
  "subst_loop base res to fmt =
     (case apk_blob_split fmt (Some ''${'') of
        None \<Rightarrow>
          (case apk_blob_push_blob (apk_blob_push_blob to fmt) (Some [NUL]) of
             None \<Rightarrow> Ret (Inl ENOBUFS)
           | Some (done, room) \<Rightarrow> Ret (Inr (butlast done)))
      | Some (pre, key) \<Rightarrow>
          let to = apk_blob_push_blob to pre in
          if to = None then Ret (Inl ENOBUFS)
          else
            case apk_blob_split key (Some ''}'') of
              None \<Rightarrow> Ret (Inl APKE_FORMAT_INVALID)
            | Some (key, fmt') \<Rightarrow>
               (case subst_key base to key of
                  Fault \<Rightarrow> Fault
                | Ret (Inl e) \<Rightarrow> Ret (Inl e)
                | Ret (Inr (key, max_advance)) \<Rightarrow>
                   (case res key to of
                      (Some e, _) \<Rightarrow> Ret (Inl e)
                    | (None, to) \<Rightarrow> subst_loop base res (subst_rewind to max_advance) fmt')))"
  by pat_completeness auto
termination
proof (relation "measure (\<lambda>(base, res, to, fmt). blob_len fmt)")
  fix base res to fmt x2 pre key y z zz x2a key' fmt'
  assume "apk_blob_split fmt (Some ''${'') = Some x2" "(pre, key) = x2"
    "apk_blob_split key (Some ''}'') = Some x2a" "(key', fmt') = x2a"
  then show "((base, res, z, fmt'), base, res, to, fmt) \<in> measure (\<lambda>(base, res, to, fmt). blob_len fmt)" for z
    using apk_blob_split_shorter [of fmt "Some ''${''" pre key]
      apk_blob_split_shorter [of key "Some ''}''" key' fmt'] by auto
qed auto

declare subst_loop.simps [simp del]

text \<open>The text that is stored in the buffer in front of its terminator, or an error.\<close>

definition apk_blob_subst :: "nat \<Rightarrow> nat \<Rightarrow> blob \<Rightarrow> resolver \<Rightarrow> (apk_error + bytes) outcome" where
  "apk_blob_subst base sz fmt res = subst_loop base res (Some ([], sz)) fmt"

section \<open>Reference\<close>

text \<open>A format as a list of literal text and variables with an optional limit.\<close>

datatype seg = Lit bytes | Var bytes "nat option"

fun seg_text :: "seg \<Rightarrow> bytes" where
  "seg_text (Lit s) = s"
| "seg_text (Var k None) = ''${'' @ k @ ''}''"
| "seg_text (Var k (Some n)) = ''${'' @ k @ '':'' @ uint_digits 10 n @ ''}''"

fun seg_full :: "(bytes \<Rightarrow> bytes) \<Rightarrow> seg \<Rightarrow> bytes" where
  "seg_full val (Lit s) = s"
| "seg_full val (Var k _) = val k"

fun seg_value :: "(bytes \<Rightarrow> bytes) \<Rightarrow> seg \<Rightarrow> bytes" where
  "seg_value val (Var k (Some n)) = take n (val k)"
| "seg_value val s = seg_full val s"

text \<open>Literals without dollar signs, names that end where the syntax says, limits that fit.\<close>

fun seg_ok :: "nat \<Rightarrow> seg \<Rightarrow> bool" where
  "seg_ok lim (Lit s) \<longleftrightarrow> CHR ''$'' \<notin> set s"
| "seg_ok lim (Var k None) \<longleftrightarrow> CHR ''}'' \<notin> set k \<and> CHR '':'' \<notin> set k"
| "seg_ok lim (Var k (Some n)) \<longleftrightarrow> CHR ''}'' \<notin> set k \<and> CHR '':'' \<notin> set k \<and> n < lim"

definition push_value :: "(bytes \<Rightarrow> bytes) \<Rightarrow> resolver" where
  "push_value val key to = (None, apk_blob_push_blob to (Some (val (blob_bytes key))))"

section \<open>Lemmas\<close>

lemma memmem_dollar: "CHR ''$'' \<notin> set l \<Longrightarrow> memmem (l @ ''${'' @ r) ''${'' = Some (length l)"
  by (induction l) (auto simp: memmem.simps)

lemma memmem_dollar_None: "CHR ''$'' \<notin> set l \<Longrightarrow> memmem l ''${'' = None"
  by (induction l) (auto simp: memmem.simps)

lemma split_dollar:
  "CHR ''$'' \<notin> set l \<Longrightarrow> apk_blob_split (Some (l @ ''${'' @ r)) (Some ''${'') = Some (Some l, Some r)"
  using memmem_dollar [of l r] by (simp add: apk_blob_split_Some)

lemma split_char_at:
  "c \<notin> set k \<Longrightarrow> apk_blob_split (Some (k @ c # r)) (Some [c]) = Some (Some k, Some r)"
  by (auto simp: apk_blob_split_char takeWhile_append dropWhile_append)

lemma uint_digits_brace: "CHR ''}'' \<notin> set (uint_digits 10 n)"
  using uint_digits_dx [of 10 "CHR ''}''" n] by (auto simp: dx_eq_spec dx_spec_def)

lemma subst_key_plain:
  "CHR '':'' \<notin> set k \<Longrightarrow> subst_key base (Some (d, room)) (Some k) = Ret (Inr (Some k, length d + room))"
  by (simp add: subst_key_def wblob_pos_def apk_blob_split_char)

lemma subst_key_limit:
  assumes "CHR '':'' \<notin> set k" "base + length d + n < 2 ^ 64"
  shows "subst_key base (Some (d, room)) (Some (k @ CHR '':'' # uint_digits 10 n)) =
    Ret (Inr (Some k, length d + n))"
proof -
  have "n < 2 ^ 64" using assms(2) by linarith
  then have "unat (word_of_nat n :: u64) = n" by (simp add: unat_of_nat)
  then show ?thesis
    using assms pull_uint_digits [of 10 "[]" n]
    by (simp add: subst_key_def split_char_at wblob_pos_def blob_len_def)
qed

lemma subst_loop_segs:
  assumes "\<forall>s \<in> set segs. seg_ok lim s" "base + lim + sz \<le> 2 ^ 64"
    "CHR ''$'' \<notin> set l" "length d + room = sz"
    "length l + length (concat (map (seg_full val) segs)) < room"
  shows "subst_loop base (push_value val) (Some (d, room)) (Some (l @ concat (map seg_text segs))) =
    Ret (Inr (d @ l @ concat (map (seg_value val) segs)))"
  using assms
proof (induction segs arbitrary: l d room)
  case Nil
  then show ?case
    by (subst subst_loop.simps)
      (auto simp: apk_blob_split_None [THEN iffD2] memmem_dollar_None apk_blob_push_blob_def
        blob_len_def butlast_append)
next
  case (Cons s segs)
  show ?case
  proof (cases s)
    case (Lit t)
    then show ?thesis using Cons.IH [of "l @ t" d room] Cons.prems by simp
  next
    case (Var k olim)
    define max where "max = (case olim of None \<Rightarrow> sz | Some n \<Rightarrow> length (d @ l) + n)"
    define key where "key = (case olim of None \<Rightarrow> k | Some n \<Rightarrow> k @ CHR '':'' # uint_digits 10 n)"
    define rest where "rest = concat (map seg_text segs)"
    have fmt: "l @ concat (map seg_text (s # segs)) = l @ ''${'' @ key @ CHR ''}'' # rest"
      using Var by (auto simp: key_def rest_def split: option.splits)
    have brace: "CHR ''}'' \<notin> set key"
      using Cons.prems(1) Var uint_digits_brace by (auto simp: key_def split: option.splits)
    have to: "apk_blob_push_blob (Some (d, room)) (Some l) = Some (d @ l, room - length l)"
      using Cons.prems by (simp add: apk_blob_push_blob_def blob_len_def)
    have kk: "subst_key base (Some (d @ l, room - length l)) (Some key) = Ret (Inr (Some k, max))"
    proof (cases olim)
      case None
      then show ?thesis
        using Cons.prems Var subst_key_plain [of k base "d @ l" "room - length l"]
        by (simp add: key_def max_def)
    next
      case (Some n)
      have "base + length (d @ l) + n < 2 ^ 64" using Cons.prems Some Var by auto
      then show ?thesis
        using Some Cons.prems Var subst_key_limit [of k base "d @ l" n "room - length l"]
        by (simp add: key_def max_def)
    qed
    have room: "length (val k) \<le> room - length l" using Cons.prems Var by simp
    define d' where "d' = d @ l @ seg_value val s"
    define room' where "room' = sz - length d'"
    have len: "length (seg_value val s) \<le> length (val k)" using Var by (cases olim) auto
    have rw: "subst_rewind (Some (d @ l @ val k, room - length l - length (val k))) max = Some (d', room')"
      using Cons.prems(4,5) Var
      by (cases olim) (auto simp: subst_rewind_def max_def d'_def room'_def)
    have "subst_loop base (push_value val) (Some (d', room')) (Some ([] @ rest)) =
        Ret (Inr (d' @ [] @ concat (map (seg_value val) segs)))"
      unfolding rest_def
    proof (rule Cons.IH)
      show "length d' + room' = sz" using Cons.prems(4,5) len Var by (simp add: d'_def room'_def)
      show "length [] + length (concat (map (seg_full val) segs)) < room'"
        using Cons.prems(4,5) len Var by (simp add: d'_def room'_def)
    qed (use Cons.prems in auto)
    then show ?thesis
      using room rw Cons.prems(5)
      by (subst subst_loop.simps, unfold fmt)
        (simp add: split_dollar [OF Cons.prems(3), simplified] to split_char_at brace kk push_value_def
          apk_blob_push_blob_simps blob_len_def d'_def)
  qed
qed

text \<open>A resolver that only appends to the buffer.\<close>

definition resolver_ok :: "nat \<Rightarrow> resolver \<Rightarrow> bool" where
  "resolver_ok sz res \<longleftrightarrow> (\<forall>key to. wblob_ok sz to \<longrightarrow> wblob_ok sz (snd (res key to)))"

lemma subst_rewind_ok: "wblob_ok sz to \<Longrightarrow> wblob_ok sz (subst_rewind to m)"
  by (auto simp: wblob_ok_def subst_rewind_def split: option.splits)

lemma subst_loop_fits:
  assumes "resolver_ok sz res" "wblob_ok sz to" "subst_loop base res to fmt = Ret (Inr out)"
  shows "length out < sz"
  using assms
proof (induction base res to fmt rule: subst_loop.induct)
  case (1 base res to fmt)
  show ?case
  proof (cases "apk_blob_split fmt (Some ''${'')")
    case None
    then obtain d r where p: "apk_blob_push_blob (apk_blob_push_blob to fmt) (Some [NUL]) = Some (d, r)"
      and out: "out = butlast d"
      using "1.prems"(3) by (subst (asm) subst_loop.simps) (auto split: option.splits)
    have "wblob_ok sz (Some (d, r))" using p "1.prems"(2) wblob_ok_push_blob by metis
    moreover have "d \<noteq> []" using p by (auto simp: push_blob_Some)
    ultimately show ?thesis by (cases d rule: rev_cases) (auto simp: out wblob_ok_def)
  next
    case (Some pk)
    obtain pre key where pk: "pk = (pre, key)" by fastforce
    define to1 where "to1 = apk_blob_push_blob to pre"
    have unfold1: "subst_loop base res to fmt = (if to1 = None then Ret (Inl ENOBUFS)
      else case apk_blob_split key (Some ''}'') of
              None \<Rightarrow> Ret (Inl APKE_FORMAT_INVALID)
            | Some (key, fmt') \<Rightarrow>
               (case subst_key base to1 key of
                  Fault \<Rightarrow> Fault
                | Ret (Inl e) \<Rightarrow> Ret (Inl e)
                | Ret (Inr (key, max_advance)) \<Rightarrow>
                   (case res key to1 of
                      (Some e, _) \<Rightarrow> Ret (Inl e)
                    | (None, to) \<Rightarrow> subst_loop base res (subst_rewind to max_advance) fmt')))"
      by (subst subst_loop.simps) (simp only: Some pk to1_def [symmetric] Let_def option.case prod.case)
    from "1.prems"(3) obtain key2 fmt2 key3 max to3 where steps: "to1 \<noteq> None"
      "apk_blob_split key (Some ''}'') = Some (key2, fmt2)"
      "subst_key base to1 key2 = Ret (Inr (key3, max))" "res key3 to1 = (None, to3)"
      "subst_loop base res (subst_rewind to3 max) fmt2 = Ret (Inr out)"
      unfolding unfold1
      by (auto split: if_splits option.splits outcome.splits sum.splits prod.splits)
    have "wblob_ok sz to1" using "1.prems"(2) by (simp add: to1_def wblob_ok_push_blob)
    then have "wblob_ok sz (snd (res key3 to1))"
      using "1.prems"(1) by (auto simp: resolver_ok_def)
    then have "wblob_ok sz (subst_rewind to3 max)" using steps(4) by (simp add: subst_rewind_ok)
    with "1.IH" [OF Some pk [symmetric] to1_def steps(1,2) refl steps(3) refl refl steps(4) [symmetric] refl
      "1.prems"(1) _ steps(5)]
    show ?thesis by simp
  qed
qed

section \<open>Properties\<close>

text \<open>
  Expanding a well-formed format whose untruncated text fits the buffer gives the literal text
  and the values of the variables, each cut to its limit.
\<close>

lemma subst_expands:
  assumes "\<forall>s \<in> set segs. seg_ok lim s" "base + lim + sz \<le> 2 ^ 64"
    "length (concat (map (seg_full val) segs)) < sz"
  shows "apk_blob_subst base sz (Some (concat (map seg_text segs))) (push_value val) =
    Ret (Inr (concat (map (seg_value val) segs)))"
  using subst_loop_segs [of segs lim base sz "[]" "[]" sz val] assms
  by (simp add: apk_blob_subst_def)

lemma subst_expands_witness:
  "apk_blob_subst 4096 64 (Some ''APKINDEX.${hash:8}.tar.gz'') (push_value (\<lambda>_. ''0123456789abcdef'')) =
     Ret (Inr ''APKINDEX.01234567.tar.gz'')"
proof -
  have "uint_digits 10 8 = ''8''"
    by (simp add: uint_digits.simps xd_def)
  then show ?thesis
    using subst_expands [of "[Lit ''APKINDEX.'', Var ''hash'' (Some 8), Lit ''.tar.gz'']" 9 4096 64
        "\<lambda>_. ''0123456789abcdef''"]
    by simp
qed

text \<open>
  Whatever the format and the resolver, a result always fits the buffer together with its
  terminator, as long as the resolver itself only writes into the buffer it is given.
\<close>

lemma subst_fits_buffer:
  assumes "resolver_ok sz res" "apk_blob_subst base sz fmt res = Ret (Inr out)"
  shows "length out < sz"
  using subst_loop_fits [OF assms(1), of "Some ([], sz)" base fmt out] assms(2)
  by (simp add: apk_blob_subst_def wblob_ok_def)

lemma subst_fits_buffer_witness:
  "case apk_blob_subst 0 3 (Some ''ab'') (push_value id) of Ret (Inr out) \<Rightarrow> length out < 3 | _ \<Rightarrow> False"
proof -
  have "resolver_ok 3 (push_value id)"
    by (simp add: resolver_ok_def push_value_def wblob_ok_push_blob)
  moreover have "apk_blob_subst 0 3 (Some ''ab'') (push_value id) = Ret (Inr ''ab'')"
    using subst_loop_segs [of "[Lit ''ab'']" 0 0 3 "[]" "[]" 3 id] by (simp add: apk_blob_subst_def)
  ultimately show ?thesis using subst_fits_buffer [of 3 "push_value id" 0 "Some ''ab''" "''ab''"] by simp
qed

text \<open>
  A limit near the top of the address space moves the write pointer in front of the buffer: for
  every buffer at an address above zero there is a format that a caller may pass and on which
  the function runs out of its buffer.
\<close>

lemma subst_limit_wraps:
  "0 < base \<Longrightarrow> base < 2 ^ 64 \<Longrightarrow>
   \<exists>fmt. apk_blob_subst base sz (Some fmt) res = Fault"
proof -
  assume b: "0 < base" "base < 2 ^ 64"
  define n where "n = 2 ^ 64 - base"
  let ?fmt = "''${'' @ (''a:'' @ uint_digits 10 n) @ CHR ''}'' # []"
  have n: "n < 2 ^ 64" "base + n = 2 ^ 64" using b by (simp_all add: n_def)
  then have "unat (word_of_nat n :: u64) = n" by (simp add: unat_of_nat)
  then have "subst_key base (Some ([], sz)) (Some (''a:'' @ uint_digits 10 n)) = Fault"
    using n pull_uint_digits [of 10 "[]" n] split_char_at [of "CHR '':''" "''a''" "uint_digits 10 n"]
    by (simp add: subst_key_def wblob_pos_def blob_len_def)
  then have "apk_blob_subst base sz (Some ?fmt) res = Fault"
    using split_dollar [of "[]" "(''a:'' @ uint_digits 10 n) @ CHR ''}'' # []"]
      split_char_at [of "CHR ''}''" "''a:'' @ uint_digits 10 n" "[]"] uint_digits_brace
    by (simp add: apk_blob_subst_def)
      (subst subst_loop.simps, simp add: apk_blob_push_blob_def blob_len_def)
  then show ?thesis by blast
qed

lemma subst_limit_wraps_witness:
  "\<exists>fmt. apk_blob_subst 140737488351232 4096 (Some fmt) (push_value id) = Fault"
  by (rule subst_limit_wraps) simp_all

end
