(* ===== verification/Repoparser.thy ===== *)
theory Repoparser
  imports Subst Hash Array Ctype
begin

text \<open>
  The repository file parser of \<^verbatim>\<open>repoparser.c\<close>: variables in a hash table, the \<^verbatim>\<open>set\<close> keyword, and
  repository lines with an optional keyword, an optional tag, a URL and components. Warnings are
  not modelled. The callback that receives the repositories is an argument with its own state.
\<close>

section \<open>Variables\<close>

definition APK_VARF_OVERWRITE :: u8 where "APK_VARF_OVERWRITE = 1"
definition APK_VARF_READONLY :: u8 where "APK_VARF_READONLY = 2"

text \<open>The key is copied in full, but its length is kept in one byte.\<close>

record apk_variable =
  var_value :: blob
  var_flags :: u8
  var_keylen :: nat
  var_key :: bytes

definition variable_hash_get_key :: "apk_variable \<Rightarrow> blob" where
  "variable_hash_get_key var = Some (take (var_keylen var) (var_key var))"

definition variable_ops :: "(apk_variable, blob) apk_hash_ops" where
  "variable_ops =
     \<lparr>get_key = variable_hash_get_key, hash_key = apk_blob_hash, hash_item = None,
      compare = apk_blob_compare, compare_item = None, delete_item = True\<rparr>"

type_synonym variables = "(apk_variable, blob) apk_hash"

text \<open>The boolean is the success of \<^verbatim>\<open>malloc\<close>.\<close>

definition apk_variable_set ::
  "bool \<Rightarrow> variables \<Rightarrow> blob \<Rightarrow> blob \<Rightarrow> u8 \<Rightarrow> apk_error option \<times> variables" where
  "apk_variable_set malloc_ok vars key value flags =
     (let hash = apk_hash_from_key vars key in
      case apk_hash_get_hashed vars key hash of
        None \<Rightarrow>
          if \<not> malloc_ok then (Some ENOMEM, vars)
          else
            (None, apk_hash_insert_hashed vars
               \<lparr>var_value = apk_blob_dup value, var_flags = flags,
                var_keylen = blob_len key mod 2 ^ 8, var_key = blob_bytes key\<rparr> hash)
      | Some var \<Rightarrow>
          if flags AND APK_VARF_OVERWRITE = 0 then (None, vars)
          else if var_flags var AND APK_VARF_READONLY \<noteq> 0 then (None, vars)
          else (None, hash_store vars var (var\<lparr>var_flags := flags, var_value := apk_blob_dup value\<rparr>)))"

definition apk_variable_subst :: "variables \<Rightarrow> resolver" where
  "apk_variable_subst vars key to =
     (case apk_hash_get vars key of
        None \<Rightarrow> (Some APKE_REPO_VARIABLE, to)
      | Some var \<Rightarrow> (None, apk_blob_push_blob to (var_value var)))"

section \<open>The parser\<close>

datatype repotype = APK_REPOTYPE_OMITTED | APK_REPOTYPE_NDX | APK_REPOTYPE_V2 | APK_REPOTYPE_V3

record apk_repoparser =
  rp_variables :: variables
  rp_file :: "bytes option"
  rp_line :: int

definition get_word :: "blob \<Rightarrow> bool \<times> blob \<times> blob" where
  "get_word line =
     (case apk_blob_cspn line APK_CTYPE_REPOSITORY_SEPARATOR of (_, word, line1) \<Rightarrow>
      case apk_blob_spn line1 APK_CTYPE_REPOSITORY_SEPARATOR of (_, _, line2) \<Rightarrow>
        (blob_len word > 0, word, line2))"

definition apk_repoparser_init :: apk_repoparser where
  "apk_repoparser_init =
     \<lparr>rp_variables = apk_hash_init variable_ops 10, rp_file = None, rp_line = 0\<rparr>"

definition apk_repoparser_free :: "apk_repoparser \<Rightarrow> apk_variable list \<times> apk_repoparser" where
  "apk_repoparser_free rp =
     (case apk_hash_free (rp_variables rp) of (freed, h) \<Rightarrow> (freed, rp\<lparr>rp_variables := h\<rparr>))"

definition apk_repoparser_set_file :: "apk_repoparser \<Rightarrow> bytes \<Rightarrow> apk_repoparser" where
  "apk_repoparser_set_file rp file = rp\<lparr>rp_file := Some file, rp_line := 0\<rparr>"

definition apk_repoparser_subst :: "apk_repoparser \<Rightarrow> resolver" where
  "apk_repoparser_subst rp = apk_variable_subst (rp_variables rp)"

text \<open>The leading options of a \<^verbatim>\<open>set\<close> line.\<close>

function set_options :: "blob \<Rightarrow> u8 \<Rightarrow> apk_error + blob \<times> u8" where
  "set_options line flags =
     (case blob_bytes line of
        c # _ \<Rightarrow>
          if c = CHR ''-'' then
            (case get_word line of
               (_, key, line') \<Rightarrow>
                 if apk_blob_compare key (Some ''-default'') = 0
                 then set_options line' (flags AND NOT APK_VARF_OVERWRITE)
                 else Inl APKE_REPO_SYNTAX)
          else Inr (line, flags)
      | [] \<Rightarrow> Inr (line, flags))"
  by pat_completeness auto
termination
proof (relation "measure (\<lambda>(line, flags). blob_len line)")
  fix line flags c cs b key line' x y
  assume eq: "blob_bytes line = c # cs" "(b, y) = get_word line" "(key, line') = y"
    and cmp: "apk_blob_compare key (Some ''-default'') = 0"
  have "key = map_option (takeWhile (\<lambda>c. \<not> in_ctype APK_CTYPE_REPOSITORY_SEPARATOR c)) line"
    and "line' = map_option (dropWhile (in_ctype APK_CTYPE_REPOSITORY_SEPARATOR)
      \<circ> dropWhile (\<lambda>c. \<not> in_ctype APK_CTYPE_REPOSITORY_SEPARATOR c)) line"
    using eq by (auto simp: get_word_def apk_blob_cspn_def apk_blob_spn_def option.map_comp)
  moreover obtain xs where xs: "line = Some xs" using eq(1) by (cases line) auto
  moreover have "blob_bytes key \<noteq> []" using cmp by (simp add: apk_blob_compare_eq_0)
  ultimately have ne: "takeWhile (\<lambda>c. \<not> in_ctype APK_CTYPE_REPOSITORY_SEPARATOR c) xs \<noteq> []"
    and len: "blob_len line' = length (dropWhile (in_ctype APK_CTYPE_REPOSITORY_SEPARATOR)
      (dropWhile (\<lambda>c. \<not> in_ctype APK_CTYPE_REPOSITORY_SEPARATOR c) xs))"
    by (simp_all add: blob_len_def)
  have "length xs = length (takeWhile (\<lambda>c. \<not> in_ctype APK_CTYPE_REPOSITORY_SEPARATOR c) xs)
      + length (dropWhile (\<lambda>c. \<not> in_ctype APK_CTYPE_REPOSITORY_SEPARATOR c) xs)"
    by (metis length_append takeWhile_dropWhile_id)
  moreover have "0 < length (takeWhile (\<lambda>c. \<not> in_ctype APK_CTYPE_REPOSITORY_SEPARATOR c) xs)"
    using ne by blast
  ultimately have "blob_len line' < length xs"
    using len length_dropWhile_le [of "in_ctype APK_CTYPE_REPOSITORY_SEPARATOR"
        "dropWhile (\<lambda>c. \<not> in_ctype APK_CTYPE_REPOSITORY_SEPARATOR c) xs"] by linarith
  then show "((line', flags AND NOT APK_VARF_OVERWRITE), line, flags) \<in> measure (\<lambda>(line, flags). blob_len line)"
    using xs by (simp add: blob_len_def)
qed auto

declare set_options.simps [simp del]

definition valid_variable :: "blob \<Rightarrow> bool" where
  "valid_variable key \<longleftrightarrow>
     \<not> apk_blob_starts_with key (Some ''APK_'') \<and>
     (case blob_bytes key of c # _ \<Rightarrow> isalpha c | [] \<Rightarrow> False) \<and>
     \<not> fst (apk_blob_spn key APK_CTYPE_VARIABLE_NAME)"

text \<open>
  The arguments besides the line: the address of the stack buffer (for the substitution) and
  whether \<^verbatim>\<open>malloc\<close> succeeds. An empty key is followed by the equals sign in memory, which is not
  a letter.
\<close>

definition apk_repoparser_parse_set ::
  "nat \<Rightarrow> bool \<Rightarrow> apk_repoparser \<Rightarrow> blob \<Rightarrow> (apk_error option \<times> apk_repoparser) outcome" where
  "apk_repoparser_parse_set base malloc_ok rp line =
     (case set_options line APK_VARF_OVERWRITE of
        Inl e \<Rightarrow> Ret (Some e, rp)
      | Inr (line, flags) \<Rightarrow>
         (case apk_blob_split line (Some ''='') of
            None \<Rightarrow> Ret (Some APKE_REPO_VARIABLE, rp)
          | Some (key, value) \<Rightarrow>
              if \<not> valid_variable key then Ret (Some APKE_REPO_VARIABLE, rp)
              else
                case apk_blob_subst base PATH_MAX value (apk_repoparser_subst rp) of
                  Fault \<Rightarrow> Fault
                | Ret (Inl e) \<Rightarrow> Ret (Some e, rp)
                | Ret (Inr text) \<Rightarrow>
                    (case apk_variable_set malloc_ok (rp_variables rp) key (Some text) flags of
                       (e, vars) \<Rightarrow> Ret (e, rp\<lparr>rp_variables := vars\<rparr>))))"

text \<open>
  The first byte at the word's pointer is read even if the word is empty; what the memory holds
  there is the argument \<open>at\<close>.
\<close>

definition is_url :: "char \<Rightarrow> blob \<Rightarrow> bool" where
  "is_url at word \<longleftrightarrow> at = CHR ''/'' \<or> apk_blob_contains word (Some ''://'') > 0"

definition first_byte :: "blob \<Rightarrow> char" where
  "first_byte b = (case blob_bytes b of c # _ \<Rightarrow> c | [] \<Rightarrow> NUL)"

definition is_keyword :: "blob \<Rightarrow> bool" where
  "is_keyword word = (if first_byte word = CHR ''@'' then False else \<not> is_url (first_byte word) word)"

definition keyword_type :: "blob \<Rightarrow> repotype option" where
  "keyword_type word =
     (if apk_blob_compare word (Some ''ndx'') = 0 then Some APK_REPOTYPE_NDX
      else if apk_blob_compare word (Some ''v2'') = 0 then Some APK_REPOTYPE_V2
      else if apk_blob_compare word (Some ''v3'') = 0 then Some APK_REPOTYPE_V3
      else None)"

definition default_type :: "repotype \<Rightarrow> blob \<Rightarrow> repotype" where
  "default_type type word =
     (if type = APK_REPOTYPE_OMITTED then
        if apk_blob_ends_with word (Some ''.adb'') \<or> apk_blob_ends_with word (Some ''.tar.gz'')
        then APK_REPOTYPE_NDX else APK_REPOTYPE_V2
      else type)"

fun index_file :: "repotype \<Rightarrow> bytes option" where
  "index_file APK_REPOTYPE_V2 = Some ''APKINDEX.tar.gz''"
| "index_file APK_REPOTYPE_V3 = Some ''Packages.adb''"
| "index_file _ = None"

text \<open>The callback: URL, index file and tag; its result stops the loop unless it is 0.\<close>

type_synonym 's repository_cb = "blob \<Rightarrow> bytes option \<Rightarrow> blob \<Rightarrow> 's \<Rightarrow> int \<times> 's"

fun component_loop ::
  "'s repository_cb \<Rightarrow> bytes option \<Rightarrow> blob \<Rightarrow> apk_pathbuilder \<Rightarrow> bytes list \<Rightarrow> 's \<Rightarrow> int \<times> 's" where
  "component_loop repository index tag pb [] s = (0, s)"
| "component_loop repository index tag pb (c # cs) s =
     (case apk_pathbuilder_pushb pb c of (n, pb1) \<Rightarrow>
      case repository (apk_pathbuilder_get pb1) index tag s of (r, s') \<Rightarrow>
        if r \<noteq> 0 then (r, s')
        else component_loop repository index tag (apk_pathbuilder_pop pb1 n) cs s')"

text \<open>The result of a parse: an error of the parser, or what the callback returned.\<close>

datatype parse_result = Parse_error apk_error | Callback int

text \<open>The part behind the keyword and the tag. The uninitialised path buffer is an argument.\<close>

definition parse_repository ::
  "nat \<Rightarrow> bytes \<Rightarrow> 's repository_cb \<Rightarrow> apk_repoparser \<Rightarrow> bool \<Rightarrow> repotype \<Rightarrow> blob \<Rightarrow> blob \<Rightarrow> blob \<Rightarrow> 's \<Rightarrow>
   (parse_result \<times> 's) outcome" where
  "parse_repository base pathbuf repository rp allow_keywords type tag word line s =
     (let index = index_file (default_type type word) in
      case apk_blob_subst base PATH_MAX word (apk_repoparser_subst rp) of
        Fault \<Rightarrow> Fault
      | Ret (Inl e) \<Rightarrow> Ret (Parse_error e, s)
      | Ret (Inr urltext) \<Rightarrow>
          let url = apk_blob_trim_end (Some urltext) CHR ''/'' in
          if allow_keywords \<and> \<not> is_url (first_byte (Some urltext)) url then Ret (Parse_error APKE_REPO_SYNTAX, s)
          else if blob_len line = 0 then
            Ret (case repository url index tag s of (r, s') \<Rightarrow> (Callback r, s'))
          else
            case apk_blob_subst base PATH_MAX line (apk_repoparser_subst rp) of
              Fault \<Rightarrow> Fault
            | Ret (Inl e) \<Rightarrow> Ret (Parse_error e, s)
            | Ret (Inr comptext) \<Rightarrow>
                let pb = snd (apk_pathbuilder_setb \<lparr>pb_namelen = 0, pb_name = pathbuf\<rparr> (blob_bytes url)) in
                Ret (case component_loop repository index tag pb
                            (the (apk_blob_foreach_token (Some comptext) (Some '' ''))) s of
                       (r, s') \<Rightarrow> (Callback r, s')))"

definition parse_tag ::
  "nat \<Rightarrow> bytes \<Rightarrow> 's repository_cb \<Rightarrow> apk_repoparser \<Rightarrow> bool \<Rightarrow> repotype \<Rightarrow> blob \<Rightarrow> blob \<Rightarrow> 's \<Rightarrow>
   (parse_result \<times> 's) outcome" where
  "parse_tag base pathbuf repository rp allow_keywords type word line s =
     (if first_byte word = CHR ''@'' then
        (case get_word line of
           (ok, word', line') \<Rightarrow>
             if \<not> ok then Ret (Parse_error APKE_REPO_SYNTAX, s)
             else parse_repository base pathbuf repository rp allow_keywords type word word' line' s)
      else parse_repository base pathbuf repository rp allow_keywords type None word line s)"

definition apk_repoparser_parse ::
  "nat \<Rightarrow> bool \<Rightarrow> bytes \<Rightarrow> 's repository_cb \<Rightarrow> apk_repoparser \<Rightarrow> blob \<Rightarrow> bool \<Rightarrow> 's \<Rightarrow>
   (parse_result \<times> apk_repoparser \<times> 's) outcome" where
  "apk_repoparser_parse base malloc_ok pathbuf repository rp0 line allow_keywords s =
     (let rp = rp0\<lparr>rp_line := rp_line rp0 + 1\<rparr>;
          finish = (\<lambda>r. case r of Fault \<Rightarrow> Fault | Ret (res, s') \<Rightarrow> Ret (res, rp, s'))
      in
      if line = None \<or> blob_len line = 0 \<or> first_byte line = CHR ''#'' then Ret (Callback 0, rp, s)
      else
        case get_word line of
          (ok, word, line1) \<Rightarrow>
            if \<not> ok then Ret (Parse_error APKE_REPO_SYNTAX, rp, s)
            else if allow_keywords \<and> is_keyword word then
              if apk_blob_compare word (Some ''set'') = 0 then
                (case apk_repoparser_parse_set base malloc_ok rp line1 of
                   Fault \<Rightarrow> Fault
                 | Ret (None, rp') \<Rightarrow> Ret (Callback 0, rp', s)
                 | Ret (Some e, rp') \<Rightarrow> Ret (Parse_error e, rp', s))
              else
                (case keyword_type word of
                   None \<Rightarrow> Ret (Parse_error APKE_REPO_KEYWORD, rp, s)
                 | Some type \<Rightarrow>
                    (case get_word line1 of
                       (ok2, word2, line2) \<Rightarrow>
                         if \<not> ok2 then Ret (Parse_error APKE_REPO_SYNTAX, rp, s)
                         else finish (parse_tag base pathbuf repository rp allow_keywords type word2 line2 s)))
            else finish (parse_tag base pathbuf repository rp allow_keywords APK_REPOTYPE_OMITTED word line1 s))"

section \<open>Lemmas\<close>

definition var_name :: "apk_variable \<Rightarrow> bytes" where
  "var_name v = take (var_keylen v) (var_key v)"

interpretation variable_table: hash_contract variable_ops var_name blob_bytes
proof
  show "item_matches variable_ops i k \<longleftrightarrow> var_name i = blob_bytes k" for i k
    by (auto simp: item_matches_def variable_ops_def variable_hash_get_key_def apk_blob_compare_eq_0
        var_name_def)
  show "(case hash_item variable_ops of Some f \<Rightarrow> f i
         | None \<Rightarrow> hash_key variable_ops (get_key variable_ops i)) = hash_key variable_ops k"
    if "var_name i = blob_bytes k" for i k
    using that
    by (simp add: variable_ops_def variable_hash_get_key_def var_name_def apk_blob_hash_def
        apk_blob_hash_seed_def)
qed

definition var_table :: "variables \<Rightarrow> bool" where
  "var_table vars \<longleftrightarrow> hash_table variable_ops vars \<and> keys_distinct var_name vars"

definition var_lookup :: "variables \<Rightarrow> bytes \<Rightarrow> apk_variable option" where
  "var_lookup vars k = apk_hash_get vars (Some k)"

lemma var_lookup_map: "var_table vars \<Longrightarrow> var_lookup vars k = table_map var_name vars k"
  using variable_table.get_is_map [of vars "Some k"] by (simp add: var_lookup_def var_table_def)

text \<open>What a permitted assignment stores and when it is permitted.\<close>

definition var_writable :: "apk_variable option \<Rightarrow> u8 \<Rightarrow> bool" where
  "var_writable old flags \<longleftrightarrow>
     (case old of None \<Rightarrow> True
      | Some v \<Rightarrow> flags AND APK_VARF_OVERWRITE \<noteq> 0 \<and> var_flags v AND APK_VARF_READONLY = 0)"

lemma variable_set_spec:
  assumes "var_table vars" "length k < 256"
    "apk_variable_set True vars (Some k) (Some x) flags = (r, vars')"
  shows "r = None \<and> var_table vars' \<and>
    (if var_writable (var_lookup vars k) flags
     then (\<exists>v. var_value v = Some x \<and> var_flags v = flags \<and>
             (\<forall>k'. var_lookup vars' k' = (if k' = k then Some v else var_lookup vars k')))
     else vars' = vars)"
proof -
  have tab: "hash_table variable_ops vars" and dis: "keys_distinct var_name vars"
    using assms(1) by (auto simp: var_table_def)
  have get: "apk_hash_get_hashed vars (Some k) (apk_hash_from_key vars (Some k)) = var_lookup vars k"
    by (simp add: var_lookup_def apk_hash_get_def)
  show ?thesis
  proof (cases "var_lookup vars k")
    case None
    let ?v = "\<lparr>var_value = Some x, var_flags = flags, var_keylen = length k, var_key = k\<rparr>"
    have nm: "var_name ?v = blob_bytes (Some k)" by (simp add: var_name_def)
    have "vars' = apk_hash_insert vars ?v" and r: "r = None"
      using assms(2,3) None get variable_table.from_item_key [OF tab nm]
      by (auto simp: apk_variable_set_def Let_def blob_len_def apk_blob_dup_def apk_hash_insert_def)
    then have t': "var_table vars'" "table_map var_name vars' = (table_map var_name vars)(k \<mapsto> ?v)"
      using variable_table.insert_table [OF tab, of ?v] variable_table.insert_map [OF tab nm]
        variable_table.insert_distinct [OF tab dis, of ?v] None var_lookup_map [OF assms(1)] nm
      by (auto simp: var_table_def)
    then have "\<forall>k'. var_lookup vars' k' = (if k' = k then Some ?v else var_lookup vars k')"
      using var_lookup_map [OF t'(1)] var_lookup_map [OF assms(1)] by simp
    then show ?thesis
      using r t' None by (auto simp: var_writable_def intro!: exI [of _ ?v])
  next
    case (Some v)
    let ?v = "v\<lparr>var_flags := flags, var_value := Some x\<rparr>"
    have v: "v \<in> set (hash_items vars)" "var_name v = blob_bytes (Some k)"
      using variable_table.get_Some [OF tab, of "Some k" v] Some by (auto simp: var_lookup_def)
    have nm: "var_name ?v = var_name v" by (simp add: var_name_def)
    show ?thesis
    proof (cases "var_writable (Some v) flags")
      case True
      then have "vars' = hash_store vars v ?v" and r: "r = None"
        using assms(3) Some get
        by (auto simp: apk_variable_set_def var_writable_def Let_def apk_blob_dup_def)
      then have t': "var_table vars'" "table_map var_name vars' = (table_map var_name vars)(k \<mapsto> ?v)"
        using variable_table.store_table [OF tab v nm] variable_table.store_map [OF tab dis v nm] v(2)
        by (auto simp: var_table_def)
      then have "\<forall>k'. var_lookup vars' k' = (if k' = k then Some ?v else var_lookup vars k')"
        using var_lookup_map [OF t'(1)] var_lookup_map [OF assms(1)] by simp
      then show ?thesis using r t' Some True by (auto intro!: exI [of _ ?v])
    next
      case False
      then have "vars' = vars \<and> r = None"
        using assms(3) Some get
        by (auto simp: apk_variable_set_def var_writable_def Let_def split: if_splits)
      then show ?thesis using assms(1) Some False by simp
    qed
  qed
qed

lemma subst_literal:
  "CHR ''$'' \<notin> set t \<Longrightarrow> length t < sz \<Longrightarrow> apk_blob_subst base sz (Some t) res = Ret (Inr t)"
  unfolding apk_blob_subst_def
  by (subst subst_loop.simps)
    (auto simp: apk_blob_split_None [THEN iffD2] memmem_dollar_None apk_blob_push_blob_def blob_len_def)

subsection \<open>Lines without variables\<close>

definition plain_word :: "bytes \<Rightarrow> bool" where
  "plain_word w \<longleftrightarrow> w \<noteq> [] \<and> CHR '' '' \<notin> set w \<and> CHR 0x09 \<notin> set w \<and> CHR ''$'' \<notin> set w"

definition plain_url :: "bytes \<Rightarrow> bool" where
  "plain_url u \<longleftrightarrow>
     plain_word u \<and> hd u \<noteq> CHR ''#'' \<and> hd u \<noteq> CHR ''@'' \<and> last u \<noteq> CHR ''/'' \<and>
     is_url (hd u) (Some u)"

lemma plain_word_no_sep: "plain_word w \<Longrightarrow> c \<in> set w \<Longrightarrow> \<not> in_ctype APK_CTYPE_REPOSITORY_SEPARATOR c"
  by (auto simp: plain_word_def in_repo_separator)

lemma get_word_end: "plain_word w \<Longrightarrow> get_word (Some w) = (True, Some w, Some [])"
proof -
  assume w: "plain_word w"
  have tw: "takeWhile (\<lambda>c. \<not> in_ctype APK_CTYPE_REPOSITORY_SEPARATOR c) w = w"
    and dw: "dropWhile (\<lambda>c. \<not> in_ctype APK_CTYPE_REPOSITORY_SEPARATOR c) w = []"
    using plain_word_no_sep [OF w] by (auto simp: takeWhile_eq_all_conv)
  show ?thesis
    using w
    by (simp add: get_word_def apk_blob_cspn_def apk_blob_spn_def blob_len_def plain_word_def tw dw
        del: dropWhile_eq_Nil_conv takeWhile_eq_Nil_iff)
qed

lemma get_word_space:
  assumes "plain_word w" "plain_word (hd cs)" "cs \<noteq> []"
  shows "get_word (Some (w @ concat (map (\<lambda>c. CHR '' '' # c) cs))) =
    (True, Some w, Some (tl (concat (map (\<lambda>c. CHR '' '' # c) cs))))"
proof -
  obtain c cs' x xs where cs: "cs = c # cs'" "c = x # xs"
    using assms(2,3) by (cases cs; cases "hd cs") (auto simp: plain_word_def)
  have "\<not> in_ctype APK_CTYPE_REPOSITORY_SEPARATOR x" "in_ctype APK_CTYPE_REPOSITORY_SEPARATOR CHR '' ''"
    using plain_word_no_sep [OF assms(2)] cs by (auto simp: in_repo_separator)
  then show ?thesis
    using assms(1) plain_word_no_sep [OF assms(1)] cs
    by (simp add: get_word_def apk_blob_cspn_def apk_blob_spn_def blob_len_def plain_word_def
        takeWhile_append2 dropWhile_append2)
qed

lemma split_on_none: "c \<notin> set w \<Longrightarrow> split_on c w = [w]"
  by (induction w) auto

lemma split_on_word: "c \<notin> set w \<Longrightarrow> split_on c (w @ c # r) = w # split_on c r"
  by (induction w) auto

lemma split_on_components:
  "\<forall>w \<in> set (v # ws). c \<notin> set w \<Longrightarrow> split_on c (v @ concat (map (\<lambda>w. c # w) ws)) = v # ws"
  by (induction ws arbitrary: v) (auto simp: split_on_none split_on_word)

lemma component_words:
  assumes "cs \<noteq> []" "\<forall>c \<in> set cs. plain_word c"
  shows "apk_blob_foreach_token (Some (tl (concat (map (\<lambda>c. CHR '' '' # c) cs)))) (Some '' '') = Some cs"
proof -
  obtain v ws where cs: "cs = v # ws" using assms(1) by (cases cs) auto
  have "split_on CHR '' '' (v @ concat (map (\<lambda>w. CHR '' '' # w) ws)) = v # ws"
    by (rule split_on_components) (use assms cs in \<open>auto simp: plain_word_def\<close>)
  moreover have "filter (\<lambda>w. w \<noteq> []) cs = cs"
    using assms(2) by (auto simp: plain_word_def filter_id_conv)
  ultimately show ?thesis
    using foreach_token_words [of "Some (v @ concat (map (\<lambda>w. CHR '' '' # w) ws))" "CHR '' ''"] cs
    by (simp add: blob_words_def)
qed

text \<open>A callback that records its calls.\<close>

definition record_cb :: "(bytes \<times> bytes option \<times> blob) list repository_cb" where
  "record_cb url index tag s = (0, s @ [(blob_bytes url, index, tag)])"

lemma component_loop_record:
  assumes "pb_ok pb" "0 < pb_namelen pb" "\<forall>c \<in> set cs. pb_namelen pb + length c + 2 < PATH_MAX"
  shows "component_loop record_cb index tag pb cs s =
    (0, s @ map (\<lambda>c. (blob_bytes (apk_pathbuilder_get pb) @ ''/'' @ c, index, tag)) cs)"
  using assms
proof (induction cs arbitrary: pb s)
  case (Cons c cs)
  have fit: "pb_namelen pb + length c + 2 < PATH_MAX" using Cons.prems by simp
  from pushb_spec [OF Cons.prems(1) fit] obtain pb1 where p:
    "apk_pathbuilder_pushb pb c = (int (pb_namelen pb), pb1)" "pb_ok pb1"
    "blob_bytes (apk_pathbuilder_get pb1) = blob_bytes (apk_pathbuilder_get pb) @ ''/'' @ c"
    "take (pb_namelen pb) (pb_name pb1) = take (pb_namelen pb) (pb_name pb)"
    using Cons.prems(2) by auto
  let ?pop = "apk_pathbuilder_pop pb1 (int (pb_namelen pb))"
  have pop: "?pop = \<lparr>pb_namelen = pb_namelen pb, pb_name = buf_store (pb_namelen pb) [NUL] (pb_name pb1)\<rparr>"
    using Cons.prems(1)
    by (simp add: apk_pathbuilder_pop_def Let_def nat_mod_distrib pb_ok_def PATH_MAX_def)
  have lim: "pb_namelen pb + 1 < 4096" "length (pb_name pb1) = 4096"
    using Cons.prems(1) p(2) by (auto simp: pb_ok_def PATH_MAX_def)
  have "pb_ok ?pop" "apk_pathbuilder_get ?pop = apk_pathbuilder_get pb" "pb_namelen ?pop = pb_namelen pb"
    using lim p(4)
    by (simp_all add: pop pb_ok_def PATH_MAX_def nth_buf_store apk_pathbuilder_get_def take_buf_store_low)
  with Cons.IH [of ?pop "s @ [(blob_bytes (apk_pathbuilder_get pb1), index, tag)]"] Cons.prems p
  show ?case by (simp add: record_cb_def)
qed simp

lemma parse_plain_url:
  assumes "plain_url u" "length u + 2 < PATH_MAX"
  shows "apk_blob_subst base PATH_MAX (Some u) res = Ret (Inr u)"
    "apk_blob_trim_end (Some u) CHR ''/'' = Some u" "first_byte (Some u) = hd u"
    "is_keyword (Some u) = False"
proof -
  obtain x xs where u: "u = x # xs" using assms(1) by (cases u) (auto simp: plain_url_def plain_word_def)
  show "apk_blob_subst base PATH_MAX (Some u) res = Ret (Inr u)"
    using assms by (intro subst_literal) (auto simp: plain_url_def plain_word_def)
  show "first_byte (Some u) = hd u" using u by (simp add: first_byte_def)
  then show "is_keyword (Some u) = False" using assms(1) by (simp add: is_keyword_def plain_url_def)
  show "apk_blob_trim_end (Some u) CHR ''/'' = Some u"
  proof -
    obtain ys y where "u = ys @ [y]" using u by (metis list.distinct(1) rev_exhaust)
    then show ?thesis using assms(1) by (simp add: apk_blob_trim_end_def plain_url_def)
  qed
qed

section \<open>Properties\<close>

text \<open>
  Setting a variable whose name is shorter than 256 bytes: the table stays well formed; a new
  variable, or an old one that may be overwritten, gets the value and all other variables keep
  theirs; a variable that may not be overwritten (the \<^verbatim>\<open>-default\<close> option, or a read-only one)
  leaves the table unchanged.
\<close>

lemma variable_set_semantics:
  assumes "var_table vars" "length k < 256"
    "apk_variable_set True vars (Some k) (Some x) flags = (r, vars')"
  shows "r = None \<and> var_table vars' \<and>
    (if var_writable (var_lookup vars k) flags
     then (\<exists>v. var_value v = Some x \<and> var_flags v = flags \<and>
             (\<forall>k'. var_lookup vars' k' = (if k' = k then Some v else var_lookup vars k')))
     else vars' = vars)"
  by (rule variable_set_spec [OF assms])

lemma variable_set_semantics_witness:
  "\<exists>v vars'. apk_variable_set True (apk_hash_init variable_ops 10) (Some ''mirror'') (Some ''a'') 1 = (None, vars') \<and>
     var_lookup vars' ''mirror'' = Some v \<and> var_value v = Some ''a''"
proof -
  let ?vars = "apk_hash_init variable_ops 10"
  have tab: "var_table ?vars"
    using variable_table.table_init [of 10] variable_table.distinct_init by (simp add: var_table_def)
  obtain r vars' where set: "apk_variable_set True ?vars (Some ''mirror'') (Some ''a'') 1 = (r, vars')"
    by fastforce
  have "var_lookup ?vars ''mirror'' = None"
    using var_lookup_map [OF tab] variable_table.map_init by simp
  with variable_set_semantics [OF tab _ set] set show ?thesis by (auto simp: var_writable_def)
qed

text \<open>
  The length of a variable's name is kept in one byte: a variable with a longer name is stored
  without an error, but can never be found.
\<close>

lemma variable_long_name_lost:
  assumes "var_table vars" "256 \<le> length k" "apk_hash_get vars (Some k) = None"
  shows "fst (apk_variable_set True vars (Some k) x flags) = None \<and>
    apk_hash_get (snd (apk_variable_set True vars (Some k) x flags)) (Some k) = None"
proof -
  let ?hash = "apk_hash_from_key vars (Some k)"
  let ?v = "\<lparr>var_value = apk_blob_dup x, var_flags = flags, var_keylen = length k mod 256, var_key = k\<rparr>"
  have set: "apk_variable_set True vars (Some k) x flags = (None, apk_hash_insert_hashed vars ?v ?hash)"
    using assms(3) by (simp add: apk_variable_set_def apk_hash_get_def Let_def blob_len_def)
  have ops: "hash_ops vars = variable_ops" using assms(1) by (simp add: var_table_def hash_table_def)
  have "length (var_name ?v) \<le> length k mod 256" by (simp add: var_name_def)
  then have "length (var_name ?v) < 256" using mod_less_divisor [of 256 "length k"] by linarith
  then have no: "\<not> item_matches variable_ops ?v (Some k)"
    using assms(2) variable_table.matches_iff [of ?v "Some k"] by auto
  have lt: "bucket_of vars ?hash < length (buckets vars)"
    using assms(1) by (intro bucket_of_less hash_ok_nonempty) (simp add: var_table_def hash_table_def)
  have "apk_hash_get (apk_hash_insert_hashed vars ?v ?hash) (Some k) = apk_hash_get vars (Some k)"
    using no lt ops
    by (simp add: apk_hash_get_def apk_hash_get_hashed_def apk_hash_insert_hashed_def Let_def
        apk_hash_from_key_def bucket_of_def)
  then show ?thesis using set assms(3) by simp
qed

lemma variable_long_name_lost_witness:
  "apk_hash_get (snd (apk_variable_set True (apk_hash_init variable_ops 10)
     (Some (replicate 300 CHR ''a'')) (Some ''x'') 1)) (Some (replicate 300 CHR ''a'')) = None"
proof -
  have tab: "var_table (apk_hash_init variable_ops 10)"
    using variable_table.table_init [of 10] variable_table.distinct_init by (simp add: var_table_def)
  have "apk_hash_get (apk_hash_init variable_ops 10) (Some (replicate 300 CHR ''a'')) = None"
    using variable_table.get_is_map [OF variable_table.table_init] variable_table.map_init by simp
  from variable_long_name_lost [OF tab _ this] show ?thesis by simp
qed

text \<open>
  A repository line of a URL and components, without keyword, tag and variables, reports one
  repository per component, in order, with the URL, a slash and the component as its URL, and
  the index file of the URL's type; the line counter advances and the variables are unchanged.
\<close>

lemma parse_component_line:
  assumes "plain_url u" "cs \<noteq> []" "\<forall>c \<in> set cs. plain_word c \<and> length u + length c + 2 < PATH_MAX"
    "length (concat (map (\<lambda>c. CHR '' '' # c) cs)) < PATH_MAX" "length pathbuf = PATH_MAX"
  shows "apk_repoparser_parse base mok pathbuf record_cb rp
      (Some (u @ concat (map (\<lambda>c. CHR '' '' # c) cs))) True s =
    Ret (Callback 0, rp\<lparr>rp_line := rp_line rp + 1\<rparr>,
      s @ map (\<lambda>c. (u @ ''/'' @ c, index_file (default_type APK_REPOTYPE_OMITTED (Some u)), None)) cs)"
proof -
  let ?line = "u @ concat (map (\<lambda>c. CHR '' '' # c) cs)"
  let ?rest = "tl (concat (map (\<lambda>c. CHR '' '' # c) cs))"
  let ?rp = "rp\<lparr>rp_line := rp_line rp + 1\<rparr>"
  have pu: "plain_word u" "hd u \<noteq> CHR ''#''" "hd u \<noteq> CHR ''@''" "is_url (hd u) (Some u)" "u \<noteq> []"
    using assms(1) by (auto simp: plain_url_def plain_word_def)
  have len: "length u + 2 < PATH_MAX" using assms(2,3) by (cases cs) auto
  note url = parse_plain_url [OF assms(1) len]
  have gw: "get_word (Some ?line) = (True, Some u, Some ?rest)"
    using get_word_space [OF pu(1), of cs] assms(2,3) by (cases cs) auto
  have "?rest \<noteq> []" using assms(2,3) by (cases cs) (auto simp: plain_word_def)
  then have bl: "blob_len (Some ?rest) \<noteq> 0" by (simp add: blob_len_def del: length_tl)
  have "set ?rest \<subseteq> set (concat (map (\<lambda>c. CHR '' '' # c) cs))" by (auto dest: list.set_sel(2) [rotated])
  moreover have "CHR ''$'' \<notin> set (concat (map (\<lambda>c. CHR '' '' # c) cs))"
    using assms(3) by (auto simp: plain_word_def)
  ultimately have "CHR ''$'' \<notin> set ?rest" by blast
  then have comp: "apk_blob_subst base PATH_MAX (Some ?rest) res = Ret (Inr ?rest)" for res
    using assms(4) by (intro subst_literal) simp_all
  have words: "apk_blob_foreach_token (Some ?rest) (Some '' '') = Some cs"
    using assms(2,3) by (intro component_words) auto
  have pb0: "length pathbuf = 4096" using assms(5) by (simp add: PATH_MAX_def)
  let ?pb = "snd (apk_pathbuilder_setb \<lparr>pb_namelen = 0, pb_name = pathbuf\<rparr> u)"
  have pb: "pb_ok ?pb" "pb_namelen ?pb = length u" "apk_pathbuilder_get ?pb = Some u"
    using len pb0
    by (simp_all add: apk_pathbuilder_setb_def apk_pathbuilder_pushb_def Let_def pb_ok_def PATH_MAX_def
        buf_store_def apk_pathbuilder_get_def nth_append)
  have loop: "component_loop record_cb i tag ?pb cs s =
      (0, s @ map (\<lambda>c. (u @ ''/'' @ c, i, tag)) cs)" for i tag
    using component_loop_record [OF pb(1), of cs i tag s] pb(2,3) pu(5) assms(3) by simp
  have fb: "first_byte (Some ?line) = hd u" using pu(5) by (cases u) (simp_all add: first_byte_def)
  have "parse_tag base pathbuf record_cb ?rp True APK_REPOTYPE_OMITTED (Some u) (Some ?rest) s =
      Ret (Callback 0, s @ map (\<lambda>c. (u @ ''/'' @ c, index_file (default_type APK_REPOTYPE_OMITTED (Some u)), None)) cs)"
    using pu url comp words loop bl
    by (simp add: parse_tag_def parse_repository_def Let_def)
  then show ?thesis
    using pu url gw fb by (simp add: apk_repoparser_parse_def Let_def blob_len_def)
qed

lemma parse_component_line_witness:
  "apk_repoparser_parse 65536 True (replicate 4096 NUL) record_cb apk_repoparser_init
     (Some ''http://a/x main community'') True [] =
   Ret (Callback 0, apk_repoparser_init\<lparr>rp_line := 1\<rparr>,
     [(''http://a/x/main'', Some ''APKINDEX.tar.gz'', None),
      (''http://a/x/community'', Some ''APKINDEX.tar.gz'', None)])"
proof -
  have "plain_url ''http://a/x''"
    by (simp add: plain_url_def plain_word_def is_url_def apk_blob_contains_def memmem.simps)
  moreover have "default_type APK_REPOTYPE_OMITTED (Some ''http://a/x'') = APK_REPOTYPE_V2"
    by (simp add: default_type_def apk_blob_ends_with_def blob_len_def)
  ultimately show ?thesis
    using parse_component_line [of "''http://a/x''" "[''main'', ''community'']" "replicate 4096 NUL" 65536 True
        apk_repoparser_init "[]"]
    by (simp add: plain_word_def PATH_MAX_def apk_repoparser_init_def)
qed

end
