(* ===== verification/Dependency.thy ===== *)
theory Dependency
  imports Version Digest Array Ctype
begin

text \<open>
  Dependencies of \<^verbatim>\<open>package.c\<close>: their text form \<open>[!]name[@tag][op version]\<close>, the arrays of
  dependencies and the repository tags they refer to.

  Names and atoms are interned (theories \<open>Atom\<close> and \<open>Hash\<close>): two pointers are equal exactly if
  the strings are, so a name or an atom is the string it stands for; the null atom is the empty
  string. The result of \<^verbatim>\<open>apk_db_get_name\<close> is NULL only when the allocation fails, which is not
  modelled.
\<close>

section \<open>Definitions\<close>

record apk_dependency =
  dep_name :: "bytes option"
  dep_version :: bytes
  dep_op :: nat
  dep_broken :: bool
  dep_repository_tag :: nat
  dep_layer :: nat

definition null_dependency :: apk_dependency where
  "null_dependency = \<lparr>dep_name = None, dep_version = [], dep_op = 0, dep_broken = False,
     dep_repository_tag = 0, dep_layer = 0\<rparr>"

definition apk_dep_conflict :: "apk_dependency \<Rightarrow> bool" where
  "apk_dep_conflict dep \<longleftrightarrow> dep_op dep AND APK_VERSION_CONFLICT \<noteq> 0"

subsection \<open>Repository tags\<close>

definition APK_MAX_TAGS :: nat where "APK_MAX_TAGS = 16"
definition APK_DEFAULT_REPOSITORY_TAG :: nat where "APK_DEFAULT_REPOSITORY_TAG = 0"

record apk_repository_tag =
  rt_tag :: blob
  rt_plain_name :: blob

text \<open>The array has a fixed size; the entries from \<open>num_repo_tags\<close> on are zero.\<close>

record repo_tags =
  repo_tag :: "apk_repository_tag list"
  num_repo_tags :: nat

definition starts_with_at :: "blob \<Rightarrow> bool" where
  "starts_with_at tag = (case blob_bytes tag of c # _ \<Rightarrow> c = CHR ''@'' | [] \<Rightarrow> False)"

fun find_tag :: "(apk_repository_tag \<Rightarrow> blob) \<Rightarrow> apk_repository_tag list \<Rightarrow> blob \<Rightarrow> nat \<Rightarrow> nat option" where
  "find_tag sel [] tag i = None"
| "find_tag sel (t # ts) tag i =
     (if apk_blob_compare (sel t) tag = 0 then Some i else find_tag sel ts tag (Suc i))"

text \<open>
  The identifier of a tag, registered if it is new, or -1 when the array is full. The search
  starts at index 1; index 0 is the default.
\<close>

definition apk_db_get_tag_id :: "repo_tags \<Rightarrow> blob \<Rightarrow> int \<times> repo_tags" where
  "apk_db_get_tag_id db tag =
     (if tag = None then (int APK_DEFAULT_REPOSITORY_TAG, db)
      else
        let live = drop 1 (take (num_repo_tags db) (repo_tag db)) in
        case find_tag (if starts_with_at tag then rt_tag else rt_plain_name) live tag 1 of
          Some i \<Rightarrow> (int i, db)
        | None \<Rightarrow>
            let i = max 1 (num_repo_tags db) in
            if i \<ge> APK_MAX_TAGS then (- 1, db)
            else
              let full = (if starts_with_at tag then blob_bytes tag else CHR ''@'' # blob_bytes tag);
                  entry = \<lparr>rt_tag = Some full, rt_plain_name = apk_blob_pull_char (Some full) (schar CHR ''@'')\<rparr>
              in (int i, db\<lparr>repo_tag := (repo_tag db)[i := entry], num_repo_tags := num_repo_tags db + 1\<rparr>))"

subsection \<open>Parsing\<close>

text \<open>The parts of a dependency: name, operator and version, or a format error.\<close>

definition apk_dep_parse :: "blob \<Rightarrow> (blob \<times> nat \<times> blob) option" where
  "apk_dep_parse spec =
     (if spec = None then None
      else
        case apk_blob_pull_blob_match spec (Some ''!'') of
          (conflict, spec) \<Rightarrow>
            let op = (if conflict then APK_VERSION_CONFLICT else 0) in
            case apk_blob_cspn spec APK_CTYPE_DEPENDENCY_COMPARER of
              (stopped, name, bop) \<Rightarrow>
                if stopped then
                  (case apk_blob_spn bop APK_CTYPE_DEPENDENCY_COMPARER of
                     (ahead, bop, version) \<Rightarrow>
                       if \<not> ahead then None
                       else
                         let mask = apk_version_result_mask_blob bop in
                         if mask = 0 then None else Some (name, op OR mask, version))
                else Some (spec, op OR APK_DEPMASK_ANY, None))"

definition atomize :: "blob \<Rightarrow> bytes" where
  "atomize b = blob_bytes b"

text \<open>
  One token of a list. The dependency and the rest of the input (NULL after an error); an error
  leaves a dependency without a name. The tag is stored in six bits.
\<close>

definition apk_blob_pull_dep ::
  "blob \<Rightarrow> repo_tags \<Rightarrow> bool \<Rightarrow> apk_dependency \<times> blob \<times> repo_tags" where
  "apk_blob_pull_dep b db allow_tag =
     (if b = None then (null_dependency, None, db)
      else
        case apk_blob_cspn b APK_CTYPE_DEPENDENCY_SEPARATOR of
          (_, bdep, b) \<Rightarrow>
        case apk_blob_spn b APK_CTYPE_DEPENDENCY_SEPARATOR of
          (_, _, b) \<Rightarrow>
        case apk_dep_parse bdep of
          None \<Rightarrow> (null_dependency, None, db)
        | Some (bname, op, bver) \<Rightarrow>
            let broken = (op AND APK_DEPMASK_CHECKSUM \<noteq> APK_DEPMASK_CHECKSUM \<and>
                          \<not> apk_version_validate bver);
                finish = (\<lambda>bname tag db.
                  (\<lparr>dep_name = Some (blob_bytes bname), dep_version = atomize bver, dep_op = op,
                    dep_broken = broken, dep_repository_tag = nat (tag mod 2 ^ 6), dep_layer = 0\<rparr>, b, db))
            in case apk_blob_split bname (Some ''@'') of
                 None \<Rightarrow> finish bname 0 db
               | Some (bname, btag) \<Rightarrow>
                   if \<not> allow_tag then (null_dependency, None, db)
                   else case apk_db_get_tag_id db btag of (tag, db) \<Rightarrow> finish bname tag db)"

text \<open>The result code, the dependencies and the tags after reading a whole list.\<close>

function pull_deps_loop ::
  "blob \<Rightarrow> repo_tags \<Rightarrow> bool \<Rightarrow> apk_dependency list \<Rightarrow> apk_error option \<Rightarrow>
   apk_error option \<times> blob \<times> apk_dependency list \<times> repo_tags" where
  "pull_deps_loop b db allow_tag deps rc =
     (if blob_len b > 0 then
        (case apk_blob_pull_dep b db allow_tag of
           (dep, b', db') \<Rightarrow>
             if b' = None \<or> dep_name dep = None
             then pull_deps_loop b' db' allow_tag deps (Some APKE_DEPENDENCY_FORMAT)
             else pull_deps_loop b' db' allow_tag (deps @ [dep])
                    (if dep_broken dep then Some APKE_PKGVERSION_FORMAT else rc))
      else (rc, b, deps, db))"
  by pat_completeness auto

subsection \<open>Printing\<close>

text \<open>
  The tag of a dependency indexes the array of tags when a database is given: an index beyond
  its end is a fault. The null atom is not a NULL blob, so that the operator and the version are
  always pushed.
\<close>

definition apk_blob_push_dep :: "wblob \<Rightarrow> repo_tags option \<Rightarrow> apk_dependency \<Rightarrow> wblob outcome" where
  "apk_blob_push_dep to db dep =
     (let to = (if apk_dep_conflict dep then apk_blob_push_blob to (Some ''!'') else to);
          to = apk_blob_push_blob to (Some (cstr (the (dep_name dep))));
          finish = (\<lambda>to. Ret (apk_blob_push_blob
                      (apk_blob_push_blob to (Some (apk_version_op_string (dep_op dep))))
                      (Some (dep_version dep))))
      in case db of
           None \<Rightarrow> finish to
         | Some tags \<Rightarrow>
             if dep_repository_tag dep = 0 then finish to
             else if dep_repository_tag dep \<ge> length (repo_tag tags) then Fault
             else finish (apk_blob_push_blob to (rt_tag (repo_tag tags ! dep_repository_tag dep))))"

fun push_deps_loop :: "wblob \<Rightarrow> repo_tags option \<Rightarrow> bool \<Rightarrow> apk_dependency list \<Rightarrow> wblob outcome" where
  "push_deps_loop to db first [] = Ret to"
| "push_deps_loop to db first (dep # deps) =
     (let to = (if first then to else apk_blob_push_blob to (Some '' '')) in
      case apk_blob_push_dep to db dep of
        Fault \<Rightarrow> Fault
      | Ret to \<Rightarrow> push_deps_loop to db False deps)"

definition apk_blob_push_deps :: "wblob \<Rightarrow> repo_tags option \<Rightarrow> apk_dependency list option \<Rightarrow> wblob outcome" where
  "apk_blob_push_deps to db deps = (case deps of None \<Rightarrow> Ret to | Some ds \<Rightarrow> push_deps_loop to db True ds)"

text \<open>
  Writing dependencies of a layer (-1 is every layer) to a stream: the bytes that are written,
  with the result code. A dependency that does not fit the local buffer of 256 bytes stops the
  loop with -1, after what has been written so far.
\<close>

fun write_layer_loop ::
  "repo_tags option \<Rightarrow> bytes \<Rightarrow> nat option \<Rightarrow> nat \<Rightarrow> apk_dependency list \<Rightarrow> (bool \<times> bytes) outcome" where
  "write_layer_loop db separator layer n [] = Ret (True, [])"
| "write_layer_loop db separator layer n (dep # deps) =
     (if layer \<noteq> None \<and> layer \<noteq> Some (dep_layer dep) then write_layer_loop db separator layer n deps
      else
        let b = APK_BLOB_BUF 256;
            b = (if n \<noteq> 0 then apk_blob_push_blob b (Some separator) else b)
        in case apk_blob_push_dep b db dep of
             Fault \<Rightarrow> Fault
           | Ret b \<Rightarrow>
              (case apk_blob_pushed 256 b of
                 None \<Rightarrow> Ret (False, [])
               | Some out \<Rightarrow>
                   (case write_layer_loop db separator layer (n + length out) deps of
                      Fault \<Rightarrow> Fault
                    | Ret (ok, rest) \<Rightarrow> Ret (ok, out @ rest))))"

definition apk_deps_write_layer ::
  "repo_tags option \<Rightarrow> apk_dependency list option \<Rightarrow> bytes \<Rightarrow> nat option \<Rightarrow> (bool \<times> bytes) outcome" where
  "apk_deps_write_layer db deps separator layer =
     (case deps of None \<Rightarrow> Ret (True, []) | Some ds \<Rightarrow> write_layer_loop db separator layer 0 ds)"

definition apk_deps_write :: "repo_tags option \<Rightarrow> apk_dependency list option \<Rightarrow> bytes \<Rightarrow> (bool \<times> bytes) outcome" where
  "apk_deps_write db deps separator = apk_deps_write_layer db deps separator None"

subsection \<open>Arrays of dependencies\<close>

fun apk_deps_add :: "apk_dependency list \<Rightarrow> apk_dependency \<Rightarrow> apk_dependency list" where
  "apk_deps_add [] dep = [dep]"
| "apk_deps_add (d0 # ds) dep =
     (if dep_name d0 \<noteq> dep_name dep then d0 # apk_deps_add ds dep else dep # ds)"

text \<open>The first entry with the name is replaced by the last entry, which is cut off.\<close>

definition apk_deps_del :: "apk_dependency list \<Rightarrow> bytes \<Rightarrow> apk_dependency list" where
  "apk_deps_del deps name =
     (case List.find (\<lambda>i. dep_name (deps ! i) = Some name) [0..<length deps] of
        None \<Rightarrow> deps
      | Some i \<Rightarrow> butlast (deps[i := last deps]))"

section \<open>Lemmas\<close>

lemma dropWhile_shorter: "xs \<noteq> [] \<Longrightarrow> P (hd xs) \<Longrightarrow> length (dropWhile P xs) < length xs"
  by (cases xs) (auto simp: le_imp_less_Suc length_dropWhile_le)

lemma pull_dep_shorter:
  assumes "0 < blob_len b" "apk_blob_pull_dep b db allow_tag = (dep, b', db')"
  shows "blob_len b' < blob_len b"
proof -
  let ?sep = "in_ctype APK_CTYPE_DEPENDENCY_SEPARATOR"
  obtain xs where b: "b = Some xs" "xs \<noteq> []" using assms(1) by (cases b) (auto simp: blob_len_def)
  have "b' = None \<or> b' = Some (dropWhile ?sep (dropWhile (\<lambda>c. \<not> ?sep c) xs))"
    using assms(2) b
    by (auto simp: apk_blob_pull_dep_def apk_blob_cspn_def apk_blob_spn_def Let_def
        split: option.splits prod.splits if_splits)
  moreover have "length (dropWhile ?sep (dropWhile (\<lambda>c. \<not> ?sep c) xs)) < length xs"
  proof (cases "?sep (hd xs)")
    case True
    then have "dropWhile (\<lambda>c. \<not> ?sep c) xs = xs" using b(2) by (cases xs) auto
    then show ?thesis using True b(2) dropWhile_shorter by simp
  next
    case False
    then have "length (dropWhile (\<lambda>c. \<not> ?sep c) xs) < length xs"
      using b(2) by (intro dropWhile_shorter)
    then show ?thesis using length_dropWhile_le le_less_trans by blast
  qed
  ultimately show ?thesis using b by (auto simp: blob_len_def)
qed

termination pull_deps_loop
  by (relation "measure (\<lambda>(b, db, allow_tag, deps, rc). blob_len b)")
    (auto simp only: in_measure case_prod_conv wf_measure intro: pull_dep_shorter [OF _ sym])

declare pull_deps_loop.simps [simp del]

definition apk_blob_pull_deps ::
  "blob \<Rightarrow> repo_tags \<Rightarrow> apk_dependency list \<Rightarrow> bool \<Rightarrow>
   apk_error option \<times> blob \<times> apk_dependency list \<times> repo_tags" where
  "apk_blob_pull_deps b db deps allow_tag = pull_deps_loop b db allow_tag deps None"

subsection \<open>The text form\<close>

text \<open>The operators that have a text form with a version.\<close>

definition printable_ops :: "nat set" where
  "printable_ops = {1, 2, 3, 4, 5, 6, 9, 11, 13}"

definition dep_base :: "apk_dependency \<Rightarrow> nat" where
  "dep_base dep = (if apk_dep_conflict dep then dep_op dep - APK_VERSION_CONFLICT else dep_op dep)"

definition dep_name_char :: "char \<Rightarrow> bool" where
  "dep_name_char c \<longleftrightarrow> c \<notin> set ''<>=~@ '' \<and> c \<noteq> CHR 0x0A \<and> c \<noteq> NUL"

definition dep_version_char :: "char \<Rightarrow> bool" where
  "dep_version_char c \<longleftrightarrow> c \<noteq> CHR '' '' \<and> c \<noteq> CHR 0x0A"

text \<open>A dependency that the parser can produce from an untagged text.\<close>

definition dep_wf :: "apk_dependency \<Rightarrow> bool" where
  "dep_wf dep \<longleftrightarrow>
     (\<exists>n. dep_name dep = Some n \<and> n \<noteq> [] \<and> hd n \<noteq> CHR ''!'' \<and> list_all dep_name_char n) \<and>
     dep_op dep < 32 \<and> dep_repository_tag dep = 0 \<and> dep_layer dep = 0 \<and>
     (if dep_version dep = [] then dep_base dep = APK_DEPMASK_ANY \<and> \<not> dep_broken dep
      else dep_base dep \<in> printable_ops \<and> list_all dep_version_char (dep_version dep) \<and>
        hd (dep_version dep) \<notin> set ''<>=~'' \<and>
        dep_broken dep = (dep_base dep \<noteq> APK_DEPMASK_CHECKSUM \<and>
                          \<not> apk_version_validate (Some (dep_version dep))))"

definition dep_text :: "apk_dependency \<Rightarrow> bytes" where
  "dep_text dep =
     (if apk_dep_conflict dep then ''!'' else []) @ the (dep_name dep) @
     apk_version_op_string (dep_op dep) @ dep_version dep"

definition op_base :: "nat \<Rightarrow> nat" where
  "op_base op = (if op AND APK_VERSION_CONFLICT \<noteq> 0 then op - APK_VERSION_CONFLICT else op)"

lemma dep_base_op: "dep_base dep = op_base (dep_op dep)"
  by (simp add: dep_base_def apk_dep_conflict_def op_base_def)

lemma and_16: "(op :: nat) AND 16 = 0 \<longleftrightarrow> even (op div 16)"
  using and_exp_eq_0_iff_not_bit [of op 4] by (simp add: bit_iff_odd)

lemma op_base_cases: "op < 32 \<Longrightarrow> op_base op = (if op < 16 then op else op - 16)"
proof -
  assume op: "op < 32"
  show ?thesis
  proof (cases "op < 16")
    case True
    then show ?thesis by (simp add: op_base_def version_consts and_16)
  next
    case False
    then have "op div 16 = 1" using op by (simp add: div_nat_eqI)
    then show ?thesis using False by (simp add: op_base_def version_consts and_16)
  qed
qed

lemma printable_op_cases:
  assumes "op_base op \<in> printable_ops" "op < 32"
  shows "op \<in> {1, 2, 3, 4, 5, 6, 9, 11, 13} \<or> op \<in> {17, 18, 19, 20, 21, 22, 25, 27, 29}"
  using assms op_base_cases [OF assms(2)]
  by (auto simp: printable_ops_def le_iff_add not_less split: if_splits)

lemma op_string_printable:
  assumes "op_base op \<in> printable_ops" "op < 32"
  shows "apk_version_op_string op \<noteq> [] \<and> set (apk_version_op_string op) \<subseteq> set ''<>=~'' \<and>
    apk_version_result_mask_blob (Some (apk_version_op_string op)) = op_base op \<and>
    (if op AND APK_VERSION_CONFLICT \<noteq> 0 then APK_VERSION_CONFLICT else 0) OR op_base op = op \<and>
    (op AND APK_DEPMASK_CHECKSUM \<noteq> APK_DEPMASK_CHECKSUM \<longleftrightarrow> op_base op \<noteq> APK_DEPMASK_CHECKSUM)"
  using printable_op_cases [OF assms]
  by (elim disjE insertE emptyE)
    (simp_all add: op_base_def apk_version_op_string_def version_consts apk_version_result_mask_blob_def)

lemma op_string_any:
  assumes "op_base op = APK_DEPMASK_ANY" "op < 32"
  shows "apk_version_op_string op = [] \<and>
    (if op AND APK_VERSION_CONFLICT \<noteq> 0 then APK_VERSION_CONFLICT else 0) OR APK_DEPMASK_ANY = op \<and>
    op AND APK_DEPMASK_CHECKSUM = APK_DEPMASK_CHECKSUM"
proof -
  have "op = 7 \<or> op = 23"
    using assms op_base_cases [OF assms(2)] by (auto simp: version_consts split: if_splits)
  then show ?thesis by (auto simp: apk_version_op_string_def version_consts)
qed

lemma spn_split:
  "\<forall>c \<in> set xs. in_ctype ct c \<Longrightarrow> ys = [] \<or> \<not> in_ctype ct (hd ys) \<Longrightarrow>
   apk_blob_spn (Some (xs @ ys)) ct = (ys \<noteq> [], Some xs, Some ys)"
  by (cases ys) (simp_all add: apk_blob_spn_def takeWhile_append2 dropWhile_append2 takeWhile_eq_all_conv)

lemma cspn_split:
  "\<forall>c \<in> set xs. \<not> in_ctype ct c \<Longrightarrow> ys = [] \<or> in_ctype ct (hd ys) \<Longrightarrow>
   apk_blob_cspn (Some (xs @ ys)) ct = (ys \<noteq> [], Some xs, Some ys)"
  by (cases ys) (simp_all add: apk_blob_cspn_def takeWhile_append2 dropWhile_append2 takeWhile_eq_all_conv)

lemma pull_match_bang:
  "apk_blob_pull_blob_match (Some (CHR ''!'' # xs)) (Some ''!'') = (True, Some xs)"
  "xs = [] \<or> hd xs \<noteq> CHR ''!'' \<Longrightarrow> apk_blob_pull_blob_match (Some xs) (Some ''!'') = (False, Some xs)"
proof -
  show "apk_blob_pull_blob_match (Some (CHR ''!'' # xs)) (Some ''!'') = (True, Some xs)"
    by (simp add: apk_blob_pull_blob_match_def blob_len_def)
  show "apk_blob_pull_blob_match (Some xs) (Some ''!'') = (False, Some xs)" if "xs = [] \<or> hd xs \<noteq> CHR ''!''"
    using that code_inject [of "hd xs" "CHR ''!''"]
    by (cases xs) (auto simp: apk_blob_pull_blob_match_def blob_len_def)
qed

text \<open>Parsing the text of a dependency gives its parts back.\<close>

lemma dep_parse_text:
  assumes "dep_wf dep"
  shows "apk_dep_parse (Some (dep_text dep)) =
    Some (Some (the (dep_name dep)), dep_op dep, if dep_version dep = [] then None else Some (dep_version dep))"
proof -
  obtain n where n: "dep_name dep = Some n" "n \<noteq> []" "hd n \<noteq> CHR ''!''" "list_all dep_name_char n"
    using assms by (auto simp: dep_wf_def)
  let ?rest = "apk_version_op_string (dep_op dep) @ dep_version dep"
  have op: "dep_op dep < 32" using assms by (simp add: dep_wf_def)
  have nc: "\<forall>c \<in> set n. \<not> in_ctype APK_CTYPE_DEPENDENCY_COMPARER c"
    using n(4) by (auto simp: in_comparer list_all_iff dep_name_char_def)
  have bang: "apk_blob_pull_blob_match (Some (dep_text dep)) (Some ''!'') =
      (apk_dep_conflict dep, Some (n @ ?rest))"
    using n pull_match_bang(2) [of "n @ ?rest"] by (simp add: dep_text_def pull_match_bang(1))
  show ?thesis
  proof (cases "dep_version dep = []")
    case True
    then have any: "op_base (dep_op dep) = APK_DEPMASK_ANY" using assms by (simp add: dep_wf_def dep_base_op)
    have "apk_blob_cspn (Some n) APK_CTYPE_DEPENDENCY_COMPARER = (False, Some n, Some [])"
      using cspn_split [OF nc, of "[]"] by simp
    then show ?thesis
      using bang n True op_string_any [OF any op]
      by (simp add: apk_dep_parse_def apk_dep_conflict_def)
  next
    case False
    then have base: "op_base (dep_op dep) \<in> printable_ops" and hdv: "hd (dep_version dep) \<notin> set ''<>=~''"
      using assms by (auto simp: dep_wf_def dep_base_op)
    note ops = op_string_printable [OF base op]
    let ?s = "apk_version_op_string (dep_op dep)"
    have sc: "\<forall>c \<in> set ?s. in_ctype APK_CTYPE_DEPENDENCY_COMPARER c"
      using ops by (auto simp: in_comparer)
    have "apk_blob_cspn (Some (n @ ?rest)) APK_CTYPE_DEPENDENCY_COMPARER = (True, Some n, Some ?rest)"
      using cspn_split [OF nc, of ?rest] sc ops by (cases ?s) auto
    moreover have "apk_blob_spn (Some ?rest) APK_CTYPE_DEPENDENCY_COMPARER =
        (True, Some ?s, Some (dep_version dep))"
      using spn_split [OF sc, of "dep_version dep"] False hdv by (simp add: in_comparer)
    moreover have "op_base (dep_op dep) \<noteq> 0" using base by (auto simp: printable_ops_def)
    ultimately show ?thesis
      using bang n False ops by (simp add: apk_dep_parse_def apk_dep_conflict_def Let_def)
  qed
qed

lemma dep_text_no_sep:
  assumes "dep_wf dep" "c \<in> set (dep_text dep)"
  shows "\<not> in_ctype APK_CTYPE_DEPENDENCY_SEPARATOR c"
proof -
  obtain n where n: "dep_name dep = Some n" "list_all dep_name_char n" using assms by (auto simp: dep_wf_def)
  have op: "dep_op dep < 32" using assms by (simp add: dep_wf_def)
  have "set (apk_version_op_string (dep_op dep)) \<subseteq> set ''<>=~''"
    using assms(1) op_string_printable [OF _ op] op_string_any [OF _ op]
    by (cases "dep_version dep = []") (auto simp: dep_wf_def dep_base_op)
  moreover have "list_all dep_version_char (dep_version dep)"
    using assms(1) by (cases "dep_version dep = []") (auto simp: dep_wf_def)
  moreover have "c = CHR ''!'' \<or> c \<in> set n \<or> c \<in> set (apk_version_op_string (dep_op dep)) \<or> c \<in> set (dep_version dep)"
    using assms(2) n by (auto simp: dep_text_def split: if_splits)
  ultimately have "c = CHR ''!'' \<or> dep_name_char c \<or> c \<in> set ''<>=~'' \<or> dep_version_char c"
    using n(2) by (auto simp: list_all_iff)
  then show ?thesis
    by (elim disjE) (auto simp: in_dep_separator dep_name_char_def dep_version_char_def)
qed

lemma dep_text_nonempty: "dep_wf dep \<Longrightarrow> dep_text dep \<noteq> []"
  by (auto simp: dep_wf_def dep_text_def)

lemma pull_dep_text:
  assumes "dep_wf dep" "rest = [] \<or> in_ctype APK_CTYPE_DEPENDENCY_SEPARATOR (hd rest)"
  shows "apk_blob_pull_dep (Some (dep_text dep @ rest)) db allow_tag =
    (dep, Some (dropWhile (in_ctype APK_CTYPE_DEPENDENCY_SEPARATOR) rest), db)"
proof -
  obtain n where n: "dep_name dep = Some n" "list_all dep_name_char n" using assms by (auto simp: dep_wf_def)
  have "CHR ''@'' \<notin> set n" using n(2) by (auto simp: list_all_iff dep_name_char_def)
  then have at: "apk_blob_split (Some n) (Some ''@'') = None" by (simp add: apk_blob_split_char)
  have cs: "apk_blob_cspn (Some (dep_text dep @ rest)) APK_CTYPE_DEPENDENCY_SEPARATOR =
      (rest \<noteq> [], Some (dep_text dep), Some rest)"
    using cspn_split [of "dep_text dep" APK_CTYPE_DEPENDENCY_SEPARATOR rest] dep_text_no_sep [OF assms(1)] assms(2)
    by blast
  have op: "dep_op dep < 32" using assms by (simp add: dep_wf_def)
  have broken: "(dep_op dep AND APK_DEPMASK_CHECKSUM \<noteq> APK_DEPMASK_CHECKSUM \<and>
      \<not> apk_version_validate (if dep_version dep = [] then None else Some (dep_version dep))) = dep_broken dep"
    using assms(1) op_string_any [OF _ op] op_string_printable [OF _ op]
    by (auto simp: dep_wf_def dep_base_op split: if_splits)
  have "\<lparr>dep_name = Some n, dep_version = atomize (if dep_version dep = [] then None else Some (dep_version dep)),
      dep_op = dep_op dep, dep_broken = dep_broken dep, dep_repository_tag = 0, dep_layer = 0\<rparr> = dep"
    using n(1) assms(1) by (auto simp: dep_wf_def atomize_def intro!: apk_dependency.equality)
  then show ?thesis
    using cs dep_parse_text [OF assms(1)] n(1) at broken
    by (simp add: apk_blob_pull_dep_def apk_blob_spn_def Let_def del: if_split)
qed

fun deps_text :: "apk_dependency list \<Rightarrow> bytes" where
  "deps_text [] = []"
| "deps_text [d] = dep_text d"
| "deps_text (d # ds) = dep_text d @ CHR '' '' # deps_text ds"

definition deps_rc :: "apk_error option \<Rightarrow> apk_dependency list \<Rightarrow> apk_error option" where
  "deps_rc rc ds = (if list_ex dep_broken ds then Some APKE_PKGVERSION_FORMAT else rc)"

lemma pull_deps_text:
  assumes "\<forall>d \<in> set ds. dep_wf d" "rc = None \<or> rc = Some APKE_PKGVERSION_FORMAT"
  shows "pull_deps_loop (Some (deps_text ds)) db allow_tag acc rc = (deps_rc rc ds, Some [], acc @ ds, db)"
  using assms
proof (induction ds arbitrary: acc rc rule: deps_text.induct)
  case 1
  then show ?case by (subst pull_deps_loop.simps) (simp add: deps_rc_def)
next
  case (2 d)
  then have wf: "dep_wf d" by simp
  obtain n where "dep_name d = Some n" using wf by (auto simp: dep_wf_def)
  moreover have "apk_blob_pull_dep (Some (dep_text d)) db allow_tag = (d, Some [], db)"
    using pull_dep_text [OF wf, of "[]"] by simp
  ultimately show ?case
    using dep_text_nonempty [OF wf] 2
    by (subst pull_deps_loop.simps, subst pull_deps_loop.simps) (auto simp: blob_len_def deps_rc_def)
next
  case (3 d d' ds)
  then have wf: "dep_wf d" and wf': "dep_wf d'" by simp_all
  have sep: "in_ctype APK_CTYPE_DEPENDENCY_SEPARATOR CHR '' ''" by (simp add: in_dep_separator)
  obtain x xs where t: "deps_text (d' # ds) = x # xs" "x \<in> set (dep_text d')"
    using dep_text_nonempty [OF wf'] by (cases ds; cases "dep_text d'") auto
  have "dropWhile (in_ctype APK_CTYPE_DEPENDENCY_SEPARATOR) (CHR '' '' # deps_text (d' # ds)) = deps_text (d' # ds)"
    using sep t dep_text_no_sep [OF wf'] by simp
  then have pull: "apk_blob_pull_dep (Some (deps_text (d # d' # ds))) db allow_tag =
      (d, Some (deps_text (d' # ds)), db)"
    using pull_dep_text [OF wf, of "CHR '' '' # deps_text (d' # ds)" db allow_tag] sep by simp
  obtain n where "dep_name d = Some n" using wf by (auto simp: dep_wf_def)
  then have "pull_deps_loop (Some (deps_text (d # d' # ds))) db allow_tag acc rc =
      pull_deps_loop (Some (deps_text (d' # ds))) db allow_tag (acc @ [d])
        (if dep_broken d then Some APKE_PKGVERSION_FORMAT else rc)"
    using pull by (subst pull_deps_loop.simps) (simp add: blob_len_def)
  then show ?case
    using "3.IH" [of "if dep_broken d then Some APKE_PKGVERSION_FORMAT else rc" "acc @ [d]"] "3.prems"
    by (auto simp: deps_rc_def)
qed

lemma push_dep_text:
  assumes "dep_wf dep"
  shows "apk_blob_push_dep to None dep = Ret (apk_blob_push_blob to (Some (dep_text dep)))"
proof -
  obtain n where n: "dep_name dep = Some n" "list_all dep_name_char n" using assms by (auto simp: dep_wf_def)
  have "cstr n = n" using n(2) by (auto simp: cstr_def takeWhile_eq_all_conv list_all_iff dep_name_char_def)
  then show ?thesis
    using n(1) by (simp add: apk_blob_push_dep_def Let_def dep_text_def push_blob_append)
qed

lemma push_deps_text:
  assumes "\<forall>d \<in> set ds. dep_wf d"
  shows "push_deps_loop to None first ds =
    Ret (apk_blob_push_blob to (Some (if first \<or> ds = [] then deps_text ds else CHR '' '' # deps_text ds)))"
  using assms
proof (induction ds arbitrary: to first)
  case (Cons d ds)
  have dt: "deps_text (d # ds) = dep_text d @ (if ds = [] then [] else CHR '' '' # deps_text ds)"
    by (cases ds) auto
  show ?case
    using Cons.prems Cons.IH by (simp add: push_dep_text dt push_blob_append Let_def)
qed simp

subsection \<open>Arrays of dependencies\<close>

definition deps_map :: "apk_dependency list \<Rightarrow> bytes option \<Rightarrow> apk_dependency option" where
  "deps_map ds = map_of (map (\<lambda>d. (dep_name d, d)) ds)"

definition deps_distinct :: "apk_dependency list \<Rightarrow> bool" where
  "deps_distinct ds \<longleftrightarrow> distinct (map dep_name ds)"

lemma deps_add_names: "set (map dep_name (apk_deps_add ds d)) = insert (dep_name d) (set (map dep_name ds))"
  by (induction ds d rule: apk_deps_add.induct) auto

lemma deps_add_spec:
  "deps_distinct ds \<Longrightarrow>
   deps_distinct (apk_deps_add ds d) \<and> deps_map (apk_deps_add ds d) = (deps_map ds)(dep_name d \<mapsto> d)"
proof (induction ds d rule: apk_deps_add.induct)
  case (2 d0 ds dep)
  then show ?case using deps_add_names [of ds dep]
    by (auto simp: deps_distinct_def deps_map_def fun_eq_iff)
qed (simp add: deps_distinct_def deps_map_def)

lemma find_index:
  "List.find (\<lambda>i. P (xs ! i)) [0..<length xs] = Some i \<Longrightarrow> i < length xs \<and> P (xs ! i)"
  by (auto simp: find_Some_iff)

lemma butlast_update_last:
  assumes "i < length xs" "distinct xs"
  shows "set (butlast (xs[i := last xs])) = set xs - {xs ! i}" "distinct (butlast (xs[i := last xs]))"
proof -
  obtain ys z where xs: "xs = ys @ [z]" using assms(1) by (metis length_0_conv not_less_zero rev_exhaust)
  have "butlast (xs[i := last xs]) = (if i = length ys then ys else ys[i := z])"
    using assms(1) by (auto simp: xs list_update_append)
  moreover have "set (ys[i := z]) = insert z (set ys - {ys ! i})" "distinct (ys[i := z])" if "i < length ys"
    using that assms(2) by (auto simp: xs set_update_distinct distinct_list_update)
  ultimately show "set (butlast (xs[i := last xs])) = set xs - {xs ! i}" "distinct (butlast (xs[i := last xs]))"
    using assms by (auto simp: xs nth_append)
qed

lemma option_expand_iff: "(\<And>d. x = Some d \<longleftrightarrow> y = Some d) \<Longrightarrow> x = y"
  by (cases x; cases y) auto

lemma deps_map_Some:
  "deps_distinct ds \<Longrightarrow> deps_map ds n = Some d \<longleftrightarrow> d \<in> set ds \<and> dep_name d = n"
  unfolding deps_distinct_def deps_map_def
  by (subst map_of_eq_Some_iff) (auto simp: comp_def)

lemma deps_del_spec:
  assumes "deps_distinct ds"
  shows "deps_distinct (apk_deps_del ds n) \<and> deps_map (apk_deps_del ds n) = (deps_map ds)(Some n := None)"
proof (cases "List.find (\<lambda>i. dep_name (ds ! i) = Some n) [0..<length ds]")
  case None
  then have "\<forall>d \<in> set ds. dep_name d \<noteq> Some n" by (auto simp: find_None_iff in_set_conv_nth)
  then have "deps_map ds (Some n) = None"
    using deps_map_Some [OF assms, of "Some n"] by (cases "deps_map ds (Some n)") auto
  then show ?thesis using None assms by (auto simp: apk_deps_del_def)
next
  case (Some i)
  then have i: "i < length ds" "dep_name (ds ! i) = Some n" using find_index [of "\<lambda>d. dep_name d = Some n"] by auto
  let ?ds = "butlast (ds[i := last ds])"
  have ne: "ds \<noteq> []" using i by auto
  have m: "map dep_name ?ds = butlast ((map dep_name ds)[i := last (map dep_name ds)])"
    using ne by (simp add: map_butlast map_update last_map)
  have "distinct ds" using assms by (simp add: deps_distinct_def distinct_map)
  note upd = butlast_update_last [OF i(1) this]
  have dn: "distinct (map dep_name ?ds)"
    unfolding m using i(1) assms by (intro butlast_update_last(2)) (simp_all add: deps_distinct_def)
  then have d: "deps_distinct ?ds" by (simp add: deps_distinct_def)
  have inj: "x = ds ! i" if "x \<in> set ds" "dep_name x = Some n" for x
    using that i inj_onD [of dep_name "set ds" x "ds ! i"] nth_mem [OF i(1)] assms
    by (simp add: deps_distinct_def distinct_map)
  have "deps_map ?ds k = ((deps_map ds)(Some n := None)) k" for k
  proof (rule option_expand_iff)
    fix d
    show "deps_map ?ds k = Some d \<longleftrightarrow> ((deps_map ds)(Some n := None)) k = Some d"
      using upd(1) inj i(2) by (auto simp: deps_map_Some [OF d] deps_map_Some [OF assms])
  qed
  then show ?thesis using d Some by (simp add: apk_deps_del_def fun_eq_iff)
qed

lemma version_12_valid: "apk_version_validate (Some ''1.2'')"
  by (simp add: apk_version_validate_def version_eval validate_loop.simps token_next_def)

section \<open>Properties\<close>

text \<open>
  C30. The text form of dependency lists round-trips: pushing well-formed dependencies into a buffer
  and reading the text back gives the same dependencies, and the result code says whether one
  of them has an invalid version.
\<close>

theorem deps_roundtrip:
  assumes "\<forall>d \<in> set ds. dep_wf d"
    "apk_blob_push_deps (APK_BLOB_BUF n) None (Some ds) = Ret (Some (txt, room))"
  shows "apk_blob_pull_deps (Some txt) db [] allow_tag =
    (if list_ex dep_broken ds then Some APKE_PKGVERSION_FORMAT else None, Some [], ds, db)"
proof -
  have "txt = deps_text ds"
    using assms push_deps_text [OF assms(1), of "APK_BLOB_BUF n" True]
    by (auto simp: apk_blob_push_deps_def APK_BLOB_BUF_def apk_blob_push_blob_simps split: if_splits)
  then show ?thesis
    using pull_deps_text [OF assms(1), of None db allow_tag "[]"]
    by (simp add: apk_blob_pull_deps_def deps_rc_def)
qed

theorem deps_roundtrip_witness:
  "case apk_blob_push_deps (APK_BLOB_BUF 64) None
     (Some [\<lparr>dep_name = Some ''musl'', dep_version = ''1.2'', dep_op = 5, dep_broken = False,
             dep_repository_tag = 0, dep_layer = 0\<rparr>,
            \<lparr>dep_name = Some ''foo'', dep_version = [], dep_op = 23, dep_broken = False,
             dep_repository_tag = 0, dep_layer = 0\<rparr>]) of
     Ret (Some (txt, room)) \<Rightarrow>
       txt = ''musl>=1.2 !foo'' \<and>
       fst (apk_blob_pull_deps (Some txt) \<lparr>repo_tag = [], num_repo_tags = 0\<rparr> [] False) = None
   | _ \<Rightarrow> False"
proof -
  let ?a = "\<lparr>dep_name = Some ''musl'', dep_version = ''1.2'', dep_op = 5, dep_broken = False,
    dep_repository_tag = 0, dep_layer = 0\<rparr>"
  let ?b = "\<lparr>dep_name = Some ''foo'', dep_version = [], dep_op = 23, dep_broken = False,
    dep_repository_tag = 0, dep_layer = 0\<rparr>"
  let ?ds = "[?a, ?b]"
  have "dep_wf ?a" "dep_wf ?b"
    using version_12_valid
    by (simp_all add: dep_wf_def dep_base_op op_base_cases printable_ops_def dep_name_char_def
        dep_version_char_def version_consts)
  then have wf: "\<forall>d \<in> set ?ds. dep_wf d" by simp
  have push: "apk_blob_push_deps (APK_BLOB_BUF 64) None (Some ?ds) = Ret (Some (''musl>=1.2 !foo'', 50))"
    using push_deps_text [OF wf, of "APK_BLOB_BUF 64" True]
    by (simp add: apk_blob_push_deps_def APK_BLOB_BUF_def apk_blob_push_blob_def blob_len_def dep_text_def
        apk_dep_conflict_def apk_version_op_string_def version_consts)
  from deps_roundtrip [OF wf push, of "\<lparr>repo_tag = [], num_repo_tags = 0\<rparr>" False]
  show ?thesis unfolding push by simp
qed

text \<open>
  Dependency arrays with one entry per name are finite maps: adding replaces the entry of the
  name or appends a new one, deleting removes it, and both keep the names distinct.
\<close>

lemma deps_add_del_map:
  assumes "deps_distinct ds"
  shows "deps_distinct (apk_deps_add ds d) \<and> deps_map (apk_deps_add ds d) = (deps_map ds)(dep_name d \<mapsto> d) \<and>
    deps_distinct (apk_deps_del ds n) \<and> deps_map (apk_deps_del ds n) = (deps_map ds)(Some n := None)"
  using deps_add_spec [OF assms] deps_del_spec [OF assms] by blast

lemma deps_add_del_map_witness:
  "deps_map (apk_deps_del [null_dependency\<lparr>dep_name := Some ''a''\<rparr>, null_dependency\<lparr>dep_name := Some ''b''\<rparr>] ''a'')
     (Some ''a'') = None"
  using deps_add_del_map
    [of "[null_dependency\<lparr>dep_name := Some ''a''\<rparr>, null_dependency\<lparr>dep_name := Some ''b''\<rparr>]" null_dependency "''a''"]
  by (simp add: deps_distinct_def null_dependency_def)

text \<open>
  The parser accepts operator combinations that have no text form: a dependency with the
  operator \<open><=>\<close> is read as any version with a version attached, and its text is the name
  followed by the version, which names another package.
\<close>

lemma dep_any_with_version_ambiguous:
  "apk_dep_parse (Some ''foo<=>1'') = Some (Some ''foo'', APK_DEPMASK_ANY, Some ''1'') \<and>
   apk_blob_push_dep (APK_BLOB_BUF 64) None (fst (apk_blob_pull_dep (Some ''foo<=>1'') db False)) =
     Ret (Some (''foo1'', 60)) \<and>
   apk_dep_parse (Some ''foo1'') = Some (Some ''foo1'', APK_DEPMASK_ANY, None)"
proof -
  have at: "apk_blob_split (Some ''foo'') (Some ''@'') = None" by (simp add: apk_blob_split_char)
  have parse: "apk_dep_parse (Some ''foo<=>1'') = Some (Some ''foo'', 7, Some ''1'')"
    by (simp add: apk_dep_parse_def apk_blob_pull_blob_match_def blob_len_def apk_blob_cspn_def
        apk_blob_spn_def in_comparer apk_version_result_mask_blob_def version_consts)
  then have pull: "fst (apk_blob_pull_dep (Some ''foo<=>1'') db False) =
      \<lparr>dep_name = Some ''foo'', dep_version = ''1'', dep_op = 7, dep_broken = False,
       dep_repository_tag = 0, dep_layer = 0\<rparr>"
    using at
    by (simp add: apk_blob_pull_dep_def apk_blob_cspn_def apk_blob_spn_def in_dep_separator atomize_def
        version_consts Let_def)
  have "apk_blob_push_dep (APK_BLOB_BUF 64) None (fst (apk_blob_pull_dep (Some ''foo<=>1'') db False)) =
      Ret (Some (''foo1'', 60))"
    by (simp add: pull apk_blob_push_dep_def APK_BLOB_BUF_def apk_blob_push_blob_def blob_len_def
        apk_dep_conflict_def apk_version_op_string_def version_consts cstr_def)
  moreover have "apk_dep_parse (Some ''foo1'') = Some (Some ''foo1'', APK_DEPMASK_ANY, None)"
    by (simp add: apk_dep_parse_def apk_blob_pull_blob_match_def blob_len_def apk_blob_cspn_def in_comparer)
  ultimately show ?thesis using parse by (simp add: version_consts)
qed

text \<open>
  When all sixteen repository tags are in use, a dependency with a new tag is read with tag
  number 63 (the error value in six bits), and printing it reads beyond the array of tags.
\<close>

lemma dep_tag_overflow:
  assumes "length (repo_tag db) = APK_MAX_TAGS" "num_repo_tags db = APK_MAX_TAGS"
    "\<forall>t \<in> set (repo_tag db). rt_plain_name t \<noteq> Some ''edge''"
    "\<forall>t \<in> set (repo_tag db). rt_plain_name t \<noteq> None"
  shows "dep_repository_tag (fst (apk_blob_pull_dep (Some ''foo@edge'') db True)) = 63 \<and>
    apk_blob_push_dep to (Some db) (fst (apk_blob_pull_dep (Some ''foo@edge'') db True)) = Fault"
proof -
  have none: "find_tag rt_plain_name ts (Some ''edge'') i = None"
    if "\<forall>t \<in> set ts. rt_plain_name t \<noteq> Some ''edge'' \<and> rt_plain_name t \<noteq> None" for ts i
    using that by (induction ts arbitrary: i) (auto simp: apk_blob_compare_eq_0)
  have "set (drop 1 (take 16 (repo_tag db))) \<subseteq> set (repo_tag db)"
    by (meson order_trans set_drop_subset set_take_subset)
  then have ft: "find_tag rt_plain_name (drop 1 (take 16 (repo_tag db))) (Some ''edge'') 1 = None"
    using assms(3,4) by (intro none) auto
  have at: "apk_blob_split (Some ''foo@edge'') (Some ''@'') = Some (Some ''foo'', Some ''edge'')"
    by (simp add: apk_blob_split_char)
  have tag: "apk_db_get_tag_id db (Some ''edge'') = (- 1, db)"
    using assms(1,2) ft by (simp add: apk_db_get_tag_id_def starts_with_at_def APK_MAX_TAGS_def Let_def)
  have parse: "apk_dep_parse (Some ''foo@edge'') = Some (Some ''foo@edge'', APK_DEPMASK_ANY, None)"
    by (simp add: apk_dep_parse_def apk_blob_pull_blob_match_def blob_len_def apk_blob_cspn_def in_comparer)
  have "dep_repository_tag (fst (apk_blob_pull_dep (Some ''foo@edge'') db True)) = 63"
    using at tag parse
    by (simp add: apk_blob_pull_dep_def apk_blob_cspn_def apk_blob_spn_def in_dep_separator Let_def)
  then show ?thesis
    using assms(1) by (simp add: apk_blob_push_dep_def APK_MAX_TAGS_def Let_def)
qed

lemma dep_tag_overflow_witness:
  "apk_blob_push_dep (APK_BLOB_BUF 64) (Some \<lparr>repo_tag = replicate 16 \<lparr>rt_tag = Some ''@a'', rt_plain_name = Some ''a''\<rparr>,
      num_repo_tags = 16\<rparr>)
     (fst (apk_blob_pull_dep (Some ''foo@edge'') \<lparr>repo_tag = replicate 16 \<lparr>rt_tag = Some ''@a'', rt_plain_name = Some ''a''\<rparr>,
        num_repo_tags = 16\<rparr> True)) = Fault"
  using dep_tag_overflow
    [of "\<lparr>repo_tag = replicate 16 \<lparr>rt_tag = Some ''@a'', rt_plain_name = Some ''a''\<rparr>, num_repo_tags = 16\<rparr>"
      "APK_BLOB_BUF 64"]
  by (simp add: APK_MAX_TAGS_def)

end
