(* ===== verification/Package.thy ===== *)
theory Package
  imports Dependency Subst
begin

text \<open>
  Packages of \<^verbatim>\<open>package.c\<close>: the package record and its installed part, matching of dependencies
  against packages, the fields of an index entry (reading and writing), package file names, the
  priorities by which packages replace each other's files, and the iteration over dependencies.
  A package has an address, which is its identity; names and atoms are strings as in
  \<open>Dependency\<close>. Streams are modelled by the bytes written to them.
\<close>

section \<open>Data\<close>

definition APK_SCRIPT_MAX :: nat where "APK_SCRIPT_MAX = 7"
definition APK_SCRIPT_INVALID :: int where "APK_SCRIPT_INVALID = - 1"
definition APK_MAX_SCRIPT_SIZE :: nat where "APK_MAX_SCRIPT_SIZE = 262144"

record apk_installed_package =
  ipkg_diris :: "nat list"
  ipkg_script :: "blob list"
  ipkg_triggers :: "bytes list"
  ipkg_pending_triggers :: "bytes list"
  ipkg_replaces :: "apk_dependency list"
  ipkg_replaces_priority :: nat
  ipkg_repository_tag :: nat
  ipkg_run_all_triggers :: bool
  ipkg_broken_files :: bool
  ipkg_broken_script :: bool
  ipkg_broken_xattr :: bool
  ipkg_sha256_160 :: bool
  ipkg_to_be_removed :: bool

record apk_package =
  pkg_addr :: nat
  pkg_name :: "bytes option"
  pkg_ipkg :: "apk_installed_package option"
  pkg_depends :: "apk_dependency list"
  pkg_install_if :: "apk_dependency list"
  pkg_provides :: "apk_dependency list"
  pkg_recommends :: "apk_dependency list"
  pkg_tags :: "bytes list"
  pkg_version :: "bytes option"
  pkg_arch :: bytes
  pkg_license :: bytes
  pkg_origin :: bytes
  pkg_maintainer :: bytes
  pkg_url :: bytes
  pkg_description :: bytes
  pkg_commit :: bytes
  pkg_installed_size :: u64
  pkg_size :: u64
  pkg_build_time :: u64
  pkg_foreach_genid :: u32
  pkg_repos :: u32
  pkg_provider_priority :: u16
  pkg_filename_ndx :: nat
  pkg_marked :: bool
  pkg_uninstallable :: bool
  pkg_cached_non_repository :: bool
  pkg_cached :: bool
  pkg_layer :: nat
  pkg_digest_alg :: nat
  pkg_digest :: bytes

definition apk_pkg_hash_blob :: "apk_package \<Rightarrow> blob" where
  "apk_pkg_hash_blob pkg = Some (take APK_DIGEST_LENGTH_SHA1 (pkg_digest pkg))"

definition apk_pkg_digest_blob :: "apk_package \<Rightarrow> blob" where
  "apk_pkg_digest_blob pkg = Some (take (apk_digest_alg_len (pkg_digest_alg pkg)) (pkg_digest pkg))"

text \<open>The version atom; a template without a version has a NULL pointer there.\<close>

definition pkg_ver :: "apk_package \<Rightarrow> blob" where
  "pkg_ver pkg = Some (the (pkg_version pkg))"

text \<open>A provider: a package and the version under which it provides a name.\<close>

record apk_provider =
  prov_pkg :: "apk_package option"
  prov_version :: bytes

definition APK_PROVIDER_FROM_PACKAGE :: "apk_package \<Rightarrow> apk_provider" where
  "APK_PROVIDER_FROM_PACKAGE pkg = \<lparr>prov_pkg = Some pkg, prov_version = the (pkg_version pkg)\<rparr>"

definition APK_PROVIDER_FROM_PROVIDES :: "apk_package \<Rightarrow> apk_dependency \<Rightarrow> apk_provider" where
  "APK_PROVIDER_FROM_PROVIDES pkg p = \<lparr>prov_pkg = Some pkg, prov_version = dep_version p\<rparr>"

section \<open>Installing\<close>

text \<open>The installed package among the providers of a name.\<close>

definition apk_pkg_get_installed :: "bytes \<Rightarrow> apk_provider list \<Rightarrow> apk_package option" where
  "apk_pkg_get_installed name providers =
     List.find (\<lambda>p. pkg_name p = Some name \<and> pkg_ipkg p \<noteq> None) (map (the \<circ> prov_pkg) providers)"

text \<open>The installed packages, those with triggers, and the statistics of the database.\<close>

record installed_db =
  idb_packages :: "nat list"
  idb_triggers :: "nat list"
  idb_sorted_installed_packages :: bool
  idb_num_packages :: u32
  idb_bytes :: u64

definition new_installed_package :: apk_installed_package where
  "new_installed_package =
     \<lparr>ipkg_diris = [], ipkg_script = replicate APK_SCRIPT_MAX None, ipkg_triggers = [], ipkg_pending_triggers = [],
      ipkg_replaces = [], ipkg_replaces_priority = 0, ipkg_repository_tag = 0,
      ipkg_run_all_triggers = False, ipkg_broken_files = False, ipkg_broken_script = False,
      ipkg_broken_xattr = False, ipkg_sha256_160 = False, ipkg_to_be_removed = False\<rparr>"

definition apk_pkg_install :: "installed_db \<Rightarrow> apk_package \<Rightarrow> installed_db \<times> apk_package" where
  "apk_pkg_install db pkg =
     (if pkg_ipkg pkg \<noteq> None then (db, pkg)
      else
        (if pkg_name pkg \<noteq> None
         then db\<lparr>idb_sorted_installed_packages := False, idb_num_packages := idb_num_packages db + 1,
                idb_bytes := idb_bytes db + pkg_installed_size pkg,
                idb_packages := idb_packages db @ [pkg_addr pkg]\<rparr>
         else db,
         pkg\<lparr>pkg_ipkg := Some new_installed_package\<rparr>))"

definition apk_pkg_uninstall :: "installed_db \<Rightarrow> apk_package \<Rightarrow> installed_db \<times> apk_package" where
  "apk_pkg_uninstall db pkg =
     (if pkg_ipkg pkg = None then (db, pkg)
      else
        (db\<lparr>idb_sorted_installed_packages := False, idb_num_packages := idb_num_packages db - 1,
           idb_bytes := idb_bytes db - pkg_installed_size pkg,
           idb_packages := remove1 (pkg_addr pkg) (idb_packages db),
           idb_triggers :=
             (if ipkg_triggers (the (pkg_ipkg pkg)) \<noteq> [] then remove1 (pkg_addr pkg) (idb_triggers db)
              else idb_triggers db)\<rparr>,
         pkg\<lparr>pkg_ipkg := None\<rparr>))"

text \<open>The triggers of an installed package (\<^verbatim>\<open>database.c\<close>).\<close>

definition apk_db_pkg_add_triggers ::
  "installed_db \<Rightarrow> apk_package \<Rightarrow> blob \<Rightarrow> (installed_db \<times> apk_package) option" where
  "apk_db_pkg_add_triggers db pkg triggers =
     (case apk_blob_foreach_token triggers (Some '' '') of
        None \<Rightarrow> None
      | Some ws \<Rightarrow>
          let ipkg = the (pkg_ipkg pkg); ts = ipkg_triggers ipkg @ map (\<lambda>w. cstr (apk_blob_cstr (Some w))) ws in
          Some (if ts \<noteq> [] \<and> pkg_addr pkg \<notin> set (idb_triggers db)
                then db\<lparr>idb_triggers := idb_triggers db @ [pkg_addr pkg]\<rparr> else db,
                pkg\<lparr>pkg_ipkg := Some (ipkg\<lparr>ipkg_triggers := ts\<rparr>)\<rparr>))"

text \<open>
  Reinstalling a package drops its triggers first, and unlinks it only when it had any. The triggers
  of an archive replace those of the package: in a control file by lines \<^verbatim>\<open>triggers = ...\<close>, in the
  binary format as an array of blobs. Neither unlinks a package that is left without triggers.
\<close>

definition clear_triggers :: "installed_db \<Rightarrow> apk_package \<Rightarrow> installed_db \<times> apk_package" where
  "clear_triggers db pkg =
     (let ipkg = the (pkg_ipkg pkg) in
      if ipkg_triggers ipkg \<noteq> []
      then (db\<lparr>idb_triggers := remove1 (pkg_addr pkg) (idb_triggers db)\<rparr>, pkg\<lparr>pkg_ipkg := Some (ipkg\<lparr>ipkg_triggers := []\<rparr>)\<rparr>)
      else (db, pkg))"

definition set_triggers_v2 :: "installed_db \<Rightarrow> apk_package \<Rightarrow> blob \<Rightarrow> (installed_db \<times> apk_package) option" where
  "set_triggers_v2 db pkg triggers =
     apk_db_pkg_add_triggers db (pkg\<lparr>pkg_ipkg := Some ((the (pkg_ipkg pkg))\<lparr>ipkg_triggers := []\<rparr>)\<rparr>) triggers"

definition set_triggers_v3 :: "installed_db \<Rightarrow> apk_package \<Rightarrow> blob list \<Rightarrow> installed_db \<times> apk_package" where
  "set_triggers_v3 db pkg triggers =
     (let ts = map (\<lambda>b. cstr (apk_blob_cstr b)) triggers in
      (if ts \<noteq> [] \<and> pkg_addr pkg \<notin> set (idb_triggers db)
       then db\<lparr>idb_triggers := idb_triggers db @ [pkg_addr pkg]\<rparr> else db,
       pkg\<lparr>pkg_ipkg := Some ((the (pkg_ipkg pkg))\<lparr>ipkg_triggers := ts\<rparr>)\<rparr>))"

text \<open>
  A line of the control file of an archive that is being installed. The fields that are not about
  the installed package go to the reader of the archive; they are part of the result.
\<close>

definition install_info_line ::
  "installed_db \<Rightarrow> repo_tags \<Rightarrow> apk_package \<Rightarrow> blob \<Rightarrow>
   (installed_db \<times> repo_tags \<times> apk_package \<times> (blob \<times> blob) option) option" where
  "install_info_line db tags pkg line =
     (if line = None \<or> blob_len line < 1 \<or> hd (blob_bytes line) = CHR ''#'' then Some (db, tags, pkg, None)
      else
        case apk_blob_split line (Some '' = '') of
          None \<Rightarrow> Some (db, tags, pkg, None)
        | Some (l, r) \<Rightarrow>
            let ipkg = the (pkg_ipkg pkg) in
            if apk_blob_compare (Some ''replaces'') l = 0 then
              (case apk_blob_pull_deps r tags (ipkg_replaces ipkg) False of
                 (_, _, deps, tags) \<Rightarrow> Some (db, tags, pkg\<lparr>pkg_ipkg := Some (ipkg\<lparr>ipkg_replaces := deps\<rparr>)\<rparr>, None))
            else if apk_blob_compare (Some ''replaces_priority'') l = 0 then
              Some (db, tags, pkg\<lparr>pkg_ipkg := Some (ipkg\<lparr>ipkg_replaces_priority :=
                unat (ucast (fst (apk_blob_pull_uint r 10)) :: u16)\<rparr>)\<rparr>, None)
            else if apk_blob_compare (Some ''triggers'') l = 0 then
              map_option (\<lambda>(db, pkg). (db, tags, pkg, None)) (set_triggers_v2 db pkg r)
            else Some (db, tags, pkg, Some (l, r)))"

section \<open>File names\<close>

definition apk_pkg_subst :: "apk_package \<Rightarrow> resolver" where
  "apk_pkg_subst pkg key to =
     (if apk_blob_compare key (Some ''name'') = 0
      then (None, apk_blob_push_blob to (Some (cstr (the (pkg_name pkg)))))
      else if apk_blob_compare key (Some ''version'') = 0 then (None, apk_blob_push_blob to (pkg_ver pkg))
      else if apk_blob_compare key (Some ''arch'') = 0 then (None, apk_blob_push_blob to (Some (pkg_arch pkg)))
      else if apk_blob_compare key (Some ''hash'') = 0
      then (None, apk_blob_push_hexdump to (apk_pkg_digest_blob pkg))
      else (Some APKE_PACKAGE_NAME_SPEC, to))"

definition null_package :: apk_package where
  "null_package =
     \<lparr>pkg_addr = 0, pkg_name = None, pkg_ipkg = None, pkg_depends = [], pkg_install_if = [],
      pkg_provides = [], pkg_recommends = [], pkg_tags = [], pkg_version = None, pkg_arch = [],
      pkg_license = [], pkg_origin = [], pkg_maintainer = [], pkg_url = [], pkg_description = [],
      pkg_commit = [], pkg_installed_size = 0, pkg_size = 0, pkg_build_time = 0, pkg_foreach_genid = 0,
      pkg_repos = 0, pkg_provider_priority = 0, pkg_filename_ndx = 0, pkg_marked = False,
      pkg_uninstallable = False, pkg_cached_non_repository = False, pkg_cached = False, pkg_layer = 0,
      pkg_digest_alg = 0, pkg_digest = []\<rparr>"

definition test_package :: apk_package where
  "test_package = null_package\<lparr>pkg_name := Some ''test'', pkg_version := Some ''1'', pkg_arch := ''noarch'',
     pkg_digest_alg := APK_DIGEST_NONE\<rparr>"

definition apk_pkg_subst_validate :: "nat \<Rightarrow> blob \<Rightarrow> (apk_error option) outcome" where
  "apk_pkg_subst_validate base fmt =
     (case apk_blob_subst base 1024 fmt (apk_pkg_subst test_package) of
        Fault \<Rightarrow> Fault
      | Ret (Inl e) \<Rightarrow> Ret (Some e)
      | Ret (Inr _) \<Rightarrow>
          let fmt = (case apk_blob_rsplit fmt CHR ''/'' of Some (_, r) \<Rightarrow> r | None \<Rightarrow> fmt) in
          if \<not> apk_blob_starts_with fmt (Some ''${name}'') then Ret (Some APKE_PACKAGE_NAME_SPEC)
          else if blob_len fmt < 8 \<or> blob_bytes fmt ! 7 \<notin> set ''_-.'' \<union> {NUL}
          then Ret (Some APKE_PACKAGE_NAME_SPEC)
          else Ret None)"

section \<open>Matching dependencies\<close>

definition apk_dep_from_pkg :: "apk_package \<Rightarrow> apk_dependency" where
  "apk_dep_from_pkg pkg =
     null_dependency\<lparr>dep_name := pkg_name pkg,
       dep_version := atomize (apk_blob_pushed 64 (apk_blob_push_hash (APK_BLOB_BUF 64) (apk_pkg_hash_blob pkg))),
       dep_op := APK_DEPMASK_CHECKSUM\<rparr>"

text \<open>The local digest starts uninitialised; only the part that was decoded is compared.\<close>

definition digest_uninit :: apk_digest where
  "digest_uninit = \<lparr>dg_alg = 0, dg_len = 0, dg_data = replicate APK_DIGEST_LENGTH_MAX NUL\<rparr>"

definition apk_dep_match_checksum :: "apk_dependency \<Rightarrow> apk_package \<Rightarrow> bool outcome" where
  "apk_dep_match_checksum dep pkg =
     (case apk_blob_pull_digest (Some (dep_version dep)) digest_uninit of
        Fault \<Rightarrow> Fault
      | Ret (_, d) \<Rightarrow> Ret (apk_blob_compare (APK_DIGEST_BLOB d) (apk_pkg_hash_blob pkg) = 0))"

definition apk_dep_is_provided ::
  "apk_package option \<Rightarrow> apk_dependency \<Rightarrow> apk_provider option \<Rightarrow> bool outcome" where
  "apk_dep_is_provided deppkg dep p =
     (case p of
        None \<Rightarrow> Ret (apk_dep_conflict dep)
      | Some prov \<Rightarrow>
         (case prov_pkg prov of
            None \<Rightarrow> Ret (apk_dep_conflict dep)
          | Some pkg \<Rightarrow>
              if apk_dep_conflict dep \<and> map_option pkg_addr deppkg = Some (pkg_addr pkg) then Ret True
              else if dep_op dep = APK_DEPMASK_CHECKSUM then apk_dep_match_checksum dep pkg
              else Ret (apk_version_match (Some (prov_version prov)) (dep_op dep) (Some (dep_version dep)))))"

definition apk_dep_is_materialized :: "apk_dependency \<Rightarrow> apk_package option \<Rightarrow> bool outcome" where
  "apk_dep_is_materialized dep pkg =
     (case pkg of
        None \<Rightarrow> Ret (apk_dep_conflict dep)
      | Some pkg \<Rightarrow>
          if dep_name dep \<noteq> pkg_name pkg then Ret (apk_dep_conflict dep)
          else if dep_op dep = APK_DEPMASK_CHECKSUM then apk_dep_match_checksum dep pkg
          else Ret (apk_version_match (pkg_ver pkg) (dep_op dep) (Some (dep_version dep))))"

definition APK_DEP_IRRELEVANT :: u32 where "APK_DEP_IRRELEVANT = 0x01"
definition APK_DEP_SATISFIES :: u32 where "APK_DEP_SATISFIES = 0x02"
definition APK_DEP_CONFLICTS :: u32 where "APK_DEP_CONFLICTS = 0x04"
definition APK_FOREACH_NO_CONFLICTS :: u32 where "APK_FOREACH_NO_CONFLICTS = 0x08"
definition APK_FOREACH_INSTALLED :: u32 where "APK_FOREACH_INSTALLED = 0x10"
definition APK_FOREACH_MARKED :: u32 where "APK_FOREACH_MARKED = 0x20"
definition APK_FOREACH_DEP :: u32 where "APK_FOREACH_DEP = 0x80"
definition APK_FOREACH_GENID_MASK :: u32 where "APK_FOREACH_GENID_MASK = 0xffffff00"

definition satisfied_code :: "bool outcome \<Rightarrow> u32 outcome" where
  "satisfied_code r =
     (case r of Fault \<Rightarrow> Fault | Ret b \<Rightarrow> Ret (if b then APK_DEP_SATISFIES else APK_DEP_CONFLICTS))"

definition apk_dep_analyze :: "apk_package option \<Rightarrow> apk_dependency \<Rightarrow> apk_package option \<Rightarrow> u32 outcome" where
  "apk_dep_analyze deppkg dep opkg =
     (case opkg of
        None \<Rightarrow> Ret APK_DEP_IRRELEVANT
      | Some pkg \<Rightarrow>
          if dep_name dep = pkg_name pkg then satisfied_code (apk_dep_is_materialized dep (Some pkg))
          else
            case List.find (\<lambda>p. dep_name p = dep_name dep) (pkg_provides pkg) of
              Some p \<Rightarrow> satisfied_code (apk_dep_is_provided deppkg dep (Some (APK_PROVIDER_FROM_PROVIDES pkg p)))
            | None \<Rightarrow> Ret APK_DEP_IRRELEVANT)"

text \<open>
  A dependency of an ADB object: match bits, version and name as they are stored there.
\<close>

definition apk_dep_from_adb :: "nat \<Rightarrow> blob \<Rightarrow> blob \<Rightarrow> apk_dependency" where
  "apk_dep_from_adb match ver name =
     (let op = (if ver = None then match OR APK_DEPMASK_ANY
                else if match = 0 then APK_VERSION_EQUAL else match)
      in null_dependency\<lparr>dep_name := Some (blob_bytes name), dep_version := atomize ver,
           dep_op := op mod 2 ^ 8\<rparr>)"

definition apk_deps_from_adb :: "(nat \<times> blob \<times> blob) list \<Rightarrow> apk_dependency list" where
  "apk_deps_from_adb da = map (\<lambda>(match, ver, name). apk_dep_from_adb match ver name) da"

section \<open>Scripts\<close>

definition apk_script_types :: "bytes list" where
  "apk_script_types = [''pre-install'', ''post-install'', ''pre-deinstall'', ''post-deinstall'',
     ''pre-upgrade'', ''post-upgrade'', ''trigger'']"

definition apk_script_type :: "bytes \<Rightarrow> int" where
  "apk_script_type name =
     (case List.find (\<lambda>i. apk_script_types ! i = cstr name) [0..<length apk_script_types] of
        Some i \<Rightarrow> int i
      | None \<Rightarrow> APK_SCRIPT_INVALID)"

definition apk_ipkg_assign_script ::
  "apk_installed_package \<Rightarrow> nat \<Rightarrow> blob \<Rightarrow> bool \<times> apk_installed_package" where
  "apk_ipkg_assign_script ipkg type b =
     (if b = None \<or> type \<ge> APK_SCRIPT_MAX then (False, ipkg)
      else (True, ipkg\<lparr>ipkg_script := (ipkg_script ipkg)[type := b]\<rparr>))"

text \<open>The script read from the stream (NULL if reading failed) is an argument.\<close>

definition apk_ipkg_add_script ::
  "apk_installed_package \<Rightarrow> blob \<Rightarrow> nat \<Rightarrow> nat \<Rightarrow> apk_error option \<times> bool \<times> apk_installed_package" where
  "apk_ipkg_add_script ipkg b type sz =
     (if sz > APK_MAX_SCRIPT_SIZE then (Some APKE_FORMAT_INVALID, False, ipkg)
      else case apk_ipkg_assign_script ipkg type b of (ok, ipkg') \<Rightarrow> (None, ok, ipkg'))"

section \<open>Index entries\<close>

record apk_package_tmpl =
  tmpl_pkg :: apk_package
  tmpl_id :: apk_digest

record compat_db =
  cdb_tags :: repo_tags
  cdb_newfeatures :: bool
  cdb_notinstallable :: bool
  cdb_depversions :: bool

definition apk_pkgtmpl_init :: apk_package_tmpl where
  "apk_pkgtmpl_init = \<lparr>tmpl_pkg = null_package, tmpl_id = digest_uninit\<rparr>"

definition apk_pkgtmpl_reset :: "apk_package_tmpl \<Rightarrow> apk_package_tmpl" where
  "apk_pkgtmpl_reset tmpl = apk_pkgtmpl_init"

text \<open>The result codes of adding a field: 0, 1, 2 and the format error.\<close>

datatype add_result = Info_ok | Info_fdb_entry | Info_unsupported | Info_error apk_error

definition set_atom ::
  "(apk_package \<Rightarrow> apk_package) \<Rightarrow> compat_db \<Rightarrow> apk_package_tmpl \<Rightarrow> blob \<Rightarrow>
   (add_result \<times> compat_db \<times> apk_package_tmpl) outcome" where
  "set_atom upd db tmpl value =
     Ret (if value = None then Info_error APKE_V2PKG_FORMAT else Info_ok, db,
          tmpl\<lparr>tmpl_pkg := upd (tmpl_pkg tmpl)\<rparr>)"

definition apk_pkgtmpl_add_info ::
  "compat_db \<Rightarrow> apk_package_tmpl \<Rightarrow> char \<Rightarrow> blob \<Rightarrow> (add_result \<times> compat_db \<times> apk_package_tmpl) outcome" where
  "apk_pkgtmpl_add_info db tmpl field value =
     (let pkg = tmpl_pkg tmpl; atom = atomize value in
      if field = CHR ''P'' then set_atom (\<lambda>p. p\<lparr>pkg_name := Some (blob_bytes value)\<rparr>) db tmpl value
      else if field = CHR ''V'' then set_atom (\<lambda>p. p\<lparr>pkg_version := Some atom\<rparr>) db tmpl value
      else if field = CHR ''T'' then set_atom (\<lambda>p. p\<lparr>pkg_description := atom\<rparr>) db tmpl value
      else if field = CHR ''U'' then set_atom (\<lambda>p. p\<lparr>pkg_url := atom\<rparr>) db tmpl value
      else if field = CHR ''L'' then set_atom (\<lambda>p. p\<lparr>pkg_license := atom\<rparr>) db tmpl value
      else if field = CHR ''A'' then set_atom (\<lambda>p. p\<lparr>pkg_arch := atom\<rparr>) db tmpl value
      else if field = CHR ''D'' then
        (case apk_blob_pull_deps value (cdb_tags db) (pkg_depends pkg) False of
           (rc, value', deps, tags) \<Rightarrow>
             let tmpl' = tmpl\<lparr>tmpl_pkg := pkg\<lparr>pkg_depends := deps\<rparr>\<rparr>; db' = db\<lparr>cdb_tags := tags\<rparr> in
             if rc \<noteq> None then
               Ret (Info_unsupported, db'\<lparr>cdb_depversions := True, cdb_notinstallable := True\<rparr>,
                    tmpl'\<lparr>tmpl_pkg := (tmpl_pkg tmpl')\<lparr>pkg_uninstallable := True\<rparr>\<rparr>)
             else Ret (if value' = None then Info_error APKE_V2PKG_FORMAT else Info_ok, db', tmpl'))
      else if field = CHR ''C'' then
        (case apk_blob_pull_digest value (tmpl_id tmpl) of
           Fault \<Rightarrow> Fault
         | Ret (value', d) \<Rightarrow>
             Ret (if value' = None then Info_error APKE_V2PKG_FORMAT else Info_ok, db, tmpl\<lparr>tmpl_id := d\<rparr>))
      else if field = CHR ''S'' then
        set_atom (\<lambda>p. p\<lparr>pkg_size := fst (apk_blob_pull_uint value 10)\<rparr>) db tmpl value
      else if field = CHR ''I'' then
        set_atom (\<lambda>p. p\<lparr>pkg_installed_size := fst (apk_blob_pull_uint value 10)\<rparr>) db tmpl value
      else if field = CHR ''p'' then
        (case apk_blob_pull_deps value (cdb_tags db) (pkg_provides pkg) False of
           (rc, value', deps, tags) \<Rightarrow>
             let tmpl' = tmpl\<lparr>tmpl_pkg := pkg\<lparr>pkg_provides := deps\<rparr>\<rparr>; db' = db\<lparr>cdb_tags := tags\<rparr> in
             if rc \<noteq> None then Ret (Info_unsupported, db'\<lparr>cdb_depversions := True\<rparr>, tmpl')
             else Ret (if value' = None then Info_error APKE_V2PKG_FORMAT else Info_ok, db', tmpl'))
      else if field = CHR ''i'' then
        (case apk_blob_pull_deps value (cdb_tags db) (pkg_install_if pkg) False of
           (rc, value', deps, tags) \<Rightarrow>
             let db' = db\<lparr>cdb_tags := tags\<rparr> in
             if rc \<noteq> None then
               Ret (Info_unsupported, db'\<lparr>cdb_depversions := True\<rparr>,
                    tmpl\<lparr>tmpl_pkg := pkg\<lparr>pkg_install_if := []\<rparr>\<rparr>)
             else Ret (if value' = None then Info_error APKE_V2PKG_FORMAT else Info_ok, db',
                       tmpl\<lparr>tmpl_pkg := pkg\<lparr>pkg_install_if := deps\<rparr>\<rparr>))
      else if field = CHR ''o'' then set_atom (\<lambda>p. p\<lparr>pkg_origin := atom\<rparr>) db tmpl value
      else if field = CHR ''m'' then set_atom (\<lambda>p. p\<lparr>pkg_maintainer := atom\<rparr>) db tmpl value
      else if field = CHR ''t'' then
        set_atom (\<lambda>p. p\<lparr>pkg_build_time := fst (apk_blob_pull_uint value 10)\<rparr>) db tmpl value
      else if field = CHR ''c'' then set_atom (\<lambda>p. p\<lparr>pkg_commit := atom\<rparr>) db tmpl value
      else if field = CHR ''k'' then
        set_atom (\<lambda>p. p\<lparr>pkg_provider_priority := ucast (fst (apk_blob_pull_uint value 10))\<rparr>) db tmpl value
      else if field \<in> set ''FMRZrqasfg'' then Ret (Info_fdb_entry, db, tmpl)
      else
        Ret (Info_unsupported,
             (if islower field then db else db\<lparr>cdb_notinstallable := True\<rparr>)\<lparr>cdb_newfeatures := True\<rparr>,
             if islower field then tmpl else tmpl\<lparr>tmpl_pkg := pkg\<lparr>pkg_uninstallable := True\<rparr>\<rparr>))"

definition commit_id :: "blob \<Rightarrow> bytes" where
  "commit_id b =
     (case apk_blob_pushed 80 (apk_blob_push_hexdump (APK_BLOB_BUF 80) b) of
        None \<Rightarrow> []
      | Some t \<Rightarrow> atomize (Some t))"

text \<open>The keys of a \<^verbatim>\<open>.PKGINFO\<close> file and the fields they stand for.\<close>

definition info_fields :: "(bytes \<times> char) list" where
  "info_fields =
     [(''pkgname'', CHR ''P''), (''pkgver'', CHR ''V''), (''pkgdesc'', CHR ''T''), (''url'', CHR ''U''),
      (''size'', CHR ''I''), (''license'', CHR ''L''), (''arch'', CHR ''A''), (''depend'', CHR ''D''),
      (''install_if'', CHR ''i''), (''provides'', CHR ''p''), (''origin'', CHR ''o''),
      (''maintainer'', CHR ''m''), (''builddate'', CHR ''t''), (''commit'', CHR ''c''),
      (''provider_priority'', CHR ''k'')]"

text \<open>The call of \<^verbatim>\<open>apk_extract_v2_control\<close>, which looks at the same line, is left out.\<close>

definition read_info_line ::
  "compat_db \<Rightarrow> apk_package_tmpl \<Rightarrow> blob \<Rightarrow> (add_result \<times> compat_db \<times> apk_package_tmpl) outcome" where
  "read_info_line db tmpl line =
     (if line = None \<or> blob_len line < 1 \<or> hd (blob_bytes line) = CHR ''#'' then Ret (Info_ok, db, tmpl)
      else
        case apk_blob_split line (Some '' = '') of
          None \<Rightarrow> Ret (Info_ok, db, tmpl)
        | Some (l, r) \<Rightarrow>
           (case List.find (\<lambda>f. apk_blob_compare (Some (fst f)) l = 0) info_fields of
              None \<Rightarrow> Ret (Info_ok, db, tmpl)
            | Some f \<Rightarrow> apk_pkgtmpl_add_info db tmpl (snd f) r))"

text \<open>Writing an entry: the lines of the header buffer and the three dependency lines.\<close>

definition write_depends :: "bytes \<Rightarrow> apk_dependency list \<Rightarrow> bytes option outcome" where
  "write_depends field deps =
     (if deps = [] then Ret (Some [])
      else
        case apk_deps_write None (Some deps) '' '' of
          Fault \<Rightarrow> Fault
        | Ret (ok, text) \<Rightarrow> Ret (if ok then Some (field @ text @ [CHR 0x0A]) else None))"

definition push_line :: "wblob \<Rightarrow> bytes \<Rightarrow> bytes \<Rightarrow> wblob" where
  "push_line to key value = apk_blob_push_blob (apk_blob_push_blob to (Some (CHR 0x0A # key))) (Some value)"

definition index_header :: "apk_package \<Rightarrow> wblob" where
  "index_header info =
     (let b = APK_BLOB_BUF 2048;
          b = apk_blob_push_blob b (Some ''C:'');
          b = apk_blob_push_hash b (apk_pkg_hash_blob info);
          b = push_line b ''P:'' (cstr (the (pkg_name info)));
          b = push_line b ''V:'' (the (pkg_version info));
          b = (if pkg_arch info \<noteq> [] then push_line b ''A:'' (pkg_arch info) else b);
          b = apk_blob_push_uint (apk_blob_push_blob b (Some (CHR 0x0A # ''S:''))) (pkg_size info) 10;
          b = apk_blob_push_uint (apk_blob_push_blob b (Some (CHR 0x0A # ''I:''))) (pkg_installed_size info) 10;
          b = push_line b ''T:'' (pkg_description info);
          b = push_line b ''U:'' (pkg_url info);
          b = push_line b ''L:'' (pkg_license info);
          b = (if pkg_origin info \<noteq> [] then push_line b ''o:'' (pkg_origin info) else b);
          b = (if pkg_maintainer info \<noteq> [] then push_line b ''m:'' (pkg_maintainer info) else b);
          b = (if pkg_build_time info \<noteq> 0
               then apk_blob_push_uint (apk_blob_push_blob b (Some (CHR 0x0A # ''t:''))) (pkg_build_time info) 10
               else b);
          b = (if pkg_commit info \<noteq> [] then push_line b ''c:'' (pkg_commit info) else b);
          b = (if pkg_provider_priority info \<noteq> 0
               then apk_blob_push_uint (apk_blob_push_blob b (Some (CHR 0x0A # ''k:'')))
                      (ucast (pkg_provider_priority info)) 10
               else b)
      in apk_blob_push_blob b (Some [CHR 0x0A]))"

definition apk_pkg_write_index_header :: "apk_package \<Rightarrow> (apk_error + bytes) outcome" where
  "apk_pkg_write_index_header info =
     (case apk_blob_pushed 2048 (index_header info) of
        None \<Rightarrow> Ret (Inl ENOBUFS)
      | Some hdr \<Rightarrow>
         (case (write_depends ''D:'' (pkg_depends info), write_depends ''p:'' (pkg_provides info),
                write_depends ''i:'' (pkg_install_if info)) of
            (Ret (Some d), Ret (Some p), Ret (Some i)) \<Rightarrow> Ret (Inr (hdr @ d @ p @ i))
          | (Fault, _, _) \<Rightarrow> Fault
          | (Ret None, _, _) \<Rightarrow> Ret (Inl EIO)
          | (_, Fault, _) \<Rightarrow> Fault
          | (_, Ret None, _) \<Rightarrow> Ret (Inl EIO)
          | (_, _, Fault) \<Rightarrow> Fault
          | (_, _, Ret None) \<Rightarrow> Ret (Inl EIO)))"

definition apk_pkg_write_index_entry :: "apk_package \<Rightarrow> (apk_error + bytes) outcome" where
  "apk_pkg_write_index_entry pkg =
     (case apk_pkg_write_index_header pkg of
        Fault \<Rightarrow> Fault
      | Ret (Inl e) \<Rightarrow> Ret (Inl e)
      | Ret (Inr t) \<Rightarrow> Ret (Inr (t @ [CHR 0x0A])))"

section \<open>Comparing and replacing\<close>

definition apk_pkg_version_compare :: "apk_package \<Rightarrow> apk_package \<Rightarrow> nat" where
  "apk_pkg_version_compare a b =
     (if pkg_version a = pkg_version b then APK_VERSION_EQUAL
      else apk_version_compare (pkg_ver a) (pkg_ver b))"

definition tolower :: "char \<Rightarrow> nat" where
  "tolower c = (if 65 \<le> code c \<and> code c \<le> 90 then code c + 32 else code c)"

fun strcasecmp :: "bytes \<Rightarrow> bytes \<Rightarrow> int" where
  "strcasecmp [] [] = 0"
| "strcasecmp [] (y # ys) = - int (tolower y)"
| "strcasecmp (x # xs) [] = int (tolower x)"
| "strcasecmp (x # xs) (y # ys) =
     (if tolower x = tolower y then strcasecmp xs ys else int (tolower x) - int (tolower y))"

definition apk_name_cmp_display :: "bytes \<Rightarrow> bytes \<Rightarrow> int" where
  "apk_name_cmp_display a b =
     (let c = strcasecmp (cstr a) (cstr b) in if c \<noteq> 0 then c else strcmp a b)"

definition apk_pkg_cmp_display :: "apk_package \<Rightarrow> apk_package \<Rightarrow> int" where
  "apk_pkg_cmp_display a b =
     (if pkg_name a \<noteq> pkg_name b then apk_name_cmp_display (the (pkg_name a)) (the (pkg_name b))
      else let c = apk_pkg_version_compare a b in
           if c = APK_VERSION_LESS then - 1 else if c = APK_VERSION_GREATER then 1 else 0)"

datatype replaces_result = APK_PKG_REPLACES_YES | APK_PKG_REPLACES_NO | APK_PKG_REPLACES_CONFLICT

definition apk_pkg_replaces_dir :: "apk_package \<Rightarrow> apk_package \<Rightarrow> replaces_result" where
  "apk_pkg_replaces_dir a b =
     (let ai = the (pkg_ipkg a); bi = the (pkg_ipkg b) in
      if pkg_name a = None then APK_PKG_REPLACES_NO
      else if pkg_name b = None then APK_PKG_REPLACES_YES
      else if pkg_name a = pkg_name b then APK_PKG_REPLACES_YES
      else if ipkg_to_be_removed ai then APK_PKG_REPLACES_YES
      else if ipkg_to_be_removed bi then APK_PKG_REPLACES_NO
      else if ipkg_replaces_priority ai > ipkg_replaces_priority bi then APK_PKG_REPLACES_NO
      else if ipkg_replaces_priority ai < ipkg_replaces_priority bi then APK_PKG_REPLACES_YES
      else if pkg_origin a \<noteq> [] \<and> pkg_origin a = pkg_origin b \<and>
              apk_blob_compare (Some (pkg_origin a)) (Some (cstr (the (pkg_name a)))) = 0
      then APK_PKG_REPLACES_NO
      else if pkg_origin a \<noteq> [] \<and> pkg_origin a = pkg_origin b \<and>
              apk_blob_compare (Some (pkg_origin b)) (Some (cstr (the (pkg_name b)))) = 0
      then APK_PKG_REPLACES_YES
      else if strcmp (the (pkg_name a)) (the (pkg_name b)) \<le> 0 then APK_PKG_REPLACES_NO
      else APK_PKG_REPLACES_YES)"

fun first_replaces :: "apk_dependency list \<Rightarrow> apk_package \<Rightarrow> bool outcome" where
  "first_replaces [] pkg = Ret False"
| "first_replaces (dep # deps) pkg =
     (case apk_dep_is_materialized dep (Some pkg) of
        Fault \<Rightarrow> Fault
      | Ret True \<Rightarrow> Ret True
      | Ret False \<Rightarrow> first_replaces deps pkg)"

definition apk_pkg_replaces_file :: "apk_package \<Rightarrow> apk_package \<Rightarrow> replaces_result outcome" where
  "apk_pkg_replaces_file a b =
     (let ai = the (pkg_ipkg a); bi = the (pkg_ipkg b) in
      if pkg_name a = None then Ret APK_PKG_REPLACES_YES
      else if pkg_name a = pkg_name b then Ret APK_PKG_REPLACES_YES
      else if ipkg_to_be_removed ai then Ret APK_PKG_REPLACES_YES
      else if ipkg_to_be_removed bi then Ret APK_PKG_REPLACES_NO
      else
        case first_replaces (ipkg_replaces ai) b of
          Fault \<Rightarrow> Fault
        | Ret a_replaces \<Rightarrow>
           (case first_replaces (ipkg_replaces bi) a of
              Fault \<Rightarrow> Fault
            | Ret b_replaces \<Rightarrow>
                let a_prio = (if a_replaces then int (ipkg_replaces_priority ai) else - 1);
                    b_prio = (if b_replaces then int (ipkg_replaces_priority bi) else - 1)
                in Ret (if a_prio > b_prio then APK_PKG_REPLACES_NO
                        else if b_prio \<ge> 0 then APK_PKG_REPLACES_YES
                        else if pkg_origin a \<noteq> [] \<and> pkg_origin a = pkg_origin b then APK_PKG_REPLACES_YES
                        else APK_PKG_REPLACES_CONFLICT)))"

section \<open>Iterating over dependencies\<close>

definition apk_foreach_genid :: "u32 \<Rightarrow> u32" where
  "apk_foreach_genid foreach_genid = foreach_genid + (NOT APK_FOREACH_GENID_MASK + 1)"

text \<open>Whether the package was already visited under the generation, and the marked package.\<close>

definition apk_pkg_match_genid :: "apk_package option \<Rightarrow> u32 \<Rightarrow> bool \<times> apk_package option" where
  "apk_pkg_match_genid pkg match =
     (let genid = match AND APK_FOREACH_GENID_MASK in
      case pkg of
        Some p \<Rightarrow>
          if genid \<noteq> 0 then
            if pkg_foreach_genid p \<ge> genid then (True, Some p)
            else (False, Some (p\<lparr>pkg_foreach_genid := genid\<rparr>))
          else (False, Some p)
      | None \<Rightarrow> (False, None))"

definition one_dep_only :: "u32 \<Rightarrow> bool" where
  "one_dep_only match \<longleftrightarrow> match AND APK_FOREACH_GENID_MASK \<noteq> 0 \<and> match AND APK_FOREACH_DEP = 0"

text \<open>The dependencies for which the callback is called, in order.\<close>

fun matching_deps ::
  "apk_package option \<Rightarrow> apk_dependency list \<Rightarrow> u32 \<Rightarrow> apk_package option \<Rightarrow> apk_dependency list outcome" where
  "matching_deps pkg [] match mpkg = Ret []"
| "matching_deps pkg (d # ds) match mpkg =
     (case apk_dep_analyze pkg d mpkg of
        Fault \<Rightarrow> Fault
      | Ret r \<Rightarrow>
          if r AND match \<noteq> 0 then
            if one_dep_only match then Ret [d]
            else (case matching_deps pkg ds match mpkg of Fault \<Rightarrow> Fault | Ret rest \<Rightarrow> Ret (d # rest))
          else matching_deps pkg ds match mpkg)"

definition apk_pkg_foreach_matching_dependency ::
  "apk_package option \<Rightarrow> apk_dependency list \<Rightarrow> u32 \<Rightarrow> apk_package option \<Rightarrow>
   (apk_dependency list \<times> apk_package option) outcome" where
  "apk_pkg_foreach_matching_dependency pkg deps match mpkg =
     (case apk_pkg_match_genid pkg match of
        (True, pkg') \<Rightarrow> Ret ([], pkg')
      | (False, pkg') \<Rightarrow>
         (case matching_deps pkg' deps match mpkg of Fault \<Rightarrow> Fault | Ret ds \<Rightarrow> Ret (ds, pkg')))"

text \<open>
  Reverse dependencies. The packages live in a store; the providers of the reverse dependencies
  of a name are given by their addresses. The result is the list of calls (package and its
  dependency) and the store with the visited packages marked.
\<close>

definition reverse_deps_of ::
  "apk_package \<Rightarrow> apk_package \<Rightarrow> u32 \<Rightarrow> apk_dependency list outcome" where
  "reverse_deps_of pkg0 pkg match =
     matching_deps (Some pkg0)
       (if match AND APK_FOREACH_NO_CONFLICTS \<noteq> 0
        then filter (\<lambda>d. \<not> apk_dep_conflict d) (pkg_depends pkg0) else pkg_depends pkg0)
       match (Some pkg)"

fun foreach_reverse_dependency ::
  "(nat \<Rightarrow> apk_package) \<Rightarrow> apk_package \<Rightarrow> nat list \<Rightarrow> u32 \<Rightarrow>
   ((nat \<times> apk_dependency) list \<times> (nat \<Rightarrow> apk_package)) outcome" where
  "foreach_reverse_dependency store pkg [] match = Ret ([], store)"
| "foreach_reverse_dependency store pkg (a # as) match =
     (let pkg0 = store a in
      if match AND APK_FOREACH_INSTALLED \<noteq> 0 \<and> pkg_ipkg pkg0 = None
      then foreach_reverse_dependency store pkg as match
      else if match AND APK_FOREACH_MARKED \<noteq> 0 \<and> \<not> pkg_marked pkg0
      then foreach_reverse_dependency store pkg as match
      else
        case apk_pkg_match_genid (Some pkg0) match of
          (True, _) \<Rightarrow> foreach_reverse_dependency store pkg as match
        | (False, pkg1) \<Rightarrow>
           (case reverse_deps_of pkg0 pkg match of
              Fault \<Rightarrow> Fault
            | Ret ds \<Rightarrow>
               (case foreach_reverse_dependency (store(a := the pkg1)) pkg as match of
                  Fault \<Rightarrow> Fault
                | Ret (calls, store') \<Rightarrow> Ret (map (\<lambda>d. (a, d)) ds @ calls, store'))))"

text \<open>The reverse dependencies of the package's name and then of every name it provides.\<close>

definition apk_pkg_foreach_reverse_dependency ::
  "(nat \<Rightarrow> apk_package) \<Rightarrow> (bytes option \<Rightarrow> nat list) \<Rightarrow> apk_package \<Rightarrow> u32 \<Rightarrow>
   ((nat \<times> apk_dependency) list \<times> (nat \<Rightarrow> apk_package)) outcome" where
  "apk_pkg_foreach_reverse_dependency store rdepends pkg match =
     foreach_reverse_dependency store pkg
       (concat (map rdepends (pkg_name pkg # map dep_name (pkg_provides pkg)))) match"

section \<open>Lemmas\<close>

subsection \<open>Checksums\<close>

lemma digest_uninit_ok [simp]: "digest_ok digest_uninit"
  by (simp add: digest_ok_def digest_uninit_def apk_digest_alg_len_def digest_consts)

lemma dep_from_pkg_version:
  assumes "APK_DIGEST_LENGTH_SHA1 \<le> length (pkg_digest pkg)"
  shows "dep_version (apk_dep_from_pkg pkg) = ''Q1'' @ push_b64_loop (take APK_DIGEST_LENGTH_SHA1 (pkg_digest pkg))"
proof -
  let ?xs = "take APK_DIGEST_LENGTH_SHA1 (pkg_digest pkg)"
  have l: "length ?xs = APK_DIGEST_LENGTH_SHA1" using assms by simp
  have n: "length (push_b64_loop ?xs) = 28"
    using push_b64_loop_length [of ?xs] l by (simp add: b64_needed_def digest_consts)
  show ?thesis
    using push_hash_text [OF l, of "[]" 64] n
    by (simp add: apk_dep_from_pkg_def null_dependency_def APK_BLOB_BUF_def apk_pkg_hash_blob_def
        apk_blob_pushed_def atomize_def)
qed

lemma match_checksum_text:
  assumes "length xs = APK_DIGEST_LENGTH_SHA1" "dep_version dep = ''Q1'' @ push_b64_loop xs"
  shows "apk_dep_match_checksum dep pkg = Ret (xs = take APK_DIGEST_LENGTH_SHA1 (pkg_digest pkg))"
  using pull_digest_sha1 [OF digest_uninit_ok assms(1), of "[]"] assms(2)
  by (auto simp: apk_dep_match_checksum_def apk_blob_compare_eq_0 apk_pkg_hash_blob_def)

subsection \<open>The installed packages\<close>

text \<open>
  The packages are a store by address. The steps on the installed database: installing any
  package, removing an installed one (never the nameless overlay package, which is not in the
  list), and everything that changes the triggers of an installed one: the file of triggers, a
  reinstallation, and the lines of a control file or the triggers of a binary archive. These last
  two may leave a listed package without triggers; \<open>strict\<close> runs are those where they do not.
  \<^verbatim>\<open>apk_pkg_uninstall\<close> frees such a package with its link still in the list, after which the
  list cannot be used any more, so a run does not go on from there.
\<close>

definition pkg_listed :: "apk_package \<Rightarrow> bool" where
  "pkg_listed p \<longleftrightarrow> pkg_name p \<noteq> None \<and> pkg_ipkg p \<noteq> None"

definition pkg_triggered :: "apk_package \<Rightarrow> bool" where
  "pkg_triggered p \<longleftrightarrow> (case pkg_ipkg p of Some i \<Rightarrow> ipkg_triggers i \<noteq> [] | None \<Rightarrow> False)"

inductive idb_step ::
  "bool \<Rightarrow> installed_db \<times> (nat \<Rightarrow> apk_package) \<Rightarrow> installed_db \<times> (nat \<Rightarrow> apk_package) \<Rightarrow> bool" for strict where
  install: "apk_pkg_install db (store a) = (db', pkg') \<Longrightarrow> idb_step strict (db, store) (db', store(a := pkg'))"
| uninstall: "pkg_name (store a) \<noteq> None \<Longrightarrow> a \<in> set (idb_triggers db) \<longrightarrow> pkg_triggered (store a) \<Longrightarrow>
    apk_pkg_uninstall db (store a) = (db', pkg') \<Longrightarrow> idb_step strict (db, store) (db', store(a := pkg'))"
| triggers: "pkg_ipkg (store a) \<noteq> None \<Longrightarrow> apk_db_pkg_add_triggers db (store a) t = Some (db', pkg') \<Longrightarrow>
    idb_step strict (db, store) (db', store(a := pkg'))"
| reinstall: "pkg_ipkg (store a) \<noteq> None \<Longrightarrow> clear_triggers db (store a) = (db', pkg') \<Longrightarrow>
    idb_step strict (db, store) (db', store(a := pkg'))"
| v2meta: "pkg_ipkg (store a) \<noteq> None \<Longrightarrow> install_info_line db tags (store a) l = Some (db', tags', pkg', c) \<Longrightarrow>
    strict \<and> a \<in> set (idb_triggers db) \<longrightarrow> pkg_triggered pkg' \<Longrightarrow>
    idb_step strict (db, store) (db', store(a := pkg'))"
| v3meta: "pkg_ipkg (store a) \<noteq> None \<Longrightarrow> set_triggers_v3 db (store a) ts = (db', pkg') \<Longrightarrow>
    strict \<and> a \<in> set (idb_triggers db) \<longrightarrow> pkg_triggered pkg' \<Longrightarrow>
    idb_step strict (db, store) (db', store(a := pkg'))"

inductive_cases idb_stepE: "idb_step strict (db, store) s'"

text \<open>The lists hold each package once and the statistics describe them.\<close>

definition idb_inv :: "bool \<Rightarrow> installed_db \<times> (nat \<Rightarrow> apk_package) \<Rightarrow> bool" where
  "idb_inv strict s = (case s of (db, store) \<Rightarrow>
     (\<forall>a. pkg_addr (store a) = a) \<and>
     distinct (idb_packages db) \<and> set (idb_packages db) = {a. pkg_listed (store a)} \<and>
     idb_num_packages db = of_nat (length (idb_packages db)) \<and>
     idb_bytes db = sum_list (map (\<lambda>a. pkg_installed_size (store a)) (idb_packages db)) \<and>
     distinct (idb_triggers db) \<and> {a. pkg_triggered (store a)} \<subseteq> set (idb_triggers db) \<and>
     set (idb_triggers db) \<subseteq> {a. pkg_ipkg (store a) \<noteq> None} \<and>
     (strict \<longrightarrow> set (idb_triggers db) = {a. pkg_triggered (store a)}))"

lemma sum_list_fun_upd:
  "a \<notin> set xs \<or> f v = f (store a) \<Longrightarrow>
   sum_list (map (\<lambda>x. f ((store(a := v)) x)) xs) = sum_list (map (\<lambda>x. f (store x)) xs)"
  by (auto intro!: arg_cong [where f = sum_list])

lemma idb_inv_install:
  assumes "idb_inv strict (db, store)" "apk_pkg_install db (store a) = (db', pkg')"
  shows "idb_inv strict (db', store(a := pkg'))"
proof (cases "pkg_ipkg (store a)")
  case None
  have new: "a \<notin> set (idb_packages db)" "a \<notin> set (idb_triggers db)"
    using assms(1) None by (auto simp: idb_inv_def pkg_listed_def)
  then show ?thesis
    using assms None
    by (auto simp: idb_inv_def apk_pkg_install_def pkg_listed_def pkg_triggered_def new_installed_package_def
        sum_list_fun_upd [where f = pkg_installed_size] simp del: fun_upd_apply split: if_splits)
       (auto split: if_splits)
next
  case Some
  then show ?thesis using assms by (auto simp: apk_pkg_install_def)
qed

lemma sum_list_remove1:
  "x \<in> set xs \<Longrightarrow> sum_list (map f (remove1 x xs)) = sum_list (map f xs) - (f x :: 'a::ab_group_add)"
  by (induction xs) auto

lemma of_nat_remove1:
  "x \<in> set xs \<Longrightarrow> (of_nat (length (remove1 x xs)) :: 'a::ring_1) = of_nat (length xs) - 1"
  by (induction xs) auto

lemma idb_inv_uninstall:
  assumes "idb_inv strict (db, store)" "pkg_name (store a) \<noteq> None" "apk_pkg_uninstall db (store a) = (db', pkg')"
    and "a \<in> set (idb_triggers db) \<longrightarrow> pkg_triggered (store a)"
  shows "idb_inv strict (db', store(a := pkg'))"
proof (cases "pkg_ipkg (store a)")
  case None
  then show ?thesis using assms by (auto simp: apk_pkg_uninstall_def)
next
  case (Some ip)
  have mem: "a \<in> set (idb_packages db)"
    using assms Some by (auto simp: idb_inv_def pkg_listed_def)
  have trig: "a \<in> set (idb_triggers db) \<longleftrightarrow> ipkg_triggers ip \<noteq> []"
    using assms(1,4) Some by (auto simp: idb_inv_def pkg_triggered_def)
  have d: "distinct (idb_packages db)" "distinct (idb_triggers db)" "pkg_addr (store a) = a"
    using assms(1) by (simp_all add: idb_inv_def)
  let ?store = "store(a := (store a)\<lparr>pkg_ipkg := None\<rparr>)"
  have p: "pkg' = (store a)\<lparr>pkg_ipkg := None\<rparr>" "idb_packages db' = remove1 a (idb_packages db)"
    "idb_num_packages db' = idb_num_packages db - 1" "idb_bytes db' = idb_bytes db - pkg_installed_size (store a)"
    "idb_triggers db' = remove1 a (idb_triggers db)"
    using assms(3) Some trig d(3) by (auto simp: apk_pkg_uninstall_def remove1_idem)
  have "{x. pkg_listed (?store x)} = {x. pkg_listed (store x)} - {a}"
    "{x. pkg_triggered (?store x)} = {x. pkg_triggered (store x)} - {a}"
    "{x. pkg_ipkg (?store x) \<noteq> None} = {x. pkg_ipkg (store x) \<noteq> None} - {a}"
    by (auto simp: pkg_listed_def pkg_triggered_def split: if_splits)
  moreover have "pkg_addr (?store x) = pkg_addr (store x)" "pkg_installed_size (?store x) = pkg_installed_size (store x)" for x
    by simp_all
  ultimately show ?thesis
    using assms(1) d unfolding idb_inv_def prod.case p
    by (simp add: sum_list_remove1 [OF mem] of_nat_remove1 [OF mem] Diff_mono del: fun_upd_apply)
qed

text \<open>All the steps on triggers change the installed part of one package and its link in the list.\<close>

lemma idb_inv_retrigger:
  assumes "idb_inv strict (db, store)" "pkg_ipkg (store a) \<noteq> None"
    and "distinct ts" "set ts - {a} = set (idb_triggers db) - {a}"
    and "ipkg_triggers ip \<noteq> [] \<longrightarrow> a \<in> set ts" "strict \<and> a \<in> set ts \<longrightarrow> ipkg_triggers ip \<noteq> []"
  shows "idb_inv strict (db\<lparr>idb_triggers := ts\<rparr>, store(a := (store a)\<lparr>pkg_ipkg := Some ip\<rparr>))"
proof -
  let ?store = "store(a := (store a)\<lparr>pkg_ipkg := Some ip\<rparr>)"
  have l: "pkg_listed (?store x) = pkg_listed (store x)" for x
    using assms(2) by (simp add: pkg_listed_def)
  have s: "pkg_installed_size (?store x) = pkg_installed_size (store x)" for x by simp
  have t: "{x. pkg_triggered (?store x)} = {x. pkg_triggered (store x)} - {a} \<union> (if ipkg_triggers ip \<noteq> [] then {a} else {})"
    by (auto simp: pkg_triggered_def split: if_splits)
  have i: "{x. pkg_ipkg (?store x) \<noteq> None} = {x. pkg_ipkg (store x) \<noteq> None}" using assms(2) by auto
  have k: "set ts = set (idb_triggers db) - {a} \<union> (if a \<in> set ts then {a} else {})" using assms(4) by auto
  have ad: "pkg_addr (?store x) = pkg_addr (store x)" for x by simp
  have "{x. pkg_triggered (?store x)} \<subseteq> set ts" "set ts \<subseteq> {x. pkg_ipkg (?store x) \<noteq> None}"
    using assms(1,2,5) unfolding t i by (subst k; auto simp: idb_inv_def)+
  moreover have "strict \<longrightarrow> set ts = {x. pkg_triggered (?store x)}"
    using assms(1,5,6) unfolding t by (subst k; auto simp: idb_inv_def)
  ultimately show ?thesis
    using assms(1,3) unfolding idb_inv_def prod.case l s ad by simp
qed

lemma triggers_self: "db\<lparr>idb_triggers := idb_triggers db\<rparr> = db"
  by simp

lemma idb_inv_add_triggers:
  assumes "idb_inv strict (db, store)" "pkg_ipkg (store a) \<noteq> None"
    and "p = (store a)\<lparr>pkg_ipkg := Some ip\<rparr>" "apk_db_pkg_add_triggers db p t = Some (db', pkg')"
    and "strict \<and> a \<in> set (idb_triggers db) \<longrightarrow> pkg_triggered pkg'"
  shows "idb_inv strict (db', store(a := pkg'))"
proof -
  obtain ws where ws: "apk_blob_foreach_token t (Some '' '') = Some ws"
    using assms(4) by (auto simp: apk_db_pkg_add_triggers_def split: option.splits)
  let ?ts = "ipkg_triggers ip @ map (\<lambda>w. cstr (apk_blob_cstr (Some w))) ws"
  let ?l = "if ?ts \<noteq> [] \<and> a \<notin> set (idb_triggers db) then idb_triggers db @ [a] else idb_triggers db"
  have ad: "pkg_addr (store a) = a" "distinct (idb_triggers db)" using assms(1) by (simp_all add: idb_inv_def)
  have p: "pkg' = (store a)\<lparr>pkg_ipkg := Some (ip\<lparr>ipkg_triggers := ?ts\<rparr>)\<rparr>" and d: "db' = db\<lparr>idb_triggers := ?l\<rparr>"
    using assms(3,4) ws ad by (auto simp: apk_db_pkg_add_triggers_def Let_def)
  show ?thesis unfolding p d
    by (rule idb_inv_retrigger [OF assms(1,2)]) (use ad assms(5) in \<open>auto simp: p pkg_triggered_def\<close>)
qed

lemma idb_inv_triggers:
  assumes "idb_inv strict (db, store)" "pkg_ipkg (store a) \<noteq> None"
    and "apk_db_pkg_add_triggers db (store a) t = Some (db', pkg')"
  shows "idb_inv strict (db', store(a := pkg'))"
proof -
  obtain ip where ip: "pkg_ipkg (store a) = Some ip" using assms(2) by blast
  have "strict \<and> a \<in> set (idb_triggers db) \<longrightarrow> pkg_triggered pkg'"
    using assms(1,3) ip
    by (auto simp: idb_inv_def apk_db_pkg_add_triggers_def pkg_triggered_def Let_def split: option.splits if_splits)
  then show ?thesis
    using idb_inv_add_triggers [OF assms(1,2) _ assms(3), of ip] ip by simp
qed

lemma idb_inv_reinstall:
  assumes "idb_inv strict (db, store)" "pkg_ipkg (store a) \<noteq> None" "clear_triggers db (store a) = (db', pkg')"
  shows "idb_inv strict (db', store(a := pkg'))"
proof -
  obtain ip where ip: "pkg_ipkg (store a) = Some ip" using assms(2) by blast
  have ad: "pkg_addr (store a) = a" "distinct (idb_triggers db)" using assms(1) by (simp_all add: idb_inv_def)
  show ?thesis
  proof (cases "ipkg_triggers ip = []")
    case True
    then show ?thesis using assms ip by (auto simp: clear_triggers_def Let_def)
  next
    case False
    then have "db' = db\<lparr>idb_triggers := remove1 a (idb_triggers db)\<rparr>" "pkg' = (store a)\<lparr>pkg_ipkg := Some (ip\<lparr>ipkg_triggers := []\<rparr>)\<rparr>"
      using assms(3) ip ad by (auto simp: clear_triggers_def Let_def)
    then show ?thesis using idb_inv_retrigger [OF assms(1,2)] ad by simp
  qed
qed

lemma idb_inv_v3meta:
  assumes "idb_inv strict (db, store)" "pkg_ipkg (store a) \<noteq> None" "set_triggers_v3 db (store a) ts = (db', pkg')"
    and "strict \<and> a \<in> set (idb_triggers db) \<longrightarrow> pkg_triggered pkg'"
  shows "idb_inv strict (db', store(a := pkg'))"
proof -
  obtain ip where ip: "pkg_ipkg (store a) = Some ip" using assms(2) by blast
  let ?ts = "map (\<lambda>b. cstr (apk_blob_cstr b)) ts"
  let ?l = "if ?ts \<noteq> [] \<and> a \<notin> set (idb_triggers db) then idb_triggers db @ [a] else idb_triggers db"
  have ad: "pkg_addr (store a) = a" "distinct (idb_triggers db)" using assms(1) by (simp_all add: idb_inv_def)
  have p: "pkg' = (store a)\<lparr>pkg_ipkg := Some (ip\<lparr>ipkg_triggers := ?ts\<rparr>)\<rparr>" and d: "db' = db\<lparr>idb_triggers := ?l\<rparr>"
    using assms(3) ip ad by (auto simp: set_triggers_v3_def Let_def)
  show ?thesis unfolding p d
    by (rule idb_inv_retrigger [OF assms(1,2)]) (use ad assms(4) in \<open>auto simp: p pkg_triggered_def\<close>)
qed

lemma idb_inv_v2meta:
  assumes "idb_inv strict (db, store)" "pkg_ipkg (store a) \<noteq> None"
    and "install_info_line db tags (store a) l = Some (db', tags', pkg', c)"
    and "strict \<and> a \<in> set (idb_triggers db) \<longrightarrow> pkg_triggered pkg'"
  shows "idb_inv strict (db', store(a := pkg'))"
proof -
  obtain ip where ip: "pkg_ipkg (store a) = Some ip" using assms(2) by blast
  consider (same) "db' = db" "pkg' = store a"
    | (field) i where "db' = db" "pkg' = (store a)\<lparr>pkg_ipkg := Some i\<rparr>" "ipkg_triggers i = ipkg_triggers ip"
    | (trig) r where "set_triggers_v2 db (store a) r = Some (db', pkg')"
    using assms(3) ip
    by (auto simp: install_info_line_def Let_def split: if_splits option.splits prod.splits)
  then show ?thesis
  proof cases
    case same
    then show ?thesis using assms(1) by simp
  next
    case field
    have "idb_inv strict (db\<lparr>idb_triggers := idb_triggers db\<rparr>, store(a := (store a)\<lparr>pkg_ipkg := Some i\<rparr>))"
      by (rule idb_inv_retrigger [OF assms(1,2)])
         (use assms(1) ip field(3) in \<open>auto simp: idb_inv_def pkg_triggered_def\<close>)
    then show ?thesis using field by simp
  next
    case trig
    then show ?thesis
      using idb_inv_add_triggers [OF assms(1,2) refl _ assms(4)] by (simp add: set_triggers_v2_def)
  qed
qed

text \<open>
  What goes wrong without \<open>strict\<close>: an empty line of triggers leaves the package in the list, and a
  package without triggers is not unlinked when it is removed.
\<close>

lemma empty_triggers_stay_listed:
  assumes "a \<in> set (idb_triggers db)" "pkg_ipkg p \<noteq> None" "pkg_addr p = a"
    and "set_triggers_v2 db p (Some []) = Some (db', p')"
  shows "a \<in> set (idb_triggers (fst (apk_pkg_uninstall db' p'))) \<and> pkg_ipkg (snd (apk_pkg_uninstall db' p')) = None"
  using assms
  by (auto simp: set_triggers_v2_def apk_db_pkg_add_triggers_def apk_pkg_uninstall_def Let_def foreach_token_words blob_words_def split: option.splits)

section \<open>Properties\<close>

text \<open>
  C35. Along every sequence of installs, removals and changes of triggers (from the file of triggers,
  by a reinstallation, or from an archive in either format) the list of installed packages holds exactly
  the named installed packages, each once, the package counter and the byte counter are the length and
  the total installed size of that list (at their widths), and the trigger list holds each package at
  most once, all the packages with triggers and only installed ones. It holds exactly those with triggers
  if no archive replaces the triggers of a listed package by none. A package that was left without triggers
  in that way is not removed in these sequences, and the installed size of a package does not change
  while it is installed.
\<close>

theorem installed_db_invariant:
  assumes "idb_inv strict s" "(idb_step strict)\<^sup>*\<^sup>* s s'"
  shows "idb_inv strict s'"
  using assms(2,1)
proof (induction rule: rtranclp_induct)
  case (step y z)
  then show ?case
    by (cases y) (auto elim!: idb_stepE intro: idb_inv_install idb_inv_uninstall idb_inv_triggers
        idb_inv_reinstall idb_inv_v2meta idb_inv_v3meta)
qed

definition sample_package :: "nat \<Rightarrow> apk_package" where
  "sample_package a = null_package\<lparr>pkg_addr := a, pkg_name := Some (if even a then ''even'' else ''odd''),
     pkg_version := Some ''1'', pkg_installed_size := 4096, pkg_digest := replicate 20 CHR ''q''\<rparr>"

theorem installed_db_invariant_witness:
  "idb_inv True (let (db, p) = apk_pkg_install
      \<lparr>idb_packages = [], idb_triggers = [], idb_sorted_installed_packages = True,
       idb_num_packages = 0, idb_bytes = 0\<rparr> (sample_package 3);
      (db, p) = set_triggers_v3 db p [Some ''/bin'', Some ''/lib''] in (db, sample_package(3 := p)))"
  (is "idb_inv True (let (db, p) = apk_pkg_install ?db _; _ = _ in _)")
proof -
  obtain db p where i: "apk_pkg_install ?db (sample_package 3) = (db, p)" by fastforce
  obtain db' p' where t: "set_triggers_v3 db p [Some ''/bin'', Some ''/lib''] = (db', p')" by fastforce
  let ?store = "sample_package(3 := p)"
  have "idb_inv True (?db, sample_package)"
    by (simp add: idb_inv_def pkg_listed_def pkg_triggered_def sample_package_def null_package_def)
  moreover have "idb_step True (?db, sample_package) (db, ?store)"
    using i by (intro idb_step.install)
  moreover have "idb_step True (db, ?store) (db', ?store(3 := p'))"
  proof (rule idb_step.v3meta)
    show "pkg_ipkg (?store 3) \<noteq> None" using i by (auto simp: apk_pkg_install_def sample_package_def null_package_def)
    show "set_triggers_v3 db (?store 3) [Some ''/bin'', Some ''/lib''] = (db', p')" using t by simp
    show "True \<and> 3 \<in> set (idb_triggers db) \<longrightarrow> pkg_triggered p'"
      using t by (auto simp: set_triggers_v3_def Let_def pkg_triggered_def)
  qed
  ultimately have "idb_inv True (db', ?store(3 := p'))"
    by (meson installed_db_invariant rtranclp.rtrancl_into_rtrancl r_into_rtranclp)
  then show ?thesis using i t by simp
qed

text \<open>
  Between two named installed packages with different names, of which not both are about to
  be removed, the ownership of a shared directory is decided the same way from both sides: one
  replaces the other exactly when the other does not replace it.
\<close>

lemma replaces_dir_decides:
  assumes "pkg_name a = Some n" "pkg_name b = Some m" "cstr n \<noteq> cstr m"
    and "\<not> (ipkg_to_be_removed (the (pkg_ipkg a)) \<and> ipkg_to_be_removed (the (pkg_ipkg b)))"
  shows "apk_pkg_replaces_dir a b = APK_PKG_REPLACES_YES \<longleftrightarrow> apk_pkg_replaces_dir b a = APK_PKG_REPLACES_NO"
proof -
  have "n \<noteq> m" "strcmp n m \<noteq> 0" using assms(3) by (auto simp: strcmp_eq_0)
  then show ?thesis
    using assms strcmp_antisym [of n m]
    by (auto simp: apk_pkg_replaces_dir_def Let_def apk_blob_compare_eq_0)
qed

lemma replaces_dir_decides_witness:
  "let a = (sample_package 2)\<lparr>pkg_ipkg := Some new_installed_package\<rparr>;
       b = (sample_package 3)\<lparr>pkg_ipkg := Some new_installed_package\<rparr>
   in apk_pkg_replaces_dir a b = APK_PKG_REPLACES_YES \<longleftrightarrow> apk_pkg_replaces_dir b a = APK_PKG_REPLACES_NO"
  unfolding Let_def
  by (rule replaces_dir_decides [of _ "''even''" _ "''odd''"])
     (simp_all add: sample_package_def null_package_def new_installed_package_def cstr_def)

text \<open>
  The dependency built from a package with a full digest is satisfied by exactly the packages
  with the same name and the same hash.
\<close>

lemma dep_from_pkg_identifies:
  assumes "APK_DIGEST_LENGTH_SHA1 \<le> length (pkg_digest pkg)"
  shows "apk_dep_is_materialized (apk_dep_from_pkg pkg) (Some other) =
    Ret (pkg_name other = pkg_name pkg \<and> apk_pkg_hash_blob other = apk_pkg_hash_blob pkg)"
proof -
  let ?dep = "apk_dep_from_pkg pkg"
  have "dep_name ?dep = pkg_name pkg" "dep_op ?dep = APK_DEPMASK_CHECKSUM" "\<not> apk_dep_conflict ?dep"
    by (simp_all add: apk_dep_from_pkg_def apk_dep_conflict_def version_consts)
  then show ?thesis
    using match_checksum_text [OF _ dep_from_pkg_version [OF assms], of other] assms
    by (auto simp: apk_dep_is_materialized_def apk_pkg_hash_blob_def)
qed

lemma dep_from_pkg_identifies_witness:
  "apk_dep_is_materialized (apk_dep_from_pkg (sample_package 2)) (Some (sample_package 4)) = Ret True"
proof -
  have "APK_DIGEST_LENGTH_SHA1 \<le> length (pkg_digest (sample_package 2))"
    by (simp add: sample_package_def digest_consts)
  from dep_from_pkg_identifies [OF this, of "sample_package 4"] show ?thesis
    by (simp add: sample_package_def null_package_def apk_pkg_hash_blob_def)
qed

end
