(* ===== verification/Istream.thy ===== *)
theory Istream
  imports Blob
begin

text \<open>
  Buffered input streams of \<^verbatim>\<open>io.c\<close>. A stream has the bytes that are buffered between \<^verbatim>\<open>ptr\<close> and
  \<^verbatim>\<open>end\<close>, whether \<^verbatim>\<open>ptr\<close> is at the start of the buffer, a status (open, end of file, failed) and
  the private state of its source. The read operation of the source is an argument: it returns
  some of the next bytes, none at the end, or an error. The locale \<open>source\<close> states its contract, under
  which every operation behaves as on the plain byte string, however the source splits it.
\<close>

section \<open>Streams\<close>

datatype stream_status = Open | At_eof | Failed apk_error

record 's apk_istream =
  is_pend :: bytes
  is_at_buf :: bool
  is_buf_size :: nat
  is_err :: stream_status
  is_src :: 's

type_synonym 's read_op = "'s \<Rightarrow> nat \<Rightarrow> (apk_error + bytes) \<times> 's"

fun status_code :: "stream_status \<Rightarrow> apk_error option" where
  "status_code (Failed e) = Some e"
| "status_code _ = None"

definition apk_istream_error :: "'s apk_istream \<Rightarrow> stream_status \<Rightarrow> apk_error option \<times> 's apk_istream" where
  "apk_istream_error is err =
     (let is' = (if status_code (is_err is) = None \<and> err \<noteq> Open then is\<lparr>is_err := err\<rparr> else is)
      in (status_code (is_err is'), is'))"

definition consume :: "nat \<Rightarrow> 's apk_istream \<Rightarrow> 's apk_istream" where
  "consume n is = is\<lparr>is_pend := drop n (is_pend is), is_at_buf := is_at_buf is \<and> n = 0\<rparr>"

function read_max_loop ::
  "'s read_op \<Rightarrow> 's apk_istream \<Rightarrow> nat \<Rightarrow> bytes \<Rightarrow> apk_error option \<times> 's apk_istream \<times> bytes" where
  "read_max_loop rd is left acc =
     (if left = 0 then (None, is, acc)
      else if is_pend is \<noteq> [] then
        let r = min left (length (is_pend is))
        in read_max_loop rd (consume r is) (left - r) (acc @ take r (is_pend is))
      else if is_err is \<noteq> Open then (None, is, acc)
      else if left > is_buf_size is div 4 then
        (case rd (is_src is) left of
           (Inl e, s') \<Rightarrow> (Some e, is\<lparr>is_src := s'\<rparr>, acc)
         | (Inr xs, s') \<Rightarrow>
             if xs = [] then (None, is\<lparr>is_src := s'\<rparr>, acc)
             else read_max_loop rd (is\<lparr>is_src := s'\<rparr>) (left - length xs) (acc @ xs))
      else
        (case rd (is_src is) (is_buf_size is) of
           (Inl e, s') \<Rightarrow> (Some e, is\<lparr>is_src := s'\<rparr>, acc)
         | (Inr xs, s') \<Rightarrow>
             if xs = [] then (None, is\<lparr>is_src := s'\<rparr>, acc)
             else read_max_loop rd (is\<lparr>is_src := s', is_pend := xs, is_at_buf := True\<rparr>) left acc))"
  by pat_completeness auto
termination
  by (relation "measures [\<lambda>(rd, is, left, acc). left, \<lambda>(rd, is, left, acc). if is_pend is = [] then 1 else 0]")
     auto

declare read_max_loop.simps [simp del]

definition apk_istream_read_max :: "'s read_op \<Rightarrow> 's apk_istream \<Rightarrow> nat \<Rightarrow> (apk_error + bytes) \<times> 's apk_istream" where
  "apk_istream_read_max rd is n =
     (case is_err is of
        Failed e \<Rightarrow> (Inl e, is)
      | _ \<Rightarrow>
         (case read_max_loop rd is n [] of
            (Some e, is', _) \<Rightarrow> (Inl e, snd (apk_istream_error is' (Failed e)))
          | (None, is', acc) \<Rightarrow>
              if acc = [] then (Inr [], snd (apk_istream_error is' (if n \<noteq> 0 \<and> is_err is' = Open then At_eof else Open)))
              else (Inr acc, is')))"

definition apk_istream_read :: "'s read_op \<Rightarrow> 's apk_istream \<Rightarrow> nat \<Rightarrow> (apk_error + bytes) \<times> 's apk_istream" where
  "apk_istream_read rd is n =
     (case apk_istream_read_max rd is n of
        (Inl e, is') \<Rightarrow> (Inl e, is')
      | (Inr xs, is') \<Rightarrow>
          if length xs = n then (Inr xs, is') else (Inl APKE_EOF, snd (apk_istream_error is' (Failed APKE_EOF))))"

text \<open>Filling the buffer: the returned status is open (0), end of file (1) or the error.\<close>

definition apk_istream_fill :: "'s read_op \<Rightarrow> 's apk_istream \<Rightarrow> stream_status \<times> 's apk_istream" where
  "apk_istream_fill rd is =
     (if is_err is \<noteq> Open then (is_err is, is)
      else if is_at_buf is \<and> length (is_pend is) = is_buf_size is then (Failed ENOBUFS, is)
      else
        (case rd (is_src is) (is_buf_size is - length (is_pend is)) of
           (Inl e, s') \<Rightarrow> (Failed e, snd (apk_istream_error (is\<lparr>is_src := s', is_at_buf := True\<rparr>) (Failed e)))
         | (Inr xs, s') \<Rightarrow>
             if xs = [] then (Open, snd (apk_istream_error (is\<lparr>is_src := s', is_at_buf := True\<rparr>) At_eof))
             else (Open, is\<lparr>is_src := s', is_at_buf := True, is_pend := is_pend is @ xs\<rparr>)))"

partial_function (option) peek_loop ::
  "'s read_op \<Rightarrow> 's apk_istream \<Rightarrow> nat \<Rightarrow> ((apk_error + bytes) \<times> 's apk_istream) option" where
  "peek_loop rd is n =
     (if n \<le> length (is_pend is) then Some (Inr (take n (is_pend is)), is)
      else case apk_istream_fill rd is of
             (Open, is') \<Rightarrow> peek_loop rd is' n
           | (At_eof, is') \<Rightarrow> Some (Inl APKE_EOF, is')
           | (Failed e, is') \<Rightarrow> Some (Inl e, is'))"

definition apk_istream_peek ::
  "'s read_op \<Rightarrow> 's apk_istream \<Rightarrow> nat \<Rightarrow> ((apk_error + bytes) \<times> 's apk_istream) option" where
  "apk_istream_peek rd is n = (case is_err is of Failed e \<Rightarrow> Some (Inl e, is) | _ \<Rightarrow> peek_loop rd is n)"

definition apk_istream_get ::
  "'s read_op \<Rightarrow> 's apk_istream \<Rightarrow> nat \<Rightarrow> ((apk_error + bytes) \<times> 's apk_istream) option" where
  "apk_istream_get rd is n =
     (case apk_istream_peek rd is n of
        None \<Rightarrow> None
      | Some (Inr p, is') \<Rightarrow> Some (Inr p, consume n is')
      | Some (Inl e, is') \<Rightarrow> Some (Inl e, snd (apk_istream_error is' (Failed e))))"

definition eof_code :: "stream_status \<Rightarrow> apk_error" where
  "eof_code st = (case st of Failed e \<Rightarrow> e | _ \<Rightarrow> APKE_EOF)"

definition apk_istream_get_max :: "'s read_op \<Rightarrow> 's apk_istream \<Rightarrow> nat \<Rightarrow> (apk_error + bytes) \<times> 's apk_istream" where
  "apk_istream_get_max rd is most =
     (let is = (if is_pend is = [] then snd (apk_istream_fill rd is) else is) in
      if is_pend is \<noteq> [] then
        let n = min (length (is_pend is)) most in (Inr (take n (is_pend is)), consume n is)
      else (Inl (eof_code (is_err is)), is))"

partial_function (option) delim_loop ::
  "'s read_op \<Rightarrow> 's apk_istream \<Rightarrow> blob \<Rightarrow> ((apk_error + bytes) \<times> 's apk_istream) option" where
  "delim_loop rd is token =
     (case apk_blob_split (Some (is_pend is)) token of
        Some (data, left) \<Rightarrow>
          Some (Inr (blob_bytes data), is\<lparr>is_pend := blob_bytes left, is_at_buf := False\<rparr>)
      | None \<Rightarrow>
         (case apk_istream_fill rd is of
            (Open, is') \<Rightarrow> delim_loop rd is' token
          | (At_eof, is') \<Rightarrow> Some (Inr (is_pend is'), is'\<lparr>is_pend := [], is_at_buf := True\<rparr>)
          | (Failed e, is') \<Rightarrow> Some (Inl e, snd (apk_istream_error is' (Failed e)))))"

definition apk_istream_get_delim ::
  "'s read_op \<Rightarrow> 's apk_istream \<Rightarrow> blob \<Rightarrow> ((apk_error + bytes) \<times> 's apk_istream) option" where
  "apk_istream_get_delim rd is token =
     (if is_err is \<noteq> Open \<and> is_pend is = [] then Some (Inl (eof_code (is_err is)), is)
      else delim_loop rd is token)"

text \<open>
  Skipping. The counter has 64 bits, the result is an \<^verbatim>\<open>int\<close>: it is given as the signed value
  of the low 32 bits.
\<close>

definition to_int32 :: "nat \<Rightarrow> int" where
  "to_int32 n = sint (word_of_nat n :: 32 word)"

definition SSIZE_MAX :: nat where "SSIZE_MAX = 2 ^ 63 - 1"

lemma get_max_shape:
  assumes "apk_istream_get_max rd is k = (Inr d, is')" "0 < k"
  shows "d \<noteq> [] \<and> length d \<le> k"
  using assms by (auto simp: apk_istream_get_max_def Let_def min_def split: if_splits)

function skip_loop :: "'s read_op \<Rightarrow> 's apk_istream \<Rightarrow> nat \<Rightarrow> nat \<Rightarrow> (apk_error + nat) \<times> 's apk_istream" where
  "skip_loop rd is n don =
     (if don < n then
        (case apk_istream_get_max rd is (min (n - don) SSIZE_MAX) of
           (Inl e, is') \<Rightarrow> (Inl e, is')
         | (Inr d, is') \<Rightarrow> skip_loop rd is' n (don + length d))
      else (Inr don, is))"
  by pat_completeness auto
termination
proof (relation "measure (\<lambda>(rd, is, n, don). n - don)", goal_cases)
  case (2 rd str n don r str' d)
  then have "d \<noteq> []" using get_max_shape [of rd str "min (n - don) SSIZE_MAX" d str'] by (simp add: SSIZE_MAX_def)
  then show ?case using 2 by (cases d) auto
qed simp

declare skip_loop.simps [simp del]

definition apk_istream_skip :: "'s read_op \<Rightarrow> 's apk_istream \<Rightarrow> nat \<Rightarrow> (apk_error + int) \<times> 's apk_istream" where
  "apk_istream_skip rd is n =
     (case skip_loop rd is n 0 of (Inl e, is') \<Rightarrow> (Inl e, is') | (Inr k, is') \<Rightarrow> (Inr (to_int32 k), is'))"

definition apk_blob_from_istream ::
  "'s read_op \<Rightarrow> bool \<Rightarrow> 's apk_istream \<Rightarrow> nat \<Rightarrow> (apk_error + blob) \<times> 's apk_istream" where
  "apk_blob_from_istream rd malloc_ok is n =
     (if \<not> malloc_ok then (Inl ENOMEM, is)
      else case apk_istream_read rd is n of
             (Inl e, is') \<Rightarrow> (Inl e, is')
           | (Inr xs, is') \<Rightarrow> (Inr (Some xs), is'))"

section \<open>Sources\<close>

text \<open>A stream over a byte string has everything in its buffer and starts at the end of its source.\<close>

definition blob_read :: "unit read_op" where
  "blob_read s n = (Inr [], s)"

definition apk_istream_from_blob :: "blob \<Rightarrow> unit apk_istream" where
  "apk_istream_from_blob b =
     \<lparr>is_pend = blob_bytes b, is_at_buf = True, is_buf_size = blob_len b, is_err = At_eof, is_src = ()\<rparr>"

text \<open>File descriptors: the system call \<^verbatim>\<open>read\<close> is an argument (the count, or \<^verbatim>\<open>errno\<close>).\<close>

definition fdi_read :: "'s read_op \<Rightarrow> 's read_op" where
  "fdi_read posix_read s n = (case posix_read s n of (Inl e, s') \<Rightarrow> (Inl e, s') | (Inr xs, s') \<Rightarrow> (Inr xs, s'))"

definition apk_io_bufsize :: nat where "apk_io_bufsize = 128 * 1024"

definition apk_istream_from_fd :: "'s \<Rightarrow> 's apk_istream" where
  "apk_istream_from_fd fd =
     \<lparr>is_pend = [], is_at_buf = False, is_buf_size = apk_io_bufsize, is_err = Open, is_src = fd\<rparr>"

text \<open>A segment: the next bytes of another stream. Its private state is the number of bytes that
  it has still to read and the source of the stream it belongs to.\<close>

definition segment_read :: "'s read_op \<Rightarrow> (nat \<times> 's) read_op" where
  "segment_read rd sis n =
     (case sis of (bytes_left, s) \<Rightarrow>
        let k = min n bytes_left in
        if k = 0 then (Inr [], sis)
        else case rd s k of
               (Inl e, s') \<Rightarrow> (Inl e, (bytes_left, s'))
             | (Inr xs, s') \<Rightarrow>
                 if xs = [] then (Inl ECONNABORTED, (bytes_left, s'))
                 else (Inr xs, (bytes_left - length xs, s')))"

definition apk_istream_segment ::
  "'s apk_istream \<Rightarrow> nat \<Rightarrow> (nat \<times> 's) apk_istream \<times> 's apk_istream" where
  "apk_istream_segment is n =
     (let pend = take n (is_pend is) in
      (\<lparr>is_pend = pend, is_at_buf = is_at_buf is, is_buf_size = is_buf_size is, is_err = Open,
        is_src = (n - length pend, is_src is)\<rparr>,
       if n < length (is_pend is) then consume n is else is\<lparr>is_pend := [], is_at_buf := False\<rparr>))"

text \<open>Closing a segment skips what is left of it; the outer stream goes on from there.\<close>

definition segment_close ::
  "'s read_op \<Rightarrow> (nat \<times> 's) apk_istream \<Rightarrow> 's apk_istream \<Rightarrow> apk_error option \<times> 's apk_istream" where
  "segment_close rd sis pis =
     (case is_src sis of (bytes_left, s) \<Rightarrow>
        let pis = pis\<lparr>is_src := s\<rparr>;
            pis = (if bytes_left \<noteq> 0 then snd (apk_istream_skip rd pis bytes_left) else pis)
        in (status_code (is_err sis), pis))"

text \<open>
  The loop of the callers that read a text file: pieces are taken until the stream ends or fails.
\<close>

partial_function (option) istream_pieces ::
  "'s read_op \<Rightarrow> 's apk_istream \<Rightarrow> blob \<Rightarrow> (bytes list \<times> apk_error) option" where
  "istream_pieces rd is token =
     (case apk_istream_get_delim rd is token of
        None \<Rightarrow> None
      | Some (Inl e, is') \<Rightarrow> Some ([], e)
      | Some (Inr l, is') \<Rightarrow>
          Option.bind (istream_pieces rd is' token) (\<lambda>(ls, e). Some (l # ls, e)))"

section \<open>The contract of a source\<close>

text \<open>
  The bytes that a source will still deliver. Reading takes a prefix, at most as long as asked for;
  it returns nothing only at the end.
\<close>

locale source =
  fixes rd :: "'s read_op" and content :: "'s \<Rightarrow> bytes"
  assumes rd_data: "rd s n = (Inr xs, s') \<Longrightarrow> content s = xs @ content s' \<and> length xs \<le> n"
    and rd_end: "rd s n = (Inr [], s') \<Longrightarrow> 0 < n \<Longrightarrow> content s = []"

definition stream_content :: "('s \<Rightarrow> bytes) \<Rightarrow> 's apk_istream \<Rightarrow> bytes" where
  "stream_content content is = is_pend is @ content (is_src is)"

definition stream_ok :: "('s \<Rightarrow> bytes) \<Rightarrow> 's apk_istream \<Rightarrow> bool" where
  "stream_ok content is \<longleftrightarrow>
     length (is_pend is) \<le> is_buf_size is \<and> (\<not> is_at_buf is \<longrightarrow> length (is_pend is) < is_buf_size is) \<and>
     (is_err is = At_eof \<longrightarrow> content (is_src is) = []) \<and> (is_err is = Open \<longrightarrow> 0 < is_buf_size is)"

definition not_failed :: "'s apk_istream \<Rightarrow> bool" where
  "not_failed is \<longleftrightarrow> status_code (is_err is) = None"

lemmas stream_defs = stream_content_def stream_ok_def not_failed_def

definition without_last_empty :: "bytes list \<Rightarrow> bytes list" where
  "without_last_empty ps = (if ps \<noteq> [] \<and> last ps = [] then butlast ps else ps)"

lemma split_on_nonempty [simp]: "split_on c xs \<noteq> []"
  by (subst split_on_unfold) simp

lemma split_on_single: "c \<notin> set xs \<Longrightarrow> split_on c xs = [xs]"
  by (subst split_on_unfold) (auto simp: takeWhile_eq_all_conv)

lemma split_on_first: "takeWhile (\<lambda>x. x \<noteq> c) xs \<in> set (split_on c xs)"
  by (subst split_on_unfold) simp

lemma not_failed_iff: "not_failed is \<longleftrightarrow> is_err is = Open \<or> is_err is = At_eof"
  by (cases "is_err is") (auto simp: not_failed_def)

lemma consume_simps [simp]:
  "is_pend (consume n is) = drop n (is_pend is)" "is_src (consume n is) = is_src is"
  "is_err (consume n is) = is_err is" "is_buf_size (consume n is) = is_buf_size is"
  by (simp_all add: consume_def)

lemma stream_ok_consume: "stream_ok content is \<Longrightarrow> n \<le> length (is_pend is) \<Longrightarrow> stream_ok content (consume n is)"
  by (auto simp: stream_ok_def consume_def)

lemma stream_content_consume:
  "n \<le> length (is_pend is) \<Longrightarrow> stream_content content (consume n is) = drop n (stream_content content is)"
  by (simp add: stream_content_def)

lemma read_max_loop_spec:
  assumes "source rd content" "stream_ok content is" "not_failed is"
    "read_max_loop rd is left acc = (r, is', out)"
  shows "stream_ok content is' \<and> is_err is' = is_err is \<and>
    (r = None \<longrightarrow> (\<exists>xs. out = acc @ xs \<and> stream_content content is = xs @ stream_content content is' \<and>
       length xs \<le> left \<and> (length xs = left \<or> stream_content content is' = [])))"
  using assms
proof (induction rd "is" left acc arbitrary: r is' out rule: read_max_loop.induct)
  case (1 rd str left acc)
  note data = source.rd_data [OF "1.prems"(1)] and eof = source.rd_end [OF "1.prems"(1)]
  note run = "1.prems"(4) [unfolded read_max_loop.simps [of rd str left acc]]
  consider (zero) "left = 0" | (pend) "left \<noteq> 0" "is_pend str \<noteq> []"
    | (closed) "left \<noteq> 0" "is_pend str = []" "is_err str \<noteq> Open"
    | (direct) "left \<noteq> 0" "\<not> is_pend str \<noteq> []" "\<not> is_err str \<noteq> Open" "is_buf_size str div 4 < left"
    | (fill) "left \<noteq> 0" "\<not> is_pend str \<noteq> []" "\<not> is_err str \<noteq> Open" "\<not> is_buf_size str div 4 < left"
    by blast
  then show ?case
  proof cases
    case pend
    let ?n = "min left (length (is_pend str))"
    have ok: "stream_ok content (consume ?n str)" "not_failed (consume ?n str)"
      using "1.prems" by (auto simp: not_failed_def intro: stream_ok_consume)
    have "read_max_loop rd (consume ?n str) (left - ?n) (acc @ take ?n (is_pend str)) = (r, is', out)"
      using run pend by (simp add: Let_def)
    note step = "1.IH"(1) [OF pend refl "1.prems"(1) ok this]
    have split: "stream_content content str = take ?n (is_pend str) @ stream_content content (consume ?n str)"
      by (simp add: stream_content_def append_assoc [symmetric] del: append_assoc)
    show ?thesis
    proof (intro conjI impI)
      assume "r = None"
      with step obtain xs where xs: "out = (acc @ take ?n (is_pend str)) @ xs"
          "stream_content content (consume ?n str) = xs @ stream_content content is'"
          "length xs \<le> left - ?n" "length xs = left - ?n \<or> stream_content content is' = []"
        by blast
      have "stream_content content str = (take ?n (is_pend str) @ xs) @ stream_content content is'"
        using xs(2) split by simp
      with xs show "\<exists>xs. out = acc @ xs \<and> stream_content content str = xs @ stream_content content is' \<and>
          length xs \<le> left \<and> (length xs = left \<or> stream_content content is' = [])"
        by (intro exI [of _ "take ?n (is_pend str) @ xs"]) auto
    qed (use step in auto)
  next
    case direct
    obtain d s' where rd: "rd (is_src str) left = (d, s')" by fastforce
    consider e where "d = Inl e" | "d = Inr []" | xs where "d = Inr xs" "xs \<noteq> []" by (cases d) auto
    then show ?thesis
    proof cases
      case (3 xs)
      have ok: "stream_ok content (str\<lparr>is_src := s'\<rparr>)" "not_failed (str\<lparr>is_src := s'\<rparr>)"
        using "1.prems" direct by (auto simp: stream_defs)
      have "read_max_loop rd (str\<lparr>is_src := s'\<rparr>) (left - length xs) (acc @ xs) = (r, is', out)"
        using run direct rd 3 by simp
      note step = "1.IH"(2) [OF direct rd [symmetric] 3(1) 3(2) "1.prems"(1) ok this]
      show ?thesis
        using step data [OF rd [unfolded 3(1)]] direct by (auto simp: stream_content_def)
    qed (use run direct rd "1.prems" data eof in \<open>auto simp: stream_defs\<close>)
  next
    case fill
    obtain d s' where rd: "rd (is_src str) (is_buf_size str) = (d, s')" by fastforce
    consider e where "d = Inl e" | "d = Inr []" | xs where "d = Inr xs" "xs \<noteq> []" by (cases d) auto
    then show ?thesis
    proof cases
      case (3 xs)
      let ?s = "str\<lparr>is_src := s', is_pend := xs, is_at_buf := True\<rparr>"
      have ok: "stream_ok content ?s" "not_failed ?s"
        using "1.prems" fill data [OF rd [unfolded 3(1)]] by (auto simp: stream_defs)
      have "read_max_loop rd ?s left acc = (r, is', out)"
        using run fill rd 3 by simp
      note step = "1.IH"(3) [OF fill rd [symmetric] 3(1) 3(2) "1.prems"(1) ok this]
      show ?thesis
        using step data [OF rd [unfolded 3(1)]] fill by (auto simp: stream_content_def)
    qed (use run fill rd "1.prems" data eof in \<open>auto simp: stream_defs\<close>)
  qed (use "1.prems" run in \<open>auto simp: stream_content_def stream_ok_def not_failed_iff\<close>)
qed

lemma istream_error_simps [simp]:
  "is_pend (snd (apk_istream_error is st)) = is_pend is" "is_src (snd (apk_istream_error is st)) = is_src is"
  "is_buf_size (snd (apk_istream_error is st)) = is_buf_size is"
  "is_at_buf (snd (apk_istream_error is st)) = is_at_buf is"
  by (simp_all add: apk_istream_error_def Let_def)

lemma istream_error_err:
  "not_failed is \<Longrightarrow> is_err (snd (apk_istream_error is st)) = (if st = Open then is_err is else st)"
  by (auto simp: apk_istream_error_def Let_def not_failed_def)

lemma memmem_append: "memmem h t = Some i \<Longrightarrow> memmem (h @ rest) t = Some i"
proof (induction h t arbitrary: i rule: memmem.induct)
  case (1 h t)
  show ?case
  proof (cases "prefix t h")
    case True
    then have "prefix t (h @ rest)" by (rule prefix_prefix)
    with True "1.prems" show ?thesis by (simp add: memmem.simps)
  next
    case False
    with "1.prems" obtain x hs k where h: "h = x # hs" "memmem hs t = Some k" "i = Suc k"
      by (auto simp: memmem.simps [of h] split: list.splits)
    have "\<not> prefix t (h @ rest)"
      using False memmem_le [OF h(2)] h(1) prefix_length_prefix [of t "h @ rest" h] by auto
    with 1 False h show ?thesis
      by (simp add: memmem.simps [of "x # hs @ rest"])
  qed
qed

lemma memmem_within:
  assumes "memmem (h @ rest) t = Some i" "i + length t \<le> length h"
  shows "memmem h t \<noteq> None"
proof -
  have "prefix t (drop i h @ rest)" using memmem_Some [OF assms(1)] assms(2) by simp
  then have "prefix t (drop i h)"
    using assms(2) by (rule_tac prefix_length_prefix [of t "drop i h @ rest"]) auto
  then show ?thesis using assms(2) by (auto simp: memmem_None intro!: exI [of _ i])
qed

lemma split_append:
  assumes "apk_blob_split (Some h) t = Some (l, r)"
  shows "apk_blob_split (Some (h @ rest)) t = Some (l, Some (blob_bytes r @ rest))"
proof -
  from assms obtain i where i: "memmem h (blob_bytes t) = Some i" "l = Some (take i h)" "r = Some (drop (i + blob_len t) h)"
    by (auto simp: apk_blob_split_Some)
  with memmem_append [OF i(1), of rest] memmem_le [OF i(1)] show ?thesis
    by (auto simp: apk_blob_split_Some blob_len_def)
qed

definition fill_measure :: "'s apk_istream \<Rightarrow> nat" where
  "fill_measure is = (if is_err is = Open then Suc (is_buf_size is - length (is_pend is)) else 0)"

text \<open>A piece fits the buffer with its separator; the last piece needs room to see the end.\<close>

definition piece_fits :: "nat \<Rightarrow> blob \<Rightarrow> bytes \<Rightarrow> bool" where
  "piece_fits n token xs =
     (case apk_blob_split (Some xs) token of
        Some (d, _) \<Rightarrow> blob_len d + blob_len token \<le> n
      | None \<Rightarrow> length xs < n)"

lemma read_max_loop_reliable:
  assumes "\<And>s n. \<exists>xs s'. rd s n = (Inr xs, s')"
  shows "fst (read_max_loop rd is left acc) = None"
  using assms
proof (induction rd "is" left acc rule: read_max_loop.induct)
  case (1 rd str left acc)
  have "rd s n \<noteq> (Inl e, s')" for s n e s' using "1.prems" [of s n] by auto
  then show ?case
    using 1 by (subst read_max_loop.simps) (auto simp: Let_def split: prod.splits sum.splits)
qed

lemma read_max_loop_buf_size: "is_buf_size (fst (snd (read_max_loop rd is left acc))) = is_buf_size is"
  by (induction rd "is" left acc rule: read_max_loop.induct)
     (subst read_max_loop.simps, auto simp: Let_def split: prod.splits sum.splits)

lemma read_max_buf_size: "is_buf_size (snd (apk_istream_read_max rd is n)) = is_buf_size is"
  using read_max_loop_buf_size [of rd "is" n "[]"]
  by (auto simp: apk_istream_read_max_def split: stream_status.splits prod.splits option.splits)

context source
begin

lemma read_max_spec:
  assumes "stream_ok content is" "not_failed is" "apk_istream_read_max rd is n = (Inr xs, is')"
  shows "stream_ok content is' \<and> not_failed is' \<and> xs = take n (stream_content content is) \<and>
    stream_content content is' = drop n (stream_content content is)"
proof -
  obtain r st out where l: "read_max_loop rd is n [] = (r, st, out)" by (cases "read_max_loop rd is n []")
  have nf: "\<And>e. is_err is \<noteq> Failed e" using assms(2) by (auto simp: not_failed_def)
  then have "r = None"
    using assms(3) l by (auto simp: apk_istream_read_max_def split: stream_status.splits option.splits)
  with read_max_loop_spec [OF source_axioms assms(1,2) l]
  have st: "stream_ok content st" "is_err st = is_err is" "stream_content content is = out @ stream_content content st"
      "length out \<le> n" "length out = n \<or> stream_content content st = []"
    by auto
  have is': "xs = out \<and> is' = (if out = [] then snd (apk_istream_error st (if n \<noteq> 0 \<and> is_err st = Open then At_eof else Open)) else st)"
    using assms(3) l nf \<open>r = None\<close> by (auto simp: apk_istream_read_max_def split: stream_status.splits)
  have nst: "not_failed st" using assms(2) st(2) by (simp add: not_failed_def)
  show ?thesis
    using is' st nst by (auto simp: stream_defs istream_error_err split: if_splits)
qed

lemma fill_spec:
  assumes "stream_ok content is" "not_failed is" "apk_istream_fill rd is = (st, is')" "st = Open \<or> st = At_eof"
  shows "stream_ok content is' \<and> not_failed is' \<and> stream_content content is' = stream_content content is \<and>
    is_buf_size is' = is_buf_size is \<and> (is_err is' = At_eof \<longrightarrow> is_pend is' = is_pend is) \<and>
    (st = Open \<longrightarrow> is_err is = Open \<and> (is_err is' = At_eof \<or> length (is_pend is) < length (is_pend is'))) \<and>
    (st = At_eof \<longrightarrow> is' = is \<and> is_err is = At_eof)"
proof (cases "is_err is = Open \<and> \<not> (is_at_buf is \<and> length (is_pend is) = is_buf_size is)")
  case True
  let ?n = "is_buf_size is - length (is_pend is)"
  obtain d s' where rd: "rd (is_src is) ?n = (d, s')" by fastforce
  have n: "0 < ?n" using assms(1) True by (auto simp: stream_ok_def)
  obtain xs where d: "d = Inr xs" using assms(3,4) True rd by (cases d) (auto simp: apk_istream_fill_def)
  show ?thesis
  proof (cases "xs = []")
    case empty: True
    have "content (is_src is) = []" "content s' = []"
      using rd_end [OF rd [unfolded d empty] n] rd_data [OF rd [unfolded d]] by auto
    then show ?thesis
      using assms True rd d empty by (auto simp: apk_istream_fill_def stream_defs istream_error_err)
  next
    case False
    then show ?thesis
      using assms True rd d rd_data [OF rd [unfolded d]] by (auto simp: apk_istream_fill_def stream_defs)
  qed
next
  case False
  then show ?thesis
    using assms by (auto simp: apk_istream_fill_def split: if_splits)
qed

lemma fill_decreases:
  assumes "stream_ok content is" "not_failed is" "apk_istream_fill rd is = (Open, is')"
  shows "fill_measure is' < fill_measure is"
  using fill_spec [OF assms] by (auto simp: fill_measure_def stream_ok_def)

lemma delim_loop_spec:
  assumes "stream_ok content is" "not_failed is" "0 < blob_len token"
  shows "\<exists>r is'. delim_loop rd is token = Some (r, is') \<and>
    (\<forall>l. r = Inr l \<longrightarrow> stream_ok content is' \<and> not_failed is' \<and> is_buf_size is' = is_buf_size is \<and>
       (case apk_blob_split (Some (stream_content content is)) token of
          Some (d, left) \<Rightarrow> l = blob_bytes d \<and> stream_content content is' = blob_bytes left \<and> is_err is' = is_err is
        | None \<Rightarrow> l = stream_content content is \<and> stream_content content is' = [] \<and> is_err is' = At_eof))"
  using assms
proof (induction "fill_measure is" arbitrary: "is" rule: less_induct)
  case (less str)
  show ?case
  proof (cases "apk_blob_split (Some (is_pend str)) token")
    case (Some p)
    obtain d left where p: "p = (d, left)" by fastforce
    note split = Some [unfolded p]
    have len: "length (blob_bytes left) < length (is_pend str)"
      using apk_blob_split_append [OF split] less.prems(3) by (auto simp: blob_len_def dest!: arg_cong [where f = length])
    show ?thesis
      using split_append [OF split, of "content (is_src str)"] less.prems len split
      by (subst delim_loop.simps) (auto simp: stream_defs)
  next
    case None
    obtain st str' where f: "apk_istream_fill rd str = (st, str')" by fastforce
    show ?thesis
    proof (cases st)
      case Open
      note fs = fill_spec [OF less.prems(1,2) f [unfolded Open]]
      have "is_err str' = Open" if "apk_blob_split (Some (stream_content content str)) token \<noteq> None"
        using fs None that by (auto simp: stream_content_def stream_ok_def not_failed_iff)
      then show ?thesis
        using less.hyps [OF fill_decreases [OF less.prems(1,2) f [unfolded Open]]] fs less.prems(3) None f Open
        by (subst delim_loop.simps) (auto split: option.splits)
    next
      case At_eof
      note fs = fill_spec [OF less.prems(1,2) f [unfolded At_eof]]
      show ?thesis
        using fs less.prems None f At_eof by (subst delim_loop.simps) (auto simp: stream_defs)
    next
      case (Failed e)
      then show ?thesis using None f by (subst delim_loop.simps) auto
    qed
  qed
qed

lemma skip_loop_spec:
  assumes "stream_ok content is" "not_failed is" "skip_loop rd is n k = (Inr m, is')" "k \<le> n"
  shows "m = n \<and> stream_ok content is' \<and> not_failed is' \<and>
    n - k \<le> length (stream_content content is) \<and>
    stream_content content is' = drop (n - k) (stream_content content is)"
  using assms
proof (induction "n - k" arbitrary: k "is" rule: less_induct)
  case (less k str)
  show ?case
  proof (cases "k < n")
    case True
    let ?most = "min (n - k) SSIZE_MAX"
    define st where "st = (if is_pend str = [] then snd (apk_istream_fill rd str) else str)"
    define j where "j = min (length (is_pend st)) ?most"
    have st: "is_pend st \<noteq> []" "skip_loop rd (consume j st) n (k + j) = (Inr m, is')"
      using less.prems(3) True
      by (auto simp: skip_loop.simps [of rd str] apk_istream_get_max_def Let_def st_def j_def split: if_splits)
    have ok: "stream_ok content st \<and> not_failed st \<and> stream_content content st = stream_content content str"
    proof (cases "is_pend str = []")
      case True
      obtain s0 str0 where f: "apk_istream_fill rd str = (s0, str0)" by fastforce
      then have "is_pend str0 \<noteq> []" using st(1) True by (simp add: st_def)
      then have "s0 = Open \<or> s0 = At_eof"
        using f True by (auto simp: apk_istream_fill_def split: prod.splits sum.splits if_splits)
      from fill_spec [OF less.prems(1,2) f this] show ?thesis using f True by (simp add: st_def)
    qed (use less.prems in \<open>simp add: st_def\<close>)
    have j: "0 < j" "j \<le> length (is_pend st)" "k + j \<le> n"
      using st(1) True by (auto simp: j_def SSIZE_MAX_def)
    have "stream_ok content (consume j st)" "not_failed (consume j st)"
      using ok j by (auto simp: not_failed_def intro: stream_ok_consume)
    moreover have "j \<le> length (stream_content content str)"
      using ok j(2) by (metis length_append stream_content_def trans_le_add1)
    moreover have "n - (k + j) < n - k" using j True by simp
    ultimately show ?thesis
      using less.hyps [OF _ _ _ st(2) j(3)] j True ok
      by (simp add: stream_content_consume add.commute le_diff_conv2)
  next
    case False
    then show ?thesis using less.prems by (auto simp: skip_loop.simps [of rd str])
  qed
qed

end

locale reliable_source = source +
  assumes rd_total: "\<exists>xs s'. rd s n = (Inr xs, s')"
begin

lemma fill_failed:
  assumes "not_failed is" "apk_istream_fill rd is = (Failed e, is')"
  shows "e = ENOBUFS \<and> is' = is \<and> length (is_pend is) = is_buf_size is \<and> is_err is = Open"
proof -
  obtain xs s' where "rd (is_src is) (is_buf_size is - length (is_pend is)) = (Inr xs, s')" using rd_total by blast
  with assms show ?thesis
    by (auto simp: apk_istream_fill_def not_failed_def split: if_splits)
qed

lemma delim_loop_fits:
  assumes "stream_ok content is" "not_failed is"
    "is_err is = Open \<longrightarrow> piece_fits (is_buf_size is) token (stream_content content is)"
  shows "delim_loop rd is token \<noteq> Some (Inl e, is')"
  using assms
proof (induction "fill_measure is" arbitrary: "is" rule: less_induct)
  case (less str)
  show ?case
  proof (cases "apk_blob_split (Some (is_pend str)) token")
    case (Some p)
    then show ?thesis by (subst delim_loop.simps) (auto split: prod.splits)
  next
    case None
    obtain st str' where f: "apk_istream_fill rd str = (st, str')" by fastforce
    show ?thesis
    proof (cases st)
      case Open
      note fs = fill_spec [OF less.prems(1,2) f [unfolded Open]]
      show ?thesis
        using less.hyps [OF fill_decreases [OF less.prems(1,2) f [unfolded Open]]] fs less.prems(3) None f Open
        by (subst delim_loop.simps) auto
    next
      case At_eof
      then show ?thesis using None f by (subst delim_loop.simps) auto
    next
      case (Failed e0)
      note ff = fill_failed [OF less.prems(2) f [unfolded Failed]]
      then have fits: "piece_fits (length (is_pend str)) token (is_pend str @ content (is_src str))"
        using less.prems(3) by (simp add: stream_content_def)
      have False
      proof (cases "apk_blob_split (Some (is_pend str @ content (is_src str))) token")
        case (Some p)
        then obtain i where i: "memmem (is_pend str @ content (is_src str)) (blob_bytes token) = Some i"
            "fst p = Some (take i (is_pend str @ content (is_src str)))"
          by (cases p) (auto simp: apk_blob_split_Some)
        then have "i + length (blob_bytes token) \<le> length (is_pend str)"
          using fits Some memmem_le [OF i(1)] by (cases p) (auto simp: piece_fits_def blob_len_def)
        from memmem_within [OF i(1) this] None show False by (simp add: apk_blob_split_None)
      qed (use fits in \<open>simp add: piece_fits_def\<close>)
      then show ?thesis ..
    qed
  qed
qed

lemma get_delim_spec:
  assumes "stream_ok content is" "not_failed is" "0 < blob_len token"
    "is_err is = Open \<longrightarrow> piece_fits (is_buf_size is) token (stream_content content is)"
    "\<not> (is_err is \<noteq> Open \<and> is_pend is = [])"
  obtains l is' where "apk_istream_get_delim rd is token = Some (Inr l, is')"
    "stream_ok content is'" "not_failed is'" "is_buf_size is' = is_buf_size is"
    "case apk_blob_split (Some (stream_content content is)) token of
       Some (d, left) \<Rightarrow> l = blob_bytes d \<and> stream_content content is' = blob_bytes left \<and> is_err is' = is_err is
     | None \<Rightarrow> l = stream_content content is \<and> stream_content content is' = [] \<and> is_err is' = At_eof"
proof -
  from delim_loop_spec [OF assms(1-3)] obtain r is' where r: "delim_loop rd is token = Some (r, is')"
      "\<And>l. r = Inr l \<Longrightarrow> stream_ok content is' \<and> not_failed is' \<and> is_buf_size is' = is_buf_size is \<and>
       (case apk_blob_split (Some (stream_content content is)) token of
          Some (d, left) \<Rightarrow> l = blob_bytes d \<and> stream_content content is' = blob_bytes left \<and> is_err is' = is_err is
        | None \<Rightarrow> l = stream_content content is \<and> stream_content content is' = [] \<and> is_err is' = At_eof)"
    by blast
  obtain l where "r = Inr l" using r(1) delim_loop_fits [OF assms(1,2,4)] by (cases r) auto
  then show thesis using that [of l is'] r assms(5) by (auto simp: apk_istream_get_delim_def)
qed

lemma pieces_eof:
  assumes "is_err is = At_eof" "is_pend is = []"
  shows "istream_pieces rd is token = Some ([], APKE_EOF)"
  using assms by (simp add: istream_pieces.simps apk_istream_get_delim_def eof_code_def)

text \<open>All pieces are read, however the source splits the bytes.\<close>

lemma pieces_spec:
  assumes "stream_ok content is" "not_failed is" "is_err is = Open \<or> is_pend is \<noteq> []"
    "is_err is = Open \<longrightarrow> (\<forall>p \<in> set (split_on c (stream_content content is)). length p < is_buf_size is)"
  shows "istream_pieces rd is (Some [c]) =
    Some (if is_err is = Open then split_on c (stream_content content is)
          else without_last_empty (split_on c (stream_content content is)), APKE_EOF)"
  using assms
proof (induction "length (stream_content content is)" arbitrary: "is" rule: less_induct)
  case (less str)
  let ?xs = "stream_content content str"
  have fits: "is_err str = Open \<longrightarrow> piece_fits (is_buf_size str) (Some [c]) ?xs"
    using less.prems(4) split_on_first [of c ?xs] split_on_single [of c ?xs]
    by (cases "c \<in> set ?xs") (auto simp: piece_fits_def apk_blob_split_char)
  from get_delim_spec [OF less.prems(1,2) _ fits] less.prems(3)
  obtain l str' where g: "apk_istream_get_delim rd str (Some [c]) = Some (Inr l, str')"
      "stream_ok content str'" "not_failed str'" "is_buf_size str' = is_buf_size str"
      "case apk_blob_split (Some ?xs) (Some [c]) of
         Some (d, left) \<Rightarrow> l = blob_bytes d \<and> stream_content content str' = blob_bytes left \<and> is_err str' = is_err str
       | None \<Rightarrow> l = ?xs \<and> stream_content content str' = [] \<and> is_err str' = At_eof"
    by (auto simp: blob_len_def)
  show ?case
  proof (cases "c \<in> set ?xs")
    case True
    then have l: "l = takeWhile (\<lambda>x. x \<noteq> c) ?xs" "is_err str' = is_err str"
        and c': "stream_content content str' = tl (dropWhile (\<lambda>x. x \<noteq> c) ?xs)"
      using g(5) by (auto simp: apk_blob_split_char)
    have split: "split_on c ?xs = l # split_on c (stream_content content str')"
      using split_on_unfold [of c ?xs] True l c' by simp
    have short: "length (stream_content content str') < length ?xs"
    proof -
      have "dropWhile (\<lambda>x. x \<noteq> c) ?xs \<noteq> []" using True by (auto simp: dropWhile_eq_Nil_conv)
      moreover have "length (dropWhile (\<lambda>x. x \<noteq> c) ?xs) \<le> length ?xs" by (rule length_dropWhile_le)
      ultimately show ?thesis using c' by (cases "dropWhile (\<lambda>x. x \<noteq> c) ?xs") auto
    qed
    show ?thesis
    proof (cases "is_err str = Open \<or> is_pend str' \<noteq> []")
      case go: True
      have "istream_pieces rd str' (Some [c]) =
        Some (if is_err str' = Open then split_on c (stream_content content str')
          else without_last_empty (split_on c (stream_content content str')), APKE_EOF)"
        using less.hyps [OF short g(2,3)] go l less.prems(4) g(4) split by auto
      then show ?thesis
        using g(1) split l split_on_nonempty [of c "stream_content content str'"]
        by (subst istream_pieces.simps) (auto simp: without_last_empty_def)
    next
      case False
      then have e: "is_err str' = At_eof" "is_pend str' = []" "is_err str = At_eof" "content (is_src str') = []"
        using less.prems(2) l g(2) by (auto simp: not_failed_iff stream_ok_def)
      then have "stream_content content str' = []" by (simp add: stream_content_def)
      with e show ?thesis
        using g(1) split pieces_eof [OF e(1,2)] by (subst istream_pieces.simps) (auto simp: without_last_empty_def)
    qed
  next
    case False
    then have e: "is_err str' = At_eof" "is_pend str' = []" "l = ?xs"
      using g(5) by (auto simp: apk_blob_split_char stream_content_def)
    note split_on_single [OF False]
    moreover have "?xs \<noteq> []" if "is_err str \<noteq> Open"
      using that less.prems(3) by (simp add: stream_content_def)
    ultimately show ?thesis
      using g(1) e pieces_eof [OF e(1,2)] by (subst istream_pieces.simps) (auto simp: without_last_empty_def)
  qed
qed

lemma read_max_total:
  assumes "stream_ok content is" "not_failed is"
  obtains is' where "apk_istream_read_max rd is n = (Inr (take n (stream_content content is)), is')"
    "stream_ok content is'" "not_failed is'" "stream_content content is' = drop n (stream_content content is)"
    "is_buf_size is' = is_buf_size is"
proof -
  obtain r st out where l: "read_max_loop rd is n [] = (r, st, out)" by (cases "read_max_loop rd is n []")
  then have "r = None" using read_max_loop_reliable [of rd "is" n "[]"] rd_total by auto
  moreover have "\<And>e. is_err is \<noteq> Failed e" using assms(2) by (auto simp: not_failed_def)
  ultimately obtain xs is' where x: "apk_istream_read_max rd is n = (Inr xs, is')"
    using l by (cases "is_err is"; cases "out = []") (auto simp: apk_istream_read_max_def)
  then show thesis using read_max_spec [OF assms x] read_max_buf_size [of rd "is" n] that by simp
qed

lemma read_total:
  assumes "stream_ok content is" "not_failed is" "n \<le> length (stream_content content is)"
  obtains is' where "apk_istream_read rd is n = (Inr (take n (stream_content content is)), is')"
    "stream_ok content is'" "not_failed is'" "stream_content content is' = drop n (stream_content content is)"
    "is_buf_size is' = is_buf_size is"
proof -
  from read_max_total [OF assms(1,2), of n] obtain is' where
    "apk_istream_read_max rd is n = (Inr (take n (stream_content content is)), is')"
    "stream_ok content is'" "not_failed is'" "stream_content content is' = drop n (stream_content content is)"
    "is_buf_size is' = is_buf_size is" .
  then show thesis using assms(3) that [of is'] by (simp add: apk_istream_read_def)
qed

lemma skip_loop_total:
  assumes "stream_ok content is" "not_failed is" "k \<le> n"
  shows "case skip_loop rd is n k of (r, is') \<Rightarrow>
    stream_ok content is' \<and> not_failed is' \<and> stream_content content is' = drop (n - k) (stream_content content is) \<and>
    (n - k \<le> length (stream_content content is) \<longrightarrow> r = Inr n)"
  using assms
proof (induction "n - k" arbitrary: k "is" rule: less_induct)
  case (less k str)
  show ?case
  proof (cases "k < n")
    case True
    define st where "st = (if is_pend str = [] then snd (apk_istream_fill rd str) else str)"
    have ok: "stream_ok content st \<and> not_failed st \<and> stream_content content st = stream_content content str \<and>
      (is_pend st = [] \<longrightarrow> stream_content content str = [])"
    proof (cases "is_pend str = []")
      case empty: True
      obtain s0 str0 where f: "apk_istream_fill rd str = (s0, str0)" by fastforce
      have "s0 = Open \<or> s0 = At_eof"
        using fill_failed [OF less.prems(2)] f less.prems(1) empty by (cases s0) (auto simp: stream_ok_def)
      from fill_spec [OF less.prems(1,2) f this] show ?thesis
        using f empty \<open>s0 = Open \<or> s0 = At_eof\<close> by (auto simp: st_def stream_content_def stream_ok_def)
    qed (use less.prems in \<open>simp add: st_def\<close>)
    show ?thesis
    proof (cases "is_pend st = []")
      case empty: True
      then have "skip_loop rd str n k = (Inl (eof_code (is_err st)), st)"
        using True by (subst skip_loop.simps) (auto simp: apk_istream_get_max_def Let_def st_def)
      then show ?thesis using ok empty True by auto
    next
      case False
      define j where "j = min (length (is_pend st)) (min (n - k) SSIZE_MAX)"
      have j: "0 < j" "j \<le> length (is_pend st)" "k + j \<le> n"
        using False True by (auto simp: j_def SSIZE_MAX_def)
      have run: "skip_loop rd str n k = skip_loop rd (consume j st) n (k + j)"
        using True False by (subst skip_loop.simps) (auto simp: apk_istream_get_max_def Let_def st_def j_def)
      have "stream_ok content (consume j st)" "not_failed (consume j st)"
        using ok j by (auto simp: not_failed_def intro: stream_ok_consume)
      moreover have "j \<le> length (stream_content content str)"
        using ok j(2) by (metis length_append stream_content_def trans_le_add1)
      moreover have "n - (k + j) < n - k" using j True by simp
      ultimately show ?thesis
        using less.hyps [of "k + j" "consume j st"] j True ok run
        by (simp add: stream_content_consume add.commute split: prod.splits)
    qed
  next
    case False
    then show ?thesis using less.prems by (auto simp: skip_loop.simps [of rd str])
  qed
qed

end

section \<open>Segments\<close>

definition segment_content :: "('s \<Rightarrow> bytes) \<Rightarrow> nat \<times> 's \<Rightarrow> bytes" where
  "segment_content content sis = take (fst sis) (content (snd sis))"

text \<open>A segment of a source is a source.\<close>

lemma segment_source:
  assumes "source rd content"
  shows "source (segment_read rd) (segment_content content)"
proof
  fix sis :: "nat \<times> 'a" and n xs sis'
  assume r: "segment_read rd sis n = (Inr xs, sis')"
  show "segment_content content sis = xs @ segment_content content sis' \<and> length xs \<le> n"
    using r source.rd_data [OF assms, of "snd sis" "min n (fst sis)"]
    by (auto simp: segment_read_def segment_content_def Let_def split: prod.splits sum.splits if_splits)
next
  fix sis :: "nat \<times> 'a" and n sis'
  assume "segment_read rd sis n = (Inr [], sis')" "0 < n"
  then show "segment_content content sis = []"
    by (auto simp: segment_read_def segment_content_def Let_def split: prod.splits sum.splits if_splits)
qed

lemma read_max_loop_keeps:
  assumes "\<And>s n xs s'. I s \<Longrightarrow> rd s n = (Inr xs, s') \<Longrightarrow> I s'" "I (is_src is)"
    "read_max_loop rd is left acc = (None, is', out)"
  shows "I (is_src is')"
  using assms
proof (induction rd "is" left acc arbitrary: is' out rule: read_max_loop.induct)
  case (1 rd str left acc)
  then show ?case
    by (subst (asm) (4) read_max_loop.simps) (auto simp: Let_def split: if_splits prod.splits sum.splits)
qed

lemma segment_keeps:
  assumes "source rd content" "segment_read rd (left, s) k = (Inr xs, (left', s'))"
    "left \<le> left0" "content s = drop (left0 - left) (content s0)"
  shows "left' \<le> left0 \<and> content s' = drop (left0 - left') (content s0)"
proof (cases "xs = []")
  case True
  then show ?thesis
    using assms by (auto simp: segment_read_def Let_def split: prod.splits sum.splits if_splits)
next
  case False
  then have r: "rd s (min k left) = (Inr xs, s')" "left' = left - length xs" "min k left \<noteq> 0"
    using assms(2) by (auto simp: segment_read_def Let_def split: prod.splits sum.splits if_splits)
  then have d: "content s = xs @ content s'" "length xs \<le> left"
    using source.rd_data [OF assms(1) r(1)] by auto
  then have "content s' = drop (length xs) (content s)" by simp
  then show ?thesis
    using assms(3,4) d(2) r(2) by (auto simp: add.commute)
qed

lemma read_max_keeps:
  assumes "\<And>s n xs s'. I s \<Longrightarrow> rd s n = (Inr xs, s') \<Longrightarrow> I s'" "I (is_src is)"
    "apk_istream_read_max rd is n = (Inr xs, is')"
  shows "I (is_src is')"
proof -
  obtain r st out where l: "read_max_loop rd is n [] = (r, st, out)" by (cases "read_max_loop rd is n []")
  then have "r = None" "is_src is' = is_src st"
    using assms(3) by (auto simp: apk_istream_read_max_def split: stream_status.splits option.splits if_splits)
  then show ?thesis using read_max_loop_keeps [of I rd "is" n "[]" st out] assms(1,2) l by auto
qed

lemma segment_stream:
  assumes "stream_ok content is" "not_failed is" "0 < is_buf_size is" "apk_istream_segment is n = (seg, is1)"
  shows "stream_ok (segment_content content) seg \<and> not_failed seg \<and>
    stream_content (segment_content content) seg = take n (stream_content content is)"
  using assms
  by (auto simp: apk_istream_segment_def Let_def stream_defs segment_content_def min_def)

lemma fill_buf_size: "is_buf_size (snd (apk_istream_fill rd is)) = is_buf_size is"
  by (auto simp: apk_istream_fill_def split: prod.splits sum.splits)

lemma skip_loop_buf_size: "is_buf_size (snd (skip_loop rd is n k)) = is_buf_size is"
proof (induction rd "is" n k rule: skip_loop.induct)
  case (1 rd str n k)
  have "is_buf_size (snd (apk_istream_get_max rd str j)) = is_buf_size str" for j
    using fill_buf_size [of rd str] by (auto simp: apk_istream_get_max_def Let_def)
  then show ?case
    using 1 by (subst skip_loop.simps) (auto split: prod.splits sum.splits, (metis snd_conv)+)
qed

lemma skip_buf_size: "is_buf_size (snd (apk_istream_skip rd is n)) = is_buf_size is"
  using skip_loop_buf_size [of rd "is" n 0] by (auto simp: apk_istream_skip_def split: prod.splits sum.splits)

lemma segment_read_close:
  assumes "reliable_source rd content" "stream_ok content is" "not_failed is" "0 < is_buf_size is"
    "apk_istream_segment is n = (seg, is1)"
    "apk_istream_read_max (segment_read rd) seg k = (Inr xs, seg')"
  shows "xs = take (min k n) (stream_content content is) \<and>
    stream_content content (snd (segment_close rd seg' is1)) = drop n (stream_content content is) \<and>
    stream_ok content (snd (segment_close rd seg' is1)) \<and> not_failed (snd (segment_close rd seg' is1)) \<and>
    is_buf_size (snd (segment_close rd seg' is1)) = is_buf_size is"
proof -
  have src: "source rd content" using assms(1) by (simp add: reliable_source_def)
  let ?p = "length (take n (is_pend is))"
  note seg = segment_stream [OF assms(2-5)]
  have xs: "xs = take (min k n) (stream_content content is)"
    using source.read_max_spec [OF segment_source [OF src] _ _ assms(6)] seg by (simp add: min.commute)
  define I where "I = (\<lambda>sis. fst sis \<le> n - ?p \<and> content (snd sis) = drop (n - ?p - fst sis) (content (is_src is)))"
  have "I (is_src seg)" using assms(5) by (auto simp: I_def apk_istream_segment_def Let_def)
  moreover have "I s'" if "I s" "segment_read rd s m = (Inr ys, s')" for s m ys s'
    using segment_keeps [OF src, of "fst s" "snd s" m ys "fst s'" "snd s'" "n - ?p" "is_src is"] that
    by (simp add: I_def)
  ultimately have "I (is_src seg')" using read_max_keeps [of I, OF _ _ assms(6)] by blast
  then obtain left s where s: "is_src seg' = (left, s)" "left \<le> n - ?p"
      "content s = drop (n - ?p - left) (content (is_src is))"
    by (cases "is_src seg'") (auto simp: I_def)
  let ?o = "is1\<lparr>is_src := s\<rparr>"
  have o: "is_pend ?o = drop n (is_pend is)" "is_err ?o = is_err is" "is_buf_size ?o = is_buf_size is"
      "is_at_buf ?o \<longleftrightarrow> is_at_buf is \<and> n = 0 \<and> is_pend is \<noteq> []"
    using assms(5) by (auto simp: apk_istream_segment_def Let_def consume_def split: if_splits)
  have ok: "stream_ok content ?o" "not_failed ?o"
    using assms(2-4) o s(3) by (auto simp: stream_ok_def not_failed_def)
  have o': "stream_content content ?o = drop n (is_pend is) @ drop (n - length (is_pend is) - left) (content (is_src is))"
    using o(1) s(3) by (simp add: stream_content_def min_def split: if_splits)
  show ?thesis
  proof (cases "left = 0")
    case True
    then have "snd (segment_close rd seg' is1) = ?o" using s(1) by (simp add: segment_close_def Let_def)
    then show ?thesis using xs o' True ok o(3) by (simp add: stream_content_def)
  next
    case False
    then have big: "left \<le> n - length (is_pend is)" "length (is_pend is) \<le> n" using s(2) by auto
    have "stream_content content (snd (apk_istream_skip rd ?o left)) = drop left (stream_content content ?o) \<and>
        stream_ok content (snd (apk_istream_skip rd ?o left)) \<and> not_failed (snd (apk_istream_skip rd ?o left))"
      using reliable_source.skip_loop_total [OF assms(1) ok, of 0 left]
      by (auto simp: apk_istream_skip_def split: prod.splits sum.splits)
    moreover have "snd (segment_close rd seg' is1) = snd (apk_istream_skip rd ?o left)"
      using False s(1) by (simp add: segment_close_def Let_def)
    moreover have "drop left (stream_content content ?o) = drop n (stream_content content is)"
      unfolding o' using big by (simp add: stream_content_def)
    ultimately show ?thesis using xs skip_buf_size [of rd ?o left] o(3) by simp
  qed
qed

lemma read_max_loop_invariant:
  assumes "\<And>s n. I s \<Longrightarrow> \<exists>xs s'. rd s n = (Inr xs, s') \<and> I s'" "I (is_src is)"
  shows "fst (read_max_loop rd is left acc) = None"
  using assms
proof (induction rd "is" left acc rule: read_max_loop.induct)
  case (1 rd str left acc)
  obtain xs s' ys s'' where x: "rd (is_src str) left = (Inr xs, s')" "I s'"
      "rd (is_src str) (is_buf_size str) = (Inr ys, s'')" "I s''"
    using "1.prems" by meson
  show ?case
    using 1 x by (subst read_max_loop.simps) (auto simp: Let_def)
qed

lemma segment_read_progress:
  assumes "reliable_source rd content" "left \<le> length (content s)"
  shows "\<exists>xs left' s'. segment_read rd (left, s) n = (Inr xs, (left', s')) \<and> left' \<le> length (content s')"
proof (cases "min n left = 0")
  case True
  then show ?thesis using assms(2) by (auto simp: segment_read_def)
next
  case False
  have src: "source rd content" using assms(1) by (simp add: reliable_source_def)
  obtain xs s' where r: "rd s (min n left) = (Inr xs, s')"
    using reliable_source.rd_total [OF assms(1)] by blast
  have d: "content s = xs @ content s'" "length xs \<le> min n left" using source.rd_data [OF src r] by auto
  moreover have "xs \<noteq> []" using source.rd_end [OF src, of s "min n left" s'] r False assms(2) by auto
  ultimately show ?thesis using r False assms(2) by (simp add: segment_read_def Let_def)
qed

lemma segment_read_total:
  assumes "reliable_source rd content" "stream_ok content is" "not_failed is" "0 < is_buf_size is"
    "apk_istream_segment is n = (seg, is1)" "n \<le> length (stream_content content is)"
  obtains seg' where
    "apk_istream_read_max (segment_read rd) seg k = (Inr (take (min k n) (stream_content content is)), seg')"
proof -
  note seg = segment_stream [OF assms(2-5)]
  obtain r st out where l: "read_max_loop (segment_read rd) seg k [] = (r, st, out)" by (cases "read_max_loop (segment_read rd) seg k []")
  have "fst (is_src seg) \<le> length (content (snd (is_src seg)))"
    using assms(5,6) by (auto simp: apk_istream_segment_def Let_def stream_content_def)
  then have "r = None"
    using read_max_loop_invariant [of "\<lambda>p. fst p \<le> length (content (snd p))" "segment_read rd" seg k "[]"]
      segment_read_progress [OF assms(1)] l by fastforce
  then obtain xs seg' where x: "apk_istream_read_max (segment_read rd) seg k = (Inr xs, seg')"
    using l seg by (cases "is_err seg"; cases "out = []") (auto simp: apk_istream_read_max_def not_failed_def)
  then show thesis using that segment_read_close [OF assms(1-5) x] by simp
qed

section \<open>Instances\<close>

interpretation blob_src: reliable_source blob_read "\<lambda>_. []"
  by unfold_locales (auto simp: blob_read_def)

text \<open>
  A file read through a descriptor: the bytes that are left and a schedule of short reads. This
  is what \<^verbatim>\<open>read\<close> promises for a regular file: some of the next bytes, none only at the end.
\<close>

definition file_read :: "(bytes \<times> nat list) read_op" where
  "file_read f n =
     (case f of (xs, sched) \<Rightarrow>
        let k = (case sched of [] \<Rightarrow> n | c # _ \<Rightarrow> min n (Suc c))
        in (Inr (take k xs), (drop k xs, tl sched)))"

interpretation file_src: reliable_source "fdi_read file_read" fst
proof unfold_locales
  fix f :: "bytes \<times> nat list" and n xs f'
  assume r: "fdi_read file_read f n = (Inr xs, f')"
  show "fst f = xs @ fst f' \<and> length xs \<le> n"
    using r by (auto simp: fdi_read_def file_read_def Let_def split: prod.splits list.splits)
next
  fix f :: "bytes \<times> nat list" and n f'
  assume "fdi_read file_read f n = (Inr [], f')" "0 < n"
  then show "fst f = []"
    by (auto simp: fdi_read_def file_read_def Let_def split: prod.splits list.splits)
next
  fix f :: "bytes \<times> nat list" and n
  show "\<exists>xs s'. fdi_read file_read f n = (Inr xs, s')"
    by (auto simp: fdi_read_def file_read_def Let_def split: prod.splits list.splits)
qed

lemma from_fd_ok: "stream_ok content (apk_istream_from_fd s)" "not_failed (apk_istream_from_fd s)"
    "stream_content content (apk_istream_from_fd s) = content s" "is_err (apk_istream_from_fd s) = Open"
    "is_buf_size (apk_istream_from_fd s) = apk_io_bufsize"
  by (auto simp: stream_defs apk_istream_from_fd_def apk_io_bufsize_def)

lemma from_blob_ok: "stream_ok (\<lambda>_. []) (apk_istream_from_blob b)" "not_failed (apk_istream_from_blob b)"
    "stream_content (\<lambda>_. []) (apk_istream_from_blob b) = blob_bytes b"
    "is_err (apk_istream_from_blob b) = At_eof" "is_pend (apk_istream_from_blob b) = blob_bytes b"
  by (auto simp: stream_defs apk_istream_from_blob_def blob_len_def)

section \<open>Properties\<close>

text \<open>
  C34. Reading a text file line by line gives the lines of the file, the empty one behind a final
  newline included, and then the end of file, however \<^verbatim>\<open>read\<close> splits the file, provided that
  every line is shorter than the buffer.
\<close>

theorem fd_lines:
  assumes "reliable_source (fdi_read rd) content"
    "\<forall>l \<in> set (split_on c (content s)). length l < apk_io_bufsize"
  shows "istream_pieces (fdi_read rd) (apk_istream_from_fd s) (Some [c]) =
    Some (split_on c (content s), APKE_EOF)"
  using reliable_source.pieces_spec [OF assms(1), of "apk_istream_from_fd s" c] assms(2)
  by (simp add: from_fd_ok)

theorem fd_lines_witness:
  "istream_pieces (fdi_read file_read) (apk_istream_from_fd (''a,bc,'', [0, 2, 0, 0])) (Some '','') =
    Some ([''a'', ''bc'', []], APKE_EOF)"
  using fd_lines [OF file_src.reliable_source_axioms, of "CHR '',''" "(''a,bc,'', [0, 2, 0, 0])"]
  by (simp add: apk_io_bufsize_def)

text \<open>
  A segment of a stream is the next \<open>n\<close> bytes of it: reading from the segment gives a prefix of
  those bytes, and after closing it, whether or not it was read to its end, the stream goes on
  exactly behind them.
\<close>

lemma segment_slice:
  assumes "reliable_source rd content" "stream_ok content is" "not_failed is" "0 < is_buf_size is"
    "apk_istream_segment is n = (seg, is1)"
    "apk_istream_read_max (segment_read rd) seg k = (Inr xs, seg')"
  shows "xs = take (min k n) (stream_content content is) \<and>
    stream_content content (snd (segment_close rd seg' is1)) = drop n (stream_content content is)"
  using segment_read_close [OF assms] by blast

lemma segment_slice_witness:
  "case apk_istream_segment (apk_istream_from_blob (Some ''header'')) 4 of (seg, is1) \<Rightarrow>
   case apk_istream_read_max (segment_read blob_read) seg 2 of (r, seg') \<Rightarrow>
     r = Inr ''he'' \<and> stream_content (\<lambda>_. []) (snd (segment_close blob_read seg' is1)) = ''er''"
proof -
  let ?is = "apk_istream_from_blob (Some ''header'')"
  obtain seg is1 where seg: "apk_istream_segment ?is 4 = (seg, is1)" by fastforce
  obtain r seg' where r: "apk_istream_read_max (segment_read blob_read) seg 2 = (r, seg')" by fastforce
  have "r = Inr ''he''"
    using seg r by (auto simp: apk_istream_segment_def Let_def apk_istream_from_blob_def apk_istream_read_max_def
        read_max_loop.simps consume_def)
  with segment_slice [OF blob_src.reliable_source_axioms from_blob_ok(1,2) _ seg, of 2 "''he''" seg'] r seg
  show ?thesis by (simp add: from_blob_ok) (simp add: apk_istream_from_blob_def)
qed

text \<open>
  Skipping between two and four gigabytes succeeds but is reported as an error: the counter is
  returned as a 32-bit signed number, which is then negative.
\<close>

lemma skip_wraps:
  assumes "reliable_source rd content" "stream_ok content is" "not_failed is"
    "2 ^ 31 \<le> n" "n < 2 ^ 32" "n \<le> length (stream_content content is)"
  shows "\<exists>r. fst (apk_istream_skip rd is n) = Inr r \<and> r < 0 \<and>
    stream_content content (snd (apk_istream_skip rd is n)) = drop n (stream_content content is)"
proof -
  have "n div 2 ^ 31 = 1" using assms(4,5) by (intro div_nat_eqI) auto
  then have "bit n 31" by (simp only: bit_iff_odd) simp
  then have neg: "to_int32 n < 0" unfolding to_int32_def by transfer (simp add: bit_simps)
  show ?thesis
    using reliable_source.skip_loop_total [OF assms(1-3), of 0 n] assms(6) neg
    by (auto simp: apk_istream_skip_def split: prod.splits)
qed

lemma skip_wraps_witness:
  "\<exists>r. fst (apk_istream_skip blob_read (apk_istream_from_blob (Some (replicate (2 ^ 31) NUL))) (2 ^ 31)) = Inr r \<and>
    r < 0"
  using skip_wraps [OF blob_src.reliable_source_axioms from_blob_ok(1,2), of "2 ^ 31" "Some (replicate (2 ^ 31) NUL)"]
  by (auto simp: from_blob_ok)

end
