(* ===== verification/Tar.thy ===== *)
theory Tar
  imports Istream Digest Array
begin

text \<open>
  Archives of \<^verbatim>\<open>tar.c\<close>: the octal fields of a header, the extended (pax) headers, reading an archive
  from a stream with a callback for every entry, and writing entries. The user and group database,
  the digest function of the crypto library and the success of \<^verbatim>\<open>malloc\<close> are arguments.
\<close>

section \<open>Octal fields\<close>

text \<open>The value of a field, and whether it is followed by zero bytes and spaces only.\<close>

definition get_octal :: "bytes \<Rightarrow> u64 \<times> bool" where
  "get_octal s =
     (case apk_blob_pull_uint (Some s) 8 of
        (val, b) \<Rightarrow> (val, dropWhile (\<lambda>c. c = NUL \<or> c = CHR '' '') (blob_bytes b) = []))"

fun octal_digits :: "nat \<Rightarrow> u64 \<Rightarrow> bytes" where
  "octal_digits 0 value = []"
| "octal_digits (Suc n) value = octal_digits n (value div 8) @ [chr8 (48 + ucast (value mod 8))]"

definition put_octal :: "nat \<Rightarrow> u64 \<Rightarrow> bool \<Rightarrow> bytes" where
  "put_octal l value has_zero =
     (if has_zero then octal_digits (l - 1) value @ [NUL] else octal_digits l value)"

section \<open>File information\<close>

record apk_xattr =
  xa_name :: bytes
  xa_value :: blob

record apk_file_info =
  fi_name :: bytes
  fi_link_target :: "bytes option"
  fi_uname :: "bytes option"
  fi_gname :: "bytes option"
  fi_size :: nat
  fi_uid :: u32
  fi_gid :: u32
  fi_mode :: u32
  fi_mtime :: u64
  fi_device :: u64
  fi_digest :: apk_digest
  fi_xattr_digest :: apk_digest
  fi_xattrs :: "apk_xattr list"

definition S_IFMT :: u32 where "S_IFMT = 0xF000"
definition S_IFREG :: u32 where "S_IFREG = 0x8000"
definition S_IFLNK :: u32 where "S_IFLNK = 0xA000"
definition S_IFCHR :: u32 where "S_IFCHR = 0x2000"
definition S_IFBLK :: u32 where "S_IFBLK = 0x6000"
definition S_IFDIR :: u32 where "S_IFDIR = 0x4000"
definition S_IFIFO :: u32 where "S_IFIFO = 0x1000"

definition makedev :: "u64 \<Rightarrow> u64 \<Rightarrow> u64" where
  "makedev major minor =
     push_bit 32 (major AND 0xfffff000) OR push_bit 8 (major AND 0xfff) OR
     push_bit 12 (minor AND 0xffffff00) OR (minor AND 0xff)"

definition empty_digest :: apk_digest where
  "empty_digest = \<lparr>dg_alg = APK_DIGEST_NONE, dg_len = 0, dg_data = replicate APK_DIGEST_LENGTH_MAX NUL\<rparr>"

text \<open>The digest over the sorted attributes (\<^verbatim>\<open>io.c\<close>); \<open>digest\<close> is the hash function of an algorithm.\<close>

fun insert_xattr :: "apk_xattr \<Rightarrow> apk_xattr list \<Rightarrow> apk_xattr list" where
  "insert_xattr x [] = [x]"
| "insert_xattr x (y # ys) = (if strcmp (xa_name x) (xa_name y) \<le> 0 then x # y # ys else y # insert_xattr x ys)"

definition sort_xattrs :: "apk_xattr list \<Rightarrow> apk_xattr list" where
  "sort_xattrs xs = foldr insert_xattr xs []"

definition htobe32 :: "nat \<Rightarrow> bytes" where
  "htobe32 n = map (\<lambda>k. chr8 (ucast (drop_bit k (word_of_nat n :: u32)))) [24, 16, 8, 0]"

definition hash_len_data :: "bytes \<Rightarrow> bytes" where
  "hash_len_data xs = htobe32 (length xs) @ xs"

definition apk_fileinfo_hash_xattr ::
  "(nat \<Rightarrow> bytes \<Rightarrow> apk_digest option) \<Rightarrow> nat \<Rightarrow> apk_file_info \<Rightarrow> apk_file_info" where
  "apk_fileinfo_hash_xattr digest alg fi =
     (if fi_xattrs fi = [] then fi\<lparr>fi_xattr_digest := apk_digest_reset (fi_xattr_digest fi)\<rparr>
      else
        let xs = sort_xattrs (fi_xattrs fi);
            input = concat (map (\<lambda>x. hash_len_data (cstr (xa_name x)) @ hash_len_data (blob_bytes (xa_value x))) xs)
        in case digest alg input of
             None \<Rightarrow> fi\<lparr>fi_xattr_digest := apk_digest_reset (fi_xattr_digest fi)\<rparr>
           | Some d \<Rightarrow> fi\<lparr>fi_xattrs := xs, fi_xattr_digest := d\<rparr>)"

section \<open>Extended headers\<close>

text \<open>
  The name of an entry is a pointer: to the name field of the current header, to a local buffer, or
  into the buffer of the extended header. A pointer into that buffer carries the number of times
  the buffer had been reallocated; it dangles once the buffer is reallocated again.
\<close>

datatype name_ref = Buf_name | Local_name bytes | Pax_name nat nat

text \<open>
  One record of an extended header: its length in decimal, a space, the key, an equals sign, the
  value and a newline. \<open>rest\<close> is what is left of the buffer and \<open>n\<close> the length of the buffer. The
  result is the position of the key, the key, the position of the value, the value and the rest.
\<close>

definition pax_record :: "nat \<Rightarrow> blob \<Rightarrow> (bytes \<times> nat \<times> bytes \<times> bytes) option" where
  "pax_record n hdr =
     (let start = n - blob_len hdr;
          (len, hdr) = apk_blob_pull_uint hdr 10;
          len = unat (ucast len :: u32);
          hdr = apk_blob_pull_char hdr 32
      in case apk_blob_split hdr (Some ''='') of
           None \<Rightarrow> None
         | Some (name, hdr) \<Rightarrow>
             let vpos = n - blob_len hdr in
             if len < vpos - start + 1 then None
             else
               let len = len - (vpos - start + 1) in
               if blob_len hdr < len then None
               else case apk_blob_pull_char (Some (drop len (blob_bytes hdr))) 10 of
                      None \<Rightarrow> None
                    | Some rest \<Rightarrow> Some (blob_bytes name, vpos, take len (blob_bytes hdr), rest))"

definition pax_apply ::
  "nat \<Rightarrow> bytes \<Rightarrow> nat \<Rightarrow> bytes \<Rightarrow> name_ref \<times> apk_file_info \<Rightarrow> (name_ref \<times> apk_file_info) outcome" where
  "pax_apply gen name vpos value st =
     (case st of (ref, fi) \<Rightarrow>
        if apk_blob_compare (Some name) (Some ''path'') = 0 then Ret (Pax_name gen vpos, fi)
        else if apk_blob_compare (Some name) (Some ''linkpath'') = 0
        then Ret (ref, fi\<lparr>fi_link_target := Some (cstr value)\<rparr>)
        else case apk_blob_pull_blob_match (Some name) (Some ''SCHILY.xattr.'') of
               (True, xname) \<Rightarrow>
                 Ret (ref, fi\<lparr>fi_xattrs := fi_xattrs fi @ [\<lparr>xa_name = cstr (blob_bytes xname), xa_value = Some value\<rparr>]\<rparr>)
             | (False, _) \<Rightarrow>
                (case apk_blob_pull_blob_match (Some name) (Some ''APK-TOOLS.checksum.'') of
                   (False, _) \<Rightarrow> Ret (ref, fi)
                 | (True, algname) \<Rightarrow>
                     let alg = (if apk_blob_compare algname (Some ''SHA1'') = 0 then APK_DIGEST_SHA1 else APK_DIGEST_NONE)
                     in if alg \<le> dg_alg (fi_digest fi) then Ret (ref, fi)
                        else
                          let d = apk_digest_set (fi_digest fi) alg in
                          case apk_blob_pull_hexdump (Some value) (digest_slot d 0 (dg_len d)) of
                            Fault \<Rightarrow> Fault
                          | Ret (None, out) \<Rightarrow> Ret (ref, fi\<lparr>fi_digest := apk_digest_reset (d\<lparr>dg_data := store_at 0 out (dg_data d)\<rparr>)\<rparr>)
                          | Ret (Some _, out) \<Rightarrow> Ret (ref, fi\<lparr>fi_digest := d\<lparr>dg_data := store_at 0 out (dg_data d)\<rparr>\<rparr>)))"

lemma pull_uint_loop_length: "length (snd (pull_uint_loop radix xs v)) \<le> length xs"
  by (induction radix xs v rule: pull_uint_loop.induct) (auto simp: Let_def)

lemma pull_uint_length: "blob_len (snd (apk_blob_pull_uint b radix)) \<le> blob_len b"
  using pull_uint_loop_length [of radix "the b" 0]
  by (auto simp: apk_blob_pull_uint_def blob_len_def split: option.splits prod.splits)

lemma pull_char_length: "apk_blob_pull_char b c = Some xs \<Longrightarrow> length xs < blob_len b"
  by (auto simp: apk_blob_pull_char_def blob_len_def split: option.splits list.splits if_splits)

lemma pax_record_shorter:
  assumes "pax_record n hdr = Some (k, p, v, rest)"
  shows "length rest < blob_len hdr"
proof -
  obtain len b where u: "apk_blob_pull_uint hdr 10 = (len, b)" by fastforce
  obtain name b2 where sp: "apk_blob_split (apk_blob_pull_char b 32) (Some ''='') = Some (name, b2)"
    using assms u by (auto simp: pax_record_def Let_def split: option.splits)
  then obtain b1 where b1: "apk_blob_pull_char b 32 = Some b1" by (auto simp: apk_blob_split_Some)
  obtain j where "apk_blob_pull_char (Some (drop j (blob_bytes b2))) 10 = Some rest"
    using assms u sp by (auto simp: pax_record_def Let_def split: option.splits if_splits)
  then have "length rest \<le> blob_len b2"
    using pull_char_length by (fastforce simp: blob_len_def)
  also have "\<dots> \<le> length b1"
    using apk_blob_split_append [OF sp] b1 by (auto simp: blob_len_def)
  also have "\<dots> < blob_len hdr" using pull_char_length [OF b1] pull_uint_length [of hdr 10] u by simp
  finally show ?thesis .
qed

function pax_loop ::
  "nat \<Rightarrow> nat \<Rightarrow> blob \<Rightarrow> nat list \<Rightarrow> name_ref \<times> apk_file_info \<Rightarrow> (nat list \<times> name_ref \<times> apk_file_info) outcome" where
  "pax_loop gen n hdr zeros st =
     (case pax_record n hdr of
        None \<Rightarrow> Ret (zeros, st)
      | Some (name, vpos, value, rest) \<Rightarrow>
         (case pax_apply gen name vpos value st of
            Fault \<Rightarrow> Fault
          | Ret st' \<Rightarrow>
              let xattr = fst (apk_blob_pull_blob_match (Some name) (Some ''SCHILY.xattr.''))
              in pax_loop gen n (Some rest) (zeros @ (vpos + length value) # (if xattr then [vpos - 1] else [])) st'))"
  by pat_completeness auto
termination
  by (relation "measure (\<lambda>(gen, n, hdr, zeros, st). blob_len hdr)") (auto dest: pax_record_shorter)

declare pax_loop.simps [simp del]

text \<open>The strings are terminated in place: the buffer afterwards has zero bytes at these positions.\<close>

definition handle_extended_header ::
  "nat \<Rightarrow> bytes \<Rightarrow> nat \<Rightarrow> name_ref \<times> apk_file_info \<Rightarrow> (bytes \<times> name_ref \<times> apk_file_info) outcome" where
  "handle_extended_header gen pax paxlen st =
     (case pax_loop gen paxlen (Some (take paxlen pax)) [] st of
        Fault \<Rightarrow> Fault
      | Ret (zeros, st') \<Rightarrow> Ret (fold (\<lambda>i p. p[i := NUL]) zeros pax, st'))"

section \<open>Reading archives\<close>

definition tar_field :: "bytes \<Rightarrow> nat \<Rightarrow> nat \<Rightarrow> bytes" where
  "tar_field buf off n = take n (drop off buf)"

definition hdr_name :: "bytes \<Rightarrow> bytes" where "hdr_name buf = tar_field buf 0 100"
definition hdr_mode :: "bytes \<Rightarrow> bytes" where "hdr_mode buf = tar_field buf 100 8"
definition hdr_uid :: "bytes \<Rightarrow> bytes" where "hdr_uid buf = tar_field buf 108 8"
definition hdr_gid :: "bytes \<Rightarrow> bytes" where "hdr_gid buf = tar_field buf 116 8"
definition hdr_size :: "bytes \<Rightarrow> bytes" where "hdr_size buf = tar_field buf 124 12"
definition hdr_mtime :: "bytes \<Rightarrow> bytes" where "hdr_mtime buf = tar_field buf 136 12"
definition hdr_typeflag :: "bytes \<Rightarrow> char" where "hdr_typeflag buf = buf ! 156"
definition hdr_linkname :: "bytes \<Rightarrow> bytes" where "hdr_linkname buf = tar_field buf 157 100"
definition hdr_magic :: "bytes \<Rightarrow> bytes" where "hdr_magic buf = tar_field buf 257 8"
definition hdr_uname :: "bytes \<Rightarrow> bytes" where "hdr_uname buf = tar_field buf 265 32"
definition hdr_gname :: "bytes \<Rightarrow> bytes" where "hdr_gname buf = tar_field buf 297 32"
definition hdr_devmajor :: "bytes \<Rightarrow> bytes" where "hdr_devmajor buf = tar_field buf 329 8"
definition hdr_devminor :: "bytes \<Rightarrow> bytes" where "hdr_devminor buf = tar_field buf 337 8"
definition hdr_prefix :: "bytes \<Rightarrow> bytes" where "hdr_prefix buf = tar_field buf 345 155"

lemmas hdr_defs = hdr_name_def hdr_mode_def hdr_uid_def hdr_gid_def hdr_size_def hdr_mtime_def
  hdr_typeflag_def hdr_linkname_def hdr_magic_def hdr_uname_def hdr_gname_def hdr_devmajor_def
  hdr_devminor_def hdr_prefix_def tar_field_def

text \<open>
  What the reader relies on: the resolution of user and group names (with the number of the header
  as the default), the digest function, and whether \<^verbatim>\<open>realloc\<close> succeeds.
\<close>

record tar_env =
  env_uid :: "bytes \<Rightarrow> u64 \<Rightarrow> u32"
  env_gid :: "bytes \<Rightarrow> u64 \<Rightarrow> u32"
  env_digest :: "nat \<Rightarrow> bytes \<Rightarrow> apk_digest option"
  env_realloc :: "nat \<Rightarrow> bool"

text \<open>
  The local state of the loop: the stream, the count of empty headers, the name pointer, the buffer of
  the extended header with the number of its reallocations, and its used length.
\<close>

record 's tar_state =
  t_is :: "'s apk_istream"
  t_end :: nat
  t_name :: name_ref
  t_longname :: bytes
  t_pax :: bytes
  t_gen :: nat
  t_paxlen :: nat

datatype parser_result = Parser_ok | Parser_positive | Parser_error apk_error

type_synonym ('s, 'c) entry_parser =
  "'c \<Rightarrow> apk_file_info \<Rightarrow> (nat \<times> 's) apk_istream \<Rightarrow> parser_result \<times> (nat \<times> 's) apk_istream \<times> 'c"

text \<open>The fields of a header; the flag says whether all numbers are well formed.\<close>

definition tar_entry :: "tar_env \<Rightarrow> bytes \<Rightarrow> bool \<times> apk_file_info" where
  "tar_entry env buf =
     (let size = get_octal (hdr_size buf); uid = get_octal (hdr_uid buf); gid = get_octal (hdr_gid buf);
          mode = get_octal (hdr_mode buf); mtime = get_octal (hdr_mtime buf);
          major = get_octal (hdr_devmajor buf); minor = get_octal (hdr_devminor buf)
      in (snd size \<and> snd uid \<and> snd gid \<and> snd mode \<and> snd mtime \<and> snd major \<and> snd minor,
          \<lparr>fi_name = [], fi_link_target = None, fi_uname = Some (cstr (drop 265 buf)), fi_gname = Some (cstr (drop 297 buf)),
           fi_size = unat (fst size), fi_uid = env_uid env (cstr (hdr_uname buf)) (fst uid),
           fi_gid = env_gid env (cstr (hdr_gname buf)) (fst gid),
           fi_mode = ucast (fst mode) AND 0xFFF, fi_mtime = fst mtime,
           fi_device = makedev (fst major) (fst minor),
           fi_digest = empty_digest, fi_xattr_digest = empty_digest, fi_xattrs = []\<rparr>))"

text \<open>The name that a pointer stands for; \<open>None\<close> when it dangles.\<close>

definition name_text :: "'s tar_state \<Rightarrow> bytes \<Rightarrow> bytes option" where
  "name_text t buf =
     (case t_name t of
        Buf_name \<Rightarrow> Some (cstr (hdr_name buf))
      | Local_name xs \<Rightarrow> Some (cstr xs)
      | Pax_name gen pos \<Rightarrow> if gen = t_gen t then Some (cstr (drop pos (t_pax t))) else None)"

definition blob_realloc :: "tar_env \<Rightarrow> bytes \<Rightarrow> nat \<Rightarrow> nat \<Rightarrow> (bytes \<times> nat) option" where
  "blob_realloc env b gen newsize =
     (if length b \<ge> newsize then Some (b, gen)
      else if \<not> env_realloc env newsize then None
      else Some (b @ replicate (newsize - length b) NUL, gen + 1))"

definition round_512 :: "nat \<Rightarrow> nat" where
  "round_512 n = (n + 511) div 512 * 512"

definition type_bits :: "char \<Rightarrow> u32" where
  "type_bits c =
     (if c = CHR ''0'' \<or> c = CHR ''7'' \<or> c = CHR ''1'' then S_IFREG
      else if c = CHR ''2'' then S_IFLNK else if c = CHR ''3'' then S_IFCHR
      else if c = CHR ''4'' then S_IFBLK else if c = CHR ''5'' then S_IFDIR
      else if c = CHR ''6'' then S_IFIFO else 0)"

text \<open>
  One header. The loop continues, stops at the end of the archive, fails (a jump to the error
  label with a result that is not negative counts as an unexpected end), or reads through a
  dangling pointer.
\<close>

datatype ('t, 'c) tar_next = Continue 't 'c | Stop 't 'c | Err apk_error 't 'c | Dangling

definition tar_prefix :: "bytes \<Rightarrow> name_ref \<Rightarrow> name_ref" where
  "tar_prefix buf ref =
     (if hd (hdr_prefix buf) \<noteq> NUL \<and> hdr_typeflag buf \<noteq> CHR ''x'' \<and> hdr_typeflag buf \<noteq> CHR ''g''
      then Local_name (cstr (hdr_prefix buf) @ ''/'' @ cstr (hdr_name buf)) else ref)"

text \<open>The extended header that is pending for an entry.\<close>

definition tar_extended ::
  "tar_env \<Rightarrow> 's tar_state \<Rightarrow> apk_file_info \<Rightarrow> ('s tar_state \<times> apk_file_info) outcome" where
  "tar_extended env t fi =
     (if t_paxlen t = 0 then Ret (t, fi)
      else
        case handle_extended_header (t_gen t) (t_pax t) (t_paxlen t) (t_name t, fi) of
          Fault \<Rightarrow> Fault
        | Ret (pax, ref, fi') \<Rightarrow>
            Ret (t\<lparr>t_pax := pax, t_name := ref\<rparr>, apk_fileinfo_hash_xattr (env_digest env) APK_DIGEST_SHA1 fi'))"

text \<open>The long name and the extended header are read into their buffers; the rest to skip is returned.\<close>

definition tar_special ::
  "tar_env \<Rightarrow> 's read_op \<Rightarrow> char \<Rightarrow> nat \<Rightarrow> 's tar_state \<Rightarrow> apk_error option \<times> nat \<times> 's tar_state" where
  "tar_special env rd typeflag sz t =
     (if typeflag = CHR ''L'' then
        (case blob_realloc env (t_longname t) 0 (sz + 1) of
           None \<Rightarrow> (Some ENOMEM, 0, t)
         | Some (b, _) \<Rightarrow>
            (case apk_istream_read rd (t_is t) sz of
               (Inl e, is') \<Rightarrow> (Some e, 0, t\<lparr>t_is := is', t_longname := b\<rparr>)
             | (Inr xs, is') \<Rightarrow>
                 (None, round_512 sz - sz,
                  t\<lparr>t_is := is', t_longname := store_at 0 (xs @ [NUL]) b, t_name := Local_name xs\<rparr>)))
      else if typeflag = CHR ''x'' then
        (case blob_realloc env (t_pax t) (t_gen t) (round_512 sz) of
           None \<Rightarrow> (Some ENOMEM, 0, t\<lparr>t_paxlen := sz\<rparr>)
         | Some (b, gen) \<Rightarrow>
            (case apk_istream_read rd (t_is t) sz of
               (Inl e, is') \<Rightarrow> (Some e, 0, t\<lparr>t_is := is', t_pax := b, t_gen := gen, t_paxlen := sz\<rparr>)
             | (Inr xs, is') \<Rightarrow>
                 (None, round_512 sz - sz,
                  t\<lparr>t_is := is', t_pax := store_at 0 xs b, t_gen := gen, t_paxlen := sz\<rparr>)))
      else (None, round_512 sz, t))"

text \<open>
  A count of skipped bytes that wraps to a negative number ends the reading with it as the error code in the
  program; it is given as \<open>EIO\<close> here.
\<close>

definition tar_skip :: "'s read_op \<Rightarrow> nat \<Rightarrow> 's tar_state \<Rightarrow> 'c \<Rightarrow> ('s tar_state, 'c) tar_next" where
  "tar_skip rd n t c =
     (if n = 0 then Continue t c
      else
        case apk_istream_skip rd (t_is t) n of
          (Inl e, is') \<Rightarrow> Err e (t\<lparr>t_is := is'\<rparr>) c
        | (Inr r, is') \<Rightarrow> if r < 0 then Err EIO (t\<lparr>t_is := is'\<rparr>) c else Continue (t\<lparr>t_is := is'\<rparr>) c)"

definition tar_deliver ::
  "'s read_op \<Rightarrow> ('s, 'c) entry_parser \<Rightarrow> apk_file_info \<Rightarrow> nat \<Rightarrow> 's tar_state \<Rightarrow> 'c \<Rightarrow> ('s tar_state, 'c) tar_next" where
  "tar_deliver rd parser fi toskip t c =
     (case apk_istream_segment (t_is t) (fi_size fi) of
        (seg, is1) \<Rightarrow>
         (case parser c fi seg of
            (Parser_error e, seg', c') \<Rightarrow> Err e (t\<lparr>t_is := is1\<rparr>) c'
          | (Parser_positive, seg', c') \<Rightarrow> Err APKE_EOF (t\<lparr>t_is := is1\<rparr>) c'
          | (Parser_ok, seg', c') \<Rightarrow>
              tar_skip rd (toskip - fi_size fi)
                (t\<lparr>t_is := snd (segment_close rd seg' is1), t_name := Buf_name, t_paxlen := 0\<rparr>) c'))"

definition too_long :: "bytes \<Rightarrow> bool" where
  "too_long xs \<longleftrightarrow> PATH_MAX - 10 \<le> length xs"

definition tar_finish ::
  "'s read_op \<Rightarrow> ('s, 'c) entry_parser \<Rightarrow> bytes \<Rightarrow> apk_file_info \<Rightarrow> nat \<Rightarrow> 's tar_state \<Rightarrow> 'c \<Rightarrow> ('s tar_state, 'c) tar_next" where
  "tar_finish rd parser buf fi toskip t c =
     (let typeflag = hdr_typeflag buf;
          link = (if typeflag \<in> {CHR ''1'', CHR ''2''} \<and> fi_link_target fi = None
                  then Some (cstr (hdr_linkname buf)) else fi_link_target fi);
          fi = fi\<lparr>fi_mode := fi_mode fi OR type_bits typeflag, fi_link_target := link\<rparr>
      in case name_text t buf of
           None \<Rightarrow> Dangling
         | Some name \<Rightarrow>
             if too_long name \<or> (case link of None \<Rightarrow> False | Some l \<Rightarrow> too_long l) then Err ENAMETOOLONG t c
             else if fi_mode fi AND S_IFMT \<noteq> 0 then tar_deliver rd parser (fi\<lparr>fi_name := name\<rparr>) toskip t c
             else tar_skip rd toskip t c)"

definition tar_header ::
  "tar_env \<Rightarrow> 's read_op \<Rightarrow> ('s, 'c) entry_parser \<Rightarrow> bytes \<Rightarrow> 's tar_state \<Rightarrow> 'c \<Rightarrow> ('s tar_state, 'c) tar_next" where
  "tar_header env rd parser buf t c =
     (if hd buf = NUL then (if t_end t \<noteq> 0 then Stop t c else Continue (t\<lparr>t_end := t_end t + 1\<rparr>) c)
      else if take 5 (hdr_magic buf) \<noteq> ''ustar'' then Err APKE_V2PKG_FORMAT t c
      else
        case tar_entry env buf of
          (ok, fi) \<Rightarrow>
            if \<not> ok then Err APKE_V2PKG_FORMAT t c
            else
              let t = t\<lparr>t_name := tar_prefix buf (t_name t)\<rparr> in
              if SSIZE_MAX - 512 \<le> fi_size fi then Err APKE_EOF t c
              else
                case tar_extended env t fi of
                  Fault \<Rightarrow> Dangling
                | Ret (t, fi) \<Rightarrow>
                   (case tar_special env rd (hdr_typeflag buf) (fi_size fi) t of
                      (Some e, _, t) \<Rightarrow> Err e t c
                    | (None, toskip, t) \<Rightarrow> tar_finish rd parser buf fi toskip t c))"

text \<open>The records behind the end of the archive, read to the end of the stream.\<close>

partial_function (option) tar_trailer :: "'s read_op \<Rightarrow> 's apk_istream \<Rightarrow> (apk_error option \<times> 's apk_istream) option" where
  "tar_trailer rd is =
     (case apk_istream_read_max rd is 512 of
        (Inl e, is') \<Rightarrow> Some (Some e, is')
      | (Inr buf, is') \<Rightarrow>
          if length buf = 512 \<and> hd buf = NUL then tar_trailer rd is'
          else Some (if buf = [] then None else Some APKE_EOF, is'))"

partial_function (option) tar_loop ::
  "tar_env \<Rightarrow> 's read_op \<Rightarrow> ('s, 'c) entry_parser \<Rightarrow> 's tar_state \<Rightarrow> 'c \<Rightarrow> (apk_error option \<times> 's apk_istream \<times> 'c) outcome option" where
  "tar_loop env rd parser t c =
     (case apk_istream_read_max rd (t_is t) 512 of
        (Inl e, is') \<Rightarrow> Some (Ret (Some e, is', c))
      | (Inr buf, is') \<Rightarrow>
          if length buf \<noteq> 512 then Some (Ret (if buf = [] then None else Some APKE_EOF, is', c))
          else
            case tar_header env rd parser buf (t\<lparr>t_is := is'\<rparr>) c of
              Continue t' c' \<Rightarrow> tar_loop env rd parser t' c'
            | Stop t' c' \<Rightarrow> Option.bind (tar_trailer rd (t_is t')) (\<lambda>(r, is''). Some (Ret (r, is'', c')))
            | Err e t' c' \<Rightarrow> Some (Ret (Some e, t_is t', c'))
            | Dangling \<Rightarrow> Some Fault)"

definition tar_init :: "'s apk_istream \<Rightarrow> 's tar_state" where
  "tar_init is = \<lparr>t_is = is, t_end = 0, t_name = Buf_name, t_longname = [], t_pax = [], t_gen = 0, t_paxlen = 0\<rparr>"

definition apk_tar_parse ::
  "tar_env \<Rightarrow> 's read_op \<Rightarrow> ('s, 'c) entry_parser \<Rightarrow> 's apk_istream \<Rightarrow> 'c \<Rightarrow> (apk_error option \<times> 'c) outcome option" where
  "apk_tar_parse env rd parser is c =
     Option.bind (tar_loop env rd parser (tar_init is) c)
       (\<lambda>r. Some (case r of
          Fault \<Rightarrow> Fault
        | Ret (e, is', c') \<Rightarrow>
            Ret (fst (apk_istream_error is' (case e of None \<Rightarrow> Open | Some e \<Rightarrow> Failed e)), c')))"

section \<open>Writing archives\<close>

record apk_ostream =
  os_data :: bytes
  os_rc :: "apk_error option"

definition apk_ostream_write :: "apk_ostream \<Rightarrow> bytes \<Rightarrow> bool \<times> apk_ostream" where
  "apk_ostream_write os xs =
     (if os_rc os \<noteq> None then (False, os) else (True, os\<lparr>os_data := os_data os @ xs\<rparr>))"

text \<open>Copying a string into a zeroed field of \<open>n\<close> bytes, cut so that it is terminated.\<close>

definition strlcpy :: "nat \<Rightarrow> bytes \<Rightarrow> bytes" where
  "strlcpy n xs = (let ys = take (n - 1) (cstr xs) in ys @ replicate (n - length ys) NUL)"

text \<open>A C \<^verbatim>\<open>int\<close> that is passed as a \<^verbatim>\<open>size_t\<close>: the low 32 bits with their sign.\<close>

definition int_to_size :: "nat \<Rightarrow> u64" where
  "int_to_size n = scast (word_of_nat n :: u32)"

text \<open>The header without its checksum digits: the bytes before, and behind, the checksum field.\<close>

definition header_front :: "bytes \<Rightarrow> nat \<Rightarrow> apk_file_info \<Rightarrow> bytes" where
  "header_front name sz ae =
     strlcpy 100 name @ put_octal 8 (ucast (fi_mode ae AND 0xFFF)) True @ put_octal 8 (ucast (fi_uid ae)) True @
     put_octal 8 (ucast (fi_gid ae)) True @ put_octal 12 (int_to_size sz) False @ put_octal 12 (fi_mtime ae) False"

definition or_root :: "bytes option \<Rightarrow> bytes" where
  "or_root n = (case n of None \<Rightarrow> ''root'' | Some n \<Rightarrow> n)"

definition header_back :: "char \<Rightarrow> apk_file_info \<Rightarrow> bytes" where
  "header_back typeflag ae =
     [typeflag] @ replicate 100 NUL @ ''ustar  '' @ [NUL] @ strlcpy 32 (or_root (fi_uname ae)) @
     strlcpy 32 (or_root (fi_gname ae)) @
     replicate (8 + 8 + 155 + 12) NUL"

definition chksum :: "bytes \<Rightarrow> nat" where
  "chksum xs = sum_list (map code xs)"

definition apk_tar_fill_header :: "char \<Rightarrow> bytes \<Rightarrow> nat \<Rightarrow> apk_file_info \<Rightarrow> bytes" where
  "apk_tar_fill_header typeflag name sz ae =
     (let a = header_front name sz ae; b = header_back typeflag ae;
          sum = chksum (a @ replicate 8 CHR '' '' @ b)
      in a @ put_octal 7 (of_nat sum) True @ '' '' @ b)"

definition apk_tar_write_padding :: "apk_ostream \<Rightarrow> nat \<Rightarrow> bool \<times> apk_ostream" where
  "apk_tar_write_padding os sz =
     (let pad = 512 - sz mod 512 in
      if pad \<noteq> 512 then apk_ostream_write os (replicate pad NUL) else (True, os))"

definition apk_tar_write_longname_entry :: "apk_ostream \<Rightarrow> apk_file_info \<Rightarrow> bool \<times> apk_ostream" where
  "apk_tar_write_longname_entry os ae =
     (let name = cstr (fi_name ae) in
      case apk_ostream_write os (apk_tar_fill_header CHR ''L'' ''././@LongLink'' (length name) ae) of
        (False, os) \<Rightarrow> (False, os)
      | (True, os) \<Rightarrow>
         (case apk_ostream_write os (name @ [NUL]) of
            (False, os) \<Rightarrow> (False, os)
          | (True, os) \<Rightarrow> apk_tar_write_padding os (length name + 1)))"

definition apk_tar_write_entry :: "apk_ostream \<Rightarrow> apk_file_info option \<Rightarrow> bytes option \<Rightarrow> bool \<times> apk_ostream" where
  "apk_tar_write_entry os ae data =
     (case ae of
        None \<Rightarrow>
         (case apk_ostream_write os (replicate 512 NUL) of
            (False, os) \<Rightarrow> (False, os)
          | (True, os) \<Rightarrow> apk_ostream_write os (replicate 512 NUL))
      | Some ae \<Rightarrow>
          if fi_mode ae AND S_IFMT \<noteq> S_IFREG then (False, os)
          else
            case (if length (cstr (fi_name ae)) > 99 then apk_tar_write_longname_entry os ae else (True, os)) of
              (False, os) \<Rightarrow> (False, os)
            | (True, os) \<Rightarrow>
               (case apk_ostream_write os (apk_tar_fill_header CHR ''0'' (fi_name ae) (fi_size ae) ae) of
                  (False, os) \<Rightarrow> (False, os)
                | (True, os) \<Rightarrow>
                   (case data of
                      None \<Rightarrow> (True, os)
                    | Some d \<Rightarrow>
                       (case apk_ostream_write os (take (fi_size ae) d) of
                          (False, os) \<Rightarrow> (False, os)
                        | (True, os) \<Rightarrow> apk_tar_write_padding os (fi_size ae)))))"

end
