(* ===== verification/Tar_Roundtrip.thy ===== *)
theory Tar_Roundtrip
  imports Tar
begin

text \<open>
  The reader and the writer of \<^verbatim>\<open>tar.c\<close> against each other: octal fields and header fields read back
  what was written, an archive of regular files is read back entry by entry, and the two places
  where they do not agree.
\<close>

section \<open>Octal fields\<close>

lemma less_8_word:
  assumes "(d :: u64) < 8"
  shows "d \<in> {0, 1, 2, 3, 4, 5, 6, 7}"
proof -
  have "unat d < 8" using assms by (simp add: word_less_nat_alt)
  then have "unat d \<in> {0, 1, 2, 3, 4, 5, 6, 7}" by auto
  then show ?thesis by (auto simp: word_unat_eq_iff)
qed

lemma dx_octal: "d < 8 \<Longrightarrow> dx (chr8 (48 + ucast (d :: u64))) = unat d"
  using less_8_word [of d] by (auto simp: dx_eq_spec dx_spec_def)

lemma octal_digits_length [simp]: "length (octal_digits n v) = n"
  by (induction n arbitrary: v) auto

lemma word_mod_8: "(v :: u64) mod 8 < 8"
  by (simp add: word_less_nat_alt unat_mod)

lemma octal_digits_pull:
  "unat v < 8 ^ n \<Longrightarrow>
   pull_uint_loop 8 (octal_digits n v @ rest) acc = pull_uint_loop 8 rest (acc * 8 ^ n + v)"
proof (induction n arbitrary: v rest)
  case 0
  then have "v = 0" by (simp add: unat_eq_0)
  then show ?case by simp
next
  case (Suc n)
  have "unat (v div 8) < 8 ^ n" using Suc.prems by (simp add: unat_div)
  define c where "c = chr8 (48 + ucast (v mod 8))"
  have dx: "dx c = unat (v mod 8)" "unat (v mod 8) < 8"
    using dx_octal [OF word_mod_8] by (simp_all add: c_def unat_mod)
  then have "c \<noteq> NUL" by auto
  then have "pull_uint_loop 8 (octal_digits (Suc n) v @ rest) acc =
      pull_uint_loop 8 rest ((acc * 8 ^ n + v div 8) * 8 + v mod 8)"
    using Suc.IH [of "v div 8" "c # rest"] \<open>unat (v div 8) < 8 ^ n\<close> dx by (simp add: c_def [symmetric] Let_def)
  also have "(acc * 8 ^ n + v div 8) * 8 + v mod 8 = acc * 8 ^ Suc n + (v div 8 * 8 + v mod 8)"
    by (simp add: algebra_simps)
  also have "v div 8 * 8 + v mod 8 = v" by (rule div_mult_mod_eq)
  finally show ?case .
qed

lemma put_octal_length [simp]: "0 < l \<Longrightarrow> length (put_octal l v z) = l"
  by (simp add: put_octal_def)

lemma get_put_octal:
  assumes "unat v < 8 ^ (if z then l - 1 else l)"
  shows "get_octal (put_octal l v z) = (v, True)"
proof -
  let ?n = "if z then l - 1 else l"
  let ?r = "if z then [NUL] else []"
  have "put_octal l v z = octal_digits ?n v @ ?r" by (simp add: put_octal_def)
  moreover have "pull_uint_loop 8 (octal_digits ?n v @ ?r) 0 = (v, ?r)"
    using octal_digits_pull [OF assms, of ?r 0] by auto
  ultimately show ?thesis
    by (simp add: get_octal_def apk_blob_pull_uint_def split: if_splits)
qed

lemma get_octal_zeros: "get_octal (replicate n NUL) = (0, True)"
  by (cases n) (simp_all add: get_octal_def apk_blob_pull_uint_def)

lemma strlcpy_length [simp]: "0 < n \<Longrightarrow> length (strlcpy n xs) = n"
  by (simp add: strlcpy_def Let_def)

lemma strlcpy_fits: "NUL \<notin> set xs \<Longrightarrow> length xs < n \<Longrightarrow> strlcpy n xs = xs @ replicate (n - length xs) NUL"
  by (simp add: strlcpy_def cstr_id)


lemma cstr_padded: "NUL \<notin> set xs \<Longrightarrow> 0 < n \<Longrightarrow> cstr (xs @ replicate n NUL @ ys) = xs"
  by (cases n) (simp_all add: cstr_append_NUL)

section \<open>Headers\<close>

lemma header_front_length [simp]: "length (header_front name sz ae) = 148"
  by (simp add: header_front_def)

lemma header_back_length [simp]: "length (header_back f ae) = 356"
  by (simp add: header_back_def)

lemma fill_header_length [simp]: "length (apk_tar_fill_header f name sz ae) = 512"
  by (simp add: apk_tar_fill_header_def Let_def)

lemma fill_header_split:
  "\<exists>sum. length sum = 8 \<and> apk_tar_fill_header f name sz ae = header_front name sz ae @ sum @ header_back f ae"
  by (rule exI [of _ "put_octal 7 (of_nat (chksum (header_front name sz ae @ replicate 8 CHR '' '' @ header_back f ae))) True @ '' ''"])
     (simp add: apk_tar_fill_header_def Let_def)

lemma fill_header_fields:
  fixes ae :: apk_file_info and f name sz
  defines "h \<equiv> apk_tar_fill_header f name sz ae"
  shows "hdr_name h = strlcpy 100 name" "hdr_mode h = put_octal 8 (ucast (fi_mode ae AND 0xFFF)) True"
    "hdr_uid h = put_octal 8 (ucast (fi_uid ae)) True" "hdr_gid h = put_octal 8 (ucast (fi_gid ae)) True"
    "hdr_size h = put_octal 12 (int_to_size sz) False" "hdr_mtime h = put_octal 12 (fi_mtime ae) False"
    "hdr_typeflag h = f" "take 5 (hdr_magic h) = ''ustar''" "hdr_devmajor h = replicate 8 NUL"
    "hdr_devminor h = replicate 8 NUL" "hdr_prefix h = replicate 155 NUL"
    "drop 265 h = strlcpy 32 (or_root (fi_uname ae)) @ strlcpy 32 (or_root (fi_gname ae)) @ replicate 183 NUL"
    "drop 297 h = strlcpy 32 (or_root (fi_gname ae)) @ replicate 183 NUL"
proof -
  obtain sum where h: "length sum = 8" "h = header_front name sz ae @ sum @ header_back f ae"
    using fill_header_split [of f name sz ae] by (auto simp: h_def)
  have bk: "drop 156 h = header_back f ae" using h by simp
  show "hdr_name h = strlcpy 100 name" "hdr_mode h = put_octal 8 (ucast (fi_mode ae AND 0xFFF)) True"
    "hdr_uid h = put_octal 8 (ucast (fi_uid ae)) True" "hdr_gid h = put_octal 8 (ucast (fi_gid ae)) True"
    "hdr_size h = put_octal 12 (int_to_size sz) False" "hdr_mtime h = put_octal 12 (fi_mtime ae) False"
    using h by (simp_all add: hdr_defs header_front_def)
  have d: "drop (156 + n) h = drop n (header_back f ae)" for n
    by (simp add: bk [symmetric] add.commute)
  have "h ! 156 = header_back f ae ! 0"
    using h by (simp add: nth_append)
  then show "hdr_typeflag h = f" by (simp add: hdr_defs header_back_def)
  show "take 5 (hdr_magic h) = ''ustar''" using d [of 101] by (simp add: hdr_defs header_back_def)
  show u: "drop 265 h = strlcpy 32 (or_root (fi_uname ae)) @ strlcpy 32 (or_root (fi_gname ae)) @ replicate 183 NUL"
    using d [of 109] by (simp add: header_back_def)
  show g: "drop 297 h = strlcpy 32 (or_root (fi_gname ae)) @ replicate 183 NUL"
    using d [of 141] by (simp add: header_back_def)
  have z: "drop (329 + n) h = replicate (183 - n) NUL" for n
  proof -
    have "drop (32 + n) (drop 297 h) = replicate (183 - n) NUL" unfolding g by simp
    then show ?thesis by (simp add: add.commute)
  qed
  show "hdr_devmajor h = replicate 8 NUL" "hdr_devminor h = replicate 8 NUL" "hdr_prefix h = replicate 155 NUL"
    using z [of 0] z [of 8] z [of 16] by (simp_all add: hdr_defs)
qed

section \<open>Entries\<close>

definition tar_writable :: "apk_file_info \<Rightarrow> bytes \<Rightarrow> bool" where
  "tar_writable ae data \<longleftrightarrow>
     fi_name ae \<noteq> [] \<and> NUL \<notin> set (fi_name ae) \<and> length (fi_name ae) < PATH_MAX - 10 \<and>
     fi_mode ae AND S_IFMT = S_IFREG \<and> fi_size ae = length data \<and> length data < 2 ^ 31 \<and>
     unat (fi_uid ae) < 8 ^ 7 \<and> unat (fi_gid ae) < 8 ^ 7 \<and> unat (fi_mtime ae) < 8 ^ 12 \<and>
     NUL \<notin> set (or_root (fi_uname ae)) \<and> length (or_root (fi_uname ae)) < 32 \<and>
     NUL \<notin> set (or_root (fi_gname ae)) \<and> length (or_root (fi_gname ae)) < 32"

definition padding :: "nat \<Rightarrow> bytes" where
  "padding n = replicate (round_512 n - n) NUL"

definition long_image :: "apk_file_info \<Rightarrow> bytes" where
  "long_image ae = (let name = fi_name ae in
     apk_tar_fill_header CHR ''L'' ''././@LongLink'' (length name) ae @ name @ [NUL] @ padding (length name + 1))"

definition tar_image :: "apk_file_info \<Rightarrow> bytes \<Rightarrow> bytes" where
  "tar_image ae data =
     (if 99 < length (fi_name ae) then long_image ae else []) @
     apk_tar_fill_header CHR ''0'' (fi_name ae) (fi_size ae) ae @ data @ padding (length data)"

lemma round_512_gap: "round_512 n - n = (if n mod 512 = 0 then 0 else 512 - n mod 512)"
proof -
  obtain q r where n: "n = r + q * 512" "r < 512"
    using mod_mult_div_eq [of n 512] by (metis mod_less_divisor mult.commute zero_less_numeral)
  have "(r + 511) div 512 = (if r = 0 then 0 else 1)" using n(2) by (auto intro!: div_nat_eqI)
  then have "(r + q * 512 + 511) div 512 = q + (if r = 0 then 0 else 1)"
    using div_mult_self1 [of 512 "r + 511" q] by (simp add: ac_simps)
  then show ?thesis using n(2) unfolding n(1) round_512_def by auto
qed

lemma write_padding:
  "os_rc os = None \<Longrightarrow> apk_tar_write_padding os n = (True, os\<lparr>os_data := os_data os @ padding n\<rparr>)"
proof -
  show "os_rc os = None \<Longrightarrow> ?thesis"
    by (simp add: apk_tar_write_padding_def padding_def apk_ostream_write_def Let_def round_512_gap)
qed

lemma write_entry_image:
  assumes "os_rc os = None" "tar_writable ae data"
  shows "apk_tar_write_entry os (Some ae) (Some data) = (True, os\<lparr>os_data := os_data os @ tar_image ae data\<rparr>)"
  using assms
  by (auto simp: apk_tar_write_entry_def apk_tar_write_longname_entry_def tar_writable_def write_padding
      apk_ostream_write_def tar_image_def long_image_def Let_def cstr_id)

text \<open>What the reader delivers for a written entry.\<close>

definition tar_read_info :: "tar_env \<Rightarrow> apk_file_info \<Rightarrow> nat \<Rightarrow> apk_file_info" where
  "tar_read_info env ae sz =
     \<lparr>fi_name = [], fi_link_target = None, fi_uname = Some (or_root (fi_uname ae)), fi_gname = Some (or_root (fi_gname ae)),
      fi_size = sz, fi_uid = env_uid env (or_root (fi_uname ae)) (ucast (fi_uid ae)),
      fi_gid = env_gid env (or_root (fi_gname ae)) (ucast (fi_gid ae)), fi_mode = fi_mode ae AND 0xFFF,
      fi_mtime = fi_mtime ae, fi_device = 0, fi_digest = empty_digest, fi_xattr_digest = empty_digest, fi_xattrs = []\<rparr>"

lemma unat_ucast_u64 [simp]: "unat (ucast (w :: u32) :: u64) = unat w"
  by transfer simp

lemma ucast_down_up [simp]: "(ucast (ucast (w :: u32) :: u64) :: u32) = w"
  by transfer simp

lemma unat_int_to_size: "n < 2 ^ 31 \<Longrightarrow> unat (int_to_size n) = n"
  unfolding int_to_size_def
  by transfer (simp add: signed_take_bit_int_eq_self take_bit_int_eq_self)

lemma tar_entry_written:
  assumes "tar_writable ae data" "sz < 2 ^ 31"
  shows "tar_entry env (apk_tar_fill_header f name sz ae) = (True, tar_read_info env ae sz)"
proof -
  let ?h = "apk_tar_fill_header f name sz ae"
  note w = assms(1) [unfolded tar_writable_def]
  have m: "unat (ucast (fi_mode ae AND 0xFFF) :: u64) < 8 ^ 7"
  proof -
    have "unat (fi_mode ae AND 0xFFF) \<le> unat (0xFFF :: u32)" using word_and_le1 by (simp only: word_le_nat_alt)
    then show ?thesis by simp
  qed
  have u: "unat (ucast (fi_uid ae) :: u64) < 8 ^ 7" "unat (ucast (fi_gid ae) :: u64) < 8 ^ 7"
    using w by simp_all
  have s: "unat (int_to_size sz) < 8 ^ 12" using assms(2) by (simp add: unat_int_to_size)
  have "cstr (hdr_uname ?h) = or_root (fi_uname ae)" "cstr (hdr_gname ?h) = or_root (fi_gname ae)"
    "cstr (drop 265 ?h) = or_root (fi_uname ae)" "cstr (drop 297 ?h) = or_root (fi_gname ae)"
    using w by (simp_all add: hdr_uname_def hdr_gname_def tar_field_def fill_header_fields strlcpy_fits cstr_padded
        cstr_padded [where ys = "[]", simplified])
  then show ?thesis
    using w m u s assms(2)
    by (simp add: tar_entry_def tar_read_info_def Let_def fill_header_fields get_put_octal get_octal_zeros
        unat_int_to_size makedev_def and.assoc)
qed


definition collect_parser :: "'s read_op \<Rightarrow> ('s, (apk_file_info \<times> bytes) list) entry_parser" where
  "collect_parser rd c fi seg =
     (case apk_istream_read_max (segment_read rd) seg (fi_size fi) of
        (Inl e, seg') \<Rightarrow> (Parser_error e, seg', c)
      | (Inr xs, seg') \<Rightarrow> (Parser_ok, seg', c @ [(fi, xs)]))"

text \<open>A state of the reader in front of the given bytes, between two entries.\<close>

definition tar_at :: "('s \<Rightarrow> bytes) \<Rightarrow> 's tar_state \<Rightarrow> bytes \<Rightarrow> bool" where
  "tar_at content t xs \<longleftrightarrow>
     stream_ok content (t_is t) \<and> not_failed (t_is t) \<and> 0 < is_buf_size (t_is t) \<and>
     stream_content content (t_is t) = xs \<and> t_paxlen t = 0"

lemma tar_skip_padding:
  assumes "reliable_source rd content" "tar_at content t (replicate n NUL @ rest)" "n < 2 ^ 31"
  obtains t' where "tar_skip rd n t c = Continue t' c" "tar_at content t' rest" "t_name t' = t_name t" "t_end t' = t_end t"
proof (cases "n = 0")
  case True
  then show thesis using assms(2) that [of t] by (simp add: tar_skip_def)
next
  case False
  have ok: "stream_ok content (t_is t)" "not_failed (t_is t)" using assms(2) by (simp_all add: tar_at_def)
  obtain r is' where s: "skip_loop rd (t_is t) n 0 = (r, is')" by fastforce
  have "to_int32 n = int n" using assms(3)
    unfolding to_int32_def by transfer (simp add: signed_take_bit_int_eq_self)
  moreover have "is_buf_size is' = is_buf_size (t_is t)" using skip_loop_buf_size [of rd "t_is t" n 0] s by simp
  ultimately show thesis
    using reliable_source.skip_loop_total [OF assms(1) ok, of 0 n] s assms(2) False
      that [of "t\<lparr>t_is := is'\<rparr>"]
    by (simp add: tar_skip_def apk_istream_skip_def tar_at_def)
qed

lemma tar_deliver_data:
  assumes "reliable_source rd content" "tar_at content t (data @ padding (length data) @ rest)"
    "fi_size fi = length data"
  obtains t' where
    "tar_deliver rd (collect_parser rd) fi (round_512 (length data)) t c = Continue t' (c @ [(fi, data)])"
    "tar_at content t' rest" "t_name t' = Buf_name" "t_end t' = t_end t"
proof -
  have t: "stream_ok content (t_is t)" "not_failed (t_is t)" "0 < is_buf_size (t_is t)"
      "stream_content content (t_is t) = data @ padding (length data) @ rest"
    using assms(2) by (simp_all add: tar_at_def)
  obtain seg is1 where seg: "apk_istream_segment (t_is t) (length data) = (seg, is1)" by fastforce
  from segment_read_total [OF assms(1) t(1-3) seg, of "length data"] t(4)
  obtain seg' where r: "apk_istream_read_max (segment_read rd) seg (length data) = (Inr data, seg')" by auto
  let ?is = "snd (segment_close rd seg' is1)"
  let ?t = "t\<lparr>t_is := ?is, t_name := Buf_name, t_paxlen := 0\<rparr>"
  have "tar_at content ?t (padding (length data) @ rest)"
    using segment_read_close [OF assms(1) t(1-3) seg r] t(3,4) by (simp add: tar_at_def)
  moreover have "round_512 (length data) - length data < 2 ^ 31"
    by (auto simp: round_512_gap intro: less_imp_diff_less)
  ultimately obtain t' where
    "tar_skip rd (round_512 (length data) - length data) ?t (c @ [(fi, data)]) = Continue t' (c @ [(fi, data)])"
    "tar_at content t' rest" "t_name t' = t_name ?t" "t_end t' = t_end ?t"
    unfolding padding_def by (rule tar_skip_padding [OF assms(1)])
  then show thesis
    using that [of t'] seg r assms(3) by (simp add: tar_deliver_def collect_parser_def)
qed

definition delivered :: "tar_env \<Rightarrow> apk_file_info \<Rightarrow> apk_file_info" where
  "delivered env ae = (tar_read_info env ae (fi_size ae))\<lparr>fi_name := fi_name ae, fi_mode := (fi_mode ae AND 0xFFF) OR S_IFREG\<rparr>"

lemma hd_header:
  assumes "name \<noteq> []" "NUL \<notin> set name"
  shows "hd (apk_tar_fill_header f name sz ae) \<noteq> NUL"
proof -
  let ?h = "apk_tar_fill_header f name sz ae"
  have "length ?h = 512" by simp
  then have "hd ?h = hd (hdr_name ?h)" by (cases ?h) (simp_all add: hdr_defs)
  also have "\<dots> = hd name" using assms by (cases name) (simp_all add: fill_header_fields strlcpy_def cstr_id)
  finally show ?thesis using assms by (cases name) auto
qed

lemma tar_prefix_written [simp]: "tar_prefix (apk_tar_fill_header f name sz ae) ref = ref"
  by (simp add: tar_prefix_def fill_header_fields)

lemma ifreg_bits: "((m AND 0xFFF) OR S_IFREG) AND S_IFMT \<noteq> 0" "(m AND 0xFFF) AND S_IFMT = 0"
  for m :: u32
  by (simp_all add: S_IFREG_def S_IFMT_def bit.conj_disj_distrib2 and.assoc)

lemma tar_header_regular:
  assumes "reliable_source rd content" "tar_writable ae data"
    "tar_at content t (data @ padding (length data) @ rest)"
    "name_text t (apk_tar_fill_header CHR ''0'' (fi_name ae) (fi_size ae) ae) = Some (fi_name ae)"
  obtains t' where
    "tar_header env rd (collect_parser rd) (apk_tar_fill_header CHR ''0'' (fi_name ae) (fi_size ae) ae) t c =
      Continue t' (c @ [(delivered env ae, data)])"
    "tar_at content t' rest" "t_name t' = Buf_name" "t_end t' = t_end t"
proof -
  let ?h = "apk_tar_fill_header CHR ''0'' (fi_name ae) (fi_size ae) ae"
  note w = assms(2) [unfolded tar_writable_def]
  have sz: "fi_size ae = length data" "length data < 2 ^ 31" using w by simp_all
  have fs: "fi_size (delivered env ae) = length data" by (simp add: delivered_def tar_read_info_def sz)
  from tar_deliver_data [OF assms(1,3) fs, of c]
  obtain t' where d: "tar_deliver rd (collect_parser rd) (delivered env ae) (round_512 (length data)) t c =
      Continue t' (c @ [(delivered env ae, data)])"
    "tar_at content t' rest" "t_name t' = Buf_name" "t_end t' = t_end t" .
  have nl: "\<not> too_long (fi_name ae)" using w by (simp add: too_long_def)
  have t: "t\<lparr>t_name := t_name t\<rparr> = t" by simp
  have ext: "tar_extended env t fi = Ret (t, fi)" for fi using assms(3) by (simp add: tar_extended_def tar_at_def)
  have "tar_header env rd (collect_parser rd) ?h t c = Continue t' (c @ [(delivered env ae, data)])"
    using d(1) sz w nl assms(4)
    by (simp add: tar_header_def hd_header fill_header_fields tar_entry_written [OF assms(2)] t ext tar_special_def
        tar_finish_def Let_def type_bits_def tar_read_info_def SSIZE_MAX_def ifreg_bits delivered_def)
  then show thesis using that d by blast
qed

lemma long_gap: "NUL # padding (n + 1) = replicate (if n mod 512 = 0 then 512 else round_512 n - n) NUL"
proof -
  have "Suc (round_512 (n + 1) - (n + 1)) = 512 - n mod 512"
    by (auto simp: round_512_gap mod_Suc)
  then show ?thesis
    by (simp add: padding_def round_512_gap flip: replicate_Suc)
qed

lemma tar_header_long:
  assumes "reliable_source rd content" "tar_writable ae data" "\<And>n. env_realloc env n"
    "tar_at content t (fi_name ae @ NUL # padding (length (fi_name ae) + 1) @ rest)"
  obtains t' where
    "tar_header env rd (collect_parser rd) (apk_tar_fill_header CHR ''L'' ''././@LongLink'' (length (fi_name ae)) ae) t c =
      Continue t' c"
    "tar_at content t' ((if length (fi_name ae) mod 512 = 0 then replicate 512 NUL else []) @ rest)"
    "t_name t' = Local_name (fi_name ae)" "t_end t' = t_end t"
proof -
  let ?n = "length (fi_name ae)"
  let ?h = "apk_tar_fill_header CHR ''L'' ''././@LongLink'' ?n ae"
  note w = assms(2) [unfolded tar_writable_def]
  have t: "stream_ok content (t_is t)" "not_failed (t_is t)" "0 < is_buf_size (t_is t)"
      "stream_content content (t_is t) = fi_name ae @ NUL # padding (?n + 1) @ rest"
    using assms(4) by (simp_all add: tar_at_def)
  have "?n \<le> length (stream_content content (t_is t))" using t(4) by simp
  from reliable_source.read_total [OF assms(1) t(1,2) this]
  obtain is' where r: "apk_istream_read rd (t_is t) ?n = (Inr (fi_name ae), is')"
      "stream_ok content is'" "not_failed is'" "stream_content content is' = NUL # padding (?n + 1) @ rest"
      "is_buf_size is' = is_buf_size (t_is t)"
    using t(4) by auto
  obtain b g where b: "blob_realloc env (t_longname t) 0 (?n + 1) = Some (b, g)"
    by (cases "?n + 1 \<le> length (t_longname t)") (use assms(3) in \<open>auto simp: blob_realloc_def\<close>)
  define t1 where "t1 = t\<lparr>t_is := is', t_longname := store_at 0 (fi_name ae @ [NUL]) b, t_name := Local_name (fi_name ae)\<rparr>"
  have "stream_content content is' = replicate (round_512 ?n - ?n) NUL @
      ((if ?n mod 512 = 0 then replicate 512 NUL else []) @ rest)"
    using r(4) long_gap [of ?n] by (simp add: round_512_gap flip: append_Cons)
  then have at: "tar_at content t1 (replicate (round_512 ?n - ?n) NUL @
      ((if ?n mod 512 = 0 then replicate 512 NUL else []) @ rest))"
    using r t(3) assms(4) by (simp add: tar_at_def t1_def)
  have small: "round_512 ?n - ?n < 2 ^ 31" by (auto simp: round_512_gap intro: less_imp_diff_less)
  obtain t' where s: "tar_skip rd (round_512 ?n - ?n) t1 c = Continue t' c"
      "tar_at content t' ((if ?n mod 512 = 0 then replicate 512 NUL else []) @ rest)" "t_name t' = t_name t1" "t_end t' = t_end t1"
    by (rule tar_skip_padding [OF assms(1) at small])
  have n: "?n < 4086" using w by (simp add: PATH_MAX_def)
  have ext: "tar_extended env t fi = Ret (t, fi)" for fi using assms(4) by (simp add: tar_extended_def tar_at_def)
  have nt: "name_text t1 ?h = Some (fi_name ae)" using w by (simp add: name_text_def t1_def cstr_id)
  have sp: "tar_special env rd CHR ''L'' ?n t = (None, round_512 ?n - ?n, t1)"
    using b r(1) by (simp add: tar_special_def t1_def)
  have tt: "t\<lparr>t_name := t_name t\<rparr> = t" by simp
  have "tar_header env rd (collect_parser rd) ?h t c = Continue t' c"
    using s(1) n w nt sp
    by (simp add: tar_header_def hd_header fill_header_fields tar_entry_written [OF assms(2)] tt ext
        tar_finish_def Let_def type_bits_def tar_read_info_def SSIZE_MAX_def ifreg_bits too_long_def PATH_MAX_def)
  then show thesis using that s by (simp add: t1_def)
qed


section \<open>Archives\<close>

definition tar_after ::
  "tar_env \<Rightarrow> 's read_op \<Rightarrow> ('s, 'c) entry_parser \<Rightarrow> ('s tar_state, 'c) tar_next \<Rightarrow>
   (apk_error option \<times> 's apk_istream \<times> 'c) outcome option" where
  "tar_after env rd parser next =
     (case next of
        Continue t' c' \<Rightarrow> tar_loop env rd parser t' c'
      | Stop t' c' \<Rightarrow> Option.bind (tar_trailer rd (t_is t')) (\<lambda>(r, is''). Some (Ret (r, is'', c')))
      | Err e t' c' \<Rightarrow> Some (Ret (Some e, t_is t', c'))
      | Dangling \<Rightarrow> Some Fault)"

lemma tar_after_Continue [simp]: "tar_after env rd parser (Continue t c) = tar_loop env rd parser t c"
  by (simp add: tar_after_def)

lemma tar_loop_header:
  assumes "reliable_source rd content" "tar_at content t (h @ rest)" "length h = 512"
  obtains is' where "tar_at content (t\<lparr>t_is := is'\<rparr>) rest"
    "tar_loop env rd parser t c =
      tar_after env rd parser (tar_header env rd parser h (t\<lparr>t_is := is'\<rparr>) c)"
proof -
  have t: "stream_ok content (t_is t)" "not_failed (t_is t)" "stream_content content (t_is t) = h @ rest"
    using assms(2) by (simp_all add: tar_at_def)
  from reliable_source.read_max_total [OF assms(1) t(1,2), of 512]
  obtain is' where r: "apk_istream_read_max rd (t_is t) 512 = (Inr h, is')" "stream_ok content is'" "not_failed is'"
      "stream_content content is' = rest" "is_buf_size is' = is_buf_size (t_is t)"
    using t(3) assms(3) by auto
  then have "tar_at content (t\<lparr>t_is := is'\<rparr>) rest" using assms(2) by (simp add: tar_at_def)
  moreover have "tar_loop env rd parser t c =
      tar_after env rd parser (tar_header env rd parser h (t\<lparr>t_is := is'\<rparr>) c)"
    using r(1) assms(3) by (subst tar_loop.simps) (simp add: tar_after_def)
  ultimately show thesis using that by blast
qed

text \<open>An empty header is passed over once.\<close>

lemma tar_loop_zero:
  assumes "reliable_source rd content" "tar_at content t (replicate 512 NUL @ rest)" "t_end t = 0"
  obtains t' where "tar_loop env rd parser t c = tar_loop env rd parser t' c" "tar_at content t' rest"
    "t_name t' = t_name t" "t_end t' = 1"
proof -
  from tar_loop_header [OF assms(1,2), of env parser c]
  obtain is' where "tar_at content (t\<lparr>t_is := is'\<rparr>) rest"
    "tar_loop env rd parser t c =
      tar_after env rd parser (tar_header env rd parser (replicate 512 NUL) (t\<lparr>t_is := is'\<rparr>) c)" by auto
  then show thesis
    using that [of "t\<lparr>t_is := is', t_end := 1\<rparr>"] assms(3) by (simp add: tar_header_def tar_at_def)
qed

lemma tar_loop_regular:
  assumes "reliable_source rd content" "tar_writable ae data"
    "tar_at content t (apk_tar_fill_header CHR ''0'' (fi_name ae) (fi_size ae) ae @ data @ padding (length data) @ rest)"
    "t_name t = Local_name (fi_name ae) \<or> t_name t = Buf_name \<and> length (fi_name ae) \<le> 99"
  obtains t' where
    "tar_loop env rd (collect_parser rd) t c = tar_loop env rd (collect_parser rd) t' (c @ [(delivered env ae, data)])"
    "tar_at content t' rest" "t_name t' = Buf_name" "t_end t' = t_end t"
proof -
  let ?h = "apk_tar_fill_header CHR ''0'' (fi_name ae) (fi_size ae) ae"
  from tar_loop_header [OF assms(1,3), of env "collect_parser rd" c]
  obtain is' where h: "tar_at content (t\<lparr>t_is := is'\<rparr>) (data @ padding (length data) @ rest)"
    "tar_loop env rd (collect_parser rd) t c =
      tar_after env rd (collect_parser rd) (tar_header env rd (collect_parser rd) ?h (t\<lparr>t_is := is'\<rparr>) c)" by auto
  note w = assms(2) [unfolded tar_writable_def]
  have "cstr (strlcpy 100 (fi_name ae)) = fi_name ae" if "length (fi_name ae) \<le> 99"
    using w that cstr_padded [of "fi_name ae" "100 - length (fi_name ae)" "[]"] by (simp add: strlcpy_fits)
  then have nt: "name_text (t\<lparr>t_is := is'\<rparr>) ?h = Some (fi_name ae)"
    using assms(4) w by (auto simp: name_text_def fill_header_fields cstr_id)
  from tar_header_regular [OF assms(1,2) h(1) nt, of env c]
  obtain t' where "tar_header env rd (collect_parser rd) ?h (t\<lparr>t_is := is'\<rparr>) c =
      Continue t' (c @ [(delivered env ae, data)])"
    "tar_at content t' rest" "t_name t' = Buf_name" "t_end t' = t_end (t\<lparr>t_is := is'\<rparr>)" .
  then show thesis using that [of t'] h(2) by simp
qed

lemma tar_loop_long:
  assumes "reliable_source rd content" "tar_writable ae data" "\<And>n. env_realloc env n"
    "tar_at content t (long_image ae @ rest)"
  obtains t' where
    "tar_loop env rd (collect_parser rd) t c = tar_loop env rd (collect_parser rd) t' c"
    "tar_at content t' ((if length (fi_name ae) mod 512 = 0 then replicate 512 NUL else []) @ rest)"
    "t_name t' = Local_name (fi_name ae)" "t_end t' = t_end t"
proof -
  let ?h = "apk_tar_fill_header CHR ''L'' ''././@LongLink'' (length (fi_name ae)) ae"
  have "tar_at content t (?h @ (fi_name ae @ NUL # padding (length (fi_name ae) + 1) @ rest))"
    using assms(4) by (simp add: long_image_def Let_def)
  from tar_loop_header [OF assms(1) this, of env "collect_parser rd" c]
  obtain is' where h: "tar_at content (t\<lparr>t_is := is'\<rparr>) (fi_name ae @ NUL # padding (length (fi_name ae) + 1) @ rest)"
    "tar_loop env rd (collect_parser rd) t c =
      tar_after env rd (collect_parser rd) (tar_header env rd (collect_parser rd) ?h (t\<lparr>t_is := is'\<rparr>) c)" by auto
  from tar_header_long [OF assms(1-3) h(1), of c]
  obtain t' where "tar_header env rd (collect_parser rd) ?h (t\<lparr>t_is := is'\<rparr>) c = Continue t' c"
    "tar_at content t' ((if length (fi_name ae) mod 512 = 0 then replicate 512 NUL else []) @ rest)"
    "t_name t' = Local_name (fi_name ae)" "t_end t' = t_end (t\<lparr>t_is := is'\<rparr>)" .
  then show thesis using that [of t'] h(2) by simp
qed

text \<open>A name that the writer and the reader agree on: short, or not a multiple of the block size.\<close>

definition name_agrees :: "apk_file_info \<Rightarrow> bool" where
  "name_agrees ae \<longleftrightarrow> length (fi_name ae) \<le> 99 \<or> length (fi_name ae) mod 512 \<noteq> 0"

lemma tar_loop_entry:
  assumes "reliable_source rd content" "tar_writable ae data" "name_agrees ae" "\<And>n. env_realloc env n"
    "tar_at content t (tar_image ae data @ rest)" "t_name t = Buf_name"
  obtains t' where
    "tar_loop env rd (collect_parser rd) t c = tar_loop env rd (collect_parser rd) t' (c @ [(delivered env ae, data)])"
    "tar_at content t' rest" "t_name t' = Buf_name" "t_end t' = t_end t"
proof (cases "99 < length (fi_name ae)")
  case True
  have "tar_at content t (long_image ae @ (apk_tar_fill_header CHR ''0'' (fi_name ae) (fi_size ae) ae @ data @ padding (length data) @ rest))"
    using assms(5) True by (simp add: tar_image_def)
  from tar_loop_long [OF assms(1,2,4) this, of c]
  obtain t1 where t1: "tar_loop env rd (collect_parser rd) t c = tar_loop env rd (collect_parser rd) t1 c"
    "tar_at content t1 (apk_tar_fill_header CHR ''0'' (fi_name ae) (fi_size ae) ae @ data @ padding (length data) @ rest)"
    "t_name t1 = Local_name (fi_name ae)" "t_end t1 = t_end t"
    using True assms(3) by (auto simp: name_agrees_def)
  from tar_loop_regular [OF assms(1,2) t1(2), of env c] t1(3)
  obtain t' where "tar_loop env rd (collect_parser rd) t1 c = tar_loop env rd (collect_parser rd) t' (c @ [(delivered env ae, data)])"
    "tar_at content t' rest" "t_name t' = Buf_name" "t_end t' = t_end t1" by auto
  then show thesis using that [of t'] t1 by simp
next
  case False
  have "tar_at content t (apk_tar_fill_header CHR ''0'' (fi_name ae) (fi_size ae) ae @ data @ padding (length data) @ rest)"
    using assms(5) False by (simp add: tar_image_def)
  from tar_loop_regular [OF assms(1,2) this, of env c] False assms(6) that show thesis by auto
qed

lemma tar_loop_entries:
  assumes "reliable_source rd content" "\<forall>(ae, data) \<in> set es. tar_writable ae data \<and> name_agrees ae" "\<And>n. env_realloc env n"
    "tar_at content t (concat (map (\<lambda>(ae, data). tar_image ae data) es) @ rest)" "t_name t = Buf_name"
  obtains t' where
    "tar_loop env rd (collect_parser rd) t c =
      tar_loop env rd (collect_parser rd) t' (c @ map (\<lambda>(ae, data). (delivered env ae, data)) es)"
    "tar_at content t' rest" "t_end t' = t_end t"
  using assms(2,4,5)
proof (induction es arbitrary: t c thesis)
  case (Cons e es)
  obtain ae data where e: "e = (ae, data)" by fastforce
  from tar_loop_entry [OF assms(1), of ae data env t "concat (map (\<lambda>(ae, data). tar_image ae data) es) @ rest" c] Cons.prems assms(3) e
  obtain t1 where t1: "tar_loop env rd (collect_parser rd) t c = tar_loop env rd (collect_parser rd) t1 (c @ [(delivered env ae, data)])"
    "tar_at content t1 (concat (map (\<lambda>(ae, data). tar_image ae data) es) @ rest)" "t_name t1 = Buf_name" "t_end t1 = t_end t"
    by auto
  show ?case
    by (rule Cons.IH [of t1 "c @ [(delivered env ae, data)]"]) (use Cons.prems t1 e in auto)
qed auto

lemma tar_loop_stop:
  assumes "reliable_source rd content" "tar_at content t (replicate 512 NUL @ rest)" "t_end t \<noteq> 0"
  obtains is' where "tar_loop env rd parser t c = Option.bind (tar_trailer rd is') (\<lambda>(r, is''). Some (Ret (r, is'', c)))"
    "stream_ok content is'" "not_failed is'" "stream_content content is' = rest"
proof -
  from tar_loop_header [OF assms(1,2), of env parser c]
  obtain is' where "tar_at content (t\<lparr>t_is := is'\<rparr>) rest"
    "tar_loop env rd parser t c = tar_after env rd parser (tar_header env rd parser (replicate 512 NUL) (t\<lparr>t_is := is'\<rparr>) c)" by auto
  then show thesis
    using that [of is'] assms(3) by (simp add: tar_header_def tar_at_def tar_after_def)
qed

lemma tar_trailer_end:
  assumes "reliable_source rd content" "stream_ok content is" "not_failed is"
    "stream_content content is = [] \<or> (512 \<le> length (stream_content content is) \<and> hd (stream_content content is) \<noteq> NUL)"
  obtains is' where "tar_trailer rd is = Some (if stream_content content is = [] then None else Some APKE_EOF, is')" "not_failed is'"
proof -
  let ?xs = "take 512 (stream_content content is)"
  from reliable_source.read_max_total [OF assms(1-3), of 512]
  obtain is' where r: "apk_istream_read_max rd is 512 = (Inr ?xs, is')" "not_failed is'" by auto
  have "\<not> (length ?xs = 512 \<and> hd ?xs = NUL)" "?xs = [] \<longleftrightarrow> stream_content content is = []"
    using assms(4) by (auto simp: hd_take)
  then have "tar_trailer rd is = Some (if stream_content content is = [] then None else Some APKE_EOF, is')"
    using r(1) by (subst tar_trailer.simps) auto
  then show thesis using that r(2) by blast
qed

lemma tar_loop_end:
  assumes "reliable_source rd content" "tar_at content t (replicate 1024 NUL)" "t_end t = 0"
  obtains is' where "tar_loop env rd parser t c = Some (Ret (None, is', c))" "not_failed is'"
proof -
  have "replicate 1024 NUL = replicate 512 NUL @ replicate 512 NUL @ []" by (simp flip: replicate_add)
  then have "tar_at content t (replicate 512 NUL @ replicate 512 NUL @ [])" using assms(2) by simp
  from tar_loop_zero [OF assms(1) this assms(3), of env parser c]
  obtain t1 where t1: "tar_loop env rd parser t c = tar_loop env rd parser t1 c"
    "tar_at content t1 (replicate 512 NUL @ [])" "t_end t1 = 1" .
  from tar_loop_stop [OF assms(1) t1(2), of env parser c] t1(3)
  obtain is1 where i: "tar_loop env rd parser t1 c = Option.bind (tar_trailer rd is1) (\<lambda>(r, is''). Some (Ret (r, is'', c)))"
    "stream_ok content is1" "not_failed is1" "stream_content content is1 = []" by auto
  from tar_trailer_end [OF assms(1) i(2,3)] i(4)
  obtain is2 where "tar_trailer rd is1 = Some (None, is2)" "not_failed is2" by auto
  then show thesis using that t1(1) i(1) by simp
qed

lemma parse_result:
  assumes "tar_loop env rd parser (tar_init is) c = Some (Ret (e, is', c'))" "not_failed is'"
  shows "apk_tar_parse env rd parser is c = Some (Ret (e, c'))"
  using assms by (auto simp: apk_tar_parse_def apk_istream_error_def Let_def not_failed_def split: option.splits)

lemma tar_at_init:
  "stream_content content (apk_istream_from_fd s) = xs \<Longrightarrow> tar_at content (tar_init (apk_istream_from_fd s)) xs"
  by (simp add: tar_at_def tar_init_def from_fd_ok apk_io_bufsize_def)

text \<open>Writing a whole archive: the entries and the end marker.\<close>

fun write_archive :: "apk_ostream \<Rightarrow> (apk_file_info \<times> bytes) list \<Rightarrow> bool \<times> apk_ostream" where
  "write_archive os [] = apk_tar_write_entry os None None"
| "write_archive os (e # es) =
     (case apk_tar_write_entry os (Some (fst e)) (Some (snd e)) of
        (False, os) \<Rightarrow> (False, os)
      | (True, os) \<Rightarrow> write_archive os es)"

lemma write_archive_image:
  assumes "os_rc os = None" "\<forall>(ae, data) \<in> set es. tar_writable ae data"
  shows "write_archive os es =
    (True, os\<lparr>os_data := os_data os @ concat (map (\<lambda>(ae, data). tar_image ae data) es) @ replicate 1024 NUL\<rparr>)"
  using assms
proof (induction es arbitrary: os)
  case Nil
  have "replicate 512 NUL @ replicate 512 NUL = replicate 1024 NUL" by (simp flip: replicate_add)
  then show ?case using Nil by (simp add: apk_tar_write_entry_def apk_ostream_write_def)
next
  case (Cons e es)
  then show ?case by (cases e) (simp add: write_entry_image)
qed

definition new_ostream :: apk_ostream where
  "new_ostream = \<lparr>os_data = [], os_rc = None\<rparr>"

section \<open>Properties\<close>

text \<open>
  C31. Archives round-trip: reading what was written, from a file that is read in pieces of any size,
  delivers every file with its name (long names included), its attributes and its data, in order,
  and ends without an error. The names must not need an extra block: their length is below 100 or
  no multiple of 512.
\<close>

theorem tar_roundtrip:
  assumes "reliable_source rd content" "\<forall>n. env_realloc env n"
    "\<forall>(ae, data) \<in> set es. tar_writable ae data \<and> name_agrees ae"
    "write_archive new_ostream es = (True, os)" "content s = os_data os"
  shows "apk_tar_parse env rd (collect_parser rd) (apk_istream_from_fd s) [] =
    Some (Ret (None, map (\<lambda>(ae, data). (delivered env ae, data)) es))"
proof -
  let ?t = "tar_init (apk_istream_from_fd s)"
  have "\<forall>(ae, data) \<in> set es. tar_writable ae data" using assms(3) by auto
  from write_archive_image [OF _ this, of new_ostream]
  have "os_data os = concat (map (\<lambda>(ae, data). tar_image ae data) es) @ replicate 1024 NUL"
    using assms(4) by (auto simp: new_ostream_def)
  then have at: "tar_at content ?t (concat (map (\<lambda>(ae, data). tar_image ae data) es) @ replicate 1024 NUL)"
    using assms(5) by (intro tar_at_init) (simp add: from_fd_ok)
  from tar_loop_entries [OF assms(1,3) _ at, of env "[]"] assms(2)
  obtain t1 where t1: "tar_loop env rd (collect_parser rd) ?t [] =
      tar_loop env rd (collect_parser rd) t1 (map (\<lambda>(ae, data). (delivered env ae, data)) es)"
    "tar_at content t1 (replicate 1024 NUL)" "t_end t1 = 0"
    by (auto simp: tar_init_def)
  from tar_loop_end [OF assms(1) t1(2,3)] t1(1) parse_result show ?thesis by metis
qed

text \<open>
  Two files whose names are exactly one block long make an archive that cannot be read back: the
  length of a long name is written without its terminator but padded with it, the reader takes the
  extra empty block behind the second name for the end of the archive and reports an unexpected
  end after the first file.
\<close>

lemma tar_block_names_lost:
  assumes "reliable_source rd content" "\<forall>n. env_realloc env n"
    "tar_writable a da" "tar_writable b db" "length (fi_name a) = 512" "length (fi_name b) = 512"
    "write_archive new_ostream [(a, da), (b, db)] = (True, os)" "content s = os_data os"
  shows "apk_tar_parse env rd (collect_parser rd) (apk_istream_from_fd s) [] =
    Some (Ret (Some APKE_EOF, [(delivered env a, da)]))"
proof -
  let ?t = "tar_init (apk_istream_from_fd s)" and ?p = "collect_parser rd"
  let ?ha = "apk_tar_fill_header CHR ''0'' (fi_name a) (fi_size a) a"
  let ?hb = "apk_tar_fill_header CHR ''0'' (fi_name b) (fi_size b) b"
  let ?rb = "?hb @ db @ padding (length db) @ replicate 1024 NUL"
  let ?ra = "?ha @ da @ padding (length da) @ long_image b @ ?rb"
  have r: "\<And>n. env_realloc env n" using assms(2) by simp
  have "os_data os = long_image a @ ?ra"
    using assms(3-7) write_archive_image [of new_ostream "[(a, da), (b, db)]"]
    by (auto simp: new_ostream_def tar_image_def)
  then have at: "tar_at content ?t (long_image a @ ?ra)"
    using assms(8) by (intro tar_at_init) (simp add: from_fd_ok)
  from tar_loop_long [OF assms(1,3) r at, of "[]"] assms(5)
  obtain t1 where t1: "tar_loop env rd ?p ?t [] = tar_loop env rd ?p t1 []"
    "tar_at content t1 (replicate 512 NUL @ ?ra)" "t_name t1 = Local_name (fi_name a)" "t_end t1 = 0"
    by (auto simp: tar_init_def)
  from tar_loop_zero [OF assms(1) t1(2,4), of env ?p "[]"] t1(3)
  obtain t2 where t2: "tar_loop env rd ?p t1 [] = tar_loop env rd ?p t2 []"
    "tar_at content t2 ?ra" "t_name t2 = Local_name (fi_name a)" "t_end t2 = 1" by auto
  from tar_loop_regular [OF assms(1,3) t2(2), of env "[]"] t2(3,4)
  obtain t3 where t3: "tar_loop env rd ?p t2 [] = tar_loop env rd ?p t3 [(delivered env a, da)]"
    "tar_at content t3 (long_image b @ ?rb)" "t_end t3 = 1" by auto
  from tar_loop_long [OF assms(1,4) r t3(2), of "[(delivered env a, da)]"]
  obtain t4 where t4': "tar_loop env rd ?p t3 [(delivered env a, da)] = tar_loop env rd ?p t4 [(delivered env a, da)]"
    "tar_at content t4 ((if length (fi_name b) mod 512 = 0 then replicate 512 NUL else []) @ ?rb)"
    "t_name t4 = Local_name (fi_name b)" "t_end t4 = t_end t3" .
  have t4: "tar_loop env rd ?p t3 [(delivered env a, da)] = tar_loop env rd ?p t4 [(delivered env a, da)]"
    "tar_at content t4 (replicate 512 NUL @ ?rb)" "t_end t4 \<noteq> 0"
    using t4' assms(6) t3(3) by simp_all
  from tar_loop_stop [OF assms(1) t4(2,3), of env ?p "[(delivered env a, da)]"]
  obtain is1 where i: "tar_loop env rd ?p t4 [(delivered env a, da)] =
      Option.bind (tar_trailer rd is1) (\<lambda>(r, is''). Some (Ret (r, is'', [(delivered env a, da)])))"
    "stream_ok content is1" "not_failed is1" "stream_content content is1 = ?rb" .
  have "?hb \<noteq> []" using fill_header_length [of "CHR ''0''" "fi_name b" "fi_size b" b] by (metis list.size(3) zero_neq_numeral)
  then have nb: "hd ?rb \<noteq> NUL" "512 \<le> length ?rb" "?rb \<noteq> []"
    using hd_header [of "fi_name b"] assms(4) by (simp_all add: tar_writable_def)
  from tar_trailer_end [OF assms(1) i(2,3)] i(4) nb
  obtain is2 where "tar_trailer rd is1 = Some (Some APKE_EOF, is2)" "not_failed is2" by auto
  then have "tar_loop env rd ?p ?t [] = Some (Ret (Some APKE_EOF, is2, [(delivered env a, da)]))"
    using t1(1) t2(1) t3(1) t4(1) i(1) by simp
  from parse_result [OF this \<open>not_failed is2\<close>] show ?thesis .
qed


definition sample_file :: "bytes \<Rightarrow> bytes \<Rightarrow> apk_file_info" where
  "sample_file name data =
     \<lparr>fi_name = name, fi_link_target = None, fi_uname = None, fi_gname = Some ''users'', fi_size = length data,
      fi_uid = 0, fi_gid = 100, fi_mode = 0x81A4, fi_mtime = 1700000000, fi_device = 0,
      fi_digest = empty_digest, fi_xattr_digest = empty_digest, fi_xattrs = []\<rparr>"

definition sample_env :: tar_env where
  "sample_env = \<lparr>env_uid = \<lambda>n d. ucast d, env_gid = \<lambda>n d. ucast d, env_digest = \<lambda>alg xs. None, env_realloc = \<lambda>n. True\<rparr>"

lemma sample_writable:
  "name \<noteq> [] \<Longrightarrow> NUL \<notin> set name \<Longrightarrow> length name < 4086 \<Longrightarrow> length data < 1000 \<Longrightarrow> tar_writable (sample_file name data) data"
  by (simp add: tar_writable_def sample_file_def PATH_MAX_def S_IFMT_def S_IFREG_def or_root_def)

theorem tar_roundtrip_witness:
  "apk_tar_parse sample_env (fdi_read file_read) (collect_parser (fdi_read file_read))
     (apk_istream_from_fd (os_data (snd (write_archive new_ostream [(sample_file ''etc/motd'' ''hello'', ''hello'')])), [0, 3])) [] =
   Some (Ret (None, [(delivered sample_env (sample_file ''etc/motd'' ''hello''), ''hello'')]))"
proof -
  let ?es = "[(sample_file ''etc/motd'' ''hello'', ''hello'')]"
  have w: "tar_writable (sample_file ''etc/motd'' ''hello'') ''hello''" by (rule sample_writable) simp_all
  have n: "name_agrees (sample_file ''etc/motd'' ''hello'')" by (simp add: name_agrees_def sample_file_def)
  obtain os where os: "write_archive new_ostream ?es = (True, os)"
    using write_archive_image [of new_ostream ?es] w by (simp add: new_ostream_def)
  from tar_roundtrip [OF file_src.reliable_source_axioms, of sample_env ?es os "(os_data os, [0, 3])"] os w n
  show ?thesis by (simp add: sample_env_def)
qed

lemma tar_block_names_lost_witness:
  "apk_tar_parse sample_env (fdi_read file_read) (collect_parser (fdi_read file_read))
     (apk_istream_from_fd (os_data (snd (write_archive new_ostream
        [(sample_file (replicate 512 CHR ''a'') ''x'', ''x''), (sample_file (replicate 512 CHR ''b'') ''y'', ''y'')])), [])) [] =
   Some (Ret (Some APKE_EOF, [(delivered sample_env (sample_file (replicate 512 CHR ''a'') ''x''), ''x'')]))"
proof -
  let ?a = "sample_file (replicate 512 CHR ''a'') ''x''" and ?b = "sample_file (replicate 512 CHR ''b'') ''y''"
  have w: "tar_writable ?a ''x''" "tar_writable ?b ''y''"
    by (rule sample_writable; simp)+
  have l: "length (fi_name ?a) = 512" "length (fi_name ?b) = 512" by (simp_all add: sample_file_def)
  obtain os where os: "write_archive new_ostream [(?a, ''x''), (?b, ''y'')] = (True, os)"
    using write_archive_image [of new_ostream "[(?a, ''x''), (?b, ''y'')]"] w by (simp add: new_ostream_def)
  have r: "\<forall>n. env_realloc sample_env n" by (simp add: sample_env_def)
  from tar_block_names_lost [OF file_src.reliable_source_axioms r w l os, of "(os_data os, [])"] os
  show ?thesis by simp
qed

text \<open>
  A second extended header that is larger than the buffer of the first one makes the reader use
  freed memory: the name of the entry points into the buffer, the buffer is reallocated, and the
  length of the name is then taken through the old pointer.
\<close>

lemma tar_pax_dangling:
  assumes "reliable_source rd content" "stream_ok content (t_is t)" "not_failed (t_is t)"
    "t_pax t = ''12 path=abc'' @ [CHR 0x0A] @ replicate 500 NUL" "t_paxlen t = 12" "\<forall>n. env_realloc env n"
    "tar_writable ae data" "512 < sz" "sz < 2 ^ 31" "sz \<le> length (stream_content content (t_is t))"
  shows "tar_header env rd parser (apk_tar_fill_header CHR ''x'' ''pax'' sz ae) t c = Dangling"
proof -
  let ?h = "apk_tar_fill_header CHR ''x'' ''pax'' sz ae"
  let ?fi = "tar_read_info env ae sz"
  have rec: "pax_record 12 (Some (''12 path=abc'' @ [CHR 0x0A])) = Some (''path'', 8, ''abc'', [])"
    by (simp add: pax_record_def apk_blob_pull_uint_def dx_eq_spec dx_spec_def apk_blob_pull_char_def schar_def
        apk_blob_split_char blob_len_def)
  have nil: "pax_record 12 (Some []) = None"
    by (simp add: pax_record_def apk_blob_pull_uint_def apk_blob_pull_char_def apk_blob_split_def apk_blob_contains_def)
  have "pax_loop g 12 (Some (''12 path=abc'' @ [CHR 0x0A])) [] (ref, fi) = Ret ([11], Pax_name g 8, fi)" for g ref fi
    using rec nil
    by (subst pax_loop.simps, subst pax_loop.simps)
       (simp add: pax_apply_def apk_blob_compare_eq_0 apk_blob_pull_blob_match_def blob_len_def Let_def)
  then have ext: "tar_extended env (t\<lparr>t_name := ref\<rparr>) fi =
      Ret (t\<lparr>t_pax := (t_pax t)[11 := NUL], t_name := Pax_name (t_gen t) 8\<rparr>,
        apk_fileinfo_hash_xattr (env_digest env) APK_DIGEST_SHA1 fi)" for ref fi
    using assms(4,5) by (simp add: tar_extended_def handle_extended_header_def)
  let ?t = "t\<lparr>t_pax := (t_pax t)[11 := NUL], t_name := Pax_name (t_gen t) 8\<rparr>"
  have sz: "fi_size (apk_fileinfo_hash_xattr (env_digest env) APK_DIGEST_SHA1 ?fi) = sz" "fi_size ?fi = sz"
    by (simp_all add: apk_fileinfo_hash_xattr_def tar_read_info_def)
  have "sz \<le> round_512 sz" using round_512_gap [of sz] by (auto simp: round_512_def split: if_splits)
  then have "blob_realloc env (t_pax ?t) (t_gen ?t) (round_512 sz) =
      Some (t_pax ?t @ replicate (round_512 sz - 512) NUL, t_gen t + 1)"
    using assms(4,6,8) by (simp add: blob_realloc_def)
  moreover from reliable_source.read_total [OF assms(1-3,10)]
  obtain is' where "apk_istream_read rd (t_is t) sz = (Inr (take sz (stream_content content (t_is t))), is')" by auto
  ultimately obtain t' where sp: "tar_special env rd CHR ''x'' sz ?t = (None, round_512 sz - sz, t')"
      "t_gen t' = t_gen t + 1" "t_name t' = Pax_name (t_gen t) 8"
    by (simp add: tar_special_def)
  then have "name_text t' ?h = None" by (simp add: name_text_def)
  then show ?thesis
    using sp(1) sz assms(9)
    by (simp add: tar_header_def hd_header fill_header_fields tar_entry_written [OF assms(7)] ext ext [of "t_name t", simplified]
        tar_finish_def Let_def SSIZE_MAX_def)
qed

lemma tar_pax_dangling_witness:
  "tar_header sample_env blob_read (\<lambda>c fi seg. (Parser_ok, seg, c))
     (apk_tar_fill_header CHR ''x'' ''pax'' 600 (sample_file ''f'' []))
     ((tar_init (apk_istream_from_blob (Some (replicate 1024 NUL))))
        \<lparr>t_pax := ''12 path=abc'' @ [CHR 0x0A] @ replicate 500 NUL, t_paxlen := 12\<rparr>) () = Dangling"
proof -
  have "tar_writable (sample_file ''f'' []) []" by (rule sample_writable) simp_all
  then show ?thesis
    by (intro tar_pax_dangling [OF blob_src.reliable_source_axioms])
       (auto simp: tar_init_def from_blob_ok sample_env_def)
qed

end
