(* ===== verification/Solver.thy ===== *)
theory Solver
  imports Package "HOL-Library.Monad_Syntax"
begin

text \<open>
  The dependency solver of \<^verbatim>\<open>solver.c\<close>, up to the choice of a provider for every name. Names are
  strings and packages are addresses; what the solver reads of the database is a record of functions,
  what it changes is the state \<open>solver\<close>: one record per name, one per package, the queues and the
  change set. A name is in a queue when its list node is linked. The counters keep the widths of
  \<^verbatim>\<open>apk_solver_data.h\<close>, except the number of errors, which is bounded by the number of names and packages.
  A checksum in a dependency that is cut short counts as not matching. The links of a name in the
  queues share their memory with the installed package of the name; the former are used before the
  change set is generated and the latter while it is, and both are fields here.

  A recursion or loop whose end depends on the database takes a number of steps, and is \<open>None\<close> when
  it needs more; the theories \<open>Solver_Term\<close> and \<open>Solver_Loop\<close> show that enough steps exist.
\<close>

section \<open>Data\<close>

definition APK_SOLVERF_UPGRADE :: u16 where "APK_SOLVERF_UPGRADE = 0x01"
definition APK_SOLVERF_AVAILABLE :: u16 where "APK_SOLVERF_AVAILABLE = 0x02"
definition APK_SOLVERF_REINSTALL :: u16 where "APK_SOLVERF_REINSTALL = 0x04"
definition APK_SOLVERF_LATEST :: u16 where "APK_SOLVERF_LATEST = 0x08"
definition APK_SOLVERF_IGNORE_CONFLICT :: u16 where "APK_SOLVERF_IGNORE_CONFLICT = 0x10"
definition APK_SOLVERF_INSTALLED :: u16 where "APK_SOLVERF_INSTALLED = 0x20"
definition APK_SOLVERF_REMOVE :: u16 where "APK_SOLVERF_REMOVE = 0x40"
definition APK_DEFAULT_PINNING_MASK :: u16 where "APK_DEFAULT_PINNING_MASK = 1"

record solver_db =
  sd_pkg :: "nat \<Rightarrow> apk_package"
  sd_providers :: "bytes \<Rightarrow> (nat \<times> bytes) list"
  sd_rdepends :: "bytes \<Rightarrow> bytes list"
  sd_rinstall_if :: "bytes \<Rightarrow> bytes list"
  sd_installed :: "nat list"
  sd_allowed_repos :: "u32 list"
  sd_available_repos :: u32
  sd_active_layers :: u32
  sd_performing_self_upgrade :: bool
  sd_force_broken_world :: bool

text \<open>A provider: a package, or none, and the version it provides; the null atom is the empty string.\<close>

type_synonym provider = "nat option \<times> bytes"

definition provider_none :: provider where
  "provider_none = (None, [])"

record name_state =
  ns_chosen :: provider
  ns_order_id :: u32
  ns_requirers :: u16
  ns_merge_depends :: u16
  ns_merge_provides :: u16
  ns_seen :: bool
  ns_locked :: bool
  ns_changeset_processed :: bool
  ns_changeset_removed :: bool
  ns_reevaluate_deps :: bool
  ns_reevaluate_iif :: bool
  ns_has_iif :: bool
  ns_no_iif :: bool
  ns_has_options :: bool
  ns_reverse_deps_done :: bool
  ns_has_virtual_provides :: bool
  ns_has_auto_selectable :: bool
  ns_iif_needed :: bool
  ns_resolvenow :: bool
  ns_installed_name :: "bytes option"
  ns_installed_pkg :: "nat option"
  ns_solver_flags_set :: bool

record pkg_state =
  ps_conflicts :: u32
  ps_pinning_allowed :: u16
  ps_pinning_preferred :: u16
  ps_solver_flags :: u16
  ps_solver_flags_inheritable :: u16
  ps_seen :: bool
  ps_available :: bool
  ps_selectable :: bool
  ps_tag_ok :: bool
  ps_tag_preferred :: bool
  ps_dependencies_used :: bool
  ps_dependencies_merged :: bool
  ps_in_changeset :: bool
  ps_iif_triggered :: bool
  ps_iif_failed :: bool
  ps_error :: bool

record apk_change =
  ch_old_pkg :: "nat option"
  ch_new_pkg :: "nat option"
  ch_old_repository_tag :: nat
  ch_new_repository_tag :: nat
  ch_reinstall :: bool

record apk_changeset =
  cs_num_install :: int
  cs_num_remove :: int
  cs_num_adjust :: int
  cs_num_total_changes :: int
  cs_changes :: "apk_change list"

record solver =
  so_name :: "bytes \<Rightarrow> name_state"
  so_pkg :: "nat \<Rightarrow> pkg_state"
  so_dirty :: "bytes list"
  so_unresolved :: "bytes list"
  so_selectable :: "bytes list"
  so_resolvenow :: "bytes list"
  so_errors :: nat
  so_flags_inherit :: u16
  so_pinning_inherit :: u16
  so_default_repos :: u32
  so_order_id :: u32
  so_ignore_conflict :: bool
  so_changeset :: apk_changeset

definition upd_name :: "bytes \<Rightarrow> (name_state \<Rightarrow> name_state) \<Rightarrow> solver \<Rightarrow> solver" where
  "upd_name n f s = s\<lparr>so_name := (so_name s)(n := f (so_name s n))\<rparr>"

definition upd_pkg :: "nat \<Rightarrow> (pkg_state \<Rightarrow> pkg_state) \<Rightarrow> solver \<Rightarrow> solver" where
  "upd_pkg a f s = s\<lparr>so_pkg := (so_pkg s)(a := f (so_pkg s a))\<rparr>"

definition pname :: "solver_db \<Rightarrow> nat \<Rightarrow> bytes" where
  "pname db a = the (pkg_name (sd_pkg db a))"

definition dname :: "apk_dependency \<Rightarrow> bytes" where
  "dname d = the (dep_name d)"

text \<open>Whether a provider satisfies a dependency of a package (\<open>None\<close>: of the world).\<close>

definition is_provided :: "solver_db \<Rightarrow> nat option \<Rightarrow> apk_dependency \<Rightarrow> provider \<Rightarrow> bool" where
  "is_provided db dpkg dep p =
     (apk_dep_is_provided (map_option (sd_pkg db) dpkg) dep
        (Some \<lparr>prov_pkg = map_option (sd_pkg db) (fst p), prov_version = snd p\<rparr>) = Ret True)"

text \<open>A loop whose body may run out of steps.\<close>

fun foldM :: "('a \<Rightarrow> 's \<Rightarrow> 's option) \<Rightarrow> 'a list \<Rightarrow> 's \<Rightarrow> 's option" where
  "foldM f [] s = Some s"
| "foldM f (x # xs) s = do { s \<leftarrow> f x s; foldM f xs s }"

section \<open>Database queries\<close>

definition BIT :: "nat \<Rightarrow> 'a::len word" where
  "BIT n = push_bit n 1"

definition apk_db_pkg_available :: "solver_db \<Rightarrow> apk_package \<Rightarrow> bool" where
  "apk_db_pkg_available db pkg \<longleftrightarrow> pkg_repos pkg AND sd_available_repos db \<noteq> 0"

definition apk_db_get_pinning_mask_repos :: "solver_db \<Rightarrow> u16 \<Rightarrow> u32" where
  "apk_db_get_pinning_mask_repos db pins =
     foldr (\<lambda>i r. if (BIT i :: u16) AND pins \<noteq> 0 then sd_allowed_repos db ! i OR r else r)
       [0..<length (sd_allowed_repos db)] 0"

definition get_tag :: "solver_db \<Rightarrow> u16 \<Rightarrow> u32 \<Rightarrow> nat" where
  "get_tag db pins repos =
     (case List.find (\<lambda>i. (BIT i :: u16) AND pins \<noteq> 0 \<and> sd_allowed_repos db ! i AND repos \<noteq> 0)
             [0..<length (sd_allowed_repos db)] of
        Some i \<Rightarrow> i
      | None \<Rightarrow> APK_DEFAULT_REPOSITORY_TAG)"

definition get_pkg_repos :: "solver_db \<Rightarrow> apk_package \<Rightarrow> u32" where
  "get_pkg_repos db pkg =
     (case pkg_ipkg pkg of
        None \<Rightarrow> pkg_repos pkg
      | Some i \<Rightarrow> pkg_repos pkg OR sd_allowed_repos db ! ipkg_repository_tag i)"

section \<open>Queues\<close>

definition mark_error :: "nat option \<Rightarrow> solver \<Rightarrow> solver" where
  "mark_error pkg s =
     (case pkg of
        None \<Rightarrow> s
      | Some a \<Rightarrow>
          if ps_error (so_pkg s a) then s
          else (upd_pkg a (\<lambda>p. p\<lparr>ps_error := True\<rparr>) s)\<lparr>so_errors := so_errors s + 1\<rparr>)"

definition queue_dirty :: "bytes \<Rightarrow> solver \<Rightarrow> solver" where
  "queue_dirty name s =
     (let n = so_name s name in
      if name \<in> set (so_dirty s) \<or> ns_locked n \<or> (ns_requirers n = 0 \<and> \<not> ns_reevaluate_iif n) then s
      else s\<lparr>so_dirty := so_dirty s @ [name]\<rparr>)"

definition queue_resolvenow :: "name_state \<Rightarrow> bool" where
  "queue_resolvenow n \<longleftrightarrow>
     ns_reverse_deps_done n \<and> ns_requirers n \<noteq> 0 \<and> ns_has_auto_selectable n \<and> \<not> ns_has_options n"

text \<open>Insertion before the first name with a smaller or equal order number (a signed comparison).\<close>

fun queue_insert :: "(bytes \<Rightarrow> u32) \<Rightarrow> bytes \<Rightarrow> bytes list \<Rightarrow> bytes list" where
  "queue_insert ord name [] = [name]"
| "queue_insert ord name (n # ns) =
     (if sint (ord name) < sint (ord n) then n # queue_insert ord name ns else name # n # ns)"

definition unresolved_hashed :: "bytes \<Rightarrow> solver \<Rightarrow> bool" where
  "unresolved_hashed name s \<longleftrightarrow>
     name \<in> set (so_unresolved s) \<or> name \<in> set (so_selectable s) \<or> name \<in> set (so_resolvenow s)"

definition unqueue :: "bytes \<Rightarrow> solver \<Rightarrow> solver" where
  "unqueue name s =
     s\<lparr>so_unresolved := remove1 name (so_unresolved s), so_selectable := remove1 name (so_selectable s),
       so_resolvenow := remove1 name (so_resolvenow s)\<rparr>"

definition enqueue_unresolved :: "bytes \<Rightarrow> solver \<Rightarrow> solver" where
  "enqueue_unresolved name s =
     (let n = so_name s name; ord = (\<lambda>m. ns_order_id (so_name s m)) in
      if ns_resolvenow n then s\<lparr>so_resolvenow := so_resolvenow s @ [name]\<rparr>
      else if ns_has_auto_selectable n then s\<lparr>so_selectable := queue_insert ord name (so_selectable s)\<rparr>
      else s\<lparr>so_unresolved := queue_insert ord name (so_unresolved s)\<rparr>)"

definition queue_unresolved :: "bytes \<Rightarrow> bool \<Rightarrow> solver \<Rightarrow> solver" where
  "queue_unresolved name reevaluate s =
     (let n = so_name s name in
      if ns_locked n then s
      else if unresolved_hashed name s then
        if ns_resolvenow n then s
        else if queue_resolvenow n then
          enqueue_unresolved name (unqueue name (upd_name name (\<lambda>n. n\<lparr>ns_resolvenow := True\<rparr>) s))
        else if \<not> reevaluate then s
        else enqueue_unresolved name (unqueue name s)
      else if ns_requirers n = 0 \<and> \<not> ns_has_iif n \<and> \<not> ns_iif_needed n then s
      else enqueue_unresolved name (upd_name name (\<lambda>n. n\<lparr>ns_resolvenow := queue_resolvenow n\<rparr>) s))"

section \<open>Propagation\<close>

definition reevaluate_reverse_deps :: "solver_db \<Rightarrow> bytes \<Rightarrow> solver \<Rightarrow> solver" where
  "reevaluate_reverse_deps db name s =
     fold (\<lambda>n s. if ns_seen (so_name s n) then queue_dirty n (upd_name n (\<lambda>x. x\<lparr>ns_reevaluate_deps := True\<rparr>) s) else s)
       (sd_rdepends db name) s"

definition reevaluate_reverse_installif :: "solver_db \<Rightarrow> bytes \<Rightarrow> solver \<Rightarrow> solver" where
  "reevaluate_reverse_installif db name s =
     fold (\<lambda>n s. if ns_seen (so_name s n) \<and> \<not> ns_no_iif (so_name s n)
                 then queue_dirty n (upd_name n (\<lambda>x. x\<lparr>ns_reevaluate_iif := True\<rparr>) s) else s)
       (sd_rinstall_if db name) s"

definition reevaluate_reverse_installif_pkg :: "solver_db \<Rightarrow> nat \<Rightarrow> solver \<Rightarrow> solver" where
  "reevaluate_reverse_installif_pkg db a s =
     fold (\<lambda>d. reevaluate_reverse_installif db (dname d)) (pkg_provides (sd_pkg db a))
       (reevaluate_reverse_installif db (pname db a) s)"

definition disqualify_package :: "solver_db \<Rightarrow> nat \<Rightarrow> solver \<Rightarrow> solver" where
  "disqualify_package db a s =
     reevaluate_reverse_installif_pkg db a
       (fold (\<lambda>d. reevaluate_reverse_deps db (dname d)) (pkg_provides (sd_pkg db a))
         (reevaluate_reverse_deps db (pname db a) (upd_pkg a (\<lambda>p. p\<lparr>ps_selectable := False\<rparr>) s)))"

definition dependency_satisfiable :: "solver_db \<Rightarrow> nat option \<Rightarrow> apk_dependency \<Rightarrow> solver \<Rightarrow> bool" where
  "dependency_satisfiable db dpkg dep s =
     (let n = so_name s (dname dep) in
      if apk_dep_conflict dep \<and> so_ignore_conflict s then True
      else if ns_locked n then is_provided db dpkg dep (ns_chosen n)
      else if ns_requirers n = 0 \<and> is_provided db dpkg dep provider_none then True
      else \<exists>(a, v) \<in> set (sd_providers db (dname dep)).
             ps_selectable (so_pkg s a) \<and> is_provided db dpkg dep (Some a, v))"

section \<open>Discovery\<close>

definition apk_solver_set_name_flags :: "solver_db \<Rightarrow> bytes \<Rightarrow> u16 \<Rightarrow> u16 \<Rightarrow> solver \<Rightarrow> solver" where
  "apk_solver_set_name_flags db name solver_flags inheritable s =
     fold (\<lambda>(a, v). upd_pkg a (\<lambda>p. p\<lparr>ps_solver_flags := ps_solver_flags p OR solver_flags,
              ps_solver_flags_inheritable := ps_solver_flags_inheritable p OR inheritable\<rparr>))
       (sd_providers db name) (upd_name name (\<lambda>n. n\<lparr>ns_solver_flags_set := True\<rparr>) s)"

text \<open>What is set up for a package that is seen for the first time.\<close>

definition discover_package :: "solver_db \<Rightarrow> nat \<Rightarrow> solver \<Rightarrow> solver" where
  "discover_package db a s =
     (let pkg = sd_pkg db a;
          avail = (pkg_filename_ndx pkg \<noteq> 0 \<or> apk_db_pkg_available db pkg);
          pref = (pkg_filename_ndx pkg \<noteq> 0 \<or> pkg_installed_size pkg = 0 \<or>
                  get_pkg_repos db pkg AND so_default_repos s \<noteq> 0)
      in upd_pkg a (\<lambda>p. p\<lparr>ps_seen := True,
           ps_pinning_allowed := APK_DEFAULT_PINNING_MASK,
           ps_pinning_preferred := APK_DEFAULT_PINNING_MASK,
           ps_available := avail,
           ps_selectable := \<not> pkg_uninstallable pkg \<and> BIT (pkg_layer pkg) AND sd_active_layers db \<noteq> 0 \<and>
             (avail \<or> pkg_cached pkg \<or> pkg_filename_ndx pkg \<noteq> 0 \<or> pkg_cached_non_repository pkg \<or>
              pkg_installed_size pkg = 0 \<or> pkg_ipkg pkg \<noteq> None),
           ps_iif_failed := pkg_install_if pkg = [] \<or>
             (so_flags_inherit s AND APK_SOLVERF_AVAILABLE \<noteq> 0 \<and> \<not> avail),
           ps_tag_preferred := pref,
           ps_tag_ok := pref \<or> pkg_cached_non_repository pkg \<or> pkg_ipkg pkg \<noteq> None\<rparr>) s)"

definition assign_order :: "bytes \<Rightarrow> solver \<Rightarrow> solver" where
  "assign_order name s =
     (let s = s\<lparr>so_order_id := so_order_id s + 1\<rparr> in
      upd_name name (\<lambda>n. n\<lparr>ns_order_id := (if ns_solver_flags_set n then 0 else BIT 31) OR so_order_id s\<rparr>) s)"

primrec discover_name :: "nat \<Rightarrow> solver_db \<Rightarrow> bytes \<Rightarrow> solver \<Rightarrow> solver option" where
  "discover_name 0 db name s = None"
| "discover_name (Suc k) db name s =
     (if ns_seen (so_name s name) then Some s
      else do {
        s \<leftarrow> foldM (\<lambda>(a, v) s. do {
               s \<leftarrow> if ps_seen (so_pkg s a) then Some s
                   else foldM (\<lambda>dep. discover_name k db (dname dep)) (pkg_depends (sd_pkg db a)) (discover_package db a s);
               Some (upd_name name (\<lambda>n. n\<lparr>ns_no_iif := ns_no_iif n \<and> ps_iif_failed (so_pkg s a)\<rparr>) s) })
             (sd_providers db name) (upd_name name (\<lambda>n. n\<lparr>ns_seen := True, ns_no_iif := True\<rparr>) s);
        s \<leftarrow> foldM (discover_name k db) (sd_rinstall_if db name) s;
        s \<leftarrow> foldM (\<lambda>(a, v) s. do {
               s \<leftarrow> foldM (discover_name k db) (sd_rinstall_if db (pname db a)) s;
               foldM (\<lambda>dep. discover_name k db (dname dep)) (pkg_provides (sd_pkg db a)) s })
             (sd_providers db name) s;
        foldM (\<lambda>(a, v). foldM (\<lambda>dep. discover_name k db (dname dep)) (pkg_install_if (sd_pkg db a)))
          (sd_providers db name) (assign_order name s) })"

section \<open>Constraints\<close>

definition name_requirers_changed :: "solver_db \<Rightarrow> bytes \<Rightarrow> solver \<Rightarrow> solver" where
  "name_requirers_changed db name s =
     queue_dirty name (reevaluate_reverse_installif db name (queue_unresolved name False s))"

text \<open>Flags and pinning come from the package that depends, or from the world (\<open>None\<close>).\<close>

definition inherit_pinning_and_flags :: "solver_db \<Rightarrow> nat \<Rightarrow> nat option \<Rightarrow> solver \<Rightarrow> solver" where
  "inherit_pinning_and_flags db a ppkg s =
     (let repos = get_pkg_repos db (sd_pkg db a);
          s = (case ppkg of
                 Some b \<Rightarrow>
                   let q = so_pkg s b in
                   upd_pkg a (\<lambda>p. p\<lparr>ps_solver_flags := ps_solver_flags p OR ps_solver_flags_inheritable q,
                     ps_solver_flags_inheritable := ps_solver_flags_inheritable p OR ps_solver_flags_inheritable q,
                     ps_pinning_allowed := ps_pinning_allowed p OR ps_pinning_allowed q\<rparr>) s
               | None \<Rightarrow>
                   upd_pkg a (\<lambda>p. p\<lparr>ps_solver_flags := ps_solver_flags p OR so_flags_inherit s,
                     ps_solver_flags_inheritable := ps_solver_flags_inheritable p OR so_flags_inherit s,
                     ps_pinning_allowed := ps_pinning_allowed p OR so_pinning_inherit s,
                     ps_pinning_preferred := so_pinning_inherit s,
                     ps_tag_preferred :=
                       repos AND apk_db_get_pinning_mask_repos db (so_pinning_inherit s) \<noteq> 0\<rparr>) s)
      in upd_pkg a (\<lambda>p. p\<lparr>ps_tag_ok := ps_tag_ok p \<or>
           repos AND apk_db_get_pinning_mask_repos db (ps_pinning_allowed p) \<noteq> 0\<rparr>) s)"

definition constrain_provider :: "solver_db \<Rightarrow> nat option \<Rightarrow> apk_dependency \<Rightarrow> nat \<times> bytes \<Rightarrow> solver \<Rightarrow> solver" where
  "constrain_provider db ppkg dep p s =
     (case p of (a, v) \<Rightarrow>
       let ok = is_provided db ppkg dep (Some a, v);
           s = upd_pkg a (\<lambda>q. q\<lparr>ps_conflicts := ps_conflicts q + of_bool (\<not> ok)\<rparr>) s;
           s = (if ps_selectable (so_pkg s a) \<and> ps_conflicts (so_pkg s a) \<noteq> 0 then disqualify_package db a s else s)
       in if ok then inherit_pinning_and_flags db a ppkg s else s)"

definition apply_constraint :: "solver_db \<Rightarrow> nat option \<Rightarrow> apk_dependency \<Rightarrow> solver \<Rightarrow> solver" where
  "apply_constraint db ppkg dep s =
     (let name = dname dep in
      if apk_dep_conflict dep \<and> so_ignore_conflict s then s
      else
        let s = upd_name name (\<lambda>n. n\<lparr>ns_requirers := ns_requirers n + of_bool (\<not> apk_dep_conflict dep)\<rparr>) s;
            s = (if ns_requirers (so_name s name) = 1 \<and> \<not> apk_dep_conflict dep
                 then name_requirers_changed db name s else s)
        in fold (constrain_provider db ppkg dep) (sd_providers db name) s)"

definition exclude_non_providers :: "solver_db \<Rightarrow> bytes \<Rightarrow> bytes \<Rightarrow> bool \<Rightarrow> solver \<Rightarrow> solver" where
  "exclude_non_providers db name must_provide skip_virtuals s =
     (if name = must_provide \<or> so_ignore_conflict s then s
      else fold (\<lambda>(a, v) s.
             if pname db a = must_provide \<or> \<not> ps_selectable (so_pkg s a) \<or> (skip_virtuals \<and> v = []) \<or>
                (\<exists>d \<in> set (pkg_provides (sd_pkg db a)). dname d = must_provide \<or> (skip_virtuals \<and> dep_version d = []))
             then s else disqualify_package db a s)
           (sd_providers db name) s)"

section \<open>Merging the dependencies of the candidates\<close>

definition merge_index :: "u16 \<Rightarrow> nat \<Rightarrow> u16 \<times> bool" where
  "merge_index index num_options =
     (if unat index \<noteq> num_options then (index, False) else (of_nat (num_options + 1), True))"

definition merge_index_complete :: "u16 \<Rightarrow> nat \<Rightarrow> u16 \<times> bool" where
  "merge_index_complete index num_options = (0, unat index = num_options)"

definition is_provider_auto_selectable :: "solver_db \<Rightarrow> solver \<Rightarrow> nat \<times> bytes \<Rightarrow> bool" where
  "is_provider_auto_selectable db s p =
     (case p of (a, v) \<Rightarrow>
       v \<noteq> [] \<or> pkg_provider_priority (sd_pkg db a) \<noteq> 0 \<or> ns_requirers (so_name s (pname db a)) \<noteq> 0)"

definition merge_depends_at :: "nat \<Rightarrow> bytes \<Rightarrow> solver \<Rightarrow> solver" where
  "merge_depends_at num n = upd_name n (\<lambda>x. x\<lparr>ns_merge_depends := fst (merge_index (ns_merge_depends x) num)\<rparr>)"

definition merge_provides_at :: "nat \<Rightarrow> bytes \<times> bytes \<Rightarrow> solver \<Rightarrow> solver" where
  "merge_provides_at num p =
     (case p of (n, v) \<Rightarrow>
       upd_name n (\<lambda>x. case merge_index (ns_merge_provides x) num of (i, hit) \<Rightarrow>
         x\<lparr>ns_merge_provides := i, ns_has_virtual_provides := ns_has_virtual_provides x \<or> (hit \<and> v = [])\<rparr>))"

text \<open>The counts that the pass over the providers keeps in local variables.\<close>

record reconsider =
  rc_first_candidate :: "nat option"
  rc_num_options :: nat
  rc_num_tag_not_ok :: nat
  rc_has_iif :: bool
  rc_no_iif :: bool
  rc_has_auto_selectable :: bool

definition recheck_depends :: "solver_db \<Rightarrow> nat \<Rightarrow> solver \<Rightarrow> solver" where
  "recheck_depends db a s =
     (if \<forall>dep \<in> set (pkg_depends (sd_pkg db a)). dependency_satisfiable db (Some a) dep s then s
      else disqualify_package db a s)"

fun check_install_if :: "solver_db \<Rightarrow> nat \<Rightarrow> apk_dependency list \<Rightarrow> solver \<Rightarrow> solver" where
  "check_install_if db a [] s = s"
| "check_install_if db a (dep # deps) s =
     (let name = dname dep; n = so_name s name in
      if \<not> ns_locked n then
        upd_pkg a (\<lambda>p. p\<lparr>ps_iif_triggered := False, ps_iif_failed := False\<rparr>)
          (if apk_dep_conflict dep
           then queue_unresolved name False (upd_name name (\<lambda>n. n\<lparr>ns_iif_needed := True\<rparr>) s) else s)
      else if \<not> is_provided db (Some a) dep (ns_chosen n) then
        upd_pkg a (\<lambda>p. p\<lparr>ps_iif_triggered := False, ps_iif_failed := True\<rparr>) s
      else check_install_if db a deps s)"

definition reevaluate_install_if :: "solver_db \<Rightarrow> nat \<Rightarrow> solver \<Rightarrow> solver" where
  "reevaluate_install_if db a s =
     (let iif = pkg_install_if (sd_pkg db a);
          s = (if \<not> ps_iif_triggered (so_pkg s a) \<and> \<not> ps_iif_failed (so_pkg s a)
               then check_install_if db a iif (upd_pkg a (\<lambda>p. p\<lparr>ps_iif_triggered := True, ps_iif_failed := False\<rparr>) s)
               else s)
      in if ps_iif_triggered (so_pkg s a)
         then fold (\<lambda>dep s. inherit_pinning_and_flags db a (fst (ns_chosen (so_name s (dname dep)))) s) iif s
         else s)"

definition merge_candidate :: "solver_db \<Rightarrow> nat \<times> bytes \<Rightarrow> nat \<Rightarrow> solver \<Rightarrow> solver" where
  "merge_candidate db p num s =
     (case p of (a, v) \<Rightarrow>
       let pkg = sd_pkg db a;
           s = upd_pkg a (\<lambda>p. p\<lparr>ps_dependencies_merged := True\<rparr>) s;
           s = fold (\<lambda>dep. merge_depends_at num (dname dep)) (filter (\<lambda>d. \<not> apk_dep_conflict d) (pkg_depends pkg)) s
       in fold (merge_provides_at num) ((pname db a, v) # map (\<lambda>d. (dname d, dep_version d)) (pkg_provides pkg)) s)"

definition consider_provider ::
  "solver_db \<Rightarrow> bytes \<Rightarrow> bool \<Rightarrow> bool \<Rightarrow> nat \<times> bytes \<Rightarrow> solver \<times> reconsider \<Rightarrow> solver \<times> reconsider" where
  "consider_provider db name reevaluate_deps reevaluate_iif p sr =
     (case (p, sr) of ((a, v), (s, rc)) \<Rightarrow>
       let s = upd_pkg a (\<lambda>p. p\<lparr>ps_dependencies_merged := False\<rparr>) s;
           s = (if reevaluate_deps \<and> ps_selectable (so_pkg s a) then recheck_depends db a s else s)
       in if \<not> ps_selectable (so_pkg s a) then (s, rc)
          else
            let s = (if reevaluate_iif then reevaluate_install_if db a s else s);
                q = so_pkg s a;
                rc = rc\<lparr>rc_has_iif := rc_has_iif rc \<or> ps_iif_triggered q,
                        rc_no_iif := rc_no_iif rc \<and> ps_iif_failed q,
                        rc_has_auto_selectable := rc_has_auto_selectable rc \<or> ps_iif_triggered q\<rparr>
            in if ns_requirers (so_name s name) = 0 then (s, rc)
               else
                 let s = merge_candidate db (a, v) (rc_num_options rc) s
                 in (s, rc\<lparr>rc_first_candidate :=
                             (case rc_first_candidate rc of None \<Rightarrow> Some a | Some c \<Rightarrow> Some c),
                           rc_num_tag_not_ok := rc_num_tag_not_ok rc + of_bool (\<not> ps_tag_ok (so_pkg s a)),
                           rc_num_options := rc_num_options rc + 1,
                           rc_has_auto_selectable :=
                             rc_has_auto_selectable rc \<or> is_provider_auto_selectable db s (a, v)\<rparr>))"

definition merged_depends_done :: "nat \<Rightarrow> bytes \<Rightarrow> solver \<Rightarrow> solver \<times> bool" where
  "merged_depends_done num n s =
     (case merge_index_complete (ns_merge_depends (so_name s n)) num of
        (i, done) \<Rightarrow> (upd_name n (\<lambda>x. x\<lparr>ns_merge_depends := i\<rparr>) s, done))"

definition merged_provides_done :: "nat \<Rightarrow> bytes \<Rightarrow> solver \<Rightarrow> solver \<times> bool" where
  "merged_provides_done num n s =
     (case merge_index_complete (ns_merge_provides (so_name s n)) num of
        (i, done) \<Rightarrow> (upd_name n (\<lambda>x. x\<lparr>ns_merge_provides := i\<rparr>) s, done))"

definition propagate_depend :: "solver_db \<Rightarrow> nat \<Rightarrow> nat \<Rightarrow> apk_dependency \<Rightarrow> solver \<Rightarrow> solver" where
  "propagate_depend db a num dep s =
     (let n = dname dep in
      case merged_depends_done num n s of (s, done) \<Rightarrow>
        if num = 1 then (if done then apply_constraint db (Some a) dep s else s)
        else if done \<and> ns_requirers (so_name s n) = 0 then
          fold (\<lambda>(b, v). inherit_pinning_and_flags db b (Some a)) (sd_providers db n)
            (name_requirers_changed db n (upd_name n (\<lambda>x. x\<lparr>ns_requirers := ns_requirers x + 1\<rparr>) s))
        else s)"

definition propagate_provides :: "solver_db \<Rightarrow> bytes \<Rightarrow> nat \<Rightarrow> bytes \<Rightarrow> solver \<Rightarrow> solver" where
  "propagate_provides db name num n s =
     (case merged_provides_done num n s of (s, done) \<Rightarrow>
        if done then exclude_non_providers db n name (ns_has_virtual_provides (so_name s n)) s else s)"

definition propagate_candidate :: "solver_db \<Rightarrow> bytes \<Rightarrow> nat \<Rightarrow> nat \<Rightarrow> solver \<Rightarrow> solver" where
  "propagate_candidate db name a num s =
     (let pkg = sd_pkg db a; gives = pname db a # map dname (pkg_provides pkg);
          s = fold (\<lambda>(b, v). upd_pkg b (\<lambda>p. p\<lparr>ps_dependencies_used := ps_dependencies_merged p\<rparr>)) (sd_providers db name) s;
          s = fold (propagate_depend db a num) (pkg_depends pkg) s;
          s = fold (propagate_provides db name num) gives s
      in fold (\<lambda>n. upd_name n (\<lambda>x. x\<lparr>ns_has_virtual_provides := False\<rparr>)) gives s)"

definition reconsider_name :: "solver_db \<Rightarrow> bytes \<Rightarrow> solver \<Rightarrow> solver" where
  "reconsider_name db name s =
     (let n = so_name s name;
          s = upd_name name (\<lambda>n. n\<lparr>ns_reevaluate_deps := False, ns_reevaluate_iif := False\<rparr>) s
      in case fold (consider_provider db name (ns_reevaluate_deps n) (ns_reevaluate_iif n)) (sd_providers db name)
                (s, \<lparr>rc_first_candidate = None, rc_num_options = 0, rc_num_tag_not_ok = 0, rc_has_iif = False,
                     rc_no_iif = True, rc_has_auto_selectable = False\<rparr>) of
           (s, rc) \<Rightarrow>
             let reevaluate = (rc_has_auto_selectable rc \<noteq> ns_has_auto_selectable (so_name s name));
                 s = upd_name name (\<lambda>n. n\<lparr>ns_has_options := rc_num_options rc > 1 \<or> rc_num_tag_not_ok rc > 0,
                       ns_has_iif := rc_has_iif rc, ns_no_iif := rc_no_iif rc,
                       ns_has_auto_selectable := rc_has_auto_selectable rc\<rparr>) s;
                 s = (case rc_first_candidate rc of
                        None \<Rightarrow> s
                      | Some a \<Rightarrow> propagate_candidate db name a (rc_num_options rc) s);
                 s = upd_name name (\<lambda>n. n\<lparr>ns_reverse_deps_done :=
                       \<forall>m \<in> set (sd_rdepends db name). \<not> (ns_seen (so_name s m) \<and> \<not> ns_locked (so_name s m))\<rparr>) s
             in queue_unresolved name reevaluate s)"

section \<open>Choosing a provider\<close>

definition ffs :: "u32 \<Rightarrow> int" where
  "ffs w = (case List.find (bit w) [0..<32] of None \<Rightarrow> 0 | Some i \<Rightarrow> int i + 1)"

text \<open>The first criterion that does not say 0 decides.\<close>

fun first_nonzero :: "int list \<Rightarrow> int" where
  "first_nonzero [] = 0"
| "first_nonzero (r # rs) = (if r \<noteq> 0 then r else first_nonzero rs)"

definition prefer_flag :: "bool \<Rightarrow> bool \<Rightarrow> int" where
  "prefer_flag a b = of_bool a - of_bool b"

definition prefer_version :: "bytes \<Rightarrow> bytes \<Rightarrow> int" where
  "prefer_version v w =
     (let c = apk_version_compare (Some v) (Some w) in
      if c = APK_VERSION_LESS then - 1 else if c = APK_VERSION_GREATER then 1 else 0)"

definition has_flag :: "u16 \<Rightarrow> u16 \<Rightarrow> bool" where
  "has_flag flags f \<longleftrightarrow> flags AND f \<noteq> 0"

definition compare_providers :: "solver_db \<Rightarrow> solver \<Rightarrow> provider \<Rightarrow> provider \<Rightarrow> int" where
  "compare_providers db s pA pB =
     (case (fst pA, fst pB) of
        (Some a, Some b) \<Rightarrow>
          let A = so_pkg s a; B = so_pkg s b; pkgA = sd_pkg db a; pkgB = sd_pkg db b;
              flags = ps_solver_flags A OR ps_solver_flags B;
              installed = prefer_flag (pkg_ipkg pkgA \<noteq> None) (pkg_ipkg pkgB \<noteq> None);
              selectable = prefer_flag (ps_selectable A) (ps_selectable B);
              available = prefer_flag (ps_available A) (ps_available B);
              tag_ok = prefer_flag (ps_tag_ok A) (ps_tag_ok B)
          in first_nonzero
            ((if has_flag flags APK_SOLVERF_LATEST \<and> ps_pinning_allowed A = APK_DEFAULT_PINNING_MASK \<and>
                 ps_pinning_allowed B = APK_DEFAULT_PINNING_MASK
              then [tag_ok,
                    if has_flag flags APK_SOLVERF_AVAILABLE then available
                    else if has_flag flags APK_SOLVERF_REINSTALL then selectable else 0]
              else [selectable,
                    prefer_flag (ps_dependencies_used A) (ps_dependencies_used B),
                    sint (ps_conflicts B - ps_conflicts A),
                    if (sd_performing_self_upgrade db \<and> \<not> has_flag flags APK_SOLVERF_UPGRADE) \<or>
                       has_flag flags APK_SOLVERF_INSTALLED then installed else 0,
                    tag_ok,
                    if has_flag flags APK_SOLVERF_AVAILABLE then available else 0,
                    prefer_flag (ps_tag_preferred A) (ps_tag_preferred B),
                    if has_flag flags (APK_SOLVERF_REMOVE OR APK_SOLVERF_UPGRADE) then 0 else installed]) @
             [prefer_version (snd pA) (snd pB),
              if pname db a = pname db b
              then prefer_version (the (pkg_version pkgA)) (the (pkg_version pkgB)) else 0,
              int (unat (pkg_provider_priority pkgA)) - int (unat (pkg_provider_priority pkgB)),
              if has_flag flags APK_SOLVERF_REMOVE then 0 else installed,
              selectable,
              ffs (pkg_repos pkgB) - ffs (pkg_repos pkgA)])
      | (x, y) \<Rightarrow> prefer_flag (x \<noteq> None) (y \<noteq> None))"

definition assign_name :: "solver_db \<Rightarrow> bytes \<Rightarrow> provider \<Rightarrow> solver \<Rightarrow> solver" where
  "assign_name db name p s =
     (let n = so_name s name in
      if ns_locked n then
        if snd p = [] \<and> snd (ns_chosen n) = [] then s
        else if so_ignore_conflict s then s
        else mark_error (fst (ns_chosen n)) (mark_error (fst p) s)
      else
        let s = unqueue name (upd_name name (\<lambda>n. n\<lparr>ns_locked := True, ns_chosen := p\<rparr>) s);
            s = s\<lparr>so_dirty := remove1 name (so_dirty s)\<rparr>;
            s = (case fst p of
                   Some a \<Rightarrow>
                     if ns_requirers n = 0 \<and> ps_iif_triggered (so_pkg s a)
                     then fold (\<lambda>dep s. if ns_locked (so_name s (dname dep)) then s else apply_constraint db (Some a) dep s)
                            (pkg_install_if (sd_pkg db a)) s
                     else s
                 | None \<Rightarrow> s);
            s = (if so_ignore_conflict s then s
                 else fold (\<lambda>(b, v) s. if fst p = Some b \<or> (snd p = [] \<and> v = []) then s else disqualify_package db b s)
                        (sd_providers db name) s);
            s = reevaluate_reverse_deps db name s
        in case fst p of
             Some a \<Rightarrow> reevaluate_reverse_installif_pkg db a s
           | None \<Rightarrow> reevaluate_reverse_installif db name s)"

definition consider_candidate :: "solver_db \<Rightarrow> bytes \<Rightarrow> solver \<Rightarrow> nat \<times> bytes \<Rightarrow> provider \<Rightarrow> provider" where
  "consider_candidate db name s p chosen =
     (case p of (a, v) \<Rightarrow>
       if ns_requirers (so_name s name) = 0 \<and>
          (\<not> ps_iif_triggered (so_pkg s a) \<or> \<not> ps_tag_ok (so_pkg s a) \<or> \<not> ps_selectable (so_pkg s a)) then chosen
       else if \<not> is_provider_auto_selectable db s (a, v) then chosen
       else if compare_providers db s (Some a, v) chosen > 0 then (Some a, v) else chosen)"

definition select_provider :: "solver_db \<Rightarrow> bytes \<Rightarrow> solver \<Rightarrow> provider" where
  "select_provider db name s =
     (if ns_requirers (so_name s name) \<noteq> 0 \<or> ns_has_iif (so_name s name)
      then fold (consider_candidate db name s) (sd_providers db name) provider_none
      else provider_none)"

text \<open>What a package provides: its own name with its version, and the entries of its list.\<close>

definition gives :: "solver_db \<Rightarrow> nat \<Rightarrow> (bytes \<times> bytes) list" where
  "gives db a =
     (pname db a, the (pkg_version (sd_pkg db a))) #
       map (\<lambda>d. (dname d, dep_version d)) (pkg_provides (sd_pkg db a))"

definition select_package :: "solver_db \<Rightarrow> bytes \<Rightarrow> solver \<Rightarrow> solver" where
  "select_package db name s =
     (case fst (select_provider db name s) of
        Some a \<Rightarrow>
          let s = (if \<not> ps_selectable (so_pkg s a) \<or> \<not> ps_tag_ok (so_pkg s a) then mark_error (Some a) s else s);
              s = fold (\<lambda>(n, v). assign_name db n (Some a, v)) (gives db a) s
          in fold (apply_constraint db (Some a)) (pkg_depends (sd_pkg db a)) s
      | None \<Rightarrow>
          let s = assign_name db name provider_none s
          in if ns_requirers (so_name s name) > 0 then s\<lparr>so_errors := so_errors s + 1\<rparr> else s)"

section \<open>The resolution loop\<close>

definition dequeue_next_name :: "solver \<Rightarrow> (bytes \<times> solver) option" where
  "dequeue_next_name s =
     (case so_resolvenow s of
        name # ns \<Rightarrow> Some (name, s\<lparr>so_resolvenow := ns\<rparr>)
      | [] \<Rightarrow>
         (case so_selectable s of
            name # ns \<Rightarrow> Some (name, s\<lparr>so_selectable := ns\<rparr>)
          | [] \<Rightarrow>
             (case so_unresolved s of
                name # ns \<Rightarrow> Some (name, s\<lparr>so_unresolved := ns\<rparr>)
              | [] \<Rightarrow> None)))"

definition solve_step :: "solver_db \<Rightarrow> solver \<Rightarrow> solver option" where
  "solve_step db s =
     (case so_dirty s of
        name # ns \<Rightarrow> Some (reconsider_name db name (s\<lparr>so_dirty := ns\<rparr>))
      | [] \<Rightarrow>
         (case dequeue_next_name s of
            Some (name, s) \<Rightarrow> Some (select_package db name s)
          | None \<Rightarrow> None))"

primrec solve_loop :: "nat \<Rightarrow> solver_db \<Rightarrow> solver \<Rightarrow> solver option" where
  "solve_loop 0 db s = None"
| "solve_loop (Suc k) db s =
     (case solve_step db s of None \<Rightarrow> Some s | Some s \<Rightarrow> solve_loop k db s)"

end
