(* ===== verification/Changeset.thy ===== *)
theory Changeset
  imports Solver
begin

text \<open>
  The second half of \<^verbatim>\<open>solver.c\<close>: the change set that leads from the installed packages to the chosen
  providers, and the solver as a whole. The mutually recursive functions of the source are two
  recursions here: removals only cause removals, so \<open>cset_gen_name_remove\<close> comes first, and
  \<open>cset_gen_name_change\<close> takes it as the argument \<open>rm\<close>. The functions between a function and its
  recursive call take that call as an argument.
\<close>

section \<open>Recording changes\<close>

text \<open>The counters of changes are natural numbers, where the program has integers of 32 bits.\<close>

definition old_tag :: "solver_db \<Rightarrow> nat option \<Rightarrow> nat" where
  "old_tag db opkg =
     (case opkg of None \<Rightarrow> 0 | Some a \<Rightarrow> ipkg_repository_tag (the (pkg_ipkg (sd_pkg db a))))"

definition record_change :: "solver_db \<Rightarrow> nat option \<Rightarrow> nat option \<Rightarrow> solver \<Rightarrow> solver" where
  "record_change db opkg npkg s =
     (let change = \<lparr>ch_old_pkg = opkg, ch_new_pkg = npkg,
            ch_old_repository_tag = old_tag db opkg,
            ch_new_repository_tag =
              (case npkg of
                 None \<Rightarrow> 0
               | Some a \<Rightarrow> get_tag db (ps_pinning_allowed (so_pkg s a)) (get_pkg_repos db (sd_pkg db a))),
            ch_reinstall =
              (case npkg of
                 None \<Rightarrow> False
               | Some a \<Rightarrow> has_flag (ps_solver_flags (so_pkg s a)) APK_SOLVERF_REINSTALL)\<rparr>;
          c = so_changeset s;
          c = c\<lparr>cs_changes := cs_changes c @ [change]\<rparr>;
          c = (if npkg = None then c\<lparr>cs_num_remove := cs_num_remove c + 1\<rparr>
               else if opkg = None then c\<lparr>cs_num_install := cs_num_install c + 1\<rparr>
               else if npkg \<noteq> opkg \<or> ch_reinstall change \<or> ch_new_repository_tag change \<noteq> ch_old_repository_tag change
               then c\<lparr>cs_num_adjust := cs_num_adjust c + 1\<rparr> else c)
      in s\<lparr>so_changeset := c\<rparr>)"

section \<open>Removals\<close>

definition cset_track_deps_added :: "solver_db \<Rightarrow> nat \<Rightarrow> solver \<Rightarrow> solver" where
  "cset_track_deps_added db a s =
     fold (\<lambda>d s.
         case ns_installed_name (so_name s (dname d)) of
           Some m \<Rightarrow> if apk_dep_conflict d then s else upd_name m (\<lambda>n. n\<lparr>ns_requirers := ns_requirers n + 1\<rparr>) s
         | None \<Rightarrow> s)
       (pkg_depends (sd_pkg db a)) s"

definition cset_track_deps_removed ::
  "(nat \<Rightarrow> solver \<Rightarrow> solver option) \<Rightarrow> solver_db \<Rightarrow> nat \<Rightarrow> solver \<Rightarrow> solver option" where
  "cset_track_deps_removed rm db a s =
     foldM (\<lambda>d s.
         case ns_installed_name (so_name s (dname d)) of
           Some m \<Rightarrow>
             if apk_dep_conflict d then Some s
             else
               let s = upd_name m (\<lambda>n. n\<lparr>ns_requirers := ns_requirers n - 1\<rparr>) s in
               if ns_requirers (so_name s m) > 0 then Some s
               else (case ns_installed_pkg (so_name s (dname d)) of Some b \<Rightarrow> rm b s | None \<Rightarrow> Some s)
         | None \<Rightarrow> Some s)
       (pkg_depends (sd_pkg db a)) s"

definition cset_check_removal_by_deps ::
  "(nat \<Rightarrow> solver \<Rightarrow> solver option) \<Rightarrow> solver_db \<Rightarrow> nat \<Rightarrow> solver \<Rightarrow> solver option" where
  "cset_check_removal_by_deps rm db a s =
     (let n = so_name s (pname db a) in
      if ns_requirers n = 0 \<and> fst (ns_chosen n) = None then rm a s else Some s)"

definition cset_check_removal_by_iif ::
  "(nat \<Rightarrow> solver \<Rightarrow> solver option) \<Rightarrow> solver_db \<Rightarrow> bytes \<Rightarrow> solver \<Rightarrow> solver option" where
  "cset_check_removal_by_iif rm db name s =
     (let n = so_name s name in
      case ns_installed_pkg n of
        None \<Rightarrow> Some s
      | Some a \<Rightarrow>
          if fst (ns_chosen n) \<noteq> None \<or> ns_changeset_processed n \<or> ns_changeset_removed n then Some s
          else if \<exists>d \<in> set (pkg_install_if (sd_pkg db a)).
                    ns_changeset_removed (so_name s (dname d)) \<and> fst (ns_chosen (so_name s (dname d))) = None
          then cset_check_removal_by_deps rm db a s
          else Some s)"

definition cset_check_by_reverse_iif ::
  "solver_db \<Rightarrow> nat option \<Rightarrow> (bytes \<Rightarrow> solver \<Rightarrow> solver option) \<Rightarrow> solver \<Rightarrow> solver option" where
  "cset_check_by_reverse_iif db pkg cb s =
     (case pkg of
        None \<Rightarrow> Some s
      | Some a \<Rightarrow> foldM (\<lambda>(n, v). foldM cb (sd_rinstall_if db n)) (gives db a) s)"

text \<open>
  The installed packages that the removal of a package leaves without a dependency, once for every
  dependency that it satisfied. When a comparison of versions faults, which the program does not survive, there
  are none.
\<close>

definition reverse_dependencies :: "solver_db \<Rightarrow> nat \<Rightarrow> nat list" where
  "reverse_dependencies db a =
     (case apk_pkg_foreach_reverse_dependency (sd_pkg db)
             (\<lambda>n. concat (map (\<lambda>m. map fst (sd_providers db m)) (sd_rdepends db (the n))))
             (sd_pkg db a) (APK_FOREACH_INSTALLED OR APK_DEP_SATISFIES) of
        Ret (calls, _) \<Rightarrow> map fst calls
      | Fault \<Rightarrow> [])"

primrec cset_gen_name_remove :: "nat \<Rightarrow> solver_db \<Rightarrow> nat \<Rightarrow> solver \<Rightarrow> solver option" where
  "cset_gen_name_remove 0 db a s = None"
| "cset_gen_name_remove (Suc k) db a s =
     (let name = pname db a; rm = cset_gen_name_remove k db in
      if ps_in_changeset (so_pkg s a) \<or>
         (case fst (ns_chosen (so_name s name)) of None \<Rightarrow> False | Some c \<Rightarrow> pname db c = name) then Some s
      else do {
        s \<leftarrow> foldM rm (reverse_dependencies db a)
               (upd_pkg a (\<lambda>p. p\<lparr>ps_in_changeset := True\<rparr>)
                 (upd_name name (\<lambda>n. n\<lparr>ns_changeset_removed := True\<rparr>) s));
        s \<leftarrow> cset_check_by_reverse_iif db (Some a) (cset_check_removal_by_iif rm db) s;
        cset_track_deps_removed rm db a (record_change db (Some a) None s) })"

section \<open>Changes\<close>

definition cset_check_install_by_iif ::
  "(bytes \<Rightarrow> solver \<Rightarrow> solver option) \<Rightarrow> solver_db \<Rightarrow> bytes \<Rightarrow> solver \<Rightarrow> solver option" where
  "cset_check_install_by_iif gen db name s =
     (let n = so_name s name in
      case fst (ns_chosen n) of
        None \<Rightarrow> Some s
      | Some a \<Rightarrow>
          if \<not> ns_seen n \<or> ns_changeset_processed n then Some s
          else if \<forall>d \<in> set (pkg_install_if (sd_pkg db a)).
                    (apk_dep_conflict d \<or> ns_changeset_processed (so_name s (dname d))) \<and>
                    is_provided db (Some a) d (ns_chosen (so_name s (dname d)))
          then gen name s else Some s)"

definition cset_gen_name_preprocess ::
  "(nat \<Rightarrow> solver \<Rightarrow> solver option) \<Rightarrow> solver_db \<Rightarrow> bytes \<Rightarrow> solver \<Rightarrow> solver option" where
  "cset_gen_name_preprocess rm db name s =
     (if ns_changeset_processed (so_name s name) then Some s
      else
        let s = upd_name name (\<lambda>n. n\<lparr>ns_changeset_processed := True\<rparr>) s; n = so_name s name in
        do {
          s \<leftarrow> (case ns_installed_pkg n of
                  None \<Rightarrow> Some s
                | Some i \<Rightarrow>
                    if (case fst (ns_chosen n) of None \<Rightarrow> True | Some c \<Rightarrow> pname db c \<noteq> name) then rm i s else Some s);
          foldM (\<lambda>(b, v) s.
              let m = so_name s (pname db b) in
              if ns_installed_pkg m = Some b \<and> fst (ns_chosen m) = None then rm b s else Some s)
            (sd_providers db name) s })"

text \<open>A dependency of a package, or of the world; \<open>gen\<close> processes the name.\<close>

definition cset_gen_dep ::
  "(bytes \<Rightarrow> solver \<Rightarrow> solver option) \<Rightarrow> solver_db \<Rightarrow> nat option \<Rightarrow> apk_dependency \<Rightarrow> solver \<Rightarrow> solver option" where
  "cset_gen_dep gen db ppkg dep s =
     (let name = dname dep; chosen = ns_chosen (so_name s name) in
      if apk_dep_conflict dep \<and> so_ignore_conflict s then Some s
      else do {
        s \<leftarrow> gen name (if is_provided db ppkg dep chosen then s else mark_error ppkg s);
        Some (case fst chosen of
                None \<Rightarrow> s
              | Some c \<Rightarrow> if ps_error (so_pkg s c) then mark_error ppkg s else s) })"

primrec cset_gen_name_change ::
  "nat \<Rightarrow> (nat \<Rightarrow> solver \<Rightarrow> solver option) \<Rightarrow> solver_db \<Rightarrow> bytes \<Rightarrow> solver \<Rightarrow> solver option" where
  "cset_gen_name_change 0 rm db name s = None"
| "cset_gen_name_change (Suc k) rm db name s =
     (let gen = cset_gen_name_change k rm db in
      if ns_changeset_processed (so_name s name) then Some s
      else do {
        s \<leftarrow> cset_gen_name_preprocess rm db name s;
        case fst (ns_chosen (so_name s name)) of
          None \<Rightarrow> Some s
        | Some a \<Rightarrow>
            if ps_in_changeset (so_pkg s a) then Some s
            else do {
              s \<leftarrow> foldM (\<lambda>(n, v). cset_gen_name_preprocess rm db n) (gives db a)
                     (upd_pkg a (\<lambda>p. p\<lparr>ps_in_changeset := True\<rparr>) s);
              let opkg = ns_installed_pkg (so_name s (pname db a));
              s \<leftarrow> cset_check_by_reverse_iif db opkg (cset_check_removal_by_iif rm db) s;
              s \<leftarrow> foldM (cset_gen_dep gen db (Some a)) (pkg_depends (sd_pkg db a)) s;
              s \<leftarrow> cset_check_by_reverse_iif db (Some a) (cset_check_install_by_iif gen db)
                     (record_change db opkg (Some a) s);
              (case opkg of
                 None \<Rightarrow> Some (cset_track_deps_added db a s)
               | Some i \<Rightarrow> cset_track_deps_removed rm db i (cset_track_deps_added db a s)) } })"

section \<open>The change set\<close>

text \<open>The walks over the hash tables of names and of packages visit every state record.\<close>

definition cset_reset_name :: "name_state \<Rightarrow> name_state" where
  "cset_reset_name n = n\<lparr>ns_installed_pkg := None, ns_installed_name := None, ns_requirers := 0\<rparr>"

definition cset_set_installed :: "solver_db \<Rightarrow> nat \<Rightarrow> solver \<Rightarrow> solver" where
  "cset_set_installed db a s =
     fold (\<lambda>d s. if dep_version d \<noteq> []
                 then upd_name (dname d) (\<lambda>n. n\<lparr>ns_installed_name := Some (pname db a)\<rparr>) s else s)
       (pkg_provides (sd_pkg db a))
       (upd_name (pname db a) (\<lambda>n. n\<lparr>ns_installed_pkg := Some a, ns_installed_name := Some (pname db a)\<rparr>) s)"

definition cset_prepare :: "solver_db \<Rightarrow> solver \<Rightarrow> solver" where
  "cset_prepare db s =
     (let s = s\<lparr>so_changeset := so_changeset s\<lparr>cs_changes := []\<rparr>\<rparr>;
          s = s\<lparr>so_name := cset_reset_name \<circ> so_name s\<rparr>;
          s = fold (cset_set_installed db) (sd_installed db) s
      in fold (cset_track_deps_added db) (sd_installed db) s)"

definition generate_changeset :: "nat \<Rightarrow> solver_db \<Rightarrow> apk_dependency list \<Rightarrow> solver \<Rightarrow> solver option" where
  "generate_changeset k db world s =
     (let rm = cset_gen_name_remove k db; gen = cset_gen_name_change k rm db in
      do {
        s \<leftarrow> foldM (cset_check_removal_by_deps rm db) (sd_installed db) (cset_prepare db s);
        s \<leftarrow> foldM (cset_gen_dep gen db None) world s;
        s \<leftarrow> foldM (\<lambda>a. gen (pname db a)) (sd_installed db) s;
        let c = so_changeset s;
        Some (s\<lparr>so_changeset :=
                 c\<lparr>cs_num_total_changes := cs_num_install c + cs_num_remove c + cs_num_adjust c\<rparr>\<rparr>) })"

section \<open>The solver\<close>

definition cmp_pkgname :: "apk_dependency \<Rightarrow> apk_dependency \<Rightarrow> int" where
  "cmp_pkgname d1 d2 = apk_name_cmp_display (dname d1) (dname d2)"

definition name_state_zero :: name_state where
  "name_state_zero =
     \<lparr>ns_chosen = (None, []), ns_order_id = 0, ns_requirers = 0, ns_merge_depends = 0, ns_merge_provides = 0,
      ns_seen = False, ns_locked = False, ns_changeset_processed = False, ns_changeset_removed = False,
      ns_reevaluate_deps = False, ns_reevaluate_iif = False, ns_has_iif = False, ns_no_iif = False,
      ns_has_options = False, ns_reverse_deps_done = False, ns_has_virtual_provides = False,
      ns_has_auto_selectable = False, ns_iif_needed = False, ns_resolvenow = False,
      ns_installed_name = None, ns_installed_pkg = None, ns_solver_flags_set = False\<rparr>"

definition pkg_state_zero :: pkg_state where
  "pkg_state_zero =
     \<lparr>ps_conflicts = 0, ps_pinning_allowed = 0, ps_pinning_preferred = 0, ps_solver_flags = 0,
      ps_solver_flags_inheritable = 0, ps_seen = False, ps_available = False, ps_selectable = False,
      ps_tag_ok = False, ps_tag_preferred = False, ps_dependencies_used = False,
      ps_dependencies_merged = False, ps_in_changeset = False, ps_iif_triggered = False,
      ps_iif_failed = False, ps_error = False\<rparr>"

text \<open>The flag that marks a name as changed by the user is not part of the solver's state of a name.\<close>

definition free_name :: "name_state \<Rightarrow> name_state" where
  "free_name n = name_state_zero\<lparr>ns_solver_flags_set := ns_solver_flags_set n\<rparr>"

definition free_package :: "pkg_state \<Rightarrow> pkg_state" where
  "free_package p = pkg_state_zero"

definition free_all :: "solver \<Rightarrow> solver" where
  "free_all s = s\<lparr>so_name := free_name \<circ> so_name s, so_pkg := free_package \<circ> so_pkg s\<rparr>"

definition solver_init :: "solver_db \<Rightarrow> u16 \<Rightarrow> solver \<Rightarrow> solver" where
  "solver_init db solver_flags s =
     s\<lparr>so_dirty := [], so_unresolved := [], so_selectable := [], so_resolvenow := [], so_errors := 0,
       so_flags_inherit := solver_flags, so_pinning_inherit := 0,
       so_default_repos := apk_db_get_pinning_mask_repos db APK_DEFAULT_PINNING_MASK, so_order_id := 0,
       so_ignore_conflict := has_flag solver_flags APK_SOLVERF_IGNORE_CONFLICT\<rparr>"

text \<open>
  One attempt, from the label \<^verbatim>\<open>restart\<close>: discovering and applying the world, then the resolution loop.
\<close>

definition setup_world ::
  "nat \<Rightarrow> solver_db \<Rightarrow> u16 \<Rightarrow> apk_dependency list \<Rightarrow> solver \<Rightarrow> solver option" where
  "setup_world k db solver_flags world s =
     (let deps = filter (\<lambda>d. \<not> dep_broken d) world in
      do {
        s \<leftarrow> foldM (\<lambda>d. discover_name k db (dname d)) deps (solver_init db solver_flags s);
        let s = fold (\<lambda>d s. apply_constraint db None d (s\<lparr>so_pinning_inherit := BIT (dep_repository_tag d)\<rparr>)) deps s;
        Some (s\<lparr>so_flags_inherit := 0, so_pinning_inherit := 0\<rparr>) })"

definition solve_world ::
  "nat \<Rightarrow> solver_db \<Rightarrow> u16 \<Rightarrow> apk_dependency list \<Rightarrow> solver \<Rightarrow> solver option" where
  "solve_world k db solver_flags world s =
     do { s \<leftarrow> setup_world k db solver_flags world s; solve_loop k db s }"

definition break_world :: "solver \<Rightarrow> apk_dependency \<Rightarrow> apk_dependency" where
  "break_world s d =
     (case fst (ns_chosen (so_name s (dname d))) of
        None \<Rightarrow> d\<lparr>dep_broken := True\<rparr>
      | Some a \<Rightarrow> if ps_error (so_pkg s a) then d\<lparr>dep_broken := True\<rparr> else d)"

definition layer_world :: "solver_db \<Rightarrow> solver \<Rightarrow> apk_dependency \<Rightarrow> apk_dependency" where
  "layer_world db s d =
     (case fst (ns_chosen (so_name s (dname d))) of
        None \<Rightarrow> d
      | Some a \<Rightarrow> d\<lparr>dep_layer := pkg_layer (sd_pkg db a)\<rparr>)"

primrec solve_restart ::
  "nat \<Rightarrow> nat \<Rightarrow> solver_db \<Rightarrow> u16 \<Rightarrow> apk_dependency list \<Rightarrow> solver \<Rightarrow>
   (nat \<times> apk_dependency list \<times> solver) option" where
  "solve_restart 0 k db solver_flags world s = None"
| "solve_restart (Suc r) k db solver_flags world s =
     do {
       s \<leftarrow> solve_world k db solver_flags world s;
       s \<leftarrow> generate_changeset k db world s;
       if so_errors s \<noteq> 0 \<and> sd_force_broken_world db
       then solve_restart r k db solver_flags (map (break_world s) world) (free_all s)
       else Some (so_errors s, map (layer_world db s) world, free_all s) }"

text \<open>
  The number of errors, the world with the layers of the chosen packages, and the state that holds
  the change set. The number \<open>r\<close> bounds the attempts.
\<close>

definition apk_solver_solve ::
  "nat \<Rightarrow> nat \<Rightarrow> solver_db \<Rightarrow> u16 \<Rightarrow> apk_dependency list \<Rightarrow> solver \<Rightarrow>
   (nat \<times> apk_dependency list \<times> solver) option" where
  "apk_solver_solve r k db solver_flags world s =
     solve_restart r k db solver_flags (qsort cmp_pkgname world) s"

end
