(* ===== verification/Solver_Frame.thy ===== *)
theory Solver_Frame
  imports Changeset
begin

text \<open>
  What each operation of the resolution leaves unchanged. Propagation never touches the assignment of
  names, the errors or the change set, it only disqualifies packages and never drops a name from the
  queues (\<open>prop_ext\<close>); most of its parts also keep the counts of requirers (\<open>req_ext\<close>), and those that
  only collect flags the queue of dirty names too (\<open>quiet_ext\<close>). Choosing a provider also extends the assignment (\<open>sel_ext\<close>). All are
  preorders, and the loops of the solver inherit them from their bodies through the locale \<open>extension\<close>.
\<close>

section \<open>Preorders on states\<close>

locale extension =
  fixes ext :: "'s \<Rightarrow> 's \<Rightarrow> bool"
  assumes refl: "ext s s"
    and trans: "ext s t \<Longrightarrow> ext t u \<Longrightarrow> ext s u"
begin

lemma fold_ext: "(\<And>x s. x \<in> set xs \<Longrightarrow> ext s (f x s)) \<Longrightarrow> ext s (fold f xs s)"
proof (induction xs arbitrary: s)
  case (Cons x xs)
  then have "ext s (f x s)" "ext (f x s) (fold f xs (f x s))" by auto
  then show ?case by (auto intro: trans)
qed (simp add: refl)

lemma foldM_ext:
  "(\<And>x s t. x \<in> set xs \<Longrightarrow> f x s = Some t \<Longrightarrow> ext s t) \<Longrightarrow> foldM f xs s = Some t \<Longrightarrow> ext s t"
proof (induction xs arbitrary: s)
  case (Cons x xs)
  then obtain u where u: "f x s = Some u" "foldM f xs u = Some t" by (auto simp: bind_eq_Some_conv)
  with Cons have "ext s u" "ext u t" by auto
  then show ?case by (rule trans)
qed (simp add: refl)

lemma then_ext: "ext s t \<Longrightarrow> (\<And>s. ext s (f s)) \<Longrightarrow> ext s (f t)"
  by (rule trans)

end

section \<open>Projections\<close>

lemma so_name_upd_name [simp]:
  "so_name (upd_name n f s) m = (if m = n then f (so_name s n) else so_name s m)"
  by (simp add: upd_name_def)

lemma so_pkg_upd_pkg [simp]:
  "so_pkg (upd_pkg a f s) b = (if b = a then f (so_pkg s a) else so_pkg s b)"
  by (simp add: upd_pkg_def)

lemma upd_name_fields [simp]:
  "so_pkg (upd_name n f s) = so_pkg s" "so_dirty (upd_name n f s) = so_dirty s"
  "so_unresolved (upd_name n f s) = so_unresolved s" "so_selectable (upd_name n f s) = so_selectable s"
  "so_resolvenow (upd_name n f s) = so_resolvenow s" "so_errors (upd_name n f s) = so_errors s"
  "so_flags_inherit (upd_name n f s) = so_flags_inherit s" "so_pinning_inherit (upd_name n f s) = so_pinning_inherit s"
  "so_default_repos (upd_name n f s) = so_default_repos s" "so_order_id (upd_name n f s) = so_order_id s"
  "so_ignore_conflict (upd_name n f s) = so_ignore_conflict s" "so_changeset (upd_name n f s) = so_changeset s"
  by (simp_all add: upd_name_def)

lemma upd_pkg_fields [simp]:
  "so_name (upd_pkg n f s) = so_name s" "so_dirty (upd_pkg n f s) = so_dirty s"
  "so_unresolved (upd_pkg n f s) = so_unresolved s" "so_selectable (upd_pkg n f s) = so_selectable s"
  "so_resolvenow (upd_pkg n f s) = so_resolvenow s" "so_errors (upd_pkg n f s) = so_errors s"
  "so_flags_inherit (upd_pkg n f s) = so_flags_inherit s" "so_pinning_inherit (upd_pkg n f s) = so_pinning_inherit s"
  "so_default_repos (upd_pkg n f s) = so_default_repos s" "so_order_id (upd_pkg n f s) = so_order_id s"
  "so_ignore_conflict (upd_pkg n f s) = so_ignore_conflict s" "so_changeset (upd_pkg n f s) = so_changeset s"
  by (simp_all add: upd_pkg_def)

lemma upd_id [simp]: "upd_name n (\<lambda>x. x) s = s" "upd_pkg a (\<lambda>x. x) s = s"
  by (simp_all add: upd_name_def upd_pkg_def)

text \<open>The part of the state that only the choice of a provider changes.\<close>

definition ncore :: "name_state \<Rightarrow> bool \<times> provider \<times> bool \<times> bool" where
  "ncore n = (ns_locked n, ns_chosen n, ns_changeset_processed n, ns_changeset_removed n)"

definition pcore :: "pkg_state \<Rightarrow> bool \<times> bool" where
  "pcore p = (ps_error p, ps_in_changeset p)"

definition core_eq :: "solver \<Rightarrow> solver \<Rightarrow> bool" where
  "core_eq s t \<longleftrightarrow>
     (\<forall>n. ncore (so_name t n) = ncore (so_name s n)) \<and> (\<forall>a. pcore (so_pkg t a) = pcore (so_pkg s a)) \<and>
     so_errors t = so_errors s \<and> so_ignore_conflict t = so_ignore_conflict s \<and> so_changeset t = so_changeset s"

definition queue_mono :: "solver \<Rightarrow> solver \<Rightarrow> bool" where
  "queue_mono s t \<longleftrightarrow> (\<forall>n. unresolved_hashed n s \<longrightarrow> unresolved_hashed n t)"

definition sel_anti :: "solver \<Rightarrow> solver \<Rightarrow> bool" where
  "sel_anti s t \<longleftrightarrow> (\<forall>a. ps_selectable (so_pkg t a) \<longrightarrow> ps_selectable (so_pkg s a))"

definition conf_ok :: "solver \<Rightarrow> bool" where
  "conf_ok s \<longleftrightarrow> (\<forall>a. ps_selectable (so_pkg s a) \<longrightarrow> ps_conflicts (so_pkg s a) = 0)"

definition prop_ext :: "solver \<Rightarrow> solver \<Rightarrow> bool" where
  "prop_ext s t \<longleftrightarrow> core_eq s t \<and> queue_mono s t \<and> sel_anti s t \<and> (conf_ok s \<longrightarrow> conf_ok t)"

definition req_ext :: "solver \<Rightarrow> solver \<Rightarrow> bool" where
  "req_ext s t \<longleftrightarrow> prop_ext s t \<and> (\<forall>n. ns_requirers (so_name t n) = ns_requirers (so_name s n))"

definition quiet_ext :: "solver \<Rightarrow> solver \<Rightarrow> bool" where
  "quiet_ext s t \<longleftrightarrow> req_ext s t \<and> so_dirty t = so_dirty s"

interpretation ce: extension core_eq
  by unfold_locales (auto simp: core_eq_def)

interpretation pe: extension prop_ext
  by unfold_locales (auto simp: prop_ext_def core_eq_def queue_mono_def sel_anti_def)

interpretation re: extension req_ext
  by unfold_locales (auto simp: req_ext_def intro: pe.refl pe.trans)

interpretation qe: extension quiet_ext
  by unfold_locales (auto simp: quiet_ext_def intro: re.refl re.trans)

lemma prop_core: "prop_ext s t \<Longrightarrow> core_eq s t"
  by (simp add: prop_ext_def)

lemma req_prop: "req_ext s t \<Longrightarrow> prop_ext s t"
  by (simp add: req_ext_def)

lemma quiet_req: "quiet_ext s t \<Longrightarrow> req_ext s t"
  by (simp add: quiet_ext_def)

lemmas quiet_prop = req_prop [OF quiet_req]

lemma prop_upd_name:
  "ncore (f (so_name s n)) = ncore (so_name s n) \<Longrightarrow> prop_ext s (upd_name n f s)"
  by (simp add: prop_ext_def core_eq_def queue_mono_def sel_anti_def conf_ok_def unresolved_hashed_def)

lemma quiet_upd_name:
  assumes "ncore (f (so_name s n)) = ncore (so_name s n)" "ns_requirers (f (so_name s n)) = ns_requirers (so_name s n)"
  shows "quiet_ext s (upd_name n f s)"
  using assms by (simp add: quiet_ext_def req_ext_def prop_upd_name)

lemma quiet_upd_pkg:
  assumes "pcore (f (so_pkg s a)) = pcore (so_pkg s a)" "ps_conflicts (f (so_pkg s a)) = ps_conflicts (so_pkg s a)"
    and "ps_selectable (f (so_pkg s a)) \<longrightarrow> ps_selectable (so_pkg s a)"
  shows "quiet_ext s (upd_pkg a f s)"
  using assms
  by (simp add: quiet_ext_def req_ext_def prop_ext_def core_eq_def queue_mono_def sel_anti_def conf_ok_def
      unresolved_hashed_def)

lemmas quiet_upd = quiet_upd_name quiet_upd_pkg

section \<open>Operations that leave the requirers and the dirty queue alone\<close>

lemma set_queue_insert [simp]: "set (queue_insert ord n ns) = insert n (set ns)"
  by (induction ns) auto

lemma in_set_remove1_or: "x \<in> set xs \<Longrightarrow> x = y \<or> x \<in> set (remove1 y xs)"
  by (metis in_set_remove1)

lemma enqueue_hashed: "unresolved_hashed m (enqueue_unresolved n s) \<longleftrightarrow> m = n \<or> unresolved_hashed m s"
  by (auto simp: enqueue_unresolved_def Let_def unresolved_hashed_def)

lemma unqueue_hashed: "unresolved_hashed m s \<Longrightarrow> m = n \<or> unresolved_hashed m (unqueue n s)"
  by (auto simp: unqueue_def unresolved_hashed_def dest: in_set_remove1_or [of _ _ n])

lemma enqueue_fields [simp]:
  "so_name (enqueue_unresolved n s) = so_name s" "so_pkg (enqueue_unresolved n s) = so_pkg s"
  "so_errors (enqueue_unresolved n s) = so_errors s" "so_changeset (enqueue_unresolved n s) = so_changeset s"
  "so_ignore_conflict (enqueue_unresolved n s) = so_ignore_conflict s"
  "so_dirty (enqueue_unresolved n s) = so_dirty s"
  by (simp_all add: enqueue_unresolved_def Let_def)

lemma unqueue_fields [simp]:
  "so_name (unqueue n s) = so_name s" "so_pkg (unqueue n s) = so_pkg s"
  "so_errors (unqueue n s) = so_errors s" "so_changeset (unqueue n s) = so_changeset s"
  "so_ignore_conflict (unqueue n s) = so_ignore_conflict s" "so_dirty (unqueue n s) = so_dirty s"
  by (simp_all add: unqueue_def)

lemmas ext_defs = quiet_ext_def req_ext_def prop_ext_def core_eq_def queue_mono_def sel_anti_def conf_ok_def

lemma quiet_requeue: "quiet_ext s (enqueue_unresolved n (unqueue n s))"
  by (auto simp: ext_defs enqueue_hashed dest: unqueue_hashed [of _ _ n])

lemma quiet_enqueue: "quiet_ext s (enqueue_unresolved n s)"
  by (simp add: ext_defs enqueue_hashed)

lemma quiet_queue_unresolved: "quiet_ext s (queue_unresolved n r s)"
proof -
  have u: "quiet_ext s (upd_name n (\<lambda>n. n\<lparr>ns_resolvenow := x n\<rparr>) s)" for x
    by (simp add: quiet_upd ncore_def)
  show ?thesis
    unfolding queue_unresolved_def Let_def
    by (auto intro!: qe.refl qe.trans [OF u quiet_requeue] quiet_requeue qe.trans [OF u quiet_enqueue])
qed

lemma queue_unresolved_hashed:
  "ns_requirers (so_name s n) \<noteq> 0 \<Longrightarrow> ns_locked (so_name s n) \<or> unresolved_hashed n (queue_unresolved n r s)"
  by (auto simp: queue_unresolved_def Let_def enqueue_hashed)

section \<open>Operations that leave the requirers alone\<close>

lemma req_queue_dirty: "req_ext s (queue_dirty n s)"
  by (simp add: queue_dirty_def Let_def ext_defs unresolved_hashed_def)

lemma req_reverse_deps: "req_ext s (reevaluate_reverse_deps db n s)"
  unfolding reevaluate_reverse_deps_def
  by (rule re.fold_ext)
    (auto intro!: re.refl re.trans [OF quiet_req [OF quiet_upd(1)] req_queue_dirty] simp: ncore_def)

lemma req_reverse_installif: "req_ext s (reevaluate_reverse_installif db n s)"
  unfolding reevaluate_reverse_installif_def
  by (rule re.fold_ext)
    (auto intro!: re.refl re.trans [OF quiet_req [OF quiet_upd(1)] req_queue_dirty] simp: ncore_def)

lemma req_reverse_installif_pkg: "req_ext s (reevaluate_reverse_installif_pkg db a s)"
  unfolding reevaluate_reverse_installif_pkg_def
  by (rule re.trans [OF req_reverse_installif re.fold_ext]) (rule req_reverse_installif)

lemma req_disqualify_rest:
  "req_ext (upd_pkg a (\<lambda>p. p\<lparr>ps_selectable := False\<rparr>) s) (disqualify_package db a s)"
  unfolding disqualify_package_def
  by (rule re.trans [OF _ req_reverse_installif_pkg], rule re.trans [OF req_reverse_deps re.fold_ext])
    (rule req_reverse_deps)

lemma req_disqualify: "req_ext s (disqualify_package db a s)"
  by (rule re.trans [OF quiet_req req_disqualify_rest]) (simp add: quiet_upd pcore_def)

lemma disqualified: "\<not> ps_selectable (so_pkg (disqualify_package db a s) a)"
  using req_disqualify_rest [of a s db] by (auto simp: ext_defs)

lemma req_requirers_changed: "req_ext s (name_requirers_changed db n s)"
  unfolding name_requirers_changed_def
  by (intro re.trans [OF re.trans [OF quiet_req [OF quiet_queue_unresolved] req_reverse_installif] req_queue_dirty])

text \<open>The count of conflicts of a provider, with the disqualification that follows it.\<close>

definition count_conflict :: "solver_db \<Rightarrow> nat \<Rightarrow> u32 \<Rightarrow> solver \<Rightarrow> solver" where
  "count_conflict db a c s =
     (let s = upd_pkg a (\<lambda>q. q\<lparr>ps_conflicts := ps_conflicts q + c\<rparr>) s in
      if ps_selectable (so_pkg s a) \<and> ps_conflicts (so_pkg s a) \<noteq> 0 then disqualify_package db a s else s)"

lemma constrain_provider_count:
  "constrain_provider db p d (a, v) s =
     (let ok = is_provided db p d (Some a, v); t = count_conflict db a (of_bool (\<not> ok)) s
      in if ok then inherit_pinning_and_flags db a p t else t)"
  by (simp add: constrain_provider_def count_conflict_def Let_def)

lemma req_count_conflict: "req_ext s (count_conflict db a c s)"
proof -
  let ?s = "upd_pkg a (\<lambda>q. q\<lparr>ps_conflicts := ps_conflicts q + c\<rparr>) s"
  have "req_ext s ?s" if "\<not> (ps_selectable (so_pkg ?s a) \<and> ps_conflicts (so_pkg ?s a) \<noteq> 0)"
    using that by (auto simp: ext_defs unresolved_hashed_def pcore_def)
  moreover have "req_ext s (disqualify_package db a ?s)"
    by (rule re.trans [OF _ req_disqualify_rest]) (auto simp: ext_defs unresolved_hashed_def pcore_def)
  ultimately show ?thesis by (auto simp: count_conflict_def Let_def)
qed

section \<open>From the atomic updates to the operations\<close>

text \<open>
  A preorder that the updates of flags, the queueing of names from \<open>N\<close> and the disqualification of a
  selectable provider respect is respected by every operation that is made of them.
\<close>

locale solver_rel = extension ext for ext :: "solver \<Rightarrow> solver \<Rightarrow> bool" +
  fixes db :: solver_db and N :: "bytes set"
  assumes flag_name:
      "ncore (f (so_name s n)) = ncore (so_name s n) \<Longrightarrow> ns_requirers (f (so_name s n)) = ns_requirers (so_name s n) \<Longrightarrow>
       ext s (upd_name n f s)"
    and flag_pkg:
      "pcore (g (so_pkg s a)) = pcore (so_pkg s a) \<Longrightarrow> ps_conflicts (g (so_pkg s a)) = ps_conflicts (so_pkg s a) \<Longrightarrow>
       ps_selectable (g (so_pkg s a)) = ps_selectable (so_pkg s a) \<Longrightarrow> ext s (upd_pkg a g s)"
    and queue: "n \<in> N \<Longrightarrow> ext s (queue_unresolved n r s)"
    and disqualify: "(a, v) \<in> set (sd_providers db n) \<Longrightarrow> ps_selectable (so_pkg s a) \<Longrightarrow> ext s (disqualify_package db a s)"
    and count: "(a, v) \<in> set (sd_providers db n) \<Longrightarrow> ext s (count_conflict db a c s)"
    and install_if_names: "d \<in> set (pkg_install_if (sd_pkg db a)) \<Longrightarrow> dname d \<in> N"
    and depends_names: "d \<in> set (pkg_depends (sd_pkg db a)) \<Longrightarrow> dname d \<in> N"
begin

lemma inherit: "ext s (inherit_pinning_and_flags db a p s)"
  unfolding inherit_pinning_and_flags_def Let_def
  by (cases p) (auto intro!: trans [OF flag_pkg flag_pkg] simp: pcore_def)

lemma merge_candidate: "ext s (merge_candidate db p k s)"
proof -
  have d: "ext s (merge_depends_at k n s)" for n s
    by (simp add: merge_depends_at_def flag_name ncore_def)
  have q: "ext s (merge_provides_at k q s)" for q s
    by (auto simp: merge_provides_at_def flag_name ncore_def split: prod.splits)
  have "ext s (upd_pkg a (\<lambda>p. p\<lparr>ps_dependencies_merged := True\<rparr>) s)" for a s
    by (simp add: flag_pkg pcore_def)
  then show ?thesis
    unfolding merge_candidate_def Let_def
    by (auto split: prod.splits intro!: trans [OF _ fold_ext] trans [OF _ q] q d)
qed

lemma check_install_if: "set ds \<subseteq> set (pkg_install_if (sd_pkg db a)) \<Longrightarrow> ext s (check_install_if db a ds s)"
proof (induction ds arbitrary: s)
  case (Cons d ds)
  have p: "ext s (upd_pkg a (\<lambda>p. p\<lparr>ps_iif_triggered := x, ps_iif_failed := y\<rparr>) s)" for x y s
    by (simp add: flag_pkg pcore_def)
  have n: "ext s (upd_name n (\<lambda>n. n\<lparr>ns_iif_needed := True\<rparr>) s)" for n
    by (simp add: flag_name ncore_def)
  have "dname d \<in> N" using Cons.prems install_if_names by auto
  then show ?case
    using Cons by (auto simp: Let_def intro!: trans [OF _ p] trans [OF n queue] refl)
qed (simp add: refl)

lemma reevaluate_install_if: "ext s (reevaluate_install_if db a s)"
proof -
  have "ext s (upd_pkg a (\<lambda>p. p\<lparr>ps_iif_triggered := x, ps_iif_failed := y\<rparr>) s)" for x y s
    by (simp add: flag_pkg pcore_def)
  then show ?thesis
    unfolding reevaluate_install_if_def Let_def
    by (auto intro!: refl fold_ext trans [OF _ fold_ext] inherit intro: trans [OF _ check_install_if])
qed

lemma constrain: "q \<in> set (sd_providers db n) \<Longrightarrow> ext s (constrain_provider db p d q s)"
  by (cases q) (auto simp: constrain_provider_count Let_def intro: count trans [OF count inherit])

lemma constrain_all: "ext s (fold (constrain_provider db p d) (sd_providers db n) s)"
  by (rule fold_ext) (rule constrain)

lemma inherits: "ext s (fold (\<lambda>(b, v). inherit_pinning_and_flags db b p) qs s)"
  by (rule fold_ext) (auto intro: inherit)

lemma exclude: "ext s (exclude_non_providers db n m v s)"
  unfolding exclude_non_providers_def
  by (auto intro!: refl fold_ext disqualify split: prod.splits)

lemma consider_provider:
  assumes "p \<in> set (sd_providers db m)"
  shows "ext s (fst (consider_provider db n x y p (s, rc)))"
proof -
  have m: "ext s (upd_pkg a (\<lambda>p. p\<lparr>ps_dependencies_merged := False\<rparr>) s)" for a s
    by (simp add: flag_pkg pcore_def)
  have r: "ext s (recheck_depends db a s)" if "(a, v) \<in> set (sd_providers db m)" "ps_selectable (so_pkg s a)" for a v s
    using that by (auto simp: recheck_depends_def refl intro: disqualify)
  show ?thesis
    using assms unfolding consider_provider_def Let_def
    by (auto split: prod.splits
        intro!: m trans [OF _ merge_candidate] trans [OF _ reevaluate_install_if] trans [OF m r])
qed

lemma consider_providers:
  "set ps \<subseteq> set (sd_providers db m) \<Longrightarrow> ext s (fst (fold (consider_provider db n x y) ps (s, rc)))"
proof (induction ps arbitrary: s rc)
  case (Cons p ps)
  then have "ext s (fst (consider_provider db n x y p (s, rc)))" by (auto intro: consider_provider)
  with Cons show ?case by (cases "consider_provider db n x y p (s, rc)") (auto intro: trans)
qed (simp add: refl)

lemma propagate_provides: "ext s (propagate_provides db n k m s)"
proof -
  have "ext s (upd_name n (\<lambda>n. n\<lparr>ns_merge_provides := r n\<rparr>) s)" for n r
    by (simp add: flag_name ncore_def)
  then show ?thesis
    unfolding propagate_provides_def merged_provides_done_def
    by (auto split: prod.splits intro: trans [OF _ exclude])
qed

lemma merged_depends: "ext s (upd_name n (\<lambda>n. n\<lparr>ns_merge_depends := r n\<rparr>) s)"
  by (simp add: flag_name ncore_def)

lemma reconsider_flags:
  "ext s (upd_name n (\<lambda>n. n\<lparr>ns_reverse_deps_done := x\<rparr>) s)"
  "ext s (upd_name n (\<lambda>n. n\<lparr>ns_reevaluate_deps := x, ns_reevaluate_iif := y\<rparr>) s)"
  "ext s (upd_name n (\<lambda>n. n\<lparr>ns_has_options := x, ns_has_iif := y, ns_no_iif := z, ns_has_auto_selectable := w\<rparr>) s)"
  by (simp_all add: flag_name ncore_def)

text \<open>The parts of \<open>propagate_candidate\<close> around the propagation of the dependencies.\<close>

lemma candidate_before:
  "ext s (fold (\<lambda>(b, v). upd_pkg b (\<lambda>p. p\<lparr>ps_dependencies_used := ps_dependencies_merged p\<rparr>)) qs s)"
  by (rule fold_ext) (auto simp: flag_pkg pcore_def)

lemma candidate_after:
  "ext s (fold (\<lambda>n. upd_name n (\<lambda>x. x\<lparr>ns_has_virtual_provides := False\<rparr>)) ns
       (fold (propagate_provides db n k) ns s))"
proof -
  have "ext s (fold (\<lambda>n. upd_name n (\<lambda>x. x\<lparr>ns_has_virtual_provides := False\<rparr>)) ns s)" for s
    by (rule fold_ext) (simp add: flag_name ncore_def)
  moreover have "ext s (fold (propagate_provides db n k) ns s)"
    by (rule fold_ext) (rule propagate_provides)
  ultimately show ?thesis by (blast intro: trans)
qed

text \<open>The part of \<open>reconsider_name\<close> before the propagation.\<close>

lemma reconsider_before:
  assumes "fold (consider_provider db n x y) (sd_providers db n)
      (upd_name n (\<lambda>n. n\<lparr>ns_reevaluate_deps := False, ns_reevaluate_iif := False\<rparr>) s, rc) = (t, rc')"
  shows "ext s (upd_name n (\<lambda>n. n\<lparr>ns_has_options := b, ns_has_iif := c, ns_no_iif := d, ns_has_auto_selectable := e\<rparr>) t)"
proof -
  let ?s = "upd_name n (\<lambda>n. n\<lparr>ns_reevaluate_deps := False, ns_reevaluate_iif := False\<rparr>) s"
  have "ext ?s t" using consider_providers [of "sd_providers db n" n ?s n x y rc] assms by simp
  then show ?thesis by (rule trans [OF trans [OF reconsider_flags(2)] reconsider_flags(3)])
qed

end

locale solver_prop = solver_rel +
  assumes requirers: "ext s (upd_name n (\<lambda>x. x\<lparr>ns_requirers := r x\<rparr>) s)"
    and changed: "n \<in> N \<Longrightarrow> ext s (name_requirers_changed db n s)"
begin

lemma apply_constraint: "dname d \<in> N \<Longrightarrow> ext s (apply_constraint db p d s)"
  unfolding apply_constraint_def Let_def
  by (auto simp: requirers intro!: refl constrain_all trans [OF _ constrain_all] trans [OF requirers changed])

lemma propagate_depend: "dname d \<in> N \<Longrightarrow> ext s (propagate_depend db a k d s)"
  unfolding propagate_depend_def merged_depends_done_def Let_def
  by (auto split: prod.splits
      intro!: trans [OF _ inherits] merged_depends trans [OF merged_depends apply_constraint]
        trans [OF _ changed] trans [OF merged_depends requirers])

lemma propagate_candidate: "ext s (propagate_candidate db n a k s)"
proof -
  have "ext s (fold (propagate_depend db a k) (pkg_depends (sd_pkg db a)) s)" for s
    by (rule fold_ext) (auto intro: propagate_depend depends_names)
  then show ?thesis
    unfolding propagate_candidate_def Let_def
    by (intro trans [OF trans [OF candidate_before] candidate_after])
qed

lemma reconsider_name: "n \<in> N \<Longrightarrow> ext s (reconsider_name db n s)"
  unfolding reconsider_name_def Let_def
  by (auto split: prod.splits option.splits
      intro!: trans [OF _ queue] trans [OF _ reconsider_flags(1)] trans [OF reconsider_before propagate_candidate]
        reconsider_before)

end

interpretation rq: solver_rel req_ext db UNIV for db
  by unfold_locales
    (auto intro: quiet_req [OF quiet_upd(1)] quiet_req [OF quiet_upd(2)] quiet_req [OF quiet_queue_unresolved]
      req_disqualify req_count_conflict)

interpretation pr: solver_prop prop_ext db UNIV for db
  by unfold_locales
    (auto intro: quiet_prop [OF quiet_upd(1)] quiet_prop [OF quiet_upd(2)] quiet_prop [OF quiet_queue_unresolved]
      req_prop [OF req_disqualify] req_prop [OF req_count_conflict] req_prop [OF req_requirers_changed] prop_upd_name
      simp: ncore_def)

lemmas req_constrains = rq.constrain_all
lemmas prop_apply_constraint = pr.apply_constraint [OF UNIV_I]
lemmas prop_reconsider_name = pr.reconsider_name [OF UNIV_I]

section \<open>Choosing\<close>

text \<open>A package is only marked as broken together with a count of errors.\<close>

definition err_ok :: "solver \<Rightarrow> bool" where
  "err_ok s \<longleftrightarrow> (\<forall>a. ps_error (so_pkg s a) \<longrightarrow> 0 < so_errors s)"

definition cset_eq :: "solver \<Rightarrow> solver \<Rightarrow> bool" where
  "cset_eq s t \<longleftrightarrow>
     (\<forall>n. ns_changeset_processed (so_name t n) = ns_changeset_processed (so_name s n)) \<and>
     (\<forall>a. ps_in_changeset (so_pkg t a) = ps_in_changeset (so_pkg s a)) \<and>
     so_changeset t = so_changeset s \<and> so_ignore_conflict t = so_ignore_conflict s"

definition sel_ext :: "solver \<Rightarrow> solver \<Rightarrow> bool" where
  "sel_ext s t \<longleftrightarrow>
     (\<forall>n. ns_locked (so_name s n) \<longrightarrow> ns_locked (so_name t n) \<and> ns_chosen (so_name t n) = ns_chosen (so_name s n)) \<and>
     (\<forall>n. unresolved_hashed n s \<longrightarrow> unresolved_hashed n t \<or> ns_locked (so_name t n)) \<and>
     so_errors s \<le> so_errors t \<and> (err_ok s \<longrightarrow> err_ok t) \<and> (conf_ok s \<longrightarrow> conf_ok t) \<and>
     sel_anti s t \<and> cset_eq s t"

interpretation se: extension sel_ext
proof (unfold_locales, goal_cases)
  case (2 s t u)
  then show ?case
    by (auto simp: sel_ext_def sel_anti_def cset_eq_def)
qed (simp add: sel_ext_def sel_anti_def cset_eq_def)

lemma prop_sel: "prop_ext s t \<Longrightarrow> sel_ext s t"
  by (auto simp: prop_ext_def sel_ext_def core_eq_def queue_mono_def ncore_def pcore_def err_ok_def cset_eq_def)

lemma sel_mark_error: "sel_ext s (mark_error p s)"
  by (auto simp: mark_error_def sel_ext_def err_ok_def conf_ok_def sel_anti_def cset_eq_def unresolved_hashed_def
      split: option.splits)

text \<open>The assignment of a free name, up to the propagation that follows.\<close>

definition lock_name :: "bytes \<Rightarrow> provider \<Rightarrow> solver \<Rightarrow> solver" where
  "lock_name n p s =
     (let s = unqueue n (upd_name n (\<lambda>x. x\<lparr>ns_locked := True, ns_chosen := p\<rparr>) s)
      in s\<lparr>so_dirty := remove1 n (so_dirty s)\<rparr>)"

lemma lock_name_fields [simp]:
  "so_name (lock_name n p s) = (so_name s)(n := (so_name s n)\<lparr>ns_locked := True, ns_chosen := p\<rparr>)"
  "so_pkg (lock_name n p s) = so_pkg s" "so_errors (lock_name n p s) = so_errors s"
  "so_changeset (lock_name n p s) = so_changeset s"
  "so_ignore_conflict (lock_name n p s) = so_ignore_conflict s"
  by (simp_all add: lock_name_def upd_name_def)

lemma lock_hashed: "unresolved_hashed m s \<Longrightarrow> unresolved_hashed m (lock_name n p s) \<or> m = n"
  using unqueue_hashed [of m s n]
  by (auto simp: lock_name_def unresolved_hashed_def unqueue_def)

lemma assign_free:
  assumes "\<not> ns_locked (so_name s n)"
  shows "prop_ext (lock_name n p s) (assign_name db n p s)"
proof -
  have iif: "prop_ext s (fold (\<lambda>d s. if ns_locked (so_name s (dname d)) then s else apply_constraint db (Some a) d s) ds s)"
    for a ds s by (rule pe.fold_ext) (simp add: pe.refl prop_apply_constraint)
  have dis: "prop_ext s (fold (\<lambda>(b, v) s. if c b v then s else disqualify_package db b s) ps s)" for c ps s
    by (rule pe.fold_ext) (auto simp: pe.refl req_prop [OF req_disqualify])
  show ?thesis
    using assms unfolding assign_name_def Let_def lock_name_def
    by (auto split: option.splits
        intro!: pe.refl pe.trans [OF _ req_prop [OF req_reverse_deps]] pe.trans [OF _ req_prop [OF req_reverse_installif]]
          pe.trans [OF _ req_prop [OF req_reverse_installif_pkg]] pe.trans [OF _ dis] pe.trans [OF _ iif])
qed

lemma sel_lock: "\<not> ns_locked (so_name s n) \<Longrightarrow> sel_ext s (lock_name n p s)"
  by (auto simp: sel_ext_def err_ok_def conf_ok_def sel_anti_def cset_eq_def dest: lock_hashed)

lemma sel_assign: "sel_ext s (assign_name db n p s)"
proof (cases "ns_locked (so_name s n)")
  case True
  then show ?thesis
    by (auto simp: assign_name_def Let_def intro: se.refl se.trans [OF sel_mark_error sel_mark_error])
next
  case False
  then show ?thesis by (auto intro: se.trans [OF sel_lock prop_sel] assign_free)
qed

lemma sel_select: "sel_ext s (select_package db n s)"
proof -
  have e: "sel_ext s (s\<lparr>so_errors := Suc (so_errors s)\<rparr>)" for s
    by (auto simp: sel_ext_def err_ok_def conf_ok_def sel_anti_def cset_eq_def unresolved_hashed_def)
  show ?thesis
    unfolding select_package_def Let_def
    by (auto split: option.splits prod.splits
        intro!: se.trans [OF _ se.fold_ext] prop_sel [OF prop_apply_constraint] sel_assign sel_mark_error se.refl
          se.trans [OF sel_assign e])
qed

text \<open>A name that is taken from the queue loses its place there, and nothing else changes.\<close>

lemma dequeue_fields:
  assumes "dequeue_next_name s = Some (n, t)"
  shows "so_name t = so_name s" "so_pkg t = so_pkg s" "so_errors t = so_errors s"
    "so_changeset t = so_changeset s" "so_ignore_conflict t = so_ignore_conflict s"
    "unresolved_hashed m s \<Longrightarrow> m = n \<or> unresolved_hashed m t" "so_dirty t = so_dirty s"
  using assms by (auto simp: dequeue_next_name_def unresolved_hashed_def split: list.splits)

end
