(* ===== verification/Solver_Sound.thy ===== *)
theory Solver_Sound
  imports Solver_Frame
begin

text \<open>
  The invariant of the resolution loop: what holds between the chosen providers, the constraints that
  were applied and the count of errors.
\<close>

section \<open>The database\<close>

text \<open>
  The providers of a name are the packages that give it, every package has a version, and a package
  knows its own address.
\<close>

definition db_ok :: "solver_db \<Rightarrow> bool" where
  "db_ok db \<longleftrightarrow>
     (\<forall>n a v. (a, v) \<in> set (sd_providers db n) \<longrightarrow>
        (n, v) \<in> set (gives db a) \<and> (\<forall>(m, w) \<in> set (gives db a). (a, w) \<in> set (sd_providers db m)) \<and>
        pkg_version (sd_pkg db a) \<noteq> None \<and> pkg_version (sd_pkg db a) \<noteq> Some []) \<and>
     (\<forall>a. pkg_addr (sd_pkg db a) = a)"

lemma db_okD:
  assumes "db_ok db" "(a, v) \<in> set (sd_providers db n)"
  shows "(n, v) \<in> set (gives db a)" "(m, w) \<in> set (gives db a) \<Longrightarrow> (a, w) \<in> set (sd_providers db m)"
    "the (pkg_version (sd_pkg db a)) \<noteq> []"
proof -
  from assms have *: "(n, v) \<in> set (gives db a)" "\<forall>(m, w) \<in> set (gives db a). (a, w) \<in> set (sd_providers db m)"
    "pkg_version (sd_pkg db a) \<noteq> None" "pkg_version (sd_pkg db a) \<noteq> Some []"
    unfolding db_ok_def by blast+
  show "(n, v) \<in> set (gives db a)" by (rule *(1))
  show "(m, w) \<in> set (gives db a) \<Longrightarrow> (a, w) \<in> set (sd_providers db m)" using *(2) by auto
  show "the (pkg_version (sd_pkg db a)) \<noteq> []" using *(3, 4) by (cases "pkg_version (sd_pkg db a)") auto
qed

lemma own_name_given: "(pname db a, the (pkg_version (sd_pkg db a))) \<in> set (gives db a)"
  by (simp add: gives_def)

text \<open>Only the version decides about a provider that is not the depending package itself.\<close>

lemma is_provided_version:
  assumes "db_ok db" "dep_op d \<noteq> APK_DEPMASK_CHECKSUM" "p \<noteq> Some b" "p \<noteq> Some c"
  shows "is_provided db p d (Some b, v) = is_provided db p d (Some c, v)"
proof -
  have "pkg_addr (sd_pkg db x) = x" for x using assms(1) by (simp add: db_ok_def)
  with assms show ?thesis by (cases p) (auto simp: is_provided_def apk_dep_is_provided_def)
qed

lemma is_provided_none: "is_provided db p d (None, v) \<longleftrightarrow> apk_dep_conflict d"
  by (simp add: is_provided_def apk_dep_is_provided_def)

section \<open>Constraints\<close>

text \<open>Every provider that does not satisfy the dependency is out of the choice.\<close>

definition constrained :: "solver_db \<Rightarrow> solver \<Rightarrow> nat option \<Rightarrow> apk_dependency \<Rightarrow> bool" where
  "constrained db s p d \<longleftrightarrow>
     (\<forall>(b, v) \<in> set (sd_providers db (dname d)).
        \<not> is_provided db p d (Some b, v) \<longrightarrow> \<not> ps_selectable (so_pkg s b))"

lemma constrained_mono: "sel_anti s t \<Longrightarrow> constrained db s p d \<Longrightarrow> constrained db t p d"
  by (auto simp: constrained_def sel_anti_def)

lemma constrain_provider_excludes:
  assumes "conf_ok s" "\<not> is_provided db p d (Some b, v)"
  shows "\<not> ps_selectable (so_pkg (constrain_provider db p d (b, v) s) b)"
  using assms disqualified [of db b] by (auto simp: constrain_provider_def Let_def conf_ok_def)

lemma constrain_fold_excludes:
  assumes "conf_ok s" "(b, v) \<in> set ps" "\<not> is_provided db p d (Some b, v)" "set ps \<subseteq> set (sd_providers db n)"
  shows "\<not> ps_selectable (so_pkg (fold (constrain_provider db p d) ps s) b)"
  using assms
proof (induction ps arbitrary: s)
  case (Cons q ps)
  let ?t = "constrain_provider db p d q s"
  have ext: "prop_ext s ?t" "prop_ext ?t (fold (constrain_provider db p d) ps ?t)"
    using Cons.prems(4) by (auto intro!: pe.fold_ext pr.constrain)
  show ?case
  proof (cases "q = (b, v)")
    case True
    with Cons.prems have "\<not> ps_selectable (so_pkg ?t b)" by (auto dest: constrain_provider_excludes)
    with ext(2) show ?thesis by (auto simp: prop_ext_def sel_anti_def)
  next
    case False
    with Cons ext(1) show ?thesis by (auto simp: prop_ext_def)
  qed
qed simp

lemma apply_constraint_excludes:
  assumes "conf_ok s" "\<not> (apk_dep_conflict d \<and> so_ignore_conflict s)"
  shows "constrained db (apply_constraint db p d s) p d"
proof -
  let ?s = "upd_name (dname d) (\<lambda>n. n\<lparr>ns_requirers := ns_requirers n + of_bool (\<not> apk_dep_conflict d)\<rparr>) s"
  have s: "conf_ok ?s" using assms(1) by (simp add: conf_ok_def)
  have "conf_ok (name_requirers_changed db (dname d) ?s)"
    using req_prop [OF req_requirers_changed, of ?s db "dname d"] s by (simp add: prop_ext_def)
  with s assms(2) show ?thesis
    by (auto simp: constrained_def apply_constraint_def Let_def dest: constrain_fold_excludes [OF _ _ _ order_refl])
qed

lemma apply_constraints_exclude:
  assumes "conf_ok s" "\<not> so_ignore_conflict s" "d \<in> set ds"
  shows "constrained db (fold (apply_constraint db p) ds s) p d"
  using assms
proof (induction ds arbitrary: s)
  case (Cons e ds)
  let ?t = "apply_constraint db p e s"
  have t: "conf_ok ?t" "\<not> so_ignore_conflict ?t"
    using prop_apply_constraint [of s db p e] Cons.prems by (auto simp: prop_ext_def core_eq_def)
  have "prop_ext ?t (fold (apply_constraint db p) ds ?t)"
    by (rule pe.fold_ext) (rule prop_apply_constraint)
  with Cons t show ?case
    by (auto simp: prop_ext_def intro: constrained_mono apply_constraint_excludes)
qed simp

section \<open>Assignments\<close>

definition selected :: "solver \<Rightarrow> nat \<Rightarrow> bool" where
  "selected s a \<longleftrightarrow> (\<exists>n v. ns_chosen (so_name s n) = (Some a, v))"

text \<open>Every name of the package is bound to it, or is shared by providers without a version.\<close>

definition given :: "solver \<Rightarrow> nat \<Rightarrow> bytes \<times> bytes \<Rightarrow> bool" where
  "given s a nv =
     (case nv of (n, v) \<Rightarrow>
       ns_locked (so_name s n) \<and>
       (ns_chosen (so_name s n) = (Some a, v) \<or> (v = [] \<and> snd (ns_chosen (so_name s n)) = [])))"

lemma given_mono: "given s a nv \<Longrightarrow> sel_ext s t \<Longrightarrow> given t a nv"
  by (auto simp: given_def sel_ext_def split: prod.splits)

lemma mark_error_errors: "err_ok s \<Longrightarrow> 0 < so_errors (mark_error (Some a) s)"
  by (auto simp: mark_error_def err_ok_def)

lemma assign_chosen:
  "ns_chosen (so_name (assign_name db n p s) m) =
     (if m = n \<and> \<not> ns_locked (so_name s n) then p else ns_chosen (so_name s m))"
  "ns_locked (so_name (assign_name db n p s) m) = (m = n \<or> ns_locked (so_name s m))"
proof -
  have "so_name (assign_name db n p s) = so_name s" if "ns_locked (so_name s n)"
    using that by (auto simp: assign_name_def Let_def mark_error_def split: option.splits)
  then show "ns_chosen (so_name (assign_name db n p s) m) =
      (if m = n \<and> \<not> ns_locked (so_name s n) then p else ns_chosen (so_name s m))"
    "ns_locked (so_name (assign_name db n p s) m) = (m = n \<or> ns_locked (so_name s m))"
    using assign_free [of s n p db]
    by (cases "ns_locked (so_name s n)"; auto simp: prop_ext_def core_eq_def ncore_def)+
qed

lemma assign_given:
  assumes "err_ok s" "\<not> so_ignore_conflict s" "so_errors (assign_name db n (Some a, v) s) = 0"
  shows "given (assign_name db n (Some a, v) s) a (n, v)"
proof (cases "ns_locked (so_name s n)")
  case True
  have e: "0 < so_errors (mark_error q (mark_error (Some a) s))" for q
    using mark_error_errors [OF assms(1), of a] sel_mark_error [of "mark_error (Some a) s" q]
    by (auto simp: sel_ext_def)
  from e [of "fst (ns_chosen (so_name s n))"] True assms have "v = [] \<and> snd (ns_chosen (so_name s n)) = []"
    by (auto simp: assign_name_def Let_def split: if_splits)
  with True show ?thesis by (simp add: given_def assign_chosen)
next
  case False
  then show ?thesis by (simp add: given_def assign_chosen)
qed

lemma sel_assigns: "sel_ext s (fold (\<lambda>(n, v). assign_name db n (Some a, v)) nvs s)"
  by (rule se.fold_ext) (auto intro: sel_assign)

lemma assigns_given:
  assumes "err_ok s" "\<not> so_ignore_conflict s"
    and "so_errors (fold (\<lambda>(n, v). assign_name db n (Some a, v)) nvs s) = 0" "nv \<in> set nvs"
  shows "given (fold (\<lambda>(n, v). assign_name db n (Some a, v)) nvs s) a nv"
  using assms
proof (induction nvs arbitrary: s)
  case (Cons mw nvs)
  obtain m w where mw: "mw = (m, w)" by (cases mw)
  let ?t = "assign_name db m (Some a, w) s"
  have st: "sel_ext s ?t" and tu: "sel_ext ?t (fold (\<lambda>(n, v). assign_name db n (Some a, v)) nvs ?t)"
    by (rule sel_assign, rule sel_assigns)
  from st Cons.prems have t: "err_ok ?t" "\<not> so_ignore_conflict ?t" by (auto simp: sel_ext_def cset_eq_def)
  from tu Cons.prems mw have "so_errors ?t = 0" by (auto simp: sel_ext_def)
  then have "given ?t a (m, w)" using Cons.prems by (auto intro: assign_given)
  with tu Cons t mw show ?case by (auto intro: given_mono)
qed simp

text \<open>What the assignments of one package add to the choices.\<close>

lemma assigns_chosen:
  assumes "ns_chosen (so_name (fold (\<lambda>(n, v). assign_name db n (Some a, v)) nvs s) m) = (Some b, w)"
  shows "ns_chosen (so_name s m) = (Some b, w) \<or> (b = a \<and> (m, w) \<in> set nvs)"
  using assms
proof (induction nvs arbitrary: s)
  case (Cons nv nvs)
  then show ?case by (cases nv) (fastforce simp: assign_chosen split: if_splits)
qed simp

lemma assigns_free:
  assumes "\<not> ns_locked (so_name (fold (\<lambda>(n, v). assign_name db n (Some a, v)) nvs s) m)"
  shows "\<not> ns_locked (so_name s m)"
    "ns_chosen (so_name (fold (\<lambda>(n, v). assign_name db n (Some a, v)) nvs s) m) = ns_chosen (so_name s m)"
    "\<forall>w. (m, w) \<notin> set nvs"
proof -
  have "\<not> ns_locked (so_name s m) \<and>
      ns_chosen (so_name (fold (\<lambda>(n, v). assign_name db n (Some a, v)) nvs s) m) = ns_chosen (so_name s m) \<and>
      (\<forall>w. (m, w) \<notin> set nvs)"
    using assms
  proof (induction nvs arbitrary: s)
    case (Cons nv nvs)
    then show ?case by (cases nv) (fastforce simp: assign_chosen split: if_splits)
  qed simp
  then show "\<not> ns_locked (so_name s m)"
    "ns_chosen (so_name (fold (\<lambda>(n, v). assign_name db n (Some a, v)) nvs s) m) = ns_chosen (so_name s m)"
    "\<forall>w. (m, w) \<notin> set nvs" by blast+
qed

section \<open>The choice\<close>

lemma consider_candidates_provider:
  assumes "fst (fold (consider_candidate db n s) ps c) = Some a"
  shows "fst c = Some a \<or> (\<exists>v. (a, v) \<in> set ps)"
  using assms
proof (induction ps arbitrary: c)
  case (Cons p ps)
  have "fst (consider_candidate db n s p c) = Some a \<Longrightarrow> fst c = Some a \<or> fst p = a"
    by (auto simp: consider_candidate_def split: prod.splits if_splits)
  with Cons show ?case by (cases p) fastforce
qed simp

lemma select_provider_provides:
  "fst (select_provider db n s) = Some a \<Longrightarrow> \<exists>v. (a, v) \<in> set (sd_providers db n)"
  using consider_candidates_provider [of db n s "sd_providers db n" provider_none a]
  by (auto simp: select_provider_def provider_none_def split: if_splits)

section \<open>The invariant\<close>

text \<open>The dependencies whose provider is decided by a version.\<close>

definition by_version :: "apk_dependency \<Rightarrow> bool" where
  "by_version d \<longleftrightarrow> dep_op d \<noteq> APK_DEPMASK_CHECKSUM"

text \<open>
  A dependency of one selected package, seen at another selected package that gives the name: it is
  satisfied, or the provider chosen for the name does not satisfy it, or the name has none.
\<close>

definition dep_settled :: "solver_db \<Rightarrow> solver \<Rightarrow> nat \<Rightarrow> apk_dependency \<Rightarrow> nat \<Rightarrow> bytes \<Rightarrow> bool" where
  "dep_settled db s a d b w \<longleftrightarrow>
     is_provided db (Some a) d (Some b, w) \<or> \<not> is_provided db (Some a) d (ns_chosen (so_name s (dname d))) \<or>
     fst (ns_chosen (so_name s (dname d))) = None"

definition basic_inv :: "solver_db \<Rightarrow> solver \<Rightarrow> bool" where
  "basic_inv db s \<longleftrightarrow>
     err_ok s \<and> conf_ok s \<and> \<not> so_ignore_conflict s \<and>
     (\<forall>n. \<not> ns_locked (so_name s n) \<longrightarrow> ns_chosen (so_name s n) = provider_none) \<and>
     (\<forall>n a v. ns_chosen (so_name s n) = (Some a, v) \<longrightarrow> (n, v) \<in> set (gives db a) \<and> (a, v) \<in> set (sd_providers db n)) \<and>
     (\<forall>a. selected s a \<longrightarrow> (\<forall>d \<in> set (pkg_depends (sd_pkg db a)). constrained db s (Some a) d))"

definition sound_inv :: "solver_db \<Rightarrow> apk_dependency set \<Rightarrow> solver \<Rightarrow> bool" where
  "sound_inv db ws s \<longleftrightarrow>
     (\<forall>a. selected s a \<longrightarrow> (\<forall>nv \<in> set (gives db a). given s a nv)) \<and>
     (\<forall>b. selected s b \<longrightarrow> (\<forall>d \<in> ws. \<forall>w. (dname d, w) \<in> set (gives db b) \<longrightarrow> is_provided db None d (Some b, w))) \<and>
     (\<forall>a b. selected s a \<longrightarrow> selected s b \<longrightarrow>
        (\<forall>d \<in> set (pkg_depends (sd_pkg db a)). \<forall>w. by_version d \<longrightarrow> (dname d, w) \<in> set (gives db b) \<longrightarrow>
           dep_settled db s a d b w))"

definition solve_inv :: "solver_db \<Rightarrow> apk_dependency set \<Rightarrow> solver \<Rightarrow> bool" where
  "solve_inv db ws s \<longleftrightarrow>
     basic_inv db s \<and> (\<forall>d \<in> ws. constrained db s None d) \<and> (so_errors s = 0 \<longrightarrow> sound_inv db ws s)"

lemma prop_chosen: "prop_ext s t \<Longrightarrow> ns_chosen (so_name t n) = ns_chosen (so_name s n)"
  "prop_ext s t \<Longrightarrow> ns_locked (so_name t n) = ns_locked (so_name s n)"
  "prop_ext s t \<Longrightarrow> so_errors t = so_errors s"
  by (simp_all add: prop_ext_def core_eq_def ncore_def)

lemma prop_selected: "prop_ext s t \<Longrightarrow> selected t a = selected s a"
  by (simp add: selected_def prop_chosen)

lemma prop_basic:
  assumes "prop_ext s t" "basic_inv db s"
  shows "basic_inv db t"
proof -
  have "err_ok t" "conf_ok t" "\<not> so_ignore_conflict t" "sel_anti s t"
    using assms by (auto simp: prop_ext_def basic_inv_def core_eq_def err_ok_def pcore_def)
  with assms show ?thesis
    by (auto simp: basic_inv_def prop_chosen prop_selected intro: constrained_mono)
qed

lemma prop_sound: "prop_ext s t \<Longrightarrow> sound_inv db ws s \<Longrightarrow> sound_inv db ws t"
  by (simp add: sound_inv_def dep_settled_def given_def prop_chosen prop_selected)

lemma prop_solve_inv: "prop_ext s t \<Longrightarrow> solve_inv db ws s \<Longrightarrow> solve_inv db ws t"
  by (auto simp: solve_inv_def prop_chosen intro: prop_basic prop_sound constrained_mono)
    (auto simp: prop_ext_def intro: constrained_mono)

lemma solve_inv_dirty: "solve_inv db ws (s\<lparr>so_dirty := ns\<rparr>) = solve_inv db ws s"
  by (simp add: solve_inv_def basic_inv_def sound_inv_def err_ok_def conf_ok_def selected_def constrained_def
      given_def dep_settled_def)

lemma solve_inv_dequeue:
  assumes "dequeue_next_name s = Some (n, t)"
  shows "solve_inv db ws t = solve_inv db ws s"
  by (simp add: solve_inv_def basic_inv_def sound_inv_def err_ok_def conf_ok_def selected_def constrained_def
      given_def dep_settled_def dequeue_fields [OF assms])

section \<open>The steps keep the invariant\<close>

text \<open>
  Selecting package \<open>a\<close>: the state \<open>t\<close> with its names assigned and its dependencies applied, after \<open>s\<close>.
\<close>

definition assign_all :: "solver_db \<Rightarrow> nat \<Rightarrow> solver \<Rightarrow> solver" where
  "assign_all db a s = fold (\<lambda>(n, v). assign_name db n (Some a, v)) (gives db a) s"

definition take_package :: "solver_db \<Rightarrow> nat \<Rightarrow> solver \<Rightarrow> solver" where
  "take_package db a s = fold (apply_constraint db (Some a)) (pkg_depends (sd_pkg db a)) (assign_all db a s)"

lemma take_prop: "prop_ext (assign_all db a s) (take_package db a s)"
  unfolding take_package_def by (rule pe.fold_ext) (rule prop_apply_constraint)

lemma assign_all_sel: "sel_ext s (assign_all db a s)"
  unfolding assign_all_def by (rule sel_assigns)

lemma take_sel: "sel_ext s (take_package db a s)"
  by (rule se.trans [OF assign_all_sel prop_sel [OF take_prop]])

lemma take_chosen:
  "ns_chosen (so_name (take_package db a s) n) = (Some b, v) \<Longrightarrow>
     ns_chosen (so_name s n) = (Some b, v) \<or> (b = a \<and> (n, v) \<in> set (gives db a))"
  using assigns_chosen [of db a "gives db a" s n b v]
  by (simp add: prop_chosen(1) [OF take_prop] assign_all_def)

lemma take_selected: "selected (take_package db a s) b \<Longrightarrow> selected s b \<or> b = a"
  using take_chosen unfolding selected_def by blast

lemma take_constrained:
  assumes "conf_ok s" "\<not> so_ignore_conflict s" "d \<in> set (pkg_depends (sd_pkg db a))"
  shows "constrained db (take_package db a s) (Some a) d"
  using assms apply_constraints_exclude [of "assign_all db a s" d "pkg_depends (sd_pkg db a)" db "Some a"]
    assign_all_sel [of s db a]
  by (auto simp: take_package_def sel_ext_def cset_eq_def)

lemma take_basic:
  assumes ok: "db_ok db" and a: "(a, v0) \<in> set (sd_providers db n0)" and inv: "basic_inv db s"
  shows "basic_inv db (take_package db a s)"
proof -
  let ?t = "take_package db a s"
  have ext: "sel_ext s ?t" by (rule take_sel)
  have b: "err_ok ?t" "conf_ok ?t" "\<not> so_ignore_conflict ?t" "sel_anti s ?t"
    using ext inv by (auto simp: sel_ext_def basic_inv_def cset_eq_def)
  have free: "ns_chosen (so_name ?t n) = provider_none" if "\<not> ns_locked (so_name ?t n)" for n
    using assigns_free [of db a "gives db a" s n] that inv
    by (auto simp: prop_chosen [OF take_prop] assign_all_def basic_inv_def)
  have chosen: "(n, v) \<in> set (gives db c) \<and> (c, v) \<in> set (sd_providers db n)"
    if "ns_chosen (so_name ?t n) = (Some c, v)" for n c v
    using take_chosen [OF that] inv db_okD(2) [OF ok a] by (auto simp: basic_inv_def)
  have "constrained db ?t (Some c) d" if c: "selected ?t c" "d \<in> set (pkg_depends (sd_pkg db c))" for c d
  proof (cases "selected s c")
    case True
    then show ?thesis using inv b(4) c(2) by (auto simp: basic_inv_def intro: constrained_mono)
  next
    case False
    then have "c = a" using take_selected [OF c(1)] by simp
    then show ?thesis using inv c(2) by (auto simp: basic_inv_def intro: take_constrained)
  qed
  with b free chosen show ?thesis unfolding basic_inv_def by blast
qed

lemma take_given:
  assumes "basic_inv db s" "so_errors (take_package db a s) = 0" "nv \<in> set (gives db a)"
  shows "given (take_package db a s) a nv"
proof -
  have "given (assign_all db a s) a nv"
    using assms assigns_given [of s db a "gives db a" nv]
    by (simp add: prop_chosen(3) [OF take_prop] assign_all_def basic_inv_def)
  then show ?thesis by (rule given_mono) (rule prop_sel [OF take_prop])
qed

text \<open>A selectable package satisfies every constraint that was applied to its names.\<close>

lemma constrained_provided:
  assumes "db_ok db" "(a, v0) \<in> set (sd_providers db n0)" "ps_selectable (so_pkg s a)"
    and "constrained db s p d" "(dname d, w) \<in> set (gives db a)"
  shows "is_provided db p d (Some a, w)"
  using assms db_okD(2) [OF assms(1, 2) assms(5)] by (auto simp: constrained_def)

lemma given_chosen_version: "given s b (n, w) \<Longrightarrow> snd (ns_chosen (so_name s n)) = w"
  by (auto simp: given_def)

lemma settled_by_version:
  assumes ok: "db_ok db" and d: "by_version d"
    and g: "given s b (dname d, w)"
    and c: "\<And>c v. ns_chosen (so_name s (dname d)) = (Some c, v) \<Longrightarrow> a \<noteq> c \<or> a = b"
  shows "dep_settled db s a d b w"
proof (cases "ns_chosen (so_name s (dname d))")
  case (Pair p v)
  have v: "v = w" using given_chosen_version [OF g] Pair by simp
  show ?thesis
  proof (cases p)
    case None
    then show ?thesis using Pair by (simp add: dep_settled_def)
  next
    case (Some e)
    have "is_provided db (Some a) d (Some e, w) \<longrightarrow> is_provided db (Some a) d (Some b, w)"
    proof (cases "apk_dep_conflict d \<and> a = b")
      case True
      have "pkg_addr (sd_pkg db x) = x" for x using ok by (simp add: db_ok_def)
      with True show ?thesis by (simp add: is_provided_def apk_dep_is_provided_def)
    next
      case False
      then show ?thesis
        using is_provided_version [OF ok, of d "Some a" e b w] c [of e v] d Pair Some
        by (auto simp: by_version_def is_provided_def apk_dep_is_provided_def)
    qed
    then show ?thesis using Pair Some v by (auto simp: dep_settled_def)
  qed
qed

lemma dep_settled_mono:
  assumes "dep_settled db s a d b w" "given s b (dname d, w)" "sel_ext s t"
  shows "dep_settled db t a d b w"
proof -
  have "ns_chosen (so_name t (dname d)) = ns_chosen (so_name s (dname d))"
    using assms(2, 3) by (auto simp: given_def sel_ext_def)
  with assms(1) show ?thesis by (simp add: dep_settled_def)
qed

lemma take_settled:
  assumes ok: "db_ok db" and a: "(a, v0) \<in> set (sd_providers db n0)" and sel: "ps_selectable (so_pkg s a)"
    and basic: "basic_inv db s" and sound: "sound_inv db ws s" and e: "so_errors (take_package db a s) = 0"
    and b: "selected (take_package db a s) b" and c: "selected (take_package db a s) c"
    and d: "d \<in> set (pkg_depends (sd_pkg db b))" "by_version d" "(dname d, w) \<in> set (gives db c)"
  shows "dep_settled db (take_package db a s) b d c w"
proof -
  let ?t = "take_package db a s"
  have ext: "sel_ext s ?t" by (rule take_sel)
  consider "selected s b" "selected s c" | "selected s b" "c = a" | "\<not> selected s b" "b = a" "selected s c"
    | "b = a" "c = a"
    using take_selected [OF b] take_selected [OF c] by blast
  then show ?thesis
  proof cases
    case 1
    then have "dep_settled db s b d c w" "given s c (dname d, w)" using sound d unfolding sound_inv_def by blast+
    then show ?thesis using ext by (rule dep_settled_mono)
  next
    case 2
    then have "constrained db s (Some b) d" using basic d(1) unfolding basic_inv_def by blast
    then have "is_provided db (Some b) d (Some c, w)"
      using 2 constrained_provided [OF ok a sel] d(3) by blast
    then show ?thesis by (simp add: dep_settled_def)
  next
    case 3
    then have g: "given s c (dname d, w)" using sound d(3) unfolding sound_inv_def by blast
    have "dep_settled db s b d c w"
      using ok d(2) g
    proof (rule settled_by_version)
      fix e v assume "ns_chosen (so_name s (dname d)) = (Some e, v)"
      then show "b \<noteq> e \<or> b = c" using 3 by (auto simp: selected_def)
    qed
    then show ?thesis using g ext by (rule dep_settled_mono)
  next
    case 4
    then have "given ?t c (dname d, w)" using take_given [OF basic e] d(3) by blast
    then show ?thesis by (rule settled_by_version [OF ok d(2)]) (simp add: 4)
  qed
qed

lemma take_sound:
  assumes ok: "db_ok db" and a: "(a, v0) \<in> set (sd_providers db n0)" and sel: "ps_selectable (so_pkg s a)"
    and inv: "solve_inv db ws s" and e: "so_errors (take_package db a s) = 0"
  shows "sound_inv db ws (take_package db a s)"
proof -
  let ?t = "take_package db a s"
  have ext: "sel_ext s ?t" by (rule take_sel)
  then have "so_errors s = 0" using e by (simp add: sel_ext_def)
  with inv have basic: "basic_inv db s" and world: "\<forall>d \<in> ws. constrained db s None d"
    and sound: "sound_inv db ws s" by (auto simp: solve_inv_def)
  have "given ?t b nv" if b: "selected ?t b" "nv \<in> set (gives db b)" for b nv
    using take_selected [OF b(1)] take_given [OF basic e] sound b(2) given_mono [OF _ ext]
    unfolding sound_inv_def by blast
  moreover have "is_provided db None d (Some b, w)"
    if b: "selected ?t b" "d \<in> ws" "(dname d, w) \<in> set (gives db b)" for b d w
    using take_selected [OF b(1)] constrained_provided [OF ok a sel] world sound b(2, 3)
    unfolding sound_inv_def by blast
  moreover note take_settled [OF ok a sel basic sound e]
  ultimately show ?thesis unfolding sound_inv_def by blast
qed

lemma mark_error_chosen [simp]: "so_name (mark_error p s) = so_name s"
  by (simp add: mark_error_def split: option.splits)

lemma mark_error_inv:
  assumes "solve_inv db ws s"
  shows "solve_inv db ws (mark_error (Some a) s)"
proof -
  let ?t = "mark_error (Some a) s"
  have ext: "sel_ext s ?t" by (rule sel_mark_error)
  then have b: "err_ok ?t" "conf_ok ?t" "\<not> so_ignore_conflict ?t" "sel_anti s ?t"
    using assms by (auto simp: sel_ext_def solve_inv_def basic_inv_def cset_eq_def)
  have "0 < so_errors ?t"
    using assms by (intro mark_error_errors) (simp add: solve_inv_def basic_inv_def)
  moreover have "selected ?t c = selected s c" for c by (simp add: selected_def)
  ultimately show ?thesis
    using b assms by (auto simp: solve_inv_def basic_inv_def intro: constrained_mono)
qed

lemma take_solve_inv:
  assumes ok: "db_ok db" and a: "(a, v0) \<in> set (sd_providers db n0)" and inv: "solve_inv db ws s"
    and sel: "ps_selectable (so_pkg s a) \<or> 0 < so_errors s"
  shows "solve_inv db ws (take_package db a s)"
proof -
  let ?t = "take_package db a s"
  have ext: "sel_ext s ?t" by (rule take_sel)
  have "basic_inv db ?t" using inv by (intro take_basic [OF ok a]) (simp add: solve_inv_def)
  moreover have "\<forall>d \<in> ws. constrained db ?t None d"
    using inv ext by (auto simp: solve_inv_def sel_ext_def intro: constrained_mono)
  moreover have "sound_inv db ws ?t" if "so_errors ?t = 0"
    using sel ext that by (intro take_sound [OF ok a _ inv]) (auto simp: sel_ext_def)
  ultimately show ?thesis by (simp add: solve_inv_def)
qed

lemma assign_none_inv:
  assumes inv: "solve_inv db ws s"
  shows "solve_inv db ws (assign_name db n provider_none s)"
proof -
  let ?t = "assign_name db n provider_none s"
  have ext: "sel_ext s ?t" by (rule sel_assign)
  have c: "ns_chosen (so_name ?t m) = ns_chosen (so_name s m)" for m
    using inv by (auto simp: assign_chosen solve_inv_def basic_inv_def)
  have sel: "selected ?t b = selected s b" for b by (simp add: selected_def c)
  have b: "err_ok ?t" "conf_ok ?t" "\<not> so_ignore_conflict ?t" "sel_anti s ?t"
    using ext inv by (auto simp: sel_ext_def solve_inv_def basic_inv_def cset_eq_def)
  have "basic_inv db ?t"
    using inv b by (auto simp: solve_inv_def basic_inv_def sel c assign_chosen intro: constrained_mono)
  moreover have "sound_inv db ws ?t" if "so_errors ?t = 0"
  proof -
    have "sound_inv db ws s" using that ext inv by (auto simp: solve_inv_def sel_ext_def)
    then show ?thesis using given_mono [OF _ ext] by (simp add: sound_inv_def dep_settled_def sel c)
  qed
  ultimately show ?thesis using inv b(4) by (auto simp: solve_inv_def intro: constrained_mono)
qed

lemma solve_inv_errors: "solve_inv db ws s \<Longrightarrow> 0 < e \<Longrightarrow> solve_inv db ws (s\<lparr>so_errors := e\<rparr>)"
  by (simp add: solve_inv_def basic_inv_def err_ok_def conf_ok_def selected_def constrained_def)

lemma select_solve_inv:
  assumes ok: "db_ok db" and inv: "solve_inv db ws s"
  shows "solve_inv db ws (select_package db n s)"
proof (cases "fst (select_provider db n s)")
  case None
  then show ?thesis
    using assign_none_inv [OF inv] by (auto simp: select_package_def Let_def intro: solve_inv_errors)
next
  case (Some a)
  let ?u = "if \<not> ps_selectable (so_pkg s a) \<or> \<not> ps_tag_ok (so_pkg s a) then mark_error (Some a) s else s"
  obtain v0 where a: "(a, v0) \<in> set (sd_providers db n)" using select_provider_provides [OF Some] by blast
  have "solve_inv db ws ?u" using inv by (simp add: mark_error_inv)
  moreover have "ps_selectable (so_pkg ?u a) \<or> 0 < so_errors ?u"
    using mark_error_errors [of s a] inv by (simp add: solve_inv_def basic_inv_def)
  ultimately have "solve_inv db ws (take_package db a ?u)" by (rule take_solve_inv [OF ok a])
  moreover have "select_package db n s = take_package db a ?u"
    by (simp add: select_package_def Some Let_def take_package_def assign_all_def)
  ultimately show ?thesis by simp
qed

lemma step_solve_inv:
  assumes "db_ok db" "solve_inv db ws s" "solve_step db s = Some t"
  shows "solve_inv db ws t"
proof (cases "so_dirty s")
  case Nil
  with assms(3) obtain n u where "dequeue_next_name s = Some (n, u)" "t = select_package db n u"
    by (auto simp: solve_step_def split: option.splits)
  with assms(1, 2) show ?thesis by (simp add: select_solve_inv solve_inv_dequeue)
next
  case (Cons n ns)
  with assms have "t = reconsider_name db n (s\<lparr>so_dirty := ns\<rparr>)" by (simp add: solve_step_def)
  moreover have "solve_inv db ws (s\<lparr>so_dirty := ns\<rparr>)" using assms(2) by (simp add: solve_inv_dirty)
  ultimately show ?thesis using prop_solve_inv [OF prop_reconsider_name] by simp
qed

end
