(* ===== verification/Changeset_Sound.thy ===== *)
theory Changeset_Sound
  imports Solver_Sound
begin

text \<open>
  What the generation of the change set records. A package is marked as soon as it is handled and its
  change is recorded later; at the end of every function the packages that were newly marked are
  exactly those of the newly recorded changes. The locales \<open>removal\<close> and \<open>changes\<close> state what the two
  recursions promise to the functions between them.
\<close>

section \<open>Recorded changes\<close>

abbreviation changes_of :: "solver \<Rightarrow> apk_change list" where
  "changes_of s \<equiv> cs_changes (so_changeset s)"

abbreviation marked :: "solver \<Rightarrow> nat \<Rightarrow> bool" where
  "marked s a \<equiv> ps_in_changeset (so_pkg s a)"

abbreviation processed :: "solver \<Rightarrow> bytes \<Rightarrow> bool" where
  "processed s n \<equiv> ns_changeset_processed (so_name s n)"

abbreviation chosen_of :: "solver \<Rightarrow> bytes \<Rightarrow> provider" where
  "chosen_of s n \<equiv> ns_chosen (so_name s n)"

text \<open>The package a change is about: the new one, or the one that is removed.\<close>

definition subject :: "apk_change \<Rightarrow> nat" where
  "subject ch = (case ch_new_pkg ch of Some a \<Rightarrow> a | None \<Rightarrow> the (ch_old_pkg ch))"

definition grows :: "solver \<Rightarrow> apk_change list \<Rightarrow> solver \<Rightarrow> bool" where
  "grows s xs t \<longleftrightarrow>
     changes_of t = changes_of s @ xs \<and> (\<forall>a. marked t a \<longleftrightarrow> marked s a \<or> a \<in> subject ` set xs) \<and>
     distinct (map subject xs) \<and> (\<forall>ch \<in> set xs. \<not> marked s (subject ch))"

lemma grows_refl: "changes_of t = changes_of s \<Longrightarrow> (\<And>a. marked t a = marked s a) \<Longrightarrow> grows s [] t"
  by (simp add: grows_def)

lemma grows_trans: "grows s xs t \<Longrightarrow> grows t ys u \<Longrightarrow> grows s (xs @ ys) u"
  by (auto simp: grows_def) (metis imageI)

lemma grows_record:
  assumes "\<not> marked s a" "changes_of t = changes_of s" "\<And>b. marked t b \<longleftrightarrow> marked s b \<or> b = a"
    and "grows t xs u"
    and "changes_of v = changes_of u @ [ch]" "\<And>b. marked v b = marked u b" "subject ch = a"
  shows "grows s (xs @ [ch]) v"
  using assms by (auto simp: grows_def)

text \<open>A package that keeps a provider of its own name is never removed.\<close>

definition kept :: "solver_db \<Rightarrow> solver \<Rightarrow> nat \<Rightarrow> bool" where
  "kept db s a \<longleftrightarrow> (\<exists>c. fst (chosen_of s (pname db a)) = Some c \<and> pname db c = pname db a)"

definition removal_ok :: "solver_db \<Rightarrow> solver \<Rightarrow> apk_change \<Rightarrow> bool" where
  "removal_ok db s ch \<longleftrightarrow> (\<exists>a. ch_old_pkg ch = Some a \<and> ch_new_pkg ch = None \<and> \<not> kept db s a)"

section \<open>Removals\<close>

definition rm_ext :: "solver_db \<Rightarrow> solver \<Rightarrow> solver \<Rightarrow> bool" where
  "rm_ext db s t \<longleftrightarrow>
     (\<forall>n. chosen_of t n = chosen_of s n \<and> processed t n = processed s n \<and>
        ns_installed_pkg (so_name t n) = ns_installed_pkg (so_name s n)) \<and>
     (\<forall>a. ps_error (so_pkg t a) = ps_error (so_pkg s a)) \<and>
     so_errors t = so_errors s \<and> so_ignore_conflict t = so_ignore_conflict s \<and>
     (\<exists>xs. grows s xs t \<and> (\<forall>ch \<in> set xs. removal_ok db s ch))"

lemma rm_ext_grow: "rm_ext db s t \<Longrightarrow> \<exists>xs. grows s xs t \<and> (\<forall>ch \<in> set xs. removal_ok db s ch)"
  by (simp add: rm_ext_def)

lemma removal_ok_chosen: "(\<And>n. chosen_of t n = chosen_of s n) \<Longrightarrow> removal_ok db t ch = removal_ok db s ch"
  by (simp add: removal_ok_def kept_def)

interpretation rme: extension "rm_ext db" for db
proof (unfold_locales, goal_cases)
  case (1 s)
  have "grows s [] s" by (rule grows_refl) simp_all
  then show ?case by (auto simp: rm_ext_def intro!: exI [of _ "[]"])
next
  case (2 s t u)
  then obtain xs ys where "grows s xs t" "grows t ys u"
    and ok: "\<forall>ch \<in> set xs. removal_ok db s ch" "\<forall>ch \<in> set ys. removal_ok db t ch"
    by (blast dest: rm_ext_grow)
  then have "grows s (xs @ ys) u" by (blast intro: grows_trans)
  moreover have "removal_ok db t ch = removal_ok db s ch" for ch
    using 2(1) by (intro removal_ok_chosen) (simp add: rm_ext_def)
  ultimately have "\<exists>zs. grows s zs u \<and> (\<forall>ch \<in> set zs. removal_ok db s ch)"
    using ok by (intro exI [of _ "xs @ ys"]) auto
  with 2 show ?case by (simp add: rm_ext_def)
qed

text \<open>Updates that touch none of the fields.\<close>

definition nrm :: "name_state \<Rightarrow> provider \<times> bool \<times> nat option" where
  "nrm n = (ns_chosen n, ns_changeset_processed n, ns_installed_pkg n)"

lemma rm_ext_upd_name:
  assumes "nrm (f (so_name s n)) = nrm (so_name s n)"
  shows "rm_ext db s (upd_name n f s)"
proof -
  have "grows s [] (upd_name n f s)" by (rule grows_refl) simp_all
  with assms show ?thesis by (auto simp: rm_ext_def nrm_def intro!: exI [of _ "[]"])
qed

locale removal =
  fixes rm :: "nat \<Rightarrow> solver \<Rightarrow> solver option" and db :: solver_db
  assumes rm_extends: "rm a s = Some t \<Longrightarrow> rm_ext db s t"
    and rm_marks: "rm a s = Some t \<Longrightarrow> marked t a \<or> kept db s a"
begin

lemma track_deps_removed:
  assumes "cset_track_deps_removed rm db a s = Some t"
  shows "rm_ext db s t"
proof -
  have u: "rm_ext db s (upd_name m (\<lambda>n. n\<lparr>ns_requirers := ns_requirers n - 1\<rparr>) s)" for m s
    by (simp add: rm_ext_upd_name nrm_def)
  show ?thesis
    using assms unfolding cset_track_deps_removed_def
    by (elim rme.foldM_ext [rotated])
      (auto simp: Let_def split: option.splits if_splits intro: rme.refl u rme.trans [OF u rm_extends])
qed

lemma check_removal_by_deps: "cset_check_removal_by_deps rm db a s = Some t \<Longrightarrow> rm_ext db s t"
  by (auto simp: cset_check_removal_by_deps_def Let_def split: if_splits intro: rm_extends rme.refl)

lemma check_removal_by_iif: "cset_check_removal_by_iif rm db n s = Some t \<Longrightarrow> rm_ext db s t"
  by (auto simp: cset_check_removal_by_iif_def Let_def split: option.splits if_splits
      intro: rme.refl check_removal_by_deps)

lemma reverse_iif_removal:
  "cset_check_by_reverse_iif db p (cset_check_removal_by_iif rm db) s = Some t \<Longrightarrow> rm_ext db s t"
  by (cases p)
    (auto simp: cset_check_by_reverse_iif_def split: prod.splits intro: rme.refl
      elim!: rme.foldM_ext [rotated] intro: check_removal_by_iif)

lemma rm_all: "foldM rm xs s = Some t \<Longrightarrow> rm_ext db s t"
  by (rule rme.foldM_ext) (rule rm_extends)

end

lemma record_change_fields [simp]:
  "so_name (record_change db o' n' s) = so_name s" "so_pkg (record_change db o' n' s) = so_pkg s"
  "so_errors (record_change db o' n' s) = so_errors s"
  "so_ignore_conflict (record_change db o' n' s) = so_ignore_conflict s"
  by (simp_all add: record_change_def Let_def)

lemma record_change_changes:
  "\<exists>ch. changes_of (record_change db o' n' s) = changes_of s @ [ch] \<and> ch_old_pkg ch = o' \<and> ch_new_pkg ch = n'"
  by (auto simp: record_change_def Let_def)

text \<open>One removal, from the promises of the nested calls.\<close>

lemma remove_step:
  assumes rm: "removal rm db"
    and free: "\<not> marked s a" "\<not> kept db s a"
    and u: "foldM rm (reverse_dependencies db a)
               (upd_pkg a (\<lambda>p. p\<lparr>ps_in_changeset := True\<rparr>)
                 (upd_name (pname db a) (\<lambda>n. n\<lparr>ns_changeset_removed := True\<rparr>) s)) = Some u"
    and v: "cset_check_by_reverse_iif db (Some a) (cset_check_removal_by_iif rm db) u = Some v"
    and t: "cset_track_deps_removed rm db a (record_change db (Some a) None v) = Some t"
  shows "rm_ext db s t \<and> marked t a"
proof -
  let ?s = "upd_pkg a (\<lambda>p. p\<lparr>ps_in_changeset := True\<rparr>) (upd_name (pname db a) (\<lambda>n. n\<lparr>ns_changeset_removed := True\<rparr>) s)"
  let ?r = "record_change db (Some a) None v"
  have sv: "rm_ext db ?s v"
    by (rule rme.trans [OF removal.rm_all [OF rm u] removal.reverse_iif_removal [OF rm v]])
  have rt: "rm_ext db ?r t" by (rule removal.track_deps_removed [OF rm t])
  obtain xs where xs: "grows ?s xs v" "\<forall>ch \<in> set xs. removal_ok db ?s ch" using rm_ext_grow [OF sv] by blast
  obtain ch where ch: "changes_of ?r = changes_of v @ [ch]" "ch_old_pkg ch = Some a" "ch_new_pkg ch = None"
    using record_change_changes [of db "Some a" None v] by blast
  have "grows s (xs @ [ch]) ?r"
    by (rule grows_record [OF free(1) _ _ xs(1) ch(1)]) (simp_all add: subject_def ch)
  moreover have "removal_ok db s ch" using free(2) ch by (simp add: removal_ok_def)
  moreover have "removal_ok db ?s ch = removal_ok db s ch" for ch by (rule removal_ok_chosen) simp
  then have "\<forall>ch \<in> set xs. removal_ok db s ch" using xs(2) by simp
  ultimately have "\<exists>ys. grows s ys ?r \<and> (\<forall>ch \<in> set ys. removal_ok db s ch)" by (intro exI [of _ "xs @ [ch]"]) auto
  then have sr: "rm_ext db s ?r" using sv by (simp add: rm_ext_def)
  have "marked v a" using xs(1) by (simp add: grows_def)
  then have "marked t a" using rm_ext_grow [OF rt] by (auto simp: grows_def)
  then show ?thesis using rme.trans [OF sr rt] by simp
qed

lemma removal_ok_rec: "removal (cset_gen_name_remove k db) db"
proof (induction k)
  case 0
  show ?case by unfold_locales simp_all
next
  case (Suc k)
  have "rm_ext db s t \<and> (marked t a \<or> kept db s a)" if "cset_gen_name_remove (Suc k) db a s = Some t" for a s t
  proof (cases "marked s a \<or> kept db s a")
    case True
    with that have "t = s" by (auto simp: Let_def kept_def)
    with True show ?thesis by (auto intro: rme.refl)
  next
    case False
    then have "\<not> (marked s a \<or> (case fst (chosen_of s (pname db a)) of None \<Rightarrow> False | Some c \<Rightarrow> pname db c = pname db a))"
      by (auto simp: kept_def split: option.splits)
    with that show ?thesis
      using remove_step [OF Suc.IH, of s a] False by (auto simp: Let_def bind_eq_Some_conv)
  qed
  then show ?case by unfold_locales blast+
qed

interpretation rmv: removal "cset_gen_name_remove k db" db for k db
  by (rule removal_ok_rec)

section \<open>Changes\<close>

text \<open>
  A recorded change: a removal, or a selected package in place of the installed one of its name,
  whose dependencies are met by the chosen providers unless an error was counted, and have been processed.
\<close>

definition dep_done :: "solver_db \<Rightarrow> solver \<Rightarrow> nat \<Rightarrow> apk_dependency \<Rightarrow> bool" where
  "dep_done db s a d \<longleftrightarrow>
     (apk_dep_conflict d \<and> so_ignore_conflict s) \<or>
     ((is_provided db (Some a) d (chosen_of s (dname d)) \<or> 0 < so_errors s) \<and> processed s (dname d))"

definition change_ok :: "solver_db \<Rightarrow> solver \<Rightarrow> apk_change \<Rightarrow> bool" where
  "change_ok db s ch \<longleftrightarrow>
     removal_ok db s ch \<or>
     (\<exists>a. ch_new_pkg ch = Some a \<and> ch_old_pkg ch = ns_installed_pkg (so_name s (pname db a)) \<and>
        selected s a \<and> (\<forall>d \<in> set (pkg_depends (sd_pkg db a)). dep_done db s a d))"

text \<open>A processed name has no provider or one in the change set, and its installed package is dealt with.\<close>

definition covered :: "solver_db \<Rightarrow> solver \<Rightarrow> bytes \<Rightarrow> bool" where
  "covered db s n \<longleftrightarrow>
     (fst (chosen_of s n) = None \<or> (\<exists>b v. selected s b \<and> marked s b \<and> (n, v) \<in> set (gives db b))) \<and>
     (\<forall>i. ns_installed_pkg (so_name s n) = Some i \<longrightarrow> pname db i = n \<longrightarrow> marked s i \<or> kept db s i)"

text \<open>Errors are counted, and a chosen package gives the name it was chosen for.\<close>

definition pre_ok :: "solver_db \<Rightarrow> solver \<Rightarrow> bool" where
  "pre_ok db s \<longleftrightarrow> err_ok s \<and> (\<forall>n a v. chosen_of s n = (Some a, v) \<longrightarrow> (n, v) \<in> set (gives db a))"

definition gen_ext :: "solver_db \<Rightarrow> solver \<Rightarrow> solver \<Rightarrow> bool" where
  "gen_ext db s t \<longleftrightarrow>
     (\<forall>n. chosen_of t n = chosen_of s n \<and> ns_installed_pkg (so_name t n) = ns_installed_pkg (so_name s n) \<and>
        (processed s n \<longrightarrow> processed t n)) \<and>
     so_errors s \<le> so_errors t \<and> so_ignore_conflict t = so_ignore_conflict s \<and> (pre_ok db s \<longrightarrow> pre_ok db t) \<and>
     (\<exists>xs. grows s xs t \<and> (pre_ok db s \<longrightarrow> (\<forall>ch \<in> set xs. change_ok db t ch))) \<and>
     (pre_ok db s \<longrightarrow> (\<forall>n. processed t n \<longrightarrow> processed s n \<or> covered db t n))"

lemma gen_extD:
  assumes "gen_ext db s t"
  shows "chosen_of t n = chosen_of s n" "ns_installed_pkg (so_name t n) = ns_installed_pkg (so_name s n)"
    "processed s n \<Longrightarrow> processed t n" "so_errors s \<le> so_errors t" "so_ignore_conflict t = so_ignore_conflict s"
    "pre_ok db s \<Longrightarrow> pre_ok db t" "marked s a \<Longrightarrow> marked t a" "selected t a = selected s a"
    "pre_ok db s \<Longrightarrow> processed t n \<Longrightarrow> processed s n \<or> covered db t n"
  using assms by (auto simp: gen_ext_def grows_def selected_def)

lemma gen_ext_grow:
  "gen_ext db s t \<Longrightarrow> \<exists>xs. grows s xs t \<and> (pre_ok db s \<longrightarrow> (\<forall>ch \<in> set xs. change_ok db t ch))"
  by (auto simp: gen_ext_def)

lemma dep_done_mono: "gen_ext db s t \<Longrightarrow> dep_done db s a d \<Longrightarrow> dep_done db t a d"
proof -
  assume *: "gen_ext db s t" "dep_done db s a d"
  have "so_errors s \<le> so_errors t" by (rule gen_extD(4) [OF *(1)])
  with *(2) show ?thesis
    using gen_extD(3) [OF *(1)] by (auto simp: dep_done_def gen_extD(1, 5) [OF *(1)])
qed

lemma change_ok_mono: "gen_ext db s t \<Longrightarrow> change_ok db s ch \<Longrightarrow> change_ok db t ch"
  unfolding change_ok_def removal_ok_def kept_def
  by (auto simp: gen_extD intro: dep_done_mono)

lemma covered_mono: "gen_ext db s t \<Longrightarrow> covered db s n \<Longrightarrow> covered db t n"
  unfolding covered_def kept_def by (auto simp: gen_extD)

interpretation gene: extension "gen_ext db" for db
proof (unfold_locales, goal_cases)
  case (1 s)
  have "grows s [] s" by (rule grows_refl) simp_all
  then show ?case by (auto simp: gen_ext_def intro!: exI [of _ "[]"])
next
  case (2 s t u)
  then obtain xs ys where g: "grows s xs t" "grows t ys u"
    and ok: "pre_ok db s \<Longrightarrow> \<forall>ch \<in> set xs. change_ok db t ch" "pre_ok db t \<Longrightarrow> \<forall>ch \<in> set ys. change_ok db u ch"
    by (blast dest: gen_ext_grow)
  have "\<exists>zs. grows s zs u \<and> (pre_ok db s \<longrightarrow> (\<forall>ch \<in> set zs. change_ok db u ch))"
    using grows_trans [OF g] ok gen_extD(6) [OF 2(1)] change_ok_mono [OF 2(2)]
    by (intro exI [of _ "xs @ ys"]) auto
  moreover have "processed s n \<or> covered db u n" if "pre_ok db s" "processed u n" for n
    using gen_extD(9) [OF 2(2)] gen_extD(6, 9) [OF 2(1)] covered_mono [OF 2(2)] that by blast
  moreover have "so_errors s \<le> so_errors u"
    using gen_extD(4) [OF 2(1)] gen_extD(4) [OF 2(2)] by simp
  moreover have "processed s n \<longrightarrow> processed u n" "pre_ok db s \<longrightarrow> pre_ok db u" for n
    using gen_extD(3, 6) [OF 2(1)] gen_extD(3, 6) [OF 2(2)] by blast+
  ultimately show ?case
    unfolding gen_ext_def
    by (simp add: gen_extD(1, 2, 5) [OF 2(2)] gen_extD(1, 2, 5) [OF 2(1)])
qed

lemma rm_gen: "rm_ext db s t \<Longrightarrow> gen_ext db s t"
proof -
  assume *: "rm_ext db s t"
  then obtain xs where xs: "grows s xs t" "\<forall>ch \<in> set xs. removal_ok db s ch" by (blast dest: rm_ext_grow)
  have "removal_ok db t ch = removal_ok db s ch" for ch
    using * by (intro removal_ok_chosen) (simp add: rm_ext_def)
  with xs have "\<exists>xs. grows s xs t \<and> (pre_ok db s \<longrightarrow> (\<forall>ch \<in> set xs. change_ok db t ch))"
    by (auto simp: change_ok_def)
  with * show ?thesis by (simp add: rm_ext_def gen_ext_def pre_ok_def err_ok_def)
qed

lemma gen_mark_error: "gen_ext db s (mark_error p s)"
proof -
  have "grows s [] (mark_error p s)" by (rule grows_refl) (simp_all add: mark_error_def split: option.splits)
  moreover have "sel_ext s (mark_error p s)" by (rule sel_mark_error)
  ultimately show ?thesis
    by (auto simp: gen_ext_def sel_ext_def cset_eq_def pre_ok_def intro!: exI [of _ "[]"])
qed

lemma rm_track_deps_added: "rm_ext db s (cset_track_deps_added db a s)"
  unfolding cset_track_deps_added_def
  by (rule rme.fold_ext) (auto split: option.splits intro!: rme.refl rm_ext_upd_name simp: nrm_def)

text \<open>Two steps that are not extensions by themselves: marking a name, and marking a package.\<close>

lemma gen_ext_processed:
  assumes st: "gen_ext db (upd_name n (\<lambda>x. x\<lparr>ns_changeset_processed := True\<rparr>) s) t"
    and cov: "pre_ok db s \<Longrightarrow> covered db t n"
  shows "gen_ext db s t \<and> processed t n"
proof -
  let ?s = "upd_name n (\<lambda>x. x\<lparr>ns_changeset_processed := True\<rparr>) s"
  have pre: "pre_ok db ?s = pre_ok db s" by (auto simp: pre_ok_def err_ok_def)
  have ch: "chosen_of t m = chosen_of s m" "ns_installed_pkg (so_name t m) = ns_installed_pkg (so_name s m)" for m
    using gen_extD(1, 2) [OF st, of m] by auto
  obtain xs where xs: "grows ?s xs t" "pre_ok db s \<Longrightarrow> \<forall>ch \<in> set xs. change_ok db t ch"
    using gen_ext_grow [OF st] pre by blast
  then have "\<exists>xs. grows s xs t \<and> (pre_ok db s \<longrightarrow> (\<forall>ch \<in> set xs. change_ok db t ch))"
    by (intro exI [of _ xs]) (auto simp: grows_def)
  moreover have "processed s m \<Longrightarrow> processed t m" for m using gen_extD(3) [OF st, of m] by auto
  moreover have "processed s m \<or> covered db t m" if "pre_ok db s" "processed t m" for m
    using gen_extD(9) [OF st, of m] cov that pre by (auto split: if_splits)
  moreover have "processed t n" using gen_extD(3) [OF st, of n] by simp
  ultimately show ?thesis
    unfolding gen_ext_def using gen_extD(4, 5, 6) [OF st] pre ch by simp
qed

lemma gen_record:
  assumes free: "\<not> marked s a" and uv: "gen_ext db (upd_pkg a (\<lambda>p. p\<lparr>ps_in_changeset := True\<rparr>) s) v"
    and old: "opkg = ns_installed_pkg (so_name s (pname db a))" and sel: "selected s a"
    and dep: "pre_ok db s \<Longrightarrow> \<forall>d \<in> set (pkg_depends (sd_pkg db a)). dep_done db v a d"
  shows "gen_ext db s (record_change db opkg (Some a) v)"
proof -
  let ?u = "upd_pkg a (\<lambda>p. p\<lparr>ps_in_changeset := True\<rparr>) s" and ?t = "record_change db opkg (Some a) v"
  have pre: "pre_ok db ?u = pre_ok db s" "pre_ok db ?t = pre_ok db v" by (auto simp: pre_ok_def err_ok_def)
  have cov: "covered db ?t n = covered db v n" and chg: "change_ok db ?t ch = change_ok db v ch" for n ch
    by (simp_all add: covered_def change_ok_def removal_ok_def kept_def selected_def dep_done_def)
  obtain xs where xs: "grows ?u xs v" "pre_ok db s \<Longrightarrow> \<forall>ch \<in> set xs. change_ok db v ch"
    using gen_ext_grow [OF uv] pre by blast
  obtain ch where ch: "changes_of ?t = changes_of v @ [ch]" "ch_old_pkg ch = opkg" "ch_new_pkg ch = Some a"
    using record_change_changes [of db opkg "Some a" v] by blast
  have "grows s (xs @ [ch]) ?t"
    by (rule grows_record [OF free _ _ xs(1) ch(1)]) (simp_all add: subject_def ch)
  moreover have "selected v a" using gen_extD(8) [OF uv, of a] sel by (simp add: selected_def)
  then have "pre_ok db s \<longrightarrow> change_ok db v ch"
    using dep ch old gen_extD(2) [OF uv, of "pname db a"] by (simp add: change_ok_def)
  ultimately have "\<exists>ys. grows s ys ?t \<and> (pre_ok db s \<longrightarrow> (\<forall>ch \<in> set ys. change_ok db ?t ch))"
    using xs(2) chg by (intro exI [of _ "xs @ [ch]"]) auto
  with uv show ?thesis unfolding gen_ext_def by (simp add: pre cov)
qed

context removal
begin

lemma preprocess_step:
  assumes "\<not> processed s n" "cset_gen_name_preprocess rm db n s = Some t"
  shows "rm_ext db (upd_name n (\<lambda>x. x\<lparr>ns_changeset_processed := True\<rparr>) s) t"
    and "ns_installed_pkg (so_name s n) = Some i \<Longrightarrow> pname db i = n \<Longrightarrow> marked t i \<or> kept db t i"
proof -
  let ?s = "upd_name n (\<lambda>x. x\<lparr>ns_changeset_processed := True\<rparr>) s"
  from assms obtain u where
    u: "(case ns_installed_pkg (so_name ?s n) of
           None \<Rightarrow> Some ?s
         | Some i \<Rightarrow> if (case fst (chosen_of ?s n) of None \<Rightarrow> True | Some c \<Rightarrow> pname db c \<noteq> n) then rm i ?s else Some ?s) = Some u"
    and t: "foldM (\<lambda>(b, v) s. let m = so_name s (pname db b) in
              if ns_installed_pkg m = Some b \<and> fst (ns_chosen m) = None then rm b s else Some s)
            (sd_providers db n) u = Some t"
    by (auto simp: cset_gen_name_preprocess_def Let_def bind_eq_Some_conv simp del: so_name_upd_name)
  have su: "rm_ext db ?s u"
    using u by (auto split: option.splits if_splits intro: rme.refl rm_extends)
  have ut: "rm_ext db u t"
    using t by (elim rme.foldM_ext [rotated]) (auto simp: Let_def split: if_splits intro: rme.refl rm_extends)
  show st: "rm_ext db ?s t" by (rule rme.trans [OF su ut])
  assume i: "ns_installed_pkg (so_name s n) = Some i" "pname db i = n"
  have k: "kept db ?s i = kept db t i" using st by (simp add: kept_def rm_ext_def)
  have "marked u i \<or> kept db ?s i"
    using u i rm_marks [of i ?s u] by (auto simp: kept_def split: option.splits if_splits)
  moreover have "marked u i \<Longrightarrow> marked t i" using rm_ext_grow [OF ut] by (auto simp: grows_def)
  ultimately show "marked t i \<or> kept db t i" using k by blast
qed

text \<open>The names that a package of the change set gives are covered by it.\<close>

lemma preprocess_given:
  assumes pre: "cset_gen_name_preprocess rm db n s = Some t"
    and b: "selected s b" "marked s b" "(n, v) \<in> set (gives db b)"
  shows "gen_ext db s t"
proof (cases "processed s n")
  case True
  with pre show ?thesis by (simp add: cset_gen_name_preprocess_def gene.refl)
next
  case False
  let ?s = "upd_name n (\<lambda>x. x\<lparr>ns_changeset_processed := True\<rparr>) s"
  note st = rm_gen [OF preprocess_step(1) [OF False pre]]
  have "selected ?s b" using b(1) by (auto simp: selected_def)
  then have "selected t b" "marked t b" using gen_extD(7, 8) [OF st, of b] b by simp_all
  moreover have "ns_installed_pkg (so_name t n) = ns_installed_pkg (so_name s n)"
    using gen_extD(2) [OF st, of n] by simp
  ultimately have "covered db t n"
    using b(3) preprocess_step(2) [OF False pre] by (auto simp: covered_def)
  then show ?thesis using gen_ext_processed [OF st] by simp
qed

lemma preprocess_all:
  assumes "foldM (\<lambda>(n, v). cset_gen_name_preprocess rm db n) nvs s = Some t"
    and "selected s b" "marked s b" "set nvs \<subseteq> set (gives db b)"
  shows "gen_ext db s t"
  using assms
proof (induction nvs arbitrary: s)
  case (Cons nv nvs)
  then obtain n v u where nv: "nv = (n, v)" and u: "cset_gen_name_preprocess rm db n s = Some u"
    "foldM (\<lambda>(n, v). cset_gen_name_preprocess rm db n) nvs u = Some t"
    by (cases nv) (auto simp: bind_eq_Some_conv)
  have su: "gen_ext db s u" using Cons.prems nv by (intro preprocess_given [OF u(1)]) auto
  then have "selected u b" "marked u b" using Cons.prems by (simp_all add: gen_extD)
  with Cons u(2) su show ?case by (auto intro: gene.trans)
qed (simp add: gene.refl)

end

locale changes = removal rm db for rm db +
  fixes gen :: "bytes \<Rightarrow> solver \<Rightarrow> solver option"
  assumes gen_extends: "gen n s = Some t \<Longrightarrow> gen_ext db s t"
    and gen_marks: "gen n s = Some t \<Longrightarrow> processed t n"
begin

lemma check_install_by_iif: "cset_check_install_by_iif gen db n s = Some t \<Longrightarrow> gen_ext db s t"
  by (auto simp: cset_check_install_by_iif_def Let_def split: option.splits if_splits intro: gene.refl gen_extends)

lemma reverse_iif_install:
  "cset_check_by_reverse_iif db p (cset_check_install_by_iif gen db) s = Some t \<Longrightarrow> gen_ext db s t"
  by (cases p)
    (auto simp: cset_check_by_reverse_iif_def split: prod.splits intro: gene.refl
      elim!: gene.foldM_ext [rotated] intro: check_install_by_iif)

lemma gen_dep:
  assumes "cset_gen_dep gen db p d s = Some t"
  shows "gen_ext db s t" and "p = Some a \<Longrightarrow> pre_ok db s \<Longrightarrow> dep_done db t a d"
proof -
  let ?c = "chosen_of s (dname d)"
  let ?s = "if is_provided db p d ?c then s else mark_error p s"
  have ss: "gen_ext db s ?s" by (simp add: gene.refl gen_mark_error)
  have "gen_ext db s t \<and> (p = Some a \<longrightarrow> pre_ok db s \<longrightarrow> dep_done db t a d)"
  proof (cases "apk_dep_conflict d \<and> so_ignore_conflict s")
    case True
    with assms show ?thesis by (simp add: cset_gen_dep_def Let_def gene.refl dep_done_def)
  next
    case False
    then obtain u where u: "gen (dname d) ?s = Some u"
      and t: "t = u \<or> t = mark_error p u"
      using assms by (fastforce simp: cset_gen_dep_def Let_def bind_eq_Some_conv split: option.splits if_splits)
    have su: "gen_ext db s u" by (rule gene.trans [OF ss gen_extends [OF u]])
    have ut: "gen_ext db u t" using t by (auto intro: gene.refl gen_mark_error)
    have "dep_done db u a d" if p: "p = Some a" "pre_ok db s"
    proof -
      have "is_provided db p d ?c \<or> 0 < so_errors ?s"
        using p mark_error_errors [of s a] by (simp add: pre_ok_def)
      then show ?thesis
        using gen_extD(4) [OF gen_extends [OF u]] gen_marks [OF u] p(1) gen_extD(1) [OF su, of "dname d"]
        by (auto simp: dep_done_def)
    qed
    then show ?thesis using gene.trans [OF su ut] dep_done_mono [OF ut] by blast
  qed
  then show "gen_ext db s t" and "p = Some a \<Longrightarrow> pre_ok db s \<Longrightarrow> dep_done db t a d" by blast+
qed

lemma gen_deps:
  assumes "foldM (cset_gen_dep gen db (Some a)) ds s = Some t"
  shows "gen_ext db s t" and "pre_ok db s \<Longrightarrow> d \<in> set ds \<Longrightarrow> dep_done db t a d"
proof -
  have "gen_ext db s t \<and> (pre_ok db s \<longrightarrow> (\<forall>d \<in> set ds. dep_done db t a d))"
    using assms
  proof (induction ds arbitrary: s)
    case (Cons d ds)
    then obtain u where u: "cset_gen_dep gen db (Some a) d s = Some u"
      and t: "foldM (cset_gen_dep gen db (Some a)) ds u = Some t" by (auto simp: bind_eq_Some_conv)
    have su: "gen_ext db s u" by (rule gen_dep(1) [OF u])
    from Cons.IH [OF t] have ut: "gen_ext db u t" and *: "pre_ok db u \<longrightarrow> (\<forall>d \<in> set ds. dep_done db t a d)"
      by blast+
    have "dep_done db t a d" if "pre_ok db s" by (rule dep_done_mono [OF ut gen_dep(2) [OF u _ that]]) simp
    then show ?case using gene.trans [OF su ut] * gen_extD(6) [OF su] by auto
  qed (simp add: gene.refl)
  then show "gen_ext db s t" and "pre_ok db s \<Longrightarrow> d \<in> set ds \<Longrightarrow> dep_done db t a d" by blast+
qed

end

context changes
begin

text \<open>The package chosen for a name, which is not in the change set yet.\<close>

lemma gen_package:
  assumes a: "\<not> marked s a" "selected s a"
    and u: "foldM (\<lambda>(n, v). cset_gen_name_preprocess rm db n) (gives db a)
              (upd_pkg a (\<lambda>p. p\<lparr>ps_in_changeset := True\<rparr>) s) = Some u"
    and v: "cset_check_by_reverse_iif db (ns_installed_pkg (so_name u (pname db a))) (cset_check_removal_by_iif rm db) u
              = Some v"
    and w: "foldM (cset_gen_dep gen db (Some a)) (pkg_depends (sd_pkg db a)) v = Some w"
    and x: "cset_check_by_reverse_iif db (Some a) (cset_check_install_by_iif gen db)
              (record_change db (ns_installed_pkg (so_name u (pname db a))) (Some a) w) = Some x"
    and t: "(case ns_installed_pkg (so_name u (pname db a)) of
               None \<Rightarrow> Some (cset_track_deps_added db a x)
             | Some i \<Rightarrow> cset_track_deps_removed rm db i (cset_track_deps_added db a x)) = Some t"
  shows "gen_ext db s t \<and> marked t a"
proof -
  let ?s = "upd_pkg a (\<lambda>p. p\<lparr>ps_in_changeset := True\<rparr>) s"
  let ?r = "record_change db (ns_installed_pkg (so_name u (pname db a))) (Some a) w"
  have "selected ?s a" using a(2) by (simp add: selected_def)
  then have su: "gen_ext db ?s u" by (intro preprocess_all [OF u, of a]) simp_all
  have uv: "gen_ext db u v" by (rule rm_gen [OF reverse_iif_removal [OF v]])
  note sv = gene.trans [OF su uv]
  have sw: "gen_ext db ?s w" by (rule gene.trans [OF sv gen_deps(1) [OF w]])
  have "pre_ok db ?s = pre_ok db s" by (auto simp: pre_ok_def err_ok_def)
  then have pre: "pre_ok db s \<Longrightarrow> pre_ok db v" using gen_extD(6) [OF sv] by simp
  have sr: "gen_ext db s ?r"
    using a(1) sw
  proof (rule gen_record)
    show "ns_installed_pkg (so_name u (pname db a)) = ns_installed_pkg (so_name s (pname db a))"
      using gen_extD(2) [OF su, of "pname db a"] by simp
    show "\<forall>d \<in> set (pkg_depends (sd_pkg db a)). dep_done db w a d" if "pre_ok db s"
      using gen_deps(2) [OF w pre [OF that]] by blast
  qed (rule a(2))
  have "rm_ext db (cset_track_deps_added db a x) t"
    using t by (auto split: option.splits intro: rme.refl track_deps_removed)
  then have xt: "gen_ext db x t" by (rule gene.trans [OF rm_gen [OF rm_track_deps_added] rm_gen])
  have rt: "gen_ext db ?r t" by (rule gene.trans [OF reverse_iif_install [OF x] xt])
  have "marked w a" using gen_extD(7) [OF sw, of a] by simp
  then have "marked t a" using gen_extD(7) [OF rt, of a] by simp
  then show ?thesis using gene.trans [OF sr rt] by simp
qed

end

context changes
begin

text \<open>A name that is processed for the first time, with its package handled by \<open>gen_package\<close>.\<close>

lemma gen_name:
  assumes n: "\<not> processed s n" and u: "cset_gen_name_preprocess rm db n s = Some u"
    and t: "\<And>a. fst (chosen_of u n) = Some a \<Longrightarrow> gen_ext db u t \<and> marked t a" "fst (chosen_of u n) = None \<Longrightarrow> t = u"
  shows "gen_ext db s t \<and> processed t n"
proof -
  let ?s = "upd_name n (\<lambda>x. x\<lparr>ns_changeset_processed := True\<rparr>) s"
  have ut: "gen_ext db u t" using t by (cases "fst (chosen_of u n)") (auto intro: gene.refl)
  have st: "gen_ext db ?s t" by (rule gene.trans [OF rm_gen [OF preprocess_step(1) [OF n u]] ut])
  have ch: "chosen_of t m = chosen_of s m" "ns_installed_pkg (so_name t n) = ns_installed_pkg (so_name s n)" for m
    using gen_extD(1, 2) [OF st, of m] gen_extD(2) [OF st, of n] by auto
  have k: "kept db t i = kept db u i" for i by (simp add: kept_def gen_extD(1) [OF ut])
  have "covered db t n" if pre: "pre_ok db s"
    unfolding covered_def
  proof (intro conjI allI impI)
    show "fst (chosen_of t n) = None \<or> (\<exists>b v. selected t b \<and> marked t b \<and> (n, v) \<in> set (gives db b))"
    proof (cases "chosen_of t n")
      case (Pair p v)
      show ?thesis
      proof (cases p)
        case (Some b)
        with Pair have "selected t b" "(n, v) \<in> set (gives db b)"
          using pre ch by (auto simp: pre_ok_def selected_def)
        moreover have "marked t b" using t(1) [of b] Pair Some by (simp add: gen_extD(1) [OF ut])
        ultimately show ?thesis by blast
      qed (simp add: Pair)
    qed
    fix i assume "ns_installed_pkg (so_name t n) = Some i" "pname db i = n"
    then have "marked u i \<or> kept db u i" using preprocess_step(2) [OF n u, of i] ch by simp
    then show "marked t i \<or> kept db t i" using k gen_extD(7) [OF ut] by blast
  qed
  then show ?thesis by (rule gen_ext_processed [OF st])
qed

end

lemma gen_change_step:
  assumes c: "changes rm db (cset_gen_name_change k rm db)" and t: "cset_gen_name_change (Suc k) rm db n s = Some t"
  shows "gen_ext db s t \<and> processed t n"
proof (cases "processed s n")
  case True
  with t show ?thesis by (simp add: gene.refl)
next
  case False
  with t obtain u where u: "cset_gen_name_preprocess rm db n s = Some u"
    by (auto simp: Let_def bind_eq_Some_conv)
  show ?thesis
    using c False u
  proof (rule changes.gen_name)
    show "t = u" if "fst (chosen_of u n) = None" using that t False u by (simp add: Let_def)
    show "gen_ext db u t \<and> marked t a" if a: "fst (chosen_of u n) = Some a" for a
    proof (cases "marked u a")
      case True
      with a t False u show ?thesis by (simp add: Let_def gene.refl)
    next
      case not_marked: False
      have "selected u a" using a by (cases "chosen_of u n") (auto simp: selected_def)
      then show ?thesis
        using changes.gen_package [OF c not_marked] t False u a not_marked
        by (auto simp: Let_def bind_eq_Some_conv)
    qed
  qed
qed

lemma changes_ok_rec: "removal rm db \<Longrightarrow> changes rm db (cset_gen_name_change k rm db)"
proof (induction k)
  case 0
  then show ?case by (intro changes.intro changes_axioms.intro) simp_all
next
  case (Suc k)
  then have "changes rm db (cset_gen_name_change k rm db)" by simp
  with Suc.prems show ?case
    by (intro changes.intro changes_axioms.intro) (auto dest: gen_change_step)
qed

interpretation chg: changes "cset_gen_name_remove k db" db "cset_gen_name_change k' (cset_gen_name_remove k db) db"
  for k k' db
  by (rule changes_ok_rec [OF removal_ok_rec])

end
