(* ===== verification/Solver_Result.thy ===== *)
theory Solver_Result
  imports Changeset_Sound
begin

text \<open>
  What the solver promises when it returns without errors: the new packages of the change set.
\<close>

section \<open>From a clean state to the end of the resolution\<close>

text \<open>The state before the solver runs, and after it has freed its records.\<close>

definition clean :: "solver \<Rightarrow> bool" where
  "clean s \<longleftrightarrow>
     (\<forall>n. \<not> ns_locked (so_name s n) \<and> chosen_of s n = provider_none \<and> ns_requirers (so_name s n) = 0 \<and> \<not> processed s n) \<and>
     (\<forall>a. \<not> ps_error (so_pkg s a) \<and> \<not> marked s a \<and> ps_conflicts (so_pkg s a) = 0)"

lemma free_all_clean: "clean (free_all s)"
  by (simp add: clean_def free_all_def free_name_def free_package_def name_state_zero_def pkg_state_zero_def
      provider_none_def)

definition disc_ext :: "solver \<Rightarrow> solver \<Rightarrow> bool" where
  "disc_ext s t \<longleftrightarrow>
     core_eq s t \<and> (\<forall>n. unresolved_hashed n t = unresolved_hashed n s) \<and>
     (\<forall>n. ns_requirers (so_name t n) = ns_requirers (so_name s n)) \<and>
     (\<forall>a. ps_conflicts (so_pkg t a) = ps_conflicts (so_pkg s a)) \<and> so_dirty t = so_dirty s"

interpretation disc: extension disc_ext
  by unfold_locales (auto simp: disc_ext_def core_eq_def)

lemma disc_upd:
  "ncore (f (so_name s n)) = ncore (so_name s n) \<Longrightarrow> ns_requirers (f (so_name s n)) = ns_requirers (so_name s n) \<Longrightarrow>
     disc_ext s (upd_name n f s)"
  "pcore (g (so_pkg s a)) = pcore (so_pkg s a) \<Longrightarrow> ps_conflicts (g (so_pkg s a)) = ps_conflicts (so_pkg s a) \<Longrightarrow>
     disc_ext s (upd_pkg a g s)"
  by (simp_all add: disc_ext_def core_eq_def unresolved_hashed_def)

lemma disc_package: "disc_ext s (discover_package db a s)"
  by (simp add: discover_package_def Let_def disc_upd pcore_def)

lemma disc_order: "disc_ext s (assign_order n s)"
proof -
  have "disc_ext s (s\<lparr>so_order_id := so_order_id s + 1\<rparr>)"
    by (simp add: disc_ext_def core_eq_def unresolved_hashed_def)
  then show ?thesis
    unfolding assign_order_def Let_def by (rule disc.trans) (simp add: disc_upd ncore_def)
qed

lemma disc_names:
  assumes "\<And>n s t. discover_name k db n s = Some t \<Longrightarrow> disc_ext s t"
  shows "foldM (\<lambda>d. discover_name k db (dname d)) ds s = Some t \<Longrightarrow> disc_ext s t"
    "foldM (discover_name k db) ns s = Some t \<Longrightarrow> disc_ext s t"
  by (auto elim!: disc.foldM_ext [rotated] intro: assms)

lemma disc_name: "discover_name k db n s = Some t \<Longrightarrow> disc_ext s t"
proof (induction k arbitrary: n s t)
  case (Suc k)
  have ih: "foldM (\<lambda>d. discover_name k db (dname d)) ds s = Some t \<Longrightarrow> disc_ext s t"
    "foldM (discover_name k db) ns s = Some t \<Longrightarrow> disc_ext s t" for ds ns s t
    using disc_names [of k db] Suc.IH by blast+
  show ?case
  proof (cases "ns_seen (so_name s n)")
    case True
    with Suc.prems show ?thesis by (simp add: disc.refl)
  next
    case False
    let ?s = "upd_name n (\<lambda>x. x\<lparr>ns_seen := True, ns_no_iif := True\<rparr>) s"
    let ?f = "\<lambda>(a, v) s. do {
        s \<leftarrow> if ps_seen (so_pkg s a) then Some s
            else foldM (\<lambda>dep. discover_name k db (dname dep)) (pkg_depends (sd_pkg db a)) (discover_package db a s);
        Some (upd_name n (\<lambda>x. x\<lparr>ns_no_iif := ns_no_iif x \<and> ps_iif_failed (so_pkg s a)\<rparr>) s) }"
    from Suc.prems False obtain u v w where
      u: "foldM ?f (sd_providers db n) ?s = Some u" and v: "foldM (discover_name k db) (sd_rinstall_if db n) u = Some v"
      and w: "foldM (\<lambda>(a, v) s. do {
               s \<leftarrow> foldM (discover_name k db) (sd_rinstall_if db (pname db a)) s;
               foldM (\<lambda>dep. discover_name k db (dname dep)) (pkg_provides (sd_pkg db a)) s })
             (sd_providers db n) v = Some w"
      and t: "foldM (\<lambda>(a, v). foldM (\<lambda>dep. discover_name k db (dname dep)) (pkg_install_if (sd_pkg db a)))
          (sd_providers db n) (assign_order n w) = Some t"
      by (auto simp: bind_eq_Some_conv)
    have s: "disc_ext s ?s" by (simp add: disc_upd ncore_def)
    have f: "disc_ext s t" if "?f p s = Some t" for p s t
    proof -
      obtain a x where p: "p = (a, x)" by (cases p)
      from that obtain r where r: "(if ps_seen (so_pkg s a) then Some s
          else foldM (\<lambda>dep. discover_name k db (dname dep)) (pkg_depends (sd_pkg db a)) (discover_package db a s)) = Some r"
        and t: "t = upd_name n (\<lambda>x. x\<lparr>ns_no_iif := ns_no_iif x \<and> ps_iif_failed (so_pkg r a)\<rparr>) r"
        by (auto simp: p bind_eq_Some_conv)
      have "disc_ext s r" using r by (auto split: if_splits intro: disc.refl disc.trans [OF disc_package ih(1)])
      moreover have "disc_ext r t" unfolding t by (simp add: disc_upd ncore_def)
      ultimately show ?thesis by (rule disc.trans)
    qed
    have su: "disc_ext ?s u" using u by (rule disc.foldM_ext [rotated]) (rule f)
    have uv: "disc_ext u v" by (rule ih(2) [OF v])
    have vw: "disc_ext v w"
      using w by (elim disc.foldM_ext [rotated]) (auto simp: bind_eq_Some_conv intro: disc.trans [OF ih(2) ih(1)])
    have wt: "disc_ext (assign_order n w) t"
      using t by (elim disc.foldM_ext [rotated]) (auto intro: ih)
    show ?thesis
      by (rule disc.trans [OF disc.trans [OF disc.trans [OF s su] disc.trans [OF uv vw]] disc.trans [OF disc_order wt]])
  qed
qed simp

section \<open>Applying the world\<close>

text \<open>A name with requirers is queued until it is decided.\<close>

definition req_queued :: "solver \<Rightarrow> bool" where
  "req_queued s \<longleftrightarrow> (\<forall>n. ns_requirers (so_name s n) \<noteq> 0 \<longrightarrow> unresolved_hashed n s \<or> ns_locked (so_name s n))"

definition apply_world :: "solver_db \<Rightarrow> apk_dependency \<Rightarrow> solver \<Rightarrow> solver" where
  "apply_world db d s = apply_constraint db None d (s\<lparr>so_pinning_inherit := BIT (dep_repository_tag d)\<rparr>)"

lemma pinning_quiet: "quiet_ext s (s\<lparr>so_pinning_inherit := x\<rparr>)" "quiet_ext s (s\<lparr>so_flags_inherit := y, so_pinning_inherit := x\<rparr>)"
  by (simp_all add: ext_defs unresolved_hashed_def)

lemma apply_world_prop: "prop_ext s (apply_world db d s)"
  unfolding apply_world_def by (rule pe.trans [OF quiet_prop [OF pinning_quiet(1)] prop_apply_constraint])

lemma apply_constraint_queues:
  assumes q: "req_queued s" and i: "\<not> so_ignore_conflict s"
  shows "req_queued (apply_constraint db p d s) \<and>
     (\<not> apk_dep_conflict d \<longrightarrow>
        unresolved_hashed (dname d) (apply_constraint db p d s) \<or> ns_locked (so_name (apply_constraint db p d s) (dname d)))"
proof -
  let ?n = "dname d"
  define u where "u = upd_name ?n (\<lambda>n. n\<lparr>ns_requirers := ns_requirers n + of_bool (\<not> apk_dep_conflict d)\<rparr>) s"
  define v where "v = (if ns_requirers (so_name u ?n) = 1 \<and> \<not> apk_dep_conflict d then name_requirers_changed db ?n u else u)"
  define t where "t = fold (constrain_provider db p d) (sd_providers db ?n) v"
  have tt: "apply_constraint db p d s = t" using i by (simp add: apply_constraint_def Let_def t_def v_def u_def)
  have names: "so_name u m = (if m = ?n then (so_name s ?n)\<lparr>ns_requirers := ns_requirers (so_name s ?n) + of_bool (\<not> apk_dep_conflict d)\<rparr>
      else so_name s m)" for m
    by (simp add: u_def)
  have su: "unresolved_hashed m u = unresolved_hashed m s" for m by (simp add: u_def unresolved_hashed_def)
  have vt: "req_ext v t" unfolding t_def by (rule req_constrains)
  have uv: "req_ext u v" by (simp add: v_def re.refl req_requirers_changed)
  note ut = re.trans [OF uv vt]
  have lock: "ns_locked (so_name t m) = ns_locked (so_name s m)" for m
    using prop_chosen(2) [OF req_prop [OF ut], of m] by (simp add: names)
  have mono: "unresolved_hashed m s \<Longrightarrow> unresolved_hashed m t" for m
    using ut by (simp add: req_ext_def prop_ext_def queue_mono_def su)
  have first: "unresolved_hashed ?n t \<or> ns_locked (so_name t ?n)"
    if "ns_requirers (so_name u ?n) = 1" "\<not> apk_dep_conflict d"
  proof -
    let ?w = "queue_unresolved ?n False u"
    have vw: "v = queue_dirty ?n (reevaluate_reverse_installif db ?n ?w)"
      using that by (simp add: v_def name_requirers_changed_def)
    have "req_ext ?w v" unfolding vw by (rule re.trans [OF req_reverse_installif req_queue_dirty])
    then have wt: "req_ext ?w t" by (rule re.trans [OF _ vt])
    have "ns_locked (so_name u ?n) \<or> unresolved_hashed ?n ?w"
      using that by (intro queue_unresolved_hashed) simp
    then show ?thesis
      using wt lock [of ?n] by (auto simp: req_ext_def prop_ext_def queue_mono_def names)
  qed
  have req: "ns_requirers (so_name t m) = ns_requirers (so_name u m)" for m
    using ut by (simp add: req_ext_def)
  have old: "unresolved_hashed m t \<or> ns_locked (so_name t m)" if "ns_requirers (so_name s m) \<noteq> 0" for m
    using q that mono lock by (auto simp: req_queued_def)
  have pos: "unresolved_hashed ?n t \<or> ns_locked (so_name t ?n)" if "\<not> apk_dep_conflict d"
    using first old [of ?n] that by (cases "ns_requirers (so_name s ?n) = 0") (auto simp: names)
  have "req_queued t"
    unfolding req_queued_def
  proof (intro allI impI)
    fix m assume m: "ns_requirers (so_name t m) \<noteq> 0"
    show "unresolved_hashed m t \<or> ns_locked (so_name t m)"
    proof (cases "m = ?n \<and> \<not> apk_dep_conflict d")
      case True
      then show ?thesis using pos by simp
    next
      case False
      then have "ns_requirers (so_name s m) \<noteq> 0" using m req by (auto simp: names split: if_splits)
      then show ?thesis by (rule old)
    qed
  qed
  with pos tt show ?thesis by simp
qed

lemma apply_world_queues:
  assumes "req_queued s" "\<not> so_ignore_conflict s" "conf_ok s"
  shows "req_queued (fold (apply_world db) ds s)"
    and "\<lbrakk>d \<in> set ds; \<not> apk_dep_conflict d\<rbrakk> \<Longrightarrow>
      unresolved_hashed (dname d) (fold (apply_world db) ds s) \<or> ns_locked (so_name (fold (apply_world db) ds s) (dname d))"
    and "d \<in> set ds \<Longrightarrow> constrained db (fold (apply_world db) ds s) None d"
proof -
  have "req_queued (fold (apply_world db) ds s) \<and> (\<forall>d \<in> set ds.
      (\<not> apk_dep_conflict d \<longrightarrow> unresolved_hashed (dname d) (fold (apply_world db) ds s) \<or>
         ns_locked (so_name (fold (apply_world db) ds s) (dname d))) \<and>
      constrained db (fold (apply_world db) ds s) None d)"
    using assms
  proof (induction ds arbitrary: s)
    case (Cons d ds)
    let ?s = "s\<lparr>so_pinning_inherit := BIT (dep_repository_tag d)\<rparr>" and ?t = "apply_world db d s"
    let ?u = "fold (apply_world db) ds ?t"
    have s: "req_queued ?s" "\<not> so_ignore_conflict ?s" "conf_ok ?s"
      using Cons.prems by (simp_all add: req_queued_def unresolved_hashed_def conf_ok_def)
    have st: "prop_ext s ?t" by (rule apply_world_prop)
    have t: "req_queued ?t" "\<not> apk_dep_conflict d \<longrightarrow> unresolved_hashed (dname d) ?t \<or> ns_locked (so_name ?t (dname d))"
      "constrained db ?t None d"
      using apply_constraint_queues [OF s(1, 2), of db None d] apply_constraint_excludes [OF s(3), of d db None] s(2)
      by (auto simp: apply_world_def)
    have t': "\<not> so_ignore_conflict ?t" "conf_ok ?t"
      using st Cons.prems by (auto simp: prop_ext_def core_eq_def)
    have tu: "prop_ext ?t ?u" by (rule pe.fold_ext) (rule apply_world_prop)
    have "constrained db ?u None d" using tu t(3) by (auto simp: prop_ext_def intro: constrained_mono)
    moreover have "\<not> apk_dep_conflict d \<longrightarrow> unresolved_hashed (dname d) ?u \<or> ns_locked (so_name ?u (dname d))"
      using t(2) tu prop_chosen(2) [OF tu] by (auto simp: prop_ext_def queue_mono_def)
    ultimately show ?case using Cons.IH [OF t(1) t'] by simp
  qed simp
  then show "req_queued (fold (apply_world db) ds s)"
    "\<lbrakk>d \<in> set ds; \<not> apk_dep_conflict d\<rbrakk> \<Longrightarrow>
      unresolved_hashed (dname d) (fold (apply_world db) ds s) \<or> ns_locked (so_name (fold (apply_world db) ds s) (dname d))"
    "d \<in> set ds \<Longrightarrow> constrained db (fold (apply_world db) ds s) None d"
    by blast+
qed

section \<open>The resolution loop\<close>

abbreviation reaches :: "solver_db \<Rightarrow> solver \<Rightarrow> solver \<Rightarrow> bool" where
  "reaches db \<equiv> (\<lambda>s t. solve_step db s = Some t)\<^sup>*\<^sup>*"

lemma solve_loop_end: "solve_loop k db s = Some t \<Longrightarrow> reaches db s t \<and> solve_step db t = None"
proof (induction k arbitrary: s)
  case (Suc k)
  then show ?case
    by (auto split: option.splits intro: converse_rtranclp_into_rtranclp)
qed simp

lemma stuck_queues: "solve_step db t = None \<Longrightarrow> \<not> unresolved_hashed n t"
  by (auto simp: solve_step_def dequeue_next_name_def unresolved_hashed_def split: list.splits option.splits)

lemma reaches_inv: "reaches db s t \<Longrightarrow> db_ok db \<Longrightarrow> solve_inv db ws s \<Longrightarrow> solve_inv db ws t"
  by (induction rule: rtranclp_induct) (auto intro: step_solve_inv)

lemma step_cases:
  assumes "solve_step db s = Some t"
  obtains (reconsider) n ns where "t = reconsider_name db n (s\<lparr>so_dirty := ns\<rparr>)"
  | (select) n u where "dequeue_next_name s = Some (n, u)" "t = select_package db n u"
  using assms by (auto simp: solve_step_def split: list.splits option.splits prod.splits)

lemma select_locks:
  assumes "db_ok db"
  shows "ns_locked (so_name (select_package db n s) n)"
proof (cases "fst (select_provider db n s)")
  case None
  then show ?thesis by (simp add: select_package_def Let_def assign_chosen)
next
  case (Some a)
  then obtain v where "(a, v) \<in> set (sd_providers db n)" by (blast dest: select_provider_provides)
  then have "(n, v) \<in> set (gives db a)" using assms by (blast dest: db_okD(1))
  then have "ns_locked (so_name (assign_all db a s) n)" for s
    using assigns_free(3) [of db a "gives db a" s n] unfolding assign_all_def by blast
  moreover have "select_package db n s = take_package db a
      (if \<not> ps_selectable (so_pkg s a) \<or> \<not> ps_tag_ok (so_pkg s a) then mark_error (Some a) s else s)"
    by (simp add: select_package_def Some Let_def take_package_def assign_all_def)
  ultimately show ?thesis using prop_chosen(2) [OF take_prop] by simp
qed

lemma step_decides:
  assumes "db_ok db" "solve_step db s = Some t" "unresolved_hashed n s \<or> ns_locked (so_name s n)"
  shows "unresolved_hashed n t \<or> ns_locked (so_name t n)"
  using assms(2)
proof (cases rule: step_cases)
  case (reconsider m ns)
  have "prop_ext (s\<lparr>so_dirty := ns\<rparr>) t" unfolding reconsider by (rule prop_reconsider_name)
  then show ?thesis
    using assms(3) prop_chosen(2) [of "s\<lparr>so_dirty := ns\<rparr>" t n]
    by (auto simp: prop_ext_def queue_mono_def unresolved_hashed_def)
next
  case (select m u)
  have "sel_ext u t" unfolding select(2) by (rule sel_select)
  moreover have "n = m \<or> unresolved_hashed n u \<or> ns_locked (so_name u n)"
    using assms(3) dequeue_fields(1, 6) [OF select(1)] by auto
  ultimately show ?thesis using select_locks [OF assms(1), of m u] select(2) by (auto simp: sel_ext_def)
qed

lemma reaches_decides:
  "reaches db s t \<Longrightarrow> db_ok db \<Longrightarrow> unresolved_hashed n s \<or> ns_locked (so_name s n) \<Longrightarrow>
     unresolved_hashed n t \<or> ns_locked (so_name t n)"
  by (induction rule: rtranclp_induct) (auto dest: step_decides)

text \<open>A name is left without a provider with no error only while nothing requires it.\<close>

lemma assign_none_requirers:
  "ns_requirers (so_name (assign_name db n provider_none s) m) = ns_requirers (so_name s m)"
proof (cases "ns_locked (so_name s n)")
  case True
  then show ?thesis by (simp add: assign_name_def Let_def)
next
  case False
  have dis: "req_ext s (fold (\<lambda>(b, v) s. if c b v then s else disqualify_package db b s) ps s)" for c ps s
    by (rule re.fold_ext) (auto simp: re.refl req_disqualify)
  have "req_ext (lock_name n provider_none s) (assign_name db n provider_none s)"
    using False unfolding assign_name_def Let_def lock_name_def provider_none_def
    by (auto intro!: re.refl re.trans [OF _ req_reverse_installif] re.trans [OF _ req_reverse_deps] dis)
  then show ?thesis by (simp add: req_ext_def)
qed

lemma step_chosen_none:
  assumes "solve_step db s = Some t" "so_errors t = 0" "ns_locked (so_name t n)" "fst (chosen_of t n) = None"
  shows "(ns_locked (so_name s n) \<and> fst (chosen_of s n) = None \<and> so_errors s = 0) \<or>
     (\<not> ns_locked (so_name s n) \<and> ns_requirers (so_name s n) = 0)"
  using assms(1)
proof (cases rule: step_cases)
  case (reconsider m ns)
  have "prop_ext (s\<lparr>so_dirty := ns\<rparr>) t" unfolding reconsider by (rule prop_reconsider_name)
  then show ?thesis using assms prop_chosen [of "s\<lparr>so_dirty := ns\<rparr>" t] by simp
next
  case (select m u)
  note same = dequeue_fields(1, 3) [OF select(1)]
  have ext: "sel_ext u t" unfolding select(2) by (rule sel_select)
  show ?thesis
  proof (cases "ns_locked (so_name u n)")
    case True
    with ext assms show ?thesis by (auto simp: sel_ext_def same)
  next
    case False
    show ?thesis
    proof (cases "fst (select_provider db m u)")
      case None
      then have "so_name t = so_name (assign_name db m provider_none u)" "n = m"
        using select(2) assms(3) False by (auto simp: select_package_def Let_def assign_chosen split: if_splits)
      moreover have "ns_requirers (so_name u m) = 0"
        using None select(2) assms(2) by (auto simp: select_package_def Let_def assign_none_requirers word_gt_0 split: if_splits)
      ultimately show ?thesis using False same by simp
    next
      case (Some a)
      let ?u = "if \<not> ps_selectable (so_pkg u a) \<or> \<not> ps_tag_ok (so_pkg u a) then mark_error (Some a) u else u"
      have t: "t = take_package db a ?u"
        by (simp add: select(2) select_package_def Some Let_def take_package_def assign_all_def)
      have "fst (chosen_of (fold (\<lambda>(n, v). assign_name db n (Some a, v)) nvs s) n) \<noteq> None"
        if "ns_locked (so_name (fold (\<lambda>(n, v). assign_name db n (Some a, v)) nvs s) n)" "\<not> ns_locked (so_name s n)"
        for nvs s
        using that
      proof (induction nvs arbitrary: s)
        case (Cons nv nvs)
        obtain m v where nv: "nv = (m, v)" by (cases nv)
        let ?s = "assign_name db m (Some a, v) s"
        show ?case
        proof (cases "ns_locked (so_name ?s n)")
          case True
          then have "chosen_of ?s n = (Some a, v)" using Cons.prems(2) by (auto simp: assign_chosen)
          with True sel_assigns [of ?s db a nvs] nv show ?thesis by (auto simp: sel_ext_def)
        qed (use Cons nv in auto)
      qed simp
      from this [of "gives db a" ?u] show ?thesis
        using assms(3, 4) False by (simp add: t prop_chosen [OF take_prop] assign_all_def split: if_splits)
    qed
  qed
qed

lemma reaches_chosen_none:
  assumes "reaches db s t" "so_errors t = 0" "ns_locked (so_name t n)" "fst (chosen_of t n) = None"
    and "\<not> ns_locked (so_name s n)"
  shows "\<exists>u. reaches db s u \<and> \<not> ns_locked (so_name u n) \<and> ns_requirers (so_name u n) = 0"
  using assms
proof (induction rule: rtranclp_induct)
  case (step u t)
  from step_chosen_none [OF step.hyps(2) step.prems(1, 2, 3)] show ?case
  proof (elim disjE conjE)
    assume "\<not> ns_locked (so_name u n)" "ns_requirers (so_name u n) = 0"
    with step.hyps(1) show ?thesis by blast
  qed (rule step.IH [OF _ _ _ step.prems(4)])
qed simp

section \<open>The start of the loop\<close>

abbreviation live :: "apk_dependency list \<Rightarrow> apk_dependency list" where
  "live world \<equiv> filter (\<lambda>d. \<not> dep_broken d) world"

lemma setup_discovered:
  assumes c: "clean s" and f: "\<not> has_flag fl APK_SOLVERF_IGNORE_CONFLICT"
    and d: "foldM (\<lambda>d. discover_name k db (dname d)) ds (solver_init db fl s) = Some t"
  shows "core_eq (solver_init db fl s) t" "conf_ok t" "req_queued t" "\<not> so_ignore_conflict t"
    "\<not> ns_locked (so_name t n)" "chosen_of t n = provider_none" "so_errors t = 0" "\<not> ps_error (so_pkg t a)"
proof -
  have e: "disc_ext (solver_init db fl s) t"
    using d by (rule disc.foldM_ext [rotated]) (rule disc_name)
  then show "core_eq (solver_init db fl s) t" by (simp add: disc_ext_def)
  show "conf_ok t" "req_queued t" "\<not> so_ignore_conflict t" "\<not> ns_locked (so_name t n)"
    "chosen_of t n = provider_none" "so_errors t = 0" "\<not> ps_error (so_pkg t a)"
    using e c f by (auto simp: disc_ext_def core_eq_def ncore_def pcore_def clean_def solver_init_def conf_ok_def req_queued_def)
qed

lemma setup_inv:
  assumes c: "clean s" and f: "\<not> has_flag fl APK_SOLVERF_IGNORE_CONFLICT" and t: "setup_world k db fl world s = Some t"
  shows "solve_inv db (set (live world)) t" "so_errors t = 0" "\<not> ns_locked (so_name t n)"
    "\<lbrakk>d \<in> set (live world); \<not> apk_dep_conflict d\<rbrakk> \<Longrightarrow> unresolved_hashed (dname d) t"
    "\<not> processed t n" "\<not> marked t a"
proof -
  from t obtain u where u: "foldM (\<lambda>d. discover_name k db (dname d)) (live world) (solver_init db fl s) = Some u"
    and t': "t = (fold (apply_world db) (live world) u)\<lparr>so_flags_inherit := 0, so_pinning_inherit := 0\<rparr>"
    by (auto simp: setup_world_def Let_def bind_eq_Some_conv apply_world_def [abs_def])
  note d = setup_discovered [OF c f u]
  let ?v = "fold (apply_world db) (live world) u"
  have "prop_ext u ?v" by (rule pe.fold_ext) (rule apply_world_prop)
  then have ut: "prop_ext u t" unfolding t' by (rule pe.trans) (rule quiet_prop [OF pinning_quiet(2)])
  have vt: "prop_ext ?v t" unfolding t' by (rule quiet_prop [OF pinning_quiet(2)])
  have basic: "basic_inv db u" using d by (simp add: basic_inv_def err_ok_def selected_def provider_none_def)
  have "constrained db t None e" if "e \<in> set (live world)" for e
    using vt apply_world_queues(3) [OF d(3, 4, 2) that] by (auto simp: prop_ext_def intro: constrained_mono)
  moreover have "sound_inv db ws u" for ws using d by (simp add: sound_inv_def selected_def provider_none_def)
  ultimately show "solve_inv db (set (live world)) t"
    using prop_basic [OF ut basic] prop_sound [OF ut] by (simp add: solve_inv_def)
  show "so_errors t = 0" "\<not> ns_locked (so_name t n)" using d by (simp_all add: prop_chosen [OF ut])
  show "unresolved_hashed (dname d) t" if "d \<in> set (live world)" "\<not> apk_dep_conflict d"
    using apply_world_queues(2) [OF d(3, 4, 2) that, of db] vt prop_chosen(2) [OF vt, of "dname d"] prop_chosen(2) [OF ut] d
    by (auto simp: prop_ext_def queue_mono_def)
  show "\<not> processed t n" "\<not> marked t a"
    using ut d(1) c by (auto simp: prop_ext_def core_eq_def ncore_def pcore_def clean_def solver_init_def)
qed

lemma reaches_cset: "reaches db s t \<Longrightarrow> processed t n = processed s n \<and> marked t a = marked s a"
proof (induction rule: rtranclp_induct)
  case (step u t)
  from step.hyps(2) show ?case
  proof (cases rule: step_cases)
    case (reconsider m ns)
    have "prop_ext (u\<lparr>so_dirty := ns\<rparr>) t" unfolding reconsider by (rule prop_reconsider_name)
    with step.IH show ?thesis by (simp add: prop_ext_def core_eq_def ncore_def pcore_def)
  next
    case (select m v)
    have "sel_ext v t" unfolding select(2) by (rule sel_select)
    with step.IH show ?thesis by (simp add: sel_ext_def cset_eq_def dequeue_fields [OF select(1)])
  qed
qed simp

section \<open>The change set\<close>

lemma reset_names [simp]:
  "chosen_of (s\<lparr>so_name := cset_reset_name \<circ> so_name s\<rparr>) n = chosen_of s n"
  "processed (s\<lparr>so_name := cset_reset_name \<circ> so_name s\<rparr>) n = processed s n"
  by (simp_all add: cset_reset_name_def)

text \<open>The installed package of a name has that name, and an installed package without a namesake is found.\<close>

lemma set_installed_fields:
  "chosen_of (cset_set_installed db a s) n = chosen_of s n"
  "processed (cset_set_installed db a s) n = processed s n"
  "so_pkg (cset_set_installed db a s) = so_pkg s" "so_errors (cset_set_installed db a s) = so_errors s"
  "so_ignore_conflict (cset_set_installed db a s) = so_ignore_conflict s"
  "so_changeset (cset_set_installed db a s) = so_changeset s"
  "ns_installed_pkg (so_name (cset_set_installed db a s) n) =
     (if n = pname db a then Some a else ns_installed_pkg (so_name s n))"
proof -
  let ?f = "\<lambda>d s. if dep_version d \<noteq> [] then upd_name (dname d) (\<lambda>n. n\<lparr>ns_installed_name := Some (pname db a)\<rparr>) s else s"
  have "chosen_of (fold ?f ds s) n = chosen_of s n \<and> processed (fold ?f ds s) n = processed s n \<and>
      so_pkg (fold ?f ds s) = so_pkg s \<and> so_errors (fold ?f ds s) = so_errors s \<and>
      so_ignore_conflict (fold ?f ds s) = so_ignore_conflict s \<and> so_changeset (fold ?f ds s) = so_changeset s \<and>
      ns_installed_pkg (so_name (fold ?f ds s) n) = ns_installed_pkg (so_name s n)" for ds s
    by (induction ds arbitrary: s) auto
  then show "chosen_of (cset_set_installed db a s) n = chosen_of s n"
    "processed (cset_set_installed db a s) n = processed s n"
    "so_pkg (cset_set_installed db a s) = so_pkg s" "so_errors (cset_set_installed db a s) = so_errors s"
    "so_ignore_conflict (cset_set_installed db a s) = so_ignore_conflict s"
    "so_changeset (cset_set_installed db a s) = so_changeset s"
    "ns_installed_pkg (so_name (cset_set_installed db a s) n) =
       (if n = pname db a then Some a else ns_installed_pkg (so_name s n))"
    by (simp_all add: cset_set_installed_def)
qed

lemma set_installed_all:
  fixes db s as
  defines "t \<equiv> fold (cset_set_installed db) as s"
  shows "chosen_of t n = chosen_of s n" "processed t n = processed s n"
    "so_pkg t = so_pkg s" "so_errors t = so_errors s" "so_ignore_conflict t = so_ignore_conflict s"
    "so_changeset t = so_changeset s"
    "ns_installed_pkg (so_name t n) = Some i \<Longrightarrow> ns_installed_pkg (so_name s n) = Some i \<or> pname db i = n"
    "\<lbrakk>a \<in> set as; distinct (map (pname db) as)\<rbrakk> \<Longrightarrow> ns_installed_pkg (so_name t (pname db a)) = Some a"
proof -
  have other: "n \<notin> pname db ` set as \<Longrightarrow> ns_installed_pkg (so_name (fold (cset_set_installed db) as s) n) = ns_installed_pkg (so_name s n)"
    for as s n by (induction as arbitrary: s) (auto simp: set_installed_fields)
  show "chosen_of t n = chosen_of s n" "processed t n = processed s n"
    "so_pkg t = so_pkg s" "so_errors t = so_errors s" "so_ignore_conflict t = so_ignore_conflict s"
    "so_changeset t = so_changeset s"
    unfolding t_def by (induction as arbitrary: s) (simp_all add: set_installed_fields)
  show "ns_installed_pkg (so_name t n) = Some i \<Longrightarrow> ns_installed_pkg (so_name s n) = Some i \<or> pname db i = n"
    unfolding t_def by (induction as arbitrary: s) (fastforce simp: set_installed_fields split: if_splits)+
  show "\<lbrakk>a \<in> set as; distinct (map (pname db) as)\<rbrakk> \<Longrightarrow> ns_installed_pkg (so_name t (pname db a)) = Some a"
    unfolding t_def by (induction as arbitrary: s) (auto simp: set_installed_fields other)
qed

lemma track_added_fields:
  "so_changeset (cset_track_deps_added db a s) = so_changeset s" "so_pkg (cset_track_deps_added db a s) = so_pkg s"
proof -
  let ?f = "\<lambda>d s. case ns_installed_name (so_name s (dname d)) of
      Some m \<Rightarrow> if apk_dep_conflict d then s else upd_name m (\<lambda>n. n\<lparr>ns_requirers := ns_requirers n + 1\<rparr>) s
    | None \<Rightarrow> s"
  have "so_changeset (fold ?f ds s) = so_changeset s \<and> so_pkg (fold ?f ds s) = so_pkg s" for ds s
    by (induction ds arbitrary: s) (auto split: option.splits)
  then show "so_changeset (cset_track_deps_added db a s) = so_changeset s" "so_pkg (cset_track_deps_added db a s) = so_pkg s"
    by (simp_all add: cset_track_deps_added_def)
qed

lemma prepare_facts:
  fixes db s
  defines "p \<equiv> cset_prepare db s"
  shows "chosen_of p n = chosen_of s n" "processed p n = processed s n" "marked p a = marked s a"
    "ps_error (so_pkg p a) = ps_error (so_pkg s a)" "so_errors p = so_errors s"
    "so_ignore_conflict p = so_ignore_conflict s" "changes_of p = []"
    "ns_installed_pkg (so_name p n) = Some i \<Longrightarrow> pname db i = n"
    "\<lbrakk>a \<in> set (sd_installed db); distinct (map (pname db) (sd_installed db))\<rbrakk> \<Longrightarrow>
       ns_installed_pkg (so_name p (pname db a)) = Some a"
proof -
  let ?s = "s\<lparr>so_changeset := so_changeset s\<lparr>cs_changes := []\<rparr>\<rparr>"
  let ?r = "?s\<lparr>so_name := cset_reset_name \<circ> so_name ?s\<rparr>"
  let ?i = "fold (cset_set_installed db) (sd_installed db) ?r"
  have "rm_ext db ?i p"
    unfolding p_def cset_prepare_def Let_def by (rule rme.fold_ext) (rule rm_track_deps_added)
  then have *: "chosen_of p n = chosen_of ?i n" "processed p n = processed ?i n"
      "ns_installed_pkg (so_name p n) = ns_installed_pkg (so_name ?i n)" "ps_error (so_pkg p a) = ps_error (so_pkg ?i a)"
      "so_errors p = so_errors ?i" "so_ignore_conflict p = so_ignore_conflict ?i" for n a
    by (auto simp: rm_ext_def)
  have "so_changeset (fold (cset_track_deps_added db) as s) = so_changeset s \<and>
      so_pkg (fold (cset_track_deps_added db) as s) = so_pkg s" for as s
    by (induction as arbitrary: s) (simp_all add: track_added_fields)
  then have cs: "so_changeset p = so_changeset ?i \<and> so_pkg p = so_pkg ?i"
    unfolding p_def cset_prepare_def Let_def by simp
  show "chosen_of p n = chosen_of s n" "processed p n = processed s n" "marked p a = marked s a"
    "ps_error (so_pkg p a) = ps_error (so_pkg s a)" "so_errors p = so_errors s"
    "so_ignore_conflict p = so_ignore_conflict s" "changes_of p = []"
    by (simp_all add: * cs set_installed_all cset_reset_name_def)
  show "pname db i = n" if "ns_installed_pkg (so_name p n) = Some i"
    using set_installed_all(7) [of db "sd_installed db" ?r n i] that by (simp add: * cset_reset_name_def)
  show "ns_installed_pkg (so_name p (pname db a)) = Some a"
    if "a \<in> set (sd_installed db)" "distinct (map (pname db) (sd_installed db))"
    using set_installed_all(8) [OF that, of ?r] by (simp add: *)
qed

text \<open>The generated change set, from a state without marks.\<close>

lemma generate_facts:
  assumes g: "generate_changeset k db world s = Some t"
    and fresh: "\<And>n. \<not> processed s n" "\<And>a. \<not> marked s a" and pre: "pre_ok db s"
  shows "so_errors s \<le> so_errors t" "chosen_of t n = chosen_of s n" "pre_ok db t"
    "distinct (map subject (changes_of t))" "marked t a \<longleftrightarrow> a \<in> subject ` set (changes_of t)"
    "ch \<in> set (changes_of t) \<Longrightarrow> change_ok db t ch" "processed t n \<Longrightarrow> covered db t n"
    "a \<in> set (sd_installed db) \<Longrightarrow> processed t (pname db a)"
    "so_ignore_conflict t = so_ignore_conflict s"
    "ns_installed_pkg (so_name t n) = ns_installed_pkg (so_name (cset_prepare db s) n)"
proof -
  let ?rm = "cset_gen_name_remove k db" and ?p = "cset_prepare db s"
  let ?gen = "cset_gen_name_change k ?rm db"
  from g obtain u v w where u: "foldM (cset_check_removal_by_deps ?rm db) (sd_installed db) ?p = Some u"
    and v: "foldM (cset_gen_dep ?gen db None) world u = Some v"
    and w: "foldM (\<lambda>a. ?gen (pname db a)) (sd_installed db) v = Some w"
    and t: "t = w\<lparr>so_changeset := so_changeset w\<lparr>cs_num_total_changes :=
        cs_num_install (so_changeset w) + cs_num_remove (so_changeset w) + cs_num_adjust (so_changeset w)\<rparr>\<rparr>"
    by (auto simp: generate_changeset_def Let_def bind_eq_Some_conv)
  have pu: "gen_ext db ?p u"
    using u by (elim gene.foldM_ext [rotated]) (auto intro: rm_gen rmv.check_removal_by_deps)
  have uv: "gen_ext db u v"
    using v by (elim gene.foldM_ext [rotated]) (auto intro: chg.gen_dep(1))
  have vw: "gen_ext db v w"
    using w by (elim gene.foldM_ext [rotated]) (auto intro: chg.gen_extends)
  have pw: "gen_ext db ?p w" by (rule gene.trans [OF pu gene.trans [OF uv vw]])
  have pre': "pre_ok db ?p" using pre by (simp add: pre_ok_def err_ok_def prepare_facts)
  have same: "so_name t = so_name w" "so_pkg t = so_pkg w" "so_errors t = so_errors w" "changes_of t = changes_of w"
    "so_ignore_conflict t = so_ignore_conflict w"
    by (simp_all add: t)
  have ok: "change_ok db t = change_ok db w" "covered db t = covered db w" "pre_ok db t = pre_ok db w"
    by (simp_all add: change_ok_def [abs_def] removal_ok_def covered_def [abs_def] kept_def selected_def dep_done_def
        pre_ok_def err_ok_def same)
  obtain xs where xs: "grows ?p xs w" "\<forall>ch \<in> set xs. change_ok db w ch"
    using gen_ext_grow [OF pw] pre' by blast
  then have "changes_of w = xs" by (simp add: grows_def prepare_facts)
  with xs show "distinct (map subject (changes_of t))" "marked t a \<longleftrightarrow> a \<in> subject ` set (changes_of t)"
    "ch \<in> set (changes_of t) \<Longrightarrow> change_ok db t ch"
    by (auto simp: grows_def same ok prepare_facts fresh)
  show "so_errors s \<le> so_errors t" "chosen_of t n = chosen_of s n" "pre_ok db t"
    "so_ignore_conflict t = so_ignore_conflict s"
    using gen_extD(4) [OF pw] gen_extD(6) [OF pw pre']
    by (simp_all add: same ok gen_extD(1, 5) [OF pw] prepare_facts)
  show "processed t n \<Longrightarrow> covered db t n"
    using gen_extD(9) [OF pw pre', of n] by (auto simp: same ok prepare_facts fresh)
  show "ns_installed_pkg (so_name t n) = ns_installed_pkg (so_name (cset_prepare db s) n)"
    by (simp add: same gen_extD(2) [OF pw])
  have "processed w (pname db a)" if "a \<in> set as" "foldM (\<lambda>a. ?gen (pname db a)) as v = Some w" for as v
    using that
  proof (induction as arbitrary: v)
    case (Cons b as)
    then obtain x where x: "?gen (pname db b) v = Some x" "foldM (\<lambda>a. ?gen (pname db a)) as x = Some w"
      by (auto simp: bind_eq_Some_conv)
    have "gen_ext db x w" using x(2) by (elim gene.foldM_ext [rotated]) (auto intro: chg.gen_extends)
    then show ?case using Cons x chg.gen_marks [OF x(1)] by (auto dest: gen_extD(3))
  qed simp
  then show "a \<in> set (sd_installed db) \<Longrightarrow> processed t (pname db a)" using w by (simp add: same)
qed

section \<open>One attempt\<close>

definition new_packages :: "apk_changeset \<Rightarrow> nat set" where
  "new_packages c = {a. \<exists>ch \<in> set (cs_changes c). ch_new_pkg ch = Some a}"

text \<open>An attempt that ends without errors.\<close>

definition solved :: "nat \<Rightarrow> solver_db \<Rightarrow> u16 \<Rightarrow> apk_dependency list \<Rightarrow> solver \<Rightarrow> solver \<Rightarrow> bool" where
  "solved k db fl world u t \<longleftrightarrow>
     (\<exists>s. clean s \<and> solve_world k db fl world s = Some u \<and> generate_changeset k db world u = Some t \<and> so_errors t = 0)"

lemma solved_facts:
  assumes ok: "db_ok db" and f: "\<not> has_flag fl APK_SOLVERF_IGNORE_CONFLICT" and s: "solved k db fl world u t"
  shows "sound_inv db (set (live world)) u" "pre_ok db u" "\<not> so_ignore_conflict u" "generate_changeset k db world u = Some t"
    "\<not> processed u n" "\<not> marked u a" "so_errors t = 0"
    "selected u b \<Longrightarrow> \<exists>n v. (b, v) \<in> set (sd_providers db n)"
proof -
  from s obtain r where r: "clean r" "solve_world k db fl world r = Some u" and g: "generate_changeset k db world u = Some t"
    and e: "so_errors t = 0" by (auto simp: solved_def)
  then obtain x where x: "setup_world k db fl world r = Some x" "solve_loop k db x = Some u"
    by (auto simp: solve_world_def bind_eq_Some_conv)
  have xu: "reaches db x u" using solve_loop_end [OF x(2)] by simp
  note start = setup_inv [OF r(1) f x(1)]
  have inv: "solve_inv db (set (live world)) u" by (rule reaches_inv [OF xu ok start(1)])
  show fresh: "\<not> processed u n" "\<not> marked u a" for n a using reaches_cset [OF xu] start(5, 6) by simp_all
  show pre: "pre_ok db u" using inv by (auto simp: pre_ok_def solve_inv_def basic_inv_def)
  have "so_errors u = 0" using generate_facts(1) [OF g fresh pre] e by simp
  with inv show "sound_inv db (set (live world)) u" "\<not> so_ignore_conflict u"
    by (simp_all add: solve_inv_def basic_inv_def)
  show "generate_changeset k db world u = Some t" "so_errors t = 0" by (rule g, rule e)
  show "\<exists>n v. (b, v) \<in> set (sd_providers db n)" if "selected u b"
  proof -
    from that obtain n v where "chosen_of u n = (Some b, v)" by (auto simp: selected_def)
    with inv have "(b, v) \<in> set (sd_providers db n)" unfolding solve_inv_def basic_inv_def by blast
    then show ?thesis by blast
  qed
qed

lemma selected_own_name:
  assumes ok: "db_ok db" and inv: "sound_inv db ws s" "pre_ok db s" and a: "selected s a"
    and prov: "(a, v0) \<in> set (sd_providers db n0)"
  shows "chosen_of s (pname db a) = (Some a, the (pkg_version (sd_pkg db a)))"
proof -
  have "given s a (pname db a, the (pkg_version (sd_pkg db a)))"
    using inv(1) a own_name_given unfolding sound_inv_def by blast
  then show ?thesis using db_okD(3) [OF ok prov] by (auto simp: given_def)
qed

text \<open>The facts about a solved attempt that the properties below rest on.\<close>

lemma solved_new:
  assumes ok: "db_ok db" and f: "\<not> has_flag fl APK_SOLVERF_IGNORE_CONFLICT" and s: "solved k db fl world u t"
    and a: "a \<in> new_packages (so_changeset t)"
  shows "selected u a" "\<exists>n v. (a, v) \<in> set (sd_providers db n)"
    "chosen_of u (pname db a) = (Some a, the (pkg_version (sd_pkg db a)))"
    "nv \<in> set (gives db a) \<Longrightarrow> given u a nv"
    "d \<in> set (pkg_depends (sd_pkg db a)) \<Longrightarrow> is_provided db (Some a) d (chosen_of u (dname d))"
    "d \<in> set (pkg_depends (sd_pkg db a)) \<Longrightarrow> processed t (dname d)"
    "marked t a"
proof -
  note sf = solved_facts [OF ok f s]
  note gf = generate_facts [OF sf(4) sf(5) sf(6) sf(2)]
  from a obtain ch where ch: "ch \<in> set (changes_of t)" "ch_new_pkg ch = Some a" by (auto simp: new_packages_def)
  with gf(6) [OF ch(1)] have c: "selected t a" "\<forall>d \<in> set (pkg_depends (sd_pkg db a)). dep_done db t a d"
    by (auto simp: change_ok_def removal_ok_def)
  have ig: "\<not> so_ignore_conflict t" using gf(9) sf(3) by simp
  show sel: "selected u a" using c(1) gf(2) by (simp add: selected_def)
  then show g: "nv \<in> set (gives db a) \<Longrightarrow> given u a nv" for nv using sf(1) unfolding sound_inv_def by blast
  show "d \<in> set (pkg_depends (sd_pkg db a)) \<Longrightarrow> is_provided db (Some a) d (chosen_of u (dname d))"
    "d \<in> set (pkg_depends (sd_pkg db a)) \<Longrightarrow> processed t (dname d)"
    using c(2) ig sf(7) gf(2) by (auto simp: dep_done_def)
  have "subject ch = a" using ch(2) by (simp add: subject_def)
  then show "marked t a" using gf(5) ch(1) by blast
  show p: "\<exists>n v. (a, v) \<in> set (sd_providers db n)" by (rule sf(8) [OF sel])
  show "chosen_of u (pname db a) = (Some a, the (pkg_version (sd_pkg db a)))"
    using p selected_own_name [OF ok sf(1, 2) sel] by blast
qed

text \<open>A marked package that was selected is a new package.\<close>

lemma marked_new:
  assumes ok: "db_ok db" and f: "\<not> has_flag fl APK_SOLVERF_IGNORE_CONFLICT" and s: "solved k db fl world u t"
    and b: "selected u b" "marked t b" and prov: "(b, v0) \<in> set (sd_providers db n0)"
  shows "b \<in> new_packages (so_changeset t)"
proof -
  note sf = solved_facts [OF ok f s]
  note gf = generate_facts [OF sf(4) sf(5) sf(6) sf(2)]
  from gf(5) [THEN iffD1, OF b(2)] obtain ch where ch: "ch \<in> set (changes_of t)" "subject ch = b" by auto
  have "\<not> removal_ok db t ch"
    using ch(2) selected_own_name [OF ok sf(1, 2) b(1) prov] gf(2) by (auto simp: removal_ok_def kept_def subject_def)
  with gf(6) [OF ch(1)] obtain c where "ch_new_pkg ch = Some c" by (auto simp: change_ok_def)
  with ch show ?thesis by (auto simp: subject_def new_packages_def)
qed


section \<open>The solver\<close>

lemma restart_solved:
  "clean s \<Longrightarrow> solve_restart r k db fl world s = Some (0, world', s') \<Longrightarrow>
     \<exists>w u t. solved k db fl w u t \<and> so_changeset s' = so_changeset t \<and> world' = map (layer_world db t) w"
proof (induction r arbitrary: world s)
  case (Suc r)
  from Suc.prems(2) obtain u t where u: "solve_world k db fl world s = Some u" "generate_changeset k db world u = Some t"
    by (auto simp: bind_eq_Some_conv)
  show ?case
  proof (cases "so_errors t \<noteq> 0 \<and> sd_force_broken_world db")
    case True
    with Suc.prems(2) u have "solve_restart r k db fl (map (break_world t) world) (free_all t) = Some (0, world', s')"
      by simp
    then show ?thesis by (rule Suc.IH [OF free_all_clean])
  next
    case False
    with Suc.prems u have "so_errors t = 0" "s' = free_all t" "world' = map (layer_world db t) world" by auto
    with Suc.prems(1) u show ?thesis
      by (intro exI [of _ world] exI [of _ u] exI [of _ t]) (auto simp: solved_def free_all_def)
  qed
qed simp

lemma solve_solved:
  assumes "clean s" "apk_solver_solve r k db fl world s = Some (0, world', s')"
  obtains w u t where "solved k db fl w u t" "so_changeset s' = so_changeset t" "world' = map (layer_world db t) w"
  using restart_solved [OF assms(1)] assms(2) unfolding apk_solver_solve_def by blast

lemma solution_one_provider:
  assumes "db_ok db" "clean s" "\<not> has_flag flags APK_SOLVERF_IGNORE_CONFLICT"
    and "apk_solver_solve r k db flags world s = Some (0, world', s')"
    and "a \<in> new_packages (so_changeset s')" "b \<in> new_packages (so_changeset s')" "a \<noteq> b"
  shows "pname db a \<noteq> pname db b \<and>
    (\<forall>n v w. (n, v) \<in> set (gives db a) \<longrightarrow> (n, w) \<in> set (gives db b) \<longrightarrow> v = [] \<and> w = [])"
proof -
  from assms(2, 4) obtain wd u t where t: "solved k db flags wd u t" "so_changeset s' = so_changeset t"
    by (rule solve_solved)
  note new = solved_new [OF assms(1, 3) t(1)]
  have ab: "a \<in> new_packages (so_changeset t)" "b \<in> new_packages (so_changeset t)" using assms(5, 6) t(2) by simp_all
  have "pname db a \<noteq> pname db b" using new(3) [OF ab(1)] new(3) [OF ab(2)] assms(7) by auto
  moreover have "v = [] \<and> w = []" if "(n, v) \<in> set (gives db a)" "(n, w) \<in> set (gives db b)" for n v w
    using new(4) [OF ab(1) that(1)] new(4) [OF ab(2) that(2)] assms(7) by (auto simp: given_def)
  ultimately show ?thesis by blast
qed

text \<open>
  C3. When the solver reports no error, the packages of its change set do not compete: two of them
  never have the same name, and when both provide a name, both provide it without a version. The
  database must list a package under every name it gives and nothing else (\<open>db_ok\<close>), and the
  records of names and packages must be zeroed (\<open>clean\<close>), as the solver itself leaves them.
\<close>

theorem solver_one_provider:
  assumes "db_ok db" "clean s" "\<not> has_flag flags APK_SOLVERF_IGNORE_CONFLICT"
    and "apk_solver_solve r k db flags world s = Some (0, world', s')"
    and "a \<in> new_packages (so_changeset s')" "b \<in> new_packages (so_changeset s')" "a \<noteq> b"
  shows "pname db a \<noteq> pname db b \<and>
    (\<forall>n v w. (n, v) \<in> set (gives db a) \<longrightarrow> (n, w) \<in> set (gives db b) \<longrightarrow> v = [] \<and> w = [])"
  by (rule solution_one_provider [OF assms])



text \<open>
  C5. When the solver reports no error, no package of the change set has a conflict with the version
  under which another one provides a name.
\<close>

theorem solver_conflicts_respected:
  assumes "db_ok db" "clean s" "\<not> has_flag flags APK_SOLVERF_IGNORE_CONFLICT"
    and "apk_solver_solve r k db flags world s = Some (0, world', s')"
    and "a \<in> new_packages (so_changeset s')" "d \<in> set (pkg_depends (sd_pkg db a))" "by_version d" "apk_dep_conflict d"
    and "b \<in> new_packages (so_changeset s')" "(dname d, w) \<in> set (gives db b)" "w \<noteq> []"
  shows "is_provided db (Some a) d (Some b, w)"
proof -
  from assms(2, 4) obtain wd u t where t: "solved k db flags wd u t" "so_changeset s' = so_changeset t"
    by (rule solve_solved)
  note new = solved_new [OF assms(1, 3) t(1)] and sf = solved_facts [OF assms(1, 3) t(1)]
  have ab: "a \<in> new_packages (so_changeset t)" "b \<in> new_packages (so_changeset t)" using assms(5, 9) t(2) by simp_all
  have "dep_settled db u a d b w"
    using sf(1) new(1) [OF ab(1)] new(1) [OF ab(2)] assms(6, 7, 10) unfolding sound_inv_def by blast
  moreover have "chosen_of u (dname d) = (Some b, w)"
    using new(4) [OF ab(2) assms(10)] assms(11) by (auto simp: given_def)
  ultimately show ?thesis using new(5) [OF ab(1) assms(6)] by (simp add: dep_settled_def)
qed

text \<open>
  C6. When the solver reports no error, every package of the change set that provides a name of the
  world satisfies what the world asks of this name, unless the entry was given up as broken.
\<close>

theorem solver_world_met:
  assumes "db_ok db" "clean s" "\<not> has_flag flags APK_SOLVERF_IGNORE_CONFLICT"
    and "apk_solver_solve r k db flags world s = Some (0, world', s')"
    and "d \<in> set world'" "\<not> dep_broken d" "b \<in> new_packages (so_changeset s')" "(dname d, w) \<in> set (gives db b)"
  shows "is_provided db None d (Some b, w)"
proof -
  from assms(2, 4) obtain wd u t where t: "solved k db flags wd u t" "so_changeset s' = so_changeset t"
    "world' = map (layer_world db t) wd" by (rule solve_solved)
  have same: "dname (layer_world db t e) = dname e" "dep_broken (layer_world db t e) = dep_broken e"
    "is_provided db None (layer_world db t e) p = is_provided db None e p" for e p
    by (simp_all add: layer_world_def dname_def is_provided_def apk_dep_is_provided_def apk_dep_conflict_def
        apk_dep_match_checksum_def split: option.splits)
  from assms(5) t(3) obtain e where e: "e \<in> set wd" "d = layer_world db t e" by auto
  have b: "b \<in> new_packages (so_changeset t)" using assms(7) t(2) by simp
  have "is_provided db None e (Some b, w)"
    using solved_facts(1) [OF assms(1, 3) t(1)] solved_new(1) [OF assms(1, 3) t(1) b] e assms(6, 8)
    unfolding sound_inv_def by (simp add: same)
  then show ?thesis by (simp add: e(2) same)
qed

lemma one_filtered:
  assumes "distinct xs" "\<exists>x. x \<in> set xs \<and> Q x" "\<And>x y. x \<in> set xs \<Longrightarrow> y \<in> set xs \<Longrightarrow> Q x \<Longrightarrow> Q y \<Longrightarrow> x = y"
  shows "length (filter Q xs) = 1"
proof -
  from assms(2, 3) obtain x where "set (filter Q xs) = {x}" by (auto simp: set_eq_iff)
  then show ?thesis using assms(1) distinct_card [of "filter Q xs"] by simp
qed

text \<open>
  C7. When the solver reports no error, exactly one entry of the list of changes has a given installed
  package as its old package: nothing that is installed is forgotten or changed twice. Installed packages
  have different names.
\<close>

theorem solver_accounts_for_installed:
  assumes "db_ok db" "clean s" "\<not> has_flag flags APK_SOLVERF_IGNORE_CONFLICT"
    and "apk_solver_solve r k db flags world s = Some (0, world', s')"
    and "a \<in> set (sd_installed db)" "distinct (map (pname db) (sd_installed db))"
  shows "length (filter (\<lambda>ch. ch_old_pkg ch = Some a) (cs_changes (so_changeset s'))) = 1"
proof -
  from assms(2, 4) obtain wd u t where t: "solved k db flags wd u t" "so_changeset s' = so_changeset t"
    by (rule solve_solved)
  note new = solved_new [OF assms(1, 3) t(1)] and sf = solved_facts [OF assms(1, 3) t(1)]
  note gf = generate_facts [OF sf(4) sf(5) sf(6) sf(2)]
  have inst: "ns_installed_pkg (so_name t (pname db a)) = Some a"
    using prepare_facts(9) [OF assms(5, 6)] by (simp add: gf(10))
  have inst_name: "ns_installed_pkg (so_name t n) = Some i \<Longrightarrow> pname db i = n" for n i
    using prepare_facts(8) [of db u n i] by (simp add: gf(10))
  have newI: "ch_new_pkg ch = Some b \<Longrightarrow> ch \<in> set (changes_of t) \<Longrightarrow> b \<in> new_packages (so_changeset t)" for ch b
    by (auto simp: new_packages_def)
  have ok: "(ch_new_pkg ch = None \<and> ch_old_pkg ch \<noteq> None \<and> \<not> kept db t (the (ch_old_pkg ch))) \<or>
      (\<exists>b. ch_new_pkg ch = Some b \<and> ch_old_pkg ch = ns_installed_pkg (so_name t (pname db b)))"
    if "ch \<in> set (changes_of t)" for ch
    using gf(6) [OF that] by (auto simp: change_ok_def removal_ok_def)
  have uniq: "subject x = subject y" if "x \<in> set (changes_of t)" "y \<in> set (changes_of t)"
      "ch_old_pkg x = Some a" "ch_old_pkg y = Some a" for x y
  proof -
    have b: "pname db b = pname db a \<and> kept db t a"
      if "ch_new_pkg z = Some b" "z \<in> set (changes_of t)" "ch_old_pkg z = Some a" for z b
      using ok [OF that(2)] that inst_name [of "pname db b" a] new(3) [OF newI [OF that(1, 2)]] gf(2)
      by (auto simp: kept_def)
    show ?thesis
    proof (cases "kept db t a")
      case True
      with that ok [OF that(1)] ok [OF that(2)] obtain c e where c: "ch_new_pkg x = Some c" "ch_new_pkg y = Some e" by auto
      then have "chosen_of u (pname db a) = (Some c, the (pkg_version (sd_pkg db c)))"
        "chosen_of u (pname db a) = (Some e, the (pkg_version (sd_pkg db e)))"
        using b [of x c] b [of y e] that new(3) [OF newI [of x c]] new(3) [OF newI [of y e]] by auto
      with c show ?thesis by (simp add: subject_def)
    next
      case False
      with that ok [OF that(1)] ok [OF that(2)] b [of x] b [of y]
      have "ch_new_pkg x = None" "ch_new_pkg y = None" by auto
      with that show ?thesis by (simp add: subject_def)
    qed
  qed
  have "\<exists>ch \<in> set (changes_of t). ch_old_pkg ch = Some a"
  proof (cases "kept db t a")
    case True
    then obtain c where c: "fst (chosen_of u (pname db a)) = Some c" "pname db c = pname db a"
      by (auto simp: kept_def gf(2))
    have sel: "selected u c" using c(1) by (cases "chosen_of u (pname db a)") (auto simp: selected_def)
    from sf(8) [OF sel] obtain n0 v0 where prov: "(c, v0) \<in> set (sd_providers db n0)" by blast
    have own: "chosen_of u (pname db a) = (Some c, the (pkg_version (sd_pkg db c)))"
      using selected_own_name [OF assms(1) sf(1, 2) sel prov] c(2) by simp
    from gf(7) [OF gf(8) [OF assms(5)]] own gf(2) obtain b v where
      b: "selected u b" "marked t b" "(pname db a, v) \<in> set (gives db b)"
      by (auto simp: covered_def selected_def)
    then have "given u b (pname db a, v)" using sf(1) unfolding sound_inv_def by blast
    then have "b = c" using own db_okD(3) [OF assms(1) prov] by (auto simp: given_def)
    then have "c \<in> new_packages (so_changeset t)" using marked_new [OF assms(1, 3) t(1) sel _ prov] b(2) by simp
    then obtain ch where ch: "ch \<in> set (changes_of t)" "ch_new_pkg ch = Some c" by (auto simp: new_packages_def)
    then show ?thesis using ok [OF ch(1)] inst c(2) by auto
  next
    case False
    then have "marked t a" using gf(7) [OF gf(8) [OF assms(5)]] inst by (simp add: covered_def)
    from gf(5) [THEN iffD1, OF this] obtain ch where ch: "ch \<in> set (changes_of t)" "subject ch = a" by auto
    have "ch_new_pkg ch \<noteq> Some a"
      using new(3) [OF newI [OF _ ch(1)]] False gf(2) by (auto simp: kept_def)
    then show ?thesis using ok [OF ch(1)] ch by (auto simp: subject_def)
  qed
  moreover have "x = y" if "x \<in> set (changes_of t)" "y \<in> set (changes_of t)" "ch_old_pkg x = Some a" "ch_old_pkg y = Some a" for x y
    using uniq [OF that] gf(4) that(1, 2) by (auto simp: distinct_map inj_on_def)
  moreover have "distinct (changes_of t)" using gf(4) by (simp add: distinct_map)
  ultimately show ?thesis unfolding t(2) by (intro one_filtered) blast+
qed

end
