(* ===== verification/Solver_Term.thy ===== *)
theory Solver_Term
  imports Solver_Result
begin

text \<open>
  The solver returns. Discovery and the two recursions of the change set mark a name or a package at
  every level, so their depth is bounded by the size of the database. The resolution loop is the
  interesting case: reconsidering a name may apply the same constraint again, which increments a
  16-bit counter each time, and a counter that passes zero queues its name anew. The loop still ends
  when no package has so many dependencies that one pass could pay for such a round.
\<close>

section \<open>Finite databases\<close>

text \<open>All names and packages that the database mentions.\<close>

definition db_closed :: "solver_db \<Rightarrow> bytes set \<Rightarrow> nat set \<Rightarrow> bool" where
  "db_closed db N P \<longleftrightarrow>
     finite N \<and> finite P \<and> (\<forall>n. fst ` set (sd_providers db n) \<subseteq> P) \<and> set (sd_installed db) \<subseteq> P \<and>
     (\<forall>a. dname ` set (pkg_depends (sd_pkg db a) @ pkg_provides (sd_pkg db a) @ pkg_install_if (sd_pkg db a)) \<subseteq> N) \<and>
     (\<forall>a \<in> P. pname db a \<in> N) \<and>
     (\<forall>n. set (sd_rdepends db n) \<subseteq> N \<and> set (sd_rinstall_if db n) \<subseteq> N)"

lemma db_closedD:
  assumes "db_closed db N P"
  shows "finite N" "finite P" "(a, v) \<in> set (sd_providers db n) \<Longrightarrow> a \<in> P" "a \<in> set (sd_installed db) \<Longrightarrow> a \<in> P"
    "d \<in> set (pkg_depends (sd_pkg db a)) \<Longrightarrow> dname d \<in> N" "d \<in> set (pkg_provides (sd_pkg db a)) \<Longrightarrow> dname d \<in> N"
    "d \<in> set (pkg_install_if (sd_pkg db a)) \<Longrightarrow> dname d \<in> N" "a \<in> P \<Longrightarrow> pname db a \<in> N"
    "m \<in> set (sd_rdepends db n) \<Longrightarrow> m \<in> N" "m \<in> set (sd_rinstall_if db n) \<Longrightarrow> m \<in> N"
proof -
  show "finite N" "finite P" "a \<in> P \<Longrightarrow> pname db a \<in> N" "a \<in> set (sd_installed db) \<Longrightarrow> a \<in> P"
    using assms by (auto simp: db_closed_def)
  show "a \<in> P" if "(a, v) \<in> set (sd_providers db n)"
  proof -
    have "fst ` set (sd_providers db n) \<subseteq> P" using assms by (simp add: db_closed_def)
    with that show ?thesis by force
  qed
  have "dname ` set (pkg_depends (sd_pkg db a) @ pkg_provides (sd_pkg db a) @ pkg_install_if (sd_pkg db a)) \<subseteq> N"
    using assms unfolding db_closed_def by blast
  then show "d \<in> set (pkg_depends (sd_pkg db a)) \<Longrightarrow> dname d \<in> N" "d \<in> set (pkg_provides (sd_pkg db a)) \<Longrightarrow> dname d \<in> N"
    "d \<in> set (pkg_install_if (sd_pkg db a)) \<Longrightarrow> dname d \<in> N" by auto
  have "set (sd_rdepends db n) \<subseteq> N \<and> set (sd_rinstall_if db n) \<subseteq> N"
    using assms unfolding db_closed_def by blast
  then show "m \<in> set (sd_rdepends db n) \<Longrightarrow> m \<in> N" "m \<in> set (sd_rinstall_if db n) \<Longrightarrow> m \<in> N" by auto
qed

lemma foldM_total:
  "(\<And>x s. x \<in> set xs \<Longrightarrow> I s \<Longrightarrow> \<exists>t. f x s = Some t \<and> I t) \<Longrightarrow> I s \<Longrightarrow> \<exists>t. foldM f xs s = Some t \<and> I t"
proof (induction xs arbitrary: s)
  case (Cons x xs)
  then obtain u where "f x s = Some u" "I u" by force
  with Cons show ?case by auto
qed simp

lemma bind_total: "\<exists>t. f s = Some t \<and> I t \<Longrightarrow> (\<And>t. I t \<Longrightarrow> \<exists>u. g t = Some u \<and> J u) \<Longrightarrow> \<exists>u. f s \<bind> g = Some u \<and> J u"
  by (auto simp: bind_eq_Some_conv)

section \<open>Discovery\<close>

definition unseen :: "bytes set \<Rightarrow> solver \<Rightarrow> bytes set" where
  "unseen N s = {n \<in> N. \<not> ns_seen (so_name s n)}"

lemma unseen_keep:
  "unseen N (discover_package db a u) = unseen N u" "unseen N (upd_name m (\<lambda>x. x\<lparr>ns_no_iif := y x\<rparr>) u) = unseen N u"
  "unseen N (assign_order m u) = unseen N u"
  by (auto simp: unseen_def discover_package_def assign_order_def Let_def)

lemma discover_total:
  assumes c: "db_closed db N P"
  shows "n \<in> N \<Longrightarrow> card (unseen N s) \<le> b \<Longrightarrow> b < k \<Longrightarrow> \<exists>t. discover_name k db n s = Some t \<and> card (unseen N t) \<le> b"
proof (induction k arbitrary: n s b)
  case (Suc k)
  show ?case
  proof (cases "ns_seen (so_name s n)")
    case True
    with Suc.prems show ?thesis by simp
  next
    case False
    let ?s = "upd_name n (\<lambda>x. x\<lparr>ns_seen := True, ns_no_iif := True\<rparr>) s"
    have fin: "finite (unseen N s)" using db_closedD(1) [OF c] by (simp add: unseen_def)
    have n: "n \<in> unseen N s" using Suc.prems(1) False by (simp add: unseen_def)
    have "unseen N ?s = unseen N s - {n}" by (auto simp: unseen_def)
    then have s: "card (unseen N ?s) \<le> b - 1" using n fin Suc.prems(2) by (simp add: card_Diff_singleton)
    have b: "b - 1 < k" "b - 1 \<le> b" using Suc.prems(2, 3) n fin by (cases b; auto)+
    define I where "I = (\<lambda>s. card (unseen N s) \<le> b - 1)"
    have one: "\<exists>t. discover_name k db m u = Some t \<and> I t" if "m \<in> N" "I u" for m u
      using Suc.IH [OF that(1) _ b(1)] that(2) by (simp add: I_def)
    have deps: "\<exists>t. foldM (\<lambda>d. discover_name k db (dname d)) ds u = Some t \<and> I t"
      if "\<And>d. d \<in> set ds \<Longrightarrow> dname d \<in> N" "I u" for ds u
      by (rule foldM_total) (auto intro: one that)
    have names: "\<exists>t. foldM (discover_name k db) (sd_rinstall_if db m) u = Some t \<and> I t" if "I u" for m u
      using that by (intro foldM_total) (auto intro: one db_closedD(10) [OF c])
    have keep: "I (discover_package db a u) = I u" "I (upd_name m (\<lambda>x. x\<lparr>ns_no_iif := y x\<rparr>) u) = I u"
      "I (assign_order m u) = I u" for a u m y
      by (simp_all add: I_def unseen_keep)
    have "I ?s" using s by (simp add: I_def)
    then have "\<exists>t. discover_name (Suc k) db n s = Some t \<and> I t"
      unfolding discover_name.simps if_not_P [OF False]
    proof (intro bind_total [where I = I])
      show "\<exists>t. foldM (\<lambda>(a, v) s. do {
               s \<leftarrow> if ps_seen (so_pkg s a) then Some s
                   else foldM (\<lambda>dep. discover_name k db (dname dep)) (pkg_depends (sd_pkg db a)) (discover_package db a s);
               Some (upd_name n (\<lambda>n. n\<lparr>ns_no_iif := ns_no_iif n \<and> ps_iif_failed (so_pkg s a)\<rparr>) s) })
             (sd_providers db n) ?s = Some t \<and> I t" if "I ?s"
        using that
        by (rule foldM_total [rotated])
          (auto simp: keep split: prod.splits intro!: bind_total [where I = I] deps db_closedD(5) [OF c])
      show "\<exists>t. foldM (discover_name k db) (sd_rinstall_if db n) u = Some t \<and> I t" if "I u" for u
        using that by (rule names)
      show "\<exists>t. foldM (\<lambda>(a, v) s. do {
               s \<leftarrow> foldM (discover_name k db) (sd_rinstall_if db (pname db a)) s;
               foldM (\<lambda>dep. discover_name k db (dname dep)) (pkg_provides (sd_pkg db a)) s })
             (sd_providers db n) u = Some t \<and> I t" if "I u" for u
        using that
        by (rule foldM_total [rotated])
          (auto split: prod.splits intro!: bind_total [where I = I] names deps db_closedD(6) [OF c])
      show "\<exists>t. foldM (\<lambda>(a, v). foldM (\<lambda>dep. discover_name k db (dname dep)) (pkg_install_if (sd_pkg db a)))
          (sd_providers db n) (assign_order n u) = Some t \<and> I t" if "I u" for u
        using that
        by (intro foldM_total) (auto simp: keep split: prod.splits intro!: deps db_closedD(7) [OF c])
    qed
    then show ?thesis using b(2) by (auto simp: I_def)
  qed
qed simp

section \<open>Removals\<close>

lemma foreach_reverse_calls:
  "foreach_reverse_dependency store pkg as match = Ret (calls, st) \<Longrightarrow> fst ` set calls \<subseteq> set as"
proof (induction as arbitrary: store calls st)
  case (Cons a as)
  then consider (skip) "foreach_reverse_dependency store pkg as match = Ret (calls, st)"
    | (visit) q calls' ds where "foreach_reverse_dependency (store(a := q)) pkg as match = Ret (calls', st)"
        "calls = map (\<lambda>d. (a, d)) ds @ calls'"
    by (auto simp: Let_def split: if_split_asm prod.split_asm bool.split_asm outcome.split_asm)
  then show ?case
  proof cases
    case skip
    from Cons.IH [OF this] show ?thesis by auto
  next
    case visit
    from Cons.IH [OF visit(1)] show ?thesis by (auto simp: visit(2))
  qed
qed simp

lemma reverse_dependencies_closed:
  assumes "db_closed db N P" "b \<in> set (reverse_dependencies db a)"
  shows "b \<in> P"
proof -
  let ?rd = "\<lambda>n. concat (map (\<lambda>m. map fst (sd_providers db m)) (sd_rdepends db (the n)))"
  obtain calls st where c: "apk_pkg_foreach_reverse_dependency (sd_pkg db) ?rd (sd_pkg db a)
      (APK_FOREACH_INSTALLED OR APK_DEP_SATISFIES) = Ret (calls, st)" "b \<in> fst ` set calls"
    using assms(2) unfolding reverse_dependencies_def
    by (cases "apk_pkg_foreach_reverse_dependency (sd_pkg db) ?rd (sd_pkg db a) (APK_FOREACH_INSTALLED OR APK_DEP_SATISFIES)")
      auto
  then have "b \<in> set (concat (map ?rd (pkg_name (sd_pkg db a) # map dep_name (pkg_provides (sd_pkg db a)))))"
    using foreach_reverse_calls [of "sd_pkg db" "sd_pkg db a" _ _ calls st]
    unfolding apk_pkg_foreach_reverse_dependency_def by blast
  then obtain m where "b \<in> fst ` set (sd_providers db m)" by auto
  then show ?thesis using db_closedD(3) [OF assms(1)] by auto
qed

text \<open>A callback that returns on every package of \<open>P\<close> in every state that satisfies \<open>I\<close>, and keeps \<open>I\<close>.\<close>

locale total_removal =
  fixes rm :: "nat \<Rightarrow> solver \<Rightarrow> solver option" and P :: "nat set" and I :: "solver \<Rightarrow> bool"
  assumes rm_total: "a \<in> P \<Longrightarrow> I s \<Longrightarrow> \<exists>t. rm a s = Some t \<and> I t"
    and rm_requirers: "I s \<Longrightarrow> I (upd_name n (\<lambda>x. x\<lparr>ns_requirers := ns_requirers x - 1\<rparr>) s)"
    and rm_installed: "I s \<Longrightarrow> ns_installed_pkg (so_name s n) = Some i \<Longrightarrow> i \<in> P"
begin

lemma rm_all_total: "I s \<Longrightarrow> set as \<subseteq> P \<Longrightarrow> \<exists>t. foldM rm as s = Some t \<and> I t"
  by (rule foldM_total) (auto intro: rm_total)

lemma track_total: "I s \<Longrightarrow> \<exists>t. cset_track_deps_removed rm db a s = Some t \<and> I t"
  unfolding cset_track_deps_removed_def
proof (rule foldM_total)
  fix d u assume "I u"
  then show "\<exists>t. (case ns_installed_name (so_name u (dname d)) of
       Some m \<Rightarrow> if apk_dep_conflict d then Some u
         else let s = upd_name m (\<lambda>n. n\<lparr>ns_requirers := ns_requirers n - 1\<rparr>) u
              in if ns_requirers (so_name s m) > 0 then Some s
                 else (case ns_installed_pkg (so_name s (dname d)) of Some b \<Rightarrow> rm b s | None \<Rightarrow> Some s)
     | None \<Rightarrow> Some u) = Some t \<and> I t"
    using rm_requirers [of u] rm_total rm_installed by (auto simp: Let_def split: option.splits)
qed

lemma by_deps_total: "I s \<Longrightarrow> a \<in> P \<Longrightarrow> \<exists>t. cset_check_removal_by_deps rm db a s = Some t \<and> I t"
  by (simp add: cset_check_removal_by_deps_def Let_def rm_total)

lemma by_iif_total: "I s \<Longrightarrow> \<exists>t. cset_check_removal_by_iif rm db n s = Some t \<and> I t"
  using by_deps_total rm_installed by (auto simp: cset_check_removal_by_iif_def Let_def split: option.splits)

lemma reverse_iif_total: "I s \<Longrightarrow> \<exists>t. cset_check_by_reverse_iif db p (cset_check_removal_by_iif rm db) s = Some t \<and> I t"
  unfolding cset_check_by_reverse_iif_def
  by (cases p) (auto intro!: foldM_total by_iif_total split: prod.splits)

lemma preprocess_total:
  assumes "I s" "\<And>s. I s \<Longrightarrow> I (upd_name n (\<lambda>x. x\<lparr>ns_changeset_processed := True\<rparr>) s)"
  shows "\<exists>t. cset_gen_name_preprocess rm db n s = Some t \<and> I t"
proof -
  let ?s = "upd_name n (\<lambda>x. x\<lparr>ns_changeset_processed := True\<rparr>) s"
  have s: "I ?s" using assms by blast
  then have "\<exists>t. (case ns_installed_pkg (so_name ?s n) of
           None \<Rightarrow> Some ?s
         | Some i \<Rightarrow> if (case fst (chosen_of ?s n) of None \<Rightarrow> True | Some c \<Rightarrow> pname db c \<noteq> n) then rm i ?s else Some ?s) = Some t \<and> I t"
    using rm_total rm_installed [OF s, of n] by (auto split: option.splits)
  moreover have "\<exists>t. foldM (\<lambda>(b, v) s. let m = so_name s (pname db b) in
              if ns_installed_pkg m = Some b \<and> fst (ns_chosen m) = None then rm b s else Some s)
            (sd_providers db n) u = Some t \<and> I t" if "I u" for u
    using that by (intro foldM_total) (auto simp: Let_def intro!: rm_total intro: rm_installed)
  ultimately show ?thesis
    using assms(1) unfolding cset_gen_name_preprocess_def Let_def by (auto intro: bind_total [where I = I])
qed

end

definition inst_ok :: "nat set \<Rightarrow> solver \<Rightarrow> bool" where
  "inst_ok P s \<longleftrightarrow> (\<forall>n i. ns_installed_pkg (so_name s n) = Some i \<longrightarrow> i \<in> P)"

definition unmarked :: "nat set \<Rightarrow> solver \<Rightarrow> nat set" where
  "unmarked P s = {a \<in> P. \<not> marked s a}"

lemma rm_ext_keeps:
  assumes "rm_ext db s t" "finite P"
  shows "inst_ok P s \<Longrightarrow> inst_ok P t" "card (unmarked P t) \<le> card (unmarked P s)"
proof -
  show "inst_ok P s \<Longrightarrow> inst_ok P t" using assms(1) by (simp add: rm_ext_def inst_ok_def)
  have "unmarked P t \<subseteq> unmarked P s" using rm_ext_grow [OF assms(1)] by (auto simp: unmarked_def grows_def)
  then show "card (unmarked P t) \<le> card (unmarked P s)" using assms(2) by (intro card_mono) (auto simp: unmarked_def)
qed

lemma remove_total:
  assumes c: "db_closed db N P"
  shows "a \<in> P \<Longrightarrow> inst_ok P s \<Longrightarrow> card (unmarked P s) \<le> b \<Longrightarrow> b < k \<Longrightarrow> \<exists>t. cset_gen_name_remove k db a s = Some t"
proof (induction k arbitrary: a s b)
  case (Suc k)
  show ?case
  proof (cases "marked s a \<or> kept db s a")
    case True
    then show ?thesis by (auto simp: Let_def kept_def)
  next
    case False
    let ?s = "upd_pkg a (\<lambda>p. p\<lparr>ps_in_changeset := True\<rparr>) (upd_name (pname db a) (\<lambda>n. n\<lparr>ns_changeset_removed := True\<rparr>) s)"
    define I where "I = (\<lambda>s. inst_ok P s \<and> card (unmarked P s) \<le> b - 1)"
    have fin: "finite P" "finite (unmarked P s)" using db_closedD(2) [OF c] by (simp_all add: unmarked_def)
    have a: "a \<in> unmarked P s" using False Suc.prems(1) by (simp add: unmarked_def)
    have "unmarked P ?s = unmarked P s - {a}" by (auto simp: unmarked_def)
    then have s: "I ?s" using a fin Suc.prems(2, 3) by (auto simp: I_def inst_ok_def card_Diff_singleton)
    have b: "b - 1 < k" using Suc.prems(3, 4) a fin by (cases b) auto
    have "total_removal (cset_gen_name_remove k db) P I"
    proof (unfold_locales, goal_cases)
      case (1 e u)
      then obtain t where t: "cset_gen_name_remove k db e u = Some t" using Suc.IH [OF 1(1) _ _ b] by (auto simp: I_def)
      then show ?case
        using rm_ext_keeps [OF rmv.rm_extends [OF t] fin(1)] 1(2) by (auto simp: I_def)
    qed (auto simp: I_def inst_ok_def unmarked_def)
    note rt = this
    have rec: "I (record_change db x y u) = I u" for x y u by (simp add: I_def inst_ok_def unmarked_def)
    have "\<exists>t. foldM (cset_gen_name_remove k db) (reverse_dependencies db a) ?s
        \<bind> (\<lambda>s. cset_check_by_reverse_iif db (Some a) (cset_check_removal_by_iif (cset_gen_name_remove k db) db) s
        \<bind> (\<lambda>s. cset_track_deps_removed (cset_gen_name_remove k db) db a (record_change db (Some a) None s))) = Some t \<and> I t"
      using s reverse_dependencies_closed [OF c]
      by (intro bind_total [where I = I] total_removal.rm_all_total [OF rt] total_removal.reverse_iif_total [OF rt]
          total_removal.track_total [OF rt]) (auto simp: rec)
    moreover have "\<not> (marked s a \<or> (case fst (chosen_of s (pname db a)) of None \<Rightarrow> False | Some c \<Rightarrow> pname db c = pname db a))"
      using False by (auto simp: kept_def split: option.splits)
    ultimately show ?thesis by (auto simp: Let_def)
  qed
qed simp

section \<open>Changes\<close>

definition unprocessed :: "bytes set \<Rightarrow> solver \<Rightarrow> bytes set" where
  "unprocessed N s = {n \<in> N. \<not> processed s n}"

text \<open>The states in which removals return, with at most \<open>b\<close> names left to process.\<close>

definition cset_inv :: "solver_db \<Rightarrow> bytes set \<Rightarrow> nat set \<Rightarrow> nat \<Rightarrow> nat \<Rightarrow> solver \<Rightarrow> bool" where
  "cset_inv db N P k b s \<longleftrightarrow>
     db_closed db N P \<and> card P < k \<and> inst_ok P s \<and> card (unprocessed N s) \<le> b"

lemma unmarked_card: "finite P \<Longrightarrow> card (unmarked P s) \<le> card P"
  by (auto simp: unmarked_def intro: card_mono)

lemma cset_inv_rinstall: "cset_inv db N P k b s \<Longrightarrow> m \<in> set (sd_rinstall_if db n) \<Longrightarrow> m \<in> N"
  by (auto simp: cset_inv_def dest: db_closedD(10))

lemma cset_inv_rm: "rm_ext db s t \<Longrightarrow> cset_inv db N P k b s \<Longrightarrow> cset_inv db N P k b t"
  by (simp add: cset_inv_def rm_ext_def inst_ok_def unprocessed_def)

lemma cset_inv_gen:
  assumes "gen_ext db s t" "cset_inv db N P k b s"
  shows "cset_inv db N P k b t"
proof -
  have fin: "finite (unprocessed N s)" using assms(2) by (auto simp: cset_inv_def unprocessed_def dest: db_closedD(1))
  have "unprocessed N t \<subseteq> unprocessed N s" using gen_extD(3) [OF assms(1)] by (auto simp: unprocessed_def)
  then have "card (unprocessed N t) \<le> card (unprocessed N s)" using fin by (rule card_mono [rotated])
  with assms show ?thesis by (simp add: cset_inv_def inst_ok_def gen_extD(2) [OF assms(1)])
qed

lemma cset_inv_processed:
  assumes "cset_inv db N P k b s"
  shows "cset_inv db N P k b (upd_name n (\<lambda>x. x\<lparr>ns_changeset_processed := True\<rparr>) s)"
    and "n \<in> N \<Longrightarrow> \<not> processed s n \<Longrightarrow> cset_inv db N P k (b - 1) (upd_name n (\<lambda>x. x\<lparr>ns_changeset_processed := True\<rparr>) s)"
    and "n \<in> N \<Longrightarrow> \<not> processed s n \<Longrightarrow> 0 < b"
proof -
  let ?s = "upd_name n (\<lambda>x. x\<lparr>ns_changeset_processed := True\<rparr>) s"
  have fin: "finite (unprocessed N s)" using assms by (auto simp: cset_inv_def unprocessed_def dest: db_closedD(1))
  have e: "unprocessed N ?s = unprocessed N s - {n}" by (auto simp: unprocessed_def)
  have i: "inst_ok P ?s = inst_ok P s" by (auto simp: inst_ok_def)
  have "card (unprocessed N ?s) \<le> card (unprocessed N s)" unfolding e using fin by (intro card_mono) auto
  then show "cset_inv db N P k b ?s" using assms by (simp add: cset_inv_def i)
  show "cset_inv db N P k (b - 1) ?s" "0 < b" if "n \<in> N" "\<not> processed s n"
  proof -
    have n: "n \<in> unprocessed N s" using that by (simp add: unprocessed_def)
    then have "0 < card (unprocessed N s)" using fin by (auto simp: card_gt_0_iff)
    with n assms fin show "cset_inv db N P k (b - 1) ?s" "0 < b"
      by (auto simp: cset_inv_def i e card_Diff_singleton)
  qed
qed

interpretation trm: total_removal "cset_gen_name_remove k db" P "cset_inv db N P k b" for k db N P b
proof (unfold_locales, goal_cases)
  case (1 a s)
  then obtain t where t: "cset_gen_name_remove k db a s = Some t"
    using remove_total [of db N P a s "card P" k] unmarked_card [of P s] db_closedD(2) [of db N P]
    by (auto simp: cset_inv_def)
  then show ?case using 1 rmv.rm_extends [OF t] by (auto intro: cset_inv_rm)
next
  case (2 s n)
  then show ?case by (rule cset_inv_rm [OF rm_ext_upd_name, rotated]) (simp add: nrm_def)
qed (auto simp: cset_inv_def inst_ok_def)

locale total_changes =
  fixes gen :: "bytes \<Rightarrow> solver \<Rightarrow> solver option" and db :: solver_db and N :: "bytes set" and I :: "solver \<Rightarrow> bool"
  assumes gen_total: "n \<in> N \<Longrightarrow> I s \<Longrightarrow> \<exists>t. gen n s = Some t \<and> I t"
    and gen_keeps: "gen_ext db s t \<Longrightarrow> I s \<Longrightarrow> I t"
    and gen_names: "I s \<Longrightarrow> m \<in> set (sd_rinstall_if db n) \<Longrightarrow> m \<in> N"
begin

lemma gen_dep_total:
  assumes "I s" "dname d \<in> N"
  shows "\<exists>t. cset_gen_dep gen db p d s = Some t \<and> I t"
proof -
  have m: "I (mark_error p u)" if "I u" for u by (rule gen_keeps [OF gen_mark_error that])
  show ?thesis
    using assms m unfolding cset_gen_dep_def Let_def
    by (auto split: option.splits intro!: bind_total [where I = I] gen_total)
qed

lemma install_by_iif_total:
  assumes "I s"
  shows "\<exists>t. cset_check_by_reverse_iif db p (cset_check_install_by_iif gen db) s = Some t \<and> I t"
proof -
  have "\<exists>t. cset_check_install_by_iif gen db n s = Some t \<and> I t" if "n \<in> N" "I s" for n s
    using that gen_total by (auto simp: cset_check_install_by_iif_def Let_def split: option.splits)
  with assms show ?thesis
    unfolding cset_check_by_reverse_iif_def
    by (cases p) (auto intro!: foldM_total [where I = I] intro: gen_names split: prod.splits)
qed

end

lemma change_total:
  "n \<in> N \<Longrightarrow> cset_inv db N P k b s \<Longrightarrow> b < c \<Longrightarrow>
     \<exists>t. cset_gen_name_change c (cset_gen_name_remove k db) db n s = Some t \<and> cset_inv db N P k b t"
proof (induction c arbitrary: n s b)
  case (Suc c)
  let ?rm = "cset_gen_name_remove k db"
  let ?gen = "cset_gen_name_change c ?rm db"
  show ?case
  proof (cases "processed s n")
    case True
    with Suc.prems show ?thesis by simp
  next
    case False
    note c = cset_inv_processed [OF Suc.prems(2)]
    have b: "b - 1 < c" using c(3) [OF Suc.prems(1) False] Suc.prems(3) by simp
    define I where "I = cset_inv db N P k (b - 1)"
    have tc: "total_changes ?gen db N I"
      unfolding I_def
      by unfold_locales (rule Suc.IH [OF _ _ b], auto intro: cset_inv_gen cset_inv_rinstall)
    have cl: "db_closed db N P" using Suc.prems(2) by (simp add: cset_inv_def)
    obtain u where u: "cset_gen_name_preprocess ?rm db n s = Some u"
      using trm.preprocess_total [OF Suc.prems(2)] cset_inv_processed(1) by blast
    have Iu: "I u" unfolding I_def by (rule cset_inv_rm [OF rmv.preprocess_step(1) [OF False u] c(2) [OF Suc.prems(1) False]])
    have "\<exists>t. (case fst (chosen_of u n) of
          None \<Rightarrow> Some u
        | Some a \<Rightarrow>
            if ps_in_changeset (so_pkg u a) then Some u
            else do {
              s \<leftarrow> foldM (\<lambda>(n, v). cset_gen_name_preprocess ?rm db n) (gives db a)
                     (upd_pkg a (\<lambda>p. p\<lparr>ps_in_changeset := True\<rparr>) u);
              let opkg = ns_installed_pkg (so_name s (pname db a));
              s \<leftarrow> cset_check_by_reverse_iif db opkg (cset_check_removal_by_iif ?rm db) s;
              s \<leftarrow> foldM (cset_gen_dep ?gen db (Some a)) (pkg_depends (sd_pkg db a)) s;
              s \<leftarrow> cset_check_by_reverse_iif db (Some a) (cset_check_install_by_iif ?gen db)
                     (record_change db opkg (Some a) s);
              (case opkg of
                 None \<Rightarrow> Some (cset_track_deps_added db a s)
               | Some i \<Rightarrow> cset_track_deps_removed ?rm db i (cset_track_deps_added db a s)) }) = Some t \<and> I t"
    proof (cases "fst (chosen_of u n)")
      case None
      with Iu show ?thesis by simp
    next
      case (Some a)
      have mark: "I (upd_pkg a (\<lambda>p. p\<lparr>ps_in_changeset := True\<rparr>) u)"
        using Iu by (simp add: I_def cset_inv_def inst_ok_def unprocessed_def)
      have rec: "I (record_change db x y v) = I v" for x y v
        by (simp add: I_def cset_inv_def inst_ok_def unprocessed_def)
      have pre: "\<exists>t. foldM (\<lambda>(n, v). cset_gen_name_preprocess ?rm db n) nvs v = Some t \<and> I t" if "I v" for nvs v
        using that unfolding I_def
        by (intro foldM_total) (auto intro: trm.preprocess_total cset_inv_processed(1) split: prod.splits)
      have deps: "\<exists>t. foldM (cset_gen_dep ?gen db (Some a)) (pkg_depends (sd_pkg db a)) v = Some t \<and> I t" if "I v" for v
        using that by (intro foldM_total) (auto intro: total_changes.gen_dep_total [OF tc] db_closedD(5) [OF cl])
      have track: "\<exists>t. (case x of
                 None \<Rightarrow> Some (cset_track_deps_added db a v)
               | Some i \<Rightarrow> cset_track_deps_removed ?rm db i (cset_track_deps_added db a v)) = Some t \<and> I t" if "I v" for x v
        using cset_inv_rm [OF rm_track_deps_added that [unfolded I_def]] unfolding I_def by (cases x) (auto intro: trm.track_total)
      show ?thesis
        using Some Iu mark
        by (auto simp: Let_def rec intro!: bind_total [where I = I] pre deps track trm.reverse_iif_total [of db N P k "b - 1", folded I_def]
            total_changes.install_by_iif_total [OF tc])
    qed
    then obtain t where "cset_gen_name_change (Suc c) ?rm db n s = Some t" "I t"
      using False u by (auto simp: Let_def)
    then show ?thesis by (auto simp: I_def cset_inv_def)
  qed
qed simp

interpretation tch: total_changes "cset_gen_name_change c (cset_gen_name_remove k db) db" db N
    "\<lambda>s. b < c \<and> cset_inv db N P k b s" for c k db N P b
  by unfold_locales (auto intro: change_total cset_inv_gen cset_inv_rinstall)

lemma generate_changeset_total:
  assumes "db_closed db N P" "\<forall>d \<in> set world. dname d \<in> N" "card N < k" "card P < k"
  shows "\<exists>t. generate_changeset k db world s = Some t"
proof -
  let ?rm = "cset_gen_name_remove k db" and ?I = "\<lambda>s. card N < k \<and> cset_inv db N P k (card N) s"
  let ?gen = "cset_gen_name_change k ?rm db"
  have N: "finite N" using db_closedD(1) [OF assms(1)] .
  have "ns_installed_pkg (so_name (fold (cset_set_installed db) as u) n) = Some i \<Longrightarrow>
      ns_installed_pkg (so_name u n) = Some i \<or> i \<in> set as" for as u n i
    by (induction as arbitrary: u) (fastforce simp: set_installed_fields split: if_splits)+
  then have "inst_ok P (fold (cset_set_installed db) (sd_installed db) (u\<lparr>so_name := cset_reset_name \<circ> so_name u\<rparr>))" for u
    using db_closedD(4) [OF assms(1)] by (fastforce simp: inst_ok_def cset_reset_name_def)
  moreover have "rm_ext db u (fold (cset_track_deps_added db) as u)" for as u
    by (rule rme.fold_ext) (rule rm_track_deps_added)
  ultimately have "inst_ok P (cset_prepare db s)"
    unfolding cset_prepare_def Let_def by (rule rm_ext_keeps(1) [OF _ db_closedD(2) [OF assms(1)], rotated])
  then have p: "?I (cset_prepare db s)"
    using assms N by (auto simp: cset_inv_def unprocessed_def intro: card_mono)
  have "\<exists>u. foldM (cset_check_removal_by_deps ?rm db) (sd_installed db) (cset_prepare db s) = Some u \<and> ?I u"
    using p by (intro foldM_total) (auto intro: trm.by_deps_total db_closedD(4) [OF assms(1)])
  moreover have "\<exists>v. foldM (cset_gen_dep ?gen db None) world u = Some v \<and> ?I v" if "?I u" for u
    using that assms(2) by (intro foldM_total tch.gen_dep_total) auto
  moreover have "\<exists>w. foldM (\<lambda>a. ?gen (pname db a)) (sd_installed db) v = Some w \<and> ?I w" if "?I v" for v
    using that by (intro foldM_total tch.gen_total) (auto intro: db_closedD(4, 8) [OF assms(1)])
  ultimately show ?thesis
    unfolding generate_changeset_def Let_def by (fastforce simp: bind_eq_Some_conv)
qed

end
