(* ===== verification/Solver_Loop.thy ===== *)
theory Solver_Loop
  imports Solver_Term
begin

text \<open>The resolution loop ends: queued names stay undecided, and every step lowers a measure.\<close>

section \<open>The queues\<close>

text \<open>A name is at most once in one of the three queues of undecided names, and only while it is undecided.\<close>

definition wfq :: "bytes set \<Rightarrow> solver \<Rightarrow> bool" where
  "wfq N s \<longleftrightarrow>
     distinct (so_unresolved s @ so_selectable s @ so_resolvenow s) \<and>
     (\<forall>n. unresolved_hashed n s \<longrightarrow> n \<in> N \<and> \<not> ns_locked (so_name s n)) \<and> set (so_dirty s) \<subseteq> N"

definition queue_ext :: "bytes set \<Rightarrow> solver \<Rightarrow> solver \<Rightarrow> bool" where
  "queue_ext N s t \<longleftrightarrow> (\<forall>n. ns_locked (so_name t n) = ns_locked (so_name s n)) \<and> (wfq N s \<longrightarrow> wfq N t)"

interpretation qx: extension "queue_ext N" for N
  by unfold_locales (auto simp: queue_ext_def)

lemma queue_ext_upd:
  "ns_locked (f (so_name s n)) = ns_locked (so_name s n) \<Longrightarrow> queue_ext N s (upd_name n f s)"
  "queue_ext N s (upd_pkg a g s)"
  by (auto simp: queue_ext_def wfq_def unresolved_hashed_def)

lemma distinct_queue_insert [simp]: "distinct (queue_insert ord n ns) \<longleftrightarrow> n \<notin> set ns \<and> distinct ns"
  by (induction ns) auto

lemma wfq_unqueue: "wfq N s \<Longrightarrow> wfq N (unqueue n s) \<and> \<not> unresolved_hashed n (unqueue n s)"
  by (auto simp: wfq_def unqueue_def unresolved_hashed_def set_remove1_eq)

lemma wfq_enqueue:
  "wfq N s \<Longrightarrow> \<not> unresolved_hashed n s \<Longrightarrow> n \<in> N \<Longrightarrow> \<not> ns_locked (so_name s n) \<Longrightarrow> wfq N (enqueue_unresolved n s)"
  by (auto simp: wfq_def enqueue_unresolved_def Let_def unresolved_hashed_def)

lemma queue_ext_unresolved:
  assumes "n \<in> N"
  shows "queue_ext N s (queue_unresolved n r s)"
proof (cases "ns_locked (so_name s n)")
  case True
  then show ?thesis by (simp add: queue_unresolved_def qx.refl)
next
  case False
  have f: "wfq N (upd_name n (\<lambda>x. x\<lparr>ns_resolvenow := y x\<rparr>) s)" if "wfq N s" for y
    using that by (auto simp: wfq_def unresolved_hashed_def)
  have h: "unresolved_hashed n (upd_name n (\<lambda>x. x\<lparr>ns_resolvenow := y x\<rparr>) s) = unresolved_hashed n s" for y
    by (simp add: unresolved_hashed_def)
  have "wfq N (queue_unresolved n r s)" if w: "wfq N s"
    unfolding queue_unresolved_def Let_def
    using False assms w f [OF w] h wfq_unqueue [OF w, of n] wfq_unqueue [OF f [OF w], of n]
    by (auto intro!: wfq_enqueue)
  moreover have "ns_locked (so_name (queue_unresolved n r s) m) = ns_locked (so_name s m)" for m
    by (rule prop_chosen(2) [OF quiet_prop [OF quiet_queue_unresolved]])
  ultimately show ?thesis by (simp add: queue_ext_def)
qed

lemma queue_ext_dirty: "n \<in> N \<Longrightarrow> queue_ext N s (queue_dirty n s)"
  by (auto simp: queue_ext_def queue_dirty_def Let_def wfq_def unresolved_hashed_def)

lemma queue_ext_reverse:
  assumes "db_closed db N P"
  shows "queue_ext N s (reevaluate_reverse_deps db n s)" "queue_ext N s (reevaluate_reverse_installif db n s)"
    "queue_ext N s (reevaluate_reverse_installif_pkg db a s)"
proof -
  show "queue_ext N s (reevaluate_reverse_deps db n s)" for n s
    unfolding reevaluate_reverse_deps_def
    by (rule qx.fold_ext)
      (auto intro!: qx.refl qx.trans [OF queue_ext_upd(1) queue_ext_dirty] intro: db_closedD(9) [OF assms])
  show i: "queue_ext N s (reevaluate_reverse_installif db n s)" for n s
    unfolding reevaluate_reverse_installif_def
    by (rule qx.fold_ext)
      (auto intro!: qx.refl qx.trans [OF queue_ext_upd(1) queue_ext_dirty] intro: db_closedD(10) [OF assms])
  show "queue_ext N s (reevaluate_reverse_installif_pkg db a s)"
    unfolding reevaluate_reverse_installif_pkg_def by (rule qx.trans [OF i qx.fold_ext]) (rule i)
qed

lemma queue_ext_disqualify:
  assumes "db_closed db N P"
  shows "queue_ext N s (disqualify_package db a s)"
  unfolding disqualify_package_def
  by (rule qx.trans [OF qx.trans [OF qx.trans [OF queue_ext_upd(2) queue_ext_reverse(1) [OF assms]] qx.fold_ext]
      queue_ext_reverse(3) [OF assms]]) (rule queue_ext_reverse(1) [OF assms])

lemma queue_ext_changed:
  assumes "db_closed db N P" "n \<in> N"
  shows "queue_ext N s (name_requirers_changed db n s)"
  unfolding name_requirers_changed_def
  by (rule qx.trans [OF qx.trans [OF queue_ext_unresolved [OF assms(2)] queue_ext_reverse(2) [OF assms(1)]]
      queue_ext_dirty [OF assms(2)]])

lemma queue_solver_prop:
  assumes "db_closed db N P"
  shows "solver_prop (queue_ext N) db N"
proof (unfold_locales, goal_cases)
  case (5 a v n s c)
  then show ?case
    unfolding count_conflict_def Let_def
    by (auto intro: queue_ext_upd(2) qx.trans [OF queue_ext_upd(2) queue_ext_disqualify [OF assms]])
qed (auto intro: queue_ext_upd queue_ext_unresolved queue_ext_disqualify [OF assms] queue_ext_changed [OF assms]
    db_closedD(5, 7) [OF assms] simp: ncore_def)

text \<open>Deciding a name takes it out of the queues.\<close>

lemma wfq_lock: "wfq N s \<Longrightarrow> wfq N (lock_name n p s)"
  using wfq_unqueue [of N s n]
  by (auto simp: wfq_def lock_name_def Let_def unqueue_def unresolved_hashed_def upd_name_def
      dest: in_set_remove1 [THEN iffD1, rotated] notin_set_remove1)

lemma wfq_assign:
  assumes c: "db_closed db N P" and w: "wfq N s"
  shows "wfq N (assign_name db n p s)"
proof (cases "ns_locked (so_name s n)")
  case True
  have "wfq N (mark_error q u) = wfq N u" for q u
    by (simp add: mark_error_def wfq_def unresolved_hashed_def split: option.splits)
  with True w show ?thesis by (simp add: assign_name_def Let_def)
next
  case False
  note sp = queue_solver_prop [OF c]
  have iif: "queue_ext N s (fold (\<lambda>d s. if ns_locked (so_name s (dname d)) then s else apply_constraint db (Some a) d s)
      (pkg_install_if (sd_pkg db a)) s)" for a s
    by (rule qx.fold_ext) (auto simp: qx.refl intro: solver_prop.apply_constraint [OF sp] db_closedD(7) [OF c])
  have dis: "queue_ext N s (fold (\<lambda>(b, v) s. if x b v then s else disqualify_package db b s) ps s)" for x ps s
    by (rule qx.fold_ext) (auto simp: qx.refl intro: queue_ext_disqualify [OF c])
  have "queue_ext N (lock_name n p s) (assign_name db n p s)"
    using False unfolding assign_name_def Let_def lock_name_def
    by (auto split: option.splits
        intro!: qx.refl qx.trans [OF _ queue_ext_reverse(1) [OF c]] qx.trans [OF _ queue_ext_reverse(2) [OF c]]
          qx.trans [OF _ queue_ext_reverse(3) [OF c]] qx.trans [OF _ dis] qx.trans [OF _ iif])
  with wfq_lock [OF w] show ?thesis by (simp add: queue_ext_def)
qed

lemma wfq_select:
  assumes c: "db_closed db N P" and w: "wfq N s"
  shows "wfq N (select_package db n s)"
proof (cases "fst (select_provider db n s)")
  case None
  then show ?thesis
    using wfq_assign [OF c w] by (auto simp: select_package_def Let_def wfq_def unresolved_hashed_def)
next
  case (Some a)
  have m: "wfq N (mark_error q u) = wfq N u" for q u
    by (simp add: mark_error_def wfq_def unresolved_hashed_def split: option.splits)
  have as: "wfq N u \<Longrightarrow> wfq N (fold (\<lambda>(n, v). assign_name db n (Some a, v)) nvs u)" for nvs u
    by (induction nvs arbitrary: u) (auto intro: wfq_assign [OF c])
  have ds: "queue_ext N u (fold (apply_constraint db (Some a)) (pkg_depends (sd_pkg db a)) u)" for u
    by (rule qx.fold_ext)
      (auto intro: solver_prop.apply_constraint [OF queue_solver_prop [OF c]] db_closedD(5) [OF c])
  show ?thesis
    using Some w as ds by (auto simp: select_package_def Let_def m queue_ext_def)
qed

lemma step_wfq:
  assumes c: "db_closed db N P" and w: "wfq N s" and t: "solve_step db s = Some t"
  shows "wfq N t"
proof (cases "so_dirty s")
  case Nil
  then obtain n u where u: "dequeue_next_name s = Some (n, u)" and t: "t = select_package db n u"
    using t by (auto simp: solve_step_def split: option.splits)
  have "wfq N u" using w u by (auto simp: wfq_def dequeue_next_name_def unresolved_hashed_def split: list.splits)
  then show ?thesis unfolding t by (rule wfq_select [OF c])
next
  case (Cons n ns)
  then have "t = reconsider_name db n (s\<lparr>so_dirty := ns\<rparr>)" "n \<in> N" "wfq N (s\<lparr>so_dirty := ns\<rparr>)"
    using t w by (auto simp: solve_step_def wfq_def unresolved_hashed_def)
  with solver_prop.reconsider_name [OF queue_solver_prop [OF c]] show ?thesis by (simp add: queue_ext_def)
qed

section \<open>The cost of reconsidering a name\<close>

definition dropped :: "nat set \<Rightarrow> solver \<Rightarrow> solver \<Rightarrow> bool" where
  "dropped P s t \<longleftrightarrow> (\<exists>a \<in> P. ps_selectable (so_pkg s a) \<and> \<not> ps_selectable (so_pkg t a))"

definition still_ext :: "nat set \<Rightarrow> solver \<Rightarrow> solver \<Rightarrow> bool" where
  "still_ext P s t \<longleftrightarrow>
     sel_anti s t \<and>
     (dropped P s t \<or> (so_dirty t = so_dirty s \<and> (\<forall>n. ns_requirers (so_name t n) = ns_requirers (so_name s n))))"

lemma dropped_trans:
  "dropped P s t \<Longrightarrow> sel_anti t u \<Longrightarrow> dropped P s u" "sel_anti s t \<Longrightarrow> dropped P t u \<Longrightarrow> dropped P s u"
  by (auto simp: dropped_def sel_anti_def)

lemma sel_anti_trans: "sel_anti s t \<Longrightarrow> sel_anti t u \<Longrightarrow> sel_anti s u"
  by (auto simp: sel_anti_def)

interpretation stl: extension "still_ext P" for P
proof (unfold_locales, goal_cases)
  case (2 s t u)
  then show ?case
    by (auto simp: still_ext_def intro: dropped_trans sel_anti_trans)
qed (simp add: still_ext_def sel_anti_def)

lemma quiet_still: "quiet_ext s t \<Longrightarrow> still_ext P s t"
  by (simp add: ext_defs still_ext_def)

lemma req_sel_anti: "req_ext s t \<Longrightarrow> sel_anti s t"
  by (simp add: req_ext_def prop_ext_def)

lemma still_solver_rel:
  assumes c: "db_closed db N P"
  shows "solver_rel (still_ext P) db UNIV"
proof (unfold_locales, goal_cases)
  case (4 a v n s)
  then show ?case
    using disqualified [of db a s] db_closedD(3) [OF c 4(1)] req_sel_anti [OF req_disqualify, of s db a]
    by (auto simp: still_ext_def dropped_def)
next
  case (5 a v n s c)
  let ?s = "upd_pkg a (\<lambda>q. q\<lparr>ps_conflicts := ps_conflicts q + c\<rparr>) s"
  have "sel_anti s (count_conflict db a c s)" by (rule req_sel_anti [OF req_count_conflict])
  moreover have "still_ext P s ?s" by (auto simp: still_ext_def sel_anti_def)
  ultimately show ?case
    using disqualified [of db a ?s] db_closedD(3) [OF assms 5]
    by (auto simp: count_conflict_def Let_def still_ext_def dropped_def)
qed (auto intro: quiet_still quiet_upd quiet_queue_unresolved)

text \<open>
  The load of a state: the dirty names, each with the most dependencies that one of its providers has, and for
  every name how far its counter of requirers is from the value at which it queues the name.
\<close>

definition fill :: "u16 \<Rightarrow> nat" where
  "fill r = unat (r - 1)"

definition ndeps :: "solver_db \<Rightarrow> bytes \<Rightarrow> nat" where
  "ndeps db n = foldr max (map (\<lambda>(a, v). length (pkg_depends (sd_pkg db a))) (sd_providers db n)) 0"

definition weight :: "solver_db \<Rightarrow> nat \<Rightarrow> bytes \<Rightarrow> nat" where
  "weight db R n = 1 + (1 + R) * ndeps db n"

definition load :: "solver_db \<Rightarrow> bytes set \<Rightarrow> nat \<Rightarrow> solver \<Rightarrow> nat" where
  "load db N R s = sum_list (map (weight db R) (so_dirty s)) + (1 + R) * (\<Sum>n \<in> N. fill (ns_requirers (so_name s n)))"

lemma ndeps_le: "(a, v) \<in> set (sd_providers db n) \<Longrightarrow> length (pkg_depends (sd_pkg db a)) \<le> ndeps db n"
proof -
  have "x \<in> set xs \<Longrightarrow> x \<le> foldr max xs 0" for x :: nat and xs by (induction xs) auto
  then show "(a, v) \<in> set (sd_providers db n) \<Longrightarrow> length (pkg_depends (sd_pkg db a)) \<le> ndeps db n"
    unfolding ndeps_def by force
qed

definition cost :: "solver_db \<Rightarrow> bytes set \<Rightarrow> nat set \<Rightarrow> nat \<Rightarrow> nat \<Rightarrow> solver \<Rightarrow> solver \<Rightarrow> bool" where
  "cost db N P R c s t \<longleftrightarrow> sel_anti s t \<and> (dropped P s t \<or> load db N R t \<le> load db N R s + c)"

lemma cost_trans: "cost db N P R c s t \<Longrightarrow> cost db N P R d t u \<Longrightarrow> cost db N P R (c + d) s u"
  by (auto simp: cost_def intro: dropped_trans sel_anti_trans)

lemma still_cost: "still_ext P s t \<Longrightarrow> cost db N P R 0 s t"
  by (auto simp: still_ext_def cost_def load_def)

lemma cost_mono: "cost db N P R c s t \<Longrightarrow> c \<le> d \<Longrightarrow> cost db N P R d s t"
  by (auto simp: cost_def)

lemma cost_fold:
  "(\<And>x s. x \<in> set xs \<Longrightarrow> cost db N P R c s (f x s)) \<Longrightarrow> cost db N P R (length xs * c) s (fold f xs s)"
proof (induction xs arbitrary: s)
  case Nil
  then show ?case by (simp add: cost_def sel_anti_def)
next
  case (Cons x xs)
  then have "cost db N P R c s (f x s)" "cost db N P R (length xs * c) (f x s) (fold f xs (f x s))" by auto
  from cost_trans [OF this] show ?case by simp
qed

lemma fill_Suc: "r \<noteq> 0 \<Longrightarrow> fill (r + 1) = fill r + 1"
proof -
  assume "r \<noteq> 0"
  then have "unat r \<noteq> 0" by (simp add: unat_eq_0)
  then have "unat (r - 1) = unat r - 1" by (simp add: unat_sub_if_size unat_minus_one)
  then show ?thesis using \<open>unat r \<noteq> 0\<close> by (simp add: fill_def)
qed

lemma fill_0: "fill 0 = 65535" "fill 1 = 0"
  by (simp_all add: fill_def unsigned_minus_1_eq_mask mask_eq_exp_minus_1)

lemma load_requirers:
  assumes "finite N" "n \<in> N"
  shows "load db N R (upd_name n (\<lambda>x. x\<lparr>ns_requirers := ns_requirers x + 1\<rparr>) s) +
      (1 + R) * fill (ns_requirers (so_name s n)) =
    load db N R s + (1 + R) * fill (ns_requirers (so_name s n) + 1)"
proof -
  let ?t = "upd_name n (\<lambda>x. x\<lparr>ns_requirers := ns_requirers x + 1\<rparr>) s"
  let ?f = "\<lambda>s n. fill (ns_requirers (so_name s n))"
  have "(\<Sum>m \<in> N - {n}. ?f ?t m) = (\<Sum>m \<in> N - {n}. ?f s m)" by (rule sum.cong) auto
  then have "sum (?f ?t) N + ?f s n = sum (?f s) N + fill (ns_requirers (so_name s n) + 1)"
    using assms by (simp add: sum.remove)
  then have "(1 + R) * (sum (?f ?t) N + ?f s n) = (1 + R) * (sum (?f s) N + fill (ns_requirers (so_name s n) + 1))"
    by (simp only:)
  then show ?thesis by (simp add: load_def algebra_simps)
qed

lemma dirty_weight: "sum_list (map w (so_dirty (queue_dirty n s))) \<le> sum_list (map w (so_dirty s)) + (w n :: nat)"
  by (simp add: queue_dirty_def Let_def)

lemma installif_weight:
  "sum_list (map w (so_dirty (reevaluate_reverse_installif db n s))) \<le>
     sum_list (map w (so_dirty s)) + (sum_list (map w (sd_rinstall_if db n)) :: nat)"
proof -
  let ?f = "\<lambda>n s. if ns_seen (so_name s n) \<and> \<not> ns_no_iif (so_name s n)
      then queue_dirty n (upd_name n (\<lambda>x. x\<lparr>ns_reevaluate_iif := True\<rparr>) s) else s"
  have one: "sum_list (map w (so_dirty (?f n u))) \<le> sum_list (map w (so_dirty u)) + w n" for n u
    using dirty_weight [of w n "upd_name n (\<lambda>x. x\<lparr>ns_reevaluate_iif := True\<rparr>) u"] by simp
  have "sum_list (map w (so_dirty (fold ?f ns u))) \<le> sum_list (map w (so_dirty u)) + sum_list (map w ns)" for ns u
  proof (induction ns arbitrary: u)
    case (Cons n ns)
    have "sum_list (map w (so_dirty (fold ?f ns (?f n u)))) \<le> sum_list (map w (so_dirty (?f n u))) + sum_list (map w ns)" by (rule Cons.IH)
    with one [of u n] show ?case by simp
  qed simp
  then show ?thesis unfolding reevaluate_reverse_installif_def by blast
qed

text \<open>
  The burst of a name: when its counter comes to one, the name and its \<open>rinstall_if\<close> names are reconsidered,
  and each applies the dependencies of at most one of its providers.
\<close>

definition burst :: "solver_db \<Rightarrow> bytes \<Rightarrow> nat" where
  "burst db n = sum_list (map (ndeps db) (n # sd_rinstall_if db n))"

definition db_bounded :: "solver_db \<Rightarrow> bytes set \<Rightarrow> nat \<Rightarrow> bool" where
  "db_bounded db N R \<longleftrightarrow> (\<forall>n \<in> N. length (sd_rinstall_if db n) \<le> R \<and> burst db n < 65536)"

lemma burst_weight: "sum_list (map (weight db R) ns) = length ns + (1 + R) * sum_list (map (ndeps db) ns)"
  by (induction ns) (auto simp: weight_def algebra_simps)

text \<open>Telling the reverse dependencies that a name is required queues at most the name and its \<open>rinstall_if\<close> names.\<close>

lemma changed_load:
  assumes "length (sd_rinstall_if db n) \<le> R" "burst db n < 65536"
  shows "load db N R (name_requirers_changed db n s) \<le> load db N R s + 65536 * (1 + R)"
proof -
  let ?u = "queue_unresolved n False s" and ?w = "weight db R"
  have d: "so_dirty ?u = so_dirty s" using quiet_queue_unresolved [of s n False] by (simp add: quiet_ext_def)
  have "sum_list (map ?w (n # sd_rinstall_if db n)) \<le> (1 + R) + (1 + R) * burst db n"
    unfolding burst_weight burst_def [symmetric] using assms(1) by simp
  also have "\<dots> = (1 + R) * (1 + burst db n)" by (simp add: algebra_simps)
  also have "\<dots> \<le> (1 + R) * 65536" using assms(2) by (intro mult_le_mono2) simp
  finally have "sum_list (map ?w (so_dirty (name_requirers_changed db n s))) \<le> sum_list (map ?w (so_dirty s)) + 65536 * (1 + R)"
    using dirty_weight [of ?w n "reevaluate_reverse_installif db n ?u"] installif_weight [of ?w db n ?u]
    by (simp add: name_requirers_changed_def d)
  moreover have "ns_requirers (so_name (name_requirers_changed db n s) m) = ns_requirers (so_name s m)" for m
    using req_requirers_changed [of s db n] by (simp add: req_ext_def)
  ultimately show ?thesis by (simp add: load_def)
qed

lemma cost_refl: "cost db N P R c s s"
  by (simp add: cost_def sel_anti_def)

text \<open>One requirer more costs at most \<open>1 + R\<close>, whether or not it is the first one.\<close>

lemma require_cost:
  fixes db s
  assumes N: "finite N" "n \<in> N" and R: "length (sd_rinstall_if db n) \<le> R" "burst db n < 65536"
  defines "t \<equiv> upd_name n (\<lambda>x. x\<lparr>ns_requirers := ns_requirers x + 1\<rparr>) s"
  shows "cost db N P R (1 + R) s (if ns_requirers (so_name t n) = 1 then name_requirers_changed db n t else t)"
proof -
  let ?u = "if ns_requirers (so_name t n) = 1 then name_requirers_changed db n t else t"
  note l = load_requirers [OF N, of db R s, folded t_def]
  have "sel_anti t ?u" using req_sel_anti [OF req_requirers_changed, of t db n] by (auto simp: sel_anti_def)
  then have "sel_anti s ?u" by (simp add: t_def sel_anti_def)
  moreover have "load db N R ?u \<le> load db N R s + (1 + R)"
  proof (cases "ns_requirers (so_name s n) = 0")
    case True
    then have "load db N R t + (1 + R) * 65535 = load db N R s" using l by (simp add: fill_0)
    moreover have "load db N R ?u \<le> load db N R t + 65536 * (1 + R)" using changed_load [OF R, of N t] by simp
    ultimately show ?thesis by (simp add: algebra_simps)
  next
    case False
    then have "load db N R t = load db N R s + (1 + R)" using l fill_Suc [OF False] by (simp add: algebra_simps)
    moreover have "ns_requirers (so_name t n) \<noteq> 1" using False by (simp add: t_def)
    ultimately show ?thesis by simp
  qed
  ultimately show ?thesis by (simp add: cost_def)
qed

lemma apply_constraint_cost:
  assumes c: "db_closed db N P" and b: "db_bounded db N R" and d: "dname d \<in> N"
  shows "cost db N P R (1 + R) s (apply_constraint db p d s)"
proof (cases "apk_dep_conflict d")
  case True
  have "still_ext P s (fold (constrain_provider db p d) (sd_providers db (dname d)) s)"
    by (rule solver_rel.constrain_all [OF still_solver_rel [OF c]])
  with True show ?thesis
    by (auto simp: apply_constraint_def Let_def intro!: cost_mono [OF still_cost] stl.refl)
next
  case False
  let ?t = "upd_name (dname d) (\<lambda>x. x\<lparr>ns_requirers := ns_requirers x + 1\<rparr>) s"
  let ?u = "if ns_requirers (so_name ?t (dname d)) = 1 then name_requirers_changed db (dname d) ?t else ?t"
  have "cost db N P R (1 + R) s ?u"
    using db_closedD(1) [OF c] d b by (intro require_cost) (auto simp: db_bounded_def)
  moreover have "cost db N P R 0 ?u (fold (constrain_provider db p d) (sd_providers db (dname d)) ?u)"
    by (rule still_cost [OF solver_rel.constrain_all [OF still_solver_rel [OF c]]])
  ultimately have "cost db N P R (1 + R + 0) s (fold (constrain_provider db p d) (sd_providers db (dname d)) ?u)"
    by (rule cost_trans)
  with False show ?thesis by (simp add: apply_constraint_def Let_def)
qed

lemma propagate_depend_cost:
  assumes c: "db_closed db N P" and b: "db_bounded db N R" and d: "dname d \<in> N"
  shows "cost db N P R (1 + R) s (propagate_depend db a k d s)"
proof -
  note sr = still_solver_rel [OF c]
  let ?m = "upd_name (dname d) (\<lambda>x. x\<lparr>ns_merge_depends := fst (merge_index_complete (ns_merge_depends (so_name s (dname d))) k)\<rparr>) s"
  have m: "cost db N P R 0 s ?m" by (rule still_cost [OF solver_rel.merged_depends [OF sr]])
  let ?t = "upd_name (dname d) (\<lambda>x. x\<lparr>ns_requirers := ns_requirers x + 1\<rparr>) ?m"
  have "cost db N P R (1 + R) ?m (if ns_requirers (so_name ?t (dname d)) = 1 then name_requirers_changed db (dname d) ?t else ?t)"
    using db_closedD(1) [OF c] d b by (intro require_cost) (auto simp: db_bounded_def)
  then have r: "cost db N P R (1 + R) ?m (name_requirers_changed db (dname d) ?t)" if "ns_requirers (so_name ?m (dname d)) = 0"
    using that by simp
  have i: "cost db N P R 0 u (fold (\<lambda>(b, v). inherit_pinning_and_flags db b (Some a)) (sd_providers db (dname d)) u)" for u
    by (rule still_cost [OF solver_rel.inherits [OF sr]])
  have "cost db N P R (1 + R) ?m (propagate_depend db a k d s)"
    using apply_constraint_cost [OF c b d, of ?m "Some a"] cost_trans [OF r i] cost_refl [of db N P R "1 + R" ?m]
    by (auto simp: propagate_depend_def merged_depends_done_def Let_def split: prod.splits)
  from cost_trans [OF m this] show ?thesis by simp
qed

lemma candidate_provider:
  "fold (consider_provider db n x y) ps (s, rc) = (t, rc') \<Longrightarrow> rc_first_candidate rc' = Some a \<Longrightarrow>
     rc_first_candidate rc = Some a \<or> a \<in> fst ` set ps"
proof (induction ps arbitrary: s rc)
  case (Cons p ps)
  obtain s1 rc1 where 1: "consider_provider db n x y p (s, rc) = (s1, rc1)" by fastforce
  then have "rc_first_candidate rc1 = Some a \<Longrightarrow> rc_first_candidate rc = Some a \<or> a = fst p"
    by (auto simp: consider_provider_def Let_def split: prod.splits if_splits option.splits)
  with Cons 1 show ?case by fastforce
qed simp

lemma reconsider_cost:
  assumes c: "db_closed db N P" and b: "db_bounded db N R"
  shows "cost db N P R (ndeps db n * (1 + R)) s (reconsider_name db n s)"
proof -
  note sr = still_solver_rel [OF c]
  have cand: "cost db N P R (ndeps db n * (1 + R)) u (propagate_candidate db n a k u)" if "a \<in> fst ` set (sd_providers db n)" for u a k
  proof -
    let ?v = "fold (\<lambda>(b, v). upd_pkg b (\<lambda>p. p\<lparr>ps_dependencies_used := ps_dependencies_merged p\<rparr>)) (sd_providers db n) u"
    let ?w = "fold (propagate_depend db a k) (pkg_depends (sd_pkg db a)) ?v"
    let ?ns = "pname db a # map dname (pkg_provides (sd_pkg db a))"
    have "cost db N P R 0 u ?v" by (rule still_cost [OF solver_rel.candidate_before [OF sr]])
    moreover have "cost db N P R (length (pkg_depends (sd_pkg db a)) * (1 + R)) ?v ?w"
      by (rule cost_fold) (rule propagate_depend_cost [OF c b db_closedD(5) [OF c]])
    ultimately have "cost db N P R (0 + length (pkg_depends (sd_pkg db a)) * (1 + R)) u ?w" by (rule cost_trans)
    moreover have "cost db N P R 0 ?w (propagate_candidate db n a k u)"
      unfolding propagate_candidate_def Let_def by (rule still_cost [OF solver_rel.candidate_after [OF sr]])
    ultimately have "cost db N P R (0 + length (pkg_depends (sd_pkg db a)) * (1 + R) + 0) u (propagate_candidate db n a k u)"
      by (rule cost_trans)
    then show ?thesis by (rule cost_mono) (use that ndeps_le in \<open>auto simp del: mult_Suc_right intro: mult_le_mono1\<close>)
  qed
  let ?s = "upd_name n (\<lambda>n. n\<lparr>ns_reevaluate_deps := False, ns_reevaluate_iif := False\<rparr>) s"
  obtain t rc where f: "fold (consider_provider db n (ns_reevaluate_deps (so_name s n)) (ns_reevaluate_iif (so_name s n)))
      (sd_providers db n) (?s, \<lparr>rc_first_candidate = None, rc_num_options = 0, rc_num_tag_not_ok = 0, rc_has_iif = False,
                     rc_no_iif = True, rc_has_auto_selectable = False\<rparr>) = (t, rc)"
    by (cases "fold (consider_provider db n (ns_reevaluate_deps (so_name s n)) (ns_reevaluate_iif (so_name s n)))
      (sd_providers db n) (?s, \<lparr>rc_first_candidate = None, rc_num_options = 0, rc_num_tag_not_ok = 0, rc_has_iif = False,
                     rc_no_iif = True, rc_has_auto_selectable = False\<rparr>)") simp
  define u where "u = upd_name n (\<lambda>n. n\<lparr>ns_has_options := rc_num_options rc > 1 \<or> rc_num_tag_not_ok rc > 0,
                       ns_has_iif := rc_has_iif rc, ns_no_iif := rc_no_iif rc,
                       ns_has_auto_selectable := rc_has_auto_selectable rc\<rparr>) t"
  have su: "cost db N P R 0 s u"
    unfolding u_def by (rule still_cost [OF solver_rel.reconsider_before [OF sr f]])
  define v where "v = (case rc_first_candidate rc of None \<Rightarrow> u | Some a \<Rightarrow> propagate_candidate db n a (rc_num_options rc) u)"
  have "rc_first_candidate rc = Some a \<Longrightarrow> a \<in> fst ` set (sd_providers db n)" for a using candidate_provider [OF f] by simp
  then have uv: "cost db N P R (ndeps db n * (1 + R)) u v"
    unfolding v_def using cand by (auto split: option.splits intro: cost_mono [OF still_cost [OF stl.refl]])
  have "still_ext P v (queue_unresolved n y (upd_name n (\<lambda>n. n\<lparr>ns_reverse_deps_done := x\<rparr>) v))" for x y
    by (rule stl.trans [OF solver_rel.reconsider_flags(1) [OF sr] solver_rel.queue [OF sr UNIV_I]])
  moreover have "\<exists>x y. reconsider_name db n s = queue_unresolved n y (upd_name n (\<lambda>n. n\<lparr>ns_reverse_deps_done := x\<rparr>) v)"
    unfolding reconsider_name_def Let_def f prod.case v_def u_def by (intro exI) (rule refl)
  ultimately have "cost db N P R 0 v (reconsider_name db n s)" by (metis still_cost)
  from cost_trans [OF cost_trans [OF su uv] this] show ?thesis by simp
qed

section \<open>Termination\<close>

definition undecided :: "bytes set \<Rightarrow> solver \<Rightarrow> bytes set" where
  "undecided N s = {n \<in> N. \<not> ns_locked (so_name s n)}"

definition selectables :: "nat set \<Rightarrow> solver \<Rightarrow> nat set" where
  "selectables P s = {a \<in> P. ps_selectable (so_pkg s a)}"

definition loop_order :: "solver_db \<Rightarrow> bytes set \<Rightarrow> nat set \<Rightarrow> nat \<Rightarrow> (solver \<times> solver) set" where
  "loop_order db N P R = measures [\<lambda>s. card (undecided N s), \<lambda>s. card (selectables P s), load db N R]"

lemma step_decreases:
  assumes ok: "db_ok db" and c: "db_closed db N P" and b: "db_bounded db N R" and w: "wfq N s" and t: "solve_step db s = Some t"
  shows "(t, s) \<in> loop_order db N P R"
proof -
  have fin: "finite (undecided N s)" "finite (selectables P s)"
    using db_closedD(1, 2) [OF c] by (simp_all add: undecided_def selectables_def)
  show ?thesis
  proof (cases "so_dirty s")
    case Nil
    then obtain n u where u: "dequeue_next_name s = Some (n, u)" and t: "t = select_package db n u"
      using t by (auto simp: solve_step_def split: option.splits)
    have n: "n \<in> undecided N s"
      using w u by (auto simp: wfq_def dequeue_next_name_def unresolved_hashed_def undecided_def split: list.splits)
    have "sel_ext u t" unfolding t by (rule sel_select)
    then have "undecided N t \<subseteq> undecided N s - {n}"
      using select_locks [OF ok, of n u] dequeue_fields(1) [OF u] by (auto simp: undecided_def sel_ext_def t)
    then have "card (undecided N t) < card (undecided N s)"
      using n fin(1) by (meson card_Diff1_less card_mono finite_Diff order_le_less_trans)
    then show ?thesis by (simp add: loop_order_def)
  next
    case (Cons n ns)
    let ?s = "s\<lparr>so_dirty := ns\<rparr>"
    have t: "t = reconsider_name db n ?s" using Cons t by (simp add: solve_step_def)
    have l: "undecided N t = undecided N s"
      using prop_chosen(2) [OF prop_reconsider_name] by (simp add: t undecided_def)
    have cost: "cost db N P R (ndeps db n * (1 + R)) ?s t" unfolding t by (rule reconsider_cost [OF c b])
    then have sub: "selectables P t \<subseteq> selectables P s" by (auto simp: cost_def sel_anti_def selectables_def)
    show ?thesis
    proof (cases "selectables P t = selectables P s")
      case True
      then have "\<not> dropped P ?s t" by (auto simp: dropped_def selectables_def)
      then have "load db N R t \<le> load db N R ?s + ndeps db n * (1 + R)" using cost by (simp add: cost_def)
      moreover have "load db N R s = load db N R ?s + (1 + ndeps db n * (1 + R))" using Cons by (simp add: load_def weight_def algebra_simps)
      ultimately have "load db N R t < load db N R s" by linarith
      then show ?thesis using l True by (simp add: loop_order_def)
    next
      case False
      then have "card (selectables P t) < card (selectables P s)" using sub fin(2) by (intro psubset_card_mono) auto
      then show ?thesis using l by (simp add: loop_order_def)
    qed
  qed
qed

lemma solve_loop_total:
  assumes ok: "db_ok db" and c: "db_closed db N P" and b: "db_bounded db N R"
  shows "wfq N s \<Longrightarrow> \<exists>k t. solve_loop k db s = Some t"
proof (induction s rule: wf_induct_rule [OF wf_measures [of "[\<lambda>s. card (undecided N s), \<lambda>s. card (selectables P s), load db N R]"]])
  case (1 s)
  show ?case
  proof (cases "solve_step db s")
    case None
    then have "solve_loop 1 db s = Some s" by simp
    then show ?thesis by blast
  next
    case (Some t)
    have "(t, s) \<in> loop_order db N P R" by (rule step_decreases [OF ok c b 1(2) Some])
    moreover have "wfq N t" by (rule step_wfq [OF c 1(2) Some])
    ultimately obtain k u where "solve_loop k db t = Some u" using 1(1) unfolding loop_order_def by blast
    then have "solve_loop (Suc k) db s = Some u" using Some by simp
    then show ?thesis by blast
  qed
qed

lemma solve_loop_mono: "solve_loop k db s = Some t \<Longrightarrow> k \<le> l \<Longrightarrow> solve_loop l db s = Some t"
proof (induction k arbitrary: s l)
  case (Suc k)
  then obtain l' where "l = Suc l'" "k \<le> l'" by (cases l) auto
  with Suc show ?case by (auto split: option.splits)
qed simp

section \<open>The solver returns\<close>

lemma apply_world_queue:
  assumes "db_closed db N P" "dname d \<in> N"
  shows "queue_ext N s (apply_world db d s)"
proof -
  have "queue_ext N s (s\<lparr>so_pinning_inherit := x\<rparr>)" for x
    by (simp add: queue_ext_def wfq_def unresolved_hashed_def)
  then show ?thesis
    unfolding apply_world_def
    by (rule qx.trans [OF _ solver_prop.apply_constraint [OF queue_solver_prop [OF assms(1)] assms(2)]])
qed

lemma setup_wfq:
  assumes c: "db_closed db N P" and t: "setup_world k db fl world s = Some t" and w: "\<forall>d \<in> set world. dname d \<in> N"
  shows "wfq N t"
proof -
  from t obtain u where u: "foldM (\<lambda>d. discover_name k db (dname d)) (live world) (solver_init db fl s) = Some u"
    and t: "t = (fold (apply_world db) (live world) u)\<lparr>so_flags_inherit := 0, so_pinning_inherit := 0\<rparr>"
    by (auto simp: setup_world_def Let_def apply_world_def [abs_def] bind_eq_Some_conv)
  have "disc_ext (solver_init db fl s) u" by (rule disc_names(1) [OF disc_name u])
  then have e: "\<forall>n. \<not> unresolved_hashed n u" "so_dirty u = []"
    by (simp_all add: disc_ext_def unresolved_hashed_def solver_init_def)
  from e(1) have "so_unresolved u = []" "so_selectable u = []" "so_resolvenow u = []"
    unfolding unresolved_hashed_def by (metis list.exhaust list.set_intros(1))+
  with e have "wfq N u" by (simp add: wfq_def)
  moreover have "queue_ext N u (fold (apply_world db) (live world) u)"
    by (rule qx.fold_ext) (use w in \<open>auto intro: apply_world_queue [OF c]\<close>)
  ultimately have "wfq N (fold (apply_world db) (live world) u)" by (simp add: queue_ext_def)
  then show ?thesis by (simp add: t wfq_def unresolved_hashed_def)
qed

lemma setup_total:
  assumes c: "db_closed db N P" and w: "\<forall>d \<in> set world. dname d \<in> N" and k: "card N < k"
  shows "\<exists>t. setup_world k db fl world s = Some t"
proof -
  let ?I = "\<lambda>s. card (unseen N s) \<le> card N"
  have "?I (solver_init db fl s)" using db_closedD(1) [OF c] by (auto simp: unseen_def intro: card_mono)
  then have "\<exists>u. foldM (\<lambda>d. discover_name k db (dname d)) (live world) (solver_init db fl s) = Some u \<and> ?I u"
    by (rule foldM_total [rotated]) (use w k in \<open>auto intro: discover_total [OF c]\<close>)
  then show ?thesis by (auto simp: setup_world_def Let_def)
qed

text \<open>More fuel does not change what was found.\<close>

definition extends :: "'a option \<Rightarrow> 'a option \<Rightarrow> bool" where
  "extends x y \<longleftrightarrow> (\<forall>t. x = Some t \<longrightarrow> y = Some t)"

lemma extends_intros:
  "extends x x"
  "extends x y \<Longrightarrow> (\<And>s. extends (f s) (g s)) \<Longrightarrow> extends (x \<bind> f) (y \<bind> g)"
  "(c \<Longrightarrow> extends x y) \<Longrightarrow> (\<not> c \<Longrightarrow> extends u v) \<Longrightarrow> extends (if c then x else u) (if c then y else v)"
  by (auto simp: extends_def bind_eq_Some_conv)

lemma foldM_extends: "(\<And>x s. extends (f x s) (g x s)) \<Longrightarrow> extends (foldM f xs s) (foldM g xs s)"
  by (induction xs arbitrary: s) (auto intro!: extends_intros)

lemma discover_mono: "k \<le> l \<Longrightarrow> extends (discover_name k db n s) (discover_name l db n s)"
proof (induction k arbitrary: n s l)
  case (Suc k)
  from Suc.prems obtain j where l: "l = Suc j" and j: "k \<le> j" by (cases l) auto
  show ?case
    unfolding l discover_name.simps by (auto intro!: extends_intros foldM_extends Suc.IH [OF j])
qed (simp add: extends_def)

lemma setup_mono:
  assumes "setup_world k db fl world s = Some t" "k \<le> l"
  shows "setup_world l db fl world s = Some t"
proof -
  have "extends (setup_world k db fl world s) (setup_world l db fl world s)"
    unfolding setup_world_def Let_def by (intro extends_intros foldM_extends discover_mono assms(2))
  with assms(1) show ?thesis by (simp add: extends_def)
qed

lemma solver_ends:
  assumes ok: "db_ok db" and c: "db_closed db N P" and b: "\<forall>n \<in> N. burst db n < 65536"
    and w: "\<forall>d \<in> set world. dname d \<in> N" and f: "\<not> sd_force_broken_world db"
  shows "\<exists>k\<^sub>0. \<forall>k \<ge> k\<^sub>0. \<exists>res. apk_solver_solve (Suc r) k db fl world s = Some res"
proof -
  have "\<exists>R. \<forall>n \<in> N. length (sd_rinstall_if db n) \<le> R"
    using finite_nat_set_iff_bounded_le [of "(\<lambda>n. length (sd_rinstall_if db n)) ` N"] db_closedD(1) [OF c] by auto
  then obtain R where bd: "db_bounded db N R" using b by (auto simp: db_bounded_def)
  let ?w = "qsort cmp_pkgname world" and ?k = "Suc (card N + card P)"
  have w': "\<forall>d \<in> set ?w. dname d \<in> N" using w by simp
  obtain t where t: "setup_world ?k db fl ?w s = Some t" using setup_total [OF c w', of ?k fl s] by (auto simp: less_Suc_eq_le)
  obtain l u where u: "solve_loop l db t = Some u" using solve_loop_total [OF ok c bd setup_wfq [OF c t w']] by blast
  have "\<exists>res. apk_solver_solve (Suc r) k db fl world s = Some res" if k: "max ?k l \<le> k" for k
  proof -
    have "solve_world k db fl ?w s = Some u"
      using setup_mono [OF t, of k] solve_loop_mono [OF u, of k] k by (simp add: solve_world_def)
    moreover obtain v where "generate_changeset k db ?w u = Some v"
      using generate_changeset_total [OF c w', of k u] k by auto
    ultimately show ?thesis using f by (simp add: apk_solver_solve_def)
  qed
  then show ?thesis by blast
qed

text \<open>
  C8. When broken worlds are not forced, so that there is one attempt, the solver returns on a finite
  database: there is a number of steps from which on the discovery, the resolution loop and the generation
  of the change set all end. This takes that the burst of every name is below the wrap-around of the 16-bit
  counters: the dependencies of the largest provider of the name, plus those of the largest provider of each
  name that has it as an install-if, are fewer than 65536.
\<close>

theorem solver_returns:
  assumes ok: "db_ok db" and c: "db_closed db N P" and b: "\<forall>n \<in> N. burst db n < 65536"
    and w: "\<forall>d \<in> set world. dname d \<in> N" and f: "\<not> sd_force_broken_world db"
  shows "\<exists>k\<^sub>0. \<forall>k \<ge> k\<^sub>0. \<exists>res. apk_solver_solve (Suc r) k db fl world s = Some res"
  by (rule solver_ends [OF assms])

end
