(* ===== verification/Solver_World.thy ===== *)
theory Solver_World
  imports Solver_Loop
begin

text \<open>
  What the world asks for is provided. The solver counts with 16 bits how often a name is required and
  gives up a name that nobody requires, so the proof counts how often the counter is raised: in one step at
  most as often as the dependencies of one package ask for the name.
\<close>

section \<open>How often a counter is raised\<close>

definition asked :: "bytes \<Rightarrow> apk_dependency list \<Rightarrow> nat" where
  "asked n ds = length (filter (\<lambda>d. dname d = n) ds)"

text \<open>In a step that selects a package, its install-if may be applied for every name that it gives.\<close>

definition asks :: "solver_db \<Rightarrow> bytes \<Rightarrow> nat \<Rightarrow> nat" where
  "asks db n a = asked n (pkg_depends (sd_pkg db a)) + length (gives db a) * asked n (pkg_install_if (sd_pkg db a))"

definition incs :: "bytes \<Rightarrow> nat \<Rightarrow> solver \<Rightarrow> solver \<Rightarrow> bool" where
  "incs n c s t \<longleftrightarrow> (\<exists>j \<le> c. ns_requirers (so_name t n) = ns_requirers (so_name s n) + of_nat j)"

lemma incs_same: "ns_requirers (so_name t n) = ns_requirers (so_name s n) \<Longrightarrow> incs n c s t"
  unfolding incs_def by (rule exI [of _ 0]) simp

lemma incs_zero: "incs n 0 s t \<longleftrightarrow> ns_requirers (so_name t n) = ns_requirers (so_name s n)"
  by (simp add: incs_def)

lemma incs_mono: "incs n c s t \<Longrightarrow> c \<le> d \<Longrightarrow> incs n d s t"
  unfolding incs_def by (meson le_trans)

lemma incs_trans: "incs n c s t \<Longrightarrow> incs n d t u \<Longrightarrow> incs n (c + d) s u"
proof -
  assume "incs n c s t" "incs n d t u"
  then obtain i j where "i \<le> c" "j \<le> d" "ns_requirers (so_name u n) = ns_requirers (so_name s n) + of_nat (i + j)"
    by (auto simp: incs_def add.assoc)
  then show ?thesis unfolding incs_def by (intro exI [of _ "i + j"]) simp
qed

lemma incs_fold:
  "(\<And>x s. x \<in> set xs \<Longrightarrow> incs n (c x) s (f x s)) \<Longrightarrow> incs n (sum_list (map c xs)) s (fold f xs s)"
proof (induction xs arbitrary: s)
  case (Cons x xs)
  then have "incs n (c x) s (f x s)" "incs n (sum_list (map c xs)) (f x s) (fold f xs (f x s))" by auto
  from incs_trans [OF this] show ?case by simp
qed (simp add: incs_same)

lemma incs_deps:
  assumes "\<And>d s. incs n (asked n [d]) s (f d s)"
  shows "incs n (asked n ds) s (fold f ds s)"
proof -
  have "asked n ds = sum_list (map (\<lambda>d. asked n [d]) ds)" by (induction ds) (auto simp: asked_def)
  then show ?thesis using incs_fold [of ds n "\<lambda>d. asked n [d]" f s] assms by simp
qed

lemma incs_req: "req_ext s t \<Longrightarrow> incs n c s t"
  by (simp add: req_ext_def incs_same)

lemma incs_solver_rel: "solver_rel (incs n 0) db UNIV"
proof (unfold_locales, goal_cases)
  case (2 s t u)
  then show ?case using incs_trans [of n 0 s t 0 u] by simp
next
  case (3 f s m)
  then show ?case by (cases "m = n") (auto simp: incs_zero)
qed (auto simp: incs_zero intro: incs_req [THEN incs_zero [THEN iffD1]] quiet_req quiet_queue_unresolved req_disqualify req_count_conflict)

lemma incs_apply_constraint: "incs n (asked n [d]) s (apply_constraint db p d s)"
proof -
  note sr = incs_solver_rel [of n db]
  let ?t = "upd_name (dname d) (\<lambda>x. x\<lparr>ns_requirers := ns_requirers x + of_bool (\<not> apk_dep_conflict d)\<rparr>) s"
  let ?u = "if ns_requirers (so_name ?t (dname d)) = 1 \<and> \<not> apk_dep_conflict d then name_requirers_changed db (dname d) ?t else ?t"
  have "incs n (asked n [d]) s ?t"
    unfolding incs_def by (rule exI [of _ "if dname d = n \<and> \<not> apk_dep_conflict d then 1 else 0"]) (auto simp: asked_def)
  moreover have "incs n 0 ?t ?u" by (auto intro: incs_req req_requirers_changed re.refl)
  moreover have "incs n 0 ?u (fold (constrain_provider db p d) (sd_providers db (dname d)) ?u)"
    by (rule solver_rel.constrain_all [OF sr])
  ultimately have "incs n (asked n [d] + 0 + 0) s (fold (constrain_provider db p d) (sd_providers db (dname d)) ?u)"
    by (blast intro: incs_trans)
  then show ?thesis by (auto simp: apply_constraint_def Let_def incs_same)
qed

lemma world_requires:
  assumes "\<not> apk_dep_conflict d"
  shows "ns_requirers (so_name (apply_world db d s) (dname d)) = ns_requirers (so_name s (dname d)) + 1"
proof -
  let ?n = "dname d"
  note sr = incs_solver_rel [of ?n db]
  have c: "ns_requirers (so_name (fold (constrain_provider db None d) (sd_providers db ?n) u) ?n) = ns_requirers (so_name u ?n)" for u
    using solver_rel.constrain_all [OF sr, of u None d ?n] by (simp add: incs_zero)
  have r: "ns_requirers (so_name (name_requirers_changed db ?n u) ?n) = ns_requirers (so_name u ?n)" for u
    using req_requirers_changed [of u db ?n] by (simp add: req_ext_def)
  show ?thesis using assms by (simp add: apply_world_def apply_constraint_def Let_def c r)
qed

lemma incs_constraints: "incs n (asked n ds) s (fold (apply_constraint db p) ds s)"
  by (rule incs_deps) (rule incs_apply_constraint)

lemma incs_propagate_depend: "incs n (asked n [d]) s (propagate_depend db a k d s)"
proof -
  note sr = incs_solver_rel [of n db]
  let ?m = "upd_name (dname d) (\<lambda>x. x\<lparr>ns_merge_depends := fst (merge_index_complete (ns_merge_depends (so_name s (dname d))) k)\<rparr>) s"
  let ?t = "name_requirers_changed db (dname d) (upd_name (dname d) (\<lambda>x. x\<lparr>ns_requirers := ns_requirers x + 1\<rparr>) ?m)"
  have m: "incs n 0 s ?m" by (rule solver_rel.merged_depends [OF sr])
  have "incs n (asked n [d]) ?m (upd_name (dname d) (\<lambda>x. x\<lparr>ns_requirers := ns_requirers x + 1\<rparr>) ?m)"
    unfolding incs_def by (rule exI [of _ "if dname d = n then 1 else 0"]) (auto simp: asked_def)
  from incs_trans [OF this incs_req [OF req_requirers_changed, of _ 0]]
  have r: "incs n (asked n [d] + 0) ?m ?t" .
  have "incs n 0 u (fold (\<lambda>(b, v). inherit_pinning_and_flags db b (Some a)) (sd_providers db (dname d)) u)" for u
    by (rule solver_rel.inherits [OF sr])
  from incs_trans [OF r this] have i: "incs n (asked n [d]) ?m
      (fold (\<lambda>(b, v). inherit_pinning_and_flags db b (Some a)) (sd_providers db (dname d)) ?t)" by simp
  have "incs n (asked n [d]) ?m (propagate_depend db a k d s)"
    using incs_apply_constraint [of n d ?m db "Some a"] i incs_same [of ?m n ?m "asked n [d]"]
    by (auto simp: propagate_depend_def merged_depends_done_def Let_def split: prod.splits)
  from incs_trans [OF m this] show ?thesis by simp
qed

lemma incs_reconsider:
  assumes "\<And>a. asked n (pkg_depends (sd_pkg db a)) \<le> b"
  shows "incs n b s (reconsider_name db m s)"
proof -
  note sr = incs_solver_rel [of n db]
  have cand: "incs n b u (propagate_candidate db m a k u)" for u a k
  proof -
    let ?v = "fold (\<lambda>(b, v). upd_pkg b (\<lambda>p. p\<lparr>ps_dependencies_used := ps_dependencies_merged p\<rparr>)) (sd_providers db m) u"
    let ?w = "fold (propagate_depend db a k) (pkg_depends (sd_pkg db a)) ?v"
    have "incs n 0 u ?v" by (rule solver_rel.candidate_before [OF sr])
    moreover have "incs n (asked n (pkg_depends (sd_pkg db a))) ?v ?w"
      by (rule incs_deps) (rule incs_propagate_depend)
    moreover have "incs n 0 ?w (propagate_candidate db m a k u)"
      unfolding propagate_candidate_def Let_def by (rule solver_rel.candidate_after [OF sr])
    ultimately have "incs n (0 + asked n (pkg_depends (sd_pkg db a)) + 0) u (propagate_candidate db m a k u)"
      by (blast intro: incs_trans)
    then show ?thesis by (rule incs_mono) (simp add: assms)
  qed
  obtain t rc where f: "fold (consider_provider db m (ns_reevaluate_deps (so_name s m)) (ns_reevaluate_iif (so_name s m)))
      (sd_providers db m) (upd_name m (\<lambda>n. n\<lparr>ns_reevaluate_deps := False, ns_reevaluate_iif := False\<rparr>) s,
        \<lparr>rc_first_candidate = None, rc_num_options = 0, rc_num_tag_not_ok = 0, rc_has_iif = False,
                     rc_no_iif = True, rc_has_auto_selectable = False\<rparr>) = (t, rc)" by fastforce
  define u where "u = upd_name m (\<lambda>n. n\<lparr>ns_has_options := rc_num_options rc > 1 \<or> rc_num_tag_not_ok rc > 0,
                       ns_has_iif := rc_has_iif rc, ns_no_iif := rc_no_iif rc,
                       ns_has_auto_selectable := rc_has_auto_selectable rc\<rparr>) t"
  have su: "incs n 0 s u" unfolding u_def by (rule solver_rel.reconsider_before [OF sr f])
  define v where "v = (case rc_first_candidate rc of None \<Rightarrow> u | Some a \<Rightarrow> propagate_candidate db m a (rc_num_options rc) u)"
  have uv: "incs n b u v" unfolding v_def using cand by (auto split: option.splits intro: incs_same)
  have "incs n 0 v (queue_unresolved m y (upd_name m (\<lambda>n. n\<lparr>ns_reverse_deps_done := x\<rparr>) v))" for x y
    using incs_trans [OF solver_rel.reconsider_flags(1) [OF sr] solver_rel.queue [OF sr UNIV_I]] by simp
  moreover have "\<exists>x y. reconsider_name db m s = queue_unresolved m y (upd_name m (\<lambda>n. n\<lparr>ns_reverse_deps_done := x\<rparr>) v)"
    unfolding reconsider_name_def Let_def f prod.case v_def u_def by (intro exI) (rule refl)
  ultimately have "incs n 0 v (reconsider_name db m s)" by metis
  from incs_trans [OF incs_trans [OF su uv] this] show ?thesis by simp
qed

lemma mark_error_requirers [simp]: "ns_requirers (so_name (mark_error p s) n) = ns_requirers (so_name s n)"
  by (simp add: mark_error_def split: option.splits)

lemma incs_assign:
  "incs n (case fst p of None \<Rightarrow> 0 | Some a \<Rightarrow> asked n (pkg_install_if (sd_pkg db a))) s (assign_name db m p s)"
proof (cases "ns_locked (so_name s m)")
  case True
  then show ?thesis by (simp add: assign_name_def Let_def incs_same)
next
  case False
  let ?c = "case fst p of None \<Rightarrow> 0 | Some a \<Rightarrow> asked n (pkg_install_if (sd_pkg db a))"
  have lock: "incs n 0 s (lock_name m p s)" by (simp add: incs_zero)
  have iif: "incs n (asked n ds) u (fold (\<lambda>d s. if ns_locked (so_name s (dname d)) then s else apply_constraint db q d s) ds u)" for q ds u
    by (rule incs_deps) (auto intro: incs_same incs_apply_constraint)
  define v where "v = (case fst p of
      Some a \<Rightarrow> if ns_requirers (so_name s m) = 0 \<and> ps_iif_triggered (so_pkg (lock_name m p s) a)
        then fold (\<lambda>d s. if ns_locked (so_name s (dname d)) then s else apply_constraint db (Some a) d s) (pkg_install_if (sd_pkg db a)) (lock_name m p s)
        else lock_name m p s
    | None \<Rightarrow> lock_name m p s)"
  have v: "incs n ?c (lock_name m p s) v" unfolding v_def using iif by (auto split: option.splits intro: incs_same)
  have dis: "req_ext u (fold (\<lambda>(b, w) s. if x b w then s else disqualify_package db b s) ps u)" for x ps u
    by (rule re.fold_ext) (auto simp: re.refl intro: req_disqualify)
  have "req_ext v (assign_name db m p s)"
    using False unfolding assign_name_def Let_def v_def lock_name_def
    by (auto split: option.splits
        intro!: re.refl re.trans [OF _ req_reverse_deps] re.trans [OF _ req_reverse_installif] re.trans [OF _ req_reverse_installif_pkg] dis)
  then have "incs n 0 v (assign_name db m p s)" by (rule incs_req)
  from incs_trans [OF incs_trans [OF lock v] this] show ?thesis by simp
qed

lemma incs_select:
  assumes "\<And>a. asks db n a \<le> b"
  shows "incs n b s (select_package db m s)"
proof (cases "fst (select_provider db m s)")
  case None
  have "incs n 0 s (assign_name db m provider_none s)"
    using incs_assign [of n db provider_none s m] by (simp add: provider_none_def)
  then show ?thesis using None incs_mono [of n 0 s _ b] by (simp add: select_package_def Let_def incs_zero)
next
  case (Some a)
  define v where "v = (if \<not> ps_selectable (so_pkg s a) \<or> \<not> ps_tag_ok (so_pkg s a) then mark_error (Some a) s else s)"
  let ?w = "fold (\<lambda>(n, v). assign_name db n (Some a, v)) (gives db a) v"
  have "incs n 0 s v" by (simp add: v_def incs_zero)
  moreover have "incs n (asked n (pkg_install_if (sd_pkg db a))) u ((\<lambda>(n, v). assign_name db n (Some a, v)) x u)" for x u
    using incs_assign [of n db "(Some a, snd x)" u "fst x"] by (simp add: case_prod_beta)
  then have "incs n (sum_list (map (\<lambda>x. asked n (pkg_install_if (sd_pkg db a))) (gives db a))) v ?w" by (rule incs_fold)
  moreover have "incs n (asked n (pkg_depends (sd_pkg db a))) ?w (select_package db m s)"
    using Some incs_constraints [of n "pkg_depends (sd_pkg db a)" ?w db "Some a"] by (simp add: select_package_def Let_def v_def)
  ultimately have "incs n (0 + sum_list (map (\<lambda>x. asked n (pkg_install_if (sd_pkg db a))) (gives db a)) + asked n (pkg_depends (sd_pkg db a)))
      s (select_package db m s)" by (blast intro: incs_trans)
  then show ?thesis by (rule incs_mono) (use assms [of a] in \<open>simp add: asks_def sum_list_triv\<close>)
qed

lemma incs_step:
  assumes b: "\<And>a. asks db n a \<le> b" and t: "solve_step db s = Some t"
  shows "incs n b s t"
proof (cases "so_dirty s")
  case Nil
  then obtain m u where u: "dequeue_next_name s = Some (m, u)" "t = select_package db m u"
    using t by (auto simp: solve_step_def split: option.splits)
  have "incs n b u t" unfolding u(2) by (rule incs_select [OF b])
  then show ?thesis using dequeue_fields(1) [OF u(1)] by (simp add: incs_def)
next
  case (Cons m ns)
  have "asked n (pkg_depends (sd_pkg db a)) \<le> b" for a using b [of a] by (simp add: asks_def)
  from incs_reconsider [OF this, where m = m and s = "s\<lparr>so_dirty := ns\<rparr>"] show ?thesis
    using t Cons by (simp add: solve_step_def incs_def)
qed

lemma incs_reaches:
  assumes b: "\<And>a. asks db n a \<le> b" and r: "reaches db s u"
  shows "solve_loop l db s = Some t \<Longrightarrow> incs n (l * b) s u"
  using r
proof (induction arbitrary: l rule: converse_rtranclp_induct)
  case base
  show ?case by (simp add: incs_same)
next
  case (step s s')
  then obtain l' where l: "l = Suc l'" "solve_loop l' db s' = Some t" by (cases l) auto
  from incs_trans [OF incs_step [OF b step(1)] step(3) [OF l(2)]] show ?case by (simp add: l(1))
qed

section \<open>The world\<close>

text \<open>After the world was applied, the counter of a name is at least one and at most the number of times that it is asked for.\<close>

lemma setup_requirers:
  assumes c: "clean s" and t: "setup_world k db fl world s = Some t"
    and d: "d \<in> set world" "\<not> dep_broken d" "\<not> apk_dep_conflict d"
  shows "\<exists>j \<ge> 1. j \<le> asked (dname d) world \<and> ns_requirers (so_name t (dname d)) = of_nat j"
proof -
  let ?n = "dname d"
  from t obtain u where u: "foldM (\<lambda>d. discover_name k db (dname d)) (live world) (solver_init db fl s) = Some u"
    and t: "t = (fold (apply_world db) (live world) u)\<lparr>so_flags_inherit := 0, so_pinning_inherit := 0\<rparr>"
    by (auto simp: setup_world_def Let_def apply_world_def [abs_def] bind_eq_Some_conv)
  have "disc_ext (solver_init db fl s) u" by (rule disc_names(1) [OF disc_name u])
  then have u0: "ns_requirers (so_name u ?n) = 0" using c by (simp add: disc_ext_def solver_init_def clean_def)
  have w: "incs n (asked n [e]) x (apply_world db e x)" for n e x
    using incs_apply_constraint [of n e "x\<lparr>so_pinning_inherit := BIT (dep_repository_tag e)\<rparr>" db None] by (simp add: apply_world_def incs_def)
  have ws: "incs n (asked n es) x (fold (apply_world db) es x)" for n es x by (rule incs_deps) (rule w)
  have "d \<in> set (live world)" using d by simp
  then obtain xs ys where xy: "live world = xs @ d # ys" by (meson split_list)
  let ?x = "fold (apply_world db) xs u"
  obtain i where i: "i \<le> asked ?n xs" "ns_requirers (so_name ?x ?n) = of_nat i" using ws [of ?n xs u] u0 by (auto simp: incs_def)
  have one: "ns_requirers (so_name (apply_world db d ?x) ?n) = of_nat (Suc i)"
    using world_requires [OF d(3)] i(2) by simp
  obtain j where j: "j \<le> asked ?n ys" "ns_requirers (so_name t ?n) = of_nat (Suc i) + of_nat j"
    using ws [of ?n ys "apply_world db d ?x"] one by (auto simp: incs_def t xy)
  have "asked ?n (live world) \<le> asked ?n world" unfolding asked_def by (induction world) auto
  then have "Suc i + j \<le> asked ?n world" using i(1) j(1) unfolding xy by (simp add: asked_def)
  then show ?thesis using j(2) by (intro exI [of _ "Suc i + j"]) simp
qed

text \<open>
  C9. When the resolution ends without an error after at most \<open>l\<close> steps, every name that the world asks for
  is bound to a provider that satisfies the world. The 16-bit counter of the name must be wide enough for
  the run: no package asks for the name more than \<open>b\<close> times, and \<open>l\<close> times \<open>b\<close> plus the number of times
  that the world asks for it is below 65536. Conflicts are not ignored.
\<close>

theorem world_provided:
  assumes "db_ok db" "clean s" "\<not> has_flag flags APK_SOLVERF_IGNORE_CONFLICT"
    and "setup_world k db flags world s = Some s0" "solve_loop l db s0 = Some t" "so_errors t = 0"
    and "d \<in> set world" "\<not> dep_broken d" "\<not> apk_dep_conflict d"
    and "\<forall>a. asks db (dname d) a \<le> b" "asked (dname d) world + l * b < 65536"
  shows "\<exists>c v. ns_chosen (so_name t (dname d)) = (Some c, v) \<and> is_provided db None d (Some c, v)"
proof -
  let ?n = "dname d"
  have d: "d \<in> set (live world)" using assms(7, 8) by simp
  note start = setup_inv [OF assms(2, 3, 4)]
  from solve_loop_end [OF assms(5)] have r: "reaches db s0 t" and e: "solve_step db t = None" by simp_all
  obtain j where j: "1 \<le> j" "j \<le> asked ?n world" "ns_requirers (so_name s0 ?n) = of_nat j"
    using setup_requirers [OF assms(2, 4, 7, 8, 9)] by blast
  have required: "ns_requirers (so_name u ?n) \<noteq> 0" if u: "reaches db s0 u" for u
  proof -
    obtain i where i: "i \<le> l * b" "ns_requirers (so_name u ?n) = of_nat (j + i)"
      using incs_reaches [of db ?n b s0 u l t] u assms(5, 10) j(3) by (auto simp: incs_def)
    have "j + i < 65536" using i(1) j(2) assms(11) by simp
    then have "unat (of_nat (j + i) :: u16) = j + i" by (simp del: of_nat_add add: unat_of_nat)
    then show ?thesis using i(2) j(1) by auto
  qed
  have "unresolved_hashed ?n t \<or> ns_locked (so_name t ?n)"
    using reaches_decides [OF r assms(1)] start(4) [OF d assms(9)] by blast
  then have locked: "ns_locked (so_name t ?n)" using stuck_queues [OF e] by blast
  have inv: "solve_inv db (set (live world)) t" by (rule reaches_inv [OF r assms(1) start(1)])
  have "fst (chosen_of t ?n) \<noteq> None" using reaches_chosen_none [OF r assms(6) locked _ start(3)] required by blast
  then obtain c v where c: "chosen_of t ?n = (Some c, v)" by (cases "chosen_of t ?n") auto
  then have "(?n, v) \<in> set (gives db c)" "selected t c"
    using inv unfolding solve_inv_def basic_inv_def selected_def by blast+
  then have "is_provided db None d (Some c, v)"
    using inv assms(6) d unfolding solve_inv_def sound_inv_def by blast
  with c show ?thesis by blast
qed

end
