(* ===== verification/Solver_Example.thy ===== *)
theory Solver_Example
  imports Solver_World
begin

text \<open>
  A small database on which the properties of the solver are evaluated: the package \<open>a\<close> depends on \<open>b\<close>
  and conflicts with newer versions of it, and \<open>b\<close> is installed.
\<close>

section \<open>The example\<close>

definition dep_b :: apk_dependency where
  "dep_b = null_dependency\<lparr>dep_name := Some ''b'', dep_op := APK_DEPMASK_ANY\<rparr>"

definition dep_not_b :: apk_dependency where
  "dep_not_b = null_dependency\<lparr>dep_name := Some ''b'', dep_version := ''1'',
     dep_op := APK_VERSION_GREATER OR APK_VERSION_CONFLICT\<rparr>"

definition dep_a :: apk_dependency where
  "dep_a = null_dependency\<lparr>dep_name := Some ''a'', dep_op := APK_DEPMASK_ANY\<rparr>"

definition xpkg :: "nat \<Rightarrow> apk_package" where
  "xpkg a =
     (if a = 1
      then null_package\<lparr>pkg_addr := 1, pkg_name := Some ''a'', pkg_version := Some ''1'', pkg_depends := [dep_b, dep_not_b],
             pkg_repos := 1, pkg_installed_size := 10\<rparr>
      else if a = 2
      then null_package\<lparr>pkg_addr := 2, pkg_name := Some ''b'', pkg_version := Some ''1'', pkg_repos := 1,
             pkg_installed_size := 10, pkg_ipkg := Some new_installed_package\<rparr>
      else null_package\<lparr>pkg_addr := a, pkg_name := Some ''b''\<rparr>)"

definition xdb :: solver_db where
  "xdb = \<lparr>sd_pkg = xpkg,
     sd_providers = (\<lambda>n. if n = ''a'' then [(1, ''1'')] else if n = ''b'' then [(2, ''1'')] else []),
     sd_rdepends = (\<lambda>n. if n = ''b'' then [''a''] else []), sd_rinstall_if = (\<lambda>n. []),
     sd_installed = [2], sd_allowed_repos = [1], sd_available_repos = 1, sd_active_layers = 1,
     sd_performing_self_upgrade = False, sd_force_broken_world = False\<rparr>"

definition xs0 :: solver where
  "xs0 = \<lparr>so_name = (\<lambda>n. name_state_zero), so_pkg = (\<lambda>a. pkg_state_zero), so_dirty = [], so_unresolved = [],
     so_selectable = [], so_resolvenow = [], so_errors = 0, so_flags_inherit = 0, so_pinning_inherit = 0,
     so_default_repos = 0, so_order_id = 0, so_ignore_conflict = False,
     so_changeset = \<lparr>cs_num_install = 0, cs_num_remove = 0, cs_num_adjust = 0, cs_num_total_changes = 0, cs_changes = []\<rparr>\<rparr>"

section \<open>Evaluation\<close>

text \<open>The states of a run, by the records of the names and packages that differ from the zeroed one.\<close>

fun record_at :: "'v \<Rightarrow> ('k \<times> 'v) list \<Rightarrow> 'k \<Rightarrow> 'v" where
  "record_at z [] k = z"
| "record_at z ((l, v) # xs) k = (if k = l then v else record_at z xs k)"

fun record_put :: "'v \<Rightarrow> 'k \<Rightarrow> ('v \<Rightarrow> 'v) \<Rightarrow> ('k \<times> 'v) list \<Rightarrow> ('k \<times> 'v) list" where
  "record_put z k f [] = [(k, f z)]"
| "record_put z k f ((l, v) # xs) = (if k = l then (l, f v) # xs else (l, v) # record_put z k f xs)"

lemma record_at_put: "record_at z (record_put z k f xs) = (record_at z xs)(k := f (record_at z xs k))"
  by (induction xs) (auto simp: fun_eq_iff)

definition st :: "(bytes \<times> name_state) list \<Rightarrow> (nat \<times> pkg_state) list \<Rightarrow> solver \<Rightarrow> solver" where
  "st ns ps s = s\<lparr>so_name := record_at name_state_zero ns, so_pkg := record_at pkg_state_zero ps\<rparr>"

lemma xs0_st: "xs0 = st [] [] xs0"
  by (simp add: xs0_def st_def fun_eq_iff)

lemma st_upd [simp]:
  "upd_name n f (st ns ps s) = st (record_put name_state_zero n f ns) ps s"
  "upd_pkg a g (st ns ps s) = st ns (record_put pkg_state_zero a g ps) s"
  "so_name (st ns ps s) n = record_at name_state_zero ns n" "so_pkg (st ns ps s) a = record_at pkg_state_zero ps a"
  by (simp_all add: upd_name_def upd_pkg_def st_def record_at_put)

lemma st_reset [simp]:
  "so_name_update (\<lambda>_. cset_reset_name \<circ> so_name (st ns ps s)) (st ns ps s) = st (map (apsnd cset_reset_name) ns) ps s"
proof -
  have "cset_reset_name (record_at name_state_zero ns n) = record_at name_state_zero (map (apsnd cset_reset_name) ns) n" for n
    by (induction ns) (auto simp: cset_reset_name_def name_state_zero_def)
  then show ?thesis by (simp add: st_def fun_eq_iff)
qed

lemma st_fields [simp]:
  "so_dirty (st ns ps s) = so_dirty s" "so_unresolved (st ns ps s) = so_unresolved s"
  "so_selectable (st ns ps s) = so_selectable s" "so_resolvenow (st ns ps s) = so_resolvenow s"
  "so_errors (st ns ps s) = so_errors s" "so_flags_inherit (st ns ps s) = so_flags_inherit s"
  "so_pinning_inherit (st ns ps s) = so_pinning_inherit s" "so_default_repos (st ns ps s) = so_default_repos s"
  "so_order_id (st ns ps s) = so_order_id s" "so_ignore_conflict (st ns ps s) = so_ignore_conflict s"
  "so_changeset (st ns ps s) = so_changeset s"
  "so_dirty_update f1 (st ns ps s) = st ns ps (so_dirty_update f1 s)"
  "so_unresolved_update f2 (st ns ps s) = st ns ps (so_unresolved_update f2 s)"
  "so_selectable_update f3 (st ns ps s) = st ns ps (so_selectable_update f3 s)"
  "so_resolvenow_update f4 (st ns ps s) = st ns ps (so_resolvenow_update f4 s)"
  "so_errors_update f5 (st ns ps s) = st ns ps (so_errors_update f5 s)"
  "so_flags_inherit_update f6 (st ns ps s) = st ns ps (so_flags_inherit_update f6 s)"
  "so_pinning_inherit_update f7 (st ns ps s) = st ns ps (so_pinning_inherit_update f7 s)"
  "so_default_repos_update f8 (st ns ps s) = st ns ps (so_default_repos_update f8 s)"
  "so_order_id_update f9 (st ns ps s) = st ns ps (so_order_id_update f9 s)"
  "so_ignore_conflict_update f10 (st ns ps s) = st ns ps (so_ignore_conflict_update f10 s)"
  "so_changeset_update f11 (st ns ps s) = st ns ps (so_changeset_update f11 s)"
  by (simp_all add: st_def)

lemma xdb_simps [simp]:
  "sd_providers xdb ''a'' = [(Suc 0, ''1'')]" "sd_providers xdb ''b'' = [(2, ''1'')]"
  "sd_rdepends xdb ''a'' = []" "sd_rdepends xdb ''b'' = [''a'']" "sd_rinstall_if xdb n = []" "sd_installed xdb = [2]"
  "sd_allowed_repos xdb = [1]" "sd_available_repos xdb = 1" "sd_active_layers xdb = 1"
  "\<not> sd_performing_self_upgrade xdb" "\<not> sd_force_broken_world xdb"
  "pkg_depends (sd_pkg xdb (Suc 0)) = [dep_b, dep_not_b]" "pkg_depends (sd_pkg xdb 2) = []"
  "pkg_provides (sd_pkg xdb a) = []" "pkg_install_if (sd_pkg xdb a) = []"
  "pname xdb (Suc 0) = ''a''" "pname xdb 2 = ''b''"
  "pkg_version (sd_pkg xdb (Suc 0)) = Some ''1''" "pkg_version (sd_pkg xdb 2) = Some ''1''"
  "pkg_ipkg (sd_pkg xdb (Suc 0)) = None" "pkg_ipkg (sd_pkg xdb 2) = Some new_installed_package"
  "pkg_repos (sd_pkg xdb (Suc 0)) = 1" "pkg_repos (sd_pkg xdb 2) = 1"
  "pkg_installed_size (sd_pkg xdb (Suc 0)) = 10" "pkg_installed_size (sd_pkg xdb 2) = 10"
  "pkg_filename_ndx (sd_pkg xdb a) = 0" "pkg_layer (sd_pkg xdb a) = 0" "\<not> pkg_uninstallable (sd_pkg xdb a)"
  "\<not> pkg_cached (sd_pkg xdb a)" "\<not> pkg_cached_non_repository (sd_pkg xdb a)" "pkg_provider_priority (sd_pkg xdb a) = 0"
  "pkg_addr (sd_pkg xdb a) = a"
  by (simp_all add: xdb_def xpkg_def null_package_def pname_def)

lemma dep_simps [simp]:
  "dname dep_a = ''a''" "dname dep_b = ''b''" "dname dep_not_b = ''b''"
  "\<not> apk_dep_conflict dep_a" "\<not> apk_dep_conflict dep_b" "apk_dep_conflict dep_not_b"
  "\<not> dep_broken dep_a" "dep_repository_tag dep_a = 0"
  by (simp_all add: dep_a_def dep_b_def dep_not_b_def null_dependency_def dname_def apk_dep_conflict_def
      APK_VERSION_CONFLICT_def APK_DEPMASK_ANY_def APK_VERSION_EQUAL_def APK_VERSION_LESS_def APK_VERSION_GREATER_def)

lemma provided_simps [simp]:
  "is_provided xdb None dep_a (Some (Suc 0), ''1'')" "is_provided xdb (Some (Suc 0)) dep_b (Some 2, ''1'')"
  "is_provided xdb (Some (Suc 0)) dep_not_b (Some 2, ''1'')"
  by code_simp+

section \<open>The run\<close>

lemma weak_congs:
  "x = y \<Longrightarrow> Option.bind x f = Option.bind y f"
  "xs = ys \<Longrightarrow> s = t \<Longrightarrow> fold g xs s = fold g ys t"
  "xs = ys \<Longrightarrow> s = t \<Longrightarrow> foldM h xs s = foldM h ys t"
  "p = q \<Longrightarrow> case_prod c p = case_prod c q"
  by simp_all

lemmas run_simps =
  APK_SOLVERF_UPGRADE_def APK_SOLVERF_AVAILABLE_def APK_SOLVERF_REINSTALL_def APK_SOLVERF_LATEST_def
  APK_SOLVERF_IGNORE_CONFLICT_def APK_SOLVERF_INSTALLED_def APK_SOLVERF_REMOVE_def APK_DEFAULT_PINNING_MASK_def
  BIT_def apk_db_pkg_available_def apk_db_get_pinning_mask_repos_def get_tag_def get_pkg_repos_def mark_error_def
  queue_dirty_def queue_resolvenow_def unresolved_hashed_def unqueue_def enqueue_unresolved_def
  queue_unresolved_def reevaluate_reverse_deps_def reevaluate_reverse_installif_def
  reevaluate_reverse_installif_pkg_def disqualify_package_def dependency_satisfiable_def discover_package_def
  assign_order_def name_requirers_changed_def inherit_pinning_and_flags_def constrain_provider_def
  apply_constraint_def exclude_non_providers_def merge_index_def merge_index_complete_def
  is_provider_auto_selectable_def merge_depends_at_def merge_provides_at_def recheck_depends_def
  reevaluate_install_if_def merge_candidate_def consider_provider_def merged_depends_done_def
  merged_provides_done_def propagate_depend_def propagate_provides_def propagate_candidate_def
  reconsider_name_def ffs_def prefer_flag_def prefer_version_def has_flag_def compare_providers_def
  assign_name_def consider_candidate_def select_provider_def gives_def select_package_def dequeue_next_name_def
  solve_step_def old_tag_def record_change_def cset_track_deps_added_def cset_track_deps_removed_def
  cset_check_removal_by_deps_def cset_check_removal_by_iif_def cset_check_by_reverse_iif_def
  cset_check_install_by_iif_def cset_gen_name_preprocess_def cset_gen_dep_def cset_reset_name_def
  cset_set_installed_def cset_prepare_def generate_changeset_def qsort_def cmp_pkgname_def name_state_zero_def
  pkg_state_zero_def solver_init_def solve_world_def Let_def
  setup_world_def apk_solver_solve_def layer_world_def provider_none_def is_provided_none new_installed_package_def

abbreviation xfuel :: nat where
  "xfuel \<equiv> Suc (Suc (Suc (Suc (Suc (Suc (Suc 0))))))"

abbreviation xrun :: "solver \<Rightarrow> bool" where
  "xrun s' \<equiv> apk_solver_solve (Suc 0) xfuel xdb 0 [dep_a] xs0 = Some (0, [dep_a], s')"

lemma xdb_run:
  "\<exists>s'. xrun s' \<and>
     cs_changes (so_changeset s') =
       [\<lparr>ch_old_pkg = Some 2, ch_new_pkg = Some 2, ch_old_repository_tag = 0, ch_new_repository_tag = 0, ch_reinstall = False\<rparr>,
        \<lparr>ch_old_pkg = None, ch_new_pkg = Some (Suc 0), ch_old_repository_tag = 0, ch_new_repository_tag = 0, ch_reinstall = False\<rparr>]"
proof -
  have layer: "dep_a\<lparr>dep_layer := 0\<rparr> = dep_a" by (simp add: dep_a_def null_dependency_def)
  have free: "so_changeset (free_all s) = so_changeset s" for s by (simp add: free_all_def)
  have start: "cs_changes (so_changeset xs0) = []" by (simp add: xs0_def)
  show ?thesis
    by (subst xs0_st) (simp add: run_simps layer free start cong: let_weak_cong weak_congs)
qed

text \<open>The hypotheses of the properties hold in the example.\<close>

lemma xdb_ok: "db_ok xdb"
  by (auto simp: db_ok_def gives_def pname_def xdb_def xpkg_def null_package_def split: if_splits)

lemma xs0_clean: "clean xs0"
  by (simp add: clean_def xs0_def name_state_zero_def pkg_state_zero_def provider_none_def)

lemma xdb_closed: "db_closed xdb {''a'', ''b''} {Suc 0, 2}"
proof -
  have "dname ` set (pkg_depends (sd_pkg xdb a)) \<subseteq> {''b''}" for a
    by (simp add: xdb_def xpkg_def null_package_def dep_b_def dep_not_b_def dname_def null_dependency_def)
  then have "dname ` set (pkg_depends (sd_pkg xdb a)) \<subseteq> {''a'', ''b''}" for a by blast
  moreover have "fst ` set (sd_providers xdb n) \<subseteq> {Suc 0, 2}" "set (sd_rdepends xdb n) \<subseteq> {''a'', ''b''}" for n
    by (auto simp: xdb_def split: if_splits)
  ultimately show ?thesis by (simp add: db_closed_def)
qed

lemma xdb_bursts: "\<forall>n \<in> {''a'', ''b''}. burst xdb n < 65536"
  by (simp add: burst_def ndeps_def xdb_def xpkg_def null_package_def)

lemma no_flags: "\<not> has_flag 0 APK_SOLVERF_IGNORE_CONFLICT"
  by (simp add: has_flag_def)

lemma xdb_solved:
  obtains s' where
    "xrun s'"
    "new_packages (so_changeset s') = {Suc 0, 2}" "gives xdb (Suc 0) = [(''a'', ''1'')]" "gives xdb 2 = [(''b'', ''1'')]"
proof -
  have "{a. a = 2 \<or> Suc 0 = a} = {Suc 0, 2}" by auto
  then show ?thesis using that xdb_run by (auto simp: new_packages_def gives_def)
qed

section \<open>The properties at the example\<close>

theorem solver_one_provider_witness: "pname xdb (Suc 0) \<noteq> pname xdb 2"
  by (rule xdb_solved) (rule solver_one_provider [OF xdb_ok xs0_clean no_flags, THEN conjunct1], assumption, simp_all)


theorem solver_conflicts_respected_witness: "is_provided xdb (Some (Suc 0)) dep_not_b (Some 2, ''1'')"
proof (rule xdb_solved)
  fix s'
  assume run: "xrun s'"
    and new: "new_packages (so_changeset s') = {Suc 0, 2}" "gives xdb 2 = [(''b'', ''1'')]"
  have "by_version dep_not_b" by (simp add: by_version_def dep_not_b_def version_consts)
  with solver_conflicts_respected [OF xdb_ok xs0_clean no_flags run, of "Suc 0" dep_not_b 2 "''1''"] new show ?thesis by simp
qed

theorem solver_world_met_witness: "is_provided xdb None dep_a (Some (Suc 0), ''1'')"
proof (rule xdb_solved)
  fix s'
  assume run: "xrun s'"
    and new: "new_packages (so_changeset s') = {Suc 0, 2}" "gives xdb (Suc 0) = [(''a'', ''1'')]"
  with solver_world_met [OF xdb_ok xs0_clean no_flags run, of dep_a "Suc 0" "''1''"] show ?thesis by simp
qed

theorem solver_accounts_for_installed_witness:
  "\<exists>s'. xrun s' \<and>
     length (filter (\<lambda>ch. ch_old_pkg ch = Some 2) (cs_changes (so_changeset s'))) = 1"
proof (rule xdb_solved)
  fix s'
  assume run: "xrun s'"
  have "length (filter (\<lambda>ch. ch_old_pkg ch = Some 2) (cs_changes (so_changeset s'))) = 1"
    by (rule solver_accounts_for_installed [OF xdb_ok xs0_clean no_flags run]) simp_all
  with run show ?thesis by blast
qed

theorem solver_returns_witness:
  "\<exists>k\<^sub>0. \<forall>k \<ge> k\<^sub>0. \<exists>res. apk_solver_solve (Suc 0) k xdb 0 [dep_a] xs0 = Some res"
  by (rule solver_returns [OF xdb_ok xdb_closed xdb_bursts]) simp_all

theorem world_provided_witness:
  "\<exists>s0 t. setup_world xfuel xdb 0 [dep_a] xs0 = Some s0 \<and> solve_loop xfuel xdb s0 = Some t \<and>
     (\<exists>c v. ns_chosen (so_name t ''a'') = (Some c, v) \<and> is_provided xdb None dep_a (Some c, v))"
proof -
  have "\<exists>s0. setup_world xfuel xdb 0 [dep_a] xs0 = Some s0 \<and>
      (\<exists>t. solve_loop xfuel xdb s0 = Some t \<and> so_errors t = 0)"
    by (subst xs0_st) (simp add: run_simps cong: let_weak_cong weak_congs)
  then obtain s0 t where r: "setup_world xfuel xdb 0 [dep_a] xs0 = Some s0"
    "solve_loop xfuel xdb s0 = Some t" "so_errors t = 0" by blast
  have "asks xdb ''a'' a \<le> 0" for a
    by (simp add: asks_def asked_def xdb_def xpkg_def dep_b_def dep_not_b_def null_package_def null_dependency_def dname_def)
  then show ?thesis using world_provided [OF xdb_ok xs0_clean no_flags r, of dep_a 0] r(1, 2) by (simp add: asked_def)
qed

section \<open>A conflict that is missed\<close>

text \<open>
  Here \<open>y\<close> is pulled in by \<open>x\<close> in the absence of \<open>n\<close> and depends on \<open>p\<close>, which provides \<open>n\<close>, and on \<open>z\<close>, whose
  newer version conflicts with \<open>n\<close>.
\<close>

definition dep_on :: "bytes \<Rightarrow> apk_dependency" where
  "dep_on n = null_dependency\<lparr>dep_name := Some n, dep_op := APK_DEPMASK_ANY\<rparr>"

definition not_n :: apk_dependency where
  "not_n = null_dependency\<lparr>dep_name := Some ''n'', dep_op := APK_DEPMASK_ANY OR APK_VERSION_CONFLICT\<rparr>"

definition ypkg :: "nat \<Rightarrow> bytes \<Rightarrow> bytes \<Rightarrow> apk_package" where
  "ypkg a n v = null_package\<lparr>pkg_addr := a, pkg_name := Some n, pkg_version := Some v, pkg_repos := 1, pkg_installed_size := 10\<rparr>"

definition ydb :: solver_db where
  "ydb = \<lparr>sd_pkg = (\<lambda>a.
       if a = 2 then ypkg 2 ''x'' ''1''
       else if a = 3 then (ypkg 3 ''y'' ''1'')\<lparr>pkg_depends := [dep_on ''p'', dep_on ''z''], pkg_install_if := [dep_on ''x'', not_n]\<rparr>
       else if a = 4 then (ypkg 4 ''p'' ''1'')\<lparr>pkg_provides := [dep_on ''n'']\<rparr>
       else if a = 5 then ypkg 5 ''z'' ''1''
       else if a = 6 then (ypkg 6 ''z'' ''2'')\<lparr>pkg_depends := [not_n]\<rparr>
       else null_package\<lparr>pkg_addr := a\<rparr>),
     sd_providers = (\<lambda>n.
       if n = ''x'' then [(2, ''1'')] else if n = ''y'' then [(3, ''1'')] else if n = ''p'' then [(4, ''1'')]
       else if n = ''n'' then [(4, [])] else if n = ''z'' then [(5, ''1''), (6, ''2'')] else []),
     sd_rdepends = (\<lambda>n. if n = ''p'' \<or> n = ''z'' then [''y''] else if n = ''n'' then [''z''] else []),
     sd_rinstall_if = (\<lambda>n. if n = ''x'' \<or> n = ''n'' then [''y''] else []),
     sd_installed = [], sd_allowed_repos = [1], sd_available_repos = 1, sd_active_layers = 1,
     sd_performing_self_upgrade = False, sd_force_broken_world = False\<rparr>"

lemma ydb_simps [simp]:
  "sd_providers ydb ''x'' = [(2, ''1'')]" "sd_providers ydb ''y'' = [(3, ''1'')]" "sd_providers ydb ''p'' = [(4, ''1'')]"
  "sd_providers ydb ''n'' = [(4, [])]" "sd_providers ydb ''z'' = [(5, ''1''), (6, ''2'')]"
  "sd_rdepends ydb ''x'' = []" "sd_rdepends ydb ''y'' = []" "sd_rdepends ydb ''p'' = [''y'']" "sd_rdepends ydb ''n'' = [''z'']"
  "sd_rdepends ydb ''z'' = [''y'']"
  "sd_rinstall_if ydb ''x'' = [''y'']" "sd_rinstall_if ydb ''y'' = []" "sd_rinstall_if ydb ''p'' = []"
  "sd_rinstall_if ydb ''n'' = [''y'']" "sd_rinstall_if ydb ''z'' = []"
  "sd_installed ydb = []" "sd_allowed_repos ydb = [1]" "sd_available_repos ydb = 1" "sd_active_layers ydb = 1"
  "\<not> sd_performing_self_upgrade ydb" "\<not> sd_force_broken_world ydb"
  by (simp_all add: ydb_def)

lemma ydb_packages [simp]:
  "sd_pkg ydb 2 = ypkg 2 ''x'' ''1''"
  "sd_pkg ydb 3 = (ypkg 3 ''y'' ''1'')\<lparr>pkg_depends := [dep_on ''p'', dep_on ''z''], pkg_install_if := [dep_on ''x'', not_n]\<rparr>"
  "sd_pkg ydb 4 = (ypkg 4 ''p'' ''1'')\<lparr>pkg_provides := [dep_on ''n'']\<rparr>"
  "sd_pkg ydb 5 = ypkg 5 ''z'' ''1''" "sd_pkg ydb 6 = (ypkg 6 ''z'' ''2'')\<lparr>pkg_depends := [not_n]\<rparr>"
  "pname ydb 2 = ''x''" "pname ydb 3 = ''y''" "pname ydb 4 = ''p''" "pname ydb 5 = ''z''" "pname ydb 6 = ''z''"
  by (simp_all add: ydb_def pname_def ypkg_def null_package_def)

lemma ypkg_fields [simp]:
  "pkg_addr (ypkg a n v) = a" "pkg_name (ypkg a n v) = Some n" "pkg_version (ypkg a n v) = Some v"
  "pkg_depends (ypkg a n v) = []" "pkg_provides (ypkg a n v) = []" "pkg_install_if (ypkg a n v) = []"
  "pkg_repos (ypkg a n v) = 1" "pkg_installed_size (ypkg a n v) = 10" "pkg_ipkg (ypkg a n v) = None"
  "pkg_filename_ndx (ypkg a n v) = 0" "pkg_layer (ypkg a n v) = 0" "\<not> pkg_uninstallable (ypkg a n v)"
  "\<not> pkg_cached (ypkg a n v)" "\<not> pkg_cached_non_repository (ypkg a n v)" "pkg_provider_priority (ypkg a n v) = 0"
  by (simp_all add: ypkg_def null_package_def)

lemma dep_on_simps [simp]:
  "dname (dep_on n) = n" "dname not_n = ''n''" "\<not> apk_dep_conflict (dep_on n)" "apk_dep_conflict not_n"
  "dep_version (dep_on n) = []" "\<not> dep_broken (dep_on n)" "dep_repository_tag (dep_on n) = 0"
  by (simp_all add: dep_on_def not_n_def null_dependency_def dname_def apk_dep_conflict_def version_consts)

lemma ydb_provided [simp]:
  "is_provided ydb p (dep_on n) (Some a, v)" "is_provided ydb (Some 6) not_n (Some 4, []) = False"
  "is_provided ydb (Some 3) not_n (Some 4, []) = False"
  by (simp_all add: is_provided_def apk_dep_is_provided_def dep_on_def not_n_def null_dependency_def apk_dep_conflict_def
      apk_version_match_def version_consts)

lemma ydb_compare [simp]:
  "apk_version_compare (Some ''1'') (Some ''2'') = APK_VERSION_LESS" "apk_version_compare (Some ''2'') (Some ''1'') = APK_VERSION_GREATER"
  by code_simp+

abbreviation yfuel :: nat where
  "yfuel \<equiv> Suc (Suc (Suc (Suc (Suc (Suc (Suc (Suc (Suc (Suc (Suc (Suc (Suc (Suc (Suc (Suc (Suc (Suc (Suc (Suc 0)))))))))))))))))))"

lemma ydb_run:
  "\<exists>s'. apk_solver_solve (Suc 0) yfuel ydb 0 [dep_on ''x''] xs0 = Some (0, [dep_on ''x''], s') \<and>
     map ch_new_pkg (cs_changes (so_changeset s')) = [Some 2, Some 4, Some 6, Some 3]"
proof -
  have layer: "(dep_on n)\<lparr>dep_layer := 0\<rparr> = dep_on n" for n by (simp add: dep_on_def null_dependency_def)
  have free: "so_changeset (free_all s) = so_changeset s" for s by (simp add: free_all_def)
  have start: "cs_changes (so_changeset xs0) = []" by (simp add: xs0_def)
  show ?thesis
    by (subst xs0_st) (simp add: run_simps layer free start version_consts cong: let_weak_cong weak_congs)
qed

lemma ydb_ok: "db_ok ydb"
  by (auto simp: db_ok_def gives_def pname_def ydb_def null_package_def split: if_splits)

text \<open>
  The solver can report success for a change set with a conflict, when the provided name has no
  version: the name was decided to have no provider before one was chosen, the second decision is
  dropped silently, and conflicts are only checked against the first. Here the new packages \<open>p\<close> and
  \<open>z-2\<close> conflict.
\<close>

lemma solver_conflict_missed:
  "db_ok ydb \<and> (\<exists>s'. apk_solver_solve (Suc 0) yfuel ydb 0 [dep_on ''x''] xs0 = Some (0, [dep_on ''x''], s') \<and>
     4 \<in> new_packages (so_changeset s') \<and> 6 \<in> new_packages (so_changeset s')) \<and>
   not_n \<in> set (pkg_depends (sd_pkg ydb 6)) \<and> (dname not_n, []) \<in> set (gives ydb 4) \<and>
   \<not> is_provided ydb (Some 6) not_n (Some 4, [])"
proof -
  obtain s' where r: "apk_solver_solve (Suc 0) yfuel ydb 0 [dep_on ''x''] xs0 = Some (0, [dep_on ''x''], s')"
    "map ch_new_pkg (cs_changes (so_changeset s')) = [Some 2, Some 4, Some 6, Some 3]" using ydb_run by (elim exE conjE)
  have "Some a \<in> set (map ch_new_pkg (cs_changes (so_changeset s'))) \<Longrightarrow> a \<in> new_packages (so_changeset s')" for a
    by (auto simp: new_packages_def)
  with r(2) have "4 \<in> new_packages (so_changeset s')" "6 \<in> new_packages (so_changeset s')" by simp_all
  with r(1) ydb_ok show ?thesis by (auto simp: gives_def)
qed

end
