(* ===== verification/Files.thy ===== *)
theory Files
  imports Hash Package
begin

text \<open>
  The directories and files of the installed packages (\<^verbatim>\<open>database.c\<close>). A directory has one object for
  the whole database; a package that has the directory has an instance of it, with the files that the
  package has there. Objects are identified by their addresses in the stores \<open>fs_dir\<close>, \<open>fs_diri\<close> and
  \<open>fs_file\<close>; an access control entry is interned and is its value. While a package is read or unpacked,
  the creator \<open>ic\<close> collects its instances and the files of the current one.

  Calls to the file system are recorded in \<open>fs_log\<close>; their results are an argument, a function of the
  calls made before. Matching a file name pattern (\<^verbatim>\<open>fnmatch\<close>) is an argument too.
\<close>

section \<open>Data\<close>

text \<open>The modes 0755 and 0644 are 493 and 420.\<close>

record apk_db_acl =
  acl_mode :: u32
  acl_uid :: u32
  acl_gid :: u32
  acl_xattr_hash :: bytes

text \<open>The length of a file name is kept in a byte and that of a directory in 16 bits.\<close>

record apk_db_file =
  fl_diri :: nat
  fl_acl :: apk_db_acl
  fl_audited :: bool
  fl_broken :: bool
  fl_digest_alg :: nat
  fl_namelen :: u8
  fl_digest :: bytes
  fl_cname :: bytes

definition fl_name :: "apk_db_file \<Rightarrow> bytes" where
  "fl_name f = take (unat (fl_namelen f)) (fl_cname f)"

datatype apk_protect_mode =
  APK_PROTECT_NONE | APK_PROTECT_IGNORE | APK_PROTECT_CHANGED | APK_PROTECT_SYMLINKS_ONLY | APK_PROTECT_ALL

definition apk_protect_mode_none :: "apk_protect_mode \<Rightarrow> bool" where
  "apk_protect_mode_none mode \<longleftrightarrow> mode = APK_PROTECT_NONE \<or> mode = APK_PROTECT_IGNORE"

record apk_protected_path =
  pp_relative_pattern :: bytes
  pp_protect_mode :: apk_protect_mode

record apk_db_dir =
  dr_hash :: u64
  dr_parent :: "nat option"
  dr_owner :: "nat option"
  dr_diris :: "nat list"
  dr_protected_paths :: "apk_protected_path list"
  dr_refs :: u16
  dr_namelen :: u16
  dr_protect_mode :: apk_protect_mode
  dr_has_protected_children :: bool
  dr_created :: bool
  dr_modified :: bool
  dr_permissions_ok :: bool
  dr_cname :: bytes

definition dr_name :: "apk_db_dir \<Rightarrow> bytes" where
  "dr_name d = take (unat (dr_namelen d)) (dr_cname d)"

record apk_db_dir_instance =
  di_files :: "nat list"
  di_pkg :: nat
  di_dir :: nat
  di_acl :: apk_db_acl

definition apk_default_acl_dir :: apk_db_acl where
  "apk_default_acl_dir = \<lparr>acl_mode = 493, acl_uid = 0, acl_gid = 0, acl_xattr_hash = []\<rparr>"

definition apk_default_acl_file :: apk_db_acl where
  "apk_default_acl_file = \<lparr>acl_mode = 420, acl_uid = 0, acl_gid = 0, acl_xattr_hash = []\<rparr>"

text \<open>The calls to the file system.\<close>

datatype fs_call =
    Fs_check bytes u32 u32 u32
  | Fs_create bytes u32 u32 u32
  | Fs_update_perms bytes u32 u32 u32
  | Fs_delete bytes

datatype fs_result = Fs_ok | APK_FS_DIR_MODIFIED | Fs_error apk_error

record fs_env =
  env_simulate :: bool
  env_usermode :: bool
  env_result :: "fs_call list \<Rightarrow> fs_call \<Rightarrow> fs_result"
  env_fnmatch :: "bytes \<Rightarrow> bytes \<Rightarrow> bool"

text \<open>The tables hold the address of an object together with the key that does not change.\<close>

definition apk_db_dir_get_key :: "nat \<times> bytes \<Rightarrow> blob" where
  "apk_db_dir_get_key item = Some (snd item)"

definition dir_hash_ops :: "(nat \<times> bytes, blob) apk_hash_ops" where
  "dir_hash_ops =
     \<lparr>get_key = apk_db_dir_get_key, hash_key = apk_blob_hash, hash_item = None,
      compare = apk_blob_compare, compare_item = None, delete_item = False\<rparr>"

record apk_db_file_key =
  fk_dirname :: blob
  fk_filename :: blob

record file_item =
  fe_file :: nat
  fe_dirname :: bytes
  fe_dirhash :: u64
  fe_name :: bytes

definition apk_db_file_hash_key :: "apk_db_file_key \<Rightarrow> u64" where
  "apk_db_file_hash_key key = apk_blob_hash_seed (fk_filename key) (apk_blob_hash (fk_dirname key))"

definition apk_db_file_hash_item :: "file_item \<Rightarrow> u64" where
  "apk_db_file_hash_item item = apk_blob_hash_seed (Some (fe_name item)) (fe_dirhash item)"

definition apk_db_file_compare_item :: "file_item \<Rightarrow> apk_db_file_key \<Rightarrow> int" where
  "apk_db_file_compare_item item key =
     (let r = apk_blob_compare (fk_filename key) (Some (fe_name item)) in
      if r \<noteq> 0 then r else apk_blob_compare (fk_dirname key) (Some (fe_dirname item)))"

text \<open>The table of files has no function for the key of an item.\<close>

definition file_hash_ops :: "(file_item, apk_db_file_key) apk_hash_ops" where
  "file_hash_ops =
     \<lparr>get_key = (\<lambda>item. \<lparr>fk_dirname = None, fk_filename = None\<rparr>), hash_key = apk_db_file_hash_key,
      hash_item = Some apk_db_file_hash_item, compare = (\<lambda>a b. 0),
      compare_item = Some apk_db_file_compare_item, delete_item = False\<rparr>"

record file_db =
  fs_dirs :: "(nat \<times> bytes, blob) apk_hash"
  fs_files :: "(file_item, apk_db_file_key) apk_hash"
  fs_dir :: "nat \<Rightarrow> apk_db_dir"
  fs_next_dir :: nat
  fs_diri :: "nat \<Rightarrow> apk_db_dir_instance"
  fs_next_diri :: nat
  fs_file :: "nat \<Rightarrow> apk_db_file"
  fs_next_file :: nat
  fs_num_dirs :: u32
  fs_num_files :: u32
  fs_protected_paths :: "apk_protected_path list"
  fs_num_dir_update_errors :: u32
  fs_log :: "fs_call list"
  ic_diri :: "nat option"
  ic_diris :: "nat list"
  ic_files :: "nat list"
  ic_num_unsorted_diris :: nat
  ic_files_unsorted :: bool

definition null_dir :: apk_db_dir where
  "null_dir =
     \<lparr>dr_hash = 0, dr_parent = None, dr_owner = None, dr_diris = [], dr_protected_paths = [], dr_refs = 0,
      dr_namelen = 0, dr_protect_mode = APK_PROTECT_NONE, dr_has_protected_children = False, dr_created = False,
      dr_modified = False, dr_permissions_ok = False, dr_cname = []\<rparr>"

definition null_diri :: apk_db_dir_instance where
  "null_diri = \<lparr>di_files = [], di_pkg = 0, di_dir = 0, di_acl = apk_default_acl_dir\<rparr>"

definition null_file :: apk_db_file where
  "null_file =
     \<lparr>fl_diri = 0, fl_acl = apk_default_acl_file, fl_audited = False, fl_broken = False, fl_digest_alg = APK_DIGEST_NONE,
      fl_namelen = 0, fl_digest = replicate 20 NUL, fl_cname = []\<rparr>"

definition fs_init :: file_db where
  "fs_init =
     \<lparr>fs_dirs = apk_hash_init dir_hash_ops 20000, fs_files = apk_hash_init file_hash_ops 200000,
      fs_dir = (\<lambda>d. null_dir), fs_next_dir = 0, fs_diri = (\<lambda>d. null_diri), fs_next_diri = 0,
      fs_file = (\<lambda>f. null_file), fs_next_file = 0, fs_num_dirs = 0, fs_num_files = 0, fs_protected_paths = [],
      fs_num_dir_update_errors = 0, fs_log = [],
      ic_diri = None, ic_diris = [], ic_files = [], ic_num_unsorted_diris = 0, ic_files_unsorted = False\<rparr>"

definition upd_dir :: "nat \<Rightarrow> (apk_db_dir \<Rightarrow> apk_db_dir) \<Rightarrow> file_db \<Rightarrow> file_db" where
  "upd_dir d f fs = fs\<lparr>fs_dir := (fs_dir fs)(d := f (fs_dir fs d))\<rparr>"

definition upd_diri :: "nat \<Rightarrow> (apk_db_dir_instance \<Rightarrow> apk_db_dir_instance) \<Rightarrow> file_db \<Rightarrow> file_db" where
  "upd_diri d f fs = fs\<lparr>fs_diri := (fs_diri fs)(d := f (fs_diri fs d))\<rparr>"

definition upd_file :: "nat \<Rightarrow> (apk_db_file \<Rightarrow> apk_db_file) \<Rightarrow> file_db \<Rightarrow> file_db" where
  "upd_file a f fs = fs\<lparr>fs_file := (fs_file fs)(a := f (fs_file fs a))\<rparr>"

abbreviation diri_dir :: "file_db \<Rightarrow> nat \<Rightarrow> apk_db_dir" where
  "diri_dir fs d \<equiv> fs_dir fs (di_dir (fs_diri fs d))"

abbreviation diri_name :: "file_db \<Rightarrow> nat \<Rightarrow> bytes" where
  "diri_name fs d \<equiv> dr_name (diri_dir fs d)"

section \<open>Access control entries\<close>

definition apk_db_acl_atomize_hash :: "u32 \<Rightarrow> u32 \<Rightarrow> u32 \<Rightarrow> bytes \<Rightarrow> apk_db_acl" where
  "apk_db_acl_atomize_hash mode uid gid hash =
     \<lparr>acl_mode = mode AND 4095, acl_uid = uid, acl_gid = gid, acl_xattr_hash = hash\<rparr>"

definition apk_db_acl_atomize :: "u32 \<Rightarrow> u32 \<Rightarrow> u32 \<Rightarrow> apk_db_acl" where
  "apk_db_acl_atomize mode uid gid = apk_db_acl_atomize_hash mode uid gid []"

definition apk_db_acl_atomize_digest :: "u32 \<Rightarrow> u32 \<Rightarrow> u32 \<Rightarrow> apk_digest \<Rightarrow> apk_db_acl" where
  "apk_db_acl_atomize_digest mode uid gid dig =
     apk_db_acl_atomize_hash mode uid gid (take (dg_len dig) (dg_data dig))"

section \<open>Directories\<close>

text \<open>The mode that makes the file readable for the user has the bits 0200 and 0100 set.\<close>

definition apk_db_dir_get_mode :: "fs_env \<Rightarrow> u32 \<Rightarrow> u32" where
  "apk_db_dir_get_mode env mode = (if env_usermode env then mode OR 128 OR 64 else mode)"

definition fs_perform :: "fs_env \<Rightarrow> fs_call \<Rightarrow> file_db \<Rightarrow> fs_result \<times> file_db" where
  "fs_perform env c fs = (env_result env (fs_log fs) c, fs\<lparr>fs_log := fs_log fs @ [c]\<rparr>)"

definition apk_db_dir_mkdir :: "fs_env \<Rightarrow> bytes \<Rightarrow> apk_db_acl \<Rightarrow> file_db \<Rightarrow> fs_result \<times> file_db" where
  "apk_db_dir_mkdir env name acl fs =
     (if env_simulate env then (Fs_ok, fs)
      else fs_perform env (Fs_create name (apk_db_dir_get_mode env (acl_mode acl)) (acl_uid acl) (acl_gid acl)) fs)"

definition dir_make :: "fs_env \<Rightarrow> nat \<Rightarrow> apk_db_acl \<Rightarrow> file_db \<Rightarrow> file_db" where
  "dir_make env d acl fs =
     (case apk_db_dir_mkdir env (dr_name (fs_dir fs d)) acl fs of
        (r, fs) \<Rightarrow> if r = Fs_ok then upd_dir d (\<lambda>x. x\<lparr>dr_permissions_ok := True\<rparr>) fs else fs)"

definition apk_db_dir_prepare :: "fs_env \<Rightarrow> nat \<Rightarrow> apk_db_acl option \<Rightarrow> apk_db_acl \<Rightarrow> file_db \<Rightarrow> file_db" where
  "apk_db_dir_prepare env d expected_acl new_acl fs =
     (if dr_namelen (fs_dir fs d) = 0 \<or> dr_created (fs_dir fs d) then fs
      else
        let fs = upd_dir d (\<lambda>x. x\<lparr>dr_created := True\<rparr>) fs in
        case expected_acl of
          None \<Rightarrow> dir_make env d new_acl fs
        | Some e \<Rightarrow>
            (case fs_perform env (Fs_check (dr_name (fs_dir fs d)) (apk_db_dir_get_mode env (acl_mode e))
                     (acl_uid e) (acl_gid e)) fs of
               (r, fs) \<Rightarrow>
                 if r = Fs_error ENOENT then dir_make env d new_acl fs
                 else if r = Fs_ok then upd_dir d (\<lambda>x. x\<lparr>dr_permissions_ok := True\<rparr>) fs
                 else fs))"

text \<open>A directory is given back when its last reference goes, and so is the reference to its parent.\<close>

partial_function (option) apk_db_dir_unref :: "fs_env \<Rightarrow> nat \<Rightarrow> bool \<Rightarrow> file_db \<Rightarrow> file_db option" where
  "apk_db_dir_unref env d rmdir fs =
     (let fs = upd_dir d (\<lambda>x. x\<lparr>dr_refs := dr_refs x - 1\<rparr>) fs in
      if dr_refs (fs_dir fs d) > 0 then Some fs
      else
        let fs = upd_dir d (\<lambda>x. x\<lparr>dr_diris := []\<rparr>) (fs\<lparr>fs_num_dirs := fs_num_dirs fs - 1\<rparr>) in
        Option.bind
          (if dr_namelen (fs_dir fs d) = 0 then Some fs
           else
             let fs = (if rmdir
                       then let fs = upd_dir d (\<lambda>x. x\<lparr>dr_modified := True\<rparr>) fs in
                            if env_simulate env then fs
                            else snd (fs_perform env (Fs_delete (dr_name (fs_dir fs d))) fs)
                       else fs)
             in Option.bind (apk_db_dir_unref env (the (dr_parent (fs_dir fs d))) rmdir fs)
                  (\<lambda>fs. Some (upd_dir d (\<lambda>x. x\<lparr>dr_parent := None\<rparr>) fs)))
          (\<lambda>fs. Some (upd_dir d (\<lambda>x. x\<lparr>dr_created := False, dr_permissions_ok := False\<rparr>) fs)))"

definition apk_db_dir_ref :: "nat \<Rightarrow> file_db \<Rightarrow> file_db" where
  "apk_db_dir_ref d = upd_dir d (\<lambda>x. x\<lparr>dr_refs := dr_refs x + 1\<rparr>)"

definition apk_db_dir_query :: "file_db \<Rightarrow> blob \<Rightarrow> nat option" where
  "apk_db_dir_query fs name = map_option fst (apk_hash_get (fs_dirs fs) name)"

text \<open>The part of a pattern in front of its first slash must match, and the rest is left for the children.\<close>

definition protect_path :: "fs_env \<Rightarrow> bytes \<Rightarrow> apk_protected_path \<Rightarrow> apk_protect_mode \<times> bool \<times> apk_protected_path list \<Rightarrow>
    apk_protect_mode \<times> bool \<times> apk_protected_path list" where
  "protect_path env relative_name ppath s =
     (case s of (mode, children, ppaths) \<Rightarrow>
       let children' = (children \<or> \<not> apk_protect_mode_none (pp_protect_mode ppath)) in
       case memchr (pp_relative_pattern ppath) CHR ''/'' of
         Some i \<Rightarrow>
           if \<not> env_fnmatch env (take i (pp_relative_pattern ppath)) relative_name then s
           else (mode, children', ppaths @ [ppath\<lparr>pp_relative_pattern := drop (Suc i) (pp_relative_pattern ppath)\<rparr>])
       | None \<Rightarrow>
           if \<not> env_fnmatch env (pp_relative_pattern ppath) relative_name then s
           else (pp_protect_mode ppath, children', ppaths))"

definition dir_protect :: "fs_env \<Rightarrow> nat \<Rightarrow> apk_protected_path list \<Rightarrow> file_db \<Rightarrow> file_db" where
  "dir_protect env d ppaths fs =
     (let dir = fs_dir fs d;
          name = cstr (dr_cname dir);
          relative_name = (case memrchr name CHR ''/'' of Some i \<Rightarrow> drop (Suc i) name | None \<Rightarrow> name)
      in case fold (protect_path env relative_name) ppaths (dr_protect_mode dir, dr_has_protected_children dir, []) of
           (mode, children, ppaths) \<Rightarrow>
             upd_dir d (\<lambda>x. x\<lparr>dr_protect_mode := mode, dr_has_protected_children := children,
               dr_protected_paths := ppaths\<rparr>) fs)"

definition dir_new :: "bytes \<Rightarrow> u64 \<Rightarrow> file_db \<Rightarrow> nat \<times> file_db" where
  "dir_new name hash fs =
     (let d = fs_next_dir fs;
          dir = null_dir\<lparr>dr_cname := name, dr_namelen := of_nat (length name), dr_hash := hash\<rparr>
      in (d, fs\<lparr>fs_next_dir := d + 1, fs_dir := (fs_dir fs)(d := dir),
               fs_dirs := apk_hash_insert_hashed (fs_dirs fs) (d, dr_name dir) hash\<rparr>))"

lemma trim_end_len: "blob_len (apk_blob_trim_end b c) \<le> blob_len b"
proof (cases b)
  case (Some xs)
  have "length (dropWhile (\<lambda>d. d = c) (rev xs)) \<le> length (rev xs)" by (rule length_dropWhile_le)
  with Some show ?thesis by (simp add: apk_blob_trim_end_def blob_len_def)
qed (simp add: apk_blob_trim_end_def)

lemma rsplit_shorter: "apk_blob_rsplit b c = Some (l, r) \<Longrightarrow> blob_len l < blob_len b"
  by (auto simp: apk_blob_rsplit_def blob_len_def split: option.splits dest: memrchr_Some)

text \<open>The hash value is that of the name before the slashes at its end are removed.\<close>

function apk_db_dir_get :: "fs_env \<Rightarrow> blob \<Rightarrow> file_db \<Rightarrow> nat \<times> file_db" where
  "apk_db_dir_get env name0 fs =
     (let hash = apk_hash_from_key (fs_dirs fs) name0;
          name = apk_blob_trim_end name0 CHR ''/'';
          found = map_option fst (apk_hash_get_hashed (fs_dirs fs) name hash)
      in if (case found of None \<Rightarrow> False | Some d \<Rightarrow> dr_refs (fs_dir fs d) \<noteq> 0) then (the found, apk_db_dir_ref (the found) fs)
         else
           case (case found of None \<Rightarrow> dir_new (blob_bytes name) hash fs | Some d \<Rightarrow> (d, fs)) of
             (d, fs) \<Rightarrow>
               let fs = upd_dir d (\<lambda>x. x\<lparr>dr_refs := 1, dr_diris := []\<rparr>) (fs\<lparr>fs_num_dirs := fs_num_dirs fs + 1\<rparr>) in
               if blob_len name = 0
               then (d, upd_dir d (\<lambda>x. x\<lparr>dr_parent := None, dr_has_protected_children := True\<rparr>) fs)
               else
                 case apk_blob_rsplit name CHR ''/'' of
                   Some (bparent, _) \<Rightarrow>
                     (case apk_db_dir_get env bparent fs of
                        (p, fs) \<Rightarrow>
                          let mode = dr_protect_mode (fs_dir fs p) in
                          (d, dir_protect env d (dr_protected_paths (fs_dir fs p))
                             (upd_dir d (\<lambda>x. x\<lparr>dr_parent := Some p, dr_protect_mode := mode,
                               dr_has_protected_children := \<not> apk_protect_mode_none mode\<rparr>) fs)))
                 | None \<Rightarrow>
                     (case apk_db_dir_get env None fs of
                        (p, fs) \<Rightarrow>
                          (d, dir_protect env d (fs_protected_paths fs) (upd_dir d (\<lambda>x. x\<lparr>dr_parent := Some p\<rparr>) fs))))"
  by pat_completeness auto

termination
  by (relation "measure (\<lambda>(env, name, fs). blob_len name)")
    (auto simp: trim_end_len dest!: rsplit_shorter intro: less_le_trans)

declare apk_db_dir_get.simps [simp del]

text \<open>The owner of a directory decides its permissions.\<close>

definition apk_db_dir_update_permissions :: "fs_env \<Rightarrow> nat \<Rightarrow> file_db \<Rightarrow> file_db" where
  "apk_db_dir_update_permissions env diri fs =
     (let d = di_dir (fs_diri fs diri); acl = di_acl (fs_diri fs diri) in
      if \<not> dr_permissions_ok (fs_dir fs d) \<or> env_simulate env then fs
      else
        case fs_perform env (Fs_update_perms (dr_name (fs_dir fs d)) (apk_db_dir_get_mode env (acl_mode acl))
               (acl_uid acl) (acl_gid acl)) (upd_dir d (\<lambda>x. x\<lparr>dr_modified := True\<rparr>) fs) of
          (r, fs) \<Rightarrow>
            if r \<noteq> Fs_ok then fs\<lparr>fs_num_dir_update_errors := fs_num_dir_update_errors fs + 1\<rparr> else fs)"

text \<open>\<open>pkg_of\<close> gives the package at an address.\<close>

definition owner_yields :: "(nat \<Rightarrow> apk_package) \<Rightarrow> nat \<Rightarrow> nat \<Rightarrow> file_db \<Rightarrow> bool" where
  "owner_yields pkg_of old new fs \<longleftrightarrow>
     apk_pkg_replaces_dir (pkg_of (di_pkg (fs_diri fs old))) (pkg_of (di_pkg (fs_diri fs new))) = APK_PKG_REPLACES_YES"

definition apk_db_dir_apply_diri_permissions ::
  "fs_env \<Rightarrow> (nat \<Rightarrow> apk_package) \<Rightarrow> nat \<Rightarrow> file_db \<Rightarrow> file_db" where
  "apk_db_dir_apply_diri_permissions env pkg_of diri fs =
     (let d = di_dir (fs_diri fs diri) in
      case dr_owner (fs_dir fs d) of
        None \<Rightarrow> upd_dir d (\<lambda>x. x\<lparr>dr_owner := Some diri\<rparr>) fs
      | Some old \<Rightarrow>
          if \<not> owner_yields pkg_of old diri fs then fs
          else
            upd_dir d (\<lambda>x. x\<lparr>dr_owner := Some diri\<rparr>)
              (if di_acl (fs_diri fs old) \<noteq> di_acl (fs_diri fs diri)
               then apk_db_dir_update_permissions env diri fs else fs))"

definition better_owner :: "(nat \<Rightarrow> apk_package) \<Rightarrow> file_db \<Rightarrow> nat \<Rightarrow> nat option \<Rightarrow> nat option" where
  "better_owner pkg_of fs di owner =
     (case owner of
        None \<Rightarrow> Some di
      | Some old \<Rightarrow> if owner_yields pkg_of old di fs then Some di else owner)"

definition apk_db_diri_remove :: "fs_env \<Rightarrow> (nat \<Rightarrow> apk_package) \<Rightarrow> nat \<Rightarrow> file_db \<Rightarrow> file_db option" where
  "apk_db_diri_remove env pkg_of diri fs =
     (let d = di_dir (fs_diri fs diri);
          fs = upd_dir d (\<lambda>x. x\<lparr>dr_diris := remove1 diri (dr_diris x)\<rparr>) fs;
          fs = (if dr_owner (fs_dir fs d) \<noteq> Some diri then fs
                else
                  let owner = fold (better_owner pkg_of fs) (dr_diris (fs_dir fs d)) None;
                      fs = upd_dir d (\<lambda>x. x\<lparr>dr_owner := owner\<rparr>) fs
                  in case owner of None \<Rightarrow> fs | Some di \<Rightarrow> apk_db_dir_update_permissions env di fs)
      in apk_db_dir_unref env d True fs)"

section \<open>Files\<close>

definition apk_dbf_digest_blob :: "apk_db_file \<Rightarrow> blob" where
  "apk_dbf_digest_blob file = Some (take (apk_digest_alg_len (fl_digest_alg file)) (fl_digest file))"

definition apk_dbf_digest_set :: "nat \<Rightarrow> bytes \<Rightarrow> apk_db_file \<Rightarrow> apk_db_file" where
  "apk_dbf_digest_set alg data file =
     (let len = apk_digest_alg_len alg in
      if len > 20 then file\<lparr>fl_digest_alg := APK_DIGEST_NONE\<rparr>
      else file\<lparr>fl_digest_alg := alg, fl_digest := take len data @ drop len (fl_digest file)\<rparr>)"

definition apk_db_file_query :: "file_db \<Rightarrow> blob \<Rightarrow> blob \<Rightarrow> nat option" where
  "apk_db_file_query fs dir name =
     map_option fe_file (apk_hash_get (fs_files fs) \<lparr>fk_dirname = apk_blob_trim_end dir CHR ''/'', fk_filename = name\<rparr>)"

definition files_qsort_cmp :: "file_db \<Rightarrow> nat \<Rightarrow> nat \<Rightarrow> int" where
  "files_qsort_cmp fs f1 f2 = apk_blob_sort (Some (fl_name (fs_file fs f1))) (Some (fl_name (fs_file fs f2)))"

definition files_bsearch_cmp :: "file_db \<Rightarrow> blob \<Rightarrow> nat \<Rightarrow> int" where
  "files_bsearch_cmp fs name f = apk_blob_sort name (Some (fl_name (fs_file fs f)))"

definition apk_db_file_new :: "nat \<Rightarrow> blob \<Rightarrow> file_db \<Rightarrow> nat \<times> file_db" where
  "apk_db_file_new diri name fs =
     (let a = fs_next_file fs;
          file = null_file\<lparr>fl_cname := blob_bytes name, fl_namelen := of_nat (blob_len name), fl_diri := diri\<rparr>;
          fs = fs\<lparr>fs_next_file := a + 1, fs_file := (fs_file fs)(a := file)\<rparr>;
          unsorted = (if \<not> ic_files_unsorted fs \<and> ic_files fs \<noteq> []
                      then files_qsort_cmp fs a (last (ic_files fs)) < 0 else ic_files_unsorted fs)
      in (a, fs\<lparr>ic_files_unsorted := unsorted, ic_files := ic_files fs @ [a]\<rparr>))"

definition apk_db_file_get :: "nat \<Rightarrow> blob \<Rightarrow> file_db \<Rightarrow> nat \<times> file_db" where
  "apk_db_file_get diri name fs =
     (let dir = diri_dir fs diri;
          hash = apk_blob_hash_seed name (dr_hash dir)
      in case apk_hash_get_hashed (fs_files fs) \<lparr>fk_dirname = Some (dr_name dir), fk_filename = name\<rparr> hash of
           Some item \<Rightarrow> (fe_file item, fs)
         | None \<Rightarrow>
             (case apk_db_file_new diri name fs of
                (a, fs) \<Rightarrow>
                  (a, fs\<lparr>fs_files := apk_hash_insert_hashed (fs_files fs)
                           \<lparr>fe_file = a, fe_dirname = dr_name dir, fe_dirhash = dr_hash dir, fe_name = fl_name (fs_file fs a)\<rparr> hash,
                         fs_num_files := fs_num_files fs + 1\<rparr>)))"

section \<open>The creator of an installed package\<close>

definition apk_db_ipkg_creator_reset :: "file_db \<Rightarrow> file_db" where
  "apk_db_ipkg_creator_reset fs = fs\<lparr>ic_diris := [], ic_num_unsorted_diris := 0, ic_diri := None\<rparr>"

definition apk_db_ipkg_commit_files :: "file_db \<Rightarrow> file_db" where
  "apk_db_ipkg_commit_files fs =
     (let files = (if ic_files_unsorted fs then qsort (files_qsort_cmp fs) (ic_files fs) else ic_files fs);
          fs = (case ic_diri fs of None \<Rightarrow> fs | Some d \<Rightarrow> upd_diri d (\<lambda>x. x\<lparr>di_files := files\<rparr>) fs)
      in fs\<lparr>ic_files_unsorted := False, ic_files := []\<rparr>)"

text \<open>The instances of the package, which are entered in the lists of their directories.\<close>

definition apk_db_ipkg_commit :: "file_db \<Rightarrow> nat list \<times> file_db" where
  "apk_db_ipkg_commit fs =
     (let fs = apk_db_ipkg_commit_files fs;
          diris = ic_diris fs;
          fs = fold (\<lambda>d fs. upd_dir (di_dir (fs_diri fs d)) (\<lambda>x. x\<lparr>dr_diris := dr_diris x @ [d]\<rparr>) fs) diris fs
      in (diris, apk_db_ipkg_creator_reset fs))"

definition diri_qsort_cmp :: "file_db \<Rightarrow> nat \<Rightarrow> nat \<Rightarrow> int" where
  "diri_qsort_cmp fs d1 d2 = apk_blob_sort (Some (diri_name fs d1)) (Some (diri_name fs d2))"

definition diri_bsearch_cmp :: "file_db \<Rightarrow> blob \<Rightarrow> nat \<Rightarrow> int" where
  "diri_bsearch_cmp fs dirname d = apk_blob_sort dirname (Some (diri_name fs d))"

text \<open>\<^verbatim>\<open>bsearch\<close> of the C library.\<close>

function bsearch :: "('a \<Rightarrow> int) \<Rightarrow> 'a list \<Rightarrow> 'a option" where
  "bsearch cmp xs =
     (if xs = [] then None
      else
        let m = length xs div 2; x = xs ! m; r = cmp x in
        if r < 0 then bsearch cmp (take m xs)
        else if r > 0 then bsearch cmp (drop (Suc m) xs)
        else Some x)"
  by pat_completeness auto
termination
  by (relation "measure (length \<circ> snd)") (auto simp: Let_def)

declare bsearch.simps [simp del]

definition apk_db_diri_bsearch :: "blob \<Rightarrow> file_db \<Rightarrow> nat option \<times> file_db" where
  "apk_db_diri_bsearch dirname fs =
     (let fs = (if ic_num_unsorted_diris fs > 32
                then fs\<lparr>ic_diris := qsort (diri_qsort_cmp fs) (ic_diris fs), ic_num_unsorted_diris := 0\<rparr> else fs);
          last_sorted = length (ic_diris fs) - ic_num_unsorted_diris fs
      in case bsearch (diri_bsearch_cmp fs dirname) (take last_sorted (ic_diris fs)) of
           Some d \<Rightarrow> (Some d, fs)
         | None \<Rightarrow> (List.find (\<lambda>d. diri_bsearch_cmp fs dirname d = 0) (drop last_sorted (ic_diris fs)), fs))"

definition apk_db_diri_query :: "blob \<Rightarrow> file_db \<Rightarrow> nat option \<times> file_db" where
  "apk_db_diri_query dirname fs =
     (case ic_diri fs of
        Some d \<Rightarrow> if diri_bsearch_cmp fs dirname d = 0 then (Some d, fs) else apk_db_diri_bsearch dirname fs
      | None \<Rightarrow> apk_db_diri_bsearch dirname fs)"

definition apk_db_diri_select :: "nat \<Rightarrow> file_db \<Rightarrow> file_db" where
  "apk_db_diri_select diri fs =
     (if ic_diri fs = Some diri then fs
      else
        let fs = apk_db_ipkg_commit_files fs
        in fs\<lparr>ic_diri := Some diri, ic_files := di_files (fs_diri fs diri)\<rparr>)"

text \<open>A new instance is behind the last one, or starts or lengthens the unsorted part.\<close>

definition diri_new :: "fs_env \<Rightarrow> blob \<Rightarrow> nat \<Rightarrow> int \<Rightarrow> file_db \<Rightarrow> nat \<times> file_db" where
  "diri_new env dirname pkg res fs =
     (case apk_db_dir_get env dirname fs of
        (dir, fs) \<Rightarrow>
          let diri = fs_next_diri fs;
              fs = fs\<lparr>fs_next_diri := diri + 1,
                     fs_diri := (fs_diri fs)(diri := \<lparr>di_files = [], di_pkg = pkg, di_dir = dir, di_acl = apk_default_acl_dir\<rparr>)\<rparr>;
              res = (if ic_num_unsorted_diris fs \<noteq> 0 then - 1
                     else if ic_diris fs \<noteq> [] \<and> ic_diri fs \<noteq> Some (last (ic_diris fs))
                     then diri_bsearch_cmp fs dirname (last (ic_diris fs)) else res)
          in (diri, fs\<lparr>ic_num_unsorted_diris := (if res < 0 then ic_num_unsorted_diris fs + 1 else ic_num_unsorted_diris fs),
                      ic_diris := ic_diris fs @ [diri]\<rparr>))"

definition apk_db_diri_get :: "fs_env \<Rightarrow> blob \<Rightarrow> nat \<Rightarrow> file_db \<Rightarrow> nat \<times> file_db" where
  "apk_db_diri_get env dirname pkg fs =
     (let res = (case ic_diri fs of None \<Rightarrow> 1 | Some d \<Rightarrow> diri_bsearch_cmp fs dirname d) in
      if res = 0 then (the (ic_diri fs), fs)
      else
        case apk_db_diri_bsearch dirname fs of
          (Some diri, fs) \<Rightarrow> (diri, apk_db_diri_select diri fs)
        | (None, fs) \<Rightarrow> (case diri_new env dirname pkg res fs of (diri, fs) \<Rightarrow> (diri, apk_db_diri_select diri fs)))"

definition apk_db_ipkg_find_file :: "blob \<Rightarrow> file_db \<Rightarrow> nat option \<times> file_db" where
  "apk_db_ipkg_find_file file fs =
     (let (dir, file) = (case apk_blob_rsplit file CHR ''/'' of Some (d, f) \<Rightarrow> (d, f) | None \<Rightarrow> (None, file)) in
      case apk_db_diri_query dir fs of
        (None, fs) \<Rightarrow> (None, fs)
      | (Some diri, fs) \<Rightarrow>
          if ic_diri fs = Some diri
          then
            let fs = (if ic_files_unsorted fs
                      then fs\<lparr>ic_files := qsort (files_qsort_cmp fs) (ic_files fs), ic_files_unsorted := False\<rparr> else fs)
            in (bsearch (files_bsearch_cmp fs file) (ic_files fs), fs)
          else (bsearch (files_bsearch_cmp fs file) (di_files (fs_diri fs diri)), fs))"

end
