(* ===== verification/Files_Inv.thy ===== *)
theory Files_Inv
  imports Files
begin

text \<open>
  Searching the sorted arrays of directory instances and files, and the invariant of the creator of an
  installed package: the search finds what a linear search would find.
\<close>

section \<open>Arrays in the order of names\<close>

text \<open>The contract of the comparison functions of an array that is sorted and searched by name.\<close>

locale name_order =
  fixes nm :: "'a \<Rightarrow> bytes"
    and qcmp :: "'a \<Rightarrow> 'a \<Rightarrow> int"
    and bcmp :: "blob \<Rightarrow> 'a \<Rightarrow> int"
  assumes qcmp_sort: "qcmp x y = apk_blob_sort (Some (nm x)) (Some (nm y))"
    and bcmp_sort: "bcmp k x = apk_blob_sort k (Some (nm x))"
begin

definition ascending :: "'a list \<Rightarrow> bool" where
  "ascending = sorted_wrt (\<lambda>x y. bytes_less (nm x) (nm y))"

lemma bcmp_sign:
  "bcmp k x < 0 \<longleftrightarrow> bytes_less (blob_bytes k) (nm x)" "0 < bcmp k x \<longleftrightarrow> bytes_less (nm x) (blob_bytes k)"
  "bcmp k x = 0 \<longleftrightarrow> nm x = blob_bytes k"
  by (auto simp: bcmp_sort apk_blob_sort_less apk_blob_sort_greater apk_blob_sort_eq_0)

lemma ascending_append: "ascending (xs @ ys) \<longleftrightarrow> ascending xs \<and> ascending ys \<and> (\<forall>x \<in> set xs. \<forall>y \<in> set ys. bytes_less (nm x) (nm y))"
  by (simp add: ascending_def sorted_wrt_append)

lemma ascending_distinct: "ascending xs \<Longrightarrow> distinct (map nm xs)"
  by (induction xs) (auto simp: ascending_def)

lemma ascending_snoc: "ascending xs \<Longrightarrow> (xs \<noteq> [] \<Longrightarrow> bytes_less (nm (last xs)) (nm x)) \<Longrightarrow> ascending (xs @ [x])"
proof (induction xs rule: rev_induct)
  case (snoc y ys)
  have y: "bytes_less (nm y) (nm x)" using snoc.prems(2) by simp
  have z: "bytes_less (nm z) (nm x)" if "z \<in> set ys" for z
    by (rule bytes_less_trans [OF _ y]) (use snoc.prems(1) that in \<open>simp add: ascending_append\<close>)
  show ?case using snoc.prems(1) y z by (auto simp: ascending_append) (simp add: ascending_def)
qed (simp add: ascending_def)

lemma find_append_None: "(\<And>x. x \<in> set xs \<Longrightarrow> \<not> P x) \<Longrightarrow> List.find P (xs @ ys) = List.find P ys"
  by (induction xs) auto

lemma bsearch_find: "ascending xs \<Longrightarrow> bsearch (bcmp k) xs = List.find (\<lambda>x. nm x = blob_bytes k) xs"
proof (induction "length xs" arbitrary: xs rule: less_induct)
  case less
  let ?m = "length xs div 2" and ?P = "\<lambda>x. nm x = blob_bytes k"
  show ?case
  proof (cases "xs = []")
    case False
    then have lt: "?m < length xs" by simp
    then have split: "xs = take ?m xs @ xs ! ?m # drop (Suc ?m) xs" by (rule id_take_nth_drop)
    have asc: "ascending (take ?m xs @ xs ! ?m # drop (Suc ?m) xs)" using less.prems split by simp
    have parts: "ascending (take ?m xs)" "ascending (drop (Suc ?m) xs)"
      "\<And>x. x \<in> set (take ?m xs) \<Longrightarrow> bytes_less (nm x) (nm (xs ! ?m))" "\<And>x. x \<in> set (drop (Suc ?m) xs) \<Longrightarrow> bytes_less (nm (xs ! ?m)) (nm x)"
      using asc unfolding ascending_append by (simp_all add: ascending_def)
    have ih: "bsearch (bcmp k) (take ?m xs) = List.find ?P (take ?m xs)"
        "bsearch (bcmp k) (drop (Suc ?m) xs) = List.find ?P (drop (Suc ?m) xs)"
      using less.hyps parts(1, 2) lt False by auto
    have find: "List.find ?P xs = List.find ?P (take ?m xs @ xs ! ?m # drop (Suc ?m) xs)" using split by simp
    consider "bcmp k (xs ! ?m) < 0" | "bcmp k (xs ! ?m) > 0" | "bcmp k (xs ! ?m) = 0" by linarith
    then show ?thesis
    proof cases
      case 1
      then have k: "bytes_less (blob_bytes k) (nm (xs ! ?m))" by (simp add: bcmp_sign)
      have "bytes_less (blob_bytes k) (nm x)" if "x = xs ! ?m \<or> x \<in> set (drop (Suc ?m) xs)" for x
        using parts(4) [of x] that k bytes_less_trans [OF k] by blast
      then have "\<not> ?P x" if "x = xs ! ?m \<or> x \<in> set (drop (Suc ?m) xs)" for x using that by fastforce
      then have "List.find ?P (xs ! ?m # drop (Suc ?m) xs) = None" by (auto simp: find_None_iff)
      then have "List.find ?P xs = List.find ?P (take ?m xs)" unfolding find find_append by (simp split: option.split)
      then show ?thesis using 1 False ih(1) by (subst bsearch.simps) (simp add: Let_def)
    next
      case 2
      then have k: "bytes_less (nm (xs ! ?m)) (blob_bytes k)" by (simp add: bcmp_sign)
      have "bytes_less (nm x) (blob_bytes k)" if "x = xs ! ?m \<or> x \<in> set (take ?m xs)" for x
        using parts(3) [of x] that k bytes_less_trans [OF _ k] by blast
      then have "\<not> ?P x" if "x = xs ! ?m \<or> x \<in> set (take ?m xs)" for x using that by fastforce
      then have "List.find ?P xs = List.find ?P (drop (Suc ?m) xs)" unfolding find by (simp add: find_append_None)
      then show ?thesis using 2 False ih(2) by (subst bsearch.simps) (simp add: Let_def)
    next
      case 3
      have "\<not> ?P x" if "x \<in> set (take ?m xs)" for x using parts(3) [OF that] 3 by (auto simp: bcmp_sign)
      then have "List.find ?P xs = Some (xs ! ?m)" unfolding find using 3 by (simp add: find_append_None bcmp_sign)
      then show ?thesis using 3 False by (subst bsearch.simps) (simp add: Let_def)
    qed
  qed (simp add: bsearch.simps)
qed

lemma insert_ascending:
  "ascending ys \<Longrightarrow> nm x \<notin> nm ` set ys \<Longrightarrow> ascending (insert_by qcmp x ys)"
proof (induction ys)
  case (Cons y ys)
  have le: "qcmp x y \<le> 0 \<longleftrightarrow> bytes_less (nm x) (nm y)"
    using Cons.prems(2) apk_blob_sort_greater [of "Some (nm x)" "Some (nm y)"] bytes_less_total [of "nm x" "nm y"]
      bytes_less_trans [of "nm x" "nm y" "nm x"] by (auto simp: qcmp_sort not_less [symmetric])
  have set: "set (insert_by qcmp x ys) = insert x (set ys)" by (induction ys) auto
  show ?case
    using Cons le set bytes_less_total [of "nm x" "nm y"] by (auto simp: ascending_def intro: bytes_less_trans)
qed (simp add: ascending_def)

lemma qsort_ascending: "distinct (map nm xs) \<Longrightarrow> ascending (qsort qcmp xs)"
proof (induction xs)
  case (Cons x xs)
  have "qsort qcmp (x # xs) = insert_by qcmp x (qsort qcmp xs)" by (simp add: qsort_def)
  then show ?case using Cons set_qsort [of qcmp xs] by (auto intro!: insert_ascending)
qed (simp add: qsort_def ascending_def)

end

interpretation diri_order: name_order "\<lambda>d. diri_name fs d" "diri_qsort_cmp fs" "diri_bsearch_cmp fs" for fs
  by unfold_locales (simp_all add: diri_qsort_cmp_def diri_bsearch_cmp_def)

interpretation file_order: name_order "\<lambda>f. fl_name (fs_file fs f)" "files_qsort_cmp fs" "files_bsearch_cmp fs" for fs
  by unfold_locales (simp_all add: files_qsort_cmp_def files_bsearch_cmp_def)

section \<open>Directories\<close>

interpretation dir_table: hash_contract dir_hash_ops snd blob_bytes
proof
  show "item_matches dir_hash_ops i k \<longleftrightarrow> snd i = blob_bytes k" for i k
    by (auto simp: item_matches_def dir_hash_ops_def apk_db_dir_get_key_def apk_blob_compare_eq_0)
  show "(case hash_item dir_hash_ops of Some f \<Rightarrow> f i
         | None \<Rightarrow> hash_key dir_hash_ops (get_key dir_hash_ops i)) = hash_key dir_hash_ops k"
    if "snd i = blob_bytes k" for i k
    using that by (simp add: dir_hash_ops_def apk_db_dir_get_key_def apk_blob_hash_def apk_blob_hash_seed_def)
qed

definition dirs_ok :: "file_db \<Rightarrow> bool" where
  "dirs_ok fs \<longleftrightarrow> hash_table dir_hash_ops (fs_dirs fs) \<and> keys_distinct snd (fs_dirs fs) \<and>
     (\<forall>(d, n) \<in> set (hash_items (fs_dirs fs)).
        d < fs_next_dir fs \<and> dr_name (fs_dir fs d) = n \<and> dr_hash (fs_dir fs d) = apk_blob_hash (Some n))"

text \<open>What looking a directory up leaves alone.\<close>

definition dir_ext :: "file_db \<Rightarrow> file_db \<Rightarrow> bool" where
  "dir_ext fs fs' \<longleftrightarrow>
     fs_diri fs' = fs_diri fs \<and> fs_next_diri fs' = fs_next_diri fs \<and> fs_files fs' = fs_files fs \<and>
     fs_file fs' = fs_file fs \<and> fs_next_file fs' = fs_next_file fs \<and> fs_num_files fs' = fs_num_files fs \<and>
     fs_protected_paths fs' = fs_protected_paths fs \<and> fs_log fs' = fs_log fs \<and>
     ic_diri fs' = ic_diri fs \<and> ic_diris fs' = ic_diris fs \<and> ic_files fs' = ic_files fs \<and>
     ic_num_unsorted_diris fs' = ic_num_unsorted_diris fs \<and> ic_files_unsorted fs' = ic_files_unsorted fs \<and>
     fs_next_dir fs \<le> fs_next_dir fs' \<and>
     (\<forall>d < fs_next_dir fs. dr_name (fs_dir fs' d) = dr_name (fs_dir fs d) \<and> dr_hash (fs_dir fs' d) = dr_hash (fs_dir fs d))"

lemma dir_ext_refl [simp]: "dir_ext fs fs"
  by (simp add: dir_ext_def)

lemma dir_ext_trans: "dir_ext a b \<Longrightarrow> dir_ext b c \<Longrightarrow> dir_ext a c"
  unfolding dir_ext_def by auto

text \<open>Changes of a directory that keep its name.\<close>

definition keeps_name :: "(apk_db_dir \<Rightarrow> apk_db_dir) \<Rightarrow> bool" where
  "keeps_name f \<longleftrightarrow> (\<forall>x. dr_name (f x) = dr_name x \<and> dr_hash (f x) = dr_hash x)"

lemma keeps_nameI [intro]: "(\<And>x. dr_cname (f x) = dr_cname x \<and> dr_namelen (f x) = dr_namelen x \<and> dr_hash (f x) = dr_hash x) \<Longrightarrow> keeps_name f"
  by (simp add: keeps_name_def dr_name_def)

lemma upd_dir_simps [simp]:
  "fs_dir (upd_dir d f fs) = (fs_dir fs)(d := f (fs_dir fs d))" "fs_dirs (upd_dir d f fs) = fs_dirs fs"
  "fs_next_dir (upd_dir d f fs) = fs_next_dir fs" "fs_diri (upd_dir d f fs) = fs_diri fs"
  "fs_protected_paths (upd_dir d f fs) = fs_protected_paths fs" "fs_num_dirs (upd_dir d f fs) = fs_num_dirs fs"
  by (simp_all add: upd_dir_def)

lemma upd_dir_ext: "keeps_name f \<Longrightarrow> dir_ext fs (upd_dir d f fs)"
  by (simp add: dir_ext_def upd_dir_def keeps_name_def)

lemma upd_dir_ok: "keeps_name f \<Longrightarrow> dirs_ok (upd_dir d f fs) = dirs_ok fs"
  by (auto simp: dirs_ok_def keeps_name_def split: if_splits)

lemma num_dirs_ext [simp]: "dir_ext fs (fs\<lparr>fs_num_dirs := n\<rparr>)" "dirs_ok (fs\<lparr>fs_num_dirs := n\<rparr>) = dirs_ok fs"
  by (simp_all add: dir_ext_def dirs_ok_def)

lemma protect_ext: "dir_ext fs (dir_protect env d ps fs)" "dirs_ok (dir_protect env d ps fs) = dirs_ok fs"
  unfolding dir_protect_def Let_def
  by (auto split: prod.split intro!: upd_dir_ext upd_dir_ok)

lemma dir_new_spec:
  assumes "dirs_ok fs" "apk_hash_get (fs_dirs fs) (Some n) = None" "length n < 65536"
  defines "fs' \<equiv> snd (dir_new n (apk_hash_from_key (fs_dirs fs) (Some n)) fs)"
  shows "fst (dir_new n (apk_hash_from_key (fs_dirs fs) (Some n)) fs) = fs_next_dir fs" "dir_ext fs fs'" "dirs_ok fs'"
    "(fs_next_dir fs, n) \<in> set (hash_items (fs_dirs fs'))"
proof -
  let ?d = "fs_next_dir fs" and ?h = "apk_hash_from_key (fs_dirs fs) (Some n)"
  have t: "hash_table dir_hash_ops (fs_dirs fs)" "keys_distinct snd (fs_dirs fs)" using assms(1) by (simp_all add: dirs_ok_def)
  have len: "unat (of_nat (length n) :: u16) = length n" using assms(3) by (simp add: unsigned_of_nat take_bit_nat_eq_self_iff)
  have nm: "dr_name (null_dir\<lparr>dr_cname := n, dr_namelen := of_nat (length n), dr_hash := h\<rparr>) = n" for h by (simp add: dr_name_def len)
  have h: "?h = apk_hash_from_item (fs_dirs fs) (?d, n)" using dir_table.from_item_key [OF t(1), of "(?d, n)" "Some n"] by simp
  have ins: "fs_dirs fs' = apk_hash_insert (fs_dirs fs) (?d, n)"
    by (simp add: fs'_def dir_new_def Let_def nm apk_hash_insert_def h)
  have ok: "hash_ok (fs_dirs fs)" using t(1) by (simp add: hash_table_def)
  have items: "set (hash_items (fs_dirs fs')) = insert (?d, n) (set (hash_items (fs_dirs fs)))"
    unfolding ins by (rule hash_insert_ok(2) [OF ok])
  show "fst (dir_new n ?h fs) = ?d" by (simp add: dir_new_def Let_def)
  show ext: "dir_ext fs fs'" by (simp add: fs'_def dir_new_def dir_ext_def Let_def)
  show "(?d, n) \<in> set (hash_items (fs_dirs fs'))" using items by simp
  have k: "?h = apk_blob_hash (Some n)" using t(1) by (simp add: apk_hash_from_key_def hash_table_def dir_hash_ops_def)
  have d: "dr_name (fs_dir fs' ?d) = n" "dr_hash (fs_dir fs' ?d) = apk_blob_hash (Some n)" "fs_next_dir fs' = ?d + 1"
    by (simp_all add: fs'_def dir_new_def Let_def nm k)
  have "table_map snd (fs_dirs fs) (snd (?d, n)) = None" using assms(2) dir_table.get_is_map [OF t(1), of "Some n"] by simp
  then have "keys_distinct snd (fs_dirs fs')" unfolding ins by (rule dir_table.insert_distinct [OF t])
  moreover have "hash_table dir_hash_ops (fs_dirs fs')" unfolding ins by (rule dir_table.insert_table [OF t(1)])
  moreover have "e < ?d \<and> dr_name (fs_dir fs' e) = m \<and> dr_hash (fs_dir fs' e) = apk_blob_hash (Some m)"
    if "(e, m) \<in> set (hash_items (fs_dirs fs))" for e m
    using assms(1) ext that by (auto simp: dirs_ok_def dir_ext_def)
  ultimately show "dirs_ok fs'" unfolding dirs_ok_def items using d by (auto intro: less_SucI)
qed

text \<open>A path without empty components, of a length that fits 16 bits.\<close>

definition clean_path :: "bytes \<Rightarrow> bool" where
  "clean_path p \<longleftrightarrow> length p < 65536 \<and> (\<forall>i < length p. p ! i = CHR ''/'' \<longrightarrow> Suc i < length p \<and> p ! Suc i \<noteq> CHR ''/'')"

lemma clean_trim: "clean_path p \<Longrightarrow> apk_blob_trim_end (Some p) CHR ''/'' = Some p"
proof (cases p rule: rev_cases)
  case (snoc q c)
  assume "clean_path p"
  then have "c \<noteq> CHR ''/''" unfolding clean_path_def snoc by (auto dest: spec [of _ "length q"])
  then show ?thesis by (simp add: apk_blob_trim_end_def snoc)
qed (simp add: apk_blob_trim_end_def)

lemma clean_parent:
  assumes "clean_path p" "apk_blob_rsplit (Some p) CHR ''/'' = Some (b, r)"
  obtains q where "b = Some q" "clean_path q"
proof -
  from assms(2) obtain i where i: "memrchr p CHR ''/'' = Some i" "b = Some (take i p)"
    by (auto simp: apk_blob_rsplit_def split: option.splits)
  note m = memrchr_Some [OF i(1)]
  have "clean_path (take i p)"
    unfolding clean_path_def
  proof (intro conjI allI impI)
    show "length (take i p) < 65536" using assms(1) by (simp add: clean_path_def min_less_iff_disj)
    fix j
    assume j: "j < length (take i p)" "take i p ! j = CHR ''/''"
    then have "Suc j < length p" "p ! Suc j \<noteq> CHR ''/''" using assms(1) by (simp_all add: clean_path_def)
    moreover from this have "Suc j \<noteq> i" using m by auto
    ultimately show "Suc j < length (take i p)" "take i p ! Suc j \<noteq> CHR ''/''" using j by auto
  qed
  with i(2) that show thesis by blast
qed

lemma dir_found:
  assumes "dirs_ok fs" "map_option fst (apk_hash_get (fs_dirs fs) (Some n)) = Some d"
  shows "(d, n) \<in> set (hash_items (fs_dirs fs))"
proof -
  from assms(2) obtain m where g: "apk_hash_get (fs_dirs fs) (Some n) = Some (d, m)" by auto
  have "hash_table dir_hash_ops (fs_dirs fs)" using assms(1) by (simp add: dirs_ok_def)
  from dir_table.get_Some [OF this g] show ?thesis by auto
qed

text \<open>The directory that is found or made has the name that was asked for.\<close>

definition dir_got :: "bytes \<Rightarrow> file_db \<Rightarrow> nat \<times> file_db \<Rightarrow> bool" where
  "dir_got n fs r \<longleftrightarrow> dir_ext fs (snd r) \<and> dirs_ok (snd r) \<and> fst r < fs_next_dir (snd r) \<and>
     dr_name (fs_dir (snd r) (fst r)) = n \<and> dr_hash (fs_dir (snd r) (fst r)) = apk_blob_hash (Some n)"

lemma dir_got_upd:
  assumes "dir_got n fs (d, fs')" "dir_ext fs' fs''" "dirs_ok fs''"
  shows "dir_got n fs (d, fs'')"
  using assms dir_ext_trans [of fs fs' fs''] by (auto simp: dir_got_def dir_ext_def)

lemma dir_get_spec: "dirs_ok fs \<Longrightarrow> clean_path (blob_bytes name) \<Longrightarrow> dir_got (blob_bytes name) fs (apk_db_dir_get env name fs)"
proof (induction "blob_len name" arbitrary: name fs rule: less_induct)
  case less
  let ?n = "blob_bytes name" and ?t = "apk_blob_trim_end name CHR ''/''" and ?h = "apk_hash_from_key (fs_dirs fs) name"
  note ok = less.prems(1) and clean = less.prems(2)
  have t: "blob_bytes ?t = ?n" using clean_trim [OF clean] by (cases name) (auto simp: apk_blob_trim_end_def)
  have tab: "hash_table dir_hash_ops (fs_dirs fs)" using ok by (simp add: dirs_ok_def)
  have h: "?h = apk_hash_from_key (fs_dirs fs) (Some ?n)" "?h = apk_hash_from_key (fs_dirs fs) ?t"
    using tab t by (simp_all add: apk_hash_from_key_def hash_table_def dir_hash_ops_def apk_blob_hash_def apk_blob_hash_seed_def)
  have get: "apk_hash_get_hashed (fs_dirs fs) ?t ?h = apk_hash_get (fs_dirs fs) (Some ?n)"
    using dir_table.get_hashed_is_map [OF tab h(2)] dir_table.get_is_map [OF tab, of "Some ?n"] t by simp
  define found where "found = map_option fst (apk_hash_get (fs_dirs fs) (Some ?n))"
  have known: "dir_got ?n fs (d, fs)" if "found = Some d" for d
    using ok dir_found [OF ok] that unfolding found_def dirs_ok_def dir_got_def by fastforce
  show ?case
  proof (cases "case found of None \<Rightarrow> False | Some d \<Rightarrow> dr_refs (fs_dir fs d) \<noteq> 0")
    case True
    then obtain d where d: "found = Some d" by (auto split: option.splits)
    have "apk_db_dir_get env name fs = (d, apk_db_dir_ref d fs)"
      using True d by (subst apk_db_dir_get.simps, unfold Let_def get found_def [symmetric]) simp
    moreover have "dir_got ?n fs (d, apk_db_dir_ref d fs)"
      unfolding apk_db_dir_ref_def by (rule dir_got_upd [OF known [OF d]]) (use ok in \<open>auto intro!: upd_dir_ext simp: upd_dir_ok keeps_nameI\<close>)
    ultimately show ?thesis by simp
  next
    case False
    obtain d fs1 where new: "(case found of None \<Rightarrow> dir_new ?n ?h fs | Some d \<Rightarrow> (d, fs)) = (d, fs1)" by fastforce
    have got1: "dir_got ?n fs (d, fs1)"
    proof (cases found)
      case None
      then have "apk_hash_get (fs_dirs fs) (Some ?n) = None" by (simp add: found_def)
      note s = dir_new_spec [OF ok this, folded h(1)]
      have "length ?n < 65536" using clean by (simp add: clean_path_def)
      note s = s [OF this]
      have "d = fs_next_dir fs" "fs1 = snd (dir_new ?n ?h fs)" using new None s(1) by (simp_all add: prod_eq_iff)
      with s show ?thesis by (auto simp: dir_got_def dirs_ok_def)
    qed (use new known in auto)
    define fs2 where "fs2 = upd_dir d (\<lambda>x. x\<lparr>dr_refs := 1, dr_diris := []\<rparr>) (fs1\<lparr>fs_num_dirs := fs_num_dirs fs1 + 1\<rparr>)"
    have k: "keeps_name (\<lambda>x. x\<lparr>dr_refs := 1, dr_diris := []\<rparr>)" "keeps_name (\<lambda>x. x\<lparr>dr_parent := p, dr_has_protected_children := c\<rparr>)"
      "keeps_name (\<lambda>x. x\<lparr>dr_parent := p\<rparr>)" "keeps_name (\<lambda>x. x\<lparr>dr_parent := p, dr_protect_mode := m, dr_has_protected_children := c\<rparr>)" for p c m
      by auto
    have ok1: "dirs_ok fs1" using got1 by (simp add: dir_got_def)
    have ext2: "dir_ext fs1 fs2" "dirs_ok fs2"
      unfolding fs2_def using ok1 by (auto simp: upd_dir_ok k intro: dir_ext_trans [OF num_dirs_ext(1) upd_dir_ext [OF k(1)]])
    note got2 = dir_got_upd [OF got1 ext2]
    have step: "apk_db_dir_get env name fs =
      (if blob_len name = 0 then (d, upd_dir d (\<lambda>x. x\<lparr>dr_parent := None, dr_has_protected_children := True\<rparr>) fs2)
       else case apk_blob_rsplit ?t CHR ''/'' of
           Some (b, _) \<Rightarrow> (case apk_db_dir_get env b fs2 of (p, fs3) \<Rightarrow>
             (d, dir_protect env d (dr_protected_paths (fs_dir fs3 p))
                (upd_dir d (\<lambda>x. x\<lparr>dr_parent := Some p, dr_protect_mode := dr_protect_mode (fs_dir fs3 p),
                   dr_has_protected_children := \<not> apk_protect_mode_none (dr_protect_mode (fs_dir fs3 p))\<rparr>) fs3)))
         | None \<Rightarrow> (case apk_db_dir_get env None fs2 of (p, fs3) \<Rightarrow>
             (d, dir_protect env d (fs_protected_paths fs3) (upd_dir d (\<lambda>x. x\<lparr>dr_parent := Some p\<rparr>) fs3))))"
      using False new t by (subst apk_db_dir_get.simps, unfold Let_def get found_def [symmetric] t fs2_def) (simp add: blob_len_def t)
    have parent: "dir_got ?n fs (d, dir_protect env d ps (upd_dir d f (snd (apk_db_dir_get env b fs2))))"
      if "keeps_name f" "blob_len b < blob_len name" "clean_path (blob_bytes b)" for f b ps
    proof (rule dir_got_upd [OF got2])
      have g: "dir_got (blob_bytes b) fs2 (apk_db_dir_get env b fs2)" by (rule less.hyps [OF that(2) ext2(2) that(3)])
      let ?fs3 = "snd (apk_db_dir_get env b fs2)"
      have e: "dir_ext fs2 ?fs3" "dirs_ok ?fs3" using g by (simp_all add: dir_got_def)
      show "dir_ext fs2 (dir_protect env d ps (upd_dir d f ?fs3))"
        by (rule dir_ext_trans [OF e(1) dir_ext_trans [OF upd_dir_ext [OF that(1)] protect_ext(1)]])
      show "dirs_ok (dir_protect env d ps (upd_dir d f ?fs3))" using e(2) that(1) by (simp add: protect_ext upd_dir_ok)
    qed
    show ?thesis
    proof (cases "blob_len name = 0")
      case True
      then show ?thesis
        unfolding step using ext2(2) by (auto intro!: dir_got_upd [OF got2] upd_dir_ext k simp: upd_dir_ok k)
    next
      case nonempty: False
      show ?thesis
      proof (cases "apk_blob_rsplit ?t CHR ''/''")
        case None
        have "dir_got ?n fs (d, dir_protect env d ps (upd_dir d (\<lambda>x. x\<lparr>dr_parent := q\<rparr>) (snd (apk_db_dir_get env None fs2))))" for ps q
          by (rule parent [OF k(3)]) (use nonempty in \<open>simp_all add: clean_path_def\<close>)
        then show ?thesis unfolding step using None nonempty by (simp add: split_beta)
      next
        case (Some br)
        obtain b r where br: "br = (b, r)" by (cases br)
        have sp: "apk_blob_rsplit (Some ?n) CHR ''/'' = Some (b, r)"
          using Some br unfolding apk_blob_rsplit_def t blob_bytes_simps by simp
        then obtain q where q: "b = Some q" "clean_path q" by (rule clean_parent [OF clean])
        have "blob_len b < blob_len name" using rsplit_shorter [OF sp] by (simp add: blob_len_def)
        then have "dir_got ?n fs (d, dir_protect env d ps (upd_dir d (\<lambda>x. x\<lparr>dr_parent := p, dr_protect_mode := m,
            dr_has_protected_children := c\<rparr>) (snd (apk_db_dir_get env b fs2))))" for ps p m c
          using q by (intro parent [OF k(4)]) simp_all
        then show ?thesis unfolding step using Some br nonempty by (simp add: split_beta)
      qed
    qed
  qed
qed

section \<open>The creator\<close>

text \<open>
  The instances of the package have different names and all but the last ones are in order; the current
  one is among them.
\<close>

definition ic_ok :: "file_db \<Rightarrow> bool" where
  "ic_ok fs \<longleftrightarrow>
     ic_num_unsorted_diris fs \<le> length (ic_diris fs) \<and> distinct (map (diri_name fs) (ic_diris fs)) \<and>
     diri_order.ascending fs (take (length (ic_diris fs) - ic_num_unsorted_diris fs) (ic_diris fs)) \<and>
     (\<forall>d. ic_diri fs = Some d \<longrightarrow> d \<in> set (ic_diris fs))"

definition store_bounds :: "file_db \<Rightarrow> bool" where
  "store_bounds fs \<longleftrightarrow> (\<forall>d \<in> set (ic_diris fs). d < fs_next_diri fs \<and> di_dir (fs_diri fs d) < fs_next_dir fs)"

lemma find_drop_take:
  "(case List.find P (take n xs) of Some d \<Rightarrow> Some d | None \<Rightarrow> List.find P (drop n xs)) = List.find P xs"
  using find_append [of P "take n xs" "drop n xs"] by (simp split: option.splits)

lemma find_perm:
  assumes "distinct (map f xs)" "set ys = set xs" "distinct (map f ys)"
  shows "List.find (\<lambda>x. f x = v) ys = List.find (\<lambda>x. f x = v) xs"
proof (cases "v \<in> f ` set xs")
  case True
  then obtain x where "x \<in> set xs" "f x = v" by auto
  then show ?thesis using find_distinct_key [of f xs x] find_distinct_key [of f ys x] assms by simp
next
  case False
  then have "List.find (\<lambda>x. f x = v) xs = None" "List.find (\<lambda>x. f x = v) ys = None"
    using assms(2) by (auto simp: find_None_iff)
  then show ?thesis by simp
qed

lemma diri_bsearch_spec:
  assumes "ic_ok fs" "apk_db_diri_bsearch dirname fs = (r, fs')"
  shows "r = List.find (\<lambda>d. diri_name fs d = blob_bytes dirname) (ic_diris fs)" "ic_ok fs'"
    "set (ic_diris fs') = set (ic_diris fs)"
    "fs' = fs\<lparr>ic_diris := ic_diris fs', ic_num_unsorted_diris := ic_num_unsorted_diris fs'\<rparr>"
proof -
  define fs1 where "fs1 = (if ic_num_unsorted_diris fs > 32
      then fs\<lparr>ic_diris := qsort (diri_qsort_cmp fs) (ic_diris fs), ic_num_unsorted_diris := 0\<rparr> else fs)"
  let ?n = "length (ic_diris fs1) - ic_num_unsorted_diris fs1" and ?P = "\<lambda>d. diri_name fs1 d = blob_bytes dirname"
  have names: "diri_name fs1 = diri_name fs" by (simp add: fs1_def)
  have asc: "diri_order.ascending fs1 = diri_order.ascending fs" unfolding diri_order.ascending_def names ..
  have q: "diri_order.ascending fs (qsort (diri_qsort_cmp fs) (ic_diris fs))"
    using assms(1) by (intro diri_order.qsort_ascending) (simp add: ic_ok_def)
  have "length (qsort cmp xs) = length xs" for cmp and xs :: "nat list"
  proof -
    have "length (insert_by cmp x ys) = Suc (length ys)" for x ys by (induction ys) auto
    then show ?thesis unfolding qsort_def by (induction xs) simp_all
  qed
  then have ok1: "ic_ok fs1"
    using assms(1) q diri_order.ascending_distinct [OF q] unfolding ic_ok_def names asc by (auto simp: fs1_def)
  have bs: "bsearch (diri_bsearch_cmp fs1 dirname) (take ?n (ic_diris fs1)) = List.find ?P (take ?n (ic_diris fs1))"
    using ok1 by (intro diri_order.bsearch_find) (simp add: ic_ok_def)
  have "List.find (\<lambda>d. diri_bsearch_cmp fs1 dirname d = 0) xs = List.find ?P xs" for xs
    by (simp add: diri_order.bcmp_sign)
  then have e: "apk_db_diri_bsearch dirname fs = (List.find ?P (ic_diris fs1), fs1)"
    unfolding apk_db_diri_bsearch_def Let_def fs1_def [symmetric] bs find_drop_take [symmetric, of ?P "ic_diris fs1" ?n]
    by (simp split: option.split)
  have set: "set (ic_diris fs1) = set (ic_diris fs)" by (simp add: fs1_def)
  show "set (ic_diris fs') = set (ic_diris fs)" "ic_ok fs'" using e assms(2) set ok1 by simp_all
  have d: "distinct (map (diri_name fs) (ic_diris fs))" "distinct (map (diri_name fs) (ic_diris fs1))"
    using assms(1) ok1 names by (simp_all add: ic_ok_def)
  show "r = List.find (\<lambda>d. diri_name fs d = blob_bytes dirname) (ic_diris fs)"
    using e assms(2) find_perm [OF d(1) set d(2)] by (simp add: fun_cong [OF names])
  show "fs' = fs\<lparr>ic_diris := ic_diris fs', ic_num_unsorted_diris := ic_num_unsorted_diris fs'\<rparr>"
    using e assms(2) by (auto simp: fs1_def)
qed

lemma ascending_names:
  assumes "\<And>d. d \<in> set ds \<Longrightarrow> diri_name fs' d = diri_name fs d"
  shows "diri_order.ascending fs' ds = diri_order.ascending fs ds"
  using assms by (induction ds) (auto simp: diri_order.ascending_def)

text \<open>Selecting an instance and storing the files of the current one change no names.\<close>

lemma commit_files_fields:
  "fs_dir (apk_db_ipkg_commit_files fs) = fs_dir fs" "fs_dirs (apk_db_ipkg_commit_files fs) = fs_dirs fs"
  "fs_next_dir (apk_db_ipkg_commit_files fs) = fs_next_dir fs" "fs_next_diri (apk_db_ipkg_commit_files fs) = fs_next_diri fs"
  "ic_diris (apk_db_ipkg_commit_files fs) = ic_diris fs" "ic_num_unsorted_diris (apk_db_ipkg_commit_files fs) = ic_num_unsorted_diris fs"
  "ic_diri (apk_db_ipkg_commit_files fs) = ic_diri fs"
  "di_dir (fs_diri (apk_db_ipkg_commit_files fs) d) = di_dir (fs_diri fs d)"
  "di_acl (fs_diri (apk_db_ipkg_commit_files fs) d) = di_acl (fs_diri fs d)"
  by (auto simp: apk_db_ipkg_commit_files_def upd_diri_def Let_def split: option.split)

lemma select_fields:
  "fs_dir (apk_db_diri_select d fs) = fs_dir fs" "fs_dirs (apk_db_diri_select d fs) = fs_dirs fs"
  "fs_next_dir (apk_db_diri_select d fs) = fs_next_dir fs" "fs_next_diri (apk_db_diri_select d fs) = fs_next_diri fs"
  "ic_diris (apk_db_diri_select d fs) = ic_diris fs" "ic_num_unsorted_diris (apk_db_diri_select d fs) = ic_num_unsorted_diris fs"
  "ic_diri (apk_db_diri_select d fs) = Some d"
  "di_dir (fs_diri (apk_db_diri_select d fs) e) = di_dir (fs_diri fs e)"
  "di_acl (fs_diri (apk_db_diri_select d fs) e) = di_acl (fs_diri fs e)"
  by (simp_all add: apk_db_diri_select_def Let_def commit_files_fields)

lemma select_ok:
  assumes "ic_ok fs" "d \<in> set (ic_diris fs)"
  shows "ic_ok (apk_db_diri_select d fs)"
proof -
  have n: "diri_name (apk_db_diri_select d fs) e = diri_name fs e" for e by (simp add: select_fields)
  show ?thesis using assms unfolding ic_ok_def ascending_names [OF n] by (simp add: select_fields)
qed

lemma select_dirs_ok [simp]:
  "dirs_ok (apk_db_diri_select d fs) = dirs_ok fs" "store_bounds (apk_db_diri_select d fs) = store_bounds fs"
  by (simp_all add: dirs_ok_def store_bounds_def select_fields)

definition diri_sign :: "file_db \<Rightarrow> blob \<Rightarrow> int" where
  "diri_sign fs dirname = (case ic_diri fs of None \<Rightarrow> 1 | Some d \<Rightarrow> diri_bsearch_cmp fs dirname d)"

lemma diri_new_spec:
  assumes ic: "ic_ok fs" and ok: "dirs_ok fs" "store_bounds fs" and clean: "clean_path (blob_bytes dirname)"
    and fresh: "blob_bytes dirname \<notin> diri_name fs ` set (ic_diris fs)" and sign: "res = diri_sign fs dirname"
  obtains d fs' where "diri_new env dirname pkg res fs = (d, fs')" "d = fs_next_diri fs" "ic_ok fs'" "dirs_ok fs'" "store_bounds fs'"
    "ic_diris fs' = ic_diris fs @ [d]" "diri_name fs' d = blob_bytes dirname" "dr_hash (diri_dir fs' d) = apk_blob_hash dirname"
    "\<And>e. e \<in> set (ic_diris fs) \<Longrightarrow> diri_name fs' e = diri_name fs e"
    "fs_diri fs' = (fs_diri fs)(d := \<lparr>di_files = [], di_pkg = pkg, di_dir = di_dir (fs_diri fs' d), di_acl = apk_default_acl_dir\<rparr>)"
    "fs_next_diri fs' = d + 1" "fs_files fs' = fs_files fs" "fs_file fs' = fs_file fs" "fs_next_file fs' = fs_next_file fs"
    "ic_files fs' = ic_files fs" "ic_files_unsorted fs' = ic_files_unsorted fs" "ic_diri fs' = ic_diri fs"
    "(\<forall>e < fs_next_dir fs. dr_name (fs_dir fs' e) = dr_name (fs_dir fs e) \<and> dr_hash (fs_dir fs' e) = dr_hash (fs_dir fs e))"
    "fs_next_dir fs \<le> fs_next_dir fs'" "di_dir (fs_diri fs' d) < fs_next_dir fs'"
    "ic_num_unsorted_diris fs = 0 \<longrightarrow> (ic_diris fs \<noteq> [] \<longrightarrow> bytes_less (diri_name fs (last (ic_diris fs))) (blob_bytes dirname)) \<longrightarrow>
       ic_num_unsorted_diris fs' = 0"
proof -
  obtain dir fs1 where g: "apk_db_dir_get env dirname fs = (dir, fs1)" by fastforce
  have got: "dir_got (blob_bytes dirname) fs (dir, fs1)" using dir_get_spec [OF ok(1) clean, of env] g by simp
  then have ext: "dir_ext fs fs1" and ok1: "dirs_ok fs1" and dir: "dir < fs_next_dir fs1" "dr_name (fs_dir fs1 dir) = blob_bytes dirname"
      "dr_hash (fs_dir fs1 dir) = apk_blob_hash (Some (blob_bytes dirname))"
    by (simp_all add: dir_got_def)
  have hash: "apk_blob_hash (Some (blob_bytes dirname)) = apk_blob_hash dirname" by (simp add: apk_blob_hash_def apk_blob_hash_seed_def)
  note x = ext [unfolded dir_ext_def]
  let ?d = "fs_next_diri fs"
  define fs2 where "fs2 = fs1\<lparr>fs_next_diri := ?d + 1,
      fs_diri := (fs_diri fs1)(?d := \<lparr>di_files = [], di_pkg = pkg, di_dir = dir, di_acl = apk_default_acl_dir\<rparr>)\<rparr>"
  define res' where "res' = (if ic_num_unsorted_diris fs2 \<noteq> 0 then - 1
      else if ic_diris fs2 \<noteq> [] \<and> ic_diri fs2 \<noteq> Some (last (ic_diris fs2))
      then diri_bsearch_cmp fs2 dirname (last (ic_diris fs2)) else res)"
  define fs' where "fs' = fs2\<lparr>ic_num_unsorted_diris := (if res' < 0 then ic_num_unsorted_diris fs2 + 1 else ic_num_unsorted_diris fs2),
      ic_diris := ic_diris fs2 @ [?d]\<rparr>"
  have e: "diri_new env dirname pkg res fs = (?d, fs')"
    using x unfolding diri_new_def g by (simp add: Let_def fs'_def res'_def fs2_def)
  have bounds: "e < ?d" "di_dir (fs_diri fs e) < fs_next_dir fs" if "e \<in> set (ic_diris fs)" for e
    using ok(2) that by (simp_all add: store_bounds_def)
  have new: "diri_name fs' ?d = blob_bytes dirname" by (simp add: fs'_def fs2_def dir(2))
  have old: "diri_name fs' a = diri_name fs a" "diri_name fs2 a = diri_name fs a" if "a \<in> set (ic_diris fs)" for a
    using bounds [OF that] x by (simp_all add: fs'_def fs2_def)
  have ds: "ic_diris fs' = ic_diris fs @ [?d]" using x by (simp add: fs'_def fs2_def)
  have last: "res' = diri_bsearch_cmp fs dirname (last (ic_diris fs))" if "ic_diris fs \<noteq> []" "ic_num_unsorted_diris fs = 0"
    using that x old(2) [OF last_in_set [OF that(1)]] by (auto simp: res'_def fs2_def sign diri_sign_def diri_bsearch_cmp_def)
  have behind: "bytes_less (diri_name fs (last (ic_diris fs))) (blob_bytes dirname)"
    if "\<not> res' < 0" "ic_diris fs \<noteq> []" "ic_num_unsorted_diris fs = 0"
    using last [OF that(2, 3)] that(1) fresh last_in_set [OF that(2)] diri_order.bcmp_sign(3) [of fs dirname "last (ic_diris fs)"]
      diri_order.bcmp_sign(2) [of fs dirname "last (ic_diris fs)"] by force
  have num: "ic_num_unsorted_diris fs' = (if res' < 0 then ic_num_unsorted_diris fs + 1 else ic_num_unsorted_diris fs)"
    using x by (simp add: fs'_def fs2_def)
  have neg: "\<not> res' < 0 \<Longrightarrow> ic_num_unsorted_diris fs = 0" using x by (auto simp: res'_def fs2_def split: if_splits)
  have asc: "diri_order.ascending fs' (take (length (ic_diris fs') - ic_num_unsorted_diris fs') (ic_diris fs'))"
  proof (cases "res' < 0")
    case True
    have "diri_order.ascending fs' (take (length (ic_diris fs) - ic_num_unsorted_diris fs) (ic_diris fs))"
      using ic ascending_names [of "take (length (ic_diris fs) - ic_num_unsorted_diris fs) (ic_diris fs)" fs' fs] old(1)
      by (auto simp: ic_ok_def dest: in_set_takeD)
    then show ?thesis using True ic by (simp add: ds num ic_ok_def)
  next
    case False
    have "diri_order.ascending fs' (ic_diris fs)"
      using ic neg [OF False] ascending_names [of "ic_diris fs" fs' fs] old(1) by (simp add: ic_ok_def)
    then have "diri_order.ascending fs' (ic_diris fs @ [?d])"
      using behind [OF False _ neg [OF False]] old(1) new by (intro diri_order.ascending_snoc) simp_all
    then show ?thesis using False neg by (simp add: ds num)
  qed
  have "distinct (map (diri_name fs') (ic_diris fs))" using ic old(1) by (simp add: ic_ok_def cong: map_cong)
  moreover have "blob_bytes dirname \<notin> diri_name fs' ` set (ic_diris fs)" using fresh old(1) by (simp cong: image_cong)
  moreover have "ic_diri fs' = ic_diri fs" using x by (simp add: fs'_def fs2_def)
  ultimately have icok: "ic_ok fs'"
    using ic asc new num by (auto simp: ic_ok_def ds)
  have sgn: "ic_num_unsorted_diris fs' = 0" if "ic_num_unsorted_diris fs = 0"
      "ic_diris fs \<noteq> [] \<Longrightarrow> bytes_less (diri_name fs (last (ic_diris fs))) (blob_bytes dirname)"
  proof (cases "ic_diris fs = []")
    case True
    then have "ic_diri fs = None" using ic by (cases "ic_diri fs") (auto simp: ic_ok_def)
    then have "res' = 1" using True that(1) x by (simp add: res'_def fs2_def sign diri_sign_def)
    then show ?thesis using that(1) by (simp add: num)
  next
    case False
    then have "0 < res'" using last that diri_order.bcmp_sign(2) by simp
    then show ?thesis using that(1) by (simp add: num)
  qed
  have dok: "dirs_ok fs'" using ok1 by (simp add: fs'_def fs2_def dirs_ok_def)
  have sb: "store_bounds fs'" unfolding store_bounds_def ds
    using ok(2) x dir(1) by (auto simp: fs'_def fs2_def store_bounds_def intro: less_SucI less_le_trans)
  show thesis
    by (rule that [OF e refl icok dok sb ds new]) (use x dir hash old(1) sgn in \<open>simp_all add: fs'_def fs2_def\<close>)
qed

definition creator_ok :: "file_db \<Rightarrow> bool" where
  "creator_ok fs \<longleftrightarrow> ic_ok fs \<and> dirs_ok fs \<and> store_bounds fs"

lemma creator_init: "creator_ok fs_init"
proof -
  have i: "ic_diris fs_init = []" "ic_diri fs_init = None" "ic_num_unsorted_diris fs_init = 0"
    "fs_dirs fs_init = apk_hash_init dir_hash_ops 20000" by (simp_all add: fs_init_def)
  have "hash_items (apk_hash_init dir_hash_ops 20000) = []" by (simp add: hash_items_def apk_hash_init_def)
  then show ?thesis
    using dir_table.table_init [of 20000] dir_table.distinct_init [of 20000]
    by (simp add: creator_ok_def ic_ok_def dirs_ok_def store_bounds_def i diri_order.ascending_def)
qed

lemma diri_get_cases:
  assumes ok: "creator_ok fs" and clean: "clean_path (blob_bytes dirname)"
    and g: "apk_db_diri_get env dirname pkg fs = (d, fs')"
  shows "creator_ok fs' \<and> diri_name fs' d = blob_bytes dirname \<and> ic_diri fs' = Some d \<and>
    set (ic_diris fs') = insert d (set (ic_diris fs)) \<and>
    (d \<in> set (ic_diris fs) \<longleftrightarrow> blob_bytes dirname \<in> diri_name fs ` set (ic_diris fs)) \<and>
    (\<forall>e \<in> set (ic_diris fs). diri_name fs' e = diri_name fs e)"
proof (cases "diri_sign fs dirname = 0")
  case True
  then obtain e where e: "ic_diri fs = Some e" "diri_bsearch_cmp fs dirname e = 0"
    by (auto simp: diri_sign_def split: option.splits)
  then have "d = e" "fs' = fs" using g by (simp_all add: apk_db_diri_get_def)
  moreover have "e \<in> set (ic_diris fs)" using ok e(1) by (simp add: creator_ok_def ic_ok_def)
  ultimately show ?thesis using ok e by (auto simp: diri_order.bcmp_sign intro!: image_eqI [of _ _ e])
next
  case False
  obtain r fs1 where b: "apk_db_diri_bsearch dirname fs = (r, fs1)" by fastforce
  have ic: "ic_ok fs" using ok by (simp add: creator_ok_def)
  note s = diri_bsearch_spec [OF ic b]
  have names: "diri_name fs1 e = diri_name fs e" for e by (subst (1 2) s(4)) simp
  have ok1: "dirs_ok fs1" "store_bounds fs1"
    using ok s(3) by (subst s(4), simp add: creator_ok_def dirs_ok_def, subst s(4), simp add: creator_ok_def store_bounds_def)
  have g': "apk_db_diri_get env dirname pkg fs = (case r of
      Some diri \<Rightarrow> (diri, apk_db_diri_select diri fs1)
    | None \<Rightarrow> (case diri_new env dirname pkg (diri_sign fs dirname) fs1 of (diri, fs) \<Rightarrow> (diri, apk_db_diri_select diri fs)))"
    using False b by (simp add: apk_db_diri_get_def diri_sign_def [symmetric] Let_def split: option.split)
  show ?thesis
  proof (cases r)
    case (Some e)
    have e: "e \<in> set (ic_diris fs)" "diri_name fs e = blob_bytes dirname" using find_Some_in [of _ "ic_diris fs" e] s(1) Some by auto
    have d: "d = e" "fs' = apk_db_diri_select e fs1" using g g' Some by auto
    show ?thesis using e s(2, 3) ok1 names by (auto simp: d creator_ok_def select_fields select_ok intro!: image_eqI [of _ _ e])
  next
    case None
    then have fresh: "blob_bytes dirname \<notin> diri_name fs ` set (ic_diris fs)" using s(1) by (auto simp: find_None_iff)
    have sg: "diri_sign fs dirname = diri_sign fs1 dirname"
      by (subst s(4)) (simp add: diri_sign_def diri_bsearch_cmp_def split: option.split)
    have fresh1: "blob_bytes dirname \<notin> diri_name fs1 ` set (ic_diris fs1)" using fresh names s(3) by simp
    obtain c fs2 where n: "diri_new env dirname pkg (diri_sign fs dirname) fs1 = (c, fs2)" "ic_ok fs2" "dirs_ok fs2"
        "store_bounds fs2" "ic_diris fs2 = ic_diris fs1 @ [c]" "diri_name fs2 c = blob_bytes dirname"
        "\<And>e. e \<in> set (ic_diris fs1) \<Longrightarrow> diri_name fs2 e = diri_name fs1 e" "c = fs_next_diri fs1"
      by (rule diri_new_spec [OF s(2) ok1 clean fresh1 sg, of env pkg]) (rule that)
    have d: "d = c" "fs' = apk_db_diri_select d fs2" using g g' None n(1) by auto
    have "d \<notin> set (ic_diris fs)" using ok1(2) s(3) by (auto simp: store_bounds_def d n(8))
    then show ?thesis
      using n(2-7) fresh names s(3) by (auto simp: d creator_ok_def select_fields select_ok)
  qed
qed

section \<open>Property\<close>

text \<open>
  C29. The directory instances of a package are kept in an array of which only a part is sorted, with a
  binary search of that part and a limit for the rest. For paths without empty components the lookup is
  exact: it returns an instance of the directory that was asked for, makes a new one only when the package
  has none, selects it, and keeps all other instances with their names and the invariant of the array.
\<close>

theorem diri_get_exact:
  assumes "creator_ok fs" "clean_path (blob_bytes dirname)" "apk_db_diri_get env dirname pkg fs = (d, fs')"
  shows "creator_ok fs' \<and> diri_name fs' d = blob_bytes dirname \<and> ic_diri fs' = Some d \<and>
    set (ic_diris fs') = insert d (set (ic_diris fs)) \<and>
    (d \<in> set (ic_diris fs) \<longleftrightarrow> blob_bytes dirname \<in> diri_name fs ` set (ic_diris fs)) \<and>
    (\<forall>e \<in> set (ic_diris fs). diri_name fs' e = diri_name fs e)"
  by (rule diri_get_cases [OF assms])

definition wfs_env :: fs_env where
  "wfs_env = \<lparr>env_simulate = False, env_usermode = False, env_result = (\<lambda>h c. Fs_ok), env_fnmatch = (\<lambda>p n. False)\<rparr>"

theorem diri_get_exact_witness:
  "case apk_db_diri_get wfs_env (Some ''usr/bin'') 3 fs_init of
     (d, fs') \<Rightarrow> diri_name fs' d = ''usr/bin'' \<and> set (ic_diris fs') = {d} \<and> creator_ok fs'"
proof -
  have "clean_path ''usr/bin''" by (auto simp: clean_path_def nth_Cons' split: if_splits)
  moreover have "ic_diris fs_init = []" by (simp add: fs_init_def)
  ultimately show ?thesis
    using diri_get_exact [OF creator_init, of "Some ''usr/bin''" wfs_env 3] by (auto split: prod.split)
qed

end
