(* ===== verification/Database.thy ===== *)
theory Database
  imports Hash Package Files
begin

text \<open>
  The part of \<^verbatim>\<open>database.c\<close> that keeps the known names and packages: the two hash tables, the
  providers of a name, the names that depend on a name, and the queries on them. The solver works on
  this data. A name object is identified by its string and a package by its address; the tables hold
  these identifiers, the objects are in the stores \<open>db_name\<close> and \<open>db_pkg\<close>. A name that was never asked
  for has the object that \<open>apk_db_get_name\<close> would create. Memory allocation succeeds.
\<close>

section \<open>Data\<close>

record apk_name =
  nm_providers :: "(nat \<times> bytes) list"
  nm_rdepends :: "bytes list"
  nm_rinstall_if :: "bytes list"
  nm_is_dependency :: bool
  nm_providers_sorted :: bool
  nm_has_repository_providers :: bool
  nm_state_int :: u32

definition new_name :: apk_name where
  "new_name = \<lparr>nm_providers = [], nm_rdepends = [], nm_rinstall_if = [], nm_is_dependency = False,
     nm_providers_sorted = False, nm_has_repository_providers = False, nm_state_int = 0\<rparr>"

definition pkg_name_get_key :: "bytes \<Rightarrow> blob" where
  "pkg_name_get_key item = Some (cstr item)"

definition pkg_name_hash_ops :: "(bytes, blob) apk_hash_ops" where
  "pkg_name_hash_ops =
     \<lparr>get_key = pkg_name_get_key, hash_key = apk_blob_hash, hash_item = None,
      compare = apk_blob_compare, compare_item = None, delete_item = True\<rparr>"

text \<open>
  An entry of the table of packages is the address of a package and the first bytes of its digest,
  which do not change. The hash value is the word at the front of the digest, on a little-endian machine.
\<close>

definition pkg_info_get_key :: "nat \<times> bytes \<Rightarrow> blob" where
  "pkg_info_get_key item = Some (snd item)"

definition csum_hash :: "blob \<Rightarrow> u64" where
  "csum_hash csum =
     (if blob_len csum \<ge> 4
      then word_of_int (\<Sum>i<4. int (code (blob_bytes csum ! i)) * 256 ^ i) else 0)"

definition pkg_info_hash_ops :: "(nat \<times> bytes, blob) apk_hash_ops" where
  "pkg_info_hash_ops =
     \<lparr>get_key = pkg_info_get_key, hash_key = csum_hash, hash_item = None,
      compare = apk_blob_compare, compare_item = None, delete_item = False\<rparr>"

record apk_database =
  db_names :: "(bytes, blob) apk_hash"
  db_name :: "bytes \<Rightarrow> apk_name"
  db_sorted_names :: bool
  db_available_sorted_names :: "bytes list"
  db_packages :: "(nat \<times> bytes, blob) apk_hash"
  db_pkg :: "nat \<Rightarrow> apk_package"
  db_next_pkg :: nat
  db_arches :: "bytes list"
  db_noarch :: bytes
  db_open_complete :: bool
  db_compat :: compat_db
  db_allowed_repos :: "u32 list"
  db_available_repos :: u32
  db_local_repos :: u32
  db_installed :: installed_db
  db_sorted_packages :: "nat list"
  db_files :: file_db

text \<open>The initial state is zeroed memory and empty tables.\<close>

definition apk_db_init :: apk_database where
  "apk_db_init =
     \<lparr>db_names = apk_hash_init pkg_name_hash_ops 20000, db_name = (\<lambda>n. new_name), db_sorted_names = False,
      db_available_sorted_names = [],
      db_packages = apk_hash_init pkg_info_hash_ops 10000, db_pkg = (\<lambda>a. null_package\<lparr>pkg_addr := a\<rparr>),
      db_next_pkg = 1, db_arches = [], db_noarch = ''noarch'', db_open_complete = False,
      db_compat = \<lparr>cdb_tags = \<lparr>repo_tag = replicate APK_MAX_TAGS \<lparr>rt_tag = None, rt_plain_name = None\<rparr>, num_repo_tags = 0\<rparr>,
        cdb_newfeatures = False, cdb_notinstallable = False, cdb_depversions = False\<rparr>,
      db_allowed_repos = replicate APK_MAX_TAGS 0, db_available_repos = 0, db_local_repos = 0,
      db_installed = \<lparr>idb_packages = [], idb_triggers = [], idb_sorted_installed_packages = False,
        idb_num_packages = 0, idb_bytes = 0\<rparr>,
      db_sorted_packages = [], db_files = fs_init\<rparr>"

definition upd_db_name :: "bytes \<Rightarrow> (apk_name \<Rightarrow> apk_name) \<Rightarrow> apk_database \<Rightarrow> apk_database" where
  "upd_db_name n f db = db\<lparr>db_name := (db_name db)(n := f (db_name db n))\<rparr>"

definition upd_db_pkg :: "nat \<Rightarrow> (apk_package \<Rightarrow> apk_package) \<Rightarrow> apk_database \<Rightarrow> apk_database" where
  "upd_db_pkg a f db = db\<lparr>db_pkg := (db_pkg db)(a := f (db_pkg db a))\<rparr>"

text \<open>The names that a package or a dependency holds, which are not NULL in the database.\<close>

abbreviation pkg_nm :: "apk_package \<Rightarrow> bytes" where
  "pkg_nm p \<equiv> the (pkg_name p)"

abbreviation dep_nm :: "apk_dependency \<Rightarrow> bytes" where
  "dep_nm d \<equiv> the (dep_name d)"

section \<open>Names\<close>

definition apk_db_query_name :: "apk_database \<Rightarrow> blob \<Rightarrow> bytes option" where
  "apk_db_query_name db name = apk_hash_get (db_names db) name"

definition apk_db_get_name :: "apk_database \<Rightarrow> blob \<Rightarrow> bytes \<times> apk_database" where
  "apk_db_get_name db name =
     (let hash = apk_hash_from_key (db_names db) name in
      case apk_hash_get_hashed (db_names db) name hash of
        Some pn \<Rightarrow> (pn, db)
      | None \<Rightarrow>
          let pn = blob_bytes name in
          (pn, (upd_db_name pn (\<lambda>_. new_name) db)\<lparr>db_names := apk_hash_insert_hashed (db_names db) pn hash,
                 db_sorted_names := False\<rparr>))"

definition cmp_provider :: "apk_database \<Rightarrow> nat \<times> bytes \<Rightarrow> nat \<times> bytes \<Rightarrow> int" where
  "cmp_provider db a b = apk_pkg_cmp_display (db_pkg db (fst a)) (db_pkg db (fst b))"

text \<open>Sorting clears the flag that it tests, so that the providers are sorted again each time.\<close>

definition apk_name_sorted_providers :: "apk_database \<Rightarrow> bytes \<Rightarrow> (nat \<times> bytes) list \<times> apk_database" where
  "apk_name_sorted_providers db name =
     (let db = (if nm_providers_sorted (db_name db name) then db
                else upd_db_name name (\<lambda>n. n\<lparr>nm_providers := qsort (cmp_provider db) (nm_providers n),
                       nm_providers_sorted := False\<rparr>) db)
      in (nm_providers (db_name db name), db))"

definition add_name :: "bytes \<Rightarrow> bytes list \<Rightarrow> int \<times> bytes list" where
  "add_name item a = (0, a @ [item])"

definition apk_db_sorted_names :: "apk_database \<Rightarrow> bytes list \<times> apk_database" where
  "apk_db_sorted_names db =
     (let db = (if db_sorted_names db then db
                else db\<lparr>db_available_sorted_names :=
                          qsort apk_name_cmp_display (snd (apk_hash_foreach (db_names db) add_name [])),
                        db_sorted_names := True\<rparr>)
      in (db_available_sorted_names db, db))"

definition apk_db_sorted_installed_packages :: "apk_database \<Rightarrow> nat list \<times> apk_database" where
  "apk_db_sorted_installed_packages db =
     (let db = (if idb_sorted_installed_packages (db_installed db) then db
                else db\<lparr>db_installed := (db_installed db)\<lparr>idb_sorted_installed_packages := True\<rparr>,
                        db_sorted_packages :=
                          qsort (\<lambda>a b. apk_pkg_cmp_display (db_pkg db a) (db_pkg db b)) (idb_packages (db_installed db))\<rparr>)
      in (db_sorted_packages db, db))"

section \<open>Reverse dependencies\<close>

definition add_name_to_array :: "bytes \<Rightarrow> bytes list \<Rightarrow> bytes list" where
  "add_name_to_array name a = (if name \<in> set a then a else a @ [name])"

definition apk_db_pkg_rdepends :: "apk_package \<Rightarrow> apk_database \<Rightarrow> apk_database" where
  "apk_db_pkg_rdepends pkg db =
     (let names = pkg_nm pkg # map dep_nm (pkg_provides pkg);
          db = fold (\<lambda>d. upd_db_name (dep_nm d) (\<lambda>n. n\<lparr>nm_is_dependency := nm_is_dependency n \<or> \<not> apk_dep_conflict d,
                 nm_rdepends := fold add_name_to_array names (nm_rdepends n)\<rparr>)) (pkg_depends pkg) db
      in fold (\<lambda>d. upd_db_name (dep_nm d) (\<lambda>n. n\<lparr>nm_rinstall_if := fold add_name_to_array names (nm_rinstall_if n)\<rparr>))
           (pkg_install_if pkg) db)"

text \<open>
  The pass over all names when the database has been read. The bits of \<open>nm_state_int\<close> mark the names
  that the current name was already added to; the first 128 marked names are remembered for the
  reset, and when there are more all dependencies are walked again.
\<close>

definition touch_name ::
  "u32 \<Rightarrow> (apk_name \<Rightarrow> apk_name) \<Rightarrow> bytes \<Rightarrow> apk_database \<times> bytes list \<times> nat \<Rightarrow> apk_database \<times> bytes list \<times> nat" where
  "touch_name b f rname s =
     (case s of (db, touched, num) \<Rightarrow>
       let state = nm_state_int (db_name db rname) in
       if state AND b \<noteq> 0 then (db, touched, num)
       else
         (upd_db_name rname (\<lambda>n. (f n)\<lparr>nm_state_int := state OR b\<rparr>) db,
          if state = 0 \<and> num < 128 then touched @ [rname] else touched,
          if state = 0 then num + 1 else num))"

definition rdepends_provider ::
  "bytes \<Rightarrow> apk_package \<Rightarrow> apk_database \<times> bytes list \<times> nat \<Rightarrow> apk_database \<times> bytes list \<times> nat" where
  "rdepends_provider name pkg s =
     (let s = fold (\<lambda>d (db, t).
                touch_name 1 (\<lambda>n. n\<lparr>nm_rdepends := nm_rdepends n @ [name]\<rparr>) (dep_nm d)
                  (upd_db_name (dep_nm d) (\<lambda>n. n\<lparr>nm_is_dependency := nm_is_dependency n \<or> \<not> apk_dep_conflict d\<rparr>) db, t))
              (pkg_depends pkg) s
      in fold (\<lambda>d. touch_name 2 (\<lambda>n. n\<lparr>nm_rinstall_if := nm_rinstall_if n @ [name]\<rparr>) (dep_nm d)) (pkg_install_if pkg) s)"

definition reset_state :: "bytes \<Rightarrow> apk_database \<Rightarrow> apk_database" where
  "reset_state n = upd_db_name n (\<lambda>x. x\<lparr>nm_state_int := 0\<rparr>)"

definition apk_db_name_rdepends :: "bytes \<Rightarrow> apk_database \<Rightarrow> int \<times> apk_database" where
  "apk_db_name_rdepends name db =
     (let providers = map (db_pkg db \<circ> fst) (nm_providers (db_name db name)) in
      case fold (rdepends_provider name) providers (db, [], 0) of
        (db, touched, num) \<Rightarrow>
          (0, if num > 128
              then fold (\<lambda>p. fold (\<lambda>d. reset_state (dep_nm d)) (pkg_depends p @ pkg_install_if p)) providers db
              else fold reset_state touched db))"

text \<open>The end of \<^verbatim>\<open>apk_db_open\<close>.\<close>

definition complete_open :: "apk_database \<Rightarrow> apk_database" where
  "complete_open db =
     (snd (apk_hash_foreach (db_names db) apk_db_name_rdepends db))\<lparr>db_open_complete := True\<rparr>"

section \<open>Packages\<close>

definition apk_db_add_arch :: "apk_database \<Rightarrow> blob \<Rightarrow> apk_database" where
  "apk_db_add_arch db arch =
     (let atom = atomize (apk_blob_trim arch) in
      if blob_len arch = 0 \<or> atom \<in> set (db_arches db) then db
      else db\<lparr>db_arches := db_arches db @ [atom]\<rparr>)"

definition apk_db_arch_compatible :: "apk_database \<Rightarrow> bytes \<Rightarrow> bool" where
  "apk_db_arch_compatible db arch \<longleftrightarrow> arch = [] \<or> arch \<in> set (db_arches db) \<or> db_noarch db = arch"

definition apk_db_get_pkg :: "apk_database \<Rightarrow> apk_digest \<Rightarrow> nat option" where
  "apk_db_get_pkg db d =
     (if dg_len d < APK_DIGEST_LENGTH_SHA1 then None
      else map_option fst (apk_hash_get (db_packages db) (Some (take APK_DIGEST_LENGTH_SHA1 (dg_data d)))))"

text \<open>The record of a new package, made from the template.\<close>

definition pkg_from_tmpl :: "nat \<Rightarrow> apk_package \<Rightarrow> apk_digest \<Rightarrow> apk_package" where
  "pkg_from_tmpl a pkg d =
     pkg\<lparr>pkg_addr := a, pkg_ipkg := None, pkg_digest := take (dg_len d) (dg_data d),
       pkg_digest_alg :=
         (if dg_alg d = APK_DIGEST_SHA1 \<and> (case pkg_ipkg pkg of None \<Rightarrow> False | Some i \<Rightarrow> ipkg_sha256_160 i)
          then APK_DIGEST_SHA256_160 else dg_alg d)\<rparr>"

definition add_provider :: "nat \<Rightarrow> bytes \<times> bytes \<Rightarrow> apk_database \<Rightarrow> apk_database" where
  "add_provider a nv = upd_db_name (fst nv) (\<lambda>n. n\<lparr>nm_providers := nm_providers n @ [(a, snd nv)]\<rparr>)"

text \<open>The names that a package gives, with their versions.\<close>

definition pkg_gives :: "apk_package \<Rightarrow> (bytes \<times> bytes) list" where
  "pkg_gives pkg = (pkg_nm pkg, the (pkg_version pkg)) # map (\<lambda>d. (dep_nm d, dep_version d)) (pkg_provides pkg)"

definition insert_pkg :: "apk_package \<Rightarrow> apk_digest \<Rightarrow> apk_database \<Rightarrow> nat \<times> apk_database" where
  "insert_pkg pkg d db =
     (let a = db_next_pkg db;
          idb = pkg_from_tmpl a pkg d;
          db = db\<lparr>db_next_pkg := a + 1, db_pkg := (db_pkg db)(a := idb),
                 db_packages := apk_hash_insert (db_packages db) (a, blob_bytes (apk_pkg_hash_blob idb))\<rparr>;
          db = fold (add_provider a) (pkg_gives idb) db
      in (a, if db_open_complete db then apk_db_pkg_rdepends idb db else db))"

text \<open>The template's installed package moves to the package in the database.\<close>

definition move_ipkg :: "apk_package \<Rightarrow> nat \<Rightarrow> apk_database \<Rightarrow> apk_database" where
  "move_ipkg pkg a db =
     (case (pkg_ipkg (db_pkg db a), pkg_ipkg pkg) of
        (None, Some ipkg) \<Rightarrow>
          (upd_db_pkg a (\<lambda>p. p\<lparr>pkg_ipkg := Some ipkg\<rparr>) db)
            \<lparr>db_files := fold (\<lambda>d. upd_diri d (\<lambda>x. x\<lparr>di_pkg := a\<rparr>)) (ipkg_diris ipkg) (db_files db),
             db_installed := (db_installed db)
               \<lparr>idb_packages := map (\<lambda>x. if x = pkg_addr pkg then a else x) (idb_packages (db_installed db)),
                idb_triggers := map (\<lambda>x. if x = pkg_addr pkg then a else x) (idb_triggers (db_installed db))\<rparr>\<rparr>
      | _ \<Rightarrow> db)"

definition apk_db_pkg_add ::
  "apk_database \<Rightarrow> apk_package_tmpl \<Rightarrow> nat option \<times> apk_database \<times> apk_package_tmpl" where
  "apk_db_pkg_add db tmpl =
     (let pkg = tmpl_pkg tmpl; d = tmpl_id tmpl in
      if pkg_name pkg = None \<or> pkg_version pkg = None \<or> dg_len d < APK_DIGEST_LENGTH_SHA1 then (None, db, tmpl)
      else
        let pkg = (if apk_db_arch_compatible db (pkg_arch pkg) then pkg else pkg\<lparr>pkg_uninstallable := True\<rparr>) in
        case (case apk_hash_get (db_packages db) (Some (take APK_DIGEST_LENGTH_SHA1 (dg_data d))) of
                None \<Rightarrow> (0 :: u16, insert_pkg pkg d db)
              | Some (a, _) \<Rightarrow>
                  (ucast (pkg_repos (db_pkg db a)), a,
                   upd_db_pkg a (\<lambda>p. p\<lparr>pkg_repos := pkg_repos p OR pkg_repos pkg,
                     pkg_filename_ndx := (if pkg_filename_ndx p = 0 then pkg_filename_ndx pkg else pkg_filename_ndx p)\<rparr>) db)) of
          (old_repos, a, db) \<Rightarrow>
            let idb = db_pkg db a;
                db = (if pkg_repos idb \<noteq> 0 \<and> old_repos = 0
                      then fold (\<lambda>n. upd_db_name n (\<lambda>x. x\<lparr>nm_has_repository_providers := True\<rparr>))
                             (pkg_nm pkg # map dep_nm (pkg_provides idb)) db
                      else db)
            in (Some a, move_ipkg pkg a db, apk_pkgtmpl_reset tmpl))"

section \<open>Queries\<close>

definition apk_db_pkg_upgradable :: "apk_database \<Rightarrow> apk_package \<Rightarrow> nat option" where
  "apk_db_pkg_upgradable db pkg =
     (case List.find (\<lambda>a. pkg_name (db_pkg db a) = pkg_name pkg \<and> pkg_ipkg (db_pkg db a) \<noteq> None)
             (map fst (nm_providers (db_name db (pkg_nm pkg)))) of
        None \<Rightarrow> None
      | Some a \<Rightarrow>
          let allowed = (ucast (db_allowed_repos db ! ipkg_repository_tag (the (pkg_ipkg (db_pkg db a)))) :: u16) in
          if pkg_repos pkg AND ucast allowed = 0 then None
          else if apk_version_match (pkg_ver (db_pkg db a)) APK_VERSION_LESS (pkg_ver pkg) then Some a else None)"

definition apk_db_check_world :: "apk_database \<Rightarrow> bool \<Rightarrow> apk_dependency list \<Rightarrow> nat" where
  "apk_db_check_world db force world =
     (if force then 0
      else length (filter (\<lambda>d. dep_repository_tag d \<noteq> 0 \<and> db_allowed_repos db ! dep_repository_tag d = 0) world))"

datatype selected_repo = Cache_repository | Filename_repository | Repository nat

definition APK_MAX_REPOS :: nat where "APK_MAX_REPOS = 32"

definition apk_db_select_repo :: "apk_database \<Rightarrow> apk_package \<Rightarrow> selected_repo option" where
  "apk_db_select_repo db pkg =
     (if pkg_cached pkg then Some Cache_repository
      else if pkg_filename_ndx pkg \<noteq> 0 then Some Filename_repository
      else
        let repos = pkg_repos pkg AND db_available_repos db in
        if repos = 0 then None
        else
          let repos = (if repos AND db_local_repos db \<noteq> 0 then repos AND db_local_repos db else repos) in
          map_option Repository (List.find (bit repos) [0..<APK_MAX_REPOS]))"

text \<open>
  The package of a file name: the possible package names are the prefixes before a separator, and the
  file name must be the one that the format gives for a package of this name. Every prefix is entered
  as a name.
\<close>

definition pkg_has_filename :: "nat \<Rightarrow> blob \<Rightarrow> blob \<Rightarrow> u64 \<Rightarrow> bytes \<Rightarrow> apk_package \<Rightarrow> bool outcome" where
  "pkg_has_filename base name_format filename filesize name pkg =
     (if pkg_name pkg \<noteq> Some name \<or> filesize \<noteq> 0 \<and> pkg_size pkg \<noteq> filesize then Ret False
      else case apk_blob_subst base 4096 name_format (apk_pkg_subst pkg) of
             Fault \<Rightarrow> Fault
           | Ret (Inl e) \<Rightarrow> Ret False
           | Ret (Inr xs) \<Rightarrow> Ret (apk_blob_compare filename (Some xs) = 0))"

fun find_filename :: "(apk_package \<Rightarrow> bool outcome) \<Rightarrow> (nat \<Rightarrow> apk_package) \<Rightarrow> nat list \<Rightarrow> nat option outcome" where
  "find_filename ok pkg [] = Ret None"
| "find_filename ok pkg (a # as) =
     (case ok (pkg a) of
        Fault \<Rightarrow> Fault
      | Ret True \<Rightarrow> Ret (Some a)
      | Ret False \<Rightarrow> find_filename ok pkg as)"

fun pkg_by_name_loop ::
  "nat \<Rightarrow> blob \<Rightarrow> blob \<Rightarrow> u64 \<Rightarrow> char \<Rightarrow> nat list \<Rightarrow> apk_database \<Rightarrow> (nat option \<times> apk_database) outcome" where
  "pkg_by_name_loop base name_format filename filesize split_char [] db = Ret (None, db)"
| "pkg_by_name_loop base name_format filename filesize split_char (i # is) db =
     (if blob_bytes filename ! i \<noteq> split_char
      then pkg_by_name_loop base name_format filename filesize split_char is db
      else
        case apk_db_get_name db (Some (take i (blob_bytes filename))) of
          (name, db) \<Rightarrow>
            (case find_filename (pkg_has_filename base name_format filename filesize name) (db_pkg db)
                    (map fst (nm_providers (db_name db name))) of
               Fault \<Rightarrow> Fault
             | Ret (Some a) \<Rightarrow> Ret (Some a, db)
             | Ret None \<Rightarrow> pkg_by_name_loop base name_format filename filesize split_char is db))"

definition apk_db_get_pkg_by_name ::
  "nat \<Rightarrow> apk_database \<Rightarrow> blob \<Rightarrow> blob \<Rightarrow> u64 \<Rightarrow> blob \<Rightarrow> (nat option \<times> apk_database) outcome" where
  "apk_db_get_pkg_by_name base db default_pkgname_spec filename filesize pkgname_spec =
     (let pkgname_spec = (if pkgname_spec = None then default_pkgname_spec else pkgname_spec);
          name_format = (case apk_blob_rsplit pkgname_spec CHR ''/'' of Some (_, r) \<Rightarrow> r | None \<Rightarrow> pkgname_spec)
      in if \<not> apk_blob_starts_with name_format (Some ''${name}'') then Ret (None, db)
         else if blob_len name_format < 8 then Fault
         else
           pkg_by_name_loop base (if apk_blob_chr filename CHR ''/'' \<noteq> None then pkgname_spec else name_format)
             filename filesize (blob_bytes name_format ! 7) [1..<blob_len filename] db)"

section \<open>Property\<close>

text \<open>
  The set of allowed repositories is kept in 16 bits when an upgrade is looked for, although there can be
  32 repositories: a package that only the repositories from the seventeenth on have is never reported as an
  upgrade, whatever is installed and allowed.
\<close>

lemma upgradable_high_repos_ignored:
  assumes "\<forall>i<16. \<not> bit (pkg_repos pkg) i"
  shows "apk_db_pkg_upgradable db pkg = None"
proof -
  have "pkg_repos pkg AND ucast (w :: u16) = 0" for w
    by (rule bit_word_eqI) (use assms in \<open>auto simp: bit_simps dest: bit_imp_le_length\<close>)
  then show ?thesis by (simp add: apk_db_pkg_upgradable_def Let_def split: option.split)
qed

text \<open>The version 2 of an installed package is in the seventeenth repository, which is allowed.\<close>

lemma upgradable_high_repos_ignored_witness:
  "let new = null_package\<lparr>pkg_name := Some ''a'', pkg_version := Some ''2'', pkg_repos := 65536\<rparr>;
       old = new\<lparr>pkg_version := Some ''1'', pkg_ipkg := Some new_installed_package\<rparr>;
       db = (upd_db_pkg 1 (\<lambda>_. old) (upd_db_name ''a'' (\<lambda>n. n\<lparr>nm_providers := [(1, ''1'')]\<rparr>)
              apk_db_init))\<lparr>db_allowed_repos := [65536]\<rparr>
   in (\<forall>i<16. \<not> bit (pkg_repos new) i) \<and> pkg_repos new AND (db_allowed_repos db ! 0) \<noteq> 0 \<and> apk_db_pkg_upgradable db new = None"
proof -
  have "(65536 :: u32) = push_bit 16 1" by (simp add: push_bit_eq_mult)
  then have "\<forall>i<16. \<not> bit (65536 :: u32) i" by (simp only: bit_push_bit_iff) simp
  then show ?thesis using upgradable_high_repos_ignored by (simp add: Let_def upd_db_pkg_def upd_db_name_def apk_db_init_def)
qed

end
