(* ===== verification/Database_Inv.thy ===== *)
theory Database_Inv
  imports Database
begin

text \<open>
  The invariant of the names and packages of a database: every package is listed under the names it
  gives and nowhere else, and once the database is open every name knows the names that depend on it.
\<close>

section \<open>The two tables\<close>

interpretation name_table: hash_contract pkg_name_hash_ops cstr blob_bytes
proof
  show "item_matches pkg_name_hash_ops i k \<longleftrightarrow> cstr i = blob_bytes k" for i k
    by (auto simp: item_matches_def pkg_name_hash_ops_def pkg_name_get_key_def apk_blob_compare_eq_0)
  show "(case hash_item pkg_name_hash_ops of Some f \<Rightarrow> f i
         | None \<Rightarrow> hash_key pkg_name_hash_ops (get_key pkg_name_hash_ops i)) = hash_key pkg_name_hash_ops k"
    if "cstr i = blob_bytes k" for i k
    using that by (simp add: pkg_name_hash_ops_def pkg_name_get_key_def apk_blob_hash_def apk_blob_hash_seed_def)
qed

interpretation pkg_table: hash_contract pkg_info_hash_ops snd blob_bytes
proof
  show "item_matches pkg_info_hash_ops i k \<longleftrightarrow> snd i = blob_bytes k" for i k
    by (auto simp: item_matches_def pkg_info_hash_ops_def pkg_info_get_key_def apk_blob_compare_eq_0)
  show "(case hash_item pkg_info_hash_ops of Some f \<Rightarrow> f i
         | None \<Rightarrow> hash_key pkg_info_hash_ops (get_key pkg_info_hash_ops i)) = hash_key pkg_info_hash_ops k"
    if "snd i = blob_bytes k" for i k
    using that by (simp add: pkg_info_hash_ops_def pkg_info_get_key_def csum_hash_def blob_len_def)
qed

section \<open>The invariant\<close>

definition known :: "apk_database \<Rightarrow> bytes set" where
  "known db = set (hash_items (db_names db))"

definition pkgs :: "apk_database \<Rightarrow> nat set" where
  "pkgs db = fst ` set (hash_items (db_packages db))"

definition names_of :: "apk_package \<Rightarrow> bytes set" where
  "names_of p = fst ` set (pkg_gives p)"

definition needs :: "apk_package \<Rightarrow> bytes set" where
  "needs p = dep_nm ` set (pkg_depends p)"

definition triggers_of :: "apk_package \<Rightarrow> bytes set" where
  "triggers_of p = dep_nm ` set (pkg_install_if p)"

text \<open>A complete package whose names are all known.\<close>

definition pkg_wf :: "bytes set \<Rightarrow> apk_package \<Rightarrow> bool" where
  "pkg_wf N p \<longleftrightarrow> pkg_name p \<noteq> None \<and> pkg_version p \<noteq> None \<and>
     names_of p \<union> needs p \<union> triggers_of p \<subseteq> N"

definition tables_ok :: "apk_database \<Rightarrow> bool" where
  "tables_ok db \<longleftrightarrow>
     hash_table pkg_name_hash_ops (db_names db) \<and> keys_distinct cstr (db_names db) \<and> (\<forall>n \<in> known db. NUL \<notin> set n) \<and>
     hash_table pkg_info_hash_ops (db_packages db) \<and> keys_distinct snd (db_packages db)"

definition store_ok :: "apk_database \<Rightarrow> bool" where
  "store_ok db \<longleftrightarrow>
     (\<forall>(a, k) \<in> set (hash_items (db_packages db)). a < db_next_pkg db \<and> k = take 20 (pkg_digest (db_pkg db a))) \<and>
     (\<forall>a \<in> pkgs db. pkg_addr (db_pkg db a) = a \<and> pkg_wf (known db) (db_pkg db a)) \<and>
     (\<forall>a. a \<notin> pkgs db \<longrightarrow> db_pkg db a = null_package\<lparr>pkg_addr := a\<rparr>)"

definition links_ok :: "apk_database \<Rightarrow> bool" where
  "links_ok db \<longleftrightarrow>
     (\<forall>n a v. (a, v) \<in> set (nm_providers (db_name db n)) \<longleftrightarrow> a \<in> pkgs db \<and> (n, v) \<in> set (pkg_gives (db_pkg db a))) \<and>
     (\<forall>n m. m \<in> set (nm_rdepends (db_name db n)) \<longleftrightarrow>
        db_open_complete db \<and> (\<exists>a \<in> pkgs db. m \<in> names_of (db_pkg db a) \<and> n \<in> needs (db_pkg db a))) \<and>
     (\<forall>n m. m \<in> set (nm_rinstall_if (db_name db n)) \<longleftrightarrow>
        db_open_complete db \<and> (\<exists>a \<in> pkgs db. m \<in> names_of (db_pkg db a) \<and> n \<in> triggers_of (db_pkg db a))) \<and>
     (\<forall>n. distinct (nm_rdepends (db_name db n)) \<and> distinct (nm_rinstall_if (db_name db n)) \<and> nm_state_int (db_name db n) = 0)"

definition avail_inv :: "apk_database \<Rightarrow> bool" where
  "avail_inv db \<longleftrightarrow> tables_ok db \<and> store_ok db \<and> links_ok db"

text \<open>The installed packages are packages of the database.\<close>

definition installed_ok :: "apk_database \<Rightarrow> bool" where
  "installed_ok db \<longleftrightarrow> set (idb_packages (db_installed db)) \<subseteq> pkgs db"

lemma links_okD:
  assumes "links_ok db"
  shows "(a, v) \<in> set (nm_providers (db_name db n)) \<longleftrightarrow> a \<in> pkgs db \<and> (n, v) \<in> set (pkg_gives (db_pkg db a))"
    "m \<in> set (nm_rdepends (db_name db n)) \<longleftrightarrow>
       db_open_complete db \<and> (\<exists>a \<in> pkgs db. m \<in> names_of (db_pkg db a) \<and> n \<in> needs (db_pkg db a))"
    "m \<in> set (nm_rinstall_if (db_name db n)) \<longleftrightarrow>
       db_open_complete db \<and> (\<exists>a \<in> pkgs db. m \<in> names_of (db_pkg db a) \<and> n \<in> triggers_of (db_pkg db a))"
    "distinct (nm_rdepends (db_name db n))" "distinct (nm_rinstall_if (db_name db n))" "nm_state_int (db_name db n) = 0"
  using assms unfolding links_ok_def by simp_all

lemma list_emptyI: "(\<And>x. x \<notin> set xs) \<Longrightarrow> xs = []"
  by (cases xs) auto

section \<open>Updates that keep the invariant\<close>

lemma upd_db_name_simps [simp]:
  "db_name (upd_db_name n f db) = (db_name db)(n := f (db_name db n))"
  "db_names (upd_db_name n f db) = db_names db" "db_packages (upd_db_name n f db) = db_packages db"
  "db_pkg (upd_db_name n f db) = db_pkg db" "db_next_pkg (upd_db_name n f db) = db_next_pkg db"
  "db_installed (upd_db_name n f db) = db_installed db" "db_open_complete (upd_db_name n f db) = db_open_complete db"
  "db_files (upd_db_name n f db) = db_files db"
  by (simp_all add: upd_db_name_def)

lemma upd_db_pkg_simps [simp]:
  "db_pkg (upd_db_pkg a f db) = (db_pkg db)(a := f (db_pkg db a))"
  "db_name (upd_db_pkg a f db) = db_name db"
  "db_names (upd_db_pkg a f db) = db_names db" "db_packages (upd_db_pkg a f db) = db_packages db"
  "db_next_pkg (upd_db_pkg a f db) = db_next_pkg db"
  "db_installed (upd_db_pkg a f db) = db_installed db" "db_open_complete (upd_db_pkg a f db) = db_open_complete db"
  by (simp_all add: upd_db_pkg_def)

text \<open>The parts of a name and of a package that the invariant speaks about.\<close>

definition nm_core :: "apk_name \<Rightarrow> (nat \<times> bytes) list \<times> bytes list \<times> bytes list \<times> u32" where
  "nm_core n = (nm_providers n, nm_rdepends n, nm_rinstall_if n, nm_state_int n)"

definition same_db :: "apk_database \<Rightarrow> apk_database \<Rightarrow> bool" where
  "same_db db db' \<longleftrightarrow>
     db_names db' = db_names db \<and> db_packages db' = db_packages db \<and> db_pkg db' = db_pkg db \<and>
     db_next_pkg db' = db_next_pkg db \<and> db_installed db' = db_installed db \<and> db_open_complete db' = db_open_complete db \<and>
     db_files db' = db_files db"

lemma same_db_refl [simp]: "same_db db db"
  by (simp add: same_db_def)

lemma same_db_trans: "same_db a b \<Longrightarrow> same_db b c \<Longrightarrow> same_db a c"
  by (simp add: same_db_def)

lemma same_db_upd [simp]: "same_db db (upd_db_name n f db)"
  by (simp add: same_db_def)

lemma same_db_fold: "(\<And>x db. x \<in> set xs \<Longrightarrow> same_db db (f x db)) \<Longrightarrow> same_db db (fold f xs db)"
  by (induction xs arbitrary: db) (auto intro: same_db_trans)

lemma same_dbD:
  assumes "same_db db db'"
  shows "known db' = known db" "pkgs db' = pkgs db" "tables_ok db' = tables_ok db" "store_ok db' = store_ok db"
  using assms by (simp_all add: same_db_def known_def pkgs_def tables_ok_def store_ok_def)

lemma same_links:
  assumes "same_db db db'" "\<And>n. nm_core (db_name db' n) = nm_core (db_name db n)"
  shows "avail_inv db' = avail_inv db"
proof -
  have "nm_providers (db_name db' n) = nm_providers (db_name db n)" "nm_rdepends (db_name db' n) = nm_rdepends (db_name db n)"
    "nm_rinstall_if (db_name db' n) = nm_rinstall_if (db_name db n)" "nm_state_int (db_name db' n) = nm_state_int (db_name db n)" for n
    using assms(2) [of n] by (simp_all add: nm_core_def)
  moreover have "pkgs db' = pkgs db" "db_pkg db' = db_pkg db" "db_open_complete db' = db_open_complete db"
    using assms(1) by (simp_all add: same_db_def pkgs_def)
  ultimately have "links_ok db' = links_ok db" by (simp add: links_ok_def)
  with same_dbD [OF assms(1)] show ?thesis by (simp add: avail_inv_def)
qed

lemma same_core_fold:
  assumes "\<And>x db n. x \<in> set xs \<Longrightarrow> nm_core (db_name (f x db) n) = nm_core (db_name db n)"
  shows "nm_core (db_name (fold f xs db) n) = nm_core (db_name db n)"
  using assms by (induction xs arbitrary: db) simp_all

text \<open>Changes of a package that leave its names, dependencies and digest alone.\<close>

definition pkg_core :: "apk_package \<Rightarrow> nat \<times> bytes option \<times> bytes option \<times> apk_dependency list \<times> apk_dependency list \<times> apk_dependency list \<times> bytes" where
  "pkg_core p = (pkg_addr p, pkg_name p, pkg_version p, pkg_depends p, pkg_provides p, pkg_install_if p, pkg_digest p)"

lemma pkg_coreD:
  assumes "pkg_core p = pkg_core q"
  shows "pkg_gives p = pkg_gives q" "names_of p = names_of q" "needs p = needs q" "triggers_of p = triggers_of q"
    "pkg_wf N p = pkg_wf N q" "pkg_addr p = pkg_addr q" "pkg_digest p = pkg_digest q"
  using assms by (simp_all add: pkg_core_def pkg_gives_def names_of_def needs_def triggers_of_def pkg_wf_def)

lemma upd_pkg_inv:
  assumes inv: "avail_inv db" and a: "a \<in> pkgs db" and f: "pkg_core (f (db_pkg db a)) = pkg_core (db_pkg db a)"
  shows "avail_inv (upd_db_pkg a f db)"
proof -
  have core: "pkg_core (db_pkg (upd_db_pkg a f db) b) = pkg_core (db_pkg db b)" for b using f by simp
  note c = pkg_coreD [OF core]
  have p: "pkgs (upd_db_pkg a f db) = pkgs db" "known (upd_db_pkg a f db) = known db" by (simp_all add: pkgs_def known_def)
  have "tables_ok (upd_db_pkg a f db)" using inv by (simp add: avail_inv_def tables_ok_def p)
  moreover have "store_ok (upd_db_pkg a f db)"
    using inv a unfolding avail_inv_def store_ok_def p by (simp add: c del: upd_db_pkg_simps(1)) auto
  moreover have "links_ok (upd_db_pkg a f db)"
    using inv unfolding avail_inv_def links_ok_def p by (simp add: c del: upd_db_pkg_simps(1))
  ultimately show ?thesis by (simp add: avail_inv_def)
qed

section \<open>Names\<close>

lemma query_known:
  assumes "tables_ok db" "NUL \<notin> set n"
  shows "apk_hash_get (db_names db) (Some n) = (if n \<in> known db then Some n else None)"
proof (cases "n \<in> known db")
  case True
  with assms have "apk_hash_get (db_names db) (Some n) = Some n"
    by (intro name_table.get_unique) (auto simp: tables_ok_def known_def cstr_id)
  with True show ?thesis by simp
next
  case False
  have "apk_hash_get (db_names db) (Some n) \<noteq> Some i" for i
  proof
    assume "apk_hash_get (db_names db) (Some n) = Some i"
    then have "i \<in> known db" "cstr i = n"
      using name_table.get_Some [of "db_names db" "Some n" i] assms(1) by (auto simp: tables_ok_def known_def)
    with assms(1) False show False by (auto simp: tables_ok_def cstr_id)
  qed
  then have "apk_hash_get (db_names db) (Some n) = None" by (metis option.exhaust)
  with False show ?thesis by simp
qed

lemma unknown_fresh:
  assumes "avail_inv db" "n \<notin> known db"
  shows "nm_core (db_name db n) = ([], [], [], 0)"
proof -
  have l: "links_ok db" using assms(1) by (simp add: avail_inv_def)
  have "names_of (db_pkg db a) \<union> needs (db_pkg db a) \<union> triggers_of (db_pkg db a) \<subseteq> known db" if "a \<in> pkgs db" for a
    using assms(1) that by (auto simp: avail_inv_def store_ok_def pkg_wf_def)
  then have "\<And>a v. a \<in> pkgs db \<Longrightarrow> (n, v) \<notin> set (pkg_gives (db_pkg db a))" "\<And>a. a \<in> pkgs db \<Longrightarrow> n \<notin> needs (db_pkg db a)"
    "\<And>a. a \<in> pkgs db \<Longrightarrow> n \<notin> triggers_of (db_pkg db a)"
    using assms(2) by (force simp: names_of_def)+
  then have "nm_providers (db_name db n) = []" "nm_rdepends (db_name db n) = []" "nm_rinstall_if (db_name db n) = []"
    using links_okD(1-3) [OF l] by (auto intro!: list_emptyI)
  with links_okD(6) [OF l] show ?thesis by (simp add: nm_core_def)
qed

lemma get_name_known:
  assumes "avail_inv db" "NUL \<notin> set n" "n \<in> known db"
  shows "apk_db_get_name db (Some n) = (n, db)"
  using query_known [of db n] assms by (simp add: apk_db_get_name_def apk_hash_get_def avail_inv_def)

lemma get_name_new:
  assumes inv: "avail_inv db" and n: "NUL \<notin> set n" "n \<notin> known db"
  defines "h \<equiv> apk_hash_insert (db_names db) n"
  shows "apk_db_get_name db (Some n) = (n, (upd_db_name n (\<lambda>_. new_name) db)\<lparr>db_names := h, db_sorted_names := False\<rparr>)"
    "hash_table pkg_name_hash_ops h" "keys_distinct cstr h" "set (hash_items h) = insert n (known db)"
proof -
  have t: "hash_table pkg_name_hash_ops (db_names db)" "keys_distinct cstr (db_names db)"
    using inv by (simp_all add: avail_inv_def tables_ok_def)
  have key: "cstr n = n" using n(1) by (rule cstr_id)
  have none: "apk_hash_get (db_names db) (Some n) = None" using query_known [of db n] inv n by (simp add: avail_inv_def)
  have "apk_hash_from_key (db_names db) (Some n) = apk_hash_from_item (db_names db) n"
    using name_table.from_item_key [OF t(1), of n "Some n"] key by simp
  then show "apk_db_get_name db (Some n) = (n, (upd_db_name n (\<lambda>_. new_name) db)\<lparr>db_names := h, db_sorted_names := False\<rparr>)"
    using none by (simp add: apk_db_get_name_def apk_hash_get_def Let_def h_def apk_hash_insert_def)
  show "hash_table pkg_name_hash_ops h" unfolding h_def by (rule name_table.insert_table [OF t(1)])
  have "table_map cstr (db_names db) (cstr n) = None"
    using none name_table.get_is_map [OF t(1), of "Some n"] key by simp
  then show "keys_distinct cstr h" unfolding h_def by (rule name_table.insert_distinct [OF t])
  show "set (hash_items h) = insert n (known db)"
    unfolding h_def known_def using t(1) by (intro hash_insert_ok(2)) (simp add: hash_table_def)
qed

lemma pkg_wf_mono: "pkg_wf N p \<Longrightarrow> N \<subseteq> M \<Longrightarrow> pkg_wf M p"
  by (auto simp: pkg_wf_def)

lemma get_name_inv:
  assumes inv: "avail_inv db" and n: "NUL \<notin> set n"
  shows "avail_inv (snd (apk_db_get_name db (Some n)))" "fst (apk_db_get_name db (Some n)) = n"
    "known (snd (apk_db_get_name db (Some n))) = insert n (known db)"
    "pkgs (snd (apk_db_get_name db (Some n))) = pkgs db" "db_pkg (snd (apk_db_get_name db (Some n))) = db_pkg db"
proof -
  let ?db = "snd (apk_db_get_name db (Some n))"
  have "avail_inv ?db \<and> fst (apk_db_get_name db (Some n)) = n \<and> known ?db = insert n (known db) \<and> pkgs ?db = pkgs db \<and>
    db_pkg ?db = db_pkg db"
  proof (cases "n \<in> known db")
    case True
    then show ?thesis using get_name_known [OF inv n] inv by auto
  next
    case False
    note g = get_name_new [OF inv n False]
    have k: "known ?db = insert n (known db)" and p: "pkgs ?db = pkgs db" "db_pkg ?db = db_pkg db" "db_open_complete ?db = db_open_complete db"
      using g(1, 4) by (simp_all add: known_def pkgs_def)
    have "tables_ok ?db" using inv n g(2, 3) unfolding avail_inv_def tables_ok_def k by (auto simp: g(1))
    moreover have "store_ok ?db"
      using inv unfolding avail_inv_def store_ok_def k p by (auto simp: g(1) pkgs_def intro: pkg_wf_mono)
    moreover have "nm_core (db_name ?db m) = nm_core (db_name db m)" for m
      using unknown_fresh [OF inv False] by (simp add: g(1) nm_core_def new_name_def)
    then have "links_ok ?db"
      using inv unfolding avail_inv_def links_ok_def p by (simp add: nm_core_def)
    ultimately show ?thesis using k p g(1) by (simp add: avail_inv_def)
  qed
  then show "avail_inv ?db" "fst (apk_db_get_name db (Some n)) = n" "known ?db = insert n (known db)" "pkgs ?db = pkgs db"
    "db_pkg ?db = db_pkg db" by simp_all
qed

section \<open>Adding a package\<close>

lemma fold_upd_name:
  "db_name (fold (\<lambda>d. upd_db_name (k d) (f d)) ds db) n = fold f (filter (\<lambda>d. k d = n) ds) (db_name db n)"
  by (induction ds arbitrary: db) auto

lemma fold_add_provider:
  "db_name (fold (add_provider a) gs db) n =
     (db_name db n)\<lparr>nm_providers := nm_providers (db_name db n) @ map (\<lambda>g. (a, snd g)) (filter (\<lambda>g. fst g = n) gs)\<rparr>"
  by (induction gs arbitrary: db) (auto simp: add_provider_def)

lemma fold_add_array:
  "set (fold add_name_to_array ns xs) = set xs \<union> set ns" "distinct xs \<Longrightarrow> distinct (fold add_name_to_array ns xs)"
  by (induction ns arbitrary: xs) (auto simp: add_name_to_array_def)

text \<open>The incremental update of the reverse dependencies of one package.\<close>

lemma fold_rdepends:
  fixes x :: apk_name and ns and ds :: "apk_dependency list" and c :: "apk_dependency \<Rightarrow> apk_name \<Rightarrow> bool"
  defines "y \<equiv> fold (\<lambda>d n. n\<lparr>nm_is_dependency := c d n, nm_rdepends := fold add_name_to_array ns (nm_rdepends n)\<rparr>) ds x"
    and "z \<equiv> fold (\<lambda>d n. n\<lparr>nm_rinstall_if := fold add_name_to_array ns (nm_rinstall_if n)\<rparr>) ds x"
  shows "set (nm_rdepends y) = set (nm_rdepends x) \<union> (if ds = [] then {} else set ns)"
    "distinct (nm_rdepends x) \<Longrightarrow> distinct (nm_rdepends y)"
    "nm_providers y = nm_providers x" "nm_state_int y = nm_state_int x" "nm_rinstall_if y = nm_rinstall_if x"
    "set (nm_rinstall_if z) = set (nm_rinstall_if x) \<union> (if ds = [] then {} else set ns)"
    "distinct (nm_rinstall_if x) \<Longrightarrow> distinct (nm_rinstall_if z)"
    "nm_providers z = nm_providers x" "nm_state_int z = nm_state_int x" "nm_rdepends z = nm_rdepends x"
  unfolding y_def z_def by (induction ds arbitrary: x) (auto simp: fold_add_array)

lemma pkg_rdepends_name:
  fixes db pkg n
  defines "x \<equiv> db_name db n" and "y \<equiv> db_name (apk_db_pkg_rdepends pkg db) n"
  shows "nm_providers y = nm_providers x" "nm_state_int y = nm_state_int x"
    "set (nm_rdepends y) = set (nm_rdepends x) \<union> (if n \<in> needs pkg then names_of pkg else {})"
    "set (nm_rinstall_if y) = set (nm_rinstall_if x) \<union> (if n \<in> triggers_of pkg then names_of pkg else {})"
    "distinct (nm_rdepends x) \<Longrightarrow> distinct (nm_rdepends y)" "distinct (nm_rinstall_if x) \<Longrightarrow> distinct (nm_rinstall_if y)"
proof -
  have ns: "set (pkg_nm pkg # map dep_nm (pkg_provides pkg)) = names_of pkg"
    by (auto simp: names_of_def pkg_gives_def image_image)
  have e: "filter (\<lambda>d. dep_nm d = n) ds = [] \<longleftrightarrow> n \<notin> dep_nm ` set ds" for ds
    by (auto simp: filter_empty_conv)
  show "nm_providers y = nm_providers x" "nm_state_int y = nm_state_int x"
    "set (nm_rdepends y) = set (nm_rdepends x) \<union> (if n \<in> needs pkg then names_of pkg else {})"
    "set (nm_rinstall_if y) = set (nm_rinstall_if x) \<union> (if n \<in> triggers_of pkg then names_of pkg else {})"
    "distinct (nm_rdepends x) \<Longrightarrow> distinct (nm_rdepends y)" "distinct (nm_rinstall_if x) \<Longrightarrow> distinct (nm_rinstall_if y)"
    unfolding x_def y_def apk_db_pkg_rdepends_def Let_def
    by (simp_all only: fold_upd_name fold_rdepends ns e) (simp_all add: needs_def triggers_of_def)
qed

lemma same_db_rdepends: "same_db db (apk_db_pkg_rdepends pkg db)"
  unfolding apk_db_pkg_rdepends_def Let_def by (intro same_db_trans [OF same_db_fold same_db_fold]) simp_all

lemma from_tmpl_core:
  "pkg_gives (pkg_from_tmpl a pkg d) = pkg_gives pkg" "names_of (pkg_from_tmpl a pkg d) = names_of pkg"
  "needs (pkg_from_tmpl a pkg d) = needs pkg" "triggers_of (pkg_from_tmpl a pkg d) = triggers_of pkg"
  "pkg_wf N (pkg_from_tmpl a pkg d) = pkg_wf N pkg" "pkg_addr (pkg_from_tmpl a pkg d) = a"
  "pkg_digest (pkg_from_tmpl a pkg d) = take (dg_len d) (dg_data d)"
  by (simp_all add: pkg_from_tmpl_def pkg_gives_def names_of_def needs_def triggers_of_def pkg_wf_def)

lemma insert_pkg_inv:
  fixes db pkg d
  defines "db' \<equiv> snd (insert_pkg pkg d db)" and "a \<equiv> db_next_pkg db"
  assumes inv: "avail_inv db" and wf: "pkg_wf (known db) pkg" and len: "20 \<le> dg_len d"
    and new: "apk_hash_get (db_packages db) (Some (take 20 (dg_data d))) = None"
  shows "avail_inv db'" "fst (insert_pkg pkg d db) = a" "known db' = known db" "pkgs db' = insert a (pkgs db)"
    "db_pkg db' = (db_pkg db)(a := pkg_from_tmpl a pkg d)" "a \<notin> pkgs db" "db_installed db' = db_installed db"
    "(a, take 20 (dg_data d)) \<in> set (hash_items (db_packages db'))" "db_open_complete db' = db_open_complete db" "db_files db' = db_files db"
proof -
  let ?idb = "pkg_from_tmpl a pkg d" and ?k = "take 20 (dg_data d)"
  let ?h = "apk_hash_insert (db_packages db) (a, ?k)"
  define db1 where "db1 = db\<lparr>db_next_pkg := a + 1, db_pkg := (db_pkg db)(a := ?idb), db_packages := ?h\<rparr>"
  define db2 where "db2 = fold (add_provider a) (pkg_gives pkg) db1"
  have key: "blob_bytes (apk_pkg_hash_blob ?idb) = ?k"
    using len by (simp add: apk_pkg_hash_blob_def from_tmpl_core APK_DIGEST_LENGTH_SHA1_def min_absorb1)
  have db': "db' = (if db_open_complete db2 then apk_db_pkg_rdepends ?idb db2 else db2)" and fst: "fst (insert_pkg pkg d db) = a"
    unfolding db'_def insert_pkg_def Let_def key [unfolded a_def] from_tmpl_core
    by (simp_all add: db2_def db1_def a_def)
  show "fst (insert_pkg pkg d db) = a" by (rule fst)
  have s2: "same_db db1 db2" unfolding db2_def by (rule same_db_fold) (simp add: add_provider_def)
  have s: "same_db db1 db'" using s2 same_db_rdepends [of db2 ?idb] by (auto simp: db' intro: same_db_trans)
  have t: "hash_table pkg_info_hash_ops (db_packages db)" "keys_distinct snd (db_packages db)"
    using inv by (simp_all add: avail_inv_def tables_ok_def)
  have items: "set (hash_items ?h) = insert (a, ?k) (set (hash_items (db_packages db)))"
    using t(1) by (intro hash_insert_ok(2)) (simp add: hash_table_def)
  have "table_map snd (db_packages db) (snd (a, ?k)) = None"
    using new pkg_table.get_is_map [OF t(1), of "Some ?k"] by simp
  then have dist: "keys_distinct snd ?h" by (rule pkg_table.insert_distinct [OF t])
  have lt: "b < a" if "b \<in> pkgs db" for b using inv that by (auto simp: avail_inv_def store_ok_def pkgs_def a_def)
  show na: "a \<notin> pkgs db" using lt by blast
  have p1: "pkgs db1 = insert a (pkgs db)" "known db1 = known db" using items by (simp_all add: pkgs_def known_def db1_def)
  show p: "pkgs db' = insert a (pkgs db)" "known db' = known db" using same_dbD(1, 2) [OF s] p1 by simp_all
  show pk: "db_pkg db' = (db_pkg db)(a := ?idb)" using s by (simp add: same_db_def db1_def)
  show "db_installed db' = db_installed db" using s by (simp add: same_db_def db1_def)
  show "(a, ?k) \<in> set (hash_items (db_packages db'))" using s items by (simp add: same_db_def db1_def)
  show oc: "db_open_complete db' = db_open_complete db" "db_files db' = db_files db" using s by (simp_all add: same_db_def db1_def)
  have oc2: "db_open_complete db2 = db_open_complete db" using s2 by (simp add: same_db_def db1_def)
  have "tables_ok db1"
    using inv dist pkg_table.insert_table [OF t(1)] unfolding avail_inv_def tables_ok_def p1 by (simp add: db1_def)
  moreover have "store_ok db1"
    unfolding store_ok_def p1
  proof (intro conjI)
    show "\<forall>(b, k) \<in> set (hash_items (db_packages db1)). b < db_next_pkg db1 \<and> k = take 20 (pkg_digest (db_pkg db1 b))"
    proof (clarify, goal_cases)
      case (1 b k)
      then have "(b, k) = (a, ?k) \<or> b \<in> pkgs db \<and> (b, k) \<in> set (hash_items (db_packages db))"
        using items by (force simp: db1_def pkgs_def)
      then show ?case
        using inv len lt [of b] by (auto simp: avail_inv_def store_ok_def db1_def from_tmpl_core min_absorb1)
    qed
    show "\<forall>b \<in> insert a (pkgs db). pkg_addr (db_pkg db1 b) = b \<and> pkg_wf (known db) (db_pkg db1 b)"
      using inv wf by (auto simp: db1_def from_tmpl_core avail_inv_def store_ok_def)
    show "\<forall>b. b \<notin> insert a (pkgs db) \<longrightarrow> db_pkg db1 b = null_package\<lparr>pkg_addr := b\<rparr>"
      using inv by (auto simp: db1_def avail_inv_def store_ok_def)
  qed
  moreover have "links_ok db'"
  proof -
    have l: "links_ok db" using inv by (simp add: avail_inv_def)
    note ld = links_okD [OF l]
    have n2: "db_name db2 n = (db_name db n)\<lparr>nm_providers := nm_providers (db_name db n) @
        map (\<lambda>g. (a, snd g)) (filter (\<lambda>g. fst g = n) (pkg_gives pkg))\<rparr>" for n
      by (simp add: db2_def fold_add_provider db1_def)
    note r = pkg_rdepends_name [where db = db2 and pkg = ?idb, unfolded from_tmpl_core n2]
    have "(b, v) \<in> set (nm_providers (db_name db' n)) \<longleftrightarrow> b \<in> insert a (pkgs db) \<and> (n, v) \<in> set (pkg_gives (((db_pkg db)(a := ?idb)) b))" for n b v
      using na by (auto simp: db' n2 r ld from_tmpl_core) (force simp: image_iff)+
    moreover have "m \<in> set (nm_rdepends (db_name db' n)) \<longleftrightarrow> db_open_complete db \<and>
        (\<exists>b \<in> insert a (pkgs db). m \<in> names_of (((db_pkg db)(a := ?idb)) b) \<and> n \<in> needs (((db_pkg db)(a := ?idb)) b))" for n m
      using na oc2 by (auto simp: db' n2 r ld from_tmpl_core)
    moreover have "m \<in> set (nm_rinstall_if (db_name db' n)) \<longleftrightarrow> db_open_complete db \<and>
        (\<exists>b \<in> insert a (pkgs db). m \<in> names_of (((db_pkg db)(a := ?idb)) b) \<and> n \<in> triggers_of (((db_pkg db)(a := ?idb)) b))" for n m
      using na oc2 by (auto simp: db' n2 r ld from_tmpl_core)
    moreover have "distinct (nm_rdepends (db_name db' n)) \<and> distinct (nm_rinstall_if (db_name db' n)) \<and> nm_state_int (db_name db' n) = 0" for n
      by (simp add: db' n2 r ld)
    ultimately show ?thesis unfolding links_ok_def p pk oc by blast
  qed
  ultimately show "avail_inv db'" using same_dbD(3, 4) [OF s] by (simp add: avail_inv_def)
qed

lemma avail_inv_fields:
  "avail_inv (db\<lparr>db_files := f\<rparr>) = avail_inv db" "avail_inv (db\<lparr>db_installed := i\<rparr>) = avail_inv db"
  by (simp_all add: avail_inv_def tables_ok_def store_ok_def links_ok_def pkgs_def known_def)

lemma move_ipkg_inv:
  assumes "avail_inv db" "a \<in> pkgs db"
  shows "avail_inv (move_ipkg pkg a db)" "known (move_ipkg pkg a db) = known db" "pkgs (move_ipkg pkg a db) = pkgs db"
    "pkg_core (db_pkg (move_ipkg pkg a db) b) = pkg_core (db_pkg db b)"
    "db_packages (move_ipkg pkg a db) = db_packages db" "db_open_complete (move_ipkg pkg a db) = db_open_complete db"
proof -
  have "avail_inv (upd_db_pkg a (\<lambda>p. p\<lparr>pkg_ipkg := i\<rparr>) db)" for i
    by (rule upd_pkg_inv [OF assms]) (simp add: pkg_core_def)
  then have "avail_inv ((upd_db_pkg a (\<lambda>p. p\<lparr>pkg_ipkg := i\<rparr>) db)\<lparr>db_files := f, db_installed := j\<rparr>)" for i j f
    by (simp only: avail_inv_fields)
  then show "avail_inv (move_ipkg pkg a db)" using assms(1) by (auto simp: move_ipkg_def split: option.splits)
  show "known (move_ipkg pkg a db) = known db" "pkgs (move_ipkg pkg a db) = pkgs db"
    "pkg_core (db_pkg (move_ipkg pkg a db) b) = pkg_core (db_pkg db b)"
    "db_packages (move_ipkg pkg a db) = db_packages db" "db_open_complete (move_ipkg pkg a db) = db_open_complete db"
    by (auto simp: move_ipkg_def known_def pkgs_def pkg_core_def split: option.splits)
qed

lemma flag_names_inv:
  fixes db ns
  defines "db' \<equiv> fold (\<lambda>n. upd_db_name n (\<lambda>x. x\<lparr>nm_has_repository_providers := True\<rparr>)) ns db"
  shows "avail_inv db' = avail_inv db" "same_db db db'"
proof -
  show s: "same_db db db'" unfolding db'_def by (rule same_db_fold) simp
  show "avail_inv db' = avail_inv db"
    by (rule same_links [OF s]) (unfold db'_def, rule same_core_fold, simp add: nm_core_def)
qed

text \<open>A template that can be added: a complete package whose names were looked up, and an identity.\<close>

definition tmpl_ok :: "apk_database \<Rightarrow> apk_package_tmpl \<Rightarrow> bool" where
  "tmpl_ok db tmpl \<longleftrightarrow> pkg_wf (known db) (tmpl_pkg tmpl) \<and> 20 \<le> dg_len (tmpl_id tmpl)"

definition id_of :: "apk_package_tmpl \<Rightarrow> bytes" where
  "id_of tmpl = take 20 (dg_data (tmpl_id tmpl))"

text \<open>The first half of adding a package: a new entry, or the entry with the same identity.\<close>

definition place_pkg :: "apk_package \<Rightarrow> apk_digest \<Rightarrow> apk_database \<Rightarrow> u16 \<times> nat \<times> apk_database" where
  "place_pkg pkg d db =
     (case apk_hash_get (db_packages db) (Some (take 20 (dg_data d))) of
        None \<Rightarrow> (0, insert_pkg pkg d db)
      | Some (a, _) \<Rightarrow> (ucast (pkg_repos (db_pkg db a)), a,
         upd_db_pkg a (\<lambda>p. p\<lparr>pkg_repos := pkg_repos p OR pkg_repos pkg,
           pkg_filename_ndx := (if pkg_filename_ndx p = 0 then pkg_filename_ndx pkg else pkg_filename_ndx p)\<rparr>) db))"

lemma place_pkg_inv:
  assumes inv: "avail_inv db" and wf: "pkg_wf (known db) pkg" and len: "20 \<le> dg_len d"
    and st: "place_pkg pkg d db = (old, a, db')"
  shows "avail_inv db'" "known db' = known db" "pkgs db' = insert a (pkgs db)"
    "(a, take 20 (dg_data d)) \<in> set (hash_items (db_packages db'))"
    "b \<in> pkgs db \<Longrightarrow> pkg_core (db_pkg db' b) = pkg_core (db_pkg db b)"
    "a \<notin> pkgs db \<Longrightarrow> pkg_core (db_pkg db' a) = pkg_core (pkg_from_tmpl a pkg d)"
    "a \<notin> pkgs db \<longleftrightarrow> apk_hash_get (db_packages db) (Some (take 20 (dg_data d))) = None"
    "db_open_complete db' = db_open_complete db" "db_installed db' = db_installed db"
    "pkg_ipkg (db_pkg db' a) = (if a \<in> pkgs db then pkg_ipkg (db_pkg db a) else None)"
    "a \<in> pkgs db \<Longrightarrow> db_packages db' = db_packages db"
proof -
  let ?get = "apk_hash_get (db_packages db) (Some (take 20 (dg_data d)))"
  have "avail_inv db' \<and> known db' = known db \<and> pkgs db' = insert a (pkgs db) \<and>
    (a, take 20 (dg_data d)) \<in> set (hash_items (db_packages db')) \<and>
    (\<forall>b \<in> pkgs db. pkg_core (db_pkg db' b) = pkg_core (db_pkg db b)) \<and>
    (a \<notin> pkgs db \<longrightarrow> pkg_core (db_pkg db' a) = pkg_core (pkg_from_tmpl a pkg d)) \<and>
    (a \<notin> pkgs db \<longleftrightarrow> ?get = None) \<and> db_open_complete db' = db_open_complete db \<and> db_installed db' = db_installed db \<and>
    pkg_ipkg (db_pkg db' a) = (if a \<in> pkgs db then pkg_ipkg (db_pkg db a) else None) \<and>
    (a \<in> pkgs db \<longrightarrow> db_packages db' = db_packages db)"
  proof (cases ?get)
    case None
    note i = insert_pkg_inv [OF inv wf len None]
    have e: "a = db_next_pkg db" "db' = snd (insert_pkg pkg d db)"
      using st None i(2) by (auto simp: place_pkg_def)
    show ?thesis using i None by (auto simp: e pkg_from_tmpl_def)
  next
    case (Some x)
    obtain c k where x: "x = (c, k)" by (cases x)
    have t: "hash_table pkg_info_hash_ops (db_packages db)" using inv by (simp add: avail_inv_def tables_ok_def)
    from pkg_table.get_Some [OF t Some] have m: "(c, take 20 (dg_data d)) \<in> set (hash_items (db_packages db))" by (auto simp: x)
    then have c: "c \<in> pkgs db" by (force simp: pkgs_def)
    have e: "a = c" "db' = upd_db_pkg c (\<lambda>p. p\<lparr>pkg_repos := pkg_repos p OR pkg_repos pkg,
        pkg_filename_ndx := (if pkg_filename_ndx p = 0 then pkg_filename_ndx pkg else pkg_filename_ndx p)\<rparr>) db"
      using st Some by (auto simp: place_pkg_def x)
    have "avail_inv db'" unfolding e by (rule upd_pkg_inv [OF inv c]) (simp add: pkg_core_def)
    then show ?thesis using c m Some by (auto simp: e pkg_core_def known_def pkgs_def insert_absorb)
  qed
  then show "avail_inv db'" "known db' = known db" "pkgs db' = insert a (pkgs db)"
    "(a, take 20 (dg_data d)) \<in> set (hash_items (db_packages db'))"
    "b \<in> pkgs db \<Longrightarrow> pkg_core (db_pkg db' b) = pkg_core (db_pkg db b)"
    "a \<notin> pkgs db \<Longrightarrow> pkg_core (db_pkg db' a) = pkg_core (pkg_from_tmpl a pkg d)"
    "a \<notin> pkgs db \<longleftrightarrow> ?get = None" "db_open_complete db' = db_open_complete db" "db_installed db' = db_installed db"
    "pkg_ipkg (db_pkg db' a) = (if a \<in> pkgs db then pkg_ipkg (db_pkg db a) else None)"
    "a \<in> pkgs db \<Longrightarrow> db_packages db' = db_packages db" by blast+
qed

lemma pkg_add_inv:
  assumes inv: "avail_inv db" and ok: "tmpl_ok db tmpl"
  obtains a db' where "apk_db_pkg_add db tmpl = (Some a, db', apk_pkgtmpl_init)" "avail_inv db'" "known db' = known db"
    "pkgs db' = insert a (pkgs db)" "(a, id_of tmpl) \<in> set (hash_items (db_packages db'))"
    "\<And>b. b \<in> pkgs db \<Longrightarrow> pkg_core (db_pkg db' b) = pkg_core (db_pkg db b)"
    "a \<notin> pkgs db \<Longrightarrow> pkg_core (db_pkg db' a) = pkg_core (pkg_from_tmpl a (tmpl_pkg tmpl) (tmpl_id tmpl))"
    "a \<notin> pkgs db \<longleftrightarrow> apk_hash_get (db_packages db) (Some (id_of tmpl)) = None"
    "a \<in> pkgs db \<Longrightarrow> (a, id_of tmpl) \<in> set (hash_items (db_packages db))"
    "db_open_complete db' = db_open_complete db"
    "idb_packages (db_installed db') =
       (if pkg_ipkg (tmpl_pkg tmpl) \<noteq> None \<and> (a \<in> pkgs db \<longrightarrow> pkg_ipkg (db_pkg db a) = None)
        then map (\<lambda>x. if x = pkg_addr (tmpl_pkg tmpl) then a else x) (idb_packages (db_installed db))
        else idb_packages (db_installed db))"
proof -
  let ?pkg0 = "tmpl_pkg tmpl" and ?d = "tmpl_id tmpl"
  define pkg where "pkg = (if apk_db_arch_compatible db (pkg_arch ?pkg0) then ?pkg0 else ?pkg0\<lparr>pkg_uninstallable := True\<rparr>)"
  have n: "APK_DIGEST_LENGTH_SHA1 = 20" by (simp add: APK_DIGEST_LENGTH_SHA1_def)
  have core: "pkg_core pkg = pkg_core ?pkg0" by (simp add: pkg_def pkg_core_def)
  have wf: "pkg_wf (known db) pkg" and len: "20 \<le> dg_len ?d"
    using ok pkg_coreD(5) [OF core] by (simp_all add: tmpl_ok_def)
  have full: "\<not> (pkg_name ?pkg0 = None \<or> pkg_version ?pkg0 = None \<or> dg_len ?d < APK_DIGEST_LENGTH_SHA1)"
    using ok n by (auto simp: tmpl_ok_def pkg_wf_def)
  obtain old a db1 where st: "place_pkg pkg ?d db = (old, a, db1)" by (cases "place_pkg pkg ?d db") auto
  note p = place_pkg_inv [OF inv wf len st]
  define db2 where "db2 = (if pkg_repos (db_pkg db1 a) \<noteq> 0 \<and> old = 0
      then fold (\<lambda>n. upd_db_name n (\<lambda>x. x\<lparr>nm_has_repository_providers := True\<rparr>))
             (pkg_nm pkg # map dep_nm (pkg_provides (db_pkg db1 a))) db1 else db1)"
  have s: "same_db db1 db2" and i2: "avail_inv db2" using flag_names_inv p(1) by (auto simp: db2_def simp del: fold.simps)
  have eq: "apk_db_pkg_add db tmpl = (Some a, move_ipkg pkg a db2, apk_pkgtmpl_init)"
    using full st unfolding apk_db_pkg_add_def Let_def place_pkg_def n pkg_def [symmetric] db2_def
    by (simp add: apk_pkgtmpl_reset_def)
  have a2: "a \<in> pkgs db2" using p(3) same_dbD(2) [OF s] by simp
  note m = move_ipkg_inv [OF i2 a2, of pkg]
  have fin: "pkg_core (pkg_from_tmpl a pkg ?d) = pkg_core (pkg_from_tmpl a ?pkg0 ?d)"
    using core by (simp add: pkg_core_def pkg_from_tmpl_def)
  have ipkg: "pkg_ipkg pkg = pkg_ipkg ?pkg0" "pkg_addr pkg = pkg_addr ?pkg0" by (simp_all add: pkg_def)
  have old: "a \<in> pkgs db \<Longrightarrow> (a, id_of tmpl) \<in> set (hash_items (db_packages db))"
    using p(4, 11) by (simp add: id_of_def)
  have "idb_packages (db_installed (move_ipkg pkg a db2)) =
      (if pkg_ipkg ?pkg0 \<noteq> None \<and> (a \<in> pkgs db \<longrightarrow> pkg_ipkg (db_pkg db a) = None)
       then map (\<lambda>x. if x = pkg_addr ?pkg0 then a else x) (idb_packages (db_installed db)) else idb_packages (db_installed db))"
    using s p(9, 10) by (auto simp: move_ipkg_def ipkg same_db_def split: option.splits)
  then show thesis
    using that [OF eq m(1)] m p(1-9) s same_dbD(1, 2) [OF s] fin old by (simp add: same_db_def id_of_def)
qed

end
