(* ===== verification/Database_Open.thy ===== *)
theory Database_Open
  imports Database_Inv
begin

text \<open>
  The pass over all names at the end of opening a database gives every name its reverse
  dependencies; the runs of database operations keep the invariant.
\<close>

section \<open>One name\<close>

text \<open>
  The state in the middle of the pass over the providers of the name \<open>m\<close>: it has been entered at the
  names \<open>D\<close> and \<open>I\<close>, which carry the marks.
\<close>

definition marked_db :: "apk_database \<Rightarrow> bytes \<Rightarrow> bytes set \<Rightarrow> bytes set \<Rightarrow> apk_database \<Rightarrow> bool" where
  "marked_db db0 m D I db \<longleftrightarrow> same_db db0 db \<and>
     (\<forall>n. nm_providers (db_name db n) = nm_providers (db_name db0 n) \<and>
          nm_rdepends (db_name db n) = nm_rdepends (db_name db0 n) @ (if n \<in> D then [m] else []) \<and>
          nm_rinstall_if (db_name db n) = nm_rinstall_if (db_name db0 n) @ (if n \<in> I then [m] else []) \<and>
          nm_state_int (db_name db n) = (if n \<in> D then if n \<in> I then 3 else 1 else if n \<in> I then 2 else 0))"

definition touch_inv ::
  "apk_database \<Rightarrow> bytes \<Rightarrow> bytes set \<Rightarrow> bytes set \<Rightarrow> apk_database \<times> bytes list \<times> nat \<Rightarrow> bool" where
  "touch_inv db0 m D I s =
     (case s of (db, touched, num) \<Rightarrow>
       marked_db db0 m D I db \<and> finite (D \<union> I) \<and> num = card (D \<union> I) \<and> set touched \<subseteq> D \<union> I \<and>
       (num \<le> 128 \<longrightarrow> set touched = D \<union> I))"

lemma touch_count:
  assumes "finite S" "num = card S" "set touched \<subseteq> S" "num \<le> 128 \<longrightarrow> set touched = S" "r \<notin> S"
  shows "num + 1 = card (insert r S)" "set (if num < 128 then touched @ [r] else touched) \<subseteq> insert r S"
    "num + 1 \<le> 128 \<Longrightarrow> set (if num < 128 then touched @ [r] else touched) = insert r S"
  using assms by auto

lemma touch_depend:
  assumes "touch_inv db0 m D I (db, touched, num)"
  shows "touch_inv db0 m (insert r D) I (touch_name 1 (\<lambda>n. n\<lparr>nm_rdepends := nm_rdepends n @ [m]\<rparr>) r
    (upd_db_name r (\<lambda>n. n\<lparr>nm_is_dependency := c n\<rparr>) db, touched, num))"
proof (cases "r \<in> D \<union> I")
  case True
  then show ?thesis
    using assms by (auto simp: touch_inv_def touch_name_def marked_db_def same_db_def Let_def insert_absorb Un_insert_left)
next
  case False
  have f: "finite (D \<union> I)" "num = card (D \<union> I)" "set touched \<subseteq> D \<union> I" "num \<le> 128 \<longrightarrow> set touched = D \<union> I"
    using assms by (simp_all add: touch_inv_def)
  note t = touch_count [OF f False]
  have "nm_state_int (db_name db r) = 0" using assms False by (simp add: touch_inv_def marked_db_def)
  then show ?thesis
    using assms False f t by (auto simp: touch_inv_def touch_name_def marked_db_def same_db_def Let_def)
qed

lemma touch_trigger:
  assumes "touch_inv db0 m D I (db, touched, num)"
  shows "touch_inv db0 m D (insert r I) (touch_name 2 (\<lambda>n. n\<lparr>nm_rinstall_if := nm_rinstall_if n @ [m]\<rparr>) r (db, touched, num))"
proof (cases "r \<in> D \<union> I")
  case True
  then show ?thesis
    using assms by (auto simp: touch_inv_def touch_name_def marked_db_def same_db_def Let_def insert_absorb Un_insert_left)
next
  case False
  have f: "finite (D \<union> I)" "num = card (D \<union> I)" "set touched \<subseteq> D \<union> I" "num \<le> 128 \<longrightarrow> set touched = D \<union> I"
    using assms by (simp_all add: touch_inv_def)
  note t = touch_count [OF f False]
  have "nm_state_int (db_name db r) = 0" using assms False by (simp add: touch_inv_def marked_db_def)
  then show ?thesis
    using assms False f t by (auto simp: touch_inv_def touch_name_def marked_db_def same_db_def Let_def)
qed

lemma touch_provider:
  assumes "touch_inv db0 m D I s"
  shows "touch_inv db0 m (D \<union> needs pkg) (I \<union> triggers_of pkg) (rdepends_provider m pkg s)"
proof -
  let ?f = "\<lambda>d (db, t). touch_name 1 (\<lambda>n. n\<lparr>nm_rdepends := nm_rdepends n @ [m]\<rparr>) (dep_nm d)
      (upd_db_name (dep_nm d) (\<lambda>n. n\<lparr>nm_is_dependency := nm_is_dependency n \<or> \<not> apk_dep_conflict d\<rparr>) db, t)"
  let ?g = "\<lambda>d. touch_name 2 (\<lambda>n. n\<lparr>nm_rinstall_if := nm_rinstall_if n @ [m]\<rparr>) (dep_nm d)"
  have f: "touch_inv db0 m D I s \<Longrightarrow> touch_inv db0 m (D \<union> dep_nm ` set ds) I (fold ?f ds s)" for ds D s
  proof (induction ds arbitrary: D s)
    case (Cons d ds)
    obtain db touched num where s: "s = (db, touched, num)" by (cases s) auto
    have "touch_inv db0 m (insert (dep_nm d) D) I (?f d s)" using touch_depend [OF Cons.prems [unfolded s]] by (simp add: s)
    from Cons.IH [OF this] show ?case by simp
  qed simp
  have g: "touch_inv db0 m D I s \<Longrightarrow> touch_inv db0 m D (I \<union> dep_nm ` set ds) (fold ?g ds s)" for ds D I s
  proof (induction ds arbitrary: I s)
    case (Cons d ds)
    obtain db touched num where s: "s = (db, touched, num)" by (cases s) auto
    have "touch_inv db0 m D (insert (dep_nm d) I) (?g d s)" using touch_trigger [OF Cons.prems [unfolded s]] by (simp add: s)
    from Cons.IH [OF this] show ?case by simp
  qed simp
  show ?thesis
    unfolding rdepends_provider_def Let_def needs_def triggers_of_def by (rule g [OF f [OF assms]])
qed

lemma touch_providers:
  "touch_inv db0 m D I s \<Longrightarrow>
     touch_inv db0 m (D \<union> (\<Union>p \<in> set ps. needs p)) (I \<union> (\<Union>p \<in> set ps. triggers_of p)) (fold (rdepends_provider m) ps s)"
proof (induction ps arbitrary: D I s)
  case (Cons p ps)
  from Cons.IH [OF touch_provider [OF Cons.prems]] show ?case by (simp add: Un_assoc)
qed simp

lemma reset_state_fold:
  "db_name (fold reset_state ns db) n = (if n \<in> set ns then (db_name db n)\<lparr>nm_state_int := 0\<rparr> else db_name db n)"
  by (induction ns arbitrary: db) (auto simp: reset_state_def)

lemma same_db_reset: "same_db db (fold reset_state ns db)"
  by (rule same_db_fold) (simp add: reset_state_def)

text \<open>The whole step for one name.\<close>

definition entered :: "apk_database \<Rightarrow> bytes \<Rightarrow> bytes set \<Rightarrow> bytes set \<Rightarrow> apk_database \<Rightarrow> bool" where
  "entered db0 m D I db \<longleftrightarrow> same_db db0 db \<and>
     (\<forall>n. nm_core (db_name db n) = (nm_providers (db_name db0 n), nm_rdepends (db_name db0 n) @ (if n \<in> D then [m] else []),
        nm_rinstall_if (db_name db0 n) @ (if n \<in> I then [m] else []), 0))"

lemma marked_reset:
  assumes "marked_db db0 m D I db" "set ns = D \<union> I"
  shows "entered db0 m D I (fold reset_state ns db)"
  using assms same_db_trans [OF _ same_db_reset [of db ns], of db0]
  by (auto simp: entered_def marked_db_def reset_state_fold nm_core_def)

lemma name_rdepends_enters:
  fixes db m
  assumes "\<And>n. nm_state_int (db_name db n) = 0"
  defines "ps \<equiv> map (db_pkg db \<circ> fst) (nm_providers (db_name db m))"
  shows "fst (apk_db_name_rdepends m db) = 0"
    "entered db m (\<Union>p \<in> set ps. needs p) (\<Union>p \<in> set ps. triggers_of p) (snd (apk_db_name_rdepends m db))"
proof -
  let ?D = "\<Union>p \<in> set ps. needs p" and ?I = "\<Union>p \<in> set ps. triggers_of p"
  have "touch_inv db m {} {} (db, [], 0)" using assms(1) by (simp add: touch_inv_def marked_db_def)
  from touch_providers [OF this, of ps] obtain db' touched num where
    f: "fold (rdepends_provider m) ps (db, [], 0) = (db', touched, num)" and t: "touch_inv db m ?D ?I (db', touched, num)"
    by (cases "fold (rdepends_provider m) ps (db, [], 0)") auto
  show "fst (apk_db_name_rdepends m db) = 0"
    unfolding apk_db_name_rdepends_def Let_def using f [unfolded ps_def] by simp
  have r: "snd (apk_db_name_rdepends m db) = (if num > 128
      then fold (\<lambda>p. fold (\<lambda>d. reset_state (dep_nm d)) (pkg_depends p @ pkg_install_if p)) ps db' else fold reset_state touched db')"
    unfolding apk_db_name_rdepends_def Let_def ps_def [symmetric] f by simp
  have all: "fold (\<lambda>p. fold (\<lambda>d. reset_state (dep_nm d)) (pkg_depends p @ pkg_install_if p)) qs =
      fold reset_state (concat (map (\<lambda>p. map dep_nm (pkg_depends p @ pkg_install_if p)) qs))" for qs
    by (induction qs) (auto simp: fold_map o_def fun_eq_iff)
  have "set (concat (map (\<lambda>p. map dep_nm (pkg_depends p @ pkg_install_if p)) ps)) = ?D \<union> ?I"
    by (auto simp: needs_def triggers_of_def)
  with t show "entered db m ?D ?I (snd (apk_db_name_rdepends m db))"
    unfolding r all by (auto simp: touch_inv_def intro!: marked_reset)
qed

section \<open>All names\<close>

text \<open>The names in front of which something is entered.\<close>

definition enters :: "apk_database \<Rightarrow> (apk_package \<Rightarrow> bytes set) \<Rightarrow> bytes \<Rightarrow> bytes \<Rightarrow> bool" where
  "enters db f m n \<longleftrightarrow> (\<exists>(a, v) \<in> set (nm_providers (db_name db m)). n \<in> f (db_pkg db a))"

lemma foreach_entered:
  assumes "\<And>n. nm_state_int (db_name db n) = 0"
  shows "same_db db (snd (foreach_items apk_db_name_rdepends ms db)) \<and>
    (\<forall>n. nm_core (db_name (snd (foreach_items apk_db_name_rdepends ms db)) n) =
      (nm_providers (db_name db n), nm_rdepends (db_name db n) @ filter (\<lambda>m. enters db needs m n) ms,
       nm_rinstall_if (db_name db n) @ filter (\<lambda>m. enters db triggers_of m n) ms, 0))"
  using assms
proof (induction ms arbitrary: db)
  case (Cons m ms)
  let ?db = "snd (apk_db_name_rdepends m db)"
  note e = name_rdepends_enters [OF Cons.prems, of m]
  have s: "same_db db ?db" and c: "nm_core (db_name ?db n) = (nm_providers (db_name db n),
      nm_rdepends (db_name db n) @ (if enters db needs m n then [m] else []),
      nm_rinstall_if (db_name db n) @ (if enters db triggers_of m n then [m] else []), 0)" for n
    using e(2) by (auto simp: entered_def enters_def split_beta)
  have z: "nm_state_int (db_name ?db n) = 0" and p: "nm_providers (db_name ?db n) = nm_providers (db_name db n)" for n
    using c [of n] by (simp_all add: nm_core_def)
  have same: "enters ?db f = enters db f" for f using s p by (simp add: enters_def fun_eq_iff same_db_def)
  have step: "snd (foreach_items apk_db_name_rdepends (m # ms) db) = snd (foreach_items apk_db_name_rdepends ms ?db)"
    using e(1) by (simp add: split_beta)
  from Cons.IH [OF z] s c show ?case unfolding step same by (auto simp: nm_core_def intro: same_db_trans)
qed (simp add: nm_core_def)

lemma complete_open_inv:
  assumes inv: "avail_inv db" and closed: "\<not> db_open_complete db"
  shows "avail_inv (complete_open db)" "known (complete_open db) = known db" "pkgs (complete_open db) = pkgs db"
    "db_pkg (complete_open db) = db_pkg db" "db_installed (complete_open db) = db_installed db"
    "db_open_complete (complete_open db)" "db_packages (complete_open db) = db_packages db"
proof -
  let ?db = "snd (foreach_items apk_db_name_rdepends (hash_items (db_names db)) db)"
  have l: "links_ok db" using inv by (simp add: avail_inv_def)
  note ld = links_okD [OF l]
  have empty: "nm_rdepends (db_name db n) = []" "nm_rinstall_if (db_name db n) = []" for n
    using ld(2, 3) closed by (auto intro!: list_emptyI)
  have eq: "complete_open db = ?db\<lparr>db_open_complete := True\<rparr>"
    by (simp add: complete_open_def apk_hash_foreach_def hash_items_def)
  note f = foreach_entered [OF ld(6), of "hash_items (db_names db)", unfolded empty append_Nil]
  have s: "same_db db ?db" using f by simp
  have core: "nm_core (db_name ?db n) = (nm_providers (db_name db n), filter (\<lambda>m. enters db needs m n) (hash_items (db_names db)),
      filter (\<lambda>m. enters db triggers_of m n) (hash_items (db_names db)), 0)" for n using f by blast
  show k: "known (complete_open db) = known db" "pkgs (complete_open db) = pkgs db" "db_pkg (complete_open db) = db_pkg db"
    "db_installed (complete_open db) = db_installed db" "db_open_complete (complete_open db)"
    "db_packages (complete_open db) = db_packages db"
    using s by (simp_all add: eq same_db_def known_def pkgs_def)
  have wf: "names_of (db_pkg db a) \<subseteq> known db" if "a \<in> pkgs db" for a
    using inv that by (auto simp: avail_inv_def store_ok_def pkg_wf_def)
  have e: "m \<in> known db \<and> enters db g m n \<longleftrightarrow> (\<exists>a \<in> pkgs db. m \<in> names_of (db_pkg db a) \<and> n \<in> g (db_pkg db a))" for g m n
    using wf by (force simp: enters_def ld(1) names_of_def)
  have "distinct (map cstr (hash_items (db_names db)))" using inv by (simp add: avail_inv_def tables_ok_def keys_distinct_def)
  then have "distinct (hash_items (db_names db))" by (simp add: distinct_map)
  then have "links_ok (complete_open db)"
    unfolding links_ok_def k using core ld(1) e by (auto simp: eq nm_core_def known_def)
  moreover have "tables_ok (complete_open db)" "store_ok (complete_open db)"
    using inv same_dbD(3, 4) [OF s] by (simp_all add: eq avail_inv_def tables_ok_def store_ok_def known_def pkgs_def)
  ultimately show "avail_inv (complete_open db)" by (simp add: avail_inv_def)
qed

section \<open>Runs\<close>

text \<open>
  The operations that build a database. Reading the list of repositories and their tags changes only the
  fields of the repositories. An entry of an index is added; an entry of the list of installed
  packages is installed as a template first, and must not be installed already.
\<close>

inductive db_step :: "apk_database \<Rightarrow> apk_database \<Rightarrow> bool" where
  get_name: "NUL \<notin> set n \<Longrightarrow> db_step db (snd (apk_db_get_name db (Some n)))"
| add_arch: "db_step db (apk_db_add_arch db arch)"
| repositories: "db_step db (db\<lparr>db_compat := c, db_allowed_repos := al, db_available_repos := av, db_local_repos := lo\<rparr>)"
| add: "tmpl_ok db tmpl \<Longrightarrow> pkg_ipkg (tmpl_pkg tmpl) = None \<Longrightarrow> db_step db (fst (snd (apk_db_pkg_add db tmpl)))"
| install: "tmpl_ok db tmpl \<Longrightarrow> pkg_ipkg (tmpl_pkg tmpl) = None \<Longrightarrow> pkg_addr (tmpl_pkg tmpl) \<notin> pkgs db \<Longrightarrow>
    (\<And>a. (a, id_of tmpl) \<in> set (hash_items (db_packages db)) \<Longrightarrow> pkg_ipkg (db_pkg db a) = None) \<Longrightarrow>
    apk_pkg_install (db_installed db) (tmpl_pkg tmpl) = (idb, pkg) \<Longrightarrow>
    db_step db (fst (snd (apk_db_pkg_add (db\<lparr>db_installed := idb\<rparr>) (tmpl\<lparr>tmpl_pkg := pkg\<rparr>))))"
| complete: "\<not> db_open_complete db \<Longrightarrow> db_step db (complete_open db)"
| sort: "db_step db (snd (apk_name_sorted_providers db n))"

definition opened :: "apk_database \<Rightarrow> bool" where
  "opened db \<longleftrightarrow> db_step\<^sup>*\<^sup>* apk_db_init db \<and> db_open_complete db"

lemma init_inv: "avail_inv apk_db_init" "installed_ok apk_db_init"
proof -
  have "known apk_db_init = {}" "pkgs apk_db_init = {}"
    by (simp_all add: known_def pkgs_def apk_db_init_def hash_items_def apk_hash_init_def)
  then show "avail_inv apk_db_init" "installed_ok apk_db_init"
    using name_table.table_init [of 20000] name_table.distinct_init [of 20000]
      pkg_table.table_init [of 10000] pkg_table.distinct_init [of 10000]
    by (simp_all add: avail_inv_def tables_ok_def store_ok_def links_ok_def installed_ok_def)
      (simp_all add: apk_db_init_def new_name_def hash_items_def apk_hash_init_def)
qed

lemma sorted_providers_inv:
  assumes "avail_inv db"
  shows "avail_inv (snd (apk_name_sorted_providers db n))" "installed_ok (snd (apk_name_sorted_providers db n)) = installed_ok db"
proof -
  let ?db = "snd (apk_name_sorted_providers db n)"
  have s: "same_db db ?db" by (simp add: apk_name_sorted_providers_def Let_def)
  have "set (nm_providers (db_name ?db m)) = set (nm_providers (db_name db m))" "nm_rdepends (db_name ?db m) = nm_rdepends (db_name db m)"
    "nm_rinstall_if (db_name ?db m) = nm_rinstall_if (db_name db m)" "nm_state_int (db_name ?db m) = nm_state_int (db_name db m)" for m
    by (simp_all add: apk_name_sorted_providers_def Let_def)
  then have "links_ok ?db" using assms s by (simp add: avail_inv_def links_ok_def pkgs_def same_db_def)
  then show "avail_inv ?db" using assms same_dbD(3, 4) [OF s] by (simp add: avail_inv_def)
  show "installed_ok ?db = installed_ok db" using s by (simp add: installed_ok_def pkgs_def same_db_def)
qed

lemma add_arch_inv: "avail_inv (apk_db_add_arch db arch) = avail_inv db" "installed_ok (apk_db_add_arch db arch) = installed_ok db"
  by (simp_all add: apk_db_add_arch_def Let_def avail_inv_def tables_ok_def store_ok_def links_ok_def pkgs_def known_def installed_ok_def)

lemma repositories_inv:
  "avail_inv (db\<lparr>db_compat := c, db_allowed_repos := al, db_available_repos := av, db_local_repos := lo\<rparr>) = avail_inv db"
  "installed_ok (db\<lparr>db_compat := c, db_allowed_repos := al, db_available_repos := av, db_local_repos := lo\<rparr>) = installed_ok db"
  by (simp_all add: avail_inv_def tables_ok_def store_ok_def links_ok_def pkgs_def known_def installed_ok_def)

lemma db_step_inv: "db_step db db' \<Longrightarrow> avail_inv db \<Longrightarrow> installed_ok db \<Longrightarrow> avail_inv db' \<and> installed_ok db'"
proof (induction rule: db_step.induct)
  case (get_name n db)
  have "db_installed (snd (apk_db_get_name db (Some n))) = db_installed db"
    by (simp add: apk_db_get_name_def Let_def split: option.split)
  then show ?case using get_name get_name_inv [OF get_name.prems(1) get_name.hyps] by (simp add: installed_ok_def)
next
  case (add db tmpl)
  obtain a db' where "apk_db_pkg_add db tmpl = (Some a, db', apk_pkgtmpl_init)" "avail_inv db'" "pkgs db' = insert a (pkgs db)"
    "idb_packages (db_installed db') = idb_packages (db_installed db)"
    using pkg_add_inv [OF add.prems(1) add.hyps(1)] add.hyps(2) by metis
  with add.prems(2) show ?case by (auto simp: installed_ok_def)
next
  case (install db tmpl idb pkg)
  let ?db = "db\<lparr>db_installed := idb\<rparr>" and ?tmpl = "tmpl\<lparr>tmpl_pkg := pkg\<rparr>"
  have i: "pkg = (tmpl_pkg tmpl)\<lparr>pkg_ipkg := Some new_installed_package\<rparr>"
      "idb_packages idb = idb_packages (db_installed db) @ [pkg_addr (tmpl_pkg tmpl)]"
    using install.hyps(1, 2, 5) by (auto simp: apk_pkg_install_def tmpl_ok_def pkg_wf_def)
  have "pkg_wf N pkg = pkg_wf N (tmpl_pkg tmpl)" for N by (rule pkg_coreD) (simp add: i pkg_core_def)
  then have t: "tmpl_ok ?db ?tmpl" using install.hyps(1) by (simp add: tmpl_ok_def known_def)
  have v: "avail_inv ?db" using install.prems(1) by (simp only: avail_inv_fields)
  obtain a db' where r: "apk_db_pkg_add ?db ?tmpl = (Some a, db', apk_pkgtmpl_init)" "avail_inv db'"
      "pkgs db' = insert a (pkgs ?db)" "(a, id_of ?tmpl) \<in> set (hash_items (db_packages db'))"
      "a \<in> pkgs ?db \<Longrightarrow> (a, id_of ?tmpl) \<in> set (hash_items (db_packages ?db))"
      "idb_packages (db_installed db') = (if pkg_ipkg (tmpl_pkg ?tmpl) \<noteq> None \<and> (a \<in> pkgs ?db \<longrightarrow> pkg_ipkg (db_pkg ?db a) = None)
        then map (\<lambda>x. if x = pkg_addr (tmpl_pkg ?tmpl) then a else x) (idb_packages (db_installed ?db))
        else idb_packages (db_installed ?db))"
    by (rule pkg_add_inv [OF v t], rule that)
  have p: "pkgs ?db = pkgs db" by (simp add: pkgs_def)
  have "pkg_ipkg (db_pkg db a) = None" if "a \<in> pkgs db"
    using r(5) install.hyps(4) that by (simp add: p id_of_def)
  then have "idb_packages (db_installed db') = map (\<lambda>x. if x = pkg_addr (tmpl_pkg tmpl) then a else x)
      (idb_packages (db_installed db) @ [pkg_addr (tmpl_pkg tmpl)])" using r(6) by (simp add: i p)
  then show ?case using r(1-3) install.prems(2) by (auto simp: installed_ok_def p)
next
  case (complete db)
  then show ?case using complete_open_inv [of db] by (simp add: installed_ok_def)
qed (simp_all add: add_arch_inv repositories_inv sorted_providers_inv)

lemma db_run_inv: "db_step\<^sup>*\<^sup>* apk_db_init db \<Longrightarrow> avail_inv db \<and> installed_ok db"
  by (induction rule: rtranclp_induct) (auto simp: init_inv dest: db_step_inv)

lemma openedD:
  assumes "opened db"
  shows "avail_inv db" "installed_ok db" "db_open_complete db"
  using assms db_run_inv unfolding opened_def by blast+

lemma opened_rdepends:
  assumes "avail_inv db" "db_open_complete db"
  shows "set (nm_rdepends (db_name db n)) =
    {m. \<exists>(ns, ds) \<in> (\<lambda>a. (names_of (db_pkg db a), needs (db_pkg db a))) ` pkgs db. m \<in> ns \<and> n \<in> ds}"
proof -
  have "links_ok db" using assms(1) by (simp add: avail_inv_def)
  from links_okD(2) [OF this] assms(2) show ?thesis by auto
qed

text \<open>What adding a package does to the names and dependencies in the database.\<close>

lemma add_links:
  assumes "avail_inv db" "tmpl_ok db tmpl"
  defines "db' \<equiv> fst (snd (apk_db_pkg_add db tmpl))"
  shows "avail_inv db'" "db_open_complete db' = db_open_complete db"
    "(\<lambda>a. (names_of (db_pkg db' a), needs (db_pkg db' a))) ` pkgs db' =
     (\<lambda>a. (names_of (db_pkg db a), needs (db_pkg db a))) ` pkgs db \<union>
     (if apk_hash_get (db_packages db) (Some (id_of tmpl)) = None then {(names_of (tmpl_pkg tmpl), needs (tmpl_pkg tmpl))} else {})"
proof -
  obtain a d where d: "apk_db_pkg_add db tmpl = (Some a, d, apk_pkgtmpl_init)" "avail_inv d"
      "pkgs d = insert a (pkgs db)" "\<And>b. b \<in> pkgs db \<Longrightarrow> pkg_core (db_pkg d b) = pkg_core (db_pkg db b)"
      "a \<notin> pkgs db \<Longrightarrow> pkg_core (db_pkg d a) = pkg_core (pkg_from_tmpl a (tmpl_pkg tmpl) (tmpl_id tmpl))"
      "a \<notin> pkgs db \<longleftrightarrow> apk_hash_get (db_packages db) (Some (id_of tmpl)) = None" "db_open_complete d = db_open_complete db"
    by (rule pkg_add_inv [OF assms(1, 2)], rule that)
  then have db': "db' = d" by (simp add: db'_def)
  show "avail_inv db'" "db_open_complete db' = db_open_complete db" using d(2, 7) by (simp_all add: db')
  let ?l = "\<lambda>db a. (names_of (db_pkg db a), needs (db_pkg db a))"
  have old: "?l d b = ?l db b" if "b \<in> pkgs db" for b using pkg_coreD(2, 3) [OF d(4) [OF that]] by simp
  have new: "?l d a = (names_of (tmpl_pkg tmpl), needs (tmpl_pkg tmpl))" if "a \<notin> pkgs db"
    using pkg_coreD(2, 3) [OF d(5) [OF that]] by (simp add: from_tmpl_core)
  have "?l d ` pkgs db = ?l db ` pkgs db" using old by (intro image_cong) simp_all
  then show "?l db' ` pkgs db' = ?l db ` pkgs db \<union>
     (if apk_hash_get (db_packages db) (Some (id_of tmpl)) = None then {(names_of (tmpl_pkg tmpl), needs (tmpl_pkg tmpl))} else {})"
    using new d(6) by (auto simp: db' d(3) insert_absorb)
qed

section \<open>Properties\<close>

text \<open>
  C10. In every database that the operations build from an empty one, a name lists exactly the packages
  that give it, with the version they give; its reverse dependencies are empty while the database is
  being read, and afterwards they are exactly the names of the packages that depend on it, each once;
  the installed packages are packages of the database, and looking a package up by the first 20 bytes
  of its digest finds it.
\<close>

theorem database_links:
  assumes "db_step\<^sup>*\<^sup>* apk_db_init db"
  shows "(\<forall>n a v. (a, v) \<in> set (nm_providers (db_name db n)) \<longleftrightarrow> a \<in> pkgs db \<and> (n, v) \<in> set (pkg_gives (db_pkg db a))) \<and>
    (\<forall>n. distinct (nm_rdepends (db_name db n)) \<and> set (nm_rdepends (db_name db n)) = (if db_open_complete db
      then {m. \<exists>b \<in> pkgs db. m \<in> fst ` set (pkg_gives (db_pkg db b)) \<and> n \<in> dep_nm ` set (pkg_depends (db_pkg db b))} else {})) \<and>
    set (idb_packages (db_installed db)) \<subseteq> pkgs db \<and>
    (\<forall>a \<in> pkgs db. map_option fst (apk_hash_get (db_packages db) (Some (take 20 (pkg_digest (db_pkg db a))))) = Some a)"
proof (intro conjI allI ballI)
  from db_run_inv [OF assms] have i: "avail_inv db" "installed_ok db" by simp_all
  then have l: "links_ok db" and s: "store_ok db" and t: "tables_ok db" by (simp_all add: avail_inv_def)
  show "(a, v) \<in> set (nm_providers (db_name db n)) \<longleftrightarrow> a \<in> pkgs db \<and> (n, v) \<in> set (pkg_gives (db_pkg db a))" for n a v
    by (rule links_okD(1) [OF l])
  show "set (nm_rdepends (db_name db n)) = (if db_open_complete db
      then {m. \<exists>b \<in> pkgs db. m \<in> fst ` set (pkg_gives (db_pkg db b)) \<and> n \<in> dep_nm ` set (pkg_depends (db_pkg db b))} else {})" for n
    by (rule set_eqI) (simp add: links_okD(2) [OF l] names_of_def needs_def)
  show "distinct (nm_rdepends (db_name db n))" for n by (rule links_okD(4) [OF l])
  show "set (idb_packages (db_installed db)) \<subseteq> pkgs db" using i(2) by (simp add: installed_ok_def)
  fix a
  assume "a \<in> pkgs db"
  then obtain k where k: "(a, k) \<in> set (hash_items (db_packages db))" by (auto simp: pkgs_def)
  with s have "k = take 20 (pkg_digest (db_pkg db a))" by (auto simp: store_ok_def)
  with k t show "map_option fst (apk_hash_get (db_packages db) (Some (take 20 (pkg_digest (db_pkg db a))))) = Some a"
    using pkg_table.get_unique [of "db_packages db" "(a, k)" "Some k"] by (simp add: tables_ok_def)
qed

text \<open>
  C11. A package that is added to an open database enters its names at the names it depends on one by
  one, a package that is added before is found by the pass over all names: the reverse dependencies
  are the same.
\<close>

theorem rdepends_incremental_is_batch:
  assumes "avail_inv db" "tmpl_ok db tmpl" "\<not> db_open_complete db"
  shows "set (nm_rdepends (db_name (fst (snd (apk_db_pkg_add (complete_open db) tmpl))) n)) =
    set (nm_rdepends (db_name (complete_open (fst (snd (apk_db_pkg_add db tmpl)))) n))"
proof -
  note c = complete_open_inv [OF assms(1, 3)] and b = add_links [OF assms(1, 2)]
  have t: "tmpl_ok (complete_open db) tmpl" using assms(2) c(2) by (simp add: tmpl_ok_def)
  note i = add_links [OF c(1) t]
  have "\<not> db_open_complete (fst (snd (apk_db_pkg_add db tmpl)))" using b(2) assms(3) by simp
  note e = complete_open_inv [OF b(1) this]
  show ?thesis
    using i(2) c(6) e(6) by (simp add: opened_rdepends i(1, 3) e(1, 3, 4) b(3) c(3, 4) c(7))
qed

end
