(* ===== verification/Database_Solver.thy ===== *)
theory Database_Solver
  imports Database_Open Solver_Loop
begin

text \<open>
  The database as the solver sees it. What the theorems on the solver assume of a database holds for
  every database that the operations of \<^verbatim>\<open>database.c\<close> build, except for the versions, which may be empty:
  this has to be assumed of the indexes. Then the solver ends and its solutions are sound.
\<close>

section \<open>The view of the solver\<close>

definition solver_view :: "apk_database \<Rightarrow> u32 \<Rightarrow> bool \<Rightarrow> bool \<Rightarrow> solver_db" where
  "solver_view db layers self_upgrade force =
     \<lparr>sd_pkg = db_pkg db, sd_providers = (\<lambda>n. nm_providers (db_name db n)),
      sd_rdepends = (\<lambda>n. nm_rdepends (db_name db n)), sd_rinstall_if = (\<lambda>n. nm_rinstall_if (db_name db n)),
      sd_installed = idb_packages (db_installed db), sd_allowed_repos = db_allowed_repos db,
      sd_available_repos = db_available_repos db, sd_active_layers = layers,
      sd_performing_self_upgrade = self_upgrade, sd_force_broken_world = force\<rparr>"

lemma view_simps [simp]:
  "sd_pkg (solver_view db l u f) = db_pkg db" "sd_providers (solver_view db l u f) n = nm_providers (db_name db n)"
  "sd_rdepends (solver_view db l u f) n = nm_rdepends (db_name db n)"
  "sd_rinstall_if (solver_view db l u f) n = nm_rinstall_if (db_name db n)"
  "sd_installed (solver_view db l u f) = idb_packages (db_installed db)"
  "sd_force_broken_world (solver_view db l u f) = f"
  "gives (solver_view db l u f) a = pkg_gives (db_pkg db a)" "pname (solver_view db l u f) a = pkg_nm (db_pkg db a)"
  by (simp_all add: solver_view_def gives_def pkg_gives_def pname_def dname_def)

lemma store_addr: "store_ok db \<Longrightarrow> pkg_addr (db_pkg db a) = a"
  by (cases "a \<in> pkgs db") (auto simp: store_ok_def)

text \<open>
  The solver takes a package with the empty version for one that provides its name without a version, so it
  relies on versions that are not empty. An index with an empty version is not refused when it is read.
\<close>

definition versions_given :: "apk_database \<Rightarrow> bool" where
  "versions_given db \<longleftrightarrow> (\<forall>a \<in> pkgs db. pkg_version (db_pkg db a) \<noteq> Some [])"

lemma view_ok:
  assumes "avail_inv db"
  shows "db_ok (solver_view db l u f) \<longleftrightarrow> versions_given db"
proof -
  have l: "links_ok db" and s: "store_ok db" using assms by (simp_all add: avail_inv_def)
  have v: "pkg_version (db_pkg db a) \<noteq> None" if "a \<in> pkgs db" for a
    using s that by (auto simp: store_ok_def pkg_wf_def)
  have own: "(a, the (pkg_version (db_pkg db a))) \<in> set (nm_providers (db_name db (pkg_nm (db_pkg db a))))" if "a \<in> pkgs db" for a
    using links_okD(1) [OF l] that by (simp add: pkg_gives_def)
  have "versions_given db" if ok: "db_ok (solver_view db l u f)"
    unfolding versions_given_def
  proof
    fix a assume "a \<in> pkgs db"
    from own [OF this] show "pkg_version (db_pkg db a) \<noteq> Some []" using ok unfolding db_ok_def by fastforce
  qed
  then show ?thesis using v links_okD(1) [OF l] store_addr [OF s] by (auto simp: db_ok_def versions_given_def)
qed

lemma unknown_package_empty: "store_ok db \<Longrightarrow> a \<notin> pkgs db \<Longrightarrow> pkg_depends (db_pkg db a) = [] \<and> pkg_provides (db_pkg db a) = [] \<and> pkg_install_if (db_pkg db a) = []"
  by (simp add: store_ok_def null_package_def)

lemma view_closed:
  assumes "avail_inv db" "installed_ok db"
  shows "db_closed (solver_view db l u f) (known db) (pkgs db)"
proof -
  have l: "links_ok db" and s: "store_ok db" using assms by (simp_all add: avail_inv_def)
  have wf: "names_of (db_pkg db a) \<union> needs (db_pkg db a) \<union> triggers_of (db_pkg db a) \<subseteq> known db" if "a \<in> pkgs db" for a
    using s that by (auto simp: store_ok_def pkg_wf_def)
  have names: "names_of p = insert (pkg_nm p) (dname ` set (pkg_provides p))" "needs p = dname ` set (pkg_depends p)"
    "triggers_of p = dname ` set (pkg_install_if p)" for p
    by (simp_all add: names_of_def pkg_gives_def needs_def triggers_of_def dname_def image_image)
  have deps: "dname ` set (pkg_depends (db_pkg db a) @ pkg_provides (db_pkg db a) @ pkg_install_if (db_pkg db a)) \<subseteq> known db" for a
    using wf [of a] unknown_package_empty [OF s, of a] by (cases "a \<in> pkgs db") (auto simp: names)
  have "finite (known db)" "finite (pkgs db)" by (simp_all add: known_def pkgs_def)
  moreover have "fst ` set (nm_providers (db_name db n)) \<subseteq> pkgs db" for n using links_okD(1) [OF l] by auto
  moreover have "set (nm_rdepends (db_name db n)) \<subseteq> known db" "set (nm_rinstall_if (db_name db n)) \<subseteq> known db" for n
    using links_okD(2, 3) [OF l] wf by blast+
  moreover have "pkg_nm (db_pkg db a) \<in> known db" if "a \<in> pkgs db" for a using wf [OF that] by (simp add: names)
  ultimately show ?thesis
    using assms(2) deps unfolding db_closed_def installed_ok_def by simp
qed

section \<open>Solutions\<close>



section \<open>Properties\<close>

text \<open>
  C12. An open database fits the solver exactly when none of its packages has an empty version, whatever
  indexes and installed packages were read into it: the providers are consistent with what the packages
  give, and the names and packages that can be reached are finite.
\<close>

theorem opened_database_fits_solver:
  assumes "opened db"
  shows "(db_ok (solver_view db layers self_upgrade force) \<longleftrightarrow> versions_given db) \<and>
    db_closed (solver_view db layers self_upgrade force) (known db) (pkgs db)"
  using openedD [OF assms] by (simp add: view_ok view_closed)


end
