(* ===== verification/Database_Example.thy ===== *)
theory Database_Example
  imports Database_Solver Solver_Example
begin

text \<open>
  A small database that the operations build: two names are looked up, the package \<open>a\<close> that depends on
  \<open>b\<close> is added, and the database is opened.
\<close>

section \<open>The run\<close>

definition ztmpl :: apk_package_tmpl where
  "ztmpl = \<lparr>tmpl_pkg = null_package\<lparr>pkg_name := Some ''a'', pkg_version := Some ''1'', pkg_depends := [dep_b]\<rparr>,
     tmpl_id = \<lparr>dg_alg = APK_DIGEST_SHA1, dg_len = 20, dg_data = replicate 20 CHR ''x''\<rparr>\<rparr>"

definition zinit :: apk_database where
  "zinit = apk_db_init"

definition znames :: apk_database where
  "znames = snd (apk_db_get_name (snd (apk_db_get_name zinit (Some ''a''))) (Some ''b''))"

definition zadded :: apk_database where
  "zadded = fst (snd (apk_db_pkg_add znames ztmpl))"

definition zdb :: apk_database where
  "zdb = complete_open zadded"

lemma znames_inv:
  "avail_inv znames" "known znames = {''a'', ''b''}" "pkgs znames = {}" "\<not> db_open_complete znames"
proof -
  have i: "avail_inv zinit" by (simp add: zinit_def init_inv)
  have e: "known zinit = {}" "pkgs zinit = {}" "\<not> db_open_complete zinit"
    by (simp_all add: zinit_def apk_db_init_def known_def pkgs_def hash_items_def apk_hash_init_def)
  have n: "NUL \<notin> set ''a''" "NUL \<notin> set ''b''" by simp_all
  note g = get_name_inv [OF i n(1)]
  note h = get_name_inv [OF g(1) n(2)]
  show "avail_inv znames" "known znames = {''a'', ''b''}" "pkgs znames = {}"
    using h g e by (auto simp: znames_def)
  show "\<not> db_open_complete znames"
    using e(3) by (simp add: znames_def apk_db_get_name_def Let_def split: option.split)
qed

lemma ztmpl_ok: "tmpl_ok znames ztmpl"
  by (simp add: tmpl_ok_def ztmpl_def pkg_wf_def znames_inv names_of_def needs_def triggers_of_def pkg_gives_def
      null_package_def dep_b_def)

text \<open>The fields of the one package.\<close>

lemma zadded_inv:
  obtains a where "avail_inv zadded" "known zadded = {''a'', ''b''}" "pkgs zadded = {a}" "\<not> db_open_complete zadded"
    "pkg_depends (db_pkg zadded a) = [dep_b]" "pkg_gives (db_pkg zadded a) = [(''a'', ''1'')]"
    "pkg_install_if (db_pkg zadded a) = []"
proof -
  obtain a d where d: "apk_db_pkg_add znames ztmpl = (Some a, d, apk_pkgtmpl_init)" "avail_inv d" "known d = known znames"
      "pkgs d = insert a (pkgs znames)"
      "a \<notin> pkgs znames \<Longrightarrow> pkg_core (db_pkg d a) = pkg_core (pkg_from_tmpl a (tmpl_pkg ztmpl) (tmpl_id ztmpl))"
      "db_open_complete d = db_open_complete znames"
    by (rule pkg_add_inv [OF znames_inv(1) ztmpl_ok], rule that)
  have y: "zadded = d" using d(1) by (simp add: zadded_def)
  have "pkg_core (db_pkg d a) = pkg_core (pkg_from_tmpl a (tmpl_pkg ztmpl) (tmpl_id ztmpl))" using d(5) znames_inv(3) by simp
  then have "pkg_name (db_pkg d a) = Some ''a''" "pkg_version (db_pkg d a) = Some ''1''" "pkg_depends (db_pkg d a) = [dep_b]"
      "pkg_provides (db_pkg d a) = []" "pkg_install_if (db_pkg d a) = []"
    by (simp_all add: pkg_core_def pkg_from_tmpl_def ztmpl_def null_package_def)
  then show thesis using that [of a] d znames_inv by (simp add: y pkg_gives_def)
qed

lemma zdb_inv:
  obtains a where "avail_inv zdb" "known zdb = {''a'', ''b''}" "pkgs zdb = {a}" "db_open_complete zdb"
    "pkg_depends (db_pkg zdb a) = [dep_b]" "pkg_gives (db_pkg zdb a) = [(''a'', ''1'')]" "pkg_install_if (db_pkg zdb a) = []"
  using zadded_inv complete_open_inv [of zadded] unfolding zdb_def by metis

lemma zdb_run: "db_step\<^sup>*\<^sup>* apk_db_init zdb"
proof -
  let ?d = "snd (apk_db_get_name zinit (Some ''a''))"
  have "db_step zinit ?d" "db_step ?d znames" unfolding znames_def by (rule db_step.get_name, simp)+
  moreover have "db_step znames zadded"
    unfolding zadded_def by (rule db_step.add [OF ztmpl_ok]) (simp add: ztmpl_def null_package_def)
  moreover have "db_step zadded zdb"
    unfolding zdb_def by (rule zadded_inv) (rule db_step.complete)
  ultimately show ?thesis unfolding zinit_def by (meson rtranclp.rtrancl_refl rtranclp.rtrancl_into_rtrancl)
qed

lemma zdb_opened: "opened zdb"
  using zdb_run zdb_inv unfolding opened_def by metis

section \<open>Witnesses\<close>

lemma database_links_witness:
  "db_step\<^sup>*\<^sup>* apk_db_init zdb \<and> set (nm_rdepends (db_name zdb ''b'')) = {''a''}"
proof -
  obtain a where a: "pkgs zdb = {a}" "db_open_complete zdb" "pkg_depends (db_pkg zdb a) = [dep_b]" "pkg_gives (db_pkg zdb a) = [(''a'', ''1'')]"
    by (rule zdb_inv) (rule that)
  have "set (nm_rdepends (db_name zdb ''b'')) =
      {m. \<exists>b \<in> pkgs zdb. m \<in> fst ` set (pkg_gives (db_pkg zdb b)) \<and> ''b'' \<in> dep_nm ` set (pkg_depends (db_pkg zdb b))}"
    using database_links [OF zdb_run] a(2) by simp
  then show ?thesis using zdb_run by (simp add: a dep_b_def)
qed

lemma rdepends_incremental_is_batch_witness:
  "avail_inv znames \<and> tmpl_ok znames ztmpl \<and> \<not> db_open_complete znames \<and>
   set (nm_rdepends (db_name (fst (snd (apk_db_pkg_add (complete_open znames) ztmpl))) ''b'')) = {''a''}"
proof -
  obtain a where a: "avail_inv zdb" "pkgs zdb = {a}" "db_open_complete zdb" "pkg_depends (db_pkg zdb a) = [dep_b]"
      "pkg_gives (db_pkg zdb a) = [(''a'', ''1'')]"
    by (rule zdb_inv) (rule that)
  have "set (nm_rdepends (db_name zdb ''b'')) = {''a''}"
    using opened_rdepends [OF a(1, 3)] by (auto simp: a names_of_def needs_def dep_b_def)
  then show ?thesis
    using rdepends_incremental_is_batch [OF znames_inv(1) ztmpl_ok znames_inv(4), of "''b''"] znames_inv ztmpl_ok
    by (simp add: zdb_def zadded_def)
qed

lemma zdb_versions: "versions_given zdb"
proof -
  obtain a where a: "pkgs zdb = {a}" "pkg_gives (db_pkg zdb a) = [(''a'', ''1'')]" by (rule zdb_inv) (rule that)
  then show ?thesis by (auto simp: versions_given_def pkg_gives_def)
qed

lemma opened_database_fits_solver_witness:
  "opened zdb \<and> db_ok (solver_view zdb 1 False False) \<and> db_closed (solver_view zdb 1 False False) (known zdb) (pkgs zdb)"
  using zdb_opened zdb_versions opened_database_fits_solver [OF zdb_opened, of 1 False False] by simp


end
