(* ===== verification/Fdb.thy ===== *)
theory Fdb
  imports Database_Open Istream Array
begin

text \<open>
  Reading and writing package indexes and the list of installed packages with their files
  (\<^verbatim>\<open>apk_db_fdb_read\<close>, \<^verbatim>\<open>apk_db_fdb_write\<close> in \<^verbatim>\<open>database.c\<close>). The text has one line per field, and an
  empty line ends a package. The template of the package that is being read is at an address of its own;
  error messages and output errors are left out.
\<close>

section \<open>Writing\<close>

definition fdb_bufsize :: nat where "fdb_bufsize = 1024 + PATH_MAX"

abbreviation NL :: char where "NL \<equiv> CHR 0x0A"

definition apk_blob_push_db_acl :: "wblob \<Rightarrow> char \<Rightarrow> apk_db_acl \<Rightarrow> wblob" where
  "apk_blob_push_db_acl b field acl =
     (let b = apk_blob_push_blob b (Some [field, CHR '':'']);
          b = apk_blob_push_uint b (ucast (acl_uid acl)) 10;
          b = apk_blob_push_blob b (Some '':'');
          b = apk_blob_push_uint b (ucast (acl_gid acl)) 10;
          b = apk_blob_push_blob b (Some '':'');
          b = apk_blob_push_uint b (ucast (acl_mode acl)) 8;
          b = (if acl_xattr_hash acl \<noteq> []
               then apk_blob_push_hash (apk_blob_push_blob b (Some '':'')) (Some (acl_xattr_hash acl)) else b)
      in apk_blob_push_blob b (Some [NL]))"

fun write_blobs_loop :: "bytes \<Rightarrow> bytes list \<Rightarrow> bytes" where
  "write_blobs_loop separator [] = [NL]"
| "write_blobs_loop separator (b # bs) = separator @ b @ write_blobs_loop '' '' bs"

definition write_blobs :: "bytes \<Rightarrow> bytes list \<Rightarrow> bytes" where
  "write_blobs field blobs = (if blobs = [] then [] else write_blobs_loop field blobs)"

definition push_text_line :: "wblob \<Rightarrow> bytes \<Rightarrow> bytes \<Rightarrow> wblob" where
  "push_text_line b field value =
     apk_blob_push_blob (apk_blob_push_blob (apk_blob_push_blob b (Some field)) (Some value)) (Some [NL])"

text \<open>The fields of the installed package, which stay in the buffer until the first directory is written.\<close>

definition ipkg_flags :: "apk_installed_package \<Rightarrow> bytes" where
  "ipkg_flags ipkg =
     (if ipkg_broken_files ipkg then ''f'' else []) @ (if ipkg_broken_script ipkg then ''s'' else []) @
     (if ipkg_broken_xattr ipkg then ''x'' else []) @ (if ipkg_sha256_160 ipkg then ''S'' else [])"

definition ipkg_fields :: "repo_tags \<Rightarrow> apk_installed_package \<Rightarrow> wblob outcome" where
  "ipkg_fields tags ipkg =
     (let b = APK_BLOB_BUF fdb_bufsize in
      case (if ipkg_replaces ipkg = [] then Ret b
            else apk_blob_push_deps (apk_blob_push_blob b (Some ''r:'')) (Some tags) (Some (ipkg_replaces ipkg))) of
        Fault \<Rightarrow> Fault
      | Ret b \<Rightarrow>
          let b = (if ipkg_replaces ipkg = [] then b else apk_blob_push_blob b (Some [NL]));
              b = (if ipkg_replaces_priority ipkg = 0 then b
                   else apk_blob_push_blob (apk_blob_push_uint (apk_blob_push_blob b (Some ''q:''))
                          (word_of_nat (ipkg_replaces_priority ipkg)) 10) (Some [NL]))
          in if ipkg_repository_tag ipkg \<noteq> 0 \<and> ipkg_repository_tag ipkg \<ge> length (repo_tag tags) then Fault
             else
               let b = (if ipkg_repository_tag ipkg = 0 then b
                        else push_text_line b ''s:'' (blob_bytes (rt_plain_name (repo_tag tags ! ipkg_repository_tag ipkg))))
               in Ret (if ipkg_flags ipkg = [] then b else push_text_line b ''f:'' (ipkg_flags ipkg)))"

definition push_file :: "wblob \<Rightarrow> apk_db_file \<Rightarrow> wblob" where
  "push_file b file =
     (let b = push_text_line b ''R:'' (fl_name file);
          b = (if fl_acl file \<noteq> apk_default_acl_file then apk_blob_push_db_acl b CHR ''a'' (fl_acl file) else b)
      in if fl_digest_alg file \<noteq> APK_DIGEST_NONE
         then apk_blob_push_blob (apk_blob_push_hash (apk_blob_push_blob b (Some ''Z:'')) (apk_dbf_digest_blob file)) (Some [NL])
         else b)"

fun write_files :: "apk_db_file list \<Rightarrow> apk_error + bytes" where
  "write_files [] = Inr []"
| "write_files (f # fs) =
     (case apk_blob_pushed fdb_bufsize (push_file (APK_BLOB_BUF fdb_bufsize) f) of
        None \<Rightarrow> Inl ENOBUFS
      | Some t \<Rightarrow> (case write_files fs of Inl e \<Rightarrow> Inl e | Inr rest \<Rightarrow> Inr (t @ rest)))"

definition push_diri :: "wblob \<Rightarrow> file_db \<Rightarrow> nat \<Rightarrow> wblob" where
  "push_diri b fs d =
     (let b = push_text_line b ''F:'' (diri_name fs d)
      in if di_acl (fs_diri fs d) \<noteq> apk_default_acl_dir then apk_blob_push_db_acl b CHR ''M'' (di_acl (fs_diri fs d)) else b)"

fun write_diris :: "file_db \<Rightarrow> wblob \<Rightarrow> nat list \<Rightarrow> apk_error + bytes" where
  "write_diris fs b [] = Inr []"
| "write_diris fs b (d # ds) =
     (case apk_blob_pushed fdb_bufsize (push_diri b fs d) of
        None \<Rightarrow> Inl ENOBUFS
      | Some t \<Rightarrow>
         (case write_files (map (fs_file fs) (di_files (fs_diri fs d))) of
            Inl e \<Rightarrow> Inl e
          | Inr files \<Rightarrow>
             (case write_diris fs (APK_BLOB_BUF fdb_bufsize) ds of
                Inl e \<Rightarrow> Inl e
              | Inr rest \<Rightarrow> Inr (t @ files @ rest))))"

definition apk_db_fdb_write :: "file_db \<Rightarrow> repo_tags \<Rightarrow> apk_package \<Rightarrow> apk_installed_package \<Rightarrow> (apk_error + bytes) outcome" where
  "apk_db_fdb_write fs tags pkg ipkg =
     (case apk_pkg_write_index_header pkg of
        Fault \<Rightarrow> Fault
      | Ret (Inl e) \<Rightarrow> Ret (Inl e)
      | Ret (Inr header) \<Rightarrow>
         (case ipkg_fields tags ipkg of
            Fault \<Rightarrow> Fault
          | Ret b \<Rightarrow>
             (case write_diris fs b (ipkg_diris ipkg) of
                Inl e \<Rightarrow> Ret (Inl e)
              | Inr t \<Rightarrow> Ret (Inr (header @ write_blobs ''g:'' (pkg_tags pkg) @ t @ [NL])))))"

section \<open>Reading\<close>

definition APK_REPO_DB_INSTALLED :: int where "APK_REPO_DB_INSTALLED = - 1"
definition APK_REPO_CACHE_INSTALLED :: int where "APK_REPO_CACHE_INSTALLED = - 2"
definition APK_REPO_NONE :: int where "APK_REPO_NONE = - 3"

record fdb_env =
  fe_fs :: fs_env
  fe_repo :: int
  fe_layer :: nat
  fe_force_old_apk :: bool

record fdb_reader =
  rd_db :: apk_database
  rd_tmpl :: apk_package_tmpl
  rd_ipkg :: bool
  rd_diri :: "nat option"
  rd_file :: "nat option"

datatype fdb_status = Fdb_next fdb_reader | Fdb_error fdb_reader

definition upd_files :: "(file_db \<Rightarrow> file_db) \<Rightarrow> fdb_reader \<Rightarrow> fdb_reader" where
  "upd_files f r = r\<lparr>rd_db := (rd_db r)\<lparr>db_files := f (db_files (rd_db r))\<rparr>\<rparr>"

definition upd_tmpl_pkg :: "(apk_package \<Rightarrow> apk_package) \<Rightarrow> fdb_reader \<Rightarrow> fdb_reader" where
  "upd_tmpl_pkg f r = r\<lparr>rd_tmpl := (rd_tmpl r)\<lparr>tmpl_pkg := f (tmpl_pkg (rd_tmpl r))\<rparr>\<rparr>"

definition upd_ipkg :: "(apk_installed_package \<Rightarrow> apk_installed_package) \<Rightarrow> fdb_reader \<Rightarrow> fdb_reader" where
  "upd_ipkg f = upd_tmpl_pkg (\<lambda>p. p\<lparr>pkg_ipkg := map_option f (pkg_ipkg p)\<rparr>)"

definition set_tags :: "repo_tags \<Rightarrow> fdb_reader \<Rightarrow> fdb_reader" where
  "set_tags tags r = r\<lparr>rd_db := (rd_db r)\<lparr>db_compat := (db_compat (rd_db r))\<lparr>cdb_tags := tags\<rparr>\<rparr>\<rparr>"

definition reader_pkg :: "fdb_reader \<Rightarrow> nat \<Rightarrow> apk_package" where
  "reader_pkg r a = (if a = pkg_addr (tmpl_pkg (rd_tmpl r)) then tmpl_pkg (rd_tmpl r) else db_pkg (rd_db r) a)"

text \<open>The names of a template are looked up when they are read.\<close>

definition enter_names :: "bytes list \<Rightarrow> apk_database \<Rightarrow> apk_database" where
  "enter_names = fold (\<lambda>n db. snd (apk_db_get_name db (Some n)))"

definition tmpl_names :: "apk_package \<Rightarrow> bytes list" where
  "tmpl_names p =
     (case pkg_name p of None \<Rightarrow> [] | Some n \<Rightarrow> [n]) @ map dep_nm (pkg_depends p @ pkg_provides p @ pkg_install_if p)"

definition apk_db_ipkg_create :: "fdb_reader \<Rightarrow> fdb_reader" where
  "apk_db_ipkg_create r =
     (case apk_pkg_install (db_installed (rd_db r)) (tmpl_pkg (rd_tmpl r)) of
        (idb, pkg) \<Rightarrow>
          upd_files (\<lambda>fs. (apk_db_ipkg_creator_reset fs)\<lparr>ic_diris := ipkg_diris (the (pkg_ipkg pkg))\<rparr>)
            (upd_tmpl_pkg (\<lambda>_. pkg) (r\<lparr>rd_db := (rd_db r)\<lparr>db_installed := idb\<rparr>, rd_ipkg := True\<rparr>)))"

definition apply_current :: "fdb_env \<Rightarrow> fdb_reader \<Rightarrow> fdb_reader" where
  "apply_current env r =
     (case rd_diri r of
        None \<Rightarrow> r
      | Some d \<Rightarrow> upd_files (apk_db_dir_apply_diri_permissions (fe_fs env) (reader_pkg r) d) r)"

definition commit_ipkg :: "fdb_reader \<Rightarrow> fdb_reader" where
  "commit_ipkg r =
     (if \<not> rd_ipkg r then r
      else
        case apk_db_ipkg_commit (db_files (rd_db r)) of
          (diris, fs) \<Rightarrow> upd_ipkg (\<lambda>i. i\<lparr>ipkg_diris := diris\<rparr>) (upd_files (\<lambda>_. fs) r))"

definition fdb_end :: "fdb_env \<Rightarrow> fdb_reader \<Rightarrow> fdb_status" where
  "fdb_end env r =
     (if pkg_name (tmpl_pkg (rd_tmpl r)) = None then Fdb_next r
      else
        let r = apply_current env r;
            r = (if fe_repo env \<ge> 0 then upd_tmpl_pkg (\<lambda>p. p\<lparr>pkg_repos := pkg_repos p OR push_bit (nat (fe_repo env)) 1\<rparr>) r
                 else if fe_repo env = APK_REPO_CACHE_INSTALLED then upd_tmpl_pkg (\<lambda>p. p\<lparr>pkg_cached_non_repository := True\<rparr>) r
                 else if fe_repo env = APK_REPO_DB_INSTALLED \<and> \<not> rd_ipkg r then apk_db_ipkg_create r
                 else r);
            r = commit_ipkg r
        in case apk_db_pkg_add (rd_db r) (rd_tmpl r) of
             (None, db, tmpl) \<Rightarrow> Fdb_error (r\<lparr>rd_db := db, rd_tmpl := tmpl\<rparr>)
           | (Some _, db, tmpl) \<Rightarrow>
               Fdb_next (upd_tmpl_pkg (\<lambda>p. p\<lparr>pkg_layer := fe_layer env\<rparr>)
                 (r\<lparr>rd_db := db, rd_tmpl := tmpl, rd_ipkg := False, rd_diri := None\<rparr>)))"

text \<open>A line is finished when nothing is missing in its value.\<close>

definition finish :: "blob \<Rightarrow> fdb_reader \<Rightarrow> fdb_status outcome" where
  "finish l r = Ret (if l = None then Fdb_error r else Fdb_next r)"

definition read_acl :: "blob \<Rightarrow> (apk_db_acl \<times> blob) outcome" where
  "read_acl l =
     (let (uid, l) = apk_blob_pull_uint l 10;
          l = apk_blob_pull_char l (schar CHR '':'');
          (gid, l) = apk_blob_pull_uint l 10;
          l = apk_blob_pull_char l (schar CHR '':'');
          (mode, l) = apk_blob_pull_uint l 8;
          (more_text, l) = apk_blob_pull_blob_match l (Some '':'')
      in case (if more_text then apk_blob_pull_digest l digest_uninit else Ret (l, apk_digest_reset digest_uninit)) of
           Fault \<Rightarrow> Fault
         | Ret (l, xattr) \<Rightarrow> Ret (apk_db_acl_atomize_digest (ucast mode) (ucast uid) (ucast gid) xattr, l))"

fun read_flags :: "bool \<Rightarrow> bytes \<Rightarrow> apk_installed_package \<Rightarrow> bool \<times> apk_installed_package" where
  "read_flags force [] ipkg = (True, ipkg)"
| "read_flags force (c # cs) ipkg =
     (if c = CHR ''f'' then read_flags force cs (ipkg\<lparr>ipkg_broken_files := True\<rparr>)
      else if c = CHR ''s'' then read_flags force cs (ipkg\<lparr>ipkg_broken_script := True\<rparr>)
      else if c = CHR ''x'' then read_flags force cs (ipkg\<lparr>ipkg_broken_xattr := True\<rparr>)
      else if c = CHR ''S'' then read_flags force cs (ipkg\<lparr>ipkg_sha256_160 := True\<rparr>)
      else if force then read_flags force cs ipkg
      else (False, ipkg))"

definition fdb_acl :: "char \<Rightarrow> blob \<Rightarrow> fdb_reader \<Rightarrow> fdb_status outcome" where
  "fdb_acl field l r =
     (if field = CHR ''a'' \<and> rd_file r = None \<or> rd_diri r = None then Ret (Fdb_error r)
      else
        case read_acl l of
          Fault \<Rightarrow> Fault
        | Ret (acl, l) \<Rightarrow>
            finish l (upd_files (if field = CHR ''M'' then upd_diri (the (rd_diri r)) (\<lambda>x. x\<lparr>di_acl := acl\<rparr>)
                                 else upd_file (the (rd_file r)) (\<lambda>x. x\<lparr>fl_acl := acl\<rparr>)) r))"

definition fdb_digest :: "blob \<Rightarrow> fdb_reader \<Rightarrow> fdb_status outcome" where
  "fdb_digest l r =
     (case rd_file r of
        None \<Rightarrow> Ret (Fdb_error r)
      | Some f \<Rightarrow>
         (case apk_blob_pull_digest l digest_uninit of
            Fault \<Rightarrow> Fault
          | Ret (l, d) \<Rightarrow>
              let d = (if dg_alg d = APK_DIGEST_SHA1 \<and> ipkg_sha256_160 (the (pkg_ipkg (tmpl_pkg (rd_tmpl r))))
                       then apk_digest_set d APK_DIGEST_SHA256_160 else d)
              in finish l (upd_files (upd_file f (apk_dbf_digest_set (dg_alg d) (dg_data d))) r)))"

definition fdb_field :: "fdb_env \<Rightarrow> char \<Rightarrow> blob \<Rightarrow> fdb_reader \<Rightarrow> fdb_status outcome" where
  "fdb_field env field l r =
     (if field = CHR ''g'' then
        (case apk_blob_foreach_token l (Some '' '') of
           None \<Rightarrow> Fault
         | Some ws \<Rightarrow> finish l (upd_tmpl_pkg (\<lambda>p. p\<lparr>pkg_tags := pkg_tags p @ ws\<rparr>) r))
      else if field = CHR ''F'' then
        (if pkg_name (tmpl_pkg (rd_tmpl r)) = None then Ret (Fdb_error r)
         else
           let r = apply_current env r in
           case apk_db_diri_get (fe_fs env) l (pkg_addr (tmpl_pkg (rd_tmpl r))) (db_files (rd_db r)) of
             (d, fs) \<Rightarrow> finish l ((upd_files (\<lambda>_. fs) r)\<lparr>rd_diri := Some d\<rparr>))
      else if field = CHR ''a'' \<or> field = CHR ''M'' then fdb_acl field l r
      else if field = CHR ''R'' then
        (case rd_diri r of
           None \<Rightarrow> Ret (Fdb_error r)
         | Some d \<Rightarrow>
            (case apk_db_file_get d l (db_files (rd_db r)) of
               (f, fs) \<Rightarrow> finish l ((upd_files (\<lambda>_. fs) r)\<lparr>rd_file := Some f\<rparr>)))
      else if field = CHR ''Z'' then fdb_digest l r
      else if field = CHR ''r'' then
        (case apk_blob_pull_deps l (cdb_tags (db_compat (rd_db r))) (ipkg_replaces (the (pkg_ipkg (tmpl_pkg (rd_tmpl r))))) False of
           (_, l, deps, tags) \<Rightarrow>
             finish l (upd_ipkg (\<lambda>i. i\<lparr>ipkg_replaces := deps\<rparr>)
               ((set_tags tags r)\<lparr>rd_db := enter_names (map dep_nm deps) (rd_db (set_tags tags r))\<rparr>)))
      else if field = CHR ''q'' then
        (case apk_blob_pull_uint l 10 of
           (v, l) \<Rightarrow> finish l (upd_ipkg (\<lambda>i. i\<lparr>ipkg_replaces_priority := unat (ucast v :: u16)\<rparr>) r))
      else if field = CHR ''s'' then
        (case apk_db_get_tag_id (cdb_tags (db_compat (rd_db r))) l of
           (tag, tags) \<Rightarrow> finish l (upd_ipkg (\<lambda>i. i\<lparr>ipkg_repository_tag := nat (tag mod 64)\<rparr>) (set_tags tags r)))
      else if field = CHR ''f'' then
        (let (ok, ipkg) = read_flags (fe_force_old_apk env) (blob_bytes l) (the (pkg_ipkg (tmpl_pkg (rd_tmpl r))));
             r = upd_ipkg (\<lambda>_. ipkg) r
         in if ok then finish l r else Ret (Fdb_error r))
      else if \<not> fe_force_old_apk env then Ret (Fdb_error r)
      else Ret (Fdb_next (upd_tmpl_pkg (\<lambda>p. p\<lparr>pkg_filename_ndx := 0\<rparr>) r)))"

definition fdb_info :: "char \<Rightarrow> blob \<Rightarrow> fdb_reader \<Rightarrow> (add_result \<times> fdb_reader) outcome" where
  "fdb_info field l r =
     (case apk_pkgtmpl_add_info (db_compat (rd_db r)) (rd_tmpl r) field l of
        Fault \<Rightarrow> Fault
      | Ret (res, cdb, tmpl) \<Rightarrow>
          Ret (res, r\<lparr>rd_tmpl := tmpl, rd_db := enter_names (tmpl_names (tmpl_pkg tmpl)) ((rd_db r)\<lparr>db_compat := cdb\<rparr>)\<rparr>))"

definition fdb_line :: "fdb_env \<Rightarrow> bytes \<Rightarrow> fdb_reader \<Rightarrow> fdb_status outcome" where
  "fdb_line env line r =
     (if length line < 2 then Ret (fdb_end env r)
      else if line ! 1 \<noteq> CHR '':'' then Ret (Fdb_error r)
      else
        let field = line ! 0; l = Some (drop 2 line) in
        case fdb_info field l r of
          Fault \<Rightarrow> Fault
        | Ret (res, r) \<Rightarrow>
            if res = Info_ok then Ret (Fdb_next r)
            else
              let r = (if res = Info_fdb_entry \<and> fe_repo env = APK_REPO_DB_INSTALLED \<and> \<not> rd_ipkg r
                       then apk_db_ipkg_create r else r)
              in if fe_repo env \<noteq> APK_REPO_DB_INSTALLED \<or> \<not> rd_ipkg r then Ret (Fdb_next r)
                 else fdb_field env field l r)"

fun fdb_lines :: "fdb_env \<Rightarrow> bytes list \<Rightarrow> fdb_reader \<Rightarrow> fdb_status outcome" where
  "fdb_lines env [] r = Ret (Fdb_next r)"
| "fdb_lines env (l # ls) r =
     (case fdb_line env l r of
        Fault \<Rightarrow> Fault
      | Ret (Fdb_error r) \<Rightarrow> Ret (Fdb_error r)
      | Ret (Fdb_next r) \<Rightarrow> fdb_lines env ls r)"

definition fdb_start :: "fdb_env \<Rightarrow> apk_database \<Rightarrow> fdb_reader" where
  "fdb_start env db =
     \<lparr>rd_db = db, rd_tmpl = apk_pkgtmpl_init\<lparr>tmpl_pkg := null_package\<lparr>pkg_layer := fe_layer env\<rparr>\<rparr>,
      rd_ipkg = False, rd_diri = None, rd_file = None\<rparr>"

text \<open>The error of the stream, and the database; the end of the stream is no error.\<close>

definition apk_db_fdb_read ::
  "'s read_op \<Rightarrow> fdb_env \<Rightarrow> 's apk_istream \<Rightarrow> apk_database \<Rightarrow> (apk_error option \<times> apk_database) outcome option" where
  "apk_db_fdb_read rd env is db =
     map_option (\<lambda>(lines, err).
       case fdb_lines env lines (fdb_start env db) of
         Fault \<Rightarrow> Fault
       | Ret (Fdb_error r) \<Rightarrow> Ret (Some APKE_V2DB_FORMAT, rd_db r)
       | Ret (Fdb_next r) \<Rightarrow> Ret (if err = APKE_EOF then None else Some err, rd_db r))
     (istream_pieces rd is (Some [NL]))"

definition APK_DB_LAYER_ROOT :: nat where "APK_DB_LAYER_ROOT = 0"

definition apk_db_index_read ::
  "'s read_op \<Rightarrow> fdb_env \<Rightarrow> int \<Rightarrow> 's apk_istream \<Rightarrow> apk_database \<Rightarrow> (apk_error option \<times> apk_database) outcome option" where
  "apk_db_index_read rd env repo is db =
     apk_db_fdb_read rd (env\<lparr>fe_repo := repo, fe_layer := APK_DB_LAYER_ROOT\<rparr>) is db"

section \<open>A package without directories\<close>

lemma push_deps_no_fault:
  "\<forall>d \<in> set ds. dep_repository_tag d < length (repo_tag tags) \<Longrightarrow> push_deps_loop b (Some tags) first ds \<noteq> Fault"
  by (induction ds arbitrary: b first) (auto simp: apk_blob_push_dep_def Let_def)

lemma ipkg_fields_no_fault:
  assumes "ipkg_repository_tag ipkg < length (repo_tag tags)"
    and "\<forall>d \<in> set (ipkg_replaces ipkg). dep_repository_tag d < length (repo_tag tags)"
  obtains b where "ipkg_fields tags ipkg = Ret b"
  using assms push_deps_no_fault [of "ipkg_replaces ipkg" tags]
  by (cases "ipkg_fields tags ipkg") (auto simp: ipkg_fields_def apk_blob_push_deps_def Let_def split: outcome.splits if_splits)

text \<open>
  The fields of an installed package (the packages it replaces, their priority, its tag and the flags
  of broken files and scripts) are put in the buffer in front of the first directory, and the buffer is
  written out only with a directory. So the entry of a package that has no directory, such as a virtual
  package, is the index entry and the tags, whatever these fields are: they are lost when the list of
  installed packages is written.
\<close>

lemma fdb_fields_lost:
  assumes "ipkg_diris ipkg = []" "apk_pkg_write_index_header pkg = Ret (Inr header)"
    and "ipkg_repository_tag ipkg < length (repo_tag tags)"
    and "\<forall>d \<in> set (ipkg_replaces ipkg). dep_repository_tag d < length (repo_tag tags)"
  shows "apk_db_fdb_write fs tags pkg ipkg = Ret (Inr (header @ write_blobs ''g:'' (pkg_tags pkg) @ [NL]))"
proof -
  obtain b where "ipkg_fields tags ipkg = Ret b" by (rule ipkg_fields_no_fault [OF assms(3, 4)])
  with assms show ?thesis by (simp add: apk_db_fdb_write_def)
qed

end
