(* ===== verification/Fdb_Index.thy ===== *)
theory Fdb_Index
  imports Fdb
begin

text \<open>
  Index entries read back: the lines of a written entry, and what reading them does to the template and
  the database.
\<close>

section \<open>Lines\<close>

definition text_of :: "bytes list \<Rightarrow> bytes" where
  "text_of ls = concat (map (\<lambda>l. l @ [NL]) ls)"

definition is_line :: "bytes \<Rightarrow> bool" where
  "is_line l \<longleftrightarrow> NL \<notin> set l"

lemma split_line: "is_line l \<Longrightarrow> split_on NL (l @ NL # t) = l # split_on NL t"
  unfolding is_line_def by (induction l) auto

lemma split_text: "\<forall>l \<in> set ls. is_line l \<Longrightarrow> split_on NL (text_of ls) = ls @ [[]]"
  by (induction ls) (simp_all add: text_of_def split_line)

lemma text_of_append: "text_of (ls @ ks) = text_of ls @ text_of ks"
  by (simp add: text_of_def)

lemma push_hash_blob:
  assumes "length xs = 20"
  shows "apk_blob_push_hash w (Some xs) = apk_blob_push_blob w (Some (''Q1'' @ push_b64_loop xs))"
proof -
  have "length (push_b64_loop xs) = 28"
    using assms push_b64_loop_length [of xs] by (simp add: b64_needed_def)
  then show ?thesis
    using assms push_hash_text [of xs] by (cases w) (auto simp: apk_blob_push_hash_def apk_blob_push_blob_def digest_consts
        apk_blob_push_base64_def blob_len_def)
qed

definition num_text :: "u64 \<Rightarrow> nat \<Rightarrow> bytes" where
  "num_text v radix = (if v = 0 then ''0'' else uint_digits radix (unat v))"

lemma push_uint_blob: "apk_blob_push_uint w v radix = apk_blob_push_blob w (Some (num_text v radix))"
  by (simp add: apk_blob_push_uint_def num_text_def)

section \<open>The written entry\<close>

definition opt_line :: "bool \<Rightarrow> bytes \<Rightarrow> bytes \<Rightarrow> bytes list" where
  "opt_line c key value = (if c then [key @ value] else [])"

definition header_lines :: "apk_package \<Rightarrow> bytes list" where
  "header_lines p =
     [''C:Q1'' @ push_b64_loop (take 20 (pkg_digest p)), ''P:'' @ pkg_nm p, ''V:'' @ the (pkg_version p)] @
     opt_line (pkg_arch p \<noteq> []) ''A:'' (pkg_arch p) @
     [''S:'' @ num_text (pkg_size p) 10, ''I:'' @ num_text (pkg_installed_size p) 10,
      ''T:'' @ pkg_description p, ''U:'' @ pkg_url p, ''L:'' @ pkg_license p] @
     opt_line (pkg_origin p \<noteq> []) ''o:'' (pkg_origin p) @ opt_line (pkg_maintainer p \<noteq> []) ''m:'' (pkg_maintainer p) @
     opt_line (pkg_build_time p \<noteq> 0) ''t:'' (num_text (pkg_build_time p) 10) @
     opt_line (pkg_commit p \<noteq> []) ''c:'' (pkg_commit p) @
     opt_line (pkg_provider_priority p \<noteq> 0) ''k:'' (num_text (ucast (pkg_provider_priority p)) 10)"

definition dep_lines :: "apk_package \<Rightarrow> bytes list" where
  "dep_lines p =
     opt_line (pkg_depends p \<noteq> []) ''D:'' (deps_text (pkg_depends p)) @
     opt_line (pkg_provides p \<noteq> []) ''p:'' (deps_text (pkg_provides p)) @
     opt_line (pkg_install_if p \<noteq> []) ''i:'' (deps_text (pkg_install_if p))"

text \<open>A package whose fields fit on lines and whose dependencies have a text form.\<close>

definition info_ok :: "apk_package \<Rightarrow> bool" where
  "info_ok p \<longleftrightarrow>
     (\<exists>n v. pkg_name p = Some n \<and> pkg_version p = Some v \<and> v \<noteq> [] \<and> NUL \<notin> set n \<and> is_line n \<and> is_line v) \<and>
     20 \<le> length (pkg_digest p) \<and>
     (\<forall>f \<in> {pkg_arch p, pkg_description p, pkg_url p, pkg_license p, pkg_origin p, pkg_maintainer p, pkg_commit p}. is_line f) \<and>
     (\<forall>d \<in> set (pkg_depends p @ pkg_provides p @ pkg_install_if p). dep_wf d \<and> \<not> dep_broken d)"

lemma push_opt: "(if c then apk_blob_push_blob w (Some x) else w) = apk_blob_push_blob w (Some (if c then x else []))"
  by simp

lemma index_header_text:
  assumes "info_ok p"
  shows "index_header p = apk_blob_push_blob (APK_BLOB_BUF 2048) (Some (text_of (header_lines p)))"
proof -
  obtain n where n: "pkg_name p = Some n" "cstr n = n" using assms by (auto simp: info_ok_def cstr_id)
  have len: "length (take 20 (pkg_digest p)) = 20" using assms by (simp add: info_ok_def)
  show ?thesis
    unfolding index_header_def push_line_def push_uint_blob apk_pkg_hash_blob_def APK_DIGEST_LENGTH_SHA1_def
      push_hash_blob [OF len] Let_def push_blob_append push_opt
    by (simp add: n text_of_def header_lines_def opt_line_def)
qed

lemma write_layer_text:
  assumes "\<forall>d \<in> set ds. dep_wf d" "write_layer_loop None '' '' None n ds = Ret (True, t)"
  shows "t = (if n \<noteq> 0 \<and> ds \<noteq> [] then CHR '' '' # deps_text ds else deps_text ds)"
  using assms
proof (induction ds arbitrary: n t)
  case (Cons d ds)
  let ?b = "if n \<noteq> 0 then apk_blob_push_blob (APK_BLOB_BUF 256) (Some '' '') else APK_BLOB_BUF 256"
  let ?out = "(if n \<noteq> 0 then '' '' else []) @ dep_text d"
  have wf: "dep_wf d" using Cons.prems(1) by simp
  have b: "apk_blob_push_blob ?b (Some (dep_text d)) = apk_blob_push_blob (APK_BLOB_BUF 256) (Some ?out)"
    by (simp add: push_blob_append)
  have "\<exists>rest. t = ?out @ rest \<and> write_layer_loop None '' '' None (n + length ?out) ds = Ret (True, rest)"
    using Cons.prems(2) unfolding write_layer_loop.simps Let_def push_dep_text [OF wf] b
    by (auto simp: apk_blob_pushed_def APK_BLOB_BUF_def apk_blob_push_blob_def split: option.splits outcome.splits if_splits prod.splits)
  then obtain rest where r: "t = ?out @ rest" "write_layer_loop None '' '' None (n + length ?out) ds = Ret (True, rest)" by blast
  have "rest = (if n + length ?out \<noteq> 0 \<and> ds \<noteq> [] then CHR '' '' # deps_text ds else deps_text ds)"
    using Cons.IH [OF _ r(2)] Cons.prems(1) by simp
  then show ?case using r(1) dep_text_nonempty [OF wf] by (cases ds) auto
qed simp

lemma write_depends_text:
  assumes "\<forall>d \<in> set ds. dep_wf d" "write_depends key ds = Ret (Some t)"
  shows "t = text_of (opt_line (ds \<noteq> []) key (deps_text ds))"
  using assms write_layer_text [of ds 0]
  by (auto simp: write_depends_def apk_deps_write_def apk_deps_write_layer_def text_of_def opt_line_def split: if_splits outcome.splits)

lemma write_header_text:
  assumes "info_ok p" "apk_pkg_write_index_header p = Ret (Inr t)"
  shows "t = text_of (header_lines p @ dep_lines p)"
proof -
  obtain hdr d q i where h: "apk_blob_pushed 2048 (index_header p) = Some hdr" "write_depends ''D:'' (pkg_depends p) = Ret (Some d)"
      "write_depends ''p:'' (pkg_provides p) = Ret (Some q)" "write_depends ''i:'' (pkg_install_if p) = Ret (Some i)" "t = hdr @ d @ q @ i"
    using assms(2) unfolding apk_pkg_write_index_header_def by (auto split: option.splits outcome.splits prod.splits)
  have "hdr = text_of (header_lines p)"
    using h(1) unfolding index_header_text [OF assms(1)]
    by (auto simp: apk_blob_pushed_def APK_BLOB_BUF_def apk_blob_push_blob_def split: if_splits)
  then show ?thesis
    using h assms(1) write_depends_text by (simp add: info_ok_def dep_lines_def text_of_append)
qed

lemma b64_line: "is_line (push_b64_loop xs)"
proof -
  have nl: "dec64 NL = 0xff" by (simp add: dec64_eq_spec dec64_spec_def)
  have e: "enc64 w \<noteq> NL" if "take_bit 6 w = w" for w
  proof
    assume "enc64 w = NL"
    then have "w = 0xff" using dec64_enc64 [OF that] nl by simp
    then show False using that by simp
  qed
  note ne = e [OF b64_range(1)] e [OF b64_range(2)] e [OF b64_range(3)] e [OF b64_range(4)]
  note ne = ne ne [THEN not_sym]
  show ?thesis
    unfolding is_line_def
    by (induction xs rule: push_b64_loop.induct) (auto simp: push_b64_tail_def [unfolded sextet2_pad] Let_def ne)
qed

lemma num_line: "2 \<le> radix \<Longrightarrow> radix \<le> 16 \<Longrightarrow> is_line (num_text v radix)"
  using uint_digits_dx [of radix NL "unat v"] by (auto simp: is_line_def num_text_def dx_eq_spec dx_spec_def)

lemma deps_line: "\<forall>d \<in> set ds. dep_wf d \<Longrightarrow> is_line (deps_text ds)"
proof (induction ds rule: deps_text.induct)
  case (2 d)
  then show ?case using dep_text_no_sep [of d] by (auto simp: is_line_def in_dep_separator)
next
  case (3 d d' ds)
  then show ?case using dep_text_no_sep [of d] by (auto simp: is_line_def in_dep_separator)
qed (simp add: is_line_def)

lemma entry_lines:
  assumes "info_ok p"
  shows "\<forall>l \<in> set (header_lines p @ dep_lines p). is_line l"
  using assms b64_line [of "take 20 (pkg_digest p)"] num_line [of 10] deps_line [of "pkg_depends p"] deps_line [of "pkg_provides p"]
    deps_line [of "pkg_install_if p"]
  by (auto simp: info_ok_def header_lines_def dep_lines_def opt_line_def is_line_def)

section \<open>Reading the fields of a package\<close>

definition names_ok :: "apk_package_tmpl \<Rightarrow> bool" where
  "names_ok t \<longleftrightarrow> (\<forall>n \<in> set (tmpl_names (tmpl_pkg t)). NUL \<notin> set n)"

text \<open>Lines that all are fields of the package and change nothing else.\<close>

fun read_info :: "compat_db \<Rightarrow> bytes list \<Rightarrow> apk_package_tmpl \<Rightarrow> apk_package_tmpl option" where
  "read_info c [] t = Some t"
| "read_info c (l # ls) t =
     (case l of
        f # k # v \<Rightarrow>
          if k \<noteq> CHR '':'' then None
          else (case apk_pkgtmpl_add_info c t f (Some v) of
                  Ret (res, c', t') \<Rightarrow> if res = Info_ok \<and> c' = c \<and> names_ok t' then read_info c ls t' else None
                | Fault \<Rightarrow> None)
      | _ \<Rightarrow> None)"

lemma read_info_append: "read_info c (ls @ ks) t = Option.bind (read_info c ls t) (read_info c ks)"
  by (induction ls arbitrary: t) (auto split: list.split outcome.split)

lemma pull_num: "2 \<le> radix \<Longrightarrow> radix \<le> 16 \<Longrightarrow> apk_blob_pull_uint (Some (num_text v radix)) radix = (v, Some [])"
  using pull_uint_digits [of radix "[]" "unat v"] pull_uint_zero [of radix "[]"] by (auto simp: num_text_def)

lemma read_atoms:
  "names_ok t \<Longrightarrow> read_info c [CHR ''V'' # CHR '':'' # v] t = Some (t\<lparr>tmpl_pkg := (tmpl_pkg t)\<lparr>pkg_version := Some v\<rparr>\<rparr>)"
  "names_ok t \<Longrightarrow> read_info c [CHR ''T'' # CHR '':'' # v] t = Some (t\<lparr>tmpl_pkg := (tmpl_pkg t)\<lparr>pkg_description := v\<rparr>\<rparr>)"
  "names_ok t \<Longrightarrow> read_info c [CHR ''U'' # CHR '':'' # v] t = Some (t\<lparr>tmpl_pkg := (tmpl_pkg t)\<lparr>pkg_url := v\<rparr>\<rparr>)"
  "names_ok t \<Longrightarrow> read_info c [CHR ''L'' # CHR '':'' # v] t = Some (t\<lparr>tmpl_pkg := (tmpl_pkg t)\<lparr>pkg_license := v\<rparr>\<rparr>)"
  "names_ok t \<Longrightarrow> read_info c [CHR ''A'' # CHR '':'' # v] t = Some (t\<lparr>tmpl_pkg := (tmpl_pkg t)\<lparr>pkg_arch := v\<rparr>\<rparr>)"
  "names_ok t \<Longrightarrow> read_info c [CHR ''o'' # CHR '':'' # v] t = Some (t\<lparr>tmpl_pkg := (tmpl_pkg t)\<lparr>pkg_origin := v\<rparr>\<rparr>)"
  "names_ok t \<Longrightarrow> read_info c [CHR ''m'' # CHR '':'' # v] t = Some (t\<lparr>tmpl_pkg := (tmpl_pkg t)\<lparr>pkg_maintainer := v\<rparr>\<rparr>)"
  "names_ok t \<Longrightarrow> read_info c [CHR ''c'' # CHR '':'' # v] t = Some (t\<lparr>tmpl_pkg := (tmpl_pkg t)\<lparr>pkg_commit := v\<rparr>\<rparr>)"
  by (simp_all add: apk_pkgtmpl_add_info_def set_atom_def names_ok_def tmpl_names_def atomize_def)

lemma read_name:
  assumes "pkg_depends (tmpl_pkg t) = []" "pkg_provides (tmpl_pkg t) = []" "pkg_install_if (tmpl_pkg t) = []" "NUL \<notin> set n"
  shows "read_info c [CHR ''P'' # CHR '':'' # n] t = Some (t\<lparr>tmpl_pkg := (tmpl_pkg t)\<lparr>pkg_name := Some n\<rparr>\<rparr>)"
  using assms by (simp add: apk_pkgtmpl_add_info_def set_atom_def names_ok_def tmpl_names_def)

lemma read_nums:
  "names_ok t \<Longrightarrow> read_info c [CHR ''S'' # CHR '':'' # num_text v 10] t = Some (t\<lparr>tmpl_pkg := (tmpl_pkg t)\<lparr>pkg_size := v\<rparr>\<rparr>)"
  "names_ok t \<Longrightarrow> read_info c [CHR ''I'' # CHR '':'' # num_text v 10] t = Some (t\<lparr>tmpl_pkg := (tmpl_pkg t)\<lparr>pkg_installed_size := v\<rparr>\<rparr>)"
  "names_ok t \<Longrightarrow> read_info c [CHR ''t'' # CHR '':'' # num_text v 10] t = Some (t\<lparr>tmpl_pkg := (tmpl_pkg t)\<lparr>pkg_build_time := v\<rparr>\<rparr>)"
  "names_ok t \<Longrightarrow> read_info c [CHR ''k'' # CHR '':'' # num_text v 10] t = Some (t\<lparr>tmpl_pkg := (tmpl_pkg t)\<lparr>pkg_provider_priority := ucast v\<rparr>\<rparr>)"
  by (simp_all add: apk_pkgtmpl_add_info_def set_atom_def names_ok_def tmpl_names_def pull_num)

lemma wf_names:
  assumes "dep_wf d"
  shows "NUL \<notin> set (dep_nm d)"
proof -
  obtain n where "dep_name d = Some n" "list_all dep_name_char n" using assms unfolding dep_wf_def by blast
  then show ?thesis by (auto simp: list_all_iff dep_name_char_def)
qed

lemma pull_deps_all:
  assumes "\<forall>d \<in> set ds. dep_wf d \<and> \<not> dep_broken d"
  shows "apk_blob_pull_deps (Some (deps_text ds)) tags acc allow = (None, Some [], acc @ ds, tags)"
proof -
  have "\<not> list_ex dep_broken ds" using assms by (auto simp: list_ex_iff)
  then show ?thesis using pull_deps_text [of ds None tags allow acc] assms by (simp add: apk_blob_pull_deps_def deps_rc_def)
qed

lemma read_deps:
  assumes "names_ok t" "\<forall>d \<in> set ds. dep_wf d \<and> \<not> dep_broken d"
  shows "pkg_depends (tmpl_pkg t) = [] \<Longrightarrow>
      read_info c [CHR ''D'' # CHR '':'' # deps_text ds] t = Some (t\<lparr>tmpl_pkg := (tmpl_pkg t)\<lparr>pkg_depends := ds\<rparr>\<rparr>)"
    "pkg_provides (tmpl_pkg t) = [] \<Longrightarrow>
      read_info c [CHR ''p'' # CHR '':'' # deps_text ds] t = Some (t\<lparr>tmpl_pkg := (tmpl_pkg t)\<lparr>pkg_provides := ds\<rparr>\<rparr>)"
    "pkg_install_if (tmpl_pkg t) = [] \<Longrightarrow>
      read_info c [CHR ''i'' # CHR '':'' # deps_text ds] t = Some (t\<lparr>tmpl_pkg := (tmpl_pkg t)\<lparr>pkg_install_if := ds\<rparr>\<rparr>)"
proof -
  have w: "NUL \<notin> set (dep_nm d)" if "d \<in> set ds" for d using assms(2) wf_names that by blast
  note pull = pull_deps_all [OF assms(2)]
  have n: "names_ok (t\<lparr>tmpl_pkg := (tmpl_pkg t)\<lparr>pkg_depends := ds\<rparr>\<rparr>)" "names_ok (t\<lparr>tmpl_pkg := (tmpl_pkg t)\<lparr>pkg_provides := ds\<rparr>\<rparr>)"
    "names_ok (t\<lparr>tmpl_pkg := (tmpl_pkg t)\<lparr>pkg_install_if := ds\<rparr>\<rparr>)"
    using assms(1) w by (simp_all add: names_ok_def tmpl_names_def ball_Un)
  show "read_info c [CHR ''D'' # CHR '':'' # deps_text ds] t = Some (t\<lparr>tmpl_pkg := (tmpl_pkg t)\<lparr>pkg_depends := ds\<rparr>\<rparr>)"
    if "pkg_depends (tmpl_pkg t) = []" using that n by (simp add: apk_pkgtmpl_add_info_def pull)
  show "read_info c [CHR ''p'' # CHR '':'' # deps_text ds] t = Some (t\<lparr>tmpl_pkg := (tmpl_pkg t)\<lparr>pkg_provides := ds\<rparr>\<rparr>)"
    if "pkg_provides (tmpl_pkg t) = []" using that n by (simp add: apk_pkgtmpl_add_info_def pull)
  show "read_info c [CHR ''i'' # CHR '':'' # deps_text ds] t = Some (t\<lparr>tmpl_pkg := (tmpl_pkg t)\<lparr>pkg_install_if := ds\<rparr>\<rparr>)"
    if "pkg_install_if (tmpl_pkg t) = []" using that n by (simp add: apk_pkgtmpl_add_info_def pull)
qed

lemma read_digest:
  assumes "names_ok t" "digest_ok (tmpl_id t)" "length xs = 20"
  obtains d where "read_info c [CHR ''C'' # CHR '':'' # ''Q1'' @ push_b64_loop xs] t = Some (t\<lparr>tmpl_id := d\<rparr>)"
    "digest_ok d" "dg_alg d = APK_DIGEST_SHA1" "take 20 (dg_data d) = xs" "dg_len d = 20"
proof -
  from pull_digest_sha1 [OF assms(2), of xs "[]"] assms(3) obtain d where
    d: "apk_blob_pull_digest (Some (''Q1'' @ push_b64_loop xs)) (tmpl_id t) = Ret (Some [], d)" "digest_ok d"
      "dg_alg d = APK_DIGEST_SHA1" "APK_DIGEST_BLOB d = Some xs" by (auto simp: digest_consts)
  have len: "dg_len d = 20" using d(2, 3) by (simp add: digest_ok_def apk_digest_alg_len_def digest_consts)
  show thesis
    using that [of d] d len assms(1) by (simp add: apk_pkgtmpl_add_info_def names_ok_def APK_DIGEST_BLOB_def)
qed

text \<open>What an entry says about a package.\<close>

definition info_pkg :: "apk_package \<Rightarrow> nat \<Rightarrow> apk_package" where
  "info_pkg p layer =
     null_package\<lparr>pkg_layer := layer, pkg_name := pkg_name p, pkg_version := pkg_version p, pkg_arch := pkg_arch p,
       pkg_size := pkg_size p, pkg_installed_size := pkg_installed_size p, pkg_description := pkg_description p,
       pkg_url := pkg_url p, pkg_license := pkg_license p, pkg_origin := pkg_origin p, pkg_maintainer := pkg_maintainer p,
       pkg_build_time := pkg_build_time p, pkg_commit := pkg_commit p, pkg_provider_priority := pkg_provider_priority p,
       pkg_depends := pkg_depends p, pkg_provides := pkg_provides p, pkg_install_if := pkg_install_if p\<rparr>"

definition fresh_tmpl :: "nat \<Rightarrow> apk_package_tmpl" where
  "fresh_tmpl layer = apk_pkgtmpl_init\<lparr>tmpl_pkg := null_package\<lparr>pkg_layer := layer\<rparr>\<rparr>"

lemma read_opt:
  assumes "c \<Longrightarrow> read_info cdb [k @ v] t = Some t'" "\<not> c \<Longrightarrow> t' = t"
  shows "read_info cdb (opt_line c k v) t = Some t'"
  using assms by (cases c) (simp_all add: opt_line_def del: read_info.simps(2))

lemma read_step: "read_info c ls t = Some t' \<Longrightarrow> read_info c ks t' = r \<Longrightarrow> read_info c (ls @ ks) t = r"
  by (simp add: read_info_append)

lemma header_read:
  assumes p: "info_ok p"
  obtains d where "read_info c (header_lines p @ dep_lines p) (fresh_tmpl layer) = Some \<lparr>tmpl_pkg = info_pkg p layer, tmpl_id = d\<rparr>"
    "digest_ok d" "dg_alg d = APK_DIGEST_SHA1" "take 20 (dg_data d) = take 20 (pkg_digest p)" "dg_len d = 20"
proof -
  obtain n v where nv: "pkg_name p = Some n" "pkg_version p = Some v" "NUL \<notin> set n" using p by (auto simp: info_ok_def)
  have "names_ok (fresh_tmpl layer)" "digest_ok (tmpl_id (fresh_tmpl layer))" "length (take 20 (pkg_digest p)) = 20"
    using p digest_uninit_ok by (simp_all add: names_ok_def tmpl_names_def fresh_tmpl_def apk_pkgtmpl_init_def null_package_def info_ok_def)
  then obtain d where d: "read_info c [CHR ''C'' # CHR '':'' # ''Q1'' @ push_b64_loop (take 20 (pkg_digest p))] (fresh_tmpl layer) =
      Some ((fresh_tmpl layer)\<lparr>tmpl_id := d\<rparr>)" "digest_ok d" "dg_alg d = APK_DIGEST_SHA1" "take 20 (dg_data d) = take 20 (pkg_digest p)" "dg_len d = 20"
    by (rule read_digest)
  have t0: "(fresh_tmpl layer)\<lparr>tmpl_id := d\<rparr> = \<lparr>tmpl_pkg = null_package\<lparr>pkg_layer := layer\<rparr>, tmpl_id = d\<rparr>"
    by (simp add: fresh_tmpl_def apk_pkgtmpl_init_def)
  define T where "T q = \<lparr>tmpl_pkg = q, tmpl_id = d\<rparr>" for q
  have ok: "names_ok (T q) \<longleftrightarrow> (\<forall>n \<in> set (tmpl_names q). NUL \<notin> set n)" for q by (simp add: T_def names_ok_def)
  have upd: "(T q)\<lparr>tmpl_pkg := q'\<rparr> = T q'" "tmpl_pkg (T q) = q" for q q' by (simp_all add: T_def)
  have deps: "\<forall>e \<in> set (pkg_depends p). dep_wf e \<and> \<not> dep_broken e" "\<forall>e \<in> set (pkg_provides p). dep_wf e \<and> \<not> dep_broken e"
    "\<forall>e \<in> set (pkg_install_if p). dep_wf e \<and> \<not> dep_broken e" using p by (auto simp: info_ok_def)
  have dn: "\<forall>e \<in> set (pkg_depends p). NUL \<notin> set (dep_nm e)" "\<forall>e \<in> set (pkg_provides p). NUL \<notin> set (dep_nm e)"
    using deps wf_names by blast+
  note atoms = read_atoms [where t = "T q" for q, unfolded ok upd] and nums = read_nums [where t = "T q" for q, unfolded ok upd]
    and ds = read_deps [where t = "T q" for q, unfolded ok upd] and nm = read_name [where t = "T q" for q, unfolded upd]
  note names = tmpl_names_def null_package_def
  have noop: "pkg_arch q = [] \<Longrightarrow> q\<lparr>pkg_arch := []\<rparr> = q" "pkg_origin q = [] \<Longrightarrow> q\<lparr>pkg_origin := []\<rparr> = q"
    "pkg_maintainer q = [] \<Longrightarrow> q\<lparr>pkg_maintainer := []\<rparr> = q" "pkg_commit q = [] \<Longrightarrow> q\<lparr>pkg_commit := []\<rparr> = q"
    "pkg_build_time q = 0 \<Longrightarrow> q\<lparr>pkg_build_time := 0\<rparr> = q" "pkg_provider_priority q = 0 \<Longrightarrow> q\<lparr>pkg_provider_priority := 0\<rparr> = q"
    "pkg_depends q = [] \<Longrightarrow> q\<lparr>pkg_depends := []\<rparr> = q" "pkg_provides q = [] \<Longrightarrow> q\<lparr>pkg_provides := []\<rparr> = q"
    "pkg_install_if q = [] \<Longrightarrow> q\<lparr>pkg_install_if := []\<rparr> = q" for q :: apk_package
    by (cases q; simp)+
  have uu: "(ucast (ucast z :: u64) :: u16) = z" for z by (rule bit_word_eqI) (simp add: bit_simps)
  let ?ok = "\<lambda>q. \<forall>n \<in> set (tmpl_names q). NUL \<notin> set n"
  have opts: "?ok q \<Longrightarrow> pkg_arch q = [] \<Longrightarrow> read_info c (opt_line (x \<noteq> []) ''A:'' x) (T q) = Some (T (q\<lparr>pkg_arch := x\<rparr>))"
    "?ok q \<Longrightarrow> pkg_origin q = [] \<Longrightarrow> read_info c (opt_line (x \<noteq> []) ''o:'' x) (T q) = Some (T (q\<lparr>pkg_origin := x\<rparr>))"
    "?ok q \<Longrightarrow> pkg_maintainer q = [] \<Longrightarrow> read_info c (opt_line (x \<noteq> []) ''m:'' x) (T q) = Some (T (q\<lparr>pkg_maintainer := x\<rparr>))"
    "?ok q \<Longrightarrow> pkg_commit q = [] \<Longrightarrow> read_info c (opt_line (x \<noteq> []) ''c:'' x) (T q) = Some (T (q\<lparr>pkg_commit := x\<rparr>))"
    "?ok q \<Longrightarrow> pkg_build_time q = 0 \<Longrightarrow> read_info c (opt_line (y \<noteq> 0) ''t:'' (num_text y 10)) (T q) = Some (T (q\<lparr>pkg_build_time := y\<rparr>))"
    "?ok q \<Longrightarrow> pkg_provider_priority q = 0 \<Longrightarrow> read_info c (opt_line (z \<noteq> 0) ''k:'' (num_text (ucast z) 10)) (T q) =
       Some (T (q\<lparr>pkg_provider_priority := z\<rparr>))" for q x y z
    by (rule read_opt; simp add: atoms nums noop uu del: read_info.simps(2))+
  have dopts: "?ok q \<Longrightarrow> \<forall>e \<in> set x. dep_wf e \<and> \<not> dep_broken e \<Longrightarrow> pkg_depends q = [] \<Longrightarrow>
      read_info c (opt_line (x \<noteq> []) ''D:'' (deps_text x)) (T q) = Some (T (q\<lparr>pkg_depends := x\<rparr>))"
    "?ok q \<Longrightarrow> \<forall>e \<in> set x. dep_wf e \<and> \<not> dep_broken e \<Longrightarrow> pkg_provides q = [] \<Longrightarrow>
      read_info c (opt_line (x \<noteq> []) ''p:'' (deps_text x)) (T q) = Some (T (q\<lparr>pkg_provides := x\<rparr>))"
    "?ok q \<Longrightarrow> \<forall>e \<in> set x. dep_wf e \<and> \<not> dep_broken e \<Longrightarrow> pkg_install_if q = [] \<Longrightarrow>
      read_info c (opt_line (x \<noteq> []) ''i:'' (deps_text x)) (T q) = Some (T (q\<lparr>pkg_install_if := x\<rparr>))" for q x
    by (rule read_opt; simp add: ds noop del: read_info.simps(2))+
  have cons: "read_info c (l # m # ls) t = Option.bind (read_info c [l] t) (read_info c (m # ls))"
    "read_info c (l # opt_line a k v @ ls) t = Option.bind (read_info c [l] t) (read_info c (opt_line a k v @ ls))" for l m ls t a k v
    using read_info_append [of c "[l]" _ t] by (metis append.simps)+
  have "read_info c (header_lines p) (fresh_tmpl layer) = Some (T h)"
    if "h = null_package\<lparr>pkg_layer := layer, pkg_name := pkg_name p, pkg_version := pkg_version p, pkg_arch := pkg_arch p,
       pkg_size := pkg_size p, pkg_installed_size := pkg_installed_size p, pkg_description := pkg_description p,
       pkg_url := pkg_url p, pkg_license := pkg_license p, pkg_origin := pkg_origin p, pkg_maintainer := pkg_maintainer p,
       pkg_build_time := pkg_build_time p, pkg_commit := pkg_commit p, pkg_provider_priority := pkg_provider_priority p\<rparr>" for h
    unfolding header_lines_def that
    using nv by (simp add: read_info_append cons d(1) [unfolded append.simps] t0 T_def [symmetric] nm atoms nums opts names del: read_info.simps(2))
  then have "read_info c (header_lines p @ dep_lines p) (fresh_tmpl layer) = Some (T (info_pkg p layer))"
    using nv dn deps by (simp add: read_info_append dep_lines_def dopts info_pkg_def names ball_Un del: read_info.simps(2))
  then show thesis using that [of d] d(2-5) by (simp add: T_def)
qed

section \<open>Reading into the database\<close>

text \<open>What looking names up may change.\<close>

definition grown :: "apk_database \<Rightarrow> apk_database \<Rightarrow> bool" where
  "grown db db' \<longleftrightarrow> avail_inv db' \<and> known db \<subseteq> known db' \<and> pkgs db' = pkgs db \<and> db_pkg db' = db_pkg db \<and>
     db_packages db' = db_packages db \<and> db_installed db' = db_installed db \<and> db_files db' = db_files db \<and>
     db_compat db' = db_compat db \<and> db_open_complete db' = db_open_complete db \<and> db_arches db' = db_arches db \<and>
     db_noarch db' = db_noarch db"

lemma grown_refl: "avail_inv db \<Longrightarrow> grown db db"
  by (simp add: grown_def)

lemma grown_trans: "grown a b \<Longrightarrow> grown b c \<Longrightarrow> grown a c"
  by (auto simp: grown_def)

lemma get_name_grown:
  assumes "avail_inv db" "NUL \<notin> set n"
  shows "grown db (snd (apk_db_get_name db (Some n)))"
proof -
  let ?db = "snd (apk_db_get_name db (Some n))"
  have "db_packages ?db = db_packages db" "db_installed ?db = db_installed db" "db_files ?db = db_files db" "db_compat ?db = db_compat db"
    "db_open_complete ?db = db_open_complete db" "db_arches ?db = db_arches db" "db_noarch ?db = db_noarch db"
    by (simp_all add: apk_db_get_name_def Let_def upd_db_name_def split: option.split)
  with get_name_inv [OF assms] show ?thesis by (auto simp: grown_def)
qed

lemma enter_grown:
  "avail_inv db \<Longrightarrow> \<forall>n \<in> set ns. NUL \<notin> set n \<Longrightarrow> grown db (enter_names ns db) \<and> set ns \<subseteq> known (enter_names ns db)"
proof (induction ns arbitrary: db)
  case (Cons n ns)
  let ?db = "snd (apk_db_get_name db (Some n))"
  have g: "grown db ?db" "n \<in> known ?db" using Cons.prems get_name_grown [of db n] get_name_inv(3) [of db n] by simp_all
  have i: "avail_inv ?db" using g(1) by (simp add: grown_def)
  from Cons.IH [OF i] Cons.prems(2) have h: "grown ?db (enter_names ns ?db)" "set ns \<subseteq> known (enter_names ns ?db)" by simp_all
  then have "n \<in> known (enter_names ns ?db)" using g(2) by (auto simp: grown_def)
  then show ?case using grown_trans [OF g(1) h(1)] h(2) by (simp add: enter_names_def)
qed (simp add: enter_names_def grown_refl)

lemma fdb_info_lines:
  assumes "read_info (db_compat (rd_db r)) ls (rd_tmpl r) = Some t" "avail_inv (rd_db r)"
  shows "\<exists>db. fdb_lines env (ls @ ks) r = fdb_lines env ks (r\<lparr>rd_db := db, rd_tmpl := t\<rparr>) \<and> grown (rd_db r) db \<and>
    (ls \<noteq> [] \<longrightarrow> set (tmpl_names (tmpl_pkg t)) \<subseteq> known db)"
  using assms
proof (induction ls arbitrary: r)
  case Nil
  then have e: "r\<lparr>rd_db := rd_db r, rd_tmpl := t\<rparr> = r" by (cases r) simp
  show ?case by (rule exI [of _ "rd_db r"], unfold e) (simp add: grown_refl Nil.prems(2))
next
  case (Cons l ls)
  let ?c = "db_compat (rd_db r)"
  from Cons.prems(1) obtain f v t1 where l: "l = f # CHR '':'' # v" and
      a: "apk_pkgtmpl_add_info ?c (rd_tmpl r) f (Some v) = Ret (Info_ok, ?c, t1)" "names_ok t1" "read_info ?c ls t1 = Some t"
    by (auto split: list.splits outcome.splits if_splits)
  let ?db = "enter_names (tmpl_names (tmpl_pkg t1)) (rd_db r)"
  have g: "grown (rd_db r) ?db" "set (tmpl_names (tmpl_pkg t1)) \<subseteq> known ?db"
    using enter_grown [OF Cons.prems(2)] a(2) by (simp_all add: names_ok_def)
  let ?r = "r\<lparr>rd_tmpl := t1, rd_db := ?db\<rparr>"
  have line: "fdb_line env l r = Ret (Fdb_next ?r)"
    using a(1) by (simp add: fdb_line_def l fdb_info_def)
  have i: "avail_inv (rd_db ?r)" "read_info (db_compat (rd_db ?r)) ls (rd_tmpl ?r) = Some t"
    using g(1) a(3) by (simp_all add: grown_def)
  from Cons.IH [OF i(2, 1)] obtain db where db: "fdb_lines env (ls @ ks) ?r = fdb_lines env ks (?r\<lparr>rd_db := db, rd_tmpl := t\<rparr>)"
      "grown ?db db" "ls \<noteq> [] \<longrightarrow> set (tmpl_names (tmpl_pkg t)) \<subseteq> known db" by auto
  have "set (tmpl_names (tmpl_pkg t)) \<subseteq> known db"
    using db(2, 3) g(2) a(3) by (cases "ls = []") (auto simp: grown_def)
  then show ?case
    using db(1) grown_trans [OF g(1) db(2)] line by (intro exI [of _ db]) simp
qed

lemma info_pkg_names: "tmpl_names (info_pkg p layer) = tmpl_names p"
  by (simp add: tmpl_names_def info_pkg_def)

lemma info_pkg_wf:
  assumes "info_ok p" "set (tmpl_names p) \<subseteq> N" "pkg_core q = pkg_core (info_pkg p layer)"
  shows "pkg_wf N q"
proof -
  have "pkg_wf N (info_pkg p layer)"
    using assms(1, 2)
    by (auto simp: pkg_wf_def info_ok_def info_pkg_def names_of_def needs_def triggers_of_def pkg_gives_def tmpl_names_def)
  with pkg_coreD(5) [OF assms(3)] show ?thesis by simp
qed

text \<open>The record of a package that was not known before.\<close>

lemma add_new_pkg:
  assumes inv: "avail_inv db" and ok: "tmpl_ok db tmpl" and new: "apk_hash_get (db_packages db) (Some (id_of tmpl)) = None"
    and add: "apk_db_pkg_add db tmpl = (Some a, db', t')"
  shows "db_pkg db' a = (pkg_from_tmpl a (if apk_db_arch_compatible db (pkg_arch (tmpl_pkg tmpl)) then tmpl_pkg tmpl
       else (tmpl_pkg tmpl)\<lparr>pkg_uninstallable := True\<rparr>) (tmpl_id tmpl))\<lparr>pkg_ipkg := pkg_ipkg (tmpl_pkg tmpl)\<rparr>"
    and "db_files db' = (case pkg_ipkg (tmpl_pkg tmpl) of None \<Rightarrow> db_files db
       | Some i \<Rightarrow> fold (\<lambda>d. upd_diri d (\<lambda>x. x\<lparr>di_pkg := a\<rparr>)) (ipkg_diris i) (db_files db))"
    and "idb_packages (db_installed db') = (if pkg_ipkg (tmpl_pkg tmpl) = None then idb_packages (db_installed db)
       else map (\<lambda>x. if x = pkg_addr (tmpl_pkg tmpl) then a else x) (idb_packages (db_installed db)))"
proof -
  let ?pkg0 = "tmpl_pkg tmpl" and ?d = "tmpl_id tmpl"
  define pkg where "pkg = (if apk_db_arch_compatible db (pkg_arch ?pkg0) then ?pkg0 else ?pkg0\<lparr>pkg_uninstallable := True\<rparr>)"
  have n: "APK_DIGEST_LENGTH_SHA1 = 20" by (simp add: APK_DIGEST_LENGTH_SHA1_def)
  have core: "pkg_core pkg = pkg_core ?pkg0" by (simp add: pkg_def pkg_core_def)
  have wf: "pkg_wf (known db) pkg" and len: "20 \<le> dg_len ?d" using ok pkg_coreD(5) [OF core] by (simp_all add: tmpl_ok_def)
  have full: "\<not> (pkg_name ?pkg0 = None \<or> pkg_version ?pkg0 = None \<or> dg_len ?d < APK_DIGEST_LENGTH_SHA1)"
    using ok n by (auto simp: tmpl_ok_def pkg_wf_def)
  note i = insert_pkg_inv [OF inv wf len new [unfolded id_of_def]]
  obtain db1 where db1: "insert_pkg pkg ?d db = (db_next_pkg db, db1)" using i(2) by (metis prod.collapse)
  define db2 where "db2 = (if pkg_repos (db_pkg db1 (db_next_pkg db)) \<noteq> 0
      then fold (\<lambda>n. upd_db_name n (\<lambda>x. x\<lparr>nm_has_repository_providers := True\<rparr>))
             (pkg_nm pkg # map dep_nm (pkg_provides (db_pkg db1 (db_next_pkg db)))) db1 else db1)"
  have eq: "a = db_next_pkg db" "db' = move_ipkg pkg a db2"
    using add full new db1 unfolding apk_db_pkg_add_def Let_def n pkg_def [symmetric] db2_def id_of_def by auto
  have sm: "same_db db1 db2" using flag_names_inv(2) by (auto simp: db2_def simp del: fold.simps)
  then have p2: "db_pkg db2 a = pkg_from_tmpl a pkg ?d" and f2: "db_files db2 = db_files db" "db_installed db2 = db_installed db"
    using i(5, 7, 10) by (simp_all add: same_db_def db1 eq(1))
  have "db_pkg db' a = (pkg_from_tmpl a pkg ?d)\<lparr>pkg_ipkg := pkg_ipkg pkg\<rparr>"
    unfolding eq(2) using p2 by (auto simp: move_ipkg_def pkg_from_tmpl_def split: option.split)
  moreover have pk: "pkg_ipkg pkg = pkg_ipkg ?pkg0" "pkg_addr pkg = pkg_addr ?pkg0" by (simp_all add: pkg_def)
  ultimately show "db_pkg db' a = (pkg_from_tmpl a (if apk_db_arch_compatible db (pkg_arch ?pkg0) then ?pkg0
      else ?pkg0\<lparr>pkg_uninstallable := True\<rparr>) ?d)\<lparr>pkg_ipkg := pkg_ipkg ?pkg0\<rparr>" by (simp add: pkg_def)
  have n2: "pkg_ipkg (db_pkg db2 a) = None" by (simp add: p2 pkg_from_tmpl_def)
  show "db_files db' = (case pkg_ipkg ?pkg0 of None \<Rightarrow> db_files db
      | Some i \<Rightarrow> fold (\<lambda>d. upd_diri d (\<lambda>x. x\<lparr>di_pkg := a\<rparr>)) (ipkg_diris i) (db_files db))"
    unfolding eq(2) move_ipkg_def n2 pk by (simp add: f2 split: option.split)
  show "idb_packages (db_installed db') = (if pkg_ipkg ?pkg0 = None then idb_packages (db_installed db)
      else map (\<lambda>x. if x = pkg_addr ?pkg0 then a else x) (idb_packages (db_installed db)))"
    unfolding eq(2) move_ipkg_def n2 pk by (simp add: f2 split: option.split)
qed

section \<open>Property\<close>

lemma fdb_read_lines:
  assumes "reliable_source (fdi_read rd) content" "\<forall>l \<in> set (split_on NL (content s)). length l < apk_io_bufsize"
    "fdb_lines env (split_on NL (content s)) (fdb_start env db) = Ret (Fdb_next r)"
  shows "apk_db_fdb_read (fdi_read rd) env (apk_istream_from_fd s) db = Some (Ret (None, rd_db r))"
  using reliable_source.pieces_spec [OF assms(1), of "apk_istream_from_fd s" NL] assms(2, 3)
  by (simp add: from_fd_ok apk_db_fdb_read_def)

lemma write_entry_text:
  assumes "info_ok p" "apk_pkg_write_index_entry p = Ret (Inr t)"
  shows "t = text_of (header_lines p @ dep_lines p @ [[]])"
proof -
  obtain h where h: "apk_pkg_write_index_header p = Ret (Inr h)" "t = h @ [NL]"
    using assms(2) by (auto simp: apk_pkg_write_index_entry_def split: outcome.splits sum.splits)
  then show ?thesis using write_header_text [OF assms(1) h(1)] by (simp add: text_of_def)
qed

text \<open>
  C15. An index entry reads back: when the entry that is written for a package is read into a database that
  does not have a package of this identity, then one package is added, and it has every field that the
  entry carries (name, version, architecture, sizes, descriptions, origin, maintainer, build time, commit,
  priority and the three lists of dependencies), the repository, and the identity as a SHA-1 digest.
\<close>

theorem index_roundtrip:
  assumes "reliable_source (fdi_read rd) content" "\<forall>l \<in> set (split_on NL (content s)). length l < apk_io_bufsize"
    and "info_ok p" "apk_pkg_write_index_entry p = Ret (Inr (content s))"
    and "avail_inv db" "apk_hash_get (db_packages db) (Some (take 20 (pkg_digest p))) = None"
  shows "\<exists>a db'. apk_db_index_read (fdi_read rd) env (int repo) (apk_istream_from_fd s) db = Some (Ret (None, db')) \<and>
    avail_inv db' \<and> a \<notin> pkgs db \<and> pkgs db' = insert a (pkgs db) \<and>
    db_pkg db' a = (info_pkg p 0)\<lparr>pkg_addr := a, pkg_repos := push_bit repo 1,
      pkg_uninstallable := \<not> apk_db_arch_compatible db (pkg_arch p),
      pkg_digest := take 20 (pkg_digest p), pkg_digest_alg := APK_DIGEST_SHA1\<rparr>"
proof -
  let ?env = "env\<lparr>fe_repo := int repo, fe_layer := APK_DB_LAYER_ROOT\<rparr>" and ?ls = "header_lines p @ dep_lines p"
  have lines: "split_on NL (content s) = ?ls @ [[], []]"
    using write_entry_text [OF assms(3, 4)] split_text [of "?ls @ [[]]"] entry_lines [OF assms(3)] by (simp add: is_line_def)
  obtain d where d: "read_info (db_compat db) ?ls (fresh_tmpl 0) = Some \<lparr>tmpl_pkg = info_pkg p 0, tmpl_id = d\<rparr>" "digest_ok d"
      "dg_alg d = APK_DIGEST_SHA1" "take 20 (dg_data d) = take 20 (pkg_digest p)" "dg_len d = 20"
    by (rule header_read [OF assms(3)])
  define r where "r = fdb_start ?env db"
  have r: "rd_db r = db" "rd_tmpl r = fresh_tmpl 0" "rd_ipkg r = False" "rd_diri r = None"
    by (simp_all add: r_def fdb_start_def fresh_tmpl_def APK_DB_LAYER_ROOT_def)
  define T where "T = \<lparr>tmpl_pkg = info_pkg p 0, tmpl_id = d\<rparr>"
  obtain db1 where db1: "fdb_lines ?env (?ls @ [[], []]) r = fdb_lines ?env [[], []] (r\<lparr>rd_db := db1, rd_tmpl := T\<rparr>)" "grown db db1"
      "set (tmpl_names p) \<subseteq> known db1"
    using fdb_info_lines [of r ?ls T ?env "[[], []]"] d(1) assms(5) by (auto simp: r T_def info_pkg_names header_lines_def)
  define T1 where "T1 = T\<lparr>tmpl_pkg := (info_pkg p 0)\<lparr>pkg_repos := push_bit repo 1\<rparr>\<rparr>"
  have inv1: "avail_inv db1" using db1(2) by (simp add: grown_def)
  have wf: "pkg_wf (known db1) (tmpl_pkg T1)"
    by (rule info_pkg_wf [OF assms(3) db1(3), of _ 0]) (simp add: T1_def pkg_core_def)
  then have ok: "tmpl_ok db1 T1" using d(5) by (simp add: tmpl_ok_def T1_def T_def)
  have ids: "id_of T1 = take 20 (pkg_digest p)" by (simp add: id_of_def T1_def T_def d(4))
  have new: "apk_hash_get (db_packages db1) (Some (id_of T1)) = None" using assms(6) db1(2) ids by (simp add: grown_def)
  obtain a db' where a: "apk_db_pkg_add db1 T1 = (Some a, db', apk_pkgtmpl_init)" "avail_inv db'" "pkgs db' = insert a (pkgs db1)"
      "a \<notin> pkgs db1 \<longleftrightarrow> apk_hash_get (db_packages db1) (Some (id_of T1)) = None"
    by (rule pkg_add_inv [OF inv1 ok], rule that)
  have nm: "pkg_name (info_pkg p 0) \<noteq> None" using assms(3) by (auto simp: info_ok_def info_pkg_def)
  let ?r = "r\<lparr>rd_db := db1, rd_tmpl := T\<rparr>"
  have "upd_tmpl_pkg (\<lambda>p. p\<lparr>pkg_repos := pkg_repos p OR push_bit repo 1\<rparr>) ?r = ?r\<lparr>rd_tmpl := T1\<rparr>"
    by (simp add: upd_tmpl_pkg_def T1_def T_def info_pkg_def null_package_def)
  then have "fdb_end ?env ?r = Fdb_next (upd_tmpl_pkg (\<lambda>p. p\<lparr>pkg_layer := 0\<rparr>) (?r\<lparr>rd_db := db', rd_tmpl := apk_pkgtmpl_init,
      rd_ipkg := False, rd_diri := None\<rparr>))"
    using nm a(1) r by (auto simp: fdb_end_def T_def apply_current_def commit_ipkg_def APK_DB_LAYER_ROOT_def)
  then have "\<exists>r'. fdb_lines ?env [[], []] ?r = Ret (Fdb_next r') \<and> rd_db r' = db'"
    by (simp add: fdb_line_def fdb_end_def upd_tmpl_pkg_def apk_pkgtmpl_init_def null_package_def)
  then obtain r' where r': "fdb_lines ?env (split_on NL (content s)) (fdb_start ?env db) = Ret (Fdb_next r')" "rd_db r' = db'"
    using db1(1) lines by (auto simp: r_def)
  have "apk_db_index_read (fdi_read rd) env (int repo) (apk_istream_from_fd s) db = Some (Ret (None, db'))"
    using fdb_read_lines [OF assms(1, 2) r'(1)] r'(2) by (simp add: apk_db_index_read_def)
  moreover have "a \<notin> pkgs db" "pkgs db' = insert a (pkgs db)" using a(3, 4) new db1(2) by (simp_all add: grown_def)
  moreover have "apk_db_arch_compatible db1 = apk_db_arch_compatible db"
    using db1(2) by (simp add: grown_def apk_db_arch_compatible_def fun_eq_iff)
  then have "db_pkg db' a = (info_pkg p 0)\<lparr>pkg_addr := a, pkg_repos := push_bit repo 1,
      pkg_uninstallable := \<not> apk_db_arch_compatible db (pkg_arch p),
      pkg_digest := take 20 (pkg_digest p), pkg_digest_alg := APK_DIGEST_SHA1\<rparr>"
    using add_new_pkg(1) [OF inv1 ok new a(1)] d(3-5)
    by (simp add: T1_def T_def pkg_from_tmpl_def info_pkg_def null_package_def)
  ultimately show ?thesis using a(2) by blast
qed

definition wpkg :: apk_package where
  "wpkg = null_package\<lparr>pkg_name := Some ''a'', pkg_version := Some ''1'', pkg_digest := replicate 20 CHR ''x'',
     pkg_description := ''text'', pkg_installed_size := 7\<rparr>"

definition wenv :: fdb_env where
  "wenv = \<lparr>fe_fs = \<lparr>env_simulate = False, env_usermode = False, env_result = (\<lambda>h c. Fs_ok), env_fnmatch = (\<lambda>p n. False)\<rparr>,
     fe_repo = 0, fe_layer = 0, fe_force_old_apk = False\<rparr>"

definition wlines :: "bytes list" where
  "wlines = [''C:Q1'' @ push_b64_loop (replicate 20 CHR ''x''), ''P:a'', ''V:1'', ''S:0'', ''I:7'', ''T:text'', ''U:'', ''L:'']"

lemma wpkg_entry: "info_ok wpkg" "apk_pkg_write_index_entry wpkg = Ret (Inr (text_of (wlines @ [[]])))"
proof -
  show i: "info_ok wpkg" by (simp add: info_ok_def wpkg_def null_package_def is_line_def)
  have "uint_digits 10 7 = ''7''" by code_simp
  then have h: "header_lines wpkg = wlines"
    by (simp add: header_lines_def wpkg_def wlines_def null_package_def opt_line_def num_text_def)
  have "length (text_of wlines) \<le> 2048"
    by (simp add: wlines_def text_of_def push_b64_loop_length b64_needed_def)
  then have "apk_blob_pushed 2048 (index_header wpkg) = Some (text_of wlines)"
    unfolding index_header_text [OF i] h by (simp add: apk_blob_pushed_def APK_BLOB_BUF_def apk_blob_push_blob_def)
  then show "apk_pkg_write_index_entry wpkg = Ret (Inr (text_of (wlines @ [[]])))"
    by (simp add: apk_pkg_write_index_entry_def apk_pkg_write_index_header_def write_depends_def)
      (simp add: wpkg_def null_package_def text_of_def)
qed

theorem index_roundtrip_witness:
  "\<exists>a db'. apk_db_index_read (fdi_read file_read) wenv 0 (apk_istream_from_fd (text_of (wlines @ [[]]), [3, 5])) apk_db_init =
      Some (Ret (None, db')) \<and> pkgs db' = {a} \<and> pkg_name (db_pkg db' a) = Some ''a'' \<and> pkg_installed_size (db_pkg db' a) = 7"
proof -
  have ls: "\<forall>l \<in> set (wlines @ [[]]). is_line l" using b64_line by (simp add: wlines_def is_line_def)
  have "\<forall>l \<in> set (split_on NL (text_of (wlines @ [[]]))). length l < apk_io_bufsize"
    unfolding split_text [OF ls] by (simp add: wlines_def apk_io_bufsize_def push_b64_loop_length b64_needed_def)
  moreover have "pkgs apk_db_init = {}" "apk_hash_get (db_packages apk_db_init) k = None" for k
    by (simp_all add: pkgs_def apk_db_init_def hash_items_def apk_hash_init_def apk_hash_get_def apk_hash_get_hashed_def bucket_of_def)
  ultimately show ?thesis
    using index_roundtrip [OF file_src.reliable_source_axioms, of "(text_of (wlines @ [[]]), [3, 5])" wpkg apk_db_init wenv 0]
      wpkg_entry init_inv(1)
    by (auto simp: info_pkg_def wpkg_def null_package_def)
qed

text \<open>A broken package that replaces another one and has no directory.\<close>

theorem fdb_fields_lost_witness:
  "apk_db_fdb_write fs_init \<lparr>repo_tag = replicate 16 \<lparr>rt_tag = None, rt_plain_name = None\<rparr>, num_repo_tags = 0\<rparr> wpkg
     (new_installed_package\<lparr>ipkg_replaces_priority := 5, ipkg_broken_files := True\<rparr>) = Ret (Inr (text_of (wlines @ [[]])))"
proof -
  have "apk_pkg_write_index_header wpkg = Ret (Inr (text_of wlines))"
    using wpkg_entry(2) by (auto simp: apk_pkg_write_index_entry_def text_of_def split: outcome.splits sum.splits)
  moreover have "pkg_tags wpkg = []" by (simp add: wpkg_def null_package_def)
  ultimately show ?thesis
    using fdb_fields_lost [of "new_installed_package\<lparr>ipkg_replaces_priority := 5, ipkg_broken_files := True\<rparr>" wpkg "text_of wlines"
        "\<lparr>repo_tag = replicate 16 \<lparr>rt_tag = None, rt_plain_name = None\<rparr>, num_repo_tags = 0\<rparr>" fs_init]
    by (simp add: new_installed_package_def write_blobs_def text_of_def)
qed

end
