(* ===== verification/Fdb_Files.thy ===== *)
theory Fdb_Files
  imports Files_Inv
begin

text \<open>
  What the creator of an installed package holds, as a list of directories with their files, when the
  directories and files come in the order of their names.
\<close>

section \<open>The table of files\<close>

text \<open>
  The table with the hash value of an item computed from the name of its directory; the directories keep
  that value.
\<close>

definition file_ops :: "(file_item, apk_db_file_key) apk_hash_ops" where
  "file_ops = file_hash_ops\<lparr>hash_item :=
     Some (\<lambda>i. apk_blob_hash_seed (Some (fe_name i)) (apk_blob_hash (Some (fe_dirname i))))\<rparr>"

definition file_path :: "file_item \<Rightarrow> bytes \<times> bytes" where
  "file_path i = (fe_dirname i, fe_name i)"

interpretation file_table: hash_contract file_ops file_path "\<lambda>k. (blob_bytes (fk_dirname k), blob_bytes (fk_filename k))"
proof
  show "item_matches file_ops i k \<longleftrightarrow> file_path i = (blob_bytes (fk_dirname k), blob_bytes (fk_filename k))" for i k
    by (auto simp: item_matches_def file_ops_def file_hash_ops_def apk_db_file_compare_item_def Let_def
        apk_blob_compare_eq_0 file_path_def)
  show "(case hash_item file_ops of Some f \<Rightarrow> f i | None \<Rightarrow> hash_key file_ops (get_key file_ops i)) = hash_key file_ops k"
    if "file_path i = (blob_bytes (fk_dirname k), blob_bytes (fk_filename k))" for i k
    using that by (simp add: file_ops_def file_hash_ops_def apk_db_file_hash_key_def file_path_def apk_blob_hash_def apk_blob_hash_seed_def)
qed

definition files_ok :: "file_db \<Rightarrow> bool" where
  "files_ok fs \<longleftrightarrow> hash_ops (fs_files fs) = file_hash_ops \<and> hash_table file_ops ((fs_files fs)\<lparr>hash_ops := file_ops\<rparr>) \<and>
     keys_distinct file_path ((fs_files fs)\<lparr>hash_ops := file_ops\<rparr>)"

definition known_files :: "file_db \<Rightarrow> (bytes \<times> bytes) set" where
  "known_files fs = file_path ` set (hash_items (fs_files fs))"

lemma file_unknown:
  assumes "p \<notin> known_files fs"
  shows "table_map file_path ((fs_files fs)\<lparr>hash_ops := ops\<rparr>) p = None"
  using assms unfolding table_map_def find_None_iff known_files_def hash_items_def by (auto intro: rev_image_eqI)

lemma file_lookup:
  assumes "files_ok fs" "hash = apk_blob_hash_seed name (apk_blob_hash dir)" "(blob_bytes dir, blob_bytes name) \<notin> known_files fs"
  shows "apk_hash_get_hashed (fs_files fs) \<lparr>fk_dirname = dir, fk_filename = name\<rparr> hash = None"
proof -
  let ?h = "(fs_files fs)\<lparr>hash_ops := file_ops\<rparr>" and ?k = "\<lparr>fk_dirname = dir, fk_filename = name\<rparr>"
  have ops: "hash_ops (fs_files fs) = file_hash_ops" and t: "hash_table file_ops ?h" using assms(1) by (simp_all add: files_ok_def)
  have "item_matches file_ops = item_matches file_hash_ops" by (simp add: item_matches_def file_ops_def file_hash_ops_def fun_eq_iff)
  then have "apk_hash_get_hashed (fs_files fs) ?k hash = apk_hash_get_hashed ?h ?k hash"
    by (simp add: apk_hash_get_hashed_def ops bucket_of_def)
  also have "\<dots> = table_map file_path ?h (blob_bytes dir, blob_bytes name)"
    using file_table.get_hashed_is_map [OF t, of hash ?k] assms(2)
    by (simp add: apk_hash_from_key_def file_ops_def file_hash_ops_def apk_db_file_hash_key_def)
  also have "\<dots> = None" by (rule file_unknown [OF assms(3)])
  finally show ?thesis .
qed

lemma file_insert:
  assumes "files_ok fs" "file_path i \<notin> known_files fs" "hash = apk_blob_hash_seed (Some (fe_name i)) (apk_blob_hash (Some (fe_dirname i)))"
    and "fs_files fs' = apk_hash_insert_hashed (fs_files fs) i hash"
  shows "files_ok fs'" "known_files fs' = insert (file_path i) (known_files fs)"
proof -
  let ?h = "(fs_files fs)\<lparr>hash_ops := file_ops\<rparr>"
  have ops: "hash_ops (fs_files fs) = file_hash_ops" and t: "hash_table file_ops ?h" "keys_distinct file_path ?h"
    using assms(1) by (simp_all add: files_ok_def)
  have h: "hash = apk_hash_from_item ?h i" by (simp add: assms(3) apk_hash_from_item_def file_ops_def)
  have "(apk_hash_insert_hashed (fs_files fs) i hash)\<lparr>hash_ops := file_ops\<rparr> = apk_hash_insert ?h i"
    by (simp add: apk_hash_insert_def h [symmetric] apk_hash_insert_hashed_def bucket_of_def Let_def)
  then have e: "(fs_files fs')\<lparr>hash_ops := file_ops\<rparr> = apk_hash_insert ?h i" by (simp add: assms(4))
  note none = file_unknown [OF assms(2)]
  have "hash_table file_ops (apk_hash_insert ?h i)" "keys_distinct file_path (apk_hash_insert ?h i)"
    using file_table.insert_table [OF t(1)] file_table.insert_distinct [OF t none] by simp_all
  moreover have "hash_ops (fs_files fs') = file_hash_ops" using ops by (simp add: assms(4) apk_hash_insert_hashed_def Let_def)
  ultimately show "files_ok fs'" by (simp add: files_ok_def e)
  have ok: "hash_ok ?h" using t(1) by (simp add: hash_table_def)
  have "hash_items (fs_files fs') = hash_items ((fs_files fs')\<lparr>hash_ops := file_ops\<rparr>)" by (simp add: hash_items_def)
  then have "set (hash_items (fs_files fs')) = insert i (set (hash_items (fs_files fs)))"
    unfolding e using hash_insert_ok(2) [OF ok, of i] by (simp add: hash_items_def)
  then show "known_files fs' = insert (file_path i) (known_files fs)" by (simp add: known_files_def)
qed

section \<open>The contents of the creator\<close>

type_synonym file_view = "bytes \<times> apk_db_acl \<times> nat \<times> bytes"
type_synonym dir_view = "bytes \<times> apk_db_acl \<times> file_view list"

definition file_view :: "apk_db_file \<Rightarrow> file_view" where
  "file_view f = (fl_name f, fl_acl f, fl_digest_alg f, take (apk_digest_alg_len (fl_digest_alg f)) (fl_digest f))"

definition dir_view :: "file_db \<Rightarrow> nat list \<Rightarrow> nat \<Rightarrow> dir_view" where
  "dir_view fs files d = (diri_name fs d, di_acl (fs_diri fs d), map (file_view \<circ> fs_file fs) files)"

definition cur_files :: "file_db \<Rightarrow> nat \<Rightarrow> nat list" where
  "cur_files fs d = (if ic_diri fs = Some d then ic_files fs else di_files (fs_diri fs d))"

definition cur_view :: "file_db \<Rightarrow> nat \<Rightarrow> dir_view" where
  "cur_view fs d = dir_view fs (cur_files fs d) d"

definition in_order :: "file_db \<Rightarrow> bool" where
  "in_order fs \<longleftrightarrow> creator_ok fs \<and> files_ok fs \<and> ic_num_unsorted_diris fs = 0 \<and> \<not> ic_files_unsorted fs \<and>
     ic_diri fs = (if ic_diris fs = [] then None else Some (last (ic_diris fs))) \<and>
     (\<forall>d \<in> set (ic_diris fs). dr_hash (diri_dir fs d) = apk_blob_hash (Some (diri_name fs d)) \<and>
        (\<forall>f \<in> set (cur_files fs d). f < fs_next_file fs)) \<and>
     distinct (concat (map (cur_files fs) (ic_diris fs)))"

definition holds :: "file_db \<Rightarrow> dir_view list \<Rightarrow> bool" where
  "holds fs V \<longleftrightarrow> in_order fs \<and> map (cur_view fs) (ic_diris fs) = V"

lemma creator_distinct: "creator_ok fs \<Longrightarrow> distinct (ic_diris fs)"
  by (simp add: creator_ok_def ic_ok_def distinct_map)

lemma commit_files_sorted:
  "\<not> ic_files_unsorted fs \<Longrightarrow> apk_db_ipkg_commit_files fs =
     (case ic_diri fs of None \<Rightarrow> fs | Some d \<Rightarrow> upd_diri d (\<lambda>x. x\<lparr>di_files := ic_files fs\<rparr>) fs)\<lparr>ic_files_unsorted := False, ic_files := []\<rparr>"
  by (simp add: apk_db_ipkg_commit_files_def Let_def)

text \<open>The invariant looks at the names of directories and at the arrays of the creator only.\<close>

definition same_creator :: "file_db \<Rightarrow> file_db \<Rightarrow> bool" where
  "same_creator fs fs' \<longleftrightarrow>
     fs_dirs fs' = fs_dirs fs \<and> fs_next_dir fs' = fs_next_dir fs \<and> fs_next_diri fs' = fs_next_diri fs \<and>
     ic_diris fs' = ic_diris fs \<and> ic_num_unsorted_diris fs' = ic_num_unsorted_diris fs \<and> ic_diri fs' = ic_diri fs \<and>
     (\<forall>d. dr_name (fs_dir fs' d) = dr_name (fs_dir fs d) \<and> dr_hash (fs_dir fs' d) = dr_hash (fs_dir fs d)) \<and>
     (\<forall>d. di_dir (fs_diri fs' d) = di_dir (fs_diri fs d))"

lemma same_creator_ok:
  assumes "same_creator fs fs'" "creator_ok fs"
  shows "creator_ok fs'"
proof -
  note e = assms(1) [unfolded same_creator_def]
  have "diri_name fs' d = diri_name fs d" for d using e by simp
  then have "diri_order.ascending fs' ds = diri_order.ascending fs ds" for ds by (rule ascending_names)
  then show ?thesis using assms(2) e by (simp add: creator_ok_def ic_ok_def dirs_ok_def store_bounds_def)
qed

lemma same_creator_holds:
  assumes "same_creator fs fs'" "files_ok fs'" "fs_next_file fs \<le> fs_next_file fs'" "\<not> ic_files_unsorted fs'" "holds fs V"
    and "\<And>d. d \<in> set (ic_diris fs) \<Longrightarrow> cur_files fs' d = cur_files fs d"
  shows "holds fs' (map (cur_view fs') (ic_diris fs))"
proof -
  note e = assms(1) [unfolded same_creator_def]
  have o: "in_order fs" using assms(5) by (simp add: holds_def)
  have m: "map (cur_files fs') (ic_diris fs) = map (cur_files fs) (ic_diris fs)" using assms(6) by simp
  have "distinct (concat (map (cur_files fs') (ic_diris fs)))" unfolding m using o by (simp add: in_order_def)
  then show ?thesis
    using o e assms(2-4, 6) same_creator_ok [OF assms(1)] unfolding holds_def in_order_def by (auto intro: less_le_trans)
qed

text \<open>A directory behind the others.\<close>

lemma holds_names: "holds fs V \<Longrightarrow> map (diri_name fs) (ic_diris fs) = map fst V"
  by (auto simp: holds_def cur_view_def dir_view_def)

lemma holds_last:
  assumes "holds fs V" "ic_diris fs \<noteq> []"
  shows "diri_name fs (last (ic_diris fs)) = fst (last V)"
proof -
  have "last (map (diri_name fs) (ic_diris fs)) = last (map fst V)" by (simp add: holds_names [OF assms(1)])
  moreover have "V \<noteq> []" using assms by (auto simp: holds_def)
  ultimately show ?thesis using assms(2) by (simp add: last_map)
qed

lemma ascending_below:
  assumes "diri_order.ascending fs ds" "bytes_less (diri_name fs (last ds)) n" "d \<in> set ds"
  shows "bytes_less (diri_name fs d) n"
proof -
  have e: "ds = butlast ds @ [last ds]" using assms(3) by (cases ds) auto
  then have "diri_order.ascending fs (butlast ds @ [last ds])" using assms(1) by simp
  then have "d = last ds \<or> bytes_less (diri_name fs d) (diri_name fs (last ds))"
    using assms(3) by (subst (asm) e) (auto simp: diri_order.ascending_append)
  then show ?thesis using assms(2) by (auto intro: bytes_less_trans)
qed

lemma diri_append:
  assumes h: "holds fs V" and clean: "clean_path n" and behind: "V \<noteq> [] \<Longrightarrow> bytes_less (fst (last V)) n"
  obtains d fs' where "apk_db_diri_get env (Some n) pkg fs = (d, fs')"
    "holds fs' (V @ [(n, apk_default_acl_dir, [])])" "fs_files fs' = fs_files fs" "ic_diris fs' = ic_diris fs @ [d]"
proof -
  let ?ds = "ic_diris fs"
  have o: "in_order fs" and V: "map (cur_view fs) ?ds = V" using h by (simp_all add: holds_def)
  have c: "ic_ok fs" "dirs_ok fs" "store_bounds fs" "ic_num_unsorted_diris fs = 0" "\<not> ic_files_unsorted fs" "files_ok fs"
    and cur: "ic_diri fs = (if ?ds = [] then None else Some (last ?ds))"
    using o by (simp_all add: in_order_def creator_ok_def)
  have asc: "diri_order.ascending fs ?ds" using c(1, 4) by (simp add: ic_ok_def)
  have last: "bytes_less (diri_name fs (last ?ds)) n" if "?ds \<noteq> []"
    using behind holds_last [OF h that] V that by auto
  have below: "bytes_less (diri_name fs d) n" if "d \<in> set ?ds" for d
    using ascending_below [OF asc last that] that by fastforce
  then have fresh: "blob_bytes (Some n) \<notin> diri_name fs ` set ?ds" by fastforce
  have bs: "apk_db_diri_bsearch (Some n) fs = (None, fs)"
  proof -
    obtain r fs1 where b: "apk_db_diri_bsearch (Some n) fs = (r, fs1)" by fastforce
    have "r = None" using diri_bsearch_spec(1) [OF c(1) b] fresh by (auto simp: find_None_iff)
    moreover have "fs1 = fs" using b c(4) by (auto simp: apk_db_diri_bsearch_def Let_def split: option.splits)
    ultimately show ?thesis using b by simp
  qed
  have "diri_name fs (last ?ds) \<noteq> n" if "?ds \<noteq> []" using last [OF that] by auto
  then have sgn: "diri_sign fs (Some n) \<noteq> 0"
    using diri_order.bcmp_sign(3) [of fs "Some n"] cur by (auto simp: diri_sign_def split: option.splits if_splits)
  obtain d fs2 where n: "diri_new env (Some n) pkg (diri_sign fs (Some n)) fs = (d, fs2)" "d = fs_next_diri fs" "ic_ok fs2" "dirs_ok fs2"
      "store_bounds fs2" "ic_diris fs2 = ?ds @ [d]" "diri_name fs2 d = blob_bytes (Some n)" "dr_hash (diri_dir fs2 d) = apk_blob_hash (Some n)"
      "\<And>e. e \<in> set ?ds \<Longrightarrow> diri_name fs2 e = diri_name fs e"
      "fs_diri fs2 = (fs_diri fs)(d := \<lparr>di_files = [], di_pkg = pkg, di_dir = di_dir (fs_diri fs2 d), di_acl = apk_default_acl_dir\<rparr>)"
      "fs_next_diri fs2 = d + 1" "fs_files fs2 = fs_files fs" "fs_file fs2 = fs_file fs" "fs_next_file fs2 = fs_next_file fs"
      "ic_files fs2 = ic_files fs" "ic_files_unsorted fs2 = ic_files_unsorted fs" "ic_diri fs2 = ic_diri fs"
      "(\<forall>e < fs_next_dir fs. dr_name (fs_dir fs2 e) = dr_name (fs_dir fs e) \<and> dr_hash (fs_dir fs2 e) = dr_hash (fs_dir fs e))"
      "fs_next_dir fs \<le> fs_next_dir fs2" "di_dir (fs_diri fs2 d) < fs_next_dir fs2"
      "ic_num_unsorted_diris fs = 0 \<longrightarrow> (?ds \<noteq> [] \<longrightarrow> bytes_less (diri_name fs (last ?ds)) (blob_bytes (Some n))) \<longrightarrow> ic_num_unsorted_diris fs2 = 0"
    by (rule diri_new_spec [OF c(1-3) _ fresh refl, of env pkg]) (use clean in simp, rule that)
  define dir where "dir = di_dir (fs_diri fs2 d)"
  note store = n(10) [folded dir_def]
  define fs' where "fs' = apk_db_diri_select d fs2"
  have g: "apk_db_diri_get env (Some n) pkg fs = (d, fs')"
    using sgn bs n(1) by (simp add: apk_db_diri_get_def Let_def diri_sign_def [symmetric] fs'_def)
  have old: "e < d" "e \<noteq> d" if "e \<in> set ?ds" for e using c(3) that by (auto simp: store_bounds_def n(2))
  have ne: "ic_diri fs \<noteq> Some d" using cur old(2) by (auto split: if_splits)
  have e: "fs' = (case ic_diri fs of None \<Rightarrow> fs2 | Some e \<Rightarrow> upd_diri e (\<lambda>x. x\<lparr>di_files := ic_files fs\<rparr>) fs2)
      \<lparr>ic_files_unsorted := False, ic_files := [], ic_diri := Some d\<rparr>"
    using ne c(5) store n(15-17) unfolding fs'_def apk_db_diri_select_def
    by (simp add: commit_files_sorted Let_def) (auto simp: upd_diri_def split: option.split)
  have sel: "fs_files fs' = fs_files fs" "fs_file fs' = fs_file fs" "fs_next_file fs' = fs_next_file fs" "ic_files fs' = []"
    "\<not> ic_files_unsorted fs'" "ic_diri fs' = Some d" "ic_diris fs' = ?ds @ [d]" "ic_num_unsorted_diris fs' = 0" "fs_dir fs' = fs_dir fs2"
    using n(6, 12-14, 21) c(4) last unfolding e by (auto simp: upd_diri_def split: option.split)
  have diri: "fs_diri fs' a = (fs_diri fs a)\<lparr>di_files := cur_files fs a\<rparr>" if "a \<in> set ?ds" for a
    unfolding e using old [OF that] by (auto simp: upd_diri_def cur_files_def store split: option.split)
  have new: "fs_diri fs' d = fs_diri fs2 d" unfolding e using ne by (auto simp: upd_diri_def split: option.split)
  have d: "di_acl (fs_diri fs2 d) = apk_default_acl_dir" by (simp add: store)
  have files: "cur_files fs' a = cur_files fs a" if "a \<in> set ?ds" for a
    using old [OF that] sel(6) diri [OF that] by (simp add: cur_files_def [of fs'])
  have newf: "cur_files fs' d = []" by (simp add: cur_files_def sel)
  have bnd: "di_dir (fs_diri fs a) < fs_next_dir fs" if "a \<in> set ?ds" for a using c(3) that by (simp add: store_bounds_def)
  have dirs: "dr_name (fs_dir fs2 (di_dir (fs_diri fs a))) = diri_name fs a" "dr_hash (fs_dir fs2 (di_dir (fs_diri fs a))) = dr_hash (diri_dir fs a)"
    if "a \<in> set ?ds" for a using n(18) bnd [OF that] by simp_all
  have view: "cur_view fs' a = cur_view fs a" if "a \<in> set ?ds" for a
    using files [OF that] diri [OF that] dirs [OF that] by (simp add: cur_view_def dir_view_def sel)
  have "cur_view fs' d = (n, apk_default_acl_dir, [])" using n(7) d by (simp add: cur_view_def dir_view_def newf new sel)
  then have views: "map (cur_view fs') (ic_diris fs') = V @ [(n, apk_default_acl_dir, [])]"
    using V view by (simp add: sel cong: map_cong)
  have "ic_ok fs'" "dirs_ok fs'" "store_bounds fs'" unfolding fs'_def using n(3-6) by (simp_all add: select_ok)
  moreover have "files_ok fs'" using c(6) by (simp add: files_ok_def sel)
  moreover have "distinct (concat (map (cur_files fs') (ic_diris fs')))"
  proof -
    have m: "map (cur_files fs') ?ds = map (cur_files fs) ?ds" using files by simp
    show ?thesis using o by (simp add: sel newf m in_order_def)
  qed
  moreover have "dr_hash (diri_dir fs' a) = apk_blob_hash (Some (diri_name fs' a)) \<and> (\<forall>f \<in> set (cur_files fs' a). f < fs_next_file fs')"
    if "a \<in> set (ic_diris fs')" for a
  proof (cases "a = d")
    case True
    then show ?thesis using n(7, 8) newf new by (simp add: sel)
  next
    case False
    then have a: "a \<in> set ?ds" using that by (simp add: sel)
    then show ?thesis using o diri [OF a] dirs [OF a] files [OF a] by (simp add: sel in_order_def)
  qed
  ultimately have "in_order fs'"
    using o sel by (simp add: in_order_def creator_ok_def)
  with views have "holds fs' (V @ [(n, apk_default_acl_dir, [])])" by (simp add: holds_def)
  then show thesis by (rule that [OF g _ sel(1) sel(7)])
qed


text \<open>The current directory is the last one.\<close>

lemma holds_current:
  assumes "holds fs (V @ [(n, acl, F)])"
  obtains ds d where "ic_diris fs = ds @ [d]" "ic_diri fs = Some d" "d \<notin> set ds" "map (cur_view fs) ds = V" "diri_name fs d = n"
    "di_acl (fs_diri fs d) = acl" "map (file_view \<circ> fs_file fs) (ic_files fs) = F"
proof -
  have m: "map (cur_view fs) (ic_diris fs) = V @ [(n, acl, F)]" and o: "in_order fs" using assms by (simp_all add: holds_def)
  obtain ds d where ds: "ic_diris fs = ds @ [d]" using m by (cases "ic_diris fs" rule: rev_cases) auto
  then have c: "ic_diri fs = Some d" using o by (simp add: in_order_def)
  moreover have "d \<notin> set ds" using o creator_distinct [of fs] ds by (simp add: in_order_def)
  moreover have "cur_view fs d = (n, acl, F)" "map (cur_view fs) ds = V" using m ds by simp_all
  ultimately show thesis using that ds by (simp add: cur_view_def dir_view_def cur_files_def)
qed

lemma set_diri_acl:
  assumes "holds fs (V @ [(n, acl, F)])" "ic_diri fs = Some d"
  shows "holds (upd_diri d (\<lambda>x. x\<lparr>di_acl := acl'\<rparr>) fs) (V @ [(n, acl', F)])"
proof -
  let ?fs = "upd_diri d (\<lambda>x. x\<lparr>di_acl := acl'\<rparr>) fs"
  obtain ds where c: "ic_diris fs = ds @ [d]" "d \<notin> set ds" "map (cur_view fs) ds = V" "diri_name fs d = n"
      "map (file_view \<circ> fs_file fs) (ic_files fs) = F"
    by (rule holds_current [OF assms(1)]) (use assms(2) that in auto)
  have "in_order fs" using assms(1) by (simp add: holds_def)
  then have "holds ?fs (map (cur_view ?fs) (ic_diris fs))"
    by (intro same_creator_holds [OF _ _ _ _ assms(1)])
      (simp_all add: same_creator_def upd_diri_def files_ok_def in_order_def cur_files_def)
  moreover have "cur_view ?fs a = cur_view fs a" if "a \<in> set ds" for a
    using c(2) that by (auto simp: cur_view_def dir_view_def upd_diri_def cur_files_def)
  then have "map (cur_view ?fs) (ic_diris fs) = V @ [(n, acl', F)]"
    using c assms(2) by (auto simp: cur_view_def dir_view_def upd_diri_def cur_files_def)
  ultimately show ?thesis by simp
qed

text \<open>A file behind the others.\<close>

lemma file_append:
  assumes h: "holds fs (V @ [(n, acl, F)])" and d: "ic_diri fs = Some d" and len: "length m < 256"
    and behind: "F \<noteq> [] \<Longrightarrow> bytes_less (fst (last F)) m" and new: "(n, m) \<notin> known_files fs"
  obtains f fs' where "apk_db_file_get d (Some m) fs = (f, fs')" "holds fs' (V @ [(n, acl, F @ [(m, apk_default_acl_file, APK_DIGEST_NONE, [])])])"
    "known_files fs' = insert (n, m) (known_files fs)" "ic_diri fs' = Some d" "ic_files fs' = ic_files fs @ [f]" "ic_diris fs' = ic_diris fs"
proof -
  obtain ds where c: "ic_diris fs = ds @ [d]" "d \<notin> set ds" "map (cur_view fs) ds = V" "diri_name fs d = n" "di_acl (fs_diri fs d) = acl"
      "map (file_view \<circ> fs_file fs) (ic_files fs) = F"
    by (rule holds_current [OF h]) (use d that in auto)
  have o: "in_order fs" using h by (simp add: holds_def)
  then have hash: "dr_hash (diri_dir fs d) = apk_blob_hash (Some n)" and ok: "files_ok fs" "\<not> ic_files_unsorted fs"
    using c(1, 4) by (auto simp: in_order_def)
  let ?f = "fs_next_file fs" and ?hash = "apk_blob_hash_seed (Some m) (dr_hash (diri_dir fs d))"
  let ?file = "null_file\<lparr>fl_cname := m, fl_namelen := of_nat (length m), fl_diri := d\<rparr>"
  let ?item = "\<lparr>fe_file = ?f, fe_dirname = n, fe_dirhash = dr_hash (diri_dir fs d), fe_name = m\<rparr>"
  have "take_bit 8 (length m) = length m" using len by (simp add: take_bit_nat_eq_self_iff)
  then have nm: "fl_name ?file = m" by (simp add: fl_name_def unsigned_of_nat)
  have look: "apk_hash_get_hashed (fs_files fs) \<lparr>fk_dirname = Some n, fk_filename = Some m\<rparr> ?hash = None"
    by (rule file_lookup [OF ok(1)]) (simp_all add: hash new)
  have below: "f < ?f" if "f \<in> set (ic_files fs)" for f using o c(1) d that by (auto simp: in_order_def cur_files_def)
  have fl: "fl_name (fs_file fs (last (ic_files fs))) = fst (last F)" if "ic_files fs \<noteq> []"
    unfolding c(6) [symmetric] using that by (simp add: last_map file_view_def)
  define fs' where "fs' = fs\<lparr>fs_next_file := ?f + 1, fs_file := (fs_file fs)(?f := ?file), ic_files_unsorted := False,
      ic_files := ic_files fs @ [?f], fs_files := apk_hash_insert_hashed (fs_files fs) ?item ?hash, fs_num_files := fs_num_files fs + 1\<rparr>"
  have "files_qsort_cmp (fs\<lparr>fs_next_file := ?f + 1, fs_file := (fs_file fs)(?f := ?file)\<rparr>) ?f (last (ic_files fs)) \<ge> 0" if "ic_files fs \<noteq> []"
  proof -
    have "last (ic_files fs) \<noteq> ?f" using below last_in_set [OF that] by fastforce
    moreover have "bytes_less (fst (last F)) m" using behind c(6) that by auto
    moreover from this have "\<not> bytes_less m (fst (last F))" using bytes_less_trans bytes_less_irrefl by blast
    ultimately show ?thesis using fl [OF that] by (simp add: files_qsort_cmp_def nm apk_blob_sort_less flip: not_less)
  qed
  then have get: "apk_db_file_get d (Some m) fs = (?f, fs')"
    using ok(2) by (simp add: apk_db_file_get_def apk_db_file_new_def Let_def c(4) look nm fs'_def not_less)
  have "fs_files fs' = apk_hash_insert_hashed (fs_files fs) ?item ?hash" by (simp add: fs'_def)
  then have tab: "files_ok fs'" "known_files fs' = insert (n, m) (known_files fs)"
    using file_insert [OF ok(1), of ?item ?hash fs'] new by (simp_all add: hash file_path_def)
  have files: "cur_files fs' a = (if a = d then ic_files fs @ [?f] else cur_files fs a)" for a
    using d by (simp add: cur_files_def fs'_def)
  have same: "same_creator fs fs'" by (simp add: same_creator_def fs'_def)
  have old: "a < ?f" if "a \<in> set (cur_files fs e)" "e \<in> set (ic_diris fs)" for a e using o that by (auto simp: in_order_def)
  have view: "cur_view fs' a = cur_view fs a" if "a \<in> set ds" for a
  proof -
    have "fs_file fs' x = fs_file fs x" if "x \<in> set (cur_files fs a)" for x
      using old [OF that] \<open>a \<in> set ds\<close> c(1) by (auto simp: fs'_def)
    moreover have "a \<noteq> d" using that c(2) by auto
    ultimately show ?thesis by (simp add: cur_view_def dir_view_def files) (simp add: fs'_def)
  qed
  have "fs_file fs' x = fs_file fs x" if "x \<in> set (ic_files fs)" for x using below [OF that] by (simp add: fs'_def)
  then have "map (file_view \<circ> fs_file fs') (ic_files fs) = F" using c(6) by auto
  moreover have "file_view (fs_file fs' ?f) = (m, apk_default_acl_file, APK_DIGEST_NONE, [])"
    using nm by (simp add: fs'_def file_view_def null_file_def) (simp add: digest_consts apk_digest_alg_len_def)
  ultimately have "cur_view fs' d = (n, acl, F @ [(m, apk_default_acl_file, APK_DIGEST_NONE, [])])"
    using c(4, 5) by (simp add: cur_view_def dir_view_def files) (simp add: fs'_def)
  then have views: "map (cur_view fs') (ic_diris fs') = V @ [(n, acl, F @ [(m, apk_default_acl_file, APK_DIGEST_NONE, [])])]"
    using view c(1, 3) same by (auto simp: same_creator_def)
  have "\<forall>e \<in> set (ic_diris fs'). dr_hash (diri_dir fs' e) = apk_blob_hash (Some (diri_name fs' e)) \<and> (\<forall>f \<in> set (cur_files fs' e). f < fs_next_file fs')"
    using o same old below by (auto simp: in_order_def same_creator_def files less_Suc_eq) (auto simp: fs'_def less_Suc_eq)
  moreover have "distinct (concat (map (cur_files fs') (ic_diris fs')))"
  proof -
    have m: "map (cur_files fs') ds = map (cur_files fs) ds" using c(2) by (auto simp: files)
    have "distinct (concat (map (cur_files fs) (ds @ [d])))" using o c(1) by (simp add: in_order_def)
    moreover have "?f \<notin> set (concat (map (cur_files fs) (ds @ [d])))" using old c(1) by fastforce
    moreover have "cur_files fs d = ic_files fs" using d by (simp add: cur_files_def)
    ultimately have "distinct (concat (map (cur_files fs') ds @ [ic_files fs @ [?f]]))" unfolding m by auto
    then show ?thesis using same c(1) by (simp add: same_creator_def files [of d])
  qed
  ultimately have "in_order fs'"
    using o same same_creator_ok [OF same] tab(1) by (auto simp: in_order_def same_creator_def) (simp_all add: fs'_def)
  then have "holds fs' (V @ [(n, acl, F @ [(m, apk_default_acl_file, APK_DIGEST_NONE, [])])])" using views by (simp add: holds_def)
  then show thesis by (rule that [OF get _ tab(2)]) (simp_all add: fs'_def d)
qed

text \<open>The fields of the last file.\<close>

lemma set_file:
  assumes h: "holds fs (V @ [(n, acl, F @ [w])])" and f: "ic_files fs = fl @ [f]"
  shows "holds (upd_file f u fs) (V @ [(n, acl, F @ [file_view (u (fs_file fs f))])])"
    and "file_view (fs_file fs f) = w"
proof -
  let ?fs = "upd_file f u fs"
  obtain ds d where c: "ic_diris fs = ds @ [d]" "ic_diri fs = Some d" "d \<notin> set ds" "map (cur_view fs) ds = V" "diri_name fs d = n"
      "di_acl (fs_diri fs d) = acl" "map (file_view \<circ> fs_file fs) (ic_files fs) = F @ [w]"
    by (rule holds_current [OF h])
  have o: "in_order fs" using h by (simp add: holds_def)
  then have "distinct (concat (map (cur_files fs) ds) @ ic_files fs)" using c(1, 2) by (simp add: in_order_def cur_files_def)
  then have f': "f \<notin> set (concat (map (cur_files fs) ds))" "f \<notin> set fl" using f by auto
  have "holds ?fs (map (cur_view ?fs) (ic_diris fs))"
    by (rule same_creator_holds [OF _ _ _ _ h])
      (use o in \<open>simp_all add: same_creator_def upd_file_def files_ok_def in_order_def cur_files_def\<close>)
  moreover have "cur_view ?fs a = cur_view fs a" if "a \<in> set ds" for a
  proof -
    have "f \<notin> set (cur_files fs a)" using f'(1) that by auto
    moreover have "cur_files ?fs a = cur_files fs a" by (simp add: cur_files_def upd_file_def)
    ultimately show ?thesis by (auto simp: cur_view_def dir_view_def) (auto simp: upd_file_def)
  qed
  moreover have F: "map (file_view \<circ> fs_file fs) fl = F" and w: "file_view (fs_file fs f) = w" using c(7) f by simp_all
  then have "cur_view ?fs d = (n, acl, F @ [file_view (u (fs_file fs f))])"
    using c(2, 5, 6) f f'(2) by (auto simp: cur_view_def dir_view_def cur_files_def upd_file_def)
  ultimately show "holds ?fs (V @ [(n, acl, F @ [file_view (u (fs_file fs f))])])" using c(1, 4) by (auto cong: map_cong)
  show "file_view (fs_file fs f) = w" by (rule w)
qed

text \<open>Owners and permissions of directories are kept apart from names.\<close>

definition keeps_views :: "file_db \<Rightarrow> file_db \<Rightarrow> bool" where
  "keeps_views fs fs' \<longleftrightarrow> same_creator fs fs' \<and> fs_files fs' = fs_files fs \<and> fs_file fs' = fs_file fs \<and> fs_diri fs' = fs_diri fs \<and>
     fs_next_file fs' = fs_next_file fs \<and> ic_files fs' = ic_files fs \<and> ic_files_unsorted fs' = ic_files_unsorted fs"

lemma keeps_views_holds: "keeps_views fs fs' \<Longrightarrow> holds fs V \<Longrightarrow> holds fs' V"
proof -
  assume k: "keeps_views fs fs'" and h: "holds fs V"
  note e = k [unfolded keeps_views_def same_creator_def]
  have o: "in_order fs" using h by (simp add: holds_def)
  have files: "cur_files fs' d = cur_files fs d" for d using e by (simp add: cur_files_def)
  have "holds fs' (map (cur_view fs') (ic_diris fs))"
    by (rule same_creator_holds [OF _ _ _ _ h files])
      (use o k in \<open>simp_all add: keeps_views_def in_order_def files_ok_def\<close>)
  moreover have "cur_view fs' = cur_view fs" using e files by (simp add: cur_view_def dir_view_def fun_eq_iff)
  ultimately show "holds fs' V" using h by (simp add: holds_def)
qed

lemma keeps_views_refl [simp]: "keeps_views fs fs"
  by (simp add: keeps_views_def same_creator_def)

lemma keeps_views_trans: "keeps_views a b \<Longrightarrow> keeps_views b c \<Longrightarrow> keeps_views a c"
  by (simp add: keeps_views_def same_creator_def)

lemma keeps_views_dir: "keeps_name f \<Longrightarrow> keeps_views fs (upd_dir d f fs)"
  by (simp add: keeps_views_def same_creator_def upd_dir_def keeps_name_def)

lemma keeps_views_log [simp]: "keeps_views fs (fs\<lparr>fs_log := l\<rparr>)" "keeps_views fs (fs\<lparr>fs_num_dir_update_errors := e\<rparr>)"
  by (simp_all add: keeps_views_def same_creator_def)

lemma update_permissions_views: "keeps_views fs (apk_db_dir_update_permissions env d fs)"
  by (auto simp: apk_db_dir_update_permissions_def Let_def fs_perform_def keeps_views_def same_creator_def upd_dir_def dr_name_def)

lemma apply_permissions_views: "keeps_views fs (apk_db_dir_apply_diri_permissions env pkg_of d fs)"
proof -
  have m: "keeps_views fs (upd_dir x (\<lambda>x. x\<lparr>dr_owner := v\<rparr>) fs)" for x v fs by (rule keeps_views_dir) auto
  show ?thesis
    unfolding apk_db_dir_apply_diri_permissions_def Let_def
    by (auto split: option.split intro!: m keeps_views_trans [OF update_permissions_views m])
qed

text \<open>When the package is complete, its instances have the views.\<close>

lemma commit_views:
  assumes "holds fs V" "apk_db_ipkg_commit fs = (ds, fs')"
  shows "map (\<lambda>d. dir_view fs' (di_files (fs_diri fs' d)) d) ds = V" "ds = ic_diris fs" "fs_files fs' = fs_files fs"
proof -
  let ?fs1 = "apk_db_ipkg_commit_files fs"
  let ?step = "\<lambda>d fs. upd_dir (di_dir (fs_diri fs d)) (\<lambda>x. x\<lparr>dr_diris := dr_diris x @ [d]\<rparr>) fs"
  have o: "in_order fs" and V: "map (cur_view fs) (ic_diris fs) = V" using assms(1) by (simp_all add: holds_def)
  have k: "keeps_views a (fold ?step xs a)" for xs a
  proof (induction xs arbitrary: a)
    case (Cons x xs)
    have "keeps_views a (?step x a)" by (rule keeps_views_dir) auto
    then show ?case using Cons keeps_views_trans by fastforce
  qed simp
  have e: "?fs1 = (case ic_diri fs of None \<Rightarrow> fs | Some d \<Rightarrow> upd_diri d (\<lambda>x. x\<lparr>di_files := ic_files fs\<rparr>) fs)
      \<lparr>ic_files_unsorted := False, ic_files := []\<rparr>" using o by (intro commit_files_sorted) (simp add: in_order_def)
  have c1: "ic_diris ?fs1 = ic_diris fs" "fs_files ?fs1 = fs_files fs" unfolding e by (simp_all add: upd_diri_def split: option.split)
  let ?fs2 = "fold ?step (ic_diris fs) ?fs1"
  have r: "ds = ic_diris fs" "fs' = apk_db_ipkg_creator_reset ?fs2"
    using assms(2) unfolding apk_db_ipkg_commit_def Let_def c1 by auto
  show "ds = ic_diris fs" by (rule r)
  have k2: "keeps_views ?fs1 ?fs2" by (rule k)
  show "fs_files fs' = fs_files fs" using k2 c1(2) by (simp add: r apk_db_ipkg_creator_reset_def keeps_views_def)
  have "dir_view fs' (di_files (fs_diri fs' d)) d = cur_view fs d" for d
  proof -
    have "dir_view fs' (di_files (fs_diri fs' d)) d = dir_view ?fs1 (di_files (fs_diri ?fs1 d)) d"
      using k2 by (simp add: r apk_db_ipkg_creator_reset_def keeps_views_def same_creator_def dir_view_def)
    also have "\<dots> = cur_view fs d" unfolding e by (auto simp: dir_view_def cur_view_def cur_files_def upd_diri_def split: option.split)
    finally show ?thesis .
  qed
  then show "map (\<lambda>d. dir_view fs' (di_files (fs_diri fs' d)) d) ds = V" using V r(1) by simp
qed

end
