(* ===== verification/Fdb_Installed.thy ===== *)
theory Fdb_Installed
  imports Fdb_Index Fdb_Files Repoparser
begin

text \<open>
  The list of installed packages read back: the lines of the directories and files of a package, and
  what reading them does to the creator.
\<close>

section \<open>The written lines\<close>

definition acl_text :: "apk_db_acl \<Rightarrow> bytes" where
  "acl_text acl =
     num_text (ucast (acl_uid acl)) 10 @ '':'' @ num_text (ucast (acl_gid acl)) 10 @ '':'' @ num_text (ucast (acl_mode acl)) 8 @
     (if acl_xattr_hash acl = [] then [] else '':Q1'' @ push_b64_loop (acl_xattr_hash acl))"

text \<open>The mode has the permission bits only, and the attributes have no digest or one of 20 bytes.\<close>

definition acl_ok :: "apk_db_acl \<Rightarrow> bool" where
  "acl_ok acl \<longleftrightarrow> acl_mode acl AND 4095 = acl_mode acl \<and> (acl_xattr_hash acl = [] \<or> length (acl_xattr_hash acl) = 20)"

definition file_lines :: "file_view \<Rightarrow> bytes list" where
  "file_lines v =
     (case v of (n, acl, alg, digest) \<Rightarrow>
        [''R:'' @ n] @ opt_line (acl \<noteq> apk_default_acl_file) ''a:'' (acl_text acl) @
        opt_line (alg \<noteq> APK_DIGEST_NONE) ''Z:'' (''Q1'' @ push_b64_loop digest))"

definition dir_lines :: "dir_view \<Rightarrow> bytes list" where
  "dir_lines v =
     (case v of (n, acl, files) \<Rightarrow>
        [''F:'' @ n] @ opt_line (acl \<noteq> apk_default_acl_dir) ''M:'' (acl_text acl) @ concat (map file_lines files))"

text \<open>The algorithm of a file is given by the flag of the package.\<close>

definition file_ok :: "bool \<Rightarrow> file_view \<Rightarrow> bool" where
  "file_ok sha256 v \<longleftrightarrow>
     (case v of (n, acl, alg, digest) \<Rightarrow>
        is_line n \<and> length n < 256 \<and> acl_ok acl \<and>
        (alg = APK_DIGEST_NONE \<and> digest = [] \<or>
         alg = (if sha256 then APK_DIGEST_SHA256_160 else APK_DIGEST_SHA1) \<and> length digest = 20))"

definition dir_ok :: "bool \<Rightarrow> dir_view \<Rightarrow> bool" where
  "dir_ok sha256 v \<longleftrightarrow>
     (case v of (n, acl, files) \<Rightarrow>
        is_line n \<and> clean_path n \<and> acl_ok acl \<and> (\<forall>f \<in> set files. file_ok sha256 f) \<and>
        sorted_wrt (\<lambda>f g. bytes_less (fst f) (fst g)) files)"

lemma push_acl_text:
  assumes "acl_ok acl"
  shows "apk_blob_push_db_acl w c acl = apk_blob_push_blob w (Some ([c, CHR '':''] @ acl_text acl @ [NL]))"
  using assms push_hash_blob [of "acl_xattr_hash acl"]
  by (auto simp: apk_blob_push_db_acl_def Let_def push_uint_blob push_blob_append acl_text_def acl_ok_def)

lemma push_file_text:
  assumes "file_ok sha256 (file_view f)"
  shows "push_file w f = apk_blob_push_blob w (Some (text_of (file_lines (file_view f))))"
proof -
  have acl: "acl_ok (fl_acl f)" using assms by (simp add: file_ok_def file_view_def)
  have len: "length (take (apk_digest_alg_len (fl_digest_alg f)) (fl_digest f)) = 20" if "fl_digest_alg f \<noteq> APK_DIGEST_NONE"
    using assms that by (auto simp: file_ok_def file_view_def)
  show ?thesis
    using push_hash_blob [OF len]
    by (auto simp: push_file_def Let_def push_text_line_def push_acl_text [OF acl] push_blob_append file_lines_def file_view_def
        apk_dbf_digest_blob_def text_of_def opt_line_def)
qed

lemma pushed_text: "apk_blob_pushed n (apk_blob_push_blob (APK_BLOB_BUF n) (Some t)) = Some u \<Longrightarrow> u = t"
  by (auto simp: apk_blob_pushed_def APK_BLOB_BUF_def apk_blob_push_blob_def split: if_splits)

lemma write_files_text:
  "write_files fs = Inr t \<Longrightarrow> \<forall>f \<in> set fs. file_ok sha256 (file_view f) \<Longrightarrow> t = text_of (concat (map (file_lines \<circ> file_view) fs))"
proof (induction fs arbitrary: t)
  case (Cons f fs)
  then obtain u rest where u: "apk_blob_pushed fdb_bufsize (push_file (APK_BLOB_BUF fdb_bufsize) f) = Some u" "write_files fs = Inr rest" "t = u @ rest"
    by (auto split: option.splits sum.splits)
  have "u = text_of (file_lines (file_view f))" using u(1) push_file_text [of sha256 f] Cons.prems(2) pushed_text by fastforce
  then show ?case using Cons.IH [OF u(2)] Cons.prems(2) u(3) by (simp add: text_of_append)
qed (simp add: text_of_def)

definition stored_view :: "file_db \<Rightarrow> nat \<Rightarrow> dir_view" where
  "stored_view fs d = dir_view fs (di_files (fs_diri fs d)) d"

lemma push_diri_text:
  assumes "dir_ok sha256 (stored_view fs d)"
  shows "push_diri w fs d = apk_blob_push_blob w (Some (text_of ([''F:'' @ diri_name fs d] @
    opt_line (di_acl (fs_diri fs d) \<noteq> apk_default_acl_dir) ''M:'' (acl_text (di_acl (fs_diri fs d))))))"
  using assms push_acl_text [of "di_acl (fs_diri fs d)"]
  by (auto simp: push_diri_def Let_def push_text_line_def push_blob_append dir_ok_def stored_view_def dir_view_def text_of_def opt_line_def)

text \<open>What is in the buffer already comes in front of the first directory.\<close>

lemma write_diris_text:
  "write_diris fs (apk_blob_push_blob (APK_BLOB_BUF fdb_bufsize) (Some pre)) ds = Inr t \<Longrightarrow> ds \<noteq> [] \<or> pre = [] \<Longrightarrow>
   \<forall>d \<in> set ds. dir_ok sha256 (stored_view fs d) \<Longrightarrow> t = pre @ text_of (concat (map (dir_lines \<circ> stored_view fs) ds))"
proof (induction ds arbitrary: t pre)
  case (Cons d ds)
  let ?b = "apk_blob_push_blob (APK_BLOB_BUF fdb_bufsize) (Some pre)"
  let ?head = "[''F:'' @ diri_name fs d] @ opt_line (di_acl (fs_diri fs d) \<noteq> apk_default_acl_dir) ''M:'' (acl_text (di_acl (fs_diri fs d)))"
  let ?files = "map (fs_file fs) (di_files (fs_diri fs d))"
  obtain u files rest where u: "apk_blob_pushed fdb_bufsize (push_diri ?b fs d) = Some u" "write_files ?files = Inr files"
      "write_diris fs (APK_BLOB_BUF fdb_bufsize) ds = Inr rest" "t = u @ files @ rest"
    using Cons.prems(1) by (auto split: option.splits sum.splits)
  have ok: "dir_ok sha256 (stored_view fs d)" using Cons.prems(3) by simp
  have "push_diri ?b fs d = apk_blob_push_blob (APK_BLOB_BUF fdb_bufsize) (Some (pre @ text_of ?head))"
    using push_diri_text [OF ok, of ?b] by (simp add: push_blob_append)
  then have "u = pre @ text_of ?head" using u(1) pushed_text by metis
  moreover have "files = text_of (concat (map (file_lines \<circ> file_view) ?files))"
    using ok by (intro write_files_text [OF u(2), of sha256]) (auto simp: dir_ok_def stored_view_def dir_view_def)
  moreover have "rest = text_of (concat (map (dir_lines \<circ> stored_view fs) ds))"
    using Cons.IH [of "[]" rest] u(3) Cons.prems(3) by (simp add: comp_def)
  ultimately show ?case
    using u(4) by (simp add: dir_lines_def stored_view_def dir_view_def text_of_def comp_def)
qed (simp add: text_of_def)

section \<open>Reading the lines\<close>

lemma pull_num_rest:
  "2 \<le> radix \<Longrightarrow> radix \<le> 16 \<Longrightarrow> rest = [] \<or> dx (hd rest) \<ge> radix \<Longrightarrow>
   apk_blob_pull_uint (Some (num_text v radix @ rest)) radix = (v, Some rest)"
  using pull_uint_digits [of radix rest "unat v"] pull_uint_zero [of radix rest] by (auto simp: num_text_def)

lemma pull_colon: "apk_blob_pull_char (Some (CHR '':'' # l)) (schar CHR '':'') = Some l"
  by (simp add: apk_blob_pull_char_def)

lemma pull_sha1_text:
  assumes "length xs = 20"
  obtains d where "apk_blob_pull_digest (Some (''Q1'' @ push_b64_loop xs)) digest_uninit = Ret (Some [], d)"
    "dg_alg d = APK_DIGEST_SHA1" "take 20 (dg_data d) = xs" "dg_len d = 20" "length (dg_data d) = 64"
proof -
  from pull_digest_sha1 [OF digest_uninit_ok, of xs "[]"] assms obtain d where
    d: "apk_blob_pull_digest (Some (''Q1'' @ push_b64_loop xs)) digest_uninit = Ret (Some [], d)" "digest_ok d"
      "dg_alg d = APK_DIGEST_SHA1" "APK_DIGEST_BLOB d = Some xs" by (auto simp: digest_consts)
  have "dg_len d = 20" using d(2, 3) by (simp add: digest_ok_def apk_digest_alg_len_def digest_consts)
  then show thesis using that d by (simp add: APK_DIGEST_BLOB_def digest_ok_def digest_consts)
qed

lemma read_acl_text:
  assumes "acl_ok acl"
  shows "read_acl (Some (acl_text acl)) = Ret (acl, Some [])"
proof -
  let ?x = "acl_xattr_hash acl"
  define tail where "tail = (if ?x = [] then [] else '':Q1'' @ push_b64_loop ?x)"
  have dxc: "dx CHR '':'' = 255" by (simp add: dx_eq_spec dx_spec_def)
  have tl: "tail = [] \<or> dx (hd tail) \<ge> 8" by (simp add: tail_def dxc)
  have uu: "(ucast (ucast z :: u64) :: u32) = z" for z by (rule bit_word_eqI) (simp add: bit_simps)
  have written: "acl_text acl = num_text (ucast (acl_uid acl)) 10 @ CHR '':'' # num_text (ucast (acl_gid acl)) 10 @ CHR '':'' #
      num_text (ucast (acl_mode acl)) 8 @ tail" by (simp add: acl_text_def tail_def)
  have acl: "apk_db_acl_atomize_hash (acl_mode acl) (acl_uid acl) (acl_gid acl) ?x = acl"
    using assms by (simp add: apk_db_acl_atomize_hash_def acl_ok_def)
  show ?thesis
  proof (cases "?x = []")
    case True
    then show ?thesis
      using acl unfolding read_acl_def written
      by (simp add: pull_num_rest pull_num dxc pull_colon uu tail_def apk_blob_pull_blob_match_def apk_db_acl_atomize_digest_def apk_digest_reset_def)
  next
    case False
    then have "length ?x = 20" using assms by (simp add: acl_ok_def)
    then obtain d where d: "apk_blob_pull_digest (Some (''Q1'' @ push_b64_loop ?x)) digest_uninit = Ret (Some [], d)"
        "take 20 (dg_data d) = ?x" "dg_len d = 20" by (rule pull_sha1_text) (rule that)
    have m: "apk_blob_pull_blob_match (Some tail) (Some '':'') = (True, Some (''Q1'' @ push_b64_loop ?x))"
      using False by (simp add: tail_def apk_blob_pull_blob_match_def apk_blob_starts_with_def)
    have n: "apk_blob_pull_uint (Some (num_text (ucast (acl_mode acl)) 8 @ tail)) 8 = (ucast (acl_mode acl), Some tail)"
      by (rule pull_num_rest) (use tl in auto)
    show ?thesis
      unfolding read_acl_def written
      by (simp add: pull_num_rest dxc pull_colon uu n m d [simplified] apk_db_acl_atomize_digest_def acl)
  qed
qed

text \<open>The names of the template are known, so a line of the creator changes the creator only.\<close>

lemma enter_known: "avail_inv db \<Longrightarrow> \<forall>n \<in> set ns. n \<in> known db \<and> NUL \<notin> set n \<Longrightarrow> enter_names ns db = db"
  by (induction ns) (simp_all add: enter_names_def get_name_known)

definition ready :: "fdb_env \<Rightarrow> fdb_reader \<Rightarrow> bool" where
  "ready env r \<longleftrightarrow> avail_inv (rd_db r) \<and> (\<forall>n \<in> set (tmpl_names (tmpl_pkg (rd_tmpl r))). n \<in> known (rd_db r) \<and> NUL \<notin> set n) \<and>
     pkg_name (tmpl_pkg (rd_tmpl r)) \<noteq> None \<and> fe_repo env = APK_REPO_DB_INSTALLED"

lemma fdb_entry_line:
  assumes "ready env r" "c \<in> set ''FMRZrqasfg''"
  shows "fdb_line env (c # CHR '':'' # v) r = fdb_field env c (Some v) (if rd_ipkg r then r else apk_db_ipkg_create r)"
proof -
  have "apk_pkgtmpl_add_info (db_compat (rd_db r)) (rd_tmpl r) c (Some v) = Ret (Info_fdb_entry, db_compat (rd_db r), rd_tmpl r)"
    using assms(2) unfolding apk_pkgtmpl_add_info_def Let_def by (simp, elim disjE) simp_all
  moreover have "(rd_db r)\<lparr>db_compat := db_compat (rd_db r)\<rparr> = rd_db r" by (cases "rd_db r") simp
  moreover have "r\<lparr>rd_tmpl := rd_tmpl r, rd_db := rd_db r\<rparr> = r" by (cases r) simp
  ultimately have "fdb_info c (Some v) r = Ret (Info_fdb_entry, r)"
    using assms(1) by (simp add: fdb_info_def enter_known ready_def)
  moreover have "rd_ipkg (apk_db_ipkg_create r)"
    by (simp add: apk_db_ipkg_create_def upd_files_def upd_tmpl_pkg_def split: prod.split)
  ultimately show ?thesis using assms(1) by (simp add: fdb_line_def ready_def)
qed

text \<open>The reader with other contents of the creator.\<close>

definition at_files :: "fdb_reader \<Rightarrow> file_db \<Rightarrow> nat option \<Rightarrow> fdb_reader" where
  "at_files r fs f = r\<lparr>rd_db := (rd_db r)\<lparr>db_files := fs\<rparr>, rd_diri := ic_diri fs, rd_file := f\<rparr>"

definition reads :: "fdb_env \<Rightarrow> bytes list \<Rightarrow> fdb_reader \<Rightarrow> fdb_reader \<Rightarrow> bool" where
  "reads env ls r r' \<longleftrightarrow> (\<forall>ks. fdb_lines env (ls @ ks) r = fdb_lines env ks r')"

lemma reads_Nil: "reads env [] r r"
  by (simp add: reads_def)

lemma reads_append: "reads env ls r r' \<Longrightarrow> reads env ks r' r'' \<Longrightarrow> reads env (ls @ ks) r r''"
  by (simp add: reads_def)

lemma reads_line: "fdb_line env l r = Ret (Fdb_next r') \<Longrightarrow> reads env [l] r r'"
  by (simp add: reads_def)

lemma reads_opt: "(c \<Longrightarrow> reads env [k @ v] r r') \<Longrightarrow> (\<not> c \<Longrightarrow> r' = r) \<Longrightarrow> reads env (opt_line c k v) r r'"
  by (cases c) (simp_all add: opt_line_def reads_Nil)

lemma at_files_simps [simp]:
  "rd_tmpl (at_files r fs f) = rd_tmpl r" "rd_ipkg (at_files r fs f) = rd_ipkg r" "db_files (rd_db (at_files r fs f)) = fs"
  "rd_diri (at_files r fs f) = ic_diri fs" "rd_file (at_files r fs f) = f" "at_files (at_files r fs f) fs' f' = at_files r fs' f'"
  by (simp_all add: at_files_def)

lemma at_files_ready: "ready env r \<Longrightarrow> ready env (at_files r fs f)"
proof -
  have "avail_inv ((rd_db r)\<lparr>db_files := fs\<rparr>) = avail_inv (rd_db r)" "known ((rd_db r)\<lparr>db_files := fs\<rparr>) = known (rd_db r)"
    by (simp_all add: avail_inv_fields known_def)
  then show "ready env r \<Longrightarrow> ready env (at_files r fs f)" by (simp add: ready_def at_files_def)
qed

lemma upd_at_files: "ic_diri (g fs) = ic_diri fs \<Longrightarrow> upd_files g (at_files r fs f) = at_files r (g fs) f"
  by (simp add: upd_files_def at_files_def)

definition in_entry :: "fdb_env \<Rightarrow> bool \<Rightarrow> fdb_reader \<Rightarrow> bool" where
  "in_entry env sha256 r \<longleftrightarrow> ready env r \<and> rd_ipkg r \<and> ipkg_sha256_160 (the (pkg_ipkg (tmpl_pkg (rd_tmpl r)))) = sha256"

lemma in_entry_at [simp]: "in_entry env sha256 r \<Longrightarrow> in_entry env sha256 (at_files r fs f)"
  by (simp add: in_entry_def at_files_ready)

lemma in_entry_line:
  assumes "in_entry env sha256 r" "c \<in> set ''FMRZrqasfg''"
  shows "fdb_line env (c # CHR '':'' # v) r = fdb_field env c (Some v) r"
  using assms fdb_entry_line by (simp add: in_entry_def)

lemma reads_acl:
  assumes e: "in_entry env sha256 r" and acl: "acl_ok acl" and d: "ic_diri fs = Some d"
  shows "reads env [''M:'' @ acl_text acl] (at_files r fs f) (at_files r (upd_diri d (\<lambda>x. x\<lparr>di_acl := acl\<rparr>) fs) f)"
    and "reads env [''a:'' @ acl_text acl] (at_files r fs (Some a)) (at_files r (upd_file a (\<lambda>x. x\<lparr>fl_acl := acl\<rparr>) fs) (Some a))"
  by (rule reads_line, use d in \<open>simp add: in_entry_line [OF in_entry_at [OF e]] fdb_field_def fdb_acl_def read_acl_text [OF acl] finish_def\<close>,
      simp add: upd_at_files upd_diri_def upd_file_def)+

lemma reads_digest:
  assumes e: "in_entry env sha256 r" and len: "length xs = 20"
  obtains u where "reads env [''Z:Q1'' @ push_b64_loop xs] (at_files r fs (Some a)) (at_files r (upd_file a u fs) (Some a))"
    "\<forall>x. file_view (u x) = (fl_name x, fl_acl x, if sha256 then APK_DIGEST_SHA256_160 else APK_DIGEST_SHA1, xs)"
proof -
  obtain d where d: "apk_blob_pull_digest (Some (''Q1'' @ push_b64_loop xs)) digest_uninit = Ret (Some [], d)"
      "dg_alg d = APK_DIGEST_SHA1" "take 20 (dg_data d) = xs" "dg_len d = 20" "length (dg_data d) = 64"
    by (rule pull_sha1_text [OF len])
  let ?alg = "if sha256 then APK_DIGEST_SHA256_160 else APK_DIGEST_SHA1"
  let ?u = "apk_dbf_digest_set ?alg (dg_data d)"
  have l: "apk_digest_alg_len ?alg = 20" by (simp add: apk_digest_alg_len_def digest_consts)
  have "fdb_line env (''Z:Q1'' @ push_b64_loop xs) (at_files r fs (Some a)) = Ret (Fdb_next (at_files r (upd_file a ?u fs) (Some a)))"
    using e d by (simp add: in_entry_line [OF in_entry_at [OF e]] fdb_field_def fdb_digest_def d(1) [simplified] finish_def apk_digest_set_def in_entry_def upd_at_files upd_file_def)
  moreover have "file_view (?u x) = (fl_name x, fl_acl x, ?alg, xs)" for x
    using l d len by (simp add: apk_dbf_digest_set_def Let_def file_view_def fl_name_def)
  ultimately show thesis by (intro that [of ?u] reads_line) blast+
qed

text \<open>A file with its lines.\<close>

lemma reads_file:
  assumes e: "in_entry env sha256 r" and ok: "file_ok sha256 (m, facl, alg, digest)"
    and h: "holds fs (V @ [(n, acl, F)])" and d: "ic_diri fs = Some d"
    and behind: "F \<noteq> [] \<Longrightarrow> bytes_less (fst (last F)) m" and new: "(n, m) \<notin> known_files fs"
  obtains fs' f where "reads env (file_lines (m, facl, alg, digest)) (at_files r fs f0) (at_files r fs' (Some f))"
    "holds fs' (V @ [(n, acl, F @ [(m, facl, alg, digest)])])" "ic_diri fs' = Some d" "known_files fs' = insert (n, m) (known_files fs)"
proof -
  have ok': "length m < 256" "acl_ok facl" "alg \<noteq> APK_DIGEST_NONE \<Longrightarrow> length digest = 20"
      "alg \<noteq> APK_DIGEST_NONE \<Longrightarrow> alg = (if sha256 then APK_DIGEST_SHA256_160 else APK_DIGEST_SHA1)" "alg = APK_DIGEST_NONE \<Longrightarrow> digest = []"
    using ok by (auto simp: file_ok_def APK_DIGEST_NONE_def digest_consts split: if_splits)
  obtain f fs1 where f: "apk_db_file_get d (Some m) fs = (f, fs1)"
      "holds fs1 (V @ [(n, acl, F @ [(m, apk_default_acl_file, APK_DIGEST_NONE, [])])])"
      "known_files fs1 = insert (n, m) (known_files fs)" "ic_diri fs1 = Some d" "ic_files fs1 = ic_files fs @ [f]"
    by (rule file_append [OF h d ok'(1) behind new])
  have line: "reads env [''R:'' @ m] (at_files r fs f0) (at_files r fs1 (Some f))"
    by (rule reads_line) (use d f in \<open>simp add: in_entry_line [OF in_entry_at [OF e]] fdb_field_def finish_def upd_files_def, simp add: at_files_def\<close>)
  note v1 = set_file(2) [OF f(2, 5)]
  let ?u1 = "\<lambda>x. if facl = apk_default_acl_file then x else x\<lparr>fl_acl := facl\<rparr>"
  define fs2 where "fs2 = upd_file f ?u1 fs1"
  have u1: "file_view (?u1 (fs_file fs1 f)) = (m, facl, APK_DIGEST_NONE, [])"
    using v1 by (auto simp: file_view_def fl_name_def)
  have h2: "holds fs2 (V @ [(n, acl, F @ [(m, facl, APK_DIGEST_NONE, [])])])"
    using set_file(1) [OF f(2, 5), of ?u1] by (simp add: fs2_def u1)
  have id: "upd_file f (\<lambda>x. x) g = g" for g by (simp add: upd_file_def)
  have keep: "ic_files (upd_file f u g) = ic_files g" "ic_diri (upd_file f u g) = ic_diri g" "known_files (upd_file f u g) = known_files g" for u g
    by (simp_all add: upd_file_def known_files_def)
  have acl: "reads env (opt_line (facl \<noteq> apk_default_acl_file) ''a:'' (acl_text facl)) (at_files r fs1 (Some f)) (at_files r fs2 (Some f))"
    by (rule reads_opt) (use reads_acl(2) [OF e ok'(2) f(4), of f] in \<open>simp_all add: fs2_def id\<close>)
  show thesis
  proof (cases "alg = APK_DIGEST_NONE")
    case True
    have "reads env (file_lines (m, facl, alg, digest)) (at_files r fs f0) (at_files r fs2 (Some f))"
      using reads_append [OF line acl] True by (simp add: file_lines_def opt_line_def)
    then show thesis by (rule that) (use h2 True ok'(5) f(3, 4) in \<open>simp_all add: fs2_def keep\<close>)
  next
    case False
    obtain u where u: "reads env [''Z:Q1'' @ push_b64_loop digest] (at_files r fs2 (Some f)) (at_files r (upd_file f u fs2) (Some f))"
        "\<forall>x. file_view (u x) = (fl_name x, fl_acl x, if sha256 then APK_DIGEST_SHA256_160 else APK_DIGEST_SHA1, digest)"
      by (rule reads_digest [OF e ok'(3) [OF False], where fs = fs2 and a = f])
    have "ic_files fs2 = ic_files fs @ [f]" using f(5) by (simp add: fs2_def keep)
    note s = set_file [OF h2 this]
    have "fl_name (fs_file fs2 f) = m" "fl_acl (fs_file fs2 f) = facl" using s(2) by (simp_all add: file_view_def)
    then have h3: "holds (upd_file f u fs2) (V @ [(n, acl, F @ [(m, facl, alg, digest)])])"
      using s(1) [of u] ok'(4) [OF False] by (simp add: u(2))
    have "reads env (file_lines (m, facl, alg, digest)) (at_files r fs f0) (at_files r (upd_file f u fs2) (Some f))"
      using reads_append [OF line reads_append [OF acl u(1)]] False by (simp add: file_lines_def opt_line_def)
    then show thesis by (rule that) (use h3 f(3, 4) in \<open>simp_all add: fs2_def keep\<close>)
  qed
qed

lemma reads_files:
  assumes e: "in_entry env sha256 r"
  shows "\<forall>f \<in> set G. file_ok sha256 f \<Longrightarrow> sorted_wrt (\<lambda>f g. bytes_less (fst f) (fst g)) (F @ G) \<Longrightarrow>
    holds fs (V @ [(n, acl, F)]) \<Longrightarrow> ic_diri fs = Some d \<Longrightarrow> \<forall>f \<in> set G. (n, fst f) \<notin> known_files fs \<Longrightarrow>
    \<exists>fs' f. reads env (concat (map file_lines G)) (at_files r fs f0) (at_files r fs' f) \<and> holds fs' (V @ [(n, acl, F @ G)]) \<and>
      known_files fs' = known_files fs \<union> Pair n ` fst ` set G"
proof (induction G arbitrary: F fs f0)
  case Nil
  then show ?case by (auto intro!: exI [of _ fs] exI [of _ f0] reads_Nil)
next
  case (Cons g G)
  obtain m facl alg digest where g: "g = (m, facl, alg, digest)" by (cases g)
  have behind: "bytes_less (fst (last F)) m" if "F \<noteq> []" using Cons.prems(2) that by (auto simp: sorted_wrt_append g)
  obtain fs1 f where f: "reads env (file_lines (m, facl, alg, digest)) (at_files r fs f0) (at_files r fs1 (Some f))"
      "holds fs1 (V @ [(n, acl, F @ [(m, facl, alg, digest)])])" "ic_diri fs1 = Some d" "known_files fs1 = insert (n, m) (known_files fs)"
    by (rule reads_file [OF e _ Cons.prems(3, 4) behind]) (use Cons.prems(1, 5) g in auto)
  have "m \<notin> fst ` set G" using Cons.prems(2) by (auto simp: sorted_wrt_append g)
  then have "\<forall>f \<in> set G. (n, fst f) \<notin> known_files fs1" using Cons.prems(5) f(4) by auto
  with Cons.IH [of "F @ [g]" fs1 "Some f"] Cons.prems(1, 2) f(2, 3) obtain fs2 f2 where
    h: "reads env (concat (map file_lines G)) (at_files r fs1 (Some f)) (at_files r fs2 f2)" "holds fs2 (V @ [(n, acl, (F @ [g]) @ G)])"
      "known_files fs2 = known_files fs1 \<union> Pair n ` fst ` set G" by (auto simp: g)
  have "reads env (concat (map file_lines (g # G))) (at_files r fs f0) (at_files r fs2 f2)"
    using reads_append [OF f(1) h(1)] by (simp add: g)
  then show ?case using h(2, 3) f(4) by (auto simp: g)
qed

text \<open>A directory with its files, and all directories.\<close>

definition view_paths :: "dir_view \<Rightarrow> (bytes \<times> bytes) set" where
  "view_paths v = Pair (fst v) ` fst ` set (snd (snd v))"

lemma apply_current_at: "apply_current env (at_files r fs f) =
    at_files r (case ic_diri fs of None \<Rightarrow> fs
      | Some d \<Rightarrow> apk_db_dir_apply_diri_permissions (fe_fs env) (reader_pkg (at_files r fs f)) d fs) f"
proof -
  have "ic_diri (apk_db_dir_apply_diri_permissions (fe_fs env) g d fs) = ic_diri fs" for g d
    using apply_permissions_views [of fs "fe_fs env" g d] by (simp add: keeps_views_def same_creator_def)
  then show ?thesis by (simp add: apply_current_def upd_at_files split: option.split)
qed

lemma apply_current_holds:
  assumes "holds fs V"
  obtains fs' where "apply_current env (at_files r fs f) = at_files r fs' f" "holds fs' V" "known_files fs' = known_files fs"
proof -
  let ?fs = "case ic_diri fs of None \<Rightarrow> fs
    | Some d \<Rightarrow> apk_db_dir_apply_diri_permissions (fe_fs env) (reader_pkg (at_files r fs f)) d fs"
  have "keeps_views fs ?fs" using apply_permissions_views by (simp split: option.split)
  then have "holds ?fs V" "known_files ?fs = known_files fs"
    using keeps_views_holds assms by (blast, simp add: known_files_def keeps_views_def)
  then show thesis by (rule that [OF apply_current_at])
qed

lemma reads_dir:
  assumes e: "in_entry env sha256 r" and ok: "dir_ok sha256 v" and h: "holds fs V"
    and behind: "V \<noteq> [] \<Longrightarrow> bytes_less (fst (last V)) (fst v)" and new: "view_paths v \<inter> known_files fs = {}"
  obtains fs' f where "reads env (dir_lines v) (at_files r fs f0) (at_files r fs' f)" "holds fs' (V @ [v])"
    "known_files fs' = known_files fs \<union> view_paths v"
proof -
  obtain n acl G where v: "v = (n, acl, G)" by (cases v)
  have ok': "clean_path n" "acl_ok acl" "\<forall>f \<in> set G. file_ok sha256 f" "sorted_wrt (\<lambda>f g. bytes_less (fst f) (fst g)) ([] @ G)"
    using ok by (simp_all add: dir_ok_def v)
  obtain fs1 where a: "apply_current env (at_files r fs f0) = at_files r fs1 f0" "holds fs1 V" "known_files fs1 = known_files fs"
    by (rule apply_current_holds [OF h])
  obtain d fs2 where d: "apk_db_diri_get (fe_fs env) (Some n) (pkg_addr (tmpl_pkg (rd_tmpl r))) fs1 = (d, fs2)"
      "holds fs2 (V @ [(n, apk_default_acl_dir, [])])" "fs_files fs2 = fs_files fs1" "ic_diris fs2 = ic_diris fs1 @ [d]"
    by (rule diri_append [OF a(2) ok'(1)]) (use behind v in auto)
  have cur: "ic_diri fs2 = Some d" using d(2, 4) by (simp add: holds_def in_order_def)
  have nm: "pkg_name (tmpl_pkg (rd_tmpl r)) \<noteq> None" using e by (simp add: in_entry_def ready_def)
  have F: "reads env [''F:'' @ n] (at_files r fs f0) (at_files r fs2 f0)"
    by (rule reads_line)
      (use nm a(1) d(1) cur in \<open>simp add: in_entry_line [OF in_entry_at [OF e]] fdb_field_def finish_def upd_files_def, simp add: at_files_def\<close>)
  define fs3 where "fs3 = (if acl = apk_default_acl_dir then fs2 else upd_diri d (\<lambda>x. x\<lparr>di_acl := acl\<rparr>) fs2)"
  have M: "reads env (opt_line (acl \<noteq> apk_default_acl_dir) ''M:'' (acl_text acl)) (at_files r fs2 f0) (at_files r fs3 f0)"
    by (rule reads_opt) (use reads_acl(1) [OF e ok'(2) cur] in \<open>simp_all add: fs3_def\<close>)
  have h3: "holds fs3 (V @ [(n, acl, [])])" using d(2) set_diri_acl [OF d(2) cur] by (simp add: fs3_def)
  have k3: "known_files fs3 = known_files fs" "ic_diri fs3 = Some d"
    using d(3) a(3) cur by (auto simp: fs3_def upd_diri_def known_files_def)
  have "\<forall>f \<in> set G. (n, fst f) \<notin> known_files fs3" using new k3(1) by (force simp: view_paths_def v)
  then obtain fs4 f where g: "reads env (concat (map file_lines G)) (at_files r fs3 f0) (at_files r fs4 f)" "holds fs4 (V @ [(n, acl, [] @ G)])"
      "known_files fs4 = known_files fs3 \<union> Pair n ` fst ` set G"
    using reads_files [OF e ok'(3, 4) h3 k3(2), of f0] by blast
  have "reads env (dir_lines v) (at_files r fs f0) (at_files r fs4 f)"
    using reads_append [OF F reads_append [OF M g(1)]] by (simp add: dir_lines_def v)
  then show thesis by (rule that) (use g(2, 3) k3(1) in \<open>simp_all add: v view_paths_def\<close>)
qed

lemma reads_dirs:
  assumes e: "in_entry env sha256 r"
  shows "\<forall>v \<in> set W. dir_ok sha256 v \<Longrightarrow> sorted_wrt (\<lambda>v w. bytes_less (fst v) (fst w)) (V @ W) \<Longrightarrow>
    holds fs V \<Longrightarrow> \<forall>v \<in> set W. view_paths v \<inter> known_files fs = {} \<Longrightarrow>
    \<exists>fs' f. reads env (concat (map dir_lines W)) (at_files r fs f0) (at_files r fs' f) \<and> holds fs' (V @ W)"
proof (induction W arbitrary: V fs f0)
  case Nil
  then show ?case by (auto intro!: exI [of _ fs] exI [of _ f0] reads_Nil)
next
  case (Cons v W)
  have behind: "bytes_less (fst (last V)) (fst v)" if "V \<noteq> []" using Cons.prems(2) that by (auto simp: sorted_wrt_append)
  obtain fs1 f where f: "reads env (dir_lines v) (at_files r fs f0) (at_files r fs1 f)" "holds fs1 (V @ [v])"
      "known_files fs1 = known_files fs \<union> view_paths v"
    by (rule reads_dir [OF e _ Cons.prems(3) behind]) (use Cons.prems(1, 4) in auto)
  have "fst v \<noteq> fst w" if "w \<in> set W" for w using Cons.prems(2) that by (auto simp: sorted_wrt_append)
  then have "\<forall>w \<in> set W. view_paths w \<inter> known_files fs1 = {}" using Cons.prems(4) f(3) by (fastforce simp: view_paths_def)
  with Cons.IH [of "V @ [v]" fs1 f] Cons.prems(1, 2) f(2) obtain fs2 f2 where
    h: "reads env (concat (map dir_lines W)) (at_files r fs1 f) (at_files r fs2 f2)" "holds fs2 ((V @ [v]) @ W)" by auto
  then show ?case using reads_append [OF f(1) h(1)] by auto
qed

section \<open>The fields of the package\<close>

definition word_text :: "bytes list \<Rightarrow> bytes" where
  "word_text ws = tl (concat (map (\<lambda>w. CHR '' '' # w) ws))"

definition tag_lines :: "apk_package \<Rightarrow> bytes list" where
  "tag_lines p = opt_line (pkg_tags p \<noteq> []) ''g:'' (word_text (pkg_tags p))"

definition ipkg_lines :: "apk_installed_package \<Rightarrow> bytes list" where
  "ipkg_lines i =
     opt_line (ipkg_replaces i \<noteq> []) ''r:'' (deps_text (ipkg_replaces i)) @
     opt_line (ipkg_replaces_priority i \<noteq> 0) ''q:'' (num_text (word_of_nat (ipkg_replaces_priority i)) 10) @
     opt_line (ipkg_flags i \<noteq> []) ''f:'' (ipkg_flags i)"

text \<open>Fields with a text form: no tag of a repository, a priority of 16 bits.\<close>

definition ipkg_ok :: "apk_installed_package \<Rightarrow> bool" where
  "ipkg_ok i \<longleftrightarrow> ipkg_repository_tag i = 0 \<and> ipkg_replaces_priority i < 65536 \<and>
     (\<forall>d \<in> set (ipkg_replaces i). dep_wf d \<and> \<not> dep_broken d)"

definition tags_ok :: "apk_package \<Rightarrow> bool" where
  "tags_ok p \<longleftrightarrow> (\<forall>w \<in> set (pkg_tags p). w \<noteq> [] \<and> is_line w \<and> CHR '' '' \<notin> set w)"

lemma write_blobs_text: "write_blobs ''g:'' (pkg_tags p) = text_of (tag_lines p)"
proof -
  have "write_blobs_loop sep (w # ws) = sep @ w @ concat (map (\<lambda>w. CHR '' '' # w) ws) @ [NL]" for sep w ws
    by (induction ws arbitrary: sep w) simp_all
  then show ?thesis by (cases "pkg_tags p") (simp_all add: write_blobs_def tag_lines_def opt_line_def text_of_def word_text_def)
qed

lemma push_dep_untagged: "dep_wf d \<Longrightarrow> apk_blob_push_dep to (Some tags) d = apk_blob_push_dep to None d"
  by (simp add: apk_blob_push_dep_def dep_wf_def)

lemma push_deps_untagged:
  "\<forall>d \<in> set ds. dep_wf d \<Longrightarrow> push_deps_loop to (Some tags) first ds = push_deps_loop to None first ds"
  by (induction ds arbitrary: to first) (simp_all add: push_dep_untagged Let_def split: outcome.split)

lemma ipkg_fields_text:
  assumes "ipkg_ok i"
  shows "ipkg_fields tags i = Ret (apk_blob_push_blob (APK_BLOB_BUF fdb_bufsize) (Some (text_of (ipkg_lines i))))"
proof -
  have wf: "\<forall>d \<in> set (ipkg_replaces i). dep_wf d" and tag: "ipkg_repository_tag i = 0" using assms by (simp_all add: ipkg_ok_def)
  show ?thesis
    unfolding ipkg_fields_def apk_blob_push_deps_def
    by (simp add: push_deps_untagged [OF wf] push_deps_text [OF wf] tag Let_def push_blob_append push_uint_blob push_text_line_def
        ipkg_lines_def opt_line_def text_of_def)
qed

text \<open>The reader with other fields of the installed package.\<close>

definition at_fields :: "fdb_reader \<Rightarrow> apk_database \<Rightarrow> bytes list \<Rightarrow> apk_installed_package \<Rightarrow> fdb_reader" where
  "at_fields r db tags i =
     r\<lparr>rd_db := db, rd_tmpl := (rd_tmpl r)\<lparr>tmpl_pkg := (tmpl_pkg (rd_tmpl r))\<lparr>pkg_tags := tags, pkg_ipkg := Some i\<rparr>\<rparr>\<rparr>"

lemma at_fields_simps [simp]:
  "rd_db (at_fields r db tags i) = db" "rd_ipkg (at_fields r db tags i) = rd_ipkg r" "rd_diri (at_fields r db tags i) = rd_diri r"
  "rd_file (at_fields r db tags i) = rd_file r"
  "tmpl_pkg (rd_tmpl (at_fields r db tags i)) = (tmpl_pkg (rd_tmpl r))\<lparr>pkg_tags := tags, pkg_ipkg := Some i\<rparr>"
  "tmpl_id (rd_tmpl (at_fields r db tags i)) = tmpl_id (rd_tmpl r)"
  by (simp_all add: at_fields_def)

lemma upd_at_fields:
  "upd_ipkg f (at_fields r db tags i) = at_fields r db tags (f i)"
  "upd_tmpl_pkg (\<lambda>p. p\<lparr>pkg_tags := pkg_tags p @ ws\<rparr>) (at_fields r db tags i) = at_fields r db (tags @ ws) i"
  "set_tags (cdb_tags (db_compat db)) (at_fields r db tags i) = at_fields r db tags i"
proof -
  have "db\<lparr>db_compat := (db_compat db)\<lparr>cdb_tags := cdb_tags (db_compat db)\<rparr>\<rparr> = db" by (cases db; cases "db_compat db") simp
  then show "set_tags (cdb_tags (db_compat db)) (at_fields r db tags i) = at_fields r db tags i"
    by (simp add: set_tags_def at_fields_def)
qed (simp_all add: at_fields_def upd_ipkg_def upd_tmpl_pkg_def)

lemma grown_ready: "ready env r \<Longrightarrow> grown (rd_db r) db \<Longrightarrow> ready env (at_fields r db tags i)"
  by (auto simp: ready_def grown_def tmpl_names_def)

lemma at_fields_line:
  assumes "ready env r" "rd_ipkg r" "grown (rd_db r) db" "c \<in> set ''FMRZrqasfg''"
  shows "fdb_line env (c # CHR '':'' # v) (at_fields r db tags i) = fdb_field env c (Some v) (at_fields r db tags i)"
  using fdb_entry_line [OF grown_ready [OF assms(1, 3)] assms(4)] assms(2) by simp

lemma word_text_words:
  assumes "\<forall>w \<in> set ws. w \<noteq> [] \<and> CHR '' '' \<notin> set w" "ws \<noteq> []"
  shows "apk_blob_foreach_token (Some (word_text ws)) (Some '' '') = Some ws"
proof -
  obtain v us where ws: "ws = v # us" using assms(2) by (cases ws) auto
  have "word_text ws = v @ concat (map (\<lambda>w. CHR '' '' # w) us)" by (simp add: word_text_def ws)
  then have "split_on CHR '' '' (word_text ws) = ws" using split_on_components [of v us "CHR '' ''"] assms(1) ws by simp
  moreover have "filter (\<lambda>w. w \<noteq> []) ws = ws" using assms(1) by simp
  ultimately show ?thesis unfolding foreach_token_words by (simp add: blob_words_def)
qed

lemma read_flags_text:
  "read_flags force (ipkg_flags i) j =
     (True, j\<lparr>ipkg_broken_files := ipkg_broken_files j \<or> ipkg_broken_files i, ipkg_broken_script := ipkg_broken_script j \<or> ipkg_broken_script i,
       ipkg_broken_xattr := ipkg_broken_xattr j \<or> ipkg_broken_xattr i, ipkg_sha256_160 := ipkg_sha256_160 j \<or> ipkg_sha256_160 i\<rparr>)"
  by (cases j) (simp add: ipkg_flags_def)

text \<open>What the lines say about the installed package.\<close>

definition restored :: "apk_installed_package \<Rightarrow> apk_installed_package" where
  "restored i =
     new_installed_package\<lparr>ipkg_replaces := ipkg_replaces i, ipkg_replaces_priority := ipkg_replaces_priority i,
       ipkg_broken_files := ipkg_broken_files i, ipkg_broken_script := ipkg_broken_script i,
       ipkg_broken_xattr := ipkg_broken_xattr i, ipkg_sha256_160 := ipkg_sha256_160 i\<rparr>"

lemma reads_fields:
  assumes ready: "ready env r" "rd_ipkg r" and ok: "ipkg_ok i" "tags_ok p"
  obtains db where "reads env (tag_lines p @ ipkg_lines i) (at_fields r (rd_db r) [] new_installed_package) (at_fields r db (pkg_tags p) (restored i))"
    "grown (rd_db r) db"
proof -
  let ?db = "rd_db r" and ?i0 = "new_installed_package"
  have g0: "grown ?db ?db" using ready(1) by (simp add: ready_def grown_refl)
  note line = at_fields_line [OF ready]
  have G: "reads env (tag_lines p) (at_fields r ?db [] ?i0) (at_fields r ?db (pkg_tags p) ?i0)"
    unfolding tag_lines_def
  proof (rule reads_opt)
    assume "pkg_tags p \<noteq> []"
    then have "apk_blob_foreach_token (Some (word_text (pkg_tags p))) (Some '' '') = Some (pkg_tags p)"
      using ok(2) by (intro word_text_words) (auto simp: tags_ok_def)
    then show "reads env [''g:'' @ word_text (pkg_tags p)] (at_fields r ?db [] ?i0) (at_fields r ?db (pkg_tags p) ?i0)"
      by (intro reads_line) (simp add: line [OF g0] fdb_field_def finish_def upd_at_fields)
  qed simp
  let ?db1 = "if ipkg_replaces i = [] then ?db else enter_names (map dep_nm (ipkg_replaces i)) ?db" and ?i1 = "?i0\<lparr>ipkg_replaces := ipkg_replaces i\<rparr>"
  have wf: "\<forall>d \<in> set (ipkg_replaces i). dep_wf d \<and> \<not> dep_broken d" using ok(1) by (simp add: ipkg_ok_def)
  then have "\<forall>n \<in> set (map dep_nm (ipkg_replaces i)). NUL \<notin> set n" using wf_names by auto
  then have g1: "grown ?db ?db1" using enter_grown [of ?db] g0 by (auto simp: grown_def)
  have i0: "ipkg_replaces ?i0 = []" "ipkg_replaces ?i0 = ipkg_replaces i \<Longrightarrow> ?i1 = ?i0" by (simp_all add: new_installed_package_def)
  have R: "reads env (opt_line (ipkg_replaces i \<noteq> []) ''r:'' (deps_text (ipkg_replaces i))) (at_fields r ?db (pkg_tags p) ?i0)
      (at_fields r ?db1 (pkg_tags p) ?i1)"
  proof (rule reads_opt)
    assume ne: "ipkg_replaces i \<noteq> []"
    have e: "(at_fields r ?db (pkg_tags p) j)\<lparr>rd_db := db'\<rparr> = at_fields r db' (pkg_tags p) j" for j db' by (simp add: at_fields_def)
    show "reads env [''r:'' @ deps_text (ipkg_replaces i)] (at_fields r ?db (pkg_tags p) ?i0) (at_fields r ?db1 (pkg_tags p) ?i1)"
      by (rule reads_line) (use ne in \<open>simp add: line [OF g0] fdb_field_def finish_def i0 pull_deps_all [OF wf] upd_at_fields e\<close>)
  qed (use i0 in simp)
  let ?prio = "ipkg_replaces_priority i" and ?i2 = "?i1\<lparr>ipkg_replaces_priority := ipkg_replaces_priority i\<rparr>"
  have "take_bit 16 ?prio = ?prio" using ok(1) by (simp add: ipkg_ok_def take_bit_nat_eq_self_iff)
  then have prio: "unat (ucast (word_of_nat ?prio :: u64) :: u16) = ?prio" by (simp add: unsigned_of_nat unsigned_ucast_eq)
  have Q: "reads env (opt_line (?prio \<noteq> 0) ''q:'' (num_text (word_of_nat ?prio) 10)) (at_fields r ?db1 (pkg_tags p) ?i1) (at_fields r ?db1 (pkg_tags p) ?i2)"
    by (rule reads_opt, rule reads_line)
      (simp_all add: line [OF g1] fdb_field_def finish_def pull_num prio upd_at_fields new_installed_package_def)
  have i2: "snd (read_flags f (ipkg_flags i) ?i2) = restored i" "fst (read_flags f (ipkg_flags i) ?i2)" for f
    unfolding read_flags_text by (simp_all add: restored_def new_installed_package_def)
  have F: "reads env (opt_line (ipkg_flags i \<noteq> []) ''f:'' (ipkg_flags i)) (at_fields r ?db1 (pkg_tags p) ?i2) (at_fields r ?db1 (pkg_tags p) (restored i))"
  proof (rule reads_opt)
    show "reads env [''f:'' @ ipkg_flags i] (at_fields r ?db1 (pkg_tags p) ?i2) (at_fields r ?db1 (pkg_tags p) (restored i))"
      by (rule reads_line) (use i2 in \<open>simp add: line [OF g1] fdb_field_def finish_def split_beta upd_at_fields\<close>)
    show "at_fields r ?db1 (pkg_tags p) (restored i) = at_fields r ?db1 (pkg_tags p) ?i2" if "\<not> ipkg_flags i \<noteq> []"
      using that i2(1) by simp
  qed
  have "reads env (tag_lines p @ ipkg_lines i) (at_fields r ?db [] ?i0) (at_fields r ?db1 (pkg_tags p) (restored i))"
    using reads_append [OF G reads_append [OF R reads_append [OF Q F]]] by (simp add: ipkg_lines_def)
  then show thesis using g1 by (rule that)
qed

end
