(* ===== verification/Fdb_Roundtrip.thy ===== *)
theory Fdb_Roundtrip
  imports Fdb_Installed
begin

text \<open>
  The entry of an installed package reads back: the lines of the whole entry, their reading from the
  first to the last, and the package and the directories that they leave in the database.
\<close>

section \<open>The text of an entry\<close>

text \<open>
  An installed package with a text form: it has a directory, and its directories and files are in the
  order of their names.
\<close>

definition entry_ok :: "file_db \<Rightarrow> apk_package \<Rightarrow> apk_installed_package \<Rightarrow> bool" where
  "entry_ok fs p i \<longleftrightarrow> info_ok p \<and> tags_ok p \<and> ipkg_ok i \<and> ipkg_diris i \<noteq> [] \<and>
     (\<forall>d \<in> set (ipkg_diris i). dir_ok (ipkg_sha256_160 i) (stored_view fs d)) \<and>
     sorted_wrt (\<lambda>v w. bytes_less (fst v) (fst w)) (map (stored_view fs) (ipkg_diris i))"

definition creator_lines :: "file_db \<Rightarrow> apk_package \<Rightarrow> apk_installed_package \<Rightarrow> bytes list" where
  "creator_lines fs p i = tag_lines p @ ipkg_lines i @ concat (map dir_lines (map (stored_view fs) (ipkg_diris i)))"

lemma entry_text:
  assumes "entry_ok fs p i" "apk_db_fdb_write fs tags p i = Ret (Inr t)"
  shows "t = text_of (header_lines p @ dep_lines p @ creator_lines fs p i @ [[]])"
proof -
  have ok: "info_ok p" "ipkg_ok i" "ipkg_diris i \<noteq> []" "\<forall>d \<in> set (ipkg_diris i). dir_ok (ipkg_sha256_160 i) (stored_view fs d)"
    using assms(1) by (simp_all add: entry_ok_def)
  obtain h u where h: "apk_pkg_write_index_header p = Ret (Inr h)"
      "write_diris fs (apk_blob_push_blob (APK_BLOB_BUF fdb_bufsize) (Some (text_of (ipkg_lines i)))) (ipkg_diris i) = Inr u"
      "t = h @ write_blobs ''g:'' (pkg_tags p) @ u @ [NL]"
    using assms(2) unfolding apk_db_fdb_write_def ipkg_fields_text [OF ok(2)] by (auto split: outcome.splits sum.splits)
  show ?thesis
    using h(3) write_header_text [OF ok(1) h(1)] write_diris_text [OF h(2) _ ok(4)] ok(3)
    by (simp add: write_blobs_text creator_lines_def text_of_append comp_def) (simp add: text_of_def)
qed

lemma acl_line: "is_line (acl_text acl)"
  using num_line [of 10] num_line [of 8] b64_line [of "acl_xattr_hash acl"] by (simp add: acl_text_def is_line_def)

lemma view_lines:
  assumes "dir_ok sha256 v"
  shows "\<forall>l \<in> set (dir_lines v). is_line l"
proof -
  obtain n acl files where v: "v = (n, acl, files)" by (cases v)
  have "\<forall>l \<in> set (file_lines f). is_line l" if "f \<in> set files" for f
    using assms that acl_line b64_line by (cases f) (fastforce simp: dir_ok_def file_ok_def v file_lines_def opt_line_def is_line_def)
  then show ?thesis using assms acl_line by (auto simp: dir_ok_def v dir_lines_def opt_line_def is_line_def)
qed

lemma creator_is_lines:
  assumes "entry_ok fs p i"
  shows "\<forall>l \<in> set (creator_lines fs p i). is_line l"
proof -
  have "is_line (word_text ws)" if "\<forall>w \<in> set ws. is_line w" for ws
  proof -
    have "NL \<notin> set (concat (map (\<lambda>w. CHR '' '' # w) ws))" using that by (auto simp: is_line_def)
    then show ?thesis unfolding word_text_def is_line_def by (metis list.set_sel(2) tl_Nil)
  qed
  then have "is_line (word_text (pkg_tags p))" using assms by (auto simp: entry_ok_def tags_ok_def)
  moreover have "is_line (ipkg_flags i)" by (simp add: ipkg_flags_def is_line_def)
  moreover have "is_line (deps_text (ipkg_replaces i))" using assms by (intro deps_line) (auto simp: entry_ok_def ipkg_ok_def)
  moreover have "\<forall>d \<in> set (ipkg_diris i). \<forall>l \<in> set (dir_lines (stored_view fs d)). is_line l"
    using assms view_lines unfolding entry_ok_def by blast
  ultimately show ?thesis
    using num_line [of 10]
    by (auto simp: creator_lines_def tag_lines_def ipkg_lines_def opt_line_def is_line_def)
qed

section \<open>Creating the installed package\<close>

lemma creator_lines_first:
  assumes "ipkg_diris i \<noteq> []"
  obtains c v ls where "creator_lines fs p i = (c # CHR '':'' # v) # ls" "c \<in> set ''FMRZrqasfg''"
proof -
  have "\<exists>c v ls. creator_lines fs p i = (c # CHR '':'' # v) # ls \<and> c \<in> set ''FMRZrqasfg''"
    using assms by (cases "ipkg_diris i") (auto simp: creator_lines_def tag_lines_def ipkg_lines_def opt_line_def dir_lines_def split: prod.split)
  then show thesis using that by blast
qed

lemma ready_create:
  assumes "ready env r" "\<not> rd_ipkg r" "pkg_ipkg (tmpl_pkg (rd_tmpl r)) = None" "pkg_tags (tmpl_pkg (rd_tmpl r)) = []"
  defines "r0 \<equiv> apk_db_ipkg_create r"
  shows "ready env r0" "rd_ipkg r0" "r0 = at_fields r0 (rd_db r0) [] new_installed_package" "rd_diri r0 = rd_diri r"
    "db_files (rd_db r0) = (apk_db_ipkg_creator_reset (db_files (rd_db r)))\<lparr>ic_diris := []\<rparr>"
    "tmpl_id (rd_tmpl r0) = tmpl_id (rd_tmpl r)"
    "tmpl_pkg (rd_tmpl r0) = (tmpl_pkg (rd_tmpl r))\<lparr>pkg_ipkg := Some new_installed_package\<rparr>"
    "idb_packages (db_installed (rd_db r0)) = idb_packages (db_installed (rd_db r)) @ [pkg_addr (tmpl_pkg (rd_tmpl r))]"
    "pkgs (rd_db r0) = pkgs (rd_db r)" "known (rd_db r0) = known (rd_db r)" "db_packages (rd_db r0) = db_packages (rd_db r)"
    "apk_db_arch_compatible (rd_db r0) = apk_db_arch_compatible (rd_db r)"
proof -
  let ?p = "tmpl_pkg (rd_tmpl r)" and ?fs = "apk_db_ipkg_creator_reset (db_files (rd_db r))\<lparr>ic_diris := []\<rparr>"
  have nm: "pkg_name ?p \<noteq> None" using assms(1) by (simp add: ready_def)
  obtain idb where inst: "apk_pkg_install (db_installed (rd_db r)) ?p = (idb, ?p\<lparr>pkg_ipkg := Some new_installed_package\<rparr>)"
      "idb_packages idb = idb_packages (db_installed (rd_db r)) @ [pkg_addr ?p]"
    using nm assms(3) by (simp add: apk_pkg_install_def)
  have "r0 = r\<lparr>rd_db := (rd_db r)\<lparr>db_installed := idb, db_files := ?fs\<rparr>,
      rd_tmpl := (rd_tmpl r)\<lparr>tmpl_pkg := ?p\<lparr>pkg_ipkg := Some new_installed_package\<rparr>\<rparr>, rd_ipkg := True\<rparr>"
    unfolding r0_def apk_db_ipkg_create_def inst(1) by (simp add: upd_files_def upd_tmpl_pkg_def new_installed_package_def)
  note e = this
  have k: "avail_inv ((rd_db r)\<lparr>db_installed := idb, db_files := ?fs\<rparr>) = avail_inv (rd_db r)"
    "known ((rd_db r)\<lparr>db_installed := idb, db_files := ?fs\<rparr>) = known (rd_db r)"
    by (simp_all add: avail_inv_fields known_def)
  show "ready env r0" using assms(1) k unfolding e by (simp add: ready_def tmpl_names_def)
  show "rd_ipkg r0" "rd_diri r0 = rd_diri r" "db_files (rd_db r0) = ?fs" "tmpl_id (rd_tmpl r0) = tmpl_id (rd_tmpl r)"
    "tmpl_pkg (rd_tmpl r0) = ?p\<lparr>pkg_ipkg := Some new_installed_package\<rparr>"
    "idb_packages (db_installed (rd_db r0)) = idb_packages (db_installed (rd_db r)) @ [pkg_addr ?p]"
    "pkgs (rd_db r0) = pkgs (rd_db r)" "known (rd_db r0) = known (rd_db r)" "db_packages (rd_db r0) = db_packages (rd_db r)"
    "apk_db_arch_compatible (rd_db r0) = apk_db_arch_compatible (rd_db r)"
    unfolding e using inst(2) by (simp_all add: pkgs_def known_def apk_db_arch_compatible_def fun_eq_iff)
  have "q\<lparr>pkg_tags := [], pkg_ipkg := Some j\<rparr> = q" if "pkg_tags q = []" "pkg_ipkg q = Some j" for q :: apk_package and j
    using that by (cases q) simp
  then show "r0 = at_fields r0 (rd_db r0) [] new_installed_package"
    unfolding at_fields_def e using assms(4) by simp
qed

lemma reads_create:
  assumes "ready env r" "\<not> rd_ipkg r" "pkg_ipkg (tmpl_pkg (rd_tmpl r)) = None" "pkg_tags (tmpl_pkg (rd_tmpl r)) = []"
    and "reads env ((c # CHR '':'' # v) # ls) (apk_db_ipkg_create r) r'" "c \<in> set ''FMRZrqasfg''"
  shows "reads env ((c # CHR '':'' # v) # ls) r r'"
proof -
  note r0 = ready_create [OF assms(1-4)]
  have "fdb_line env (c # CHR '':'' # v) r = fdb_line env (c # CHR '':'' # v) (apk_db_ipkg_create r)"
    using fdb_entry_line [OF assms(1, 6), of v] fdb_entry_line [OF r0(1) assms(6), of v] r0(2) assms(2) by simp
  then show ?thesis using assms(5) by (simp add: reads_def)
qed

lemma holds_start:
  assumes "dirs_ok fs" "files_ok fs" "\<not> ic_files_unsorted fs"
  shows "holds ((apk_db_ipkg_creator_reset fs)\<lparr>ic_diris := []\<rparr>) []"
  using assms by (simp add: holds_def in_order_def creator_ok_def ic_ok_def store_bounds_def dirs_ok_def files_ok_def
      apk_db_ipkg_creator_reset_def diri_order.ascending_def)

section \<open>The end of the entry\<close>

lemma diri_pkg_views:
  "stored_view (fold (\<lambda>d. upd_diri d (\<lambda>x. x\<lparr>di_pkg := a\<rparr>)) ds fs) = stored_view fs"
proof (induction ds arbitrary: fs)
  case (Cons d ds)
  have "stored_view (upd_diri d (\<lambda>x. x\<lparr>di_pkg := a\<rparr>) fs) = stored_view fs"
    by (simp add: stored_view_def dir_view_def upd_diri_def fun_eq_iff)
  then show ?case using Cons by simp
qed simp

text \<open>The empty line adds the package with its directories to the database.\<close>

lemma entry_end:
  assumes r: "in_entry env sha256 r" "avail_inv (rd_db r)" "pkg_ipkg (tmpl_pkg (rd_tmpl r)) = Some i" "holds fs V"
    and wf: "pkg_wf (known (rd_db r)) (tmpl_pkg (rd_tmpl r))" "20 \<le> dg_len (tmpl_id (rd_tmpl r))"
    and new: "apk_hash_get (db_packages (rd_db r)) (Some (id_of (rd_tmpl r))) = None"
  obtains a db' ds where "\<exists>r'. fdb_lines env [[], []] (at_files r fs f) = Ret (Fdb_next r') \<and> rd_db r' = db'" "avail_inv db'"
    "a \<notin> pkgs (rd_db r)" "pkgs db' = insert a (pkgs (rd_db r))" "map (stored_view (db_files db')) ds = V"
    "db_pkg db' a = (let p = (tmpl_pkg (rd_tmpl r))\<lparr>pkg_ipkg := Some (i\<lparr>ipkg_diris := ds\<rparr>)\<rparr> in
       (pkg_from_tmpl a (if apk_db_arch_compatible (rd_db r) (pkg_arch p) then p else p\<lparr>pkg_uninstallable := True\<rparr>)
          (tmpl_id (rd_tmpl r)))\<lparr>pkg_ipkg := pkg_ipkg p\<rparr>)"
    "idb_packages (db_installed db') = map (\<lambda>x. if x = pkg_addr (tmpl_pkg (rd_tmpl r)) then a else x) (idb_packages (db_installed (rd_db r)))"
proof -
  obtain fs1 where a1: "apply_current env (at_files r fs f) = at_files r fs1 f" "holds fs1 V" by (rule apply_current_holds [OF r(4)])
  obtain ds fs2 where c: "apk_db_ipkg_commit fs1 = (ds, fs2)" by fastforce
  define T where "T = (rd_tmpl r)\<lparr>tmpl_pkg := (tmpl_pkg (rd_tmpl r))\<lparr>pkg_ipkg := Some (i\<lparr>ipkg_diris := ds\<rparr>)\<rparr>\<rparr>"
  define db1 where "db1 = (rd_db r)\<lparr>db_files := fs2\<rparr>"
  have commit: "commit_ipkg (at_files r fs1 f) = (at_files r fs1 f)\<lparr>rd_db := db1, rd_tmpl := T\<rparr>"
    using r(1, 3) c by (simp add: commit_ipkg_def in_entry_def upd_ipkg_def upd_tmpl_pkg_def upd_files_def T_def db1_def) (simp add: at_files_def)
  have inv1: "avail_inv db1" "pkgs db1 = pkgs (rd_db r)" "known db1 = known (rd_db r)" "db_packages db1 = db_packages (rd_db r)"
      "apk_db_arch_compatible db1 = apk_db_arch_compatible (rd_db r)" "db_installed db1 = db_installed (rd_db r)" "db_files db1 = fs2"
    using r(2) by (simp_all add: db1_def avail_inv_fields pkgs_def known_def apk_db_arch_compatible_def fun_eq_iff)
  have "pkg_core (tmpl_pkg T) = pkg_core (tmpl_pkg (rd_tmpl r))" by (simp add: T_def pkg_core_def)
  then have "pkg_wf N (tmpl_pkg T) = pkg_wf N (tmpl_pkg (rd_tmpl r))" for N by (rule pkg_coreD(5))
  then have ok: "tmpl_ok db1 T" using wf inv1(3) by (simp add: tmpl_ok_def) (simp add: T_def)
  have new1: "apk_hash_get (db_packages db1) (Some (id_of T)) = None" using new inv1(4) by (simp add: id_of_def T_def)
  obtain a db' where a: "apk_db_pkg_add db1 T = (Some a, db', apk_pkgtmpl_init)" "avail_inv db'" "pkgs db' = insert a (pkgs db1)"
      "a \<notin> pkgs db1 \<longleftrightarrow> apk_hash_get (db_packages db1) (Some (id_of T)) = None"
    by (rule pkg_add_inv [OF inv1(1) ok], rule that)
  note n = add_new_pkg [OF inv1(1) ok new1 a(1)]
  have nm: "pkg_name (tmpl_pkg (rd_tmpl r)) \<noteq> None" and repo: "fe_repo env = APK_REPO_DB_INSTALLED" and ip: "rd_ipkg r"
    using r(1) by (simp_all add: in_entry_def ready_def)
  have e1: "fdb_end env (at_files r fs f) = Fdb_next (upd_tmpl_pkg (\<lambda>p. p\<lparr>pkg_layer := fe_layer env\<rparr>)
      ((at_files r fs1 f)\<lparr>rd_db := db', rd_tmpl := apk_pkgtmpl_init, rd_ipkg := False, rd_diri := None\<rparr>))"
    using nm ip a(1) unfolding fdb_end_def Let_def a1(1) at_files_simps repo
    by (auto simp: APK_REPO_DB_INSTALLED_def APK_REPO_CACHE_INSTALLED_def commit)
  have "\<exists>r'. fdb_lines env [[], []] (at_files r fs f) = Ret (Fdb_next r') \<and> rd_db r' = db'"
    by (simp add: fdb_line_def e1) (simp add: fdb_end_def upd_tmpl_pkg_def apk_pkgtmpl_init_def null_package_def)
  moreover have "map (stored_view (db_files db')) ds = V"
    using commit_views(1) [OF a1(2) c] n(2) by (simp add: T_def inv1(7) diri_pkg_views) (simp add: stored_view_def [abs_def])
  moreover have "db_pkg db' a = (let p = (tmpl_pkg (rd_tmpl r))\<lparr>pkg_ipkg := Some (i\<lparr>ipkg_diris := ds\<rparr>)\<rparr> in
       (pkg_from_tmpl a (if apk_db_arch_compatible (rd_db r) (pkg_arch p) then p else p\<lparr>pkg_uninstallable := True\<rparr>)
          (tmpl_id (rd_tmpl r)))\<lparr>pkg_ipkg := pkg_ipkg p\<rparr>)"
    using n(1) by (simp add: T_def inv1(5) Let_def)
  moreover have "idb_packages (db_installed db') =
      map (\<lambda>x. if x = pkg_addr (tmpl_pkg (rd_tmpl r)) then a else x) (idb_packages (db_installed (rd_db r)))"
    using n(3) by (simp add: T_def inv1(6))
  ultimately show thesis using a(2-4) new1 inv1(2) by (intro that) simp_all
qed

section \<open>Property\<close>

lemma entry_read:
  assumes ok: "entry_ok fs p i" and inv: "avail_inv db" and new: "apk_hash_get (db_packages db) (Some (take 20 (pkg_digest p))) = None"
    and files: "dirs_ok (db_files db)" "files_ok (db_files db)" "\<not> ic_files_unsorted (db_files db)"
      "\<forall>d \<in> set (ipkg_diris i). view_paths (stored_view fs d) \<inter> known_files (db_files db) = {}"
    and repo: "fe_repo env = APK_REPO_DB_INSTALLED"
  obtains r' a ds where "fdb_lines env (header_lines p @ dep_lines p @ creator_lines fs p i @ [[], []]) (fdb_start env db) = Ret (Fdb_next r')"
    "avail_inv (rd_db r')" "a \<notin> pkgs db" "pkgs (rd_db r') = insert a (pkgs db)" "a \<in> set (idb_packages (db_installed (rd_db r')))"
    "map (stored_view (db_files (rd_db r'))) ds = map (stored_view fs) (ipkg_diris i)"
    "db_pkg (rd_db r') a = (info_pkg p (fe_layer env))\<lparr>pkg_addr := a, pkg_tags := pkg_tags p,
       pkg_ipkg := Some ((restored i)\<lparr>ipkg_diris := ds\<rparr>), pkg_uninstallable := \<not> apk_db_arch_compatible db (pkg_arch p),
       pkg_digest := take 20 (pkg_digest p),
       pkg_digest_alg := (if ipkg_sha256_160 i then APK_DIGEST_SHA256_160 else APK_DIGEST_SHA1)\<rparr>"
proof -
  let ?ls = "header_lines p @ dep_lines p" and ?cs = "creator_lines fs p i" and ?l = "fe_layer env"
  have info: "info_ok p" "tags_ok p" "ipkg_ok i" "ipkg_diris i \<noteq> []" using ok by (simp_all add: entry_ok_def)
  obtain d where d: "read_info (db_compat db) ?ls (fresh_tmpl ?l) = Some \<lparr>tmpl_pkg = info_pkg p ?l, tmpl_id = d\<rparr>" "digest_ok d"
      "dg_alg d = APK_DIGEST_SHA1" "take 20 (dg_data d) = take 20 (pkg_digest p)" "dg_len d = 20"
    by (rule header_read [OF info(1)])
  define r where "r = fdb_start env db"
  have r: "rd_db r = db" "rd_tmpl r = fresh_tmpl ?l" "rd_ipkg r = False" "rd_diri r = None"
    by (simp_all add: r_def fdb_start_def fresh_tmpl_def)
  define T where "T = \<lparr>tmpl_pkg = info_pkg p ?l, tmpl_id = d\<rparr>"
  obtain db1 where db1: "fdb_lines env (?ls @ ?cs @ [[], []]) r = fdb_lines env (?cs @ [[], []]) (r\<lparr>rd_db := db1, rd_tmpl := T\<rparr>)" "grown db db1"
      "set (tmpl_names p) \<subseteq> known db1"
    using fdb_info_lines [of r ?ls T env "?cs @ [[], []]"] d(1) inv by (auto simp: r T_def info_pkg_names header_lines_def)
  define r1 where "r1 = r\<lparr>rd_db := db1, rd_tmpl := T\<rparr>"
  have nul: "NUL \<notin> set n" if "n \<in> set (tmpl_names p)" for n
    using info(1) wf_names that by (fastforce simp: tmpl_names_def info_ok_def)
  have nm: "pkg_name (info_pkg p ?l) \<noteq> None" using info(1) by (auto simp: info_ok_def info_pkg_def)
  have rdy: "ready env r1" using db1(2, 3) nul nm repo by (auto simp: ready_def r1_def T_def info_pkg_names grown_def)
  have t1: "\<not> rd_ipkg r1" "pkg_ipkg (tmpl_pkg (rd_tmpl r1)) = None" "pkg_tags (tmpl_pkg (rd_tmpl r1)) = []" "rd_diri r1 = None"
    by (simp_all add: r1_def r T_def info_pkg_def null_package_def)
  define r2 where "r2 = apk_db_ipkg_create r1"
  note c = ready_create [OF rdy t1(1-3), folded r2_def]
  obtain db3 where db3: "reads env (tag_lines p @ ipkg_lines i) (at_fields r2 (rd_db r2) [] new_installed_package) (at_fields r2 db3 (pkg_tags p) (restored i))"
      "grown (rd_db r2) db3" by (rule reads_fields [OF c(1, 2) info(3, 2)])
  define r3 where "r3 = at_fields r2 db3 (pkg_tags p) (restored i)"
  define fs0 where "fs0 = (apk_db_ipkg_creator_reset (db_files db))\<lparr>ic_diris := []\<rparr>"
  have f3: "db_files db3 = fs0" using db3(2) c(5) db1(2) by (simp add: grown_def fs0_def r1_def)
  have e3: "in_entry env (ipkg_sha256_160 i) r3"
    using grown_ready [OF c(1) db3(2)] c(2) by (simp add: in_entry_def r3_def restored_def)
  have at3: "r3 = at_files r3 fs0 (rd_file r3)"
  proof -
    have "ic_diri fs0 = None" by (simp add: fs0_def apk_db_ipkg_creator_reset_def)
    moreover have "rd_diri r3 = None" using c(4) t1(4) by (simp add: r3_def)
    moreover have "(rd_db r3)\<lparr>db_files := fs0\<rparr> = rd_db r3" using f3 by (cases db3) (simp add: r3_def)
    ultimately show ?thesis by (cases r3) (simp add: at_files_def)
  qed
  have h0: "holds fs0 []" unfolding fs0_def by (rule holds_start [OF files(1-3)])
  have k0: "known_files fs0 = known_files (db_files db)" by (simp add: fs0_def known_files_def apk_db_ipkg_creator_reset_def)
  let ?V = "map (stored_view fs) (ipkg_diris i)"
  have v: "\<forall>v \<in> set ?V. dir_ok (ipkg_sha256_160 i) v" "sorted_wrt (\<lambda>v w. bytes_less (fst v) (fst w)) ([] @ ?V)"
      "\<forall>v \<in> set ?V. view_paths v \<inter> known_files fs0 = {}"
    using ok files(4) k0 by (simp_all add: entry_ok_def)
  obtain fs4 f where D: "reads env (concat (map dir_lines ?V)) (at_files r3 fs0 (rd_file r3)) (at_files r3 fs4 f)" "holds fs4 ([] @ ?V)"
    using reads_dirs [OF e3 v(1, 2) h0 v(3)] by blast
  have "reads env ?cs r2 (at_files r3 fs4 f)"
    using reads_append [OF db3(1) D(1) [folded at3, unfolded r3_def]] c(3) by (simp add: creator_lines_def r3_def)
  moreover obtain ch v ls where "?cs = (ch # CHR '':'' # v) # ls" "ch \<in> set ''FMRZrqasfg''" by (rule creator_lines_first [OF info(4)])
  ultimately have cs: "reads env ?cs r1 (at_files r3 fs4 f)" using reads_create [OF rdy t1(1-3)] by (simp add: r2_def)
  have pk3: "tmpl_pkg (rd_tmpl r3) = (info_pkg p ?l)\<lparr>pkg_tags := pkg_tags p, pkg_ipkg := Some (restored i)\<rparr>" "tmpl_id (rd_tmpl r3) = d"
    using c(6, 7) by (simp_all add: r3_def r1_def T_def)
  have inv3: "avail_inv (rd_db r3)" "set (tmpl_names p) \<subseteq> known (rd_db r3)" "db_packages (rd_db r3) = db_packages db" "pkgs (rd_db r3) = pkgs db"
      "apk_db_arch_compatible (rd_db r3) = apk_db_arch_compatible db"
    using db3(2) c(9-12) db1(2, 3) by (auto simp: r3_def grown_def r1_def apk_db_arch_compatible_def fun_eq_iff)
  have wf: "pkg_wf (known (rd_db r3)) (tmpl_pkg (rd_tmpl r3))"
    by (rule info_pkg_wf [OF info(1) inv3(2), of _ ?l]) (simp add: pk3 pkg_core_def)
  have idn: "id_of (rd_tmpl r3) = take 20 (pkg_digest p)" by (simp add: id_of_def pk3 d(4))
  obtain a db' ds where a: "\<exists>r'. fdb_lines env [[], []] (at_files r3 fs4 f) = Ret (Fdb_next r') \<and> rd_db r' = db'" "avail_inv db'"
      "a \<notin> pkgs (rd_db r3)" "pkgs db' = insert a (pkgs (rd_db r3))" "map (stored_view (db_files db')) ds = [] @ ?V"
      "db_pkg db' a = (let p = (tmpl_pkg (rd_tmpl r3))\<lparr>pkg_ipkg := Some ((restored i)\<lparr>ipkg_diris := ds\<rparr>)\<rparr> in
         (pkg_from_tmpl a (if apk_db_arch_compatible (rd_db r3) (pkg_arch p) then p else p\<lparr>pkg_uninstallable := True\<rparr>)
            (tmpl_id (rd_tmpl r3)))\<lparr>pkg_ipkg := pkg_ipkg p\<rparr>)"
      "idb_packages (db_installed db') = map (\<lambda>x. if x = pkg_addr (tmpl_pkg (rd_tmpl r3)) then a else x) (idb_packages (db_installed (rd_db r3)))"
    by (rule entry_end [OF e3 inv3(1) _ D(2) wf]) (use pk3 d(5) new inv3(3) idn in simp_all)
  obtain r' where r': "fdb_lines env [[], []] (at_files r3 fs4 f) = Ret (Fdb_next r')" "rd_db r' = db'" using a(1) by blast
  have lines: "fdb_lines env (?ls @ ?cs @ [[], []]) (fdb_start env db) = Ret (Fdb_next r')"
    using db1(1) cs r'(1) by (simp add: r_def r1_def reads_def)
  have "idb_packages (db_installed (rd_db r3)) = idb_packages (db_installed db) @ [pkg_addr (info_pkg p ?l)]"
    using db3(2) c(8) db1(2) by (simp add: r3_def grown_def r1_def T_def)
  then have ainst: "a \<in> set (idb_packages (db_installed db'))" using a(7) by (simp add: pk3)
  have "db_pkg db' a = (info_pkg p ?l)\<lparr>pkg_addr := a, pkg_tags := pkg_tags p,
       pkg_ipkg := Some ((restored i)\<lparr>ipkg_diris := ds\<rparr>), pkg_uninstallable := \<not> apk_db_arch_compatible db (pkg_arch p),
       pkg_digest := take 20 (pkg_digest p),
       pkg_digest_alg := (if ipkg_sha256_160 i then APK_DIGEST_SHA256_160 else APK_DIGEST_SHA1)\<rparr>"
    unfolding a(6) using d(3-5) by (simp add: Let_def pk3 inv3(5) pkg_from_tmpl_def info_pkg_def null_package_def restored_def)
  then show thesis using a(2-5) ainst inv3(4) unfolding r'(2) [symmetric] by (intro that [of r' a ds, OF lines [simplified]]) simp_all
qed

text \<open>
  C14. The list of installed packages reads back: when the entry that is written for an installed package
  is read as the installed database, then one package is added and is listed as installed; it has the
  fields of the index entry, the tags, the packages it replaces with their priority, and the flags of
  broken files; and its directories have the same names and permissions, and hold files with the same
  names, permissions and checksums in the same order. The package has at least one directory, its
  directories and files are in the order of their names, none of its files belongs to another package,
  and it has no repository tag.
\<close>

theorem installed_roundtrip:
  assumes "reliable_source (fdi_read rd) content" "\<forall>l \<in> set (split_on NL (content s)). length l < apk_io_bufsize"
    and "entry_ok fs p i" "apk_db_fdb_write fs tags p i = Ret (Inr (content s))"
    and "avail_inv db" "apk_hash_get (db_packages db) (Some (take 20 (pkg_digest p))) = None"
    and "dirs_ok (db_files db)" "files_ok (db_files db)" "\<not> ic_files_unsorted (db_files db)"
    and "\<forall>d \<in> set (ipkg_diris i). view_paths (stored_view fs d) \<inter> known_files (db_files db) = {}"
    and "fe_repo env = APK_REPO_DB_INSTALLED"
  shows "\<exists>a db' ds. apk_db_fdb_read (fdi_read rd) env (apk_istream_from_fd s) db = Some (Ret (None, db')) \<and>
    avail_inv db' \<and> a \<notin> pkgs db \<and> pkgs db' = insert a (pkgs db) \<and> a \<in> set (idb_packages (db_installed db')) \<and>
    db_pkg db' a = (info_pkg p (fe_layer env))\<lparr>pkg_addr := a, pkg_tags := pkg_tags p,
      pkg_ipkg := Some ((restored i)\<lparr>ipkg_diris := ds\<rparr>), pkg_uninstallable := \<not> apk_db_arch_compatible db (pkg_arch p),
      pkg_digest := take 20 (pkg_digest p),
      pkg_digest_alg := (if ipkg_sha256_160 i then APK_DIGEST_SHA256_160 else APK_DIGEST_SHA1)\<rparr> \<and>
    map (stored_view (db_files db')) ds = map (stored_view fs) (ipkg_diris i)"
proof -
  let ?ls = "header_lines p @ dep_lines p @ creator_lines fs p i"
  have ls: "split_on NL (content s) = ?ls @ [[], []]"
    using entry_text [OF assms(3, 4)] split_text [of "?ls @ [[]]"] entry_lines [of p] creator_is_lines [OF assms(3)] assms(3)
    by (simp add: is_line_def entry_ok_def ball_Un)
  obtain r' a ds where r: "fdb_lines env (header_lines p @ dep_lines p @ creator_lines fs p i @ [[], []]) (fdb_start env db) = Ret (Fdb_next r')"
    "avail_inv (rd_db r')" "a \<notin> pkgs db" "pkgs (rd_db r') = insert a (pkgs db)" "a \<in> set (idb_packages (db_installed (rd_db r')))"
    "map (stored_view (db_files (rd_db r'))) ds = map (stored_view fs) (ipkg_diris i)"
    "db_pkg (rd_db r') a = (info_pkg p (fe_layer env))\<lparr>pkg_addr := a, pkg_tags := pkg_tags p,
       pkg_ipkg := Some ((restored i)\<lparr>ipkg_diris := ds\<rparr>), pkg_uninstallable := \<not> apk_db_arch_compatible db (pkg_arch p),
       pkg_digest := take 20 (pkg_digest p),
       pkg_digest_alg := (if ipkg_sha256_160 i then APK_DIGEST_SHA256_160 else APK_DIGEST_SHA1)\<rparr>"
    by (rule entry_read [OF assms(3, 5-11)])
  have "apk_db_fdb_read (fdi_read rd) env (apk_istream_from_fd s) db = Some (Ret (None, rd_db r'))"
    by (rule fdb_read_lines [OF assms(1, 2)]) (simp add: ls r(1))
  then show ?thesis using r(2-7) by blast
qed

section \<open>Example\<close>

text \<open>A package with a file in one directory, read into an empty database.\<close>

definition xfs :: file_db where
  "xfs = fs_init\<lparr>fs_dir := (\<lambda>d. null_dir\<lparr>dr_cname := ''bin'', dr_namelen := 3\<rparr>), fs_diri := (\<lambda>d. null_diri\<lparr>di_files := [0]\<rparr>),
     fs_file := (\<lambda>f. null_file\<lparr>fl_cname := ''sh'', fl_namelen := 2, fl_digest_alg := APK_DIGEST_SHA1, fl_acl := apk_default_acl_dir\<rparr>)\<rparr>"

definition xipkg :: apk_installed_package where
  "xipkg = new_installed_package\<lparr>ipkg_diris := [0], ipkg_replaces_priority := 3, ipkg_broken_files := True\<rparr>"

definition xlines :: "bytes list" where
  "xlines = [''q:3'', ''f:f'', ''F:bin'', ''R:sh'', ''a:0:0:755'', ''Z:Q1'' @ push_b64_loop (replicate 20 NUL)]"

lemma xview: "stored_view xfs 0 = (''bin'', apk_default_acl_dir, [(''sh'', apk_default_acl_dir, APK_DIGEST_SHA1, replicate 20 NUL)])"
  by (simp add: stored_view_def dir_view_def file_view_def xfs_def fs_init_def null_diri_def null_dir_def null_file_def dr_name_def fl_name_def
      apk_digest_alg_len_def digest_consts)

lemma xentry: "entry_ok xfs wpkg xipkg"
proof -
  have "clean_path ''bin''" by (auto simp: clean_path_def nth_Cons' split: if_splits)
  moreover have "acl_ok apk_default_acl_dir" by (simp add: acl_ok_def apk_default_acl_dir_def)
  ultimately show ?thesis
    using wpkg_entry(1)
    by (simp add: entry_ok_def xipkg_def new_installed_package_def xview dir_ok_def file_ok_def is_line_def tags_ok_def ipkg_ok_def)
      (simp add: wpkg_def null_package_def)
qed

lemma xdigits: "uint_digits 10 3 = ''3''" "uint_digits 8 493 = ''755''"
  by code_simp+

lemma xcreator: "creator_lines xfs wpkg xipkg = xlines"
proof -
  have "apk_default_acl_dir \<noteq> apk_default_acl_file" by (simp add: apk_default_acl_dir_def apk_default_acl_file_def)
  moreover have "acl_text apk_default_acl_dir = ''0:0:755''" by (simp add: acl_text_def apk_default_acl_dir_def num_text_def xdigits)
  moreover have "APK_DIGEST_SHA1 \<noteq> APK_DIGEST_NONE" by (simp add: APK_DIGEST_NONE_def digest_consts)
  moreover have "pkg_tags wpkg = []" by (simp add: wpkg_def null_package_def)
  ultimately show ?thesis
    by (simp add: creator_lines_def tag_lines_def ipkg_lines_def xipkg_def new_installed_package_def ipkg_flags_def opt_line_def num_text_def xdigits
        xview dir_lines_def file_lines_def xlines_def)
qed

lemma pushed_fits: "length t \<le> fdb_bufsize \<Longrightarrow> apk_blob_pushed fdb_bufsize (apk_blob_push_blob (APK_BLOB_BUF fdb_bufsize) (Some t)) = Some t"
  by (simp add: apk_blob_pushed_def APK_BLOB_BUF_def apk_blob_push_blob_def)

lemma xwritten: "apk_db_fdb_write xfs \<lparr>repo_tag = [], num_repo_tags = 0\<rparr> wpkg xipkg = Ret (Inr (text_of (wlines @ xlines @ [[]])))"
proof -
  have ok: "dir_ok False (stored_view xfs 0)" "ipkg_ok xipkg" using xentry by (simp_all add: entry_ok_def xipkg_def new_installed_package_def)
  have fok: "file_ok False (file_view (fs_file xfs 0))" "di_files (fs_diri xfs 0) = [0]"
    using ok(1) by (simp_all add: dir_ok_def stored_view_def dir_view_def xfs_def)
  have buf: "1000 \<le> fdb_bufsize" by (simp add: fdb_bufsize_def)
  let ?a = "text_of (ipkg_lines xipkg)" and ?b = "text_of ([''F:'' @ diri_name xfs 0] @
    opt_line (di_acl (fs_diri xfs 0) \<noteq> apk_default_acl_dir) ''M:'' (acl_text (di_acl (fs_diri xfs 0))))"
  let ?c = "text_of (file_lines (file_view (fs_file xfs 0)))"
  have t: "text_of xlines = ?a @ ?b @ ?c"
    unfolding xcreator [symmetric]
    by (simp add: creator_lines_def tag_lines_def wpkg_def null_package_def opt_line_def text_of_append xipkg_def dir_lines_def stored_view_def
        dir_view_def fok(2)) (simp add: text_of_def)
  have "length (text_of xlines) \<le> 1000" by (simp add: text_of_def xlines_def push_b64_loop_length b64_needed_def)
  then have len: "length (?a @ ?b) \<le> fdb_bufsize" "length ?c \<le> fdb_bufsize" using buf t by simp_all
  have "write_files [fs_file xfs 0] = Inr ?c" using len(2) by (simp add: push_file_text [OF fok(1)] pushed_fits)
  moreover have "apk_blob_pushed fdb_bufsize (push_diri (apk_blob_push_blob (APK_BLOB_BUF fdb_bufsize) (Some ?a)) xfs 0) = Some (?a @ ?b)"
    using pushed_fits [OF len(1)] unfolding push_diri_text [OF ok(1)] push_blob_append by simp
  ultimately have "write_diris xfs (apk_blob_push_blob (APK_BLOB_BUF fdb_bufsize) (Some ?a)) [0] = Inr (text_of xlines)"
    by (simp add: fok(2) t)
  moreover have "apk_pkg_write_index_header wpkg = Ret (Inr (text_of wlines))"
    using wpkg_entry(2) by (auto simp: apk_pkg_write_index_entry_def text_of_def split: outcome.splits sum.splits)
  moreover have "pkg_tags wpkg = []" "ipkg_diris xipkg = [0]" by (simp_all add: wpkg_def null_package_def xipkg_def)
  ultimately show ?thesis
    by (simp add: apk_db_fdb_write_def ipkg_fields_text [OF ok(2)] write_blobs_def text_of_append) (simp add: text_of_def)
qed

theorem installed_roundtrip_witness:
  "\<exists>a db' ds. apk_db_fdb_read (fdi_read file_read) (wenv\<lparr>fe_repo := APK_REPO_DB_INSTALLED\<rparr>)
       (apk_istream_from_fd (text_of (wlines @ xlines @ [[]]), [3, 5])) apk_db_init = Some (Ret (None, db')) \<and>
     pkgs db' = {a} \<and> pkg_name (db_pkg db' a) = Some ''a'' \<and> ipkg_replaces_priority (the (pkg_ipkg (db_pkg db' a))) = 3 \<and>
     map (stored_view (db_files db')) ds = [(''bin'', apk_default_acl_dir, [(''sh'', apk_default_acl_dir, APK_DIGEST_SHA1, replicate 20 NUL)])]"
proof -
  let ?s = "(text_of (wlines @ xlines @ [[]]), [3, 5]) :: bytes \<times> nat list"
  have ls: "\<forall>l \<in> set (wlines @ xlines @ [[]]). is_line l" using b64_line by (simp add: wlines_def xlines_def is_line_def)
  have lines: "\<forall>l \<in> set (split_on NL (fst ?s)). length l < apk_io_bufsize"
    unfolding fst_conv split_text [OF ls] by (simp add: wlines_def xlines_def apk_io_bufsize_def push_b64_loop_length b64_needed_def)
  have db: "pkgs apk_db_init = {}" "apk_hash_get (db_packages apk_db_init) k = None" for k
    by (simp_all add: pkgs_def apk_db_init_def hash_items_def apk_hash_init_def apk_hash_get_def apk_hash_get_hashed_def bucket_of_def)
  have dirs: "dirs_ok (db_files apk_db_init)" "\<not> ic_files_unsorted (db_files apk_db_init)"
    using creator_init by (simp_all add: apk_db_init_def creator_ok_def) (simp add: fs_init_def)
  have files: "files_ok (db_files apk_db_init)" "known_files (db_files apk_db_init) = {}"
    using file_table.table_init [of 200000] file_table.distinct_init [of 200000]
    by (simp_all add: apk_db_init_def files_ok_def fs_init_def known_files_def apk_hash_init_def hash_items_def)
  have w: "apk_db_fdb_write xfs \<lparr>repo_tag = [], num_repo_tags = 0\<rparr> wpkg xipkg = Ret (Inr (fst ?s))" using xwritten by simp
  have paths: "\<forall>d \<in> set (ipkg_diris xipkg). view_paths (stored_view xfs d) \<inter> known_files (db_files apk_db_init) = {}" using files(2) by simp
  let ?env = "wenv\<lparr>fe_repo := APK_REPO_DB_INSTALLED\<rparr>"
  have repo: "fe_repo ?env = APK_REPO_DB_INSTALLED" by simp
  obtain a db' ds where r: "apk_db_fdb_read (fdi_read file_read) ?env (apk_istream_from_fd ?s) apk_db_init = Some (Ret (None, db'))"
      "pkgs db' = insert a (pkgs apk_db_init)" "map (stored_view (db_files db')) ds = map (stored_view xfs) (ipkg_diris xipkg)"
      "db_pkg db' a = (info_pkg wpkg (fe_layer ?env))\<lparr>pkg_addr := a, pkg_tags := pkg_tags wpkg,
      pkg_ipkg := Some ((restored xipkg)\<lparr>ipkg_diris := ds\<rparr>), pkg_uninstallable := \<not> apk_db_arch_compatible apk_db_init (pkg_arch wpkg),
      pkg_digest := take 20 (pkg_digest wpkg),
      pkg_digest_alg := (if ipkg_sha256_160 xipkg then APK_DIGEST_SHA256_160 else APK_DIGEST_SHA1)\<rparr>"
    using installed_roundtrip [OF file_src.reliable_source_axioms lines xentry w init_inv(1) db(2) dirs(1) files(1) dirs(2) paths repo] by blast
  have "pkg_name (db_pkg db' a) = Some ''a''" "ipkg_replaces_priority (the (pkg_ipkg (db_pkg db' a))) = 3"
    unfolding r(4) by (simp_all add: info_pkg_def wpkg_def restored_def xipkg_def)
  then show ?thesis using r(1-3) xview db(1) by (intro exI [of _ a] exI [of _ db'] exI [of _ ds]) (simp add: xipkg_def)
qed

end
