(* ===== verification/Adb.thy ===== *)
theory Adb
  imports Digest
begin

text \<open>
  The binary package database (\<^verbatim>\<open>adb.c\<close>): values, how they are read from the bytes of a database, and how
  they are written. A value is 32 bits: a type in the upper four bits and either the number itself or the
  offset of the data. Objects and arrays are vectors of values whose first entry is their length. The
  bytes of values are little endian; everywhere else values are plain numbers. Equal data is stored once:
  the writer looks data up in buckets of what was written before.

  An assertion that fails, an access outside of the data, and a loop that does not end are \<open>Fault\<close>.
\<close>

section \<open>Little endian numbers\<close>

fun le_bytes :: "nat \<Rightarrow> nat \<Rightarrow> bytes" where
  "le_bytes 0 n = []"
| "le_bytes (Suc k) n = char_of (n mod 256) # le_bytes k (n div 256)"

fun le_val :: "bytes \<Rightarrow> nat" where
  "le_val [] = 0"
| "le_val (c # cs) = code c + 256 * le_val cs"

section \<open>Values\<close>

type_synonym adb_val_t = u32

definition ADB_TYPE_SPECIAL :: u32 where "ADB_TYPE_SPECIAL = 0"
definition ADB_TYPE_INT :: u32 where "ADB_TYPE_INT = 0x10000000"
definition ADB_TYPE_INT_32 :: u32 where "ADB_TYPE_INT_32 = 0x20000000"
definition ADB_TYPE_INT_64 :: u32 where "ADB_TYPE_INT_64 = 0x30000000"
definition ADB_TYPE_BLOB_8 :: u32 where "ADB_TYPE_BLOB_8 = 0x80000000"
definition ADB_TYPE_BLOB_16 :: u32 where "ADB_TYPE_BLOB_16 = 0x90000000"
definition ADB_TYPE_BLOB_32 :: u32 where "ADB_TYPE_BLOB_32 = 0xa0000000"
definition ADB_TYPE_ARRAY :: u32 where "ADB_TYPE_ARRAY = 0xd0000000"
definition ADB_TYPE_OBJECT :: u32 where "ADB_TYPE_OBJECT = 0xe0000000"
definition ADB_TYPE_ERROR :: u32 where "ADB_TYPE_ERROR = 0xf0000000"

definition ADB_VAL_TYPE :: "adb_val_t \<Rightarrow> u32" where "ADB_VAL_TYPE v = v AND 0xf0000000"
definition ADB_VAL_VALUE :: "adb_val_t \<Rightarrow> u32" where "ADB_VAL_VALUE v = v AND 0x0fffffff"
definition ADB_IS_ERROR :: "adb_val_t \<Rightarrow> bool" where "ADB_IS_ERROR v \<longleftrightarrow> ADB_VAL_TYPE v = ADB_TYPE_ERROR"

text \<open>The offset is not limited to its 28 bits.\<close>

definition ADB_VAL :: "u32 \<Rightarrow> nat \<Rightarrow> adb_val_t" where "ADB_VAL type val = type OR word_of_nat val"

definition ADB_NULL :: adb_val_t where "ADB_NULL = 0"

section \<open>The database\<close>

record adb_w_bucket_entry =
  we_hash :: u32
  we_offs :: u32
  we_len :: u32

text \<open>A chain of blocks with forty entries each is the list of the entries that are in use.\<close>

record adb =
  adb_data :: blob
  adb_schema :: u32
  adb_num_buckets :: nat
  adb_alloc_len :: nat
  adb_no_cache :: nat
  adb_bucket :: "adb_w_bucket_entry list list"

definition adb_init :: adb where
  "adb_init =
     \<lparr>adb_data = None, adb_schema = 0, adb_num_buckets = 0, adb_alloc_len = 0, adb_no_cache = 0, adb_bucket = []\<rparr>"

definition adb_hdr_size :: nat where "adb_hdr_size = 8"

definition adb_bytes :: "adb \<Rightarrow> bytes" where "adb_bytes db = blob_bytes (adb_data db)"

definition adb_reset :: "adb \<Rightarrow> adb" where
  "adb_reset db =
     db\<lparr>adb_bucket := replicate (adb_num_buckets db) [], adb_data := Some (take adb_hdr_size (adb_bytes db))\<rparr>"

section \<open>Writing data\<close>

text \<open>
  The size of the allocation, 32 bits wide, is doubled until the data fits. A size that was doubled thirty-two
  times is zero, and the loop does not end.
\<close>

fun grow_alloc :: "nat \<Rightarrow> nat \<Rightarrow> nat \<Rightarrow> nat option" where
  "grow_alloc 0 n a = None"
| "grow_alloc (Suc k) n a = (if n \<le> a then Some a else grow_alloc k n (a * 2 mod 2 ^ 32))"

definition align_up :: "nat \<Rightarrow> nat \<Rightarrow> nat" where "align_up n a = (n + a - 1) div a * a"

text \<open>The padding is written before the room is checked; a database in a buffer of fixed size cannot grow.\<close>

definition adb_w_raw :: "adb \<Rightarrow> bytes list \<Rightarrow> nat \<Rightarrow> (nat \<times> adb) outcome" where
  "adb_w_raw db vec alignment =
     (let data = adb_bytes db;
          pad = align_up (length data) alignment - length data;
          offs = length data + pad;
          len = offs + length (concat vec);
          db' = db\<lparr>adb_data := Some (data @ replicate pad NUL @ concat vec)\<rparr>
      in if pad \<noteq> 0 \<and> offs > adb_alloc_len db then Fault
         else if len \<le> adb_alloc_len db then Ret (offs, db')
         else if adb_num_buckets db = 0 then Fault
         else
           case grow_alloc 33 len (if adb_alloc_len db = 0 then 8192 else adb_alloc_len db) of
             None \<Rightarrow> Fault
           | Some alloc \<Rightarrow> Ret (offs, db'\<lparr>adb_alloc_len := alloc\<rparr>))"

definition adb_w_init_dynamic :: "u32 \<Rightarrow> nat \<Rightarrow> adb outcome" where
  "adb_w_init_dynamic schema num_buckets =
     (let db = adb_init\<lparr>adb_schema := schema, adb_num_buckets := num_buckets, adb_no_cache := (if num_buckets = 0 then 1 else 0),
                       adb_bucket := replicate num_buckets []\<rparr>
      in case adb_w_raw db [replicate adb_hdr_size NUL] adb_hdr_size of Fault \<Rightarrow> Fault | Ret (_, db) \<Rightarrow> Ret db)"

definition adb_w_init_static :: "nat \<Rightarrow> adb" where
  "adb_w_init_static bufsz = adb_init\<lparr>adb_data := Some [], adb_alloc_len := bufsz, adb_no_cache := 1\<rparr>"

definition iovec_hash :: "bytes list \<Rightarrow> u32" where
  "iovec_hash vec = fold (\<lambda>v hash. ucast (apk_blob_hash_seed (Some v) (ucast hash))) vec 5381"

fun iovec_memcmp :: "bytes list \<Rightarrow> bytes \<Rightarrow> bool" where
  "iovec_memcmp [] b = False"
| "iovec_memcmp (v # vs) b = (if take (length v) b \<noteq> v then True else iovec_memcmp vs (drop (length v) b))"

text \<open>Where equal data is: at an offset, at an entry that is not aligned or is empty and is replaced, or nowhere.\<close>

datatype w_place = Place_found nat | Place_replace nat | Place_new

fun w_lookup :: "bytes \<Rightarrow> u32 \<Rightarrow> bytes list \<Rightarrow> nat \<Rightarrow> adb_w_bucket_entry list \<Rightarrow> nat \<Rightarrow> w_place" where
  "w_lookup data hash vec alignment [] i = Place_new"
| "w_lookup data hash vec alignment (e # es) i =
     (if we_len e = 0 then Place_replace i
      else if we_hash e \<noteq> hash then w_lookup data hash vec alignment es (Suc i)
      else if unat (we_len e) = length (concat vec) \<and> \<not> iovec_memcmp vec (drop (unat (we_offs e)) data) then
        (if unat (we_offs e) mod alignment \<noteq> 0 then Place_replace i else Place_found (unat (we_offs e)))
      else w_lookup data hash vec alignment es (Suc i))"

definition adb_w_data :: "adb \<Rightarrow> bytes list \<Rightarrow> nat \<Rightarrow> (nat \<times> adb) outcome" where
  "adb_w_data db vec alignment =
     (if adb_no_cache db \<noteq> 0 then adb_w_raw db vec alignment
      else if adb_num_buckets db = 0 then Fault
      else
        let hash = iovec_hash vec; bucketno = unat hash mod adb_num_buckets db; es = adb_bucket db ! bucketno;
            add = (\<lambda>put. case adb_w_raw db vec alignment of
                     Fault \<Rightarrow> Fault
                   | Ret (offs, db) \<Rightarrow>
                       let e = \<lparr>we_hash = hash, we_offs = word_of_nat offs, we_len = word_of_nat (length (concat vec))\<rparr>
                       in Ret (unat (we_offs e), db\<lparr>adb_bucket := (adb_bucket db)[bucketno := put e]\<rparr>))
        in case w_lookup (adb_bytes db) hash vec alignment es 0 of
             Place_found offs \<Rightarrow> Ret (offs, db)
           | Place_replace i \<Rightarrow> add (\<lambda>e. es[i := e])
           | Place_new \<Rightarrow> add (\<lambda>e. es @ [e]))"

definition adb_w_data1 :: "adb \<Rightarrow> blob \<Rightarrow> nat \<Rightarrow> (nat \<times> adb) outcome" where
  "adb_w_data1 db ptr alignment = (case ptr of None \<Rightarrow> Ret (0, db) | Some data \<Rightarrow> adb_w_data db [data] alignment)"

section \<open>Reading values\<close>

text \<open>The position of the data of a value, if it is inside the database.\<close>

definition adb_r_deref :: "adb \<Rightarrow> adb_val_t \<Rightarrow> nat \<Rightarrow> nat \<Rightarrow> nat option" where
  "adb_r_deref db v offs s =
     (let offs = offs + unat (ADB_VAL_VALUE v) in if offs + s > length (adb_bytes db) then None else Some offs)"

definition adb_at :: "adb \<Rightarrow> nat \<Rightarrow> nat \<Rightarrow> bytes" where
  "adb_at db offs s = take s (drop offs (adb_bytes db))"

definition adb_r_root :: "adb \<Rightarrow> adb_val_t" where
  "adb_r_root db = (if length (adb_bytes db) < adb_hdr_size then ADB_NULL else word_of_nat (le_val (adb_at db 4 4)))"

definition adb_r_int :: "adb \<Rightarrow> adb_val_t \<Rightarrow> u64" where
  "adb_r_int db v =
     (if ADB_VAL_TYPE v = ADB_TYPE_INT then ucast (ADB_VAL_VALUE v)
      else if ADB_VAL_TYPE v = ADB_TYPE_INT_32 then
        (case adb_r_deref db v 0 4 of None \<Rightarrow> 0 | Some p \<Rightarrow> word_of_nat (le_val (adb_at db p 4)))
      else if ADB_VAL_TYPE v = ADB_TYPE_INT_64 then
        (case adb_r_deref db v 0 8 of None \<Rightarrow> 0 | Some p \<Rightarrow> word_of_nat (le_val (adb_at db p 8)))
      else 0)"

text \<open>A blob as its pointer and its length: when the bytes are missing, the pointer is null and the length is not zero.\<close>

definition r_sized_blob :: "adb \<Rightarrow> adb_val_t \<Rightarrow> nat \<Rightarrow> nat option \<times> nat" where
  "r_sized_blob db v w =
     (case adb_r_deref db v 0 w of
        None \<Rightarrow> (None, 0)
      | Some p \<Rightarrow> let len = le_val (adb_at db p w) in (adb_r_deref db v w len, len))"

definition adb_r_blob_ptr :: "adb \<Rightarrow> adb_val_t \<Rightarrow> nat option \<times> nat" where
  "adb_r_blob_ptr db v =
     (if ADB_VAL_TYPE v = ADB_TYPE_BLOB_8 then r_sized_blob db v 1
      else if ADB_VAL_TYPE v = ADB_TYPE_BLOB_16 then r_sized_blob db v 2
      else if ADB_VAL_TYPE v = ADB_TYPE_BLOB_32 then r_sized_blob db v 4
      else (None, 0))"

definition adb_r_blob :: "adb \<Rightarrow> adb_val_t \<Rightarrow> blob" where
  "adb_r_blob db v = (case adb_r_blob_ptr db v of (None, _) \<Rightarrow> None | (Some p, len) \<Rightarrow> Some (adb_at db p len))"

text \<open>The values of an object or array: its number of entries, and the entries; \<open>None\<close> is the null pointer.\<close>

fun val_bytes :: "adb_val_t list \<Rightarrow> bytes" where
  "val_bytes [] = []"
| "val_bytes (v # vs) = le_bytes 4 (unat v) @ val_bytes vs"

fun bytes_vals :: "nat \<Rightarrow> bytes \<Rightarrow> adb_val_t list" where
  "bytes_vals 0 b = []"
| "bytes_vals (Suc n) b = word_of_nat (le_val (take 4 b)) # bytes_vals n (drop 4 b)"

definition adb_r_vals :: "adb \<Rightarrow> adb_val_t \<Rightarrow> adb_val_t list option" where
  "adb_r_vals db v =
     (if ADB_VAL_TYPE v \<noteq> ADB_TYPE_ARRAY \<and> ADB_VAL_TYPE v \<noteq> ADB_TYPE_OBJECT then None
      else
        case adb_r_deref db v 0 4 of
          None \<Rightarrow> None
        | Some p \<Rightarrow>
            let num = le_val (adb_at db p 4) in
            if num = 0 \<or> adb_r_deref db v 0 (4 * num) = None then None
            else Some (bytes_vals num (adb_at db p (4 * num))))"

section \<open>Writing values\<close>

definition adb_w_root :: "adb \<Rightarrow> adb_val_t \<Rightarrow> adb outcome" where
  "adb_w_root db root_val =
     (if length (adb_bytes db) < adb_hdr_size then Fault
      else Ret (db\<lparr>adb_data := Some (take 4 (adb_bytes db) @ le_bytes 4 (unat root_val) @ drop 8 (adb_bytes db))\<rparr>))"

definition w_val :: "u32 \<Rightarrow> (nat \<times> adb) outcome \<Rightarrow> (adb_val_t \<times> adb) outcome" where
  "w_val type r = (case r of Fault \<Rightarrow> Fault | Ret (offs, db) \<Rightarrow> Ret (ADB_VAL type offs, db))"

definition adb_w_blob_vec :: "adb \<Rightarrow> bytes list \<Rightarrow> (adb_val_t \<times> adb) outcome" where
  "adb_w_blob_vec db b =
     (let sz = length (concat b) in
      if length b > 4 then Fault
      else if sz > 0xffff then w_val ADB_TYPE_BLOB_32 (adb_w_data db (le_bytes 4 sz # b) 4)
      else if sz > 0xff then w_val ADB_TYPE_BLOB_16 (adb_w_data db (le_bytes 2 sz # b) 2)
      else if sz > 0 then w_val ADB_TYPE_BLOB_8 (adb_w_data db (le_bytes 1 sz # b) 1)
      else Ret (ADB_NULL, db))"

definition adb_w_blob :: "adb \<Rightarrow> blob \<Rightarrow> (adb_val_t \<times> adb) outcome" where
  "adb_w_blob db b = adb_w_blob_vec db [blob_bytes b]"

definition adb_w_blob_raw :: "adb \<Rightarrow> blob \<Rightarrow> (adb_val_t \<times> adb) outcome" where
  "adb_w_blob_raw db b =
     (case adb_w_blob (db\<lparr>adb_no_cache := adb_no_cache db + 1\<rparr>) b of
        Fault \<Rightarrow> Fault
      | Ret (v, db) \<Rightarrow> Ret (v, db\<lparr>adb_no_cache := adb_no_cache db - 1\<rparr>))"

definition adb_w_int :: "adb \<Rightarrow> u64 \<Rightarrow> (adb_val_t \<times> adb) outcome" where
  "adb_w_int db val =
     (if unat val \<ge> 0x100000000 then w_val ADB_TYPE_INT_64 (adb_w_data1 db (Some (le_bytes 8 (unat val))) 4)
      else if unat val \<ge> 0x10000000 then w_val ADB_TYPE_INT_32 (adb_w_data1 db (Some (le_bytes 4 (unat val))) 4)
      else Ret (ADB_VAL ADB_TYPE_INT (unat val), db))"

text \<open>
  The entries of an object without the empty ones at its end; the first entry is its length. An object
  that has no entries is the null value.
\<close>

definition w_vals :: "adb \<Rightarrow> u32 \<Rightarrow> adb_val_t list \<Rightarrow> (adb_val_t \<times> adb) outcome" where
  "w_vals db type vals =
     (let n = length (rev (dropWhile (\<lambda>v. v = ADB_NULL) (rev (tl vals)))) + 1 in
      if n > 1 then w_val type (adb_w_data1 db (Some (val_bytes (word_of_nat n # take (n - 1) (tl vals)))) 4)
      else Ret (ADB_NULL, db))"

section \<open>Copying\<close>

definition w_copy_data :: "adb \<Rightarrow> adb \<Rightarrow> adb_val_t \<Rightarrow> nat \<Rightarrow> nat \<Rightarrow> (adb_val_t \<times> adb) outcome" where
  "w_copy_data db srcdb v sz align =
     w_val (ADB_VAL_TYPE v) (adb_w_data1 db (map_option (\<lambda>p. adb_at srcdb p sz) (adb_r_deref srcdb v 0 sz)) align)"

definition w_copy_blob :: "adb \<Rightarrow> adb \<Rightarrow> adb_val_t \<Rightarrow> nat \<Rightarrow> (adb_val_t \<times> adb) outcome" where
  "w_copy_blob db srcdb v w =
     (case adb_r_deref srcdb v 0 w of
        None \<Rightarrow> Fault
      | Some p \<Rightarrow> w_copy_data db srcdb v (w + le_val (adb_at srcdb p w)) w)"

fun w_copy_vals :: "(adb \<Rightarrow> adb_val_t \<Rightarrow> (adb_val_t \<times> adb) outcome option) \<Rightarrow> adb \<Rightarrow> adb_val_t list \<Rightarrow>
    (adb_val_t list \<times> adb) outcome option" where
  "w_copy_vals copy db [] = Some (Ret ([], db))"
| "w_copy_vals copy db (v # vs) =
     (case copy db v of
        None \<Rightarrow> None
      | Some Fault \<Rightarrow> Some Fault
      | Some (Ret (w, db)) \<Rightarrow>
          (case w_copy_vals copy db vs of
             None \<Rightarrow> None
           | Some Fault \<Rightarrow> Some Fault
           | Some (Ret (ws, db)) \<Rightarrow> Some (Ret (w # ws, db))))"

text \<open>
  Copying a value from another database (within one database a value is its own copy). The recursion follows the objects of the source, so its depth is
  limited by fuel: \<open>None\<close> means that it is not enough. An object that cannot be read is a null pointer.
\<close>

fun adb_w_copy :: "nat \<Rightarrow> adb \<Rightarrow> adb \<Rightarrow> adb_val_t \<Rightarrow> (adb_val_t \<times> adb) outcome option" where
  "adb_w_copy 0 srcdb db v = None"
| "adb_w_copy (Suc fuel) srcdb db v =
     (let t = ADB_VAL_TYPE v in
      if t = ADB_TYPE_SPECIAL \<or> t = ADB_TYPE_INT then Some (Ret (v, db))
      else if t = ADB_TYPE_INT_32 then Some (w_copy_data db srcdb v 4 4)
      else if t = ADB_TYPE_INT_64 then Some (w_copy_data db srcdb v 8 8)
      else if t = ADB_TYPE_BLOB_8 then Some (w_copy_blob db srcdb v 1)
      else if t = ADB_TYPE_BLOB_16 then Some (w_copy_blob db srcdb v 2)
      else if t = ADB_TYPE_BLOB_32 then Some (w_copy_blob db srcdb v 4)
      else if t = ADB_TYPE_OBJECT \<or> t = ADB_TYPE_ARRAY then
        (case adb_r_vals srcdb v of
           None \<Rightarrow> Some Fault
         | Some vals \<Rightarrow>
            (case w_copy_vals (adb_w_copy fuel srcdb) db (tl vals) of
               None \<Rightarrow> None
             | Some Fault \<Rightarrow> Some Fault
             | Some (Ret (ws, db)) \<Rightarrow> Some (w_val t (adb_w_data1 db (Some (val_bytes (hd vals # ws))) 4))))
      else Some Fault)"

end
