(* ===== verification/Adb_Write.thy ===== *)
theory Adb_Write
  imports Adb
begin

text \<open>
  The writer of the binary database: it only appends, values that were written keep their meaning, and
  what is read is what was written.
\<close>

section \<open>Little endian numbers\<close>

lemma le_bytes_length [simp]: "length (le_bytes k n) = k"
  by (induction k arbitrary: n) simp_all

lemma le_bytes_Nil [simp]: "le_bytes k n = [] \<longleftrightarrow> k = 0"
  by (cases k) simp_all

lemma le_val_bytes [simp]: "le_val (le_bytes k n) = n mod 256 ^ k"
proof (induction k arbitrary: n)
  case (Suc k)
  have "n mod (256 * 256 ^ k) = 256 * (n div 256 mod 256 ^ k) + n mod 256" by (rule mod_mult2_eq)
  then show ?case using Suc by simp
qed simp

lemma le_val_zeros: "le_val (replicate k NUL) = 0"
  by (induction k) simp_all

lemma val_bytes_length [simp]: "length (val_bytes vs) = 4 * length vs"
  by (induction vs) simp_all

lemma bytes_vals_length [simp]: "length (bytes_vals n b) = n"
  by (induction n arbitrary: b) simp_all

lemma unat_u32: "unat (v :: u32) mod 256 ^ 4 = unat v"
proof -
  have "unat v < 2 ^ LENGTH(32)" by (rule unsigned_less)
  then show ?thesis by simp
qed

lemma bytes_vals_val_bytes [simp]: "bytes_vals (length vs) (val_bytes vs @ x) = vs"
proof (induction vs)
  case (Cons v vs)
  have "word_of_nat (unat v mod 256 ^ 4) = v" by (simp add: unat_u32 del: power_numeral)
  then show ?case using Cons by simp
qed simp

section \<open>Types and offsets\<close>

lemmas type_defs = ADB_TYPE_SPECIAL_def ADB_TYPE_INT_def ADB_TYPE_INT_32_def ADB_TYPE_INT_64_def ADB_TYPE_BLOB_8_def
  ADB_TYPE_BLOB_16_def ADB_TYPE_BLOB_32_def ADB_TYPE_ARRAY_def ADB_TYPE_OBJECT_def ADB_TYPE_ERROR_def

definition val_types :: "u32 set" where
  "val_types = {ADB_TYPE_SPECIAL, ADB_TYPE_INT, ADB_TYPE_INT_32, ADB_TYPE_INT_64, ADB_TYPE_BLOB_8, ADB_TYPE_BLOB_16,
     ADB_TYPE_BLOB_32, ADB_TYPE_ARRAY, ADB_TYPE_OBJECT}"

lemma value_mask: "ADB_VAL_VALUE v = take_bit 28 v"
  by (simp add: ADB_VAL_VALUE_def take_bit_eq_mask mask_eq_exp_minus_1)

lemma val_parts:
  assumes "type \<in> val_types" "val < 2 ^ 28"
  shows "ADB_VAL_TYPE (ADB_VAL type val) = type" "unat (ADB_VAL_VALUE (ADB_VAL type val)) = val"
proof -
  have tb: "take_bit 28 val = val" "take_bit 32 val = val" using assms(2) by (simp_all add: take_bit_nat_eq_self_iff)
  have w: "take_bit 28 (word_of_nat val :: u32) = word_of_nat val"
    by (simp add: word_unat_eq_iff unsigned_take_bit_eq unsigned_of_nat tb)
  have t: "take_bit 28 type = 0" "type AND 0xf0000000 = type"
    using assms(1) by (auto simp: val_types_def type_defs take_bit_eq_mask mask_eq_exp_minus_1)
  have "word_of_nat val AND (0xf0000000 :: u32) = take_bit 28 (word_of_nat val) AND 0xf0000000" using w by simp
  also have "\<dots> = word_of_nat val AND (mask 28 AND 0xf0000000)" by (simp add: take_bit_eq_mask ac_simps)
  also have "\<dots> = 0" by (simp add: mask_eq_exp_minus_1)
  finally show "ADB_VAL_TYPE (ADB_VAL type val) = type"
    using t(2) by (simp add: ADB_VAL_TYPE_def ADB_VAL_def bit.conj_disj_distrib2)
  have "take_bit 28 (type OR word_of_nat val) = word_of_nat val" using t(1) w by (simp add: take_bit_or)
  then show "unat (ADB_VAL_VALUE (ADB_VAL type val)) = val"
    by (simp add: value_mask ADB_VAL_def unsigned_of_nat tb)
qed

section \<open>The writer\<close>

text \<open>
  A database that can grow: its allocation is a power of two, and the entries of its buckets are inside the
  data.
\<close>

definition adb_alloc_ok :: "nat \<Rightarrow> bool" where "adb_alloc_ok a \<longleftrightarrow> a = 0 \<or> (\<exists>k \<le> 18. a = 2 ^ (13 + k))"

definition writer_ok :: "adb \<Rightarrow> bool" where
  "writer_ok db \<longleftrightarrow> 0 < adb_num_buckets db \<and> length (adb_bucket db) = adb_num_buckets db \<and> adb_alloc_ok (adb_alloc_len db) \<and>
     length (adb_bytes db) \<le> adb_alloc_len db \<and>
     (\<forall>es \<in> set (adb_bucket db). \<forall>e \<in> set es. unat (we_offs e) + unat (we_len e) \<le> length (adb_bytes db))"

definition grows_to :: "adb \<Rightarrow> adb \<Rightarrow> bool" where
  "grows_to db db' \<longleftrightarrow> writer_ok db' \<and> prefix (adb_bytes db) (adb_bytes db') \<and> adb_no_cache db' = adb_no_cache db \<and>
     adb_schema db' = adb_schema db"

lemma grows_to_refl: "writer_ok db \<Longrightarrow> grows_to db db"
  by (simp add: grows_to_def)

lemma grows_to_trans: "grows_to a b \<Longrightarrow> grows_to b c \<Longrightarrow> grows_to a c"
  by (auto simp: grows_to_def)

lemma grow_alloc_pow:
  assumes "n \<le> 2 ^ 31" "k \<le> 18" "18 - k < j"
  shows "\<exists>k' \<le> 18. grow_alloc j n (2 ^ (13 + k)) = Some (2 ^ (13 + k')) \<and> n \<le> 2 ^ (13 + k')"
  using assms(2,3)
proof (induction j arbitrary: k)
  case (Suc j)
  show ?case
  proof (cases "n \<le> 2 ^ (13 + k)")
    case True
    then show ?thesis using Suc.prems by auto
  next
    case False
    have "k \<noteq> 18" using False assms(1) by auto
    then have k: "Suc k \<le> 18" "18 - Suc k < j" using Suc.prems by simp_all
    have "(2 :: nat) ^ (13 + Suc k) < 2 ^ 32" using k(1) by (intro power_strict_increasing) simp_all
    then have "(2 :: nat) ^ (13 + Suc k) mod 2 ^ 32 = 2 ^ (13 + Suc k)" by (rule mod_less)
    then have "2 ^ (13 + k) * 2 mod 2 ^ 32 = (2 :: nat) ^ (13 + Suc k)" by (simp only: power_Suc2 add_Suc_right)
    then have "grow_alloc (Suc j) n (2 ^ (13 + k)) = grow_alloc j n (2 ^ (13 + Suc k))" using False by (simp only: grow_alloc.simps if_False)
    then show ?thesis using Suc.IH [OF k] by metis
  qed
qed simp

lemma grow_alloc_spec:
  assumes "n \<le> 2 ^ 31" "adb_alloc_ok a"
  obtains a' where "grow_alloc 33 n (if a = 0 then 8192 else a) = Some a'" "n \<le> a'" "adb_alloc_ok a'"
proof -
  obtain k where k: "k \<le> 18" "(if a = 0 then 8192 else a) = 2 ^ (13 + k)"
  proof (cases "a = 0")
    case True
    then show thesis by (intro that [of 0]) simp_all
  qed (use assms(2) that in \<open>auto simp: adb_alloc_ok_def\<close>)
  have "18 - k < 33" by simp
  from grow_alloc_pow [OF assms(1) k(1) this] obtain k' where
    "k' \<le> 18" "grow_alloc 33 n (2 ^ (13 + k)) = Some (2 ^ (13 + k'))" "n \<le> 2 ^ (13 + k')" by blast
  then show thesis using k(2) by (intro that) (auto simp: adb_alloc_ok_def)
qed

lemma adb_alloc_dvd: "adb_alloc_ok a \<Longrightarrow> 8 dvd a"
proof (cases "a = 0")
  case False
  assume "adb_alloc_ok a"
  then obtain k where "a = 2 ^ (13 + k)" using False by (auto simp: adb_alloc_ok_def)
  then have "a = 8 * 2 ^ (10 + k)" by (simp add: power_add)
  then show ?thesis by simp
qed simp

lemma align_up_bounds:
  assumes "al \<in> {1, 2, 4, 8 :: nat}"
  shows "n \<le> align_up n al" "al dvd align_up n al" "8 dvd m \<Longrightarrow> n \<le> m \<Longrightarrow> align_up n al \<le> m"
proof -
  have al: "al = 1 \<or> al = 2 \<or> al = 4 \<or> al = 8" using assms by simp
  show "al dvd align_up n al" by (simp add: align_up_def)
  from al show "n \<le> align_up n al" unfolding align_up_def by (elim disjE) (simp, presburger+)
  from al show "align_up n al \<le> m" if "8 dvd m" "n \<le> m" using that unfolding align_up_def by (elim disjE) (simp, presburger+)
qed

lemma raw_spec:
  assumes ok: "writer_ok db" and al: "al \<in> {1, 2, 4, 8}"
    and fits: "align_up (length (adb_bytes db)) al + length (concat vec) \<le> 2 ^ 31"
  obtains db' where "adb_w_raw db vec al = Ret (align_up (length (adb_bytes db)) al, db')" "grows_to db db'"
    "adb_bytes db' = adb_bytes db @ replicate (align_up (length (adb_bytes db)) al - length (adb_bytes db)) NUL @ concat vec"
    "adb_bucket db' = adb_bucket db" "adb_num_buckets db' = adb_num_buckets db"
proof -
  let ?d = "adb_bytes db" and ?o = "align_up (length (adb_bytes db)) al" and ?a = "adb_alloc_len db"
  let ?data = "?d @ replicate (?o - length ?d) NUL @ concat vec" and ?len = "?o + length (concat vec)"
  note b = align_up_bounds [OF al]
  have a: "adb_alloc_ok ?a" "length ?d \<le> ?a" using ok by (simp_all add: writer_ok_def)
  have o: "?o \<le> ?a" using b(3) [OF adb_alloc_dvd [OF a(1)] a(2)] .
  obtain g where g: "grow_alloc 33 ?len (if ?a = 0 then 8192 else ?a) = Some g" "?len \<le> g" "adb_alloc_ok g"
    by (rule grow_alloc_spec [OF fits a(1)])
  define alloc where "alloc = (if ?len \<le> ?a then ?a else g)"
  define db' where "db' = db\<lparr>adb_data := Some ?data, adb_alloc_len := alloc\<rparr>"
  have same: "db\<lparr>adb_data := Some ?data\<rparr> = db\<lparr>adb_data := Some ?data, adb_alloc_len := ?a\<rparr>" by (cases db) simp
  have raw: "adb_w_raw db vec al = Ret (?o, db')"
    using o b(1) ok g(1) same by (auto simp: adb_w_raw_def Let_def db'_def alloc_def writer_ok_def)
  have by_eq: "adb_bytes db' = ?data" by (simp add: db'_def adb_bytes_def)
  have "length ?d \<le> ?len" using b(1) by (simp add: trans_le_add1)
  then have "unat (we_offs e) + unat (we_len e) \<le> ?len" if "es \<in> set (adb_bucket db)" "e \<in> set es" for es e
    using ok that by (fastforce simp: writer_ok_def intro: le_trans)
  moreover have "adb_alloc_ok alloc" "?len \<le> alloc" using a g by (auto simp: alloc_def)
  ultimately have "grows_to db db'"
    using ok by_eq b(1) [of "length ?d"] unfolding grows_to_def writer_ok_def by (simp add: db'_def)
  then show thesis by (intro that [OF raw _ by_eq]) (simp_all add: db'_def)
qed

text \<open>What is at an offset.\<close>

definition stored :: "adb \<Rightarrow> nat \<Rightarrow> bytes \<Rightarrow> bool" where
  "stored db offs xs \<longleftrightarrow> offs + length xs \<le> length (adb_bytes db) \<and> adb_at db offs (length xs) = xs"

lemma stored_prefix: "stored db offs xs \<Longrightarrow> prefix (adb_bytes db) (adb_bytes db') \<Longrightarrow> stored db' offs xs"
  by (auto simp: stored_def adb_at_def prefix_def)

lemma stored_part:
  assumes "stored db offs (xs @ ys @ zs)"
  shows "stored db (offs + length xs) ys"
proof -
  have "take (length (xs @ ys @ zs)) (drop offs (adb_bytes db)) = xs @ ys @ zs" using assms by (simp add: stored_def adb_at_def)
  then have "drop (length xs) (take (length (xs @ ys @ zs)) (drop offs (adb_bytes db))) = ys @ zs" by simp
  then have "take (length ys + length zs) (drop (offs + length xs) (adb_bytes db)) = ys @ zs"
    by (simp add: drop_take add.commute)
  then have "take (length ys) (take (length ys + length zs) (drop (offs + length xs) (adb_bytes db))) = ys" by simp
  then show ?thesis using assms by (simp add: stored_def adb_at_def)
qed

lemma take_append_eq:
  assumes "length w = n"
  shows "take (length v + n) b = v @ w \<longleftrightarrow> take (length v) b = v \<and> take n (drop (length v) b) = w"
proof
  assume *: "take (length v + n) b = v @ w"
  have "take (length v) (take (length v + n) b) = v" "drop (length v) (take (length v + n) b) = w" using * by simp_all
  then show "take (length v) b = v \<and> take n (drop (length v) b) = w" by (simp add: drop_take)
qed (simp add: take_add)

lemma iovec_memcmp_eq: "\<not> iovec_memcmp vec b \<longleftrightarrow> take (length (concat vec)) b = concat vec"
proof (induction vec arbitrary: b)
  case (Cons v vs)
  then show ?case by (simp add: take_append_eq)
qed simp

lemma stored_whole: "stored db (length xs) ys" if "adb_bytes db = xs @ ys"
  using that by (simp add: stored_def adb_at_def)

lemma stored_at: "stored db (length xs) ys" if "adb_bytes db = xs @ ys @ zs"
  using that by (simp add: stored_def adb_at_def)

lemma w_lookup_found:
  assumes "w_lookup (adb_bytes db) h vec al es i = Place_found offs" "0 < al"
    "\<forall>e \<in> set es. unat (we_offs e) + unat (we_len e) \<le> length (adb_bytes db)"
  shows "stored db offs (concat vec) \<and> al dvd offs"
  using assms
proof (induction es arbitrary: i)
  case (Cons e es)
  then show ?case by (auto simp: iovec_memcmp_eq stored_def adb_at_def mod_eq_0_iff_dvd split: if_splits)
qed simp

text \<open>How much a database may grow by data of a length, with its padding.\<close>

definition room :: "adb \<Rightarrow> nat \<Rightarrow> bool" where "room db n \<longleftrightarrow> length (adb_bytes db) + n \<le> 2 ^ 28"

lemma align_up_padding: "al \<in> {1, 2, 4, 8} \<Longrightarrow> align_up n al \<le> n + 7"
  unfolding align_up_def by auto

text \<open>The search for data gives the same place for the entries before, and finds the entry that was added.\<close>

lemma memcmp_prefix:
  assumes "prefix d d'" "unat (we_offs e) + length (concat vec) \<le> length d"
  shows "iovec_memcmp vec (drop (unat (we_offs e)) d') \<longleftrightarrow> iovec_memcmp vec (drop (unat (we_offs e)) d)"
proof -
  have "take (length (concat vec)) (drop (unat (we_offs e)) d') = take (length (concat vec)) (drop (unat (we_offs e)) d)"
    using assms by (auto simp: prefix_def)
  then show ?thesis using iovec_memcmp_eq by metis
qed

lemma w_lookup_again:
  assumes "prefix d d'" "we_hash e = h" "unat (we_len e) = length (concat vec)" "concat vec \<noteq> []"
    "take (length (concat vec)) (drop (unat (we_offs e)) d') = concat vec" "al dvd unat (we_offs e)"
    and "\<forall>e \<in> set es. unat (we_offs e) + unat (we_len e) \<le> length d"
  shows "(w_lookup d h vec al es i = Place_new \<longrightarrow> w_lookup d' h vec al (es @ [e]) i = Place_found (unat (we_offs e))) \<and>
    (\<forall>j. w_lookup d h vec al es i = Place_replace j \<longrightarrow>
       i \<le> j \<and> w_lookup d' h vec al (es[j - i := e]) i = Place_found (unat (we_offs e)))"
  using assms(7)
proof (induction es arbitrary: i)
  case Nil
  have "we_len e \<noteq> 0" using assms(3,4) by (metis length_0_conv unat_0)
  then show ?case using assms(2-6) by (auto simp: iovec_memcmp_eq)
next
  case (Cons a es)
  have "we_len e \<noteq> 0" using assms(3,4) by (metis length_0_conv unat_0)
  then have hit: "w_lookup d' h vec al (e # es) i = Place_found (unat (we_offs e))" for i es
    using assms(2-6) by (auto simp: iovec_memcmp_eq)
  have same: "unat (we_len a) = length (concat vec) \<Longrightarrow>
      iovec_memcmp vec (drop (unat (we_offs a)) d') \<longleftrightarrow> iovec_memcmp vec (drop (unat (we_offs a)) d)"
    using memcmp_prefix [OF assms(1), of a vec] Cons.prems by simp
  have tail: "(a # es)[j - i := e] = a # es[j - Suc i := e]" if "Suc i \<le> j" for j
    using that by (cases "j - i") (auto simp: diff_Suc split: nat.splits)
  show ?case
  proof (cases "we_len a = 0 \<or> we_hash a = h \<and> unat (we_len a) = length (concat vec) \<and> \<not> iovec_memcmp vec (drop (unat (we_offs a)) d)")
    case True
    then show ?thesis using hit by auto
  next
    case False
    then have "w_lookup d h vec al (a # es) i = w_lookup d h vec al es (Suc i)"
      "\<And>es. w_lookup d' h vec al (a # es) i = w_lookup d' h vec al es (Suc i)" using same by auto
    then show ?thesis using Cons.IH [of "Suc i"] Cons.prems tail by auto
  qed
qed

lemma raw_fits:
  assumes ok: "writer_ok db" and al: "al \<in> {1, 2, 4, 8}" and fits: "room db (7 + length (concat vec))"
  obtains offs db' where "adb_w_raw db vec al = Ret (offs, db')" "grows_to db db'" "stored db' offs (concat vec)"
    "length (adb_bytes db') \<le> length (adb_bytes db) + (7 + length (concat vec))" "al dvd offs"
    "adb_bucket db' = adb_bucket db" "adb_num_buckets db' = adb_num_buckets db"
    "unat (word_of_nat offs :: u32) = offs" "unat (word_of_nat (length (concat vec)) :: u32) = length (concat vec)"
proof -
  let ?o = "align_up (length (adb_bytes db)) al"
  note b = align_up_bounds [OF al] align_up_padding [OF al, of "length (adb_bytes db)"]
  have "?o + length (concat vec) \<le> 2 ^ 31" using b(4) fits by (simp add: room_def)
  then obtain db' where w: "adb_w_raw db vec al = Ret (?o, db')" "grows_to db db'"
    "adb_bytes db' = (adb_bytes db @ replicate (?o - length (adb_bytes db)) NUL) @ concat vec"
    "adb_bucket db' = adb_bucket db" "adb_num_buckets db' = adb_num_buckets db"
    by (rule raw_spec [OF ok al]) simp
  have "stored db' ?o (concat vec)" using stored_whole [OF w(3)] b(1) by simp
  moreover have "length (adb_bytes db') \<le> length (adb_bytes db) + (7 + length (concat vec))" using w(3) b(1,4) by simp
  moreover have "unat (word_of_nat ?o :: u32) = ?o" "unat (word_of_nat (length (concat vec)) :: u32) = length (concat vec)"
    using b(4) fits by (simp_all add: room_def unsigned_of_nat take_bit_nat_eq_self)
  ultimately show thesis using that w(1,2,4,5) b(2) by blast
qed

text \<open>
  Writing data with the cache: either it is found, or it is appended and entered in its bucket, where the
  next search finds it.
\<close>

lemma data_cached:
  assumes ok: "writer_ok db" and al: "al \<in> {1, 2, 4, 8}" and fits: "room db (7 + length (concat vec))"
    and cache: "adb_no_cache db = 0" and ne: "concat vec \<noteq> []"
  obtains (found) offs where "adb_w_data db vec al = Ret (offs, db)" "stored db offs (concat vec)" "al dvd offs"
  | (added) offs db1 es where "adb_w_raw db vec al = Ret (offs, db1)"
      "adb_w_data db vec al = Ret (offs, db1\<lparr>adb_bucket := (adb_bucket db1)[unat (iovec_hash vec) mod adb_num_buckets db := es]\<rparr>)"
      "\<forall>e \<in> set es. unat (we_offs e) + unat (we_len e) \<le> length (adb_bytes db1)"
      "w_lookup (adb_bytes db1) (iovec_hash vec) vec al es 0 = Place_found offs"
proof -
  obtain offs db' where w: "adb_w_raw db vec al = Ret (offs, db')" "grows_to db db'" "stored db' offs (concat vec)"
    "length (adb_bytes db') \<le> length (adb_bytes db) + (7 + length (concat vec))" "al dvd offs"
    "adb_bucket db' = adb_bucket db" "adb_num_buckets db' = adb_num_buckets db"
    "unat (word_of_nat offs :: u32) = offs" "unat (word_of_nat (length (concat vec)) :: u32) = length (concat vec)"
    by (rule raw_fits [OF ok al fits])
  define h where "h = iovec_hash vec"
  define n where "n = unat h mod adb_num_buckets db"
  define e where "e = \<lparr>we_hash = h, we_offs = word_of_nat offs, we_len = word_of_nat (length (concat vec))\<rparr>"
  let ?es = "adb_bucket db ! n"
  have n: "n < length (adb_bucket db)" "adb_num_buckets db \<noteq> 0" using ok by (simp_all add: n_def writer_ok_def)
  have es: "\<forall>e \<in> set ?es. unat (we_offs e) + unat (we_len e) \<le> length (adb_bytes db)"
    using ok nth_mem [OF n(1)] by (simp add: writer_ok_def)
  have pre: "prefix (adb_bytes db) (adb_bytes db')" using w(2) by (simp add: grows_to_def)
  have inside: "\<forall>e \<in> set es'. unat (we_offs e) + unat (we_len e) \<le> length (adb_bytes db')" if "set es' \<subseteq> insert e (set ?es)" for es'
    using that es w(3,8,9) prefix_length_le [OF pre] by (fastforce simp: e_def stored_def)
  have e: "we_hash e = h" "unat (we_len e) = length (concat vec)" "unat (we_offs e) = offs"
    "take (length (concat vec)) (drop (unat (we_offs e)) (adb_bytes db')) = concat vec" "al dvd unat (we_offs e)"
    using w(3,5,8,9) by (simp_all add: e_def stored_def adb_at_def)
  note again = w_lookup_again [OF pre e(1,2) ne e(4,5) es, of 0]
  note def' = adb_w_data_def cache n Let_def w(1,8) h_def [symmetric] n_def [symmetric] e_def [symmetric]
  show thesis
  proof (cases "w_lookup (adb_bytes db) h vec al ?es 0")
    case (Place_found offs)
    have "adb_w_data db vec al = Ret (offs, db)" by (simp add: def' Place_found)
    then show thesis using w_lookup_found [OF Place_found _ es] al by (intro found) auto
  next
    case (Place_replace i)
    have "adb_w_data db vec al = Ret (offs, db'\<lparr>adb_bucket := (adb_bucket db')[n := ?es[i := e]]\<rparr>)" by (simp add: def' Place_replace)
    then show thesis using added [OF w(1) _ inside [OF set_update_subset_insert]] again Place_replace e(3)
      unfolding n_def h_def by auto
  next
    case Place_new
    have "adb_w_data db vec al = Ret (offs, db'\<lparr>adb_bucket := (adb_bucket db')[n := ?es @ [e]]\<rparr>)" by (simp add: def' Place_new)
    then show thesis using added [OF w(1) _ inside] again Place_new e(3) unfolding n_def h_def by auto
  qed
qed

lemma writer_bucket:
  assumes "grows_to db db'" "\<forall>e \<in> set es. unat (we_offs e) + unat (we_len e) \<le> length (adb_bytes db')"
  shows "grows_to db (db'\<lparr>adb_bucket := (adb_bucket db')[n := es]\<rparr>)"
  using assms unfolding grows_to_def writer_ok_def
  by (auto dest!: set_update_subset_insert [THEN subsetD] simp: adb_bytes_def)

text \<open>Writing data: the database only grows, and the data is at the offset that is returned.\<close>

lemma data_spec:
  assumes ok: "writer_ok db" and al: "al \<in> {1, 2, 4, 8}" and fits: "room db (7 + length (concat vec))" and ne: "concat vec \<noteq> []"
  obtains offs db' where "adb_w_data db vec al = Ret (offs, db')" "grows_to db db'" "stored db' offs (concat vec)"
    "length (adb_bytes db') \<le> length (adb_bytes db) + (7 + length (concat vec))" "al dvd offs"
proof -
  obtain o' db' where w: "adb_w_raw db vec al = Ret (o', db')" "grows_to db db'" "stored db' o' (concat vec)"
    "length (adb_bytes db') \<le> length (adb_bytes db) + (7 + length (concat vec))" "al dvd o'"
    by (rule raw_fits [OF ok al fits])
  show thesis
  proof (cases "adb_no_cache db = 0")
    case False
    then have "adb_w_data db vec al = Ret (o', db')" by (simp add: adb_w_data_def w(1))
    then show thesis by (rule that [OF _ w(2-5)])
  next
    case True
    from ok al fits True ne show thesis
    proof (cases rule: data_cached)
      case (found offs)
      then show thesis by (intro that [of offs db]) (simp_all add: grows_to_refl ok)
    next
      case (added offs db1 es)
      then have eq: "offs = o'" "db1 = db'" using w(1) by simp_all
      show thesis using added(2) unfolding eq
        by (rule that) (use w writer_bucket [OF w(2)] added(3) in \<open>simp_all add: eq stored_def adb_at_def adb_bytes_def\<close>)
    qed
  qed
qed

lemma data_once:
  assumes "writer_ok db" "al \<in> {1, 2, 4, 8}" "room db (7 + length (concat vec))" "adb_no_cache db = 0" "concat vec \<noteq> []"
    and w: "adb_w_data db vec al = Ret (offs, db')"
  shows "adb_w_data db' vec al = Ret (offs, db')"
  using assms(1-5)
proof (cases rule: data_cached)
  case (found offs)
  then show ?thesis using w by simp
next
  case (added o' db1 es)
  let ?n = "unat (iovec_hash vec) mod adb_num_buckets db"
  have eq: "offs = o'" "db' = db1\<lparr>adb_bucket := (adb_bucket db1)[?n := es]\<rparr>" using w added(2) by simp_all
  obtain o'' db'' where raw: "adb_w_raw db vec al = Ret (o'', db'')" "grows_to db db''" "adb_bucket db'' = adb_bucket db"
      "adb_num_buckets db'' = adb_num_buckets db" by (rule raw_fits [OF assms(1-3)])
  then have "adb_num_buckets db1 = adb_num_buckets db" "adb_no_cache db1 = 0" "adb_bucket db1 = adb_bucket db"
    using added(1) assms(4) by (simp_all add: grows_to_def)
  moreover have "adb_num_buckets db \<noteq> 0" "?n < length (adb_bucket db)" using assms(1) by (simp_all add: writer_ok_def)
  ultimately show ?thesis using added(4) unfolding eq by (simp add: adb_w_data_def Let_def adb_bytes_def)
qed

section \<open>What a value means\<close>

text \<open>
  The values of a database as trees: numbers, byte strings, and objects and arrays of values; special values
  are themselves.
\<close>

datatype tree = Special adb_val_t | Number u64 | Bytes bytes | Vector u32 "tree list"

definition int_at :: "adb \<Rightarrow> adb_val_t \<Rightarrow> u64 \<Rightarrow> bool" where
  "int_at db v n \<longleftrightarrow>
     (ADB_VAL_TYPE v = ADB_TYPE_INT \<and> unat n = unat (ADB_VAL_VALUE v)) \<or>
     (ADB_VAL_TYPE v = ADB_TYPE_INT_32 \<and> unat n < 2 ^ 32 \<and> stored db (unat (ADB_VAL_VALUE v)) (le_bytes 4 (unat n))) \<or>
     (ADB_VAL_TYPE v = ADB_TYPE_INT_64 \<and> stored db (unat (ADB_VAL_VALUE v)) (le_bytes 8 (unat n)))"

definition blob_type :: "nat \<Rightarrow> u32" where
  "blob_type w = (if w = 1 then ADB_TYPE_BLOB_8 else if w = 2 then ADB_TYPE_BLOB_16 else ADB_TYPE_BLOB_32)"

definition blob_at :: "adb \<Rightarrow> adb_val_t \<Rightarrow> bytes \<Rightarrow> bool" where
  "blob_at db v xs \<longleftrightarrow>
     (\<exists>w \<in> {1, 2, 4}. ADB_VAL_TYPE v = blob_type w \<and> length xs < 256 ^ w \<and>
        stored db (unat (ADB_VAL_VALUE v)) (le_bytes w (length xs) @ xs))"

definition vals_at :: "adb \<Rightarrow> adb_val_t \<Rightarrow> u32 \<Rightarrow> adb_val_t list \<Rightarrow> bool" where
  "vals_at db v type vals \<longleftrightarrow> ADB_VAL_TYPE v = type \<and> type \<in> {ADB_TYPE_OBJECT, ADB_TYPE_ARRAY} \<and> Suc (length vals) < 2 ^ 32 \<and>
     stored db (unat (ADB_VAL_VALUE v)) (val_bytes (word_of_nat (Suc (length vals)) # vals))"

fun denotes :: "adb \<Rightarrow> adb_val_t \<Rightarrow> tree \<Rightarrow> bool" where
  "denotes db v (Special s) \<longleftrightarrow> ADB_VAL_TYPE v = ADB_TYPE_SPECIAL \<and> v = s"
| "denotes db v (Number n) \<longleftrightarrow> int_at db v n"
| "denotes db v (Bytes xs) \<longleftrightarrow> blob_at db v xs"
| "denotes db v (Vector type ts) \<longleftrightarrow> (\<exists>vals. vals_at db v type vals \<and> list_all2 (denotes db) vals ts)"

lemma denotes_prefix: "denotes db v t \<Longrightarrow> prefix (adb_bytes db) (adb_bytes db') \<Longrightarrow> denotes db' v t"
proof (induction t arbitrary: v)
  case (Vector type ts)
  then obtain vals where "vals_at db v type vals" "list_all2 (denotes db) vals ts" by auto
  then have "vals_at db' v type vals" using stored_prefix Vector.prems(2) by (auto simp: vals_at_def)
  moreover have "list_all2 (denotes db') vals ts"
    using \<open>list_all2 (denotes db) vals ts\<close> by (rule list.rel_mono_strong) (use Vector in blast)
  ultimately show ?case by auto
qed (auto simp: int_at_def blob_at_def intro: stored_prefix)

section \<open>Reading\<close>

lemma deref_stored: "stored db (unat (ADB_VAL_VALUE v)) xs \<Longrightarrow> adb_r_deref db v 0 (length xs) = Some (unat (ADB_VAL_VALUE v))"
  by (simp add: adb_r_deref_def stored_def)

lemma type_distinct:
  "ADB_TYPE_INT \<noteq> ADB_TYPE_INT_32" "ADB_TYPE_INT \<noteq> ADB_TYPE_INT_64" "ADB_TYPE_INT_32 \<noteq> ADB_TYPE_INT_64"
  "ADB_TYPE_BLOB_8 \<noteq> ADB_TYPE_BLOB_16" "ADB_TYPE_BLOB_8 \<noteq> ADB_TYPE_BLOB_32" "ADB_TYPE_BLOB_16 \<noteq> ADB_TYPE_BLOB_32"
  by (simp_all add: type_defs)

lemma unat_u32_u64: "unat (ucast (x :: u32) :: u64) = unat x"
proof -
  have "unat x < 2 ^ LENGTH(32)" by (rule unsigned_less)
  then show ?thesis by (simp add: unsigned_ucast_eq take_bit_nat_eq_self)
qed

lemma r_int_at:
  assumes "int_at db v n"
  shows "adb_r_int db v = n"
proof -
  let ?p = "unat (ADB_VAL_VALUE v)"
  have "unat n < 2 ^ LENGTH(64)" by (rule unsigned_less)
  then have n64: "unat n mod 256 ^ 8 = unat n" by simp
  consider (inl) "ADB_VAL_TYPE v = ADB_TYPE_INT" "unat n = ?p"
    | (w4) "ADB_VAL_TYPE v = ADB_TYPE_INT_32" "unat n < 2 ^ 32" "stored db ?p (le_bytes 4 (unat n))"
    | (w8) "ADB_VAL_TYPE v = ADB_TYPE_INT_64" "stored db ?p (le_bytes 8 (unat n))"
    using assms by (auto simp: int_at_def)
  then show ?thesis
  proof cases
    case inl
    then show ?thesis by (simp add: adb_r_int_def word_unat_eq_iff unat_u32_u64)
  next
    case w4
    have "adb_at db ?p 4 = le_bytes 4 (unat n)" using w4(3) by (simp add: stored_def)
    then have "le_val (adb_at db ?p 4) = unat n" using w4(2) by simp
    then show ?thesis using deref_stored [OF w4(3)] w4(1) type_distinct by (simp add: adb_r_int_def)
  next
    case w8
    have "adb_at db ?p 8 = le_bytes 8 (unat n)" using w8(2) by (simp add: stored_def)
    then have "le_val (adb_at db ?p 8) = unat n" using n64 by (simp del: power_numeral)
    then show ?thesis using deref_stored [OF w8(2)] w8(1) type_distinct by (simp add: adb_r_int_def)
  qed
qed

lemma r_blob_at:
  assumes "blob_at db v xs"
  shows "adb_r_blob db v = Some xs"
proof -
  let ?p = "unat (ADB_VAL_VALUE v)"
  obtain w where w: "w \<in> {1, 2, 4}" "ADB_VAL_TYPE v = blob_type w" "length xs < 256 ^ w"
    "stored db ?p (le_bytes w (length xs) @ xs)" using assms unfolding blob_at_def by blast
  have st: "stored db ?p (le_bytes w (length xs))" "stored db (?p + w) xs"
    using stored_part [of db ?p "[]" "le_bytes w (length xs)" xs] stored_part [of db ?p "le_bytes w (length xs)" xs "[]"] w(4) by simp_all
  have "le_val (adb_at db ?p w) = length xs" using st(1) w(3) by (simp add: stored_def)
  moreover have "adb_r_deref db v 0 w = Some ?p" using deref_stored [OF st(1)] by simp
  moreover have "adb_r_deref db v w (length xs) = Some (?p + w)" using st(2) by (simp add: adb_r_deref_def stored_def add.commute)
  ultimately have "r_sized_blob db v w = (Some (?p + w), length xs)" by (simp add: r_sized_blob_def)
  then have "adb_r_blob_ptr db v = (Some (?p + w), length xs)"
    using w(1,2) type_distinct by (auto simp: adb_r_blob_ptr_def blob_type_def)
  then show ?thesis using st(2) by (simp add: adb_r_blob_def stored_def)
qed

lemma r_vals_at:
  assumes "vals_at db v type vals"
  shows "adb_r_vals db v = Some (word_of_nat (Suc (length vals)) # vals)"
proof -
  let ?p = "unat (ADB_VAL_VALUE v)" and ?n = "Suc (length vals)"
  let ?vs = "word_of_nat ?n # vals"
  have v: "ADB_VAL_TYPE v = type" "type \<in> {ADB_TYPE_OBJECT, ADB_TYPE_ARRAY}" "?n < 2 ^ 32" "stored db ?p (val_bytes ?vs)"
    using assms by (simp_all add: vals_at_def)
  have n: "unat (word_of_nat ?n :: u32) = ?n" using v(3) by (simp add: unsigned_of_nat take_bit_nat_eq_self del: of_nat_Suc)
  have "stored db ?p (le_bytes 4 ?n)"
    using stored_part [of db ?p "[]" "le_bytes 4 ?n" "val_bytes vals"] v(4) by (simp add: n del: of_nat_Suc)
  then have first: "adb_r_deref db v 0 4 = Some ?p" "le_val (adb_at db ?p 4) = ?n"
    using deref_stored v(3) by (fastforce simp: stored_def)+
  have "adb_r_deref db v 0 (4 * ?n) = Some ?p" using deref_stored [OF v(4)] by simp
  moreover have "adb_at db ?p (4 * ?n) = val_bytes ?vs" using v(4) by (simp add: stored_def)
  moreover have "bytes_vals (length ?vs) (val_bytes ?vs @ []) = ?vs" by (rule bytes_vals_val_bytes)
  ultimately show ?thesis using v(1,2) first by (auto simp: adb_r_vals_def Let_def)
qed

section \<open>Writing\<close>

lemma w_val_spec:
  assumes "writer_ok db" "al \<in> {1, 2, 4, 8}" "room db (7 + length (concat vec))" "type \<in> val_types" "concat vec \<noteq> []"
  obtains v db' where "w_val type (adb_w_data db vec al) = Ret (v, db')" "grows_to db db'" "ADB_VAL_TYPE v = type"
    "stored db' (unat (ADB_VAL_VALUE v)) (concat vec)" "length (adb_bytes db') \<le> length (adb_bytes db) + (7 + length (concat vec))"
proof -
  obtain offs db' where w: "adb_w_data db vec al = Ret (offs, db')" "grows_to db db'" "stored db' offs (concat vec)"
    "length (adb_bytes db') \<le> length (adb_bytes db) + (7 + length (concat vec))"
    by (rule data_spec [OF assms(1-3,5)])
  have "0 < length (concat vec)" using assms(5) by blast
  then have "offs < 2 ^ 28" using w(3,4) assms(3) unfolding stored_def room_def by linarith
  note val_parts [OF assms(4) this]
  then show thesis using w by (intro that [of "ADB_VAL type offs" db']) (simp_all add: w_val_def)
qed

lemma types_ok [simp]:
  "ADB_TYPE_INT \<in> val_types" "ADB_TYPE_INT_32 \<in> val_types" "ADB_TYPE_INT_64 \<in> val_types" "blob_type w \<in> val_types"
  "ADB_TYPE_OBJECT \<in> val_types" "ADB_TYPE_ARRAY \<in> val_types"
  by (simp_all add: val_types_def blob_type_def)

lemma w_int_spec:
  assumes ok: "writer_ok db" and fits: "room db 15"
  obtains v db' where "adb_w_int db n = Ret (v, db')" "grows_to db db'" "int_at db' v n"
    "length (adb_bytes db') \<le> length (adb_bytes db) + 15"
proof -
  note found = that
  have *: thesis if eq: "adb_w_int db n = w_val type (adb_w_data db [le_bytes k (unat n)] 4)"
    and k: "type = ADB_TYPE_INT_32 \<and> k = 4 \<and> unat n < 2 ^ 32 \<or> type = ADB_TYPE_INT_64 \<and> k = 8" for type k
  proof -
    have t: "type \<in> val_types" "k \<le> 8" "0 < k" using k by auto
    have r: "room db (7 + length (concat [le_bytes k (unat n)]))" "(4 :: nat) \<in> {1, 2, 4, 8}" "concat [le_bytes k (unat n)] \<noteq> []"
      using fits t(2,3) by (auto simp: room_def simp flip: length_0_conv)
    obtain v db' where w: "w_val type (adb_w_data db [le_bytes k (unat n)] 4) = Ret (v, db')" "grows_to db db'"
      "ADB_VAL_TYPE v = type" "stored db' (unat (ADB_VAL_VALUE v)) (concat [le_bytes k (unat n)])"
      "length (adb_bytes db') \<le> length (adb_bytes db) + (7 + length (concat [le_bytes k (unat n)]))"
      by (rule w_val_spec [OF ok r(2,1) t(1) r(3)])
    then have "int_at db' v n" using k by (auto simp: int_at_def)
    then show thesis using w t(2) by (intro found [of v db']) (simp_all add: eq)
  qed
  consider "unat n \<ge> 2 ^ 32" | "unat n < 2 ^ 32" "unat n \<ge> 2 ^ 28" | "unat n < 2 ^ 28" by linarith
  then show thesis
  proof cases
    case 3
    then have "adb_w_int db n = Ret (ADB_VAL ADB_TYPE_INT (unat n), db)" by (simp add: adb_w_int_def)
    moreover have "int_at db (ADB_VAL ADB_TYPE_INT (unat n)) n" using val_parts [OF _ 3] by (simp add: int_at_def)
    ultimately show thesis using that ok by (simp add: grows_to_refl)
  qed (rule *, auto simp: adb_w_int_def adb_w_data1_def)+
qed

lemma w_blob_vec_spec:
  assumes ok: "writer_ok db" and n: "length b \<le> 4" "concat b \<noteq> []" and fits: "room db (11 + length (concat b))"
  obtains v db' where "adb_w_blob_vec db b = Ret (v, db')" "grows_to db db'" "blob_at db' v (concat b)"
    "length (adb_bytes db') \<le> length (adb_bytes db) + (11 + length (concat b))"
proof -
  let ?sz = "length (concat b)"
  define w :: nat where "w = (if ?sz > 0xffff then 4 else if ?sz > 0xff then 2 else 1)"
  have w: "w \<in> {1, 2, 4}" by (simp add: w_def)
  have "?sz < 2 ^ 32" using fits by (simp add: room_def)
  then have sz: "?sz < 256 ^ w" by (simp add: w_def)
  have eq: "adb_w_blob_vec db b = w_val (blob_type w) (adb_w_data db (le_bytes w ?sz # b) w)"
    using n by (auto simp: adb_w_blob_vec_def w_def blob_type_def Let_def simp flip: length_greater_0_conv)
  have cat: "concat (le_bytes w ?sz # b) = le_bytes w ?sz @ concat b" by simp
  have r: "room db (7 + length (concat (le_bytes w ?sz # b)))" "w \<in> {1, 2, 4, 8}" "concat (le_bytes w ?sz # b) \<noteq> []"
    using fits w n by (auto simp: room_def)
  obtain v db' where *: "w_val (blob_type w) (adb_w_data db (le_bytes w ?sz # b) w) = Ret (v, db')" "grows_to db db'"
    "ADB_VAL_TYPE v = blob_type w" "stored db' (unat (ADB_VAL_VALUE v)) (concat (le_bytes w ?sz # b))"
    "length (adb_bytes db') \<le> length (adb_bytes db) + (7 + length (concat (le_bytes w ?sz # b)))"
    by (rule w_val_spec [OF ok r(2,1) types_ok(4) r(3)])
  then have "blob_at db' v (concat b)" unfolding blob_at_def cat using w sz by blast
  moreover have "length (adb_bytes db') \<le> length (adb_bytes db) + (11 + ?sz)" using *(5) w unfolding cat by auto
  ultimately show thesis using that eq *(1,2) by simp
qed

lemma w_vals_spec:
  assumes ok: "writer_ok db" and type: "type \<in> {ADB_TYPE_OBJECT, ADB_TYPE_ARRAY}" and vals: "vals \<noteq> []" "last vals \<noteq> ADB_NULL"
    and fits: "room db (11 + 4 * length vals)"
  obtains v db' where "w_vals db type (m # vals @ replicate k ADB_NULL) = Ret (v, db')" "grows_to db db'" "vals_at db' v type vals"
    "length (adb_bytes db') \<le> length (adb_bytes db) + (11 + 4 * length vals)"
proof -
  let ?vs = "[val_bytes (word_of_nat (Suc (length vals)) # vals)]"
  obtain us u where u: "vals = us @ [u]" "u \<noteq> ADB_NULL" using vals by (metis append_butlast_last_id)
  have "dropWhile (\<lambda>v. v = ADB_NULL) (replicate k ADB_NULL @ u # rev us) = u # rev us"
    using u(2) by (induction k) simp_all
  then have eq: "w_vals db type (m # vals @ replicate k ADB_NULL) = w_val type (adb_w_data db ?vs 4)"
    using u(1) by (simp add: w_vals_def Let_def adb_w_data1_def)
  have r: "room db (7 + length (concat ?vs))" "(4 :: nat) \<in> {1, 2, 4, 8}" "concat ?vs \<noteq> []" "type \<in> val_types"
    using fits type by (auto simp: room_def simp flip: length_0_conv)
  obtain v db' where *: "w_val type (adb_w_data db ?vs 4) = Ret (v, db')" "grows_to db db'" "ADB_VAL_TYPE v = type"
    "stored db' (unat (ADB_VAL_VALUE v)) (concat ?vs)" "length (adb_bytes db') \<le> length (adb_bytes db) + (7 + length (concat ?vs))"
    by (rule w_val_spec [OF ok r(2,1,4,3)])
  have "vals_at db' v type vals" using * type fits by (auto simp: vals_at_def room_def)
  then show thesis using that eq * by simp
qed

section \<open>Copying\<close>

fun weight :: "tree \<Rightarrow> nat" where
  "weight (Special s) = 0"
| "weight (Number n) = 15"
| "weight (Bytes xs) = 11 + length xs"
| "weight (Vector type ts) = 11 + 4 * length ts + sum_list (map weight ts)"

fun depth :: "tree \<Rightarrow> nat" where
  "depth (Vector type ts) = Suc (fold max (map depth ts) 0)"
| "depth t = 0"

lemma depth_le: "t \<in> set ts \<Longrightarrow> depth t \<le> fold max (map depth ts) 0"
proof -
  assume "t \<in> set ts"
  have "fold max (map depth ts) 0 = Max (insert 0 (set (map depth ts)))" by (metis Max.set_eq_fold fold_simps(1) list.set(2))
  then show ?thesis using \<open>t \<in> set ts\<close> by simp
qed

lemma w_copy_data_spec:
  assumes "writer_ok db" "stored srcdb (unat (ADB_VAL_VALUE v)) xs" "al \<in> {1, 2, 4, 8}" "room db (7 + length xs)"
    "ADB_VAL_TYPE v \<in> val_types" "xs \<noteq> []"
  obtains w db' where "w_copy_data db srcdb v (length xs) al = Ret (w, db')" "grows_to db db'" "ADB_VAL_TYPE w = ADB_VAL_TYPE v"
    "stored db' (unat (ADB_VAL_VALUE w)) xs" "length (adb_bytes db') \<le> length (adb_bytes db) + (7 + length xs)"
proof -
  have r: "room db (7 + length (concat [xs]))" "concat [xs] \<noteq> []" using assms by simp_all
  obtain w db' where *: "w_val (ADB_VAL_TYPE v) (adb_w_data db [xs] al) = Ret (w, db')" "grows_to db db'"
    "ADB_VAL_TYPE w = ADB_VAL_TYPE v" "stored db' (unat (ADB_VAL_VALUE w)) (concat [xs])"
    "length (adb_bytes db') \<le> length (adb_bytes db) + (7 + length (concat [xs]))"
    by (rule w_val_spec [OF assms(1,3) r(1) assms(5) r(2)])
  have "adb_at srcdb (unat (ADB_VAL_VALUE v)) (length xs) = xs" using assms(2) by (simp add: stored_def)
  then have "w_copy_data db srcdb v (length xs) al = w_val (ADB_VAL_TYPE v) (adb_w_data db [xs] al)"
    by (simp add: w_copy_data_def adb_w_data1_def deref_stored [OF assms(2)])
  then show thesis using that * by simp
qed

definition copies :: "adb \<Rightarrow> adb_val_t \<Rightarrow> adb \<Rightarrow> tree \<Rightarrow> nat \<Rightarrow> bool" where
  "copies srcdb v db t fuel \<longleftrightarrow>
     (\<exists>w db'. adb_w_copy fuel srcdb db v = Some (Ret (w, db')) \<and> grows_to db db' \<and> denotes db' w t \<and>
        length (adb_bytes db') \<le> length (adb_bytes db) + weight t)"

lemma copy_vals:
  assumes "list_all2 (denotes srcdb) vs ts" "writer_ok db" "room db (sum_list (map weight ts))"
    and "\<And>v t db. t \<in> set ts \<Longrightarrow> denotes srcdb v t \<Longrightarrow> writer_ok db \<Longrightarrow> room db (weight t) \<Longrightarrow> copies srcdb v db t fuel"
  shows "\<exists>ws db'. w_copy_vals (adb_w_copy fuel srcdb) db vs = Some (Ret (ws, db')) \<and> grows_to db db' \<and>
    list_all2 (denotes db') ws ts \<and> length (adb_bytes db') \<le> length (adb_bytes db) + sum_list (map weight ts)"
  using assms
proof (induction arbitrary: db rule: list_all2_induct)
  case Nil
  then show ?case by (simp add: grows_to_refl)
next
  case (Cons v vs t ts)
  have "room db (weight t)" using Cons.prems(2) by (simp add: room_def)
  then have "copies srcdb v db t fuel" using Cons.prems(3) [of t v db] Cons.hyps(1) Cons.prems(1) by simp
  then obtain w db1 where 1: "adb_w_copy fuel srcdb db v = Some (Ret (w, db1))" "grows_to db db1" "denotes db1 w t"
    "length (adb_bytes db1) \<le> length (adb_bytes db) + weight t" unfolding copies_def by blast
  have "writer_ok db1" "room db1 (sum_list (map weight ts))"
    using 1(2,4) Cons.prems(2) by (simp_all add: grows_to_def room_def)
  from Cons.IH [OF this] Cons.prems(3) obtain ws db2 where
    2: "w_copy_vals (adb_w_copy fuel srcdb) db1 vs = Some (Ret (ws, db2))" "grows_to db1 db2" "list_all2 (denotes db2) ws ts"
      "length (adb_bytes db2) \<le> length (adb_bytes db1) + sum_list (map weight ts)" by auto
  have "w_copy_vals (adb_w_copy fuel srcdb) db (v # vs) = Some (Ret (w # ws, db2))" using 1(1) 2(1) by simp
  moreover have "denotes db2 w t" using 1(3) 2(2) by (auto intro: denotes_prefix simp: grows_to_def)
  ultimately show ?case using 1(4) 2(3,4) grows_to_trans [OF 1(2) 2(2)] by auto
qed

lemma types_unique [simp]:
  "ADB_TYPE_SPECIAL \<noteq> ADB_TYPE_INT" "ADB_TYPE_INT_32 \<notin> {ADB_TYPE_SPECIAL, ADB_TYPE_INT}"
  "ADB_TYPE_INT_64 \<notin> {ADB_TYPE_SPECIAL, ADB_TYPE_INT, ADB_TYPE_INT_32}"
  "blob_type w \<notin> {ADB_TYPE_SPECIAL, ADB_TYPE_INT, ADB_TYPE_INT_32, ADB_TYPE_INT_64}"
  by (simp_all add: type_defs blob_type_def)

lemma copy_int:
  assumes "int_at srcdb v n" "writer_ok db" "room db 15"
  shows "copies srcdb v db (Number n) (Suc fuel)"
proof -
  consider (inl) "ADB_VAL_TYPE v = ADB_TYPE_INT" "unat n = unat (ADB_VAL_VALUE v)"
    | (mem) k where "k = 4 \<and> ADB_VAL_TYPE v = ADB_TYPE_INT_32 \<and> unat n < 2 ^ 32 \<or> k = 8 \<and> ADB_VAL_TYPE v = ADB_TYPE_INT_64"
      "stored srcdb (unat (ADB_VAL_VALUE v)) (le_bytes k (unat n))"
    using assms(1) unfolding int_at_def by blast
  then show ?thesis
  proof cases
    case inl
    then show ?thesis using assms(2) by (auto simp: copies_def int_at_def grows_to_refl Let_def)
  next
    case (mem k)
    have k: "k \<in> {1, 2, 4, 8}" "room db (7 + length (le_bytes k (unat n)))" "ADB_VAL_TYPE v \<in> val_types" "le_bytes k (unat n) \<noteq> []"
      using mem(1) assms(3) by (auto simp: room_def simp flip: length_0_conv)
    obtain w db' where *: "w_copy_data db srcdb v (length (le_bytes k (unat n))) k = Ret (w, db')" "grows_to db db'"
      "ADB_VAL_TYPE w = ADB_VAL_TYPE v" "stored db' (unat (ADB_VAL_VALUE w)) (le_bytes k (unat n))"
      "length (adb_bytes db') \<le> length (adb_bytes db) + (7 + length (le_bytes k (unat n)))"
      by (rule w_copy_data_spec [OF assms(2) mem(2) k])
    have "adb_w_copy (Suc fuel) srcdb db v = Some (Ret (w, db'))" using mem(1) *(1) by (auto simp: Let_def type_defs)
    moreover have "int_at db' w n" using mem(1) *(3,4) by (auto simp: int_at_def)
    ultimately show ?thesis using *(2,5) mem(1) by (auto simp: copies_def)
  qed
qed

lemma copy_blob:
  assumes "blob_at srcdb v xs" "writer_ok db" "room db (11 + length xs)"
  shows "copies srcdb v db (Bytes xs) (Suc fuel)"
proof -
  let ?p = "unat (ADB_VAL_VALUE v)"
  obtain k where k: "k \<in> {1, 2, 4}" "ADB_VAL_TYPE v = blob_type k" "length xs < 256 ^ k"
    "stored srcdb ?p (le_bytes k (length xs) @ xs)" using assms(1) unfolding blob_at_def by blast
  let ?ys = "le_bytes k (length xs) @ xs"
  have r: "k \<in> {1, 2, 4, 8}" "room db (7 + length ?ys)" "ADB_VAL_TYPE v \<in> val_types" "?ys \<noteq> []"
    using k(1,2) assms(3) by (auto simp: room_def)
  obtain w db' where *: "w_copy_data db srcdb v (length ?ys) k = Ret (w, db')" "grows_to db db'"
    "ADB_VAL_TYPE w = ADB_VAL_TYPE v" "stored db' (unat (ADB_VAL_VALUE w)) ?ys"
    "length (adb_bytes db') \<le> length (adb_bytes db) + (7 + length ?ys)"
    by (rule w_copy_data_spec [OF assms(2) k(4) r])
  have "stored srcdb ?p (le_bytes k (length xs))"
    using stored_part [of srcdb ?p "[]" "le_bytes k (length xs)" xs] k(4) by simp
  then have "adb_r_deref srcdb v 0 k = Some ?p" "le_val (adb_at srcdb ?p k) = length xs"
    using deref_stored [of srcdb v "le_bytes k (length xs)"] k(3) by (simp_all add: stored_def)
  then have "w_copy_blob db srcdb v k = Ret (w, db')" using *(1) by (simp add: w_copy_blob_def)
  then have "adb_w_copy (Suc fuel) srcdb db v = Some (Ret (w, db'))"
    using k(1,2) by (auto simp: Let_def type_defs blob_type_def)
  moreover have "blob_at db' w xs" unfolding blob_at_def using k *(3,4) by auto
  moreover have "length (adb_bytes db') \<le> length (adb_bytes db) + weight (Bytes xs)" using *(5) k(1) by auto
  ultimately show ?thesis using *(2) by (auto simp: copies_def)
qed

lemma copy_vector:
  assumes v: "vals_at srcdb v type vals" "list_all2 (denotes srcdb) vals ts"
    and ok: "writer_ok db" and fits: "room db (weight (Vector type ts))"
    and copy: "\<And>v t db. t \<in> set ts \<Longrightarrow> denotes srcdb v t \<Longrightarrow> writer_ok db \<Longrightarrow> room db (weight t) \<Longrightarrow> copies srcdb v db t fuel"
  shows "copies srcdb v db (Vector type ts) (Suc fuel)"
proof -
  have len: "length vals = length ts" using v(2) by (rule list_all2_lengthD)
  have "room db (sum_list (map weight ts))" using fits by (simp add: room_def)
  from copy_vals [OF v(2) ok this copy] obtain ws db1 where
    1: "w_copy_vals (adb_w_copy fuel srcdb) db vals = Some (Ret (ws, db1))" "grows_to db db1" "list_all2 (denotes db1) ws ts"
      "length (adb_bytes db1) \<le> length (adb_bytes db) + sum_list (map weight ts)" by blast
  have lw: "length ws = length ts" using 1(3) by (rule list_all2_lengthD)
  let ?xs = "val_bytes (word_of_nat (Suc (length ts)) # ws)"
  have t: "ADB_VAL_TYPE v = type" "type \<in> {ADB_TYPE_OBJECT, ADB_TYPE_ARRAY}" using v(1) by (simp_all add: vals_at_def)
  have r: "writer_ok db1" "(4 :: nat) \<in> {1, 2, 4, 8}" "room db1 (7 + length (concat [?xs]))" "type \<in> val_types" "concat [?xs] \<noteq> []"
    using 1(2,4) fits lw t(2) by (auto simp: room_def grows_to_def)
  obtain w db' where 2: "w_val type (adb_w_data db1 [?xs] 4) = Ret (w, db')" "grows_to db1 db'" "ADB_VAL_TYPE w = type"
    "stored db' (unat (ADB_VAL_VALUE w)) (concat [?xs])" "length (adb_bytes db') \<le> length (adb_bytes db1) + (7 + length (concat [?xs]))"
    by (rule w_val_spec [OF r])
  have "adb_w_copy (Suc fuel) srcdb db v = Some (Ret (w, db'))"
    using t 1(1) 2(1) r_vals_at [OF v(1)] by (auto simp: Let_def len adb_w_data1_def type_defs)
  moreover have "vals_at db' w type ws" using 2(3,4) t v(1) lw len by (auto simp: vals_at_def)
  moreover have "list_all2 (denotes db') ws ts"
    using 1(3) 2(2) by (auto simp: grows_to_def elim!: list.rel_mono_strong intro: denotes_prefix)
  moreover have "length (adb_bytes db') \<le> length (adb_bytes db) + weight (Vector type ts)" using 1(4) 2(5) lw by simp
  ultimately show ?thesis using grows_to_trans [OF 1(2) 2(2)] by (auto simp: copies_def)
qed

lemma adb_copy_spec:
  "denotes srcdb v t \<Longrightarrow> writer_ok db \<Longrightarrow> room db (weight t) \<Longrightarrow> depth t < fuel \<Longrightarrow> copies srcdb v db t fuel"
proof (induction t arbitrary: v db fuel)
  case (Special s)
  then obtain f where "fuel = Suc f" by (cases fuel) simp_all
  then show ?case using Special by (auto simp: copies_def grows_to_refl Let_def)
next
  case (Number n)
  then obtain f where "fuel = Suc f" by (cases fuel) simp_all
  then show ?case using Number copy_int by simp
next
  case (Bytes xs)
  then obtain f where "fuel = Suc f" by (cases fuel) simp_all
  then show ?case using Bytes copy_blob by simp
next
  case (Vector type ts)
  then obtain f where f: "fuel = Suc f" by (cases fuel) simp_all
  from Vector.prems(1) obtain vals where v: "vals_at srcdb v type vals" "list_all2 (denotes srcdb) vals ts" by auto
  have "depth t < f" if "t \<in> set ts" for t using depth_le [OF that] Vector.prems(4) f by simp
  then show ?case unfolding f using copy_vector [OF v Vector.prems(2,3)] Vector.IH by blast
qed

section \<open>Properties\<close>

text \<open>A new database for a number of buckets.\<close>

definition new_db :: "nat \<Rightarrow> adb" where
  "new_db n = \<lparr>adb_data = Some (replicate 8 NUL), adb_schema = 0, adb_num_buckets = n, adb_alloc_len = 8192, adb_no_cache = 0,
     adb_bucket = replicate n []\<rparr>"

lemma init_dynamic: "0 < n \<Longrightarrow> adb_w_init_dynamic 0 n = Ret (new_db n)"
proof -
  assume "0 < n"
  let ?db = "adb_init\<lparr>adb_num_buckets := n, adb_bucket := replicate n []\<rparr>"
  have "adb_bytes ?db = []" by (simp add: adb_bytes_def blob_bytes_def adb_init_def)
  moreover have "grow_alloc 33 8 8192 = Some 8192" by (simp add: numeral_eq_Suc)
  ultimately have "adb_w_raw ?db [replicate 8 NUL] 8 = Ret (0, new_db n)"
    using \<open>0 < n\<close> by (simp add: adb_w_raw_def align_up_def) (simp add: adb_init_def new_db_def)
  then show ?thesis using \<open>0 < n\<close> by (simp add: adb_w_init_dynamic_def adb_init_def adb_hdr_size_def)
qed

lemma new_db_ok: "0 < n \<Longrightarrow> writer_ok (new_db n)"
  by (auto simp: writer_ok_def new_db_def adb_alloc_ok_def adb_bytes_def blob_bytes_def intro: exI [of _ 0])

lemma new_db_room: "k \<le> 1000 \<Longrightarrow> room (new_db n) k"
  by (simp add: room_def new_db_def adb_bytes_def blob_bytes_def)

text \<open>
  C37. A database that can grow accepts every number and every byte string for which there is room below the
  28 bits of an offset: what is read back is what was written, and every value that was written before keeps
  its meaning. The empty string is the null value.
\<close>

theorem adb_values_roundtrip:
  assumes "writer_ok db" "room db (15 + length xs)" "xs \<noteq> []"
  shows "(\<exists>v db'. adb_w_int db n = Ret (v, db') \<and> writer_ok db' \<and> adb_r_int db' v = n \<and>
      (\<forall>u t. denotes db u t \<longrightarrow> denotes db' u t)) \<and>
    (\<exists>v db'. adb_w_blob db (Some xs) = Ret (v, db') \<and> writer_ok db' \<and> adb_r_blob db' v = Some xs \<and>
      (\<forall>u t. denotes db u t \<longrightarrow> denotes db' u t))"
proof (intro conjI)
  have "room db 15" using assms(2) by (simp add: room_def)
  from assms(1) this obtain v db' where "adb_w_int db n = Ret (v, db')" "grows_to db db'" "int_at db' v n" by (rule w_int_spec)
  then show "\<exists>v db'. adb_w_int db n = Ret (v, db') \<and> writer_ok db' \<and> adb_r_int db' v = n \<and>
      (\<forall>u t. denotes db u t \<longrightarrow> denotes db' u t)" using r_int_at denotes_prefix unfolding grows_to_def by blast
  have r: "length [xs] \<le> 4" "concat [xs] \<noteq> []" "room db (11 + length (concat [xs]))" using assms(2,3) by (auto simp: room_def)
  obtain v db' where "adb_w_blob_vec db [xs] = Ret (v, db')" "grows_to db db'" "blob_at db' v (concat [xs])"
    by (rule w_blob_vec_spec [OF assms(1) r])
  then have "adb_w_blob db (Some xs) = Ret (v, db')" "grows_to db db'" "adb_r_blob db' v = Some xs"
    using r_blob_at by (auto simp: adb_w_blob_def blob_bytes_def)
  then show "\<exists>v db'. adb_w_blob db (Some xs) = Ret (v, db') \<and> writer_ok db' \<and> adb_r_blob db' v = Some xs \<and>
      (\<forall>u t. denotes db u t \<longrightarrow> denotes db' u t)" using denotes_prefix unfolding grows_to_def by blast
qed

theorem adb_values_roundtrip_witness:
  "\<exists>v db'. adb_w_blob (new_db 1) (Some ''abc'') = Ret (v, db') \<and> writer_ok db' \<and> adb_r_blob db' v = Some ''abc'' \<and>
     (\<forall>u t. denotes (new_db 1) u t \<longrightarrow> denotes db' u t)"
  by (rule adb_values_roundtrip [of "new_db 1" "''abc''", THEN conjunct2]) (simp_all add: new_db_ok new_db_room)

text \<open>
  C27. Writing the same data again returns the same offset and leaves the database as it is: equal data is
  stored once.
\<close>

theorem adb_data_stored_once:
  assumes "writer_ok db" "al \<in> {1, 2, 4, 8}" "room db (7 + length (concat vec))" "adb_no_cache db = 0" "concat vec \<noteq> []"
  shows "\<exists>offs db'. adb_w_data db vec al = Ret (offs, db') \<and> writer_ok db' \<and> stored db' offs (concat vec) \<and> al dvd offs \<and>
    adb_w_data db' vec al = Ret (offs, db')"
proof -
  obtain offs db' where "adb_w_data db vec al = Ret (offs, db')" "grows_to db db'" "stored db' offs (concat vec)" "al dvd offs"
    by (rule data_spec [OF assms(1-3,5)])
  then show ?thesis using data_once [OF assms] unfolding grows_to_def by blast
qed

theorem adb_data_stored_once_witness:
  "\<exists>offs db'. adb_w_data (new_db 2) [''ab'', ''c''] 4 = Ret (offs, db') \<and> writer_ok db' \<and> stored db' offs (concat [''ab'', ''c'']) \<and>
     4 dvd offs \<and> adb_w_data db' [''ab'', ''c''] 4 = Ret (offs, db')"
  by (rule adb_data_stored_once) (simp_all add: new_db_ok new_db_room, simp add: new_db_def)

text \<open>
  C23. Copying a value from another database gives a value that means the same tree of numbers, strings,
  objects and arrays, and keeps what the database had before; the depth of the recursion is the depth of
  the tree.
\<close>

theorem adb_copy_refines:
  assumes "denotes srcdb v t" "writer_ok db" "room db (weight t)" "depth t < fuel"
  shows "\<exists>w db'. adb_w_copy fuel srcdb db v = Some (Ret (w, db')) \<and> writer_ok db' \<and> denotes db' w t \<and>
    (\<forall>u s. denotes db u s \<longrightarrow> denotes db' u s)"
  using adb_copy_spec [OF assms] denotes_prefix unfolding copies_def grows_to_def by blast

definition src_db :: adb where
  "src_db = adb_init\<lparr>adb_data := Some (replicate 8 NUL @ (le_bytes 1 2 @ ''ab'') @ [NUL] @ val_bytes [3, 0x10000005, 0x80000008])\<rparr>"

lemma src_db_denotes: "denotes src_db 0xe000000c (Vector ADB_TYPE_OBJECT [Number 5, Bytes ''ab''])"
proof -
  have d: "adb_bytes src_db = replicate 8 NUL @ (le_bytes 1 2 @ ''ab'') @ [NUL] @ val_bytes [3, 0x10000005, 0x80000008]"
    by (simp add: src_db_def adb_bytes_def blob_bytes_def)
  have "vals_at src_db 0xe000000c ADB_TYPE_OBJECT [0x10000005, 0x80000008]"
    using stored_at [of src_db "replicate 8 NUL @ (le_bytes 1 2 @ ''ab'') @ [NUL]" "val_bytes [3, 0x10000005, 0x80000008]" "[]"]
    by (simp add: d vals_at_def ADB_VAL_TYPE_def ADB_VAL_VALUE_def type_defs del: val_bytes.simps)
  moreover have "int_at src_db 0x10000005 5"
    by (simp add: int_at_def ADB_VAL_TYPE_def ADB_VAL_VALUE_def type_defs)
  moreover have "stored src_db 8 (le_bytes 1 (length ''ab'') @ ''ab'')" using stored_at [OF d] by (simp add: numeral_2_eq_2)
  then have "blob_at src_db 0x80000008 ''ab''" unfolding blob_at_def
    by (intro bexI [of _ 1]) (simp_all add: ADB_VAL_TYPE_def ADB_VAL_VALUE_def type_defs blob_type_def)
  ultimately show ?thesis by auto
qed

theorem adb_copy_refines_witness:
  "\<exists>w db'. adb_w_copy 2 src_db (new_db 1) 0xe000000c = Some (Ret (w, db')) \<and> writer_ok db' \<and>
     denotes db' w (Vector ADB_TYPE_OBJECT [Number 5, Bytes ''ab'']) \<and> (\<forall>u s. denotes (new_db 1) u s \<longrightarrow> denotes db' u s)"
  by (rule adb_copy_refines [OF src_db_denotes]) (simp_all add: new_db_ok new_db_room)

lemma copy_inline: "ADB_VAL_TYPE u = ADB_TYPE_INT \<Longrightarrow> adb_w_copy (Suc fuel) srcdb db u = Some (Ret (u, db))"
  by (simp add: Let_def)

text \<open>
  An object that contains itself can be read, but copying it never ends, whatever the depth of the
  recursion.
\<close>

lemma adb_copy_cyclic:
  assumes "ADB_VAL_TYPE v = ADB_TYPE_OBJECT" "adb_r_vals srcdb v = Some (num # vals)" "v \<in> set vals"
    "\<forall>u \<in> set vals. u = v \<or> ADB_VAL_TYPE u = ADB_TYPE_INT"
  shows "adb_w_copy fuel srcdb db v = None"
proof (induction fuel arbitrary: db)
  case (Suc fuel)
  have "w_copy_vals (adb_w_copy fuel srcdb) db us = None" if "v \<in> set us" "set us \<subseteq> set vals" for us db
    using that
  proof (induction us arbitrary: db)
    case (Cons u us)
    show ?case
    proof (cases "u = v")
      case False
      then have "ADB_VAL_TYPE u = ADB_TYPE_INT" using Cons.prems assms(4) by auto
      moreover have "w_copy_vals (adb_w_copy fuel srcdb) db us = None" for db using Cons False by simp
      ultimately show ?thesis by (cases fuel) (simp_all add: copy_inline del: adb_w_copy.simps(2))
    qed (simp add: Suc.IH)
  qed simp
  then show ?case using assms by (auto simp: Let_def type_defs)
qed simp

definition cyclic_db :: adb where
  "cyclic_db = adb_init\<lparr>adb_data := Some (replicate 8 NUL @ val_bytes [2, 0xe0000008])\<rparr>"

lemma adb_copy_cyclic_witness:
  "adb_r_vals cyclic_db 0xe0000008 = Some [2, 0xe0000008] \<and> (\<forall>fuel. adb_w_copy fuel cyclic_db (new_db 1) 0xe0000008 = None)"
proof -
  have d: "adb_bytes cyclic_db = replicate 8 NUL @ val_bytes [2, 0xe0000008] @ []"
    by (simp add: cyclic_db_def adb_bytes_def blob_bytes_def)
  have "vals_at cyclic_db 0xe0000008 ADB_TYPE_OBJECT [0xe0000008]" using stored_at [OF d]
    by (simp add: vals_at_def ADB_VAL_TYPE_def ADB_VAL_VALUE_def type_defs del: val_bytes.simps)
  then have "adb_r_vals cyclic_db 0xe0000008 = Some [2, 0xe0000008]" by (simp add: r_vals_at)
  then show ?thesis using adb_copy_cyclic [of "0xe0000008" cyclic_db 2 "[0xe0000008]"] by (simp add: ADB_VAL_TYPE_def type_defs)
qed

definition full_db :: "nat \<Rightarrow> adb" where
  "full_db n = \<lparr>adb_data = Some (replicate n NUL), adb_schema = 0, adb_num_buckets = 1, adb_alloc_len = n, adb_no_cache = 0,
     adb_bucket = [[]]\<rparr>"

text \<open>
  The offset of a value has 28 bits but is not limited to them: a number of 32 bits that is written to a database
  of 256 megabytes, all of them null bytes, gets the type of a number of 64 bits, and zero is read back.
\<close>

lemma adb_offset_overflows:
  assumes "n = 2 ^ 28"
  shows "writer_ok (full_db n) \<and>
    (\<exists>v db'. adb_w_int (full_db n) 0x10000000 = Ret (v, db') \<and> ADB_VAL_TYPE v = ADB_TYPE_INT_64 \<and> adb_r_int db' v = 0)"
proof -
  have d: "adb_bytes (full_db n) = replicate n NUL" by (simp add: full_db_def adb_bytes_def blob_bytes_def)
  have "adb_alloc_ok n" unfolding adb_alloc_ok_def using assms by (intro disjI2 exI [of _ 15]) simp
  then have ok: "writer_ok (full_db n)" unfolding writer_ok_def d by (simp add: full_db_def)
  have a: "align_up n 4 = n" using assms by (simp add: align_up_def)
  let ?xs = "le_bytes 4 0x10000000"
  have "align_up (length (adb_bytes (full_db n))) 4 + length (concat [?xs]) \<le> 2 ^ 31" by (simp add: d a) (simp add: assms)
  from raw_spec [OF ok _ this] obtain db1 where
    1: "adb_w_raw (full_db n) [?xs] 4 = Ret (n, db1)" "adb_bytes db1 = replicate n NUL @ ?xs" by (auto simp: d a)
  obtain db' where 2: "adb_w_data (full_db n) [?xs] 4 = Ret (n, db')" "adb_bytes db' = adb_bytes db1"
    using 1(1) assms by (auto simp: adb_w_data_def full_db_def Let_def adb_bytes_def unsigned_of_nat take_bit_nat_eq_self)
  have "adb_w_int (full_db n) 0x10000000 = Ret (ADB_VAL ADB_TYPE_INT_32 n, db')"
    using 2(1) by (simp add: adb_w_int_def adb_w_data1_def w_val_def)
  moreover have v: "ADB_VAL ADB_TYPE_INT_32 n = 0x30000000" using assms by (simp add: ADB_VAL_def type_defs)
  moreover have "le_val (adb_at db' 0 8) = 0" using assms by (simp add: adb_at_def 2(2) 1(2) le_val_zeros)
  then have "adb_r_int db' 0x30000000 = 0"
    by (simp add: adb_r_int_def ADB_VAL_TYPE_def ADB_VAL_VALUE_def type_defs adb_r_deref_def split: option.split)
  ultimately show ?thesis using ok by (simp add: ADB_VAL_TYPE_def type_defs)
qed

lemma adb_offset_overflows_witness:
  "\<exists>v db'. adb_w_int (full_db (2 ^ 28)) 0x10000000 = Ret (v, db') \<and> ADB_VAL_TYPE v = ADB_TYPE_INT_64 \<and> adb_r_int db' v = 0"
  by (rule adb_offset_overflows [OF refl, THEN conjunct2])

end
