(* ===== verification/Adb_Block.thy ===== *)
theory Adb_Block
  imports Adb_Write Tar
begin

text \<open>
  The container of a binary database (\<^verbatim>\<open>adb.h\<close> and \<^verbatim>\<open>adb.c\<close>): blocks with a header, a payload and padding to
  eight bytes. The first block is the database, signatures and data follow. A parser goes through the blocks,
  decides whether the database is trusted, and calls a function for every block.

  Digests and signatures are computed by the crypto library, which is not part of the sources: they are the
  arguments \<open>digest\<close>, \<open>sign\<close> and \<open>verify\<close> of the definitions.
\<close>

section \<open>Blocks\<close>

definition ADB_FORMAT_MAGIC :: u32 where "ADB_FORMAT_MAGIC = 0x2e424441"
definition ADB_SCHEMA_IMPLIED :: u32 where "ADB_SCHEMA_IMPLIED = 0x80000000"
definition ADB_BLOCK_ADB :: u32 where "ADB_BLOCK_ADB = 0"
definition ADB_BLOCK_SIG :: u32 where "ADB_BLOCK_SIG = 1"
definition ADB_BLOCK_DATA :: u32 where "ADB_BLOCK_DATA = 2"
definition ADB_BLOCK_EXT :: u32 where "ADB_BLOCK_EXT = 3"
definition ADB_BLOCK_MAX :: u32 where "ADB_BLOCK_MAX = 4"

lemmas block_consts = ADB_BLOCK_ADB_def ADB_BLOCK_SIG_def ADB_BLOCK_DATA_def ADB_BLOCK_EXT_def ADB_BLOCK_MAX_def

record adb_block =
  blk_type_size :: u32
  blk_reserved :: u32
  blk_x_size :: u64

definition adb_block_init :: "u32 \<Rightarrow> u64 \<Rightarrow> adb_block" where
  "adb_block_init type len =
     (if len \<le> 0x3fffffff - 4
      then \<lparr>blk_type_size = ucast (ucast (push_bit 30 type) + 4 + len), blk_reserved = 0, blk_x_size = 0\<rparr>
      else \<lparr>blk_type_size = push_bit 30 ADB_BLOCK_EXT + type, blk_reserved = 0, blk_x_size = 16 + len\<rparr>)"

definition adb_block_is_ext :: "adb_block \<Rightarrow> bool" where
  "adb_block_is_ext b \<longleftrightarrow> drop_bit 30 (blk_type_size b) = ADB_BLOCK_EXT"

definition adb_block_type :: "adb_block \<Rightarrow> u32" where
  "adb_block_type b = (if adb_block_is_ext b then blk_type_size b AND 0x3fffffff else drop_bit 30 (blk_type_size b))"

definition adb_block_rawsize :: "adb_block \<Rightarrow> u64" where
  "adb_block_rawsize b = (if adb_block_is_ext b then blk_x_size b else ucast (blk_type_size b AND 0x3fffffff))"

definition adb_block_hdrsize :: "adb_block \<Rightarrow> nat" where
  "adb_block_hdrsize b = (if adb_block_is_ext b then 16 else 4)"

text \<open>Rounding up wraps around.\<close>

definition round_up8 :: "u64 \<Rightarrow> u64" where "round_up8 x = (x + 7) AND NOT 7"

definition adb_block_size :: "adb_block \<Rightarrow> u64" where "adb_block_size b = round_up8 (adb_block_rawsize b)"

definition adb_block_length :: "adb_block \<Rightarrow> u64" where
  "adb_block_length b = adb_block_rawsize b - word_of_nat (adb_block_hdrsize b)"

definition adb_block_padding :: "adb_block \<Rightarrow> u32" where
  "adb_block_padding b = ucast (adb_block_size b - adb_block_rawsize b)"

text \<open>The header of a block in memory, and the header at a position.\<close>

definition block_header :: "adb_block \<Rightarrow> bytes" where
  "block_header b =
     take (adb_block_hdrsize b)
       (le_bytes 4 (unat (blk_type_size b)) @ le_bytes 4 (unat (blk_reserved b)) @ le_bytes 8 (unat (blk_x_size b)))"

definition block_at :: "bytes \<Rightarrow> nat \<Rightarrow> adb_block" where
  "block_at data pos =
     \<lparr>blk_type_size = word_of_nat (le_val (take 4 (drop pos data))),
      blk_reserved = word_of_nat (le_val (take 4 (drop (pos + 4) data))),
      blk_x_size = word_of_nat (le_val (take 8 (drop (pos + 8) data)))\<rparr>"

text \<open>The payload: the memory from its first byte to the end of the data, and its length.\<close>

type_synonym view = "bytes \<times> nat"

definition adb_block_blob :: "bytes \<Rightarrow> nat \<Rightarrow> view" where
  "adb_block_blob data pos =
     (let blk = block_at data pos in (drop (pos + adb_block_hdrsize blk) data, unat (adb_block_length blk)))"

definition view_bytes :: "view \<Rightarrow> bytes outcome" where
  "view_bytes v = (if snd v \<le> length (fst v) then Ret (take (snd v) (fst v)) else Fault)"

datatype blk_iter = Blk_end | Blk_error | Blk_at nat

definition adb_block_validate :: "nat \<Rightarrow> bytes \<Rightarrow> blk_iter" where
  "adb_block_validate pos b =
     (let len = length b - pos; blk = block_at b pos; hdrlen = adb_block_hdrsize blk in
      if pos = length b then Blk_end
      else if 4 > len then Blk_error
      else if hdrlen > len then Blk_error
      else if unat (adb_block_rawsize blk) < hdrlen then Blk_error
      else if unat (adb_block_size blk) > len then Blk_error
      else Blk_at pos)"

definition adb_block_first :: "bytes \<Rightarrow> blk_iter" where
  "adb_block_first b = adb_block_validate 0 b"

definition adb_block_next :: "nat \<Rightarrow> bytes \<Rightarrow> blk_iter" where
  "adb_block_next pos b = adb_block_validate (pos + unat (adb_block_size (block_at b pos))) b"

text \<open>The loop over the blocks: their types and payloads, and how it ends; \<open>None\<close> means that the fuel is not enough.\<close>

fun adb_foreach_block :: "nat \<Rightarrow> bytes \<Rightarrow> blk_iter \<Rightarrow> ((u32 \<times> view) list \<times> blk_iter) option" where
  "adb_foreach_block 0 data it = None"
| "adb_foreach_block (Suc fuel) data it =
     (case it of
        Blk_at pos \<Rightarrow>
          map_option (\<lambda>(bs, e). ((adb_block_type (block_at data pos), adb_block_blob data pos) # bs, e))
            (adb_foreach_block fuel data (adb_block_next pos data))
      | _ \<Rightarrow> Some ([], it))"

section \<open>Writing containers\<close>

definition adb_c_header :: "apk_ostream \<Rightarrow> adb \<Rightarrow> bool \<times> apk_ostream" where
  "adb_c_header os db =
     apk_ostream_write os (le_bytes 4 (unat ADB_FORMAT_MAGIC) @ le_bytes 4 (unat (adb_schema db)))"

definition adb_c_block :: "apk_ostream \<Rightarrow> u32 \<Rightarrow> bytes \<Rightarrow> bool \<times> apk_ostream" where
  "adb_c_block os type val =
     (let blk = adb_block_init type (word_of_nat (length val)); padding = unat (adb_block_padding blk) in
      case apk_ostream_write os (block_header blk) of
        (False, os) \<Rightarrow> (False, os)
      | (True, os) \<Rightarrow>
          (case apk_ostream_write os val of
             (False, os) \<Rightarrow> (False, os)
           | (True, os) \<Rightarrow> if padding \<noteq> 0 then apk_ostream_write os (replicate padding NUL) else (True, os)))"

text \<open>A database as a value of another one.\<close>

definition adb_w_adb :: "adb \<Rightarrow> adb \<Rightarrow> (adb_val_t \<times> adb) outcome" where
  "adb_w_adb db valdb =
     (let val = adb_bytes valdb; blk = adb_block_init ADB_BLOCK_ADB (word_of_nat (length val));
          vec = [block_header blk, val, replicate (unat (adb_block_padding blk)) NUL]
      in if length val \<le> adb_hdr_size then Ret (ADB_NULL, db)
         else w_val ADB_TYPE_BLOB_32 (adb_w_raw db (le_bytes 4 (length (concat vec)) # vec) 4))"

section \<open>Digests and signatures\<close>

text \<open>The digests of a database that were computed.\<close>

record adb_verify_ctx =
  vfy_sha256 :: "bytes option"
  vfy_sha512 :: "bytes option"

definition vfy_init :: adb_verify_ctx where "vfy_init = \<lparr>vfy_sha256 = None, vfy_sha512 = None\<rparr>"

type_synonym digest_calc = "nat \<Rightarrow> bytes \<Rightarrow> apk_error + bytes"

definition adb_digest_adb ::
  "digest_calc \<Rightarrow> adb_verify_ctx \<Rightarrow> nat \<Rightarrow> blob \<Rightarrow> (apk_error + bytes) \<times> adb_verify_ctx" where
  "adb_digest_adb digest vfy hash_alg data =
     (let alg = (if hash_alg = APK_DIGEST_SHA256_160 then APK_DIGEST_SHA256 else hash_alg) in
      if alg \<noteq> APK_DIGEST_SHA256 \<and> alg \<noteq> APK_DIGEST_SHA512 then (Inl APKE_CRYPTO_NOT_SUPPORTED, vfy)
      else
        case (if alg = APK_DIGEST_SHA256 then vfy_sha256 vfy else vfy_sha512 vfy) of
          Some d \<Rightarrow> (Inr (take (apk_digest_alg_len hash_alg) d), vfy)
        | None \<Rightarrow>
            (case data of
               None \<Rightarrow> (Inl APKE_ADB_BLOCK, vfy)
             | Some xs \<Rightarrow>
                 (case digest alg xs of
                    Inl e \<Rightarrow> (Inl e, vfy)
                  | Inr d \<Rightarrow>
                      (Inr (take (apk_digest_alg_len hash_alg) d),
                       if alg = APK_DIGEST_SHA256 then vfy\<lparr>vfy_sha256 := Some d\<rparr> else vfy\<lparr>vfy_sha512 := Some d\<rparr>))))"

text \<open>A key has an identifier of sixteen bytes.\<close>

record 'k apk_trust_key =
  tk_id :: bytes
  tk_key :: 'k

record 'k apk_trust =
  tr_trusted :: "'k apk_trust_key list"
  tr_private :: "'k apk_trust_key list"
  tr_allow_untrusted :: bool

text \<open>What is signed: the schema, the header of the signature and the digest of the database.\<close>

definition v0_signed :: "u32 \<Rightarrow> bytes \<Rightarrow> bytes \<Rightarrow> bytes" where
  "v0_signed schema sig0 md = le_bytes 4 (unat schema) @ sig0 @ md"

type_synonym 'k sign_op = "'k \<Rightarrow> bytes \<Rightarrow> apk_error + bytes"
type_synonym 'k verify_op = "'k \<Rightarrow> bytes \<Rightarrow> bytes \<Rightarrow> bool"

definition sign_v0_size :: nat where "sign_v0_size = 18"

fun write_signatures ::
  "'k sign_op \<Rightarrow> 'k apk_trust_key list \<Rightarrow> u32 \<Rightarrow> bytes \<Rightarrow> apk_ostream \<Rightarrow> apk_error option \<times> apk_ostream" where
  "write_signatures sign [] schema md os = (None, os)"
| "write_signatures sign (k # ks) schema md os =
     (let v0 = NUL # char_of APK_DIGEST_SHA512 # tk_id k in
      case sign (tk_key k) (v0_signed schema v0 md) of
        Inl e \<Rightarrow> (Some e, os\<lparr>os_rc := (if os_rc os = None then Some e else os_rc os)\<rparr>)
      | Inr s \<Rightarrow>
          (case adb_c_block os ADB_BLOCK_SIG (v0 @ s) of
             (False, os) \<Rightarrow> (os_rc os, os)
           | (True, os) \<Rightarrow> write_signatures sign ks schema md os))"

definition adb_trust_write_signatures ::
  "digest_calc \<Rightarrow> 'k sign_op \<Rightarrow> 'k apk_trust \<Rightarrow> adb \<Rightarrow> adb_verify_ctx option \<Rightarrow> apk_ostream \<Rightarrow> apk_error option \<times> apk_ostream" where
  "adb_trust_write_signatures digest sign trust db vfy os =
     (case adb_digest_adb digest (case vfy of None \<Rightarrow> vfy_init | Some v \<Rightarrow> v) APK_DIGEST_SHA512 (adb_data db) of
        (Inl e, _) \<Rightarrow> (Some e, os)
      | (Inr md, _) \<Rightarrow> write_signatures sign (tr_private trust) (adb_schema db) md os)"

definition adb_c_adb :: "digest_calc \<Rightarrow> 'k sign_op \<Rightarrow> apk_ostream \<Rightarrow> adb \<Rightarrow> 'k apk_trust \<Rightarrow> apk_error option \<times> apk_ostream" where
  "adb_c_adb digest sign os db t =
     (if adb_schema db = 0 then (Some APKE_ADB_HEADER, os\<lparr>os_rc := (if os_rc os = None then Some APKE_ADB_HEADER else os_rc os)\<rparr>)
      else
        let os = snd (adb_c_header os db);
            os = snd (adb_c_block os ADB_BLOCK_ADB (adb_bytes db));
            os = snd (adb_trust_write_signatures digest sign t db None os)
        in (os_rc os, os))"

text \<open>The keys are tried one after the other; the digest is kept for the next one.\<close>

fun verify_keys ::
  "digest_calc \<Rightarrow> 'k verify_op \<Rightarrow> 'k apk_trust_key list \<Rightarrow> adb \<Rightarrow> adb_verify_ctx \<Rightarrow> view \<Rightarrow> (bool \<times> adb_verify_ctx) outcome" where
  "verify_keys digest verify [] db vfy sigb = Ret (False, vfy)"
| "verify_keys digest verify (k # ks) db vfy sigb =
     (if take 16 (drop 2 (fst sigb)) \<noteq> tk_id k then verify_keys digest verify ks db vfy sigb
      else
        case adb_digest_adb digest vfy (code (fst sigb ! 1)) (adb_data db) of
          (Inl _, vfy) \<Rightarrow> verify_keys digest verify ks db vfy sigb
        | (Inr md, vfy) \<Rightarrow>
            (case view_bytes sigb of
               Fault \<Rightarrow> Fault
             | Ret sb \<Rightarrow>
                 if verify (tk_key k) (v0_signed (adb_schema db) (take sign_v0_size sb) md) (drop sign_v0_size sb)
                 then Ret (True, vfy) else verify_keys digest verify ks db vfy sigb))"

text \<open>Without a trust structure the keys cannot be reached.\<close>

definition adb_trust_verify_signature ::
  "digest_calc \<Rightarrow> 'k verify_op \<Rightarrow> 'k apk_trust option \<Rightarrow> adb \<Rightarrow> adb_verify_ctx \<Rightarrow> view \<Rightarrow> (bool \<times> adb_verify_ctx) outcome" where
  "adb_trust_verify_signature digest verify trust db vfy sigb =
     (if adb_data db = None \<or> snd sigb < 2 then Ret (False, vfy)
      else if fst sigb = [] then Fault
      else if hd (fst sigb) \<noteq> NUL then Ret (False, vfy)
      else if snd sigb < sign_v0_size then Ret (False, vfy)
      else
        case trust of
          None \<Rightarrow> Fault
        | Some t \<Rightarrow>
            if tr_trusted t \<noteq> [] \<and> length (fst sigb) < sign_v0_size then Fault
            else verify_keys digest verify (tr_trusted t) db vfy sigb)"

section \<open>Parsing\<close>

text \<open>The parts of the extraction context that the parser uses.\<close>

record apk_extract_ctx =
  ec_generate_alg :: nat
  ec_verify_alg :: nat
  ec_generate_identity :: "apk_digest option"
  ec_verify_digest :: bytes

text \<open>The result of a call: zero, a positive number, or an error.\<close>

datatype rc = Rc0 | RcPos | RcErr apk_error

definition adb_handle_identity ::
  "digest_calc \<Rightarrow> apk_extract_ctx option \<Rightarrow> adb_verify_ctx \<Rightarrow> bytes \<Rightarrow> rc \<times> adb_verify_ctx \<times> apk_extract_ctx option" where
  "adb_handle_identity digest ectx vfy b =
     (case ectx of
        None \<Rightarrow> (Rc0, vfy, ectx)
      | Some ec \<Rightarrow>
          let alg = (if ec_generate_alg ec \<noteq> 0 then ec_generate_alg ec else ec_verify_alg ec) in
          if alg = APK_DIGEST_NONE \<or> alg = APK_DIGEST_SHA1 then (Rc0, vfy, ectx)
          else
            case adb_digest_adb digest vfy alg (Some b) of
              (Inl e, vfy) \<Rightarrow> (RcErr e, vfy, ectx)
            | (Inr md, vfy) \<Rightarrow>
                (case ec_generate_identity ec of
                   Some d \<Rightarrow> (Rc0, vfy, Some (ec\<lparr>ec_generate_identity := Some (digest_store (apk_digest_set d alg) 0 md)\<rparr>))
                 | None \<Rightarrow>
                     if apk_blob_compare (Some (ec_verify_digest ec)) (Some md) \<noteq> 0
                     then (if ec_verify_alg ec = APK_DIGEST_SHA256_160 then Rc0 else RcErr APKE_ADB_INTEGRITY, vfy, ectx)
                     else (RcPos, vfy, ectx)))"

record 's parse_state =
  ps_db :: adb
  ps_vfy :: adb_verify_ctx
  ps_ectx :: "apk_extract_ctx option"
  ps_trusted :: bool
  ps_allowed :: "u32 list"
  ps_cb :: 's

type_synonym 's block_cb = "adb \<Rightarrow> adb_block \<Rightarrow> view \<Rightarrow> 's \<Rightarrow> rc \<times> 's"

text \<open>
  What is done for a type of block before the function is called, with the error that ends the parser. A
  payload that reaches beyond the data, which takes a size that wraps around, is a fault at once; the code
  keeps its address and length and reads it later.
\<close>

definition parse_adb :: "digest_calc \<Rightarrow> view \<Rightarrow> 's parse_state \<Rightarrow> (apk_error option \<times> 's parse_state) outcome" where
  "parse_adb digest b st =
     (let st = st\<lparr>ps_allowed := [ADB_BLOCK_SIG, ADB_BLOCK_DATA]\<rparr> in
      if snd b < adb_hdr_size then Ret (Some APKE_ADB_BLOCK, st)
      else if fst b = [] then Fault
      else if hd (fst b) \<noteq> NUL then Ret (Some APKE_ADB_VERSION, st)
      else
        case view_bytes b of
          Fault \<Rightarrow> Fault
        | Ret xs \<Rightarrow>
            let st = st\<lparr>ps_db := (ps_db st)\<lparr>adb_data := Some xs\<rparr>\<rparr>;
                (r, vfy, ectx) = adb_handle_identity digest (ps_ectx st) (ps_vfy st) xs;
                st = st\<lparr>ps_vfy := vfy, ps_ectx := ectx\<rparr>
            in case r of
                 RcErr e \<Rightarrow> Ret (Some e, st)
               | RcPos \<Rightarrow> Ret (None, st\<lparr>ps_trusted := True\<rparr>)
               | Rc0 \<Rightarrow> Ret (None, st))"

definition parse_sig ::
  "digest_calc \<Rightarrow> 'k verify_op \<Rightarrow> 'k apk_trust option \<Rightarrow> view \<Rightarrow> 's parse_state \<Rightarrow> (apk_error option \<times> 's parse_state) outcome" where
  "parse_sig digest verify t b st =
     (if ps_trusted st then Ret (None, st)
      else
        case adb_trust_verify_signature digest verify t (ps_db st) (ps_vfy st) b of
          Fault \<Rightarrow> Fault
        | Ret (ok, vfy) \<Rightarrow> Ret (None, st\<lparr>ps_vfy := vfy, ps_trusted := ok\<rparr>))"

definition parse_data :: "'s parse_state \<Rightarrow> (apk_error option \<times> 's parse_state) outcome" where
  "parse_data st =
     (let st = st\<lparr>ps_allowed := [ADB_BLOCK_DATA]\<rparr> in
      Ret (if \<not> ps_trusted st then Some APKE_SIGNATURE_UNTRUSTED else None, st))"

definition parse_type ::
  "digest_calc \<Rightarrow> 'k verify_op \<Rightarrow> 'k apk_trust option \<Rightarrow> u32 \<Rightarrow> view \<Rightarrow> 's parse_state \<Rightarrow>
   (apk_error option \<times> 's parse_state) outcome" where
  "parse_type digest verify t type b st =
     (if type = ADB_BLOCK_ADB then parse_adb digest b st
      else if type = ADB_BLOCK_SIG then parse_sig digest verify t b st
      else if type = ADB_BLOCK_DATA then parse_data st
      else Ret (None, st))"

text \<open>One round of the loop: whether it ends, the result so far and the state.\<close>

definition parse_block ::
  "digest_calc \<Rightarrow> 'k verify_op \<Rightarrow> 'k apk_trust option \<Rightarrow> 's block_cb \<Rightarrow> bytes \<Rightarrow> nat \<Rightarrow> 's parse_state \<Rightarrow>
   (bool \<times> rc \<times> 's parse_state) outcome" where
  "parse_block digest verify t cb data pos st =
     (let blk = block_at data pos; b = adb_block_blob data pos; type = adb_block_type blk in
      if ADB_BLOCK_MAX \<le> type \<or> type \<notin> set (ps_allowed st) then Ret (True, RcErr APKE_ADB_BLOCK, st)
      else
        case parse_type digest verify t type b st of
          Fault \<Rightarrow> Fault
        | Ret (Some e, st) \<Rightarrow> Ret (True, RcErr e, st)
        | Ret (None, st) \<Rightarrow>
            let (r, s) = cb (ps_db st) blk b (ps_cb st); st = st\<lparr>ps_cb := s\<rparr>
            in (case r of RcErr e \<Rightarrow> Ret (True, r, st) | _ \<Rightarrow> Ret (False, r, st)))"

definition parse_end :: "blk_iter \<Rightarrow> rc \<Rightarrow> 's parse_state \<Rightarrow> apk_error option \<times> 's parse_state" where
  "parse_end it r st =
     (let e = (case r of
                 RcPos \<Rightarrow> Some APKE_ADB_BLOCK
               | RcErr e \<Rightarrow> Some e
               | Rc0 \<Rightarrow>
                   if it = Blk_error then Some APKE_ADB_BLOCK
                   else if \<not> ps_trusted st then Some APKE_SIGNATURE_UNTRUSTED
                   else if adb_data (ps_db st) = None then Some APKE_ADB_BLOCK
                   else None)
      in (e, if e = None then st else st\<lparr>ps_db := (ps_db st)\<lparr>adb_data := None\<rparr>\<rparr>))"

text \<open>The loop over the blocks, with fuel: \<open>None\<close> means that it has not ended.\<close>

fun parse_loop ::
  "digest_calc \<Rightarrow> 'k verify_op \<Rightarrow> 'k apk_trust option \<Rightarrow> 's block_cb \<Rightarrow> bytes \<Rightarrow> nat \<Rightarrow> blk_iter \<Rightarrow> rc \<Rightarrow> 's parse_state \<Rightarrow>
   (apk_error option \<times> 's parse_state) outcome option" where
  "parse_loop digest verify t cb data 0 it r st = None"
| "parse_loop digest verify t cb data (Suc fuel) it r st =
     (case it of
        Blk_at pos \<Rightarrow>
          (case parse_block digest verify t cb data pos st of
             Fault \<Rightarrow> Some Fault
           | Ret (True, r, st) \<Rightarrow> Some (Ret (parse_end it r st))
           | Ret (False, r, st) \<Rightarrow> parse_loop digest verify t cb data fuel (adb_block_next pos data) r st)
      | _ \<Rightarrow> Some (Ret (parse_end it r st)))"

definition parse_init :: "'k apk_trust option \<Rightarrow> apk_extract_ctx option \<Rightarrow> adb \<Rightarrow> 's \<Rightarrow> 's parse_state" where
  "parse_init t ectx db s =
     \<lparr>ps_db = db, ps_vfy = vfy_init, ps_ectx = ectx,
      ps_trusted = (case t of None \<Rightarrow> False | Some t \<Rightarrow> tr_allow_untrusted t),
      ps_allowed = [ADB_BLOCK_ADB], ps_cb = s\<rparr>"

definition adb_m_parse ::
  "digest_calc \<Rightarrow> 'k verify_op \<Rightarrow> nat \<Rightarrow> adb \<Rightarrow> bytes \<Rightarrow> 'k apk_trust option \<Rightarrow> apk_extract_ctx option \<Rightarrow> 's block_cb \<Rightarrow> 's \<Rightarrow>
   (apk_error option \<times> 's parse_state) outcome option" where
  "adb_m_parse digest verify fuel db data t ectx cb s =
     parse_loop digest verify t cb data fuel (adb_block_first data) Rc0 (parse_init t ectx db s)"

definition adb_dummy_cb :: "unit block_cb" where "adb_dummy_cb db b is s = (Rc0, s)"

definition adb_m_blob ::
  "digest_calc \<Rightarrow> 'k verify_op \<Rightarrow> nat \<Rightarrow> bytes \<Rightarrow> 'k apk_trust option \<Rightarrow> (apk_error option \<times> adb) outcome option" where
  "adb_m_blob digest verify fuel b t =
     (case adb_m_parse digest verify fuel adb_init b t None adb_dummy_cb () of
        None \<Rightarrow> None
      | Some Fault \<Rightarrow> Some Fault
      | Some (Ret (e, st)) \<Rightarrow> Some (Ret (e, ps_db st)))"

text \<open>A whole file in memory; the database is cleared after an error.\<close>

definition adb_m_mmap ::
  "digest_calc \<Rightarrow> 'k verify_op \<Rightarrow> nat \<Rightarrow> adb \<Rightarrow> bytes \<Rightarrow> u32 \<Rightarrow> 'k apk_trust option \<Rightarrow> apk_extract_ctx option \<Rightarrow> 's block_cb \<Rightarrow> 's \<Rightarrow>
   (apk_error option \<times> adb \<times> 's) outcome option" where
  "adb_m_mmap digest verify fuel db mmap expected_schema t ectx cb s =
     (let schema = word_of_nat (le_val (take 4 (drop 4 mmap)));
          run = (\<lambda>db data.
            case adb_m_parse digest verify fuel db data t ectx cb s of
              None \<Rightarrow> None
            | Some Fault \<Rightarrow> Some Fault
            | Some (Ret (Some e, st)) \<Rightarrow> Some (Ret (Some e, adb_init, ps_cb st))
            | Some (Ret (None, st)) \<Rightarrow> Some (Ret (None, ps_db st, ps_cb st)))
      in if expected_schema AND ADB_SCHEMA_IMPLIED \<noteq> 0 then run db mmap
         else if length mmap < 8 then Some (Ret (Some APKE_ADB_HEADER, db, s))
         else if le_val (take 4 mmap) \<noteq> unat ADB_FORMAT_MAGIC then Some (Ret (Some APKE_ADB_HEADER, db, s))
         else if expected_schema \<noteq> 0 \<and> expected_schema \<noteq> schema then Some (Ret (Some APKE_ADB_SCHEMA, db, s))
         else run (db\<lparr>adb_schema := schema\<rparr>) (drop 8 mmap))"

end
