(* ===== verification/Adb_Parse.thy ===== *)
theory Adb_Parse
  imports Adb_Block
begin

text \<open>
  The container of the binary database: blocks that are written are found again, the parser ends, and only
  a trusted database is accepted.
\<close>

section \<open>Sizes\<close>

lemma unat_u64_less: "unat (x :: u64) < 2 ^ 64"
proof -
  have "unat x < 2 ^ LENGTH(64)" by (rule unsigned_less)
  then show ?thesis by simp
qed

lemma unat_u32_less: "unat (x :: u32) < 2 ^ 32"
proof -
  have "unat x < 2 ^ LENGTH(32)" by (rule unsigned_less)
  then show ?thesis by simp
qed

lemma unat_drop: "unat (drop_bit n w) = unat w div 2 ^ n"
  by (rule trans [OF unat_drop_bit_eq drop_bit_eq_div])

lemma unat_push: "unat (push_bit n (w :: 'a::len word)) = take_bit LENGTH('a) (unat w * 2 ^ n)"
  using unsigned_push_bit_eq [of n w] by (simp only: push_bit_eq_mult)

lemma and_not7: "(x :: u64) AND NOT 7 = push_bit 3 (drop_bit 3 x)"
proof -
  have "x AND NOT (mask 3) = push_bit 3 (drop_bit 3 x)" by (rule bit_eqI) (auto simp: bit_simps)
  then show ?thesis by (simp only: mask_eq_exp_minus_1) simp
qed

lemma round_up8_nat:
  assumes "unat x + 7 < 2 ^ 64"
  shows "unat (round_up8 x) = (unat x + 7) div 8 * 8"
proof -
  have "unat (x + 7) = unat x + 7" using assms by (simp add: unat_add_lem [THEN iffD1])
  then show ?thesis unfolding round_up8_def and_not7 using assms
    by (simp add: unat_push unat_drop take_bit_nat_eq_self)
qed

text \<open>A size near the end of the range wraps around to zero.\<close>

lemma round_up8_wraps:
  assumes "2 ^ 64 - 8 < unat x"
  shows "round_up8 x = 0"
proof -
  have "unat (x + 7) = unat x + 7 - 2 ^ 64" using assms unat_u64_less [of x] by (simp add: unat_plus_if')
  then have "unat (x + 7) < 8" using assms unat_u64_less [of x] by simp
  then have "unat (drop_bit 3 (x + 7)) = 0" by (simp add: unat_drop)
  then have "drop_bit 3 (x + 7) = 0" by (simp add: unat_eq_0)
  then show ?thesis unfolding round_up8_def and_not7 by simp
qed

text \<open>The fields of the first word of a header.\<close>

lemma type_size_parts:
  "unat (drop_bit 30 (w :: u32)) = unat w div 2 ^ 30" "unat (w AND 0x3fffffff) = unat w mod 2 ^ 30"
proof -
  show "unat (drop_bit 30 w) = unat w div 2 ^ 30" by (simp add: unat_drop)
  have "w AND 0x3fffffff = take_bit 30 w" by (simp add: take_bit_eq_mask mask_eq_exp_minus_1)
  then show "unat (w AND 0x3fffffff) = unat w mod 2 ^ 30" by (simp add: unsigned_take_bit_eq take_bit_nat_def)
qed

definition type_ok :: "u32 \<Rightarrow> bool" where "type_ok t \<longleftrightarrow> unat t < 3"

definition hdr_len :: "nat \<Rightarrow> nat" where "hdr_len n = (if n \<le> 0x3ffffffb then 4 else 16)"

lemma init_small:
  assumes "type_ok t" "n \<le> 0x3ffffffb"
  shows "unat (blk_type_size (adb_block_init t (word_of_nat n))) = unat t * 2 ^ 30 + (4 + n)"
proof -
  have t: "unat t < 3" using assms(1) by (simp add: type_ok_def)
  have "unat (word_of_nat n :: u64) = n" using assms(2) by (simp add: unsigned_of_nat take_bit_nat_eq_self)
  moreover have "unat (push_bit 30 t) = unat t * 2 ^ 30"
    using t by (simp add: unat_push take_bit_nat_eq_self)
  then have "unat (ucast (push_bit 30 t) :: u64) = unat t * 2 ^ 30" by (rule trans [OF unat_u32_u64])
  ultimately have "unat (ucast (push_bit 30 t) + 4 + word_of_nat n :: u64) = unat t * 2 ^ 30 + (4 + n)"
    using t assms(2) by (simp add: unat_plus_if')
  moreover have "(word_of_nat n :: u64) \<le> 0x3fffffff - 4"
    using \<open>unat (word_of_nat n :: u64) = n\<close> assms(2) by (simp add: word_le_nat_alt)
  ultimately show ?thesis using t assms(2) by (simp add: adb_block_init_def unsigned_ucast_eq take_bit_nat_eq_self)
qed

lemma init_ext:
  assumes "type_ok t" "0x3ffffffb < n" "n < 2 ^ 62"
  shows "unat (blk_type_size (adb_block_init t (word_of_nat n))) = 3 * 2 ^ 30 + unat t"
    "unat (blk_x_size (adb_block_init t (word_of_nat n))) = 16 + n"
proof -
  have n: "unat (word_of_nat n :: u64) = n" using assms(3) by (simp add: unsigned_of_nat take_bit_nat_eq_self)
  have big: "\<not> (word_of_nat n :: u64) \<le> 0x3fffffff - 4" using n assms(2) by (simp add: word_le_nat_alt)
  have "unat (push_bit 30 ADB_BLOCK_EXT + t) = 3 * 2 ^ 30 + unat t"
    using assms(1) by (simp add: block_consts type_ok_def unat_plus_if')
  then show "unat (blk_type_size (adb_block_init t (word_of_nat n))) = 3 * 2 ^ 30 + unat t" using big by (simp add: adb_block_init_def)
  show "unat (blk_x_size (adb_block_init t (word_of_nat n))) = 16 + n"
    using big n assms(3) by (simp add: adb_block_init_def unat_plus_if')
qed

lemma ext_nat: "adb_block_is_ext b \<longleftrightarrow> unat (blk_type_size b) div 2 ^ 30 = 3"
  by (simp add: adb_block_is_ext_def block_consts word_unat_eq_iff type_size_parts)

text \<open>A header that was made for a payload, and every header with the same words, describes it.\<close>

definition describes :: "adb_block \<Rightarrow> u32 \<Rightarrow> nat \<Rightarrow> bool" where
  "describes b t n \<longleftrightarrow> adb_block_type b = t \<and> adb_block_hdrsize b = hdr_len n \<and> unat (adb_block_rawsize b) = hdr_len n + n"

lemma describes_small:
  assumes "type_ok t" "n \<le> 0x3ffffffb" "unat (blk_type_size b) = unat t * 2 ^ 30 + (4 + n)"
  shows "describes b t n"
proof -
  have q: "unat (blk_type_size b) div 2 ^ 30 = unat t" "unat (blk_type_size b) mod 2 ^ 30 = 4 + n"
    using assms(2,3) by simp_all
  have "\<not> adb_block_is_ext b" using q(1) assms(1) by (simp add: ext_nat type_ok_def)
  then show ?thesis using q assms(2)
    by (simp add: describes_def adb_block_type_def adb_block_hdrsize_def adb_block_rawsize_def hdr_len_def word_unat_eq_iff
        type_size_parts unat_u32_u64)
qed

lemma describes_ext:
  assumes "type_ok t" "0x3ffffffb < n" "unat (blk_type_size b) = 3 * 2 ^ 30 + unat t" "unat (blk_x_size b) = 16 + n"
  shows "describes b t n"
proof -
  have q: "unat (blk_type_size b) div 2 ^ 30 = 3" "unat (blk_type_size b) mod 2 ^ 30 = unat t"
    unfolding assms(3) mod_mult_self3 using assms(1) by (simp_all add: type_ok_def)
  then have "adb_block_is_ext b" by (simp add: ext_nat)
  then show ?thesis using q assms(2,4)
    by (simp add: describes_def adb_block_type_def adb_block_hdrsize_def adb_block_rawsize_def hdr_len_def word_unat_eq_iff
        type_size_parts)
qed

definition pad_len :: "nat \<Rightarrow> nat" where "pad_len n = (hdr_len n + n + 7) div 8 * 8 - (hdr_len n + n)"

lemma describes_sizes:
  assumes "describes b t n" "n < 2 ^ 62"
  shows "unat (adb_block_size b) = hdr_len n + n + pad_len n" "unat (adb_block_padding b) = pad_len n"
    "unat (adb_block_length b) = n"
proof -
  let ?r = "adb_block_rawsize b"
  have r: "unat ?r = hdr_len n + n" "adb_block_hdrsize b = hdr_len n" using assms(1) by (simp_all add: describes_def)
  have h: "hdr_len n \<le> 16" by (simp add: hdr_len_def)
  have s: "unat (adb_block_size b) = (hdr_len n + n + 7) div 8 * 8"
    unfolding adb_block_size_def using round_up8_nat [of ?r] r h assms(2) by simp
  then show s': "unat (adb_block_size b) = hdr_len n + n + pad_len n" by (simp add: pad_len_def)
  have "unat (adb_block_size b - ?r) = pad_len n" using s' r by (simp add: unat_sub_if')
  moreover have "pad_len n < 2 ^ 32" by (simp add: pad_len_def)
  ultimately show "unat (adb_block_padding b) = pad_len n"
    by (simp add: adb_block_padding_def unsigned_ucast_eq take_bit_nat_eq_self)
  have "unat (word_of_nat (hdr_len n) :: u64) = hdr_len n" by (simp add: hdr_len_def)
  then show "unat (adb_block_length b) = n" using r by (simp add: adb_block_length_def unat_sub_if')
qed

section \<open>Blocks in memory\<close>

definition enc_block :: "u32 \<times> bytes \<Rightarrow> bytes" where
  "enc_block b = block_header (adb_block_init (fst b) (word_of_nat (length (snd b)))) @ snd b @ replicate (pad_len (length (snd b))) NUL"

definition block_ok :: "u32 \<times> bytes \<Rightarrow> bool" where
  "block_ok b \<longleftrightarrow> type_ok (fst b) \<and> length (snd b) < 2 ^ 62"

lemma init_describes: "block_ok (t, xs) \<Longrightarrow> describes (adb_block_init t (word_of_nat (length xs))) t (length xs)"
  using describes_small [OF _ _ init_small] describes_ext [OF _ _ init_ext] unfolding block_ok_def
  by (cases "length xs \<le> 0x3ffffffb") auto

lemma enc_length: "block_ok (t, xs) \<Longrightarrow> length (enc_block (t, xs)) = hdr_len (length xs) + length xs + pad_len (length xs)"
  using init_describes [of t xs] by (auto simp: enc_block_def block_header_def describes_def hdr_len_def)

lemma word_le_val: "word_of_nat (le_val (le_bytes 4 (unat w))) = (w :: u32)" "word_of_nat (le_val (le_bytes 8 (unat x))) = (x :: u64)"
proof -
  show "word_of_nat (le_val (le_bytes 4 (unat w))) = w" using unat_u32_less [of w] by simp
  show "word_of_nat (le_val (le_bytes 8 (unat x))) = x" using unat_u64_less [of x] by simp
qed

lemma block_at_describes:
  assumes ok: "block_ok (t, xs)" and data: "data = pre @ enc_block (t, xs) @ post"
  shows "describes (block_at data (length pre)) t (length xs)"
proof -
  let ?b = "adb_block_init t (word_of_nat (length xs))" and ?n = "length xs"
  have b: "describes ?b t ?n" "type_ok t" "?n < 2 ^ 62" using init_describes [OF ok] ok by (simp_all add: block_ok_def)
  show ?thesis
  proof (cases "?n \<le> 0x3ffffffb")
    case True
    then have h: "block_header ?b = le_bytes 4 (unat (blk_type_size ?b))" using b(1) by (simp add: block_header_def describes_def hdr_len_def)
    have "blk_type_size (block_at data (length pre)) = blk_type_size ?b"
      by (simp add: block_at_def data enc_block_def h word_le_val del: le_val_bytes)
    then show ?thesis using describes_small [OF b(2) True] init_small [OF b(2) True] by simp
  next
    case False
    then have h: "block_header ?b = le_bytes 4 (unat (blk_type_size ?b)) @ le_bytes 4 (unat (blk_reserved ?b)) @ le_bytes 8 (unat (blk_x_size ?b))"
      using b(1) by (simp add: block_header_def describes_def hdr_len_def)
    have "blk_type_size (block_at data (length pre)) = blk_type_size ?b" "blk_x_size (block_at data (length pre)) = blk_x_size ?b"
      by (simp_all add: block_at_def data enc_block_def h word_le_val del: le_val_bytes)
    then show ?thesis using False describes_ext [OF b(2)] init_ext [OF b(2)] b(3) by simp
  qed
qed

lemma block_step:
  assumes ok: "block_ok (t, xs)" and data: "data = pre @ enc_block (t, xs) @ post"
  shows "adb_block_validate (length pre) data = Blk_at (length pre)"
    "adb_block_type (block_at data (length pre)) = t"
    "adb_block_blob data (length pre) = (xs @ replicate (pad_len (length xs)) NUL @ post, length xs)"
    "adb_block_next (length pre) data = adb_block_validate (length (pre @ enc_block (t, xs))) data"
proof -
  let ?n = "length xs" and ?b = "block_at data (length pre)"
  have d: "describes ?b t ?n" by (rule block_at_describes [OF ok data])
  have n: "?n < 2 ^ 62" using ok by (simp add: block_ok_def)
  note sz = describes_sizes [OF d n]
  have h: "adb_block_hdrsize ?b = hdr_len ?n" "unat (adb_block_rawsize ?b) = hdr_len ?n + ?n" "4 \<le> hdr_len ?n"
    using d by (simp_all add: describes_def hdr_len_def)
  have len: "length data = length pre + (hdr_len ?n + ?n + pad_len ?n) + length post" using enc_length [OF ok] by (simp add: data)
  show "adb_block_validate (length pre) data = Blk_at (length pre)"
    using h sz(1) len by (simp add: adb_block_validate_def Let_def)
  show "adb_block_type ?b = t" using d by (simp add: describes_def)
  show "adb_block_next (length pre) data = adb_block_validate (length (pre @ enc_block (t, xs))) data"
    using sz(1) enc_length [OF ok] by (simp add: adb_block_next_def)
  have "length (block_header (adb_block_init t (word_of_nat ?n))) = hdr_len ?n" using enc_length [OF ok] by (simp add: enc_block_def)
  then have "drop (length pre + hdr_len ?n) data = xs @ replicate (pad_len ?n) NUL @ post" by (simp add: data enc_block_def)
  then show "adb_block_blob data (length pre) = (xs @ replicate (pad_len ?n) NUL @ post, ?n)"
    using h(1) sz(3) by (simp add: adb_block_blob_def)
qed

lemma c_block:
  assumes "block_ok (t, xs)" "os_rc os = None"
  shows "adb_c_block os t xs = (True, os\<lparr>os_data := os_data os @ enc_block (t, xs)\<rparr>)"
proof -
  have "unat (adb_block_padding (adb_block_init t (word_of_nat (length xs)))) = pad_len (length xs)"
    using describes_sizes(2) [OF init_describes [OF assms(1)]] assms(1) by (simp add: block_ok_def)
  then show ?thesis using assms(2) by (simp add: adb_c_block_def Let_def apk_ostream_write_def enc_block_def)
qed

lemma foreach_blocks:
  assumes "\<forall>b \<in> set bs. block_ok b" "data = pre @ concat (map enc_block bs)"
  shows "\<exists>vs. adb_foreach_block (Suc (length bs)) data (adb_block_validate (length pre) data) = Some (vs, Blk_end) \<and>
    map (\<lambda>(t, v). (t, view_bytes v)) vs = map (\<lambda>(t, xs). (t, Ret xs)) bs"
  using assms
proof (induction bs arbitrary: pre)
  case Nil
  then show ?case by (simp add: adb_block_validate_def)
next
  case (Cons b bs)
  obtain t xs where b: "b = (t, xs)" by (cases b)
  have ok: "block_ok (t, xs)" "data = pre @ enc_block (t, xs) @ concat (map enc_block bs)" using Cons.prems b by simp_all
  note st = block_step [OF ok]
  obtain vs where vs: "adb_foreach_block (Suc (length bs)) data (adb_block_validate (length (pre @ enc_block (t, xs))) data) = Some (vs, Blk_end)"
    "map (\<lambda>(t, v). (t, view_bytes v)) vs = map (\<lambda>(t, xs). (t, Ret xs)) bs"
    using Cons.IH [of "pre @ enc_block (t, xs)"] Cons.prems b by auto
  then show ?case using st unfolding b list.size(4) Nat.add_Suc_right add_0_right
    by (subst adb_foreach_block.simps(2)) (simp add: view_bytes_def del: adb_foreach_block.simps)
qed

section \<open>Where the loop ends\<close>

text \<open>The positions of the blocks that a loop over the data passes; none of them has a size that wraps around.\<close>

inductive visited :: "bytes \<Rightarrow> nat \<Rightarrow> bool" for data where
  first_visited: "adb_block_first data = Blk_at pos \<Longrightarrow> visited data pos"
| next_visited: "visited data pos \<Longrightarrow> adb_block_next pos data = Blk_at pos' \<Longrightarrow> visited data pos'"

definition iter_visited :: "bytes \<Rightarrow> blk_iter \<Rightarrow> bool" where
  "iter_visited data it \<longleftrightarrow> (\<forall>pos. it = Blk_at pos \<longrightarrow> visited data pos)"

lemma iter_visitedI [intro]:
  "iter_visited data (adb_block_first data)" "visited data pos \<Longrightarrow> iter_visited data (adb_block_next pos data)"
  by (auto simp: iter_visited_def intro: visited.intros)

definition no_wrap :: "bytes \<Rightarrow> bool" where
  "no_wrap data \<longleftrightarrow> (\<forall>pos. visited data pos \<longrightarrow> unat (adb_block_rawsize (block_at data pos)) \<le> 2 ^ 64 - 8)"

definition iter_ok :: "bytes \<Rightarrow> blk_iter \<Rightarrow> bool" where
  "iter_ok data it \<longleftrightarrow> (\<forall>pos. it = Blk_at pos \<longrightarrow> pos < length data \<and> adb_block_validate pos data = Blk_at pos)"

definition iter_left :: "bytes \<Rightarrow> blk_iter \<Rightarrow> nat" where
  "iter_left data it = (case it of Blk_at pos \<Rightarrow> length data - pos | _ \<Rightarrow> 0)"

lemma validate_cases: "adb_block_validate pos data \<in> {Blk_end, Blk_error, Blk_at pos}"
  by (auto simp: adb_block_validate_def Let_def)

lemma validate_iter_ok: "pos \<le> length data \<Longrightarrow> iter_ok data (adb_block_validate pos data)"
proof -
  assume "pos \<le> length data"
  moreover have "adb_block_validate (length data) data = Blk_end" by (simp add: adb_block_validate_def)
  ultimately show ?thesis using validate_cases [of pos data] by (cases "pos = length data") (auto simp: iter_ok_def)
qed

lemma valid_block:
  assumes "adb_block_validate pos data = Blk_at pos"
  shows "unat (adb_block_size (block_at data pos)) \<le> length data - pos"
    "adb_block_hdrsize (block_at data pos) \<le> unat (adb_block_rawsize (block_at data pos))"
  using assms by (auto simp: adb_block_validate_def Let_def split: if_splits)

lemma next_left:
  assumes "no_wrap data" "visited data pos" "iter_ok data (Blk_at pos)"
  shows "iter_ok data (adb_block_next pos data)" "iter_left data (adb_block_next pos data) < iter_left data (Blk_at pos)"
proof -
  let ?b = "block_at data pos"
  have v: "pos < length data" "adb_block_validate pos data = Blk_at pos" using assms(3) by (simp_all add: iter_ok_def)
  have raw: "unat (adb_block_rawsize ?b) \<le> 2 ^ 64 - 8" using assms(1, 2) by (simp add: no_wrap_def)
  have "unat (adb_block_size ?b) = (unat (adb_block_rawsize ?b) + 7) div 8 * 8"
    unfolding adb_block_size_def using raw by (intro round_up8_nat) simp
  moreover have "4 \<le> unat (adb_block_rawsize ?b)" using valid_block(2) [OF v(2)] by (simp add: adb_block_hdrsize_def split: if_splits)
  ultimately have "0 < unat (adb_block_size ?b)" by simp
  then have p: "pos < pos + unat (adb_block_size ?b)" "pos + unat (adb_block_size ?b) \<le> length data"
    using valid_block(1) [OF v(2)] v(1) by simp_all
  show "iter_ok data (adb_block_next pos data)" unfolding adb_block_next_def by (rule validate_iter_ok [OF p(2)])
  show "iter_left data (adb_block_next pos data) < iter_left data (Blk_at pos)"
    using validate_cases [of "pos + unat (adb_block_size ?b)" data] p v(1) by (auto simp: adb_block_next_def iter_left_def)
qed

lemma loop_ends:
  "no_wrap data \<Longrightarrow> iter_visited data it \<Longrightarrow> iter_ok data it \<Longrightarrow> iter_left data it < fuel \<Longrightarrow> \<exists>res. parse_loop digest verify t cb data fuel it r st = Some res"
proof (induction fuel arbitrary: it r st)
  case (Suc fuel)
  show ?case
  proof (cases it)
    case (Blk_at pos)
    have "\<exists>res. parse_loop digest verify t cb data fuel (adb_block_next pos data) r st = Some res" for r st
      using Suc.IH next_left [of data pos] Suc.prems Blk_at by (simp add: iter_visited_def iter_visitedI(2) [unfolded iter_visited_def])
    then show ?thesis using Blk_at by (auto split: outcome.split bool.split)
  qed auto
qed simp

text \<open>A header of a signature whose size wraps around, and the byte behind it, which is not a known version.\<close>

definition endless_sig :: bytes where
  "endless_sig = le_bytes 4 0xc0000001 @ le_bytes 4 0 @ le_bytes 8 (2 ^ 64 - 1) @ [char_of (1 :: nat)]"

lemma endless_block:
  assumes "data = pre @ endless_sig"
  shows "adb_block_validate (length pre) data = Blk_at (length pre)" "adb_block_next (length pre) data = Blk_at (length pre)"
    "adb_block_type (block_at data (length pre)) = ADB_BLOCK_SIG" "fst (adb_block_blob data (length pre)) = [char_of (1 :: nat)]"
proof -
  let ?b = "block_at data (length pre)"
  have b: "blk_type_size ?b = 0xc0000001" "unat (blk_x_size ?b) = 2 ^ 64 - 1"
    by (simp_all add: block_at_def assms endless_sig_def unsigned_of_nat take_bit_nat_eq_self)
  have ext: "adb_block_is_ext ?b" by (simp add: ext_nat b(1))
  have raw: "unat (adb_block_rawsize ?b) = 2 ^ 64 - 1" "adb_block_hdrsize ?b = 16" using ext b(2) by (simp_all add: adb_block_rawsize_def adb_block_hdrsize_def)
  have size: "adb_block_size ?b = 0" unfolding adb_block_size_def by (rule round_up8_wraps) (simp add: raw)
  have len: "length data - length pre = 17" by (simp add: assms endless_sig_def)
  then show v: "adb_block_validate (length pre) data = Blk_at (length pre)"
    using raw size by (simp add: adb_block_validate_def Let_def)
  then show "adb_block_next (length pre) data = Blk_at (length pre)" by (simp add: adb_block_next_def size)
  show "adb_block_type ?b = ADB_BLOCK_SIG" using ext by (simp add: adb_block_type_def b(1) block_consts)
  show "fst (adb_block_blob data (length pre)) = [char_of (1 :: nat)]"
    by (simp add: adb_block_blob_def Let_def raw(2)) (simp add: assms endless_sig_def)
qed

lemma block_max [simp]:
  "\<not> ADB_BLOCK_MAX \<le> ADB_BLOCK_ADB" "\<not> ADB_BLOCK_MAX \<le> ADB_BLOCK_SIG" "\<not> ADB_BLOCK_MAX \<le> ADB_BLOCK_DATA"
  by (simp_all add: block_consts word_le_nat_alt)

lemma block_distinct [simp]:
  "ADB_BLOCK_ADB \<noteq> ADB_BLOCK_SIG" "ADB_BLOCK_ADB \<noteq> ADB_BLOCK_DATA" "ADB_BLOCK_SIG \<noteq> ADB_BLOCK_ADB"
  "ADB_BLOCK_SIG \<noteq> ADB_BLOCK_DATA" "ADB_BLOCK_DATA \<noteq> ADB_BLOCK_ADB" "ADB_BLOCK_DATA \<noteq> ADB_BLOCK_SIG"
  by (simp_all add: block_consts)

lemma loop_endless:
  assumes data: "data = pre @ endless_sig"
  shows "ADB_BLOCK_SIG \<in> set (ps_allowed st) \<Longrightarrow>
    parse_loop digest verify t adb_dummy_cb data fuel (Blk_at (length pre)) r st = None"
proof (induction fuel arbitrary: r st)
  case (Suc fuel)
  note b = endless_block [OF data]
  have "hd [char_of (1 :: nat)] \<noteq> (NUL :: char)" by code_simp
  then have "\<exists>st'. parse_sig digest verify t (adb_block_blob data (length pre)) st = Ret (None, st') \<and> ps_allowed st' = ps_allowed st"
    using b(4) by (auto simp: parse_sig_def adb_trust_verify_signature_def)
  then obtain st' where "parse_sig digest verify t (adb_block_blob data (length pre)) st = Ret (None, st')" "ps_allowed st' = ps_allowed st"
    by blast
  then have "parse_block digest verify t adb_dummy_cb data (length pre) st = Ret (False, Rc0, st'\<lparr>ps_cb := ps_cb st'\<rparr>)"
    using Suc.prems b(3) by (simp add: parse_block_def Let_def parse_type_def adb_dummy_cb_def)
  then show ?case using Suc.IH [of "st'\<lparr>ps_cb := ()\<rparr>"] Suc.prems b(2) \<open>ps_allowed st' = ps_allowed st\<close> by simp
qed simp

section \<open>Trust\<close>

text \<open>Reasons to trust a database: its digest is the expected one, or a trusted key signed it in a block of the data.\<close>

definition identified :: "digest_calc \<Rightarrow> apk_extract_ctx option \<Rightarrow> bytes \<Rightarrow> bool" where
  "identified digest ectx xs \<longleftrightarrow>
     (\<exists>ec vfy alg. ectx = Some ec \<and> alg = (if ec_generate_alg ec \<noteq> 0 then ec_generate_alg ec else ec_verify_alg ec) \<and>
        adb_digest_adb digest vfy_init alg (Some xs) = (Inr (ec_verify_digest ec), vfy))"

definition signed ::
  "digest_calc \<Rightarrow> 'k verify_op \<Rightarrow> 'k apk_trust option \<Rightarrow> u32 \<Rightarrow> bytes \<Rightarrow> bytes \<Rightarrow> bool" where
  "signed digest verify t schema xs sb \<longleftrightarrow>
     (\<exists>tr k md vfy. t = Some tr \<and> k \<in> set (tr_trusted tr) \<and> sign_v0_size \<le> length sb \<and> take 16 (drop 2 sb) = tk_id k \<and>
        adb_digest_adb digest vfy_init (code (sb ! 1)) (Some xs) = (Inr md, vfy) \<and>
        verify (tk_key k) (v0_signed schema (take sign_v0_size sb) md) (drop sign_v0_size sb))"

definition allowed_untrusted :: "'k apk_trust option \<Rightarrow> bool" where
  "allowed_untrusted t = (case t of None \<Rightarrow> False | Some tr \<Rightarrow> tr_allow_untrusted tr)"

definition block_of :: "bytes \<Rightarrow> u32 \<Rightarrow> bytes \<Rightarrow> bool" where
  "block_of data type xs \<longleftrightarrow> (\<exists>pos. visited data pos \<and> adb_block_type (block_at data pos) = type \<and> view_bytes (adb_block_blob data pos) = Ret xs)"

definition evidence ::
  "digest_calc \<Rightarrow> 'k verify_op \<Rightarrow> 'k apk_trust option \<Rightarrow> apk_extract_ctx option \<Rightarrow> bytes \<Rightarrow> u32 \<Rightarrow> blob \<Rightarrow> bool" where
  "evidence digest verify t ectx data schema adb \<longleftrightarrow> allowed_untrusted t \<or>
     (\<exists>xs. adb = Some xs \<and>
        (identified digest ectx xs \<or>
         (\<exists>sb. block_of data ADB_BLOCK_SIG sb \<and> signed digest verify t schema xs sb)))"

text \<open>The digests that are kept are those of the database.\<close>

definition vfy_ok :: "digest_calc \<Rightarrow> adb_verify_ctx \<Rightarrow> bytes \<Rightarrow> bool" where
  "vfy_ok digest vfy xs \<longleftrightarrow> (\<forall>d. vfy_sha256 vfy = Some d \<longrightarrow> digest APK_DIGEST_SHA256 xs = Inr d) \<and>
     (\<forall>d. vfy_sha512 vfy = Some d \<longrightarrow> digest APK_DIGEST_SHA512 xs = Inr d)"

lemma digest_adb_fresh:
  assumes "vfy_ok digest vfy xs" "adb_digest_adb digest vfy alg (Some xs) = (r, vfy')"
  shows "vfy_ok digest vfy' xs" "\<exists>v. adb_digest_adb digest vfy_init alg (Some xs) = (r, v)"
  using assms by (auto simp: adb_digest_adb_def vfy_ok_def vfy_init_def Let_def split: if_splits option.splits sum.splits)

definition key_signed :: "digest_calc \<Rightarrow> 'k verify_op \<Rightarrow> u32 \<Rightarrow> bytes \<Rightarrow> view \<Rightarrow> 'k apk_trust_key \<Rightarrow> bool" where
  "key_signed digest verify schema xs sigb k \<longleftrightarrow>
     (\<exists>md v sb. take 16 (drop 2 (fst sigb)) = tk_id k \<and> view_bytes sigb = Ret sb \<and>
        adb_digest_adb digest vfy_init (code (fst sigb ! 1)) (Some xs) = (Inr md, v) \<and>
        verify (tk_key k) (v0_signed schema (take sign_v0_size sb) md) (drop sign_v0_size sb))"

lemma verify_keys_sound:
  assumes "verify_keys digest verify ks db vfy sigb = Ret (ok, vfy')" "adb_data db = Some xs" "vfy_ok digest vfy xs"
  shows "vfy_ok digest vfy' xs \<and> (ok \<longrightarrow> (\<exists>k \<in> set ks. key_signed digest verify (adb_schema db) xs sigb k))"
  using assms
proof (induction ks arbitrary: vfy)
  case (Cons k ks)
  show ?case
  proof (cases "take 16 (drop 2 (fst sigb)) = tk_id k")
    case True
    obtain r v where d: "adb_digest_adb digest vfy (code (fst sigb ! 1)) (Some xs) = (r, v)" by fastforce
    note f = digest_adb_fresh [OF Cons.prems(3) d]
    show ?thesis
    proof (cases "verify_keys digest verify ks db v sigb = Ret (ok, vfy')")
      case True
      then show ?thesis using Cons.IH [OF True Cons.prems(2) f(1)] by auto
    next
      case False
      then obtain md sb where "r = Inr md" "view_bytes sigb = Ret sb" "ok" "vfy' = v"
        "verify (tk_key k) (v0_signed (adb_schema db) (take sign_v0_size sb) md) (drop sign_v0_size sb)"
        using Cons.prems(1,2) \<open>take 16 (drop 2 (fst sigb)) = tk_id k\<close> d by (cases r) (auto split: outcome.splits if_splits)
      then have "key_signed digest verify (adb_schema db) xs sigb k" unfolding key_signed_def
        using f(2) \<open>take 16 (drop 2 (fst sigb)) = tk_id k\<close> by blast
      then show ?thesis using f(1) \<open>vfy' = v\<close> by simp
    qed
  next
    case False
    then show ?thesis using Cons.IH [OF _ Cons.prems(2,3)] Cons.prems(1) by auto
  qed
qed simp

lemma verify_signature_sound:
  assumes "adb_trust_verify_signature digest verify t db vfy sigb = Ret (ok, vfy')" "adb_data db = Some xs" "vfy_ok digest vfy xs"
  shows "vfy_ok digest vfy' xs \<and> (ok \<longrightarrow> (\<exists>sb. view_bytes sigb = Ret sb \<and> signed digest verify t (adb_schema db) xs sb))"
proof (cases "(ok, vfy') = (False, vfy)")
  case False
  then obtain tr where t: "t = Some tr" "verify_keys digest verify (tr_trusted tr) db vfy sigb = Ret (ok, vfy')"
    "sign_v0_size \<le> snd sigb" using assms(1) by (auto simp: adb_trust_verify_signature_def split: if_splits option.splits)
  have "\<exists>sb. view_bytes sigb = Ret sb \<and> signed digest verify t (adb_schema db) xs sb"
    if ks: "k \<in> set (tr_trusted tr)" "key_signed digest verify (adb_schema db) xs sigb k" for k
  proof -
    obtain md v sb where k: "take 16 (drop 2 (fst sigb)) = tk_id k" "view_bytes sigb = Ret sb"
      "adb_digest_adb digest vfy_init (code (fst sigb ! 1)) (Some xs) = (Inr md, v)"
      "verify (tk_key k) (v0_signed (adb_schema db) (take sign_v0_size sb) md) (drop sign_v0_size sb)"
      using ks(2) unfolding key_signed_def by blast
    have "sb = take (snd sigb) (fst sigb)" "snd sigb \<le> length (fst sigb)" using k(2) by (auto simp: view_bytes_def split: if_splits)
    then have "take 16 (drop 2 sb) = take 16 (drop 2 (fst sigb))" "sb ! 1 = fst sigb ! 1" "sign_v0_size \<le> length sb"
      using t(3) by (simp_all add: sign_v0_size_def drop_take min_def)
    then have "signed digest verify t (adb_schema db) xs sb" unfolding signed_def using t(1) ks(1) k by metis
    then show ?thesis using k(2) by blast
  qed
  then show ?thesis using verify_keys_sound [OF t(2) assms(2,3)] by blast
qed (use assms in auto)

text \<open>The invariant of the loop.\<close>

definition parse_ok ::
  "digest_calc \<Rightarrow> 'k verify_op \<Rightarrow> 'k apk_trust option \<Rightarrow> apk_extract_ctx option \<Rightarrow> bytes \<Rightarrow> u32 \<Rightarrow> 's parse_state \<Rightarrow> bool" where
  "parse_ok digest verify t ectx data schema st \<longleftrightarrow> adb_schema (ps_db st) = schema \<and>
     (case adb_data (ps_db st) of
        None \<Rightarrow> ps_allowed st = [ADB_BLOCK_ADB] \<and> ps_vfy st = vfy_init \<and> ps_ectx st = ectx
      | Some xs \<Rightarrow> ADB_BLOCK_ADB \<notin> set (ps_allowed st) \<and> vfy_ok digest (ps_vfy st) xs \<and> block_of data ADB_BLOCK_ADB xs) \<and>
     (ps_trusted st \<longrightarrow> evidence digest verify t ectx data schema (adb_data (ps_db st)))"

lemma handle_identity_sound:
  assumes "adb_handle_identity digest ectx vfy_init xs = (r, vfy, ectx')"
  shows "vfy_ok digest vfy xs" "r = RcPos \<Longrightarrow> identified digest ectx xs"
proof -
  have init: "vfy_ok digest vfy_init xs" by (simp add: vfy_ok_def vfy_init_def)
  show "vfy_ok digest vfy xs"
    using assms init digest_adb_fresh(1) [OF init]
    by (auto simp: adb_handle_identity_def Let_def split: option.splits if_splits prod.splits sum.splits)
  assume "r = RcPos"
  then show "identified digest ectx xs" using assms
    by (auto simp: adb_handle_identity_def identified_def Let_def apk_blob_compare_eq_0 blob_bytes_def
        split: option.splits if_splits prod.splits sum.splits)
qed

lemma parse_adb_ok:
  assumes "parse_ok digest verify t ectx data schema st" "ADB_BLOCK_ADB \<in> set (ps_allowed st)"
    and blk: "parse_adb digest (adb_block_blob data pos) st = Ret (None, st')" "adb_block_type (block_at data pos) = ADB_BLOCK_ADB"
      "visited data pos"
  shows "parse_ok digest verify t ectx data schema st'"
proof -
  have st: "adb_data (ps_db st) = None" "ps_vfy st = vfy_init" "ps_ectx st = ectx" "adb_schema (ps_db st) = schema"
    "ps_trusted st \<longrightarrow> allowed_untrusted t"
    using assms(1,2) by (auto simp: parse_ok_def evidence_def split: option.splits)
  obtain xs where xs: "view_bytes (adb_block_blob data pos) = Ret xs" using blk(1) by (auto simp: parse_adb_def Let_def split: if_splits outcome.splits)
  obtain r vfy ectx' where i: "adb_handle_identity digest ectx vfy_init xs = (r, vfy, ectx')" by (cases "adb_handle_identity digest ectx vfy_init xs")
  have st': "ps_db st' = (ps_db st)\<lparr>adb_data := Some xs\<rparr> \<and> ps_vfy st' = vfy \<and> ps_allowed st' = [ADB_BLOCK_SIG, ADB_BLOCK_DATA] \<and>
      (ps_trusted st' \<longrightarrow> ps_trusted st \<or> r = RcPos)"
    using blk(1) xs i st by (auto simp: parse_adb_def Let_def split: if_splits rc.splits)
  moreover have "block_of data ADB_BLOCK_ADB xs" using blk(2, 3) xs by (auto simp: block_of_def)
  ultimately show ?thesis using handle_identity_sound [OF i] st by (auto simp: parse_ok_def evidence_def)
qed

lemma parse_sig_ok:
  assumes ok: "parse_ok digest verify t ectx data schema st" and blk: "adb_block_type (block_at data pos) = ADB_BLOCK_SIG"
    "ADB_BLOCK_SIG \<in> set (ps_allowed st)" and sig: "parse_sig digest verify t (adb_block_blob data pos) st = Ret (None, st')"
    and vis: "visited data pos"
  shows "parse_ok digest verify t ectx data schema st'"
proof (cases "ps_trusted st")
  case True
  then show ?thesis using ok sig by (simp add: parse_sig_def)
next
  case False
  obtain xs where xs: "adb_data (ps_db st) = Some xs" "vfy_ok digest (ps_vfy st) xs"
    using ok blk(2) by (auto simp: parse_ok_def split: option.splits)
  obtain b vfy where v: "adb_trust_verify_signature digest verify t (ps_db st) (ps_vfy st) (adb_block_blob data pos) = Ret (b, vfy)"
    "st' = st\<lparr>ps_vfy := vfy, ps_trusted := b\<rparr>" using sig False by (auto simp: parse_sig_def split: outcome.splits)
  note verify_signature_sound [OF v(1) xs]
  then show ?thesis using ok xs blk(1) vis unfolding parse_ok_def evidence_def v(2) block_of_def by auto
qed

lemma parse_block_ok:
  assumes "parse_ok digest verify t ectx data schema st" "parse_block digest verify t cb data pos st = Ret (False, r, st')"
    and vis: "visited data pos"
  shows "parse_ok digest verify t ectx data schema st'"
proof -
  let ?t = "adb_block_type (block_at data pos)"
  have a: "?t \<in> set (ps_allowed st)" using assms(2) by (auto simp: parse_block_def Let_def split: if_splits)
  obtain st1 s where st1: "parse_type digest verify t ?t (adb_block_blob data pos) st = Ret (None, st1)" "st' = st1\<lparr>ps_cb := s\<rparr>"
    using assms(2) a by (auto simp: parse_block_def Let_def split: if_splits outcome.splits option.splits prod.splits rc.splits)
  have "parse_ok digest verify t ectx data schema st1"
  proof -
    consider "?t = ADB_BLOCK_ADB" | "?t = ADB_BLOCK_SIG" | "?t = ADB_BLOCK_DATA" | "st1 = st"
      using st1(1) by (auto simp: parse_type_def split: if_splits)
    then show ?thesis
    proof cases
      case 1
      then show ?thesis using parse_adb_ok [OF assms(1), of pos st1] a st1(1) vis
        by (simp add: parse_type_def)
    next
      case 3
      then have "st1 = st\<lparr>ps_allowed := [ADB_BLOCK_DATA]\<rparr>" using st1(1) by (auto simp: parse_type_def parse_data_def Let_def)
      then show ?thesis using assms(1) a 3 by (auto simp: parse_ok_def split: option.splits)
    qed (use st1(1) a assms(1) vis parse_sig_ok in \<open>auto simp: parse_type_def\<close>)
  qed
  then show ?thesis by (auto simp: parse_ok_def st1(2) split: option.splits)
qed

lemma parse_loop_ok:
  assumes "parse_ok digest verify t ectx data schema st" "iter_visited data it"
    "parse_loop digest verify t cb data fuel it r st = Some (Ret (None, st'))"
  shows "\<exists>xs. adb_data (ps_db st') = Some xs \<and> block_of data ADB_BLOCK_ADB xs \<and> evidence digest verify t ectx data schema (Some xs)"
  using assms
proof (induction fuel arbitrary: it r st)
  case (Suc fuel)
  have fin: ?case if "parse_end it r st = (None, st')"
    using that Suc.prems(1) by (auto simp: parse_end_def Let_def parse_ok_def split: rc.splits if_splits)
  show ?case
  proof (cases it)
    case (Blk_at pos)
    then obtain stop r1 st1 where b: "parse_block digest verify t cb data pos st = Ret (stop, r1, st1)"
      using Suc.prems(3) by (auto split: outcome.splits)
    have vis: "visited data pos" using Suc.prems(2) Blk_at by (simp add: iter_visited_def)
    show ?thesis
    proof (cases stop)
      case True
      then have "\<exists>e. r1 = RcErr e" using b by (auto simp: parse_block_def Let_def split: if_splits outcome.splits option.splits prod.splits rc.splits)
      then show ?thesis using Suc.prems(3) Blk_at b True by (auto simp: parse_end_def Let_def)
    next
      case False
      then show ?thesis using Suc.IH [OF parse_block_ok [OF Suc.prems(1) _ vis] iter_visitedI(2) [OF vis]] Suc.prems(3) Blk_at b by auto
    qed
  qed (use Suc.prems(3) fin in auto)
qed simp

lemma parse_loop_failed:
  "parse_loop digest verify t cb data fuel it r st = Some (Ret (e, st')) \<Longrightarrow> e \<noteq> None \<Longrightarrow> adb_data (ps_db st') = None"
proof (induction fuel arbitrary: it r st)
  case (Suc fuel)
  have fin: "adb_data (ps_db st') = None" if "parse_end it r st = (e, st')" for it r st
    using that Suc.prems(2) by (auto simp: parse_end_def Let_def)
  show ?case using Suc fin by (auto split: blk_iter.splits outcome.splits bool.splits)
qed simp

lemma parse_init_ok: "adb_data db = None \<Longrightarrow> parse_ok digest verify t ectx data (adb_schema db) (parse_init t ectx db s)"
  by (auto simp: parse_ok_def parse_init_def evidence_def allowed_untrusted_def split: option.splits)

section \<open>A signed file\<close>

lemma loop_step:
  "parse_block digest verify t cb data pos st = Ret (False, r', st') \<Longrightarrow>
   parse_loop digest verify t cb data (Suc fuel) (Blk_at pos) r st = parse_loop digest verify t cb data fuel (adb_block_next pos data) r' st'"
  by simp

lemma verify_keys_complete:
  assumes "view_bytes sigb = Ret sb" "adb_data db = Some xs" "vfy_ok digest vfy xs"
    "\<exists>k \<in> set ks. key_signed digest verify (adb_schema db) xs sigb k"
  shows "\<exists>vfy'. verify_keys digest verify ks db vfy sigb = Ret (True, vfy')"
  using assms(3,4)
proof (induction ks arbitrary: vfy)
  case (Cons k ks)
  obtain r v where d: "adb_digest_adb digest vfy (code (fst sigb ! 1)) (Some xs) = (r, v)" by fastforce
  note f = digest_adb_fresh [OF Cons.prems(1) d]
  show ?case
  proof (cases "key_signed digest verify (adb_schema db) xs sigb k")
    case True
    then show ?thesis using d f(2) assms(1,2) by (auto simp: key_signed_def)
  next
    case False
    then have ks: "\<exists>k \<in> set ks. key_signed digest verify (adb_schema db) xs sigb k" using Cons.prems(2) by auto
    then show ?thesis using Cons.IH [OF f(1) ks] Cons.IH [OF Cons.prems(1) ks] d assms(1,2) by (cases r) auto
  qed
qed simp

definition sig_v0 :: "'k apk_trust_key \<Rightarrow> bytes" where
  "sig_v0 k = NUL # char_of APK_DIGEST_SHA512 # tk_id k"

lemma file_bytes:
  assumes "adb_schema db \<noteq> 0" "adb_data db = Some xs" "length xs < 2 ^ 62" "digest APK_DIGEST_SHA512 xs = Inr d"
    "tr_private t = [k]" "length (tk_id k) = 16" "sign (tk_key k) (v0_signed (adb_schema db) (sig_v0 k) (take 64 d)) = Inr s" "length s < 2 ^ 61"
  shows "adb_c_adb digest sign \<lparr>os_data = [], os_rc = None\<rparr> db t =
    (None, \<lparr>os_data = (le_bytes 4 (unat ADB_FORMAT_MAGIC) @ le_bytes 4 (unat (adb_schema db))) @
       enc_block (ADB_BLOCK_ADB, xs) @ enc_block (ADB_BLOCK_SIG, sig_v0 k @ s), os_rc = None\<rparr>)"
proof -
  have ok: "block_ok (ADB_BLOCK_ADB, xs)" "block_ok (ADB_BLOCK_SIG, sig_v0 k @ s)"
    using assms(3,6,8) by (simp_all add: block_ok_def type_ok_def block_consts sig_v0_def)
  have "adb_digest_adb digest vfy_init APK_DIGEST_SHA512 (Some xs) = (Inr (take 64 d), vfy_init\<lparr>vfy_sha512 := Some d\<rparr>)"
    using assms(4) by (simp add: adb_digest_adb_def digest_consts vfy_init_def apk_digest_alg_len_def)
  then have "snd (adb_trust_write_signatures digest sign t db None os) = os\<lparr>os_data := os_data os @ enc_block (ADB_BLOCK_SIG, sig_v0 k @ s)\<rparr>"
    if "os_rc os = None" for os
    using c_block [OF ok(2) that] assms(2,5,7) by (simp add: adb_trust_write_signatures_def Let_def sig_v0_def)
  then show ?thesis using assms(1,2) c_block [OF ok(1)]
    by (simp add: adb_c_adb_def adb_c_header_def apk_ostream_write_def adb_bytes_def blob_bytes_def Let_def)
qed

lemma parse_adb_good:
  assumes "fst b \<noteq> []" "hd (fst b) = NUL" "8 \<le> snd b" "view_bytes b = Ret xs" "ps_ectx st = None"
  shows "parse_adb digest b st = Ret (None, st\<lparr>ps_allowed := [ADB_BLOCK_SIG, ADB_BLOCK_DATA], ps_db := (ps_db st)\<lparr>adb_data := Some xs\<rparr>\<rparr>)"
  using assms by (cases st) (simp add: parse_adb_def adb_hdr_size_def adb_handle_identity_def)

lemma verify_signature_good:
  assumes "adb_data db \<noteq> None" "hd (fst sigb) = NUL" "fst sigb \<noteq> []" "sign_v0_size \<le> snd sigb" "snd sigb \<le> length (fst sigb)"
  shows "adb_trust_verify_signature digest verify (Some t) db vfy sigb = verify_keys digest verify (tr_trusted t) db vfy sigb"
  using assms by (auto simp: adb_trust_verify_signature_def sign_v0_size_def)

lemma first_block:
  assumes xs: "8 \<le> length xs" "length xs < 2 ^ 62" "hd xs = NUL" and data: "data = enc_block (ADB_BLOCK_ADB, xs) @ post"
    and st1: "st1 = (parse_init t None db ())\<lparr>ps_allowed := [ADB_BLOCK_SIG, ADB_BLOCK_DATA], ps_db := db\<lparr>adb_data := Some xs\<rparr>\<rparr>"
  shows "adb_m_parse digest verify (Suc fuel) db data t None adb_dummy_cb () =
    parse_loop digest verify t adb_dummy_cb data fuel (adb_block_validate (length (enc_block (ADB_BLOCK_ADB, xs))) data) Rc0 st1"
proof -
  have ok: "block_ok (ADB_BLOCK_ADB, xs)" using xs by (simp add: block_ok_def type_ok_def block_consts)
  note s1 = block_step [OF ok, of data "[]" post, unfolded append_Nil list.size, OF data]
  let ?st = "parse_init t None db ()"
  have "hd (xs @ zs) = NUL" "xs @ zs \<noteq> []" for zs using xs(1,3) by (auto simp: hd_append)
  then have "parse_adb digest (adb_block_blob data 0) ?st = Ret (None, st1)"
    using parse_adb_good [of "adb_block_blob data 0" xs ?st digest] s1(3) xs(1) by (simp add: view_bytes_def st1 parse_init_def)
  then have "parse_block digest verify t adb_dummy_cb data 0 ?st = Ret (False, Rc0, st1)"
    using s1(2) by (simp add: parse_block_def Let_def parse_type_def adb_dummy_cb_def parse_init_def)
  from loop_step [OF this] show ?thesis unfolding adb_m_parse_def adb_block_first_def s1(1,4) by simp
qed

lemma parse_signed:
  assumes xs: "8 \<le> length xs" "length xs < 2 ^ 62" "hd xs = NUL" and sb: "sign_v0_size \<le> length sb" "length sb < 2 ^ 62" "hd sb = NUL"
    and sig: "\<exists>k \<in> set (tr_trusted t). key_signed digest verify (adb_schema db) xs (sb @ pad, length sb) k"
    and pad: "pad = replicate (pad_len (length sb)) NUL"
  shows "\<exists>st. adb_m_parse digest verify (Suc (Suc (Suc fuel))) db (enc_block (ADB_BLOCK_ADB, xs) @ enc_block (ADB_BLOCK_SIG, sb)) (Some t) None adb_dummy_cb ()
     = Some (Ret (None, st)) \<and> ps_db st = db\<lparr>adb_data := Some xs\<rparr>"
proof -
  let ?a = "enc_block (ADB_BLOCK_ADB, xs)" and ?b = "enc_block (ADB_BLOCK_SIG, sb)"
  let ?data = "?a @ ?b" and ?st = "parse_init (Some t) None db ()"
  have ok: "block_ok (ADB_BLOCK_ADB, xs)" "block_ok (ADB_BLOCK_SIG, sb)" using xs sb by (simp_all add: block_ok_def type_ok_def block_consts)
  note s2 = block_step [OF ok(2), of ?data ?a "[]", simplified]
  have n0: "hd (sb @ zs) = NUL" "sb @ zs \<noteq> []" for zs using sb(1,3) by (auto simp: sign_v0_size_def hd_append)
  define st1 where "st1 = ?st\<lparr>ps_allowed := [ADB_BLOCK_SIG, ADB_BLOCK_DATA], ps_db := db\<lparr>adb_data := Some xs\<rparr>\<rparr>"
  have v: "view_bytes (sb @ pad, length sb) = Ret sb" "vfy_ok digest vfy_init xs" by (simp_all add: view_bytes_def vfy_ok_def vfy_init_def)
  obtain vfy' where k: "verify_keys digest verify (tr_trusted t) (db\<lparr>adb_data := Some xs\<rparr>) vfy_init (sb @ pad, length sb) = Ret (True, vfy')"
    using verify_keys_complete [OF v(1) _ v(2), where db = "db\<lparr>adb_data := Some xs\<rparr>"] sig by auto
  obtain st2 where st2: "parse_sig digest verify (Some t) (adb_block_blob ?data (length ?a)) st1 = Ret (None, st2)"
    "ps_trusted st2" "ps_db st2 = db\<lparr>adb_data := Some xs\<rparr>"
  proof (cases "ps_trusted st1")
    case True
    then show thesis by (intro that [of st1]) (simp_all add: parse_sig_def st1_def)
  next
    case False
    have "adb_trust_verify_signature digest verify (Some t) (ps_db st1) (ps_vfy st1) (sb @ pad, length sb) = Ret (True, vfy')"
      using verify_signature_good [of "ps_db st1" "(sb @ pad, length sb)" digest verify t "ps_vfy st1"] k n0 sb(1) by (simp add: st1_def parse_init_def)
    then show thesis using False s2(3) pad
      by (intro that [of "st1\<lparr>ps_vfy := vfy', ps_trusted := True\<rparr>"]) (simp_all add: parse_sig_def st1_def)
  qed
  then have b2: "parse_block digest verify (Some t) adb_dummy_cb ?data (length ?a) st1 = Ret (False, Rc0, st2)"
    using s2(2) by (simp add: parse_block_def Let_def parse_type_def adb_dummy_cb_def st1_def)
  have e: "adb_block_validate (length ?a + length ?b) ?data = Blk_end" by (simp add: adb_block_validate_def)
  have "adb_m_parse digest verify (Suc (Suc (Suc fuel))) db ?data (Some t) None adb_dummy_cb () =
      parse_loop digest verify (Some t) adb_dummy_cb ?data (Suc (Suc fuel)) (Blk_at (length ?a)) Rc0 st1"
    unfolding first_block [OF xs refl st1_def] s2(1) ..
  also have "\<dots> = parse_loop digest verify (Some t) adb_dummy_cb ?data (Suc fuel) Blk_end Rc0 st2"
    unfolding loop_step [OF b2] s2(4) e ..
  finally have "adb_m_parse digest verify (Suc (Suc (Suc fuel))) db ?data (Some t) None adb_dummy_cb () = Some (Ret (parse_end Blk_end Rc0 st2))"
    by simp
  moreover have "parse_end Blk_end Rc0 st2 = (None, st2)" using st2(2,3) by (simp add: parse_end_def)
  ultimately show ?thesis using st2(3) by simp
qed

section \<open>Properties\<close>

text \<open>
  C40. The blocks that are written one after the other are found again: the loop over the data visits exactly
  these types and payloads, in this order, and ends regularly, whatever the padding of the payloads and
  whichever form of header their size needs.
\<close>

theorem adb_blocks_roundtrip:
  assumes "\<forall>b \<in> set bs. block_ok b"
    "data = os_data (fold (\<lambda>(t, xs) os. snd (adb_c_block os t xs)) bs \<lparr>os_data = [], os_rc = None\<rparr>)"
  shows "\<exists>vs. adb_foreach_block (Suc (length bs)) data (adb_block_first data) = Some (vs, Blk_end) \<and>
    map (\<lambda>(t, v). (t, view_bytes v)) vs = map (\<lambda>(t, xs). (t, Ret xs)) bs"
proof -
  have "fold (\<lambda>(t, xs) os. snd (adb_c_block os t xs)) bs \<lparr>os_data = d, os_rc = None\<rparr> =
      \<lparr>os_data = d @ concat (map enc_block bs), os_rc = None\<rparr>" for d
    using assms(1)
  proof (induction bs arbitrary: d)
    case (Cons b bs)
    obtain t xs where b: "b = (t, xs)" by (cases b)
    have "adb_c_block \<lparr>os_data = d, os_rc = None\<rparr> t xs = (True, \<lparr>os_data = d @ enc_block (t, xs), os_rc = None\<rparr>)"
      using c_block [of t xs] Cons.prems b by simp
    then show ?case using Cons.IH [of "d @ enc_block (t, xs)"] Cons.prems b by simp
  qed simp
  then have "data = [] @ concat (map enc_block bs)" using assms(2) by simp
  from foreach_blocks [OF assms(1) this] show ?thesis by (simp only: adb_block_first_def list.size)
qed

theorem adb_blocks_roundtrip_witness:
  "\<exists>vs. adb_foreach_block 3 (os_data (fold (\<lambda>(t, xs) os. snd (adb_c_block os t xs)) [(0, ''12345678''), (1, ''sig'')] \<lparr>os_data = [], os_rc = None\<rparr>))
     (adb_block_first (os_data (fold (\<lambda>(t, xs) os. snd (adb_c_block os t xs)) [(0, ''12345678''), (1, ''sig'')] \<lparr>os_data = [], os_rc = None\<rparr>)))
   = Some (vs, Blk_end) \<and> map (\<lambda>(t, v). (t, view_bytes v)) vs = [(0, Ret ''12345678''), (1, Ret ''sig'')]"
  using adb_blocks_roundtrip [of "[(0, ''12345678''), (1, ''sig'')]", OF _ refl]
  by (simp add: block_ok_def type_ok_def numeral_3_eq_3 del: fold_simps adb_foreach_block.simps)

text \<open>
  C28. The parser of a container returns, with a result or with an access outside of the data, when none of
  the blocks that it comes to has a size that wraps around on rounding up: it passes at most one block for
  each byte.
\<close>

theorem adb_parse_ends:
  assumes "no_wrap data"
  shows "\<exists>res. adb_m_parse digest verify (length data + 1) db data t ectx cb s = Some res"
proof -
  have "iter_ok data (adb_block_first data)" unfolding adb_block_first_def by (rule validate_iter_ok) simp
  moreover have "iter_left data (adb_block_first data) < length data + 1"
    by (auto simp: iter_left_def less_Suc_eq_le split: blk_iter.split)
  ultimately show ?thesis unfolding adb_m_parse_def by (rule loop_ends [OF assms iter_visitedI(1)])
qed

text \<open>The loop over a container that was written passes only the blocks of the writer, so there is no such size.\<close>

lemma blocks_visited:
  assumes "\<forall>b \<in> set bs. block_ok b" "visited (concat (map enc_block bs)) pos"
  shows "\<exists>as t xs cs. bs = as @ (t, xs) # cs \<and> pos = length (concat (map enc_block as))"
proof -
  let ?data = "concat (map enc_block bs)"
  have here: "\<exists>t xs cs'. cs = (t, xs) # cs' \<and> pos = length (concat (map enc_block as))"
    if "bs = as @ cs" "adb_block_validate (length (concat (map enc_block as))) ?data = Blk_at pos" for as cs pos
    using that validate_cases [of "length (concat (map enc_block as))" ?data] by (cases cs) (auto simp: adb_block_validate_def)
  show ?thesis using assms(2)
  proof (induction rule: visited.induct)
    case (first_visited pos)
    from here [of "[]" bs pos] first_visited show ?case by (fastforce simp: adb_block_first_def)
  next
    case (next_visited pos pos')
    then obtain as t xs cs where p: "bs = as @ (t, xs) # cs" "pos = length (concat (map enc_block as))" by blast
    have ok: "block_ok (t, xs)" using assms(1) p(1) by simp
    have "?data = concat (map enc_block as) @ enc_block (t, xs) @ concat (map enc_block cs)" by (simp add: p(1))
    from block_step(4) [OF ok this] next_visited(2) p(2)
    have "adb_block_validate (length (concat (map enc_block (as @ [(t, xs)])))) ?data = Blk_at pos'" by simp
    from here [OF _ this, of cs] p(1) show ?case by (metis append.assoc append_Cons append_Nil)
  qed
qed

lemma no_wrap_written:
  assumes "\<forall>b \<in> set bs. block_ok b"
  shows "no_wrap (concat (map enc_block bs))"
  unfolding no_wrap_def
proof (intro allI impI)
  fix pos assume "visited (concat (map enc_block bs)) pos"
  from blocks_visited [OF assms this] obtain as t xs cs where p: "bs = as @ (t, xs) # cs" "pos = length (concat (map enc_block as))" by blast
  have ok: "block_ok (t, xs)" using assms p(1) by simp
  have "concat (map enc_block bs) = concat (map enc_block as) @ enc_block (t, xs) @ concat (map enc_block cs)" by (simp add: p(1))
  from block_at_describes [OF ok this] have "unat (adb_block_rawsize (block_at (concat (map enc_block bs)) pos)) = hdr_len (length xs) + length xs"
    by (simp add: describes_def p(2))
  moreover have "hdr_len (length xs) \<le> 16" "length xs < 2 ^ 62" using ok by (simp_all add: hdr_len_def block_ok_def)
  ultimately show "unat (adb_block_rawsize (block_at (concat (map enc_block bs)) pos)) \<le> 2 ^ 64 - 8" by simp
qed

theorem adb_parse_ends_witness:
  "\<exists>res. adb_m_parse (\<lambda>alg xs. Inr xs) (\<lambda>k m s. k) (length (enc_block (ADB_BLOCK_ADB, replicate 32 (CHR 0xff))) + 1) adb_init
     (enc_block (ADB_BLOCK_ADB, replicate 32 (CHR 0xff))) None None adb_dummy_cb () = Some res"
proof -
  have "no_wrap (enc_block (ADB_BLOCK_ADB, replicate 32 (CHR 0xff)))"
    using no_wrap_written [of "[(ADB_BLOCK_ADB, replicate 32 (CHR 0xff))]"] by (simp add: block_ok_def type_ok_def block_consts)
  then show ?thesis by (rule adb_parse_ends)
qed

text \<open>
  C39. A block whose size is within seven of the end of the range is rounded up to zero: it passes the
  validation, its payload reaches beyond the data, and the next block is the same one again. A signature
  block of this kind makes the parser run forever on a file that nobody signed.
\<close>

theorem adb_parse_endless:
  "adb_m_parse digest verify fuel adb_init (enc_block (ADB_BLOCK_ADB, replicate 8 NUL) @ endless_sig) t None adb_dummy_cb () = None"
proof (cases fuel)
  case (Suc n)
  let ?a = "enc_block (ADB_BLOCK_ADB, replicate 8 NUL)"
  have "8 \<le> length (replicate 8 NUL)" "length (replicate 8 NUL) < 2 ^ 62" "hd (replicate 8 NUL) = NUL" by simp_all
  note 1 = first_block [OF this refl refl]
  show ?thesis unfolding Suc 1 endless_block(1) [OF refl] by (rule loop_endless [OF refl]) simp
qed (simp add: adb_m_parse_def)

text \<open>
  C21. A container is only accepted for a reason: untrusted databases were allowed, the digest of its database
  block is the expected one, or a signature block of the data holds a signature that a trusted key verifies
  over the schema, the header of the signature and the digest of the database block.
\<close>

theorem adb_parse_trusted:
  assumes "adb_m_parse digest verify fuel db data t ectx cb s = Some (Ret (None, st))" "adb_data db = None"
  shows "\<exists>xs. adb_data (ps_db st) = Some xs \<and> block_of data ADB_BLOCK_ADB xs \<and> evidence digest verify t ectx data (adb_schema db) (Some xs)"
  by (rule parse_loop_ok [OF parse_init_ok [OF assms(2)] iter_visitedI(1) assms(1) [unfolded adb_m_parse_def]])

definition ex_key :: "bytes apk_trust_key" where "ex_key = \<lparr>tk_id = replicate 16 NUL, tk_key = ''key''\<rparr>"

definition ex_trust :: "bytes apk_trust" where "ex_trust = \<lparr>tr_trusted = [ex_key], tr_private = [ex_key], tr_allow_untrusted = False\<rparr>"

theorem adb_parse_trusted_witness:
  "\<exists>st xs. adb_m_parse (\<lambda>alg xs. Inr xs) (\<lambda>k m s. s = k) 3 adb_init (enc_block (ADB_BLOCK_ADB, replicate 8 NUL) @ enc_block (ADB_BLOCK_SIG, sig_v0 ex_key @ ''key''))
       (Some ex_trust) None adb_dummy_cb () = Some (Ret (None, st)) \<and> adb_data (ps_db st) = Some xs \<and>
     evidence (\<lambda>alg xs. Inr xs) (\<lambda>k m s. s = k) (Some ex_trust) None
       (enc_block (ADB_BLOCK_ADB, replicate 8 NUL) @ enc_block (ADB_BLOCK_SIG, sig_v0 ex_key @ ''key'')) 0 (Some xs)"
proof -
  let ?sb = "sig_v0 ex_key @ ''key''" and ?dg = "\<lambda>(alg :: nat) (xs :: bytes). Inr xs :: apk_error + bytes" and ?vf = "\<lambda>k m s :: bytes. s = k"
  define pad where "pad = replicate (pad_len (length ?sb)) NUL"
  have xs: "8 \<le> length (replicate 8 NUL)" "length (replicate 8 NUL) < 2 ^ 62" "hd (replicate 8 NUL) = NUL"
    "sign_v0_size \<le> length ?sb" "length ?sb < 2 ^ 62" "hd ?sb = NUL" by (simp_all add: sign_v0_size_def sig_v0_def ex_key_def)
  have "key_signed ?dg ?vf (adb_schema adb_init) (replicate 8 NUL) (?sb @ pad, length ?sb) ex_key"
    unfolding key_signed_def
    by (auto simp: view_bytes_def sig_v0_def ex_key_def adb_digest_adb_def digest_consts vfy_init_def sign_v0_size_def)
  then have "\<exists>k \<in> set (tr_trusted ex_trust). key_signed ?dg ?vf (adb_schema adb_init) (replicate 8 NUL) (?sb @ pad, length ?sb) k"
    by (simp add: ex_trust_def)
  from parse_signed [OF xs this pad_def, of 0] obtain st where
    "adb_m_parse ?dg ?vf 3 adb_init (enc_block (ADB_BLOCK_ADB, replicate 8 NUL) @ enc_block (ADB_BLOCK_SIG, ?sb)) (Some ex_trust) None adb_dummy_cb ()
      = Some (Ret (None, st))" by (auto simp: numeral_3_eq_3)
  then show ?thesis using adb_parse_trusted [of ?dg ?vf 3 adb_init] by (fastforce simp: adb_init_def)
qed

text \<open>
  C22. A database that is written with a private key is accepted by a reader that trusts the matching public
  key, with the same schema and the same bytes, provided that the crypto library verifies what it signed.
\<close>

theorem adb_file_roundtrip:
  assumes "adb_schema db \<noteq> 0" "adb_schema db AND ADB_SCHEMA_IMPLIED = 0" "adb_data db = Some xs" "8 \<le> length xs" "length xs < 2 ^ 62" "hd xs = NUL"
    and key: "tr_private t = [k]" "length (tk_id k) = 16" "k' \<in> set (tr_trusted t')" "tk_id k' = tk_id k"
    and crypto: "digest APK_DIGEST_SHA512 xs = Inr d"
      "\<forall>m. \<exists>s. sign (tk_key k) m = Inr s \<and> length s < 2 ^ 61 \<and> verify (tk_key k') m s"
  shows "\<exists>os db'. adb_c_adb digest sign \<lparr>os_data = [], os_rc = None\<rparr> db t = (None, os) \<and>
    adb_m_mmap digest verify 3 adb_init (os_data os) (adb_schema db) (Some t') None adb_dummy_cb () = Some (Ret (None, db', ())) \<and>
    adb_data db' = Some xs \<and> adb_schema db' = adb_schema db"
proof -
  let ?m = "v0_signed (adb_schema db) (sig_v0 k) (take 64 d)"
  obtain s where s: "sign (tk_key k) ?m = Inr s" "length s < 2 ^ 61" "verify (tk_key k') ?m s" using crypto(2) by blast
  note out = file_bytes [where digest = digest and sign = sign, OF assms(1,3,5) crypto(1) key(1,2) s(1,2)]
  let ?sb = "sig_v0 k @ s" and ?db = "adb_init\<lparr>adb_schema := adb_schema db\<rparr>"
  define pad where "pad = replicate (pad_len (length ?sb)) NUL"
  have l: "length (sig_v0 k) = 18" using key(2) by (simp add: sig_v0_def)
  have sb: "sign_v0_size \<le> length ?sb" "length ?sb < 2 ^ 62" "hd ?sb = NUL" "take sign_v0_size ?sb = sig_v0 k" "drop sign_v0_size ?sb = s"
    using s(2) l by (simp_all add: sign_v0_size_def) (simp add: sig_v0_def)
  have "key_signed digest verify (adb_schema ?db) xs (?sb @ pad, length ?sb) k'"
    unfolding key_signed_def
  proof (intro exI conjI)
    show "take 16 (drop 2 (fst (?sb @ pad, length ?sb))) = tk_id k'" using key(2,4) by (simp add: sig_v0_def)
    show "view_bytes (?sb @ pad, length ?sb) = Ret ?sb" by (simp add: view_bytes_def)
    show "adb_digest_adb digest vfy_init (code (fst (?sb @ pad, length ?sb) ! 1)) (Some xs) = (Inr (take 64 d), vfy_init\<lparr>vfy_sha512 := Some d\<rparr>)"
      using crypto(1) by (simp add: sig_v0_def adb_digest_adb_def digest_consts vfy_init_def apk_digest_alg_len_def)
    show "verify (tk_key k') (v0_signed (adb_schema ?db) (take sign_v0_size ?sb) (take 64 d)) (drop sign_v0_size ?sb)"
      using s(3) sb(4,5) by simp
  qed
  then have sig: "\<exists>k \<in> set (tr_trusted t'). key_signed digest verify (adb_schema ?db) xs (?sb @ pad, length ?sb) k" using key(3) by blast
  obtain st where st: "adb_m_parse digest verify (Suc (Suc (Suc 0))) ?db (enc_block (ADB_BLOCK_ADB, xs) @ enc_block (ADB_BLOCK_SIG, ?sb)) (Some t') None adb_dummy_cb ()
     = Some (Ret (None, st))" "ps_db st = ?db\<lparr>adb_data := Some xs\<rparr>"
    using parse_signed [OF assms(4-6) sb(1-3) sig pad_def] by blast
  have magic: "le_val (le_bytes 4 (unat ADB_FORMAT_MAGIC)) = unat ADB_FORMAT_MAGIC" by (simp add: ADB_FORMAT_MAGIC_def)
  have "adb_m_mmap digest verify 3 adb_init (le_bytes 4 (unat ADB_FORMAT_MAGIC) @ le_bytes 4 (unat (adb_schema db)) @
      enc_block (ADB_BLOCK_ADB, xs) @ enc_block (ADB_BLOCK_SIG, ?sb)) (adb_schema db) (Some t') None adb_dummy_cb () = Some (Ret (None, ps_db st, ()))"
    using st(1) assms(2) magic by (simp add: adb_m_mmap_def Let_def word_le_val numeral_3_eq_3 del: le_val_bytes)
  then show ?thesis using out st(2) by simp
qed

definition ex_adb :: adb where "ex_adb = adb_init\<lparr>adb_schema := 5, adb_data := Some (replicate 8 NUL)\<rparr>"

text \<open>A key that signs by repeating itself.\<close>

theorem adb_file_roundtrip_witness:
  "\<exists>os db'. adb_c_adb (\<lambda>alg xs. Inr xs) (\<lambda>k m. Inr k) \<lparr>os_data = [], os_rc = None\<rparr> ex_adb ex_trust = (None, os) \<and>
     adb_m_mmap (\<lambda>alg xs. Inr xs) (\<lambda>k m s. s = k) 3 adb_init (os_data os) (adb_schema ex_adb) (Some ex_trust) None adb_dummy_cb () = Some (Ret (None, db', ())) \<and>
     adb_data db' = Some (replicate 8 NUL) \<and> adb_schema db' = adb_schema ex_adb"
  by (rule adb_file_roundtrip [where k = ex_key and k' = ex_key])
    (simp_all add: ex_adb_def ex_trust_def ex_key_def ADB_SCHEMA_IMPLIED_def)

text \<open>
  Without keys and without the permission, no container is accepted: the databases that are values of an
  array are never read when the array is sorted, and all of them compare equal.
\<close>

lemma adb_blob_without_trust:
  assumes "adb_m_blob digest verify fuel b None = Some (Ret (e, db))"
  shows "e \<noteq> None \<and> adb_data db = None \<and> adb_r_root db = ADB_NULL"
proof -
  obtain st where st: "adb_m_parse digest verify fuel adb_init b None None adb_dummy_cb () = Some (Ret (e, st))" "db = ps_db st"
    using assms by (auto simp: adb_m_blob_def split: option.splits outcome.splits)
  have "e \<noteq> None"
  proof
    assume "e = None"
    then have "adb_m_parse digest verify fuel adb_init b None None adb_dummy_cb () = Some (Ret (None, st))" using st(1) by simp
    from parse_loop_ok [OF parse_init_ok iter_visitedI(1) this [unfolded adb_m_parse_def]] show False
      by (auto simp: adb_init_def evidence_def allowed_untrusted_def identified_def signed_def)
  qed
  moreover have "adb_data (ps_db st) = None"
    using st(1) \<open>e \<noteq> None\<close> unfolding adb_m_parse_def by (rule parse_loop_failed)
  ultimately show ?thesis using st(2) by (simp add: adb_r_root_def adb_bytes_def blob_bytes_def adb_hdr_size_def)
qed

lemma adb_blob_without_trust_witness:
  "\<exists>e db. adb_m_blob (\<lambda>alg xs. Inr xs) (\<lambda>k m s. k) 2 (enc_block (ADB_BLOCK_ADB, replicate 8 NUL)) None = Some (Ret (e, db)) \<and>
     e = Some APKE_SIGNATURE_UNTRUSTED \<and> adb_data db = None \<and> adb_r_root db = ADB_NULL"
proof -
  let ?b = "enc_block (ADB_BLOCK_ADB, replicate 8 NUL)"
  have xs: "8 \<le> length (replicate 8 NUL)" "length (replicate 8 NUL) < 2 ^ 62" "hd (replicate 8 NUL) = NUL" "?b = ?b @ []" by simp_all
  have "adb_block_validate (length ?b) ?b = Blk_end" by (simp add: adb_block_validate_def)
  then obtain db where "adb_m_blob (\<lambda>alg xs. Inr xs) (\<lambda>k m s. k) 2 ?b None = Some (Ret (Some APKE_SIGNATURE_UNTRUSTED, db))"
    using first_block [OF xs refl, of "\<lambda>alg xs. Inr xs" "\<lambda>k m s. k" "Suc 0" adb_init None]
    by (simp add: adb_m_blob_def numeral_2_eq_2 parse_end_def parse_init_def)
  then show ?thesis using adb_blob_without_trust by blast
qed

end
