(* ===== verification/Adb_Obj.thy ===== *)
theory Adb_Obj
  imports Adb_Block Subst Dependency
begin

text \<open>
  Objects and arrays of the binary database and their schemas (\<^verbatim>\<open>adb.c\<close>, \<^verbatim>\<open>apk_adb.c\<close>). A schema is a tree:
  the pointers to the kinds of the fields are its branches. The functions that a schema points to are named
  by constructors, one for each function of \<^verbatim>\<open>apk_adb.c\<close>.

  An object in memory is its vector of values, with the number of entries or, while it is written, the
  room at index zero; it is passed along with the database it belongs to.
\<close>

section \<open>Schemas\<close>

datatype scalar =
    Scalar_string | Scalar_mstring | Scalar_xattr | Scalar_name | Scalar_version | Scalar_hexblob
  | Scalar_int | Scalar_oct | Scalar_hsize

datatype obj_fromstring = From_none | From_tags | From_dependency | From_dependencies

datatype obj_pre_commit = Commit_none | Commit_sort | Commit_sort_unique

text \<open>
  An object has its number of fields, the number of fields to compare, and the fields with their names; an
  array has its number of entries and the kind of its items; a database has the identifier of its schema.
\<close>

datatype adb_kind =
    Kind_scalar scalar
  | Kind_object nat nat obj_fromstring "(string \<times> adb_kind) list"
  | Kind_array nat obj_fromstring obj_pre_commit adb_kind
  | Kind_adb u32 adb_kind

section \<open>Objects\<close>

record adb_obj =
  ao_obj :: "adb_val_t list option"
  ao_num :: nat
  ao_dynamic :: bool

definition adb_r_obj :: "adb \<Rightarrow> adb_val_t \<Rightarrow> adb_obj" where
  "adb_r_obj db v =
     (case adb_r_vals db v of
        None \<Rightarrow> \<lparr>ao_obj = None, ao_num = 1, ao_dynamic = False\<rparr>
      | Some vals \<Rightarrow> \<lparr>ao_obj = Some vals, ao_num = length vals, ao_dynamic = False\<rparr>)"

definition adb_r_rootobj :: "adb \<Rightarrow> adb_obj" where
  "adb_r_rootobj db = adb_r_obj db (adb_r_root db)"

definition adb_ra_num :: "adb_obj \<Rightarrow> nat" where
  "adb_ra_num o' = (if ao_num o' = 0 then 1 else ao_num o') - 1"

text \<open>The kind of a field; the index zero and indexes beyond the fields fail an assertion.\<close>

definition adb_ro_kind :: "adb_kind \<Rightarrow> nat \<Rightarrow> adb_kind option" where
  "adb_ro_kind k i =
     (case k of
        Kind_array _ _ _ item \<Rightarrow> Some item
      | Kind_adb _ item \<Rightarrow> Some item
      | Kind_object num_fields _ _ fs \<Rightarrow>
          if 0 < i \<and> i < num_fields \<and> i - 1 < length fs then Some (snd (fs ! (i - 1))) else None
      | Kind_scalar _ \<Rightarrow> None)"

text \<open>The values of an object that could not be read are all null.\<close>

definition adb_ro_val :: "adb_obj \<Rightarrow> nat \<Rightarrow> adb_val_t" where
  "adb_ro_val o' i =
     (if ao_num o' \<le> i then ADB_NULL else case ao_obj o' of None \<Rightarrow> ADB_NULL | Some vals \<Rightarrow> vals ! i)"

definition adb_ro_int :: "adb \<Rightarrow> adb_obj \<Rightarrow> nat \<Rightarrow> u64" where
  "adb_ro_int db o' i = adb_r_int db (adb_ro_val o' i)"

definition adb_ro_blob :: "adb \<Rightarrow> adb_obj \<Rightarrow> nat \<Rightarrow> blob" where
  "adb_ro_blob db o' i = adb_r_blob db (adb_ro_val o' i)"

definition adb_ro_obj :: "adb \<Rightarrow> adb_obj \<Rightarrow> nat \<Rightarrow> adb_obj" where
  "adb_ro_obj db o' i = adb_r_obj db (adb_ro_val o' i)"

section \<open>Comparing\<close>

definition string_compare :: "adb \<Rightarrow> adb_val_t \<Rightarrow> adb \<Rightarrow> adb_val_t \<Rightarrow> int" where
  "string_compare db1 v1 db2 v2 = apk_blob_sort (adb_r_blob db1 v1) (adb_r_blob db2 v2)"

definition version_compare :: "adb \<Rightarrow> adb_val_t \<Rightarrow> adb \<Rightarrow> adb_val_t \<Rightarrow> int" where
  "version_compare db1 v1 db2 v2 =
     (let r = apk_version_compare (adb_r_blob db1 v1) (adb_r_blob db2 v2) in
      if r = APK_VERSION_LESS then - 1 else if r = APK_VERSION_GREATER then 1 else 0)"

definition int_compare :: "adb \<Rightarrow> adb_val_t \<Rightarrow> adb \<Rightarrow> adb_val_t \<Rightarrow> int" where
  "int_compare db1 v1 db2 v2 =
     (let r1 = adb_r_int db1 v1; r2 = adb_r_int db2 v2 in if r1 < r2 then - 1 else if r1 > r2 then 1 else 0)"

fun scalar_compare :: "scalar \<Rightarrow> adb \<Rightarrow> adb_val_t \<Rightarrow> adb \<Rightarrow> adb_val_t \<Rightarrow> int" where
  "scalar_compare Scalar_version = version_compare"
| "scalar_compare Scalar_int = int_compare"
| "scalar_compare Scalar_oct = int_compare"
| "scalar_compare Scalar_hsize = int_compare"
| "scalar_compare _ = string_compare"

datatype objcmp = ADB_OBJCMP_EXACT | ADB_OBJCMP_TEMPLATE | ADB_OBJCMP_INDEX

definition num_compare :: "adb_kind \<Rightarrow> nat" where
  "num_compare k = (case k of Kind_object _ n _ _ \<Rightarrow> n | _ \<Rightarrow> 0)"

lemma ro_kind_size: "adb_ro_kind k i = Some k' \<Longrightarrow> size k' < size k"
proof (cases k)
  case (Kind_object n c f fs)
  assume "adb_ro_kind k i = Some k'"
  then have "i - 1 < length fs" "k' = snd (fs ! (i - 1))" using Kind_object by (auto simp: adb_ro_kind_def split: if_splits)
  then have "fs ! (i - 1) \<in> set fs" "k' = snd (fs ! (i - 1))" by simp_all
  moreover have "size (snd p) \<le> size_prod (\<lambda>_. 0) size p" for p :: "string \<times> adb_kind" by (cases p) simp
  ultimately have "size k' \<le> size_list (size_prod (\<lambda>_. 0) size) fs" by (metis size_list_estimation')
  then show ?thesis using Kind_object by simp
qed (auto simp: adb_ro_kind_def)

text \<open>
  Comparing an object, or array, field by field from an index on; both have the same schema. A failed
  assertion is \<open>Fault\<close>.
\<close>

function cmp_from :: "adb_kind \<Rightarrow> adb \<Rightarrow> adb_obj \<Rightarrow> adb \<Rightarrow> adb_obj \<Rightarrow> objcmp \<Rightarrow> nat \<Rightarrow> nat \<Rightarrow> int outcome" where
  "cmp_from k db1 tmpl db2 obj md num i =
     (if num \<le> i then Ret 0
      else
        let is_set = (adb_ro_val tmpl i \<noteq> ADB_NULL);
            rest = (if md = ADB_OBJCMP_INDEX \<and> \<not> is_set then Ret 0
                    else if md \<noteq> ADB_OBJCMP_EXACT \<and> num_compare k \<le> i then Ret 0
                    else cmp_from k db1 tmpl db2 obj md num (i + 1))
        in if md = ADB_OBJCMP_EXACT \<or> is_set then
             (case adb_ro_kind k i of
                None \<Rightarrow> Fault
              | Some (Kind_scalar s) \<Rightarrow>
                  let r = scalar_compare s db1 (adb_ro_val tmpl i) db2 (adb_ro_val obj i) in if r \<noteq> 0 then Ret r else rest
              | Some (Kind_adb _ _) \<Rightarrow> Fault
              | Some k' \<Rightarrow>
                  (let stmpl = adb_ro_obj db1 tmpl i; sobj = adb_ro_obj db2 obj i in
                   case cmp_from k' db1 stmpl db2 sobj md (max (ao_num stmpl) (ao_num sobj)) 1 of
                     Fault \<Rightarrow> Fault
                   | Ret r \<Rightarrow> if r \<noteq> 0 then Ret r else rest))
           else rest)"
  by pat_completeness auto
termination
  by (relation "measures [\<lambda>(k, _). size k, \<lambda>(k, db1, tmpl, db2, obj, md, num, i). num - i]")
    (auto dest: ro_kind_size)

declare cmp_from.simps [simp del]

definition adb_ro_cmpobj :: "adb_kind \<Rightarrow> adb \<Rightarrow> adb_obj \<Rightarrow> adb \<Rightarrow> adb_obj \<Rightarrow> objcmp \<Rightarrow> int outcome" where
  "adb_ro_cmpobj k db1 tmpl db2 obj md = cmp_from k db1 tmpl db2 obj md (max (ao_num tmpl) (ao_num obj)) 1"

text \<open>Comparing one field.\<close>

definition adb_ro_cmp :: "adb_kind \<Rightarrow> adb \<Rightarrow> adb_obj \<Rightarrow> adb \<Rightarrow> adb_obj \<Rightarrow> nat \<Rightarrow> objcmp \<Rightarrow> int outcome" where
  "adb_ro_cmp k db1 tmpl db2 obj i md =
     (case adb_ro_kind k i of
        None \<Rightarrow> Fault
      | Some (Kind_scalar s) \<Rightarrow> Ret (scalar_compare s db1 (adb_ro_val tmpl i) db2 (adb_ro_val obj i))
      | Some (Kind_adb _ _) \<Rightarrow> Fault
      | Some k' \<Rightarrow> adb_ro_cmpobj k' db1 (adb_ro_obj db1 tmpl i) db2 (adb_ro_obj db2 obj i) md)"

section \<open>Searching\<close>

text \<open>
  The search in an array of objects takes the comparison of the template with an item as an argument: the
  first for the order of the array, the second for all fields of the template. The first loop halves the
  range between the ends; the second goes on from there. The result zero stands for \<^verbatim>\<open>-1\<close>.
\<close>

function find_split :: "(nat \<Rightarrow> int outcome) \<Rightarrow> nat \<Rightarrow> nat \<Rightarrow> nat outcome" where
  "find_split icmp l r =
     (if l < r then
        let m = (l + r) div 2 in
        case icmp m of
          Fault \<Rightarrow> Fault
        | Ret c \<Rightarrow> if c < 0 then find_split icmp l m else find_split icmp (m + 1) r
      else Ret r)"
  by pat_completeness auto
termination
  by (relation "measure (\<lambda>(icmp, l, r). r - l)") (auto simp: less_Suc_eq_le div_le_mono)

declare find_split.simps [simp del]

function find_from :: "(nat \<Rightarrow> int outcome) \<Rightarrow> (nat \<Rightarrow> int outcome) \<Rightarrow> nat \<Rightarrow> nat \<Rightarrow> nat outcome" where
  "find_from icmp tcmp n cur =
     (if n < cur then Ret 0
      else
        case tcmp cur of
          Fault \<Rightarrow> Fault
        | Ret c \<Rightarrow>
            if c = 0 then Ret cur
            else
              case icmp cur of
                Fault \<Rightarrow> Fault
              | Ret d \<Rightarrow> if d \<noteq> 0 then Ret 0 else find_from icmp tcmp n (cur + 1))"
  by pat_completeness auto
termination
  by (relation "measure (\<lambda>(icmp, tcmp, n, cur). Suc n - cur)") auto

declare find_from.simps [simp del]

definition item_cmp :: "adb_kind \<Rightarrow> adb \<Rightarrow> adb_obj \<Rightarrow> adb \<Rightarrow> adb_obj \<Rightarrow> objcmp \<Rightarrow> nat \<Rightarrow> int outcome" where
  "item_cmp item tdb tmpl db arr md i = adb_ro_cmpobj item tdb tmpl db (adb_ro_obj db arr i) md"

text \<open>
  The result 0 stands for the \<^verbatim>\<open>-1\<close> of the program; it is also the index 0 that the program can return. The only
  caller takes both as not found.
\<close>

definition adb_ra_find :: "adb_kind \<Rightarrow> adb \<Rightarrow> adb_obj \<Rightarrow> nat \<Rightarrow> adb \<Rightarrow> adb_obj \<Rightarrow> nat outcome" where
  "adb_ra_find k db arr cur tdb tmpl =
     (case k of
        Kind_array _ _ _ (Kind_object nf nc from fs) \<Rightarrow>
          (let item = Kind_object nf nc from fs;
               icmp = item_cmp item tdb tmpl db arr ADB_OBJCMP_INDEX; tcmp = item_cmp item tdb tmpl db arr ADB_OBJCMP_TEMPLATE
           in if cur = 0 then
                (case find_split icmp 1 (adb_ra_num arr + 1) of
                   Fault \<Rightarrow> Fault
                 | Ret r \<Rightarrow> find_from icmp tcmp (adb_ra_num arr) (r - 1))
              else find_from icmp tcmp (adb_ra_num arr) (cur + 1))
      | _ \<Rightarrow> Fault)"

section \<open>Writing objects\<close>

definition adb_wo_init :: "nat \<Rightarrow> adb_obj" where
  "adb_wo_init num_fields =
     \<lparr>ao_obj = Some (word_of_nat num_fields # replicate (num_fields - 1) ADB_NULL), ao_num = 1, ao_dynamic = False\<rparr>"

definition num_fields :: "adb_kind \<Rightarrow> nat" where
  "num_fields k = (case k of Kind_object n _ _ _ \<Rightarrow> n | Kind_array n _ _ _ \<Rightarrow> n | _ \<Rightarrow> 0)"

text \<open>The vector of an object that is written.\<close>

definition ao_vals :: "adb_obj \<Rightarrow> adb_val_t list" where
  "ao_vals o' = (case ao_obj o' of None \<Rightarrow> [] | Some vals \<Rightarrow> vals)"

definition ao_room :: "adb_obj \<Rightarrow> nat" where "ao_room o' = unat (ao_vals o' ! 0)"

definition adb_wo_reset :: "adb_obj \<Rightarrow> adb_obj" where
  "adb_wo_reset o' =
     o'\<lparr>ao_obj := Some ((replicate (ao_num o') ADB_NULL @ drop (ao_num o') (ao_vals o'))[0 := ao_vals o' ! 0]), ao_num := 1\<rparr>"

definition adb_wo_resetdb :: "adb_obj \<Rightarrow> adb \<Rightarrow> adb_obj \<times> adb" where
  "adb_wo_resetdb o' db = (adb_wo_reset o', adb_reset db)"

definition adb_wo_val :: "adb_obj \<Rightarrow> nat \<Rightarrow> adb_val_t \<Rightarrow> (adb_val_t \<times> adb_obj) outcome" where
  "adb_wo_val o' i v =
     (if ao_room o' \<le> i then Fault
      else if ADB_IS_ERROR v then Fault
      else Ret (v, o'\<lparr>ao_obj := Some ((ao_vals o')[i := v]), ao_num := (if v \<noteq> ADB_NULL \<and> ao_num o' \<le> i then i + 1 else ao_num o')\<rparr>))"

text \<open>A value that was written to the database is put into an object.\<close>

definition wo_put :: "adb_obj \<Rightarrow> nat \<Rightarrow> (adb_val_t \<times> adb) outcome \<Rightarrow> (adb_val_t \<times> adb_obj \<times> adb) outcome" where
  "wo_put o' i w =
     (case w of
        Fault \<Rightarrow> Fault
      | Ret (v, db) \<Rightarrow> (case adb_wo_val o' i v of Fault \<Rightarrow> Fault | Ret (v, o') \<Rightarrow> Ret (v, o', db)))"

definition adb_wo_int :: "adb_obj \<Rightarrow> adb \<Rightarrow> nat \<Rightarrow> u64 \<Rightarrow> (adb_val_t \<times> adb_obj \<times> adb) outcome" where
  "adb_wo_int o' db i v = wo_put o' i (adb_w_int db v)"

definition adb_wo_blob :: "adb_obj \<Rightarrow> adb \<Rightarrow> nat \<Rightarrow> blob \<Rightarrow> (adb_val_t \<times> adb_obj \<times> adb) outcome" where
  "adb_wo_blob o' db i b = wo_put o' i (adb_w_blob db b)"

definition adb_wo_blob_raw :: "adb_obj \<Rightarrow> adb \<Rightarrow> nat \<Rightarrow> blob \<Rightarrow> (adb_val_t \<times> adb_obj \<times> adb) outcome" where
  "adb_wo_blob_raw o' db i b = wo_put o' i (adb_w_blob_raw db b)"

definition adb_wa_append :: "adb_obj \<Rightarrow> adb_val_t \<Rightarrow> (adb_val_t \<times> adb_obj) outcome" where
  "adb_wa_append o' v =
     (if ADB_IS_ERROR v then Fault
      else if v = ADB_NULL then Ret (v, o')
      else
        let num = ao_room o';
            o' = (if num \<le> ao_num o'
                  then o'\<lparr>ao_obj := Some ((ao_vals o' @ replicate num ADB_NULL)[0 := word_of_nat (num * 2)]), ao_dynamic := True\<rparr> else o')
        in Ret (v, o'\<lparr>ao_obj := Some ((ao_vals o')[ao_num o' := v]), ao_num := ao_num o' + 1\<rparr>))"

section \<open>Sorting\<close>

definition wacmp :: "adb_kind \<Rightarrow> adb \<Rightarrow> adb_val_t \<Rightarrow> adb_val_t \<Rightarrow> int outcome" where
  "wacmp item db v1 v2 = adb_ro_cmpobj item db (adb_r_obj db v1) db (adb_r_obj db v2) ADB_OBJCMP_EXACT"

text \<open>
  Databases as items are parsed without keys, so neither digests nor signatures are computed; the parser
  that does not end is a \<open>Fault\<close>.
\<close>

definition wadb_open :: "adb \<Rightarrow> adb_val_t \<Rightarrow> adb outcome" where
  "wadb_open db v =
     (let b = blob_bytes (adb_r_blob db v) in
      case adb_m_blob (\<lambda>_ _. Inl APKE_CRYPTO_NOT_SUPPORTED) (\<lambda>(k :: unit) _ _. False) (length b + 1) b None of
        Some (Ret (_, a)) \<Rightarrow> Ret a
      | _ \<Rightarrow> Fault)"

definition wadbcmp :: "adb_kind \<Rightarrow> adb \<Rightarrow> adb_val_t \<Rightarrow> adb_val_t \<Rightarrow> int outcome" where
  "wadbcmp item db v1 v2 =
     (case (wadb_open db v1, wadb_open db v2) of
        (Ret a1, Ret a2) \<Rightarrow> adb_ro_cmpobj item a1 (adb_r_rootobj a1) a2 (adb_r_rootobj a2) ADB_OBJCMP_EXACT
      | _ \<Rightarrow> Fault)"

text \<open>The values of an array are sorted when no comparison fails.\<close>

definition sort_vals :: "(adb_val_t \<Rightarrow> adb_val_t \<Rightarrow> int outcome) \<Rightarrow> adb_val_t list \<Rightarrow> adb_val_t list outcome" where
  "sort_vals cmp vs =
     (if \<exists>a \<in> set vs. \<exists>b \<in> set vs. is_fault (cmp a b) then Fault
      else Ret (qsort (\<lambda>a b. case cmp a b of Ret c \<Rightarrow> c | Fault \<Rightarrow> 0) vs))"

definition sort_arr :: "(adb_val_t \<Rightarrow> adb_val_t \<Rightarrow> int outcome) \<Rightarrow> adb_obj \<Rightarrow> adb_obj outcome" where
  "sort_arr cmp arr =
     (let n = ao_num arr; vs = ao_vals arr in
      case sort_vals cmp (take (n - 1) (tl vs)) of
        Fault \<Rightarrow> Fault
      | Ret s \<Rightarrow> Ret (arr\<lparr>ao_obj := Some (take 1 vs @ s @ drop n vs)\<rparr>))"

text \<open>Arrays of numbers are not sorted.\<close>

definition adb_wa_sort :: "adb_kind \<Rightarrow> adb \<Rightarrow> adb_obj \<Rightarrow> adb_obj outcome" where
  "adb_wa_sort item db arr =
     (case item of
        Kind_scalar s \<Rightarrow>
          if s \<in> {Scalar_int, Scalar_oct, Scalar_hsize} then Ret arr
          else sort_arr (\<lambda>a b. Ret (scalar_compare s db a db b)) arr
      | Kind_object _ _ _ _ \<Rightarrow> sort_arr (wacmp item db) arr
      | Kind_adb _ sub \<Rightarrow> sort_arr (wadbcmp sub db) arr
      | Kind_array _ _ _ _ \<Rightarrow> Ret arr)"

text \<open>Equal neighbours are removed in place; the room behind the last item is left as it is.\<close>

fun unique_loop :: "nat \<Rightarrow> adb_val_t list \<Rightarrow> nat \<Rightarrow> nat \<Rightarrow> adb_val_t list \<times> nat" where
  "unique_loop 0 vs i j = (vs, j)"
| "unique_loop (Suc n) vs i j =
     (if vs ! i = vs ! (i - 1) then unique_loop n vs (i + 1) j
      else unique_loop n (vs[j := vs ! i]) (i + 1) (j + 1))"

definition adb_wa_sort_unique :: "adb_kind \<Rightarrow> adb \<Rightarrow> adb_obj \<Rightarrow> adb_obj outcome" where
  "adb_wa_sort_unique item db arr =
     (case adb_wa_sort item db arr of
        Fault \<Rightarrow> Fault
      | Ret arr \<Rightarrow>
          let num = adb_ra_num arr in
          if 2 \<le> num then
            (case unique_loop (num - 1) (ao_vals arr) 2 2 of
               (vs, j) \<Rightarrow> Ret (arr\<lparr>ao_obj := Some vs, ao_num := j\<rparr>))
          else Ret arr)"

definition pre_commit :: "adb_kind \<Rightarrow> adb \<Rightarrow> adb_obj \<Rightarrow> adb_obj outcome" where
  "pre_commit k db o' =
     (case k of
        Kind_array _ _ Commit_sort item \<Rightarrow> adb_wa_sort item db o'
      | Kind_array _ _ Commit_sort_unique item \<Rightarrow> adb_wa_sort_unique item db o'
      | _ \<Rightarrow> Ret o')"

text \<open>An object is written without the null values at its end, and is empty again.\<close>

definition adb_w_objtype :: "adb_kind \<Rightarrow> adb_obj \<Rightarrow> adb \<Rightarrow> u32 \<Rightarrow> (adb_val_t \<times> adb_obj \<times> adb) outcome" where
  "adb_w_objtype k o' db type =
     (case pre_commit k db o' of
        Fault \<Rightarrow> Fault
      | Ret o' \<Rightarrow>
          (case w_vals db type (take (ao_num o') (ao_vals o')) of
             Fault \<Rightarrow> Fault
           | Ret (v, db) \<Rightarrow> Ret (v, adb_wo_reset o', db)))"

definition adb_w_obj :: "adb_kind \<Rightarrow> adb_obj \<Rightarrow> adb \<Rightarrow> (adb_val_t \<times> adb_obj \<times> adb) outcome" where
  "adb_w_obj k o' db = adb_w_objtype k o' db ADB_TYPE_OBJECT"

definition adb_w_arr :: "adb_kind \<Rightarrow> adb_obj \<Rightarrow> adb \<Rightarrow> (adb_val_t \<times> adb_obj \<times> adb) outcome" where
  "adb_w_arr k o' db = adb_w_objtype k o' db ADB_TYPE_ARRAY"

definition adb_w_rootobj :: "adb_kind \<Rightarrow> adb_obj \<Rightarrow> adb \<Rightarrow> (adb_obj \<times> adb) outcome" where
  "adb_w_rootobj k o' db =
     (case adb_w_obj k o' db of
        Fault \<Rightarrow> Fault
      | Ret (v, o', db) \<Rightarrow> (case adb_w_root db v of Fault \<Rightarrow> Fault | Ret db \<Rightarrow> Ret (o', db)))"

text \<open>An object, or array, as a field of another object: the value, both objects and the database.\<close>

definition adb_wo_obj :: "adb_obj \<Rightarrow> nat \<Rightarrow> adb_kind \<Rightarrow> adb_obj \<Rightarrow> adb \<Rightarrow> (adb_val_t \<times> adb_obj \<times> adb_obj \<times> adb) outcome" where
  "adb_wo_obj o' i nk no db =
     (case adb_w_obj nk no db of
        Fault \<Rightarrow> Fault
      | Ret (v, no, db) \<Rightarrow> (case adb_wo_val o' i v of Fault \<Rightarrow> Fault | Ret (v, o') \<Rightarrow> Ret (v, o', no, db)))"

definition adb_wo_arr :: "adb_obj \<Rightarrow> nat \<Rightarrow> adb_kind \<Rightarrow> adb_obj \<Rightarrow> adb \<Rightarrow> (adb_val_t \<times> adb_obj \<times> adb_obj \<times> adb) outcome" where
  "adb_wo_arr o' i nk no db =
     (case adb_w_arr nk no db of
        Fault \<Rightarrow> Fault
      | Ret (v, no, db) \<Rightarrow> (case adb_wo_val o' i v of Fault \<Rightarrow> Fault | Ret (v, o') \<Rightarrow> Ret (v, o', no, db)))"

definition adb_wa_append_obj :: "adb_obj \<Rightarrow> adb_kind \<Rightarrow> adb_obj \<Rightarrow> adb \<Rightarrow> (adb_val_t \<times> adb_obj \<times> adb_obj \<times> adb) outcome" where
  "adb_wa_append_obj o' nk no db =
     (case adb_w_obj nk no db of
        Fault \<Rightarrow> Fault
      | Ret (v, no, db) \<Rightarrow> (case adb_wa_append o' v of Fault \<Rightarrow> Fault | Ret (v, o') \<Rightarrow> Ret (v, o', no, db)))"

text \<open>The fields of an object are copied from another database; the depth of the values is limited by fuel.\<close>

fun copy_fields :: "nat \<Rightarrow> adb \<Rightarrow> adb_obj \<Rightarrow> nat list \<Rightarrow> adb_obj \<Rightarrow> adb \<Rightarrow> (adb_obj \<times> adb) outcome option" where
  "copy_fields fuel sdb src [] o' db = Some (Ret (o', db))"
| "copy_fields fuel sdb src (i # is) o' db =
     (case adb_w_copy fuel sdb db (adb_ro_val src i) of
        None \<Rightarrow> None
      | Some Fault \<Rightarrow> Some Fault
      | Some (Ret (v, db)) \<Rightarrow>
          (case adb_wo_val o' i v of Fault \<Rightarrow> Some Fault | Ret (_, o') \<Rightarrow> copy_fields fuel sdb src is o' db))"

definition adb_wo_copyobj :: "nat \<Rightarrow> adb_obj \<Rightarrow> adb \<Rightarrow> adb \<Rightarrow> adb_obj \<Rightarrow> (adb_obj \<times> adb) outcome option" where
  "adb_wo_copyobj fuel o' db sdb src = copy_fields fuel sdb src [1..<ao_num src] (adb_wo_reset o') db"

end
