(* ===== verification/Adb_Schema.thy ===== *)
theory Adb_Schema
  imports Adb_Obj
begin

text \<open>
  The schemas of packages, indexes and the installed database (\<^verbatim>\<open>apk_adb.c\<close>), and the conversion between
  text and values.
\<close>

section \<open>Numbers of errors\<close>

definition EINVAL_NO :: nat where "EINVAL_NO = 22"
definition E2BIG_NO :: nat where "E2BIG_NO = 7"
definition APKE_PKGNAME_FORMAT_NO :: nat where "APKE_PKGNAME_FORMAT_NO = 1060"
definition APKE_PKGVERSION_FORMAT_NO :: nat where "APKE_PKGVERSION_FORMAT_NO = 1061"
definition APKE_DEPENDENCY_FORMAT_NO :: nat where "APKE_DEPENDENCY_FORMAT_NO = 1062"
definition APKE_ADB_SCHEMA_NO :: nat where "APKE_ADB_SCHEMA_NO = 1066"
definition APKE_ADB_NO_FROMSTRING_NO :: nat where "APKE_ADB_NO_FROMSTRING_NO = 1070"
definition APKE_ADB_PACKAGE_FORMAT_NO :: nat where "APKE_ADB_PACKAGE_FORMAT_NO = 1072"

definition ADB_ERROR :: "nat \<Rightarrow> adb_val_t" where "ADB_ERROR val = ADB_VAL ADB_TYPE_ERROR val"

section \<open>Numbers as text\<close>

text \<open>The conversions \<^verbatim>\<open>%lu\<close> and \<^verbatim>\<open>%lo\<close> of \<^verbatim>\<open>printf\<close>.\<close>

definition fmt_uint :: "nat \<Rightarrow> nat \<Rightarrow> bytes" where
  "fmt_uint radix n = (if n = 0 then ''0'' else uint_digits radix n)"

definition size_units :: "bytes list" where "size_units = [''B'', ''KiB'', ''MiB'', ''GiB'', ''TiB'']"

text \<open>The factor is an \<^verbatim>\<open>int\<close>: the one of the last unit does not fit and is zero after the wrap-around.\<close>

fun size_unit_loop :: "blob \<Rightarrow> bytes list \<Rightarrow> u32 \<Rightarrow> u32" where
  "size_unit_loop b [] s = 1"
| "size_unit_loop b (u # us) s = (if apk_blob_compare b (Some u) = 0 then s else size_unit_loop b us (s * 1024))"

definition apk_get_human_size_unit :: "blob \<Rightarrow> u32" where
  "apk_get_human_size_unit b = size_unit_loop b size_units 1"

fun human_size_loop :: "nat \<Rightarrow> nat \<Rightarrow> nat \<Rightarrow> nat \<times> nat" where
  "human_size_loop 0 i s = (i, s)"
| "human_size_loop (Suc n) i s = (if 10000 \<le> s then human_size_loop n (i + 1) (s div 1024) else (i, s))"

definition apk_get_human_size :: "nat \<Rightarrow> nat \<times> bytes" where
  "apk_get_human_size sz =
     (case human_size_loop (length size_units) 0 sz of (i, s) \<Rightarrow> (s, size_units ! min i (length size_units - 1)))"

section \<open>Text of values\<close>

definition string_tostring :: "adb \<Rightarrow> adb_val_t \<Rightarrow> nat \<Rightarrow> blob" where
  "string_tostring db v bufsz = adb_r_blob db v"

definition xattr_tostring :: "adb \<Rightarrow> adb_val_t \<Rightarrow> nat \<Rightarrow> blob" where
  "xattr_tostring db v bufsz =
     (case adb_r_blob db v of
        None \<Rightarrow> None
      | Some b \<Rightarrow>
          (case apk_blob_split (Some b) (Some [NUL]) of
             None \<Rightarrow> None
           | Some (k, w) \<Rightarrow>
               (case apk_blob_push_hexdump (apk_blob_push_blob (apk_blob_push_blob (APK_BLOB_BUF bufsz) k) (Some ''='')) w of
                  Some (text, _) \<Rightarrow> Some text
                | None \<Rightarrow> apk_blob_fmt bufsz (blob_bytes k @ ''=('' @ fmt_uint 10 (blob_len w) @ '' bytes)''))))"

definition hexblob_tostring :: "adb \<Rightarrow> adb_val_t \<Rightarrow> nat \<Rightarrow> blob" where
  "hexblob_tostring db v bufsz =
     (case adb_r_blob db v of
        None \<Rightarrow> None
      | Some b \<Rightarrow>
          (case apk_blob_push_hexdump (APK_BLOB_BUF bufsz) (Some b) of
             Some (text, _) \<Rightarrow> Some text
           | None \<Rightarrow> apk_blob_fmt bufsz (''('' @ fmt_uint 10 (length b) @ '' bytes)'')))"

definition int_tostring :: "adb \<Rightarrow> adb_val_t \<Rightarrow> nat \<Rightarrow> blob" where
  "int_tostring db v bufsz = apk_blob_fmt bufsz (fmt_uint 10 (unat (adb_r_int db v)))"

definition oct_tostring :: "adb \<Rightarrow> adb_val_t \<Rightarrow> nat \<Rightarrow> blob" where
  "oct_tostring db v bufsz = apk_blob_fmt bufsz (fmt_uint 8 (unat (adb_r_int db v)))"

definition hsize_tostring :: "adb \<Rightarrow> adb_val_t \<Rightarrow> nat \<Rightarrow> blob" where
  "hsize_tostring db v bufsz =
     (case apk_get_human_size (unat (adb_r_int db v)) of (n, unit) \<Rightarrow> apk_blob_fmt bufsz (fmt_uint 10 n @ '' '' @ unit))"

fun scalar_tostring :: "scalar \<Rightarrow> adb \<Rightarrow> adb_val_t \<Rightarrow> nat \<Rightarrow> blob" where
  "scalar_tostring Scalar_xattr = xattr_tostring"
| "scalar_tostring Scalar_hexblob = hexblob_tostring"
| "scalar_tostring Scalar_int = int_tostring"
| "scalar_tostring Scalar_oct = oct_tostring"
| "scalar_tostring Scalar_hsize = hsize_tostring"
| "scalar_tostring _ = string_tostring"

section \<open>Values of text\<close>

type_synonym wval = "(adb_val_t \<times> adb) outcome"

definition string_fromstring :: "adb \<Rightarrow> blob \<Rightarrow> wval" where
  "string_fromstring db val = adb_w_blob db val"

text \<open>The byte behind the name, which is taken with it, is the separator of the text.\<close>

definition xattr_fromstring :: "adb \<Rightarrow> blob \<Rightarrow> wval" where
  "xattr_fromstring db val =
     (case apk_blob_rsplit val CHR ''='' of
        None \<Rightarrow> Ret (ADB_ERROR APKE_ADB_SCHEMA_NO, db)
      | Some (l, hex) \<Rightarrow>
          if odd (blob_len hex) then Ret (ADB_ERROR EINVAL_NO, db)
          else if blob_len hex div 2 > 256 then Ret (ADB_ERROR E2BIG_NO, db)
          else
            case apk_blob_pull_hexdump hex (replicate (blob_len hex div 2) NUL) of
              Fault \<Rightarrow> Fault
            | Ret (None, _) \<Rightarrow> Ret (ADB_ERROR EINVAL_NO, db)
            | Ret (Some _, out) \<Rightarrow> adb_w_blob_vec db [take (blob_len l + 1) (blob_bytes val), out])"

definition isalnum :: "char \<Rightarrow> bool" where
  "isalnum c \<longleftrightarrow> 48 \<le> code c \<and> code c \<le> 57 \<or> 65 \<le> code c \<and> code c \<le> 90 \<or> 97 \<le> code c \<and> code c \<le> 122"

definition name_fromstring :: "adb \<Rightarrow> blob \<Rightarrow> wval" where
  "name_fromstring db val =
     (if blob_len val = 0 \<or> \<not> isalnum (hd (blob_bytes val)) then Ret (ADB_ERROR APKE_PKGNAME_FORMAT_NO, db)
      else if fst (apk_blob_spn val APK_CTYPE_PACKAGE_NAME) then Ret (ADB_ERROR APKE_PKGNAME_FORMAT_NO, db)
      else adb_w_blob db val)"

definition version_fromstring :: "adb \<Rightarrow> blob \<Rightarrow> wval" where
  "version_fromstring db val =
     (if \<not> apk_version_validate val then Ret (ADB_ERROR APKE_PKGVERSION_FORMAT_NO, db) else adb_w_blob db val)"

definition hexblob_fromstring :: "adb \<Rightarrow> blob \<Rightarrow> wval" where
  "hexblob_fromstring db val =
     (if odd (blob_len val) then Ret (ADB_ERROR EINVAL_NO, db)
      else if blob_len val div 2 > 256 then Ret (ADB_ERROR E2BIG_NO, db)
      else
        case apk_blob_pull_hexdump val (replicate (blob_len val div 2) NUL) of
          Fault \<Rightarrow> Fault
        | Ret (None, _) \<Rightarrow> Ret (ADB_ERROR EINVAL_NO, db)
        | Ret (Some _, out) \<Rightarrow> adb_w_blob db (Some out))"

definition uint_fromstring :: "nat \<Rightarrow> adb \<Rightarrow> blob \<Rightarrow> wval" where
  "uint_fromstring radix db val =
     (case apk_blob_pull_uint val radix of
        (n, rest) \<Rightarrow> if blob_len rest \<noteq> 0 then Ret (ADB_ERROR EINVAL_NO, db) else adb_w_int db n)"

definition int_fromstring :: "adb \<Rightarrow> blob \<Rightarrow> wval" where "int_fromstring = uint_fromstring 10"

definition oct_fromstring :: "adb \<Rightarrow> blob \<Rightarrow> wval" where "oct_fromstring = uint_fromstring 8"

text \<open>The factor, an \<^verbatim>\<open>int\<close>, is extended with its sign.\<close>

definition hsize_fromstring :: "adb \<Rightarrow> blob \<Rightarrow> wval" where
  "hsize_fromstring db val =
     (case apk_blob_split val (Some '' '') of
        None \<Rightarrow> int_fromstring db val
      | Some (l, r) \<Rightarrow> adb_w_int db (fst (apk_blob_pull_uint l 10) * scast (apk_get_human_size_unit r)))"

fun scalar_fromstring :: "scalar \<Rightarrow> adb \<Rightarrow> blob \<Rightarrow> wval" where
  "scalar_fromstring Scalar_xattr = xattr_fromstring"
| "scalar_fromstring Scalar_name = name_fromstring"
| "scalar_fromstring Scalar_version = version_fromstring"
| "scalar_fromstring Scalar_hexblob = hexblob_fromstring"
| "scalar_fromstring Scalar_int = int_fromstring"
| "scalar_fromstring Scalar_oct = oct_fromstring"
| "scalar_fromstring Scalar_hsize = hsize_fromstring"
| "scalar_fromstring _ = string_fromstring"

section \<open>Dependencies\<close>

definition ADBI_DEP_NAME :: nat where "ADBI_DEP_NAME = 1"
definition ADBI_DEP_VERSION :: nat where "ADBI_DEP_VERSION = 2"
definition ADBI_DEP_MATCH :: nat where "ADBI_DEP_MATCH = 3"
definition ADBI_DEP_MAX :: nat where "ADBI_DEP_MAX = 4"

definition schema_dependency :: adb_kind where
  "schema_dependency =
     Kind_object ADBI_DEP_MAX ADBI_DEP_NAME From_dependency
       [(''name'', Kind_scalar Scalar_string), (''version'', Kind_scalar Scalar_version), (''match'', Kind_scalar Scalar_int)]"

definition schema_dependency_array :: adb_kind where
  "schema_dependency_array = Kind_array 32 From_dependencies Commit_sort_unique schema_dependency"

definition dependency_tostring :: "adb \<Rightarrow> adb_obj \<Rightarrow> nat \<Rightarrow> blob" where
  "dependency_tostring db obj bufsz =
     (let name = adb_ro_blob db obj ADBI_DEP_NAME; ver = adb_ro_blob db obj ADBI_DEP_VERSION;
          m = unat (ucast (adb_ro_int db obj ADBI_DEP_MATCH) :: u32);
          op = (if adb_ro_int db obj ADBI_DEP_MATCH \<noteq> 0 then m else APK_VERSION_EQUAL);
          conflict = (op AND APK_VERSION_CONFLICT \<noteq> 0)
      in if name = None then None
         else if ver = None then (if conflict then apk_blob_fmt bufsz (''!'' @ blob_bytes name) else name)
         else apk_blob_fmt bufsz ((if conflict then ''!'' else []) @ blob_bytes name @ apk_version_op_string op @ blob_bytes ver))"

text \<open>The result zero is \<open>None\<close>, an error is its number.\<close>

type_synonym from_res = "(nat option \<times> adb_obj \<times> adb) outcome"

definition dependency_fromstring :: "adb_obj \<Rightarrow> adb \<Rightarrow> blob \<Rightarrow> from_res" where
  "dependency_fromstring obj db bdep =
     (case apk_dep_parse bdep of
        None \<Rightarrow> Ret (Some APKE_DEPENDENCY_FORMAT_NO, obj, db)
      | Some (bname, op, bver) \<Rightarrow>
          if op AND APK_DEPMASK_CHECKSUM \<noteq> APK_DEPMASK_CHECKSUM \<and> \<not> apk_version_validate bver
          then Ret (Some APKE_DEPENDENCY_FORMAT_NO, obj, db)
          else if fst (apk_blob_spn bname APK_CTYPE_DEPENDENCY_NAME) then Ret (Some APKE_DEPENDENCY_FORMAT_NO, obj, db)
          else
            case adb_wo_blob obj db ADBI_DEP_NAME bname of
              Fault \<Rightarrow> Fault
            | Ret (_, obj, db) \<Rightarrow>
                if op = APK_DEPMASK_ANY then Ret (None, obj, db)
                else
                  (case adb_wo_blob obj db ADBI_DEP_VERSION bver of
                     Fault \<Rightarrow> Fault
                   | Ret (_, obj, db) \<Rightarrow>
                       if op = APK_VERSION_EQUAL then Ret (None, obj, db)
                       else
                         (case adb_wo_int obj db ADBI_DEP_MATCH (word_of_nat op) of
                            Fault \<Rightarrow> Fault
                          | Ret (_, obj, db) \<Rightarrow> Ret (None, obj, db))))"

definition apk_dep_split :: "blob \<Rightarrow> (blob \<times> blob) option" where
  "apk_dep_split b =
     (if blob_len b = 0 then None
      else
        let b = snd (snd (apk_blob_spn b APK_CTYPE_DEPENDENCY_SEPARATOR)) in
        case apk_blob_cspn b APK_CTYPE_DEPENDENCY_SEPARATOR of
          (_, bdep, b) \<Rightarrow> if blob_len bdep \<noteq> 0 then Some (bdep, b) else None)"

lemma dep_split_shorter: "apk_dep_split b = Some (bdep, b') \<Longrightarrow> blob_len b' < blob_len b"
proof -
  assume a: "apk_dep_split b = Some (bdep, b')"
  let ?p = "in_ctype APK_CTYPE_DEPENDENCY_SEPARATOR" and ?xs = "blob_bytes b"
  obtain xs where b: "b = Some xs" using a by (cases b) (auto simp: apk_dep_split_def blob_len_def blob_bytes_def)
  have d: "blob_bytes bdep = takeWhile (\<lambda>c. \<not> ?p c) (dropWhile ?p xs)" "blob_bytes b' = dropWhile (\<lambda>c. \<not> ?p c) (dropWhile ?p xs)" "bdep \<noteq> None \<longrightarrow> blob_bytes bdep \<noteq> []"
    "blob_len bdep \<noteq> 0"
    using a b by (auto simp: apk_dep_split_def apk_blob_spn_def apk_blob_cspn_def blob_bytes_def blob_len_def comp_def Let_def split: if_splits option.splits)
  have len: "0 < length (takeWhile (\<lambda>c. \<not> ?p c) (dropWhile ?p xs))" using d(1,4) by (simp add: blob_len_def)
  have "length (takeWhile (\<lambda>c. \<not> ?p c) (dropWhile ?p xs)) + length (dropWhile (\<lambda>c. \<not> ?p c) (dropWhile ?p xs)) = length (dropWhile ?p xs)"
    by (metis length_append takeWhile_dropWhile_id)
  moreover have "length (dropWhile ?p xs) \<le> length xs" by (rule length_dropWhile_le)
  ultimately have "length (dropWhile (\<lambda>c. \<not> ?p c) (dropWhile ?p xs)) < length xs" using len by linarith
  then show ?thesis using d(2) b by (simp add: blob_len_def blob_bytes_def)
qed

text \<open>A text that is wrong leaves the dependencies before it in the array.\<close>

function deps_loop :: "adb_obj \<Rightarrow> adb_obj \<Rightarrow> adb \<Rightarrow> blob \<Rightarrow> from_res" where
  "deps_loop arr dep db b =
     (case apk_dep_split b of
        None \<Rightarrow> Ret (None, arr, db)
      | Some (bdep, b) \<Rightarrow>
          (case dependency_fromstring (adb_wo_reset dep) db bdep of
             Fault \<Rightarrow> Fault
           | Ret (Some e, dep, db) \<Rightarrow> Ret (Some e, arr, db)
           | Ret (None, dep, db) \<Rightarrow>
               (case adb_wa_append_obj arr schema_dependency dep db of
                  Fault \<Rightarrow> Fault
                | Ret (_, arr, dep, db) \<Rightarrow> deps_loop arr dep db b)))"
  by pat_completeness auto
termination
  by (relation "measure (\<lambda>(arr, dep, db, b). blob_len b)") (auto dest: dep_split_shorter)

declare deps_loop.simps [simp del]

definition dependencies_fromstring :: "adb_obj \<Rightarrow> adb \<Rightarrow> blob \<Rightarrow> from_res" where
  "dependencies_fromstring obj db b = deps_loop obj (adb_wo_init ADBI_DEP_MAX) db b"

fun tags_loop :: "adb_obj \<Rightarrow> adb \<Rightarrow> bytes list \<Rightarrow> from_res" where
  "tags_loop obj db [] = Ret (None, obj, db)"
| "tags_loop obj db (w # ws) =
     (if fst (apk_blob_spn (Some w) APK_CTYPE_TAG_NAME) then Ret (Some APKE_ADB_PACKAGE_FORMAT_NO, obj, db)
      else
        case string_fromstring db (Some w) of
          Fault \<Rightarrow> Fault
        | Ret (v, db) \<Rightarrow> (case adb_wa_append obj v of Fault \<Rightarrow> Fault | Ret (_, obj) \<Rightarrow> tags_loop obj db ws))"

definition tags_fromstring :: "adb_obj \<Rightarrow> adb \<Rightarrow> blob \<Rightarrow> from_res" where
  "tags_fromstring obj db str = tags_loop obj db (blob_words CHR '' '' str)"

section \<open>Conversion by schema\<close>

fun object_fromstring :: "obj_fromstring \<Rightarrow> adb_obj \<Rightarrow> adb \<Rightarrow> blob \<Rightarrow> from_res" where
  "object_fromstring From_none obj db b = Fault"
| "object_fromstring From_tags obj db b = tags_fromstring obj db b"
| "object_fromstring From_dependency obj db b = dependency_fromstring obj db b"
| "object_fromstring From_dependencies obj db b = dependencies_fromstring obj db b"

definition kind_fromstring :: "adb_kind \<Rightarrow> obj_fromstring" where
  "kind_fromstring k = (case k of Kind_object _ _ f _ \<Rightarrow> f | Kind_array _ f _ _ \<Rightarrow> f | _ \<Rightarrow> From_none)"

definition adb_wo_fromstring :: "adb_kind \<Rightarrow> adb_obj \<Rightarrow> adb \<Rightarrow> blob \<Rightarrow> from_res" where
  "adb_wo_fromstring k obj db val = object_fromstring (kind_fromstring k) (adb_wo_reset obj) db val"

text \<open>Arrays, too, become objects here.\<close>

definition adb_w_fromstring :: "adb \<Rightarrow> adb_kind \<Rightarrow> blob \<Rightarrow> wval" where
  "adb_w_fromstring db k val =
     (case k of
        Kind_scalar s \<Rightarrow> scalar_fromstring s db val
      | Kind_adb _ _ \<Rightarrow> Ret (ADB_ERROR APKE_ADB_NO_FROMSTRING_NO, db)
      | _ \<Rightarrow>
          if kind_fromstring k = From_none then Ret (ADB_ERROR APKE_ADB_NO_FROMSTRING_NO, db)
          else
            case object_fromstring (kind_fromstring k) (adb_wo_init (num_fields k)) db val of
              Fault \<Rightarrow> Fault
            | Ret (Some e, _, db) \<Rightarrow> Ret (ADB_ERROR e, db)
            | Ret (None, obj, db) \<Rightarrow>
                (case adb_w_obj k obj db of Fault \<Rightarrow> Fault | Ret (v, _, db) \<Rightarrow> Ret (v, db)))"

definition adb_wo_val_fromstring :: "adb_kind \<Rightarrow> adb_obj \<Rightarrow> adb \<Rightarrow> nat \<Rightarrow> blob \<Rightarrow> (adb_val_t \<times> adb_obj \<times> adb) outcome" where
  "adb_wo_val_fromstring k o' db i val =
     (if ao_room o' \<le> i then Fault
      else
        case adb_ro_kind k i of
          None \<Rightarrow> Fault
        | Some fk \<Rightarrow>
            (case adb_w_fromstring db fk val of
               Fault \<Rightarrow> Fault
             | Ret (v, db) \<Rightarrow>
                 Ret (v, o'\<lparr>ao_obj := Some ((ao_vals o')[i := v]), ao_num := (if ao_num o' \<le> i then i + 1 else ao_num o')\<rparr>, db)))"

definition adb_wa_append_fromstring :: "adb_kind \<Rightarrow> adb_obj \<Rightarrow> adb \<Rightarrow> blob \<Rightarrow> (adb_val_t \<times> adb_obj \<times> adb) outcome" where
  "adb_wa_append_fromstring item o' db b =
     (case adb_w_fromstring db item b of
        Fault \<Rightarrow> Fault
      | Ret (v, db) \<Rightarrow> (case adb_wa_append o' v of Fault \<Rightarrow> Fault | Ret (v, o') \<Rightarrow> Ret (v, o', db)))"

section \<open>Fields by name\<close>

fun field_by_name :: "(bytes \<Rightarrow> bool) \<Rightarrow> (string \<times> adb_kind) list \<Rightarrow> nat \<Rightarrow> nat" where
  "field_by_name eq [] i = 0"
| "field_by_name eq ((name, _) # fs) i = (if eq name then i + 1 else field_by_name eq fs (i + 1))"

definition kind_fields :: "adb_kind \<Rightarrow> (string \<times> adb_kind) list" where
  "kind_fields k = (case k of Kind_object nf _ _ fs \<Rightarrow> take (nf - 1) fs | _ \<Rightarrow> [])"

definition adb_s_field_by_name_blob :: "adb_kind \<Rightarrow> blob \<Rightarrow> nat" where
  "adb_s_field_by_name_blob k b = field_by_name (\<lambda>name. apk_blob_compare (Some name) b = 0) (kind_fields k) 0"

definition adb_s_field_by_name :: "adb_kind \<Rightarrow> bytes \<Rightarrow> nat" where
  "adb_s_field_by_name k name = field_by_name (\<lambda>n. n = name) (kind_fields k) 0"

definition adb_s_field_subst :: "adb_kind \<Rightarrow> adb \<Rightarrow> adb_obj \<Rightarrow> resolver" where
  "adb_s_field_subst k db obj var to =
     (let f = adb_s_field_by_name_blob k var in
      if f = 0 then (Some APKE_ADB_SCHEMA, to)
      else
        case adb_ro_kind k f of
          Some (Kind_scalar s) \<Rightarrow>
            (case to of
               None \<Rightarrow> (Some ENOBUFS, None)
             | Some (done, free) \<Rightarrow>
                 let text = scalar_tostring s db (adb_ro_val obj f) free in
                 if free < blob_len text then (Some ENOBUFS, to)
                 else (None, Some (done @ blob_bytes text, free - blob_len text)))
        | _ \<Rightarrow> (Some APKE_ADB_SCHEMA, to))"

section \<open>The schemas\<close>

definition schema_tags_array :: adb_kind where
  "schema_tags_array = Kind_array 32 From_tags Commit_none (Kind_scalar Scalar_string)"

definition schema_string_array :: adb_kind where
  "schema_string_array = Kind_array 32 From_none Commit_none (Kind_scalar Scalar_string)"

definition schema_xattr_array :: adb_kind where
  "schema_xattr_array = Kind_array 8 From_none Commit_sort (Kind_scalar Scalar_xattr)"

definition ADBI_PI_HASHES :: nat where "ADBI_PI_HASHES = 3"
definition ADBI_PI_REPO_COMMIT :: nat where "ADBI_PI_REPO_COMMIT = 10"
definition ADBI_PI_FILE_SIZE :: nat where "ADBI_PI_FILE_SIZE = 13"
definition ADBI_PI_MAX :: nat where "ADBI_PI_MAX = 22"

definition schema_pkginfo :: adb_kind where
  "schema_pkginfo =
     Kind_object ADBI_PI_MAX ADBI_PI_HASHES From_none
       [(''name'', Kind_scalar Scalar_name), (''version'', Kind_scalar Scalar_version), (''hashes'', Kind_scalar Scalar_hexblob),
        (''description'', Kind_scalar Scalar_string), (''arch'', Kind_scalar Scalar_string), (''license'', Kind_scalar Scalar_string),
        (''origin'', Kind_scalar Scalar_string), (''maintainer'', Kind_scalar Scalar_string), (''url'', Kind_scalar Scalar_string),
        (''repo-commit'', Kind_scalar Scalar_hexblob), (''build-time'', Kind_scalar Scalar_int),
        (''installed-size'', Kind_scalar Scalar_hsize), (''file-size'', Kind_scalar Scalar_hsize),
        (''provider-priority'', Kind_scalar Scalar_int), (''depends'', schema_dependency_array),
        (''provides'', schema_dependency_array), (''replaces'', schema_dependency_array), (''install-if'', schema_dependency_array),
        (''recommends'', schema_dependency_array), (''layer'', Kind_scalar Scalar_int), (''tags'', schema_tags_array)]"

definition schema_pkginfo_array :: adb_kind where
  "schema_pkginfo_array = Kind_array 128 From_none Commit_sort schema_pkginfo"

definition schema_index :: adb_kind where
  "schema_index =
     Kind_object 4 0 From_none
       [(''description'', Kind_scalar Scalar_string), (''packages'', schema_pkginfo_array), (''pkgname-spec'', Kind_scalar Scalar_string)]"

definition schema_acl :: adb_kind where
  "schema_acl =
     Kind_object 5 0 From_none
       [(''mode'', Kind_scalar Scalar_oct), (''user'', Kind_scalar Scalar_string), (''group'', Kind_scalar Scalar_string),
        (''xattrs'', schema_xattr_array)]"

definition schema_file :: adb_kind where
  "schema_file =
     Kind_object 7 1 From_none
       [(''name'', Kind_scalar Scalar_string), (''acl'', schema_acl), (''size'', Kind_scalar Scalar_int), (''mtime'', Kind_scalar Scalar_int),
        (''hash'', Kind_scalar Scalar_hexblob), (''target'', Kind_scalar Scalar_hexblob)]"

definition schema_file_array :: adb_kind where
  "schema_file_array = Kind_array 128 From_none Commit_sort schema_file"

definition schema_dir :: adb_kind where
  "schema_dir =
     Kind_object 4 1 From_none [(''name'', Kind_scalar Scalar_string), (''acl'', schema_acl), (''files'', schema_file_array)]"

definition schema_dir_array :: adb_kind where
  "schema_dir_array = Kind_array 128 From_none Commit_sort schema_dir"

definition schema_scripts :: adb_kind where
  "schema_scripts =
     Kind_object 8 0 From_none
       [(''trigger'', Kind_scalar Scalar_mstring), (''pre-install'', Kind_scalar Scalar_mstring), (''post-install'', Kind_scalar Scalar_mstring),
        (''pre-deinstall'', Kind_scalar Scalar_mstring), (''post-deinstall'', Kind_scalar Scalar_mstring),
        (''pre-upgrade'', Kind_scalar Scalar_mstring), (''post-upgrade'', Kind_scalar Scalar_mstring)]"

definition schema_package :: adb_kind where
  "schema_package =
     Kind_object 6 1 From_none
       [(''info'', schema_pkginfo), (''paths'', schema_dir_array), (''scripts'', schema_scripts), (''triggers'', schema_string_array),
        (''replaces-priority'', Kind_scalar Scalar_int)]"

definition ADB_SCHEMA_INDEX :: u32 where "ADB_SCHEMA_INDEX = 0x78646e69"
definition ADB_SCHEMA_PACKAGE :: u32 where "ADB_SCHEMA_PACKAGE = 0x676b6370"
definition ADB_SCHEMA_INSTALLED_DB :: u32 where "ADB_SCHEMA_INSTALLED_DB = 0x00626469"

definition schema_package_adb :: adb_kind where
  "schema_package_adb = Kind_adb ADB_SCHEMA_PACKAGE schema_package"

definition schema_package_adb_array :: adb_kind where
  "schema_package_adb_array = Kind_array 128 From_none Commit_sort schema_package_adb"

definition schema_idb :: adb_kind where
  "schema_idb = Kind_object 2 0 From_none [(''packages'', schema_package_adb_array)]"

definition adb_all_schemas :: "(u32 \<times> adb_kind) list" where
  "adb_all_schemas = [(ADB_SCHEMA_INDEX, schema_index), (ADB_SCHEMA_INSTALLED_DB, schema_idb), (ADB_SCHEMA_PACKAGE, schema_package)]"

section \<open>Fields of the old index\<close>

text \<open>The digest and the buffer start with whatever the stack holds.\<close>

definition adb_wo_pkginfo :: "apk_digest \<Rightarrow> bytes \<Rightarrow> adb_obj \<Rightarrow> adb \<Rightarrow> nat \<Rightarrow> blob \<Rightarrow> (adb_val_t \<times> adb_obj \<times> adb) outcome" where
  "adb_wo_pkginfo digest buf obj db f val =
     (let put = (\<lambda>w. case w of
            Fault \<Rightarrow> Fault
          | Ret (v, db) \<Rightarrow>
              if v \<noteq> ADB_NULL \<and> \<not> ADB_IS_ERROR v
              then (case adb_wo_val obj f v of Fault \<Rightarrow> Fault | Ret (v, obj) \<Rightarrow> Ret (v, obj, db)) else Ret (v, obj, db));
          bad = ADB_ERROR APKE_ADB_PACKAGE_FORMAT_NO
      in if f = ADBI_PI_HASHES then
           (if val = None \<or> blob_len val < 4 then Ret (bad, obj, db)
            else case apk_blob_pull_digest val digest of Fault \<Rightarrow> Fault | Ret (_, d) \<Rightarrow> put (adb_w_blob db (APK_DIGEST_BLOB d)))
         else if f = ADBI_PI_REPO_COMMIT then
           (if blob_len val < 40 then Ret (bad, obj, db)
            else
              case apk_blob_pull_hexdump val (take 20 buf) of
                Fault \<Rightarrow> Fault
              | Ret (None, _) \<Rightarrow> Ret (bad, obj, db)
              | Ret (Some _, out) \<Rightarrow> put (adb_w_blob db (Some out)))
         else adb_wo_val_fromstring schema_pkginfo obj db f val)"

text \<open>The fields by their letters, from \<^verbatim>\<open>A\<close> on.\<close>

definition pkg_field_map :: "(char \<times> nat) list" where
  "pkg_field_map =
     [(CHR ''C'', 3), (CHR ''P'', 1), (CHR ''V'', 2), (CHR ''T'', 4), (CHR ''U'', 9), (CHR ''I'', 12), (CHR ''S'', 13), (CHR ''L'', 6),
      (CHR ''A'', 5), (CHR ''D'', 15), (CHR ''i'', 18), (CHR ''p'', 16), (CHR ''k'', 14), (CHR ''o'', 7), (CHR ''m'', 8), (CHR ''t'', 11),
      (CHR ''c'', 10), (CHR ''g'', 21), (CHR ''r'', 17)]"

definition adb_pkg_field_index :: "char \<Rightarrow> nat" where
  "adb_pkg_field_index f =
     (if code f < 65 \<or> code f - 65 \<ge> 52 then 0 else case map_of pkg_field_map f of None \<Rightarrow> 0 | Some i \<Rightarrow> i)"

end
