(* ===== verification/Adb_Object.thy ===== *)
theory Adb_Object
  imports Adb_Schema Adb_Write
begin

text \<open>
  Objects and arrays of the binary database: what is put into an object is read back, searching and sorting.
\<close>

section \<open>Objects that are written\<close>

text \<open>The vector has the room that its first entry says, and everything behind the entries in use is null.\<close>

definition obj_ok :: "adb_obj \<Rightarrow> bool" where
  "obj_ok o' \<longleftrightarrow> ao_obj o' \<noteq> None \<and> length (ao_vals o') = ao_room o' \<and> 1 \<le> ao_num o' \<and> ao_num o' \<le> ao_room o' \<and>
     (\<forall>i. ao_num o' \<le> i \<and> i < ao_room o' \<longrightarrow> ao_vals o' ! i = ADB_NULL)"

lemma obj_ok_vals: "obj_ok o' \<Longrightarrow> ao_obj o' = Some (ao_vals o')"
  by (auto simp: obj_ok_def ao_vals_def)

lemma wo_init_ok: "0 < n \<Longrightarrow> n < 2 ^ 32 \<Longrightarrow> obj_ok (adb_wo_init n)"
  by (auto simp: obj_ok_def adb_wo_init_def ao_vals_def ao_room_def unsigned_of_nat take_bit_nat_eq_self nth_Cons')

lemma wo_val_spec:
  assumes "obj_ok o'" "0 < i" "i < ao_room o'" "\<not> ADB_IS_ERROR v"
  obtains o2 where "adb_wo_val o' i v = Ret (v, o2)" "obj_ok o2" "ao_room o2 = ao_room o'"
    "\<And>j. adb_ro_val o2 j = (if j = i then v else adb_ro_val o' j)"
proof -
  define o2 where "o2 = o'\<lparr>ao_obj := Some ((ao_vals o')[i := v]), ao_num := (if v \<noteq> ADB_NULL \<and> ao_num o' \<le> i then i + 1 else ao_num o')\<rparr>"
  have vals: "ao_vals o2 = (ao_vals o')[i := v]" by (simp add: o2_def ao_vals_def)
  have room: "ao_room o2 = ao_room o'" using assms(2) by (simp add: ao_room_def vals)
  have ok: "length (ao_vals o') = ao_room o'" "1 \<le> ao_num o'" "ao_num o' \<le> ao_room o'"
    "\<And>j. ao_num o' \<le> j \<Longrightarrow> j < ao_room o' \<Longrightarrow> ao_vals o' ! j = ADB_NULL" using assms(1) by (auto simp: obj_ok_def)
  have num: "ao_num o2 = (if v \<noteq> ADB_NULL \<and> ao_num o' \<le> i then i + 1 else ao_num o')" by (simp add: o2_def)
  have "obj_ok o2" unfolding obj_ok_def room vals
    using ok assms(3) by (auto simp: num o2_def nth_list_update split: if_splits)
  moreover have "adb_ro_val o2 j = (if j = i then v else adb_ro_val o' j)" for j
    using ok assms(3) obj_ok_vals [OF assms(1)] by (auto simp: adb_ro_val_def num o2_def nth_list_update split: if_splits)
  ultimately show thesis using that [of o2] assms(3,4) room by (simp add: adb_wo_val_def o2_def)
qed

lemma wo_reset_ok:
  assumes "obj_ok o'"
  shows "obj_ok (adb_wo_reset o')" "ao_room (adb_wo_reset o') = ao_room o'" "adb_ro_val (adb_wo_reset o') i = (if i = 0 then adb_ro_val o' 0 else ADB_NULL)"
proof -
  have ok: "length (ao_vals o') = ao_room o'" "1 \<le> ao_num o'" "ao_num o' \<le> ao_room o'" "ao_obj o' = Some (ao_vals o')"
    "\<And>j. ao_num o' \<le> j \<Longrightarrow> j < ao_room o' \<Longrightarrow> ao_vals o' ! j = ADB_NULL" using assms obj_ok_vals by (auto simp: obj_ok_def)
  have vals: "ao_vals (adb_wo_reset o') = (replicate (ao_num o') ADB_NULL @ drop (ao_num o') (ao_vals o'))[0 := ao_vals o' ! 0]"
    by (simp add: adb_wo_reset_def ao_vals_def)
  have room: "ao_room (adb_wo_reset o') = ao_room o'" using ok by (simp add: ao_room_def vals nth_append)
  have null: "ao_vals (adb_wo_reset o') ! j = ADB_NULL" if "1 \<le> j" "j < ao_room o'" for j
    using that ok by (simp add: vals nth_list_update nth_append)
  show "ao_room (adb_wo_reset o') = ao_room o'" by (rule room)
  show "obj_ok (adb_wo_reset o')" using ok null room by (simp add: obj_ok_def vals) (simp add: adb_wo_reset_def)
  show "adb_ro_val (adb_wo_reset o') i = (if i = 0 then adb_ro_val o' 0 else ADB_NULL)"
    using ok by (simp add: adb_ro_val_def adb_wo_reset_def nth_append)
qed

text \<open>The entries in use without the null values at the end.\<close>

lemma strip_nulls:
  assumes "\<exists>v \<in> set vs. v \<noteq> ADB_NULL"
  obtains ws k where "vs = ws @ replicate k ADB_NULL" "ws \<noteq> []" "last ws \<noteq> ADB_NULL"
proof -
  define ws where "ws = rev (dropWhile (\<lambda>v. v = ADB_NULL) (rev vs))"
  define ns where "ns = takeWhile (\<lambda>v. v = ADB_NULL) (rev vs)"
  have "rev vs = ns @ rev ws" by (simp add: ws_def ns_def)
  then have "vs = ws @ rev ns" by (metis rev_append rev_rev_ident)
  moreover have "rev ns = replicate (length ns) ADB_NULL"
    by (intro replicate_eqI) (auto simp: ns_def dest: set_takeWhileD)
  moreover have "ws \<noteq> []" using assms by (simp add: ws_def dropWhile_eq_Nil_conv)
  moreover have "last ws \<noteq> ADB_NULL" using \<open>ws \<noteq> []\<close> hd_dropWhile [of "\<lambda>v. v = ADB_NULL" "rev vs"] by (simp add: ws_def last_rev)
  ultimately show thesis using that by metis
qed

text \<open>Writing an object and reading it back.\<close>

lemma w_obj_spec:
  assumes ok: "writer_ok db" "obj_ok o'" and k: "pre_commit k db o' = Ret o'" and type: "type \<in> {ADB_TYPE_OBJECT, ADB_TYPE_ARRAY}"
    and some: "\<exists>i \<ge> 1. adb_ro_val o' i \<noteq> ADB_NULL" and fits: "room db (11 + 4 * ao_num o')"
  obtains v db' where "adb_w_objtype k o' db type = Ret (v, adb_wo_reset o', db')" "grows_to db db'"
    "\<forall>i \<ge> 1. adb_ro_val (adb_r_obj db' v) i = adb_ro_val o' i"
    "length (adb_bytes db') \<le> length (adb_bytes db) + (11 + 4 * ao_num o')"
proof -
  let ?vs = "take (ao_num o' - 1) (tl (ao_vals o'))"
  have o: "length (ao_vals o') = ao_room o'" "1 \<le> ao_num o'" "ao_num o' \<le> ao_room o'" "ao_obj o' = Some (ao_vals o')"
    using ok(2) obj_ok_vals by (auto simp: obj_ok_def)
  have val: "adb_ro_val o' i = (if i \<le> length ?vs then ?vs ! (i - 1) else ADB_NULL)" if "1 \<le> i" for i
    using that o by (auto simp: adb_ro_val_def nth_tl)
  obtain i where "1 \<le> i" "adb_ro_val o' i \<noteq> ADB_NULL" using some by blast
  then have "i - 1 < length ?vs" "?vs ! (i - 1) \<noteq> ADB_NULL" using val [of i] by (auto split: if_splits)
  then have "\<exists>v \<in> set ?vs. v \<noteq> ADB_NULL" using nth_mem by blast
  then obtain ws n where ws: "?vs = ws @ replicate n ADB_NULL" "ws \<noteq> []" "last ws \<noteq> ADB_NULL" by (rule strip_nulls)
  have lw: "length ws + n = ao_num o' - 1" using arg_cong [OF ws(1), of length] o by simp
  have tk: "take (ao_num o') (ao_vals o') = hd (ao_vals o') # ws @ replicate n ADB_NULL"
    using o ws(1) by (cases "ao_vals o'"; cases "ao_num o'") auto
  have "room db (11 + 4 * length ws)" using fits lw by (simp add: room_def)
  then obtain v db' where w: "w_vals db type (hd (ao_vals o') # ws @ replicate n ADB_NULL) = Ret (v, db')" "grows_to db db'"
    "vals_at db' v type ws" "length (adb_bytes db') \<le> length (adb_bytes db) + (11 + 4 * length ws)"
    using w_vals_spec [OF ok(1) type ws(2,3)] by blast
  have "adb_w_objtype k o' db type = Ret (v, adb_wo_reset o', db')" using k w(1) by (simp add: adb_w_objtype_def tk)
  moreover have "adb_ro_val (adb_r_obj db' v) i = adb_ro_val o' i" if "1 \<le> i" for i
  proof -
    have "adb_ro_val (adb_r_obj db' v) i = (if i \<le> length ws then ws ! (i - 1) else ADB_NULL)"
      using that by (auto simp: adb_r_obj_def r_vals_at [OF w(3)] adb_ro_val_def nth_Cons')
    also have "\<dots> = adb_ro_val o' i" using val [OF that] that lw unfolding ws(1) by (auto simp: nth_append)
    finally show ?thesis .
  qed
  ultimately show thesis using that w(2,4) lw by simp
qed

section \<open>Comparing with a template\<close>

lemma cmp_from_unfold:
  "cmp_from k db1 tmpl db2 obj md num i =
     (if num \<le> i then Ret 0
      else
        let rest = (if md = ADB_OBJCMP_INDEX \<and> adb_ro_val tmpl i = ADB_NULL then Ret 0
                    else if md \<noteq> ADB_OBJCMP_EXACT \<and> num_compare k \<le> i then Ret 0
                    else cmp_from k db1 tmpl db2 obj md num (i + 1))
        in if md = ADB_OBJCMP_EXACT \<or> adb_ro_val tmpl i \<noteq> ADB_NULL then
             (case adb_ro_cmp k db1 tmpl db2 obj i md of Fault \<Rightarrow> Fault | Ret r \<Rightarrow> if r \<noteq> 0 then Ret r else rest)
           else rest)"
  by (subst cmp_from.simps) (simp add: adb_ro_cmp_def adb_ro_cmpobj_def Let_def split: option.split adb_kind.split)

text \<open>What matches all fields of a template also matches the fields that order the array.\<close>

lemma cmp_template_index:
  "adb_ro_cmpobj k db1 tmpl db2 obj ADB_OBJCMP_TEMPLATE = Ret 0 \<Longrightarrow> adb_ro_cmpobj k db1 tmpl db2 obj ADB_OBJCMP_INDEX = Ret 0"
proof (induction k arbitrary: tmpl obj rule: measure_induct_rule [of size])
  case (less k)
  have field: "adb_ro_cmp k db1 tmpl db2 obj i ADB_OBJCMP_INDEX = Ret 0" if "adb_ro_cmp k db1 tmpl db2 obj i ADB_OBJCMP_TEMPLATE = Ret 0" for i
    using that less.IH [OF ro_kind_size] by (fastforce simp: adb_ro_cmp_def split: option.splits adb_kind.splits)
  have "cmp_from k db1 tmpl db2 obj ADB_OBJCMP_TEMPLATE num i = Ret 0 \<Longrightarrow> cmp_from k db1 tmpl db2 obj ADB_OBJCMP_INDEX num i = Ret 0" for num i
  proof (induction "num - i" arbitrary: i)
    case 0
    then show ?case by (subst cmp_from_unfold) simp
  next
    case (Suc n)
    have step: "cmp_from k db1 tmpl db2 obj ADB_OBJCMP_TEMPLATE num (i + 1) = Ret 0 \<Longrightarrow> cmp_from k db1 tmpl db2 obj ADB_OBJCMP_INDEX num (i + 1) = Ret 0"
      using Suc.hyps by simp
    have i: "\<not> num \<le> i" using Suc.hyps(2) by simp
    have t: "cmp_from k db1 tmpl db2 obj ADB_OBJCMP_TEMPLATE num i = Ret 0" by (rule Suc.prems)
    show ?case
    proof (cases "adb_ro_val tmpl i = ADB_NULL")
      case True
      then show ?thesis by (subst cmp_from_unfold) simp
    next
      case False
      then have "adb_ro_cmp k db1 tmpl db2 obj i ADB_OBJCMP_TEMPLATE = Ret 0"
        "num_compare k \<le> i \<or> cmp_from k db1 tmpl db2 obj ADB_OBJCMP_TEMPLATE num (i + 1) = Ret 0"
        using t i by (subst (asm) cmp_from_unfold; auto split: outcome.splits if_splits)+
      then show ?thesis using field step i False by (subst cmp_from_unfold) auto
    qed
  qed
  then show ?case using less.prems by (simp add: adb_ro_cmpobj_def)
qed

text \<open>Fields of the template behind the fields to compare have no influence.\<close>

lemma cmp_nulls:
  assumes "\<forall>j. i \<le> j \<and> j \<le> num_compare k \<longrightarrow> adb_ro_val tmpl j = ADB_NULL" "i \<le> num_compare k" "md \<noteq> ADB_OBJCMP_EXACT"
  shows "cmp_from k db1 tmpl db2 obj md num i = Ret 0"
  using assms
proof (induction "num_compare k - i" arbitrary: i)
  case 0
  then show ?case by (subst cmp_from_unfold) simp
next
  case (Suc n)
  then have "cmp_from k db1 tmpl db2 obj md num (i + 1) = Ret 0" "adb_ro_val tmpl i = ADB_NULL" by simp_all
  then show ?case using Suc.prems(3) by (subst cmp_from_unfold) simp
qed

lemma cmp_template_ignores:
  assumes same: "\<forall>i \<le> num_compare k. adb_ro_val tmpl' i = adb_ro_val tmpl i" and k: "0 < num_compare k" and md: "md \<noteq> ADB_OBJCMP_EXACT"
  shows "adb_ro_cmpobj k db1 tmpl' db2 obj md = adb_ro_cmpobj k db1 tmpl db2 obj md"
proof -
  have field: "adb_ro_cmp k db1 tmpl' db2 obj i m = adb_ro_cmp k db1 tmpl db2 obj i m" if "i \<le> num_compare k" for i m
    using same that by (simp add: adb_ro_cmp_def adb_ro_obj_def split: option.split adb_kind.split)
  have "cmp_from k db1 tmpl' db2 obj md num' i = cmp_from k db1 tmpl db2 obj md num i"
    if "i \<le> num_compare k" "ao_num tmpl \<le> num" "ao_num tmpl' \<le> num'" for i num num'
    using that(1)
  proof (induction "num_compare k - i" arbitrary: i rule: less_induct)
    case less
    show ?case
    proof (cases "num \<le> i \<or> num' \<le> i")
      case True
      have "adb_ro_val tmpl j = ADB_NULL \<and> adb_ro_val tmpl' j = ADB_NULL" if j: "i \<le> j" "j \<le> num_compare k" for j
      proof -
        have "adb_ro_val tmpl j = ADB_NULL \<or> adb_ro_val tmpl' j = ADB_NULL"
          using True \<open>ao_num tmpl \<le> num\<close> \<open>ao_num tmpl' \<le> num'\<close> j(1) by (auto simp: adb_ro_val_def)
        then show ?thesis using same j(2) by auto
      qed
      then show ?thesis using cmp_nulls [of i k _ md] less.prems md by simp
    next
      case False
      then have i: "\<not> num \<le> i" "\<not> num' \<le> i" by simp_all
      have v: "adb_ro_val tmpl' i = adb_ro_val tmpl i" using same less.prems by simp
      have f: "adb_ro_cmp k db1 tmpl' db2 obj i md = adb_ro_cmp k db1 tmpl db2 obj i md" using field less.prems by simp
      show ?thesis
      proof (cases "i = num_compare k")
        case True
        then show ?thesis using i v f md by (subst (1 2) cmp_from_unfold) (simp add: Let_def)
      next
        case False
        then have "cmp_from k db1 tmpl' db2 obj md num' (i + 1) = cmp_from k db1 tmpl db2 obj md num (i + 1)"
          using less.prems by (intro less.hyps) simp_all
        then show ?thesis using i v f
          by (subst (1 2) cmp_from_unfold) (simp only: Let_def if_False refl split: outcome.split)
      qed
    qed
  qed
  from this [of 1 "max (ao_num tmpl) (ao_num obj)" "max (ao_num tmpl') (ao_num obj)"] show ?thesis
    using k by (simp add: adb_ro_cmpobj_def)
qed

section \<open>Searching\<close>

lemma find_split_spec:
  assumes "\<forall>i. l \<le> i \<and> i < r \<longrightarrow> icmp i = Ret (c i)" "\<forall>i j. l \<le> i \<and> i \<le> j \<and> j < r \<and> c i < 0 \<longrightarrow> c j < (0 :: int)" "l \<le> r"
  shows "\<exists>p. find_split icmp l r = Ret p \<and> l \<le> p \<and> p \<le> r \<and> (\<forall>i. l \<le> i \<and> i < p \<longrightarrow> 0 \<le> c i) \<and> (\<forall>i. p \<le> i \<and> i < r \<longrightarrow> c i < 0)"
  using assms
proof (induction icmp l r rule: find_split.induct)
  case (1 icmp l r)
  show ?case
  proof (cases "l < r")
    case True
    let ?m = "(l + r) div 2"
    have m: "l \<le> ?m" "?m < r" using True by linarith+
    have cm: "icmp ?m = Ret (c ?m)" using 1(3) m by blast
    show ?thesis
    proof (cases "c ?m < 0")
      case neg: True
      have "\<exists>p. find_split icmp l ?m = Ret p \<and> l \<le> p \<and> p \<le> ?m \<and> (\<forall>i. l \<le> i \<and> i < p \<longrightarrow> 0 \<le> c i) \<and> (\<forall>i. p \<le> i \<and> i < ?m \<longrightarrow> c i < 0)"
        by (rule 1(1) [OF True refl cm neg]) (use 1(3-5) m in auto)
      then obtain p where p: "find_split icmp l ?m = Ret p" "l \<le> p" "p \<le> ?m" "\<forall>i. l \<le> i \<and> i < p \<longrightarrow> 0 \<le> c i" "\<forall>i. p \<le> i \<and> i < ?m \<longrightarrow> c i < 0" by blast
      have "c i < 0" if "p \<le> i" "i < r" for i using p(5) 1(4) m neg that by (cases "i < ?m") (auto simp: not_less)
      then show ?thesis using p m True cm neg by (subst find_split.simps) (auto intro!: exI [of _ p])
    next
      case pos: False
      have mono: "c j < 0" if "?m + 1 \<le> i" "i \<le> j" "j < r" "c i < 0" for i j
      proof -
        have "l \<le> i" using that(1) m(1) by linarith
        then show ?thesis using 1(4) that by blast
      qed
      have "\<exists>p. find_split icmp (?m + 1) r = Ret p \<and> ?m + 1 \<le> p \<and> p \<le> r \<and> (\<forall>i. ?m + 1 \<le> i \<and> i < p \<longrightarrow> 0 \<le> c i) \<and> (\<forall>i. p \<le> i \<and> i < r \<longrightarrow> c i < 0)"
        by (rule 1(2) [OF True refl cm pos]) (use 1(3) mono m in auto)
      then obtain p where p: "find_split icmp (?m + 1) r = Ret p" "?m + 1 \<le> p" "p \<le> r" "\<forall>i. ?m + 1 \<le> i \<and> i < p \<longrightarrow> 0 \<le> c i" "\<forall>i. p \<le> i \<and> i < r \<longrightarrow> c i < 0" by blast
      have "0 \<le> c i" if "l \<le> i" "i < p" for i using p(4) 1(4) m pos that by (cases "?m + 1 \<le> i") (force simp: not_le less_Suc_eq_le)+
      then show ?thesis using p m True cm pos by (subst find_split.simps) (auto intro!: exI [of _ p])
    qed
  next
    case False
    then show ?thesis using 1(5) by (subst find_split.simps) auto
  qed
qed

text \<open>
  The search starts at the last item that is not behind the template: it returns this item, when all fields
  of the template match, and otherwise nothing.
\<close>

lemma find_last:
  assumes icmp: "\<forall>i. 1 \<le> i \<and> i \<le> n \<longrightarrow> icmp i = Ret (c i)" and tcmp: "\<forall>i. 1 \<le> i \<and> i \<le> n \<longrightarrow> tcmp i = Ret (t i)"
    and mono: "\<forall>i j. 1 \<le> i \<and> i \<le> j \<and> j \<le> n \<and> c i < 0 \<longrightarrow> c j < (0 :: int)"
    and sub: "\<forall>i. 1 \<le> i \<and> i \<le> n \<and> t i = (0 :: int) \<longrightarrow> c i = 0"
    and last: "1 \<le> l" "l \<le> n" "0 \<le> c l" "l < n \<longrightarrow> c (l + 1) < 0"
  shows "\<exists>r. find_split icmp 1 (n + 1) = Ret r \<and> find_from icmp tcmp n (r - 1) = Ret (if t l = 0 then l else 0)"
proof -
  have "\<exists>p. find_split icmp 1 (n + 1) = Ret p \<and> 1 \<le> p \<and> p \<le> n + 1 \<and> (\<forall>i. 1 \<le> i \<and> i < p \<longrightarrow> 0 \<le> c i) \<and>
      (\<forall>i. p \<le> i \<and> i < n + 1 \<longrightarrow> c i < 0)"
    by (rule find_split_spec) (use icmp mono in \<open>auto simp: less_Suc_eq_le\<close>)
  then obtain p where p: "find_split icmp 1 (n + 1) = Ret p" "1 \<le> p" "p \<le> n + 1" "\<forall>i. 1 \<le> i \<and> i < p \<longrightarrow> 0 \<le> c i"
    "\<forall>i. p \<le> i \<and> i < n + 1 \<longrightarrow> c i < 0" by blast
  have "l < p"
  proof (rule ccontr)
    assume "\<not> l < p"
    then have "c l < 0" using p(5) last(2) by simp
    then show False using last(3) by simp
  qed
  moreover have "\<not> l + 1 < p"
  proof
    assume a: "l + 1 < p"
    then have "0 \<le> c (l + 1)" using p(4) by simp
    then show False using a p(3) last(4) by simp
  qed
  ultimately have pl: "p - 1 = l" by simp
  have stop: "find_from icmp tcmp n (l + 1) = Ret 0"
  proof (cases "l < n")
    case True
    then have "icmp (l + 1) = Ret (c (l + 1))" "tcmp (l + 1) = Ret (t (l + 1))" "c (l + 1) < 0" "t (l + 1) \<noteq> 0"
      using icmp tcmp sub last(4) by force+
    then show ?thesis using True by (subst find_from.simps) simp
  qed (subst find_from.simps, simp)
  have "find_from icmp tcmp n l = Ret (if t l = 0 then l else 0)"
    using icmp tcmp last(1,2) stop by (subst find_from.simps) simp
  then show ?thesis using p(1) pl by simp
qed

section \<open>Sorting\<close>

lemma remdups_adj_Cons_tl: "remdups_adj (x # xs) = x # tl (remdups_adj (x # xs))"
  by (cases "remdups_adj (x # xs)") (auto dest: arg_cong [of _ _ hd])

text \<open>The loop in place keeps the first of every run of equal values.\<close>

lemma unique_loop_spec:
  assumes "1 \<le> j" "j \<le> i" "i + n \<le> length vs"
  shows "\<exists>us m. unique_loop n vs i j = (us, m) \<and> length us = length vs \<and> m \<le> length vs \<and>
    take m us = take j vs @ tl (remdups_adj (take (Suc n) (drop (i - 1) vs)))"
  using assms
proof (induction n arbitrary: vs i j)
  case 0
  have "take 1 (drop (i - 1) vs) = [] \<or> (\<exists>x. take 1 (drop (i - 1) vs) = [x])" by (cases "drop (i - 1) vs") auto
  then show ?case using 0 by auto
next
  case (Suc n)
  let ?a = "vs ! (i - 1)" and ?b = "vs ! i" and ?rest = "take n (drop (i + 1) vs)"
  have i: "1 \<le> i" "i < length vs" using Suc.prems by linarith+
  have d: "drop (i - 1) vs = ?a # drop i vs" "drop i vs = ?b # drop (i + 1) vs"
    using Cons_nth_drop_Suc [of "i - 1" vs] Cons_nth_drop_Suc [of i vs] i by simp_all
  have l: "take (Suc (Suc n)) (drop (i - 1) vs) = ?a # ?b # ?rest" "take (Suc n) (drop i vs) = ?b # ?rest" using d by simp_all
  show ?case
  proof (cases "?b = ?a")
    case True
    have "unique_loop (Suc n) vs i j = unique_loop n vs (i + 1) j" using True by simp
    moreover have "tl (remdups_adj (?a # ?b # ?rest)) = tl (remdups_adj (?b # ?rest))" using True by simp
    ultimately show ?thesis using Suc.IH [of j "i + 1" vs] Suc.prems l by simp
  next
    case False
    let ?vs = "vs[j := ?b]"
    have "drop i ?vs = drop i vs"
    proof (cases "j = i")
      case False
      then show ?thesis using Suc.prems(2) by simp
    qed simp
    moreover have "take (j + 1) ?vs = take j vs @ [?b]" using Suc.prems i by (simp add: take_Suc_conv_app_nth)
    moreover have "tl (remdups_adj (?a # ?b # ?rest)) = ?b # tl (remdups_adj (?b # ?rest))"
      using False remdups_adj_Cons_tl [of ?b ?rest] by simp
    moreover have "unique_loop (Suc n) vs i j = unique_loop n ?vs (i + 1) (j + 1)" using False by simp
    ultimately show ?thesis using Suc.IH [of "j + 1" "i + 1" ?vs] Suc.prems l by simp
  qed
qed

definition items :: "adb_obj \<Rightarrow> adb_val_t list" where "items o' = take (ao_num o' - 1) (tl (ao_vals o'))"

lemma sort_unique_items:
  assumes "adb_wa_sort item db arr = Ret s" "ao_num s \<le> length (ao_vals s)" "adb_wa_sort_unique item db arr = Ret u"
  shows "items u = remdups_adj (items s)"
proof (cases "2 \<le> adb_ra_num s")
  case False
  then have "u = s" using assms by (simp add: adb_wa_sort_unique_def)
  moreover have "length (items s) \<le> 1" using False by (simp add: items_def adb_ra_num_def split: if_splits)
  then have "remdups_adj (items s) = items s" by (cases "items s") auto
  ultimately show ?thesis by simp
next
  case True
  let ?n = "ao_num s" and ?vs = "ao_vals s"
  have n: "3 \<le> ?n" "adb_ra_num s = ?n - 1" using True by (auto simp: adb_ra_num_def split: if_splits)
  have "\<exists>us m. unique_loop (?n - 2) ?vs 2 2 = (us, m) \<and> length us = length ?vs \<and> m \<le> length ?vs \<and>
    take m us = take 2 ?vs @ tl (remdups_adj (take (Suc (?n - 2)) (drop (2 - 1) ?vs)))"
    by (rule unique_loop_spec) (use n assms(2) in auto)
  then obtain us m where us: "unique_loop (?n - 2) ?vs 2 2 = (us, m)" "length us = length ?vs" "m \<le> length ?vs"
    "take m us = take 2 ?vs @ tl (remdups_adj (take (Suc (?n - 2)) (drop 1 ?vs)))" by auto
  obtain x y zs where vs: "?vs = x # y # zs" using n(1) assms(2) by (cases ?vs; cases "tl ?vs") auto
  obtain q where q: "?n - 1 = Suc q" "?n - 2 = q" "Suc (?n - 2) = Suc q" using n(1) by (intro that [of "?n - 2"]) simp_all
  have it: "items s = y # take q zs" unfolding items_def vs q(1) by simp
  have "take m us = x # y # tl (remdups_adj (items s))" using us(4) unfolding q(3) by (simp add: vs it numeral_2_eq_2)
  also have "\<dots> = x # remdups_adj (items s)" using remdups_adj_Cons_tl [of y "take q zs"] by (simp add: it)
  finally have "take m us = x # remdups_adj (items s)" .
  moreover have "u = s\<lparr>ao_obj := Some us, ao_num := m\<rparr>"
    using assms(1,3) us(1) True n(2) by (simp add: adb_wa_sort_unique_def Let_def numeral_2_eq_2)
  ultimately show ?thesis using us(2,3) by (cases us; cases m) (auto simp: items_def ao_vals_def)
qed

section \<open>Fields\<close>

lemma not_error: "ADB_VAL_TYPE v \<in> val_types \<Longrightarrow> \<not> ADB_IS_ERROR v"
  by (auto simp: ADB_IS_ERROR_def val_types_def type_defs)

lemma at_types: "blob_at db v xs \<Longrightarrow> ADB_VAL_TYPE v \<in> val_types" "int_at db v n \<Longrightarrow> ADB_VAL_TYPE v \<in> val_types"
  by (auto simp: blob_at_def int_at_def)

lemma blob_at_grows: "blob_at db v xs \<Longrightarrow> grows_to db db' \<Longrightarrow> blob_at db' v xs"
  using stored_prefix unfolding blob_at_def grows_to_def by blast

lemma int_at_grows: "int_at db v n \<Longrightarrow> grows_to db db' \<Longrightarrow> int_at db' v n"
  using stored_prefix unfolding int_at_def grows_to_def by blast

lemma wo_blob_spec:
  assumes "writer_ok db" "obj_ok o'" "0 < i" "i < ao_room o'" "xs \<noteq> []" "room db (11 + length xs)"
  obtains v o2 db2 where "adb_wo_blob o' db i (Some xs) = Ret (v, o2, db2)" "obj_ok o2" "ao_room o2 = ao_room o'" "grows_to db db2"
    "blob_at db2 v xs" "\<forall>j. adb_ro_val o2 j = (if j = i then v else adb_ro_val o' j)"
    "length (adb_bytes db2) \<le> length (adb_bytes db) + (11 + length xs)"
proof -
  have r: "length [xs] \<le> 4" "concat [xs] \<noteq> []" "room db (11 + length (concat [xs]))" using assms(5,6) by simp_all
  obtain v db2 where w: "adb_w_blob_vec db [xs] = Ret (v, db2)" "grows_to db db2" "blob_at db2 v (concat [xs])"
    "length (adb_bytes db2) \<le> length (adb_bytes db) + (11 + length (concat [xs]))"
    by (rule w_blob_vec_spec [OF assms(1) r])
  have "\<not> ADB_IS_ERROR v" using not_error at_types(1) w(3) by blast
  then obtain o2 where o2: "adb_wo_val o' i v = Ret (v, o2)" "obj_ok o2" "ao_room o2 = ao_room o'"
    "\<And>j. adb_ro_val o2 j = (if j = i then v else adb_ro_val o' j)"
    using wo_val_spec [OF assms(2-4)] by blast
  have "adb_wo_blob o' db i (Some xs) = Ret (v, o2, db2)"
    using w(1) o2(1) by (simp add: adb_wo_blob_def wo_put_def adb_w_blob_def blob_bytes_def)
  then show thesis using that [of v o2 db2] o2(2-4) w(2-4) by simp
qed

lemma wo_int_spec:
  assumes "writer_ok db" "obj_ok o'" "0 < i" "i < ao_room o'" "room db 15"
  obtains v o2 db2 where "adb_wo_int o' db i n = Ret (v, o2, db2)" "obj_ok o2" "ao_room o2 = ao_room o'" "grows_to db db2"
    "int_at db2 v n" "\<forall>j. adb_ro_val o2 j = (if j = i then v else adb_ro_val o' j)"
    "length (adb_bytes db2) \<le> length (adb_bytes db) + 15"
proof -
  obtain v db2 where w: "adb_w_int db n = Ret (v, db2)" "grows_to db db2" "int_at db2 v n"
    "length (adb_bytes db2) \<le> length (adb_bytes db) + 15" by (rule w_int_spec [OF assms(1,5)])
  have "\<not> ADB_IS_ERROR v" using not_error at_types(2) w(3) by blast
  then obtain o2 where o2: "adb_wo_val o' i v = Ret (v, o2)" "obj_ok o2" "ao_room o2 = ao_room o'"
    "\<And>j. adb_ro_val o2 j = (if j = i then v else adb_ro_val o' j)"
    using wo_val_spec [OF assms(2-4)] by blast
  have "adb_wo_int o' db i n = Ret (v, o2, db2)" using w(1) o2(1) by (simp add: adb_wo_int_def wo_put_def)
  then show thesis using that [of v o2 db2] o2(2-4) w(2-4) by simp
qed

text \<open>A field is null or has a value; the empty string is the null value.\<close>

definition blob_field :: "adb \<Rightarrow> adb_val_t \<Rightarrow> bytes \<Rightarrow> bool" where
  "blob_field db v xs \<longleftrightarrow> (if xs = [] then v = ADB_NULL else blob_at db v xs)"

definition int_field :: "adb \<Rightarrow> adb_val_t \<Rightarrow> nat \<Rightarrow> bool" where
  "int_field db v n \<longleftrightarrow> (if n = 0 then v = ADB_NULL else int_at db v (word_of_nat n))"

lemma field_grows: "blob_field db v xs \<Longrightarrow> grows_to db db' \<Longrightarrow> blob_field db' v xs" "int_field db v n \<Longrightarrow> grows_to db db' \<Longrightarrow> int_field db' v n"
  using blob_at_grows int_at_grows by (auto simp: blob_field_def int_field_def)

lemma null_not_error: "\<not> ADB_IS_ERROR ADB_NULL"
  by (simp add: ADB_IS_ERROR_def ADB_NULL_def ADB_VAL_TYPE_def type_defs)

lemma read_null: "adb_r_blob db ADB_NULL = None" "adb_r_int db ADB_NULL = 0"
  by (simp_all add: adb_r_blob_def adb_r_blob_ptr_def adb_r_int_def ADB_NULL_def ADB_VAL_TYPE_def type_defs)

lemma read_field:
  "blob_field db (adb_ro_val o' i) xs \<Longrightarrow> adb_ro_blob db o' i = (if xs = [] then None else Some xs)"
  "int_field db (adb_ro_val o' i) n \<Longrightarrow> n < 2 ^ 64 \<Longrightarrow> adb_ro_int db o' i = word_of_nat n"
  by (auto simp: adb_ro_blob_def adb_ro_int_def blob_field_def int_field_def r_blob_at r_int_at read_null split: if_splits)

lemma wo_blob_field:
  assumes "writer_ok db" "obj_ok o'" "0 < i" "i < ao_room o'" "room db (11 + length (blob_bytes b))"
  obtains v o2 db2 where "adb_wo_blob o' db i b = Ret (v, o2, db2)" "obj_ok o2" "ao_room o2 = ao_room o'" "grows_to db db2"
    "blob_field db2 v (blob_bytes b)" "\<forall>j. adb_ro_val o2 j = (if j = i then v else adb_ro_val o' j)"
    "length (adb_bytes db2) \<le> length (adb_bytes db) + (11 + length (blob_bytes b))"
proof (cases "blob_bytes b = []")
  case True
  obtain o2 where o2: "adb_wo_val o' i ADB_NULL = Ret (ADB_NULL, o2)" "obj_ok o2" "ao_room o2 = ao_room o'"
    "\<And>j. adb_ro_val o2 j = (if j = i then ADB_NULL else adb_ro_val o' j)"
    using wo_val_spec [OF assms(2-4) null_not_error] by blast
  have "adb_wo_blob o' db i b = Ret (ADB_NULL, o2, db)"
    using True o2(1) by (simp add: adb_wo_blob_def wo_put_def adb_w_blob_def adb_w_blob_vec_def)
  then show thesis using that [of ADB_NULL o2 db] o2(2-4) grows_to_refl [OF assms(1)] True by (simp add: blob_field_def)
next
  case False
  then obtain xs where b: "b = Some xs" "xs \<noteq> []" "blob_bytes b = xs" by (cases b) (auto simp: blob_bytes_def)
  have "room db (11 + length xs)" using assms(5) b(3) by simp
  then show thesis using wo_blob_spec [OF assms(1-4) b(2)] that b by (metis blob_field_def)
qed

lemma init_fields: "adb_ro_val (adb_wo_init n) i = ADB_NULL" if "0 < i" "i < n"
  using that by (simp add: adb_ro_val_def adb_wo_init_def)

section \<open>Dependencies\<close>

text \<open>The fields of the object of a dependency.\<close>

definition dep_match :: "apk_dependency \<Rightarrow> nat" where
  "dep_match d = (if dep_op d = APK_DEPMASK_ANY \<or> dep_op d = APK_VERSION_EQUAL then 0 else dep_op d)"

lemma dependency_fields:
  assumes db: "writer_ok db" and d: "dep_wf d" "\<not> dep_broken d" "\<forall>c \<in> set (the (dep_name d)). in_ctype APK_CTYPE_DEPENDENCY_NAME c"
    and fits: "room db (100 + length (dep_text d))"
  obtains o2 db2 where "dependency_fromstring (adb_wo_init ADBI_DEP_MAX) db (Some (dep_text d)) = Ret (None, o2, db2)"
    "obj_ok o2" "ao_room o2 = 4" "grows_to db db2" "blob_field db2 (adb_ro_val o2 1) (the (dep_name d))"
    "blob_field db2 (adb_ro_val o2 2) (dep_version d)" "int_field db2 (adb_ro_val o2 3) (dep_match d)"
    "length (adb_bytes db2) \<le> length (adb_bytes db) + (40 + length (dep_text d))"
proof -
  let ?o = "adb_wo_init ADBI_DEP_MAX" and ?n = "the (dep_name d)" and ?v = "dep_version d"
  define bv where "bv = (if ?v = [] then None else Some ?v)"
  have len: "length ?n + length ?v \<le> length (dep_text d)" by (simp add: dep_text_def)
  have o: "obj_ok ?o" "ao_room ?o = 4" "\<And>i. 0 < i \<Longrightarrow> i < 4 \<Longrightarrow> adb_ro_val ?o i = ADB_NULL"
    using wo_init_ok [of 4] init_fields [of _ 4] by (simp_all add: ADBI_DEP_MAX_def adb_wo_init_def ao_room_def ao_vals_def)
  have op: "dep_op d < 32" using d(1) by (simp add: dep_wf_def)
  have valid: "\<not> (dep_op d AND APK_DEPMASK_CHECKSUM \<noteq> APK_DEPMASK_CHECKSUM \<and> \<not> apk_version_validate bv)"
    using d(1,2) op_string_any [OF _ op] op_string_printable [OF _ op] by (auto simp: dep_wf_def dep_base_op bv_def split: if_splits)
  have spn: "\<not> fst (apk_blob_spn (Some ?n) APK_CTYPE_DEPENDENCY_NAME)" using spn_split [of ?n APK_CTYPE_DEPENDENCY_NAME "[]"] d(3) by simp
  have bb: "blob_bytes (Some ?n) = ?n" "blob_bytes bv = ?v" by (simp_all add: blob_bytes_def bv_def)
  obtain u1 o1 db1 where w1: "adb_wo_blob ?o db 1 (Some ?n) = Ret (u1, o1, db1)" "obj_ok o1" "ao_room o1 = ao_room ?o" "grows_to db db1"
    "blob_field db1 u1 ?n" "\<forall>j. adb_ro_val o1 j = (if j = 1 then u1 else adb_ro_val ?o j)"
    "length (adb_bytes db1) \<le> length (adb_bytes db) + (11 + length ?n)"
    using wo_blob_field [OF db o(1), of 1 "Some ?n"] o(2) fits len bb by (auto simp: room_def)
  have ok1: "writer_ok db1" using w1(4) by (simp add: grows_to_def)
  obtain u2 o2 db2 where w2: "adb_wo_blob o1 db1 2 bv = Ret (u2, o2, db2)" "obj_ok o2" "ao_room o2 = ao_room o1" "grows_to db1 db2"
    "blob_field db2 u2 ?v" "\<forall>j. adb_ro_val o2 j = (if j = 2 then u2 else adb_ro_val o1 j)"
    "length (adb_bytes db2) \<le> length (adb_bytes db1) + (11 + length ?v)"
    using wo_blob_field [OF ok1 w1(2), of 2 bv] w1(3,7) o(2) fits len unfolding bb by (auto simp: room_def)
  have ok2: "writer_ok db2" using w2(4) by (simp add: grows_to_def)
  obtain u3 o3 db3 where w3: "adb_wo_int o2 db2 3 (word_of_nat (dep_op d)) = Ret (u3, o3, db3)" "obj_ok o3" "ao_room o3 = ao_room o2" "grows_to db2 db3"
    "int_at db3 u3 (word_of_nat (dep_op d))" "\<forall>j. adb_ro_val o3 j = (if j = 3 then u3 else adb_ro_val o2 j)"
    "length (adb_bytes db3) \<le> length (adb_bytes db2) + 15"
    using wo_int_spec [OF ok2 w2(2), of 3 "word_of_nat (dep_op d)"] w1(3,7) w2(3,7) o(2) fits len by (auto simp: room_def)
  have parse: "apk_dep_parse (Some (dep_text d)) = Some (Some ?n, dep_op d, bv)" using dep_parse_text [OF d(1)] by (simp add: bv_def)
  have run: "dependency_fromstring ?o db (Some (dep_text d)) =
      Ret (None, if dep_op d = APK_DEPMASK_ANY then (o1, db1) else if dep_op d = APK_VERSION_EQUAL then (o2, db2) else (o3, db3))"
    using valid spn w1(1) w2(1) w3(1)
    by (simp add: dependency_fromstring_def parse ADBI_DEP_NAME_def ADBI_DEP_VERSION_def ADBI_DEP_MATCH_def)
  note grow = grows_to_trans [OF w1(4) w2(4)] grows_to_trans [OF grows_to_trans [OF w1(4) w2(4)] w3(4)] grows_to_trans [OF w2(4) w3(4)]
  consider (any) "dep_op d = APK_DEPMASK_ANY" | (eq) "dep_op d = APK_VERSION_EQUAL" "dep_op d \<noteq> APK_DEPMASK_ANY"
    | (op) "dep_op d \<noteq> APK_DEPMASK_ANY" "dep_op d \<noteq> APK_VERSION_EQUAL" by blast
  then show thesis
  proof cases
    case any
    have "?v = []" using any d(1) by (auto simp: dep_wf_def dep_base_op op_base_cases printable_ops_def version_consts split: if_splits)
    then show thesis using that [of o1 db1] run any w1 o len by (simp add: blob_field_def int_field_def dep_match_def)
  next
    case eq
    then show thesis using that [of o2 db2] run w1 w2 o len grow(1) field_grows(1) [OF w1(5) w2(4)]
      by (simp add: int_field_def dep_match_def)
  next
    case op
    then have "dep_op d \<noteq> 0" using d(1) by (auto simp: dep_wf_def dep_base_op op_base_cases printable_ops_def version_consts split: if_splits)
    then show thesis using that [of o3 db3] op run w1 w2 w3 o len grow(2) field_grows(1) [OF w1(5) grow(3)] field_grows(1) [OF w2(5) w3(4)]
      by (simp add: int_field_def dep_match_def)
  qed
qed

text \<open>The text of an object whose fields are those of a dependency.\<close>

lemma dep_match_op:
  assumes "dep_wf d"
  shows "(if dep_match d = 0 then APK_VERSION_EQUAL else dep_match d) = (if dep_op d = APK_DEPMASK_ANY then APK_VERSION_EQUAL else dep_op d)"
    "dep_match d < 32"
  using assms by (auto simp: dep_match_def dep_wf_def dep_base_op op_base_def printable_ops_def version_consts split: if_splits)

lemma blob_fmt_fits: "length xs < n \<Longrightarrow> apk_blob_fmt n xs = Some xs"
  by (simp add: apk_blob_fmt_def vsnprintf_stored_def)

lemma dependency_text:
  assumes d: "dep_wf d" and f: "blob_field db (adb_ro_val obj 1) (the (dep_name d))" "blob_field db (adb_ro_val obj 2) (dep_version d)"
    "int_field db (adb_ro_val obj 3) (dep_match d)" and n: "length (dep_text d) < n"
  shows "dependency_tostring db obj n = Some (dep_text d)"
proof -
  let ?op = "if dep_match d = 0 then APK_VERSION_EQUAL else dep_match d"
  note op = dep_match_op [OF d]
  have name: "the (dep_name d) \<noteq> []" using d by (auto simp: dep_wf_def)
  have r: "adb_ro_blob db obj 1 = Some (the (dep_name d))" "adb_ro_blob db obj 2 = (if dep_version d = [] then None else Some (dep_version d))"
    "adb_ro_int db obj 3 = word_of_nat (dep_match d)"
    using read_field(1) [OF f(1)] read_field(1) [OF f(2)] read_field(2) [OF f(3)] op(2) name by simp_all
  have m: "word_of_nat (dep_match d) = (0 :: u64) \<longleftrightarrow> dep_match d = 0" "unat (ucast (word_of_nat (dep_match d) :: u64) :: u32) = dep_match d"
    using op(2) by (simp_all add: word_of_nat_eq_0_iff unsigned_ucast_eq unsigned_of_nat take_bit_nat_eq_self) (auto dest: dvd_imp_le)
  have lt: "dep_op d < 32" using d by (simp add: dep_wf_def)
  show ?thesis
  proof (cases "dep_version d = []")
    case True
    then have any: "op_base (dep_op d) = APK_DEPMASK_ANY" using d by (simp add: dep_wf_def dep_base_op)
    then have "dep_op d = 7 \<or> dep_op d = 23" using op_base_cases [OF lt] by (auto simp: version_consts split: if_splits)
    then show ?thesis
    proof
      assume o': "dep_op d = 7"
      then have "dep_match d = 0" "dep_text d = the (dep_name d)" using op_string_any [OF any lt] True
        by (simp_all add: dep_match_def dep_text_def apk_dep_conflict_def version_consts)
      then show ?thesis using r True by (simp add: dependency_tostring_def ADBI_DEP_NAME_def ADBI_DEP_VERSION_def ADBI_DEP_MATCH_def version_consts)
    next
      assume o': "dep_op d = 23"
      then have "dep_match d = 23" "dep_text d = ''!'' @ the (dep_name d)" using op_string_any [OF any lt] True
        by (simp_all add: dep_match_def dep_text_def apk_dep_conflict_def version_consts)
      then show ?thesis using r True m blob_fmt_fits [OF n]
        by (simp add: dependency_tostring_def ADBI_DEP_NAME_def ADBI_DEP_VERSION_def ADBI_DEP_MATCH_def version_consts blob_bytes_def)
    qed
  next
    case False
    then have "op_base (dep_op d) \<in> printable_ops" using d by (simp add: dep_wf_def dep_base_op)
    then have "dep_op d \<noteq> APK_DEPMASK_ANY" using op_base_cases [OF lt] by (auto simp: printable_ops_def version_consts split: if_splits)
    then have "?op = dep_op d" using op(1) by simp
    then have o': "(if word_of_nat (dep_match d) \<noteq> (0 :: u64) then unat (ucast (word_of_nat (dep_match d) :: u64) :: u32) else APK_VERSION_EQUAL) = dep_op d"
      by (simp add: m split: if_splits)
    have "dependency_tostring db obj n = apk_blob_fmt n (dep_text d)"
      unfolding dependency_tostring_def ADBI_DEP_NAME_def ADBI_DEP_VERSION_def ADBI_DEP_MATCH_def r Let_def o'
      using False by (simp add: dep_text_def apk_dep_conflict_def blob_bytes_def)
    then show ?thesis using blob_fmt_fits [OF n] by simp
  qed
qed

section \<open>Properties\<close>

text \<open>
  C24. An object of the binary database that has a value is written when there is room: every field of the
  object that is read back is the field that was put in, including the null fields that are left out at its
  end, and the object is empty again.
\<close>

theorem adb_object_roundtrip:
  assumes "writer_ok db" "obj_ok o'" "\<exists>i \<ge> 1. adb_ro_val o' i \<noteq> ADB_NULL" "room db (11 + 4 * ao_num o')"
  shows "\<exists>v o2 db'. adb_w_obj (Kind_object nf nc from fs) o' db = Ret (v, o2, db') \<and> writer_ok db' \<and>
    (\<forall>i \<ge> 1. adb_ro_val (adb_r_obj db' v) i = adb_ro_val o' i) \<and> (\<forall>i \<ge> 1. adb_ro_val o2 i = ADB_NULL)"
proof -
  have k: "pre_commit (Kind_object nf nc from fs) db o' = Ret o'" by (simp add: pre_commit_def)
  obtain v db' where "adb_w_objtype (Kind_object nf nc from fs) o' db ADB_TYPE_OBJECT = Ret (v, adb_wo_reset o', db')" "grows_to db db'"
    "\<forall>i \<ge> 1. adb_ro_val (adb_r_obj db' v) i = adb_ro_val o' i"
    using w_obj_spec [OF assms(1,2) k _ assms(3,4), of ADB_TYPE_OBJECT] by blast
  then show ?thesis using wo_reset_ok(3) [OF assms(2)] by (auto simp: adb_w_obj_def grows_to_def)
qed

text \<open>An object with three fields, of which the second is a small number.\<close>

definition sample_obj :: adb_obj where
  "sample_obj = \<lparr>ao_obj = Some [4, 0, 0x10000005, 0], ao_num = 3, ao_dynamic = False\<rparr>"

lemma sample_obj_ok: "obj_ok sample_obj" "adb_ro_val sample_obj 2 \<noteq> ADB_NULL" "ao_num sample_obj = 3"
proof -
  have "ao_vals sample_obj ! i = ADB_NULL" if "3 \<le> i" "i < 4" for i
  proof -
    have "i = 3" using that by simp
    then show ?thesis by (simp add: sample_obj_def ao_vals_def ADB_NULL_def)
  qed
  moreover have "ao_room sample_obj = 4" by (simp add: sample_obj_def ao_room_def ao_vals_def)
  ultimately show "obj_ok sample_obj" unfolding obj_ok_def by (auto simp: sample_obj_def ao_vals_def)
qed (simp_all add: sample_obj_def adb_ro_val_def ADB_NULL_def)

theorem adb_object_roundtrip_witness:
  "\<exists>v o2 db'. adb_w_obj (Kind_object 4 1 From_none []) sample_obj (new_db 1) = Ret (v, o2, db') \<and> writer_ok db' \<and>
    (\<forall>i \<ge> 1. adb_ro_val (adb_r_obj db' v) i = adb_ro_val sample_obj i) \<and> (\<forall>i \<ge> 1. adb_ro_val o2 i = ADB_NULL)"
proof (rule adb_object_roundtrip)
  show "\<exists>i \<ge> 1. adb_ro_val sample_obj i \<noteq> ADB_NULL" using sample_obj_ok(2) by (intro exI [of _ 2]) simp
qed (simp_all add: new_db_ok sample_obj_ok new_db_room)

text \<open>
  C25. The text of a dependency becomes an object of the binary database, and the text of this object is the
  text of the dependency again, for every dependency that the parser can produce whose version is valid and
  whose name has only the characters of names.
\<close>

theorem adb_dependency_roundtrip:
  assumes "writer_ok db" "dep_wf d" "\<not> dep_broken d" "\<forall>c \<in> set (the (dep_name d)). in_ctype APK_CTYPE_DEPENDENCY_NAME c"
    "room db (100 + length (dep_text d))" "length (dep_text d) < n"
  shows "\<exists>v db'. adb_w_fromstring db schema_dependency (Some (dep_text d)) = Ret (v, db') \<and> writer_ok db' \<and>
    dependency_tostring db' (adb_r_obj db' v) n = Some (dep_text d)"
proof -
  obtain o2 db2 where o2: "dependency_fromstring (adb_wo_init ADBI_DEP_MAX) db (Some (dep_text d)) = Ret (None, o2, db2)"
    "obj_ok o2" "ao_room o2 = 4" "grows_to db db2" "blob_field db2 (adb_ro_val o2 1) (the (dep_name d))"
    "blob_field db2 (adb_ro_val o2 2) (dep_version d)" "int_field db2 (adb_ro_val o2 3) (dep_match d)"
    "length (adb_bytes db2) \<le> length (adb_bytes db) + (40 + length (dep_text d))"
    by (rule dependency_fields [OF assms(1-5)])
  have name: "the (dep_name d) \<noteq> []" using assms(2) by (auto simp: dep_wf_def)
  have "adb_ro_val o2 1 \<noteq> ADB_NULL" using o2(5) name read_null(1) [of db2] by (auto simp: blob_field_def dest: r_blob_at)
  then have some: "\<exists>i \<ge> 1. adb_ro_val o2 i \<noteq> ADB_NULL" by blast
  have k: "pre_commit schema_dependency db2 o2 = Ret o2" by (simp add: pre_commit_def schema_dependency_def)
  have ok2: "writer_ok db2" "room db2 (11 + 4 * ao_num o2)" using o2(2,3,4,8) assms(5) by (auto simp: grows_to_def room_def obj_ok_def)
  obtain v db3 where w: "adb_w_objtype schema_dependency o2 db2 ADB_TYPE_OBJECT = Ret (v, adb_wo_reset o2, db3)" "grows_to db2 db3"
    "\<forall>i \<ge> 1. adb_ro_val (adb_r_obj db3 v) i = adb_ro_val o2 i"
    using w_obj_spec [OF ok2(1) o2(2) k _ some ok2(2), of ADB_TYPE_OBJECT] by blast
  have "adb_w_fromstring db schema_dependency (Some (dep_text d)) = Ret (v, db3)"
    using o2(1) w(1) by (simp add: adb_w_fromstring_def schema_dependency_def kind_fromstring_def num_fields_def adb_w_obj_def)
  moreover have "dependency_tostring db3 (adb_r_obj db3 v) n = Some (dep_text d)"
    by (rule dependency_text [OF assms(2)]) (use w(3) o2(5-7) field_grows w(2) assms(6) in simp_all)
  ultimately show ?thesis using w(2) by (auto simp: grows_to_def)
qed

definition sample_dep :: apk_dependency where
  "sample_dep = \<lparr>dep_name = Some ''musl'', dep_version = ''1.2'', dep_op = 5, dep_broken = False, dep_repository_tag = 0, dep_layer = 0\<rparr>"

lemma sample_dep_wf: "dep_wf sample_dep" "dep_text sample_dep = ''musl>=1.2''" "\<not> dep_broken sample_dep" "the (dep_name sample_dep) = ''musl''"
  using version_12_valid
  by (simp_all add: sample_dep_def dep_wf_def dep_base_op op_base_cases printable_ops_def dep_name_char_def dep_version_char_def dep_text_def
      apk_dep_conflict_def apk_version_op_string_def version_consts)

theorem adb_dependency_roundtrip_witness:
  "\<exists>v db'. adb_w_fromstring (new_db 1) schema_dependency (Some (dep_text sample_dep)) = Ret (v, db') \<and> writer_ok db' \<and>
    dependency_tostring db' (adb_r_obj db' v) 64 = Some (dep_text sample_dep)"
proof (rule adb_dependency_roundtrip)
  show "\<forall>c \<in> set (the (dep_name sample_dep)). in_ctype APK_CTYPE_DEPENDENCY_NAME c"
    unfolding sample_dep_wf(4) by code_simp
qed (simp_all add: new_db_ok new_db_room sample_dep_wf)

text \<open>
  C26. A search in a sorted array of objects starts at the last item that is not behind the template in the
  order of the array: it returns this item when the fields of the template match, and otherwise nothing, so
  of several items that match it finds only the last.
\<close>

theorem adb_find_last:
  assumes "\<forall>i. 1 \<le> i \<and> i \<le> adb_ra_num arr \<longrightarrow>
      item_cmp (Kind_object nf nc from fs) tdb tmpl db arr ADB_OBJCMP_INDEX i = Ret (c i) \<and>
      item_cmp (Kind_object nf nc from fs) tdb tmpl db arr ADB_OBJCMP_TEMPLATE i = Ret (t i)"
    and "\<forall>i j. 1 \<le> i \<and> i \<le> j \<and> j \<le> adb_ra_num arr \<and> c i < 0 \<longrightarrow> c j < 0"
    and "1 \<le> l" "l \<le> adb_ra_num arr" "0 \<le> c l" "l < adb_ra_num arr \<longrightarrow> c (l + 1) < 0"
  shows "adb_ra_find (Kind_array na fr co (Kind_object nf nc from fs)) db arr 0 tdb tmpl = Ret (if t l = 0 then l else 0)"
proof -
  let ?k = "Kind_object nf nc from fs"
  have "c i = 0" if "1 \<le> i" "i \<le> adb_ra_num arr" "t i = 0" for i
    using assms(1) that cmp_template_index [of ?k tdb tmpl db "adb_ro_obj db arr i"] by (force simp: item_cmp_def)
  then have "\<exists>r. find_split (item_cmp ?k tdb tmpl db arr ADB_OBJCMP_INDEX) 1 (adb_ra_num arr + 1) = Ret r \<and>
      find_from (item_cmp ?k tdb tmpl db arr ADB_OBJCMP_INDEX) (item_cmp ?k tdb tmpl db arr ADB_OBJCMP_TEMPLATE) (adb_ra_num arr) (r - 1) =
        Ret (if t l = 0 then l else 0)"
    using assms by (intro find_last) auto
  then show ?thesis by (auto simp: adb_ra_find_def)
qed

text \<open>An array of two items that are null, and a template without fields.\<close>

definition sample_arr :: adb_obj where
  "sample_arr = \<lparr>ao_obj = Some [4, 0, 0, 0], ao_num = 3, ao_dynamic = False\<rparr>"

lemma sample_cmp: "item_cmp schema_dependency db (adb_wo_init 4) db sample_arr md i = Ret 0"
proof -
  have "adb_ro_val sample_arr i = 0 \<or> adb_ro_val sample_arr i = 4" by (auto simp: adb_ro_val_def sample_arr_def ADB_NULL_def nth_Cons')
  then have "adb_r_vals db (adb_ro_val sample_arr i) = None" by (elim disjE) (simp_all add: adb_r_vals_def ADB_VAL_TYPE_def type_defs)
  then have "adb_ro_obj db sample_arr i = \<lparr>ao_obj = None, ao_num = 1, ao_dynamic = False\<rparr>" by (simp add: adb_ro_obj_def adb_r_obj_def)
  moreover have "cmp_from k db1 tm db2 ob md 1 1 = Ret 0" for k db1 tm db2 ob by (subst cmp_from_unfold) simp
  ultimately show ?thesis by (simp add: item_cmp_def adb_ro_cmpobj_def adb_wo_init_def)
qed

theorem adb_find_last_witness:
  "adb_ra_find schema_dependency_array (new_db 1) sample_arr 0 (new_db 1) (adb_wo_init 4) = Ret 2"
proof -
  have "adb_ra_num sample_arr = 2" by (simp add: adb_ra_num_def sample_arr_def)
  then have "adb_ra_find (Kind_array 32 From_dependencies Commit_sort_unique schema_dependency) (new_db 1) sample_arr 0 (new_db 1) (adb_wo_init 4) = Ret (if (0 :: int) = 0 then 2 else 0)"
    unfolding schema_dependency_def
    by (intro adb_find_last [where c = "\<lambda>_. 0" and t = "\<lambda>_. 0" and l = 2]) (use sample_cmp in \<open>auto simp: schema_dependency_def\<close>)
  then show ?thesis by (simp add: schema_dependency_array_def)
qed

text \<open>
  C38. The size of the file in a template for a package has no influence on the search in an index: packages
  are compared by name, version and digest only.
\<close>

theorem adb_find_ignores_size:
  assumes "obj_ok tmpl" "ao_room tmpl = ADBI_PI_MAX" "adb_wo_val tmpl ADBI_PI_FILE_SIZE v = Ret (v, tmpl')"
  shows "adb_ra_find schema_pkginfo_array db arr cur tdb tmpl' = adb_ra_find schema_pkginfo_array db arr cur tdb tmpl"
proof -
  have "\<not> ADB_IS_ERROR v" using assms(3) by (auto simp: adb_wo_val_def split: if_splits)
  then obtain o2 where "adb_wo_val tmpl ADBI_PI_FILE_SIZE v = Ret (v, o2)"
    "\<And>j. adb_ro_val o2 j = (if j = ADBI_PI_FILE_SIZE then v else adb_ro_val tmpl j)"
    using wo_val_spec [OF assms(1), of ADBI_PI_FILE_SIZE v] assms(2) by (auto simp: ADBI_PI_MAX_def ADBI_PI_FILE_SIZE_def)
  then have same: "\<forall>i \<le> num_compare schema_pkginfo. adb_ro_val tmpl' i = adb_ro_val tmpl i"
    using assms(3) by (simp add: num_compare_def schema_pkginfo_def ADBI_PI_HASHES_def ADBI_PI_FILE_SIZE_def)
  have "item_cmp schema_pkginfo tdb tmpl' db arr md = item_cmp schema_pkginfo tdb tmpl db arr md" if "md \<noteq> ADB_OBJCMP_EXACT" for md
    unfolding item_cmp_def using that
    by (intro ext cmp_template_ignores [OF same]) (simp_all add: num_compare_def schema_pkginfo_def ADBI_PI_HASHES_def)
  then show ?thesis by (simp add: adb_ra_find_def schema_pkginfo_array_def schema_pkginfo_def)
qed

text \<open>A template with a name, to which a size is added.\<close>

theorem adb_find_ignores_size_witness:
  "adb_ra_find schema_pkginfo_array (new_db 1) sample_arr 0 (new_db 1)
     (adb_wo_init ADBI_PI_MAX\<lparr>ao_obj := Some ((ao_vals (adb_wo_init ADBI_PI_MAX))[13 := 0x10000005]), ao_num := 14\<rparr>) =
   adb_ra_find schema_pkginfo_array (new_db 1) sample_arr 0 (new_db 1) (adb_wo_init ADBI_PI_MAX)"
proof (rule adb_find_ignores_size [where v = "0x10000005"])
  show "obj_ok (adb_wo_init ADBI_PI_MAX)" by (rule wo_init_ok) (simp_all add: ADBI_PI_MAX_def)
  show room: "ao_room (adb_wo_init ADBI_PI_MAX) = ADBI_PI_MAX" by (simp add: ADBI_PI_MAX_def adb_wo_init_def ao_room_def ao_vals_def)
  have "\<not> ADB_IS_ERROR 0x10000005" by (simp add: ADB_IS_ERROR_def ADB_VAL_TYPE_def type_defs)
  then show "adb_wo_val (adb_wo_init ADBI_PI_MAX) ADBI_PI_FILE_SIZE 0x10000005 =
      Ret (0x10000005, adb_wo_init ADBI_PI_MAX\<lparr>ao_obj := Some ((ao_vals (adb_wo_init ADBI_PI_MAX))[13 := 0x10000005]), ao_num := 14\<rparr>)"
    using room by (simp add: adb_wo_val_def ADBI_PI_FILE_SIZE_def ADBI_PI_MAX_def ADB_NULL_def) (simp add: adb_wo_init_def)
qed

section \<open>Text that is lost\<close>

text \<open>
  The name of an extended attribute is stored with the separator of its text, not with the null byte that
  the conversion to text splits it at, so that the text cannot be printed again.
\<close>

lemma xattr_text_lost:
  "\<exists>v db'. xattr_fromstring (new_db 1) (Some ''a=41'') = Ret (v, db') \<and> adb_r_blob db' v = Some ''a=A'' \<and> xattr_tostring db' v 64 = None"
proof -
  have "apk_blob_rsplit (Some ''a=41'') CHR ''='' = Some (Some ''a'', Some ''41'')" by code_simp
  moreover have "apk_blob_pull_hexdump (Some ''41'') [NUL] = Ret (Some [], ''A'')" by code_simp
  ultimately have "xattr_fromstring (new_db 1) (Some ''a=41'') = adb_w_blob_vec (new_db 1) [''a='', ''A'']"
    by (simp add: xattr_fromstring_def blob_len_def blob_bytes_def)
  moreover obtain v db' where w: "adb_w_blob_vec (new_db 1) [''a='', ''A''] = Ret (v, db')" "blob_at db' v (concat [''a='', ''A''])"
    by (rule w_blob_vec_spec [of "new_db 1" "[''a='', ''A'']"]) (simp_all add: new_db_ok new_db_room)
  moreover have "adb_r_blob db' v = Some ''a=A''" using r_blob_at [OF w(2)] by simp
  moreover have "apk_blob_split (Some ''a=A'') (Some [NUL]) = None" by code_simp
  ultimately show ?thesis by (simp add: xattr_tostring_def)
qed

text \<open>The factor of the largest unit is zero, so that a size in this unit is stored as zero.\<close>

lemma tib_is_zero: "apk_get_human_size_unit (Some ''TiB'') = 0" "apk_get_human_size_unit (Some ''GiB'') = 2 ^ 30"
  by code_simp+

end
