(* ===== verification/Fsys.thy ===== *)
theory Fsys
  imports Files Tar
begin

text \<open>
  Files on the disk (\<^verbatim>\<open>fs_fsys.c\<close>, \<^verbatim>\<open>fs_uvol.c\<close>). The disk maps the paths of files, links and devices to
  inodes; directories are not part of it. A system call fails with the error that the argument \<open>sys\<close> gives
  for it, after the calls before; when it gives none, the call has its effect unless a path is missing or
  exists. Several slashes in a path count as one. Names are C strings, so they have no null bytes.
\<close>

section \<open>The disk\<close>

record fnode =
  nd_mode :: u32
  nd_uid :: u32
  nd_gid :: u32
  nd_device :: u64
  nd_mtime :: u64
  nd_data :: bytes
  nd_xattrs :: "(bytes \<times> bytes) list"

datatype sys_call =
    Sys_unlink bytes
  | Sys_rename bytes bytes
  | Sys_link bytes bytes
  | Sys_mkdir bytes
  | Sys_rmdir bytes
  | Sys_open bytes
  | Sys_symlink bytes bytes
  | Sys_mknod bytes
  | Sys_chown bytes
  | Sys_chmod bytes
  | Sys_setxattr bytes bytes
  | Sys_utime bytes
  | Sys_stat bytes
  | Sys_read bytes
  | Shim_install bytes
  | Shim_remove bytes
  | Uvol_run "bytes list"

record disk =
  dk_path :: "bytes \<Rightarrow> nat option"
  dk_node :: "nat \<Rightarrow> fnode"
  dk_next :: nat
  dk_log :: "sys_call list"

type_synonym sys = "sys_call list \<Rightarrow> sys_call \<Rightarrow> apk_error option"

definition sys_try :: "sys \<Rightarrow> sys_call \<Rightarrow> disk \<Rightarrow> apk_error option \<times> disk" where
  "sys_try sys c dk = (sys (dk_log dk) c, dk\<lparr>dk_log := dk_log dk @ [c]\<rparr>)"

text \<open>A call with its effect when it is possible.\<close>

definition sys_do :: "sys \<Rightarrow> sys_call \<Rightarrow> (disk \<Rightarrow> apk_error + disk) \<Rightarrow> disk \<Rightarrow> apk_error option \<times> disk" where
  "sys_do sys c act dk =
     (case sys_try sys c dk of
        (Some e, dk) \<Rightarrow> (Some e, dk)
      | (None, dk) \<Rightarrow> (case act dk of Inl e \<Rightarrow> (Some e, dk) | Inr dk \<Rightarrow> (None, dk)))"

fun resolve :: "bytes \<Rightarrow> bytes" where
  "resolve (x # y # p) = (if x = CHR ''/'' \<and> y = CHR ''/'' then resolve (y # p) else x # resolve (y # p))"
| "resolve p = p"

definition unlinkat :: "sys \<Rightarrow> bytes \<Rightarrow> disk \<Rightarrow> apk_error option \<times> disk" where
  "unlinkat sys p =
     sys_do sys (Sys_unlink p) (\<lambda>dk. if dk_path dk (resolve p) = None then Inl ENOENT
         else Inr (dk\<lparr>dk_path := (dk_path dk)(resolve p := None)\<rparr>))"

text \<open>Renaming a file to another name of the same file does nothing.\<close>

definition renameat :: "sys \<Rightarrow> bytes \<Rightarrow> bytes \<Rightarrow> disk \<Rightarrow> apk_error option \<times> disk" where
  "renameat sys a b =
     sys_do sys (Sys_rename a b)
       (\<lambda>dk. case dk_path dk (resolve a) of
          None \<Rightarrow> Inl ENOENT
        | Some n \<Rightarrow> if dk_path dk (resolve b) = Some n then Inr dk
                    else Inr (dk\<lparr>dk_path := (dk_path dk)(resolve b := Some n, resolve a := None)\<rparr>))"

definition linkat :: "sys \<Rightarrow> bytes \<Rightarrow> bytes \<Rightarrow> disk \<Rightarrow> apk_error option \<times> disk" where
  "linkat sys a b =
     sys_do sys (Sys_link a b)
       (\<lambda>dk. case dk_path dk (resolve a) of
          None \<Rightarrow> Inl ENOENT
        | Some n \<Rightarrow> if dk_path dk (resolve b) \<noteq> None then Inl EEXIST
                    else Inr (dk\<lparr>dk_path := (dk_path dk)(resolve b := Some n)\<rparr>))"

text \<open>A new inode under a path that does not exist.\<close>

definition new_node :: "bytes \<Rightarrow> fnode \<Rightarrow> disk \<Rightarrow> apk_error + disk" where
  "new_node p nd dk =
     (if dk_path dk (resolve p) \<noteq> None then Inl EEXIST
      else Inr (dk\<lparr>dk_path := (dk_path dk)(resolve p := Some (dk_next dk)), dk_node := (dk_node dk)(dk_next dk := nd), dk_next := dk_next dk + 1\<rparr>))"

definition upd_node :: "bytes \<Rightarrow> (fnode \<Rightarrow> fnode) \<Rightarrow> disk \<Rightarrow> apk_error + disk" where
  "upd_node p f dk =
     (case dk_path dk (resolve p) of
        None \<Rightarrow> Inl ENOENT
      | Some n \<Rightarrow> Inr (dk\<lparr>dk_node := (dk_node dk)(n := f (dk_node dk n))\<rparr>))"

text \<open>The bits 07777, 07000 and 06000 of a mode are 4095, 3584 and 3072. Changing the owner clears the last.\<close>

definition fchownat :: "sys \<Rightarrow> bytes \<Rightarrow> u32 \<Rightarrow> u32 \<Rightarrow> disk \<Rightarrow> apk_error option \<times> disk" where
  "fchownat sys p uid gid =
     sys_do sys (Sys_chown p) (upd_node p (\<lambda>nd. nd\<lparr>nd_uid := uid, nd_gid := gid, nd_mode := nd_mode nd AND NOT 3072\<rparr>))"

definition fchmodat :: "sys \<Rightarrow> bytes \<Rightarrow> u32 \<Rightarrow> disk \<Rightarrow> apk_error option \<times> disk" where
  "fchmodat sys p mode =
     sys_do sys (Sys_chmod p) (upd_node p (\<lambda>nd. nd\<lparr>nd_mode := (nd_mode nd AND NOT 4095) OR (mode AND 4095)\<rparr>))"

definition apk_fsetxattr :: "sys \<Rightarrow> bytes \<Rightarrow> bytes \<Rightarrow> bytes \<Rightarrow> disk \<Rightarrow> apk_error option \<times> disk" where
  "apk_fsetxattr sys p name val =
     sys_do sys (Sys_setxattr p name) (upd_node p (\<lambda>nd. nd\<lparr>nd_xattrs := (name, val) # filter (\<lambda>x. fst x \<noteq> name) (nd_xattrs nd)\<rparr>))"

definition utimensat :: "sys \<Rightarrow> bytes \<Rightarrow> u64 \<Rightarrow> disk \<Rightarrow> apk_error option \<times> disk" where
  "utimensat sys p mtime = sys_do sys (Sys_utime p) (upd_node p (\<lambda>nd. nd\<lparr>nd_mtime := mtime\<rparr>))"

section \<open>Temporary names\<close>

definition TMPNAME_MAX :: nat where "TMPNAME_MAX = PATH_MAX + 64"

text \<open>The digest is an argument. A name that does not fit leaves the buffer as it was, which is \<open>None\<close>.\<close>

definition format_tmpname :: "(bytes \<Rightarrow> bytes) \<Rightarrow> blob \<Rightarrow> blob \<Rightarrow> bytes \<Rightarrow> bytes option" where
  "format_tmpname sha256 pkgctx dirname fullname =
     (let d = sha256 (blob_bytes pkgctx @ fullname);
          b = apk_blob_push_blob (APK_BLOB_BUF TMPNAME_MAX) dirname;
          b = apk_blob_push_blob b (Some (if blob_len dirname > 0 then ''/.apk.'' else ''.apk.''));
          b = apk_blob_push_hexdump b (Some (take 24 d));
          b = apk_blob_push_blob b (Some [NUL])
      in map_option (cstr \<circ> fst) b)"

text \<open>The directory of a name, with the slash behind it.\<close>

definition get_dirname :: "bytes \<Rightarrow> blob" where
  "get_dirname fullname = (case memrchr fullname CHR ''/'' of None \<Rightarrow> None | Some i \<Rightarrow> Some (take (Suc i) fullname))"

definition is_system_xattr :: "bytes \<Rightarrow> bool" where
  "is_system_xattr name \<longleftrightarrow> take 5 name \<noteq> ''user.''"

section \<open>Extracting a file\<close>

definition APK_EXTRACTW_OWNER :: nat where "APK_EXTRACTW_OWNER = 1"
definition APK_EXTRACTW_PERMISSION :: nat where "APK_EXTRACTW_PERMISSION = 2"
definition APK_EXTRACTW_MTIME :: nat where "APK_EXTRACTW_MTIME = 4"
definition APK_EXTRACTW_XATTR :: nat where "APK_EXTRACTW_XATTR = 8"

record extract_flags =
  ef_no_chown :: bool
  ef_no_overwrite :: bool
  ef_no_sys_xattrs :: bool
  ef_no_devices :: bool

text \<open>An error, or the warnings.\<close>

type_synonym ext_result = "apk_error + nat"

definition warn_if :: "nat \<Rightarrow> apk_error option \<times> disk \<Rightarrow> nat \<Rightarrow> nat \<times> disk" where
  "warn_if w r ret = (if fst r \<noteq> None then ret OR w else ret, snd r)"

definition mode_type :: "apk_file_info \<Rightarrow> u32" where "mode_type fi = fi_mode fi AND S_IFMT"

definition S_ISDIR :: "apk_file_info \<Rightarrow> bool" where "S_ISDIR fi \<longleftrightarrow> mode_type fi = S_IFDIR"
definition S_ISREG :: "apk_file_info \<Rightarrow> bool" where "S_ISREG fi \<longleftrightarrow> mode_type fi = S_IFREG"
definition S_ISLNK :: "apk_file_info \<Rightarrow> bool" where "S_ISLNK fi \<longleftrightarrow> mode_type fi = S_IFLNK"

definition plain_node :: "apk_file_info \<Rightarrow> bytes \<Rightarrow> fnode" where
  "plain_node fi data =
     \<lparr>nd_mode = mode_type fi OR (fi_mode fi AND 4095), nd_uid = 0, nd_gid = 0, nd_device = 0, nd_mtime = 0, nd_data = data, nd_xattrs = []\<rparr>"

text \<open>
  The file is made under a name. The data, an argument, is what the stream gives for the size of the file,
  or the error of reading or writing it; the file is removed then.
\<close>

definition extract_node ::
  "sys \<Rightarrow> apk_file_info \<Rightarrow> apk_error + bytes \<Rightarrow> extract_flags \<Rightarrow> bytes \<Rightarrow> bytes option \<Rightarrow> disk \<Rightarrow> apk_error option \<times> disk" where
  "extract_node sys fi data flags fn link_target dk =
     (if S_ISDIR fi then
        (case sys_try sys (Sys_mkdir fn) dk of (e, dk) \<Rightarrow> (if e = Some EEXIST then None else e, dk))
      else if S_ISREG fi then
        (case link_target of
           None \<Rightarrow>
             (case sys_do sys (Sys_open fn) (new_node fn (plain_node fi (case data of Inl _ \<Rightarrow> [] | Inr d \<Rightarrow> d))) dk of
                (Some e, dk) \<Rightarrow> (Some e, dk)
              | (None, dk) \<Rightarrow> (case data of Inl e \<Rightarrow> (Some e, snd (unlinkat sys fn dk)) | Inr _ \<Rightarrow> (None, dk)))
         | Some t \<Rightarrow> linkat sys t fn dk)
      else if S_ISLNK fi then
        sys_do sys (Sys_symlink (the link_target) fn) (new_node fn ((plain_node fi (the link_target))\<lparr>nd_mode := S_IFLNK OR 511\<rparr>)) dk
      else if mode_type fi \<in> {S_IFBLK, S_IFCHR, S_IFIFO} then
        (if ef_no_devices flags then (Some APKE_NOT_EXTRACTED, dk)
         else sys_do sys (Sys_mknod fn) (new_node fn ((plain_node fi [])\<lparr>nd_device := fi_device fi\<rparr>)) dk)
      else (None, dk))"

definition extract_owner :: "sys \<Rightarrow> apk_file_info \<Rightarrow> extract_flags \<Rightarrow> bytes \<Rightarrow> nat \<times> disk \<Rightarrow> nat \<times> disk" where
  "extract_owner sys fi flags fn s =
     (case s of (ret, dk) \<Rightarrow>
        if ef_no_chown flags then (ret, dk)
        else
          case warn_if APK_EXTRACTW_OWNER (fchownat sys fn (fi_uid fi) (fi_gid fi) dk) ret of
            (ret, dk) \<Rightarrow>
              if fi_mode fi AND 3584 \<noteq> 0 then warn_if APK_EXTRACTW_PERMISSION (fchmodat sys fn (fi_mode fi) dk) ret else (ret, dk))"

fun extract_xattrs :: "sys \<Rightarrow> extract_flags \<Rightarrow> bytes \<Rightarrow> apk_xattr list \<Rightarrow> nat \<times> disk \<Rightarrow> nat \<times> disk" where
  "extract_xattrs sys flags fn [] s = s"
| "extract_xattrs sys flags fn (x # xs) s =
     extract_xattrs sys flags fn xs
       (if ef_no_sys_xattrs flags \<and> is_system_xattr (xa_name x) then s
        else warn_if APK_EXTRACTW_XATTR (apk_fsetxattr sys fn (xa_name x) (blob_bytes (xa_value x)) (snd s)) (fst s))"

definition extract_attrs :: "sys \<Rightarrow> apk_file_info \<Rightarrow> extract_flags \<Rightarrow> bytes \<Rightarrow> nat \<times> disk \<Rightarrow> nat \<times> disk" where
  "extract_attrs sys fi flags fn s =
     (if S_ISLNK fi then s
      else
        let s = (if fi_xattrs fi = [] then s
                 else
                   case sys_do sys (Sys_open fn) (upd_node fn id) (snd s) of
                     (None, dk) \<Rightarrow> extract_xattrs sys flags fn (fi_xattrs fi) (fst s, dk)
                   | (Some e, dk) \<Rightarrow> (fst s OR APK_EXTRACTW_XATTR, dk))
        in warn_if APK_EXTRACTW_MTIME (utimensat sys fn (fi_mtime fi) (snd s)) (fst s))"

text \<open>With a package the temporary name is used, also for the target of a hard link.\<close>

definition fsys_file_extract ::
  "sys \<Rightarrow> (bytes \<Rightarrow> bytes) \<Rightarrow> apk_file_info \<Rightarrow> apk_error + bytes \<Rightarrow> extract_flags \<Rightarrow> blob \<Rightarrow> disk \<Rightarrow> (ext_result \<times> disk) outcome" where
  "fsys_file_extract sys sha256 fi data flags pkgctx dk =
     (let tmp = (\<lambda>n. if pkgctx = None then Some n else format_tmpname sha256 pkgctx (get_dirname n) n);
          is_hardlink = (S_ISREG fi \<and> fi_link_target fi \<noteq> None)
      in case (tmp (fi_name fi), if is_hardlink then tmp (the (fi_link_target fi)) else Some []) of
           (Some fn, Some lt) \<Rightarrow>
             (case (if S_ISDIR fi \<or> ef_no_overwrite flags then (None, dk) else unlinkat sys fn dk) of
                (e, dk) \<Rightarrow>
                  if e \<noteq> None \<and> e \<noteq> Some ENOENT then Ret (Inl (the e), dk)
                  else
                    case extract_node sys fi data flags fn (if is_hardlink then Some lt else fi_link_target fi) dk of
                      (Some e, dk) \<Rightarrow> Ret (Inl e, dk)
                    | (None, dk) \<Rightarrow>
                        (case extract_attrs sys fi flags fn (extract_owner sys fi flags fn (0, dk)) of
                           (ret, dk) \<Rightarrow> Ret (Inr ret, dk)))
         | _ \<Rightarrow> Fault)"

section \<open>Handling extracted files\<close>

text \<open>
  The directory that files are handled in. The buffer for its path is not initialised when the path is too
  long for it, which is a fault.
\<close>

record apk_fsdir =
  fd_path :: bytes
  fd_pkgctx :: blob

definition apk_fsdir_get :: "bytes \<Rightarrow> blob \<Rightarrow> apk_fsdir outcome" where
  "apk_fsdir_get dir pkgctx = (if length dir + 2 \<ge> PATH_MAX then Fault else Ret \<lparr>fd_path = dir, fd_pkgctx = pkgctx\<rparr>)"

text \<open>The path of a file; a name that does not fit is left out.\<close>

definition fsdir_push :: "apk_fsdir \<Rightarrow> bytes \<Rightarrow> bytes" where
  "fsdir_push d name =
     (if length (fd_path d) + length name + 2 \<ge> PATH_MAX then fd_path d
      else if fd_path d = [] then name else fd_path d @ ''/'' @ name)"

datatype fs_ctrl = APK_FS_CTRL_COMMIT | APK_FS_CTRL_APKNEW | APK_FS_CTRL_CANCEL | APK_FS_CTRL_DELETE | APK_FS_CTRL_DELETE_APKNEW

text \<open>What the functions need besides the disk: the results of calls, the digests and the suffix for new files.\<close>

record fs_ops =
  fo_sys :: sys
  fo_sha256 :: "bytes \<Rightarrow> bytes"
  fo_digest :: "nat \<Rightarrow> bytes \<Rightarrow> apk_digest"
  fo_suffix :: bytes
  fo_flags :: extract_flags
  fo_uvol_error :: "apk_error option"

definition apknewname :: "fs_ops \<Rightarrow> bytes \<Rightarrow> bytes option" where
  "apknewname fo fn = (let n = fn @ fo_suffix fo in if length n \<ge> TMPNAME_MAX then None else Some n)"

definition ctrl_commit :: "fs_ops \<Rightarrow> bytes \<Rightarrow> bytes \<Rightarrow> disk \<Rightarrow> (apk_error + nat) \<times> disk" where
  "ctrl_commit fo tmp fn dk =
     (case renameat (fo_sys fo) tmp fn dk of
        (Some e, dk) \<Rightarrow> (Inl e, snd (unlinkat (fo_sys fo) tmp dk))
      | (None, dk) \<Rightarrow> (case sys_try (fo_sys fo) (Shim_install fn) dk of (Some e, dk) \<Rightarrow> (Inl e, dk) | (None, dk) \<Rightarrow> (Inr 0, dk)))"

definition plain_result :: "nat \<Rightarrow> apk_error option \<times> disk \<Rightarrow> (apk_error + nat) \<times> disk" where
  "plain_result n r = (case fst r of Some e \<Rightarrow> Inl e | None \<Rightarrow> Inr n, snd r)"

definition fsys_file_control :: "fs_ops \<Rightarrow> apk_fsdir \<Rightarrow> bytes \<Rightarrow> fs_ctrl \<Rightarrow> disk \<Rightarrow> ((apk_error + nat) \<times> disk) outcome" where
  "fsys_file_control fo d filename ctrl dk =
     (let fn = fsdir_push d filename in
      case format_tmpname (fo_sha256 fo) (fd_pkgctx d) (Some (fd_path d)) fn of
        None \<Rightarrow> Fault
      | Some tmp \<Rightarrow>
          Ret (case ctrl of
                 APK_FS_CTRL_COMMIT \<Rightarrow> ctrl_commit fo tmp fn dk
               | APK_FS_CTRL_APKNEW \<Rightarrow>
                   (case apknewname fo fn of
                      None \<Rightarrow> (Inl ENOBUFS, dk)
                    | Some new \<Rightarrow> plain_result (length new) (renameat (fo_sys fo) tmp new dk))
               | APK_FS_CTRL_CANCEL \<Rightarrow> plain_result 0 (unlinkat (fo_sys fo) tmp dk)
               | APK_FS_CTRL_DELETE \<Rightarrow>
                   (case unlinkat (fo_sys fo) fn dk of
                      (Some e, dk) \<Rightarrow> (Inl e, dk)
                    | (None, dk) \<Rightarrow> (Inr 0, snd (sys_try (fo_sys fo) (Shim_remove fn) dk)))
               | APK_FS_CTRL_DELETE_APKNEW \<Rightarrow>
                   (case apknewname fo fn of
                      None \<Rightarrow> (Inl ENOBUFS, dk)
                    | Some new \<Rightarrow> (Inr (length new), snd (unlinkat (fo_sys fo) new dk)))))"

text \<open>
  Information about a file, without following links: its inode and its digest, which is zero when none is
  asked for or the file cannot be opened.
\<close>

definition zero_digest :: apk_digest where
  "zero_digest = \<lparr>dg_alg = APK_DIGEST_NONE, dg_len = 0, dg_data = replicate 64 NUL\<rparr>"

definition apk_fileinfo_get :: "fs_ops \<Rightarrow> bytes \<Rightarrow> nat \<Rightarrow> disk \<Rightarrow> (apk_error + nat \<times> apk_digest) \<times> disk" where
  "apk_fileinfo_get fo p alg dk =
     (case sys_try (fo_sys fo) (Sys_stat p) dk of
        (Some e, dk) \<Rightarrow> (Inl e, dk)
      | (None, dk) \<Rightarrow>
          (case dk_path dk (resolve p) of
             None \<Rightarrow> (Inl ENOENT, dk)
           | Some n \<Rightarrow>
               let nd = dk_node dk n in
               if alg = APK_DIGEST_NONE then (Inr (n, zero_digest), dk)
               else if nd_mode nd AND S_IFMT = S_IFLNK then
                 (if length (nd_data nd) > PATH_MAX then (Inl ENOMEM, dk)
                  else
                    case sys_try (fo_sys fo) (Sys_read p) dk of
                      (Some e, dk) \<Rightarrow> (Inl e, dk)
                    | (None, dk) \<Rightarrow> (Inr (n, fo_digest fo alg (nd_data nd)), dk))
               else
                 case sys_try (fo_sys fo) (Sys_open p) dk of
                   (Some e, dk) \<Rightarrow> (Inr (n, zero_digest), dk)
                 | (None, dk) \<Rightarrow>
                     (case sys_try (fo_sys fo) (Sys_read p) dk of
                        (Some e, dk) \<Rightarrow> (Inl e, dk)
                      | (None, dk) \<Rightarrow> (Inr (n, fo_digest fo alg (nd_data nd)), dk))))"

definition fsys_file_info :: "fs_ops \<Rightarrow> apk_fsdir \<Rightarrow> bytes \<Rightarrow> nat \<Rightarrow> disk \<Rightarrow> (apk_error + nat \<times> apk_digest) \<times> disk" where
  "fsys_file_info fo d filename alg dk = apk_fileinfo_get fo (fsdir_push d filename) alg dk"

section \<open>Volumes\<close>

definition uvol_run :: "fs_ops \<Rightarrow> bytes list \<Rightarrow> disk \<Rightarrow> apk_error option \<times> disk" where
  "uvol_run fo args dk =
     (case sys_try (fo_sys fo) (Uvol_run args) dk of (e, dk) \<Rightarrow> (if e = None then None else Some APKE_UVOL_ERROR, dk))"

definition uvol_file_extract :: "fs_ops \<Rightarrow> apk_file_info \<Rightarrow> blob \<Rightarrow> disk \<Rightarrow> ext_result \<times> disk" where
  "uvol_file_extract fo fi pkgctx dk =
     (case fo_uvol_error fo of
        Some e \<Rightarrow> (Inl e, dk)
      | None \<Rightarrow>
          let name = (case memrchr (fi_name fi) CHR ''/'' of Some i \<Rightarrow> drop (Suc i) (fi_name fi) | None \<Rightarrow> fi_name fi);
              sz = (if fi_size fi = 0 then ''0'' else uint_digits 10 (fi_size fi))
          in case uvol_run fo [''create'', name, sz, ''ro''] dk of
               (Some e, dk) \<Rightarrow> (Inl e, dk)
             | (None, dk) \<Rightarrow>
                 (case uvol_run fo [''write'', name, sz] dk of
                    (e, dk) \<Rightarrow>
                      (case (if e = None \<and> pkgctx = None then uvol_run fo [''up'', name] dk else (e, dk)) of
                         (Some e, dk) \<Rightarrow> (Inl e, snd (uvol_run fo [''remove'', name] dk))
                       | (None, dk) \<Rightarrow> (Inr 0, dk))))"

text \<open>The name is not initialised when it does not fit the buffer.\<close>

definition uvol_file_control :: "fs_ops \<Rightarrow> bytes \<Rightarrow> fs_ctrl \<Rightarrow> disk \<Rightarrow> ((apk_error + nat) \<times> disk) outcome" where
  "uvol_file_control fo filename ctrl dk =
     (case fo_uvol_error fo of
        Some e \<Rightarrow> Ret (Inl e, dk)
      | None \<Rightarrow>
          if length filename + 2 \<ge> PATH_MAX then Fault
          else
            Ret (case ctrl of
                   APK_FS_CTRL_COMMIT \<Rightarrow> plain_result 0 (uvol_run fo [''up'', filename] dk)
                 | APK_FS_CTRL_DELETE_APKNEW \<Rightarrow> (Inr 0, dk)
                 | _ \<Rightarrow>
                     (case uvol_run fo [''down'', filename] dk of
                        (Some e, dk) \<Rightarrow> (Inl e, dk)
                      | (None, dk) \<Rightarrow> plain_result 0 (uvol_run fo [''remove'', filename] dk))))"

section \<open>Choosing the operations\<close>

definition is_uvol :: "bytes \<Rightarrow> bool" where
  "is_uvol dir \<longleftrightarrow> apk_blob_starts_with (Some dir) (Some ''uvol'') \<and> (length dir = 4 \<or> dir ! 4 = CHR ''/'')"

definition APK_FS_PRIO_DISK :: nat where "APK_FS_PRIO_DISK = 0"
definition APK_FS_PRIO_UVOL :: nat where "APK_FS_PRIO_UVOL = 1"
definition APK_FS_PRIO_MAX :: nat where "APK_FS_PRIO_MAX = 2"

definition apk_fsdir_priority :: "apk_fsdir \<Rightarrow> nat" where
  "apk_fsdir_priority d = (if is_uvol (fd_path d) then APK_FS_PRIO_UVOL else APK_FS_PRIO_DISK)"

definition apk_fsdir_file_control :: "fs_ops \<Rightarrow> apk_fsdir \<Rightarrow> bytes \<Rightarrow> fs_ctrl \<Rightarrow> disk \<Rightarrow> ((apk_error + nat) \<times> disk) outcome" where
  "apk_fsdir_file_control fo d filename ctrl dk =
     (if is_uvol (fd_path d) then uvol_file_control fo filename ctrl dk else fsys_file_control fo d filename ctrl dk)"

definition apk_fsdir_file_info :: "fs_ops \<Rightarrow> apk_fsdir \<Rightarrow> bytes \<Rightarrow> nat \<Rightarrow> disk \<Rightarrow> (apk_error + nat \<times> apk_digest) \<times> disk" where
  "apk_fsdir_file_info fo d filename alg dk =
     (if is_uvol (fd_path d) then (Inl APKE_UVOL_ERROR, dk) else fsys_file_info fo d filename alg dk)"

definition S_IFSOCK :: u32 where "S_IFSOCK = 0xC000"

definition need_checksum :: "apk_file_info \<Rightarrow> bool" where
  "need_checksum fi \<longleftrightarrow> mode_type fi \<notin> {S_IFDIR, S_IFSOCK, S_IFBLK, S_IFCHR, S_IFIFO} \<and> fi_link_target fi = None"

text \<open>
  Directories are not on the modelled disk: making, removing or changing one is a call that succeeds or fails.
\<close>

definition fsys_dir_create :: "fs_ops \<Rightarrow> apk_fsdir \<Rightarrow> disk \<Rightarrow> ext_result \<times> disk" where
  "fsys_dir_create fo d dk =
     (case sys_try (fo_sys fo) (Sys_mkdir (fd_path d)) dk of
        (Some e, dk) \<Rightarrow> (Inl e, dk)
      | (None, dk) \<Rightarrow>
          if ef_no_chown (fo_flags fo) then (Inr 0, dk)
          else case warn_if APK_EXTRACTW_OWNER (sys_try (fo_sys fo) (Sys_chown (fd_path d)) dk) 0 of (ret, dk) \<Rightarrow> (Inr ret, dk))"

definition fsys_dir_delete :: "fs_ops \<Rightarrow> apk_fsdir \<Rightarrow> disk \<Rightarrow> apk_error option \<times> disk" where
  "fsys_dir_delete fo d dk = sys_try (fo_sys fo) (Sys_rmdir (fd_path d)) dk"

definition fsys_dir_update_perms :: "fs_ops \<Rightarrow> apk_fsdir \<Rightarrow> disk \<Rightarrow> ext_result \<times> disk" where
  "fsys_dir_update_perms fo d dk =
     (case sys_try (fo_sys fo) (Sys_chmod (fd_path d)) dk of
        (e, dk) \<Rightarrow>
          if e = Some ENOENT then (Inl ENOENT, dk)
          else
            let ret = (if e = None then 0 else APK_EXTRACTW_PERMISSION) in
            if ef_no_chown (fo_flags fo) then (Inr ret, dk)
            else case warn_if APK_EXTRACTW_OWNER (sys_try (fo_sys fo) (Sys_chown (fd_path d)) dk) ret of (ret, dk) \<Rightarrow> (Inr ret, dk))"

definition apk_fsdir_create :: "fs_ops \<Rightarrow> apk_fsdir \<Rightarrow> disk \<Rightarrow> ext_result \<times> disk" where
  "apk_fsdir_create fo d dk = (if is_uvol (fd_path d) then (Inr 0, dk) else fsys_dir_create fo d dk)"

text \<open>Extracting an entry; for files the operations are chosen by the first five bytes of the name.\<close>

definition apk_fs_extract :: "fs_ops \<Rightarrow> apk_file_info \<Rightarrow> apk_error + bytes \<Rightarrow> blob \<Rightarrow> disk \<Rightarrow> (ext_result \<times> disk) outcome" where
  "apk_fs_extract fo fi data pkgctx dk =
     (if dg_alg (fi_digest fi) = APK_DIGEST_NONE \<and> need_checksum fi then Ret (Inl APKE_FORMAT_OBSOLETE, dk)
      else if S_ISDIR fi then
        (case apk_fsdir_get (fi_name fi) pkgctx of Fault \<Rightarrow> Fault | Ret d \<Rightarrow> Ret (apk_fsdir_create fo d dk))
      else if is_uvol (take 5 (fi_name fi)) then Ret (uvol_file_extract fo fi pkgctx dk)
      else fsys_file_extract (fo_sys fo) (fo_sha256 fo) fi data (fo_flags fo) pkgctx dk)"

end
