(* ===== verification/Install.thy ===== *)
theory Install
  imports Fsys
begin

text \<open>
  Installing, upgrading and removing a package (\<^verbatim>\<open>database.c\<close>): the files of an archive are extracted under
  temporary names, then moved to their places unless a file there is protected, and the files of the old
  package that the new one does not have are removed. The state is the database of files, the disk and the
  packages by address. The contents of the archive, and what a script does to the disk, are arguments. A
  run that does not return is a \<open>Fault\<close> as well.
\<close>

section \<open>State\<close>

record inst_env =
  ie_dir :: fs_env
  ie_fo :: fs_ops
  ie_purge :: bool
  ie_clean_protected :: bool
  ie_force_overwrite :: bool
  ie_no_scripts :: bool
  ie_script :: "nat \<Rightarrow> nat \<Rightarrow> disk \<Rightarrow> bool \<times> disk"

record inst =
  in_fs :: file_db
  in_disk :: disk
  in_pkg :: "nat \<Rightarrow> apk_package"
  in_idb :: installed_db
  in_script :: nat
  in_script_pending :: bool
  in_size :: u64
  in_id_resets :: nat

definition upd_ipkg_of :: "nat \<Rightarrow> (apk_installed_package \<Rightarrow> apk_installed_package) \<Rightarrow> inst \<Rightarrow> inst" where
  "upd_ipkg_of a f st = st\<lparr>in_pkg := (in_pkg st)(a := (in_pkg st a)\<lparr>pkg_ipkg := map_option f (pkg_ipkg (in_pkg st a))\<rparr>)\<rparr>"

definition ipkg_of :: "inst \<Rightarrow> nat \<Rightarrow> apk_installed_package" where "ipkg_of st a = the (pkg_ipkg (in_pkg st a))"

text \<open>The name of the package with the null byte behind it.\<close>

definition apk_pkg_ctx :: "apk_package \<Rightarrow> blob" where
  "apk_pkg_ctx pkg = Some (the (pkg_name pkg) @ [NUL])"

fun foldo :: "('a \<Rightarrow> 's \<Rightarrow> 's outcome) \<Rightarrow> 'a list \<Rightarrow> 's \<Rightarrow> 's outcome" where
  "foldo f [] s = Ret s"
| "foldo f (x # xs) s = (case f x s of Fault \<Rightarrow> Fault | Ret s \<Rightarrow> foldo f xs s)"

section \<open>Scripts\<close>

definition apk_ipkg_run_script :: "inst_env \<Rightarrow> nat \<Rightarrow> nat \<Rightarrow> inst \<Rightarrow> inst" where
  "apk_ipkg_run_script env a type st =
     (if type \<ge> APK_SCRIPT_MAX \<or> ipkg_script (ipkg_of st a) ! type = None then st
      else if ie_no_scripts env \<or> env_simulate (ie_dir env) then st
      else
        case ie_script env type a (in_disk st) of
          (failed, dk) \<Rightarrow>
            let st = st\<lparr>in_disk := dk\<rparr> in
            if failed then upd_ipkg_of a (\<lambda>i. i\<lparr>ipkg_broken_script := True\<rparr>) st
            else st\<lparr>in_id_resets := in_id_resets st + 1\<rparr>)"

definition apk_db_run_pending_script :: "inst_env \<Rightarrow> nat \<Rightarrow> inst \<Rightarrow> inst" where
  "apk_db_run_pending_script env a st =
     (if \<not> in_script_pending st then st else apk_ipkg_run_script env a (in_script st) (st\<lparr>in_script_pending := False\<rparr>))"

text \<open>The script that was read, or the null blob, and its size in the archive.\<close>

definition apk_db_install_script :: "nat \<Rightarrow> nat \<Rightarrow> nat \<Rightarrow> blob \<Rightarrow> inst \<Rightarrow> inst" where
  "apk_db_install_script a type sz data st =
     (let st = upd_ipkg_of a (\<lambda>i. snd (snd (apk_ipkg_add_script i data type sz))) st
      in st\<lparr>in_script_pending := (in_script_pending st \<or> type = in_script st)\<rparr>)"

section \<open>Extracting the files\<close>

definition contains_control_character :: "bytes \<Rightarrow> bool" where
  "contains_control_character str \<longleftrightarrow> list_ex (\<lambda>c. code c < 32 \<or> code c = 127) str"

definition malicious_name :: "bytes \<Rightarrow> bool" where
  "malicious_name name \<longleftrightarrow>
     (name \<noteq> [] \<and> hd name = CHR ''/'') \<or> contains_control_character name \<or> take 2 name = ''./'' \<or> take 3 name = ''../'' \<or>
     memmem name ''/./'' \<noteq> None \<or> memmem name ''/../'' \<noteq> None"

definition apk_calc_installed_size :: "nat \<Rightarrow> u64" where
  "apk_calc_installed_size n = (of_nat n + 4095) AND NOT 4095"

text \<open>The digest that is recorded for an extracted file; a hard link has the one of its target.\<close>

definition file_digest :: "fs_ops \<Rightarrow> bool \<Rightarrow> apk_file_info \<Rightarrow> apk_db_file option \<Rightarrow> apk_db_file \<Rightarrow> apk_db_file" where
  "file_digest fo sha256_160 ae link_target_file file =
     (let file = (case link_target_file of
                    Some t \<Rightarrow> if \<not> sha256_160 then apk_dbf_digest_set (fl_digest_alg t) (fl_digest t) file
                              else apk_dbf_digest_set (dg_alg (fi_digest ae)) (dg_data (fi_digest ae)) file
                  | None \<Rightarrow> apk_dbf_digest_set (dg_alg (fi_digest ae)) (dg_data (fi_digest ae)) file)
      in if sha256_160 \<and> S_ISLNK ae
         then let d = fo_digest fo APK_DIGEST_SHA256_160 (the (fi_link_target ae)) in apk_dbf_digest_set (dg_alg d) (dg_data d) file
         else if fl_digest_alg file = APK_DIGEST_NONE \<and> dg_alg (fi_digest ae) = APK_DIGEST_SHA256
         then apk_dbf_digest_set APK_DIGEST_SHA256_160 (dg_data (fi_digest ae)) file
         else file)"

definition break_files :: "nat \<Rightarrow> inst \<Rightarrow> inst" where
  "break_files a = upd_ipkg_of a (\<lambda>i. i\<lparr>ipkg_broken_files := True\<rparr>)"

text \<open>What happens after an attempt to extract a file: the result and the state.\<close>

definition extracted :: "inst_env \<Rightarrow> nat \<Rightarrow> apk_file_info \<Rightarrow> apk_db_file option \<Rightarrow> nat \<Rightarrow> ext_result \<Rightarrow> inst \<Rightarrow> apk_error option \<times> inst" where
  "extracted env a ae link_target_file file r st =
     (case r of
        Inr w \<Rightarrow>
          let st = (if w = 0 then st
                    else if w AND APK_EXTRACTW_XATTR \<noteq> 0 then upd_ipkg_of a (\<lambda>i. i\<lparr>ipkg_broken_xattr := True\<rparr>) st
                    else break_files a st)
          in (None, st\<lparr>in_fs := upd_file file (file_digest (ie_fo env) (ipkg_sha256_160 (ipkg_of st a)) ae link_target_file) (in_fs st)\<rparr>)
      | Inl e \<Rightarrow>
          let st = st\<lparr>in_fs := upd_file file (\<lambda>f. f\<lparr>fl_broken := True\<rparr>) (in_fs st)\<rparr> in
          if e = APKE_NOT_EXTRACTED then (None, st)
          else (if e = ENOSPC then Some e else None, break_files a st))"

text \<open>Whether a file that another package has may be replaced; \<open>None\<close> is a conflict.\<close>

definition may_replace :: "inst_env \<Rightarrow> apk_package \<Rightarrow> apk_package \<Rightarrow> bool option outcome" where
  "may_replace env opkg pkg =
     (case apk_pkg_replaces_file opkg pkg of
        Fault \<Rightarrow> Fault
      | Ret APK_PKG_REPLACES_CONFLICT \<Rightarrow> Ret (if ie_force_overwrite env then Some True else None)
      | Ret APK_PKG_REPLACES_NO \<Rightarrow> Ret (Some False)
      | Ret APK_PKG_REPLACES_YES \<Rightarrow> Ret (Some True))"

definition add_size :: "apk_file_info \<Rightarrow> inst \<Rightarrow> inst" where
  "add_size ae st = st\<lparr>in_size := in_size st + apk_calc_installed_size (fi_size ae)\<rparr>"

text \<open>The entry is extracted for the file \<open>file\<close>, or for a new one.\<close>

definition extract_entry ::
  "inst_env \<Rightarrow> nat \<Rightarrow> apk_file_info \<Rightarrow> apk_error + bytes \<Rightarrow> apk_db_file option \<Rightarrow> nat \<Rightarrow> bytes \<Rightarrow> nat option \<Rightarrow> inst \<Rightarrow>
   (apk_error option \<times> inst) outcome" where
  "extract_entry env a ae data link_target_file diri bfile file st =
     (case (case file of
              Some f \<Rightarrow> if di_pkg (fs_diri (in_fs st) (fl_diri (fs_file (in_fs st) f))) = a then (f, in_fs st)
                        else apk_db_file_new diri (Some bfile) (in_fs st)
            | None \<Rightarrow> apk_db_file_new diri (Some bfile) (in_fs st)) of
        (f, fs) \<Rightarrow>
          let fs = upd_file f (\<lambda>x. x\<lparr>fl_acl := apk_db_acl_atomize_digest (fi_mode ae) (fi_uid ae) (fi_gid ae) (fi_xattr_digest ae)\<rparr>) fs
          in case apk_fs_extract (ie_fo env) ae data (apk_pkg_ctx (in_pkg st a)) (in_disk st) of
               Fault \<Rightarrow> Fault
             | Ret (r, dk) \<Rightarrow>
                 (case extracted env a ae link_target_file f r (st\<lparr>in_fs := fs, in_disk := dk\<rparr>) of
                    (ret, st) \<Rightarrow> Ret (ret, add_size ae st)))"

definition install_nondir ::
  "inst_env \<Rightarrow> nat \<Rightarrow> apk_file_info \<Rightarrow> apk_error + bytes \<Rightarrow> inst \<Rightarrow> (apk_error option \<times> inst) outcome" where
  "install_nondir env a ae data st =
     (let (bdir, bfile) = (case apk_blob_rsplit (Some (fi_name ae)) CHR ''/'' of
                             Some (d, f) \<Rightarrow> (d, blob_bytes f) | None \<Rightarrow> (None, fi_name ae))
      in case apk_db_diri_query bdir (in_fs st) of
           (q, fs) \<Rightarrow>
             if q = None \<and> bdir \<noteq> None then Ret (None, break_files a (st\<lparr>in_fs := fs\<rparr>))
             else
               case (case q of
                       None \<Rightarrow> apk_db_diri_get (ie_dir env) bdir a fs
                     | Some d \<Rightarrow> (d, apk_db_diri_select d fs)) of
                 (diri, fs) \<Rightarrow>
               (case (if S_ISREG ae \<and> fi_link_target ae \<noteq> None then apk_db_ipkg_find_file (fi_link_target ae) fs else (None, fs)) of
                  (target, fs) \<Rightarrow>
                    if S_ISREG ae \<and> fi_link_target ae \<noteq> None \<and> target = None then Ret (None, break_files a (st\<lparr>in_fs := fs\<rparr>))
                    else
                      let st = st\<lparr>in_fs := fs\<rparr>; ltf = map_option (fs_file fs) target; file = apk_db_file_query fs bdir (Some bfile) in
                      case (case file of
                              None \<Rightarrow> Ret (Some True)
                            | Some f \<Rightarrow> may_replace env (in_pkg st (di_pkg (fs_diri fs (fl_diri (fs_file fs f))))) (in_pkg st a)) of
                        Fault \<Rightarrow> Fault
                      | Ret None \<Rightarrow> Ret (None, break_files a st)
                      | Ret (Some False) \<Rightarrow> Ret (None, st)
                      | Ret (Some True) \<Rightarrow> extract_entry env a ae data ltf diri bfile file st))"

definition install_dir :: "inst_env \<Rightarrow> nat \<Rightarrow> apk_file_info \<Rightarrow> inst \<Rightarrow> inst" where
  "install_dir env a ae st =
     (case apk_db_diri_get (ie_dir env) (apk_blob_trim_end (Some (fi_name ae)) CHR ''/'') a (in_fs st) of
        (diri, fs) \<Rightarrow>
          let fs = upd_diri diri (\<lambda>x. x\<lparr>di_acl := apk_db_acl_atomize_digest (fi_mode ae) (fi_uid ae) (fi_gid ae) (fi_xattr_digest ae)\<rparr>) fs;
              d = di_dir (fs_diri fs diri);
              expected_acl = map_option (\<lambda>w. di_acl (fs_diri fs w)) (dr_owner (fs_dir fs d));
              fs = apk_db_dir_apply_diri_permissions (ie_dir env) (in_pkg st) diri fs;
              fs = apk_db_dir_prepare (ie_dir env) d expected_acl (di_acl (fs_diri fs (the (dr_owner (fs_dir fs d))))) fs
          in add_size ae (st\<lparr>in_fs := fs\<rparr>))"

text \<open>An entry of the archive; \<open>a\<close> is the package.\<close>

definition apk_db_install_file ::
  "inst_env \<Rightarrow> nat \<Rightarrow> apk_file_info \<Rightarrow> apk_error + bytes \<Rightarrow> inst \<Rightarrow> (apk_error option \<times> inst) outcome" where
  "apk_db_install_file env a ae data st =
     (let st = apk_db_run_pending_script env a st in
      if malicious_name (fi_name ae) then Ret (None, break_files a st)
      else if \<not> S_ISDIR ae then install_nondir env a ae data st
      else Ret (None, install_dir env a ae st))"

section \<open>Comparing files with the disk\<close>

text \<open>Whether the file on the disk differs from its record; without a digest any file differs.\<close>

definition apk_db_audit_file :: "fs_ops \<Rightarrow> apk_fsdir \<Rightarrow> bytes \<Rightarrow> apk_db_file option \<Rightarrow> disk \<Rightarrow> bool \<times> disk" where
  "apk_db_audit_file fo d filename dbf dk =
     (let alg = (case dbf of None \<Rightarrow> APK_DIGEST_NONE | Some f \<Rightarrow> fl_digest_alg f) in
      case apk_fsdir_file_info fo d filename alg dk of
        (Inl e, dk) \<Rightarrow> (e \<noteq> ENOENT, dk)
      | (Inr (ino, digest), dk) \<Rightarrow>
          (alg = APK_DIGEST_NONE \<or> apk_digest_cmp_blob digest alg (apk_dbf_digest_blob (the dbf)) \<noteq> 0, dk))"

text \<open>Inodes, on the one device that is modelled.\<close>

definition fileid_get :: "fs_ops \<Rightarrow> apk_fsdir \<Rightarrow> bytes \<Rightarrow> disk \<Rightarrow> nat option \<times> disk" where
  "fileid_get fo d filename dk =
     (case apk_fsdir_file_info fo d filename APK_DIGEST_NONE dk of (Inl _, dk) \<Rightarrow> (None, dk) | (Inr (ino, _), dk) \<Rightarrow> (Some ino, dk))"

section \<open>Moving the files to their places\<close>

text \<open>What is done with an extracted file; \<open>ofile\<close> is the file that the database has under its name.\<close>

definition migrate_ctrl :: "inst_env \<Rightarrow> apk_fsdir \<Rightarrow> apk_protect_mode \<Rightarrow> bytes \<Rightarrow> nat option \<Rightarrow> nat \<Rightarrow> inst \<Rightarrow> fs_ctrl \<times> disk" where
  "migrate_ctrl env d mode filename ofile file st =
     (let fs = in_fs st; rec = map_option (fs_file fs) ofile in
      if (case ofile of None \<Rightarrow> False | Some f \<Rightarrow> pkg_name (in_pkg st (di_pkg (fs_diri fs (fl_diri (fs_file fs f))))) = None)
      then (APK_FS_CTRL_CANCEL, in_disk st)
      else if apk_protect_mode_none mode then (APK_FS_CTRL_COMMIT, in_disk st)
      else
        case apk_db_audit_file (ie_fo env) d filename rec (in_disk st) of
          (False, dk) \<Rightarrow> (APK_FS_CTRL_COMMIT, dk)
        | (True, dk) \<Rightarrow>
            if ie_clean_protected env then (APK_FS_CTRL_CANCEL, dk)
            else
              case apk_db_audit_file (ie_fo env) d filename (Some (fs_file fs file)) dk of
                (False, dk) \<Rightarrow> (APK_FS_CTRL_CANCEL, dk)
              | (True, dk) \<Rightarrow> (APK_FS_CTRL_APKNEW, dk))"

definition migrate_disk :: "inst_env \<Rightarrow> nat \<Rightarrow> apk_fsdir \<Rightarrow> apk_protect_mode \<Rightarrow> bool \<Rightarrow> bytes \<Rightarrow> nat option \<Rightarrow> nat \<Rightarrow> inst \<Rightarrow> inst outcome" where
  "migrate_disk env a d mode inetc filename ofile file st =
     (if fl_broken (fs_file (in_fs st) file) then Ret st
      else
        case migrate_ctrl env d mode filename ofile file st of
          (ctrl, dk) \<Rightarrow>
            (case apk_fsdir_file_control (ie_fo env) d filename ctrl dk of
               Fault \<Rightarrow> Fault
             | Ret (Inl e, dk) \<Rightarrow> Ret (break_files a (st\<lparr>in_disk := dk\<rparr>))
             | Ret (Inr _, dk) \<Rightarrow>
                 Ret (st\<lparr>in_disk := dk,
                        in_id_resets := (if inetc \<and> ctrl = APK_FS_CTRL_COMMIT \<and> filename \<in> {''passwd'', ''group''} then in_id_resets st + 1
                                         else in_id_resets st)\<rparr>)))"

text \<open>The file becomes the one that the database has under its name.\<close>

definition claim_file :: "fs_ops \<Rightarrow> apk_fsdir \<Rightarrow> apk_db_dir \<Rightarrow> bytes \<Rightarrow> nat option \<Rightarrow> nat \<Rightarrow> inst \<times> nat list option \<Rightarrow> (inst \<times> nat list option) outcome" where
  "claim_file fo d dir filename ofile file s =
     (case s of (st, fileids) \<Rightarrow>
        let key = \<lparr>fk_dirname = Some (dr_name dir), fk_filename = Some filename\<rparr>;
            hash = apk_blob_hash_seed (Some filename) (dr_hash dir);
            item = \<lparr>fe_file = file, fe_dirname = dr_name dir, fe_dirhash = dr_hash dir, fe_name = filename\<rparr>;
            add = (\<lambda>fs. fs\<lparr>fs_files := apk_hash_insert_hashed (fs_files fs) item hash\<rparr>)
        in case ofile of
             Some f \<Rightarrow>
               if f = file then Ret s
               else
                 let fs = upd_file f (\<lambda>x. x\<lparr>fl_audited := True\<rparr>) (in_fs st) in
                 (case apk_hash_delete_hashed (fs_files fs) key hash of
                    Fault \<Rightarrow> Fault
                  | Ret (_, h) \<Rightarrow> Ret (st\<lparr>in_fs := add (fs\<lparr>fs_files := h\<rparr>)\<rparr>, fileids))
           | None \<Rightarrow>
               (case (if fileids = None then (None, in_disk st) else fileid_get fo d filename (in_disk st)) of
                  (id', dk) \<Rightarrow>
                    let fileids = (case id' of None \<Rightarrow> fileids | Some i \<Rightarrow> map_option (\<lambda>is. is @ [i]) fileids);
                        fs = (in_fs st)\<lparr>fs_num_files := fs_num_files (in_fs st) + 1\<rparr>
                    in Ret (st\<lparr>in_fs := add fs, in_disk := dk\<rparr>, fileids)))"

definition db_file_at :: "file_db \<Rightarrow> apk_db_dir \<Rightarrow> bytes \<Rightarrow> nat option" where
  "db_file_at fs dir filename =
     map_option fe_file (apk_hash_get_hashed (fs_files fs) \<lparr>fk_dirname = Some (dr_name dir), fk_filename = Some filename\<rparr>
       (apk_blob_hash_seed (Some filename) (dr_hash dir)))"

definition migrate_file :: "inst_env \<Rightarrow> nat \<Rightarrow> apk_fsdir \<Rightarrow> nat \<Rightarrow> nat \<Rightarrow> inst \<times> nat list option \<Rightarrow> (inst \<times> nat list option) outcome" where
  "migrate_file env a d diri file s =
     (case s of (st, fileids) \<Rightarrow>
        let fs = in_fs st; dir = diri_dir fs diri; filename = fl_name (fs_file fs file); ofile = db_file_at fs dir filename in
        case migrate_disk env a d (dr_protect_mode dir) (dr_name dir = ''etc'') filename ofile file st of
          Fault \<Rightarrow> Fault
        | Ret st \<Rightarrow> claim_file (ie_fo env) d dir filename ofile file (st, fileids))"

text \<open>The directories of one priority; the priority to go on with is passed along.\<close>

definition migrate_diri :: "inst_env \<Rightarrow> nat \<Rightarrow> nat \<Rightarrow> nat \<Rightarrow> nat \<times> inst \<times> nat list option \<Rightarrow> (nat \<times> inst \<times> nat list option) outcome" where
  "migrate_diri env a priority diri s =
     (case s of (next_priority, st, fileids) \<Rightarrow>
        case apk_fsdir_get (diri_name (in_fs st) diri) (apk_pkg_ctx (in_pkg st a)) of
          Fault \<Rightarrow> Fault
        | Ret d \<Rightarrow>
            let p = apk_fsdir_priority d in
            if p \<noteq> priority then Ret (if p > priority \<and> p < next_priority then p else next_priority, st, fileids)
            else
              let st = st\<lparr>in_fs := upd_dir (di_dir (fs_diri (in_fs st) diri)) (\<lambda>x. x\<lparr>dr_modified := True\<rparr>) (in_fs st)\<rparr> in
              (case foldo (migrate_file env a d diri) (di_files (fs_diri (in_fs st) diri)) (st, fileids) of
                 Fault \<Rightarrow> Fault
               | Ret (st, fileids) \<Rightarrow> Ret (next_priority, st, fileids)))"

definition apk_db_migrate_files_for_priority ::
  "inst_env \<Rightarrow> nat \<Rightarrow> nat \<Rightarrow> inst \<times> nat list option \<Rightarrow> (nat \<times> inst \<times> nat list option) outcome" where
  "apk_db_migrate_files_for_priority env a priority s =
     (case s of (st, fileids) \<Rightarrow>
        foldo (migrate_diri env a priority) (ipkg_diris (ipkg_of st a)) (APK_FS_PRIO_MAX, st, fileids))"

text \<open>One pass for each priority below the last is enough.\<close>

fun migrate_loop :: "nat \<Rightarrow> inst_env \<Rightarrow> nat \<Rightarrow> nat \<Rightarrow> inst \<times> nat list option \<Rightarrow> (inst \<times> nat list option) outcome option" where
  "migrate_loop 0 env a prio s = (if prio = APK_FS_PRIO_MAX then Some (Ret s) else None)"
| "migrate_loop (Suc n) env a prio s =
     (if prio = APK_FS_PRIO_MAX then Some (Ret s)
      else
        case apk_db_migrate_files_for_priority env a prio s of
          Fault \<Rightarrow> Some Fault
        | Ret (prio, s) \<Rightarrow> migrate_loop n env a prio s)"

definition apk_db_migrate_files :: "inst_env \<Rightarrow> nat \<Rightarrow> inst \<times> nat list option \<Rightarrow> (inst \<times> nat list option) outcome option" where
  "apk_db_migrate_files env a s = migrate_loop APK_FS_PRIO_MAX env a APK_FS_PRIO_DISK s"

section \<open>Removing the files\<close>

text \<open>Whether the file is removed: not if another file of the new package has its inode, or if it was changed.\<close>

definition purge_wanted :: "fs_ops \<Rightarrow> bool \<Rightarrow> apk_fsdir \<Rightarrow> bytes \<Rightarrow> apk_db_file \<Rightarrow> nat list option \<Rightarrow> disk \<Rightarrow> bool \<times> disk" where
  "purge_wanted fo dirclean d filename rec fileids dk =
     (case (case fileids of
              None \<Rightarrow> (True, dk)
            | Some ids \<Rightarrow> (case fileid_get fo d filename dk of (id', dk) \<Rightarrow> (id' = None \<or> the id' \<notin> set ids, dk))) of
        (do_delete, dk) \<Rightarrow>
          if \<not> do_delete then (False, dk)
          else if dirclean then (True, dk)
          else case apk_db_audit_file fo d filename (Some rec) dk of (differs, dk) \<Rightarrow> (\<not> differs, dk))"

definition purge_disk :: "fs_ops \<Rightarrow> apk_fsdir \<Rightarrow> bytes \<Rightarrow> bool \<Rightarrow> fs_ctrl \<Rightarrow> bool \<Rightarrow> disk \<Rightarrow> disk outcome" where
  "purge_disk fo d filename del ctrl delapknew dk =
     (case (if del then apk_fsdir_file_control fo d filename ctrl dk else Ret (Inr 0, dk)) of
        Fault \<Rightarrow> Fault
      | Ret (_, dk) \<Rightarrow>
          (case (if delapknew then apk_fsdir_file_control fo d filename APK_FS_CTRL_DELETE_APKNEW dk else Ret (Inr 0, dk)) of
             Fault \<Rightarrow> Fault
           | Ret (_, dk) \<Rightarrow> Ret dk))"

definition purge_file ::
  "inst_env \<Rightarrow> apk_fsdir \<Rightarrow> apk_db_dir \<Rightarrow> bool \<Rightarrow> nat list option \<Rightarrow> nat \<Rightarrow> inst \<Rightarrow> inst outcome" where
  "purge_file env d dir is_installed fileids file st =
     (if fl_audited (fs_file (in_fs st) file) then Ret st
      else
        let rec = fs_file (in_fs st) file; filename = fl_name rec; none = apk_protect_mode_none (dr_protect_mode dir) in
        case purge_wanted (ie_fo env) (ie_purge env \<or> \<not> is_installed \<or> none) d filename rec fileids (in_disk st) of
          (del, dk) \<Rightarrow>
            (case purge_disk (ie_fo env) d filename del (if is_installed then APK_FS_CTRL_DELETE else APK_FS_CTRL_CANCEL)
                    (is_installed \<and> \<not> none) dk of
               Fault \<Rightarrow> Fault
             | Ret dk \<Rightarrow>
                 if \<not> is_installed then Ret (st\<lparr>in_disk := dk\<rparr>)
                 else
                   case apk_hash_delete_hashed (fs_files (in_fs st)) \<lparr>fk_dirname = Some (dr_name dir), fk_filename = Some filename\<rparr>
                          (apk_blob_hash_seed (Some filename) (dr_hash dir)) of
                     Fault \<Rightarrow> Fault
                   | Ret (_, h) \<Rightarrow>
                       Ret (st\<lparr>in_disk := dk, in_fs := (in_fs st)\<lparr>fs_files := h, fs_num_files := fs_num_files (in_fs st) - 1\<rparr>\<rparr>)))"

definition purge_diri :: "inst_env \<Rightarrow> nat \<Rightarrow> bool \<Rightarrow> nat list option \<Rightarrow> nat \<Rightarrow> inst \<Rightarrow> inst outcome" where
  "purge_diri env a is_installed fileids diri st =
     (let st = (if is_installed
                then st\<lparr>in_fs := upd_dir (di_dir (fs_diri (in_fs st) diri)) (\<lambda>x. x\<lparr>dr_modified := True\<rparr>) (in_fs st)\<rparr> else st);
          dir = diri_dir (in_fs st) diri
      in case apk_fsdir_get (dr_name dir) (apk_pkg_ctx (in_pkg st a)) of
           Fault \<Rightarrow> Fault
         | Ret d \<Rightarrow>
             (case foldo (purge_file env d dir is_installed fileids) (di_files (fs_diri (in_fs st) diri)) st of
                Fault \<Rightarrow> Fault
              | Ret st \<Rightarrow>
                  (case apk_db_diri_remove (ie_dir env) (in_pkg st) diri (in_fs st) of
                     None \<Rightarrow> Fault
                   | Some fs \<Rightarrow> Ret (st\<lparr>in_fs := fs\<rparr>))))"

text \<open>An empty list of inodes is no list; the sorted array is searched by \<open>in_set\<close>.\<close>

definition apk_db_purge_pkg :: "inst_env \<Rightarrow> nat \<Rightarrow> bool \<Rightarrow> nat list option \<Rightarrow> inst \<Rightarrow> inst outcome" where
  "apk_db_purge_pkg env a is_installed fileids st =
     (case foldo (purge_diri env a is_installed (if fileids = Some [] then None else fileids)) (ipkg_diris (ipkg_of st a)) st of
        Fault \<Rightarrow> Fault
      | Ret st \<Rightarrow> Ret (upd_ipkg_of a (\<lambda>i. i\<lparr>ipkg_diris := []\<rparr>) st))"

section \<open>The archive\<close>

text \<open>
  What the reader of an archive reports, in order; the result of reading it, or of finding it, comes last.
  An entry that fails ends the reading.
\<close>

datatype ext_event = Ev_script nat nat blob | Ev_file apk_file_info "apk_error + bytes"

fun apk_extract :: "inst_env \<Rightarrow> nat \<Rightarrow> ext_event list \<Rightarrow> apk_error option \<Rightarrow> inst \<Rightarrow> (apk_error option \<times> inst) outcome" where
  "apk_extract env a [] r st = Ret (r, st)"
| "apk_extract env a (Ev_script type sz data # evs) r st = apk_extract env a evs r (apk_db_install_script a type sz data st)"
| "apk_extract env a (Ev_file ae data # evs) r st =
     (case apk_db_install_file env a ae data st of
        Fault \<Rightarrow> Fault
      | Ret (Some e, st) \<Rightarrow> Ret (Some e, st)
      | Ret (None, st) \<Rightarrow> apk_extract env a evs r st)"

definition APK_SCRIPT_PRE_INSTALL :: nat where "APK_SCRIPT_PRE_INSTALL = 0"
definition APK_SCRIPT_POST_INSTALL :: nat where "APK_SCRIPT_POST_INSTALL = 1"
definition APK_SCRIPT_PRE_DEINSTALL :: nat where "APK_SCRIPT_PRE_DEINSTALL = 2"
definition APK_SCRIPT_POST_DEINSTALL :: nat where "APK_SCRIPT_POST_DEINSTALL = 3"
definition APK_SCRIPT_PRE_UPGRADE :: nat where "APK_SCRIPT_PRE_UPGRADE = 4"
definition APK_SCRIPT_POST_UPGRADE :: nat where "APK_SCRIPT_POST_UPGRADE = 5"

definition apk_db_unpack_pkg ::
  "inst_env \<Rightarrow> nat \<Rightarrow> bool \<Rightarrow> ext_event list \<times> apk_error option \<Rightarrow> inst \<Rightarrow> (apk_error option \<times> inst) outcome" where
  "apk_db_unpack_pkg env a upgrade arch st =
     (case apk_extract env a (fst arch) (snd arch)
             (st\<lparr>in_script := (if upgrade then APK_SCRIPT_PRE_UPGRADE else APK_SCRIPT_PRE_INSTALL), in_script_pending := False, in_size := 0\<rparr>) of
        Fault \<Rightarrow> Fault
      | Ret (Some e, st) \<Rightarrow> Ret (Some e, st)
      | Ret (None, st) \<Rightarrow> Ret (None, apk_db_run_pending_script env a st))"

section \<open>A package of a transaction\<close>

definition uninstall_pkg :: "nat \<Rightarrow> inst \<Rightarrow> inst" where
  "uninstall_pkg a st =
     (case apk_pkg_uninstall (in_idb st) (in_pkg st a) of (idb, p) \<Rightarrow> st\<lparr>in_idb := idb, in_pkg := (in_pkg st)(a := p)\<rparr>)"

definition create_ipkg :: "nat \<Rightarrow> inst \<Rightarrow> inst" where
  "create_ipkg a st =
     (case apk_pkg_install (in_idb st) (in_pkg st a) of
        (idb, p) \<Rightarrow>
          st\<lparr>in_idb := idb, in_pkg := (in_pkg st)(a := p),
             in_fs := (apk_db_ipkg_creator_reset (in_fs st))\<lparr>ic_diris := ipkg_diris (the (pkg_ipkg p))\<rparr>\<rparr>)"

text \<open>Flags of an earlier installation are cleared, and its triggers are dropped.\<close>

definition clear_ipkg :: "nat \<Rightarrow> inst \<Rightarrow> inst" where
  "clear_ipkg a st =
     (let st = upd_ipkg_of a (\<lambda>i. i\<lparr>ipkg_run_all_triggers := True, ipkg_broken_script := False, ipkg_broken_files := False,
                 ipkg_broken_xattr := False\<rparr>) st
      in case clear_triggers (in_idb st) (in_pkg st a) of
           (idb, p) \<Rightarrow> st\<lparr>in_idb := idb, in_pkg := (in_pkg st)(a := p)\<rparr>)"

definition commit_ipkg_of :: "nat \<Rightarrow> inst \<Rightarrow> inst" where
  "commit_ipkg_of a st =
     (case apk_db_ipkg_commit (in_fs st) of
        (diris, fs) \<Rightarrow> upd_ipkg_of a (\<lambda>i. i\<lparr>ipkg_diris := diris\<rparr>) (st\<lparr>in_fs := fs\<rparr>))"

text \<open>Unpacking and moving: the error, or the inodes of the files that are new.\<close>

definition install_new ::
  "inst_env \<Rightarrow> nat option \<Rightarrow> nat \<Rightarrow> ext_event list \<times> apk_error option \<Rightarrow> inst \<Rightarrow> ((apk_error + nat list option) \<times> inst) outcome" where
  "install_new env oldpkg a arch st =
     (if pkg_installed_size (in_pkg st a) = 0 then Ret (Inr (Some []), st)
      else
        case apk_db_unpack_pkg env a (oldpkg \<noteq> None) arch st of
          Fault \<Rightarrow> Fault
        | Ret (Some e, st) \<Rightarrow>
            (case (if oldpkg \<noteq> Some a then apk_db_purge_pkg env a False None (commit_ipkg_of a st) else Ret (commit_ipkg_of a st)) of
               Fault \<Rightarrow> Fault
             | Ret st \<Rightarrow> Ret (Inl e, uninstall_pkg a st))
        | Ret (None, st) \<Rightarrow>
            (case apk_db_migrate_files env a (commit_ipkg_of a st, if oldpkg = None then None else Some []) of
               Some (Ret (st, fileids)) \<Rightarrow> Ret (Inr (if oldpkg = None then Some [] else fileids), st)
             | _ \<Rightarrow> Fault))"

definition remove_pkg :: "inst_env \<Rightarrow> nat \<Rightarrow> inst \<Rightarrow> inst outcome" where
  "remove_pkg env old st =
     (if pkg_ipkg (in_pkg st old) = None then Ret st
      else
        case apk_db_purge_pkg env old True None (apk_ipkg_run_script env old APK_SCRIPT_PRE_DEINSTALL st) of
          Fault \<Rightarrow> Fault
        | Ret st \<Rightarrow> Ret (uninstall_pkg old (apk_ipkg_run_script env old APK_SCRIPT_POST_DEINSTALL st)))"

text \<open>The result is whether everything went well; an error of unpacking is reported as it is.\<close>

datatype inst_result = Inst_ok | Inst_broken | Inst_error apk_error

definition apk_db_install_pkg ::
  "inst_env \<Rightarrow> nat option \<Rightarrow> nat option \<Rightarrow> ext_event list \<times> apk_error option \<Rightarrow> inst \<Rightarrow> (inst_result \<times> inst) outcome" where
  "apk_db_install_pkg env oldpkg newpkg arch st =
     (case newpkg of
        None \<Rightarrow> (case remove_pkg env (the oldpkg) st of Fault \<Rightarrow> Fault | Ret st \<Rightarrow> Ret (Inst_ok, st))
      | Some a \<Rightarrow>
          (case install_new env oldpkg a arch (clear_ipkg a (create_ipkg a st)) of
             Fault \<Rightarrow> Fault
           | Ret (Inl e, st) \<Rightarrow> Ret (Inst_error e, st)
           | Ret (Inr fileids, st) \<Rightarrow>
               (case (case oldpkg of
                        None \<Rightarrow> Ret st
                      | Some old \<Rightarrow>
                          if old = a \<or> pkg_ipkg (in_pkg st old) = None then Ret st
                          else case apk_db_purge_pkg env old True fileids st of Fault \<Rightarrow> Fault | Ret st \<Rightarrow> Ret (uninstall_pkg old st)) of
                  Fault \<Rightarrow> Fault
                | Ret st \<Rightarrow>
                    let st = apk_ipkg_run_script env a (if oldpkg = None then APK_SCRIPT_POST_INSTALL else APK_SCRIPT_POST_UPGRADE) st;
                        i = ipkg_of st a
                    in Ret (if ipkg_broken_files i \<or> ipkg_broken_script i then Inst_broken else Inst_ok, st))))"

end
