(* ===== verification/Install_Safe.thy ===== *)
theory Install_Safe
  imports Install Fdb_Files
begin

text \<open>
  What moving and removing the files of a package does to the disk and to the table of files. The table is
  a map from paths to files: moving the files of a package claims their paths and no others. Files that
  were changed by hand in protected directories stay as they are.
\<close>

section \<open>Loops\<close>

lemma foldo_append: "foldo f (xs @ ys) s = (case foldo f xs s of Fault \<Rightarrow> Fault | Ret s \<Rightarrow> foldo f ys s)"
  by (induction xs arbitrary: s) (auto split: outcome.split)

lemma foldo_inv:
  assumes "\<And>x s. x \<in> set xs \<Longrightarrow> I s \<Longrightarrow> \<exists>s'. f x s = Ret s' \<and> I s'" "I s"
  shows "\<exists>s'. foldo f xs s = Ret s' \<and> I s'"
  using assms
proof (induction xs arbitrary: s)
  case (Cons x xs)
  obtain s' where "f x s = Ret s'" "I s'" using Cons.prems by force
  then show ?case using Cons by simp
qed simp

text \<open>One element leads from the first property to the second, and the others keep both.\<close>

lemma foldo_once:
  assumes "x \<in> set xs" "distinct xs"
    and "\<And>y s. y \<in> set xs \<Longrightarrow> y \<noteq> x \<Longrightarrow> I s \<Longrightarrow> \<exists>s'. f y s = Ret s' \<and> I s'"
    and "\<And>y s. y \<in> set xs \<Longrightarrow> y \<noteq> x \<Longrightarrow> J s \<Longrightarrow> \<exists>s'. f y s = Ret s' \<and> J s'"
    and "\<And>s. I s \<Longrightarrow> \<exists>s'. f x s = Ret s' \<and> J s'" "I s"
  shows "\<exists>s'. foldo f xs s = Ret s' \<and> J s'"
proof -
  obtain ys zs where xs: "xs = ys @ x # zs" using assms(1) by (meson split_list)
  have nx: "x \<notin> set ys" "x \<notin> set zs" using assms(2) xs by auto
  have "\<exists>s'. foldo f ys s = Ret s' \<and> I s'" by (rule foldo_inv) (use assms(3,6) xs nx in auto)
  then obtain s1 where s1: "foldo f ys s = Ret s1" "I s1" by blast
  obtain s2 where s2: "f x s1 = Ret s2" "J s2" using assms(5) [OF s1(2)] by blast
  have "\<exists>s'. foldo f zs s2 = Ret s' \<and> J s'" by (rule foldo_inv) (use assms(4) s2(2) xs nx in auto)
  then show ?thesis using s1 s2 by (auto simp: xs foldo_append)
qed

section \<open>The disk\<close>

text \<open>Calls that only look leave everything but the log alone.\<close>

definition same_disk :: "disk \<Rightarrow> disk \<Rightarrow> bool" where
  "same_disk dk dk' \<longleftrightarrow> dk_path dk' = dk_path dk \<and> dk_node dk' = dk_node dk \<and> dk_next dk' = dk_next dk"

lemma same_disk_refl [simp]: "same_disk dk dk" by (simp add: same_disk_def)

lemma try_same: "sys_try sys c dk = (e, dk') \<Longrightarrow> same_disk dk dk'"
  by (auto simp: sys_try_def same_disk_def)

lemma same_disk_trans [trans]: "same_disk a b \<Longrightarrow> same_disk b c \<Longrightarrow> same_disk a c"
  by (simp add: same_disk_def)

lemma fileinfo_same: "apk_fileinfo_get fo p alg dk = (r, dk') \<Longrightarrow> same_disk dk dk'"
  by (auto simp: apk_fileinfo_get_def Let_def split: prod.splits option.splits if_splits dest!: try_same intro: same_disk_trans)

lemma info_same: "apk_fsdir_file_info fo d n alg dk = (r, dk') \<Longrightarrow> same_disk dk dk'"
  by (auto simp: apk_fsdir_file_info_def fsys_file_info_def split: if_splits dest: fileinfo_same)

lemma audit_same: "apk_db_audit_file fo d n f dk = (r, dk') \<Longrightarrow> same_disk dk dk'"
  by (auto simp: apk_db_audit_file_def Let_def split: prod.splits sum.splits dest: info_same)

lemma fileid_same: "fileid_get fo d n dk = (r, dk') \<Longrightarrow> same_disk dk dk'"
  by (auto simp: fileid_get_def split: prod.splits sum.splits dest: info_same)

text \<open>Paths that a call may change; the inodes stay.\<close>

definition only_paths :: "bytes set \<Rightarrow> disk \<Rightarrow> disk \<Rightarrow> bool" where
  "only_paths P dk dk' \<longleftrightarrow> dk_node dk' = dk_node dk \<and> (\<forall>p. p \<notin> P \<longrightarrow> dk_path dk' p = dk_path dk p)"

lemma only_refl [simp]: "only_paths P dk dk" by (simp add: only_paths_def)

lemma only_same: "same_disk dk dk' \<Longrightarrow> only_paths P dk dk'" by (simp add: only_paths_def same_disk_def)

lemma only_trans [trans]: "only_paths P a b \<Longrightarrow> only_paths P b c \<Longrightarrow> only_paths P a c" by (simp add: only_paths_def)

lemma only_mono: "only_paths P a b \<Longrightarrow> P \<subseteq> Q \<Longrightarrow> only_paths Q a b" by (auto simp: only_paths_def)

lemma do_only:
  assumes "\<And>dk dk'. act dk = Inr dk' \<Longrightarrow> only_paths P dk dk'"
  shows "only_paths P dk (snd (sys_do sys c act dk))"
proof -
  obtain e dk1 where t: "sys_try sys c dk = (e, dk1)" by fastforce
  have s: "only_paths P dk dk1" using try_same [OF t] by (rule only_same)
  show ?thesis
  proof (cases e)
    case None
    then show ?thesis using t s assms by (cases "act dk1") (auto simp: sys_do_def intro: only_trans)
  qed (use t s in \<open>simp add: sys_do_def\<close>)
qed

lemma unlink_only: "only_paths {resolve p} dk (snd (unlinkat sys p dk))"
  unfolding unlinkat_def by (rule do_only) (auto simp: only_paths_def split: if_splits)

lemma rename_only: "only_paths {resolve a, resolve b} dk (snd (renameat sys a b dk))"
  unfolding renameat_def by (rule do_only) (auto simp: only_paths_def split: if_splits option.splits)

section \<open>Names\<close>

lemma hex_len: "length (concat (map hex_byte xs)) = 2 * length xs"
  by (induction xs) (auto simp: hex_byte_def)

lemma push_blob_some: "apk_blob_push_blob (Some (xs, n)) (Some ys) = (if length ys \<le> n then Some (xs @ ys, n - length ys) else None)"
  by (auto simp: apk_blob_push_blob_def blob_len_def blob_bytes_def)

lemma tmpname_fits:
  assumes "length dir + 2 < PATH_MAX"
  shows "format_tmpname sha ctx (Some dir) full =
    Some (cstr (dir @ (if dir = [] then ''.apk.'' else ''/.apk.'') @ concat (map hex_byte (take 24 (sha (blob_bytes ctx @ full)))) @ [NUL]))"
proof -
  define x where "x = take 24 (sha (blob_bytes ctx @ full))"
  define sep where "sep = (if dir = [] then ''.apk.'' else ''/.apk.'')"
  have x: "length x \<le> 24" by (simp add: x_def)
  have sep: "length sep \<le> 6" by (simp add: sep_def)
  have lit: "(if blob_len (Some dir) > 0 then ''/.apk.'' else ''.apk.'') = sep" by (simp add: sep_def blob_len_def)
  have b1: "apk_blob_push_blob (APK_BLOB_BUF TMPNAME_MAX) (Some dir) = Some (dir, 4160 - length dir)"
    using assms by (simp add: APK_BLOB_BUF_def push_blob_some TMPNAME_MAX_def PATH_MAX_def)
  have b2: "apk_blob_push_blob (Some (dir, 4160 - length dir)) (Some sep) = Some (dir @ sep, 4160 - length dir - length sep)"
    using assms sep by (simp add: push_blob_some PATH_MAX_def)
  have b3: "apk_blob_push_hexdump (Some (dir @ sep, 4160 - length dir - length sep)) (Some x) =
      Some ((dir @ sep) @ concat (map hex_byte x), 4160 - length dir - length sep - length x * 2)"
    using x sep assms by (simp add: apk_blob_push_hexdump_def blob_len_def blob_bytes_def PATH_MAX_def)
  have "0 < 4160 - length dir - length sep - length x * 2" using x sep assms by (simp add: PATH_MAX_def)
  then show ?thesis
    unfolding format_tmpname_def x_def [symmetric] Let_def lit b1 b2 b3 by (simp add: push_blob_some sep_def)
qed

text \<open>
  The names of a file: its place, the temporary name and the name beside it. The temporary name exists as the
  path of the directory is short enough.
\<close>

definition tmp_of :: "fs_ops \<Rightarrow> apk_fsdir \<Rightarrow> bytes \<Rightarrow> bytes" where
  "tmp_of fo d n = the (format_tmpname (fo_sha256 fo) (fd_pkgctx d) (Some (fd_path d)) (fsdir_push d n))"

definition new_of :: "fs_ops \<Rightarrow> apk_fsdir \<Rightarrow> bytes \<Rightarrow> bytes" where
  "new_of fo d n = fsdir_push d n @ fo_suffix fo"

definition dir_fits :: "apk_fsdir \<Rightarrow> bool" where "dir_fits d \<longleftrightarrow> length (fd_path d) + 2 < PATH_MAX"

lemma control_only:
  assumes "dir_fits d" "length n < 4000" "ctrl \<in> {APK_FS_CTRL_COMMIT, APK_FS_CTRL_DELETE} \<longrightarrow> resolve (fsdir_push d n) \<in> P" "{resolve (tmp_of fo d n), resolve (new_of fo d n)} \<subseteq> P"
  shows "\<exists>r dk'. apk_fsdir_file_control fo d n ctrl dk = Ret (r, dk') \<and> only_paths P dk dk'"
proof (cases "is_uvol (fd_path d)")
  case True
  have run: "only_paths P dk (snd (uvol_run fo args dk))" for args dk
    using try_same [of "fo_sys fo" "Uvol_run args" dk] by (auto simp: uvol_run_def split: prod.split intro: only_same)
  have len: "length n + 2 < PATH_MAX" using assms(2) by (simp add: PATH_MAX_def)
  obtain e dk1 where down: "uvol_run fo [''down'', n] dk = (e, dk1)" by fastforce
  have "only_paths P dk dk1" using run [where args = "[''down'', n]" and dk = dk] down by simp
  moreover have "only_paths P dk1 (snd (uvol_run fo [''remove'', n] dk1))" "only_paths P dk (snd (uvol_run fo [''up'', n] dk))" by (rule run)+
  ultimately show ?thesis using True len down
    by (cases "fo_uvol_error fo"; cases ctrl; cases e)
      (auto simp: apk_fsdir_file_control_def uvol_file_control_def plain_result_def intro: only_trans)
next
  case False
  let ?fn = "fsdir_push d n" and ?tmp = "tmp_of fo d n" and ?new = "new_of fo d n"
  have tmp: "format_tmpname (fo_sha256 fo) (fd_pkgctx d) (Some (fd_path d)) ?fn = Some ?tmp"
    using tmpname_fits assms(1) by (simp add: tmp_of_def dir_fits_def)
  have new: "apknewname fo ?fn = None \<or> apknewname fo ?fn = Some ?new" by (simp add: apknewname_def new_of_def Let_def)
  note u = unlink_only [THEN only_mono, of _ P]
  note r = rename_only [THEN only_mono, of _ _ P]
  have commit: "only_paths P dk (snd (ctrl_commit fo ?tmp ?fn dk))" if "resolve ?fn \<in> P" for dk
  proof -
    obtain e dk1 where e: "renameat (fo_sys fo) ?tmp ?fn dk = (e, dk1)" by fastforce
    have "only_paths P dk dk1" using r [of ?tmp ?fn dk "fo_sys fo"] that assms(4) e by simp
    moreover have "only_paths P dk1 (snd (unlinkat (fo_sys fo) ?tmp dk1))" using u assms(4) by simp
    moreover have "only_paths P dk1 (snd (sys_try (fo_sys fo) (Shim_install ?fn) dk1))" by (simp add: sys_try_def only_paths_def)
    ultimately show ?thesis using e
      by (cases e; cases "sys_try (fo_sys fo) (Shim_install ?fn) dk1")
        (auto simp: ctrl_commit_def split: option.splits intro: only_trans)
  qed
  show ?thesis
  proof (cases ctrl)
    case APK_FS_CTRL_COMMIT
    then show ?thesis using False tmp commit assms(3) by (simp add: apk_fsdir_file_control_def fsys_file_control_def prod_eq_iff)
  next
    case APK_FS_CTRL_APKNEW
    then show ?thesis using False tmp new r assms(4) by (auto simp: apk_fsdir_file_control_def fsys_file_control_def plain_result_def)
  next
    case APK_FS_CTRL_CANCEL
    then show ?thesis using False tmp u assms(4) by (simp add: apk_fsdir_file_control_def fsys_file_control_def plain_result_def)
  next
    case APK_FS_CTRL_DELETE
    obtain e dk1 where e: "unlinkat (fo_sys fo) ?fn dk = (e, dk1)" by fastforce
    have "only_paths P dk dk1" using u [of ?fn dk "fo_sys fo"] e assms(3) APK_FS_CTRL_DELETE by simp
    moreover have "only_paths P dk1 (snd (sys_try (fo_sys fo) (Shim_remove ?fn) dk1))" by (simp add: sys_try_def only_paths_def)
    ultimately show ?thesis using APK_FS_CTRL_DELETE False tmp e
      by (cases e) (auto simp: apk_fsdir_file_control_def fsys_file_control_def intro: only_trans)
  next
    case APK_FS_CTRL_DELETE_APKNEW
    then show ?thesis using False tmp new u assms(4) by (auto simp: apk_fsdir_file_control_def fsys_file_control_def)
  qed
qed

section \<open>The table of files as a map\<close>

definition owner_map :: "file_db \<Rightarrow> bytes \<times> bytes \<Rightarrow> nat option" where
  "owner_map fs p = map_option fe_file (table_map file_path ((fs_files fs)\<lparr>hash_ops := file_ops\<rparr>) p)"

definition hash_fits :: "apk_db_dir \<Rightarrow> bool" where "hash_fits dir \<longleftrightarrow> dr_hash dir = apk_blob_hash (Some (dr_name dir))"

lemma matches_same: "item_matches file_ops = item_matches file_hash_ops"
  by (simp add: item_matches_def file_ops_def file_hash_ops_def fun_eq_iff)

lemma get_same: "hash_ops h = file_hash_ops \<Longrightarrow> apk_hash_get_hashed (h\<lparr>hash_ops := file_ops\<rparr>) k hash = apk_hash_get_hashed h k hash"
  by (simp add: apk_hash_get_hashed_def bucket_of_def matches_same)

lemma at_is_owner: "files_ok fs \<Longrightarrow> hash_fits dir \<Longrightarrow> db_file_at fs dir n = owner_map fs (dr_name dir, n)"
proof -
  assume ok: "files_ok fs" and h: "hash_fits dir"
  let ?h = "(fs_files fs)\<lparr>hash_ops := file_ops\<rparr>" and ?k = "\<lparr>fk_dirname = Some (dr_name dir), fk_filename = Some n\<rparr>"
  have t: "hash_table file_ops ?h" "hash_ops (fs_files fs) = file_hash_ops" using ok by (simp_all add: files_ok_def)
  have "apk_hash_get_hashed ?h ?k (apk_blob_hash_seed (Some n) (dr_hash dir)) = table_map file_path ?h (dr_name dir, n)"
    using file_table.get_hashed_is_map [OF t(1), of _ ?k] h
    by (simp add: apk_hash_from_key_def file_ops_def file_hash_ops_def apk_db_file_hash_key_def hash_fits_def blob_bytes_def)
  then show ?thesis by (simp add: db_file_at_def owner_map_def get_same [OF t(2)])
qed

lemma insert_owner:
  fixes f :: nat
  assumes "files_ok fs" "hash_fits dir" "owner_map fs (dr_name dir, n) = None"
  defines "fs' \<equiv> fs\<lparr>fs_files := apk_hash_insert_hashed (fs_files fs)
      \<lparr>fe_file = f, fe_dirname = dr_name dir, fe_dirhash = dr_hash dir, fe_name = n\<rparr> (apk_blob_hash_seed (Some n) (dr_hash dir))\<rparr>"
  shows "files_ok fs'" "owner_map fs' = (owner_map fs)((dr_name dir, n) \<mapsto> f)"
proof -
  let ?h = "(fs_files fs)\<lparr>hash_ops := file_ops\<rparr>"
    and ?i = "\<lparr>fe_file = f, fe_dirname = dr_name dir, fe_dirhash = dr_hash dir, fe_name = n\<rparr>"
  have t: "hash_table file_ops ?h" "keys_distinct file_path ?h" "hash_ops (fs_files fs) = file_hash_ops" using assms(1) by (simp_all add: files_ok_def)
  have h: "apk_blob_hash_seed (Some n) (dr_hash dir) = apk_hash_from_item ?h ?i"
    using assms(2) by (simp add: apk_hash_from_item_def file_ops_def hash_fits_def)
  have e: "(fs_files fs')\<lparr>hash_ops := file_ops\<rparr> = apk_hash_insert ?h ?i"
    by (simp add: fs'_def apk_hash_insert_def h [symmetric] apk_hash_insert_hashed_def bucket_of_def Let_def)
  have none: "table_map file_path ?h (file_path ?i) = None" using assms(3) by (simp add: owner_map_def file_path_def)
  have "hash_ops (fs_files fs') = file_hash_ops" using t(3) by (simp add: fs'_def apk_hash_insert_hashed_def Let_def)
  then show "files_ok fs'"
    using file_table.insert_table [OF t(1)] file_table.insert_distinct [OF t(1,2) none] by (simp add: files_ok_def e)
  have "table_map file_path (apk_hash_insert ?h ?i) = (table_map file_path ?h)(file_path ?i \<mapsto> ?i)"
    using file_table.insert_map [OF t(1), of ?i "\<lparr>fk_dirname = Some (dr_name dir), fk_filename = Some n\<rparr>"] by (simp add: file_path_def blob_bytes_def)
  then show "owner_map fs' = (owner_map fs)((dr_name dir, n) \<mapsto> f)" by (auto simp: owner_map_def e file_path_def fun_eq_iff)
qed

lemma delete_distinct:
  assumes "hash_ok h" "keys_distinct g h" "apk_hash_delete_hashed h k hash = Ret (fr, h')"
  shows "keys_distinct g h'"
proof (cases "apk_hash_get_hashed h k hash")
  case None
  then show ?thesis using assms(2,3) by (auto simp: apk_hash_delete_hashed_def Let_def split: if_splits)
next
  case (Some i)
  let ?b = "bucket_of h hash"
  have lt: "?b < length (buckets h)" using assms(1) by (intro bucket_of_less hash_ok_nonempty)
  obtain us vs where split: "hash_items h = us @ (buckets h ! ?b) @ vs" "hash_items h' = us @ remove1 i (buckets h ! ?b) @ vs"
    using map_concat_update_split [OF lt] assms(3) Some by (auto simp: apk_hash_delete_hashed_def hash_items_def Let_def split: if_splits)
  have "distinct (map g (remove1 i xs))" if "distinct (map g xs)" for xs
    using that by (induction xs) (auto simp: image_iff dest: in_set_remove1_mem)
  moreover have sub: "g ` set (remove1 i (buckets h ! ?b)) \<subseteq> g ` set (buckets h ! ?b)" using set_remove1_subset by (rule image_mono)
  moreover have "distinct (map g us)" "distinct (map g (buckets h ! ?b))" "distinct (map g vs)" "g ` set (buckets h ! ?b) \<inter> g ` set vs = {}"
    "g ` set us \<inter> (g ` set (buckets h ! ?b) \<union> g ` set vs) = {}" using assms(2) unfolding keys_distinct_def split by simp_all
  ultimately have "distinct (map g us)" "distinct (map g (remove1 i (buckets h ! ?b)))" "distinct (map g vs)"
    "g ` set (remove1 i (buckets h ! ?b)) \<inter> g ` set vs = {}" "g ` set us \<inter> (g ` set (remove1 i (buckets h ! ?b)) \<union> g ` set vs) = {}" by blast+
  then show ?thesis unfolding keys_distinct_def split by simp
qed

lemma delete_owner:
  assumes "files_ok fs" "hash_fits dir"
  obtains fr h where "apk_hash_delete_hashed (fs_files fs) \<lparr>fk_dirname = Some (dr_name dir), fk_filename = Some n\<rparr>
      (apk_blob_hash_seed (Some n) (dr_hash dir)) = Ret (fr, h)" "files_ok (fs\<lparr>fs_files := h\<rparr>)"
    "owner_map (fs\<lparr>fs_files := h\<rparr>) = (owner_map fs)((dr_name dir, n) := None)"
proof -
  let ?h = "(fs_files fs)\<lparr>hash_ops := file_ops\<rparr>" and ?k = "\<lparr>fk_dirname = Some (dr_name dir), fk_filename = Some n\<rparr>"
    and ?hash = "apk_blob_hash_seed (Some n) (dr_hash dir)"
  have t: "hash_table file_ops ?h" "keys_distinct file_path ?h" "hash_ops (fs_files fs) = file_hash_ops" using assms(1) by (simp_all add: files_ok_def)
  have key: "?hash = apk_hash_from_key ?h ?k"
    using assms(2) by (simp add: apk_hash_from_key_def file_ops_def file_hash_ops_def apk_db_file_hash_key_def hash_fits_def)
  have "compare_item file_hash_ops \<noteq> None" by (simp add: file_hash_ops_def)
  then obtain fr h where d: "apk_hash_delete_hashed (fs_files fs) ?k ?hash = Ret (fr, h)" "hash_ops h = file_hash_ops"
    using t(3) by (cases "apk_hash_get_hashed (fs_files fs) ?k ?hash") (auto simp: apk_hash_delete_hashed_def Let_def)
  have d': "apk_hash_delete_hashed ?h ?k (apk_hash_from_key ?h ?k) = Ret (fr, h\<lparr>hash_ops := file_ops\<rparr>)"
    using d(1) t(3) unfolding apk_hash_delete_hashed_def Let_def key [symmetric] get_same [OF t(3)]
    by (cases "apk_hash_get_hashed (fs_files fs) ?k ?hash") (auto simp: file_ops_def file_hash_ops_def bucket_of_def)
  have "hash_table file_ops (h\<lparr>hash_ops := file_ops\<rparr>)" by (rule file_table.delete_table [OF t(1) d'])
  moreover have m: "table_map file_path (h\<lparr>hash_ops := file_ops\<rparr>) = (table_map file_path ?h)((dr_name dir, n) := None)"
    using file_table.delete_map [OF t(1,2) d'] by (simp add: blob_bytes_def)
  moreover have "keys_distinct file_path (h\<lparr>hash_ops := file_ops\<rparr>)"
    using delete_distinct [OF _ t(2) d'] t(1) by (simp add: hash_table_def)
  ultimately show thesis using that [of fr h] d by (auto simp: files_ok_def owner_map_def fun_eq_iff)
qed

section \<open>What moving files leaves alone\<close>

definition files_same :: "inst \<Rightarrow> inst \<Rightarrow> bool" where
  "files_same st st' \<longleftrightarrow>
     fs_diri (in_fs st') = fs_diri (in_fs st) \<and>
     (\<forall>d. dr_name (fs_dir (in_fs st') d) = dr_name (fs_dir (in_fs st) d) \<and> dr_hash (fs_dir (in_fs st') d) = dr_hash (fs_dir (in_fs st) d) \<and>
        dr_protect_mode (fs_dir (in_fs st') d) = dr_protect_mode (fs_dir (in_fs st) d)) \<and>
     (\<forall>f. (fs_file (in_fs st') f)\<lparr>fl_audited := False\<rparr> = (fs_file (in_fs st) f)\<lparr>fl_audited := False\<rparr>) \<and>
     (\<forall>a. pkg_name (in_pkg st' a) = pkg_name (in_pkg st a) \<and> (pkg_ipkg (in_pkg st' a) = None \<longleftrightarrow> pkg_ipkg (in_pkg st a) = None) \<and>
        map_option ipkg_diris (pkg_ipkg (in_pkg st' a)) = map_option ipkg_diris (pkg_ipkg (in_pkg st a)))"

lemma files_same_refl [simp]: "files_same st st"
  by (auto simp: files_same_def)

lemma files_same_trans [trans]: "files_same a b \<Longrightarrow> files_same b c \<Longrightarrow> files_same a c"
  by (simp add: files_same_def)

lemma files_same_break: "files_same st (break_files a (st\<lparr>in_disk := dk\<rparr>))"
  by (auto simp: files_same_def break_files_def upd_ipkg_of_def option.map_comp comp_def)

lemma files_same_disk: "files_same st (st\<lparr>in_disk := dk, in_id_resets := n\<rparr>)" "files_same st (st\<lparr>in_disk := dk\<rparr>)"
  by (auto simp: files_same_def)

lemma ctrl_same: "migrate_ctrl env d m n o' f st = (c, dk) \<Longrightarrow> same_disk (in_disk st) dk \<and> c \<notin> {APK_FS_CTRL_DELETE, APK_FS_CTRL_DELETE_APKNEW}"
  by (auto simp: migrate_ctrl_def Let_def split: prod.splits bool.splits if_splits option.splits dest: audit_same intro: same_disk_trans)

lemma name_len: "length (fl_name f) < 256"
proof -
  have "unat (fl_namelen f) < 2 ^ LENGTH(8)" by (rule unsigned_less)
  then show ?thesis by (simp add: fl_name_def min_less_iff_disj)
qed

lemma migrate_disk_spec:
  assumes "dir_fits d" "n = fl_name (fs_file (in_fs st) file)"
    and P: "{resolve (tmp_of (ie_fo env) d n), resolve (new_of (ie_fo env) d n)} \<subseteq> P"
      "fst (migrate_ctrl env d m n o' file st) = APK_FS_CTRL_COMMIT \<longrightarrow> resolve (fsdir_push d n) \<in> P"
  shows "\<exists>st'. migrate_disk env a d m e n o' file st = Ret st' \<and> in_fs st' = in_fs st \<and> files_same st st' \<and> only_paths P (in_disk st) (in_disk st')"
proof (cases "fl_broken (fs_file (in_fs st) file)")
  case True
  then show ?thesis by (simp add: migrate_disk_def)
next
  case False
  obtain c dk where c: "migrate_ctrl env d m n o' file st = (c, dk)" by fastforce
  note s = ctrl_same [OF c]
  have "length n < 4000" using name_len [of "fs_file (in_fs st) file"] assms(2) by simp
  then obtain r dk' where k: "apk_fsdir_file_control (ie_fo env) d n c dk = Ret (r, dk')" "only_paths P dk dk'"
    using control_only [OF assms(1) _ _ P(1), of c dk] P(2) c s by fastforce
  have "only_paths P (in_disk st) dk'" using only_trans [OF only_same k(2)] s by blast
  then show ?thesis using False c k
    by (cases r) (auto simp: migrate_disk_def files_same_break files_same_disk, simp_all add: break_files_def upd_ipkg_of_def)
qed

lemma claim_spec:
  assumes ok: "files_ok (in_fs st)" "hash_fits dir" and o': "o' = owner_map (in_fs st) (dr_name dir, n)"
  shows "\<exists>st' ids'. claim_file fo d dir n o' f (st, ids) = Ret (st', ids') \<and> files_same st st' \<and> files_ok (in_fs st') \<and>
    owner_map (in_fs st') = (owner_map (in_fs st))((dr_name dir, n) \<mapsto> f) \<and> same_disk (in_disk st) (in_disk st')"
proof (cases o')
  case None
  obtain i dk where i: "(if ids = None then (None, in_disk st) else fileid_get fo d n (in_disk st)) = (i, dk)" by fastforce
  have dk: "same_disk (in_disk st) dk" using i fileid_same by (auto split: if_splits)
  let ?fs = "(in_fs st)\<lparr>fs_num_files := fs_num_files (in_fs st) + 1\<rparr>"
  have "files_ok ?fs" "owner_map ?fs = owner_map (in_fs st)" using ok(1) by (simp_all add: files_ok_def owner_map_def fun_eq_iff)
  then show ?thesis using insert_owner [of ?fs dir n f] ok(2) None o' i dk
    by (auto simp: claim_file_def Let_def files_same_def)
next
  case (Some g)
  show ?thesis
  proof (cases "g = f")
    case True
    then have "owner_map (in_fs st) = (owner_map (in_fs st))((dr_name dir, n) \<mapsto> f)" using Some o' by auto
    then show ?thesis using True Some ok(1) by (simp add: claim_file_def)
  next
    case False
    let ?fs = "upd_file g (\<lambda>x. x\<lparr>fl_audited := True\<rparr>) (in_fs st)"
    have fs: "files_ok ?fs" "owner_map ?fs = owner_map (in_fs st)" "fs_files ?fs = fs_files (in_fs st)"
      using ok(1) by (simp_all add: files_ok_def owner_map_def upd_file_def fun_eq_iff)
    obtain fr h where h: "apk_hash_delete_hashed (fs_files ?fs) \<lparr>fk_dirname = Some (dr_name dir), fk_filename = Some n\<rparr>
        (apk_blob_hash_seed (Some n) (dr_hash dir)) = Ret (fr, h)" "files_ok (?fs\<lparr>fs_files := h\<rparr>)"
      "owner_map (?fs\<lparr>fs_files := h\<rparr>) = (owner_map ?fs)((dr_name dir, n) := None)"
      by (rule delete_owner [OF fs(1) ok(2)])
    have "files_same st (st\<lparr>in_fs := ?fs\<lparr>fs_files := k\<rparr>\<rparr>)" for k
      by (auto simp: files_same_def upd_file_def)
    then show ?thesis using insert_owner [OF h(2) ok(2), of n f] h(1,3) fs False Some
      by (simp add: claim_file_def Let_def)
  qed
qed

text \<open>The file of a package in a directory instance: its directory on the disk, the key of the table, its place.\<close>

definition fsdir_of :: "inst \<Rightarrow> nat \<Rightarrow> nat \<Rightarrow> apk_fsdir" where
  "fsdir_of st a diri = \<lparr>fd_path = diri_name (in_fs st) diri, fd_pkgctx = apk_pkg_ctx (in_pkg st a)\<rparr>"

definition key_of :: "inst \<Rightarrow> nat \<Rightarrow> nat \<Rightarrow> bytes \<times> bytes" where
  "key_of st diri f = (diri_name (in_fs st) diri, fl_name (fs_file (in_fs st) f))"

definition place_of :: "inst \<Rightarrow> nat \<Rightarrow> nat \<Rightarrow> nat \<Rightarrow> bytes" where
  "place_of st a diri f = resolve (fsdir_push (fsdir_of st a diri) (fl_name (fs_file (in_fs st) f)))"

definition other_names :: "fs_ops \<Rightarrow> inst \<Rightarrow> nat \<Rightarrow> nat \<Rightarrow> nat \<Rightarrow> bytes set" where
  "other_names fo st a diri f =
     {resolve (tmp_of fo (fsdir_of st a diri) (fl_name (fs_file (in_fs st) f))),
      resolve (new_of fo (fsdir_of st a diri) (fl_name (fs_file (in_fs st) f)))}"

lemma same_file: "files_same st st' \<Longrightarrow> fl_name (fs_file (in_fs st') f) = fl_name (fs_file (in_fs st) f) \<and>
    fl_digest_alg (fs_file (in_fs st') f) = fl_digest_alg (fs_file (in_fs st) f) \<and> fl_diri (fs_file (in_fs st') f) = fl_diri (fs_file (in_fs st) f) \<and>
    apk_dbf_digest_blob (fs_file (in_fs st') f) = apk_dbf_digest_blob (fs_file (in_fs st) f)"
proof -
  assume "files_same st st'"
  then have "(fs_file (in_fs st') f)\<lparr>fl_audited := False\<rparr> = (fs_file (in_fs st) f)\<lparr>fl_audited := False\<rparr>" by (simp add: files_same_def)
  then have "fl_cname (fs_file (in_fs st') f) = fl_cname (fs_file (in_fs st) f)" "fl_namelen (fs_file (in_fs st') f) = fl_namelen (fs_file (in_fs st) f)"
    "fl_digest_alg (fs_file (in_fs st') f) = fl_digest_alg (fs_file (in_fs st) f)" "fl_diri (fs_file (in_fs st') f) = fl_diri (fs_file (in_fs st) f)"
    "fl_digest (fs_file (in_fs st') f) = fl_digest (fs_file (in_fs st) f)"
    by (cases "fs_file (in_fs st') f"; cases "fs_file (in_fs st) f"; simp)+
  then show ?thesis by (simp add: fl_name_def apk_dbf_digest_blob_def)
qed

lemma same_names:
  assumes "files_same st st'"
  shows "fsdir_of st' a d = fsdir_of st a d" "key_of st' d f = key_of st d f" "place_of st' a d f = place_of st a d f"
    "other_names fo st' a d f = other_names fo st a d f" "di_files (fs_diri (in_fs st') d) = di_files (fs_diri (in_fs st) d)"
    "hash_fits (diri_dir (in_fs st') d) = hash_fits (diri_dir (in_fs st) d)" "diri_name (in_fs st') d = diri_name (in_fs st) d"
    "dr_protect_mode (diri_dir (in_fs st') d) = dr_protect_mode (diri_dir (in_fs st) d)"
proof -
  have e: "fs_diri (in_fs st') = fs_diri (in_fs st)" "\<And>d. dr_name (fs_dir (in_fs st') d) = dr_name (fs_dir (in_fs st) d)"
    "\<And>d. dr_hash (fs_dir (in_fs st') d) = dr_hash (fs_dir (in_fs st) d)" "\<And>d. dr_protect_mode (fs_dir (in_fs st') d) = dr_protect_mode (fs_dir (in_fs st) d)"
    "\<And>a. pkg_name (in_pkg st' a) = pkg_name (in_pkg st a)" using assms by (simp_all add: files_same_def)
  note n = same_file [OF assms]
  show "fsdir_of st' a d = fsdir_of st a d" "key_of st' d f = key_of st d f" "place_of st' a d f = place_of st a d f"
    "other_names fo st' a d f = other_names fo st a d f" "di_files (fs_diri (in_fs st') d) = di_files (fs_diri (in_fs st) d)"
    "hash_fits (diri_dir (in_fs st') d) = hash_fits (diri_dir (in_fs st) d)" "diri_name (in_fs st') d = diri_name (in_fs st) d"
    "dr_protect_mode (diri_dir (in_fs st') d) = dr_protect_mode (diri_dir (in_fs st) d)"
    using n e by (simp_all add: fsdir_of_def key_of_def place_of_def other_names_def hash_fits_def apk_pkg_ctx_def)
qed

lemma migrate_file_spec:
  assumes ok: "files_ok (in_fs st)" "hash_fits (diri_dir (in_fs st) diri)" "dir_fits (fsdir_of st a diri)"
    and P: "other_names (ie_fo env) st a diri f \<subseteq> P"
      "fst (migrate_ctrl env (fsdir_of st a diri) (dr_protect_mode (diri_dir (in_fs st) diri)) (fl_name (fs_file (in_fs st) f))
         (owner_map (in_fs st) (key_of st diri f)) f st) = APK_FS_CTRL_COMMIT \<longrightarrow> place_of st a diri f \<in> P"
  shows "\<exists>st' ids'. migrate_file env a (fsdir_of st a diri) diri f (st, ids) = Ret (st', ids') \<and> files_same st st' \<and> files_ok (in_fs st') \<and>
    owner_map (in_fs st') = (owner_map (in_fs st))(key_of st diri f \<mapsto> f) \<and> only_paths P (in_disk st) (in_disk st')"
proof -
  let ?d = "fsdir_of st a diri" and ?dir = "diri_dir (in_fs st) diri" and ?n = "fl_name (fs_file (in_fs st) f)"
  have key: "key_of st diri f = (dr_name ?dir, ?n)" by (simp add: key_of_def)
  have at: "db_file_at (in_fs st) ?dir ?n = owner_map (in_fs st) (dr_name ?dir, ?n)" by (rule at_is_owner [OF ok(1,2)])
  have "\<exists>st'. migrate_disk env a ?d (dr_protect_mode ?dir) (dr_name ?dir = ''etc'') ?n (owner_map (in_fs st) (dr_name ?dir, ?n)) f st = Ret st' \<and>
      in_fs st' = in_fs st \<and> files_same st st' \<and> only_paths P (in_disk st) (in_disk st')"
    by (rule migrate_disk_spec [OF ok(3) refl]) (use P in \<open>simp_all add: other_names_def place_of_def key\<close>)
  then obtain st1 where st1: "migrate_disk env a ?d (dr_protect_mode ?dir) (dr_name ?dir = ''etc'') ?n (owner_map (in_fs st) (dr_name ?dir, ?n)) f st = Ret st1"
    "in_fs st1 = in_fs st" "files_same st st1" "only_paths P (in_disk st) (in_disk st1)" by blast
  obtain st2 ids2 where st2: "claim_file (ie_fo env) ?d ?dir ?n (owner_map (in_fs st) (dr_name ?dir, ?n)) f (st1, ids) = Ret (st2, ids2)" "files_same st1 st2"
    "files_ok (in_fs st2)" "owner_map (in_fs st2) = (owner_map (in_fs st1))((dr_name ?dir, ?n) \<mapsto> f)" "same_disk (in_disk st1) (in_disk st2)"
    using claim_spec [of st1 ?dir "owner_map (in_fs st) (dr_name ?dir, ?n)" ?n "ie_fo env" ?d f ids] ok st1(2) by auto
  have "only_paths P (in_disk st) (in_disk st2)" using only_trans [OF st1(4) only_same [OF st2(5)]] .
  then show ?thesis using st1 st2 at key files_same_trans [OF st1(3) st2(2)] by (simp add: migrate_file_def Let_def)
qed

section \<open>Files that were changed by hand\<close>

text \<open>The file on the disk is not the one of the record, which may be missing.\<close>

definition locally_modified :: "fs_ops \<Rightarrow> apk_db_file option \<Rightarrow> bytes \<Rightarrow> disk \<Rightarrow> bool" where
  "locally_modified fo rec p dk \<longleftrightarrow>
     (\<exists>n. dk_path dk p = Some n \<and>
        (case rec of
           None \<Rightarrow> True
         | Some f \<Rightarrow> fl_digest_alg f = APK_DIGEST_NONE \<or>
             apk_digest_cmp_blob (fo_digest fo (fl_digest_alg f) (nd_data (dk_node dk n))) (fl_digest_alg f) (apk_dbf_digest_blob f) \<noteq> 0))"

text \<open>Looking at a file fails with \<open>ENOENT\<close> only when it does not exist.\<close>

definition honest :: "sys \<Rightarrow> bool" where
  "honest sys \<longleftrightarrow> (\<forall>log p. sys log (Sys_stat p) \<noteq> Some ENOENT \<and> sys log (Sys_read p) \<noteq> Some ENOENT)"

lemma audit_modified:
  assumes "honest (fo_sys fo)" "locally_modified fo rec (resolve (fsdir_push d n)) dk" "\<not> is_uvol (fd_path d)"
  shows "fst (apk_db_audit_file fo d n rec dk)"
proof -
  define alg where "alg = (case rec of None \<Rightarrow> APK_DIGEST_NONE | Some f \<Rightarrow> fl_digest_alg f)"
  obtain r dk' where r: "apk_fileinfo_get fo (fsdir_push d n) alg dk = (r, dk')" by fastforce
  obtain i where i: "dk_path dk (resolve (fsdir_push d n)) = Some i"
    "rec = None \<or> alg = APK_DIGEST_NONE \<or> apk_digest_cmp_blob (fo_digest fo alg (nd_data (dk_node dk i))) alg (apk_dbf_digest_blob (the rec)) \<noteq> 0"
    using assms(2) by (auto simp: locally_modified_def alg_def split: option.splits)
  have h: "fo_sys fo log (Sys_stat p) \<noteq> Some ENOENT" "fo_sys fo log (Sys_read p) \<noteq> Some ENOENT" for log p using assms(1) by (simp_all add: honest_def)
  have zero: "apk_digest_cmp_blob zero_digest alg b \<noteq> 0" if "alg \<noteq> APK_DIGEST_NONE" for b
    using that by (simp add: apk_digest_cmp_blob_def zero_digest_def APK_DIGEST_NONE_def)
  have "case r of Inl e \<Rightarrow> e \<noteq> ENOENT | Inr (j, dg) \<Rightarrow> alg = APK_DIGEST_NONE \<or> apk_digest_cmp_blob dg alg (apk_dbf_digest_blob (the rec)) \<noteq> 0"
    using r i h zero
    by (auto simp: apk_fileinfo_get_def sys_try_def alg_def Let_def split: option.splits if_splits)
  then show ?thesis using r assms(3)
    by (auto simp: apk_db_audit_file_def Let_def alg_def [symmetric] apk_fsdir_file_info_def fsys_file_info_def split: sum.splits prod.splits)
qed

text \<open>The file is in a protected directory, on the disk, and not the one of the database.\<close>

definition changed_by_hand :: "inst_env \<Rightarrow> nat \<Rightarrow> inst \<Rightarrow> nat \<Rightarrow> nat \<Rightarrow> bool" where
  "changed_by_hand env a st diri f \<longleftrightarrow>
     \<not> apk_protect_mode_none (dr_protect_mode (diri_dir (in_fs st) diri)) \<and> \<not> is_uvol (diri_name (in_fs st) diri) \<and>
     locally_modified (ie_fo env) (map_option (fs_file (in_fs st)) (owner_map (in_fs st) (key_of st diri f))) (place_of st a diri f) (in_disk st)"

lemma hand_not_commit:
  assumes "honest (fo_sys (ie_fo env))" "changed_by_hand env a st diri f"
  shows "fst (migrate_ctrl env (fsdir_of st a diri) (dr_protect_mode (diri_dir (in_fs st) diri)) (fl_name (fs_file (in_fs st) f))
    (owner_map (in_fs st) (key_of st diri f)) f st) \<noteq> APK_FS_CTRL_COMMIT"
proof -
  have "fst (apk_db_audit_file (ie_fo env) (fsdir_of st a diri) (fl_name (fs_file (in_fs st) f))
      (map_option (fs_file (in_fs st)) (owner_map (in_fs st) (key_of st diri f))) (in_disk st))"
    by (rule audit_modified [OF assms(1)]) (use assms(2) in \<open>simp_all add: changed_by_hand_def place_of_def fsdir_of_def\<close>)
  then show ?thesis using assms(2) by (auto simp: migrate_ctrl_def Let_def changed_by_hand_def split: prod.splits bool.splits option.splits)
qed

lemma hand_same:
  assumes "files_same st st'" "owner_map (in_fs st') (key_of st diri f) = owner_map (in_fs st) (key_of st diri f)"
    "only_paths (- {place_of st a diri f}) (in_disk st) (in_disk st')" "changed_by_hand env a st diri f"
  shows "changed_by_hand env a st' diri f"
proof -
  note n = same_names [OF assms(1)] and f = same_file [OF assms(1)]
  have "locally_modified fo (map_option (fs_file (in_fs st')) x) p (in_disk st') = locally_modified fo (map_option (fs_file (in_fs st)) x) p (in_disk st)"
    if "p = place_of st a diri f" for fo x p
    using assms(3) that f by (cases x) (auto simp: locally_modified_def only_paths_def)
  then show ?thesis using assms(2,4) unfolding changed_by_hand_def n by simp
qed

section \<open>Moving all files\<close>

definition pkg_diris :: "inst \<Rightarrow> nat \<Rightarrow> nat list" where "pkg_diris st a = ipkg_diris (ipkg_of st a)"

definition pkg_files :: "inst \<Rightarrow> nat \<Rightarrow> (nat \<times> nat) set" where
  "pkg_files st a = {(d, f). d \<in> set (pkg_diris st a) \<and> f \<in> set (di_files (fs_diri (in_fs st) d))}"

definition pkg_keys :: "inst \<Rightarrow> nat \<Rightarrow> (bytes \<times> bytes) set" where
  "pkg_keys st a = (\<lambda>(d, f). key_of st d f) ` pkg_files st a"

text \<open>The table is in order, the directories are short enough, and no two files of the package have the same key.\<close>

definition movable :: "inst \<Rightarrow> nat \<Rightarrow> bool" where
  "movable st a \<longleftrightarrow> pkg_ipkg (in_pkg st a) \<noteq> None \<and> files_ok (in_fs st) \<and> distinct (pkg_diris st a) \<and>
     (\<forall>d \<in> set (pkg_diris st a). hash_fits (diri_dir (in_fs st) d) \<and> dir_fits (fsdir_of st a d) \<and> distinct (di_files (fs_diri (in_fs st) d))) \<and>
     (\<forall>d f d' f'. (d, f) \<in> pkg_files st a \<and> (d', f') \<in> pkg_files st a \<and> key_of st d f = key_of st d' f' \<longrightarrow> d = d' \<and> f = f')"

text \<open>The place of the file is not one of the names that are used for other purposes, or by another file.\<close>

definition undisturbed :: "inst_env \<Rightarrow> nat \<Rightarrow> inst \<Rightarrow> nat \<Rightarrow> nat \<Rightarrow> bool" where
  "undisturbed env a st diri f \<longleftrightarrow>
     (\<forall>d g. (d, g) \<in> pkg_files st a \<longrightarrow> place_of st a diri f \<notin> other_names (ie_fo env) st a d g \<and>
        ((d, g) \<noteq> (diri, f) \<longrightarrow> place_of st a diri f \<noteq> place_of st a d g))"

definition mig_inv :: "inst_env \<Rightarrow> nat \<Rightarrow> inst \<Rightarrow> nat \<Rightarrow> nat \<Rightarrow> bool \<Rightarrow> inst \<times> nat list option \<Rightarrow> bool" where
  "mig_inv env a st0 diri f moved s \<longleftrightarrow> files_same st0 (fst s) \<and> files_ok (in_fs (fst s)) \<and>
     owner_map (in_fs (fst s)) (key_of st0 diri f) = (if moved then Some f else owner_map (in_fs st0) (key_of st0 diri f)) \<and>
     (\<forall>k. k \<notin> pkg_keys st0 a \<longrightarrow> owner_map (in_fs (fst s)) k = owner_map (in_fs st0) k) \<and>
     (honest (fo_sys (ie_fo env)) \<and> changed_by_hand env a st0 diri f \<and> undisturbed env a st0 diri f \<longrightarrow>
        only_paths (- {place_of st0 a diri f}) (in_disk st0) (in_disk (fst s)))"

lemma mig_step:
  assumes r: "movable st0 a" and df: "(diri, f) \<in> pkg_files st0 a" and dg: "(d, g) \<in> pkg_files st0 a" and inv: "mig_inv env a st0 diri f moved (st, ids)"
    and once: "(d, g) = (diri, f) \<longrightarrow> \<not> moved"
  shows "\<exists>s'. migrate_file env a (fsdir_of st0 a d) d g (st, ids) = Ret s' \<and> mig_inv env a st0 diri f (moved \<or> (d, g) = (diri, f)) s'"
proof -
  have db: "files_same st0 st" and ok: "files_ok (in_fs st)" using inv by (simp_all add: mig_inv_def)
  note n = same_names [OF db]
  let ?kept = "honest (fo_sys (ie_fo env)) \<and> changed_by_hand env a st0 diri f \<and> undisturbed env a st0 diri f"
  let ?P = "if ?kept then - {place_of st0 a diri f} else UNIV"
  have d: "d \<in> set (pkg_diris st0 a)" using dg by (simp add: pkg_files_def)
  then have fits: "hash_fits (diri_dir (in_fs st) d)" "dir_fits (fsdir_of st a d)" using r n by (simp_all add: movable_def)
  have other: "other_names (ie_fo env) st a d g \<subseteq> ?P" using dg n by (auto simp: undisturbed_def)
  have place: "fst (migrate_ctrl env (fsdir_of st a d) (dr_protect_mode (diri_dir (in_fs st) d)) (fl_name (fs_file (in_fs st) g))
         (owner_map (in_fs st) (key_of st d g)) g st) = APK_FS_CTRL_COMMIT \<longrightarrow> place_of st a d g \<in> ?P"
  proof (cases "(d, g) = (diri, f)")
    case True
    have "changed_by_hand env a st diri f" if ?kept
      using hand_same [OF db, of diri f] inv once True that by (simp add: mig_inv_def)
    then show ?thesis using hand_not_commit [of env a st diri f] True by auto
  next
    case False
    then have "?kept \<longrightarrow> place_of st0 a d g \<noteq> place_of st0 a diri f" using dg unfolding undisturbed_def by metis
    then show ?thesis unfolding n(3) by simp
  qed
  obtain st' ids' where st': "migrate_file env a (fsdir_of st a d) d g (st, ids) = Ret (st', ids')" "files_same st st'" "files_ok (in_fs st')"
    "owner_map (in_fs st') = (owner_map (in_fs st))(key_of st d g \<mapsto> g)" "only_paths ?P (in_disk st) (in_disk st')"
    using migrate_file_spec [OF ok fits other place, of ids] by blast
  have keys: "key_of st0 d g = key_of st0 diri f \<longleftrightarrow> (d, g) = (diri, f)" using r df dg by (auto simp: movable_def)
  have mem: "key_of st0 d g \<in> pkg_keys st0 a" using dg unfolding pkg_keys_def by force
  have own: "owner_map (in_fs st') = (owner_map (in_fs st))(key_of st0 d g \<mapsto> g)" using st'(4) unfolding n .
  have "owner_map (in_fs st') (key_of st0 diri f) = (if moved \<or> (d, g) = (diri, f) then Some f else owner_map (in_fs st0) (key_of st0 diri f))"
    using inv keys by (auto simp: own mig_inv_def)
  moreover have "owner_map (in_fs st') k = owner_map (in_fs st0) k" if "k \<notin> pkg_keys st0 a" for k
  proof -
    have "k \<noteq> key_of st0 d g" using that mem by blast
    moreover have "owner_map (in_fs st) k = owner_map (in_fs st0) k" using inv that unfolding mig_inv_def fst_conv by blast
    ultimately show ?thesis by (simp add: own)
  qed
  moreover have "only_paths (- {place_of st0 a diri f}) (in_disk st0) (in_disk st')" if ?kept
  proof -
    have "only_paths (- {place_of st0 a diri f}) (in_disk st) (in_disk st')" using st'(5) that by simp
    then show ?thesis using inv that only_trans unfolding mig_inv_def fst_conv by blast
  qed
  ultimately have "mig_inv env a st0 diri f (moved \<or> (d, g) = (diri, f)) (st', ids')"
    using files_same_trans [OF db st'(2)] st'(3) unfolding mig_inv_def fst_conv by blast
  then show ?thesis using st'(1) n by auto
qed

text \<open>The files of a directory.\<close>

lemma mig_files:
  assumes r: "movable st0 a" and df: "(diri, f) \<in> pkg_files st0 a" and d: "d \<in> set (pkg_diris st0 a)" and inv: "mig_inv env a st0 diri f moved s"
    and once: "d = diri \<longrightarrow> \<not> moved"
  shows "\<exists>s'. foldo (migrate_file env a (fsdir_of st0 a d) d) (di_files (fs_diri (in_fs st0) d)) s = Ret s' \<and>
    mig_inv env a st0 diri f (moved \<or> d = diri) s'"
proof (cases "d = diri")
  case False
  have "\<exists>s'. foldo (migrate_file env a (fsdir_of st0 a d) d) (di_files (fs_diri (in_fs st0) d)) s = Ret s' \<and> mig_inv env a st0 diri f moved s'"
  proof (rule foldo_inv [where I = "mig_inv env a st0 diri f moved"])
    fix g s
    assume "g \<in> set (di_files (fs_diri (in_fs st0) d))" "mig_inv env a st0 diri f moved s"
    then show "\<exists>s'. migrate_file env a (fsdir_of st0 a d) d g s = Ret s' \<and> mig_inv env a st0 diri f moved s'"
      using mig_step [OF r df, of d g env moved "fst s" "snd s"] d False by (simp add: pkg_files_def)
  qed (rule inv)
  then show ?thesis using False by simp
next
  case True
  have f: "f \<in> set (di_files (fs_diri (in_fs st0) d))" "distinct (di_files (fs_diri (in_fs st0) d))"
    using r d df True by (simp_all add: movable_def pkg_files_def)
  have step: "\<exists>s'. migrate_file env a (fsdir_of st0 a d) d g s = Ret s' \<and> mig_inv env a st0 diri f (m \<or> g = f) s'"
    if "g \<in> set (di_files (fs_diri (in_fs st0) d))" "mig_inv env a st0 diri f m s" "g = f \<longrightarrow> \<not> m" for g s m
    using mig_step [OF r df, of d g env m "fst s" "snd s"] d True that by (simp add: pkg_files_def)
  have "\<exists>s'. foldo (migrate_file env a (fsdir_of st0 a d) d) (di_files (fs_diri (in_fs st0) d)) s = Ret s' \<and> mig_inv env a st0 diri f True s'"
    by (rule foldo_once [OF f, where I = "mig_inv env a st0 diri f False"]) (use step inv once True f in force)+
  then show ?thesis using True by simp
qed

text \<open>One pass over the directories of a priority.\<close>

definition prio_of :: "inst \<Rightarrow> nat \<Rightarrow> nat" where
  "prio_of st d = (if is_uvol (diri_name (in_fs st) d) then APK_FS_PRIO_UVOL else APK_FS_PRIO_DISK)"

lemma mig_diri:
  assumes r: "movable st0 a" and df: "(diri, f) \<in> pkg_files st0 a" and d: "d \<in> set (pkg_diris st0 a)" and inv: "mig_inv env a st0 diri f moved s"
    and once: "d = diri \<and> prio_of st0 d = prio \<longrightarrow> \<not> moved"
  shows "\<exists>s'. migrate_diri env a prio d (np, s) =
      Ret (if prio_of st0 d \<noteq> prio \<and> prio_of st0 d > prio \<and> prio_of st0 d < np then prio_of st0 d else np, s') \<and>
    mig_inv env a st0 diri f (moved \<or> d = diri \<and> prio_of st0 d = prio) s'"
proof -
  obtain st ids where s: "s = (st, ids)" by (cases s)
  have db: "files_same st0 st" using inv s by (simp add: mig_inv_def)
  note n = same_names [OF db]
  have get: "apk_fsdir_get (diri_name (in_fs st) d) (apk_pkg_ctx (in_pkg st a)) = Ret (fsdir_of st0 a d)"
    using r d n(1,7) by (auto simp: apk_fsdir_get_def movable_def dir_fits_def fsdir_of_def)
  have prio: "apk_fsdir_priority (fsdir_of st0 a d) = prio_of st0 d" by (simp add: apk_fsdir_priority_def fsdir_of_def prio_of_def)
  show ?thesis
  proof (cases "prio_of st0 d = prio")
    case False
    then show ?thesis using inv by (auto simp: s migrate_diri_def get prio)
  next
    case True
    define st1 where "st1 = st\<lparr>in_fs := upd_dir (di_dir (fs_diri (in_fs st) d)) (\<lambda>x. x\<lparr>dr_modified := True\<rparr>) (in_fs st)\<rparr>"
    have "files_same st st1" by (simp add: st1_def files_same_def dr_name_def upd_dir_def)
    moreover have "files_ok (in_fs st1) = files_ok (in_fs st)" "owner_map (in_fs st1) = owner_map (in_fs st)" "in_disk st1 = in_disk st"
      by (simp_all add: st1_def files_ok_def owner_map_def upd_dir_def fun_eq_iff)
    ultimately have inv1: "mig_inv env a st0 diri f moved (st1, ids)" using inv s files_same_trans [OF db] by (simp add: mig_inv_def)
    have files: "di_files (fs_diri (in_fs st1) d) = di_files (fs_diri (in_fs st0) d)" using n(5) by (simp add: st1_def upd_dir_def)
    obtain s' where "foldo (migrate_file env a (fsdir_of st0 a d) d) (di_files (fs_diri (in_fs st0) d)) (st1, ids) = Ret s'"
      "mig_inv env a st0 diri f (moved \<or> d = diri) s'" using mig_files [OF r df d inv1] once True by blast
    then show ?thesis using True files
      by (cases s') (simp add: s migrate_diri_def get prio Let_def st1_def [symmetric] del: One_nat_def)
  qed
qed

lemma mig_pass:
  assumes r: "movable st0 a" and df: "(diri, f) \<in> pkg_files st0 a" and inv: "mig_inv env a st0 diri f moved s"
    and prio: "prio \<in> {APK_FS_PRIO_DISK, APK_FS_PRIO_UVOL}" and once: "prio_of st0 diri = prio \<longrightarrow> \<not> moved"
  shows "\<exists>np s'. foldo (migrate_diri env a prio) (pkg_diris st0 a) (APK_FS_PRIO_MAX, s) = Ret (np, s') \<and>
    mig_inv env a st0 diri f (moved \<or> prio_of st0 diri = prio) s' \<and> np \<in> {APK_FS_PRIO_UVOL, APK_FS_PRIO_MAX} \<and>
    (prio = APK_FS_PRIO_UVOL \<longrightarrow> np = APK_FS_PRIO_MAX) \<and> (prio = APK_FS_PRIO_DISK \<and> prio_of st0 diri = APK_FS_PRIO_UVOL \<longrightarrow> np = APK_FS_PRIO_UVOL)"
proof -
  let ?N = "\<lambda>np. np \<in> {APK_FS_PRIO_UVOL, APK_FS_PRIO_MAX} \<and> (prio = APK_FS_PRIO_UVOL \<longrightarrow> np = APK_FS_PRIO_MAX)"
  let ?M = "\<lambda>np. prio = APK_FS_PRIO_DISK \<and> prio_of st0 diri = APK_FS_PRIO_UVOL \<longrightarrow> np = APK_FS_PRIO_UVOL"
  let ?m = "moved \<or> prio_of st0 diri = prio"
  have mem: "diri \<in> set (pkg_diris st0 a)" "distinct (pkg_diris st0 a)" using r df by (simp_all add: movable_def pkg_files_def)
  have "\<exists>s'. foldo (migrate_diri env a prio) (pkg_diris st0 a) (APK_FS_PRIO_MAX, s) = Ret s' \<and> mig_inv env a st0 diri f ?m (snd s') \<and> ?N (fst s') \<and> ?M (fst s')"
  proof (rule foldo_once [OF mem, where I = "\<lambda>s. mig_inv env a st0 diri f moved (snd s) \<and> ?N (fst s)"])
    fix d s
    assume d: "d \<in> set (pkg_diris st0 a)" "d \<noteq> diri"
    show "\<exists>s'. migrate_diri env a prio d s = Ret s' \<and> mig_inv env a st0 diri f moved (snd s') \<and> ?N (fst s')"
      if "mig_inv env a st0 diri f moved (snd s) \<and> ?N (fst s)"
      using mig_diri [OF r df d(1), of env moved "snd s" prio "fst s"] d(2) that prio
      by (auto simp: prio_of_def APK_FS_PRIO_DISK_def APK_FS_PRIO_UVOL_def APK_FS_PRIO_MAX_def)
    show "\<exists>s'. migrate_diri env a prio d s = Ret s' \<and> mig_inv env a st0 diri f ?m (snd s') \<and> ?N (fst s') \<and> ?M (fst s')"
      if "mig_inv env a st0 diri f ?m (snd s) \<and> ?N (fst s) \<and> ?M (fst s)"
      using mig_diri [OF r df d(1), of env ?m "snd s" prio "fst s"] d(2) that prio
      by (auto simp: prio_of_def APK_FS_PRIO_DISK_def APK_FS_PRIO_UVOL_def APK_FS_PRIO_MAX_def)
  next
    fix s
    assume "mig_inv env a st0 diri f moved (snd s) \<and> ?N (fst s)"
    then show "\<exists>s'. migrate_diri env a prio diri s = Ret s' \<and> mig_inv env a st0 diri f ?m (snd s') \<and> ?N (fst s') \<and> ?M (fst s')"
      using mig_diri [OF r df mem(1), of env moved "snd s" prio "fst s"] once prio
      by (auto simp: prio_of_def APK_FS_PRIO_DISK_def APK_FS_PRIO_UVOL_def APK_FS_PRIO_MAX_def)
  qed (use inv in simp)
  then show ?thesis by auto
qed

lemma pass_same:
  assumes "mig_inv env a st0 diri f moved s" "movable st0 a"
  shows "apk_db_migrate_files_for_priority env a prio s = foldo (migrate_diri env a prio) (pkg_diris st0 a) (APK_FS_PRIO_MAX, s)"
proof -
  obtain st ids where s: "s = (st, ids)" by (cases s)
  have "files_same st0 st" using assms(1) s by (simp add: mig_inv_def)
  then have "map_option ipkg_diris (pkg_ipkg (in_pkg st a)) = map_option ipkg_diris (pkg_ipkg (in_pkg st0 a))" "pkg_ipkg (in_pkg st0 a) \<noteq> None"
    using assms(2) unfolding files_same_def movable_def by blast+
  then have "ipkg_diris (ipkg_of st a) = pkg_diris st0 a" by (auto simp: pkg_diris_def ipkg_of_def)
  then show ?thesis by (simp add: s apk_db_migrate_files_for_priority_def)
qed

lemma mig_all:
  assumes r: "movable st a" and df: "(diri, f) \<in> pkg_files st a"
  shows "\<exists>s'. apk_db_migrate_files env a (st, ids) = Some (Ret s') \<and> mig_inv env a st diri f True s'"
proof -
  have inv: "mig_inv env a st diri f False (st, ids)" using r by (simp add: mig_inv_def movable_def)
  have prios: "APK_FS_PRIO_DISK \<in> {APK_FS_PRIO_DISK, APK_FS_PRIO_UVOL}" "APK_FS_PRIO_UVOL \<in> {APK_FS_PRIO_DISK, APK_FS_PRIO_UVOL}" by simp_all
  obtain np s1 where s1: "apk_db_migrate_files_for_priority env a APK_FS_PRIO_DISK (st, ids) = Ret (np, s1)"
    "mig_inv env a st diri f (prio_of st diri = APK_FS_PRIO_DISK) s1" "np \<in> {APK_FS_PRIO_UVOL, APK_FS_PRIO_MAX}"
    "prio_of st diri = APK_FS_PRIO_UVOL \<longrightarrow> np = APK_FS_PRIO_UVOL"
    using mig_pass [OF r df inv prios(1)] pass_same [OF inv r] by auto
  have two: "APK_FS_PRIO_MAX = Suc (Suc 0)" "APK_FS_PRIO_DISK = 0" "APK_FS_PRIO_UVOL = Suc 0"
    by (simp_all add: APK_FS_PRIO_DISK_def APK_FS_PRIO_UVOL_def APK_FS_PRIO_MAX_def)
  have prio: "prio_of st diri = APK_FS_PRIO_DISK \<or> prio_of st diri = APK_FS_PRIO_UVOL" by (simp add: prio_of_def)
  show ?thesis
  proof (cases "np = APK_FS_PRIO_MAX")
    case True
    then have "prio_of st diri = APK_FS_PRIO_DISK" using s1(4) prio two by auto
    then show ?thesis using True s1(1,2) by (simp add: apk_db_migrate_files_def two)
  next
    case False
    then have np: "np = APK_FS_PRIO_UVOL" using s1(3) by simp
    obtain s2 where "apk_db_migrate_files_for_priority env a APK_FS_PRIO_UVOL s1 = Ret (APK_FS_PRIO_MAX, s2)"
      "mig_inv env a st diri f (prio_of st diri = APK_FS_PRIO_DISK \<or> prio_of st diri = APK_FS_PRIO_UVOL) s2"
      using mig_pass [OF r df s1(2) prios(2)] pass_same [OF s1(2) r] two by auto
    then show ?thesis using np s1(1) prio by (simp add: apk_db_migrate_files_def two)
  qed
qed

section \<open>Properties of moving files\<close>

text \<open>
  C20. Moving the files of a package to their places always succeeds in the database, whatever happens on the
  disk: every file of the package becomes the one that the table of files has for its directory and name, and
  all other entries of the table stay as they were.
\<close>

theorem migrate_claims_files:
  assumes "movable st a" "pkg_files st a \<noteq> {}"
  shows "\<exists>st' ids'. apk_db_migrate_files env a (st, ids) = Some (Ret (st', ids')) \<and> files_ok (in_fs st') \<and>
    (\<forall>d f. (d, f) \<in> pkg_files st a \<longrightarrow> owner_map (in_fs st') (key_of st d f) = Some f) \<and>
    (\<forall>k. k \<notin> pkg_keys st a \<longrightarrow> owner_map (in_fs st') k = owner_map (in_fs st) k)"
proof -
  obtain d0 f0 where df: "(d0, f0) \<in> pkg_files st a" using assms(2) by fastforce
  obtain st' ids' where s: "apk_db_migrate_files env a (st, ids) = Some (Ret (st', ids'))" "mig_inv env a st d0 f0 True (st', ids')"
    using mig_all [OF assms(1) df, of env ids] by force
  have "owner_map (in_fs st') (key_of st d f) = Some f" if "(d, f) \<in> pkg_files st a" for d f
    using mig_all [OF assms(1) that, of env ids] s(1) by (auto simp: mig_inv_def)
  then show ?thesis using s unfolding mig_inv_def fst_conv by blast
qed

text \<open>
  C16. A file in a protected directory that is not the one the database has recorded, or that the database does
  not know, is left on the disk as it is when a package with a file of this name is installed or upgraded.
\<close>

theorem migrate_keeps_changed_files:
  assumes "movable st a" "(d, f) \<in> pkg_files st a" "honest (fo_sys (ie_fo env))" "changed_by_hand env a st d f" "undisturbed env a st d f"
  shows "\<exists>st' ids'. apk_db_migrate_files env a (st, ids) = Some (Ret (st', ids')) \<and>
    dk_path (in_disk st') (place_of st a d f) = dk_path (in_disk st) (place_of st a d f) \<and> dk_node (in_disk st') = dk_node (in_disk st)"
proof -
  obtain st' ids' where "apk_db_migrate_files env a (st, ids) = Some (Ret (st', ids'))" "mig_inv env a st d f True (st', ids')"
    using mig_all [OF assms(1,2), of env ids] by force
  then show ?thesis using assms(3-5) by (auto simp: mig_inv_def only_paths_def)
qed

section \<open>Names of archive entries\<close>

fun path_parts :: "bytes \<Rightarrow> bytes list" where
  "path_parts [] = [[]]"
| "path_parts (c # cs) =
     (if c = CHR ''/'' then [] # path_parts cs else (c # hd (path_parts cs)) # tl (path_parts cs))"

lemma parts_ne: "path_parts xs \<noteq> []" by (cases xs) auto

lemma parts_append: "path_parts (xs @ CHR ''/'' # ys) = path_parts xs @ path_parts ys"
proof (induction xs)
  case (Cons c cs)
  then show ?case using parts_ne [of cs] by simp
qed simp

lemma parts_plain: "CHR ''/'' \<notin> set q \<Longrightarrow> path_parts q = [q]" by (induction q) auto

lemma parts_first: "path_parts xs = p # ps \<Longrightarrow> ps \<noteq> [] \<Longrightarrow> \<exists>b. xs = p @ CHR ''/'' # b \<and> path_parts b = ps"
proof (induction xs arbitrary: p)
  case (Cons c cs)
  show ?case
  proof (cases "c = CHR ''/''")
    case True
    then show ?thesis using Cons.prems by auto
  next
    case False
    then have p: "p = c # hd (path_parts cs)" "ps = tl (path_parts cs)" using Cons.prems by auto
    then have "path_parts cs = hd (path_parts cs) # ps" using parts_ne [of cs] by simp
    then obtain b where "cs = hd (path_parts cs) @ CHR ''/'' # b" "path_parts b = ps" using Cons.IH Cons.prems(2) by blast
    then show ?thesis using p(1) by auto
  qed
qed simp

lemma parts_split:
  "path_parts xs = ps @ q # rs \<Longrightarrow> rs \<noteq> [] \<Longrightarrow> \<exists>a b. xs = a @ q @ CHR ''/'' # b \<and> (a = [] \<or> last a = CHR ''/'')"
proof (induction ps arbitrary: xs)
  case Nil
  then show ?case using parts_first [of xs q rs] by (auto intro: exI [of _ "[]"])
next
  case (Cons p ps)
  then obtain b where b: "xs = p @ CHR ''/'' # b" "path_parts b = ps @ q # rs" using parts_first [of xs p "ps @ q # rs"] by auto
  then obtain a c where a: "b = a @ q @ CHR ''/'' # c" "a = [] \<or> last a = CHR ''/''" using Cons by blast
  then have "xs = (p @ CHR ''/'' # a) @ q @ CHR ''/'' # c" "last (p @ CHR ''/'' # a) = CHR ''/''" using b by auto
  then show ?case by blast
qed

lemma memmem_iff: "memmem h n \<noteq> None \<longleftrightarrow> (\<exists>a b. h = a @ n @ b)"
proof (induction h n rule: memmem.induct)
  case (1 h n)
  show ?case
  proof (cases "prefix n h")
    case True
    then show ?thesis by (subst memmem.simps) (auto simp: prefix_def intro: exI [of _ "[]"])
  next
    case False
    show ?thesis
    proof (cases h)
      case Nil
      then show ?thesis using False by (subst memmem.simps) auto
    next
      case (Cons c cs)
      have "memmem h n \<noteq> None \<longleftrightarrow> memmem cs n \<noteq> None" using False Cons by (subst memmem.simps) simp
      also have "\<dots> \<longleftrightarrow> (\<exists>a b. cs = a @ n @ b)" using 1 [OF False Cons] .
      also have "\<dots> \<longleftrightarrow> (\<exists>a b. h = a @ n @ b)"
      proof
        assume "\<exists>a b. h = a @ n @ b"
        then obtain a b where ab: "h = a @ n @ b" by blast
        then have "a \<noteq> []" using False by (auto simp: prefix_def)
        then show "\<exists>a b. cs = a @ n @ b" using ab Cons by (cases a) auto
      next
        assume "\<exists>a b. cs = a @ n @ b"
        then obtain a b where "cs = a @ n @ b" by blast
        then have "h = (c # a) @ n @ b" using Cons by simp
        then show "\<exists>a b. h = a @ n @ b" by blast
      qed
      finally show ?thesis .
    qed
  qed
qed

lemma take_prefix_iff: "length p = n \<Longrightarrow> take n xs = p \<longleftrightarrow> prefix p xs"
  by (auto simp: prefix_def) (metis append_take_drop_id)

lemma part_iff:
  assumes "CHR ''/'' \<notin> set q"
  shows "q \<in> set (butlast (path_parts xs)) \<longleftrightarrow> prefix (q @ ''/'') xs \<or> memmem xs (''/'' @ q @ ''/'') \<noteq> None"
proof
  assume "q \<in> set (butlast (path_parts xs))"
  then obtain ps rs where "butlast (path_parts xs) = ps @ q # rs" by (meson split_list)
  then have "path_parts xs = ps @ q # rs @ [last (path_parts xs)]" using append_butlast_last_id [OF parts_ne [of xs]] by simp
  then obtain a b where ab: "xs = a @ q @ CHR ''/'' # b" "a = [] \<or> last a = CHR ''/''" using parts_split by blast
  then show "prefix (q @ ''/'') xs \<or> memmem xs (''/'' @ q @ ''/'') \<noteq> None"
  proof (cases a rule: rev_cases)
    case (snoc c l)
    then have "xs = c @ (''/'' @ q @ ''/'') @ b" using ab by simp
    then show ?thesis unfolding memmem_iff by blast
  qed (simp add: prefix_def)
next
  assume "prefix (q @ ''/'') xs \<or> memmem xs (''/'' @ q @ ''/'') \<noteq> None"
  then have "\<exists>ps b. path_parts xs = ps @ q # path_parts b"
  proof
    assume "prefix (q @ ''/'') xs"
    then obtain b where "xs = q @ CHR ''/'' # b" by (auto simp: prefix_def)
    then have "path_parts xs = [] @ q # path_parts b" using parts_append [of q b] parts_plain [OF assms] by simp
    then show ?thesis by blast
  next
    assume "memmem xs (''/'' @ q @ ''/'') \<noteq> None"
    then obtain a b where "xs = a @ CHR ''/'' # q @ CHR ''/'' # b" unfolding memmem_iff by auto
    then have "path_parts xs = path_parts a @ q # path_parts b" using parts_append [of a "q @ CHR ''/'' # b"] parts_append [of q b] parts_plain [OF assms] by simp
    then show ?thesis by blast
  qed
  then show "q \<in> set (butlast (path_parts xs))" using parts_ne by (auto simp: butlast_append)
qed

text \<open>The names that are refused: absolute, with a control character, or with a directory that is \<^verbatim>\<open>.\<close> or \<^verbatim>\<open>..\<close>.\<close>

lemma malicious_iff:
  "malicious_name n \<longleftrightarrow> (n \<noteq> [] \<and> hd n = CHR ''/'') \<or> contains_control_character n \<or>
     ''.'' \<in> set (butlast (path_parts n)) \<or> ''..'' \<in> set (butlast (path_parts n))"
proof -
  have "''.'' \<in> set (butlast (path_parts n)) \<or> ''..'' \<in> set (butlast (path_parts n)) \<longleftrightarrow>
      take 2 n = ''./'' \<or> take 3 n = ''../'' \<or> memmem n ''/./'' \<noteq> None \<or> memmem n ''/../'' \<noteq> None"
    using part_iff [of "''.''" n] part_iff [of "''..''" n] take_prefix_iff [of "''./''" 2 n] take_prefix_iff [of "''../''" 3 n] by auto
  then show ?thesis by (auto simp: malicious_name_def)
qed

section \<open>Removing files\<close>

text \<open>What removing leaves alone; directories and the entries of the table may go.\<close>

definition purge_ext :: "inst \<Rightarrow> inst \<Rightarrow> bool" where
  "purge_ext st st' \<longleftrightarrow>
     fs_diri (in_fs st') = fs_diri (in_fs st) \<and> fs_file (in_fs st') = fs_file (in_fs st) \<and> in_pkg st' = in_pkg st \<and>
     (\<forall>d. dr_name (fs_dir (in_fs st') d) = dr_name (fs_dir (in_fs st) d) \<and>
        dr_protect_mode (fs_dir (in_fs st') d) = dr_protect_mode (fs_dir (in_fs st) d))"

definition dirs_same :: "file_db \<Rightarrow> file_db \<Rightarrow> bool" where
  "dirs_same fs fs' \<longleftrightarrow> fs_diri fs' = fs_diri fs \<and> fs_file fs' = fs_file fs \<and>
     (\<forall>d. dr_name (fs_dir fs' d) = dr_name (fs_dir fs d) \<and> dr_protect_mode (fs_dir fs' d) = dr_protect_mode (fs_dir fs d))"

lemma dirs_same_refl [simp]: "dirs_same fs fs" by (simp add: dirs_same_def)

lemma dirs_same_trans [trans]: "dirs_same a b \<Longrightarrow> dirs_same b c \<Longrightarrow> dirs_same a c" by (simp add: dirs_same_def)

lemma upd_dirs_same:
  "(\<And>x. dr_cname (f x) = dr_cname x \<and> dr_namelen (f x) = dr_namelen x \<and> dr_protect_mode (f x) = dr_protect_mode x) \<Longrightarrow> dirs_same fs (upd_dir d f fs)"
  by (simp add: dirs_same_def upd_dir_def dr_name_def)

lemma perform_dirs_same: "dirs_same fs (snd (fs_perform env c fs))" by (simp add: fs_perform_def dirs_same_def)

lemma unref_dirs_same: "apk_db_dir_unref env d rm fs = Some fs' \<Longrightarrow> dirs_same fs fs'"
proof (rule apk_db_dir_unref.raw_induct [where P = "\<lambda>env d rm fs fs'. dirs_same fs fs'"], goal_cases)
  case (1 unref env d rm fs fs')
  define fs1 where "fs1 = upd_dir d (\<lambda>x. x\<lparr>dr_refs := dr_refs x - 1\<rparr>) fs"
  define fs2 where "fs2 = upd_dir d (\<lambda>x. x\<lparr>dr_diris := []\<rparr>) (fs1\<lparr>fs_num_dirs := fs_num_dirs fs1 - 1\<rparr>)"
  define fs3 where "fs3 = (if rm then let fs = upd_dir d (\<lambda>x. x\<lparr>dr_modified := True\<rparr>) fs2 in
      if env_simulate env then fs else snd (fs_perform env (Fs_delete (dr_name (fs_dir fs d))) fs) else fs2)"
  have s1: "dirs_same fs fs1" unfolding fs1_def by (rule upd_dirs_same) simp
  have "dirs_same fs1 (fs1\<lparr>fs_num_dirs := fs_num_dirs fs1 - 1\<rparr>)" by (simp add: dirs_same_def)
  also have "dirs_same \<dots> fs2" unfolding fs2_def by (rule upd_dirs_same) simp
  finally have s2: "dirs_same fs fs2" by (rule dirs_same_trans [OF s1])
  have m: "dirs_same fs2 (upd_dir d (\<lambda>x. x\<lparr>dr_modified := True\<rparr>) fs2)" by (rule upd_dirs_same) simp
  have s3: "dirs_same fs2 fs3" unfolding fs3_def Let_def using m dirs_same_trans [OF m perform_dirs_same] by simp
  show ?case
  proof (cases "dr_refs (fs_dir fs1 d) > 0")
    case True
    then show ?thesis using 1(3) s1 unfolding Let_def fs1_def [symmetric] by simp
  next
    case False
    obtain fs4 where fs4: "(if dr_namelen (fs_dir fs2 d) = 0 then Some fs2
        else Option.bind (unref env (the (dr_parent (fs_dir fs3 d))) rm fs3) (\<lambda>fs. Some (upd_dir d (\<lambda>x. x\<lparr>dr_parent := None\<rparr>) fs))) = Some fs4"
      "fs' = upd_dir d (\<lambda>x. x\<lparr>dr_created := False, dr_permissions_ok := False\<rparr>) fs4"
      using 1(3) False unfolding Let_def fs1_def [symmetric] fs2_def [symmetric] fs3_def [unfolded Let_def, symmetric]
      by (auto simp: bind_eq_Some_conv)
    have "dirs_same fs2 fs4"
    proof (cases "dr_namelen (fs_dir fs2 d) = 0")
      case False
      then obtain fs5 where u: "unref env (the (dr_parent (fs_dir fs3 d))) rm fs3 = Some fs5" "fs4 = upd_dir d (\<lambda>x. x\<lparr>dr_parent := None\<rparr>) fs5"
        using fs4(1) by (auto simp: bind_eq_Some_conv)
      note s3
      also have "dirs_same fs3 fs5" by (rule 1(2) [OF u(1)])
      also have "dirs_same fs5 fs4" unfolding u(2) by (rule upd_dirs_same) simp
      finally show ?thesis .
    qed (use fs4(1) in simp)
    moreover have "dirs_same fs4 fs'" unfolding fs4(2) by (rule upd_dirs_same) simp
    ultimately show ?thesis using s2 dirs_same_trans by blast
  qed
qed

lemma foldo_partial:
  assumes "\<And>x s s'. x \<in> set xs \<Longrightarrow> I s \<Longrightarrow> f x s = Ret s' \<Longrightarrow> I s'" "I s" "foldo f xs s = Ret s'"
  shows "I s'"
  using assms
proof (induction xs arbitrary: s)
  case (Cons x xs)
  then show ?case by (auto split: outcome.splits)
qed simp

lemma modified_same: "same_disk dk dk' \<Longrightarrow> locally_modified fo rec p dk' = locally_modified fo rec p dk"
  by (cases rec) (auto simp: locally_modified_def same_disk_def)

text \<open>A file that was changed is not wanted for removal from a protected directory.\<close>

lemma wanted_spec:
  assumes "purge_wanted fo clean d n rec ids dk = (del, dk')"
  shows "same_disk dk dk'" "del \<Longrightarrow> \<not> clean \<Longrightarrow> honest (fo_sys fo) \<Longrightarrow> \<not> is_uvol (fd_path d) \<Longrightarrow> \<not> locally_modified fo (Some rec) (resolve (fsdir_push d n)) dk"
proof -
  obtain del1 dk1 where d1: "(case ids of None \<Rightarrow> (True, dk)
      | Some ids \<Rightarrow> (case fileid_get fo d n dk of (id', dk) \<Rightarrow> (id' = None \<or> the id' \<notin> set ids, dk))) = (del1, dk1)" by fastforce
  have s1: "same_disk dk dk1" using d1 by (auto split: option.splits prod.splits dest: fileid_same)
  have w: "(if \<not> del1 then (False, dk1) else if clean then (True, dk1)
      else case apk_db_audit_file fo d n (Some rec) dk1 of (differs, dk) \<Rightarrow> (\<not> differs, dk)) = (del, dk')"
    using assms unfolding purge_wanted_def d1 by simp
  then have "same_disk dk1 dk'" by (auto split: if_splits prod.splits dest: audit_same)
  then show "same_disk dk dk'" by (rule same_disk_trans [OF s1])
  assume "del" "\<not> clean" "honest (fo_sys fo)" "\<not> is_uvol (fd_path d)"
  then have "\<not> fst (apk_db_audit_file fo d n (Some rec) dk1)" using w by (auto split: if_splits prod.splits)
  then show "\<not> locally_modified fo (Some rec) (resolve (fsdir_push d n)) dk"
    using audit_modified [of fo "Some rec" d n dk1] modified_same [OF s1] \<open>honest (fo_sys fo)\<close> \<open>\<not> is_uvol (fd_path d)\<close> by blast
qed

lemma purge_disk_only:
  assumes "dir_fits d" "length n < 4000" "del \<longrightarrow> resolve (fsdir_push d n) \<in> P" "{resolve (tmp_of fo d n), resolve (new_of fo d n)} \<subseteq> P"
  shows "\<exists>dk'. purge_disk fo d n del ctrl delnew dk = Ret dk' \<and> only_paths P dk dk'"
proof -
  have c: "\<exists>r dk'. (if b then apk_fsdir_file_control fo d n ct dk else Ret (Inr 0, dk)) = Ret (r, dk') \<and> only_paths P dk dk'"
    if "b \<and> ct \<in> {APK_FS_CTRL_COMMIT, APK_FS_CTRL_DELETE} \<longrightarrow> resolve (fsdir_push d n) \<in> P" for b ct dk
    using control_only [OF assms(1,2) _ assms(4), of ct dk] that by (cases b) auto
  have "\<exists>r dk'. (if del then apk_fsdir_file_control fo d n ctrl dk else Ret (Inr 0, dk)) = Ret (r, dk') \<and> only_paths P dk dk'"
    by (rule c) (use assms(3) in simp)
  then obtain r1 dk1 where 1: "(if del then apk_fsdir_file_control fo d n ctrl dk else Ret (Inr 0, dk)) = Ret (r1, dk1)" "only_paths P dk dk1" by blast
  have "\<exists>r dk'. (if delnew then apk_fsdir_file_control fo d n APK_FS_CTRL_DELETE_APKNEW dk1 else Ret (Inr 0, dk1)) = Ret (r, dk') \<and> only_paths P dk1 dk'"
    by (rule c) simp
  then show ?thesis using 1 only_trans [OF 1(2)] by (auto simp: purge_disk_def)
qed

text \<open>Removing one file; it stays when it was changed and the directory is protected.\<close>

lemma purge_file_step:
  assumes run: "purge_file env d dir True ids g st = Ret st'" and fits: "dir_fits d" and n: "n = fl_name (fs_file (in_fs st) g)"
    and P: "{resolve (tmp_of (ie_fo env) d n), resolve (new_of (ie_fo env) d n)} \<subseteq> P"
      "resolve (fsdir_push d n) \<in> P \<or> \<not> ie_purge env \<and> \<not> apk_protect_mode_none (dr_protect_mode dir) \<and> honest (fo_sys (ie_fo env)) \<and>
         \<not> is_uvol (fd_path d) \<and> locally_modified (ie_fo env) (Some (fs_file (in_fs st) g)) (resolve (fsdir_push d n)) (in_disk st)"
  shows "purge_ext st st' \<and> only_paths P (in_disk st) (in_disk st')"
proof (cases "fl_audited (fs_file (in_fs st) g)")
  case True
  then show ?thesis using run by (auto simp: purge_file_def purge_ext_def)
next
  case False
  let ?none = "apk_protect_mode_none (dr_protect_mode dir)"
  obtain del dk1 where w: "purge_wanted (ie_fo env) (ie_purge env \<or> \<not> True \<or> ?none) d n (fs_file (in_fs st) g) ids (in_disk st) = (del, dk1)" by fastforce
  have keep: "del \<longrightarrow> resolve (fsdir_push d n) \<in> P" using wanted_spec(2) [OF w] P(2) by blast
  have len: "length n < 4000" using name_len [of "fs_file (in_fs st) g"] n by simp
  obtain dk2 where k: "purge_disk (ie_fo env) d n del APK_FS_CTRL_DELETE (\<not> ?none) dk1 = Ret dk2" "only_paths P dk1 dk2"
    using purge_disk_only [OF fits len keep P(1)] by blast
  have "\<exists>h. st' = st\<lparr>in_disk := dk2, in_fs := (in_fs st)\<lparr>fs_files := h, fs_num_files := fs_num_files (in_fs st) - 1\<rparr>\<rparr>"
    using run False w k(1) by (auto simp: purge_file_def Let_def n [symmetric] split: outcome.splits)
  moreover have "only_paths P (in_disk st) dk2" using only_trans [OF only_same [OF wanted_spec(1) [OF w]] k(2)] .
  ultimately show ?thesis by (auto simp: purge_ext_def)
qed

lemma remove_purge_ext:
  assumes "apk_db_diri_remove env pk d fs = Some fs'"
  shows "dirs_same fs fs'"
proof -
  let ?d = "di_dir (fs_diri fs d)"
  let ?fs1 = "upd_dir ?d (\<lambda>x. x\<lparr>dr_diris := remove1 d (dr_diris x)\<rparr>) fs"
  have s1: "dirs_same fs ?fs1" by (rule upd_dirs_same) simp
  have perm: "dirs_same x (apk_db_dir_update_permissions env di x)" for x di
  proof -
    have "dirs_same x (upd_dir e (\<lambda>x. x\<lparr>dr_modified := True\<rparr>) x)" for e by (rule upd_dirs_same) simp
    then show ?thesis by (auto simp: apk_db_dir_update_permissions_def Let_def fs_perform_def dirs_same_def split: prod.splits)
  qed
  have own: "dirs_same ?fs1 (upd_dir ?d (\<lambda>x. x\<lparr>dr_owner := w\<rparr>) ?fs1)" for w by (rule upd_dirs_same) simp
  show ?thesis using assms s1 own perm unfolding apk_db_diri_remove_def Let_def
    by (auto split: if_splits option.splits dest!: unref_dirs_same) (blast intro: dirs_same_trans)+
qed

lemma purge_ext_refl [simp]: "purge_ext st st" by (simp add: purge_ext_def)

lemma purge_ext_trans: "purge_ext a b \<Longrightarrow> purge_ext b c \<Longrightarrow> purge_ext a c" by (simp add: purge_ext_def)

lemma purge_ext_dirs: "dirs_same (in_fs st) fs \<Longrightarrow> purge_ext st (st\<lparr>in_fs := fs\<rparr>)" by (simp add: purge_ext_def dirs_same_def)

lemma purge_names:
  assumes "purge_ext st st'"
  shows "fsdir_of st' a d = fsdir_of st a d" "place_of st' a d f = place_of st a d f" "other_names fo st' a d f = other_names fo st a d f"
    "di_files (fs_diri (in_fs st') d) = di_files (fs_diri (in_fs st) d)" "diri_name (in_fs st') d = diri_name (in_fs st) d"
    "dr_protect_mode (diri_dir (in_fs st') d) = dr_protect_mode (diri_dir (in_fs st) d)"
  using assms by (simp_all add: purge_ext_def fsdir_of_def place_of_def other_names_def)

text \<open>The file of the package is in a protected directory, on the disk, and not as it was installed.\<close>

definition changed_since_install :: "inst_env \<Rightarrow> nat \<Rightarrow> inst \<Rightarrow> nat \<Rightarrow> nat \<Rightarrow> bool" where
  "changed_since_install env a st diri f \<longleftrightarrow>
     \<not> apk_protect_mode_none (dr_protect_mode (diri_dir (in_fs st) diri)) \<and> \<not> is_uvol (diri_name (in_fs st) diri) \<and>
     locally_modified (ie_fo env) (Some (fs_file (in_fs st) f)) (place_of st a diri f) (in_disk st)"

lemma purge_diri_step:
  assumes run: "purge_diri env a True ids d st = Ret st'" and d: "d \<in> set (pkg_diris st0 a)"
    and h: "\<not> ie_purge env" "honest (fo_sys (ie_fo env))" "changed_since_install env a st0 diri f" "undisturbed env a st0 diri f"
    and inv: "purge_ext st0 st \<and> only_paths (- {place_of st0 a diri f}) (in_disk st0) (in_disk st)"
  shows "purge_ext st0 st' \<and> only_paths (- {place_of st0 a diri f}) (in_disk st0) (in_disk st')"
proof -
  let ?P = "- {place_of st0 a diri f}"
  let ?I = "\<lambda>st. purge_ext st0 st \<and> only_paths ?P (in_disk st0) (in_disk st)"
  define st1 where "st1 = st\<lparr>in_fs := upd_dir (di_dir (fs_diri (in_fs st) d)) (\<lambda>x. x\<lparr>dr_modified := True\<rparr>) (in_fs st)\<rparr>"
  have "purge_ext st st1" unfolding st1_def by (rule purge_ext_dirs, rule upd_dirs_same) simp
  then have i1: "?I st1" using inv purge_ext_trans by (auto simp: st1_def)
  note n1 = purge_names [OF conjunct1 [OF i1]]
  have pkg: "in_pkg st1 = in_pkg st0" using i1 by (simp add: purge_ext_def)
  have "apk_fsdir_get (dr_name (diri_dir (in_fs st1) d)) (apk_pkg_ctx (in_pkg st1 a)) \<noteq> Fault"
    using run unfolding purge_diri_def Let_def if_True st1_def [symmetric] by (auto split: outcome.splits)
  then have get: "apk_fsdir_get (dr_name (diri_dir (in_fs st1) d)) (apk_pkg_ctx (in_pkg st1 a)) = Ret (fsdir_of st0 a d)" "dir_fits (fsdir_of st0 a d)"
    using n1(5) pkg by (auto simp: apk_fsdir_get_def fsdir_of_def dir_fits_def split: if_splits)
  obtain st2 fs where st2: "foldo (purge_file env (fsdir_of st0 a d) (diri_dir (in_fs st1) d) True ids) (di_files (fs_diri (in_fs st1) d)) st1 = Ret st2"
    "apk_db_diri_remove (ie_dir env) (in_pkg st2) d (in_fs st2) = Some fs" "st' = st2\<lparr>in_fs := fs\<rparr>"
    using run unfolding purge_diri_def Let_def if_True st1_def [symmetric] get(1) by (auto split: outcome.splits option.splits)
  have "?I st2"
  proof (rule foldo_partial [where I = "\<lambda>st. purge_ext st0 st \<and> only_paths (- {place_of st0 a diri f}) (in_disk st0) (in_disk st)", OF _ i1 st2(1)])
    fix g s s'
    assume g: "g \<in> set (di_files (fs_diri (in_fs st1) d))" and s: "?I s"
      and r: "purge_file env (fsdir_of st0 a d) (diri_dir (in_fs st1) d) True ids g s = Ret s'"
    note ns = purge_names [OF conjunct1 [OF s]]
    have same: "fs_file (in_fs s) = fs_file (in_fs st0)" using s by (simp add: purge_ext_def)
    let ?n = "fl_name (fs_file (in_fs st0) g)"
    have mem: "(d, g) \<in> pkg_files st0 a" using d g n1(4) by (simp add: pkg_files_def)
    then have other: "{resolve (tmp_of (ie_fo env) (fsdir_of st0 a d) ?n), resolve (new_of (ie_fo env) (fsdir_of st0 a d) ?n)} \<subseteq> ?P"
      using h(4) by (auto simp: undisturbed_def other_names_def)
    have "resolve (fsdir_push (fsdir_of st0 a d) ?n) \<in> ?P \<or> \<not> ie_purge env \<and> \<not> apk_protect_mode_none (dr_protect_mode (diri_dir (in_fs st1) d)) \<and>
        honest (fo_sys (ie_fo env)) \<and> \<not> is_uvol (fd_path (fsdir_of st0 a d)) \<and>
        locally_modified (ie_fo env) (Some (fs_file (in_fs s) g)) (resolve (fsdir_push (fsdir_of st0 a d) ?n)) (in_disk s)"
    proof (cases "(d, g) = (diri, f)")
      case True
      have "locally_modified (ie_fo env) (Some (fs_file (in_fs st0) f)) (place_of st0 a diri f) (in_disk s)"
        using h(3) s by (auto simp: changed_since_install_def locally_modified_def only_paths_def)
      then show ?thesis using True h n1(6) same by (simp add: changed_since_install_def fsdir_of_def place_of_def)
    next
      case False
      then have "place_of st0 a d g \<noteq> place_of st0 a diri f" using h(4) mem unfolding undisturbed_def by metis
      then show ?thesis by (simp add: place_of_def)
    qed
    then have "purge_ext s s' \<and> only_paths ?P (in_disk s) (in_disk s')"
      using purge_file_step [OF r get(2), of ?n ?P] other same by simp
    then show "?I s'" using s purge_ext_trans only_trans by blast
  qed
  moreover have "purge_ext st2 st'" unfolding st2(3) by (rule purge_ext_dirs, rule remove_purge_ext [OF st2(2)])
  ultimately show ?thesis using purge_ext_trans st2(3) by auto
qed

text \<open>
  C19. Removing a package, also as a part of an upgrade, leaves those of its files on the disk as they are that
  are in protected directories and were changed since they were installed, unless everything is purged.
\<close>

theorem purge_keeps_changed_files:
  assumes "apk_db_purge_pkg env a True ids st = Ret st'" "\<not> ie_purge env" "honest (fo_sys (ie_fo env))"
    "changed_since_install env a st d f" "undisturbed env a st d f"
  shows "dk_path (in_disk st') (place_of st a d f) = dk_path (in_disk st) (place_of st a d f) \<and> dk_node (in_disk st') = dk_node (in_disk st)"
proof -
  let ?I = "\<lambda>s. purge_ext st s \<and> only_paths (- {place_of st a d f}) (in_disk st) (in_disk s)"
  obtain st1 where st1: "foldo (purge_diri env a True (if ids = Some [] then None else ids)) (pkg_diris st a) st = Ret st1"
    "st' = upd_ipkg_of a (\<lambda>i. i\<lparr>ipkg_diris := []\<rparr>) st1"
    using assms(1) by (auto simp: apk_db_purge_pkg_def pkg_diris_def split: outcome.splits)
  have "?I st1"
    by (rule foldo_partial [where I = "\<lambda>s. purge_ext st s \<and> only_paths (- {place_of st a d f}) (in_disk st) (in_disk s)", OF _ _ st1(1)])
      (use purge_diri_step [OF _ _ assms(2-5)] in auto)
  then show ?thesis by (simp add: st1(2) upd_ipkg_of_def only_paths_def)
qed

section \<open>A small system\<close>

text \<open>The package has the file \<^verbatim>\<open>conf\<close> in the protected directory \<^verbatim>\<open>etc\<close>, and there is such a file on the disk.\<close>

definition small_fs :: file_db where
  "small_fs = fs_init\<lparr>
     fs_dir := (\<lambda>d. null_dir\<lparr>dr_cname := ''etc'', dr_namelen := 3, dr_hash := apk_blob_hash (Some ''etc''), dr_protect_mode := APK_PROTECT_CHANGED, dr_refs := 2\<rparr>),
     fs_diri := (\<lambda>d. \<lparr>di_files = [0], di_pkg = 0, di_dir = 0, di_acl = apk_default_acl_dir\<rparr>),
     fs_file := (\<lambda>f. null_file\<lparr>fl_cname := ''conf'', fl_namelen := 4\<rparr>)\<rparr>"

definition small_disk :: disk where
  "small_disk = \<lparr>dk_path = [''etc/conf'' \<mapsto> 0],
     dk_node = (\<lambda>n. \<lparr>nd_mode = 0, nd_uid = 0, nd_gid = 0, nd_device = 0, nd_mtime = 0, nd_data = ''x'', nd_xattrs = []\<rparr>), dk_next = 1, dk_log = []\<rparr>"

definition small :: inst where
  "small = \<lparr>in_fs = small_fs, in_disk = small_disk,
     in_pkg = (\<lambda>a. null_package\<lparr>pkg_name := Some ''p'', pkg_ipkg := Some (new_installed_package\<lparr>ipkg_diris := [0]\<rparr>)\<rparr>),
     in_idb = \<lparr>idb_packages = [0], idb_triggers = [], idb_sorted_installed_packages = False, idb_num_packages = 1, idb_bytes = 0\<rparr>,
     in_script = 0, in_script_pending = False, in_size = 0, in_id_resets = 0\<rparr>"

definition small_env :: inst_env where
  "small_env = \<lparr>ie_dir = \<lparr>env_simulate = False, env_usermode = False, env_result = (\<lambda>_ _. Fs_ok), env_fnmatch = (\<lambda>_ _. False)\<rparr>,
     ie_fo = \<lparr>fo_sys = (\<lambda>_ _. None), fo_sha256 = (\<lambda>_. []), fo_digest = (\<lambda>_ _. zero_digest), fo_suffix = ''.apk-new'',
       fo_flags = \<lparr>ef_no_chown = False, ef_no_overwrite = False, ef_no_sys_xattrs = False, ef_no_devices = False\<rparr>, fo_uvol_error = None\<rparr>,
     ie_purge = False, ie_clean_protected = False, ie_force_overwrite = False, ie_no_scripts = False, ie_script = (\<lambda>_ _ dk. (False, dk))\<rparr>"

lemma small_names:
  "diri_name small_fs d = ''etc''" "fl_name (fs_file small_fs f) = ''conf''" "pkg_diris small 0 = [0]" "pkg_files small 0 = {(0, 0)}"
  "place_of small 0 d f = ''etc/conf''" "key_of small d f = (''etc'', ''conf'')"
proof -
  show n: "diri_name small_fs d = ''etc''" for d by (simp add: small_fs_def dr_name_def)
  show f: "fl_name (fs_file small_fs f) = ''conf''" for f by (simp add: small_fs_def fl_name_def)
  show d: "pkg_diris small 0 = [0]" by (simp add: pkg_diris_def ipkg_of_def small_def)
  have "di_files (fs_diri (in_fs small) x) = [0]" for x by (simp add: small_def small_fs_def)
  then show "pkg_files small 0 = {(0, 0)}" by (auto simp: pkg_files_def d)
  show "key_of small d f = (''etc'', ''conf'')" by (simp add: key_of_def small_def n f)
  show "place_of small 0 d f = ''etc/conf''" by (simp add: place_of_def fsdir_of_def small_def n f fsdir_push_def PATH_MAX_def)
qed

lemma small_files_ok: "files_ok (in_fs small)" "owner_map (in_fs small) k = None"
proof -
  have h: "(fs_files (in_fs small))\<lparr>hash_ops := file_ops\<rparr> = apk_hash_init file_ops 200000" "hash_ops (fs_files (in_fs small)) = file_hash_ops"
    by (simp_all add: small_def small_fs_def fs_init_def apk_hash_init_def)
  show "files_ok (in_fs small)" using file_table.table_init [of 200000] file_table.distinct_init [of 200000] by (simp add: files_ok_def h)
  show "owner_map (in_fs small) k = None" using file_table.map_init [of 200000 k] by (simp add: owner_map_def h)
qed

lemma small_ready: "movable small 0"
  using small_files_ok(1) unfolding movable_def small_names
  by (simp add: small_def hash_fits_def dir_fits_def fsdir_of_def small_names PATH_MAX_def) (simp add: small_fs_def dr_name_def)

lemma small_undisturbed: "undisturbed small_env 0 small 0 0"
proof -
  have "tmp_of (ie_fo small_env) (fsdir_of small 0 0) ''conf'' = ''etc/.apk.''"
    using tmpname_fits [of "''etc''"] by (simp add: tmp_of_def fsdir_of_def small_def small_names PATH_MAX_def small_env_def cstr_def)
  moreover have "new_of (ie_fo small_env) (fsdir_of small 0 0) ''conf'' = ''etc/conf.apk-new''"
    by (simp add: new_of_def fsdir_push_def fsdir_of_def small_def small_names PATH_MAX_def small_env_def)
  moreover have "fl_name (fs_file (in_fs small) 0) = ''conf''" by (simp add: small_def small_names)
  ultimately show ?thesis by (simp add: undisturbed_def small_names other_names_def)
qed

lemma small_changed: "changed_by_hand small_env 0 small 0 0" "changed_since_install small_env 0 small 0 0" "honest (fo_sys (ie_fo small_env))"
proof -
  have p: "\<not> apk_protect_mode_none (dr_protect_mode (diri_dir (in_fs small) 0))" "diri_name (in_fs small) 0 = ''etc''"
    by (simp add: small_def small_fs_def apk_protect_mode_none_def, simp add: small_def small_names)
  have u: "\<not> is_uvol ''etc''" by code_simp
  have d: "dk_path (in_disk small) ''etc/conf'' = Some 0" "fl_digest_alg (fs_file (in_fs small) 0) = APK_DIGEST_NONE"
    by (simp add: small_def small_disk_def, simp add: small_def small_fs_def null_file_def)
  show "changed_by_hand small_env 0 small 0 0" using p u d by (simp add: changed_by_hand_def small_names small_files_ok locally_modified_def)
  show "changed_since_install small_env 0 small 0 0" using p u d by (simp add: changed_since_install_def small_names locally_modified_def)
  show "honest (fo_sys (ie_fo small_env))" by (simp add: honest_def small_env_def)
qed

theorem migrate_claims_files_witness:
  "\<exists>st' ids'. apk_db_migrate_files small_env 0 (small, None) = Some (Ret (st', ids')) \<and> files_ok (in_fs st') \<and>
    owner_map (in_fs st') (''etc'', ''conf'') = Some 0"
  using migrate_claims_files [of small 0 small_env None] small_ready by (auto simp: small_names)

theorem migrate_keeps_changed_files_witness:
  "\<exists>st' ids'. apk_db_migrate_files small_env 0 (small, None) = Some (Ret (st', ids')) \<and>
    dk_path (in_disk st') ''etc/conf'' = Some 0 \<and> dk_node (in_disk st') = dk_node (in_disk small)"
  using migrate_keeps_changed_files [of small 0 0 0 small_env None] small_ready small_changed small_undisturbed
  by (simp add: small_names) (simp add: small_def small_disk_def)

lemma purge_file_total:
  assumes "files_ok (in_fs st)" "hash_fits dir" "dir_fits d"
  shows "\<exists>st'. purge_file env d dir True ids g st = Ret st'"
proof (cases "fl_audited (fs_file (in_fs st) g)")
  case True
  then show ?thesis by (simp add: purge_file_def)
next
  case False
  let ?n = "fl_name (fs_file (in_fs st) g)" and ?none = "apk_protect_mode_none (dr_protect_mode dir)"
  obtain del dk1 where w: "purge_wanted (ie_fo env) (ie_purge env \<or> ?none) d ?n (fs_file (in_fs st) g) ids (in_disk st) = (del, dk1)" by fastforce
  have "length ?n < 4000" using name_len [of "fs_file (in_fs st) g"] by simp
  then obtain dk2 where "purge_disk (ie_fo env) d ?n del APK_FS_CTRL_DELETE (\<not> ?none) dk1 = Ret dk2"
    using purge_disk_only [OF assms(3), of ?n del UNIV "ie_fo env"] by (meson subset_UNIV UNIV_I)
  moreover obtain fr h where "apk_hash_delete_hashed (fs_files (in_fs st)) \<lparr>fk_dirname = Some (dr_name dir), fk_filename = Some ?n\<rparr>
      (apk_blob_hash_seed (Some ?n) (dr_hash dir)) = Ret (fr, h)" by (rule delete_owner [OF assms(1,2)])
  ultimately show ?thesis using False w by (simp add: purge_file_def Let_def)
qed

lemma small_purge: "\<exists>st'. apk_db_purge_pkg small_env 0 True None small = Ret st'"
proof -
  define st1 where "st1 = small\<lparr>in_fs := upd_dir (di_dir (fs_diri (in_fs small) 0)) (\<lambda>x. x\<lparr>dr_modified := True\<rparr>) (in_fs small)\<rparr>"
  have e: "purge_ext small st1" unfolding st1_def by (rule purge_ext_dirs, rule upd_dirs_same) simp
  note n = purge_names [OF e]
  have ok: "files_ok (in_fs st1)" using small_files_ok(1) by (simp add: st1_def files_ok_def upd_dir_def)
  have hf: "hash_fits (diri_dir (in_fs st1) 0)" by (simp add: hash_fits_def st1_def small_def small_fs_def upd_dir_def dr_name_def)
  have nm: "dr_name (diri_dir (in_fs st1) 0) = ''etc''" using n(5) [of 0] by (simp add: small_def small_names)
  have get: "apk_fsdir_get (dr_name (diri_dir (in_fs st1) 0)) (apk_pkg_ctx (in_pkg st1 0)) = Ret \<lparr>fd_path = ''etc'', fd_pkgctx = apk_pkg_ctx (in_pkg st1 0)\<rparr>"
    by (simp add: apk_fsdir_get_def nm PATH_MAX_def)
  have "dir_fits \<lparr>fd_path = ''etc'', fd_pkgctx = apk_pkg_ctx (in_pkg st1 0)\<rparr>" by (simp add: dir_fits_def PATH_MAX_def)
  then obtain st2 where st2: "purge_file small_env \<lparr>fd_path = ''etc'', fd_pkgctx = apk_pkg_ctx (in_pkg st1 0)\<rparr> (diri_dir (in_fs st1) 0) True None 0 st1 = Ret st2"
    using purge_file_total [OF ok hf] by blast
  have files: "di_files (fs_diri (in_fs st1) 0) = [0]" using n(4) [of 0] by (simp add: small_def small_fs_def)
  have fs: "fs_dir (in_fs st2) = fs_dir (in_fs st1)" "fs_diri (in_fs st2) = fs_diri (in_fs st1)"
    using st2 by (auto simp: purge_file_def Let_def split: if_splits prod.splits outcome.splits)
  have "dr_refs (fs_dir (in_fs st2) (di_dir (fs_diri (in_fs st2) 0))) = 2" "dr_owner (fs_dir (in_fs st2) (di_dir (fs_diri (in_fs st2) 0))) = None"
    by (simp_all add: fs st1_def small_def small_fs_def upd_dir_def null_dir_def)
  then have "\<exists>fs. apk_db_diri_remove (ie_dir small_env) (in_pkg st2) 0 (in_fs st2) = Some fs"
    by (simp add: apk_db_diri_remove_def Let_def upd_dir_def) (subst apk_db_dir_unref.simps, simp add: upd_dir_def Let_def)
  then have "\<exists>st'. purge_diri small_env 0 True None 0 small = Ret st'"
    using st2 get files by (auto simp: purge_diri_def Let_def st1_def [symmetric])
  then show ?thesis using small_names(3) by (auto simp: apk_db_purge_pkg_def pkg_diris_def)
qed

theorem purge_keeps_changed_files_witness:
  "\<exists>st'. apk_db_purge_pkg small_env 0 True None small = Ret st' \<and> dk_path (in_disk st') ''etc/conf'' = Some 0"
proof -
  obtain st' where st': "apk_db_purge_pkg small_env 0 True None small = Ret st'" using small_purge by blast
  have "\<not> ie_purge small_env" by (simp add: small_env_def)
  from purge_keeps_changed_files [OF st' this small_changed(3,2) small_undisturbed]
  have "dk_path (in_disk st') ''etc/conf'' = Some 0" by (simp add: small_names) (simp add: small_def small_disk_def)
  then show ?thesis using st' by blast
qed

end
