(* ===== verification/Install_Extract.thy ===== *)
theory Install_Extract
  imports Install_Safe
begin

text \<open>
  Extracting a file under its temporary name and moving it to its place, together: what the archive has is
  what is on the disk in the end, and no other file is changed.
\<close>

section \<open>The temporary name\<close>

lemma resolve_slashes: "resolve (xs @ CHR ''/'' # CHR ''/'' # ys) = resolve (xs @ CHR ''/'' # ys)"
proof (induction xs)
  case (Cons x xs)
  then show ?case by (cases xs) auto
qed simp

lemma memrchr_last:
  assumes "c \<notin> set ys"
  shows "memrchr (xs @ c # ys) c = Some (length xs)"
proof (induction xs)
  case Nil
  have "memrchr ys c = None" using assms by (simp add: memrchr_None)
  then show ?case by simp
qed simp

lemma cstr_plain: "NUL \<notin> set xs \<Longrightarrow> cstr (xs @ ys) = xs @ cstr ys"
  by (induction xs) (auto simp: cstr_def)

definition name_fits :: "apk_fsdir \<Rightarrow> bytes \<Rightarrow> bool" where
  "name_fits d n \<longleftrightarrow> n \<noteq> [] \<and> CHR ''/'' \<notin> set n \<and> NUL \<notin> set (fd_path d) \<and> length (fd_path d) + length n + 2 < PATH_MAX"

text \<open>The name that a file is extracted under is the name that it is moved from.\<close>

lemma same_tmpname:
  assumes "name_fits d n" "fi_name fi = fsdir_push d n"
  shows "\<exists>t t'. format_tmpname sha (fd_pkgctx d) (get_dirname (fi_name fi)) (fi_name fi) = Some t \<and>
    format_tmpname sha (fd_pkgctx d) (Some (fd_path d)) (fsdir_push d n) = Some t' \<and> resolve t = resolve t'"
proof (cases "fd_path d = []")
  case True
  then have "fi_name fi = n" using assms by (simp add: fsdir_push_def name_fits_def)
  then have "get_dirname (fi_name fi) = None" using assms(1) by (simp add: get_dirname_def name_fits_def memrchr_None [THEN iffD2])
  moreover have "format_tmpname sha ctx None full = format_tmpname sha ctx (Some []) full" for ctx full
    by (simp add: format_tmpname_def apk_blob_push_blob_def blob_len_def blob_bytes_def APK_BLOB_BUF_def)
  ultimately show ?thesis using True assms tmpname_fits [of "[]"] by (simp add: PATH_MAX_def)
next
  case False
  let ?p = "fd_path d"
  have name: "fi_name fi = ?p @ CHR ''/'' # n" using False assms by (simp add: fsdir_push_def name_fits_def)
  have dir: "get_dirname (fi_name fi) = Some (?p @ ''/'')"
    using assms(1) memrchr_last [of "CHR ''/''" n ?p] by (simp add: get_dirname_def name name_fits_def)
  define h where "h = concat (map hex_byte (take 24 (sha (blob_bytes (fd_pkgctx d) @ fi_name fi))))"
  have len: "length (?p @ ''/'') + 2 < PATH_MAX" "length ?p + 2 < PATH_MAX"
    using assms(1) by (cases n; simp add: name_fits_def)+
  have nul: "NUL \<notin> set (?p @ ''/'')" using assms(1) by (simp add: name_fits_def)
  have "format_tmpname sha (fd_pkgctx d) (Some (?p @ ''/'')) (fi_name fi) = Some (?p @ CHR ''/'' # CHR ''/'' # cstr (''.apk.'' @ h @ [NUL]))"
    using tmpname_fits [OF len(1)] nul by (simp add: h_def cstr_plain) (simp add: cstr_def)
  moreover have "format_tmpname sha (fd_pkgctx d) (Some ?p) (fsdir_push d n) = Some (?p @ CHR ''/'' # cstr (''.apk.'' @ h @ [NUL]))"
    using tmpname_fits [OF len(2)] nul False assms(2) by (simp add: h_def cstr_plain) (simp add: cstr_def)
  ultimately show ?thesis unfolding dir by (simp add: resolve_slashes)
qed

section \<open>Attributes\<close>

text \<open>
  A change of the inode under a path. When a step gives no warning, all its calls had their effect.
\<close>

definition node_step :: "nat \<Rightarrow> (fnode \<Rightarrow> fnode) \<Rightarrow> disk \<Rightarrow> disk \<Rightarrow> bool" where
  "node_step i f dk dk' \<longleftrightarrow> dk_path dk' = dk_path dk \<and> dk_next dk' = dk_next dk \<and> dk_node dk' = (dk_node dk)(i := f (dk_node dk i))"

lemma node_step_trans: "node_step i f a b \<Longrightarrow> node_step i g b c \<Longrightarrow> node_step i (g \<circ> f) a c"
  by (simp add: node_step_def)

lemma do_upd:
  assumes "sys_do sys c (upd_node p f) dk = (None, dk')" "dk_path dk (resolve p) = Some i"
  shows "node_step i f dk dk'"
  using assms by (auto simp: sys_do_def sys_try_def upd_node_def node_step_def split: option.splits)

lemma or_zero: "(a::nat) OR b = 0 \<longleftrightarrow> a = 0 \<and> b = 0"
  by (auto simp: bit_eq_iff bit_or_iff)

lemma warn_zero: "w \<noteq> 0 \<Longrightarrow> warn_if w r ret = (0, dk) \<Longrightarrow> r = (None, dk) \<and> ret = 0"
  by (cases r) (auto simp: warn_if_def or_zero split: if_splits)

lemma warn_nonzero: "w \<noteq> 0 \<Longrightarrow> ret \<noteq> 0 \<Longrightarrow> fst (warn_if w r ret) \<noteq> 0"
  using or_zero [of ret w] by (auto simp: warn_if_def)

lemmas warn_defs = APK_EXTRACTW_OWNER_def APK_EXTRACTW_PERMISSION_def APK_EXTRACTW_MTIME_def APK_EXTRACTW_XATTR_def

definition owned :: "apk_file_info \<Rightarrow> fnode \<Rightarrow> fnode" where
  "owned fi nd = nd\<lparr>nd_uid := fi_uid fi, nd_gid := fi_gid fi,
     nd_mode := (if fi_mode fi AND 3584 \<noteq> 0 then ((nd_mode nd AND NOT 3072) AND NOT 4095) OR (fi_mode fi AND 4095) else nd_mode nd AND NOT 3072)\<rparr>"

lemma owner_step:
  assumes "extract_owner sys fi flags fn (0, dk) = (0, dk')" "\<not> ef_no_chown flags" "dk_path dk (resolve fn) = Some i"
  shows "node_step i (owned fi) dk dk'"
proof -
  obtain r1 dk1 where w: "warn_if APK_EXTRACTW_OWNER (fchownat sys fn (fi_uid fi) (fi_gid fi) dk) 0 = (r1, dk1)" by fastforce
  have "r1 = 0" using assms(1,2) w warn_nonzero [of APK_EXTRACTW_PERMISSION r1 "fchmodat sys fn (fi_mode fi) dk1"]
    by (auto simp: extract_owner_def warn_defs split: if_splits)
  then have "fchownat sys fn (fi_uid fi) (fi_gid fi) dk = (None, dk1)" using warn_zero [OF _ w [unfolded \<open>r1 = 0\<close>]] by (simp add: warn_defs)
  then have 1: "node_step i (\<lambda>nd. nd\<lparr>nd_uid := fi_uid fi, nd_gid := fi_gid fi, nd_mode := nd_mode nd AND NOT 3072\<rparr>) dk dk1"
    using do_upd assms(3) unfolding fchownat_def by blast
  show ?thesis
  proof (cases "fi_mode fi AND 3584 \<noteq> 0")
    case True
    then have "warn_if APK_EXTRACTW_PERMISSION (fchmodat sys fn (fi_mode fi) dk1) 0 = (0, dk')"
      using assms(1,2) w \<open>r1 = 0\<close> by (simp add: extract_owner_def)
    then have "fchmodat sys fn (fi_mode fi) dk1 = (None, dk')"
      using warn_zero [of APK_EXTRACTW_PERMISSION "fchmodat sys fn (fi_mode fi) dk1" 0 dk'] by (simp add: warn_defs)
    moreover have "dk_path dk1 (resolve fn) = Some i" using 1 assms(3) by (simp add: node_step_def)
    ultimately have "node_step i (\<lambda>nd. nd\<lparr>nd_mode := (nd_mode nd AND NOT 4095) OR (fi_mode fi AND 4095)\<rparr>) dk1 dk'"
      using do_upd unfolding fchmodat_def by blast
    then show ?thesis using 1 True by (simp add: node_step_def owned_def)
  next
    case False
    then show ?thesis using assms(1,2) w \<open>r1 = 0\<close> 1 by (simp add: extract_owner_def node_step_def owned_def)
  qed
qed

lemma xattrs_step:
  assumes "extract_xattrs sys flags fn xs (r, dk) = (0, dk')" "dk_path dk (resolve fn) = Some i"
  shows "r = 0 \<and> (\<exists>x. node_step i (\<lambda>nd. nd\<lparr>nd_xattrs := x\<rparr>) dk dk')"
  using assms
proof (induction xs arbitrary: r dk)
  case Nil
  have "dk_node dk = (dk_node dk)(i := (dk_node dk i)\<lparr>nd_xattrs := nd_xattrs (dk_node dk i)\<rparr>)" by simp
  then have "node_step i (\<lambda>nd. nd\<lparr>nd_xattrs := nd_xattrs (dk_node dk i)\<rparr>) dk dk" unfolding node_step_def by simp
  then show ?case using Nil by auto
next
  case (Cons a xs)
  show ?case
  proof (cases "ef_no_sys_xattrs flags \<and> is_system_xattr (xa_name a)")
    case True
    then show ?thesis using Cons by simp
  next
    case False
    obtain r1 dk1 where w: "warn_if APK_EXTRACTW_XATTR (apk_fsetxattr sys fn (xa_name a) (blob_bytes (xa_value a)) dk) r = (r1, dk1)" by fastforce
    have next1: "extract_xattrs sys flags fn xs (r1, dk1) = (0, dk')" using Cons.prems(1) False w by auto
    have p: "dk_path (snd (apk_fsetxattr sys fn n v dk)) = dk_path dk" for n v
      by (auto simp: apk_fsetxattr_def sys_do_def sys_try_def upd_node_def split: option.splits)
    have "dk_path dk1 (resolve fn) = Some i" using w p Cons.prems(2) by (auto simp: warn_if_def)
    then obtain x where x: "r1 = 0" "node_step i (\<lambda>nd. nd\<lparr>nd_xattrs := x\<rparr>) dk1 dk'" using Cons.IH [OF next1] by auto
    then have s: "apk_fsetxattr sys fn (xa_name a) (blob_bytes (xa_value a)) dk = (None, dk1)" "r = 0"
      using warn_zero [OF _ w [unfolded x(1)]] by (simp_all add: warn_defs)
    have "node_step i (\<lambda>nd. nd\<lparr>nd_xattrs := (xa_name a, blob_bytes (xa_value a)) # filter (\<lambda>x. fst x \<noteq> xa_name a) (nd_xattrs nd)\<rparr>) dk dk1"
      using do_upd [OF s(1) [unfolded apk_fsetxattr_def] Cons.prems(2)] .
    from node_step_trans [OF this x(2)] have "node_step i (\<lambda>nd. nd\<lparr>nd_xattrs := x\<rparr>) dk dk'" by (simp add: node_step_def)
    then show ?thesis using s(2) by blast
  qed
qed

lemma attrs_step:
  assumes "extract_attrs sys fi flags fn (r, dk) = (0, dk')" "\<not> S_ISLNK fi" "dk_path dk (resolve fn) = Some i"
  shows "r = 0 \<and> (\<exists>x. node_step i (\<lambda>nd. nd\<lparr>nd_xattrs := x, nd_mtime := fi_mtime fi\<rparr>) dk dk')"
proof -
  obtain r1 dk1 where m: "(if fi_xattrs fi = [] then (r, dk)
      else case sys_do sys (Sys_open fn) (upd_node fn id) dk of
        (None, dk) \<Rightarrow> extract_xattrs sys flags fn (fi_xattrs fi) (r, dk)
      | (Some e, dk) \<Rightarrow> (r OR APK_EXTRACTW_XATTR, dk)) = (r1, dk1)" by fastforce
  have "warn_if APK_EXTRACTW_MTIME (utimensat sys fn (fi_mtime fi) dk1) r1 = (0, dk')"
    using assms(1,2) unfolding extract_attrs_def Let_def fst_conv snd_conv m by simp
  then have t: "utimensat sys fn (fi_mtime fi) dk1 = (None, dk')" "r1 = 0"
    using warn_zero [of APK_EXTRACTW_MTIME "utimensat sys fn (fi_mtime fi) dk1" r1 dk'] by (simp_all add: warn_defs)
  have "r = 0 \<and> (\<exists>x. node_step i (\<lambda>nd. nd\<lparr>nd_xattrs := x\<rparr>) dk dk1)"
  proof (cases "fi_xattrs fi = []")
    case True
    then show ?thesis using xattrs_step [of sys flags fn "[]" r dk dk1 i] m t(2) assms(3) by simp
  next
    case False
    obtain e dk2 where o1: "sys_do sys (Sys_open fn) (upd_node fn id) dk = (e, dk2)" by fastforce
    then have e: "e = None" using m False t(2) by (auto simp: or_zero warn_defs split: option.splits)
    have s: "node_step i id dk dk2" using do_upd o1 e assms(3) by blast
    then have "dk_path dk2 (resolve fn) = Some i" using assms(3) by (simp add: node_step_def)
    moreover have "extract_xattrs sys flags fn (fi_xattrs fi) (r, dk2) = (0, dk1)" using m False o1 e t(2) by simp
    ultimately show ?thesis using xattrs_step node_step_trans [OF s] by (metis comp_id)
  qed
  then obtain x where x: "r = 0" "node_step i (\<lambda>nd. nd\<lparr>nd_xattrs := x\<rparr>) dk dk1" by blast
  have "dk_path dk1 (resolve fn) = Some i" using x(2) assms(3) by (simp add: node_step_def)
  then have "node_step i (\<lambda>nd. nd\<lparr>nd_mtime := fi_mtime fi\<rparr>) dk1 dk'" using do_upd t(1) unfolding utimensat_def by blast
  then have "node_step i (\<lambda>nd. nd\<lparr>nd_xattrs := x, nd_mtime := fi_mtime fi\<rparr>) dk dk'" using x(2) by (simp add: node_step_def)
  then show ?thesis using x(1) by blast
qed

section \<open>From the archive to the disk\<close>

text \<open>What a path leads to, and that the next inode is not in use.\<close>

definition file_at :: "disk \<Rightarrow> bytes \<Rightarrow> fnode option" where
  "file_at dk p = map_option (dk_node dk) (dk_path dk (resolve p))"

definition disk_ok :: "disk \<Rightarrow> bool" where
  "disk_ok dk \<longleftrightarrow> (\<forall>p i. dk_path dk p = Some i \<longrightarrow> i < dk_next dk)"

text \<open>Extended attributes are left open.\<close>

definition placed :: "apk_file_info \<Rightarrow> bytes \<Rightarrow> fnode \<Rightarrow> bool" where
  "placed fi data nd \<longleftrightarrow> nd_data nd = data \<and> nd_uid nd = fi_uid fi \<and> nd_gid nd = fi_gid fi \<and> nd_mtime nd = fi_mtime fi \<and>
     nd_mode nd = S_IFREG OR (fi_mode fi AND 4095)"

text \<open>The owner is set before the mode, so the bits that this clears are there in the end.\<close>

lemma mode_restored:
  fixes m :: u32
  shows "(((S_IFREG OR (m AND 4095)) AND NOT 3072) AND NOT 4095) OR (m AND 4095) = S_IFREG OR (m AND 4095)"
    "m AND 3584 = 0 \<Longrightarrow> (S_IFREG OR (m AND 4095)) AND NOT 3072 = S_IFREG OR (m AND 4095)"
proof -
  show "(((S_IFREG OR (m AND 4095)) AND NOT 3072) AND NOT 4095) OR (m AND 4095) = S_IFREG OR (m AND 4095)"
    by (simp add: bit.conj_disj_distrib2 and.assoc S_IFREG_def)
  assume "m AND 3584 = 0"
  then have "(m AND 3584) AND 3072 = 0" by simp
  then have 0: "m AND 3072 = 0" by (simp add: and.assoc)
  have "m AND 4095 = m AND (1023 OR 3072)" by simp
  also have "\<dots> = m AND 1023" unfolding bit.conj_disj_distrib 0 by simp
  finally have "m AND 4095 = m AND 1023" .
  then show "(S_IFREG OR (m AND 4095)) AND NOT 3072 = S_IFREG OR (m AND 4095)"
    by (simp add: bit.conj_disj_distrib2 and.assoc S_IFREG_def)
qed


lemma extract_places:
  assumes reg: "S_ISREG fi" "fi_link_target fi = None" and ok: "disk_ok dk" and flags: "\<not> ef_no_chown flags"
    and run: "fsys_file_extract sys sha fi (Inr data) flags (Some ctx) dk = Ret (Inr 0, dk1)"
    and t: "format_tmpname sha (Some ctx) (get_dirname (fi_name fi)) (fi_name fi) = Some t"
  shows "\<exists>i. dk_path dk1 = (dk_path dk)(resolve t \<mapsto> i) \<and> (\<forall>p. dk_path dk p \<noteq> Some i) \<and> placed fi data (dk_node dk1 i) \<and>
    (\<forall>j. j \<noteq> i \<longrightarrow> dk_node dk1 j = dk_node dk j)"
proof -
  have m: "mode_type fi = S_IFREG" using reg(1) by (simp add: S_ISREG_def)
  then have nd: "\<not> S_ISDIR fi" "\<not> S_ISLNK fi" by (simp_all add: S_ISDIR_def S_ISLNK_def S_IFREG_def S_IFDIR_def S_IFLNK_def)
  obtain e dk2 where u: "(if S_ISDIR fi \<or> ef_no_overwrite flags then (None, dk) else unlinkat sys t dk) = (e, dk2)" by fastforce
  have k2: "dk_node dk2 = dk_node dk" "dk_next dk2 = dk_next dk" "dk_path dk2 = dk_path dk \<or> dk_path dk2 = (dk_path dk)(resolve t := None)"
    using u by (auto simp: unlinkat_def sys_do_def sys_try_def split: if_splits option.splits)
  obtain e3 dk3 where n: "sys_do sys (Sys_open t) (new_node t (plain_node fi data)) dk2 = (e3, dk3)" by fastforce
  have "e3 = None" and rest: "extract_attrs sys fi flags t (extract_owner sys fi flags t (0, dk3)) = (0, dk1)"
    using run u n unfolding fsys_file_extract_def Let_def
    by (auto simp: t reg extract_node_def nd split: if_splits option.splits prod.splits)
  let ?i = "dk_next dk"
  have n3: "dk_path dk3 = (dk_path dk2)(resolve t \<mapsto> ?i)" "dk_node dk3 = (dk_node dk)(?i := plain_node fi data)"
    using n \<open>e3 = None\<close> k2 by (auto simp: sys_do_def sys_try_def new_node_def split: option.splits if_splits)
  then have p3: "dk_path dk3 (resolve t) = Some ?i" by simp
  obtain r4 dk4 where o4: "extract_owner sys fi flags t (0, dk3) = (r4, dk4)" by fastforce
  have p: "dk_path (snd (warn_if w (f dk) r)) = dk_path dk" if "f \<in> {fchownat sys t u g, fchmodat sys t u}" for w f r dk u g
    using that by (auto simp: warn_if_def fchownat_def fchmodat_def sys_do_def sys_try_def upd_node_def split: option.splits)
  have "dk_path dk4 = dk_path dk3" using o4 flags unfolding extract_owner_def
    by (auto split: prod.splits if_splits) (metis insertI1 insertI2 p snd_conv)+
  then have p4: "dk_path dk4 (resolve t) = Some ?i" using p3 by simp
  from attrs_step [OF rest [unfolded o4] nd(2) p4] obtain x where x: "r4 = 0"
    "node_step ?i (\<lambda>nd. nd\<lparr>nd_xattrs := x, nd_mtime := fi_mtime fi\<rparr>) dk4 dk1" by blast
  have "node_step ?i (owned fi) dk3 dk4" by (rule owner_step [OF o4 [unfolded x(1)] flags p3])
  then have s: "dk_path dk1 = dk_path dk3" "dk_node dk1 = (dk_node dk)(?i := (owned fi (plain_node fi data))\<lparr>nd_xattrs := x, nd_mtime := fi_mtime fi\<rparr>)"
    using x(2) n3(2) by (auto simp: node_step_def)
  have "placed fi data (dk_node dk1 ?i)"
    using mode_restored [of "fi_mode fi"] by (simp add: placed_def s(2) owned_def plain_node_def m)
  moreover have "dk_path dk1 = (dk_path dk)(resolve t \<mapsto> ?i)" using s(1) n3(1) k2(3) by auto
  moreover have "dk_path dk p \<noteq> Some ?i" for p using ok by (auto simp: disk_ok_def)
  ultimately show ?thesis using s(2) by auto
qed

text \<open>
  C17. When a regular file of an archive is extracted without a warning and then moved to its place
  successfully, the place has the data, owner, time and mode of the archive, also the mode bits that
  changing the owner clears. No other file of the disk is changed, whatever links there are.
\<close>

theorem extracted_file_is_placed:
  assumes "S_ISREG fi" "fi_link_target fi = None" "fi_name fi = fsdir_push d n" "name_fits d n"
    "\<not> is_uvol (fd_path d)" "\<not> is_uvol (take 5 (fi_name fi))" "\<not> ef_no_chown (fo_flags fo)" "disk_ok dk" "fd_pkgctx d = Some ctx"
    "apk_fs_extract fo fi (Inr data) (fd_pkgctx d) dk = Ret (Inr 0, dk1)"
    "apk_fsdir_file_control fo d n APK_FS_CTRL_COMMIT dk1 = Ret (Inr r, dk2)"
  shows "(\<exists>nd. file_at dk2 (fi_name fi) = Some nd \<and> placed fi data nd) \<and>
    (\<forall>p. resolve p \<noteq> resolve (fi_name fi) \<and> resolve p \<noteq> resolve (tmp_of fo d n) \<longrightarrow> file_at dk2 p = file_at dk p)"
proof -
  obtain t where t: "format_tmpname (fo_sha256 fo) (Some ctx) (get_dirname (fi_name fi)) (fi_name fi) = Some t"
    "format_tmpname (fo_sha256 fo) (Some ctx) (Some (fd_path d)) (fsdir_push d n) = Some (tmp_of fo d n)" "resolve (tmp_of fo d n) = resolve t"
    using same_tmpname [OF assms(4,3), of "fo_sha256 fo"] unfolding assms(9) tmp_of_def by fastforce
  have ex: "fsys_file_extract (fo_sys fo) (fo_sha256 fo) fi (Inr data) (fo_flags fo) (Some ctx) dk = Ret (Inr 0, dk1)"
    using assms(1,6,9,10) by (auto simp: apk_fs_extract_def S_ISREG_def S_ISDIR_def S_IFREG_def S_IFDIR_def split: if_splits)
  from extract_places [OF assms(1,2,8,7) ex t(1)] obtain i where i: "dk_path dk1 = (dk_path dk)(resolve t \<mapsto> i)"
    "\<And>p. dk_path dk p \<noteq> Some i" "placed fi data (dk_node dk1 i)" "\<And>j. j \<noteq> i \<Longrightarrow> dk_node dk1 j = dk_node dk j" by auto
  have "ctrl_commit fo (tmp_of fo d n) (fi_name fi) dk1 = (Inr r, dk2)"
    using assms(3,5,11) t(2) by (simp add: apk_fsdir_file_control_def fsys_file_control_def assms(9))
  then have c: "dk_node dk2 = dk_node dk1"
    "dk_path dk2 = (if resolve (fi_name fi) = resolve t then dk_path dk1 else (dk_path dk1)(resolve (fi_name fi) \<mapsto> i, resolve t := None))"
    using i(1,2) t(3) by (auto simp: ctrl_commit_def renameat_def sys_do_def sys_try_def split: option.splits if_splits)
  have "file_at dk2 p = file_at dk p" if "resolve p \<noteq> resolve (fi_name fi)" "resolve p \<noteq> resolve t" for p
    using that i(1,4) i(2) [of "resolve p"] c by (cases "dk_path dk (resolve p)") (auto simp: file_at_def)
  moreover have "file_at dk2 (fi_name fi) = Some (dk_node dk1 i)" using c i(1) by (auto simp: file_at_def)
  ultimately show ?thesis using i(3) t(3) by auto
qed

text \<open>The file \<^verbatim>\<open>etc/motd\<close> with mode 04755, extracted and moved on the small disk.\<close>

definition motd :: apk_file_info where
  "motd = \<lparr>fi_name = ''etc/motd'', fi_link_target = None, fi_uname = None, fi_gname = None, fi_size = 2, fi_uid = 7, fi_gid = 8,
     fi_mode = 0x89ED, fi_mtime = 5, fi_device = 0, fi_digest = zero_digest\<lparr>dg_alg := APK_DIGEST_SHA256\<rparr>, fi_xattr_digest = zero_digest,
     fi_xattrs = []\<rparr>"

definition etc_dir :: apk_fsdir where "etc_dir = \<lparr>fd_path = ''etc'', fd_pkgctx = Some ''p''\<rparr>"

lemma motd_tmp:
  "format_tmpname (\<lambda>_. []) (Some ''p'') (get_dirname ''etc/motd'') ''etc/motd'' = Some ''etc//.apk.''"
  "format_tmpname (\<lambda>_. []) (Some ''p'') (Some ''etc'') ''etc/motd'' = Some ''etc/.apk.''"
  using tmpname_fits [of "''etc/''" "\<lambda>_. []" "Some ''p''" "''etc/motd''"] tmpname_fits [of "''etc''" "\<lambda>_. []" "Some ''p''" "''etc/motd''"]
  by (simp_all add: get_dirname_def PATH_MAX_def cstr_def)

lemmas call_defs = sys_do_def sys_try_def new_node_def upd_node_def unlinkat_def fchownat_def fchmodat_def utimensat_def renameat_def

lemma motd_runs:
  "\<exists>dk1 dk2. apk_fs_extract (ie_fo small_env) motd (Inr ''hi'') (fd_pkgctx etc_dir) small_disk = Ret (Inr 0, dk1) \<and>
     apk_fsdir_file_control (ie_fo small_env) etc_dir ''motd'' APK_FS_CTRL_COMMIT dk1 = Ret (Inr 0, dk2)"
proof -
  have m: "\<not> S_ISDIR motd" "S_ISREG motd" "\<not> S_ISLNK motd" "\<not> is_uvol (take 5 (fi_name motd))" "\<not> is_uvol ''etc''"
    by (simp_all add: S_ISDIR_def S_ISREG_def S_ISLNK_def mode_type_def motd_def S_IFMT_def S_IFDIR_def S_IFREG_def S_IFLNK_def is_uvol_def
        apk_blob_starts_with_def blob_len_def blob_bytes_def)
  have d: "dg_alg (fi_digest motd) \<noteq> APK_DIGEST_NONE" by (simp add: motd_def APK_DIGEST_SHA256_def APK_DIGEST_NONE_def)
  have f: "fi_name motd = ''etc/motd''" "fi_link_target motd = None" "fi_xattrs motd = []" by (simp_all add: motd_def)
  have fl: "\<not> ef_no_chown (fo_flags (ie_fo small_env))" "\<not> ef_no_overwrite (fo_flags (ie_fo small_env))" by (simp_all add: small_env_def)
  have fs: "\<exists>dk1. fsys_file_extract (\<lambda>_ _. None) (\<lambda>_. []) motd (Inr ''hi'') (fo_flags (ie_fo small_env)) (Some ''p'') small_disk = Ret (Inr 0, dk1) \<and>
      dk_path dk1 ''etc/.apk.'' = Some 1 \<and> dk_path dk1 ''etc/motd'' = None"
    unfolding fsys_file_extract_def Let_def
    by (simp add: m f fl motd_tmp extract_node_def extract_owner_def extract_attrs_def warn_if_def call_defs small_disk_def)
  then obtain dk1 where dk1: "fsys_file_extract (\<lambda>_ _. None) (\<lambda>_. []) motd (Inr ''hi'') (fo_flags (ie_fo small_env)) (Some ''p'') small_disk = Ret (Inr 0, dk1)"
      "dk_path dk1 ''etc/.apk.'' = Some 1" "dk_path dk1 ''etc/motd'' = None" by blast
  have "apk_fs_extract (ie_fo small_env) motd (Inr ''hi'') (fd_pkgctx etc_dir) small_disk = Ret (Inr 0, dk1)"
    using dk1(1) m d by (simp add: apk_fs_extract_def small_env_def etc_dir_def)
  moreover have "\<exists>dk2. apk_fsdir_file_control (ie_fo small_env) etc_dir ''motd'' APK_FS_CTRL_COMMIT dk1 = Ret (Inr 0, dk2)"
    using dk1(2,3) m(5) by (simp add: apk_fsdir_file_control_def fsys_file_control_def etc_dir_def fsdir_push_def PATH_MAX_def motd_tmp small_env_def ctrl_commit_def call_defs Let_def)
  ultimately show ?thesis by blast
qed

theorem extracted_file_is_placed_witness:
  "\<exists>dk2 nd. file_at dk2 ''etc/motd'' = Some nd \<and> placed motd ''hi'' nd \<and> file_at dk2 ''etc/conf'' = file_at small_disk ''etc/conf''"
proof -
  obtain dk1 dk2 where r: "apk_fs_extract (ie_fo small_env) motd (Inr ''hi'') (fd_pkgctx etc_dir) small_disk = Ret (Inr 0, dk1)"
    "apk_fsdir_file_control (ie_fo small_env) etc_dir ''motd'' APK_FS_CTRL_COMMIT dk1 = Ret (Inr 0, dk2)" using motd_runs by blast
  have "tmp_of (ie_fo small_env) etc_dir ''motd'' = ''etc/.apk.''"
    by (simp add: tmp_of_def etc_dir_def fsdir_push_def PATH_MAX_def motd_tmp small_env_def)
  moreover have "fi_name motd = ''etc/motd''" by (simp add: motd_def)
  ultimately have "(\<exists>nd. file_at dk2 ''etc/motd'' = Some nd \<and> placed motd ''hi'' nd) \<and>
      (\<forall>p. resolve p \<noteq> resolve ''etc/motd'' \<and> resolve p \<noteq> resolve ''etc/.apk.'' \<longrightarrow> file_at dk2 p = file_at small_disk p)"
    using extracted_file_is_placed [OF _ _ _ _ _ _ _ _ _ r]
    by (simp add: S_ISREG_def mode_type_def motd_def S_IFMT_def S_IFREG_def etc_dir_def fsdir_push_def name_fits_def PATH_MAX_def is_uvol_def
        apk_blob_starts_with_def blob_len_def blob_bytes_def small_env_def disk_ok_def small_disk_def)
  then have "file_at dk2 ''etc/conf'' = file_at small_disk ''etc/conf''" "\<exists>nd. file_at dk2 ''etc/motd'' = Some nd \<and> placed motd ''hi'' nd" by simp_all
  then show ?thesis by blast
qed

end
