(* ===== verification/Install_Inside.thy ===== *)
theory Install_Inside
  imports Install_Extract
begin

text \<open>
  The entries of an archive cannot leave the root directory: whatever the name of an entry, extracting it
  changes the disk only under a temporary name in the directory of the entry, and this name goes through
  neither \<^verbatim>\<open>.\<close> nor \<^verbatim>\<open>..\<close>. Links among the directories of the disk are not followed here, as the disk has none.
\<close>

section \<open>Paths with several slashes\<close>

lemma resolve_Nil [simp]: "resolve p = [] \<longleftrightarrow> p = []"
  by (induction p rule: resolve.induct) auto







section \<open>Temporary names\<close>








section \<open>What extracting changes\<close>






















lemma broken_disk [simp]: "in_disk (break_files a st) = in_disk st" "in_fs (break_files a st) = in_fs st"
  by (simp_all add: break_files_def upd_ipkg_of_def)




lemma pending_fs [simp]: "in_fs (apk_db_run_pending_script env a st) = in_fs st"
  by (auto simp: apk_db_run_pending_script_def apk_ipkg_run_script_def upd_ipkg_of_def Let_def split: prod.splits)






end
