(* ===== verification/Spec2Isabelle.thy ===== *)
theory Spec2Isabelle
  imports Prelude Blob Codec Digest Ctype Version Version_Grammar Lists Hash Balloc Atom Array Subst
    Repoparser Dependency Package Istream Tar Tar_Roundtrip Solver Changeset Solver_Frame
    Solver_Sound Changeset_Sound Solver_Result Solver_Term Solver_Loop Solver_World Solver_Example
    Files Files_Inv Database Database_Inv Database_Open Database_Solver Database_Example
    Fdb Fdb_Index Fdb_Files Fdb_Installed Fdb_Roundtrip Adb Adb_Write Adb_Block Adb_Parse
    Adb_Obj Adb_Schema Adb_Object Fsys Install Install_Safe Install_Extract Install_Inside
begin

text \<open>
  A verification library for the package manager \<^verbatim>\<open>apk-tools\<close>. The program reads package indexes and
  packages, keeps a database of packages and installed files, chooses the packages that satisfy
  the user's wishes and changes the system accordingly. The sources are C (\<^verbatim>\<open>src/\<close>); every C
  function that is modelled is a HOL function of the same name, in the theory of its component.

  \<^bold>\<open>Conventions.\<close> Bytes are characters (\<open>bytes = char list\<close>). A blob (\<^verbatim>\<open>apk_blob_t\<close>) is an optional
  byte string: \<open>None\<close> is the null blob. A blob that is written to is the pair of the bytes written
  and the room left, or \<open>None\<close> once it overflowed. Fixed-width integers are words where their width
  matters (\<open>u8\<close> to \<open>u64\<close>). Errors are values (\<open>apk_error\<close>); an access outside the memory of an
  object is the outcome \<open>Fault\<close>. What C code changes in place is passed in and returned. Loops are
  structural or well-founded recursions; a loop that may run forever is a \<open>partial_function\<close> whose
  value \<open>None\<close> means that it does not return, and its theorems state that it does.

  \<^bold>\<open>The theories,\<close> bottom up.

  \<^item> \<open>Prelude\<close>: bytes, error codes, \<^verbatim>\<open>memcmp\<close>, \<^verbatim>\<open>memmem\<close>, \<^verbatim>\<open>strcmp\<close> and their lemmas.
  \<^item> \<open>Blob\<close>, \<open>Codec\<close>, \<open>Digest\<close> (\<^verbatim>\<open>blob.c\<close>, \<^verbatim>\<open>crypto.c\<close>): byte strings; integers, hexadecimal and
    base64 in both directions with round trips; digests and their text forms.
  \<^item> \<open>Ctype\<close> (\<^verbatim>\<open>ctype.c\<close>): the character class tables and spans.
  \<^item> \<open>Version\<close>, \<open>Version_Grammar\<close> (\<^verbatim>\<open>version.c\<close>): the tokenizer, comparison as the order of abstract
    keys, validation as the documented grammar.
  \<^item> \<open>Lists\<close> (\<^verbatim>\<open>apk_defines.h\<close>): the pointer lists, refined to HOL lists.
  \<^item> \<open>Hash\<close> (\<^verbatim>\<open>hash.c\<close>): bucketed hash tables as finite maps, with the contract of their operations
    as the locale \<open>hash_contract\<close>; it is interpreted for atoms, repository variables, names, packages and
    directories.
  \<^item> \<open>Balloc\<close>, \<open>Atom\<close>, \<open>Array\<close> (\<^verbatim>\<open>balloc.c\<close>, \<^verbatim>\<open>atom.c\<close>, \<^verbatim>\<open>common.c\<close>, \<^verbatim>\<open>pathbuilder.c\<close>): the bump
    allocator (allocations never overlap), interning (equal strings are one atom), growable arrays
    and path buffers.
  \<^item> \<open>Subst\<close>, \<open>Repoparser\<close> (\<^verbatim>\<open>blob.c\<close>, \<^verbatim>\<open>repoparser.c\<close>): template expansion and the repositories file.
  \<^item> \<open>Dependency\<close>, \<open>Package\<close> (\<^verbatim>\<open>package.c\<close>): dependencies and packages: text forms, matching,
    the lists of installed packages and of those with triggers, replacement priorities, index entries,
    iteration.
  \<^item> \<open>Istream\<close> (\<^verbatim>\<open>io.c\<close>): buffered input streams; the locale \<open>source\<close> is the contract of a read
    operation and \<open>reliable_source\<close> adds that it does not fail; they are interpreted for byte strings
    and for files. Streams deliver the bytes of their source however it splits them.
  \<^item> \<open>Tar\<close>, \<open>Tar_Roundtrip\<close> (\<^verbatim>\<open>tar.c\<close>): reading archives from a stream and writing them.
  \<^item> \<open>Solver\<close>, \<open>Changeset\<close> (\<^verbatim>\<open>solver.c\<close>): the dependency solver: discovery, propagation, the choice of
    providers, the resolution loop and the change set. \<open>Solver_Frame\<close> says what each operation may
    change (the locale \<open>extension\<close> for a preorder on states, \<open>solver_rel\<close> and \<open>solver_prop\<close> for
    relations kept by the elementary updates and thereby by all operations); \<open>Solver_Sound\<close> has the
    invariant of the resolution, \<open>Changeset_Sound\<close> that of the change set (the locales \<open>removal\<close> and
    \<open>changes\<close>), \<open>Solver_Result\<close> the properties of a solution. \<open>Solver_Term\<close> and \<open>Solver_Loop\<close> show that
    all loops end: discovery and the change set need more steps than there are names and packages;
    a step of the resolution loop decides a name, or drops a candidate, or lowers the load of the
    queues. This needs that no name causes 65536 increments of a 16-bit counter at once (\<open>burst\<close>), and it is
    about one attempt, as broken worlds are not forced. \<open>Solver_World\<close> shows that the names of the world get
    their providers while the counter of requirers does not wrap. \<open>Solver_Example\<close> evaluates the solver on two small databases.
  \<^item> \<open>Database\<close> (\<^verbatim>\<open>database.c\<close>): the known names and packages, their providers and reverse dependencies.
    \<open>Database_Inv\<close> interprets \<open>hash_contract\<close> for its two tables and has the invariant: the lists are
    exactly what the packages say; \<open>Database_Open\<close> has the pass at the end of opening and the runs of
    operations (\<open>db_step\<close>). \<open>Database_Solver\<close> composes the database with the solver: what the solver
    relies on holds for every opened database in which no package has an empty version. \<open>Database_Example\<close> has a small run.
  \<^item> \<open>Files\<close>, \<open>Files_Inv\<close> (\<^verbatim>\<open>database.c\<close>): the directories and files of packages and the creator of an
    installed package. The locale \<open>name_order\<close> is the contract of arrays that are sorted and searched by
    name, interpreted for directory instances and for files; lookup in the partly sorted array is exact.
  \<^item> \<open>Fdb\<close>, \<open>Fdb_Index\<close> (\<^verbatim>\<open>database.c\<close>): the text of package indexes and of the list of installed packages,
    written and read; an index entry reads back as the package it was written for. \<open>Fdb_Files\<close> has the
    contents of the creator as a list of directories with files, \<open>Fdb_Installed\<close> the lines of an installed
    package and their reading, \<open>Fdb_Roundtrip\<close> the entry as a whole.
  \<^item> \<open>Adb\<close>, \<open>Adb_Write\<close> (\<^verbatim>\<open>adb.c\<close>): the binary database: values of 32 bits that point into the bytes of the
    database, the writer that stores equal data once, and copying between databases. \<open>denotes\<close> is the tree
    that a value means; the writer only appends, so trees that were written stay. Sizes are limited to the
    28 bits of an offset (\<open>room\<close>); an example shows what happens beyond.
  \<^item> \<open>Adb_Block\<close>, \<open>Adb_Parse\<close> (\<^verbatim>\<open>adb.c\<close>, \<^verbatim>\<open>adb.h\<close>): containers of blocks and their parser with the decision
    about trust. Fuel of one more than the bytes of the data is enough for the parser unless the size of a
    block that it comes to wraps around.
  \<^item> \<open>Adb_Obj\<close>, \<open>Adb_Schema\<close>, \<open>Adb_Object\<close> (\<^verbatim>\<open>adb.c\<close>, \<^verbatim>\<open>apk_adb.c\<close>): objects and arrays that are read and
    written by schema, their comparison, search and sorting; the schemas of packages and indexes with the
    conversion from and to text. What is put into an object is read back, dependencies keep their text.

  \<^item> \<open>Fsys\<close> (\<^verbatim>\<open>fs_fsys.c\<close>, \<^verbatim>\<open>fs_uvol.c\<close>, \<^verbatim>\<open>io.c\<close>): files on the disk. The disk maps paths to inodes; an argument
    decides which system calls fail. Files are extracted under temporary names and moved.
  \<^item> \<open>Install\<close>, \<open>Install_Safe\<close>, \<open>Install_Extract\<close>, \<open>Install_Inside\<close> (\<^verbatim>\<open>database.c\<close>): installing, upgrading and
    removing a package. Extracting an entry cannot lead out of the root directory, changed files of protected directories stay, the package
    becomes the owner of its files, and what is in the archive is what is on the disk, apart from extended attributes. Moving takes
    one pass for each of the two kinds of file systems, and this fuel is shown to be enough.

  \<^bold>\<open>Not modelled.\<close> Code that only calls the system or a library (process execution, compression, the
  network, signatures), the readers of package archives (what they report is an argument of the
  installation), the directories of the disk, printing of progress and warnings, and the command line.
  System calls, \<^verbatim>\<open>malloc\<close>, formatted printing and digests that the modelled code relies on are
  arguments of the definitions.
\<close>

end
